(* ===== verification/Prelude.thy ===== *)
theory Prelude
  imports Complex_Main
begin

text \<open>
  What every component of the HotSpot tool model shares: the outcomes of a C routine as a
  sum type, array accesses with their bounds written out, the counted loop of C, and the
  macros of \<open>hotspot_tool/util.h\<close>.

  A routine that can stop the program returns \<open>'a res\<close>: \<open>Inl e\<close> when it stops, \<open>Inr x\<close>
  when it returns \<open>x\<close>. \<open>Fatal\<close> is a call of \<open>fatal\<close>; \<open>OutOfBounds\<close> is an array access
  outside the allocated cells (undefined behaviour in C, so a theorem that says \<open>Inr\<close> is
  also a memory-safety theorem); \<open>Negative\<close> is a negative value where the model keeps a
  natural number; \<open>NonFinite\<close> is a floating-point operation whose result is not a finite
  number. Values of type \<open>double\<close> are modelled as exact real numbers: rounding is not
  modelled.
\<close>

section \<open>Outcomes\<close>

datatype err = Fatal string | OutOfBounds | Negative | NonFinite

type_synonym 'a res = "err + 'a"

named_theorems res_simps \<open>evaluation of outcomes, array accesses and loops\<close>

definition rbind :: "'a res \<Rightarrow> ('a \<Rightarrow> 'b res) \<Rightarrow> 'b res" where
  "rbind m f = (case m of Inl e \<Rightarrow> Inl e | Inr x \<Rightarrow> f x)"

lemma rbind_Inr [simp, res_simps]: "rbind (Inr x) f = f x"
  by (simp add: rbind_def)

lemma rbind_Inl [simp, res_simps]: "rbind (Inl e) f = Inl e"
  by (simp add: rbind_def)

lemma rbind_eq_Inr: "rbind m f = Inr y \<longleftrightarrow> (\<exists>x. m = Inr x \<and> f x = Inr y)"
  by (cases m) auto

lemma rbind_eq_InrE [elim!]:
  assumes "rbind m f = Inr y"
  obtains x where "m = Inr x" and "f x = Inr y"
  using assms by (auto simp: rbind_eq_Inr)

lemma rbind_eq_Inl: "rbind m f = Inl e \<longleftrightarrow> m = Inl e \<or> (\<exists>x. m = Inr x \<and> f x = Inl e)"
  by (cases m) auto

lemma rbind_cong [fundef_cong]:
  "m = m' \<Longrightarrow> (\<And>x. m' = Inr x \<Longrightarrow> f x = f' x) \<Longrightarrow> rbind m f = rbind m' f'"
  by (cases m') auto

lemma rbind_assoc: "rbind (rbind m f) g = rbind m (\<lambda>x. rbind (f x) g)"
  by (cases m) auto

lemma rbind_Inr_right [simp]: "rbind m Inr = m"
  by (cases m) auto

definition returns :: "'a res \<Rightarrow> bool" where
  "returns m = (case m of Inl _ \<Rightarrow> False | Inr _ \<Rightarrow> True)"

lemma returns_simps [simp, res_simps]: "returns (Inr x)" "\<not> returns (Inl e)"
  by (simp_all add: returns_def)

lemma returns_iff: "returns m \<longleftrightarrow> (\<exists>x. m = Inr x)"
  by (cases m) auto

section \<open>Arrays\<close>

text \<open>An array of C is the list of its allocated cells.\<close>

definition rd :: "'a list \<Rightarrow> nat \<Rightarrow> 'a res" where
  "rd xs i = (if i < length xs then Inr (xs ! i) else Inl OutOfBounds)"

definition wr :: "'a list \<Rightarrow> nat \<Rightarrow> 'a \<Rightarrow> 'a list res" where
  "wr xs i x = (if i < length xs then Inr (xs[i := x]) else Inl OutOfBounds)"

lemma rd_in [simp, res_simps]: "i < length xs \<Longrightarrow> rd xs i = Inr (xs ! i)"
  by (simp add: rd_def)

lemma wr_in [simp, res_simps]: "i < length xs \<Longrightarrow> wr xs i x = Inr (xs[i := x])"
  by (simp add: wr_def)

lemma rd_eq_Inr: "rd xs i = Inr x \<longleftrightarrow> i < length xs \<and> xs ! i = x"
  by (auto simp: rd_def)

lemma wr_eq_Inr: "wr xs i x = Inr ys \<longleftrightarrow> i < length xs \<and> ys = xs[i := x]"
  by (auto simp: wr_def)

text \<open>Accesses with a signed index, as in a binary search over \<open>int\<close> bounds.\<close>

definition rdi :: "'a list \<Rightarrow> int \<Rightarrow> 'a res" where
  "rdi xs i = (if i < 0 then Inl OutOfBounds else rd xs (nat i))"

definition nat_of :: "int \<Rightarrow> nat res" where
  "nat_of z = (if z < 0 then Inl Negative else Inr (nat z))"

lemma rdi_in [simp, res_simps]: "0 \<le> i \<Longrightarrow> i < int (length xs) \<Longrightarrow> rdi xs i = Inr (xs ! nat i)"
  by (simp add: rdi_def rd_def)

lemma rdi_eq_Inr: "rdi xs i = Inr x \<longleftrightarrow> 0 \<le> i \<and> i < int (length xs) \<and> xs ! nat i = x"
  by (auto simp: rdi_def rd_def)

lemma nat_of_ok [simp, res_simps]: "0 \<le> z \<Longrightarrow> nat_of z = Inr (nat z)"
  by (simp add: nat_of_def)

text \<open>Integer division of C truncates towards zero.\<close>

definition c_div :: "int \<Rightarrow> int \<Rightarrow> int" where
  "c_div a b = sgn a * sgn b * (\<bar>a\<bar> div \<bar>b\<bar>)"

lemma c_div_nonneg [simp]: "0 \<le> a \<Longrightarrow> 0 < b \<Longrightarrow> c_div a b = a div b"
  by (cases "a = 0") (simp_all add: c_div_def)

lemma c_div2_between: "a \<le> b \<Longrightarrow> a \<le> c_div (a + b) 2 \<and> c_div (a + b) 2 \<le> b"
  by (cases "0 \<le> a + b") (simp_all add: c_div_def sgn_if, linarith+)

section \<open>Counted loops\<close>

text \<open>
  \<open>for (i = lo; i < hi; i++) body\<close>: \<open>body\<close> maps the loop index and the state to the next
  state, or stops.
\<close>

function for_up :: "nat \<Rightarrow> nat \<Rightarrow> (nat \<Rightarrow> 's \<Rightarrow> 's res) \<Rightarrow> 's \<Rightarrow> 's res" where
  "for_up lo hi body s =
     (if lo < hi then rbind (body lo s) (\<lambda>s'. for_up (Suc lo) hi body s') else Inr s)"
  by pat_completeness auto
termination
  by (relation "measure (\<lambda>(lo, hi, body, s). hi - lo)") auto

declare for_up.simps [simp del]

lemma for_up_done [simp, res_simps]: "hi \<le> lo \<Longrightarrow> for_up lo hi body s = Inr s"
  by (simp add: for_up.simps [of lo hi])

lemma for_up_step [res_simps]:
  "lo < hi \<Longrightarrow> for_up lo hi body s = rbind (body lo s) (for_up (Suc lo) hi body)"
  by (simp add: for_up.simps [of lo hi])

lemma for_up_cong [fundef_cong]:
  assumes "lo = lo'" "hi = hi'" "s = s'"
    and "\<And>i t. lo' \<le> i \<Longrightarrow> i < hi' \<Longrightarrow> body i t = body' i t"
  shows "for_up lo hi body s = for_up lo' hi' body' s'"
proof -
  have "for_up lo' hi' body s = for_up lo' hi' body' s"
    using assms(4)
  proof (induction lo' hi' body s rule: for_up.induct)
    case (1 lo hi body s)
    show ?case
    proof (cases "lo < hi")
      case True
      have "for_up lo hi body s = rbind (body lo s) (for_up (Suc lo) hi body)"
        using True by (rule for_up_step)
      also have "\<dots> = rbind (body' lo s) (for_up (Suc lo) hi body')"
        using True 1 by (intro rbind_cong) auto
      finally show ?thesis using True by (simp add: for_up_step)
    next
      case False
      then show ?thesis by simp
    qed
  qed
  with assms(1,2,3) show ?thesis by simp
qed

text \<open>
  The loop rule: an invariant indexed by the loop counter, kept by every iteration, none of
  which stops. It gives both that the loop returns and what it returns.
\<close>

lemma for_up_rule:
  assumes "lo \<le> hi" "I lo s"
    and step: "\<And>i t. lo \<le> i \<Longrightarrow> i < hi \<Longrightarrow> I i t \<Longrightarrow> \<exists>t'. body i t = Inr t' \<and> I (Suc i) t'"
  shows "\<exists>t. for_up lo hi body s = Inr t \<and> I hi t"
  using assms
proof (induction lo hi body s rule: for_up.induct)
  case (1 lo hi body s)
  show ?case
  proof (cases "lo < hi")
    case True
    obtain t' where t': "body lo s = Inr t'" "I (Suc lo) t'"
      using "1.prems"(3) [of lo s] True "1.prems"(2) by auto
    have "\<exists>t. for_up (Suc lo) hi body t' = Inr t \<and> I hi t"
      using "1.IH" [OF True t'(1)] True t'(2) "1.prems"(3) by auto
    with t' True show ?thesis by (simp add: for_up_step)
  next
    case False
    with "1.prems" show ?thesis by (simp add: le_antisym)
  qed
qed

text \<open>The same rule for partial correctness: what holds if the loop returns.\<close>

lemma for_up_partial:
  assumes "for_up lo hi body s = Inr t" "lo \<le> hi" "I lo s"
    and step: "\<And>i u u'. lo \<le> i \<Longrightarrow> i < hi \<Longrightarrow> I i u \<Longrightarrow> body i u = Inr u' \<Longrightarrow> I (Suc i) u'"
  shows "I hi t"
  using assms
proof (induction lo hi body s rule: for_up.induct)
  case (1 lo hi body s)
  show ?case
  proof (cases "lo < hi")
    case True
    then obtain s' where s': "body lo s = Inr s'" "for_up (Suc lo) hi body s' = Inr t"
      using "1.prems"(1) by (auto simp: for_up_step)
    have "I (Suc lo) s'" using "1.prems"(3,4) s'(1) True by auto
    then show ?thesis
      using "1.IH" [OF True s'(1) s'(2)] True "1.prems"(4) by auto
  next
    case False
    with "1.prems" show ?thesis by (simp add: le_antisym)
  qed
qed

text \<open>A loop is its first iterations followed by the rest.\<close>

lemma for_up_split:
  assumes "lo \<le> mid" "mid \<le> hi"
  shows "for_up lo hi body s = rbind (for_up lo mid body s) (for_up mid hi body)"
  using assms
proof (induction "mid - lo" arbitrary: lo s)
  case (Suc d)
  then have lt: "lo < mid" "lo < hi" by auto
  have "for_up (Suc lo) hi body = (\<lambda>t. rbind (for_up (Suc lo) mid body t) (for_up mid hi body))"
    by (rule ext) (use Suc in simp)
  then show ?case using lt by (simp add: for_up_step rbind_assoc)
qed simp

text \<open>A loop whose body never stops is a fold over the indices.\<close>

lemma for_up_pure:
  assumes "\<And>i t. lo \<le> i \<Longrightarrow> i < hi \<Longrightarrow> body i t = Inr (f i t)"
  shows "for_up lo hi body s = Inr (fold f [lo..<hi] s)"
  using assms
proof (induction lo hi body s rule: for_up.induct)
  case (1 lo hi body s)
  show ?case
  proof (cases "lo < hi")
    case True
    then show ?thesis
      using "1.IH" [OF True] "1.prems" by (simp add: for_up_step upt_conv_Cons)
  qed simp
qed

text \<open>\<open>for (i = n - 1; i >= 0; i--) body\<close>, with the same rule.\<close>

primrec for_down :: "nat \<Rightarrow> (nat \<Rightarrow> 's \<Rightarrow> 's res) \<Rightarrow> 's \<Rightarrow> 's res" where
  "for_down 0 body s = Inr s"
| "for_down (Suc i) body s = rbind (body i s) (for_down i body)"

lemma for_down_rule:
  assumes "I n s" and step: "\<And>i t. i < n \<Longrightarrow> I (Suc i) t \<Longrightarrow> \<exists>t'. body i t = Inr t' \<and> I i t'"
  shows "\<exists>t. for_down n body s = Inr t \<and> I 0 t"
  using assms
proof (induction n arbitrary: s)
  case (Suc n)
  obtain t' where "body n s = Inr t'" "I n t'" using Suc.prems by blast
  with Suc.IH [of t'] Suc.prems(2) show ?case by simp
qed simp

section \<open>Sequences of statements\<close>

text \<open>The statements of a long straight piece of code, each a step on the state.\<close>

primrec in_order :: "('s \<Rightarrow> 's res) list \<Rightarrow> 's \<Rightarrow> 's res" where
  "in_order [] s = Inr s"
| "in_order (f # fs) s = rbind (f s) (in_order fs)"

lemma in_order_append: "in_order (fs @ gs) s = rbind (in_order fs s) (in_order gs)"
proof (induction fs arbitrary: s)
  case (Cons f fs)
  then have "in_order (fs @ gs) = (\<lambda>t. rbind (in_order fs t) (in_order gs))" by (intro ext)
  then show ?case by (simp add: rbind_assoc)
qed simp

text \<open>The assignment of a computed value.\<close>

definition assign :: "('a \<Rightarrow> 's \<Rightarrow> 's) \<Rightarrow> 'a res \<Rightarrow> 's \<Rightarrow> 's res" where
  "assign put r s = rbind r (\<lambda>x. Inr (put x s))"

lemma assign_simps [simp, res_simps]: "assign put (Inr x) s = Inr (put x s)" "assign put (Inl e) s = Inl e"
  by (simp_all add: assign_def)

section \<open>Macros of util.h\<close>

definition MAXd :: "real \<Rightarrow> real \<Rightarrow> real" where
  "MAXd x y = (if x > y then x else y)"

definition MINd :: "real \<Rightarrow> real \<Rightarrow> real" where
  "MINd x y = (if x < y then x else y)"

definition MAX4 :: "real \<Rightarrow> real \<Rightarrow> real \<Rightarrow> real \<Rightarrow> real" where
  "MAX4 a b c d = MAXd (MAXd (MAXd a b) c) d"

definition MIN4 :: "real \<Rightarrow> real \<Rightarrow> real \<Rightarrow> real \<Rightarrow> real" where
  "MIN4 a b c d = MINd (MINd (MINd a b) c) d"

definition MID3 :: "real \<Rightarrow> real \<Rightarrow> real \<Rightarrow> real" where
  "MID3 a b c = (if MINd a b < c then MINd (MAXd a b) c else MAXd (MINd a b) c)"

lemma MAXd_max [simp]: "MAXd x y = max x y"
  by (simp add: MAXd_def max_def)

lemma MINd_min [simp]: "MINd x y = min x y"
  by (simp add: MINd_def min_def)

definition DELTA :: real where
  "DELTA = 1 / 1000000"

definition LARGENUM :: real where
  "LARGENUM = 10 ^ 100"

text \<open>Conversion of a \<open>double\<close> to \<open>int\<close> truncates towards zero.\<close>

definition c_trunc :: "real \<Rightarrow> int" where
  "c_trunc x = (if 0 \<le> x then \<lfloor>x\<rfloor> else \<lceil>x\<rceil>)"

text \<open>Divisions and square roots whose result a \<open>double\<close> can hold as a finite number.\<close>

definition fdiv :: "real \<Rightarrow> real \<Rightarrow> real res" where
  "fdiv x y = (if y = 0 then Inl NonFinite else Inr (x / y))"

definition fsqrt :: "real \<Rightarrow> real res" where
  "fsqrt x = (if x < 0 then Inl NonFinite else Inr (sqrt x))"

lemma fdiv_ok [simp, res_simps]: "y \<noteq> 0 \<Longrightarrow> fdiv x y = Inr (x / y)"
  by (simp add: fdiv_def)

lemma fsqrt_ok [simp, res_simps]: "0 \<le> x \<Longrightarrow> fsqrt x = Inr (sqrt x)"
  by (simp add: fsqrt_def)

section \<open>Lists\<close>

lemma take_Suc_update: "i < length xs \<Longrightarrow> take (Suc i) (xs[i := x]) = take i xs @ [x]"
  by (simp add: take_Suc_conv_app_nth)

lemma filter_upt_Suc:
  "filter P [0..<Suc n] = filter P [0..<n] @ (if P n then [n] else [])"
  by simp

lemma length_filter_upt: "length (filter P [0..<n]) \<le> n"
  by (rule order_trans [OF length_filter_le]) simp

lemma sorted_filter_upt: "sorted (filter P [0..<n])"
  by (simp add: sorted_wrt_filter)

end
