(* ===== verification/Util_Base.thy ===== *)
theory Util_Base
  imports Prelude "HOL-Library.Word"
begin

text \<open>
  The scalar and vector helpers of \<open>hotspot_tool/util.c\<close>: tolerant comparison and rounding,
  swaps, vector and matrix routines, the random number helpers, the linear search and the
  population count.
\<close>

unbundle bit_operations_syntax

section \<open>Tolerant comparison and rounding\<close>

definition eq :: "real \<Rightarrow> real \<Rightarrow> bool" where
  "eq x y = (\<bar>x - y\<bar> < DELTA)"

definition le :: "real \<Rightarrow> real \<Rightarrow> bool" where
  "le x y = (x < y \<or> eq x y)"

definition ge :: "real \<Rightarrow> real \<Rightarrow> bool" where
  "ge x y = (x > y \<or> eq x y)"

definition tolerant_ceil :: "real \<Rightarrow> int" where
  "tolerant_ceil val =
     (let nearest = \<lfloor>val + 1/2\<rfloor> in
      if eq val (of_int nearest) then nearest else \<lceil>val\<rceil>)"

definition tolerant_floor :: "real \<Rightarrow> int" where
  "tolerant_floor val =
     (let nearest = \<lfloor>val + 1/2\<rfloor> in
      if eq val (of_int nearest) then nearest else \<lfloor>val\<rfloor>)"

lemma DELTA_pos [simp]: "0 < DELTA"
  by (simp add: DELTA_def)

lemma eq_refl [simp]: "eq x x"
  by (simp add: eq_def)

lemma eq_sym: "eq x y = eq y x"
  by (simp add: eq_def abs_minus_commute)

lemma eq_shift [simp]: "eq (x + c) (y + c) = eq x y"
  by (simp add: eq_def)

lemma le_total: "le x y \<or> le y x"
  by (metis le_def linorder_neqE_linordered_idom eq_refl)

lemma ge_le: "ge x y = le y x"
  by (auto simp: ge_def le_def eq_sym)

lemma le_and_ge_iff_eq: "le x y \<and> ge x y \<longleftrightarrow> eq x y"
  by (auto simp: le_def ge_def)

lemma nearest_bounds:
  "of_int \<lfloor>val + 1/2\<rfloor> \<le> (val::real) + 1/2" "val - 1/2 < of_int \<lfloor>val + 1/2\<rfloor>"
  by linarith+

text \<open>The tolerant ceiling is the least integer not below the value less the tolerance.\<close>

lemma tolerant_ceil_lower: "val - DELTA < of_int (tolerant_ceil val)"
proof (cases "eq val (of_int \<lfloor>val + 1/2\<rfloor>)")
  case True
  then show ?thesis by (simp add: tolerant_ceil_def eq_def abs_less_iff)
next
  case False
  have "val \<le> of_int \<lceil>val\<rceil>" by linarith
  then show ?thesis
    using False DELTA_pos unfolding tolerant_ceil_def Let_def if_not_P [OF False] by linarith
qed

lemma tolerant_ceil_upper: "of_int (tolerant_ceil val) < val + 1"
proof (cases "eq val (of_int \<lfloor>val + 1/2\<rfloor>)")
  case True
  then have "\<bar>val - of_int \<lfloor>val + 1/2\<rfloor>\<bar> < 1" by (simp add: eq_def DELTA_def)
  with True show ?thesis by (simp add: tolerant_ceil_def)
next
  case False
  show ?thesis unfolding tolerant_ceil_def Let_def if_not_P [OF False] by linarith
qed

lemma tolerant_floor_upper: "of_int (tolerant_floor val) < val + DELTA"
proof (cases "eq val (of_int \<lfloor>val + 1/2\<rfloor>)")
  case True
  then show ?thesis by (simp add: tolerant_floor_def eq_def abs_less_iff)
next
  case False
  have "of_int \<lfloor>val\<rfloor> \<le> val" by linarith
  then show ?thesis
    using DELTA_pos unfolding tolerant_floor_def Let_def if_not_P [OF False] by linarith
qed

lemma tolerant_floor_lower: "val - 1 < of_int (tolerant_floor val)"
proof (cases "eq val (of_int \<lfloor>val + 1/2\<rfloor>)")
  case True
  then have "\<bar>val - of_int \<lfloor>val + 1/2\<rfloor>\<bar> < 1" by (simp add: eq_def DELTA_def)
  with True show ?thesis by (simp add: tolerant_floor_def)
next
  case False
  show ?thesis unfolding tolerant_floor_def Let_def if_not_P [OF False] by linarith
qed

lemma tolerant_round_int [simp]:
  "tolerant_ceil (of_int k) = k" "tolerant_floor (of_int k) = k"
proof -
  have "\<lfloor>of_int k + 1/2 :: real\<rfloor> = k" by linarith
  then show "tolerant_ceil (of_int k) = k" "tolerant_floor (of_int k) = k"
    by (simp_all add: tolerant_ceil_def tolerant_floor_def)
qed

section \<open>Swaps\<close>

text \<open>The two cells are returned in the order of the parameters.\<close>

definition swap_ival :: "int \<Rightarrow> int \<Rightarrow> int \<times> int" where
  "swap_ival a b = (let t = a; a = b; b = t in (a, b))"

definition swap_dval :: "real \<Rightarrow> real \<Rightarrow> real \<times> real" where
  "swap_dval a b = (let t = a; a = b; b = t in (a, b))"

lemma swap_dval_simp [simp]: "swap_dval a b = (b, a)"
  by (simp add: swap_dval_def)

lemma swap_ival_simp [simp]: "swap_ival a b = (b, a)"
  by (simp add: swap_ival_def)

section \<open>Vectors\<close>

definition dvector :: "nat \<Rightarrow> real list" where
  "dvector n = replicate n 0"

definition ivector :: "nat \<Rightarrow> int list" where
  "ivector n = replicate n 0"

text \<open>\<open>memmove\<close> of \<open>n\<close> elements: both arrays must hold them.\<close>

definition copy_vector :: "'a list \<Rightarrow> 'a list \<Rightarrow> nat \<Rightarrow> 'a list res" where
  "copy_vector dst src n =
     (if n \<le> length dst \<and> n \<le> length src then Inr (take n src @ drop n dst)
      else Inl OutOfBounds)"

definition copy_dvector :: "real list \<Rightarrow> real list \<Rightarrow> nat \<Rightarrow> real list res" where
  "copy_dvector dst src n = copy_vector dst src n"

definition copy_ivector :: "int list \<Rightarrow> int list \<Rightarrow> nat \<Rightarrow> int list res" where
  "copy_ivector dst src n = copy_vector dst src n"

definition zero_dvector :: "real list \<Rightarrow> nat \<Rightarrow> real list res" where
  "zero_dvector v n =
     (if n \<le> length v then Inr (replicate n 0 @ drop n v) else Inl OutOfBounds)"

definition zero_ivector :: "int list \<Rightarrow> nat \<Rightarrow> int list res" where
  "zero_ivector v n =
     (if n \<le> length v then Inr (replicate n 0 @ drop n v) else Inl OutOfBounds)"

definition sum_dvector :: "real list \<Rightarrow> nat \<Rightarrow> real res" where
  "sum_dvector v n =
     for_up 0 n (\<lambda>i sum. rbind (rd v i) (\<lambda>x. Inr (sum + x))) 0"

lemma sum_dvector_sum:
  assumes "n \<le> length v"
  shows "sum_dvector v n = Inr (\<Sum>i<n. v ! i)"
proof -
  have "\<exists>t. for_up 0 n (\<lambda>i sum. rbind (rd v i) (\<lambda>x. Inr (sum + x))) 0 = Inr t
      \<and> t = (\<Sum>i<n. v ! i)"
    by (rule for_up_rule [where I = "\<lambda>i t. t = (\<Sum>k<i. v ! k)"])
      (use assms in \<open>auto simp: lessThan_Suc\<close>)
  then show ?thesis by (auto simp: sum_dvector_def)
qed

lemma nth_copy_vector:
  assumes "copy_vector dst src n = Inr v"
  shows "length v = length dst"
    and "i < length dst \<Longrightarrow> v ! i = (if i < n then src ! i else dst ! i)"
  using assms by (auto simp: copy_vector_def nth_append split: if_splits)

section \<open>Matrices\<close>

text \<open>
  \<open>dmatrix\<close> allocates one block of \<open>nr * nc\<close> cells and the row pointers \<open>m[i] = m[0] + nc * i\<close>;
  a matrix of the model is that block with the number of columns the row pointers were set
  up with, and \<open>dcuboid_tail\<close> is the same with layers and a tail of \<open>xtra\<close> cells.
\<close>

record dmat =
  cells :: "real list"
  ncols :: nat

definition dmatrix :: "nat \<Rightarrow> nat \<Rightarrow> dmat" where
  "dmatrix nr nc = \<lparr>cells = replicate (nr * nc) 0, ncols = nc\<rparr>"

definition mget :: "dmat \<Rightarrow> nat \<Rightarrow> nat \<Rightarrow> real res" where
  "mget m i j = rd (cells m) (ncols m * i + j)"

definition mset_at :: "dmat \<Rightarrow> nat \<Rightarrow> nat \<Rightarrow> real \<Rightarrow> dmat res" where
  "mset_at m i j x =
     rbind (wr (cells m) (ncols m * i + j) x) (\<lambda>c. Inr (m\<lparr>cells := c\<rparr>))"

definition copy_dmatrix :: "dmat \<Rightarrow> dmat \<Rightarrow> nat \<Rightarrow> nat \<Rightarrow> dmat res" where
  "copy_dmatrix dst src nr nc =
     rbind (copy_vector (cells dst) (cells src) (nr * nc)) (\<lambda>c. Inr (dst\<lparr>cells := c\<rparr>))"

definition zero_dmatrix :: "dmat \<Rightarrow> nat \<Rightarrow> nat \<Rightarrow> dmat res" where
  "zero_dmatrix m nr nc =
     rbind (zero_dvector (cells m) (nr * nc)) (\<lambda>c. Inr (m\<lparr>cells := c\<rparr>))"

text \<open>Resizing sets the row pointers \<open>m[1], ..., m[nr-1]\<close> up again: the cells stay.\<close>

definition resize_dmatrix :: "dmat \<Rightarrow> nat \<Rightarrow> nat \<Rightarrow> dmat" where
  "resize_dmatrix m nr nc = m\<lparr>ncols := nc\<rparr>"

text \<open>Mirror the lower triangle.\<close>

definition mirror_dmatrix :: "dmat \<Rightarrow> nat \<Rightarrow> dmat res" where
  "mirror_dmatrix m n =
     for_up 0 n (\<lambda>i m. for_up 0 i (\<lambda>j m.
       rbind (mget m i j) (\<lambda>x. mset_at m j i x)) m) m"

text \<open>Offset of the row \<open>m[i][j]\<close> of a cuboid with \<open>nr\<close> rows and \<open>nc\<close> columns.\<close>

definition dcuboid_row :: "nat \<Rightarrow> nat \<Rightarrow> nat \<Rightarrow> nat \<Rightarrow> nat" where
  "dcuboid_row nr nc i j = nr * nc * i + nc * j"

lemma index_in_matrix: "i < nr \<Longrightarrow> j < nc \<Longrightarrow> nc * i + j < nr * (nc::nat)"
proof -
  assume "i < nr" "j < nc"
  then have "nc * i + j < nc * Suc i" by simp
  also have "\<dots> \<le> nc * nr" using \<open>i < nr\<close> by (intro mult_le_mono2) simp
  finally show ?thesis by (simp add: mult.commute)
qed

lemma index_inj:
  assumes "j < nc" "j' < (nc::nat)" "nc * i + j = nc * i' + j'"
  shows "i = i' \<and> j = j'"
proof -
  have "i = (nc * i + j) div nc" "i' = (nc * i' + j') div nc"
    "j = (nc * i + j) mod nc" "j' = (nc * i' + j') mod nc"
    using assms(1,2) by auto
  with assms(3) show ?thesis by metis
qed

lemma dcuboid_in_bounds:
  assumes "i < nl" "j < nr" "k < nc"
  shows "dcuboid_row nr nc i j + k < nl * nr * nc"
proof -
  have "nc * j + k < nr * nc" using assms by (intro index_in_matrix)
  then have "nr * nc * i + (nc * j + k) < nl * (nr * nc)"
    using assms(1) index_in_matrix by blast
  then show ?thesis by (simp add: dcuboid_row_def algebra_simps)
qed

lemma dcuboid_rows_disjoint:
  assumes "j < nr" "k < nc" "j' < nr" "k' < nc"
    and "dcuboid_row nr nc i j + k = dcuboid_row nr nc i' j' + k'"
  shows "i = i' \<and> j = j' \<and> k = k'"
proof -
  have "nc * j + k < nr * nc" "nc * j' + k' < nr * nc"
    using assms by (auto intro: index_in_matrix)
  moreover have "nr * nc * i + (nc * j + k) = nr * nc * i' + (nc * j' + k')"
    using assms(5) by (simp add: dcuboid_row_def)
  ultimately have "i = i'" "nc * j + k = nc * j' + k'"
    using index_inj by blast+
  with index_inj [OF assms(2,4)] show ?thesis by blast
qed

text \<open>A matrix as a function of its indices, and the shape \<open>dmatrix\<close> allocates.\<close>

definition mat_at :: "dmat \<Rightarrow> nat \<Rightarrow> nat \<Rightarrow> real" where
  "mat_at m i j = cells m ! (ncols m * i + j)"

definition dmat_ok :: "dmat \<Rightarrow> nat \<Rightarrow> nat \<Rightarrow> bool" where
  "dmat_ok m nr nc \<longleftrightarrow> ncols m = nc \<and> length (cells m) = nr * nc"

lemma dmatrix_ok: "dmat_ok (dmatrix nr nc) nr nc"
  by (simp add: dmat_ok_def dmatrix_def)

lemma mget_ok [simp, res_simps]:
  "dmat_ok m nr nc \<Longrightarrow> i < nr \<Longrightarrow> j < nc \<Longrightarrow> mget m i j = Inr (mat_at m i j)"
  by (simp add: mget_def mat_at_def dmat_ok_def index_in_matrix)

lemma mset_ok:
  assumes "dmat_ok m nr nc" "i < nr" "j < nc"
  shows "\<exists>m'. mset_at m i j x = Inr m' \<and> dmat_ok m' nr nc \<and>
    (\<forall>k < nr. \<forall>l < nc. mat_at m' k l = (if k = i \<and> l = j then x else mat_at m k l))"
proof -
  have len: "nc * i + j < length (cells m)" "ncols m = nc"
    using assms by (auto simp: dmat_ok_def index_in_matrix)
  have "mat_at (m\<lparr>cells := (cells m)[nc * i + j := x]\<rparr>) k l
      = (if k = i \<and> l = j then x else mat_at m k l)" if "k < nr" "l < nc" for k l
    using that len assms(3) index_inj [of l nc j k i]
    by (auto simp: mat_at_def nth_list_update)
  with len assms(1) show ?thesis
    by (auto simp: mset_at_def dmat_ok_def)
qed

lemma mirror_row:
  assumes "dmat_ok m n n" "i < n"
  shows "\<exists>m'. for_up 0 i (\<lambda>j m. rbind (mget m i j) (\<lambda>x. mset_at m j i x)) m = Inr m' \<and>
    dmat_ok m' n n \<and> (\<forall>k < n. \<forall>l < n.
      mat_at m' k l = (if k < i \<and> l = i then mat_at m i k else mat_at m k l))"
proof -
  let ?I = "\<lambda>j m'. dmat_ok m' n n \<and> (\<forall>k < n. \<forall>l < n.
      mat_at m' k l = (if k < j \<and> l = i then mat_at m i k else mat_at m k l))"
  have "\<exists>m''. rbind (mget m' i j) (\<lambda>x. mset_at m' j i x) = Inr m'' \<and> ?I (Suc j) m''"
    if j: "j < i" and I: "?I j m'" for j m'
  proof -
    have "mget m' i j = Inr (mat_at m i j)"
      using mget_ok [of m' n n i j] j I assms by auto
    moreover obtain m'' where "mset_at m' j i (mat_at m i j) = Inr m''" "dmat_ok m'' n n"
      "\<forall>k < n. \<forall>l < n. mat_at m'' k l = (if k = j \<and> l = i then mat_at m i j else mat_at m' k l)"
      using mset_ok [OF I [THEN conjunct1] less_trans [OF j assms(2)] assms(2),
        of "mat_at m i j"] by blast
    ultimately show ?thesis using I j assms by auto
  qed
  then show ?thesis
    using for_up_rule [of 0 i ?I m] assms by simp
qed

lemma mirror_dmatrix_symmetric:
  assumes "dmat_ok m n n"
  shows "\<exists>m'. mirror_dmatrix m n = Inr m' \<and> dmat_ok m' n n \<and>
    (\<forall>i < n. \<forall>j < n. mat_at m' i j = mat_at m (max i j) (min i j))"
proof -
  let ?I = "\<lambda>i m'. dmat_ok m' n n \<and> (\<forall>k < n. \<forall>l < n.
      mat_at m' k l = (if k < l \<and> l < i then mat_at m l k else mat_at m k l))"
  have "\<exists>m''. for_up 0 i (\<lambda>j m. rbind (mget m i j) (\<lambda>x. mset_at m j i x)) m' = Inr m'' \<and> ?I (Suc i) m''"
    if i: "i < n" and I: "?I i m'" for i m'
  proof -
    obtain m'' where m'': "for_up 0 i (\<lambda>j m. rbind (mget m i j) (\<lambda>x. mset_at m j i x)) m' = Inr m''"
      "dmat_ok m'' n n"
      "\<forall>k < n. \<forall>l < n. mat_at m'' k l = (if k < i \<and> l = i then mat_at m' i k else mat_at m' k l)"
      using mirror_row [OF I [THEN conjunct1] i] by blast
    have row: "mat_at m'' k l = (if k < l \<and> l < Suc i then mat_at m l k else mat_at m k l)"
      if "k < n" "l < n" for k l
      using m''(3) [rule_format, OF that] I [THEN conjunct2, rule_format, OF that]
        I [THEN conjunct2, rule_format, OF i that(1)]
      by (cases "l = i"; cases "k < l") (simp_all add: less_Suc_eq)
    show ?thesis by (intro exI [of _ m''] conjI allI impI m''(1,2)) (rule row)
  qed
  then have "\<exists>m'. mirror_dmatrix m n = Inr m' \<and> ?I n m'"
    unfolding mirror_dmatrix_def
    using for_up_rule [of 0 n ?I m "\<lambda>i m. for_up 0 i (\<lambda>j m.
       rbind (mget m i j) (\<lambda>x. mset_at m j i x)) m"] assms by simp
  then show ?thesis by (auto simp: max_def min_def)
qed

section \<open>Random numbers\<close>

text \<open>
  The C library's \<open>rand\<close> is a parameter: \<open>rnd n\<close> is the value of its \<open>n\<close>-th call after
  \<open>srand\<close>, and a routine that draws numbers passes the index of the next call on. What is
  documented of it is the range of its values.
\<close>

definition RAND_MAX :: int where
  "RAND_MAX = 2147483647"

definition rand_ok :: "(nat \<Rightarrow> int) \<Rightarrow> bool" where
  "rand_ok rnd \<longleftrightarrow> (\<forall>n. 0 \<le> rnd n \<and> rnd n \<le> RAND_MAX)"

definition rand_upto :: "(nat \<Rightarrow> int) \<Rightarrow> int \<Rightarrow> nat \<Rightarrow> int \<times> nat" where
  "rand_upto rnd m s =
     (c_trunc (of_int m * of_int (rnd s) / (of_int RAND_MAX + 1)), Suc s)"

definition rand_fraction :: "(nat \<Rightarrow> int) \<Rightarrow> nat \<Rightarrow> real \<times> nat" where
  "rand_fraction rnd s = (of_int (rnd s) / (of_int RAND_MAX + 1), Suc s)"

lemma rand_fraction_range:
  assumes "rand_ok rnd"
  shows "0 \<le> fst (rand_fraction rnd s) \<and> fst (rand_fraction rnd s) < 1"
proof -
  have "0 \<le> rnd s" "rnd s \<le> RAND_MAX" using assms by (auto simp: rand_ok_def)
  then show ?thesis by (simp add: rand_fraction_def RAND_MAX_def)
qed

lemma rand_upto_range:
  assumes "rand_ok rnd" "0 < m"
  shows "0 \<le> fst (rand_upto rnd m s) \<and> fst (rand_upto rnd m s) < m"
proof -
  let ?q = "of_int m * of_int (rnd s) / (of_int RAND_MAX + 1) :: real"
  have r: "0 \<le> rnd s" "rnd s \<le> RAND_MAX" using assms by (auto simp: rand_ok_def)
  have q0: "0 \<le> ?q" using r assms(2) by (simp add: RAND_MAX_def)
  have "of_int m * (of_int (rnd s) / (of_int RAND_MAX + 1)) < of_int m * (1::real)"
    using r assms(2) by (intro mult_strict_left_mono) (simp_all add: RAND_MAX_def)
  then have "?q < of_int m" by simp
  with q0 show ?thesis by (simp add: rand_upto_def c_trunc_def floor_less_iff)
qed

lemma snd_rand_upto [simp]: "snd (rand_upto rnd m s) = Suc s"
  by (simp add: rand_upto_def)

section \<open>Linear search and population count\<close>

function contains_loop :: "int list \<Rightarrow> nat \<Rightarrow> int \<Rightarrow> nat \<Rightarrow> int res" where
  "contains_loop array sz value i =
     (if i < sz then
        rbind (rd array i) (\<lambda>x. if x = value then Inr (int i)
                                else contains_loop array sz value (Suc i))
      else Inr (-1))"
  by pat_completeness auto
termination
  by (relation "measure (\<lambda>(a, n, v, i). n - i)") auto

declare contains_loop.simps [simp del]

definition contains :: "int list \<Rightarrow> nat \<Rightarrow> int \<Rightarrow> int res" where
  "contains array sz value = contains_loop array sz value 0"

lemma contains_loop_found:
  assumes "sz \<le> length array" "i \<le> k" "k < sz" "array ! k = value"
    and "\<And>l. i \<le> l \<Longrightarrow> l < k \<Longrightarrow> array ! l \<noteq> value"
  shows "contains_loop array sz value i = Inr (int k)"
  using assms
proof (induction array sz "value" i rule: contains_loop.induct)
  case (1 array sz "value" i)
  show ?case
  proof (cases "i = k")
    case True
    with "1.prems" show ?thesis by (simp add: contains_loop.simps [of array sz "value" k])
  next
    case False
    then have "array ! i \<noteq> value" "i < sz" "Suc i \<le> k" using "1.prems" by auto
    then show ?thesis
      using "1.IH" [of "array ! i"] "1.prems"
      by (simp add: contains_loop.simps [of array sz "value" i])
  qed
qed

lemma contains_loop_none:
  assumes "sz \<le> length array" "\<And>l. i \<le> l \<Longrightarrow> l < sz \<Longrightarrow> array ! l \<noteq> value"
  shows "contains_loop array sz value i = Inr (-1)"
  using assms
proof (induction array sz "value" i rule: contains_loop.induct)
  case (1 array sz "value" i)
  then show ?case
    by (cases "i < sz") (simp_all add: contains_loop.simps [of array sz "value" i])
qed

definition ones8 :: "8 word \<Rightarrow> 32 word" where
  "ones8 n =
     (let n = n - (drop_bit 1 n AND 0x55);
          n = (n AND 0x33) + (drop_bit 2 n AND 0x33);
          n = (n + drop_bit 4 n) AND 0x0F
      in ucast n)"

text \<open>The population count: the number of bits that are set.\<close>

definition popcount8 :: "8 word \<Rightarrow> nat" where
  "popcount8 n = length (filter (bit n) [0..<8])"

lemma upt8: "[0..<8] = [0, 1, 2, 3, 4, 5, 6, 7::nat]"
  by (simp add: upt_rec)

lemma word8_bits:
  fixes n :: "8 word"
  obtains b0 b1 b2 b3 b4 b5 b6 b7 where
    "n = of_bool b0 + 2 * (of_bool b1 + 2 * (of_bool b2 + 2 * (of_bool b3 +
      2 * (of_bool b4 + 2 * (of_bool b5 + 2 * (of_bool b6 + 2 * of_bool b7))))))"
proof -
  have bits: "horner_sum of_bool 2 (map (bit n) [0..<8]) = n"
    by (simp add: horner_sum_bit_eq_take_bit take_bit_word_eq_self)
  then have "of_bool (bit n 0) + 2 * (of_bool (bit n 1) + 2 * (of_bool (bit n 2) +
      2 * (of_bool (bit n 3) + 2 * (of_bool (bit n 4) + 2 * (of_bool (bit n 5) +
      2 * (of_bool (bit n 6) + 2 * of_bool (bit n 7))))))) = n"
    by (simp only: upt8 list.map horner_sum_simps mult_zero_right add_0_right)
  from this [symmetric] show thesis by (rule that)
qed

lemma ones8_popcount8: "unat (ones8 n) = popcount8 n"
proof -
  obtain b0 b1 b2 b3 b4 b5 b6 b7 where n:
    "n = of_bool b0 + 2 * (of_bool b1 + 2 * (of_bool b2 + 2 * (of_bool b3 +
      2 * (of_bool b4 + 2 * (of_bool b5 + 2 * (of_bool b6 + 2 * of_bool b7))))))"
    by (rule word8_bits)
  show ?thesis unfolding n
    by (cases b0; cases b1; cases b2; cases b3; cases b4; cases b5; cases b6; cases b7)
      (simp_all add: ones8_def popcount8_def upt8)
qed

end
