(* ===== verification/NPE.thy ===== *)
theory NPE
  imports Util_Base "HOL-Library.Multiset"
begin

text \<open>
  Normalized Polish expressions, \<open>hotspot_tool/npe.c\<close> and \<open>npe.h\<close>: the encoding of a slicing
  floorplan that simulated annealing works on. An expression is an array of operands (units,
  numbered from 0) and operators (cuts, negative) together with four derived arrays; the moves
  M1, M2 and M3 change the expression and maintain the derived arrays incrementally.
  Array positions are \<open>nat\<close>, elements are \<open>int\<close>; every array keeps its allocated length.
\<close>

section \<open>Data\<close>

definition CUT_NONE :: int where "CUT_NONE = -1"
definition CUT_VERTICAL :: int where "CUT_VERTICAL = -2"
definition CUT_HORIZONTAL :: int where "CUT_HORIZONTAL = -3"

definition MAX_MOVES :: nat where "MAX_MOVES = 16"

record NPE_t =
  elements :: "int list"
  npe_size :: nat
  unit_pos :: "nat list"
  npe_units :: nat
  flip_pos :: "nat list"
  n_flips :: nat
  chain_pos :: "nat list"
  n_chains :: nat
  ballot_count :: "nat list"

section \<open>Derived arrays\<close>

text \<open>\<open>arr[j] = i; j++\<close>\<close>

definition record_pos :: "nat \<Rightarrow> nat list \<times> nat \<Rightarrow> (nat list \<times> nat) res" where
  "record_pos i aj = (case aj of (arr, j) \<Rightarrow> rbind (wr arr j i) (\<lambda>arr. Inr (arr, Suc j)))"

definition fill_unit_pos :: "NPE_t \<Rightarrow> NPE_t res" where
  "fill_unit_pos expr =
     rbind (for_up 0 (npe_size expr)
        (\<lambda>i aj. rbind (rd (elements expr) i) (\<lambda>x.
           if x \<ge> 0 then record_pos i aj else Inr aj))
        (unit_pos expr, 0))
     (\<lambda>(arr, j). Inr (expr\<lparr>unit_pos := arr, npe_units := j\<rparr>))"

definition fill_flip_pos :: "NPE_t \<Rightarrow> NPE_t res" where
  "fill_flip_pos expr =
     rbind (for_up 0 (npe_size expr - 1)
        (\<lambda>i aj. rbind (rd (elements expr) i) (\<lambda>x. rbind (rd (elements expr) (i + 1)) (\<lambda>y.
           if (x < 0 \<and> y \<ge> 0) \<or> (x \<ge> 0 \<and> y < 0) then record_pos i aj else Inr aj)))
        (flip_pos expr, 0))
     (\<lambda>(arr, j). Inr (expr\<lparr>flip_pos := arr, n_flips := j\<rparr>))"

text \<open>Skip a chain of successive cuts; two equal neighbours are an error.\<close>

function skip_chain :: "int list \<Rightarrow> nat \<Rightarrow> nat \<Rightarrow> int \<Rightarrow> nat res" where
  "skip_chain es n i prev =
     (if i < n then
        rbind (rd es i) (\<lambda>x.
          if x < 0 then
            if x = prev then Inl (Fatal ''NPE not normalized'')
            else skip_chain es n (Suc i) x
          else Inr i)
      else Inr i)"
  by pat_completeness auto
termination
  by (relation "measure (\<lambda>(es, n, i, prev). n - i)") auto

declare skip_chain.simps [simp del]

lemma skip_chain_le: "skip_chain es n i prev = Inr i' \<Longrightarrow> i \<le> i'"
proof (induction es n i prev rule: skip_chain.induct)
  case (1 es n i prev)
  then show ?case
    by (subst (asm) skip_chain.simps)
      (fastforce simp: rd_eq_Inr rbind_eq_Inr split: if_splits dest: Suc_leD)
qed

function chain_loop :: "int list \<Rightarrow> nat \<Rightarrow> nat \<Rightarrow> nat list \<times> nat \<Rightarrow> (nat list \<times> nat) res" where
  "chain_loop es n i aj =
     (if i < n then
        rbind (rd es i) (\<lambda>x.
          if x < 0 then
            rbind (record_pos i aj) (\<lambda>aj.
            rbind (skip_chain es n (Suc i) x) (\<lambda>i'. chain_loop es n i' aj))
          else chain_loop es n (Suc i) aj)
      else Inr aj)"
  by pat_completeness auto
termination
  by (relation "measure (\<lambda>(es, n, i, aj). n - i)") (auto dest: skip_chain_le)

declare chain_loop.simps [simp del]

definition fill_chain_pos :: "NPE_t \<Rightarrow> NPE_t res" where
  "fill_chain_pos expr =
     rbind (chain_loop (elements expr) (npe_size expr) 0 (chain_pos expr, 0))
     (\<lambda>(arr, j). Inr (expr\<lparr>chain_pos := arr, n_chains := j\<rparr>))"

definition fill_ballot_count :: "NPE_t \<Rightarrow> NPE_t res" where
  "fill_ballot_count expr =
     rbind (for_up 0 (npe_size expr)
        (\<lambda>i (arr, cnt). rbind (rd (elements expr) i) (\<lambda>x.
           let cnt = (if x < 0 then Suc cnt else cnt) in
           rbind (wr arr i cnt) (\<lambda>arr. Inr (arr, cnt))))
        (ballot_count expr, 0))
     (\<lambda>(arr, cnt). Inr (expr\<lparr>ballot_count := arr\<rparr>))"

section \<open>Construction and copy\<close>

text \<open>\<open>0, 1, V, 2, V, ..., n-1, V\<close>\<close>

function init_elements :: "int list \<Rightarrow> nat \<Rightarrow> nat \<Rightarrow> int list res" where
  "init_elements es n i =
     (if i < n then
        rbind (wr es i (int ((i + 1) div 2))) (\<lambda>es.
        rbind (wr es (i + 1) CUT_VERTICAL) (\<lambda>es. init_elements es n (i + 2)))
      else Inr es)"
  by pat_completeness auto
termination
  by (relation "measure (\<lambda>(es, n, i). n - i)") auto

declare init_elements.simps [simp del]

text \<open>
  The parameter is \<open>flp_desc->n_units\<close>. With no unit the size is \<open>-1\<close> and \<open>calloc\<close> is asked
  for more memory than there is.
\<close>

definition NPE_get_initial :: "nat \<Rightarrow> NPE_t res" where
  "NPE_get_initial n =
     (if n = 0 then Inl (Fatal ''memory allocation error'') else
      let sz = 2 * n - 1 in
      rbind (wr (replicate sz 0) 0 0) (\<lambda>es.
      rbind (init_elements es sz 1) (\<lambda>es.
      let expr = \<lparr>elements = es, npe_size = sz,
            unit_pos = replicate n 0, npe_units = 0,
            flip_pos = replicate sz 0, n_flips = 0,
            chain_pos = replicate (n - 1) 0, n_chains = 0,
            ballot_count = replicate sz 0\<rparr> in
      rbind (fill_unit_pos expr) (\<lambda>expr.
      rbind (fill_flip_pos expr) (\<lambda>expr.
      rbind (fill_chain_pos expr) (\<lambda>expr.
      fill_ballot_count expr))))))"

text \<open>Copy the first \<open>n\<close> elements of \<open>src\<close> into a cleared array of \<open>cap\<close> cells.\<close>

definition copy_prefix :: "nat \<Rightarrow> 'a \<Rightarrow> 'a list \<Rightarrow> nat \<Rightarrow> 'a list res" where
  "copy_prefix cap z src n =
     for_up 0 n (\<lambda>i dst. rbind (rd src i) (\<lambda>x. wr dst i x)) (replicate cap z)"

definition NPE_duplicate :: "NPE_t \<Rightarrow> NPE_t res" where
  "NPE_duplicate expr =
     rbind (copy_prefix (npe_size expr) 0 (elements expr) (npe_size expr)) (\<lambda>es.
     rbind (copy_prefix (npe_units expr) 0 (unit_pos expr) (npe_units expr)) (\<lambda>us.
     rbind (copy_prefix (npe_size expr) 0 (flip_pos expr) (n_flips expr)) (\<lambda>fs.
     rbind (copy_prefix (npe_units expr - 1) 0 (chain_pos expr) (n_chains expr)) (\<lambda>cs.
     rbind (copy_prefix (npe_size expr) 0 (ballot_count expr) (npe_size expr)) (\<lambda>bs.
     Inr \<lparr>elements = es, npe_size = npe_size expr,
          unit_pos = us, npe_units = npe_units expr,
          flip_pos = fs, n_flips = n_flips expr,
          chain_pos = cs, n_chains = n_chains expr,
          ballot_count = bs\<rparr>)))))"

section \<open>Moves\<close>

text \<open>M1: swap the unit at \<open>pos\<close> with the next unit of the expression.\<close>

function next_unit :: "int list \<Rightarrow> nat \<Rightarrow> nat \<Rightarrow> nat res" where
  "next_unit es n i =
     (if i < n then rbind (rd es i) (\<lambda>x. if x \<ge> 0 then Inr i else next_unit es n (Suc i))
      else Inr i)"
  by pat_completeness auto
termination
  by (relation "measure (\<lambda>(es, n, i). n - i)") auto

declare next_unit.simps [simp del]

definition NPE_swap_units :: "NPE_t \<Rightarrow> nat \<Rightarrow> NPE_t res" where
  "NPE_swap_units expr pos =
     rbind (next_unit (elements expr) (npe_size expr) (pos + 1)) (\<lambda>i.
     if i \<ge> npe_size expr then Inl (Fatal ''unable to find adjacent unit'') else
     rbind (rd (elements expr) pos) (\<lambda>t.
     rbind (rd (elements expr) i) (\<lambda>x.
     rbind (wr (elements expr) pos x) (\<lambda>es.
     rbind (wr es i t) (\<lambda>es. Inr (expr\<lparr>elements := es\<rparr>))))))"

text \<open>M2: invert a chain of cuts.\<close>

function invert_loop :: "int list \<Rightarrow> nat \<Rightarrow> nat \<Rightarrow> int \<Rightarrow> int list res" where
  "invert_loop es n i prev =
     (if i < n then
        rbind (rd es i) (\<lambda>x.
          if x < 0 then
            if x = prev then Inl (Fatal ''NPE not normalized'')
            else if x = CUT_VERTICAL then
              rbind (wr es i CUT_HORIZONTAL) (\<lambda>es. invert_loop es n (Suc i) x)
            else if x = CUT_HORIZONTAL then
              rbind (wr es i CUT_VERTICAL) (\<lambda>es. invert_loop es n (Suc i) x)
            else Inl (Fatal ''unknown cut type'')
          else Inr es)
      else Inr es)"
  by pat_completeness auto
termination
  by (relation "measure (\<lambda>(es, n, i, prev). n - i)") auto

declare invert_loop.simps [simp del]

definition NPE_invert_chain :: "NPE_t \<Rightarrow> nat \<Rightarrow> NPE_t res" where
  "NPE_invert_chain expr pos =
     rbind (rd (elements expr) pos) (\<lambda>prev.
     rbind (if prev = CUT_VERTICAL then wr (elements expr) pos CUT_HORIZONTAL
            else if prev = CUT_HORIZONTAL then wr (elements expr) pos CUT_VERTICAL
            else Inl (Fatal ''invalid NPE in invert_chain'')) (\<lambda>es.
     rbind (invert_loop es (npe_size expr) (pos + 1) prev) (\<lambda>es.
     Inr (expr\<lparr>elements := es\<rparr>))))"

text \<open>Binary search for a unit position, and its increment by \<open>delta\<close>.\<close>

function update_unit_pos :: "NPE_t \<Rightarrow> nat \<Rightarrow> int \<Rightarrow> int \<Rightarrow> int \<Rightarrow> (bool \<times> NPE_t) res" where
  "update_unit_pos expr pos delta start end' =
     (if start > end' then Inr (False, expr) else
      let mid = c_div (start + end') 2 in
      rbind (rdi (unit_pos expr) mid) (\<lambda>p.
        if p = pos then
          rbind (nat_of (int p + delta)) (\<lambda>q.
          Inr (True, expr\<lparr>unit_pos := (unit_pos expr)[nat mid := q]\<rparr>))
        else if p > pos then update_unit_pos expr pos delta start (mid - 1)
        else update_unit_pos expr pos delta (mid + 1) end'))"
  by pat_completeness auto
termination
proof (relation "measure (\<lambda>(expr, pos, delta, start, end'). nat (end' - start + 1))")
qed (use c_div2_between in \<open>auto simp: nat_less_iff\<close>)

declare update_unit_pos.simps [simp del]

text \<open>M3: swap an adjacent cut and unit; the result tells whether the move is legal.\<close>

definition swap_at :: "NPE_t \<Rightarrow> nat \<Rightarrow> (bool \<times> NPE_t) res" where
  "swap_at expr pos =
     rbind (rd (elements expr) pos) (\<lambda>t.
     rbind (rd (elements expr) (pos + 1)) (\<lambda>x.
     rbind (wr (elements expr) pos x) (\<lambda>es.
     rbind (wr es (pos + 1) t) (\<lambda>es.
     rbind (fill_flip_pos (expr\<lparr>elements := es\<rparr>)) (\<lambda>expr.
     rbind (fill_chain_pos expr) (\<lambda>expr. Inr (True, expr)))))))"

definition NPE_swap_cut_unit :: "NPE_t \<Rightarrow> nat \<Rightarrow> (bool \<times> NPE_t) res" where
  "NPE_swap_cut_unit expr pos =
     (if pos = 0 \<or> npe_size expr \<le> pos + 1 then
        Inl (Fatal ''invalid position in NPE_swap_cut_unit'') else
      rbind (rd (elements expr) pos) (\<lambda>x.
      if x \<ge> 0 then
        rbind (rd (elements expr) (pos - 1)) (\<lambda>a.
        rbind (rd (elements expr) (pos + 1)) (\<lambda>b.
        if a = b then Inr (False, expr) else
        rbind (rd (ballot_count expr) (pos + 1)) (\<lambda>c.
        if 2 * c \<ge> pos + 1 then Inr (False, expr) else
        rbind (update_unit_pos expr pos 1 0 (int (npe_units expr) - 1)) (\<lambda>(found, expr).
        if \<not> found then Inl (Fatal ''unit position not found'') else
        rbind (rd (ballot_count expr) pos) (\<lambda>c.
        rbind (wr (ballot_count expr) pos (c + 1)) (\<lambda>bc.
        swap_at (expr\<lparr>ballot_count := bc\<rparr>) pos))))))
      else
        rbind (if pos + 2 < npe_size expr then
                 rbind (rd (elements expr) (pos + 2)) (\<lambda>b. Inr (x = b))
               else Inr False) (\<lambda>same.
        if same then Inr (False, expr) else
        rbind (update_unit_pos expr (pos + 1) (-1) 0 (int (npe_units expr) - 1)) (\<lambda>(found, expr).
        if \<not> found then Inl (Fatal ''unit position not found'') else
        rbind (rd (ballot_count expr) pos) (\<lambda>c.
        rbind (nat_of (int c - 1)) (\<lambda>c.
        rbind (wr (ballot_count expr) pos c) (\<lambda>bc.
        swap_at (expr\<lparr>ballot_count := bc\<rparr>) pos)))))))"

section \<open>A random move\<close>

text \<open>
  The inner loop tries M3 at random flip positions of \<open>expr\<close>; \<open>k\<close> is \<open>m3_count\<close>. The state is
  the copy, the flag \<open>done\<close> and the index of the next random number.
\<close>

function try_m3 :: "(nat \<Rightarrow> int) \<Rightarrow> NPE_t \<Rightarrow> nat \<Rightarrow> bool \<times> NPE_t \<times> nat \<Rightarrow> (bool \<times> NPE_t \<times> nat) res" where
  "try_m3 rnd expr k st = (case st of (done', copy, s) \<Rightarrow>
     if \<not> done' \<and> k < MAX_MOVES then
       (case rand_upto rnd (int (n_flips expr)) s of (i, s) \<Rightarrow>
         rbind (rdi (flip_pos expr) i) (\<lambda>p.
         rbind (NPE_swap_cut_unit copy p) (\<lambda>(ok, copy).
         try_m3 rnd expr (Suc k) (ok, copy, s))))
     else Inr (done', copy, s))"
  by pat_completeness auto
termination
  by (relation "measure (\<lambda>(rnd, expr, k, st). MAX_MOVES - k)") auto

declare try_m3.simps [simp del]

text \<open>One iteration of the outer loop.\<close>

definition one_move :: "(nat \<Rightarrow> int) \<Rightarrow> NPE_t \<Rightarrow> NPE_t \<times> nat \<Rightarrow> (bool \<times> NPE_t \<times> nat) res" where
  "one_move rnd expr cs = (case cs of (copy, s) \<Rightarrow>
     case rand_upto rnd 3 s of (move, s) \<Rightarrow>
     if move = 0 then
       (case rand_upto rnd (int (npe_units expr) - 1) s of (i, s) \<Rightarrow>
         rbind (rdi (unit_pos expr) i) (\<lambda>p.
         rbind (NPE_swap_units copy p) (\<lambda>copy. Inr (True, copy, s))))
     else if move = 1 then
       (case rand_upto rnd (int (n_chains expr)) s of (i, s) \<Rightarrow>
         rbind (rdi (chain_pos expr) i) (\<lambda>p.
         rbind (NPE_invert_chain copy p) (\<lambda>copy. Inr (True, copy, s))))
     else if move = 2 then try_m3 rnd expr 0 (False, copy, s)
     else Inl (Fatal ''unknown move type''))"

text \<open>The outer loop; \<open>k\<close> is \<open>count\<close>, returned at the end.\<close>

function move_loop :: "(nat \<Rightarrow> int) \<Rightarrow> NPE_t \<Rightarrow> nat \<Rightarrow> bool \<times> NPE_t \<times> nat \<Rightarrow> (nat \<times> NPE_t \<times> nat) res" where
  "move_loop rnd expr k st = (case st of (done', copy, s) \<Rightarrow>
     if \<not> done' \<and> k < MAX_MOVES then
       rbind (one_move rnd expr (copy, s)) (\<lambda>st. move_loop rnd expr (Suc k) st)
     else Inr (k, copy, s))"
  by pat_completeness auto
termination
  by (relation "measure (\<lambda>(rnd, expr, k, st). MAX_MOVES - k)") auto

declare move_loop.simps [simp del]

definition make_random_move :: "(nat \<Rightarrow> int) \<Rightarrow> NPE_t \<Rightarrow> nat \<Rightarrow> (NPE_t \<times> nat) res" where
  "make_random_move rnd expr s =
     rbind (NPE_duplicate expr) (\<lambda>copy.
     rbind (move_loop rnd expr 0 (False, copy, s)) (\<lambda>(count, copy, s).
     if count = MAX_MOVES then Inl (Fatal ''tried 16 moves, now giving up'')
     else Inr (copy, s)))"

end
