(* ===== verification/NPE_Inv.thy ===== *)
theory NPE_Inv
  imports NPE
begin

text \<open>
  The invariant of normalized Polish expressions: what the element array is (a balloted,
  normalized expression over the units \<open>0, ..., m-1\<close>) and what each derived array holds, as a
  function of the elements. The \<open>fill_*\<close> routines compute these functions.
\<close>

section \<open>What the derived arrays stand for\<close>

definition unit_positions :: "int list \<Rightarrow> nat list" where
  "unit_positions es = filter (\<lambda>i. es ! i \<ge> 0) [0..<length es]"

definition is_flip :: "int list \<Rightarrow> nat \<Rightarrow> bool" where
  "is_flip es i \<longleftrightarrow> (es ! i < 0) \<noteq> (es ! Suc i < 0)"

definition flip_positions :: "int list \<Rightarrow> nat list" where
  "flip_positions es = filter (is_flip es) [0..<length es - 1]"

definition is_chain_start :: "int list \<Rightarrow> nat \<Rightarrow> bool" where
  "is_chain_start es i \<longleftrightarrow> es ! i < 0 \<and> (i = 0 \<or> es ! (i - 1) \<ge> 0)"

definition chain_positions :: "int list \<Rightarrow> nat list" where
  "chain_positions es = filter (is_chain_start es) [0..<length es]"

definition cuts_before :: "int list \<Rightarrow> nat \<Rightarrow> nat" where
  "cuts_before es i = length (filter (\<lambda>k. es ! k < 0) [0..<i])"

definition ballots :: "int list \<Rightarrow> nat list" where
  "ballots es = map (\<lambda>i. cuts_before es (Suc i)) [0..<length es]"

text \<open>No two equal cuts are neighbours.\<close>

definition normalized :: "int list \<Rightarrow> bool" where
  "normalized es \<longleftrightarrow> (\<forall>i. Suc i < length es \<longrightarrow> es ! i < 0 \<longrightarrow> es ! i \<noteq> es ! Suc i)"

text \<open>Every prefix has more units than cuts.\<close>

definition balloting :: "int list \<Rightarrow> bool" where
  "balloting es \<longleftrightarrow> (\<forall>i < length es. 2 * cuts_before es (Suc i) \<le> i)"

definition polish :: "nat \<Rightarrow> int list \<Rightarrow> bool" where
  "polish m es \<longleftrightarrow>
     0 < m \<and> length es = 2 * m - 1 \<and>
     mset (filter (\<lambda>x. x \<ge> 0) es) = mset (map int [0..<m]) \<and>
     (\<forall>x \<in> set es. x < 0 \<longrightarrow> x = CUT_VERTICAL \<or> x = CUT_HORIZONTAL) \<and>
     normalized es \<and> balloting es"

definition npe_ok :: "nat \<Rightarrow> NPE_t \<Rightarrow> bool" where
  "npe_ok m e \<longleftrightarrow>
     polish m (elements e) \<and> npe_size e = length (elements e) \<and>
     npe_units e = m \<and> unit_pos e = unit_positions (elements e) \<and>
     length (flip_pos e) = npe_size e \<and> n_flips e = length (flip_positions (elements e)) \<and>
     take (n_flips e) (flip_pos e) = flip_positions (elements e) \<and>
     length (chain_pos e) = m - 1 \<and> n_chains e = length (chain_positions (elements e)) \<and>
     take (n_chains e) (chain_pos e) = chain_positions (elements e) \<and>
     ballot_count e = ballots (elements e)"

lemma cut_values [simp]:
  "CUT_VERTICAL < 0" "CUT_HORIZONTAL < 0" "CUT_VERTICAL \<noteq> CUT_HORIZONTAL" "CUT_HORIZONTAL \<noteq> CUT_VERTICAL"
  "\<not> 0 \<le> CUT_VERTICAL" "\<not> 0 \<le> CUT_HORIZONTAL"
  by (simp_all add: CUT_VERTICAL_def CUT_HORIZONTAL_def)

lemma cuts_before_Suc:
  "cuts_before es (Suc i) = cuts_before es i + (if es ! i < 0 then 1 else 0)"
  by (simp add: cuts_before_def)

lemma cuts_before_0 [simp]: "cuts_before es 0 = 0"
  by (simp add: cuts_before_def)

lemma cuts_before_cong: "(\<And>k. k < i \<Longrightarrow> (es ! k < 0) = (es' ! k < 0)) \<Longrightarrow> cuts_before es i = cuts_before es' i"
  unfolding cuts_before_def by (intro arg_cong [where f = length] filter_cong) auto

section \<open>The fill routines\<close>

text \<open>The loop that collects the indices satisfying a test.\<close>

lemma collect_loop:
  assumes body: "\<And>i aj. i < n \<Longrightarrow> body i aj = (if Q i then record_pos i aj else Inr aj)"
    and room: "length (filter Q [0..<n]) \<le> length arr"
  shows "\<exists>arr'. for_up 0 n body (arr, 0) = Inr (arr', length (filter Q [0..<n])) \<and>
    length arr' = length arr \<and> take (length (filter Q [0..<n])) arr' = filter Q [0..<n]"
proof -
  let ?I = "\<lambda>i aj. length (fst aj) = length arr \<and> snd aj = length (filter Q [0..<i]) \<and>
    take (snd aj) (fst aj) = filter Q [0..<i]"
  have step: "\<exists>aj'. body i aj = Inr aj' \<and> ?I (Suc i) aj'" if i: "i < n" and I: "?I i aj" for i aj
  proof (cases "Q i")
    case True
    have "length (filter Q [0..<Suc i]) \<le> length (filter Q [0..<n])"
      by (metis i le_add_diff_inverse filter_append length_append le_add1 Suc_leI upt_add_eq_append
          zero_le)
    then have "snd aj < length (fst aj)" using I True room by simp
    then show ?thesis
      using I True i by (cases aj) (auto simp: body record_pos_def take_Suc_update)
  next
    case False
    with I i show ?thesis by (auto simp: body)
  qed
  have "\<exists>aj. for_up 0 n body (arr, 0) = Inr aj \<and> ?I n aj"
    by (rule for_up_rule [where I = ?I, OF _ _ step]) (assumption | simp)+
  then show ?thesis by auto
qed

lemma fill_unit_pos_ok:
  assumes "npe_size e = length (elements e)"
    and "length (unit_positions (elements e)) = length (unit_pos e)"
  shows "fill_unit_pos e = Inr (e\<lparr>unit_pos := unit_positions (elements e),
    npe_units := length (unit_pos e)\<rparr>)"
proof -
  have "\<exists>arr'. for_up 0 (npe_size e) (\<lambda>i aj. rbind (rd (elements e) i) (\<lambda>x.
       if x \<ge> 0 then record_pos i aj else Inr aj)) (unit_pos e, 0)
     = Inr (arr', length (unit_positions (elements e))) \<and> length arr' = length (unit_pos e) \<and>
     take (length (unit_positions (elements e))) arr' = unit_positions (elements e)"
    unfolding unit_positions_def assms(1)
    by (rule collect_loop) (use assms in \<open>simp_all add: unit_positions_def\<close>)
  with assms(2) show ?thesis by (auto simp: fill_unit_pos_def)
qed

lemma length_flip_positions: "length (flip_positions es) \<le> length es - 1"
  unfolding flip_positions_def by (rule length_filter_upt)

lemma fill_flip_pos_ok:
  assumes "npe_size e = length (elements e)" "length (flip_pos e) = npe_size e"
  shows "\<exists>arr. fill_flip_pos e = Inr (e\<lparr>flip_pos := arr,
      n_flips := length (flip_positions (elements e))\<rparr>) \<and> length arr = npe_size e \<and>
    take (length (flip_positions (elements e))) arr = flip_positions (elements e)"
proof -
  have "\<exists>arr'. for_up 0 (npe_size e - 1) (\<lambda>i aj. rbind (rd (elements e) i) (\<lambda>x.
       rbind (rd (elements e) (i + 1)) (\<lambda>y.
       if (x < 0 \<and> y \<ge> 0) \<or> (x \<ge> 0 \<and> y < 0) then record_pos i aj else Inr aj))) (flip_pos e, 0)
     = Inr (arr', length (flip_positions (elements e))) \<and> length arr' = length (flip_pos e) \<and>
     take (length (flip_positions (elements e))) arr' = flip_positions (elements e)"
    unfolding flip_positions_def assms(1)
  proof (rule collect_loop)
    show "length (filter (is_flip (elements e)) [0..<length (elements e) - 1]) \<le> length (flip_pos e)"
      using length_flip_positions [of "elements e"] assms by (simp add: flip_positions_def)
  qed (auto simp: is_flip_def)
  with assms show ?thesis by (auto simp: fill_flip_pos_def)
qed

lemma fill_ballot_count_ok:
  assumes "npe_size e = length (elements e)" "length (ballot_count e) = npe_size e"
  shows "fill_ballot_count e = Inr (e\<lparr>ballot_count := ballots (elements e)\<rparr>)"
proof -
  let ?es = "elements e"
  let ?body = "\<lambda>i (arr, cnt). rbind (rd ?es i) (\<lambda>x.
           let cnt = (if x < 0 then Suc cnt else cnt) in
           rbind (wr arr i cnt) (\<lambda>arr. Inr (arr, cnt)))"
  let ?I = "\<lambda>i ac. length (fst ac) = length ?es \<and> snd ac = cuts_before ?es i \<and>
    take i (fst ac) = map (\<lambda>i. cuts_before ?es (Suc i)) [0..<i]"
  have step: "\<exists>ac'. ?body i ac = Inr ac' \<and> ?I (Suc i) ac'"
    if "i < length ?es" and "?I i ac" for i ac
    using that by (cases ac) (auto simp: cuts_before_Suc take_Suc_update Let_def)
  have "\<exists>ac. for_up 0 (length ?es) ?body (ballot_count e, 0) = Inr ac \<and> ?I (length ?es) ac"
    by (rule for_up_rule [where I = ?I, OF _ _ step]) (assumption | simp add: assms)+
  with assms show ?thesis by (auto simp: fill_ballot_count_def ballots_def)
qed

subsection \<open>Chains\<close>

lemma skip_chain_ok:
  assumes "normalized es" "0 < i" "i \<le> length es" "es ! (i - 1) < 0"
  shows "\<exists>i'. skip_chain es (length es) i (es ! (i - 1)) = Inr i' \<and> i \<le> i' \<and> i' \<le> length es \<and>
    (\<forall>k. i \<le> k \<and> k < i' \<longrightarrow> es ! k < 0) \<and> (i' < length es \<longrightarrow> es ! i' \<ge> 0)"
  using assms
proof (induction "length es - i" arbitrary: i)
  case 0
  then show ?case by (intro exI [of _ i]) (simp add: skip_chain.simps [of es i i])
next
  case (Suc d)
  then have i: "i < length es" by simp
  show ?case
  proof (cases "es ! i < 0")
    case True
    have "es ! (i - 1) \<noteq> es ! i"
      using Suc.prems(1,2,4) i by (auto simp: normalized_def dest: spec [of _ "i - 1"])
    moreover have "\<exists>i'. skip_chain es (length es) (Suc i) (es ! (Suc i - 1)) = Inr i' \<and> Suc i \<le> i' \<and>
        i' \<le> length es \<and> (\<forall>k. Suc i \<le> k \<and> k < i' \<longrightarrow> es ! k < 0) \<and>
        (i' < length es \<longrightarrow> es ! i' \<ge> 0)"
      by (rule Suc.hyps(1)) (use Suc.prems Suc.hyps(2) i True in auto)
    ultimately obtain i' where i': "skip_chain es (length es) i (es ! (i - 1)) = Inr i'"
      "Suc i \<le> i'" "i' \<le> length es" "\<forall>k. Suc i \<le> k \<and> k < i' \<longrightarrow> es ! k < 0"
      "i' < length es \<longrightarrow> es ! i' \<ge> 0"
      using i True by (auto simp: skip_chain.simps [of es "length es" i])
    have "es ! k < 0" if "i \<le> k" "k < i'" for k
      using that i'(4) True by (cases "k = i") auto
    with i' show ?thesis by auto
  next
    case False
    then show ?thesis
      using i by (intro exI [of _ i]) (simp add: skip_chain.simps [of es "length es" i])
  qed
qed

lemma filter_chain_skip:
  assumes "i < i'" "is_chain_start es i" "\<forall>k. Suc i \<le> k \<and> k < i' \<longrightarrow> es ! k < 0"
  shows "filter (is_chain_start es) [0..<i'] = filter (is_chain_start es) [0..<i] @ [i]"
proof -
  have "[0..<i'] = [0..<i] @ i # [Suc i..<i']"
    using assms(1) upt_add_eq_append [of 0 i "i' - i"] upt_conv_Cons [of i i'] by simp
  moreover have "\<not> is_chain_start es k" if k: "Suc i \<le> k" "k < i'" for k
  proof -
    have "k - 1 = i \<or> Suc i \<le> k - 1 \<and> k - 1 < i'" using k by arith
    then have "es ! (k - 1) < 0"
      using assms(2) assms(3) [rule_format, of "k - 1"] by (auto simp: is_chain_start_def)
    with k show ?thesis by (auto simp: is_chain_start_def)
  qed
  then have "filter (is_chain_start es) [Suc i..<i'] = []"
    by (auto simp: filter_empty_conv)
  ultimately show ?thesis using assms(2) by simp
qed


lemma chain_loop_ok:
  assumes "normalized es" "i \<le> length es" "i < length es \<longrightarrow> es ! i < 0 \<longrightarrow> is_chain_start es i"
    and "length (chain_positions es) \<le> length arr"
    and "j = length (filter (is_chain_start es) [0..<i])"
    and "take j arr = filter (is_chain_start es) [0..<i]"
  shows "\<exists>arr'. chain_loop es (length es) i (arr, j) = Inr (arr', length (chain_positions es)) \<and>
    length arr' = length arr \<and> take (length (chain_positions es)) arr' = chain_positions es"
  using assms
proof (induction "length es - i" arbitrary: i arr j rule: less_induct)
  case less
  consider "i = length es" | "i < length es" "es ! i \<ge> 0" | "i < length es" "es ! i < 0"
    using less.prems(2) by linarith
  then show ?case
  proof cases
    case 1
    then show ?thesis
      using less.prems
      by (simp add: chain_loop.simps [of es "length es" "length es"] chain_positions_def)
  next
    case 2
    then have "\<not> is_chain_start es i" by (simp add: is_chain_start_def)
    then show ?thesis
      using less.hyps [of "Suc i" arr j] less.prems 2
      by (simp add: chain_loop.simps [of es "length es" i] is_chain_start_def)
  next
    case 3
    obtain i' where i': "skip_chain es (length es) (Suc i) (es ! i) = Inr i'" "Suc i \<le> i'"
      "i' \<le> length es" "\<forall>k. Suc i \<le> k \<and> k < i' \<longrightarrow> es ! k < 0" "i' < length es \<longrightarrow> es ! i' \<ge> 0"
      using skip_chain_ok [of es "Suc i"] less.prems(1) 3 by auto
    have start: "is_chain_start es i" using less.prems(3) 3 by simp
    have f: "filter (is_chain_start es) [0..<i'] = filter (is_chain_start es) [0..<i] @ [i]"
      using i' start by (intro filter_chain_skip) auto
    have "chain_positions es = filter (is_chain_start es) [0..<i'] @ filter (is_chain_start es) [i'..<length es]"
      unfolding chain_positions_def filter_append [symmetric]
      using upt_add_eq_append [of 0 i' "length es - i'"] i'(3) by simp
    then have room: "j < length arr" using f less.prems(4,5) by simp
    have "take (Suc j) (arr[j := i]) = filter (is_chain_start es) [0..<i']"
      using room less.prems(6) f by (simp add: take_Suc_update)
    then have "\<exists>arr'. chain_loop es (length es) i' (arr[j := i], Suc j)
        = Inr (arr', length (chain_positions es)) \<and> length arr' = length (arr[j := i]) \<and>
        take (length (chain_positions es)) arr' = chain_positions es"
      by (intro less.hyps) (use less.prems i' 3 f in auto)
    then show ?thesis
      using 3 i' room by (simp add: chain_loop.simps [of es "length es" i] record_pos_def)
  qed
qed

lemma fill_chain_pos_ok:
  assumes "npe_size e = length (elements e)" "normalized (elements e)"
    and "length (chain_positions (elements e)) \<le> length (chain_pos e)"
  shows "\<exists>arr. fill_chain_pos e = Inr (e\<lparr>chain_pos := arr,
      n_chains := length (chain_positions (elements e))\<rparr>) \<and> length arr = length (chain_pos e) \<and>
    take (length (chain_positions (elements e))) arr = chain_positions (elements e)"
proof -
  have "\<exists>arr'. chain_loop (elements e) (length (elements e)) 0 (chain_pos e, 0)
     = Inr (arr', length (chain_positions (elements e))) \<and> length arr' = length (chain_pos e) \<and>
     take (length (chain_positions (elements e))) arr' = chain_positions (elements e)"
    by (rule chain_loop_ok) (use assms in \<open>auto simp: is_chain_start_def\<close>)
  with assms(1) show ?thesis by (auto simp: fill_chain_pos_def)
qed

section \<open>Counting\<close>

lemma length_filter_index: "length (filter (\<lambda>i. P (xs ! i)) [0..<length xs]) = length (filter P xs)"
proof -
  have "filter P xs = map ((!) xs) (filter (\<lambda>i. P (xs ! i)) [0..<length xs])"
    by (metis (no_types, lifting) filter_map map_nth comp_def filter_cong)
  then show ?thesis by simp
qed

lemma polish_units: "polish m es \<Longrightarrow> length (unit_positions es) = m"
  unfolding unit_positions_def
  by (subst length_filter_index [where P = "\<lambda>x. x \<ge> 0"])
    (metis (no_types, lifting) length_map length_upt minus_nat.diff_0 polish_def size_mset)

lemma polish_cuts: "polish m es \<Longrightarrow> cuts_before es (length es) = m - 1"
  using polish_units [of m es] sum_length_filter_compl [of "\<lambda>i. es ! i < 0" "[0..<length es]"]
  by (auto simp: cuts_before_def unit_positions_def not_less polish_def)

lemma length_chain_positions: "length (chain_positions es) \<le> cuts_before es (length es)"
proof -
  have "length (filter (\<lambda>i. is_chain_start es i) [0..<length es]) \<le>
      length (filter (\<lambda>i. es ! i < 0) [0..<length es])"
    using length_filter_le [of "is_chain_start es" "filter (\<lambda>i. es ! i < 0) [0..<length es]"]
    by (simp add: is_chain_start_def conj_ac)
  then show ?thesis by (simp add: chain_positions_def cuts_before_def)
qed

text \<open>
  Two expressions with cuts at the same positions have the same derived arrays: the moves M1
  and M2 leave the positions of cuts alone.
\<close>

definition same_shape :: "int list \<Rightarrow> int list \<Rightarrow> bool" where
  "same_shape es es' \<longleftrightarrow> length es = length es' \<and> (\<forall>i < length es. (es ! i < 0) = (es' ! i < 0))"

lemma same_shape_derived:
  assumes "same_shape es es'"
  shows "unit_positions es' = unit_positions es" "flip_positions es' = flip_positions es"
    "chain_positions es' = chain_positions es" "ballots es' = ballots es"
    "balloting es' = balloting es"
proof -
  have len: "length es' = length es" and sh: "\<And>i. i < length es \<Longrightarrow> (es' ! i < 0) = (es ! i < 0)"
    using assms by (auto simp: same_shape_def)
  show "unit_positions es' = unit_positions es"
    unfolding unit_positions_def len by (rule filter_cong) (use sh in \<open>auto simp: not_less [symmetric]\<close>)
  show "flip_positions es' = flip_positions es"
    unfolding flip_positions_def len is_flip_def by (rule filter_cong) (use sh in auto)
  show "chain_positions es' = chain_positions es"
    unfolding chain_positions_def len is_chain_start_def
    by (rule filter_cong) (use sh in \<open>auto simp: not_less [symmetric]\<close>)
  have cb: "cuts_before es' i = cuts_before es i" if "i \<le> length es" for i
    using that sh by (intro cuts_before_cong) auto
  show "ballots es' = ballots es"
    unfolding ballots_def len by (rule map_cong) (use cb in auto)
  show "balloting es' = balloting es"
    unfolding balloting_def len using cb by (metis Suc_leI)
qed

end
