(* ===== verification/NPE_Moves.thy ===== *)
theory NPE_Moves
  imports NPE_Inv
begin

text \<open>
  The moves of the annealer keep the invariant of \<open>NPE_Inv\<close>: what each of M1, M2, M3, the
  initial expression, the copy and the random move return, on every branch.
\<close>

section \<open>The initial expression\<close>

definition initial_at :: "nat \<Rightarrow> int" where
  "initial_at i = (if i = 0 then 0 else if odd i then int ((i + 1) div 2) else CUT_VERTICAL)"

definition initial_elements :: "nat \<Rightarrow> int list" where
  "initial_elements m = map initial_at [0..<2 * m - 1]"

lemma init_elements_ok:
  assumes "odd n" "odd i" "length es = n"
  shows "\<exists>es'. init_elements es n i = Inr es' \<and> length es' = n \<and>
    (\<forall>k < n. es' ! k = (if k < i then es ! k else initial_at k))"
  using assms
proof (induction es n i rule: init_elements.induct)
  case (1 es n i)
  show ?case
  proof (cases "i < n")
    case True
    with "1.prems" have i1: "i + 1 < n" by presburger
    let ?es = "es[i := int ((i + 1) div 2), i + 1 := CUT_VERTICAL]"
    have "\<exists>es'. init_elements ?es n (i + 2) = Inr es' \<and> length es' = n \<and>
        (\<forall>k < n. es' ! k = (if k < i + 2 then ?es ! k else initial_at k))"
      by (rule "1.IH" [OF True, of "es[i := int ((i + 1) div 2)]"]) (use "1.prems" True i1 in auto)
    then obtain es' where es': "init_elements ?es n (i + 2) = Inr es'" "length es' = n"
      "\<And>k. k < n \<Longrightarrow> es' ! k = (if k < i + 2 then ?es ! k else initial_at k)"
      by blast
    have "es' ! k = (if k < i then es ! k else initial_at k)" if "k < n" for k
    proof -
      consider "k < i" | "k = i" | "k = i + 1" | "i + 2 \<le> k" by linarith
      then show ?thesis
        using es'(3) [OF that] "1.prems" True i1 by cases (auto simp: initial_at_def odd_pos)
    qed
    with es' True i1 "1.prems" show ?thesis
      by (simp add: init_elements.simps [of es n i])
  next
    case False
    with "1.prems" show ?thesis by (simp add: init_elements.simps [of es n i])
  qed
qed

lemma initial_elements_Suc:
  assumes "0 < m"
  shows "initial_elements (Suc m) = initial_elements m @ [int m, CUT_VERTICAL]"
proof -
  have "[0..<2 * Suc m - 1] = [0..<2 * m - 1] @ [2 * m - 1, 2 * m]"
    using assms by (cases m) simp_all
  moreover have "initial_at (2 * m - 1) = int m" "initial_at (2 * m) = CUT_VERTICAL"
    using assms by (auto simp: initial_at_def)
  ultimately show ?thesis by (simp add: initial_elements_def)
qed

lemma initial_mset:
  assumes "0 < m"
  shows "mset (filter (\<lambda>x. x \<ge> 0) (initial_elements m)) = mset (map int [0..<m])"
  using assms
proof (induction m)
  case (Suc m)
  show ?case
  proof (cases "m = 0")
    case True
    then show ?thesis by (simp add: initial_elements_def initial_at_def)
  next
    case False
    with Suc.IH show ?thesis by (simp add: initial_elements_Suc)
  qed
qed simp

lemma initial_cuts_before:
  "i < 2 * m - 1 \<Longrightarrow> cuts_before (initial_elements m) (Suc i) = i div 2"
proof (induction i)
  case 0
  then show ?case by (simp add: cuts_before_Suc initial_elements_def initial_at_def)
next
  case (Suc i)
  have "initial_elements m ! Suc i < 0 \<longleftrightarrow> even (Suc i)"
    using Suc.prems by (auto simp: initial_elements_def initial_at_def CUT_VERTICAL_def)
  moreover have "cuts_before (initial_elements m) (Suc i) = i div 2"
    using Suc by simp
  ultimately show ?case
    by (subst cuts_before_Suc) (cases "even i"; auto elim!: evenE oddE)
qed

lemma initial_polish: "0 < m \<Longrightarrow> polish m (initial_elements m)"
proof -
  assume m: "0 < m"
  have len: "length (initial_elements m) = 2 * m - 1" by (simp add: initial_elements_def)
  have "normalized (initial_elements m)"
    unfolding normalized_def len
    by (auto simp: initial_elements_def initial_at_def CUT_VERTICAL_def)
  moreover have "balloting (initial_elements m)"
    unfolding balloting_def len by (simp add: initial_cuts_before)
  moreover have "\<forall>x \<in> set (initial_elements m). x < 0 \<longrightarrow> x = CUT_VERTICAL \<or> x = CUT_HORIZONTAL"
    by (auto simp: initial_elements_def initial_at_def)
  ultimately show ?thesis using m len initial_mset by (simp add: polish_def)
qed

lemma get_initial_ok:
  assumes "0 < m"
  shows "\<exists>e. NPE_get_initial m = Inr e \<and> npe_ok m e \<and> elements e = initial_elements m"
proof -
  let ?sz = "2 * m - 1"
  obtain es where es: "init_elements ((replicate ?sz 0)[0 := 0]) ?sz 1 = Inr es" "length es = ?sz"
    "\<forall>k < ?sz. es ! k = (if k < 1 then (replicate ?sz 0)[0 := 0] ! k else initial_at k)"
    using init_elements_ok [of ?sz 1 "(replicate ?sz 0)[0 := 0]"] assms by (auto simp: even_diff_nat)
  have eq: "es = initial_elements m"
    using es assms by (intro nth_equalityI) (auto simp: initial_elements_def initial_at_def)
  note pol = initial_polish [OF assms, folded eq]
  let ?e = "\<lparr>elements = es, npe_size = ?sz, unit_pos = replicate m 0, npe_units = 0,
        flip_pos = replicate ?sz 0, n_flips = 0, chain_pos = replicate (m - 1) 0, n_chains = 0,
        ballot_count = replicate ?sz 0\<rparr>"
  let ?e1 = "?e\<lparr>unit_pos := unit_positions es, npe_units := m\<rparr>"
  have f1: "fill_unit_pos ?e = Inr ?e1"
    using fill_unit_pos_ok [of ?e] polish_units [OF pol] es(2) by simp
  obtain fp where fp: "fill_flip_pos ?e1 = Inr (?e1\<lparr>flip_pos := fp, n_flips := length (flip_positions es)\<rparr>)"
    "length fp = ?sz" "take (length (flip_positions es)) fp = flip_positions es"
    using fill_flip_pos_ok [of ?e1] es(2) by auto
  let ?e2 = "?e1\<lparr>flip_pos := fp, n_flips := length (flip_positions es)\<rparr>"
  have room: "length (chain_positions es) \<le> m - 1"
    using length_chain_positions [of es] polish_cuts [OF pol] by simp
  have norm: "normalized es" using pol by (simp add: polish_def)
  obtain cp where cp: "fill_chain_pos ?e2 = Inr (?e2\<lparr>chain_pos := cp, n_chains := length (chain_positions es)\<rparr>)"
    "length cp = m - 1" "take (length (chain_positions es)) cp = chain_positions es"
    using fill_chain_pos_ok [of ?e2] es(2) room norm by auto
  let ?e3 = "?e2\<lparr>chain_pos := cp, n_chains := length (chain_positions es)\<rparr>"
  have f4: "fill_ballot_count ?e3 = Inr (?e3\<lparr>ballot_count := ballots es\<rparr>)"
    using fill_ballot_count_ok [of ?e3] es(2) by simp
  have "NPE_get_initial m = Inr (?e3\<lparr>ballot_count := ballots es\<rparr>)"
    using assms es(1) f1 fp(1) cp(1) f4 by (simp add: NPE_get_initial_def Let_def)
  with pol eq es(2) fp cp show ?thesis by (simp add: npe_ok_def)
qed

section \<open>The copy\<close>

lemma copy_prefix_ok:
  assumes "n \<le> length src" "n \<le> cap"
  shows "copy_prefix cap z src n = Inr (take n src @ replicate (cap - n) z)"
proof -
  let ?I = "\<lambda>i dst. dst = take i src @ replicate (cap - i) z"
  have step: "\<exists>dst'. rbind (rd src i) (\<lambda>x. wr dst i x) = Inr dst' \<and> ?I (Suc i) dst'"
    if "i < n" "?I i dst" for i dst
  proof -
    have "replicate (cap - i) z = z # replicate (cap - Suc i) z"
      using that assms by (metis Suc_diff_Suc less_le_trans replicate_Suc)
    with that assms show ?thesis by (simp add: list_update_append take_Suc_conv_app_nth)
  qed
  have "\<exists>t. for_up 0 n (\<lambda>i dst. rbind (rd src i) (\<lambda>x. wr dst i x)) (replicate cap z) = Inr t \<and> ?I n t"
    by (rule for_up_rule [where I = ?I, OF _ _ step]) (assumption | simp)+
  then show ?thesis by (simp add: copy_prefix_def)
qed

lemma NPE_duplicate_ok:
  assumes "npe_ok m e"
  shows "\<exists>c. NPE_duplicate e = Inr c \<and> npe_ok m c \<and> elements c = elements e"
proof -
  note ok = assms [unfolded npe_ok_def]
  have m: "length (unit_pos e) = m" using ok polish_units by metis
  have ch: "n_chains e \<le> m - 1"
    using ok length_chain_positions [of "elements e"] polish_cuts [of m "elements e"] by simp
  have fl: "n_flips e \<le> npe_size e" using ok length_flip_positions [of "elements e"] by simp
  have bl: "length (ballot_count e) = npe_size e" using ok by (simp add: ballots_def)
  show ?thesis
    using ok m ch fl bl by (auto simp: NPE_duplicate_def copy_prefix_ok npe_ok_def)
qed


section \<open>Moves that keep the positions of the cuts\<close>

text \<open>Same cuts at the same positions: only operands differ.\<close>

definition same_cuts :: "int list \<Rightarrow> int list \<Rightarrow> bool" where
  "same_cuts es es' \<longleftrightarrow> length es' = length es \<and>
     (\<forall>i < length es. es ! i < 0 \<or> es' ! i < 0 \<longrightarrow> es' ! i = es ! i)"

lemma same_cuts_shape: "same_cuts es es' \<Longrightarrow> same_shape es es'"
  unfolding same_cuts_def same_shape_def by metis

lemma same_cuts_normalized: "same_cuts es es' \<Longrightarrow> normalized es \<Longrightarrow> normalized es'"
proof -
  assume sc: "same_cuts es es'" and n: "normalized es"
  have len: "length es' = length es"
    and same: "\<And>i. i < length es \<Longrightarrow> es ! i < 0 \<or> es' ! i < 0 \<Longrightarrow> es' ! i = es ! i"
    using sc unfolding same_cuts_def by blast+
  have "es' ! i \<noteq> es' ! Suc i" if i: "Suc i < length es'" and neg: "es' ! i < 0" for i
  proof
    assume eq: "es' ! i = es' ! Suc i"
    have "es' ! i = es ! i" using i neg len by (intro same) simp_all
    moreover have "es' ! Suc i = es ! Suc i" using i neg eq len by (intro same) simp_all
    moreover have "es ! i < 0 \<longrightarrow> es ! i \<noteq> es ! Suc i" using n i len by (simp add: normalized_def)
    ultimately show False using neg eq by simp
  qed
  then show "normalized es'" by (auto simp: normalized_def)
qed

lemma npe_ok_same_shape:
  assumes "npe_ok m e" "same_shape (elements e) es'" "polish m es'"
  shows "npe_ok m (e\<lparr>elements := es'\<rparr>)"
  using assms same_shape_derived [OF assms(2)] by (auto simp: npe_ok_def same_shape_def)

subsection \<open>M1\<close>

lemma next_unit_ok:
  assumes "n = length es" "i \<le> k" "k < n" "es ! k \<ge> 0" "\<forall>j. i \<le> j \<and> j < k \<longrightarrow> es ! j < 0"
  shows "next_unit es n i = Inr k"
  using assms
proof (induction es n i rule: next_unit.induct)
  case (1 es n i)
  show ?case
  proof (cases "i = k")
    case True
    with "1.prems" show ?thesis by (simp add: next_unit.simps [of es "length es" k])
  next
    case False
    with "1.prems" have "i < n" "es ! i < 0" "Suc i \<le> k" by auto
    with "1.prems" "1.IH" [of "es ! i"] show ?thesis
      by (simp add: next_unit.simps [of es "length es" i] not_le)
  qed
qed

lemma next_unit_none:
  assumes "n = length es" "\<forall>j. i \<le> j \<and> j < n \<longrightarrow> es ! j < 0"
  shows "\<exists>k. next_unit es n i = Inr k \<and> n \<le> k"
  using assms
proof (induction es n i rule: next_unit.induct)
  case (1 es n i)
  then show ?case by (cases "i < n") (auto simp: next_unit.simps [of es "length es" i] not_le)
qed

text \<open>Consecutive entries of a filtered range have nothing selected between them.\<close>

lemma filter_upt_gap:
  assumes "Suc k < length (filter P [0..<n])" "filter P [0..<n] ! k < j" "j < filter P [0..<n] ! Suc k"
  shows "\<not> P j"
proof
  let ?xs = "filter P [0..<n]"
  assume "P j"
  have "?xs ! Suc k \<in> set ?xs" using assms(1) nth_mem by blast
  then have "j < n" using assms(3) by simp
  with \<open>P j\<close> have "j \<in> set ?xs" by simp
  then obtain l where l: "l < length ?xs" "?xs ! l = j" by (metis in_set_conv_nth)
  have sorted: "sorted ?xs" by (rule sorted_filter_upt)
  have "l \<le> k \<or> Suc k \<le> l" by arith
  then show False
  proof
    assume "l \<le> k"
    then have "?xs ! l \<le> ?xs ! k" using assms(1) sorted_nth_mono [OF sorted] by simp
    with l assms(2) show False by simp
  next
    assume "Suc k \<le> l"
    then have "?xs ! Suc k \<le> ?xs ! l" using l(1) sorted_nth_mono [OF sorted] by simp
    with l assms(3) show False by simp
  qed
qed

lemma filter_upt_strict:
  assumes "Suc k < length (filter P [0..<n])"
  shows "filter P [0..<n] ! k < filter P [0..<n] ! Suc k"
proof -
  have "sorted_wrt (<) (filter P [0..<n])"
    by (intro sorted_wrt_filter) (simp add: strict_sorted_iff)
  with assms show ?thesis by (simp add: sorted_wrt_nth_less)
qed

lemma unit_positions_mem: "i \<in> set (unit_positions es) \<longleftrightarrow> i < length es \<and> es ! i \<ge> 0"
  by (auto simp: unit_positions_def)

lemma polish_same_cuts:
  assumes "polish m es" "same_cuts es es'" "mset es' = mset es"
  shows "polish m es'"
proof -
  have "mset (filter (\<lambda>x. x \<ge> 0) es') = mset (filter (\<lambda>x. x \<ge> 0) es)"
    using assms(3) by (metis mset_filter)
  moreover have "set es' = set es" using assms(3) by (rule mset_eq_setD)
  moreover have "balloting es'"
    using same_shape_derived(5) [OF same_cuts_shape [OF assms(2)]] assms(1) by (simp add: polish_def)
  ultimately show ?thesis
    using assms same_cuts_normalized [OF assms(2)] by (simp add: polish_def same_cuts_def)
qed

lemma swap_units_ok:
  assumes ok: "npe_ok m e" and k: "Suc k < m"
  defines "p \<equiv> unit_pos e ! k" and "q \<equiv> unit_pos e ! Suc k"
  shows "NPE_swap_units e p = Inr (e\<lparr>elements := (elements e)[p := elements e ! q, q := elements e ! p]\<rparr>)"
    and "npe_ok m (e\<lparr>elements := (elements e)[p := elements e ! q, q := elements e ! p]\<rparr>)"
proof -
  let ?es = "elements e"
  have up: "unit_pos e = unit_positions ?es" and sz: "npe_size e = length ?es" and pol: "polish m ?es"
    using ok by (auto simp: npe_ok_def)
  have len: "Suc k < length (unit_positions ?es)" using k polish_units [OF pol] by simp
  have pq: "p < length ?es" "?es ! p \<ge> 0" "q < length ?es" "?es ! q \<ge> 0"
    using nth_mem [OF len] nth_mem [OF Suc_lessD [OF len]] by (auto simp: p_def q_def up unit_positions_mem)
  have lt: "p < q"
    using filter_upt_strict [OF len [unfolded unit_positions_def]] by (simp add: p_def q_def up unit_positions_def)
  have gap: "\<forall>j. p + 1 \<le> j \<and> j < q \<longrightarrow> ?es ! j < 0"
    using filter_upt_gap [OF len [unfolded unit_positions_def]]
    by (auto simp: p_def q_def up unit_positions_def not_le)
  have "next_unit ?es (npe_size e) (p + 1) = Inr q"
    by (rule next_unit_ok) (use pq lt gap sz in auto)
  with pq lt sz show "NPE_swap_units e p = Inr (e\<lparr>elements := ?es[p := ?es ! q, q := ?es ! p]\<rparr>)"
    by (simp add: NPE_swap_units_def)
  let ?es' = "?es[p := ?es ! q, q := ?es ! p]"
  have sc: "same_cuts ?es ?es'"
    using pq by (auto simp: same_cuts_def nth_list_update)
  have "mset ?es' = mset ?es" using pq by (simp add: mset_swap)
  then have "polish m ?es'" by (rule polish_same_cuts [OF pol sc])
  then show "npe_ok m (e\<lparr>elements := ?es'\<rparr>)"
    by (rule npe_ok_same_shape [OF ok same_cuts_shape [OF sc]])
qed

subsection \<open>M2\<close>

definition inv_cut :: "int \<Rightarrow> int" where
  "inv_cut x = (if x = CUT_VERTICAL then CUT_HORIZONTAL
                else if x = CUT_HORIZONTAL then CUT_VERTICAL else x)"

lemma inv_cut_inv [simp]: "inv_cut (inv_cut x) = x"
  by (simp add: inv_cut_def)

lemma inv_cut_neg [simp]: "inv_cut x < 0 \<longleftrightarrow> x < 0"
  by (auto simp: inv_cut_def)

lemma inv_cut_nonneg [simp]: "0 \<le> inv_cut x \<longleftrightarrow> 0 \<le> x"
  using inv_cut_neg [of x] by linarith

lemma inv_cut_eq [simp]: "inv_cut x = inv_cut y \<longleftrightarrow> x = y"
  by (metis inv_cut_inv)

text \<open>The end of the run of cuts that starts at \<open>i\<close>.\<close>

definition run_end :: "int list \<Rightarrow> nat \<Rightarrow> nat" where
  "run_end es i = i + length (takeWhile (\<lambda>x. x < 0) (drop i es))"

definition invert_range :: "int list \<Rightarrow> nat \<Rightarrow> nat \<Rightarrow> int list" where
  "invert_range es i j = map (\<lambda>k. if i \<le> k \<and> k < j then inv_cut (es ! k) else es ! k) [0..<length es]"

lemma length_invert_range [simp]: "length (invert_range es i j) = length es"
  by (simp add: invert_range_def)

lemma nth_invert_range [simp]:
  "k < length es \<Longrightarrow> invert_range es i j ! k = (if i \<le> k \<and> k < j then inv_cut (es ! k) else es ! k)"
  by (simp add: invert_range_def)

lemma run_end_step:
  assumes "i < length es"
  shows "run_end es i = (if es ! i < 0 then run_end es (Suc i) else i)"
proof -
  have "drop i es = es ! i # drop (Suc i) es" using assms by (simp add: Cons_nth_drop_Suc)
  then show ?thesis by (simp add: run_end_def)
qed

lemma run_end_ge: "i \<le> run_end es i"
  by (simp add: run_end_def)

lemma run_end_le: "i \<le> length es \<Longrightarrow> run_end es i \<le> length es"
  using length_takeWhile_le [of "\<lambda>x. x < 0" "drop i es"] by (simp add: run_end_def)

lemma run_end_cuts:
  assumes "i \<le> k" "k < run_end es i" "i \<le> length es"
  shows "es ! k < 0"
proof -
  let ?w = "takeWhile (\<lambda>x. x < 0) (drop i es)"
  have k: "k - i < length ?w" using assms by (simp add: run_end_def)
  then have "?w ! (k - i) = drop i es ! (k - i)" by (rule takeWhile_nth)
  also have "\<dots> = es ! k" using assms by simp
  finally show ?thesis using nth_mem [OF k] by (auto dest: set_takeWhileD)
qed

lemma run_end_stop: "run_end es i < length es \<Longrightarrow> es ! run_end es i \<ge> 0"
  using nth_length_takeWhile [of "\<lambda>x. x < 0" "drop i es"]
  by (force simp: run_end_def not_less [symmetric])

text \<open>The loop of M2 inverts the rest of the run it starts in.\<close>

lemma invert_loop_ok:
  assumes "normalized es" "\<forall>x \<in> set es. x < 0 \<longrightarrow> x = CUT_VERTICAL \<or> x = CUT_HORIZONTAL"
    and "0 < i" "i \<le> length es" "es ! (i - 1) < 0"
    and "length fs = length es" "\<forall>k. i \<le> k \<and> k < length es \<longrightarrow> fs ! k = es ! k"
  shows "invert_loop fs (length es) i (es ! (i - 1)) =
    Inr (map (\<lambda>k. if i \<le> k \<and> k < run_end es i then inv_cut (es ! k) else fs ! k) [0..<length es])"
  using assms
proof (induction "length es - i" arbitrary: i fs)
  case 0
  then have i: "i = length es" by simp
  have "map (\<lambda>k. if i \<le> k \<and> k < run_end es i then inv_cut (es ! k) else fs ! k) [0..<length es] = fs"
    using "0.prems" i by (intro nth_equalityI) auto
  with i show ?case by (simp add: invert_loop.simps [of fs "length es" "length es"])
next
  case (Suc d)
  have i: "i < length es" using Suc.hyps(2) by simp
  have fi: "fs ! i = es ! i" using Suc.prems(7) i by simp
  show ?case
  proof (cases "es ! i < 0")
    case True
    have ne: "es ! i \<noteq> es ! (i - 1)"
      using Suc.prems(1,3,5) i by (auto simp: normalized_def dest: spec [of _ "i - 1"])
    have cut: "es ! i = CUT_VERTICAL \<or> es ! i = CUT_HORIZONTAL"
      using Suc.prems(2) i True nth_mem by blast
    let ?fs = "fs[i := inv_cut (es ! i)]"
    have step: "invert_loop fs (length es) i (es ! (i - 1)) = invert_loop ?fs (length es) (Suc i) (es ! i)"
      using i fi ne cut Suc.prems(6) by (auto simp: invert_loop.simps [of fs "length es" i] inv_cut_def)
    have "invert_loop ?fs (length es) (Suc i) (es ! (Suc i - 1)) =
        Inr (map (\<lambda>k. if Suc i \<le> k \<and> k < run_end es (Suc i) then inv_cut (es ! k) else ?fs ! k)
          [0..<length es])"
      by (rule Suc.hyps(1)) (use Suc.prems Suc.hyps(2) True i in auto)
    moreover have "(if Suc i \<le> k \<and> k < run_end es (Suc i) then inv_cut (es ! k) else ?fs ! k) =
        (if i \<le> k \<and> k < run_end es i then inv_cut (es ! k) else fs ! k)" if "k < length es" for k
      using that i True run_end_ge [of "Suc i" es] Suc.prems(6)
      by (auto simp: run_end_step [of i es] nth_list_update)
    ultimately show ?thesis using step by (simp cong: map_cong)
  next
    case False
    then have "run_end es i = i" using i by (simp add: run_end_step)
    moreover from this have "map (\<lambda>k. if i \<le> k \<and> k < run_end es i then inv_cut (es ! k) else fs ! k)
        [0..<length es] = fs"
      using Suc.prems(6) by (intro nth_equalityI) auto
    ultimately show ?thesis
      using i False fi Suc.prems(6) by (simp add: invert_loop.simps [of fs "length es" i])
  qed
qed

lemma invert_range_shape: "same_shape es (invert_range es i j)"
  by (simp add: same_shape_def)

lemma invert_range_polish:
  assumes pol: "polish m es" and c: "is_chain_start es c" "c < length es"
  shows "polish m (invert_range es c (run_end es c))"
proof -
  let ?r = "run_end es c" and ?es = "invert_range es c (run_end es c)"
  have cuts: "\<And>x. x \<in> set es \<Longrightarrow> x < 0 \<Longrightarrow> x = CUT_VERTICAL \<or> x = CUT_HORIZONTAL"
    and norm: "normalized es" using pol by (auto simp: polish_def)
  have "?es ! i \<noteq> ?es ! Suc i" if i: "Suc i < length es" and neg: "?es ! i < 0" for i
  proof -
    have ne: "es ! i \<noteq> es ! Suc i" "es ! i < 0"
      using norm i neg by (auto simp: normalized_def split: if_splits)
    consider "Suc i = c" | "Suc i = ?r" | "c \<le> i \<longleftrightarrow> c \<le> Suc i" "i < ?r \<longleftrightarrow> Suc i < ?r" by linarith
    then show ?thesis
    proof cases
      case 1
      then show ?thesis using c ne by (auto simp: is_chain_start_def)
    next
      case 2
      then have "es ! Suc i \<ge> 0" using run_end_stop [of es c] i by simp
      then show ?thesis using neg i by (auto split: if_splits)
    next
      case 3
      then show ?thesis using ne i by auto
    qed
  qed
  then have "normalized ?es" by (simp add: normalized_def)
  moreover have "filter (\<lambda>x. x \<ge> 0) ?es = filter (\<lambda>x. x \<ge> 0) es"
  proof -
    have "filter (\<lambda>x. x \<ge> 0) ?es = map ((!) ?es) (unit_positions ?es)"
      unfolding unit_positions_def by (metis (no_types, lifting) comp_def filter_map map_nth filter_cong)
    also have "\<dots> = map ((!) es) (unit_positions es)"
      unfolding same_shape_derived(1) [OF invert_range_shape]
      by (rule map_cong) (auto simp: unit_positions_mem inv_cut_def)
    also have "\<dots> = filter (\<lambda>x. x \<ge> 0) es"
      unfolding unit_positions_def by (metis (no_types, lifting) comp_def filter_map map_nth filter_cong)
    finally show ?thesis .
  qed
  moreover have "x = CUT_VERTICAL \<or> x = CUT_HORIZONTAL" if x: "x \<in> set ?es" "x < 0" for x
  proof -
    obtain k where k: "k < length es" "x = ?es ! k" using x(1) by (auto simp: in_set_conv_nth)
    then have "es ! k = CUT_VERTICAL \<or> es ! k = CUT_HORIZONTAL"
      using x(2) cuts [of "es ! k"] nth_mem [of k es] by (auto split: if_splits)
    with k show ?thesis by (auto simp: inv_cut_def)
  qed
  ultimately show ?thesis
    using pol same_shape_derived(5) [OF invert_range_shape [of es c ?r]] by (simp add: polish_def)
qed

lemma invert_chain_ok:
  assumes ok: "npe_ok m e" and c: "c \<in> set (chain_positions (elements e))"
  defines "es' \<equiv> invert_range (elements e) c (run_end (elements e) c)"
  shows "NPE_invert_chain e c = Inr (e\<lparr>elements := es'\<rparr>)" and "npe_ok m (e\<lparr>elements := es'\<rparr>)"
proof -
  let ?es = "elements e"
  have pol: "polish m ?es" and sz: "npe_size e = length ?es" using ok by (auto simp: npe_ok_def)
  have cs: "c < length ?es" "is_chain_start ?es c" "?es ! c < 0"
    using c by (auto simp: chain_positions_def is_chain_start_def)
  have cut: "?es ! c = CUT_VERTICAL \<or> ?es ! c = CUT_HORIZONTAL"
    using pol cs nth_mem by (auto simp: polish_def)
  let ?fs = "?es[c := inv_cut (?es ! c)]"
  have "invert_loop ?fs (length ?es) (Suc c) (?es ! (Suc c - 1)) =
     Inr (map (\<lambda>k. if Suc c \<le> k \<and> k < run_end ?es (Suc c) then inv_cut (?es ! k) else ?fs ! k)
       [0..<length ?es])"
    by (rule invert_loop_ok) (use pol cs in \<open>auto simp: polish_def\<close>)
  moreover have "map (\<lambda>k. if Suc c \<le> k \<and> k < run_end ?es (Suc c) then inv_cut (?es ! k) else ?fs ! k)
       [0..<length ?es] = es'"
    unfolding es'_def using cs run_end_ge [of "Suc c" ?es]
    by (intro nth_equalityI) (auto simp: run_end_step [of c ?es] nth_list_update)
  ultimately have "invert_loop ?fs (length ?es) (Suc c) (?es ! c) = Inr es'" by simp
  then show "NPE_invert_chain e c = Inr (e\<lparr>elements := es'\<rparr>)"
    using cut cs sz by (auto simp: NPE_invert_chain_def inv_cut_def)
  have "polish m es'" unfolding es'_def by (rule invert_range_polish [OF pol cs(2,1)])
  then show "npe_ok m (e\<lparr>elements := es'\<rparr>)"
    unfolding es'_def by (intro npe_ok_same_shape [OF ok invert_range_shape])
qed

end
