(* ===== verification/NPE_Random.thy ===== *)
theory NPE_Random
  imports NPE_Moves
begin

text \<open>
  Move M3 (swap an adjacent cut and unit) and the random move. M3 is the move that changes the
  positions of cuts, so it updates every derived array; it accepts a swap exactly when the
  swapped expression is again a normalized Polish expression.
\<close>

section \<open>Binary search for a unit position\<close>

lemma sorted_wrt_less_nth_iff:
  "sorted_wrt (<) (xs::nat list) \<Longrightarrow> i < length xs \<Longrightarrow> j < length xs \<Longrightarrow> xs ! i < xs ! j \<longleftrightarrow> i < j"
  by (metis linorder_neqE_nat order_less_asym sorted_wrt_nth_less)

lemma update_unit_pos_ok:
  assumes "sorted_wrt (<) (unit_pos e)" "k < length (unit_pos e)" "unit_pos e ! k = pos"
    and "0 \<le> start" "start \<le> int k" "int k \<le> end'" "end' < int (length (unit_pos e))"
    and "0 \<le> int pos + delta"
  shows "update_unit_pos e pos delta start end' =
    Inr (True, e\<lparr>unit_pos := (unit_pos e)[k := nat (int pos + delta)]\<rparr>)"
  using assms
proof (induction e pos delta start end' rule: update_unit_pos.induct)
  case (1 expr pos delta start end')
  let ?mid = "c_div (start + end') 2" and ?up = "unit_pos expr"
  have bt: "start \<le> ?mid" "?mid \<le> end'" using c_div2_between [of start end'] "1.prems" by auto
  have rd: "rdi ?up ?mid = Inr (?up ! nat ?mid)" and len: "nat ?mid < length ?up"
    using bt "1.prems" by auto
  have le: "\<not> start > end'" using "1.prems" by simp
  consider "nat ?mid = k" | "k < nat ?mid" | "nat ?mid < k" by linarith
  then show ?case
  proof cases
    case 1
    then show ?thesis
      using rd le "1.prems" by (simp add: update_unit_pos.simps [of expr pos delta start end'] Let_def)
  next
    case 2
    then have gt: "?up ! nat ?mid > pos"
      using sorted_wrt_less_nth_iff [of ?up k "nat ?mid"] "1.prems" len by simp
    have "update_unit_pos expr pos delta start (?mid - 1) =
        Inr (True, expr\<lparr>unit_pos := ?up[k := nat (int pos + delta)]\<rparr>)"
      by (rule "1.IH"(1) [OF le refl rd]) (use gt 2 bt "1.prems" in auto)
    with gt rd le show ?thesis
      by (simp add: update_unit_pos.simps [of expr pos delta start end'] Let_def)
  next
    case 3
    then have lt: "?up ! nat ?mid < pos"
      using sorted_wrt_less_nth_iff [of ?up "nat ?mid" k] "1.prems" len by simp
    have "update_unit_pos expr pos delta (?mid + 1) end' =
        Inr (True, expr\<lparr>unit_pos := ?up[k := nat (int pos + delta)]\<rparr>)"
      by (rule "1.IH"(2) [OF le refl rd]) (use lt 3 bt "1.prems" in auto)
    with lt rd le show ?thesis
      by (simp add: update_unit_pos.simps [of expr pos delta start end'] Let_def)
  qed
qed

lemma unit_positions_sorted: "sorted_wrt (<) (unit_positions es)"
  unfolding unit_positions_def by (intro sorted_wrt_filter) (simp add: strict_sorted_iff)

section \<open>Swapping neighbours\<close>

definition swap_next :: "int list \<Rightarrow> nat \<Rightarrow> int list" where
  "swap_next es p = es[p := es ! Suc p, Suc p := es ! p]"

lemma length_swap_next [simp]: "length (swap_next es p) = length es"
  by (simp add: swap_next_def)

lemma nth_swap_next:
  "Suc p < length es \<Longrightarrow> swap_next es p ! i = (if i = p then es ! Suc p else if i = Suc p then es ! p else es ! i)"
  by (auto simp: swap_next_def nth_list_update)

lemma swap_next_swap_next: "Suc p < length es \<Longrightarrow> swap_next (swap_next es p) p = es"
  by (rule nth_equalityI) (auto simp: nth_swap_next)

lemma mset_swap_next: "Suc p < length es \<Longrightarrow> mset (swap_next es p) = mset es"
  by (simp add: swap_next_def mset_swap)

lemma upt_split_at:
  assumes "Suc p < n"
  shows "[0..<n] = [0..<p] @ p # Suc p # [Suc (Suc p)..<n]"
proof -
  have "[0..<n] = [0..<p] @ [p..<n]" using assms upt_add_eq_append [of 0 p "n - p"] by simp
  also have "[p..<n] = p # Suc p # [Suc (Suc p)..<n]" using assms by (simp add: upt_conv_Cons)
  finally show ?thesis .
qed

text \<open>The unit list around a swap of a unit at \<open>p\<close> with the cut after it.\<close>

lemma unit_positions_swap:
  assumes p: "Suc p < length es" and u: "es ! p \<ge> 0" "es ! Suc p < 0"
  shows "\<exists>A B. unit_positions es = A @ p # B \<and> unit_positions (swap_next es p) = A @ Suc p # B"
proof -
  let ?A = "filter (\<lambda>i. es ! i \<ge> 0) [0..<p]"
  let ?B = "filter (\<lambda>i. es ! i \<ge> 0) [Suc (Suc p)..<length es]"
  have "filter (\<lambda>i. swap_next es p ! i \<ge> 0) [0..<p] = ?A"
    by (rule filter_cong) (auto simp: nth_swap_next [OF p])
  moreover have "filter (\<lambda>i. swap_next es p ! i \<ge> 0) [Suc (Suc p)..<length es] = ?B"
    by (rule filter_cong) (auto simp: nth_swap_next [OF p])
  ultimately show ?thesis
    using u by (intro exI [of _ ?A] exI [of _ ?B])
      (simp add: unit_positions_def upt_split_at [OF p] nth_swap_next [OF p] not_le)
qed

lemma cuts_before_swap:
  assumes p: "Suc p < length es" and u: "es ! p \<ge> 0" "es ! Suc p < 0"
  shows "cuts_before (swap_next es p) i = cuts_before es i + (if i = Suc p then 1 else 0)"
proof (induction i)
  case (Suc i)
  show ?case
    using Suc u by (auto simp: cuts_before_Suc nth_swap_next [OF p])
qed simp

lemma ballots_swap:
  assumes "Suc p < length es" "es ! p \<ge> 0" "es ! Suc p < 0"
  shows "ballots (swap_next es p) = (ballots es)[p := Suc (ballots es ! p)]"
  by (rule nth_equalityI) (use assms in \<open>auto simp: ballots_def cuts_before_swap nth_list_update\<close>)

text \<open>When the swapped expression is a Polish expression again.\<close>

lemma balloting_swap_iff:
  assumes p: "Suc p < length es" and u: "es ! p \<ge> 0" "es ! Suc p < 0" and b: "balloting es"
  shows "balloting (swap_next es p) \<longleftrightarrow> \<not> 2 * ballots es ! Suc p \<ge> Suc p"
proof -
  have bal: "ballots es ! Suc p = Suc (cuts_before es (Suc p))"
    using p u by (simp add: ballots_def cuts_before_Suc)
  show ?thesis
  proof
    assume "balloting (swap_next es p)"
    then have "2 * cuts_before (swap_next es p) (Suc p) \<le> p" using p by (simp add: balloting_def)
    with bal show "\<not> 2 * ballots es ! Suc p \<ge> Suc p" by (simp add: cuts_before_swap [OF p u])
  next
    assume "\<not> 2 * ballots es ! Suc p \<ge> Suc p"
    with bal have "2 * Suc (cuts_before es (Suc p)) \<le> p" by simp
    with b show "balloting (swap_next es p)"
      by (auto simp: balloting_def cuts_before_swap [OF p u])
  qed
qed

lemma normalized_swap_iff:
  assumes p: "0 < p" "Suc p < length es" and u: "es ! p \<ge> 0" "es ! Suc p < 0" and n: "normalized es"
  shows "normalized (swap_next es p) \<longleftrightarrow> es ! (p - 1) \<noteq> es ! Suc p"
proof
  assume n': "normalized (swap_next es p)"
  show "es ! (p - 1) \<noteq> es ! Suc p"
  proof
    assume "es ! (p - 1) = es ! Suc p"
    with p u have "swap_next es p ! (p - 1) = swap_next es p ! Suc (p - 1)" "swap_next es p ! (p - 1) < 0"
      "Suc (p - 1) < length (swap_next es p)"
      by (auto simp: nth_swap_next)
    with n' show False by (auto simp: normalized_def)
  qed
next
  assume ne: "es ! (p - 1) \<noteq> es ! Suc p"
  have "swap_next es p ! i \<noteq> swap_next es p ! Suc i"
    if i: "Suc i < length es" "swap_next es p ! i < 0" for i
  proof -
    consider "Suc i = p" | "i = p" | "i = Suc p" | "Suc i < p" | "Suc p < i" by linarith
    then show ?thesis
    proof cases
      case 1
      then show ?thesis using ne p by (auto simp: nth_swap_next)
    next
      case 2
      then show ?thesis using u p by (auto simp: nth_swap_next)
    next
      case 3
      then show ?thesis using u p i by (auto simp: nth_swap_next)
    qed (use n i p in \<open>auto simp: nth_swap_next normalized_def\<close>)
  qed
  then show "normalized (swap_next es p)" by (simp add: normalized_def)
qed

lemma normalized_swap_back_iff:
  assumes p: "Suc p < length es" and u: "es ! p < 0" "es ! Suc p \<ge> 0" and n: "normalized es"
  shows "normalized (swap_next es p) \<longleftrightarrow> \<not> (Suc (Suc p) < length es \<and> es ! p = es ! Suc (Suc p))"
proof
  assume n': "normalized (swap_next es p)"
  show "\<not> (Suc (Suc p) < length es \<and> es ! p = es ! Suc (Suc p))"
  proof
    assume "Suc (Suc p) < length es \<and> es ! p = es ! Suc (Suc p)"
    with p u have "swap_next es p ! Suc p = swap_next es p ! Suc (Suc p)" "swap_next es p ! Suc p < 0"
      "Suc (Suc p) < length (swap_next es p)"
      by (auto simp: nth_swap_next)
    with n' show False by (auto simp: normalized_def)
  qed
next
  assume ne: "\<not> (Suc (Suc p) < length es \<and> es ! p = es ! Suc (Suc p))"
  have "swap_next es p ! i \<noteq> swap_next es p ! Suc i"
    if i: "Suc i < length es" "swap_next es p ! i < 0" for i
  proof -
    consider "Suc i = p" | "i = p" | "i = Suc p" | "Suc i < p" | "Suc p < i" by linarith
    then show ?thesis
    proof cases
      case 1
      then show ?thesis using u p i by (auto simp: nth_swap_next)
    next
      case 2
      then show ?thesis using u p i by (auto simp: nth_swap_next)
    next
      case 3
      then show ?thesis using ne p i by (auto simp: nth_swap_next)
    qed (use n i p in \<open>auto simp: nth_swap_next normalized_def\<close>)
  qed
  then show "normalized (swap_next es p)" by (simp add: normalized_def)
qed

lemma balloting_swap_back:
  assumes p: "Suc p < length es" and u: "es ! p < 0" "es ! Suc p \<ge> 0" and b: "balloting es"
  shows "balloting (swap_next es p)"
proof -
  let ?fs = "swap_next es p"
  have fs: "Suc p < length ?fs" "?fs ! p \<ge> 0" "?fs ! Suc p < 0"
    using p u by (auto simp: nth_swap_next)
  have "cuts_before ?fs i \<le> cuts_before es i" for i
    using cuts_before_swap [OF fs, of i] by (simp add: swap_next_swap_next [OF p])
  then show ?thesis
    using b by (auto simp: balloting_def intro: order_trans [OF mult_le_mono2])
qed

lemma polish_swap_iff:
  assumes "polish m es" "Suc p < length es"
  shows "polish m (swap_next es p) \<longleftrightarrow> normalized (swap_next es p) \<and> balloting (swap_next es p)"
proof -
  have ms: "mset (swap_next es p) = mset es" by (rule mset_swap_next [OF assms(2)])
  have "mset (filter (\<lambda>x. x \<ge> 0) (swap_next es p)) = mset (filter (\<lambda>x. x \<ge> 0) es)"
    using ms by (metis mset_filter)
  moreover have "set (swap_next es p) = set es" using ms by (rule mset_eq_setD)
  ultimately show ?thesis using assms(1) by (simp add: polish_def)
qed


section \<open>M3\<close>

lemma polish_start:
  assumes "polish m es" "Suc 0 < length es"
  shows "es ! 0 \<ge> 0" "es ! Suc 0 \<ge> 0"
proof -
  have b: "balloting es" using assms by (simp add: polish_def)
  have "cuts_before es (Suc 0) = 0" "2 * cuts_before es (Suc (Suc 0)) \<le> 1"
    using b assms(2) by (auto simp: balloting_def dest: spec [of _ 0] spec [of _ "Suc 0"])
  then show "es ! 0 \<ge> 0" "es ! Suc 0 \<ge> 0"
    by (auto simp: cuts_before_Suc split: if_splits)
qed

lemma flip_position_cases:
  assumes "polish m es" "p \<in> set (flip_positions es)"
  shows "0 < p" "Suc p < length es" "(es ! p \<ge> 0 \<and> es ! Suc p < 0) \<or> (es ! p < 0 \<and> es ! Suc p \<ge> 0)"
proof -
  have p: "p < length es - 1" "is_flip es p" using assms(2) by (auto simp: flip_positions_def)
  then show "Suc p < length es" "(es ! p \<ge> 0 \<and> es ! Suc p < 0) \<or> (es ! p < 0 \<and> es ! Suc p \<ge> 0)"
    by (auto simp: is_flip_def)
  show "0 < p"
  proof (rule ccontr)
    assume "\<not> 0 < p"
    with p polish_start [OF assms(1)] show False by (auto simp: is_flip_def)
  qed
qed

lemma swap_at_ok:
  assumes p: "Suc p < length (elements e)" and sz: "npe_size e = length (elements e)"
    and fl: "length (flip_pos e) = npe_size e" and ch: "length (chain_pos e) = m - 1"
    and units: "npe_units e = m" "unit_pos e = unit_positions (swap_next (elements e) p)"
    and bal: "ballot_count e = ballots (swap_next (elements e) p)"
    and pol: "polish m (swap_next (elements e) p)"
  shows "\<exists>e'. swap_at e p = Inr (True, e') \<and> npe_ok m e' \<and> elements e' = swap_next (elements e) p"
proof -
  let ?es = "swap_next (elements e) p" and ?e1 = "e\<lparr>elements := swap_next (elements e) p\<rparr>"
  obtain fp where fp: "fill_flip_pos ?e1 = Inr (?e1\<lparr>flip_pos := fp, n_flips := length (flip_positions ?es)\<rparr>)"
    "length fp = npe_size e" "take (length (flip_positions ?es)) fp = flip_positions ?es"
    using fill_flip_pos_ok [of ?e1] sz fl by auto
  let ?e2 = "?e1\<lparr>flip_pos := fp, n_flips := length (flip_positions ?es)\<rparr>"
  have room: "length (chain_positions ?es) \<le> m - 1"
    using length_chain_positions [of ?es] polish_cuts [OF pol] by simp
  obtain cp where cp: "fill_chain_pos ?e2 = Inr (?e2\<lparr>chain_pos := cp, n_chains := length (chain_positions ?es)\<rparr>)"
    "length cp = m - 1" "take (length (chain_positions ?es)) cp = chain_positions ?es"
    using fill_chain_pos_ok [of ?e2] sz ch room pol by (auto simp: polish_def)
  have "swap_at e p = Inr (True, ?e2\<lparr>chain_pos := cp, n_chains := length (chain_positions ?es)\<rparr>)"
    using p fp(1) cp(1) by (simp add: swap_at_def swap_next_def)
  moreover have "npe_ok m (?e2\<lparr>chain_pos := cp, n_chains := length (chain_positions ?es)\<rparr>)"
    using sz fp(2,3) cp(2,3) units bal pol by (simp add: npe_ok_def)
  ultimately show ?thesis by simp
qed

lemma list_update_mid: "length A = k \<Longrightarrow> (A @ x # B)[k := y] = A @ y # B"
  by (simp add: list_update_append)

lemma swap_unit_cut:
  assumes ok: "npe_ok m e" and p: "0 < p" "Suc p < length (elements e)"
    and u: "elements e ! p \<ge> 0" "elements e ! Suc p < 0"
  shows "if polish m (swap_next (elements e) p)
    then \<exists>e'. NPE_swap_cut_unit e p = Inr (True, e') \<and> npe_ok m e' \<and> elements e' = swap_next (elements e) p
    else NPE_swap_cut_unit e p = Inr (False, e)"
proof -
  let ?es = "elements e"
  note e = ok [unfolded npe_ok_def]
  have pol: "polish m ?es" and bc: "ballot_count e = ballots ?es" and sz: "npe_size e = length ?es"
    and units: "npe_units e = m" "unit_pos e = unit_positions ?es"
    using e by auto
  have lens: "length (ballots ?es) = length ?es" by (simp add: ballots_def)
  have guard: "\<not> (p = 0 \<or> npe_size e \<le> p + 1)" using p sz by simp
  have iff: "polish m (swap_next ?es p) \<longleftrightarrow>
      ?es ! (p - 1) \<noteq> ?es ! Suc p \<and> \<not> 2 * ballots ?es ! Suc p \<ge> Suc p"
    using polish_swap_iff [OF pol p(2)] normalized_swap_iff [OF p u] balloting_swap_iff [OF p(2) u] pol
    by (simp add: polish_def)
  show ?thesis
  proof (cases "polish m (swap_next ?es p)")
    case False
    with iff have "NPE_swap_cut_unit e p = Inr (False, e)"
      using guard p u bc lens by (auto simp: NPE_swap_cut_unit_def)
    with False show ?thesis by simp
  next
    case True
    obtain A B where AB: "unit_positions ?es = A @ p # B" "unit_positions (swap_next ?es p) = A @ Suc p # B"
      using unit_positions_swap [OF p(2) u] by blast
    have lenu: "length (unit_positions ?es) = m" by (rule polish_units [OF pol])
    let ?e1 = "e\<lparr>unit_pos := unit_positions (swap_next ?es p)\<rparr>"
    have "update_unit_pos e p 1 0 (int (npe_units e) - 1) =
        Inr (True, e\<lparr>unit_pos := (unit_pos e)[length A := nat (int p + 1)]\<rparr>)"
      by (rule update_unit_pos_ok)
        (use units AB lenu unit_positions_sorted [of ?es] in \<open>auto simp: nth_append\<close>)
    then have upd: "update_unit_pos e p 1 0 (int (npe_units e) - 1) = Inr (True, ?e1)"
      using units AB by (simp add: list_update_mid nat_add_distrib)
    let ?e2 = "?e1\<lparr>ballot_count := ballots (swap_next ?es p)\<rparr>"
    have "\<exists>e'. swap_at ?e2 p = Inr (True, e') \<and> npe_ok m e' \<and> elements e' = swap_next (elements ?e2) p"
      by (rule swap_at_ok) (use p e True in auto)
    moreover have "NPE_swap_cut_unit e p = swap_at ?e2 p"
      using iff True guard p u bc lens upd ballots_swap [OF p(2) u]
      by (simp add: NPE_swap_cut_unit_def)
    ultimately show ?thesis using True by simp
  qed
qed

lemma swap_cut_unit_back:
  assumes ok: "npe_ok m e" and p: "0 < p" "Suc p < length (elements e)"
    and u: "elements e ! p < 0" "elements e ! Suc p \<ge> 0"
  shows "if polish m (swap_next (elements e) p)
    then \<exists>e'. NPE_swap_cut_unit e p = Inr (True, e') \<and> npe_ok m e' \<and> elements e' = swap_next (elements e) p
    else NPE_swap_cut_unit e p = Inr (False, e)"
proof -
  let ?es = "elements e" and ?fs = "swap_next (elements e) p"
  note e = ok [unfolded npe_ok_def]
  have pol: "polish m ?es" and bc: "ballot_count e = ballots ?es" and sz: "npe_size e = length ?es"
    and units: "npe_units e = m" "unit_pos e = unit_positions ?es"
    using e by auto
  have lens: "length (ballots ?es) = length ?es" by (simp add: ballots_def)
  have guard: "\<not> (p = 0 \<or> npe_size e \<le> p + 1)" using p sz by simp
  have fs: "Suc p < length ?fs" "?fs ! p \<ge> 0" "?fs ! Suc p < 0" "swap_next ?fs p = ?es"
    using p u by (auto simp: nth_swap_next swap_next_swap_next)
  have iff: "polish m ?fs \<longleftrightarrow> \<not> (Suc (Suc p) < length ?es \<and> ?es ! p = ?es ! Suc (Suc p))"
    using polish_swap_iff [OF pol p(2)] normalized_swap_back_iff [OF p(2) u] balloting_swap_back [OF p(2) u] pol
    by (simp add: polish_def)
  show ?thesis
  proof (cases "polish m ?fs")
    case False
    with iff have "NPE_swap_cut_unit e p = Inr (False, e)"
      using guard p u sz by (auto simp: NPE_swap_cut_unit_def)
    with False show ?thesis by simp
  next
    case True
    obtain A B where AB: "unit_positions ?fs = A @ p # B" "unit_positions ?es = A @ Suc p # B"
      using unit_positions_swap [OF fs(1-3)] fs(4) by auto
    have lenu: "length (unit_positions ?es) = m" by (rule polish_units [OF pol])
    let ?e1 = "e\<lparr>unit_pos := unit_positions ?fs\<rparr>"
    have "update_unit_pos e (p + 1) (- 1) 0 (int (npe_units e) - 1) =
        Inr (True, e\<lparr>unit_pos := (unit_pos e)[length A := nat (int (p + 1) + - 1)]\<rparr>)"
      by (rule update_unit_pos_ok)
        (use units AB lenu unit_positions_sorted [of ?es] in \<open>auto simp: nth_append\<close>)
    then have upd: "update_unit_pos e (p + 1) (- 1) 0 (int (npe_units e) - 1) = Inr (True, ?e1)"
      using units AB by (simp add: list_update_mid)
    have bal: "ballots ?es = (ballots ?fs)[p := Suc (ballots ?fs ! p)]"
      using ballots_swap [OF fs(1-3)] fs(4) by simp
    have "length (ballots ?fs) = length ?es" by (simp add: ballots_def)
    then have bp: "ballots ?es ! p = Suc (ballots ?fs ! p)" "ballots ?fs = (ballots ?es)[p := ballots ?fs ! p]"
      using p by (simp_all add: bal)
    let ?e2 = "?e1\<lparr>ballot_count := ballots ?fs\<rparr>"
    have "\<exists>e'. swap_at ?e2 p = Inr (True, e') \<and> npe_ok m e' \<and> elements e' = swap_next (elements ?e2) p"
      by (rule swap_at_ok) (use p e True in auto)
    moreover have "NPE_swap_cut_unit e p = swap_at ?e2 p"
      using iff True guard p u bc lens upd bp sz
      by (auto simp: NPE_swap_cut_unit_def)
    ultimately show ?thesis using True by simp
  qed
qed

lemma swap_cut_unit_ok:
  assumes "npe_ok m e" "p \<in> set (flip_positions (elements e))"
  shows "if polish m (swap_next (elements e) p)
    then \<exists>e'. NPE_swap_cut_unit e p = Inr (True, e') \<and> npe_ok m e' \<and> elements e' = swap_next (elements e) p
    else NPE_swap_cut_unit e p = Inr (False, e)"
proof -
  have "polish m (elements e)" using assms(1) by (simp add: npe_ok_def)
  note p = flip_position_cases [OF this assms(2)]
  from p(3) show ?thesis
    using swap_unit_cut [OF assms(1) p(1,2)] swap_cut_unit_back [OF assms(1) p(1,2)] by blast
qed

end
