(* ===== verification/NPE_Search.thy ===== *)
theory NPE_Search
  imports NPE_Random
begin

text \<open>
  The random move of the annealer as an abstract step relation on expressions, the refinement
  of that relation by \<open>make_random_move\<close>, and the give-up test that also rejects a move which
  succeeded in the last permitted attempt.
\<close>

section \<open>Moves as a step relation\<close>

inductive npe_move :: "nat \<Rightarrow> int list \<Rightarrow> int list \<Rightarrow> bool" for m where
  M1: "Suc k < length (unit_positions es) \<Longrightarrow> p = unit_positions es ! k \<Longrightarrow>
     q = unit_positions es ! Suc k \<Longrightarrow> npe_move m es (es[p := es ! q, q := es ! p])"
| M2: "c \<in> set (chain_positions es) \<Longrightarrow> npe_move m es (invert_range es c (run_end es c))"
| M3: "p \<in> set (flip_positions es) \<Longrightarrow> polish m (swap_next es p) \<Longrightarrow> npe_move m es (swap_next es p)"

inductive_simps npe_move_simps: "npe_move m es es'"

text \<open>The expressions the annealer can visit from its starting solution.\<close>

inductive npe_reachable :: "nat \<Rightarrow> int list \<Rightarrow> bool" for m where
  start: "npe_reachable m (initial_elements m)"
| move: "npe_reachable m es \<Longrightarrow> npe_move m es es' \<Longrightarrow> npe_reachable m es'"

lemma npe_move_polish:
  assumes "npe_move m es es'" "polish m es"
  shows "polish m es'"
  using assms
proof (induction rule: npe_move.induct)
  case (M1 k es p q)
  have len: "Suc k < length (filter (\<lambda>i. es ! i \<ge> 0) [0..<length es])"
    using M1(1) by (simp add: unit_positions_def)
  have pq: "p < length es" "es ! p \<ge> 0" "q < length es" "es ! q \<ge> 0"
    using nth_mem [OF M1(1)] nth_mem [OF Suc_lessD [OF M1(1)]] M1(2,3)
    by (auto simp: unit_positions_mem)
  have "same_cuts es (es[p := es ! q, q := es ! p])"
    using pq by (auto simp: same_cuts_def nth_list_update)
  moreover have "mset (es[p := es ! q, q := es ! p]) = mset es" using pq by (simp add: mset_swap)
  ultimately show ?case using polish_same_cuts [OF M1(4)] by blast
next
  case (M2 c es)
  then show ?case by (intro invert_range_polish) (auto simp: chain_positions_def)
qed simp

lemma npe_reachable_polish: "npe_reachable m es \<Longrightarrow> 0 < m \<Longrightarrow> polish m es"
  by (induction rule: npe_reachable.induct) (auto intro: initial_polish npe_move_polish)

section \<open>Every expression of two or more units has a flip and a chain\<close>

lemma first_cut:
  assumes "polish m es" "2 \<le> m"
  obtains c where "0 < c" "c < length es" "es ! c < 0" "\<forall>i < c. es ! i \<ge> 0"
proof -
  have "cuts_before es (length es) \<noteq> 0" using polish_cuts [OF assms(1)] assms(2) by simp
  then have "\<exists>i. i < length es \<and> es ! i < 0" by (auto simp: cuts_before_def filter_empty_conv)
  then have ex: "\<exists>i. i < length es \<and> es ! i < 0" .
  define c where "c = (LEAST i. i < length es \<and> es ! i < 0)"
  have c: "c < length es" "es ! c < 0" using LeastI_ex [OF ex] by (auto simp: c_def)
  have below: "\<forall>i < c. es ! i \<ge> 0"
    using c(1) not_less_Least [of _ "\<lambda>i. i < length es \<and> es ! i < 0", folded c_def]
    by (metis less_trans not_le)
  have "Suc 0 < length es" using assms by (auto simp: polish_def)
  then have "0 < c" using polish_start(1) [OF assms(1)] c(2) by (cases c) auto
  with c below show thesis using that by blast
qed

lemma flips_chains_nonempty:
  assumes "polish m es" "2 \<le> m"
  shows "flip_positions es \<noteq> []" "chain_positions es \<noteq> []"
proof -
  obtain c where c: "0 < c" "c < length es" "es ! c < 0" "\<forall>i < c. es ! i \<ge> 0"
    using first_cut [OF assms] by blast
  have "es ! (c - 1) \<ge> 0" using c(1,4) by simp
  then have "is_flip es (c - 1)" "is_chain_start es c"
    using c(1,3) by (auto simp: is_flip_def is_chain_start_def)
  with c have "c - 1 \<in> set (flip_positions es)" "c \<in> set (chain_positions es)"
    by (auto simp: flip_positions_def chain_positions_def)
  then show "flip_positions es \<noteq> []" "chain_positions es \<noteq> []" by auto
qed

section \<open>The random move\<close>

lemma rand_pick:
  assumes "rand_ok rnd" "0 < n" "n \<le> length arr" "rand_upto rnd (int n) s = (i, s')"
  shows "rdi arr i = Inr (take n arr ! nat i)" "nat i < n" "0 \<le> i"
proof -
  have "0 \<le> i" "i < int n" using rand_upto_range [OF assms(1), of "int n" s] assms(2,4) by auto
  with assms(3) show "rdi arr i = Inr (take n arr ! nat i)" "nat i < n" "0 \<le> i" by auto
qed

lemma npe_ok_lengths:
  assumes "npe_ok m e"
  shows "n_flips e \<le> length (flip_pos e)" "n_chains e \<le> length (chain_pos e)" "length (unit_pos e) = m"
proof -
  note e = assms [unfolded npe_ok_def]
  show "n_flips e \<le> length (flip_pos e)" using e length_flip_positions [of "elements e"] by simp
  show "n_chains e \<le> length (chain_pos e)"
    using e length_chain_positions [of "elements e"] polish_cuts [of m "elements e"] by simp
  show "length (unit_pos e) = m" using e polish_units by metis
qed

lemma try_m3_ok:
  assumes rnd: "rand_ok rnd" and ok: "npe_ok m expr" "2 \<le> m"
    and c: "npe_ok m copy" "elements copy = elements expr"
  shows "\<exists>d c' s'. try_m3 rnd expr k (False, copy, s) = Inr (d, c', s') \<and> npe_ok m c' \<and>
    (if d then npe_move m (elements expr) (elements c') else c' = copy)"
proof (induction "MAX_MOVES - k" arbitrary: k s)
  case 0
  then show ?case
    using c by (intro exI [of _ False] exI [of _ copy] exI [of _ s]) (simp add: try_m3.simps [of rnd expr k])
next
  case (Suc d)
  have k: "k < MAX_MOVES" using Suc.hyps(2) by simp
  obtain i s1 where r: "rand_upto rnd (int (n_flips expr)) s = (i, s1)" by fastforce
  have pol: "polish m (elements expr)" using ok by (simp add: npe_ok_def)
  have nf: "0 < n_flips expr"
    using flips_chains_nonempty(1) [OF pol ok(2)] ok(1) by (simp add: npe_ok_def)
  let ?p = "flip_positions (elements expr) ! nat i"
  have fp: "take (n_flips expr) (flip_pos expr) = flip_positions (elements expr)"
    "n_flips expr = length (flip_positions (elements expr))"
    using ok(1) by (auto simp: npe_ok_def)
  have pick: "rdi (flip_pos expr) i = Inr ?p" "nat i < n_flips expr"
    using rand_pick [OF rnd nf npe_ok_lengths(1) [OF ok(1)] r] fp(1) by auto
  then have mem: "?p \<in> set (flip_positions (elements copy))" using fp(2) c(2) by simp
  have unfold: "try_m3 rnd expr k (False, copy, s) =
      rbind (NPE_swap_cut_unit copy ?p) (\<lambda>(ok, c'). try_m3 rnd expr (Suc k) (ok, c', s1))"
    using k r pick(1) by (simp add: try_m3.simps [of rnd expr k])
  show ?case
  proof (cases "polish m (swap_next (elements copy) ?p)")
    case True
    then obtain e' where e': "NPE_swap_cut_unit copy ?p = Inr (True, e')" "npe_ok m e'"
      "elements e' = swap_next (elements copy) ?p"
      using swap_cut_unit_ok [OF c(1) mem] by auto
    have "npe_move m (elements expr) (elements e')"
      using npe_move.M3 [of ?p "elements copy" m] mem True e'(3) c(2) by simp
    with e' unfold show ?thesis
      by (intro exI [of _ True] exI [of _ e'] exI [of _ s1])
        (simp add: try_m3.simps [of rnd expr "Suc k" "(True, e', s1)"])
  next
    case False
    then have "NPE_swap_cut_unit copy ?p = Inr (False, copy)"
      using swap_cut_unit_ok [OF c(1) mem] by simp
    then have "try_m3 rnd expr k (False, copy, s) = try_m3 rnd expr (Suc k) (False, copy, s1)"
      using unfold by simp
    with Suc.hyps show ?thesis by simp
  qed
qed

lemma one_move_ok:
  assumes rnd: "rand_ok rnd" and ok: "npe_ok m expr" "2 \<le> m"
    and c: "npe_ok m copy" "elements copy = elements expr"
  shows "\<exists>d c' s'. one_move rnd expr (copy, s) = Inr (d, c', s') \<and> npe_ok m c' \<and>
    (if d then npe_move m (elements expr) (elements c') else c' = copy)"
proof -
  obtain mv s1 where mv: "rand_upto rnd 3 s = (mv, s1)" by fastforce
  then have "0 \<le> mv" "mv < 3" using rand_upto_range [OF rnd, of 3 s] by auto
  then consider "mv = 0" | "mv = 1" | "mv = 2" by linarith
  then show ?thesis
  proof cases
    case 1
    obtain i s2 where r: "rand_upto rnd (int (npe_units expr) - 1) s1 = (i, s2)" by fastforce
    have m: "npe_units expr = m" "unit_pos expr = unit_positions (elements expr)"
      using ok(1) by (auto simp: npe_ok_def)
    have i: "0 \<le> i" "i < int m - 1" using rand_upto_range [OF rnd, of "int m - 1" s1] ok(2) r m by auto
    then have k: "Suc (nat i) < m" by linarith
    have eq: "unit_pos copy = unit_pos expr" using c ok(1) by (simp add: npe_ok_def)
    have rd: "rdi (unit_pos expr) i = Inr (unit_pos copy ! nat i)"
      using i npe_ok_lengths(3) [OF ok(1)] eq by auto
    note sw = swap_units_ok [OF c(1) k]
    have "npe_move m (elements expr) (elements (copy\<lparr>elements := (elements copy)
        [unit_pos copy ! nat i := elements copy ! (unit_pos copy ! Suc (nat i)),
         unit_pos copy ! Suc (nat i) := elements copy ! (unit_pos copy ! nat i)]\<rparr>))"
      using npe_move.M1 [of "nat i" "elements expr"] k npe_ok_lengths(3) [OF ok(1)] m(2) c(2) eq by simp
    with sw rd r mv 1 show ?thesis by (intro exI [of _ True]) (simp add: one_move_def)
  next
    case 2
    obtain i s2 where r: "rand_upto rnd (int (n_chains expr)) s1 = (i, s2)" by fastforce
    have ch: "take (n_chains expr) (chain_pos expr) = chain_positions (elements expr)"
      "n_chains expr = length (chain_positions (elements expr))" and pol: "polish m (elements expr)"
      using ok(1) by (auto simp: npe_ok_def)
    have n: "0 < n_chains expr" using flips_chains_nonempty(2) [OF pol ok(2)] ch(2) by simp
    let ?p = "chain_positions (elements expr) ! nat i"
    have pick: "rdi (chain_pos expr) i = Inr ?p" "nat i < n_chains expr"
      using rand_pick [OF rnd n npe_ok_lengths(2) [OF ok(1)] r] ch(1) by auto
    then have mem: "?p \<in> set (chain_positions (elements copy))" using ch(2) c(2) by simp
    have "npe_move m (elements expr) (invert_range (elements copy) ?p (run_end (elements copy) ?p))"
      using npe_move.M2 [of ?p "elements copy" m] mem c(2) by simp
    with invert_chain_ok [OF c(1) mem] pick(1) r mv 2 show ?thesis
      by (intro exI [of _ True]) (simp add: one_move_def)
  next
    case 3
    with try_m3_ok [OF assms, of 0 s1] mv show ?thesis by (simp add: one_move_def)
  qed
qed

lemma move_loop_ok:
  assumes rnd: "rand_ok rnd" and ok: "npe_ok m expr" "2 \<le> m"
    and c: "npe_ok m copy" "elements copy = elements expr" and k: "k \<le> MAX_MOVES"
  shows "\<exists>n c' s'. move_loop rnd expr k (False, copy, s) = Inr (n, c', s') \<and> npe_ok m c' \<and> n \<le> MAX_MOVES \<and>
    (n < MAX_MOVES \<longrightarrow> npe_move m (elements expr) (elements c'))"
  using k
proof (induction "MAX_MOVES - k" arbitrary: k s)
  case 0
  then have "k = MAX_MOVES" by simp
  then show ?case using c by (simp add: move_loop.simps [of rnd expr MAX_MOVES])
next
  case (Suc d)
  have k: "k < MAX_MOVES" using Suc.hyps(2) by simp
  obtain d' c' s' where o: "one_move rnd expr (copy, s) = Inr (d', c', s')" "npe_ok m c'"
    "if d' then npe_move m (elements expr) (elements c') else c' = copy"
    using one_move_ok [OF rnd ok c, of s] by blast
  show ?case
  proof (cases d')
    case True
    with o k show ?thesis
      by (simp add: move_loop.simps [of rnd expr k] move_loop.simps [of rnd expr "Suc k"])
  next
    case False
    then have "move_loop rnd expr k (False, copy, s) = move_loop rnd expr (Suc k) (False, copy, s')"
      using o k by (simp add: move_loop.simps [of rnd expr k])
    with Suc.hyps k show ?thesis by simp
  qed
qed

lemma random_move_ok:
  assumes "rand_ok rnd" and "npe_ok m e" and "2 \<le> m"
  shows "make_random_move rnd e s = Inl (Fatal ''tried 16 moves, now giving up'') \<or>
    (\<exists>e' s'. make_random_move rnd e s = Inr (e', s') \<and> npe_ok m e' \<and>
       npe_move m (elements e) (elements e'))"
proof -
  obtain c where c: "NPE_duplicate e = Inr c" "npe_ok m c" "elements c = elements e"
    using NPE_duplicate_ok [OF assms(2)] by blast
  obtain n c' s' where l: "move_loop rnd e 0 (False, c, s) = Inr (n, c', s')" "npe_ok m c'"
    "n \<le> MAX_MOVES" "n < MAX_MOVES \<longrightarrow> npe_move m (elements e) (elements c')"
    using move_loop_ok [OF assms c(2,3), of 0 s] by auto
  then show ?thesis
    using c(1) by (cases "n = MAX_MOVES") (auto simp: make_random_move_def)
qed

end
