(* ===== verification/NPE_Props.thy ===== *)
theory NPE_Props
  imports NPE_Search
begin

text \<open>
  The properties of the Polish-expression component: the starting solution is valid, each move
  does what it says and keeps the invariant, the random move refines the abstract move relation,
  and the one input class on which its give-up test discards a legal move.
\<close>

section \<open>A concrete expression\<close>

definition npe2 :: NPE_t where
  "npe2 = \<lparr>elements = [0, 1, CUT_VERTICAL], npe_size = 3, unit_pos = [0, 1], npe_units = 2,
     flip_pos = [1, 0, 0], n_flips = 1, chain_pos = [2], n_chains = 1, ballot_count = [0, 0, 1]\<rparr>"

lemma upt3: "[0..<3] = [0, 1, 2::nat]"
  by (simp add: upt_rec)

lemma npe2_ok: "npe_ok 2 npe2"
proof -
  have es: "elements npe2 = initial_elements 2"
    by (simp add: npe2_def initial_elements_def initial_at_def upt3)
  have len: "length (elements npe2) = 3" by (simp add: npe2_def)
  have up: "unit_positions (elements npe2) = [0, 1]"
    by (simp add: unit_positions_def len upt3) (simp add: npe2_def)
  have fl: "flip_positions (elements npe2) = [1]"
    by (simp add: flip_positions_def len is_flip_def numeral_2_eq_2) (simp add: npe2_def)
  have ch: "chain_positions (elements npe2) = [2]"
    by (simp add: chain_positions_def len upt3 is_chain_start_def) (simp add: npe2_def)
  have bl: "ballots (elements npe2) = [0, 0, 1]"
    by (simp add: ballots_def len upt3 cuts_before_Suc numeral_2_eq_2) (simp add: npe2_def)
  show ?thesis
    using initial_polish [of 2, folded es] up fl ch bl by (simp add: npe_ok_def npe2_def)
qed

section \<open>Properties\<close>

lemma npe_ok_lists:
  assumes "npe_ok m e"
  shows "take (n_flips e) (flip_pos e) = flip_positions (elements e)"
    and "take (n_chains e) (chain_pos e) = chain_positions (elements e)"
  using assms unfolding npe_ok_def by blast+

text \<open>
  \<open>NPE_get_initial\<close> returns, for every positive number of units, the expression
  \<open>0, 1, V, 2, V, ...\<close> with all derived arrays consistent; for no unit it stops.
\<close>

theorem NPE_get_initial_valid:
  "if m = 0 then NPE_get_initial m = Inl (Fatal ''memory allocation error'')
   else \<exists>e. NPE_get_initial m = Inr e \<and> npe_ok m e \<and> elements e = initial_elements m"
  using get_initial_ok [of m] by (simp add: NPE_get_initial_def)

text \<open>
  C6: M3 accepts a swap of adjacent cut and unit exactly when the swapped expression is again a
  balloted, normalized Polish expression; an accepted move performs the swap and updates all
  derived arrays, a refused move changes nothing, and neither stops the program.
\<close>

theorem NPE_swap_cut_unit_exact:
  assumes "npe_ok m e" and "p \<in> set (take (n_flips e) (flip_pos e))"
  shows "if polish m (swap_next (elements e) p)
    then \<exists>e'. NPE_swap_cut_unit e p = Inr (True, e') \<and> npe_ok m e' \<and>
           elements e' = swap_next (elements e) p
    else NPE_swap_cut_unit e p = Inr (False, e)"
proof -
  have "p \<in> set (flip_positions (elements e))"
    using assms(2) by (simp only: npe_ok_lists [OF assms(1)])
  then show ?thesis by (rule swap_cut_unit_ok [OF assms(1)])
qed

theorem NPE_swap_cut_unit_exact_witness:
  "1 \<in> set (take (n_flips npe2) (flip_pos npe2)) \<and>
   (if polish 2 (swap_next (elements npe2) 1)
    then \<exists>e'. NPE_swap_cut_unit npe2 1 = Inr (True, e') \<and> npe_ok 2 e' \<and>
           elements e' = swap_next (elements npe2) 1
    else NPE_swap_cut_unit npe2 1 = Inr (False, npe2))"
proof -
  have mem: "1 \<in> set (take (n_flips npe2) (flip_pos npe2))" by (simp add: npe2_def)
  with NPE_swap_cut_unit_exact [OF npe2_ok mem] show ?thesis by blast
qed

text \<open>
  C35: M2 inverts every cut of the chain it is applied to and nothing else, keeps the invariant,
  and is its own inverse.
\<close>

theorem NPE_invert_chain_involution:
  assumes "npe_ok m e" and "c \<in> set (take (n_chains e) (chain_pos e))"
  shows "\<exists>e'. NPE_invert_chain e c = Inr e' \<and> npe_ok m e' \<and>
    elements e' = invert_range (elements e) c (run_end (elements e) c) \<and>
    NPE_invert_chain e' c = Inr e"
proof -
  let ?es = "elements e" and ?r = "run_end (elements e) c"
  have c: "c \<in> set (chain_positions ?es)"
    using assms(2) by (simp only: npe_ok_lists [OF assms(1)])
  let ?e' = "e\<lparr>elements := invert_range ?es c ?r\<rparr>"
  note inv = invert_chain_ok [OF assms(1) c]
  have sh: "chain_positions (invert_range ?es c ?r) = chain_positions ?es"
    by (rule same_shape_derived(3) [OF invert_range_shape])
  then have c': "c \<in> set (chain_positions (elements ?e'))" using c by simp
  have bound: "c < length ?es" "?r \<le> length ?es"
    using c run_end_le [of c ?es] by (auto simp: chain_positions_def)
  have r: "run_end (invert_range ?es c ?r) c = ?r"
  proof -
    have neg: "map (\<lambda>x. x < 0) (drop c (invert_range ?es c ?r)) = map (\<lambda>x. x < 0) (drop c ?es)"
      by (rule nth_equalityI) auto
    have "length (takeWhile (\<lambda>x. x < 0) xs) = length (takeWhile id (map (\<lambda>x. x < 0) xs))"
      for xs :: "int list" by (induction xs) auto
    with neg show ?thesis by (simp add: run_end_def)
  qed
  have inv_inv: "invert_range (invert_range ?es c ?r) c ?r = ?es"
    by (rule nth_equalityI) auto
  have "NPE_invert_chain ?e' c = Inr e"
    using invert_chain_ok(1) [OF inv(2) c'] by (simp add: r inv_inv)
  with inv show ?thesis by (intro exI [of _ ?e']) simp
qed

theorem NPE_invert_chain_involution_witness:
  "2 \<in> set (take (n_chains npe2) (chain_pos npe2)) \<and>
   (\<exists>e'. NPE_invert_chain npe2 2 = Inr e' \<and> npe_ok 2 e' \<and> NPE_invert_chain e' 2 = Inr npe2)"
proof -
  have mem: "2 \<in> set (take (n_chains npe2) (chain_pos npe2))" by (simp add: npe2_def)
  with NPE_invert_chain_involution [OF npe2_ok mem] show ?thesis by blast
qed

text \<open>
  M1, applied to any unit but the last, exchanges it with the next unit of the expression,
  keeps the invariant and every derived array.
\<close>

theorem NPE_swap_units_adjacent:
  assumes "npe_ok m e" and "Suc k < m"
  shows "\<exists>e'. NPE_swap_units e (unit_pos e ! k) = Inr e' \<and> npe_ok m e' \<and>
    e' = e\<lparr>elements := (elements e)[unit_pos e ! k := elements e ! (unit_pos e ! Suc k),
                                     unit_pos e ! Suc k := elements e ! (unit_pos e ! k)]\<rparr>"
  using swap_units_ok [OF assms] by simp

theorem NPE_swap_units_adjacent_witness:
  "NPE_swap_units npe2 0 = Inr (npe2\<lparr>elements := [1, 0, CUT_VERTICAL]\<rparr>) \<and>
   npe_ok 2 (npe2\<lparr>elements := [1, 0, CUT_VERTICAL]\<rparr>)"
proof -
  have "\<exists>e'. NPE_swap_units npe2 (unit_pos npe2 ! 0) = Inr e' \<and> npe_ok 2 e' \<and>
    e' = npe2\<lparr>elements := (elements npe2)[unit_pos npe2 ! 0 := elements npe2 ! (unit_pos npe2 ! Suc 0),
                                     unit_pos npe2 ! Suc 0 := elements npe2 ! (unit_pos npe2 ! 0)]\<rparr>"
    by (rule NPE_swap_units_adjacent [OF npe2_ok]) simp
  then show ?thesis by (simp add: npe2_def)
qed

text \<open>
  C7: a random move of an expression of two or more units either returns an expression that one
  of the three moves leads to, with the invariant kept, or gives up after 16 attempts; no array
  access is out of bounds and no other error occurs.
\<close>

theorem make_random_move_refines:
  assumes "rand_ok rnd" and "npe_ok m e" and "2 \<le> m"
  shows "make_random_move rnd e s = Inl (Fatal ''tried 16 moves, now giving up'') \<or>
    (\<exists>e' s'. make_random_move rnd e s = Inr (e', s') \<and> npe_ok m e' \<and>
       npe_move m (elements e) (elements e'))"
  using assms by (rule random_move_ok)

theorem make_random_move_refines_witness:
  "rand_ok (\<lambda>_. 0) \<and>
   (make_random_move (\<lambda>_. 0) npe2 0 = Inl (Fatal ''tried 16 moves, now giving up'') \<or>
    (\<exists>e' s'. make_random_move (\<lambda>_. 0) npe2 0 = Inr (e', s') \<and> npe_ok 2 e' \<and>
       npe_move 2 (elements npe2) (elements e')))"
proof -
  have r: "rand_ok (\<lambda>_. 0)" by (simp add: rand_ok_def RAND_MAX_def)
  with make_random_move_refines [OF r npe2_ok, of 0] show ?thesis by simp
qed

section \<open>The give-up test\<close>

text \<open>Fifteen draws of M3, whose only candidate is never legal here, and then M2.\<close>

definition late_rnd :: "nat \<Rightarrow> int" where
  "late_rnd n = (if n = 255 then 1073741824 else RAND_MAX)"

lemma late_rnd_ok: "rand_ok late_rnd"
  by (simp add: rand_ok_def late_rnd_def RAND_MAX_def)

lemma rand_upto_big: "rnd s = RAND_MAX \<Longrightarrow> rand_upto rnd 3 s = (2, Suc s)"
  "rnd s = RAND_MAX \<Longrightarrow> rand_upto rnd 1 s = (0, Suc s)"
  by (simp_all add: rand_upto_def c_trunc_def RAND_MAX_def)

lemma npe2_m3: "NPE_swap_cut_unit npe2 1 = Inr (False, npe2)"
  by (simp add: NPE_swap_cut_unit_def npe2_def CUT_VERTICAL_def)

lemma npe2_try_m3:
  assumes "\<And>i. s \<le> i \<Longrightarrow> i < s + (16 - k) \<Longrightarrow> late_rnd i = RAND_MAX" "k \<le> 16"
  shows "try_m3 late_rnd npe2 k (False, npe2, s) = Inr (False, npe2, s + (16 - k))"
  using assms
proof (induction "16 - k" arbitrary: k s)
  case 0
  then have "k = 16" by simp
  then show ?case by (subst try_m3.simps) (simp add: MAX_MOVES_def)
next
  case (Suc d)
  have "try_m3 late_rnd npe2 k (False, npe2, s) = try_m3 late_rnd npe2 (Suc k) (False, npe2, Suc s)"
  proof -
    have "k < 16" "late_rnd s = RAND_MAX"
      using Suc.hyps(2) Suc.prems(1) [of s] by auto
    moreover have "n_flips npe2 = 1" "flip_pos npe2 = [1, 0, 0]" by (simp_all add: npe2_def)
    ultimately show ?thesis
      using npe2_m3 by (subst try_m3.simps) (simp add: MAX_MOVES_def rand_upto_big)
  qed
  also have "\<dots> = Inr (False, npe2, Suc s + (16 - Suc k))"
    by (rule Suc.hyps(1)) (use Suc.hyps(2) Suc.prems in auto)
  finally show ?case using Suc.hyps(2) by simp
qed

lemma npe2_one_move:
  assumes "k < 15"
  shows "one_move late_rnd npe2 (npe2, 17 * k) = Inr (False, npe2, 17 * Suc k)"
proof -
  have big: "late_rnd i = RAND_MAX" if "i < 255" for i
    using that by (simp add: late_rnd_def)
  have "try_m3 late_rnd npe2 0 (False, npe2, Suc (17 * k)) = Inr (False, npe2, Suc (17 * k) + (16 - 0))"
    by (rule npe2_try_m3) (use assms big in auto)
  then show ?thesis
    using rand_upto_big(1) [of late_rnd "17 * k"] big [of "17 * k"] assms
    by (simp add: one_move_def)
qed

lemma npe2_move_loop:
  "k \<le> 15 \<Longrightarrow> move_loop late_rnd npe2 0 (False, npe2, 0) = move_loop late_rnd npe2 k (False, npe2, 17 * k)"
proof (induction k)
  case (Suc k)
  then show ?case
    using npe2_one_move [of k]
    by (simp add: move_loop.simps [of late_rnd npe2 k "(False, npe2, 17 * k)"] MAX_MOVES_def)
qed simp

lemma npe2_last: "\<exists>c s. one_move late_rnd npe2 (npe2, 255) = Inr (True, c, s) \<and>
   c = npe2\<lparr>elements := [0, 1, CUT_HORIZONTAL]\<rparr>"
proof -
  have a: "rand_upto late_rnd 3 255 = (1, 256)"
    by (simp add: rand_upto_def c_trunc_def late_rnd_def RAND_MAX_def)
  have b: "rand_upto late_rnd 1 256 = (0, 257)"
    using rand_upto_big(2) [of late_rnd 256] by (simp add: late_rnd_def)
  have inv: "NPE_invert_chain npe2 2 = Inr (npe2\<lparr>elements := [0, 1, CUT_HORIZONTAL]\<rparr>)"
    by (simp add: NPE_invert_chain_def npe2_def invert_loop.simps)
  show ?thesis using a b inv by (simp add: one_move_def npe2_def)
qed

text \<open>
  When the sixteenth attempt is the first to succeed, \<open>make_random_move\<close> still stops the
  program with "now giving up": its test looks at the number of attempts, not at whether a move
  was made.
\<close>

theorem make_random_move_discards_last_attempt:
  "\<exists>rnd e c s. rand_ok rnd \<and> npe_ok 2 e \<and>
     move_loop rnd e 0 (False, e, 0) = Inr (16, c, s) \<and> npe_ok 2 c \<and> elements c \<noteq> elements e \<and>
     make_random_move rnd e 0 = Inl (Fatal ''tried 16 moves, now giving up'')"
proof -
  obtain c s where cs: "one_move late_rnd npe2 (npe2, 255) = Inr (True, c, s)"
    "c = npe2\<lparr>elements := [0, 1, CUT_HORIZONTAL]\<rparr>"
    using npe2_last by blast
  have loop: "move_loop late_rnd npe2 0 (False, npe2, 0) = Inr (16, c, s)"
    using npe2_move_loop [of 15] cs(1)
    by (simp add: move_loop.simps [of late_rnd npe2 15] move_loop.simps [of late_rnd npe2 16] MAX_MOVES_def)
  have dup: "NPE_duplicate npe2 = Inr npe2"
    by (simp add: NPE_duplicate_def copy_prefix_ok npe2_def numeral_2_eq_2)
  have ok: "npe_ok 2 c"
    using one_move_ok [OF late_rnd_ok npe2_ok _ npe2_ok refl, of 255] cs(1) by auto
  have ne: "elements c \<noteq> elements npe2" using cs(2) by (simp add: npe2_def)
  have "make_random_move late_rnd npe2 0 = Inl (Fatal ''tried 16 moves, now giving up'')"
    using dup loop by (simp add: make_random_move_def MAX_MOVES_def)
  with loop ok ne late_rnd_ok npe2_ok show ?thesis by blast
qed

end
