(* ===== verification/Flp_Types.thy ===== *)
theory Flp_Types
  imports NPE
begin

text \<open>
  The records of \<open>hotspot_tool/flp.h\<close> and \<open>shape.h\<close>: shape curves, the units of the input
  description, and the placed units of a floorplan. Buffers of names are strings (\<open>STR_SIZE\<close>
  truncation happens in the parsers); \<open>NULL\<close> pointers are \<open>None\<close>.
\<close>

section \<open>Constants of flp.h\<close>

definition MAX_UNITS :: nat where "MAX_UNITS = 8192"

definition L2_LEFT :: nat where "L2_LEFT = 0"
definition L2_RIGHT :: nat where "L2_RIGHT = 1"
definition L2_ARMS :: nat where "L2_ARMS = 2"
definition L2_LEFT_STR :: string where "L2_LEFT_STR = ''_left''"
definition L2_RIGHT_STR :: string where "L2_RIGHT_STR = ''_right''"
definition WRAP_L2_RATIO :: real where "WRAP_L2_RATIO = 5"

definition RIM_LEFT :: nat where "RIM_LEFT = 1"
definition RIM_RIGHT :: nat where "RIM_RIGHT = 2"
definition RIM_TOP :: nat where "RIM_TOP = 4"
definition RIM_BOTTOM :: nat where "RIM_BOTTOM = 8"
definition RIM_PREFIX :: string where "RIM_PREFIX = ''RIM''"
definition RIM_LEFT_STR :: string where "RIM_LEFT_STR = RIM_PREFIX @ ''_left''"
definition RIM_RIGHT_STR :: string where "RIM_RIGHT_STR = RIM_PREFIX @ ''_right''"
definition RIM_TOP_STR :: string where "RIM_TOP_STR = RIM_PREFIX @ ''_top''"
definition RIM_BOTTOM_STR :: string where "RIM_BOTTOM_STR = RIM_PREFIX @ ''_bottom''"

definition DEAD_PREFIX :: string where "DEAD_PREFIX = ''_''"

section \<open>Shape curves\<close>

text \<open>
  The last three arrays are absent in the curve of a leaf; they are allocated together.
\<close>

record shape_t =
  shape_x :: "real list"
  shape_y :: "real list"
  left_pos :: "nat list option"
  right_pos :: "nat list option"
  median :: "real list option"
  shape_size :: nat

text \<open>Reading through a pointer that may be \<open>NULL\<close>.\<close>

definition rdo :: "'a list option \<Rightarrow> nat \<Rightarrow> 'a res" where
  "rdo p i = (case p of None \<Rightarrow> Inl OutOfBounds | Some xs \<Rightarrow> rd xs i)"

lemma rdo_Some [simp, res_simps]: "rdo (Some xs) i = rd xs i"
  by (simp add: rdo_def)

lemma rdo_None [simp, res_simps]: "rdo None i = Inl OutOfBounds"
  by (simp add: rdo_def)

text \<open>Arrays of separately allocated rows.\<close>

definition rd2 :: "'a list list \<Rightarrow> nat \<Rightarrow> nat \<Rightarrow> 'a res" where
  "rd2 m i j = rbind (rd m i) (\<lambda>r. rd r j)"

definition wr2 :: "'a list list \<Rightarrow> nat \<Rightarrow> nat \<Rightarrow> 'a \<Rightarrow> 'a list list res" where
  "wr2 m i j x = rbind (rd m i) (\<lambda>r. rbind (wr r j x) (\<lambda>r. wr m i r))"

definition rows_ok :: "'a list list \<Rightarrow> nat \<Rightarrow> nat \<Rightarrow> bool" where
  "rows_ok m nr nc \<longleftrightarrow> length m = nr \<and> (\<forall>i < nr. length (m ! i) = nc)"

lemma rd2_in [simp, res_simps]: "rows_ok m nr nc \<Longrightarrow> i < nr \<Longrightarrow> j < nc \<Longrightarrow> rd2 m i j = Inr (m ! i ! j)"
  by (simp add: rd2_def rows_ok_def)

lemma wr2_in [simp, res_simps]:
  "rows_ok m nr nc \<Longrightarrow> i < nr \<Longrightarrow> j < nc \<Longrightarrow> wr2 m i j x = Inr (m[i := (m ! i)[j := x]])"
  by (simp add: wr2_def rows_ok_def)

lemma rows_ok_update [simp]: "rows_ok m nr nc \<Longrightarrow> rows_ok (m[i := (m ! i)[j := x]]) nr nc"
  by (cases "i < length m") (auto simp: rows_ok_def nth_list_update)

lemma nth_rows_update:
  assumes "rows_ok m nr nc" "i < nr" "j < nc"
  shows "m[i := (m ! i)[j := x]] ! k ! l = (if k = i \<and> l = j then x else m ! k ! l)"
  using assms by (auto simp: rows_ok_def nth_list_update)

section \<open>Floorplans\<close>

record flp_config_t =
  wrap_l2 :: bool
  l2_label :: string
  model_rim :: bool
  rim_thickness :: real
  compact_ratio :: real
  n_orients :: int
  P0 :: real
  Davg :: real
  Kmoves :: real
  Rcool :: real
  Rreject :: real
  Nmax :: int
  lambdaA :: real
  lambdaT :: real
  lambdaW :: real

record unplaced_t =
  up_name :: string
  rotable :: bool
  unit_area :: real
  min_aspect :: real
  max_aspect :: real
  unit_shape :: shape_t

record flp_desc_t =
  desc_units :: "unplaced_t list"
  desc_wire_density :: "real list list"
  desc_config :: flp_config_t
  desc_n_units :: nat

record unit_t =
  unit_name :: string
  width :: real
  height :: real
  leftx :: real
  bottomy :: real
  specificheat :: real
  resistivity :: real
  hasRes :: bool
  hasSh :: bool

record flp_t =
  units :: "unit_t list"
  n_units :: nat
  wire_density :: "real list list"

text \<open>A cell of a zero-initialised array of units, and the update of one cell.\<close>

definition unit_zero :: unit_t where
  "unit_zero = \<lparr>unit_name = [], width = 0, height = 0, leftx = 0, bottomy = 0,
     specificheat = 0, resistivity = 0, hasRes = False, hasSh = False\<rparr>"

definition upd_unit :: "nat \<Rightarrow> (unit_t \<Rightarrow> unit_t) \<Rightarrow> flp_t \<Rightarrow> flp_t res" where
  "upd_unit i f flp =
     rbind (rd (units flp) i) (\<lambda>u. rbind (wr (units flp) i (f u)) (\<lambda>us. Inr (flp\<lparr>units := us\<rparr>)))"

lemma upd_unit_in [simp, res_simps]:
  "i < length (units flp) \<Longrightarrow> upd_unit i f flp = Inr (flp\<lparr>units := (units flp)[i := f (units flp ! i)]\<rparr>)"
  by (simp add: upd_unit_def)

end
