(* ===== verification/Shape.thy ===== *)
theory Shape
  imports Flp_Types
begin

text \<open>
  Shape curves, \<open>hotspot_tool/shape.c\<close>: the discrete set of (width, height) pairs a block or a
  cut can take, how a curve is made from an area and a range of aspect ratios
  (\<open>shape_from_aspect\<close>), how two curves are combined by a cut (\<open>shape_add\<close>), copies, and the
  choice of the entry of least area.
\<close>

section \<open>Making a curve\<close>

definition shape_alloc :: "nat \<Rightarrow> shape_t" where
  "shape_alloc n = \<lparr>shape_x = replicate n 0, shape_y = replicate n 0, left_pos = None,
     right_pos = None, median = None, shape_size = n\<rparr>"

text \<open>The loops that fill \<open>n\<close> entries from position \<open>off\<close> in geometric progression.\<close>

definition fill_geometric :: "real \<Rightarrow> real \<Rightarrow> real \<Rightarrow> nat \<Rightarrow> nat \<Rightarrow> shape_t \<Rightarrow> shape_t res" where
  "fill_geometric ar minx r off n s =
     for_up 0 n (\<lambda>i s.
       rbind (wr (shape_x s) (off + i) (minx * r ^ i)) (\<lambda>xs.
       rbind (rd xs (off + i)) (\<lambda>x.
       rbind (fdiv ar x) (\<lambda>h.
       rbind (wr (shape_y s) (off + i) h) (\<lambda>ys.
       Inr (s\<lparr>shape_x := xs, shape_y := ys\<rparr>)))))) s"

text \<open>The ratio between neighbours when \<open>n\<close> entries span \<open>minx\<close> to \<open>maxx\<close>.\<close>

definition geometric_ratio :: "real \<Rightarrow> real \<Rightarrow> real \<Rightarrow> nat \<Rightarrow> real res" where
  "geometric_ratio r minx maxx n =
     (if n > 1 then rbind (fdiv maxx minx) (\<lambda>q. Inr (q powr (1 / real (n - 1)))) else Inr r)"

definition shape_from_aspect :: "real \<Rightarrow> real \<Rightarrow> real \<Rightarrow> bool \<Rightarrow> int \<Rightarrow> shape_t res" where
  "shape_from_aspect ar mn mx rot orients =
    (if orients \<le> 1 \<or> odd orients then
       Inl (Fatal ''n_orients should be an even number greater than 1'')
     else
       let sz = (if mn = mx then 1 + (if rot then 1 else 0) else nat orients);
           s = shape_alloc sz
       in if \<not> rot \<or> (mn \<le> 1 \<and> mx \<ge> 1) then
            rbind (if rot then
                     rbind (fdiv 1 mn) (\<lambda>a. rbind (fdiv 1 mx) (\<lambda>b.
                       Inr (MIN4 mn mx a b, MAX4 mn mx a b)))
                   else Inr (mn, mx)) (\<lambda>(mn, mx).
            rbind (fsqrt (ar * mn)) (\<lambda>minx.
            rbind (fsqrt (ar * mx)) (\<lambda>maxx.
            rbind (geometric_ratio 1 minx maxx sz) (\<lambda>r.
            fill_geometric ar minx r 0 sz s))))
          else
            let n = sz div 2 in
            rbind (fdiv 1 mn) (\<lambda>a. rbind (fdiv 1 mx) (\<lambda>b.
            let tmin = MINd mn a; tmax = MINd mx b in
            rbind (fsqrt (ar * MINd tmin tmax)) (\<lambda>minx.
            rbind (fsqrt (ar * MAXd tmin tmax)) (\<lambda>maxx.
            rbind (geometric_ratio 1 minx maxx n) (\<lambda>r.
            rbind (fill_geometric ar minx r 0 n s) (\<lambda>s.
            let tmin = MAXd mn a; tmax = MAXd mx b in
            rbind (fsqrt (ar * MINd tmin tmax)) (\<lambda>minx.
            rbind (fsqrt (ar * MAXd tmin tmax)) (\<lambda>maxx.
            rbind (geometric_ratio r minx maxx n) (\<lambda>r.
            fill_geometric ar minx r n n s))))))))))"

section \<open>Adding two curves\<close>

text \<open>
  The comparison that decides which of the two positions advances: heights from the start of
  the curves for a vertical cut, widths from their end for a horizontal one.
\<close>

definition add_advance :: "shape_t \<Rightarrow> shape_t \<Rightarrow> int \<Rightarrow> nat \<Rightarrow> nat \<Rightarrow> bool res" where
  "add_advance s1 s2 cut_type i j =
     (if cut_type = CUT_VERTICAL then
        rbind (rd (shape_y s1) i) (\<lambda>a. rbind (rd (shape_y s2) j) (\<lambda>b. Inr (a \<ge> b)))
      else
        rbind (rd (shape_x s1) (shape_size s1 - 1 - i)) (\<lambda>a.
        rbind (rd (shape_x s2) (shape_size s2 - 1 - j)) (\<lambda>b. Inr (a \<ge> b))))"

function add_total :: "shape_t \<Rightarrow> shape_t \<Rightarrow> int \<Rightarrow> nat \<Rightarrow> nat \<Rightarrow> nat \<Rightarrow> nat res" where
  "add_total s1 s2 cut_type i j tot =
     (if i < shape_size s1 \<and> j < shape_size s2 then
        rbind (add_advance s1 s2 cut_type i j) (\<lambda>adv.
          if adv then add_total s1 s2 cut_type (Suc i) j (Suc tot)
          else add_total s1 s2 cut_type i (Suc j) (Suc tot))
      else Inr tot)"
  by pat_completeness auto
termination
  by (relation "measure (\<lambda>(s1, s2, cut_type, i, j, tot). (shape_size s1 - i) + (shape_size s2 - j))") auto

declare add_total.simps [simp del]

text \<open>Write one entry of the sum through the five arrays.\<close>

definition wro :: "'a list option \<Rightarrow> nat \<Rightarrow> 'a \<Rightarrow> 'a list option res" where
  "wro p i x = (case p of None \<Rightarrow> Inl OutOfBounds | Some xs \<Rightarrow> rbind (wr xs i x) (\<lambda>ys. Inr (Some ys)))"

definition set_entry :: "nat \<Rightarrow> real \<Rightarrow> real \<Rightarrow> nat \<Rightarrow> nat \<Rightarrow> real \<Rightarrow> shape_t \<Rightarrow> shape_t res" where
  "set_entry k xv yv l r md acc =
     rbind (wr (shape_x acc) k xv) (\<lambda>xs. rbind (wr (shape_y acc) k yv) (\<lambda>ys.
     rbind (wro (left_pos acc) k l) (\<lambda>ls. rbind (wro (right_pos acc) k r) (\<lambda>rs.
     rbind (wro (median acc) k md) (\<lambda>ms.
     Inr (acc\<lparr>shape_x := xs, shape_y := ys, left_pos := ls, right_pos := rs, median := ms\<rparr>))))))"

text \<open>The body of the second loop: entry \<open>k\<close> of the sum from position \<open>i\<close> and \<open>j\<close>.\<close>

definition add_entry :: "shape_t \<Rightarrow> shape_t \<Rightarrow> int \<Rightarrow> nat \<Rightarrow> nat \<Rightarrow> nat \<Rightarrow> shape_t \<Rightarrow> shape_t res" where
  "add_entry s1 s2 cut_type i j k acc =
     (if cut_type = CUT_VERTICAL then
        rbind (rd (shape_x s1) i) (\<lambda>x1. rbind (rd (shape_x s2) j) (\<lambda>x2.
        rbind (rd (shape_y s1) i) (\<lambda>y1. rbind (rd (shape_y s2) j) (\<lambda>y2.
        set_entry k (x1 + x2) (MAXd y1 y2) i j x1 acc))))
      else
        let p = shape_size s1 - 1 - i; q = shape_size s2 - 1 - j in
        rbind (rd (shape_x s1) p) (\<lambda>x1. rbind (rd (shape_x s2) q) (\<lambda>x2.
        rbind (rd (shape_y s1) p) (\<lambda>y1. rbind (rd (shape_y s2) q) (\<lambda>y2.
        set_entry (shape_size acc - 1 - k) (MAXd x1 x2) (y1 + y2) p q y1 acc)))))"

function add_fill :: "shape_t \<Rightarrow> shape_t \<Rightarrow> int \<Rightarrow> nat \<Rightarrow> nat \<Rightarrow> nat \<Rightarrow> shape_t \<Rightarrow> shape_t res" where
  "add_fill s1 s2 cut_type i j k acc =
     (if i < shape_size s1 \<and> j < shape_size s2 then
        rbind (add_entry s1 s2 cut_type i j k acc) (\<lambda>acc.
        rbind (add_advance s1 s2 cut_type i j) (\<lambda>adv.
          if adv then add_fill s1 s2 cut_type (Suc i) j (Suc k) acc
          else add_fill s1 s2 cut_type i (Suc j) (Suc k) acc))
      else Inr acc)"
  by pat_completeness auto
termination
  by (relation "measure (\<lambda>(s1, s2, cut_type, i, j, k, acc). (shape_size s1 - i) + (shape_size s2 - j))") auto

declare add_fill.simps [simp del]

definition sum_alloc :: "nat \<Rightarrow> shape_t" where
  "sum_alloc n = \<lparr>shape_x = replicate n 0, shape_y = replicate n 0,
     left_pos = Some (replicate n 0), right_pos = Some (replicate n 0),
     median = Some (replicate n 0), shape_size = n\<rparr>"

definition shape_add :: "shape_t \<Rightarrow> shape_t \<Rightarrow> int \<Rightarrow> shape_t res" where
  "shape_add shape1 shape2 cut_type =
     rbind (add_total shape1 shape2 cut_type 0 0 0) (\<lambda>tot.
     add_fill shape1 shape2 cut_type 0 0 0 (sum_alloc tot))"

section \<open>Copies and choice\<close>

definition copy_opt :: "nat \<Rightarrow> 'a \<Rightarrow> 'a list option \<Rightarrow> 'a list option res" where
  "copy_opt n z p = (case p of None \<Rightarrow> Inr None
     | Some src \<Rightarrow> rbind (copy_prefix n z src n) (\<lambda>c. Inr (Some c)))"

text \<open>
  The three optional arrays are copied when \<open>left_pos\<close> is present. The five copies of the loop
  are over separate arrays, so each is written as a loop of its own.
\<close>

definition shape_duplicate :: "shape_t \<Rightarrow> shape_t res" where
  "shape_duplicate s =
     rbind (copy_prefix (shape_size s) 0 (shape_x s) (shape_size s)) (\<lambda>xs.
     rbind (copy_prefix (shape_size s) 0 (shape_y s) (shape_size s)) (\<lambda>ys.
     if left_pos s = None then Inr \<lparr>shape_x = xs, shape_y = ys, left_pos = None,
       right_pos = None, median = None, shape_size = shape_size s\<rparr>
     else
       rbind (copy_opt (shape_size s) 0 (left_pos s)) (\<lambda>ls.
       rbind (copy_opt (shape_size s) 0 (right_pos s)) (\<lambda>rs.
       rbind (copy_opt (shape_size s) 0 (median s)) (\<lambda>ms.
       Inr \<lparr>shape_x = xs, shape_y = ys, left_pos = ls, right_pos = rs, median = ms,
         shape_size = shape_size s\<rparr>)))))"

definition min_area_pos :: "shape_t \<Rightarrow> nat res" where
  "min_area_pos curve =
     rbind (rd (shape_x curve) 0) (\<lambda>x0. rbind (rd (shape_y curve) 0) (\<lambda>y0.
     rbind (for_up 1 (shape_size curve) (\<lambda>i (mn, pos).
       rbind (rd (shape_x curve) i) (\<lambda>x. rbind (rd (shape_y curve) i) (\<lambda>y.
       Inr (if mn > x * y then (x * y, i) else (mn, pos))))) (x0 * y0, 0))
     (\<lambda>(mn, pos). Inr pos)))"

end
