(* ===== verification/Slicing.thy ===== *)
theory Slicing
  imports Shape
begin

text \<open>
  Slicing trees, the second half of \<open>hotspot_tool/shape.c\<close>: the bounded stack of tree nodes,
  the construction of the tree from a Polish expression (\<open>tree_from_NPE\<close>), and the conversion
  of a tree into a floorplan (\<open>recursive_sizing\<close>, \<open>tree_to_flp\<close>). The nodes of a tree are
  distinct heap cells reached by one pointer each, so a tree is a datatype value and a routine
  that writes to curves of the tree returns the changed tree. The code compiled for
  \<open>VERBOSE > 1\<close> only prints and is left out.
\<close>

section \<open>Nodes and the stack\<close>

datatype tree_node_t =
    NULL_node
  | TNode (curve: shape_t) (label: int) (left_node: tree_node_t) (right_node: tree_node_t)

definition MAX_STACK :: nat where "MAX_STACK = 128"

record tree_node_stack_t =
  stack_array :: "tree_node_t list"
  stack_top :: nat

definition new_tree_node_stack :: tree_node_stack_t where
  "new_tree_node_stack = \<lparr>stack_array = replicate MAX_STACK NULL_node, stack_top = 0\<rparr>"

definition tree_node_stack_isempty :: "tree_node_stack_t \<Rightarrow> bool" where
  "tree_node_stack_isempty stack = (stack_top stack \<le> 0)"

definition tree_node_stack_isfull :: "tree_node_stack_t \<Rightarrow> bool" where
  "tree_node_stack_isfull stack = (stack_top stack \<ge> MAX_STACK)"

definition tree_node_stack_push :: "tree_node_stack_t \<Rightarrow> tree_node_t \<Rightarrow> tree_node_stack_t res" where
  "tree_node_stack_push stack node =
     (if \<not> tree_node_stack_isfull stack then
        rbind (wr (stack_array stack) (stack_top stack) node) (\<lambda>a.
        Inr (stack\<lparr>stack_array := a, stack_top := stack_top stack + 1\<rparr>))
      else Inl (Fatal ''attempting to push into an already full stack''))"

definition tree_node_stack_pop :: "tree_node_stack_t \<Rightarrow> (tree_node_t \<times> tree_node_stack_t) res" where
  "tree_node_stack_pop stack =
     (if \<not> tree_node_stack_isempty stack then
        rbind (rd (stack_array stack) (stack_top stack - 1)) (\<lambda>node.
        Inr (node, stack\<lparr>stack_top := stack_top stack - 1\<rparr>))
      else Inl (Fatal ''attempting to pop from an already empty stack''))"

definition tree_node_stack_clear :: "tree_node_stack_t \<Rightarrow> tree_node_stack_t" where
  "tree_node_stack_clear stack = stack\<lparr>stack_top := 0\<rparr>"

section \<open>The tree of an expression\<close>

text \<open>\<open>node->curve\<close> through a pointer that may be \<open>NULL\<close>.\<close>

definition node_curve :: "tree_node_t \<Rightarrow> shape_t res" where
  "node_curve t = (case t of NULL_node \<Rightarrow> Inl OutOfBounds | TNode c _ _ _ \<Rightarrow> Inr c)"

text \<open>One element of the expression: a leaf is pushed, a cut combines the two top nodes.\<close>

definition tree_step :: "flp_desc_t \<Rightarrow> int \<Rightarrow> tree_node_stack_t \<Rightarrow> (tree_node_stack_t \<times> tree_node_t) res" where
  "tree_step desc x stack =
     (if x \<ge> 0 then
        rbind (rd (desc_units desc) (nat x)) (\<lambda>u.
        rbind (shape_duplicate (unit_shape u)) (\<lambda>c.
        let node = TNode c x NULL_node NULL_node in
        rbind (tree_node_stack_push stack node) (\<lambda>stack. Inr (stack, node))))
      else
        rbind (tree_node_stack_pop stack) (\<lambda>(right, stack).
        rbind (tree_node_stack_pop stack) (\<lambda>(left, stack).
        rbind (node_curve left) (\<lambda>cl. rbind (node_curve right) (\<lambda>cr.
        rbind (shape_add cl cr x) (\<lambda>c.
        let node = TNode c x left right in
        rbind (tree_node_stack_push stack node) (\<lambda>stack. Inr (stack, node))))))))"

definition tree_from_NPE ::
  "flp_desc_t \<Rightarrow> tree_node_stack_t \<Rightarrow> NPE_t \<Rightarrow> (tree_node_t \<times> tree_node_stack_t) res" where
  "tree_from_NPE desc stack expr =
     (if \<not> tree_node_stack_isempty stack then Inl (Fatal ''stack not empty'')
      else
        rbind (for_up 0 (npe_size expr) (\<lambda>i (stack, node).
            rbind (rd (elements expr) i) (\<lambda>x. tree_step desc x stack)) (stack, NULL_node))
        (\<lambda>(stack, node). Inr (node, tree_node_stack_clear stack)))"

section \<open>From the tree to a floorplan\<close>

definition node_x :: "tree_node_t \<Rightarrow> nat \<Rightarrow> real res" where
  "node_x t k = rbind (node_curve t) (\<lambda>c. rd (shape_x c) k)"

definition node_y :: "tree_node_t \<Rightarrow> nat \<Rightarrow> real res" where
  "node_y t k = rbind (node_curve t) (\<lambda>c. rd (shape_y c) k)"

text \<open>Writes of \<open>node->curve->x[k]\<close> and \<open>node->curve->y[k]\<close>.\<close>

definition set_node_x :: "tree_node_t \<Rightarrow> nat \<Rightarrow> real \<Rightarrow> tree_node_t res" where
  "set_node_x t k v = (case t of NULL_node \<Rightarrow> Inl OutOfBounds | TNode c lb l r \<Rightarrow>
     rbind (wr (shape_x c) k v) (\<lambda>xs. Inr (TNode (c\<lparr>shape_x := xs\<rparr>) lb l r)))"

definition set_node_y :: "tree_node_t \<Rightarrow> nat \<Rightarrow> real \<Rightarrow> tree_node_t res" where
  "set_node_y t k v = (case t of NULL_node \<Rightarrow> Inl OutOfBounds | TNode c lb l r \<Rightarrow>
     rbind (wr (shape_y c) k v) (\<lambda>ys. Inr (TNode (c\<lparr>shape_y := ys\<rparr>) lb l r)))"

text \<open>The compaction test; the division is evaluated only when compaction is on.\<close>

definition compacts :: "bool \<Rightarrow> real \<Rightarrow> real \<Rightarrow> real \<Rightarrow> bool res" where
  "compacts compact_dead ratio a b =
     (if compact_dead then rbind (fdiv \<bar>b - a\<bar> (MINd a b)) (\<lambda>q. Inr (q \<le> ratio)) else Inr False)"

text \<open>
  The three adjustments at a cut, in the direction of the setter \<open>st\<close> (\<open>set_node_x\<close> or
  \<open>set_node_y\<close>): stretch both children by what the bounding rectangle exceeds the larger of
  them; give the right child what it exceeds their sum; and, when the dead block is small,
  enlarge the smaller child instead of keeping the block.
\<close>

definition stretch_both ::
  "(tree_node_t \<Rightarrow> nat \<Rightarrow> real \<Rightarrow> tree_node_t res) \<Rightarrow> tree_node_t \<Rightarrow> tree_node_t \<Rightarrow> nat \<Rightarrow> nat \<Rightarrow> real \<Rightarrow> real \<Rightarrow> real
   \<Rightarrow> (tree_node_t \<times> tree_node_t \<times> real \<times> real) res" where
  "stretch_both st l r lp rp T a b =
     (if T > MAXd a b then
        rbind (st l lp (a + (T - MAXd a b))) (\<lambda>l.
        rbind (st r rp (b + (T - MAXd a b))) (\<lambda>r.
        Inr (l, r, a + (T - MAXd a b), b + (T - MAXd a b))))
      else Inr (l, r, a, b))"

definition widen_right ::
  "(tree_node_t \<Rightarrow> nat \<Rightarrow> real \<Rightarrow> tree_node_t res) \<Rightarrow> tree_node_t \<Rightarrow> nat \<Rightarrow> real \<Rightarrow> real \<Rightarrow> real
   \<Rightarrow> (tree_node_t \<times> real) res" where
  "widen_right st r rp T a b =
     (if T > a + b then rbind (st r rp (b + (T - (a + b)))) (\<lambda>r. Inr (r, b + (T - (a + b))))
      else Inr (r, b))"

definition keep_or_absorb ::
  "(tree_node_t \<Rightarrow> nat \<Rightarrow> real \<Rightarrow> tree_node_t res) \<Rightarrow> tree_node_t \<Rightarrow> tree_node_t \<Rightarrow> nat \<Rightarrow> nat \<Rightarrow> real \<Rightarrow> real
   \<Rightarrow> bool \<Rightarrow> nat \<Rightarrow> (nat \<times> tree_node_t \<times> tree_node_t) res" where
  "keep_or_absorb st l r lp rp a b small dead_count =
     (if small then
        if b \<ge> a then rbind (st l lp b) (\<lambda>l. Inr (dead_count, l, r))
        else rbind (st r rp a) (\<lambda>r. Inr (dead_count, l, r))
      else Inr (dead_count + 1, l, r))"

text \<open>
  A vertical cut: the dead block is recorded in unit \<open>idx\<close>. \<open>lp\<close> and \<open>rp\<close> are the entries of
  the children that \<open>pos\<close> came from.
\<close>

definition size_vertical ::
  "shape_t \<Rightarrow> nat \<Rightarrow> tree_node_t \<Rightarrow> tree_node_t \<Rightarrow> nat \<Rightarrow> nat \<Rightarrow> real \<Rightarrow> real \<Rightarrow> nat \<Rightarrow> bool \<Rightarrow> real \<Rightarrow> flp_t
   \<Rightarrow> (nat \<times> tree_node_t \<times> tree_node_t \<times> flp_t) res" where
  "size_vertical self pos l r lp rp lx by dead_count compact_dead ratio flp =
     (let idx = (n_units flp + 1) div 2 + dead_count in
      rbind (node_x l lp) (\<lambda>x1. rbind (node_x r rp) (\<lambda>x2.
      rbind (node_y l lp) (\<lambda>y1. rbind (node_y r rp) (\<lambda>y2.
      rbind (rd (shape_y self) pos) (\<lambda>Y. rbind (rd (shape_x self) pos) (\<lambda>X.
      rbind (stretch_both set_node_y l r lp rp Y y1 y2) (\<lambda>(l, r, y1, y2).
      rbind (widen_right set_node_x r rp X x1 x2) (\<lambda>(r, x2).
      rbind (upd_unit idx (\<lambda>u. u\<lparr>width := (if y2 \<ge> y1 then x1 else x2), height := \<bar>y2 - y1\<bar>,
               leftx := lx + (if y2 \<ge> y1 then 0 else x1), bottomy := by + MINd y1 y2\<rparr>) flp) (\<lambda>flp.
      rbind (compacts compact_dead ratio y1 y2) (\<lambda>small.
      rbind (keep_or_absorb set_node_y l r lp rp y1 y2 small dead_count) (\<lambda>(dead_count, l, r).
      Inr (dead_count, l, r, flp)))))))))))))"

text \<open>The horizontal cut, with the roles of width and height exchanged.\<close>

definition size_horizontal ::
  "shape_t \<Rightarrow> nat \<Rightarrow> tree_node_t \<Rightarrow> tree_node_t \<Rightarrow> nat \<Rightarrow> nat \<Rightarrow> real \<Rightarrow> real \<Rightarrow> nat \<Rightarrow> bool \<Rightarrow> real \<Rightarrow> flp_t
   \<Rightarrow> (nat \<times> tree_node_t \<times> tree_node_t \<times> flp_t) res" where
  "size_horizontal self pos l r lp rp lx by dead_count compact_dead ratio flp =
     (let idx = (n_units flp + 1) div 2 + dead_count in
      rbind (node_x l lp) (\<lambda>x1. rbind (node_x r rp) (\<lambda>x2.
      rbind (node_y l lp) (\<lambda>y1. rbind (node_y r rp) (\<lambda>y2.
      rbind (rd (shape_x self) pos) (\<lambda>X. rbind (rd (shape_y self) pos) (\<lambda>Y.
      rbind (stretch_both set_node_x l r lp rp X x1 x2) (\<lambda>(l, r, x1, x2).
      rbind (widen_right set_node_y r rp Y y1 y2) (\<lambda>(r, y2).
      rbind (upd_unit idx (\<lambda>u. u\<lparr>width := \<bar>x2 - x1\<bar>, height := (if x2 \<ge> x1 then y1 else y2),
               leftx := lx + MINd x1 x2, bottomy := by + (if x2 \<ge> x1 then 0 else y1)\<rparr>) flp) (\<lambda>flp.
      rbind (compacts compact_dead ratio x1 x2) (\<lambda>small.
      rbind (keep_or_absorb set_node_x l r lp rp x1 x2 small dead_count) (\<lambda>(dead_count, l, r).
      Inr (dead_count, l, r, flp)))))))))))))"

fun tree_nodes :: "tree_node_t \<Rightarrow> nat" where
  "tree_nodes NULL_node = 0"
| "tree_nodes (TNode c lb l r) = Suc (tree_nodes l + tree_nodes r)"

definition keeps_nodes :: "(tree_node_t \<Rightarrow> nat \<Rightarrow> real \<Rightarrow> tree_node_t res) \<Rightarrow> bool" where
  "keeps_nodes st \<longleftrightarrow> (\<forall>t k v t'. st t k v = Inr t' \<longrightarrow> tree_nodes t' = tree_nodes t)"

lemma set_node_nodes: "keeps_nodes set_node_x" "keeps_nodes set_node_y"
  by (auto simp: keeps_nodes_def set_node_x_def set_node_y_def split: tree_node_t.splits)

lemma adjust_nodes:
  assumes "keeps_nodes st"
  shows "stretch_both st l r lp rp T a b = Inr (l', r', a', b') \<Longrightarrow>
      tree_nodes l' = tree_nodes l \<and> tree_nodes r' = tree_nodes r"
    and "widen_right st r rp T a b = Inr (r', b') \<Longrightarrow> tree_nodes r' = tree_nodes r"
    and "keep_or_absorb st l r lp rp a b small dc = Inr (dc', l', r') \<Longrightarrow>
      tree_nodes l' = tree_nodes l \<and> tree_nodes r' = tree_nodes r"
  using assms
  by (auto simp: stretch_both_def widen_right_def keep_or_absorb_def keeps_nodes_def split: if_splits)

lemma size_cut_nodes:
  "size_vertical self pos l r lp rp lx by dc cd ratio flp = Inr (dc', l', r', flp') \<Longrightarrow>
   tree_nodes l' = tree_nodes l \<and> tree_nodes r' = tree_nodes r"
  "size_horizontal self pos l r lp rp lx by dc cd ratio flp = Inr (dc', l', r', flp') \<Longrightarrow>
   tree_nodes l' = tree_nodes l \<and> tree_nodes r' = tree_nodes r"
  by (auto simp: size_vertical_def size_horizontal_def Let_def
      dest!: adjust_nodes [OF set_node_nodes(1)] adjust_nodes [OF set_node_nodes(2)])

function recursive_sizing ::
  "tree_node_t \<Rightarrow> nat \<Rightarrow> real \<Rightarrow> real \<Rightarrow> nat \<Rightarrow> bool \<Rightarrow> real \<Rightarrow> flp_t \<Rightarrow> (nat \<times> tree_node_t \<times> flp_t) res" where
  "recursive_sizing node pos lx by dead_count compact_dead ratio flp =
     (case node of NULL_node \<Rightarrow> Inl OutOfBounds
      | TNode self lb l r \<Rightarrow>
        if lb \<ge> 0 then
          rbind (rd (shape_x self) pos) (\<lambda>w. rbind (rd (shape_y self) pos) (\<lambda>h.
          rbind (upd_unit (nat lb) (\<lambda>u. u\<lparr>width := w, height := h, leftx := lx, bottomy := by\<rparr>) flp) (\<lambda>flp.
          Inr (dead_count, node, flp))))
        else
          rbind (rdo (left_pos self) pos) (\<lambda>lp. rbind (rdo (right_pos self) pos) (\<lambda>rp.
          rbind (if lb = CUT_VERTICAL
                 then size_vertical self pos l r lp rp lx by dead_count compact_dead ratio flp
                 else size_horizontal self pos l r lp rp lx by dead_count compact_dead ratio flp)
            (\<lambda>(dead_count, l, r, flp).
          rbind (recursive_sizing l lp lx by dead_count compact_dead ratio flp)
            (\<lambda>(dead_count, l, flp).
          rbind (rdo (median self) pos) (\<lambda>md.
          rbind (if lb = CUT_VERTICAL
                 then recursive_sizing r rp (lx + md) by dead_count compact_dead ratio flp
                 else recursive_sizing r rp lx (by + md) dead_count compact_dead ratio flp)
            (\<lambda>(dead_count, r, flp).
          Inr (dead_count, TNode self lb l r, flp))))))))"
  by pat_completeness auto
termination
  by (relation "measure (\<lambda>(node, _). tree_nodes node)")
    (auto dest!: size_cut_nodes split: if_splits)

declare recursive_sizing.simps [simp del]

definition tree_to_flp ::
  "tree_node_t \<Rightarrow> flp_t \<Rightarrow> bool \<Rightarrow> real \<Rightarrow> (int \<times> tree_node_t \<times> flp_t) res" where
  "tree_to_flp rt flp compact_dead ratio =
     rbind (node_curve rt) (\<lambda>c.
     rbind (min_area_pos c) (\<lambda>pos.
     rbind (recursive_sizing rt pos 0 0 0 compact_dead ratio flp) (\<lambda>(dead_count, rt, flp).
     let compacted = c_div (int (n_units flp) - 1) 2 - int dead_count in
     rbind (nat_of (int (n_units flp) - compacted)) (\<lambda>n.
     Inr (compacted, rt, flp\<lparr>n_units := n\<rparr>)))))"

end
