(* ===== verification/Shape_Add.thy ===== *)
theory Shape_Add
  imports Shape NPE_Moves
begin

text \<open>
  Shape curve arithmetic: \<open>shape_add\<close> is shown equal to a map over the walk that its two loops
  take through the pairs of positions, and the walk is shown to dominate every pair of
  orientations of the two operands (Stockmeyer's argument), so the sum of two curves is again a
  curve, of at most \<open>m + n - 1\<close> entries, that misses no better combination.
\<close>

section \<open>Curves\<close>

text \<open>
  A shape curve: as many widths as heights, at least one, all positive, widths ascending and
  heights descending.
\<close>

definition curve_ok :: "shape_t \<Rightarrow> bool" where
  "curve_ok s \<longleftrightarrow> length (shape_x s) = shape_size s \<and> length (shape_y s) = shape_size s \<and>
     0 < shape_size s \<and> (\<forall>i < shape_size s. 0 < shape_x s ! i \<and> 0 < shape_y s ! i) \<and>
     (\<forall>i j. i \<le> j \<longrightarrow> j < shape_size s \<longrightarrow>
        shape_x s ! i \<le> shape_x s ! j \<and> shape_y s ! j \<le> shape_y s ! i)"

lemma curve_okD:
  assumes "curve_ok s"
  shows "length (shape_x s) = shape_size s" "length (shape_y s) = shape_size s" "0 < shape_size s"
    "\<And>i. i < shape_size s \<Longrightarrow> 0 < shape_x s ! i" "\<And>i. i < shape_size s \<Longrightarrow> 0 < shape_y s ! i"
    "\<And>i j. i \<le> j \<Longrightarrow> j < shape_size s \<Longrightarrow> shape_x s ! i \<le> shape_x s ! j"
    "\<And>i j. i \<le> j \<Longrightarrow> j < shape_size s \<Longrightarrow> shape_y s ! j \<le> shape_y s ! i"
  using assms by (simp_all add: curve_ok_def)

section \<open>The walk\<close>

text \<open>The pairs of positions visited, for \<open>m\<close> and \<open>n\<close> entries with keys \<open>f\<close> and \<open>g\<close>.\<close>

function walk :: "(nat \<Rightarrow> real) \<Rightarrow> (nat \<Rightarrow> real) \<Rightarrow> nat \<Rightarrow> nat \<Rightarrow> nat \<Rightarrow> nat \<Rightarrow> (nat \<times> nat) list" where
  "walk f g m n i j =
     (if i < m \<and> j < n then
        (i, j) # (if f i \<ge> g j then walk f g m n (Suc i) j else walk f g m n i (Suc j))
      else [])"
  by pat_completeness auto
termination
  by (relation "measure (\<lambda>(f, g, m, n, i, j). (m - i) + (n - j))") auto

declare walk.simps [simp del]

lemma walk_range:
  "(p, q) \<in> set (walk f g m n i j) \<Longrightarrow> i \<le> p \<and> p < m \<and> j \<le> q \<and> q < n"
proof (induction f g m n i j rule: walk.induct)
  case (1 f g m n i j)
  then show ?case
    by (subst (asm) walk.simps) (fastforce split: if_splits)
qed

lemma walk_nonempty: "i < m \<Longrightarrow> j < n \<Longrightarrow> walk f g m n i j \<noteq> []"
  by (subst walk.simps) simp

lemma walk_length: "i < m \<Longrightarrow> j < n \<Longrightarrow> length (walk f g m n i j) + Suc i + j \<le> m + n"
proof (induction f g m n i j rule: walk.induct)
  case (1 f g m n i j)
  have empty: "walk f g m n i' j' = []" if "i' \<ge> m \<or> j' \<ge> n" for i' j'
    using that by (subst walk.simps) auto
  show ?case
  proof (cases "f i \<ge> g j")
    case True
    show ?thesis
    proof (cases "Suc i < m")
      case True2: True
      with 1 True show ?thesis by (subst walk.simps) simp
    next
      case False
      with 1 True empty [of "Suc i" j] show ?thesis by (subst walk.simps) simp
    qed
  next
    case False
    show ?thesis
    proof (cases "Suc j < n")
      case True
      with 1 False show ?thesis by (subst walk.simps) simp
    next
      case False2: False
      with 1 False empty [of i "Suc j"] show ?thesis by (subst walk.simps) simp
    qed
  qed
qed

text \<open>For every pair of positions the walk visits one that is no later and no higher.\<close>

lemma walk_dominates:
  assumes "i \<le> p" "p < m" "j \<le> q" "q < n"
  shows "\<exists>(p', q') \<in> set (walk f g m n i j). p' \<le> p \<and> q' \<le> q \<and> max (f p') (g q') \<le> max (f p) (g q)"
  using assms
proof (induction f g m n i j rule: walk.induct)
  case (1 f g m n i j)
  then have in_range: "i < m \<and> j < n" by simp
  show ?case
  proof (cases "max (f i) (g j) \<le> max (f p) (g q)")
    case True
    with 1 in_range show ?thesis by (subst walk.simps) auto
  next
    case False
    show ?thesis
    proof (cases "f i \<ge> g j")
      case True
      with False have "i \<noteq> p" by (auto simp: max_def split: if_splits)
      with 1 in_range True show ?thesis by (subst walk.simps) auto
    next
      case False2: False
      with False have "j \<noteq> q" by (auto simp: max_def split: if_splits)
      with 1 in_range False2 show ?thesis by (subst walk.simps) auto
    qed
  qed
qed

text \<open>Along the walk the positions do not decrease.\<close>

lemma walk_sorted:
  "a \<le> b \<Longrightarrow> b < length (walk f g m n i j) \<Longrightarrow>
   fst (walk f g m n i j ! a) \<le> fst (walk f g m n i j ! b) \<and>
   snd (walk f g m n i j ! a) \<le> snd (walk f g m n i j ! b)"
proof (induction f g m n i j arbitrary: a b rule: walk.induct)
  case (1 f g m n i j)
  show ?case
  proof (cases "i < m \<and> j < n")
    case True
    let ?w = "if f i \<ge> g j then walk f g m n (Suc i) j else walk f g m n i (Suc j)"
    have w: "walk f g m n i j = (i, j) # ?w" using True by (subst walk.simps) simp
    have range: "i \<le> fst x \<and> j \<le> snd x" if "x \<in> set ?w" for x
      using that walk_range [of "fst x" "snd x" f g m n "Suc i" j]
        walk_range [of "fst x" "snd x" f g m n i "Suc j"] by (auto split: if_splits)
    show ?thesis
    proof (cases a)
      case 0
      then show ?thesis
        unfolding w using range [of "?w ! (b - 1)"] "1.prems" by (cases b) (auto simp: w)
    next
      case (Suc a')
      then obtain b' where b: "b = Suc b'" using "1.prems" by (cases b) auto
      have len: "b' < length ?w" using "1.prems"(2) b by (simp add: w)
      have ab: "a' \<le> b'" using "1.prems"(1) Suc b by simp
      have "fst (?w ! a') \<le> fst (?w ! b') \<and> snd (?w ! a') \<le> snd (?w ! b')"
        using "1.IH" [OF True _ ab] len by (cases "f i \<ge> g j") auto
      then show ?thesis unfolding w Suc b by simp
    qed
  next
    case False
    then have "walk f g m n i j = []" by (subst walk.simps) auto
    with "1.prems" show ?thesis by simp
  qed
qed


section \<open>The loops of shape_add\<close>

definition key :: "int \<Rightarrow> shape_t \<Rightarrow> nat \<Rightarrow> real" where
  "key cut_type s i =
     (if cut_type = CUT_VERTICAL then shape_y s ! i else shape_x s ! (shape_size s - 1 - i))"

abbreviation add_walk :: "shape_t \<Rightarrow> shape_t \<Rightarrow> int \<Rightarrow> nat \<Rightarrow> nat \<Rightarrow> (nat \<times> nat) list" where
  "add_walk s1 s2 ct \<equiv> walk (key ct s1) (key ct s2) (shape_size s1) (shape_size s2)"

definition lengths_ok :: "shape_t \<Rightarrow> bool" where
  "lengths_ok s \<longleftrightarrow> length (shape_x s) = shape_size s \<and> length (shape_y s) = shape_size s"

lemma curve_lengths: "curve_ok s \<Longrightarrow> lengths_ok s"
  by (simp add: curve_ok_def lengths_ok_def)

lemma add_advance_ok:
  assumes "lengths_ok s1" "lengths_ok s2" "i < shape_size s1" "j < shape_size s2"
  shows "add_advance s1 s2 ct i j = Inr (key ct s1 i \<ge> key ct s2 j)"
  using assms by (auto simp: add_advance_def key_def lengths_ok_def)

lemma add_total_ok:
  assumes "lengths_ok s1" "lengths_ok s2"
  shows "add_total s1 s2 ct i j t = Inr (t + length (add_walk s1 s2 ct i j))"
proof (induction "(shape_size s1 - i) + (shape_size s2 - j)" arbitrary: i j t rule: less_induct)
  case less
  show ?case
  proof (cases "i < shape_size s1 \<and> j < shape_size s2")
    case True
    then have "add_advance s1 s2 ct i j = Inr (key ct s1 i \<ge> key ct s2 j)"
      by (simp add: add_advance_ok assms)
    with True less [of "Suc i" j "Suc t"] less [of i "Suc j" "Suc t"] show ?thesis
      by (subst add_total.simps, subst walk.simps) auto
  next
    case False
    then show ?thesis by (subst add_total.simps, subst walk.simps) auto
  qed
qed

lemma drop_update_here: "i < length xs \<Longrightarrow> drop i (xs[i := v]) = v # drop (Suc i) xs"
  by (metis Cons_nth_drop_Suc drop_update_cancel length_list_update lessI nth_list_update_eq)

text \<open>
  A vertical sum is written from the front, a horizontal one from the back: where entry \<open>k\<close> of
  \<open>sz\<close> goes, the positions of the operands it comes from, and what an array holds when the
  values \<open>vs\<close> follow \<open>k\<close> written ones.
\<close>

definition slot :: "int \<Rightarrow> nat \<Rightarrow> nat \<Rightarrow> nat" where
  "slot ct sz k = (if ct = CUT_VERTICAL then k else sz - 1 - k)"

definition operands :: "int \<Rightarrow> shape_t \<Rightarrow> shape_t \<Rightarrow> nat \<times> nat \<Rightarrow> nat \<times> nat" where
  "operands ct s1 s2 ij = (if ct = CUT_VERTICAL then ij
     else (shape_size s1 - 1 - fst ij, shape_size s2 - 1 - snd ij))"

definition place :: "int \<Rightarrow> nat \<Rightarrow> nat \<Rightarrow> 'a list \<Rightarrow> 'a list \<Rightarrow> 'a list" where
  "place ct sz k A vs = (if ct = CUT_VERTICAL then take k A @ vs else rev vs @ drop (sz - k) A)"

lemma place_Cons:
  assumes "length A = sz" "k < sz"
  shows "place ct sz k A (v # vs) = place ct sz (Suc k) (A[slot ct sz k := v]) vs"
proof -
  have "sz - k = Suc (sz - Suc k)" using assms by simp
  then show ?thesis
    using assms drop_update_here [of "sz - Suc k" A v] by (simp add: place_def slot_def take_Suc_update)
qed

lemma place_Nil: "length A = sz \<Longrightarrow> k = sz \<Longrightarrow> place ct sz k A [] = A"
  by (simp add: place_def)

section \<open>Entries of the sum\<close>

definition entry_x :: "int \<Rightarrow> shape_t \<Rightarrow> shape_t \<Rightarrow> nat \<times> nat \<Rightarrow> real" where
  "entry_x ct s1 s2 pq = (if ct = CUT_VERTICAL then shape_x s1 ! fst pq + shape_x s2 ! snd pq
                          else max (shape_x s1 ! fst pq) (shape_x s2 ! snd pq))"

definition entry_y :: "int \<Rightarrow> shape_t \<Rightarrow> shape_t \<Rightarrow> nat \<times> nat \<Rightarrow> real" where
  "entry_y ct s1 s2 pq = (if ct = CUT_VERTICAL then max (shape_y s1 ! fst pq) (shape_y s2 ! snd pq)
                          else shape_y s1 ! fst pq + shape_y s2 ! snd pq)"

definition entry_median :: "int \<Rightarrow> shape_t \<Rightarrow> nat \<times> nat \<Rightarrow> real" where
  "entry_median ct s1 pq = (if ct = CUT_VERTICAL then shape_x s1 ! fst pq else shape_y s1 ! fst pq)"

abbreviation arrays :: "nat \<Rightarrow> real list \<Rightarrow> real list \<Rightarrow> nat list \<Rightarrow> nat list \<Rightarrow> real list \<Rightarrow> shape_t" where
  "arrays sz X Y L R M \<equiv> \<lparr>shape_x = X, shape_y = Y, left_pos = Some L, right_pos = Some R,
     median = Some M, shape_size = sz\<rparr>"

lemma add_entry_ok:
  fixes ct s1 s2 i j sz k
  defines "pq \<equiv> operands ct s1 s2 (i, j)" and "c \<equiv> slot ct sz k"
  assumes "lengths_ok s1" "lengths_ok s2" "i < shape_size s1" "j < shape_size s2" "k < sz"
    and "length X = sz" "length Y = sz" "length L = sz" "length R = sz" "length M = sz"
  shows "add_entry s1 s2 ct i j k (arrays sz X Y L R M) =
    Inr (arrays sz (X[c := entry_x ct s1 s2 pq]) (Y[c := entry_y ct s1 s2 pq])
      (L[c := fst pq]) (R[c := snd pq]) (M[c := entry_median ct s1 pq]))"
  using assms(3-) unfolding pq_def c_def
  by (auto simp: add_entry_def set_entry_def wro_def operands_def slot_def lengths_ok_def
      entry_x_def entry_y_def entry_median_def Let_def)

lemma add_fill_ok:
  fixes s1 s2 ct
  defines "e \<equiv> operands ct s1 s2"
  assumes "lengths_ok s1" "lengths_ok s2"
    and "sz = k + length (add_walk s1 s2 ct i j)"
    and "length X = sz" "length Y = sz" "length L = sz" "length R = sz" "length M = sz"
  shows "add_fill s1 s2 ct i j k (arrays sz X Y L R M) =
    Inr (let w = map e (add_walk s1 s2 ct i j) in
      arrays sz (place ct sz k X (map (entry_x ct s1 s2) w)) (place ct sz k Y (map (entry_y ct s1 s2) w))
        (place ct sz k L (map fst w)) (place ct sz k R (map snd w))
        (place ct sz k M (map (entry_median ct s1) w)))"
  using assms(4-)
proof (induction "(shape_size s1 - i) + (shape_size s2 - j)" arbitrary: i j k X Y L R M rule: less_induct)
  case less
  let ?w = "add_walk s1 s2 ct"
  show ?case
  proof (cases "i < shape_size s1 \<and> j < shape_size s2")
    case True
    let ?b = "key ct s1 i \<ge> key ct s2 j"
    let ?i = "if ?b then Suc i else i" and ?j = "if ?b then j else Suc j"
    have w: "?w i j = (i, j) # ?w ?i ?j" using True by (subst walk.simps) simp
    have k: "k < sz" and sz: "sz = Suc k + length (?w ?i ?j)" using less.prems(1) w by simp_all
    have adv: "add_advance s1 s2 ct i j = Inr ?b"
      using True by (simp add: add_advance_ok assms)
    define c where "c = slot ct sz k"
    let ?s = "arrays sz (X[c := entry_x ct s1 s2 (e (i, j))]) (Y[c := entry_y ct s1 s2 (e (i, j))])
      (L[c := fst (e (i, j))]) (R[c := snd (e (i, j))]) (M[c := entry_median ct s1 (e (i, j))])"
    have "add_entry s1 s2 ct i j k (arrays sz X Y L R M) = Inr ?s"
      using add_entry_ok [OF assms(2,3) _ _ k] True less.prems(2-) by (simp add: c_def e_def)
    then have step: "add_fill s1 s2 ct i j k (arrays sz X Y L R M) = add_fill s1 s2 ct ?i ?j (Suc k) ?s"
      using True adv by (subst add_fill.simps) simp
    have "(shape_size s1 - ?i) + (shape_size s2 - ?j) < (shape_size s1 - i) + (shape_size s2 - j)"
      using True by (cases ?b) (simp_all, arith+)
    note ih = less.hyps [OF this sz]
    show ?thesis
      unfolding step w
      using ih k less.prems(2-) by (simp add: place_Cons Let_def c_def [symmetric])
  next
    case False
    then have "?w i j = []" by (subst walk.simps) auto
    with False less.prems show ?thesis by (subst add_fill.simps) (auto simp: place_Nil Let_def)
  qed
qed

text \<open>
  The positions of the sum's entries, in the order the sum stores them, and \<open>shape_add\<close> as one
  expression over them.
\<close>

definition sum_positions :: "shape_t \<Rightarrow> shape_t \<Rightarrow> int \<Rightarrow> (nat \<times> nat) list" where
  "sum_positions s1 s2 ct =
     (let w = map (operands ct s1 s2) (add_walk s1 s2 ct 0 0) in if ct = CUT_VERTICAL then w else rev w)"

definition sum_curve :: "shape_t \<Rightarrow> shape_t \<Rightarrow> int \<Rightarrow> shape_t" where
  "sum_curve s1 s2 ct = (let w = sum_positions s1 s2 ct in
     arrays (length w) (map (entry_x ct s1 s2) w) (map (entry_y ct s1 s2) w) (map fst w) (map snd w)
       (map (entry_median ct s1) w))"

lemma shape_add_sum_curve:
  assumes "lengths_ok s1" "lengths_ok s2"
  shows "shape_add s1 s2 ct = Inr (sum_curve s1 s2 ct)"
  using add_fill_ok [OF assms, of _ 0 ct 0 0]
  by (simp add: shape_add_def add_total_ok [OF assms] sum_alloc_def sum_curve_def sum_positions_def
      Let_def place_def rev_map)


section \<open>The sum of two curves\<close>

lemma sum_positions_range:
  assumes "(p, q) \<in> set (sum_positions s1 s2 ct)"
  shows "p < shape_size s1 \<and> q < shape_size s2"
  using assms walk_range [of _ _ "key ct s1" "key ct s2" "shape_size s1" "shape_size s2" 0 0]
  by (fastforce simp: sum_positions_def operands_def Let_def split: if_splits)

lemma sum_positions_size:
  assumes "0 < shape_size s1" "0 < shape_size s2"
  shows "0 < length (sum_positions s1 s2 ct)"
    and "length (sum_positions s1 s2 ct) < shape_size s1 + shape_size s2"
  using walk_nonempty [OF assms, of "key ct s1" "key ct s2"] walk_length [OF assms, of "key ct s1" "key ct s2"]
  by (cases "ct = CUT_VERTICAL"; simp add: sum_positions_def Let_def)+

lemma sum_positions_ascending:
  assumes "a \<le> b" "b < length (sum_positions s1 s2 ct)"
  shows "fst (sum_positions s1 s2 ct ! a) \<le> fst (sum_positions s1 s2 ct ! b) \<and>
    snd (sum_positions s1 s2 ct ! a) \<le> snd (sum_positions s1 s2 ct ! b)"
proof (cases "ct = CUT_VERTICAL")
  case True
  with assms walk_sorted [of a b] show ?thesis
    by (simp add: sum_positions_def operands_def Let_def)
next
  case False
  let ?w = "add_walk s1 s2 ct 0 0"
  let ?a = "length ?w - Suc a" and ?b = "length ?w - Suc b"
  have len: "length (sum_positions s1 s2 ct) = length ?w" by (simp add: sum_positions_def Let_def)
  have "fst (?w ! ?b) \<le> fst (?w ! ?a) \<and> snd (?w ! ?b) \<le> snd (?w ! ?a)"
    by (rule walk_sorted) (use assms len in auto)
  moreover have "sum_positions s1 s2 ct ! i = operands ct s1 s2 (?w ! (length ?w - Suc i))" if "i < length ?w" for i
    using False that by (simp add: sum_positions_def Let_def rev_nth)
  ultimately show ?thesis using assms len False by (auto simp: operands_def intro: diff_le_mono2)
qed

lemma sum_positions_dominate:
  assumes s1: "curve_ok s1" and s2: "curve_ok s2" and p: "p < shape_size s1" and q: "q < shape_size s2"
  shows "\<exists>pq \<in> set (sum_positions s1 s2 ct).
    entry_x ct s1 s2 pq \<le> entry_x ct s1 s2 (p, q) \<and> entry_y ct s1 s2 pq \<le> entry_y ct s1 s2 (p, q)"
proof (cases "ct = CUT_VERTICAL")
  case True
  obtain p' q' where "(p', q') \<in> set (add_walk s1 s2 ct 0 0)" and le: "p' \<le> p" "q' \<le> q"
    "max (key ct s1 p') (key ct s2 q') \<le> max (key ct s1 p) (key ct s2 q)"
    using walk_dominates [OF le0 p le0 q] by (metis (no_types, lifting) case_prodE)
  then have "(p', q') \<in> set (sum_positions s1 s2 ct)"
    using True by (force simp: sum_positions_def operands_def Let_def)
  moreover have "shape_x s1 ! p' \<le> shape_x s1 ! p" "shape_x s2 ! q' \<le> shape_x s2 ! q"
    using curve_okD(6) [OF s1 le(1) p] curve_okD(6) [OF s2 le(2) q] by auto
  ultimately show ?thesis
    using True le(3) by (intro bexI [of _ "(p', q')"]) (auto simp: entry_x_def entry_y_def key_def)
next
  case False
  let ?i = "shape_size s1 - 1 - p" and ?j = "shape_size s2 - 1 - q"
  obtain i j where ij: "(i, j) \<in> set (add_walk s1 s2 ct 0 0)" and le: "i \<le> ?i" "j \<le> ?j"
    "max (key ct s1 i) (key ct s2 j) \<le> max (key ct s1 ?i) (key ct s2 ?j)"
  proof -
    have "?i < shape_size s1" "?j < shape_size s2" using p q by simp_all
    from walk_dominates [OF le0 this(1) le0 this(2), of "key ct s1" "key ct s2"] that
    show ?thesis by blast
  qed
  let ?p = "shape_size s1 - 1 - i" and ?q = "shape_size s2 - 1 - j"
  have mem: "(?p, ?q) \<in> set (sum_positions s1 s2 ct)"
    using ij False by (force simp: sum_positions_def operands_def Let_def)
  have "p \<le> ?p" "?p < shape_size s1" "q \<le> ?q" "?q < shape_size s2" using le p q by auto
  then have "shape_y s1 ! ?p \<le> shape_y s1 ! p" "shape_y s2 ! ?q \<le> shape_y s2 ! q"
    using curve_okD(7) [OF s1] curve_okD(7) [OF s2] by blast+
  with mem show ?thesis
    using False le(3) p q by (intro bexI [of _ "(?p, ?q)"]) (auto simp: entry_x_def entry_y_def key_def)
qed

lemma sum_curve_nth:
  assumes "k < length (sum_positions s1 s2 ct)"
  shows "shape_x (sum_curve s1 s2 ct) ! k = entry_x ct s1 s2 (sum_positions s1 s2 ct ! k)"
    "shape_y (sum_curve s1 s2 ct) ! k = entry_y ct s1 s2 (sum_positions s1 s2 ct ! k)"
  using assms by (simp_all add: sum_curve_def Let_def)

lemma sum_curve_size [simp]: "shape_size (sum_curve s1 s2 ct) = length (sum_positions s1 s2 ct)"
  by (simp add: sum_curve_def Let_def)

lemma sum_curve_ok:
  assumes s1: "curve_ok s1" and s2: "curve_ok s2"
  shows "curve_ok (sum_curve s1 s2 ct)"
proof -
  let ?w = "sum_positions s1 s2 ct"
  have range: "fst (?w ! k) < shape_size s1 \<and> snd (?w ! k) < shape_size s2" if "k < length ?w" for k
    using sum_positions_range [of "fst (?w ! k)" "snd (?w ! k)" s1 s2 ct] that by simp
  have pos: "0 < entry_x ct s1 s2 (?w ! k) \<and> 0 < entry_y ct s1 s2 (?w ! k)" if "k < length ?w" for k
    using range [OF that] curve_okD(4,5) [OF s1] curve_okD(4,5) [OF s2]
    by (auto simp: entry_x_def entry_y_def add_pos_pos less_max_iff_disj)
  have mono: "entry_x ct s1 s2 (?w ! a) \<le> entry_x ct s1 s2 (?w ! b) \<and>
      entry_y ct s1 s2 (?w ! b) \<le> entry_y ct s1 s2 (?w ! a)" if "a \<le> b" "b < length ?w" for a b
  proof -
    note asc = sum_positions_ascending [OF that]
    have "shape_x s1 ! fst (?w ! a) \<le> shape_x s1 ! fst (?w ! b)" "shape_x s2 ! snd (?w ! a) \<le> shape_x s2 ! snd (?w ! b)"
      "shape_y s1 ! fst (?w ! b) \<le> shape_y s1 ! fst (?w ! a)" "shape_y s2 ! snd (?w ! b) \<le> shape_y s2 ! snd (?w ! a)"
      using asc range [OF that(2)] curve_okD(6,7) [OF s1] curve_okD(6,7) [OF s2] by auto
    then show ?thesis by (auto simp: entry_x_def entry_y_def max_def)
  qed
  show ?thesis
    unfolding curve_ok_def
    using sum_positions_size(1) [OF curve_okD(3) [OF s1] curve_okD(3) [OF s2]] pos mono
    by (simp add: sum_curve_nth) (simp add: sum_curve_def Let_def)
qed

lemma min_area_pos_ok:
  assumes "curve_ok s"
  shows "\<exists>p. min_area_pos s = Inr p \<and> p < shape_size s \<and>
    (\<forall>k < shape_size s. shape_x s ! p * shape_y s ! p \<le> shape_x s ! k * shape_y s ! k) \<and>
    (\<forall>k < p. shape_x s ! p * shape_y s ! p < shape_x s ! k * shape_y s ! k)"
proof -
  let ?a = "\<lambda>k. shape_x s ! k * shape_y s ! k"
  let ?body = "\<lambda>i (mn, pos). rbind (rd (shape_x s) i) (\<lambda>x. rbind (rd (shape_y s) i) (\<lambda>y.
       Inr (if mn > x * y then (x * y, i) else (mn, pos))))"
  let ?I = "\<lambda>i (mn, pos). pos < i \<and> mn = ?a pos \<and> (\<forall>k < i. ?a pos \<le> ?a k) \<and> (\<forall>k < pos. ?a pos < ?a k)"
  note len = curve_okD(1-3) [OF assms]
  have step: "\<exists>t'. ?body i t = Inr t' \<and> ?I (Suc i) t'" if "i < shape_size s" "?I i t" for i t
    using that len by (cases t) (fastforce simp: less_Suc_eq)
  have "\<exists>t. for_up 1 (shape_size s) ?body (?a 0, 0) = Inr t \<and> ?I (shape_size s) t"
    by (rule for_up_rule [where I = ?I]) (use len step in auto)
  then show ?thesis using len by (auto simp: min_area_pos_def)
qed

end
