(* ===== verification/Slicing_Tree.thy ===== *)
theory Slicing_Tree
  imports Slicing Shape_Add NPE_Search
begin

text \<open>
  The contract of a bounded stack whose operations can stop the program, and what a client that
  only pushes and pops may conclude from it. It is interpreted on the tree node stack of
  \<open>shape.c\<close> below.

  The construction of the slicing tree: the tree node stack keeps the contract of a bounded
  stack, and \<open>tree_from_NPE\<close> builds, from every valid expression whose evaluation needs no more
  than \<open>MAX_STACK\<close> pending nodes, the tree whose post-order is the expression and whose curves
  are the sums of their children's.
\<close>

locale bounded_stack =
  fixes push :: "'s \<Rightarrow> 'a \<Rightarrow> 's res" and pop :: "'s \<Rightarrow> ('a \<times> 's) res"
    and is_empty :: "'s \<Rightarrow> bool" and clear :: "'s \<Rightarrow> 's"
    and items :: "'s \<Rightarrow> 'a list" and inv :: "'s \<Rightarrow> bool"
    and cap :: nat and full_error :: err and empty_error :: err
  assumes push_room: "inv s \<Longrightarrow> length (items s) < cap \<Longrightarrow>
      \<exists>s'. push s x = Inr s' \<and> inv s' \<and> items s' = x # items s"
    and push_full: "inv s \<Longrightarrow> cap \<le> length (items s) \<Longrightarrow> push s x = Inl full_error"
    and pop_some: "inv s \<Longrightarrow> items s = x # xs \<Longrightarrow> \<exists>s'. pop s = Inr (x, s') \<and> inv s' \<and> items s' = xs"
    and pop_none: "inv s \<Longrightarrow> items s = [] \<Longrightarrow> pop s = Inl empty_error"
    and empty_iff: "inv s \<Longrightarrow> is_empty s \<longleftrightarrow> items s = []"
    and clear_ok: "inv s \<Longrightarrow> inv (clear s) \<and> items (clear s) = []"
begin

lemma push_outcome:
  assumes "inv s"
  shows "push s x = Inl full_error \<longleftrightarrow> cap \<le> length (items s)"
  using push_room [OF assms, of x] push_full [OF assms, of x] by (cases "length (items s) < cap") auto

lemma pop_outcome:
  assumes "inv s"
  shows "returns (pop s) \<longleftrightarrow> items s \<noteq> []"
  using pop_some [OF assms] pop_none [OF assms] by (cases "items s") (auto simp: returns_iff)

text \<open>The last pushed item is the first popped.\<close>

lemma push_pop:
  assumes "inv s" "length (items s) < cap"
  shows "\<exists>s'. rbind (push s x) pop = Inr (x, s') \<and> inv s' \<and> items s' = items s"
proof -
  obtain s1 where s1: "push s x = Inr s1" "inv s1" "items s1 = x # items s"
    using push_room [OF assms] by blast
  with pop_some [OF s1(2,3)] show ?thesis by simp
qed

text \<open>Two pops followed by any continuation, as a binary operator does.\<close>

lemma pop_two:
  assumes "inv s" "items s = x # y # xs"
  shows "\<exists>s'. inv s' \<and> items s' = xs \<and>
    (\<forall>K. rbind (pop s) (\<lambda>(r, s). rbind (pop s) (\<lambda>(l, s). K r l s)) = K x y s')"
proof -
  obtain s1 where s1: "pop s = Inr (x, s1)" "inv s1" "items s1 = y # xs"
    using pop_some [OF assms] by blast
  obtain s2 where s2: "pop s1 = Inr (y, s2)" "inv s2" "items s2 = xs"
    using pop_some [OF s1(2,3)] by blast
  from s1 s2 show ?thesis by (intro exI [of _ s2]) simp
qed

end

section \<open>The stack\<close>

definition stack_inv :: "tree_node_stack_t \<Rightarrow> bool" where
  "stack_inv s \<longleftrightarrow> length (stack_array s) = MAX_STACK \<and> stack_top s \<le> MAX_STACK"

text \<open>The items, most recently pushed first.\<close>

definition stack_items :: "tree_node_stack_t \<Rightarrow> tree_node_t list" where
  "stack_items s = rev (take (stack_top s) (stack_array s))"

lemma stack_items_length [simp]: "stack_inv s \<Longrightarrow> length (stack_items s) = stack_top s"
  by (simp add: stack_inv_def stack_items_def)

lemma new_stack_ok: "stack_inv new_tree_node_stack" "stack_items new_tree_node_stack = []"
  by (simp_all add: new_tree_node_stack_def stack_inv_def stack_items_def)

interpretation tree_stack: bounded_stack tree_node_stack_push tree_node_stack_pop
  tree_node_stack_isempty tree_node_stack_clear stack_items stack_inv MAX_STACK
  "Fatal ''attempting to push into an already full stack''"
  "Fatal ''attempting to pop from an already empty stack''"
proof
  fix s :: tree_node_stack_t and x :: tree_node_t and xs :: "tree_node_t list"
  assume inv: "stack_inv s"
  note inv' = inv [unfolded stack_inv_def]
  show "length (stack_items s) < MAX_STACK \<Longrightarrow>
      \<exists>s'. tree_node_stack_push s x = Inr s' \<and> stack_inv s' \<and> stack_items s' = x # stack_items s"
    using inv' stack_items_length [OF inv]
    by (auto simp: tree_node_stack_push_def tree_node_stack_isfull_def stack_inv_def stack_items_def
        take_Suc_update)
  show "MAX_STACK \<le> length (stack_items s) \<Longrightarrow>
      tree_node_stack_push s x = Inl (Fatal ''attempting to push into an already full stack'')"
    using stack_items_length [OF inv] by (simp add: tree_node_stack_push_def tree_node_stack_isfull_def)
  show "\<exists>s'. tree_node_stack_pop s = Inr (x, s') \<and> stack_inv s' \<and> stack_items s' = xs"
    if "stack_items s = x # xs"
  proof -
    have len: "stack_top s = Suc (length xs)" using stack_items_length [OF inv] that by simp
    then have k: "length xs < length (stack_array s)" using inv' by simp
    have "rev (take (length xs) (stack_array s) @ [stack_array s ! length xs]) = x # xs"
      using that k by (simp add: stack_items_def len take_Suc_conv_app_nth)
    then show ?thesis
      using inv' len k
      by (simp add: tree_node_stack_pop_def tree_node_stack_isempty_def stack_inv_def stack_items_def)
  qed
  show "stack_items s = [] \<Longrightarrow>
      tree_node_stack_pop s = Inl (Fatal ''attempting to pop from an already empty stack'')"
    using stack_items_length [OF inv] by (simp add: tree_node_stack_pop_def tree_node_stack_isempty_def)
  show "tree_node_stack_isempty s \<longleftrightarrow> stack_items s = []"
    using stack_items_length [OF inv] by (auto simp: tree_node_stack_isempty_def)
  show "stack_inv (tree_node_stack_clear s) \<and> stack_items (tree_node_stack_clear s) = []"
    using inv' by (simp add: tree_node_stack_clear_def stack_inv_def stack_items_def)
qed

section \<open>Trees of an expression\<close>

fun postorder :: "tree_node_t \<Rightarrow> int list" where
  "postorder NULL_node = []"
| "postorder (TNode c lb l r) = postorder l @ postorder r @ [lb]"

text \<open>
  Every leaf has a curve and no children; the curve of a cut is the sum of its children's.
\<close>

fun tree_ok :: "tree_node_t \<Rightarrow> bool" where
  "tree_ok NULL_node = False"
| "tree_ok (TNode c lb l r) =
     (curve_ok c \<and>
      (if lb \<ge> 0 then l = NULL_node \<and> r = NULL_node
       else tree_ok l \<and> tree_ok r \<and> c = sum_curve (curve l) (curve r) lb))"

text \<open>The leaves carry the curves of the input description.\<close>

fun tree_of_desc :: "flp_desc_t \<Rightarrow> tree_node_t \<Rightarrow> bool" where
  "tree_of_desc d NULL_node = True"
| "tree_of_desc d (TNode c lb l r) =
     (if lb \<ge> 0 then c = unit_shape (desc_units d ! nat lb)
      else tree_of_desc d l \<and> tree_of_desc d r)"

definition desc_ok :: "nat \<Rightarrow> flp_desc_t \<Rightarrow> bool" where
  "desc_ok m d \<longleftrightarrow> m \<le> length (desc_units d) \<and>
     (\<forall>u < m. curve_ok (unit_shape (desc_units d ! u)) \<and> left_pos (unit_shape (desc_units d ! u)) = None
        \<and> right_pos (unit_shape (desc_units d ! u)) = None \<and> median (unit_shape (desc_units d ! u)) = None)"

lemma tree_ok_curve: "tree_ok t \<Longrightarrow> curve_ok (curve t) \<and> node_curve t = Inr (curve t) \<and> t \<noteq> NULL_node"
  by (cases t) (auto simp: node_curve_def)

lemma shape_duplicate_leaf:
  assumes "lengths_ok s" "left_pos s = None" "right_pos s = None" "median s = None"
  shows "shape_duplicate s = Inr s"
  using assms by (simp add: shape_duplicate_def lengths_ok_def copy_prefix_ok)

text \<open>The number of pending nodes before element \<open>i\<close>.\<close>

definition pending :: "int list \<Rightarrow> nat \<Rightarrow> nat" where
  "pending es i = i - 2 * cuts_before es i"

lemma balloting_pending:
  assumes "balloting es" "i < length es"
  shows "pending es (Suc i) = (if es ! i < 0 then pending es i - 1 else Suc (pending es i))"
    and "es ! i < 0 \<Longrightarrow> 2 \<le> pending es i" and "0 < pending es (Suc i)"
proof -
  have a: "2 * cuts_before es (Suc i) \<le> i" using assms by (simp add: balloting_def)
  show "pending es (Suc i) = (if es ! i < 0 then pending es i - 1 else Suc (pending es i))"
    using a by (auto simp: pending_def cuts_before_Suc)
  show "es ! i < 0 \<Longrightarrow> 2 \<le> pending es i" using a by (auto simp: pending_def cuts_before_Suc)
  show "0 < pending es (Suc i)" using a by (auto simp: pending_def)
qed

section \<open>One step of the evaluation\<close>

text \<open>The pending trees \<open>ts\<close> after the elements \<open>es\<close>.\<close>

definition pending_ok :: "flp_desc_t \<Rightarrow> int list \<Rightarrow> tree_node_t list \<Rightarrow> bool" where
  "pending_ok d es ts \<longleftrightarrow> (\<forall>t \<in> set ts. tree_ok t \<and> tree_of_desc d t) \<and> concat (map postorder (rev ts)) = es"

lemma leaf_step:
  assumes "0 \<le> x" "nat x < m" "desc_ok m d" "stack_inv s" "pending_ok d es (stack_items s)"
  shows "if length (stack_items s) < MAX_STACK
    then \<exists>s' t. tree_step d x s = Inr (s', t) \<and> stack_inv s' \<and> stack_items s' = t # stack_items s \<and>
           pending_ok d (es @ [x]) (t # stack_items s)
    else tree_step d x s = Inl (Fatal ''attempting to push into an already full stack'')"
proof -
  let ?c = "unit_shape (desc_units d ! nat x)" let ?t = "TNode ?c x NULL_node NULL_node"
  have c: "curve_ok ?c" "shape_duplicate ?c = Inr ?c" "nat x < length (desc_units d)"
    using assms(2,3) curve_lengths by (auto simp: desc_ok_def intro!: shape_duplicate_leaf)
  have eval: "tree_step d x s = rbind (tree_node_stack_push s ?t) (\<lambda>s'. Inr (s', ?t))"
    using assms(1) c(2,3) by (simp add: tree_step_def Let_def)
  have ok: "pending_ok d (es @ [x]) (?t # stack_items s)"
    using assms(1,5) c(1) by (simp add: pending_ok_def)
  show ?thesis
  proof (cases "length (stack_items s) < MAX_STACK")
    case True
    with tree_stack.push_room [OF assms(4), of ?t] eval ok show ?thesis by auto
  next
    case False
    with tree_stack.push_full [OF assms(4), of ?t] eval show ?thesis by simp
  qed
qed

lemma cut_step:
  assumes "x < 0" "stack_inv s" "stack_items s = r # l # ts" "pending_ok d es (stack_items s)"
  shows "\<exists>s' t. tree_step d x s = Inr (s', t) \<and> stack_inv s' \<and> stack_items s' = t # ts \<and>
    pending_ok d (es @ [x]) (t # ts)"
proof -
  have l: "tree_ok l" "tree_of_desc d l" and r: "tree_ok r" "tree_of_desc d r"
    using assms(3,4) by (simp_all add: pending_ok_def)
  let ?c = "sum_curve (curve l) (curve r) x" let ?t = "TNode ?c x l r"
  have add: "shape_add (curve l) (curve r) x = Inr ?c"
    using tree_ok_curve [OF l(1)] tree_ok_curve [OF r(1)] by (intro shape_add_sum_curve curve_lengths) auto
  have "length (stack_items s) \<le> MAX_STACK" using assms(2) by (simp add: stack_inv_def stack_items_def)
  obtain s1 where s1: "stack_inv s1" "stack_items s1 = ts"
    "\<And>K :: _ \<Rightarrow> _ \<Rightarrow> _ \<Rightarrow> (tree_node_stack_t \<times> tree_node_t) res. rbind (tree_node_stack_pop s) (\<lambda>(r, s). rbind (tree_node_stack_pop s) (\<lambda>(l, s). K r l s)) = K r l s1"
    using tree_stack.pop_two [OF assms(2,3)] by blast
  have "length (stack_items s1) < MAX_STACK"
    using \<open>length (stack_items s) \<le> MAX_STACK\<close> s1(2) assms(3) by simp
  then obtain s2 where s2: "tree_node_stack_push s1 ?t = Inr s2" "stack_inv s2" "stack_items s2 = ?t # ts"
    using tree_stack.push_room [OF s1(1), of ?t] s1(2) by auto
  let ?K = "\<lambda>right left stack. rbind (node_curve left) (\<lambda>cl. rbind (node_curve right) (\<lambda>cr.
    rbind (shape_add cl cr x) (\<lambda>c. let node = TNode c x left right in
    rbind (tree_node_stack_push stack node) (\<lambda>stack. Inr (stack, node)))))"
  have "tree_step d x s = ?K r l s1"
    unfolding tree_step_def using assms(1) s1(3) [of ?K] by simp
  also have "\<dots> = Inr (s2, ?t)"
    using tree_ok_curve [OF l(1)] tree_ok_curve [OF r(1)] by (simp add: add s2(1) Let_def)
  finally have "tree_step d x s = Inr (s2, ?t)" .
  moreover have "pending_ok d (es @ [x]) (?t # ts)"
    using assms(1,3,4) l r sum_curve_ok tree_ok_curve [OF l(1)] tree_ok_curve [OF r(1)]
    by (simp add: pending_ok_def)
  ultimately show ?thesis using s2 by blast
qed


section \<open>The whole expression\<close>

lemma polish_range:
  assumes "polish m es" "i < length es" "0 \<le> es ! i"
  shows "nat (es ! i) < m"
proof -
  have "es ! i \<in> set (filter (\<lambda>x. x \<ge> 0) es)" using assms by simp
  also have "\<dots> = set (map int [0..<m])"
    using assms(1) by (metis polish_def set_mset_mset)
  finally show ?thesis by auto
qed

text \<open>The state of the loop before element \<open>i\<close>.\<close>

definition eval_inv :: "flp_desc_t \<Rightarrow> int list \<Rightarrow> nat \<Rightarrow> tree_node_stack_t \<times> tree_node_t \<Rightarrow> bool" where
  "eval_inv d es i st \<longleftrightarrow> (case st of (s, t) \<Rightarrow> stack_inv s \<and> length (stack_items s) = pending es i \<and>
     pending_ok d (take i es) (stack_items s) \<and> (i \<noteq> 0 \<longrightarrow> t = hd (stack_items s)))"

lemma eval_step:
  assumes "polish m es" "desc_ok m d" "i < length es" "eval_inv d es i st"
  shows "if es ! i < 0 \<or> pending es i < MAX_STACK
    then \<exists>st'. tree_step d (es ! i) (fst st) = Inr st' \<and> eval_inv d es (Suc i) st'
    else tree_step d (es ! i) (fst st) = Inl (Fatal ''attempting to push into an already full stack'')"
proof (cases "es ! i < 0")
  case True
  obtain s t where st: "st = (s, t)" by force
  have inv: "stack_inv s" "length (stack_items s) = pending es i" "pending_ok d (take i es) (stack_items s)"
    using assms(4) by (simp_all add: eval_inv_def st)
  have bal: "balloting es" using assms(1) by (simp add: polish_def)
  have "2 \<le> length (stack_items s)" using balloting_pending(2) [OF bal assms(3) True] inv(2) by simp
  then obtain r l ts where items: "stack_items s = r # l # ts"
    by (metis One_nat_def Suc_le_length_iff numeral_2_eq_2)
  from cut_step [OF True inv(1) items inv(3)] obtain s' t' where
    s': "tree_step d (es ! i) s = Inr (s', t')" "stack_inv s'" "stack_items s' = t' # ts"
      "pending_ok d (take i es @ [es ! i]) (t' # ts)" by blast
  have "eval_inv d es (Suc i) (s', t')"
    using s' inv(2) items balloting_pending(1) [OF bal assms(3)] True assms(3)
    by (simp add: eval_inv_def take_Suc_conv_app_nth)
  with s'(1) True show ?thesis by (auto simp: st)
next
  case False
  obtain s t where st: "st = (s, t)" by force
  have inv: "stack_inv s" "length (stack_items s) = pending es i" "pending_ok d (take i es) (stack_items s)"
    using assms(4) by (simp_all add: eval_inv_def st)
  have bal: "balloting es" using assms(1) by (simp add: polish_def)
  note leaf = leaf_step [OF _ polish_range [OF assms(1,3)] assms(2) inv(1,3)]
  show ?thesis
  proof (cases "pending es i < MAX_STACK")
    case True
    then obtain s' t' where
      s': "tree_step d (es ! i) s = Inr (s', t')" "stack_inv s'" "stack_items s' = t' # stack_items s"
        "pending_ok d (take i es @ [es ! i]) (t' # stack_items s)" using leaf inv(2) False by force
    have "eval_inv d es (Suc i) (s', t')"
      using s' inv(2) balloting_pending(1) [OF bal assms(3)] False assms(3)
      by (simp add: eval_inv_def take_Suc_conv_app_nth)
    with s'(1) True show ?thesis by (auto simp: st)
  next
    case full: False
    then show ?thesis using leaf inv(2) False by (simp add: st)
  qed
qed

text \<open>The expression needs no more than \<open>MAX_STACK\<close> pending nodes.\<close>

definition fits_stack :: "int list \<Rightarrow> bool" where
  "fits_stack es \<longleftrightarrow> (\<forall>i \<le> length es. pending es i \<le> MAX_STACK)"

lemma eval_prefix:
  assumes "polish m es" "desc_ok m d" "n \<le> length es" "stack_inv s" "stack_items s = []"
    and fits: "\<forall>i \<le> n. pending es i \<le> MAX_STACK"
  shows "\<exists>st. for_up 0 n (\<lambda>i (stack, node). rbind (rd es i) (\<lambda>x. tree_step d x stack)) (s, NULL_node) = Inr st \<and>
    eval_inv d es n st"
proof (rule for_up_rule)
  show "eval_inv d es 0 (s, NULL_node)"
    using assms(4,5) by (simp add: eval_inv_def pending_def pending_ok_def)
  fix i st assume i: "i < n" and inv: "eval_inv d es i st"
  have bal: "balloting es" using assms(1) by (simp add: polish_def)
  have lt: "i < length es" using i assms(3) by simp
  have "es ! i < 0 \<or> pending es i < MAX_STACK"
    using fits i balloting_pending(1) [OF bal lt] by (metis Suc_leI Suc_le_lessD)
  with eval_step [OF assms(1,2) lt inv] lt
  show "\<exists>st'. (case st of (stack, node) \<Rightarrow> rbind (rd es i) (\<lambda>x. tree_step d x stack)) = Inr st' \<and>
      eval_inv d es (Suc i) st'"
    by (cases st) simp
qed simp

lemma tree_from_NPE_ok:
  assumes "npe_ok m e" "desc_ok m d" "stack_inv s" "stack_items s = []"
  shows "if fits_stack (elements e)
    then \<exists>t s'. tree_from_NPE d s e = Inr (t, s') \<and> postorder t = elements e \<and> tree_ok t \<and>
      tree_of_desc d t \<and> stack_inv s' \<and> stack_items s' = []
    else tree_from_NPE d s e = Inl (Fatal ''attempting to push into an already full stack'')"
proof -
  let ?es = "elements e" let ?n = "length ?es"
  let ?body = "\<lambda>i (stack, node :: tree_node_t). rbind (rd ?es i) (\<lambda>x. tree_step d x stack)"
  have pol: "polish m ?es" and n: "npe_size e = ?n" using assms(1) by (simp_all add: npe_ok_def)
  have bal: "balloting ?es" using pol by (simp add: polish_def)
  have emp: "tree_node_stack_isempty s" using tree_stack.empty_iff [OF assms(3)] assms(4) by simp
  show ?thesis
  proof (cases "fits_stack ?es")
    case True
    then obtain s' t where run: "for_up 0 ?n ?body (s, NULL_node) = Inr (s', t)" "eval_inv d ?es ?n (s', t)"
      using eval_prefix [OF pol assms(2) le_refl assms(3,4)] by (auto simp: fits_stack_def)
    have one: "pending ?es ?n = 1" "?n \<noteq> 0"
      using polish_cuts [OF pol] pol by (auto simp: pending_def polish_def)
    then obtain t' where t': "stack_items s' = [t']"
      using run(2) by (auto simp: eval_inv_def length_Suc_conv)
    then have "t = t'" using run(2) one(2) by (auto simp: eval_inv_def)
    with run t' show ?thesis
      using True emp n tree_stack.clear_ok [of s']
      by (auto simp: tree_from_NPE_def eval_inv_def pending_ok_def)
  next
    case False
    define k where "k = (LEAST i. MAX_STACK < pending ?es i)"
    have ex: "\<exists>i. MAX_STACK < pending ?es i \<and> i \<le> ?n"
      using False by (auto simp: fits_stack_def not_le)
    then have k: "MAX_STACK < pending ?es k" "k \<le> ?n" and least: "\<And>i. i < k \<Longrightarrow> pending ?es i \<le> MAX_STACK"
      unfolding k_def by (meson LeastI_ex Least_le order_trans not_less_Least not_less)+
    have "k \<noteq> 0" using k(1) by (auto simp: pending_def)
    then obtain i where i: "k = Suc i" by (cases k) auto
    have lt: "i < ?n" using k(2) i by simp
    obtain st where st: "for_up 0 i ?body (s, NULL_node) = Inr st" "eval_inv d ?es i st"
      using eval_prefix [OF pol assms(2) _ assms(3,4), of i] lt least i by auto
    have "\<not> (?es ! i < 0 \<or> pending ?es i < MAX_STACK)"
      using k(1) i balloting_pending(1) [OF bal lt] least [of i] by (auto split: if_splits)
    with eval_step [OF pol assms(2) lt st(2)]
    have "?body i st = Inl (Fatal ''attempting to push into an already full stack'')"
      using lt by (cases st) simp
    with st(1) lt have "for_up 0 ?n ?body (s, NULL_node) = Inl (Fatal ''attempting to push into an already full stack'')"
      by (simp add: for_up_split [of 0 i ?n] for_up_step)
    with False emp n show ?thesis by (simp add: tree_from_NPE_def)
  qed
qed

end
