(* ===== verification/Node_Setter.thy ===== *)
theory Node_Setter
  imports Slicing
begin

text \<open>
  The contract of writing one coordinate of a curve entry of a tree node, and the three
  adjustments of \<open>recursive_sizing\<close> proved once for both coordinates: \<open>st\<close> writes the
  coordinate read by \<open>this_c\<close> and leaves the other one, \<open>oth_c\<close>; enlarging an entry keeps the
  property \<open>fit\<close> of the node and its shape \<open>same\<close>.
\<close>

locale node_setter =
  fixes st :: "tree_node_t \<Rightarrow> nat \<Rightarrow> real \<Rightarrow> tree_node_t res"
    and this_c :: "tree_node_t \<Rightarrow> nat \<Rightarrow> real" and oth_c :: "tree_node_t \<Rightarrow> nat \<Rightarrow> real"
    and fit :: "tree_node_t \<Rightarrow> nat \<Rightarrow> bool" and same :: "tree_node_t \<Rightarrow> tree_node_t \<Rightarrow> bool"
  assumes same_refl: "same t t" and same_trans: "same t t1 \<Longrightarrow> same t1 t2 \<Longrightarrow> same t t2"
    and set_ok: "fit t k \<Longrightarrow> this_c t k \<le> v \<Longrightarrow>
      \<exists>t'. st t k v = Inr t' \<and> fit t' k \<and> same t t' \<and> this_c t' k = v \<and> oth_c t' k = oth_c t k"
begin

text \<open>Stretching makes the larger child exactly as large as the bounding rectangle.\<close>

lemma stretch_both_ok:
  assumes "fit l lp" "fit r rp" "max (this_c l lp) (this_c r rp) \<le> T"
  shows "\<exists>l' r'. stretch_both st l r lp rp T (this_c l lp) (this_c r rp) =
      Inr (l', r', this_c l' lp, this_c r' rp) \<and>
    fit l' lp \<and> fit r' rp \<and> same l l' \<and> same r r' \<and> max (this_c l' lp) (this_c r' rp) = T \<and>
    oth_c l' lp = oth_c l lp \<and> oth_c r' rp = oth_c r rp \<and>
    this_c l lp \<le> this_c l' lp \<and> this_c r rp \<le> this_c r' rp"
proof (cases "max (this_c l lp) (this_c r rp) < T")
  case True
  let ?d = "T - max (this_c l lp) (this_c r rp)"
  obtain l' where l': "st l lp (this_c l lp + ?d) = Inr l'" "fit l' lp" "same l l'"
    "this_c l' lp = this_c l lp + ?d" "oth_c l' lp = oth_c l lp"
    using set_ok [OF assms(1), of "this_c l lp + ?d"] True by auto
  obtain r' where r': "st r rp (this_c r rp + ?d) = Inr r'" "fit r' rp" "same r r'"
    "this_c r' rp = this_c r rp + ?d" "oth_c r' rp = oth_c r rp"
    using set_ok [OF assms(2), of "this_c r rp + ?d"] True by auto
  have "stretch_both st l r lp rp T (this_c l lp) (this_c r rp) = Inr (l', r', this_c l' lp, this_c r' rp)"
    using True l'(1,4) r'(1,4) by (simp add: stretch_both_def)
  moreover have "max (this_c l' lp) (this_c r' rp) = T" using l'(4) r'(4) by (simp add: max_def)
  ultimately show ?thesis using l' r' True by auto
next
  case False
  then show ?thesis using assms same_refl by (intro exI) (auto simp: stretch_both_def)
qed

text \<open>Widening makes the children exactly as large together as the bounding rectangle.\<close>

lemma widen_right_ok:
  assumes "fit r rp" "a + this_c r rp \<le> T"
  shows "\<exists>r'. widen_right st r rp T a (this_c r rp) = Inr (r', T - a) \<and>
    fit r' rp \<and> same r r' \<and> this_c r' rp = T - a \<and> oth_c r' rp = oth_c r rp"
proof (cases "a + this_c r rp < T")
  case True
  then obtain r' where "st r rp (T - a) = Inr r'" "fit r' rp" "same r r'" "this_c r' rp = T - a"
    "oth_c r' rp = oth_c r rp"
    using set_ok [OF assms(1), of "T - a"] by auto
  with True show ?thesis by (auto simp: widen_right_def algebra_simps)
next
  case False
  with assms have "this_c r rp = T - a" by simp
  with assms(1) same_refl show ?thesis by (intro exI [of _ r]) (simp add: widen_right_def)
qed

text \<open>Absorbing the dead block makes both children as large as the larger; keeping it counts it.\<close>

lemma keep_or_absorb_ok:
  assumes "fit l lp" "fit r rp"
  shows "\<exists>dc' l' r'. keep_or_absorb st l r lp rp (this_c l lp) (this_c r rp) small dc = Inr (dc', l', r') \<and>
    fit l' lp \<and> fit r' rp \<and> same l l' \<and> same r r' \<and>
    oth_c l' lp = oth_c l lp \<and> oth_c r' rp = oth_c r rp \<and>
    (if small then dc' = dc \<and> this_c l' lp = max (this_c l lp) (this_c r rp) \<and>
       this_c r' rp = max (this_c l lp) (this_c r rp)
     else dc' = Suc dc \<and> l' = l \<and> r' = r)"
proof (cases small)
  case True
  show ?thesis
  proof (cases "this_c l lp \<le> this_c r rp")
    case le: True
    with set_ok [OF assms(1) le] True assms(2) same_refl show ?thesis
      by (auto simp: keep_or_absorb_def max_def)
  next
    case le: False
    then have "this_c r rp \<le> this_c l lp" by simp
    with set_ok [OF assms(2) this] True le assms(1) same_refl show ?thesis
      by (auto simp: keep_or_absorb_def max_def)
  qed
next
  case False
  then show ?thesis using assms same_refl by (auto simp: keep_or_absorb_def)
qed

end

end
