(* ===== verification/Util_Strings.thy ===== *)
theory Util_Strings
  imports Prelude
begin

text \<open>
  The tables of name-value pairs of \<open>hotspot_tool/util.c\<close>: filling one from the command line,
  looking a name up without regard to case, deleting an entry, and removing the entries whose
  name occurs earlier. A string is its characters before the terminating zero; the buffers
  \<open>char[STR_SIZE]\<close> are fixed, so what is copied into them is cut off.
\<close>

section \<open>Strings\<close>

definition STR_SIZE :: nat where "STR_SIZE = 512"

text \<open>\<open>strcasecmp\<close> in the C locale, as far as the code uses it: are two strings the same?\<close>

definition to_lower :: "char \<Rightarrow> char" where
  "to_lower c = (let n = of_char c :: nat in if 65 \<le> n \<and> n \<le> 90 then char_of (n + 32) else c)"

definition strcase_eq :: "string \<Rightarrow> string \<Rightarrow> bool" where
  "strcase_eq s t = (map to_lower s = map to_lower t)"

lemma strcase_eq_refl [simp]: "strcase_eq s s"
  by (simp add: strcase_eq_def)

lemma strcase_eq_sym: "strcase_eq s t = strcase_eq t s"
  by (auto simp: strcase_eq_def)

lemma strcase_eq_trans: "strcase_eq s t \<Longrightarrow> strcase_eq t u \<Longrightarrow> strcase_eq s u"
  by (simp add: strcase_eq_def)

section \<open>Tables\<close>

record str_pair =
  pair_name :: string
  pair_value :: string

text \<open>
  \<open>parse_cmdline\<close>: \<open>argv\<close> is the list of arguments, the program's name first; the state is the
  table and \<open>count\<close>. An argument is a name exactly when its index is odd.
\<close>

definition set_pair_name :: "str_pair list \<Rightarrow> nat \<Rightarrow> string \<Rightarrow> str_pair list res" where
  "set_pair_name table i s = rbind (rd table i) (\<lambda>p. wr table i (p\<lparr>pair_name := s\<rparr>))"

definition set_pair_value :: "str_pair list \<Rightarrow> nat \<Rightarrow> string \<Rightarrow> str_pair list res" where
  "set_pair_value table i s = rbind (rd table i) (\<lambda>p. wr table i (p\<lparr>pair_value := s\<rparr>))"

function parse_args ::
  "nat \<Rightarrow> string list \<Rightarrow> nat \<Rightarrow> str_pair list \<times> nat \<Rightarrow> (str_pair list \<times> nat) res" where
  "parse_args max_entries argv i st = (case st of (table, count) \<Rightarrow>
     if i < length argv \<and> count < max_entries then
       if odd i then
         if take 1 (argv ! i) \<noteq> ''-'' then Inl (Fatal ''invalid command line. check usage'')
         else rbind (set_pair_name table count (take (STR_SIZE - 1) (drop 1 (argv ! i)))) (\<lambda>table.
              parse_args max_entries argv (Suc i) (table, count))
       else rbind (set_pair_value table count (take (STR_SIZE - 1) (argv ! i))) (\<lambda>table.
            parse_args max_entries argv (Suc i) (table, Suc count))
     else Inr (table, count))"
  by pat_completeness auto
termination
  by (relation "measure (\<lambda>(max_entries, argv, i, st). length argv - i)") auto

declare parse_args.simps [simp del]

definition parse_cmdline :: "str_pair list \<Rightarrow> nat \<Rightarrow> string list \<Rightarrow> (str_pair list \<times> nat) res" where
  "parse_cmdline table max_entries argv = parse_args max_entries argv 1 (table, 0)"

text \<open>Lookup: the index of the first entry of the name, or -1.\<close>

function find_name :: "str_pair list \<Rightarrow> nat \<Rightarrow> string \<Rightarrow> nat \<Rightarrow> int res" where
  "find_name table n str i =
     (if i < n then rbind (rd table i) (\<lambda>p.
        if strcase_eq str (pair_name p) then Inr (int i) else find_name table n str (Suc i))
      else Inr (-1))"
  by pat_completeness auto
termination
  by (relation "measure (\<lambda>(table, n, str, i). n - i)") auto

declare find_name.simps [simp del]

definition get_str_index :: "str_pair list option \<Rightarrow> nat \<Rightarrow> string \<Rightarrow> int res" where
  "get_str_index table n str = (case table of
     None \<Rightarrow> Inl (Fatal ''null pointer in get_str_index'')
   | Some t \<Rightarrow> find_name t n str 0)"

text \<open>Deletion shifts the later entries down; the last cell keeps its contents.\<close>

definition delete_entry :: "str_pair list \<Rightarrow> nat \<Rightarrow> nat \<Rightarrow> str_pair list res" where
  "delete_entry table n at_i =
     for_up (at_i + 1) n (\<lambda>i t. rbind (rd t i) (\<lambda>p. wr t (i - 1) p)) table"

text \<open>
  The inner loop over \<open>j\<close>, which stays where it is after a deletion, and the outer loop over
  \<open>i\<close>; both see the current size.
\<close>

function dedup_inner :: "str_pair list \<Rightarrow> nat \<Rightarrow> nat \<Rightarrow> nat \<Rightarrow> (str_pair list \<times> nat) res" where
  "dedup_inner table n i j =
     (if j < n then
        rbind (rd table i) (\<lambda>p. rbind (rd table j) (\<lambda>q.
          if strcase_eq (pair_name p) (pair_name q) then
            rbind (delete_entry table n j) (\<lambda>table. dedup_inner table (n - 1) i j)
          else dedup_inner table n i (Suc j)))
      else Inr (table, n))"
  by pat_completeness auto
termination
  by (relation "measure (\<lambda>(table, n, i, j). n - j)") auto

declare dedup_inner.simps [simp del]

lemma dedup_inner_size: "dedup_inner table n i j = Inr (table', n') \<Longrightarrow> n' \<le> n"
proof (induction table n i j arbitrary: table' n' rule: dedup_inner.induct)
  case (1 table n i j)
  show ?case
    using "1.prems" "1.IH" by (subst (asm) dedup_inner.simps) (fastforce split: if_splits)
qed

function dedup_outer :: "str_pair list \<Rightarrow> nat \<Rightarrow> nat \<Rightarrow> (str_pair list \<times> nat) res" where
  "dedup_outer table n i =
     (if i < n - 1 then
        rbind (dedup_inner table n i (i + 1)) (\<lambda>(table, n). dedup_outer table n (Suc i))
      else Inr (table, n))"
  by pat_completeness auto
termination
  by (relation "measure (\<lambda>(table, n, i). n - i)") (auto dest!: dedup_inner_size)

declare dedup_outer.simps [simp del]

definition str_pairs_remove_duplicates :: "str_pair list \<Rightarrow> nat \<Rightarrow> (str_pair list \<times> nat) res" where
  "str_pairs_remove_duplicates table n = dedup_outer table n 0"

section \<open>Lookup and deletion\<close>

abbreviation same_name :: "str_pair \<Rightarrow> str_pair \<Rightarrow> bool" where
  "same_name p q \<equiv> strcase_eq (pair_name p) (pair_name q)"

lemma find_name_ok:
  assumes "n \<le> length table" "i \<le> n" "\<forall>k < i. \<not> strcase_eq str (pair_name (table ! k))"
  shows "find_name table n str i = Inr (case find (\<lambda>k. strcase_eq str (pair_name (table ! k))) [i..<n] of
    None \<Rightarrow> -1 | Some k \<Rightarrow> int k)"
  using assms
proof (induction "n - i" arbitrary: i)
  case 0
  then show ?case by (subst find_name.simps) simp
next
  case (Suc d)
  then have lt: "i < n" by simp
  have "[i..<n] = i # [Suc i..<n]" using lt by (rule upt_conv_Cons)
  then show ?case
    using Suc lt by (subst find_name.simps) (auto simp: less_Suc_eq)
qed

lemma delete_entry_ok:
  assumes "j < n" "n \<le> length table"
  shows "\<exists>t. delete_entry table n j = Inr t \<and> length t = length table \<and>
    take (n - 1) t = take j table @ drop (Suc j) (take n table)"
proof -
  let ?I = "\<lambda>i t. length t = length table \<and> (\<forall>k < length table. t ! k = (if j \<le> k \<and> k + 1 < i then table ! Suc k else table ! k))"
  have "\<exists>t. for_up (j + 1) n (\<lambda>i t. rbind (rd t i) (\<lambda>p. wr t (i - 1) p)) table = Inr t \<and> ?I n t"
  proof (rule for_up_rule [where I = ?I])
    fix i t assume i: "j + 1 \<le> i" "i < n" and inv: "?I i t"
    have "t ! i = table ! i" using inv i assms by auto
    moreover have "?I (Suc i) (t[i - 1 := table ! i])"
      using inv i assms by (auto simp: nth_list_update)
    ultimately show "\<exists>t'. rbind (rd t i) (\<lambda>p. wr t (i - 1) p) = Inr t' \<and> ?I (Suc i) t'"
      using inv i assms by (intro exI [of _ "t[i - 1 := table ! i]"]) simp
  qed (use assms in auto)
  then obtain t where t: "delete_entry table n j = Inr t" "?I n t" by (auto simp: delete_entry_def)
  have "take (n - 1) t = take j table @ drop (Suc j) (take n table)"
    by (rule nth_equalityI) (use t(2) assms in \<open>auto simp: nth_append\<close>)
  with t show ?thesis by blast
qed

section \<open>Removing duplicates\<close>

text \<open>The reference: keep the first entry of every name.\<close>

fun keep_first :: "str_pair list \<Rightarrow> str_pair list" where
  "keep_first [] = []"
| "keep_first (p # ps) = p # keep_first (filter (\<lambda>q. \<not> same_name p q) ps)"

lemma dedup_inner_ok:
  assumes "i < j" "j \<le> n" "n \<le> length table"
    and "\<forall>k. i < k \<longrightarrow> k < j \<longrightarrow> \<not> same_name (table ! i) (table ! k)"
  shows "\<exists>t m. dedup_inner table n i j = Inr (t, m) \<and> i < m \<and> m \<le> n \<and> length t = length table \<and>
    take m t = take (Suc i) table @ filter (\<lambda>q. \<not> same_name (table ! i) q) (drop (Suc i) (take n table))"
  using assms
proof (induction "n - j" arbitrary: table n j rule: less_induct)
  case less
  show ?case
  proof (cases "j < n")
    case False
    have "filter (\<lambda>q. \<not> same_name (table ! i) q) (drop (Suc i) (take n table)) = drop (Suc i) (take n table)"
    proof (rule filter_True, rule ballI)
      fix q assume "q \<in> set (drop (Suc i) (take n table))"
      then obtain k where "k < n - Suc i" "q = table ! (Suc i + k)"
        using less.prems by (auto simp: in_set_conv_nth)
      then show "\<not> same_name (table ! i) q" using less.prems(2,4) False by auto
    qed
    moreover have "take (Suc i) table @ drop (Suc i) (take n table) = take n table"
      using less.prems False by (metis append_take_drop_id min.absorb1 Suc_leI le_trans not_less take_take less_or_eq_imp_le)
    ultimately show ?thesis
      using False less.prems by (subst dedup_inner.simps) simp
  next
    case True
    have ij: "i < length table" "j < length table" using less.prems True by auto
    show ?thesis
    proof (cases "same_name (table ! i) (table ! j)")
      case same: True
      obtain t1 where t1: "delete_entry table n j = Inr t1" "length t1 = length table"
        "take (n - 1) t1 = take j table @ drop (Suc j) (take n table)"
        using delete_entry_ok [OF True less.prems(3)] by blast
      have low: "t1 ! k = table ! k" if "k < j" for k
      proof -
        have "t1 ! k = take (n - 1) t1 ! k" using that True by simp
        also have "\<dots> = table ! k" using that ij unfolding t1(3) by (simp add: nth_append)
        finally show ?thesis .
      qed
      have "\<exists>t m. dedup_inner t1 (n - 1) i j = Inr (t, m) \<and> i < m \<and> m \<le> n - 1 \<and> length t = length t1 \<and>
        take m t = take (Suc i) t1 @ filter (\<lambda>q. \<not> same_name (t1 ! i) q) (drop (Suc i) (take (n - 1) t1))"
        by (rule less.hyps) (use True less.prems t1(2) low in auto)
      moreover have "take (Suc i) t1 = take (Suc i) table"
        by (rule nth_equalityI) (use low less.prems(1) t1(2) in auto)
      moreover have "filter (\<lambda>q. \<not> same_name (table ! i) q) (drop (Suc i) (take (n - 1) t1)) =
          filter (\<lambda>q. \<not> same_name (table ! i) q) (drop (Suc i) (take n table))"
      proof -
        have l: "j < length (take n table)" "take j (take n table) = take j table" "take n table ! j = table ! j"
          using ij True by simp_all
        have "drop (Suc i) (take n table) = drop (Suc i) (take j table @ table ! j # drop (Suc j) (take n table))"
          using arg_cong [OF id_take_nth_drop [OF l(1)], of "drop (Suc i)"] unfolding l(2,3) .
        also have "\<dots> = drop (Suc i) (take j table) @ table ! j # drop (Suc j) (take n table)"
          using ij less.prems(1) by simp
        finally have "drop (Suc i) (take n table) =
            drop (Suc i) (take j table) @ table ! j # drop (Suc j) (take n table)" .
        moreover have "drop (Suc i) (take (n - 1) t1) = drop (Suc i) (take j table) @ drop (Suc j) (take n table)"
          using ij less.prems(1) unfolding t1(3) by simp
        ultimately show ?thesis using same by simp
      qed
      ultimately show ?thesis
        using True same ij t1(1,2) low [OF less.prems(1)] by (subst dedup_inner.simps) auto
    next
      case differ: False
      have "\<exists>t m. dedup_inner table n i (Suc j) = Inr (t, m) \<and> i < m \<and> m \<le> n \<and> length t = length table \<and>
        take m t = take (Suc i) table @ filter (\<lambda>q. \<not> same_name (table ! i) q) (drop (Suc i) (take n table))"
        by (rule less.hyps) (use True less.prems differ in \<open>auto simp: less_Suc_eq\<close>)
      then show ?thesis using True differ ij by (subst dedup_inner.simps) simp
    qed
  qed
qed


lemma dedup_outer_ok:
  assumes "i \<le> n" "n \<le> length table"
  shows "\<exists>t m. dedup_outer table n i = Inr (t, m) \<and> m \<le> n \<and> length t = length table \<and>
    take m t = take i table @ keep_first (drop i (take n table))"
  using assms
proof (induction "n - i" arbitrary: table n i rule: less_induct)
  case less
  show ?case
  proof (cases "i < n - 1")
    case True
    have ii: "i < length table" using True less.prems(2) by simp
    obtain t1 m1 where t1: "dedup_inner table n i (i + 1) = Inr (t1, m1)" "i < m1" "m1 \<le> n"
      "length t1 = length table" "take m1 t1 = take (Suc i) table @
        filter (\<lambda>q. \<not> same_name (table ! i) q) (drop (Suc i) (take n table))"
    proof -
      have "i + 1 \<le> n" using True by simp
      with dedup_inner_ok [of i "i + 1" n table] less.prems(2) that show ?thesis by auto
    qed
    obtain t m where t: "dedup_outer t1 m1 (Suc i) = Inr (t, m)" "m \<le> m1" "length t = length t1"
      "take m t = take (Suc i) t1 @ keep_first (drop (Suc i) (take m1 t1))"
    proof -
      have "m1 - Suc i < n - i" "Suc i \<le> m1" "m1 \<le> length t1" using True t1(2-4) less.prems(2) by simp_all
      from less.hyps [OF this] that show ?thesis by blast
    qed
    have "take (Suc i) t1 = take (Suc i) (take m1 t1)" using t1(2) by (simp add: min.absorb1)
    also have "\<dots> = take (Suc i) table" unfolding t1(5) using ii by simp
    finally have pre: "take (Suc i) t1 = take i table @ [table ! i]" using ii by (simp add: take_Suc_conv_app_nth)
    have "drop (Suc i) (take m1 t1) = filter (\<lambda>q. \<not> same_name (table ! i) q) (drop (Suc i) (take n table))"
      unfolding t1(5) using ii by simp
    moreover have "drop i (take n table) = table ! i # drop (Suc i) (take n table)"
      using True ii less.prems(2) by (subst Cons_nth_drop_Suc [symmetric]) auto
    ultimately have "take m t = take i table @ keep_first (drop i (take n table))"
      using t(4) pre by simp
    with t t1 True show ?thesis by (subst dedup_outer.simps) simp
  next
    case False
    have "length (drop i (take n table)) \<le> 1" using False less.prems by simp
    then have "keep_first (drop i (take n table)) = drop i (take n table)"
      by (cases "drop i (take n table)") auto
    moreover have "take n table = take i table @ drop i (take n table)"
      using less.prems(1) by (metis append_take_drop_id take_take min.absorb1)
    ultimately show ?thesis using False by (subst dedup_outer.simps) simp
  qed
qed

lemma find_filter: "(\<And>x. P x \<Longrightarrow> Q x) \<Longrightarrow> find P (filter Q xs) = find P xs"
  by (induction xs) auto

lemma find_keep_first:
  "find (\<lambda>p. strcase_eq s (pair_name p)) (keep_first ps) = find (\<lambda>p. strcase_eq s (pair_name p)) ps"
proof (induction ps rule: keep_first.induct)
  case (2 p ps)
  show ?case
  proof (cases "strcase_eq s (pair_name p)")
    case False
    have "\<not> same_name p q" if "strcase_eq s (pair_name q)" for q
      using that False strcase_eq_trans strcase_eq_sym by blast
    then show ?thesis using 2 False by (simp add: find_filter)
  qed simp
qed simp

lemma keep_first_distinct: "distinct (map (map to_lower \<circ> pair_name) (keep_first ps))"
proof (induction ps rule: keep_first.induct)
  case (2 p ps)
  have "set (keep_first qs) \<subseteq> set qs" for qs by (induction qs rule: keep_first.induct) auto
  with 2 show ?case by (fastforce simp: strcase_eq_def)
qed simp

section \<open>The command line\<close>

text \<open>The arguments that spell a list of pairs.\<close>

definition spell :: "str_pair list \<Rightarrow> string list" where
  "spell ps = concat (map (\<lambda>p. [''-'' @ pair_name p, pair_value p]) ps)"

definition fits_buffers :: "str_pair \<Rightarrow> bool" where
  "fits_buffers p \<longleftrightarrow> length (pair_name p) < STR_SIZE \<and> length (pair_value p) < STR_SIZE"

lemma spell_nth:
  assumes "c < length ps"
  shows "spell ps ! (2 * c) = ''-'' @ pair_name (ps ! c)" "spell ps ! Suc (2 * c) = pair_value (ps ! c)"
  using assms
proof (induction ps arbitrary: c)
  case (Cons p ps)
  { case 1 show ?case using Cons 1 by (cases c) (auto simp: spell_def) }
  { case 2 show ?case using Cons 2 by (cases c) (auto simp: spell_def) }
qed simp_all

lemma spell_length [simp]: "length (spell ps) = 2 * length ps"
  by (induction ps) (auto simp: spell_def)

lemma parse_args_ok:
  assumes "c \<le> length ps" "length ps \<le> mx" "mx \<le> length table" "\<forall>p \<in> set ps. fits_buffers p"
    and "take c table = take c ps"
  shows "\<exists>t. parse_args mx (prog # spell ps) (Suc (2 * c)) (table, c) = Inr (t, length ps) \<and>
    length t = length table \<and> take (length ps) t = ps \<and>
    (\<forall>k. length ps \<le> k \<longrightarrow> k < length table \<longrightarrow> t ! k = table ! k)"
  using assms
proof (induction "length ps - c" arbitrary: c table)
  case 0
  then show ?case by (subst parse_args.simps) simp
next
  case (Suc d)
  then have c: "c < length ps" by simp
  have fb: "fits_buffers (ps ! c)" using Suc.prems(4) c by simp
  let ?q = "(table ! c)\<lparr>pair_name := pair_name (ps ! c)\<rparr>"
  have cl: "c < length table" "c < mx" using c Suc.prems by auto
  have name: "take (STR_SIZE - 1) (pair_name (ps ! c)) = pair_name (ps ! c)"
    "take (STR_SIZE - 1) (pair_value (ps ! c)) = pair_value (ps ! c)"
    using fb by (simp_all add: fits_buffers_def STR_SIZE_def)
  have one: "parse_args mx (prog # spell ps) (Suc (2 * c)) (table, c) =
      parse_args mx (prog # spell ps) (Suc (Suc (2 * c))) (table[c := ?q], c)"
    using c cl spell_nth(1) [OF c] name by (subst parse_args.simps) (simp add: set_pair_name_def)
  have two: "parse_args mx (prog # spell ps) (Suc (Suc (2 * c))) (table[c := ?q], c) =
      parse_args mx (prog # spell ps) (Suc (2 * Suc c)) (table[c := ps ! c], Suc c)"
  proof -
    have eq: "?q\<lparr>pair_value := pair_value (ps ! c)\<rparr> = ps ! c"
      by (rule str_pair.equality) simp_all
    have "parse_args mx (prog # spell ps) (Suc (Suc (2 * c))) (table[c := ?q], c) =
        parse_args mx (prog # spell ps) (Suc (2 * Suc c)) (table[c := ?q\<lparr>pair_value := pair_value (ps ! c)\<rparr>], Suc c)"
      using c cl spell_nth(2) [OF c] name by (subst parse_args.simps) (simp add: set_pair_value_def)
    then show ?thesis by (simp only: eq)
  qed
  have "\<exists>t. parse_args mx (prog # spell ps) (Suc (2 * Suc c)) (table[c := ps ! c], Suc c) = Inr (t, length ps) \<and>
    length t = length (table[c := ps ! c]) \<and> take (length ps) t = ps \<and>
    (\<forall>k. length ps \<le> k \<longrightarrow> k < length (table[c := ps ! c]) \<longrightarrow> t ! k = table[c := ps ! c] ! k)"
    by (rule Suc.hyps(1)) (use Suc.hyps(2) Suc.prems c cl in \<open>auto simp: take_Suc_conv_app_nth\<close>)
  then show ?case using one two c by auto
qed


section \<open>Properties\<close>

text \<open>
  \<open>str_pairs_remove_duplicates\<close> keeps exactly the first entry of every name, names compared
  without regard to case; the names left are distinct, every name still looks up the entry it
  looked up before, and no access leaves the table.
\<close>

theorem remove_duplicates_keeps_first:
  assumes "n \<le> length table"
  shows "\<exists>t m. str_pairs_remove_duplicates table n = Inr (t, m) \<and> m \<le> n \<and> length t = length table \<and>
    take m t = keep_first (take n table) \<and>
    distinct (map (map to_lower \<circ> pair_name) (take m t)) \<and>
    (\<forall>s. find (\<lambda>p. strcase_eq s (pair_name p)) (take m t) =
         find (\<lambda>p. strcase_eq s (pair_name p)) (take n table))"
proof -
  obtain t m where "dedup_outer table n 0 = Inr (t, m)" "m \<le> n" "length t = length table"
    "take m t = keep_first (take n table)"
    using dedup_outer_ok [of 0 n table] assms by auto
  then show ?thesis
    by (simp add: str_pairs_remove_duplicates_def find_keep_first keep_first_distinct)
qed

theorem remove_duplicates_keeps_first_witness:
  "\<exists>t. str_pairs_remove_duplicates [\<lparr>pair_name = ''a'', pair_value = ''1''\<rparr>,
      \<lparr>pair_name = ''A'', pair_value = ''2''\<rparr>] 2 = Inr (t, 1) \<and>
    take 1 t = [\<lparr>pair_name = ''a'', pair_value = ''1''\<rparr>]"
proof -
  let ?t = "[\<lparr>pair_name = ''a'', pair_value = ''1''\<rparr>, \<lparr>pair_name = ''A'', pair_value = ''2''\<rparr>]"
  have k: "keep_first (take 2 ?t) = [\<lparr>pair_name = ''a'', pair_value = ''1''\<rparr>]"
  proof -
    have "to_lower CHR ''A'' = CHR ''a''" "to_lower CHR ''a'' = CHR ''a''" by code_simp+
    then show ?thesis by (simp add: strcase_eq_def numeral_2_eq_2)
  qed
  obtain t m where t: "str_pairs_remove_duplicates ?t 2 = Inr (t, m)" "m \<le> 2" "length t = 2"
    "take m t = keep_first (take 2 ?t)"
    using remove_duplicates_keeps_first [of 2 ?t] by auto
  then have "length (take m t) = 1" using k by simp
  then have "m = 1" using t(2,3) by simp
  with t k show ?thesis by auto
qed

text \<open>
  \<open>parse_cmdline\<close> reads back any list of pairs written as \<open>-name value\<close> arguments, as long
  as names and values fit their buffers and the table has room, and leaves the rest of the table
  as it was.
\<close>

theorem parse_cmdline_roundtrip:
  assumes "length ps \<le> mx" "mx \<le> length table" "\<forall>p \<in> set ps. fits_buffers p"
  shows "\<exists>t. parse_cmdline table mx (prog # spell ps) = Inr (t, length ps) \<and> take (length ps) t = ps \<and>
    (\<forall>k. length ps \<le> k \<longrightarrow> k < length table \<longrightarrow> t ! k = table ! k)"
  using parse_args_ok [of 0 ps mx table prog] assms by (auto simp: parse_cmdline_def)

theorem parse_cmdline_roundtrip_witness:
  "\<exists>t. parse_cmdline (replicate 3 \<lparr>pair_name = [], pair_value = []\<rparr>) 3 [''hotspot'', ''-c'', ''hotspot.config''] =
      Inr (t, 1) \<and> take 1 t = [\<lparr>pair_name = ''c'', pair_value = ''hotspot.config''\<rparr>]"
  using parse_cmdline_roundtrip [of "[\<lparr>pair_name = ''c'', pair_value = ''hotspot.config''\<rparr>]" 3
      "replicate 3 \<lparr>pair_name = [], pair_value = []\<rparr>" "''hotspot''"]
  by (auto simp: spell_def fits_buffers_def STR_SIZE_def)

end
