(* ===== verification/Scan.thy ===== *)
theory Scan
  imports Util_Strings
begin

text \<open>
  What the tool uses of \<open>sscanf\<close>: the conversions \<open>%d\<close>, \<open>%lf\<close> and \<open>%s\<close>. Each skips white
  space and returns the value and the rest of the input, or nothing when the conversion fails.
  \<open>%lf\<close> reads decimal notation (sign, digits, point, digits, exponent) as an exact real number;
  the hexadecimal notation, infinities and NaNs of \<open>strtod\<close> are not modelled and do not convert.
\<close>

definition is_space :: "char \<Rightarrow> bool" where
  "is_space c = (let n = of_char c :: nat in n = 32 \<or> (9 \<le> n \<and> n \<le> 13))"

definition is_digit :: "char \<Rightarrow> bool" where
  "is_digit c = (let n = of_char c :: nat in 48 \<le> n \<and> n \<le> 57)"

definition digit_val :: "char \<Rightarrow> nat" where
  "digit_val c = of_char c - 48"

definition digits_val :: "string \<Rightarrow> nat" where
  "digits_val ds = fold (\<lambda>c n. 10 * n + digit_val c) ds 0"

definition skip_space :: "string \<Rightarrow> string" where
  "skip_space s = dropWhile is_space s"

definition scan_sign :: "string \<Rightarrow> bool \<times> string" where
  "scan_sign s = (if take 1 s = ''-'' then (True, drop 1 s)
     else if take 1 s = ''+'' then (False, drop 1 s) else (False, s))"

definition scan_int :: "string \<Rightarrow> (int \<times> string) option" where
  "scan_int s = (case scan_sign (skip_space s) of (neg, s) \<Rightarrow>
     let ds = takeWhile is_digit s in
     if ds = [] then None
     else Some ((if neg then - int (digits_val ds) else int (digits_val ds)), dropWhile is_digit s))"

text \<open>The exponent part, taken only when digits follow.\<close>

definition scan_exponent :: "string \<Rightarrow> int \<times> string" where
  "scan_exponent s = (if take 1 s = ''e'' \<or> take 1 s = ''E'' then
       (case scan_sign (drop 1 s) of (neg, t) \<Rightarrow>
        let ds = takeWhile is_digit t in
        if ds = [] then (0, s)
        else ((if neg then - int (digits_val ds) else int (digits_val ds)), dropWhile is_digit t))
     else (0, s))"

definition scan_double :: "string \<Rightarrow> (real \<times> string) option" where
  "scan_double s = (case scan_sign (skip_space s) of (neg, s) \<Rightarrow>
     let ip = takeWhile is_digit s; s1 = dropWhile is_digit s;
         fp = (if take 1 s1 = ''.'' then takeWhile is_digit (drop 1 s1) else []);
         s2 = (if take 1 s1 = ''.'' then dropWhile is_digit (drop 1 s1) else s1) in
     if ip = [] \<and> fp = [] then None
     else (case scan_exponent s2 of (e, s3) \<Rightarrow>
       let m = real (digits_val ip) + real (digits_val fp) / 10 ^ length fp;
           v = m * 10 powi e in
       Some ((if neg then - v else v), s3)))"

definition scan_word :: "string \<Rightarrow> (string \<times> string) option" where
  "scan_word s = (let t = skip_space s; w = takeWhile (\<lambda>c. \<not> is_space c) t in
     if w = [] then None else Some (w, dropWhile (\<lambda>c. \<not> is_space c) t))"

section \<open>Printing and scanning integers\<close>

text \<open>\<open>%d\<close> of \<open>sprintf\<close>.\<close>

definition digit_char :: "nat \<Rightarrow> char" where
  "digit_char n = char_of (48 + n)"

function print_nat :: "nat \<Rightarrow> string" where
  "print_nat n = (if n < 10 then [digit_char n] else print_nat (n div 10) @ [digit_char (n mod 10)])"
  by pat_completeness auto
termination by (relation "measure id") auto

declare print_nat.simps [simp del]

definition print_int :: "int \<Rightarrow> string" where
  "print_int z = (if z < 0 then ''-'' @ print_nat (nat (- z)) else print_nat (nat z))"

lemma digit_char_ok:
  assumes "n < 10"
  shows "is_digit (digit_char n)" "digit_val (digit_char n) = n" "\<not> is_space (digit_char n)"
    "digit_char n \<noteq> CHR ''-''" "digit_char n \<noteq> CHR ''+''"
proof -
  have v: "of_char (digit_char n) = 48 + n" using assms by (simp add: digit_char_def)
  show "is_digit (digit_char n)" "digit_val (digit_char n) = n" "\<not> is_space (digit_char n)"
    using v assms by (auto simp: is_digit_def digit_val_def is_space_def Let_def)
  have "of_char CHR ''-'' = (45::nat)" "of_char CHR ''+'' = (43::nat)" by code_simp+
  then show "digit_char n \<noteq> CHR ''-''" "digit_char n \<noteq> CHR ''+''" using v by fastforce+
qed

lemma print_nat_digits: "list_all is_digit (print_nat n) \<and> print_nat n \<noteq> [] \<and> digits_val (print_nat n) = n"
proof (induction n rule: print_nat.induct)
  case (1 n)
  show ?case
  proof (cases "n < 10")
    case True
    then show ?thesis
      using digit_char_ok(1,2) [OF True] by (subst (1 2 3) print_nat.simps) (simp add: digits_val_def)
  next
    case False
    have m: "n mod 10 < 10" by simp
    show ?thesis
      using 1 [OF False] digit_char_ok(1,2) [OF m] False
      by (subst (1 2 3) print_nat.simps) (simp add: digits_val_def)
  qed
qed

lemma print_nat_head: "hd (print_nat n) \<noteq> CHR ''-'' \<and> hd (print_nat n) \<noteq> CHR ''+'' \<and> \<not> is_space (hd (print_nat n))"
proof (induction n rule: print_nat.induct)
  case (1 n)
  show ?case
  proof (cases "n < 10")
    case True
    then show ?thesis using digit_char_ok(3-5) [OF True] by (subst (1 2 3) print_nat.simps) simp
  next
    case False
    have "print_nat (n div 10) \<noteq> []" using print_nat_digits by blast
    then show ?thesis using 1 [OF False] False by (subst (1 2 3) print_nat.simps) simp
  qed
qed

lemma scan_digits:
  assumes "list_all is_digit ds" "t = [] \<or> \<not> is_digit (hd t)"
  shows "takeWhile is_digit (ds @ t) = ds" "dropWhile is_digit (ds @ t) = t"
proof -
  have "\<forall>c \<in> set ds. is_digit c" using assms(1) by (simp add: list_all_iff)
  moreover have "takeWhile is_digit t = [] \<and> dropWhile is_digit t = t" using assms(2) by (cases t) auto
  ultimately show "takeWhile is_digit (ds @ t) = ds" "dropWhile is_digit (ds @ t) = t" by simp_all
qed

text \<open>What is printed is read back.\<close>

lemma scan_print_int:
  assumes "t = [] \<or> \<not> is_digit (hd t)"
  shows "scan_int (print_int z @ t) = Some (z, t)"
proof -
  let ?n = "print_nat (nat \<bar>z\<bar>)"
  have d: "list_all is_digit ?n" "?n \<noteq> []" "digits_val ?n = nat \<bar>z\<bar>" using print_nat_digits by auto
  have h: "hd ?n \<noteq> CHR ''-''" "hd ?n \<noteq> CHR ''+''" "\<not> is_space (hd ?n)" using print_nat_head by auto
  obtain c cs where c: "?n = c # cs" using d(2) by (cases ?n) auto
  have hm: "\<not> is_space CHR ''-''" by code_simp
  note sd = scan_digits [OF d(1) assms]
  show ?thesis
  proof (cases "z < 0")
    case True
    then have "scan_sign (skip_space (print_int z @ t)) = (True, ?n @ t)"
      using hm by (simp add: print_int_def skip_space_def scan_sign_def)
    with True d sd show ?thesis by (simp add: scan_int_def Let_def)
  next
    case False
    then have "scan_sign (skip_space (print_int z @ t)) = (False, ?n @ t)"
      using h c by (simp add: print_int_def skip_space_def scan_sign_def)
    with False d sd show ?thesis by (simp add: scan_int_def Let_def)
  qed
qed

end
