(* ===== verification/Flp.thy ===== *)
theory Flp
  imports Flp_Types Scan
begin

text \<open>
  The geometry of placed floorplans, \<open>hotspot_tool/flp.c\<close>: allocation, lookup of a block by
  name, adjacency and shared edges, extents and areas, wire lengths, and the rigid motions and
  scalings of a whole floorplan.
\<close>

section \<open>Allocation and lookup\<close>

definition flp_alloc_init_mem :: "nat \<Rightarrow> flp_t" where
  "flp_alloc_init_mem n =
     \<lparr>units = replicate n unit_zero, n_units = n, wire_density = replicate n (replicate n 0)\<rparr>"

function find_blk :: "flp_t \<Rightarrow> string \<Rightarrow> nat \<Rightarrow> int res" where
  "find_blk flp nm i =
     (if i < n_units flp then rbind (rd (units flp) i) (\<lambda>u.
        if strcase_eq nm (unit_name u) then Inr (int i) else find_blk flp nm (Suc i))
      else Inl (Fatal (''block '' @ nm @ '' not found'')))"
  by pat_completeness auto
termination
  by (relation "measure (\<lambda>(flp, nm, i). n_units flp - i)") auto

declare find_blk.simps [simp del]

definition get_blk_index :: "flp_t option \<Rightarrow> string \<Rightarrow> int res" where
  "get_blk_index flp nm = (case flp of
     None \<Rightarrow> Inl (Fatal ''null pointer in get_blk_index'')
   | Some f \<Rightarrow> find_blk f nm 0)"

section \<open>Adjacency\<close>

text \<open>The four sides of a block.\<close>

abbreviation rightx :: "unit_t \<Rightarrow> real" where "rightx u \<equiv> leftx u + width u"
abbreviation topy :: "unit_t \<Rightarrow> real" where "topy u \<equiv> bottomy u + height u"

text \<open>Blocks that touch in a corner only.\<close>

definition diagonal :: "unit_t \<Rightarrow> unit_t \<Rightarrow> bool" where
  "diagonal u v \<longleftrightarrow>
     eq (rightx u) (leftx v) \<and> eq (topy u) (bottomy v) \<or>
     eq (leftx u) (rightx v) \<and> eq (bottomy u) (topy v) \<or>
     eq (rightx u) (leftx v) \<and> eq (bottomy u) (topy v) \<or>
     eq (leftx u) (rightx v) \<and> eq (topy u) (bottomy v)"

definition horiz_adj :: "unit_t \<Rightarrow> unit_t \<Rightarrow> bool" where
  "horiz_adj u v = (let y1 = bottomy u; y2 = topy u; y3 = bottomy v; y4 = topy v in
     if diagonal u v then False
     else if eq (leftx u) (rightx v) \<or> eq (rightx u) (leftx v) then
       (y3 \<ge> y1 \<and> y3 \<le> y2) \<or> (y4 \<ge> y1 \<and> y4 \<le> y2) \<or> (y1 \<ge> y3 \<and> y1 \<le> y4) \<or> (y2 \<ge> y3 \<and> y2 \<le> y4)
     else False)"

definition vert_adj :: "unit_t \<Rightarrow> unit_t \<Rightarrow> bool" where
  "vert_adj u v = (let x1 = leftx u; x2 = rightx u; x3 = leftx v; x4 = rightx v in
     if diagonal u v then False
     else if eq (bottomy u) (topy v) \<or> eq (topy u) (bottomy v) then
       (x3 \<ge> x1 \<and> x3 \<le> x2) \<or> (x4 \<ge> x1 \<and> x4 \<le> x2) \<or> (x1 \<ge> x3 \<and> x1 \<le> x4) \<or> (x2 \<ge> x3 \<and> x2 \<le> x4)
     else False)"

definition is_horiz_adj :: "flp_t \<Rightarrow> nat \<Rightarrow> nat \<Rightarrow> bool res" where
  "is_horiz_adj flp i j = (if i = j then Inr False else
     rbind (rd (units flp) i) (\<lambda>u. rbind (rd (units flp) j) (\<lambda>v. Inr (horiz_adj u v))))"

definition is_vert_adj :: "flp_t \<Rightarrow> nat \<Rightarrow> nat \<Rightarrow> bool res" where
  "is_vert_adj flp i j = (if i = j then Inr False else
     rbind (rd (units flp) i) (\<lambda>u. rbind (rd (units flp) j) (\<lambda>v. Inr (vert_adj u v))))"

definition get_shared_len :: "flp_t \<Rightarrow> nat \<Rightarrow> nat \<Rightarrow> real res" where
  "get_shared_len flp i j = (if i = j then Inr 0 else
     rbind (rd (units flp) i) (\<lambda>u. rbind (rd (units flp) j) (\<lambda>v.
     rbind (is_horiz_adj flp i j) (\<lambda>h. rbind (is_vert_adj flp i j) (\<lambda>w.
       let p = (if h then (bottomy u, topy u, bottomy v, topy v) else (0, 0, 0, 0));
           (p11, p12, p21, p22) = (if w then (leftx u, rightx u, leftx v, rightx v) else p)
       in Inr (MINd p12 p22 - MAXd p11 p21))))))"

section \<open>Extents\<close>

text \<open>The loops of \<open>get_total_width\<close>, \<open>get_total_height\<close>, \<open>get_minx\<close> and \<open>get_miny\<close>.\<close>

definition get_total_width :: "flp_t \<Rightarrow> real res" where
  "get_total_width flp = rbind (rd (units flp) 0) (\<lambda>u.
     rbind (for_up 1 (n_units flp) (\<lambda>i (mn, mx). rbind (rd (units flp) i) (\<lambda>u.
        Inr (if leftx u < mn then leftx u else mn, if rightx u > mx then rightx u else mx)))
       (leftx u, rightx u))
     (\<lambda>(mn, mx). Inr (mx - mn)))"

definition get_total_height :: "flp_t \<Rightarrow> real res" where
  "get_total_height flp = rbind (rd (units flp) 0) (\<lambda>u.
     rbind (for_up 1 (n_units flp) (\<lambda>i (mn, mx). rbind (rd (units flp) i) (\<lambda>u.
        Inr (if bottomy u < mn then bottomy u else mn, if topy u > mx then topy u else mx)))
       (bottomy u, topy u))
     (\<lambda>(mn, mx). Inr (mx - mn)))"

definition get_minx :: "flp_t \<Rightarrow> real res" where
  "get_minx flp = rbind (rd (units flp) 0) (\<lambda>u.
     for_up 1 (n_units flp) (\<lambda>i mn. rbind (rd (units flp) i) (\<lambda>u.
       Inr (if leftx u < mn then leftx u else mn))) (leftx u))"

definition get_miny :: "flp_t \<Rightarrow> real res" where
  "get_miny flp = rbind (rd (units flp) 0) (\<lambda>u.
     for_up 1 (n_units flp) (\<lambda>i mn. rbind (rd (units flp) i) (\<lambda>u.
       Inr (if bottomy u < mn then bottomy u else mn))) (bottomy u))"

text \<open>\<open>strstr(name, s) == name\<close>: the name starts with \<open>s\<close>.\<close>

definition starts_with :: "string \<Rightarrow> string \<Rightarrow> bool" where
  "starts_with nm s = (take (length s) nm = s)"

text \<open>The core is the part of the chip without the L2 and the rim.\<close>

definition in_core :: "string \<Rightarrow> unit_t \<Rightarrow> bool" where
  "in_core l2 u = (\<not> starts_with (unit_name u) l2 \<and> \<not> starts_with (unit_name u) RIM_PREFIX)"

definition get_core_width :: "flp_t \<Rightarrow> string \<Rightarrow> real res" where
  "get_core_width flp l2 =
     rbind (for_up 0 (n_units flp) (\<lambda>i (mn, mx). rbind (rd (units flp) i) (\<lambda>u.
        Inr (if in_core l2 u
             then (if leftx u < mn then leftx u else mn, if rightx u > mx then rightx u else mx)
             else (mn, mx)))) (LARGENUM, - LARGENUM))
     (\<lambda>(mn, mx). Inr (mx - mn))"

definition get_core_height :: "flp_t \<Rightarrow> string \<Rightarrow> real res" where
  "get_core_height flp l2 =
     rbind (for_up 0 (n_units flp) (\<lambda>i (mn, mx). rbind (rd (units flp) i) (\<lambda>u.
        Inr (if in_core l2 u
             then (if bottomy u < mn then bottomy u else mn, if topy u > mx then topy u else mx)
             else (mn, mx)))) (LARGENUM, - LARGENUM))
     (\<lambda>(mn, mx). Inr (mx - mn))"

section \<open>Areas\<close>

definition get_total_area :: "flp_t \<Rightarrow> real res" where
  "get_total_area flp = for_up 0 (n_units flp) (\<lambda>i ar. rbind (rd (units flp) i) (\<lambda>u.
     Inr (ar + width u * height u))) 0"

definition get_core_area :: "flp_t \<Rightarrow> string \<Rightarrow> real res" where
  "get_core_area flp l2 = for_up 0 (n_units flp) (\<lambda>i ar. rbind (rd (units flp) i) (\<lambda>u.
     Inr (if in_core l2 u then ar + width u * height u else ar))) 0"

text \<open>A dead block is named \<open>_<num>\<close> with \<open>num\<close> below the largest possible number of cuts.\<close>

definition is_dead :: "nat \<Rightarrow> unit_t \<Rightarrow> bool" where
  "is_dead n u = (take 1 (unit_name u) = DEAD_PREFIX \<and>
     (case scan_int (drop 1 (unit_name u)) of None \<Rightarrow> False
      | Some (num, _) \<Rightarrow> num < c_div (int n - 1) 2))"

definition get_core_occupied_area :: "flp_t \<Rightarrow> string \<Rightarrow> real res" where
  "get_core_occupied_area flp l2 =
     rbind (for_up 0 (n_units flp) (\<lambda>i ar. rbind (rd (units flp) i) (\<lambda>u.
       Inr (if is_dead (n_units flp) u then ar + width u * height u else ar))) 0) (\<lambda>dead_area.
     rbind (get_core_area flp l2) (\<lambda>ar. Inr (ar - dead_area)))"

section \<open>Wires\<close>

definition centre_dist :: "unit_t \<Rightarrow> unit_t \<Rightarrow> real" where
  "centre_dist u v =
     (let x1 = leftx u + width u / 2; y1 = bottomy u + height u / 2;
          x2 = leftx v + width v / 2; y2 = bottomy v + height v / 2 in
      \<bar>x2 - x1\<bar> + \<bar>y2 - y1\<bar>)"

definition get_manhattan_dist :: "flp_t \<Rightarrow> nat \<Rightarrow> nat \<Rightarrow> real res" where
  "get_manhattan_dist flp i j = rbind (rd (units flp) i) (\<lambda>u. rbind (rd (units flp) j) (\<lambda>v.
     Inr (centre_dist u v)))"

definition get_wire_metric :: "flp_t \<Rightarrow> real res" where
  "get_wire_metric flp =
     for_up 0 (n_units flp) (\<lambda>i w. for_up 0 (n_units flp) (\<lambda>j w.
       rbind (rd2 (wire_density flp) i j) (\<lambda>d.
       if d \<noteq> 0 then rbind (get_manhattan_dist flp i j) (\<lambda>dist. Inr (w + d * dist)) else Inr w)) w) 0"

section \<open>Motions and scaling\<close>

text \<open>The least left and bottom coordinates, as \<open>flp_translate\<close> and \<open>flp_scale\<close> find them.\<close>

definition min_corner :: "flp_t \<Rightarrow> (real \<times> real) res" where
  "min_corner flp = rbind (rd (units flp) 0) (\<lambda>u.
     for_up 1 (n_units flp) (\<lambda>i (mx, my). rbind (rd (units flp) i) (\<lambda>u.
       Inr (if mx > leftx u then leftx u else mx, if my > bottomy u then bottomy u else my)))
     (leftx u, bottomy u))"

definition flp_translate :: "flp_t \<Rightarrow> real \<Rightarrow> real \<Rightarrow> flp_t res" where
  "flp_translate flp x y = rbind (min_corner flp) (\<lambda>(minx, miny).
     for_up 0 (n_units flp) (\<lambda>i. upd_unit i (\<lambda>u.
       u\<lparr>leftx := leftx u + (x - minx), bottomy := bottomy u + (y - miny)\<rparr>)) flp)"

definition flp_scale :: "flp_t \<Rightarrow> real \<Rightarrow> flp_t res" where
  "flp_scale flp factor = rbind (min_corner flp) (\<lambda>(minx, miny).
     for_up 0 (n_units flp) (\<lambda>i. upd_unit i (\<lambda>u.
       u\<lparr>leftx := (leftx u - minx) * factor + minx, bottomy := (bottomy u - miny) * factor + miny,
         width := width u * factor, height := height u * factor\<rparr>)) flp)"

text \<open>The flags of the eight orientations.\<close>

type_synonym orient_t = "8 word"

definition ROT_0 :: orient_t where "ROT_0 = 0x01"
definition ROT_90 :: orient_t where "ROT_90 = 0x02"
definition ROT_180 :: orient_t where "ROT_180 = 0x04"
definition ROT_270 :: orient_t where "ROT_270 = 0x08"
definition FLIP_0 :: orient_t where "FLIP_0 = 0x10"
definition FLIP_90 :: orient_t where "FLIP_90 = 0x20"
definition FLIP_180 :: orient_t where "FLIP_180 = 0x40"
definition FLIP_270 :: orient_t where "FLIP_270 = 0x80"
definition ORIENT_NDEF :: orient_t where "ORIENT_NDEF = 0xDF"

text \<open>One block, with the centre \<open>(cx, cy)\<close> of the floorplan as origin during the change.\<close>

definition orient_unit :: "real \<Rightarrow> real \<Rightarrow> orient_t \<Rightarrow> unit_t \<Rightarrow> unit_t res" where
  "orient_unit cx cy target u =
     (let lx = leftx u - cx; b = bottomy u - cy; rx = lx + width u; ty = b + height u;
          keep = (\<lambda>l b. Inr (u\<lparr>leftx := l + cx, bottomy := b + cy\<rparr>));
          swap = (\<lambda>l b. Inr (u\<lparr>width := height u, height := width u, leftx := l + cx, bottomy := b + cy\<rparr>))
      in if target = ROT_0 then keep lx b
         else if target = ROT_90 then swap (- ty) lx
         else if target = ROT_180 then keep (- rx) (- ty)
         else if target = ROT_270 then swap b (- rx)
         else if target = FLIP_0 then keep (- rx) b
         else if target = FLIP_90 then swap b lx
         else if target = FLIP_180 then keep lx (- ty)
         else if target = FLIP_270 then swap (- ty) (- rx)
         else Inl (Fatal ''unknown orientation''))"

definition flp_change_orient :: "flp_t \<Rightarrow> real \<Rightarrow> real \<Rightarrow> real \<Rightarrow> real \<Rightarrow> orient_t \<Rightarrow> flp_t res" where
  "flp_change_orient flp xorig yorig w h target =
     for_up 0 (n_units flp) (\<lambda>i flp. rbind (rd (units flp) i) (\<lambda>u.
       rbind (orient_unit (xorig + w / 2) (yorig + h / 2) target u) (\<lambda>v.
       upd_unit i (\<lambda>_. v) flp))) flp"

end
