(* ===== verification/Flp_Place.thy ===== *)
theory Flp_Place
  imports Flp
begin

text \<open>
  The floorplans that annealing works on, \<open>hotspot_tool/flp.c\<close>: the placeholder made from the
  input description, the L2 cache wrapped around the core, the rim strips around the chip, and
  the restoration of the blocks that sizing compacted away.
\<close>

section \<open>L2 connectivity and the placeholder\<close>

definition set_name :: "nat \<Rightarrow> string \<Rightarrow> flp_t \<Rightarrow> flp_t res" where
  "set_name i s = upd_unit i (\<lambda>u. u\<lparr>unit_name := s\<rparr>)"

definition append_name :: "nat \<Rightarrow> string \<Rightarrow> flp_t \<Rightarrow> flp_t res" where
  "append_name i s = upd_unit i (\<lambda>u. u\<lparr>unit_name := unit_name u @ s\<rparr>)"

definition set_wire :: "nat \<Rightarrow> nat \<Rightarrow> real \<Rightarrow> flp_t \<Rightarrow> flp_t res" where
  "set_wire i j d flp = rbind (wr2 (wire_density flp) i j d) (\<lambda>w. Inr (flp\<lparr>wire_density := w\<rparr>))"

definition copy_l2_info :: "flp_t \<Rightarrow> nat \<Rightarrow> flp_desc_t \<Rightarrow> nat \<Rightarrow> nat \<Rightarrow> flp_t res" where
  "copy_l2_info flp to_i desc from_i sz =
     rbind (for_up 0 (L2_ARMS + 1) (\<lambda>k flp.
       rbind (rd (desc_units desc) from_i) (\<lambda>u.
       rbind (set_name (to_i + k) (up_name u) flp) (\<lambda>flp.
       for_up 0 sz (\<lambda>j flp.
         rbind (rd2 (desc_wire_density desc) from_i j) (\<lambda>d.
         rbind (set_wire (to_i + k) j d flp) (\<lambda>flp.
         rbind (rd2 (desc_wire_density desc) j from_i) (\<lambda>d.
         set_wire j (to_i + k) d flp)))) flp))) flp) (\<lambda>flp.
     let to_i = to_i + L2_ARMS + 1 in
     rbind (append_name (to_i - L2_ARMS + L2_LEFT) L2_LEFT_STR flp) (\<lambda>flp.
     append_name (to_i - L2_ARMS + L2_RIGHT) L2_RIGHT_STR flp))"

text \<open>Is the last block of the description an L2 to be wrapped around?\<close>

definition wraps_l2 :: "flp_desc_t \<Rightarrow> bool res" where
  "wraps_l2 desc = (if wrap_l2 (desc_config desc) then
       rbind (nat_of (int (desc_n_units desc) - 1)) (\<lambda>k. rbind (rd (desc_units desc) k) (\<lambda>u.
       Inr (strcase_eq (up_name u) (l2_label (desc_config desc)))))
     else Inr False)"

definition flp_placeholder :: "flp_desc_t \<Rightarrow> flp_t res" where
  "flp_placeholder desc =
     rbind (wraps_l2 desc) (\<lambda>wrap.
     let n = desc_n_units desc in
     rbind (nat_of (int n - (if wrap then 1 else 0))) (\<lambda>n_core.
     rbind (nat_of (int n_core - 1)) (\<lambda>n_dead.
     let total0 = n + n_dead + (if wrap then L2_ARMS else 0);
         total1 = (if model_rim (desc_config desc) then total0 + (2 * total0 + 2) else total0);
         flp = flp_alloc_init_mem total1 in
     rbind (for_up 0 n_core (\<lambda>i flp.
       rbind (rd (desc_units desc) i) (\<lambda>u.
       rbind (set_name i (up_name u) flp) (\<lambda>flp.
       for_up 0 n_core (\<lambda>j flp.
         rbind (rd2 (desc_wire_density desc) i j) (\<lambda>d. set_wire i j d flp)) flp))) flp) (\<lambda>flp.
     rbind (for_up 0 n_dead (\<lambda>k flp. set_name (n_core + k) (DEAD_PREFIX @ print_nat k) flp) flp) (\<lambda>flp.
     if wrap then copy_l2_info flp (n_core + n_dead) desc n_core n_core else Inr flp)))))"

section \<open>Restoring compacted blocks\<close>

definition reset_dead :: "nat \<Rightarrow> nat \<Rightarrow> flp_t \<Rightarrow> flp_t res" where
  "reset_dead idx i flp =
     rbind (upd_unit idx (\<lambda>u. u\<lparr>unit_name := DEAD_PREFIX @ print_nat i, leftx := 0, bottomy := 0,
       width := 0, height := 0\<rparr>) flp) (\<lambda>flp.
     for_up 0 (n_units flp) (\<lambda>j flp.
       rbind (set_wire j idx 0 flp) (\<lambda>flp. set_wire idx j 0 flp)) flp)"

definition restore_dead_blocks :: "flp_t \<Rightarrow> flp_desc_t \<Rightarrow> int \<Rightarrow> bool \<Rightarrow> bool \<Rightarrow> nat \<Rightarrow> flp_t res" where
  "restore_dead_blocks flp desc compacted wrap rim rim_blocks =
     rbind (nat_of (int (n_units flp) - (if rim then int rim_blocks else 0)
        - (if wrap then int L2_ARMS + 1 else 0) + compacted)) (\<lambda>n.
     for_up 0 (desc_n_units desc - 1) (\<lambda>i flp. reset_dead (desc_n_units desc + i) i flp) (flp\<lparr>n_units := n\<rparr>))"

section \<open>Wrapping the L2\<close>

text \<open>
  The width \<open>x\<close> of the arms, the height \<open>y\<close> of the bottom strip and the width of the chip, for
  a core of the given area, width and height.
\<close>

definition l2_dimensions :: "real \<Rightarrow> real \<Rightarrow> real \<Rightarrow> real \<Rightarrow> (real \<times> real \<times> real) res" where
  "l2_dimensions core_area core_width core_height l2_area =
     rbind (fsqrt (core_area + l2_area)) (\<lambda>total_side.
     let x = (total_side - core_width) / 2; y = total_side - core_height in
     if x \<le> 0 \<or> y \<le> 0 then
       rbind (if core_width \<ge> core_height then
           let s = WRAP_L2_RATIO * core_width + 2 * core_height in
           rbind (fsqrt (s * s + 8 * WRAP_L2_RATIO * l2_area)) (\<lambda>q.
           let x = (q - s) / (4 * WRAP_L2_RATIO) in Inr (x, WRAP_L2_RATIO * x))
         else
           let s = core_width + 2 * WRAP_L2_RATIO * core_height in
           rbind (fsqrt (s * s + 8 * WRAP_L2_RATIO * l2_area)) (\<lambda>q.
           let y = (q - s) / (4 * WRAP_L2_RATIO) in Inr (WRAP_L2_RATIO * y, y)))
       (\<lambda>(x, y). Inr (x, y, 2 * x + core_width))
     else Inr (x, y, total_side))"

definition place_unit :: "nat \<Rightarrow> real \<Rightarrow> real \<Rightarrow> real \<Rightarrow> real \<Rightarrow> flp_t \<Rightarrow> flp_t res" where
  "place_unit i w h l b = upd_unit i (\<lambda>u. u\<lparr>width := w, height := h, leftx := l, bottomy := b\<rparr>)"

definition flp_wrap_l2 :: "flp_t \<Rightarrow> flp_desc_t \<Rightarrow> flp_t res" where
  "flp_wrap_l2 flp desc =
     rbind (get_total_area flp) (\<lambda>core_area.
     rbind (get_total_width flp) (\<lambda>core_width.
     rbind (get_total_height flp) (\<lambda>core_height.
     rbind (rd (desc_units desc) (desc_n_units desc)) (\<lambda>l2u.
     rbind (l2_dimensions core_area core_width core_height (unit_area l2u)) (\<lambda>(x, y, total_side).
     rbind (flp_translate flp x y) (\<lambda>flp.
     let flp = flp\<lparr>n_units := n_units flp + (L2_ARMS + 1)\<rparr> in
     rbind (copy_l2_info flp (n_units flp - L2_ARMS - 1) desc (desc_n_units desc) (desc_n_units desc)) (\<lambda>flp.
     rbind (place_unit (n_units flp - 1 - L2_ARMS) total_side y 0 0 flp) (\<lambda>flp.
     rbind (place_unit (n_units flp - L2_ARMS + L2_LEFT) x core_height 0 y flp) (\<lambda>flp.
     place_unit (n_units flp - L2_ARMS + L2_RIGHT) x core_height (x + core_width) y flp)))))))))"

section \<open>Wrapping the rim\<close>

text \<open>The four rim blocks a block can get, with the extension at the corners.\<close>

definition rim_west :: "real \<Rightarrow> real \<Rightarrow> unit_t \<Rightarrow> unit_t \<Rightarrow> unit_t" where
  "rim_west rt H u v = v\<lparr>unit_name := RIM_LEFT_STR @ ''_'' @ unit_name u, width := rt,
     height := (if eq (topy u) (H - rt) then height u + rt else height u),
     leftx := 0, bottomy := bottomy u\<rparr>"

definition rim_east :: "real \<Rightarrow> unit_t \<Rightarrow> unit_t \<Rightarrow> unit_t" where
  "rim_east rt u v = v\<lparr>unit_name := RIM_RIGHT_STR @ ''_'' @ unit_name u, width := rt,
     height := (if eq (bottomy u) rt then height u + rt else height u),
     leftx := rightx u, bottomy := (if eq (bottomy u) rt then 0 else bottomy u)\<rparr>"

definition rim_north :: "real \<Rightarrow> real \<Rightarrow> unit_t \<Rightarrow> unit_t \<Rightarrow> unit_t" where
  "rim_north rt W u v = v\<lparr>unit_name := RIM_TOP_STR @ ''_'' @ unit_name u,
     width := (if eq (rightx u) (W - rt) then width u + rt else width u), height := rt,
     leftx := leftx u, bottomy := topy u\<rparr>"

definition rim_south :: "real \<Rightarrow> unit_t \<Rightarrow> unit_t \<Rightarrow> unit_t" where
  "rim_south rt u v = v\<lparr>unit_name := RIM_BOTTOM_STR @ ''_'' @ unit_name u,
     width := (if eq (leftx u) rt then width u + rt else width u), height := rt,
     leftx := (if eq (leftx u) rt then 0 else leftx u), bottomy := 0\<rparr>"

text \<open>One block of the loop; the state is the floorplan and the number \<open>j\<close> of rim blocks.\<close>

definition add_rim :: "bool \<Rightarrow> nat \<Rightarrow> (unit_t \<Rightarrow> unit_t) \<Rightarrow> flp_t \<times> nat \<Rightarrow> (flp_t \<times> nat) res" where
  "add_rim c n f st = (case st of (flp, j) \<Rightarrow>
     if c then rbind (upd_unit (n + j) f flp) (\<lambda>flp. Inr (flp, j + 1)) else Inr (flp, j))"

definition rim_step :: "real \<Rightarrow> real \<Rightarrow> real \<Rightarrow> nat \<Rightarrow> nat \<Rightarrow> flp_t \<times> nat \<Rightarrow> (flp_t \<times> nat) res" where
  "rim_step rt W H n i st =
     rbind (rd (units (fst st)) i) (\<lambda>u.
     rbind (add_rim (eq (leftx u) rt) n (rim_west rt H u) st) (\<lambda>st.
     rbind (add_rim (eq (rightx u) (W - rt)) n (rim_east rt u) st) (\<lambda>st.
     rbind (add_rim (eq (topy u) (H - rt)) n (rim_north rt W u) st) (\<lambda>st.
     add_rim (eq (bottomy u) rt) n (rim_south rt u) st))))"

definition flp_wrap_rim :: "flp_t \<Rightarrow> real \<Rightarrow> (nat \<times> flp_t) res" where
  "flp_wrap_rim flp rt =
     (let n = n_units flp in
      rbind (get_total_width flp) (\<lambda>w. rbind (get_total_height flp) (\<lambda>h.
      let W = w + 2 * rt; H = h + 2 * rt in
      rbind (flp_translate flp rt rt) (\<lambda>flp.
      rbind (for_up 0 n (rim_step rt W H n) (flp, 0)) (\<lambda>(flp, j).
      let flp = flp\<lparr>n_units := n_units flp + j\<rparr> in
      rbind (for_up n (n + j) (\<lambda>i flp. for_up 0 (i + 1) (\<lambda>k flp.
        rbind (set_wire k i 0 flp) (\<lambda>flp. set_wire i k 0 flp)) flp) flp) (\<lambda>flp.
      Inr (j, flp)))))))"

end
