(* ===== verification/Flp_Geom.thy ===== *)
theory Flp_Geom
  imports Flp_Place
begin

text \<open>
  When the placed units of a floorplan tile a rectangle: each lies inside it, no two overlap,
  and their areas add up to the area of the rectangle. Two tilings side by side or one above
  the other make a tiling.

  What the geometric routines of \<open>flp.c\<close> compute: extents as minima and maxima over the placed
  blocks, adjacency and shared edges, and how translations, scalings and changes of orientation
  act on the blocks and on tilings.
\<close>

definition unit_apart :: "unit_t \<Rightarrow> unit_t \<Rightarrow> bool" where
  "unit_apart u v \<longleftrightarrow> leftx u + width u \<le> leftx v \<or> leftx v + width v \<le> leftx u \<or>
     bottomy u + height u \<le> bottomy v \<or> bottomy v + height v \<le> bottomy u"

definition unit_inside :: "unit_t \<Rightarrow> real \<Rightarrow> real \<Rightarrow> real \<Rightarrow> real \<Rightarrow> bool" where
  "unit_inside u l b w h \<longleftrightarrow> 0 \<le> width u \<and> 0 \<le> height u \<and> l \<le> leftx u \<and> b \<le> bottomy u \<and>
     leftx u + width u \<le> l + w \<and> bottomy u + height u \<le> b + h"

definition tiles :: "unit_t list \<Rightarrow> nat set \<Rightarrow> real \<Rightarrow> real \<Rightarrow> real \<Rightarrow> real \<Rightarrow> bool" where
  "tiles us S l b w h \<longleftrightarrow> finite S \<and> (\<forall>i \<in> S. unit_inside (us ! i) l b w h) \<and>
     (\<forall>i \<in> S. \<forall>j \<in> S. i \<noteq> j \<longrightarrow> unit_apart (us ! i) (us ! j)) \<and>
     (\<Sum>i \<in> S. width (us ! i) * height (us ! i)) = w * h"

lemma unit_apart_sym: "unit_apart u v = unit_apart v u"
  by (auto simp: unit_apart_def)

lemma tiles_cong:
  assumes "\<And>i. i \<in> S \<Longrightarrow> us ! i = vs ! i"
  shows "tiles us S l b w h = tiles vs S l b w h"
  using assms by (simp add: tiles_def cong: sum.cong)

lemma tiles_single:
  assumes "leftx (us ! i) = l" "bottomy (us ! i) = b" "width (us ! i) = w" "height (us ! i) = h"
    and "0 \<le> w" "0 \<le> h"
  shows "tiles us {i} l b w h"
  using assms by (simp add: tiles_def unit_inside_def)

lemma tiles_join:
  assumes S: "tiles us S l b w h" and T: "tiles us T l' b' w' h'" and dj: "S \<inter> T = {}"
    and inS: "\<And>u. unit_inside u l b w h \<Longrightarrow> unit_inside u L B W H"
    and inT: "\<And>u. unit_inside u l' b' w' h' \<Longrightarrow> unit_inside u L B W H"
    and ap: "\<And>u v. unit_inside u l b w h \<Longrightarrow> unit_inside v l' b' w' h' \<Longrightarrow> unit_apart u v"
    and ar: "W * H = w * h + w' * h'"
  shows "tiles us (S \<union> T) L B W H"
proof -
  have "unit_apart (us ! i) (us ! j)" if "i \<in> S \<union> T" "j \<in> S \<union> T" "i \<noteq> j" for i j
    using that S T ap unit_apart_sym unfolding tiles_def by (metis Un_iff)
  moreover have "(\<Sum>i \<in> S \<union> T. width (us ! i) * height (us ! i)) = W * H"
    using S T dj ar by (simp add: tiles_def sum.union_disjoint)
  ultimately show ?thesis using S T inS inT by (auto simp: tiles_def)
qed

lemma tiles_beside:
  assumes "tiles us S l b w h" "tiles us T (l + w) b w' h" "S \<inter> T = {}" "0 \<le> w" "0 \<le> w'"
  shows "tiles us (S \<union> T) l b (w + w') h"
  by (rule tiles_join [OF assms(1-3)])
    (use assms(4,5) in \<open>auto simp: unit_inside_def unit_apart_def algebra_simps\<close>)

lemma tiles_above:
  assumes "tiles us S l b w h" "tiles us T l (b + h) w h'" "S \<inter> T = {}" "0 \<le> h" "0 \<le> h'"
  shows "tiles us (S \<union> T) l b w (h + h')"
  by (rule tiles_join [OF assms(1-3)])
    (use assms(4,5) in \<open>auto simp: unit_inside_def unit_apart_def algebra_simps\<close>)

text \<open>
  Two columns of different heights and the gap over the lower one, and the same for two rows.
\<close>

lemma tiles_columns:
  assumes S: "tiles us S l b w h" and T: "tiles us T (l + w) b w' h'" and dj: "S \<inter> T = {}" "g \<notin> S" "g \<notin> T"
    and nn: "0 \<le> w" "0 \<le> w'" "0 \<le> h" "0 \<le> h'"
    and gap: "width (us ! g) = (if h \<le> h' then w else w')" "height (us ! g) = \<bar>h' - h\<bar>"
      "leftx (us ! g) = l + (if h \<le> h' then 0 else w)" "bottomy (us ! g) = b + min h h'"
  shows "tiles us (insert g (S \<union> T)) l b (w + w') (max h h')"
proof (cases "h \<le> h'")
  case True
  have "tiles us {g} l (b + h) w (h' - h)"
    by (rule tiles_single) (use gap True nn in auto)
  then have "tiles us (S \<union> {g}) l b w (h + (h' - h))"
    by (rule tiles_above [OF S]) (use dj True nn in auto)
  then have "tiles us ((S \<union> {g}) \<union> T) l b (w + w') h'"
    by (intro tiles_beside [OF _ T]) (use dj nn in auto)
  with True show ?thesis by (simp add: insert_commute)
next
  case False
  have "tiles us {g} (l + w) (b + h') w' (h - h')"
    by (rule tiles_single) (use gap False nn in auto)
  then have "tiles us (T \<union> {g}) (l + w) b w' (h' + (h - h'))"
    by (rule tiles_above [OF T]) (use dj False nn in auto)
  then have "tiles us (S \<union> (T \<union> {g})) l b (w + w') h"
    by (intro tiles_beside [OF S]) (use dj nn in auto)
  with False show ?thesis by simp
qed

lemma tiles_rows:
  assumes S: "tiles us S l b w h" and T: "tiles us T l (b + h) w' h'" and dj: "S \<inter> T = {}" "g \<notin> S" "g \<notin> T"
    and nn: "0 \<le> w" "0 \<le> w'" "0 \<le> h" "0 \<le> h'"
    and gap: "width (us ! g) = \<bar>w' - w\<bar>" "height (us ! g) = (if w \<le> w' then h else h')"
      "leftx (us ! g) = l + min w w'" "bottomy (us ! g) = b + (if w \<le> w' then 0 else h)"
  shows "tiles us (insert g (S \<union> T)) l b (max w w') (h + h')"
proof (cases "w \<le> w'")
  case True
  have "tiles us {g} (l + w) b (w' - w) h"
    by (rule tiles_single) (use gap True nn in auto)
  then have "tiles us (S \<union> {g}) l b (w + (w' - w)) h"
    by (rule tiles_beside [OF S]) (use dj True nn in auto)
  then have "tiles us ((S \<union> {g}) \<union> T) l b w' (h + h')"
    by (intro tiles_above [OF _ T]) (use dj nn in auto)
  with True show ?thesis by (simp add: insert_commute)
next
  case False
  have "tiles us {g} (l + w') (b + h) (w - w') h'"
    by (rule tiles_single) (use gap False nn in auto)
  then have "tiles us (T \<union> {g}) l (b + h) (w' + (w - w')) h'"
    by (rule tiles_beside [OF T]) (use dj False nn in auto)
  then have "tiles us (S \<union> (T \<union> {g})) l b w (h + h')"
    by (intro tiles_above [OF S]) (use dj nn in auto)
  with False show ?thesis by simp
qed

section \<open>The placed blocks and their extents\<close>

definition placed :: "flp_t \<Rightarrow> unit_t list" where
  "placed flp = take (n_units flp) (units flp)"

definition flp_ok :: "flp_t \<Rightarrow> bool" where
  "flp_ok flp \<longleftrightarrow> 0 < n_units flp \<and> n_units flp \<le> length (units flp)"

lemma placed_length: "flp_ok flp \<Longrightarrow> length (placed flp) = n_units flp"
  by (simp add: placed_def flp_ok_def)

lemma placed_nth [simp]: "i < n_units flp \<Longrightarrow> placed flp ! i = units flp ! i"
  by (simp add: placed_def)

lemma placed_set: "flp_ok flp \<Longrightarrow> set (placed flp) = (\<lambda>i. units flp ! i) ` {..<n_units flp}"
proof -
  assume "flp_ok flp"
  then have "set (placed flp) = (\<lambda>i. placed flp ! i) ` {..<n_units flp}"
    using nth_image [of "n_units flp" "placed flp"] by (simp add: placed_length lessThan_atLeast0)
  then show ?thesis by (simp cong: image_cong_simp)
qed

lemma flp_ok_rd: "flp_ok flp \<Longrightarrow> rd (units flp) 0 = Inr (units flp ! 0)"
  by (auto simp: flp_ok_def rd_def)

abbreviation min_of :: "(unit_t \<Rightarrow> real) \<Rightarrow> flp_t \<Rightarrow> real" where
  "min_of f flp \<equiv> Min (f ` set (placed flp))"

abbreviation max_of :: "(unit_t \<Rightarrow> real) \<Rightarrow> flp_t \<Rightarrow> real" where
  "max_of f flp \<equiv> Max (f ` set (placed flp))"

text \<open>A running minimum or maximum over the blocks.\<close>

lemma running_extreme:
  assumes "flp_ok flp"
  shows "fold (\<lambda>i m. if f (units flp ! i) < m then f (units flp ! i) else m) [1..<n_units flp] (f (units flp ! 0)) = min_of f flp"
    and "fold (\<lambda>i m. if f (units flp ! i) > m then f (units flp ! i) else m) [1..<n_units flp] (f (units flp ! 0)) = max_of f flp"
proof -
  let ?g = "\<lambda>i. f (units flp ! i)"
  have "fold (\<lambda>i m. if ?g i < m then ?g i else m) [1..<n] (?g 0) = Min (?g ` {..<n}) \<and>
      fold (\<lambda>i m. if ?g i > m then ?g i else m) [1..<n] (?g 0) = Max (?g ` {..<n})" if "0 < n" for n
    using that
  proof (induction n)
    case (Suc n)
    show ?case
    proof (cases "n = 0")
      case False
      then have "[1..<Suc n] = [1..<n] @ [n]"
        "Min (?g ` {..<Suc n}) = min (?g n) (Min (?g ` {..<n}))"
        "Max (?g ` {..<Suc n}) = max (?g n) (Max (?g ` {..<n}))"
        by (simp_all add: lessThan_Suc lessThan_empty_iff)
      with Suc.IH False show ?thesis by (simp add: min_def max_def)
    qed (simp add: lessThan_Suc)
  qed simp
  moreover have "0 < n_units flp" using assms by (simp add: flp_ok_def)
  ultimately show "fold (\<lambda>i m. if ?g i < m then ?g i else m) [1..<n_units flp] (?g 0) = min_of f flp"
    "fold (\<lambda>i m. if ?g i > m then ?g i else m) [1..<n_units flp] (?g 0) = max_of f flp"
    unfolding placed_set [OF assms] image_image by blast+
qed

text \<open>A loop with two running values.\<close>

lemma pair_loop:
  assumes "flp_ok flp"
  shows "for_up 1 (n_units flp) (\<lambda>i (a, b). rbind (rd (units flp) i) (\<lambda>u. Inr (F u a, G u b))) (a, b) =
    Inr (fold (\<lambda>i. F (units flp ! i)) [1..<n_units flp] a, fold (\<lambda>i. G (units flp ! i)) [1..<n_units flp] b)"
proof -
  have "fold (\<lambda>i (a, b). (F (units flp ! i) a, G (units flp ! i) b)) xs (a, b) =
      (fold (\<lambda>i. F (units flp ! i)) xs a, fold (\<lambda>i. G (units flp ! i)) xs b)" for xs
    by (induction xs arbitrary: a b) auto
  moreover have "for_up 1 (n_units flp) (\<lambda>i (a, b). rbind (rd (units flp) i) (\<lambda>u. Inr (F u a, G u b))) (a, b) =
      Inr (fold (\<lambda>i (a, b). (F (units flp ! i) a, G (units flp ! i) b)) [1..<n_units flp] (a, b))"
    by (rule for_up_pure) (use assms in \<open>auto simp: flp_ok_def\<close>)
  ultimately show ?thesis by simp
qed

lemma get_total_width_ok:
  assumes "flp_ok flp"
  shows "get_total_width flp = Inr (max_of rightx flp - min_of leftx flp)"
  unfolding get_total_width_def flp_ok_rd [OF assms] rbind_Inr
  unfolding pair_loop [OF assms, where F = "\<lambda>u m. if leftx u < m then leftx u else m" and
      G = "\<lambda>u m. if rightx u > m then rightx u else m"] running_extreme [OF assms]
    running_extreme(2) [OF assms, of "\<lambda>u. rightx u"] by simp

lemma get_total_height_ok:
  assumes "flp_ok flp"
  shows "get_total_height flp = Inr (max_of topy flp - min_of bottomy flp)"
  unfolding get_total_height_def flp_ok_rd [OF assms] rbind_Inr
  unfolding pair_loop [OF assms, where F = "\<lambda>u m. if bottomy u < m then bottomy u else m" and
      G = "\<lambda>u m. if topy u > m then topy u else m"] running_extreme [OF assms]
    running_extreme(2) [OF assms, of "\<lambda>u. topy u"] by simp

lemma min_corner_ok:
  assumes "flp_ok flp"
  shows "min_corner flp = Inr (min_of leftx flp, min_of bottomy flp)"
  unfolding min_corner_def flp_ok_rd [OF assms] rbind_Inr
  unfolding pair_loop [OF assms, where F = "\<lambda>u m. if m > leftx u then leftx u else m" and
      G = "\<lambda>u m. if m > bottomy u then bottomy u else m"] running_extreme [OF assms] by simp

text \<open>A loop with one running value.\<close>

lemma single_loop:
  assumes "flp_ok flp"
  shows "for_up 1 (n_units flp) (\<lambda>i a. rbind (rd (units flp) i) (\<lambda>u. Inr (F u a))) a =
    Inr (fold (\<lambda>i. F (units flp ! i)) [1..<n_units flp] a)"
  by (rule for_up_pure) (use assms in \<open>auto simp: flp_ok_def\<close>)

lemma get_minx_ok:
  assumes "flp_ok flp"
  shows "get_minx flp = Inr (min_of leftx flp)"
  unfolding get_minx_def flp_ok_rd [OF assms] rbind_Inr
  unfolding single_loop [OF assms, where F = "\<lambda>u m. if leftx u < m then leftx u else m"]
    running_extreme [OF assms] by simp

lemma get_miny_ok:
  assumes "flp_ok flp"
  shows "get_miny flp = Inr (min_of bottomy flp)"
  unfolding get_miny_def flp_ok_rd [OF assms] rbind_Inr
  unfolding single_loop [OF assms, where F = "\<lambda>u m. if bottomy u < m then bottomy u else m"]
    running_extreme [OF assms] by simp

lemma get_total_area_ok:
  assumes "flp_ok flp"
  shows "get_total_area flp = Inr (\<Sum>i < n_units flp. width (units flp ! i) * height (units flp ! i))"
proof -
  have "fold (\<lambda>i ar. ar + width (units flp ! i) * height (units flp ! i)) [0..<n] 0 =
      (\<Sum>i < n. width (units flp ! i) * height (units flp ! i))" for n
    by (induction n) auto
  moreover have "get_total_area flp =
      Inr (fold (\<lambda>i ar. ar + width (units flp ! i) * height (units flp ! i)) [0..<n_units flp] 0)"
    unfolding get_total_area_def by (rule for_up_pure) (use assms in \<open>auto simp: flp_ok_def\<close>)
  ultimately show ?thesis by simp
qed

section \<open>Changing every block\<close>

lemma each_unit:
  assumes "\<And>i. i < n \<Longrightarrow> step i = (\<lambda>flp. rbind (rd (units flp) i) (\<lambda>u. rbind (g u) (\<lambda>v. upd_unit i (\<lambda>_. v) flp)))"
    and "\<And>i. i < n \<Longrightarrow> g (units flp ! i) = Inr (f (units flp ! i))" and "n \<le> length (units flp)"
  shows "for_up 0 n step flp = Inr (flp\<lparr>units := map f (take n (units flp)) @ drop n (units flp)\<rparr>)"
proof -
  let ?us = "units flp"
  let ?I = "\<lambda>i s. s = flp\<lparr>units := map f (take i ?us) @ drop i ?us\<rparr>"
  have "\<exists>t. for_up 0 n step flp = Inr t \<and> ?I n t"
  proof (rule for_up_rule [where I = ?I])
    fix i s assume i: "i < n" and inv: "?I i s"
    have d: "drop i ?us = ?us ! i # drop (Suc i) ?us" using i assms(3) by (intro Cons_nth_drop_Suc [symmetric]) simp
    have u: "units s ! i = ?us ! i" "i < length (units s)"
      using inv i assms(3) by (simp_all add: nth_append d)
    have "(units s)[i := f (?us ! i)] = map f (take (Suc i) ?us) @ drop (Suc i) ?us"
      using inv i assms(3) by (simp add: list_update_append d take_Suc_conv_app_nth)
    then have "step i s = Inr (flp\<lparr>units := map f (take (Suc i) ?us) @ drop (Suc i) ?us\<rparr>)"
      using u assms(1,2) [OF i] inv by simp
    then show "\<exists>t'. step i s = Inr t' \<and> ?I (Suc i) t'" by blast
  qed simp_all
  then show ?thesis by simp
qed

text \<open>For updates that cannot stop.\<close>

lemma each_upd_unit:
  assumes "n \<le> length (units flp)"
  shows "for_up 0 n (\<lambda>i. upd_unit i f) flp = Inr (flp\<lparr>units := map f (take n (units flp)) @ drop n (units flp)\<rparr>)"
  by (rule each_unit [where g = "\<lambda>u. Inr (f u)"]) (use assms in \<open>auto simp: upd_unit_def rd_def fun_eq_iff\<close>)

text \<open>The floorplan with \<open>f\<close> applied to its blocks.\<close>

definition map_placed :: "(unit_t \<Rightarrow> unit_t) \<Rightarrow> flp_t \<Rightarrow> flp_t" where
  "map_placed f flp = flp\<lparr>units := map f (placed flp) @ drop (n_units flp) (units flp)\<rparr>"

lemma map_placed_props:
  assumes "flp_ok flp"
  shows "flp_ok (map_placed f flp)" "n_units (map_placed f flp) = n_units flp"
    "placed (map_placed f flp) = map f (placed flp)"
    "i < n_units flp \<Longrightarrow> units (map_placed f flp) ! i = f (units flp ! i)"
    "n_units flp \<le> j \<Longrightarrow> units (map_placed f flp) ! j = units flp ! j"
    "wire_density (map_placed f flp) = wire_density flp"
    "length (units (map_placed f flp)) = length (units flp)"
  using assms by (auto simp: map_placed_def flp_ok_def placed_def nth_append)

lemma flp_translate_ok:
  assumes "flp_ok flp"
  shows "flp_translate flp x y = Inr (map_placed (\<lambda>u. u\<lparr>leftx := leftx u + (x - min_of leftx flp),
    bottomy := bottomy u + (y - min_of bottomy flp)\<rparr>) flp)"
  using assms by (simp add: flp_translate_def min_corner_ok each_upd_unit map_placed_def placed_def flp_ok_def)

lemma flp_scale_ok:
  assumes "flp_ok flp"
  shows "flp_scale flp k = Inr (map_placed (\<lambda>u. u\<lparr>leftx := (leftx u - min_of leftx flp) * k + min_of leftx flp,
    bottomy := (bottomy u - min_of bottomy flp) * k + min_of bottomy flp, width := width u * k, height := height u * k\<rparr>) flp)"
  using assms by (simp add: flp_scale_def min_corner_ok each_upd_unit map_placed_def placed_def flp_ok_def)

text \<open>A unit moved by a vector.\<close>

definition move_unit :: "real \<Rightarrow> real \<Rightarrow> unit_t \<Rightarrow> unit_t" where
  "move_unit dx dy u = u\<lparr>leftx := leftx u + dx, bottomy := bottomy u + dy\<rparr>"

lemma tiles_moved:
  assumes "tiles us S l b w h" "\<And>i. i \<in> S \<Longrightarrow> vs ! i = move_unit dx dy (us ! i)"
  shows "tiles vs S (l + dx) (b + dy) w h"
  using assms by (auto simp: tiles_def move_unit_def unit_inside_def unit_apart_def algebra_simps cong: sum.cong)

end
