(* ===== verification/Slicing_Size.thy ===== *)
theory Slicing_Size
  imports Slicing_Tree Node_Setter Flp_Geom
begin

text \<open>
  The conversion of a slicing tree into a floorplan: \<open>recursive_sizing\<close> makes the units of a
  subtree and its surviving dead blocks tile the rectangle of the chosen orientation, whatever
  dead blocks are compacted away.
\<close>

section \<open>Coordinates, leaves and cuts of a tree\<close>

definition ent_x :: "tree_node_t \<Rightarrow> nat \<Rightarrow> real" where "ent_x t k = shape_x (curve t) ! k"
definition ent_y :: "tree_node_t \<Rightarrow> nat \<Rightarrow> real" where "ent_y t k = shape_y (curve t) ! k"

fun leaves :: "tree_node_t \<Rightarrow> nat list" where
  "leaves NULL_node = []"
| "leaves (TNode c lb l r) = (if lb \<ge> 0 then [nat lb] else leaves l @ leaves r)"

fun cuts :: "tree_node_t \<Rightarrow> nat" where
  "cuts NULL_node = 0"
| "cuts (TNode c lb l r) = (if lb \<ge> 0 then 0 else Suc (cuts l + cuts r))"

definition same_tree :: "tree_node_t \<Rightarrow> tree_node_t \<Rightarrow> bool" where
  "same_tree t t' \<longleftrightarrow> leaves t' = leaves t \<and> cuts t' = cuts t \<and> tree_nodes t' = tree_nodes t"

text \<open>Every orientation of leaf \<open>u\<close> has at least the area \<open>A u\<close>.\<close>

fun tree_area :: "(nat \<Rightarrow> real) \<Rightarrow> tree_node_t \<Rightarrow> bool" where
  "tree_area A NULL_node = True"
| "tree_area A (TNode c lb l r) =
     (if lb \<ge> 0 then \<forall>k < shape_size c. A (nat lb) \<le> shape_x c ! k * shape_y c ! k
      else tree_area A l \<and> tree_area A r)"

section \<open>A node whose entry may have been enlarged\<close>

text \<open>
  Entry \<open>pos\<close> of the curve \<open>c\<close> of a cut comes from entry \<open>lp\<close> of the left and \<open>rp\<close> of the right
  child, and is at least as large as their sum.
\<close>

definition cut_fit :: "int \<Rightarrow> shape_t \<Rightarrow> shape_t \<Rightarrow> shape_t \<Rightarrow> nat \<Rightarrow> nat \<Rightarrow> nat \<Rightarrow> bool" where
  "cut_fit lb c cl cr pos lp rp \<longleftrightarrow>
     rdo (left_pos c) pos = Inr lp \<and> rdo (right_pos c) pos = Inr rp \<and>
     rdo (median c) pos = Inr (entry_median lb cl (lp, rp)) \<and>
     lp < shape_size cl \<and> rp < shape_size cr \<and>
     entry_x lb cl cr (lp, rp) \<le> shape_x c ! pos \<and> entry_y lb cl cr (lp, rp) \<le> shape_y c ! pos"

definition tree_fit :: "(nat \<Rightarrow> real) \<Rightarrow> tree_node_t \<Rightarrow> nat \<Rightarrow> bool" where
  "tree_fit A t pos \<longleftrightarrow> (case t of NULL_node \<Rightarrow> False | TNode c lb l r \<Rightarrow>
     lengths_ok c \<and> pos < shape_size c \<and> 0 < shape_x c ! pos \<and> 0 < shape_y c ! pos \<and>
     (if lb \<ge> 0 then A (nat lb) \<le> shape_x c ! pos * shape_y c ! pos
      else tree_ok l \<and> tree_ok r \<and> tree_area A l \<and> tree_area A r \<and>
        (\<exists>lp rp. cut_fit lb c (curve l) (curve r) pos lp rp)))"

lemma sum_curve_fit:
  assumes "curve_ok cl" "curve_ok cr" "pos < shape_size (sum_curve cl cr lb)"
  shows "\<exists>lp rp. cut_fit lb (sum_curve cl cr lb) cl cr pos lp rp"
proof -
  let ?pq = "sum_positions cl cr lb ! pos"
  have pos: "pos < length (sum_positions cl cr lb)" using assms(3) by simp
  have "fst ?pq < shape_size cl \<and> snd ?pq < shape_size cr"
    using sum_positions_range [of "fst ?pq" "snd ?pq" cl cr lb] pos by simp
  then have "cut_fit lb (sum_curve cl cr lb) cl cr pos (fst ?pq) (snd ?pq)"
    using pos by (simp add: cut_fit_def sum_curve_nth) (simp add: sum_curve_def Let_def)
  then show ?thesis by blast
qed

lemma tree_ok_fit:
  assumes "tree_ok t" "tree_area A t" "pos < shape_size (curve t)"
  shows "tree_fit A t pos"
proof (cases t)
  case NULL_node
  with assms show ?thesis by simp
next
  case (TNode c lb l r)
  have c: "curve_ok c" using assms(1) TNode by simp
  show ?thesis
  proof (cases "lb \<ge> 0")
    case True
    with TNode assms curve_okD(4,5) [OF c] curve_lengths [OF c] show ?thesis by (simp add: tree_fit_def)
  next
    case False
    have "\<exists>lp rp. cut_fit lb c (curve l) (curve r) pos lp rp"
      using sum_curve_fit [of "curve l" "curve r" pos lb] tree_ok_curve [of l] tree_ok_curve [of r]
        assms TNode False by auto
    with False TNode assms curve_okD(4,5) [OF c] curve_lengths [OF c] show ?thesis
      by (simp add: tree_fit_def)
  qed
qed

lemma tree_fit_reads:
  assumes "tree_fit A t k"
  shows "node_x t k = Inr (ent_x t k)" "node_y t k = Inr (ent_y t k)" "0 < ent_x t k" "0 < ent_y t k"
  using assms
  by (auto simp: tree_fit_def node_x_def node_y_def node_curve_def ent_x_def ent_y_def lengths_ok_def
      split: tree_node_t.splits)

text \<open>Enlarging the entry keeps the node fit, in either coordinate.\<close>

lemma cut_fit_larger:
  assumes "cut_fit lb c cl cr pos lp rp" "left_pos c' = left_pos c" "right_pos c' = right_pos c"
    "median c' = median c" "shape_x c ! pos \<le> shape_x c' ! pos" "shape_y c ! pos \<le> shape_y c' ! pos"
  shows "cut_fit lb c' cl cr pos lp rp"
  using assms by (auto simp: cut_fit_def)

lemma tree_fit_larger:
  assumes "tree_fit A (TNode c lb l r) pos" "lengths_ok c'" "shape_size c' = shape_size c"
    "left_pos c' = left_pos c" "right_pos c' = right_pos c" "median c' = median c"
    "shape_x c ! pos \<le> shape_x c' ! pos" "shape_y c ! pos \<le> shape_y c' ! pos"
  shows "tree_fit A (TNode c' lb l r) pos"
proof -
  have pos: "0 < shape_x c ! pos" "0 < shape_y c ! pos" using assms(1) by (simp_all add: tree_fit_def)
  have "shape_x c ! pos * shape_y c ! pos \<le> shape_x c' ! pos * shape_y c' ! pos"
    using assms(7,8) pos by (intro mult_mono) auto
  moreover have "\<exists>lp rp. cut_fit lb c' (curve l) (curve r) pos lp rp"
    if "\<exists>lp rp. cut_fit lb c (curve l) (curve r) pos lp rp"
    using that cut_fit_larger [OF _ assms(4-8)] by blast
  ultimately show ?thesis using assms pos by (simp add: tree_fit_def split: if_splits)
qed

interpretation set_x: node_setter set_node_x ent_x ent_y "tree_fit A" same_tree for A
proof
  fix t and k :: nat and v :: real
  assume fit: "tree_fit A t k" and v: "ent_x t k \<le> v"
  obtain c lb l r where t: "t = TNode c lb l r" using fit by (cases t) (auto simp: tree_fit_def)
  have k: "k < length (shape_x c)" using fit by (simp add: t tree_fit_def lengths_ok_def)
  have "tree_fit A (TNode (c\<lparr>shape_x := (shape_x c)[k := v]\<rparr>) lb l r) k"
    by (rule tree_fit_larger [OF fit [unfolded t]])
      (use fit v k in \<open>auto simp: t tree_fit_def lengths_ok_def ent_x_def\<close>)
  then show "\<exists>t'. set_node_x t k v = Inr t' \<and> tree_fit A t' k \<and> same_tree t t' \<and> ent_x t' k = v \<and>
      ent_y t' k = ent_y t k"
    using k by (simp add: t set_node_x_def ent_x_def ent_y_def same_tree_def)
qed (auto simp: same_tree_def)

interpretation set_y: node_setter set_node_y ent_y ent_x "tree_fit A" same_tree for A
proof
  fix t and k :: nat and v :: real
  assume fit: "tree_fit A t k" and v: "ent_y t k \<le> v"
  obtain c lb l r where t: "t = TNode c lb l r" using fit by (cases t) (auto simp: tree_fit_def)
  have k: "k < length (shape_y c)" using fit by (simp add: t tree_fit_def lengths_ok_def)
  have "tree_fit A (TNode (c\<lparr>shape_y := (shape_y c)[k := v]\<rparr>) lb l r) k"
    by (rule tree_fit_larger [OF fit [unfolded t]])
      (use fit v k in \<open>auto simp: t tree_fit_def lengths_ok_def ent_y_def\<close>)
  then show "\<exists>t'. set_node_y t k v = Inr t' \<and> tree_fit A t' k \<and> same_tree t t' \<and> ent_y t' k = v \<and>
      ent_x t' k = ent_x t k"
    using k by (simp add: t set_node_y_def ent_x_def ent_y_def same_tree_def)
qed (auto simp: same_tree_def)

section \<open>One cut\<close>

lemma compacts_ok:
  assumes "0 < a" "0 < b"
  shows "\<exists>small. compacts cd ratio a b = Inr small \<and> (small \<longrightarrow> cd)"
  using assms by (auto simp: compacts_def)

text \<open>
  The outcome of sizing a vertical cut in a rectangle of width \<open>X\<close> and height \<open>Y\<close>: the children
  share the width, and either both have the full height or one does and unit \<open>u\<close> is the gap.
\<close>

lemma size_vertical_ok:
  assumes l: "tree_fit A l lp" and r: "tree_fit A r rp"
    and X: "ent_x l lp + ent_x r rp \<le> X" and Y: "max (ent_y l lp) (ent_y r rp) \<le> Y"
    and self: "rd (shape_x self) pos = Inr X" "rd (shape_y self) pos = Inr Y"
    and idx: "(n_units flp + 1) div 2 + dc < length (units flp)"
  shows "\<exists>dc' l' r' u. size_vertical self pos l r lp rp lx by dc cd ratio flp =
      Inr (dc', l', r', flp\<lparr>units := (units flp)[(n_units flp + 1) div 2 + dc := u]\<rparr>) \<and>
    tree_fit A l' lp \<and> tree_fit A r' rp \<and> same_tree l l' \<and> same_tree r r' \<and>
    ent_x l' lp = ent_x l lp \<and> ent_x l' lp + ent_x r' rp = X \<and> max (ent_y l' lp) (ent_y r' rp) = Y \<and>
    (dc' = dc \<and> cd \<and> ent_y l' lp = Y \<and> ent_y r' rp = Y \<or>
     dc' = Suc dc \<and> width u = (if ent_y l' lp \<le> ent_y r' rp then ent_x l' lp else ent_x r' rp) \<and>
       height u = \<bar>ent_y r' rp - ent_y l' lp\<bar> \<and>
       leftx u = lx + (if ent_y l' lp \<le> ent_y r' rp then 0 else ent_x l' lp) \<and>
       bottomy u = by + min (ent_y l' lp) (ent_y r' rp))"
proof -
  obtain l1 r1 where s1: "stretch_both set_node_y l r lp rp Y (ent_y l lp) (ent_y r rp) =
      Inr (l1, r1, ent_y l1 lp, ent_y r1 rp)"
    "tree_fit A l1 lp" "tree_fit A r1 rp" "same_tree l l1" "same_tree r r1"
    "max (ent_y l1 lp) (ent_y r1 rp) = Y" "ent_x l1 lp = ent_x l lp" "ent_x r1 rp = ent_x r rp"
    using set_y.stretch_both_ok [OF l r Y] by blast
  have X1: "ent_x l lp + ent_x r1 rp \<le> X" using X s1(8) by simp
  obtain r2 where s2: "widen_right set_node_x r1 rp X (ent_x l lp) (ent_x r1 rp) = Inr (r2, X - ent_x l lp)"
    "tree_fit A r2 rp" "same_tree r1 r2" "ent_x r2 rp = X - ent_x l lp" "ent_y r2 rp = ent_y r1 rp"
    using set_x.widen_right_ok [OF s1(3) X1] by blast
  let ?a = "ent_y l1 lp" and ?b = "ent_y r2 rp"
  obtain small where sm: "compacts cd ratio ?a ?b = Inr small" "small \<longrightarrow> cd"
    using compacts_ok tree_fit_reads(4) [OF s1(2)] tree_fit_reads(4) [OF s2(2)] by blast
  obtain dc' l3 r3 where s3: "keep_or_absorb set_node_y l1 r2 lp rp ?a ?b small dc = Inr (dc', l3, r3)"
    "tree_fit A l3 lp" "tree_fit A r3 rp" "same_tree l1 l3" "same_tree r2 r3"
    "ent_x l3 lp = ent_x l1 lp" "ent_x r3 rp = ent_x r2 rp"
    "if small then dc' = dc \<and> ent_y l3 lp = max ?a ?b \<and> ent_y r3 rp = max ?a ?b
     else dc' = Suc dc \<and> l3 = l1 \<and> r3 = r2"
    using set_y.keep_or_absorb_ok [OF s1(2) s2(2)] by blast
  let ?i = "(n_units flp + 1) div 2 + dc"
  let ?u = "(units flp ! ?i)\<lparr>width := (if ?b \<ge> ?a then ent_x l lp else X - ent_x l lp), height := \<bar>?b - ?a\<bar>,
      leftx := lx + (if ?b \<ge> ?a then 0 else ent_x l lp), bottomy := by + min ?a ?b\<rparr>"
  have "size_vertical self pos l r lp rp lx by dc cd ratio flp =
      Inr (dc', l3, r3, flp\<lparr>units := (units flp)[?i := ?u]\<rparr>)"
    using s1(1) s2(1) s3(1) s2(5) sm(1) self idx tree_fit_reads(1,2) [OF l] tree_fit_reads(1,2) [OF r] s1(8)
    by (simp add: size_vertical_def Let_def)
  moreover have "same_tree l l3" "same_tree r r3"
    using s1(4,5) s2(3) s3(4,5) by (simp_all add: same_tree_def)
  moreover have "dc' = dc \<and> cd \<and> ent_y l3 lp = Y \<and> ent_y r3 rp = Y \<or>
      dc' = Suc dc \<and> width ?u = (if ent_y l3 lp \<le> ent_y r3 rp then ent_x l3 lp else ent_x r3 rp) \<and>
       height ?u = \<bar>ent_y r3 rp - ent_y l3 lp\<bar> \<and>
       leftx ?u = lx + (if ent_y l3 lp \<le> ent_y r3 rp then 0 else ent_x l3 lp) \<and>
       bottomy ?u = by + min (ent_y l3 lp) (ent_y r3 rp)"
    using s1(6,7) s2(4,5) s3(6-8) sm(2) by (cases small) auto
  moreover have "max (ent_y l3 lp) (ent_y r3 rp) = Y"
    using s1(6) s2(5) s3(8) by (cases small) auto
  ultimately show ?thesis
    using s1(7) s2(4) s3(2,3,6,7) by (intro exI [of _ dc'] exI [of _ l3] exI [of _ r3] exI [of _ ?u]) simp
qed

text \<open>The same for a horizontal cut, with the two coordinates exchanged.\<close>

lemma size_horizontal_ok:
  assumes l: "tree_fit A l lp" and r: "tree_fit A r rp"
    and Y: "ent_y l lp + ent_y r rp \<le> Y" and X: "max (ent_x l lp) (ent_x r rp) \<le> X"
    and self: "rd (shape_y self) pos = Inr Y" "rd (shape_x self) pos = Inr X"
    and idx: "(n_units flp + 1) div 2 + dc < length (units flp)"
  shows "\<exists>dc' l' r' u. size_horizontal self pos l r lp rp lx by dc cd ratio flp =
      Inr (dc', l', r', flp\<lparr>units := (units flp)[(n_units flp + 1) div 2 + dc := u]\<rparr>) \<and>
    tree_fit A l' lp \<and> tree_fit A r' rp \<and> same_tree l l' \<and> same_tree r r' \<and>
    ent_y l' lp = ent_y l lp \<and> ent_y l' lp + ent_y r' rp = Y \<and> max (ent_x l' lp) (ent_x r' rp) = X \<and>
    (dc' = dc \<and> cd \<and> ent_x l' lp = X \<and> ent_x r' rp = X \<or>
     dc' = Suc dc \<and> height u = (if ent_x l' lp \<le> ent_x r' rp then ent_y l' lp else ent_y r' rp) \<and>
       width u = \<bar>ent_x r' rp - ent_x l' lp\<bar> \<and>
       bottomy u = by + (if ent_x l' lp \<le> ent_x r' rp then 0 else ent_y l' lp) \<and>
       leftx u = lx + min (ent_x l' lp) (ent_x r' rp))"
proof -
  obtain l1 r1 where s1: "stretch_both set_node_x l r lp rp X (ent_x l lp) (ent_x r rp) =
      Inr (l1, r1, ent_x l1 lp, ent_x r1 rp)"
    "tree_fit A l1 lp" "tree_fit A r1 rp" "same_tree l l1" "same_tree r r1"
    "max (ent_x l1 lp) (ent_x r1 rp) = X" "ent_y l1 lp = ent_y l lp" "ent_y r1 rp = ent_y r rp"
    using set_x.stretch_both_ok [OF l r X] by blast
  have Y1: "ent_y l lp + ent_y r1 rp \<le> Y" using Y s1(8) by simp
  obtain r2 where s2: "widen_right set_node_y r1 rp Y (ent_y l lp) (ent_y r1 rp) = Inr (r2, Y - ent_y l lp)"
    "tree_fit A r2 rp" "same_tree r1 r2" "ent_y r2 rp = Y - ent_y l lp" "ent_x r2 rp = ent_x r1 rp"
    using set_y.widen_right_ok [OF s1(3) Y1] by blast
  let ?a = "ent_x l1 lp" and ?b = "ent_x r2 rp"
  obtain small where sm: "compacts cd ratio ?a ?b = Inr small" "small \<longrightarrow> cd"
    using compacts_ok tree_fit_reads(3) [OF s1(2)] tree_fit_reads(3) [OF s2(2)] by blast
  obtain dc' l3 r3 where s3: "keep_or_absorb set_node_x l1 r2 lp rp ?a ?b small dc = Inr (dc', l3, r3)"
    "tree_fit A l3 lp" "tree_fit A r3 rp" "same_tree l1 l3" "same_tree r2 r3"
    "ent_y l3 lp = ent_y l1 lp" "ent_y r3 rp = ent_y r2 rp"
    "if small then dc' = dc \<and> ent_x l3 lp = max ?a ?b \<and> ent_x r3 rp = max ?a ?b
     else dc' = Suc dc \<and> l3 = l1 \<and> r3 = r2"
    using set_x.keep_or_absorb_ok [OF s1(2) s2(2)] by blast
  let ?i = "(n_units flp + 1) div 2 + dc"
  let ?u = "(units flp ! ?i)\<lparr>width := \<bar>?b - ?a\<bar>, height := (if ?b \<ge> ?a then ent_y l lp else Y - ent_y l lp),
      leftx := lx + min ?a ?b, bottomy := by + (if ?b \<ge> ?a then 0 else ent_y l lp)\<rparr>"
  have "size_horizontal self pos l r lp rp lx by dc cd ratio flp =
      Inr (dc', l3, r3, flp\<lparr>units := (units flp)[?i := ?u]\<rparr>)"
    using s1(1) s2(1) s3(1) s2(5) sm(1) self idx tree_fit_reads(1,2) [OF l] tree_fit_reads(1,2) [OF r] s1(8)
    by (simp add: size_horizontal_def Let_def)
  moreover have "same_tree l l3" "same_tree r r3"
    using s1(4,5) s2(3) s3(4,5) by (simp_all add: same_tree_def)
  moreover have "dc' = dc \<and> cd \<and> ent_x l3 lp = X \<and> ent_x r3 rp = X \<or>
      dc' = Suc dc \<and> height ?u = (if ent_x l3 lp \<le> ent_x r3 rp then ent_y l3 lp else ent_y r3 rp) \<and>
       width ?u = \<bar>ent_x r3 rp - ent_x l3 lp\<bar> \<and>
       bottomy ?u = by + (if ent_x l3 lp \<le> ent_x r3 rp then 0 else ent_y l3 lp) \<and>
       leftx ?u = lx + min (ent_x l3 lp) (ent_x r3 rp)"
    using s1(6,7) s2(4,5) s3(6-8) sm(2) by (cases small) auto
  moreover have "max (ent_x l3 lp) (ent_x r3 rp) = X"
    using s1(6) s2(5) s3(8) by (cases small) auto
  ultimately show ?thesis
    using s1(7) s2(4) s3(2,3,6,7) by (intro exI [of _ dc'] exI [of _ l3] exI [of _ r3] exI [of _ ?u]) simp
qed

section \<open>The recursion\<close>

text \<open>
  What sizing the tree \<open>t\<close> does to a floorplan: between \<open>dc\<close> and \<open>dc'\<close> dead blocks are
  recorded from unit \<open>b + dc\<close> on, at most one a cut; the leaves and those blocks tile the
  rectangle; every leaf has its area; and other units, names and densities stay.
\<close>

definition sized_as ::
  "(nat \<Rightarrow> real) \<Rightarrow> bool \<Rightarrow> tree_node_t \<Rightarrow> nat \<Rightarrow> nat \<Rightarrow> real \<Rightarrow> real \<Rightarrow> real \<Rightarrow> real \<Rightarrow> flp_t \<Rightarrow> nat \<Rightarrow> flp_t \<Rightarrow> bool" where
  "sized_as A cd t b dc lx by w h flp dc' flp' \<longleftrightarrow>
     dc \<le> dc' \<and> dc' \<le> dc + cuts t \<and> (\<not> cd \<longrightarrow> dc' = dc + cuts t) \<and>
     flp' = flp\<lparr>units := units flp'\<rparr> \<and> length (units flp') = length (units flp) \<and>
     (\<forall>i. i \<notin> set (leaves t) \<longrightarrow> \<not> (b + dc \<le> i \<and> i < b + dc + cuts t) \<longrightarrow>
        units flp' ! i = units flp ! i) \<and>
     (\<forall>u \<in> set (leaves t). A u \<le> width (units flp' ! u) * height (units flp' ! u)) \<and>
     tiles (units flp') (set (leaves t) \<union> {b + dc..<b + dc'}) lx by w h"

text \<open>Two subtrees sized one after the other: both keep their tilings.\<close>

lemma sized_as_seq:
  assumes L: "sized_as A cd l b dc1 lx by w h flp1 dc2 flp2"
    and R: "sized_as A cd r b dc2 lx' by' w' h' flp2 dc3 flp3"
    and dj: "set (leaves l) \<inter> set (leaves r) = {}" "\<forall>u \<in> set (leaves l) \<union> set (leaves r). u < b"
  shows "tiles (units flp3) (set (leaves l) \<union> {b + dc1..<b + dc2}) lx by w h"
    and "tiles (units flp3) (set (leaves r) \<union> {b + dc2..<b + dc3}) lx' by' w' h'"
    and "(set (leaves l) \<union> {b + dc1..<b + dc2}) \<inter> (set (leaves r) \<union> {b + dc2..<b + dc3}) = {}"
    and "\<forall>i. i \<notin> set (leaves l) \<longrightarrow> i \<notin> set (leaves r) \<longrightarrow>
      \<not> (b + dc1 \<le> i \<and> i < b + dc1 + (cuts l + cuts r)) \<longrightarrow> units flp3 ! i = units flp1 ! i"
    and "\<forall>u \<in> set (leaves l) \<union> set (leaves r). A u \<le> width (units flp3 ! u) * height (units flp3 ! u)"
proof -
  have same: "units flp3 ! i = units flp2 ! i" if "i \<in> set (leaves l) \<union> {b + dc1..<b + dc2}" for i
  proof -
    have "i \<notin> set (leaves r)" using that dj by (auto dest: bspec [where x = i])
    moreover have "\<not> (b + dc2 \<le> i \<and> i < b + dc2 + cuts r)" using that dj by (auto dest: bspec [where x = i])
    ultimately show ?thesis using R unfolding sized_as_def by blast
  qed
  show "tiles (units flp3) (set (leaves l) \<union> {b + dc1..<b + dc2}) lx by w h"
  proof -
    have "tiles (units flp2) (set (leaves l) \<union> {b + dc1..<b + dc2}) lx by w h"
      using L by (simp add: sized_as_def)
    then show ?thesis by (simp only: tiles_cong [OF same])
  qed
  show "tiles (units flp3) (set (leaves r) \<union> {b + dc2..<b + dc3}) lx' by' w' h'"
    using R by (simp add: sized_as_def)
  show "(set (leaves l) \<union> {b + dc1..<b + dc2}) \<inter> (set (leaves r) \<union> {b + dc2..<b + dc3}) = {}"
    using dj by (force simp: Ball_def)
  show "\<forall>i. i \<notin> set (leaves l) \<longrightarrow> i \<notin> set (leaves r) \<longrightarrow>
      \<not> (b + dc1 \<le> i \<and> i < b + dc1 + (cuts l + cuts r)) \<longrightarrow> units flp3 ! i = units flp1 ! i"
    using L R unfolding sized_as_def by (smt (verit) add.assoc add.commute add_le_cancel_left le_trans
        le_add1 add_mono_thms_linordered_semiring(1) order.strict_trans2)
  show "\<forall>u \<in> set (leaves l) \<union> set (leaves r). A u \<le> width (units flp3 ! u) * height (units flp3 ! u)"
    using L R same by (auto simp: sized_as_def)
qed


lemma same_treeD:
  assumes "same_tree t t'"
  shows "leaves t' = leaves t" "cuts t' = cuts t" "tree_nodes t' = tree_nodes t"
  using assms by (simp_all add: same_tree_def)

text \<open>The two tilings of a cut's children, and the gap unless it was compacted, make one.\<close>

lemma join_vertical:
  assumes S: "tiles us S lx by w h" and T: "tiles us T (lx + w) by w' h'" and dj: "S \<inter> T = {}"
    and g: "kept \<longrightarrow> g \<notin> S \<and> g \<notin> T" and nn: "0 \<le> w" "0 \<le> w'" "0 \<le> h" "0 \<le> h'"
    and box: "w + w' = X" "max h h' = Y"
    and gap: "kept \<longrightarrow> width (us ! g) = (if h \<le> h' then w else w') \<and> height (us ! g) = \<bar>h' - h\<bar> \<and>
      leftx (us ! g) = lx + (if h \<le> h' then 0 else w) \<and> bottomy (us ! g) = by + min h h'"
    and flat: "\<not> kept \<longrightarrow> h = Y \<and> h' = Y"
  shows "tiles us (if kept then insert g (S \<union> T) else S \<union> T) lx by X Y"
proof (cases kept)
  case True
  with g have "g \<notin> S" "g \<notin> T" by auto
  from tiles_columns [OF S T dj this nn] True gap box show ?thesis by simp
next
  case False
  with flat have "h = Y" "h' = Y" by auto
  with tiles_beside [of us S lx "by" w Y T w'] S T dj nn box False show ?thesis by simp
qed

lemma join_horizontal:
  assumes S: "tiles us S lx by w h" and T: "tiles us T lx (by + h) w' h'" and dj: "S \<inter> T = {}"
    and g: "kept \<longrightarrow> g \<notin> S \<and> g \<notin> T" and nn: "0 \<le> w" "0 \<le> w'" "0 \<le> h" "0 \<le> h'"
    and box: "max w w' = X" "h + h' = Y"
    and gap: "kept \<longrightarrow> height (us ! g) = (if w \<le> w' then h else h') \<and> width (us ! g) = \<bar>w' - w\<bar> \<and>
      bottomy (us ! g) = by + (if w \<le> w' then 0 else h) \<and> leftx (us ! g) = lx + min w w'"
    and flat: "\<not> kept \<longrightarrow> w = X \<and> w' = X"
  shows "tiles us (if kept then insert g (S \<union> T) else S \<union> T) lx by X Y"
proof (cases kept)
  case True
  with g have "g \<notin> S" "g \<notin> T" by auto
  from tiles_rows [OF S T dj this nn] True gap box show ?thesis by simp
next
  case False
  with flat have "w = X" "w' = X" by auto
  with tiles_above [of us S lx "by" X h T h'] S T dj nn box False show ?thesis by simp
qed

text \<open>
  The frame, the counts and the areas of a cut, from those of its children; what is left is the
  tiling.
\<close>

lemma sized_as_cut:
  fixes flp1 :: flp_t
  assumes cut: "lb < 0" and flp1: "flp1 = flp\<lparr>units := (units flp)[b + dc := u]\<rparr>"
    and dc1: "dc1 = dc \<and> cd \<or> dc1 = Suc dc"
    and L: "sized_as A cd l b dc1 lx by w h flp1 dc2 flp2"
    and R: "sized_as A cd r b dc2 lx' by' w' h' flp2 dc3 flp3"
    and dj: "set (leaves l) \<inter> set (leaves r) = {}" "\<forall>u \<in> set (leaves l) \<union> set (leaves r). u < b"
    and room: "b + dc + Suc (cuts l + cuts r) \<le> length (units flp)"
    and tile: "tiles (units flp3) (let S = set (leaves l) \<union> {b + dc1..<b + dc2};
        T = set (leaves r) \<union> {b + dc2..<b + dc3} in
      if dc1 = Suc dc then insert (b + dc) (S \<union> T) else S \<union> T) lx0 by0 X Y"
  shows "sized_as A cd (TNode c lb l r) b dc lx0 by0 X Y flp dc3 flp3"
proof -
  note seq = sized_as_seq [OF L R dj]
  have cnt: "dc1 \<le> dc2" "dc2 \<le> dc1 + cuts l" "dc2 \<le> dc3" "dc3 \<le> dc2 + cuts r"
    using L R by (simp_all add: sized_as_def)
  have set_eq: "(let S = set (leaves l) \<union> {b + dc1..<b + dc2}; T = set (leaves r) \<union> {b + dc2..<b + dc3} in
      if dc1 = Suc dc then insert (b + dc) (S \<union> T) else S \<union> T) =
    set (leaves (TNode c lb l r)) \<union> {b + dc..<b + dc3}"
    using dc1 cnt cut by (auto simp: Let_def)
  have frame: "units flp3 ! i = units flp ! i"
    if "i \<notin> set (leaves l)" "i \<notin> set (leaves r)" "\<not> (b + dc \<le> i \<and> i < b + dc + Suc (cuts l + cuts r))" for i
  proof -
    have "\<not> (b + dc1 \<le> i \<and> i < b + dc1 + (cuts l + cuts r))" using that(3) dc1 by auto
    then have "units flp3 ! i = units flp1 ! i" using seq(4) that(1,2) by blast
    moreover have "i \<noteq> b + dc" using that(3) by auto
    ultimately show ?thesis by (simp add: flp1)
  qed
  have rest: "flp3 = flp\<lparr>units := units flp3\<rparr>" "length (units flp3) = length (units flp)"
    using L R unfolding sized_as_def flp1 by (metis flp_t.surjective flp_t.update_convs(1) flp_t.select_convs(1),
        simp)
  show ?thesis
    unfolding sized_as_def
    using cnt dc1 frame rest seq(5) tile cut L R unfolding set_eq by (auto simp: sized_as_def)
qed


section \<open>Every fit tree is sized\<close>

definition sizing_ok :: "(nat \<Rightarrow> real) \<Rightarrow> bool \<Rightarrow> real \<Rightarrow> tree_node_t \<Rightarrow> bool" where
  "sizing_ok A cd ratio t \<longleftrightarrow> (\<forall>pos lx by dc flp. tree_fit A t pos \<longrightarrow> distinct (leaves t) \<longrightarrow>
     (\<forall>u \<in> set (leaves t). u < (n_units flp + 1) div 2) \<longrightarrow>
     (n_units flp + 1) div 2 + dc + cuts t \<le> length (units flp) \<longrightarrow>
     (\<exists>dc' t' flp'. recursive_sizing t pos lx by dc cd ratio flp = Inr (dc', t', flp') \<and>
        sized_as A cd t ((n_units flp + 1) div 2) dc lx by (ent_x t pos) (ent_y t pos) flp dc' flp'))"

lemma sized_as_same: "same_tree t t' \<Longrightarrow> sized_as A cd t' = sized_as A cd t"
  by (intro ext) (simp add: sized_as_def same_treeD)

lemma sizing_okD:
  assumes ih: "\<And>t'. same_tree t t' \<Longrightarrow> sizing_ok A cd ratio t'" and st: "same_tree t t'"
    and fit: "tree_fit A t' pos" and dist: "distinct (leaves t)"
    and low: "\<forall>u \<in> set (leaves t). u < (n_units flp + 1) div 2"
    and room: "(n_units flp + 1) div 2 + dc + cuts t \<le> length (units flp)"
  shows "\<exists>dc' t2 flp'. recursive_sizing t' pos lx by dc cd ratio flp = Inr (dc', t2, flp') \<and>
    sized_as A cd t ((n_units flp + 1) div 2) dc lx by (ent_x t' pos) (ent_y t' pos) flp dc' flp' \<and>
    n_units flp' = n_units flp \<and> length (units flp') = length (units flp)"
proof -
  obtain dc' t2 flp' where r: "recursive_sizing t' pos lx by dc cd ratio flp = Inr (dc', t2, flp')"
    "sized_as A cd t' ((n_units flp + 1) div 2) dc lx by (ent_x t' pos) (ent_y t' pos) flp dc' flp'"
    using ih [OF st] fit dist low room same_treeD [OF st] unfolding sizing_ok_def by metis
  have f: "flp' = flp\<lparr>units := units flp'\<rparr>" "length (units flp') = length (units flp)"
    using r(2) by (simp_all add: sized_as_def)
  have "n_units flp' = n_units flp" by (subst f(1)) simp
  with r f(2) show ?thesis by (auto simp: sized_as_same [OF st])
qed

lemma sizing_leaf:
  assumes "0 \<le> lb"
  shows "sizing_ok A cd ratio (TNode c lb l r)"
  unfolding sizing_ok_def
proof (intro allI impI)
  fix pos and lx "by" :: real and dc and flp :: flp_t
  let ?t = "TNode c lb l r" and ?b = "(n_units flp + 1) div 2"
  assume fit: "tree_fit A ?t pos" and low: "\<forall>u \<in> set (leaves ?t). u < ?b"
    and room: "?b + dc + cuts ?t \<le> length (units flp)"
  let ?v = "(units flp ! nat lb)\<lparr>width := shape_x c ! pos, height := shape_y c ! pos, leftx := lx, bottomy := by\<rparr>"
  let ?flp = "flp\<lparr>units := (units flp)[nat lb := ?v]\<rparr>"
  have u: "nat lb < length (units flp)" using low room assms by simp
  have run: "recursive_sizing ?t pos lx by dc cd ratio flp = Inr (dc, ?t, ?flp)"
    using fit assms u by (subst recursive_sizing.simps) (simp add: tree_fit_def lengths_ok_def)
  have "tiles (units ?flp) {nat lb} lx by (ent_x ?t pos) (ent_y ?t pos)"
    by (rule tiles_single) (use fit u in \<open>auto simp: ent_x_def ent_y_def tree_fit_def\<close>)
  moreover have "A (nat lb) \<le> shape_x c ! pos * shape_y c ! pos"
    using fit assms by (simp add: tree_fit_def)
  ultimately have "sized_as A cd ?t ?b dc lx by (ent_x ?t pos) (ent_y ?t pos) flp dc ?flp"
    using assms u by (auto simp: sized_as_def)
  with run show "\<exists>dc' t' flp'. recursive_sizing ?t pos lx by dc cd ratio flp = Inr (dc', t', flp') \<and>
      sized_as A cd ?t ?b dc lx by (ent_x ?t pos) (ent_y ?t pos) flp dc' flp'" by blast
qed

text \<open>The unit of the gap is not touched by the children.\<close>

lemma gap_stays:
  assumes flp1: "flp1 = flp\<lparr>units := (units flp)[b + dc := u]\<rparr>" and room: "b + dc < length (units flp)"
    and L: "sized_as A cd l b dc1 lx by w h flp1 dc2 flp2"
    and R: "sized_as A cd r b dc2 lx' by' w' h' flp2 dc3 flp3"
    and dj: "set (leaves l) \<inter> set (leaves r) = {}" "\<forall>u \<in> set (leaves l) \<union> set (leaves r). u < b"
    and kept: "dc1 = Suc dc"
  shows "units flp3 ! (b + dc) = u \<and> b + dc \<notin> set (leaves l) \<union> {b + dc1..<b + dc2} \<and>
    b + dc \<notin> set (leaves r) \<union> {b + dc2..<b + dc3}"
proof -
  have nl: "b + dc \<notin> set (leaves l)" "b + dc \<notin> set (leaves r)" using dj(2) by (force simp: Ball_def)+
  have "units flp3 ! (b + dc) = units flp1 ! (b + dc)"
    using sized_as_seq(4) [OF L R dj] nl kept by simp
  then have "units flp3 ! (b + dc) = u" using room by (simp add: flp1)
  moreover have "dc1 \<le> dc2" using L by (simp add: sized_as_def)
  ultimately show ?thesis using nl kept by simp
qed

text \<open>What a fit cut offers its children.\<close>

lemma cut_parts:
  assumes cut: "lb < 0" and fit: "tree_fit A (TNode c lb l r) pos" and dist: "distinct (leaves (TNode c lb l r))"
    and low: "\<forall>u \<in> set (leaves (TNode c lb l r)). u < b"
    and room: "b + dc + cuts (TNode c lb l r) \<le> len"
  obtains lp rp where "cut_fit lb c (curve l) (curve r) pos lp rp" "tree_fit A l lp" "tree_fit A r rp"
    "rd (shape_x c) pos = Inr (ent_x (TNode c lb l r) pos)" "rd (shape_y c) pos = Inr (ent_y (TNode c lb l r) pos)"
    "set (leaves l) \<inter> set (leaves r) = {}" "\<forall>u \<in> set (leaves l) \<union> set (leaves r). u < b"
    "distinct (leaves l)" "distinct (leaves r)" "\<forall>u \<in> set (leaves l). u < b" "\<forall>u \<in> set (leaves r). u < b"
    "b + dc + Suc (cuts l + cuts r) \<le> len" "b + dc < len"
proof -
  obtain lp rp where cf: "cut_fit lb c (curve l) (curve r) pos lp rp" and ok: "tree_ok l" "tree_ok r"
    "tree_area A l" "tree_area A r" and len: "lengths_ok c" "pos < shape_size c"
    using fit cut by (auto simp: tree_fit_def)
  have "tree_fit A l lp" "tree_fit A r rp"
    using ok cf by (auto intro!: tree_ok_fit simp: cut_fit_def)
  with cf show thesis
    by (rule that) (use len low dist cut room in \<open>auto simp: ent_x_def ent_y_def lengths_ok_def\<close>)
qed

text \<open>
  The children are sized as if they were trees of their own; \<open>ihl\<close> and \<open>ihr\<close> are the
  induction hypotheses, for the children as the cut has changed them.
\<close>

lemma sizing_vertical:
  assumes ihl: "\<And>l'. same_tree l l' \<Longrightarrow> sizing_ok A cd ratio l'"
    and ihr: "\<And>r'. same_tree r r' \<Longrightarrow> sizing_ok A cd ratio r'"
  shows "sizing_ok A cd ratio (TNode c CUT_VERTICAL l r)"
  unfolding sizing_ok_def
proof (intro allI impI)
  fix pos and lx "by" :: real and dc and flp :: flp_t
  let ?t = "TNode c CUT_VERTICAL l r" let ?b = "(n_units flp + 1) div 2"
  let ?X = "ent_x ?t pos" and ?Y = "ent_y ?t pos"
  assume pre: "tree_fit A ?t pos" "distinct (leaves ?t)" "\<forall>u \<in> set (leaves ?t). u < ?b"
    "?b + dc + cuts ?t \<le> length (units flp)"
  obtain lp rp where cf: "cut_fit CUT_VERTICAL c (curve l) (curve r) pos lp rp"
    and fl: "tree_fit A l lp" and fr: "tree_fit A r rp"
    and self: "rd (shape_x c) pos = Inr ?X" "rd (shape_y c) pos = Inr ?Y"
    and dj: "set (leaves l) \<inter> set (leaves r) = {}" and low_lr: "\<forall>u \<in> set (leaves l) \<union> set (leaves r). u < ?b"
    and dl: "distinct (leaves l)" "distinct (leaves r)"
    and low: "\<forall>u \<in> set (leaves l). u < ?b" "\<forall>u \<in> set (leaves r). u < ?b"
    and room: "?b + dc + Suc (cuts l + cuts r) \<le> length (units flp)" and idx: "?b + dc < length (units flp)"
    using cut_parts [OF cut_values(1) pre] by blast
  have le: "ent_x l lp + ent_x r rp \<le> ?X" "max (ent_y l lp) (ent_y r rp) \<le> ?Y"
    using cf by (simp_all add: cut_fit_def entry_x_def entry_y_def ent_x_def ent_y_def)
  obtain dc1 l1 r1 u where
    step: "size_vertical c pos l r lp rp lx by dc cd ratio flp = Inr (dc1, l1, r1, flp\<lparr>units := (units flp)[?b + dc := u]\<rparr>)"
    and f1: "tree_fit A l1 lp" "tree_fit A r1 rp" "same_tree l l1" "same_tree r r1"
    and box: "ent_x l1 lp = ent_x l lp" "ent_x l1 lp + ent_x r1 rp = ?X" "max (ent_y l1 lp) (ent_y r1 rp) = ?Y"
    and kind: "dc1 = dc \<and> cd \<and> ent_y l1 lp = ?Y \<and> ent_y r1 rp = ?Y \<or>
      dc1 = Suc dc \<and> width u = (if ent_y l1 lp \<le> ent_y r1 rp then ent_x l1 lp else ent_x r1 rp) \<and>
       height u = \<bar>ent_y r1 rp - ent_y l1 lp\<bar> \<and>
       leftx u = lx + (if ent_y l1 lp \<le> ent_y r1 rp then 0 else ent_x l1 lp) \<and>
       bottomy u = by + min (ent_y l1 lp) (ent_y r1 rp)"
    using size_vertical_ok [OF fl fr le self idx, of lx "by" cd ratio] by blast
  let ?flp1 = "flp\<lparr>units := (units flp)[?b + dc := u]\<rparr>"
  have dc1: "dc1 = dc \<and> cd \<or> dc1 = Suc dc" "dc1 \<le> Suc dc" using kind by auto
  obtain dc2 l2 flp2 where L: "recursive_sizing l1 lp lx by dc1 cd ratio ?flp1 = Inr (dc2, l2, flp2)"
    "sized_as A cd l ?b dc1 lx by (ent_x l1 lp) (ent_y l1 lp) ?flp1 dc2 flp2"
    "n_units flp2 = n_units flp" "length (units flp2) = length (units flp)"
    using sizing_okD [OF ihl f1(3,1) dl(1), of ?flp1 dc1 lx "by"] low(1) room dc1(2) by auto
  have dc2: "dc2 \<le> dc1 + cuts l" using L(2) by (simp add: sized_as_def)
  obtain dc3 r2 flp3 where R: "recursive_sizing r1 rp (lx + ent_x l1 lp) by dc2 cd ratio flp2 = Inr (dc3, r2, flp3)"
    "sized_as A cd r ?b dc2 (lx + ent_x l1 lp) by (ent_x r1 rp) (ent_y r1 rp) flp2 dc3 flp3"
    using sizing_okD [OF ihr f1(4,2) dl(2), of flp2 dc2 "lx + ent_x l1 lp" "by"] low(2) room dc1(2) dc2 L(3,4) by auto
  have md: "rdo (median c) pos = Inr (ent_x l1 lp)"
    using cf box(1) by (simp add: cut_fit_def entry_median_def ent_x_def)
  have run: "recursive_sizing ?t pos lx by dc cd ratio flp = Inr (dc3, TNode c CUT_VERTICAL l2 r2, flp3)"
    using cf step L(1) R(1) md by (subst recursive_sizing.simps) (simp add: cut_fit_def)
  note seq = sized_as_seq [OF L(2) R(2) dj low_lr]
  note gap = gap_stays [OF refl idx L(2) R(2) dj low_lr]
  let ?S = "set (leaves l) \<union> {?b + dc1..<?b + dc2}" and ?T = "set (leaves r) \<union> {?b + dc2..<?b + dc3}"
  have "tiles (units flp3) (if dc1 = Suc dc then insert (?b + dc) (?S \<union> ?T) else ?S \<union> ?T) lx by ?X ?Y"
    by (rule join_vertical [OF seq(1-3) _ _ _ _ _ box(2,3)])
      (use gap kind tree_fit_reads(3,4) [OF f1(1)] tree_fit_reads(3,4) [OF f1(2)] in auto)
  then have "sized_as A cd ?t ?b dc lx by ?X ?Y flp dc3 flp3"
    by (intro sized_as_cut [OF cut_values(1) refl dc1(1) L(2) R(2) dj low_lr room]) (simp only: Let_def)
  with run show "\<exists>dc' t' flp'. recursive_sizing ?t pos lx by dc cd ratio flp = Inr (dc', t', flp') \<and>
      sized_as A cd ?t ?b dc lx by ?X ?Y flp dc' flp'" by blast
qed

lemma sizing_horizontal:
  assumes cut: "lb < 0" and nv: "lb \<noteq> CUT_VERTICAL"
    and ihl: "\<And>l'. same_tree l l' \<Longrightarrow> sizing_ok A cd ratio l'"
    and ihr: "\<And>r'. same_tree r r' \<Longrightarrow> sizing_ok A cd ratio r'"
  shows "sizing_ok A cd ratio (TNode c lb l r)"
  unfolding sizing_ok_def
proof (intro allI impI)
  fix pos and lx "by" :: real and dc and flp :: flp_t
  let ?t = "TNode c lb l r" let ?b = "(n_units flp + 1) div 2"
  let ?X = "ent_x ?t pos" and ?Y = "ent_y ?t pos"
  assume pre: "tree_fit A ?t pos" "distinct (leaves ?t)" "\<forall>u \<in> set (leaves ?t). u < ?b"
    "?b + dc + cuts ?t \<le> length (units flp)"
  obtain lp rp where cf: "cut_fit lb c (curve l) (curve r) pos lp rp"
    and fl: "tree_fit A l lp" and fr: "tree_fit A r rp"
    and self: "rd (shape_x c) pos = Inr ?X" "rd (shape_y c) pos = Inr ?Y"
    and dj: "set (leaves l) \<inter> set (leaves r) = {}" and low_lr: "\<forall>u \<in> set (leaves l) \<union> set (leaves r). u < ?b"
    and dl: "distinct (leaves l)" "distinct (leaves r)"
    and low: "\<forall>u \<in> set (leaves l). u < ?b" "\<forall>u \<in> set (leaves r). u < ?b"
    and room: "?b + dc + Suc (cuts l + cuts r) \<le> length (units flp)" and idx: "?b + dc < length (units flp)"
    using cut_parts [OF cut pre] by blast
  have le: "ent_y l lp + ent_y r rp \<le> ?Y" "max (ent_x l lp) (ent_x r rp) \<le> ?X"
    using cf nv by (simp_all add: cut_fit_def entry_x_def entry_y_def ent_x_def ent_y_def)
  obtain dc1 l1 r1 u where
    step: "size_horizontal c pos l r lp rp lx by dc cd ratio flp = Inr (dc1, l1, r1, flp\<lparr>units := (units flp)[?b + dc := u]\<rparr>)"
    and f1: "tree_fit A l1 lp" "tree_fit A r1 rp" "same_tree l l1" "same_tree r r1"
    and box: "ent_y l1 lp = ent_y l lp" "ent_y l1 lp + ent_y r1 rp = ?Y" "max (ent_x l1 lp) (ent_x r1 rp) = ?X"
    and kind: "dc1 = dc \<and> cd \<and> ent_x l1 lp = ?X \<and> ent_x r1 rp = ?X \<or>
      dc1 = Suc dc \<and> height u = (if ent_x l1 lp \<le> ent_x r1 rp then ent_y l1 lp else ent_y r1 rp) \<and>
       width u = \<bar>ent_x r1 rp - ent_x l1 lp\<bar> \<and>
       bottomy u = by + (if ent_x l1 lp \<le> ent_x r1 rp then 0 else ent_y l1 lp) \<and>
       leftx u = lx + min (ent_x l1 lp) (ent_x r1 rp)"
    using size_horizontal_ok [OF fl fr le self(2,1) idx, of lx "by" cd ratio] by blast
  let ?flp1 = "flp\<lparr>units := (units flp)[?b + dc := u]\<rparr>"
  have dc1: "dc1 = dc \<and> cd \<or> dc1 = Suc dc" "dc1 \<le> Suc dc" using kind by auto
  obtain dc2 l2 flp2 where L: "recursive_sizing l1 lp lx by dc1 cd ratio ?flp1 = Inr (dc2, l2, flp2)"
    "sized_as A cd l ?b dc1 lx by (ent_x l1 lp) (ent_y l1 lp) ?flp1 dc2 flp2"
    "n_units flp2 = n_units flp" "length (units flp2) = length (units flp)"
    using sizing_okD [OF ihl f1(3,1) dl(1), of ?flp1 dc1 lx "by"] low(1) room dc1(2) by auto
  have dc2: "dc2 \<le> dc1 + cuts l" using L(2) by (simp add: sized_as_def)
  obtain dc3 r2 flp3 where R: "recursive_sizing r1 rp lx (by + ent_y l1 lp) dc2 cd ratio flp2 = Inr (dc3, r2, flp3)"
    "sized_as A cd r ?b dc2 lx (by + ent_y l1 lp) (ent_x r1 rp) (ent_y r1 rp) flp2 dc3 flp3"
    using sizing_okD [OF ihr f1(4,2) dl(2), of flp2 dc2 lx "by + ent_y l1 lp"] low(2) room dc1(2) dc2 L(3,4) by auto
  have md: "rdo (median c) pos = Inr (ent_y l1 lp)"
    using cf nv box(1) by (simp add: cut_fit_def entry_median_def ent_y_def)
  have run: "recursive_sizing ?t pos lx by dc cd ratio flp = Inr (dc3, TNode c lb l2 r2, flp3)"
    using cut nv cf step L(1) R(1) md by (subst recursive_sizing.simps) (simp add: cut_fit_def)
  note seq = sized_as_seq [OF L(2) R(2) dj low_lr]
  note gap = gap_stays [OF refl idx L(2) R(2) dj low_lr]
  let ?S = "set (leaves l) \<union> {?b + dc1..<?b + dc2}" and ?T = "set (leaves r) \<union> {?b + dc2..<?b + dc3}"
  have "tiles (units flp3) (if dc1 = Suc dc then insert (?b + dc) (?S \<union> ?T) else ?S \<union> ?T) lx by ?X ?Y"
    by (rule join_horizontal [OF seq(1-3) _ _ _ _ _ box(3,2)])
      (use gap kind tree_fit_reads(3,4) [OF f1(1)] tree_fit_reads(3,4) [OF f1(2)] in auto)
  then have "sized_as A cd ?t ?b dc lx by ?X ?Y flp dc3 flp3"
    by (intro sized_as_cut [OF cut refl dc1(1) L(2) R(2) dj low_lr room]) (simp only: Let_def)
  with run show "\<exists>dc' t' flp'. recursive_sizing ?t pos lx by dc cd ratio flp = Inr (dc', t', flp') \<and>
      sized_as A cd ?t ?b dc lx by ?X ?Y flp dc' flp'" by blast
qed

lemma every_tree_sized: "sizing_ok A cd ratio t"
proof (induction "tree_nodes t" arbitrary: t rule: less_induct)
  case less
  show ?case
  proof (cases t)
    case NULL_node
    then show ?thesis by (simp add: sizing_ok_def tree_fit_def)
  next
    case (TNode c lb l r)
    have ih: "sizing_ok A cd ratio l'" if "same_tree l l' \<or> same_tree r l'" for l'
      using that by (intro less) (auto simp: same_tree_def TNode)
    consider "0 \<le> lb" | "lb = CUT_VERTICAL" | "lb < 0" "lb \<noteq> CUT_VERTICAL" by linarith
    then show ?thesis
      using sizing_leaf sizing_vertical [of l A cd ratio r] sizing_horizontal [of lb l A cd ratio r] ih
      by cases (simp_all add: TNode)
  qed
qed

text \<open>The form in which it is used.\<close>

lemma recursive_sizing_ok:
  assumes "tree_fit A t pos" "distinct (leaves t)" "\<forall>u \<in> set (leaves t). u < (n_units flp + 1) div 2"
    "(n_units flp + 1) div 2 + dc + cuts t \<le> length (units flp)"
  shows "\<exists>dc' t' flp'. recursive_sizing t pos lx by dc cd ratio flp = Inr (dc', t', flp') \<and>
    sized_as A cd t ((n_units flp + 1) div 2) dc lx by (ent_x t pos) (ent_y t pos) flp dc' flp'"
  using every_tree_sized [of A cd ratio t] assms by (simp add: sizing_ok_def)

end
