(* ===== verification/Slicing_Props.thy ===== *)
theory Slicing_Props
  imports Slicing_Size NPE_Props
begin

text \<open>
  The properties of shape curves and slicing trees: the sum of two curves, the tree of an
  expression, and the floorplan of the tree, which tiles its bounding rectangle and has the
  least area that any choice of block orientations can reach.
\<close>

section \<open>Realisable rectangles\<close>

text \<open>
  The widths and heights that the slicing structure of a tree can have when one orientation is
  chosen for every leaf.
\<close>

inductive realizes :: "tree_node_t \<Rightarrow> real \<Rightarrow> real \<Rightarrow> bool" where
  leaf: "0 \<le> lb \<Longrightarrow> k < shape_size c \<Longrightarrow> realizes (TNode c lb l r) (shape_x c ! k) (shape_y c ! k)"
| vertical: "realizes l w h \<Longrightarrow> realizes r w' h' \<Longrightarrow> lb = CUT_VERTICAL \<Longrightarrow>
    realizes (TNode c lb l r) (w + w') (max h h')"
| horizontal: "realizes l w h \<Longrightarrow> realizes r w' h' \<Longrightarrow> lb < 0 \<Longrightarrow> lb \<noteq> CUT_VERTICAL \<Longrightarrow>
    realizes (TNode c lb l r) (max w w') (h + h')"

inductive_cases realizes_nodeE: "realizes (TNode c lb l r) w h"

text \<open>A cut whose children have entries \<open>p\<close> and \<open>q\<close> has an entry that is no larger.\<close>

lemma cut_dominates:
  assumes l: "curve_ok cl" and r: "curve_ok cr" and p: "p < shape_size cl" and q: "q < shape_size cr"
  shows "\<exists>k < shape_size (sum_curve cl cr lb). shape_x (sum_curve cl cr lb) ! k \<le> entry_x lb cl cr (p, q) \<and>
    shape_y (sum_curve cl cr lb) ! k \<le> entry_y lb cl cr (p, q)"
proof -
  obtain pq where pq: "pq \<in> set (sum_positions cl cr lb)" "entry_x lb cl cr pq \<le> entry_x lb cl cr (p, q)"
    "entry_y lb cl cr pq \<le> entry_y lb cl cr (p, q)"
    using sum_positions_dominate [OF l r p q] by blast
  then obtain k where "k < length (sum_positions cl cr lb)" "sum_positions cl cr lb ! k = pq"
    by (metis in_set_conv_nth)
  with pq(2,3) show ?thesis by (intro exI [of _ k]) (simp add: sum_curve_nth)
qed

lemma realizes_dominated:
  assumes "realizes t w h" "tree_ok t"
  shows "\<exists>k < shape_size (curve t). shape_x (curve t) ! k \<le> w \<and> shape_y (curve t) ! k \<le> h"
  using assms
proof (induction rule: realizes.induct)
  case (leaf lb k c l r)
  then show ?case by auto
next
  case (vertical l w h r w' h' lb c)
  then have ok: "tree_ok l" "tree_ok r" "c = sum_curve (curve l) (curve r) lb" by auto
  obtain p q where pq: "p < shape_size (curve l)" "shape_x (curve l) ! p \<le> w" "shape_y (curve l) ! p \<le> h"
    "q < shape_size (curve r)" "shape_x (curve r) ! q \<le> w'" "shape_y (curve r) ! q \<le> h'"
    using vertical.IH ok by blast
  from cut_dominates [of "curve l" "curve r" p q lb] pq(1,4) ok tree_ok_curve
  obtain k where k: "k < shape_size c" "shape_x c ! k \<le> entry_x lb (curve l) (curve r) (p, q)"
    "shape_y c ! k \<le> entry_y lb (curve l) (curve r) (p, q)" by blast
  have "shape_x c ! k \<le> w + w'" "shape_y c ! k \<le> max h h'"
    using k(2,3) pq vertical.hyps(3) by (auto simp: entry_x_def entry_y_def)
  with k(1) show ?case by auto
next
  case (horizontal l w h r w' h' lb c)
  then have ok: "tree_ok l" "tree_ok r" "c = sum_curve (curve l) (curve r) lb" by auto
  obtain p q where pq: "p < shape_size (curve l)" "shape_x (curve l) ! p \<le> w" "shape_y (curve l) ! p \<le> h"
    "q < shape_size (curve r)" "shape_x (curve r) ! q \<le> w'" "shape_y (curve r) ! q \<le> h'"
    using horizontal.IH ok by blast
  from cut_dominates [of "curve l" "curve r" p q lb] pq(1,4) ok tree_ok_curve
  obtain k where k: "k < shape_size c" "shape_x c ! k \<le> entry_x lb (curve l) (curve r) (p, q)"
    "shape_y c ! k \<le> entry_y lb (curve l) (curve r) (p, q)" by blast
  have "shape_x c ! k \<le> max w w'" "shape_y c ! k \<le> h + h'"
    using k(2,3) pq horizontal.hyps(4) by (auto simp: entry_x_def entry_y_def)
  with k(1) show ?case by auto
qed

text \<open>Every entry of the curve of a tree can be realised.\<close>

lemma entry_realized:
  "tree_ok t \<Longrightarrow> k < shape_size (curve t) \<Longrightarrow> realizes t (shape_x (curve t) ! k) (shape_y (curve t) ! k)"
proof (induction t arbitrary: k)
  case (TNode c lb l r)
  show ?case
  proof (cases "0 \<le> lb")
    case True
    with TNode.prems show ?thesis by (auto intro: realizes.leaf)
  next
    case False
    then have ok: "tree_ok l" "tree_ok r" "c = sum_curve (curve l) (curve r) lb" using TNode.prems by auto
    let ?pq = "sum_positions (curve l) (curve r) lb ! k"
    have k: "k < length (sum_positions (curve l) (curve r) lb)" using TNode.prems(2) ok(3) by simp
    have "fst ?pq < shape_size (curve l) \<and> snd ?pq < shape_size (curve r)"
      using sum_positions_range [of "fst ?pq" "snd ?pq" "curve l" "curve r" lb] k by simp
    then have re: "realizes l (shape_x (curve l) ! fst ?pq) (shape_y (curve l) ! fst ?pq)"
      "realizes r (shape_x (curve r) ! snd ?pq) (shape_y (curve r) ! snd ?pq)"
      using TNode.IH ok by auto
    have xy: "shape_x c ! k = entry_x lb (curve l) (curve r) ?pq" "shape_y c ! k = entry_y lb (curve l) (curve r) ?pq"
      using k by (simp_all add: ok(3) sum_curve_nth)
    show ?thesis
    proof (cases "lb = CUT_VERTICAL")
      case True
      with realizes.vertical [OF re, of lb c] xy show ?thesis by (simp add: entry_x_def entry_y_def)
    next
      case hz: False
      with realizes.horizontal [OF re, of lb c] xy False show ?thesis by (simp add: entry_x_def entry_y_def)
    qed
  qed
qed simp

section \<open>The leaves of the tree of an expression\<close>

lemma leaves_postorder: "tree_ok t \<Longrightarrow> leaves t = map nat (filter (\<lambda>x. 0 \<le> x) (postorder t))"
  by (induction t) auto

lemma cuts_postorder: "tree_ok t \<Longrightarrow> cuts t + length (leaves t) = length (postorder t)"
  by (induction t) auto

lemma polish_leaves:
  assumes "polish m es" "tree_ok t" "postorder t = es"
  shows "distinct (leaves t)" "set (leaves t) = {..<m}" "cuts t = m - 1"
proof -
  let ?us = "filter (\<lambda>x. 0 \<le> x) es"
  have ms: "mset ?us = mset (map int [0..<m])" and len: "length es = 2 * m - 1" and m: "0 < m"
    using assms(1) by (simp_all add: polish_def)
  have "mset (map nat ?us) = image_mset nat (mset ?us)" by simp
  also have "\<dots> = mset (map nat (map int [0..<m]))" by (simp only: ms mset_map)
  also have "map nat (map int [0..<m]) = [0..<m]" by (simp add: map_idI)
  finally have lv: "mset (leaves t) = mset [0..<m]" using leaves_postorder [OF assms(2)] assms(3) by simp
  show "distinct (leaves t)" by (metis lv distinct_upt mset_eq_imp_distinct_iff)
  show "set (leaves t) = {..<m}" 
    using mset_eq_setD [OF lv] by (simp add: lessThan_atLeast0 del: mset_upt)
  have "length (leaves t) = m" using mset_eq_length [OF lv] by simp
  then show "cuts t = m - 1" using cuts_postorder [OF assms(2)] assms(3) len m by simp
qed

lemma tree_of_desc_area:
  assumes "tree_ok t" "tree_of_desc d t"
    "\<forall>u \<in> set (leaves t). \<forall>k < shape_size (unit_shape (desc_units d ! u)).
       A u \<le> shape_x (unit_shape (desc_units d ! u)) ! k * shape_y (unit_shape (desc_units d ! u)) ! k"
  shows "tree_area A t"
  using assms by (induction t) auto


lemma sized_as_n_units:
  assumes "sized_as A cd t b dc lx by w h flp dc' flp'"
  shows "n_units flp' = n_units flp"
proof -
  have "flp' = flp\<lparr>units := units flp'\<rparr>" using assms by (simp add: sized_as_def)
  then have "n_units flp' = n_units (flp\<lparr>units := units flp'\<rparr>)" by (rule arg_cong)
  then show ?thesis by simp
qed

lemma sized_as_wires:
  assumes "sized_as A cd t b dc lx by w h flp dc' flp'"
  shows "wire_density flp' = wire_density flp"
proof -
  have "flp' = flp\<lparr>units := units flp'\<rparr>" using assms by (simp add: sized_as_def)
  then have "wire_density flp' = wire_density (flp\<lparr>units := units flp'\<rparr>)" by (rule arg_cong)
  then show ?thesis by simp
qed

section \<open>The floorplan of a tree\<close>

lemma tree_to_flp_ok:
  assumes "tree_ok t" "tree_of_desc d t" "postorder t = es" "polish m es"
    and "n_units flp = 2 * m - 1" "2 * m - 1 \<le> length (units flp)"
    and area: "\<forall>u < m. \<forall>k < shape_size (unit_shape (desc_units d ! u)).
       A u \<le> shape_x (unit_shape (desc_units d ! u)) ! k * shape_y (unit_shape (desc_units d ! u)) ! k"
  shows "\<exists>c t' flp' W H. tree_to_flp t flp cd ratio = Inr (int c, t', flp') \<and>
    c \<le> m - 1 \<and> (\<not> cd \<longrightarrow> c = 0) \<and> n_units flp' = 2 * m - 1 - c \<and>
    length (units flp') = length (units flp) \<and> wire_density flp' = wire_density flp \<and>
    tiles (units flp') {..<n_units flp'} 0 0 W H \<and> realizes t W H \<and>
    (\<forall>w h. realizes t w h \<longrightarrow> W * H \<le> w * h) \<and>
    (\<forall>u < m. A u \<le> width (units flp' ! u) * height (units flp' ! u))"
proof -
  note lv = polish_leaves [OF assms(4,1,3)]
  have m: "0 < m" using assms(4) by (simp add: polish_def)
  have b: "(n_units flp + 1) div 2 = m" using assms(5) m by simp
  have tc: "node_curve t = Inr (curve t)" "curve_ok (curve t)" using tree_ok_curve [OF assms(1)] by auto
  obtain p where p: "min_area_pos (curve t) = Inr p" "p < shape_size (curve t)"
    "\<forall>k < shape_size (curve t). ent_x t p * ent_y t p \<le> ent_x t k * ent_y t k"
    using min_area_pos_ok [OF tc(2)] by (auto simp: ent_x_def ent_y_def)
  have fit: "tree_fit A t p"
    using assms(1) tree_of_desc_area [OF assms(1,2), of A] area lv(2) p(2) by (intro tree_ok_fit) auto
  obtain dc t' flp' where r: "recursive_sizing t p 0 0 0 cd ratio flp = Inr (dc, t', flp')"
    "sized_as A cd t m 0 0 0 (ent_x t p) (ent_y t p) flp dc flp'"
  proof -
    have "m + 0 + cuts t \<le> length (units flp)" using lv(3) assms(6) m by simp
    with recursive_sizing_ok [OF fit lv(1), of flp 0 0 0 cd ratio] lv(2) that show ?thesis
      unfolding b by auto
  qed
  have dc: "dc \<le> m - 1" "\<not> cd \<longrightarrow> dc = m - 1" "n_units flp' = 2 * m - 1"
    "length (units flp') = length (units flp)"
    using r(2) lv(3) assms(5) sized_as_n_units [OF r(2)] by (simp_all add: sized_as_def)
  have wd: "wire_density flp' = wire_density flp" using r(2) by (rule sized_as_wires)
  have "{..<m} \<union> {m..<m + dc} = {..<m + dc}" by auto
  then have tl: "tiles (units flp') {..<m + dc} 0 0 (ent_x t p) (ent_y t p)"
    using r(2) lv(2) by (simp add: sized_as_def)
  let ?c = "m - 1 - dc"
  have run: "tree_to_flp t flp cd ratio = Inr (int ?c, t', flp'\<lparr>n_units := m + dc\<rparr>)"
    using tc(1) p(1) r(1) dc m by (simp add: tree_to_flp_def Let_def nat_of_def)
  have least: "ent_x t p * ent_y t p \<le> w * h" if w: "realizes t w h" for w h
  proof -
    obtain k where k: "k < shape_size (curve t)" "ent_x t k \<le> w" "ent_y t k \<le> h"
      using realizes_dominated [OF w assms(1)] by (auto simp: ent_x_def ent_y_def)
    have "ent_x t p * ent_y t p \<le> ent_x t k * ent_y t k" using p(3) k(1) by blast
    also have "\<dots> \<le> w * h"
      using k curve_okD(4,5) [OF tc(2) k(1)] by (intro mult_mono) (auto simp: ent_x_def ent_y_def)
    finally show ?thesis .
  qed
  have "realizes t (ent_x t p) (ent_y t p)"
    using entry_realized [OF assms(1) p(2)] by (simp add: ent_x_def ent_y_def)
  moreover have "\<forall>u < m. A u \<le> width (units flp' ! u) * height (units flp' ! u)"
    using r(2) lv(2) by (simp add: sized_as_def)
  ultimately show ?thesis
    using run tl least dc m wd
    by (intro exI [of _ ?c] exI [of _ t'] exI [of _ "flp'\<lparr>n_units := m + dc\<rparr>"]
        exI [of _ "ent_x t p"] exI [of _ "ent_y t p"]) auto
qed

section \<open>An example input\<close>

text \<open>Two square units of area one, their expression, and an empty floorplan for it.\<close>

definition square :: shape_t where
  "square = \<lparr>shape_x = [1], shape_y = [1], left_pos = None, right_pos = None, median = None, shape_size = 1\<rparr>"

definition desc2 :: flp_desc_t where
  "desc2 = \<lparr>desc_units = replicate 2 \<lparr>up_name = ''u'', rotable = False, unit_area = 1, min_aspect = 1,
      max_aspect = 1, unit_shape = square\<rparr>,
     desc_wire_density = replicate 2 (replicate 2 0),
     desc_config = \<lparr>wrap_l2 = False, l2_label = ''L2'', model_rim = False, rim_thickness = 0,
       compact_ratio = 0, n_orients = 2, P0 = 0, Davg = 0, Kmoves = 0, Rcool = 0, Rreject = 0, Nmax = 0,
       lambdaA = 0, lambdaT = 0, lambdaW = 0\<rparr>,
     desc_n_units = 2\<rparr>"

definition flp3 :: flp_t where
  "flp3 = \<lparr>units = replicate 3 unit_zero, n_units = 3, wire_density = replicate 3 (replicate 3 0)\<rparr>"

lemma square_ok: "curve_ok square"
  by (simp add: curve_ok_def square_def)

lemma desc2_shape: "u < 2 \<Longrightarrow> unit_shape (desc_units desc2 ! u) = square"
  by (drule less_2_cases) (auto simp: desc2_def numeral_2_eq_2)

lemma desc2_ok: "desc_ok 2 desc2"
proof -
  have "length (desc_units desc2) = 2" by (simp add: desc2_def)
  then show ?thesis
    using square_ok by (simp add: desc_ok_def desc2_shape) (simp add: square_def)
qed

lemma desc2_areas: "\<forall>u < 2. \<forall>k < shape_size (unit_shape (desc_units desc2 ! u)).
   1 \<le> shape_x (unit_shape (desc_units desc2 ! u)) ! k * shape_y (unit_shape (desc_units desc2 ! u)) ! k"
  by (simp add: desc2_shape) (simp add: square_def)

lemma npe2_fits: "fits_stack (elements npe2)"
proof -
  have "pending (elements npe2) i \<le> MAX_STACK" if "i \<le> length (elements npe2)" for i
  proof -
    have "pending (elements npe2) i \<le> i" by (simp add: pending_def)
    also have "i \<le> 3" using that by (simp add: npe2_def)
    finally show ?thesis by (simp add: MAX_STACK_def)
  qed
  then show ?thesis by (simp add: fits_stack_def)
qed

section \<open>Properties\<close>

text \<open>
  C26: \<open>shape_add\<close> of two shape curves returns a shape curve of fewer than \<open>m + n\<close> entries; each
  entry is the combination of the two entries it records, with the demarcation it records, and no
  combination of entries of the two curves is smaller in both dimensions than all of them.
\<close>

theorem shape_add_complete:
  assumes "curve_ok s1" "curve_ok s2"
  shows "\<exists>s ls rs ms. shape_add s1 s2 ct = Inr s \<and> curve_ok s \<and> shape_size s < shape_size s1 + shape_size s2 \<and>
    left_pos s = Some ls \<and> right_pos s = Some rs \<and> median s = Some ms \<and>
    (\<forall>k < shape_size s. ls ! k < shape_size s1 \<and> rs ! k < shape_size s2 \<and>
       shape_x s ! k = entry_x ct s1 s2 (ls ! k, rs ! k) \<and>
       shape_y s ! k = entry_y ct s1 s2 (ls ! k, rs ! k) \<and>
       ms ! k = entry_median ct s1 (ls ! k, rs ! k)) \<and>
    (\<forall>p < shape_size s1. \<forall>q < shape_size s2. \<exists>k < shape_size s.
       shape_x s ! k \<le> entry_x ct s1 s2 (p, q) \<and> shape_y s ! k \<le> entry_y ct s1 s2 (p, q))"
proof -
  let ?w = "sum_positions s1 s2 ct" and ?s = "sum_curve s1 s2 ct"
  have range: "fst (?w ! k) < shape_size s1 \<and> snd (?w ! k) < shape_size s2" if "k < length ?w" for k
    using sum_positions_range [of "fst (?w ! k)" "snd (?w ! k)" s1 s2 ct] that by simp
  have parts: "left_pos ?s = Some (map fst ?w)" "right_pos ?s = Some (map snd ?w)"
    "median ?s = Some (map (entry_median ct s1) ?w)"
    by (simp_all add: sum_curve_def Let_def)
  show ?thesis
    using shape_add_sum_curve [OF curve_lengths curve_lengths, OF assms] sum_curve_ok [OF assms]
      sum_positions_size(2) [OF curve_okD(3) [OF assms(1)] curve_okD(3) [OF assms(2)]]
      cut_dominates [OF assms] range parts
    by (intro exI [of _ ?s] exI [of _ "map fst ?w"] exI [of _ "map snd ?w"]
        exI [of _ "map (entry_median ct s1) ?w"]) (simp add: sum_curve_nth)
qed

theorem shape_add_complete_witness:
  "\<exists>s. shape_add square square CUT_VERTICAL = Inr s \<and> curve_ok s \<and> shape_size s < 2"
  using shape_add_complete [OF square_ok square_ok, of CUT_VERTICAL] by (auto simp: square_def)

text \<open>
  C5: from the expression kept by the annealer, \<open>tree_from_NPE\<close> builds the tree whose post-order
  is the expression and whose curves are right, and leaves the stack empty, exactly when the
  evaluation never has more than \<open>MAX_STACK\<close> pending nodes; otherwise it stops at the full stack.
  It never pops an empty stack.
\<close>

theorem tree_from_NPE_exact:
  assumes "npe_ok m e" "desc_ok m d" "stack_inv s" "stack_items s = []"
  shows "if fits_stack (elements e)
    then \<exists>t s'. tree_from_NPE d s e = Inr (t, s') \<and> postorder t = elements e \<and> tree_ok t \<and>
      tree_of_desc d t \<and> stack_inv s' \<and> stack_items s' = []
    else tree_from_NPE d s e = Inl (Fatal ''attempting to push into an already full stack'')"
  using assms by (rule tree_from_NPE_ok)

theorem tree_from_NPE_exact_witness:
  "\<exists>t s'. tree_from_NPE desc2 new_tree_node_stack npe2 = Inr (t, s') \<and> postorder t = elements npe2"
  using tree_from_NPE_exact [OF npe2_ok desc2_ok new_stack_ok] npe2_fits by auto

text \<open>
  C1: \<open>tree_to_flp\<close> turns the tree of an expression into a floorplan whose units, the given ones
  and the dead blocks that were not compacted away, tile a rectangle with its corner at the
  origin: they are inside it, do not overlap, and leave no area uncovered. The rectangle can be
  realised by the expression, and none that the expression can realise with any choice of
  orientations is smaller in area; every unit has at least its required area; and without
  compaction every cut leaves its dead block.
\<close>

theorem tree_to_flp_tiles_minimum:
  assumes "tree_ok t" "tree_of_desc d t" "postorder t = es" "polish m es"
    and "n_units flp = 2 * m - 1" "2 * m - 1 \<le> length (units flp)"
    and area: "\<forall>u < m. \<forall>k < shape_size (unit_shape (desc_units d ! u)).
       A u \<le> shape_x (unit_shape (desc_units d ! u)) ! k * shape_y (unit_shape (desc_units d ! u)) ! k"
  shows "\<exists>c t' flp' W H. tree_to_flp t flp cd ratio = Inr (int c, t', flp') \<and>
    c \<le> m - 1 \<and> (\<not> cd \<longrightarrow> c = 0) \<and> n_units flp' = 2 * m - 1 - c \<and>
    tiles (units flp') {..<n_units flp'} 0 0 W H \<and> realizes t W H \<and>
    (\<forall>w h. realizes t w h \<longrightarrow> W * H \<le> w * h) \<and>
    (\<forall>u < m. A u \<le> width (units flp' ! u) * height (units flp' ! u))"
  using tree_to_flp_ok [OF assms, of cd ratio] by (elim exE conjE) (intro exI conjI; assumption)


theorem tree_to_flp_tiles_minimum_witness:
  "\<exists>t c t' flp' W H. tree_ok t \<and> postorder t = elements npe2 \<and>
    tree_to_flp t flp3 False 0 = Inr (int c, t', flp') \<and> c = 0 \<and> n_units flp' = 3 \<and>
    tiles (units flp') {..<3} 0 0 W H \<and> 1 \<le> width (units flp' ! 1) * height (units flp' ! 1)"
proof -
  obtain t where t: "tree_ok t" "tree_of_desc desc2 t" "postorder t = elements npe2"
    using tree_from_NPE_ok [OF npe2_ok desc2_ok new_stack_ok] npe2_fits by auto
  have pol: "polish 2 (elements npe2)" using npe2_ok by (simp add: npe_ok_def)
  obtain c t' flp' W H where r: "tree_to_flp t flp3 False 0 = Inr (int c, t', flp') \<and>
    c \<le> 2 - 1 \<and> (\<not> False \<longrightarrow> c = 0) \<and> n_units flp' = 2 * 2 - 1 - c \<and>
    tiles (units flp') {..<n_units flp'} 0 0 W H \<and> realizes t W H \<and>
    (\<forall>w h. realizes t w h \<longrightarrow> W * H \<le> w * h) \<and>
    (\<forall>u < 2. 1 \<le> width (units flp' ! u) * height (units flp' ! u))"
    using tree_to_flp_tiles_minimum [OF t pol _ _ desc2_areas, of flp3 False 0] by (auto simp: flp3_def)
  then have n: "c = 0" "n_units flp' = 3" by auto
  have "tree_to_flp t flp3 False 0 = Inr (int c, t', flp')"
    "tiles (units flp') {..<3} 0 0 W H" "1 \<le> width (units flp' ! 1) * height (units flp' ! 1)"
    using r unfolding n by simp_all
  with t n show ?thesis by blast
qed

end
