(* ===== verification/Shape_Aspect.thy ===== *)
theory Shape_Aspect
  imports Shape_Add
begin

text \<open>
  Curves made from an area and a range of aspect ratios: \<open>shape_from_aspect\<close> returns a shape
  curve all of whose orientations have the area and an allowed aspect ratio.
\<close>

section \<open>Geometric progressions\<close>

lemma geometric_ratio_ok:
  assumes "0 < n" "0 < a" "a \<le> b"
  shows "\<exists>r. geometric_ratio r0 a b n = Inr r \<and> (\<forall>i < n. a \<le> a * r ^ i \<and> a * r ^ i \<le> b) \<and>
    (\<forall>i j. i \<le> j \<longrightarrow> j < n \<longrightarrow> a * r ^ i \<le> a * r ^ j)"
proof (cases "1 < n")
  case True
  define r where "r = (b / a) powr (1 / real (n - 1))"
  have q: "1 \<le> b / a" using assms by simp
  then have r: "1 \<le> r" by (simp add: r_def ge_one_powr_ge_zero)
  have top: "r ^ (n - 1) = b / a"
    using q True assms by (simp add: r_def powr_realpow [symmetric] powr_powr)
  have "a * r ^ i \<le> b" if "i < n" for i
  proof -
    have "r ^ i \<le> b / a" using power_increasing [OF _ r, of i "n - 1"] that top by simp
    then have "a * r ^ i \<le> a * (b / a)" using assms by (intro mult_left_mono) auto
    then show ?thesis using assms by simp
  qed
  moreover have "a \<le> a * r ^ i" for i using r assms by (simp add: one_le_power)
  moreover have "a * r ^ i \<le> a * r ^ j" if "i \<le> j" for i j
    using power_increasing [OF that r] assms by (intro mult_left_mono) auto
  moreover have "geometric_ratio r0 a b n = Inr r" using True assms by (simp add: geometric_ratio_def r_def)
  ultimately show ?thesis by blast
next
  case False
  with assms have "n = 1" by simp
  with assms show ?thesis by (simp add: geometric_ratio_def)
qed

text \<open>The fill loop writes \<open>n\<close> entries and keeps the others.\<close>

lemma fill_geometric_ok:
  assumes "off + n \<le> shape_size s" "lengths_ok s" "\<forall>i < n. 0 < a * r ^ i"
  shows "\<exists>s'. fill_geometric ar a r off n s = Inr s' \<and> lengths_ok s' \<and> shape_size s' = shape_size s \<and>
    left_pos s' = left_pos s \<and> right_pos s' = right_pos s \<and> median s' = median s \<and>
    (\<forall>k < shape_size s. if off \<le> k \<and> k < off + n
       then shape_x s' ! k = a * r ^ (k - off) \<and> shape_y s' ! k = ar / (a * r ^ (k - off))
       else shape_x s' ! k = shape_x s ! k \<and> shape_y s' ! k = shape_y s ! k)"
proof -
  let ?I = "\<lambda>i s'. lengths_ok s' \<and> shape_size s' = shape_size s \<and>
    left_pos s' = left_pos s \<and> right_pos s' = right_pos s \<and> median s' = median s \<and>
    (\<forall>k < shape_size s. if off \<le> k \<and> k < off + i
       then shape_x s' ! k = a * r ^ (k - off) \<and> shape_y s' ! k = ar / (a * r ^ (k - off))
       else shape_x s' ! k = shape_x s ! k \<and> shape_y s' ! k = shape_y s ! k)"
  show ?thesis
    unfolding fill_geometric_def
  proof (rule for_up_rule [where I = ?I])
    fix i t assume i: "i < n" and inv: "?I i t"
    have len: "off + i < length (shape_x t)" "off + i < length (shape_y t)"
      using inv i assms(1) by (simp_all add: lengths_ok_def)
    have "0 < a * r ^ i" using assms(3) i by blast
    then have nz: "a * r ^ i \<noteq> 0" by (rule less_imp_neq [symmetric])
    let ?t = "t\<lparr>shape_x := (shape_x t)[off + i := a * r ^ i], shape_y := (shape_y t)[off + i := ar / (a * r ^ i)]\<rparr>"
    have I: "?I (Suc i) ?t"
      using inv len by (auto simp: lengths_ok_def nth_list_update)
    have E: "rbind (wr (shape_x t) (off + i) (a * r ^ i)) (\<lambda>xs. rbind (rd xs (off + i)) (\<lambda>x.
        rbind (fdiv ar x) (\<lambda>h. rbind (wr (shape_y t) (off + i) h) (\<lambda>ys.
        Inr (t\<lparr>shape_x := xs, shape_y := ys\<rparr>))))) = Inr ?t"
      using len nz by simp
    show "\<exists>t'. rbind (wr (shape_x t) (off + i) (a * r ^ i)) (\<lambda>xs. rbind (rd xs (off + i)) (\<lambda>x.
        rbind (fdiv ar x) (\<lambda>h. rbind (wr (shape_y t) (off + i) h) (\<lambda>ys.
        Inr (t\<lparr>shape_x := xs, shape_y := ys\<rparr>))))) = Inr t' \<and> ?I (Suc i) t'"
      by (rule exI [of _ ?t]) (rule conjI [OF E I])
  qed (use assms in auto)
qed

section \<open>Orientations\<close>

lemma aspect_between:
  assumes "0 < ar" "0 < a" "a \<le> b" "sqrt (ar * a) \<le> x" "x \<le> sqrt (ar * b)"
  shows "0 < x" "0 < ar / x" "x * (ar / x) = ar" "a \<le> x / (ar / x)" "x / (ar / x) \<le> b"
proof -
  show x: "0 < x" using assms by (meson less_le_trans mult_pos_pos real_sqrt_gt_zero)
  then show "0 < ar / x" "x * (ar / x) = ar" using assms(1) by simp_all
  have "ar * a \<le> x\<^sup>2" using assms by (metis real_sqrt_le_iff real_sqrt_abs abs_of_pos x)
  moreover have "x\<^sup>2 \<le> ar * b"
    using assms x by (metis abs_of_pos real_sqrt_abs real_sqrt_le_iff)
  ultimately show "a \<le> x / (ar / x)" "x / (ar / x) \<le> b"
    using assms(1) x by (simp_all add: field_simps power2_eq_square)
qed

text \<open>The allowed aspect ratios; a rotable block may also take their inverses.\<close>

definition allowed_aspect :: "real \<Rightarrow> real \<Rightarrow> bool \<Rightarrow> real \<Rightarrow> bool" where
  "allowed_aspect mn mx rot q \<longleftrightarrow> (mn \<le> q \<and> q \<le> mx) \<or> (rot \<and> mn \<le> 1 / q \<and> 1 / q \<le> mx)"

definition oriented_curve :: "real \<Rightarrow> real \<Rightarrow> real \<Rightarrow> bool \<Rightarrow> shape_t \<Rightarrow> bool" where
  "oriented_curve ar mn mx rot s \<longleftrightarrow> curve_ok s \<and> left_pos s = None \<and> right_pos s = None \<and> median s = None \<and>
     (\<forall>k < shape_size s. shape_x s ! k * shape_y s ! k = ar \<and>
        allowed_aspect mn mx rot (shape_x s ! k / shape_y s ! k))"

text \<open>Ascending widths with the heights that give the area make a curve.\<close>

lemma area_curve_ok:
  assumes "0 < ar" "lengths_ok s" "0 < shape_size s"
    and "\<forall>k < shape_size s. 0 < shape_x s ! k \<and> shape_y s ! k = ar / shape_x s ! k"
    and "\<forall>i j. i \<le> j \<longrightarrow> j < shape_size s \<longrightarrow> shape_x s ! i \<le> shape_x s ! j"
  shows "curve_ok s"
proof -
  have "shape_y s ! j \<le> shape_y s ! i" if "i \<le> j" "j < shape_size s" for i j
  proof -
    have "0 < shape_x s ! i" "shape_x s ! i \<le> shape_x s ! j" using assms(4,5) that by auto
    then have "ar / shape_x s ! j \<le> ar / shape_x s ! i" using assms(1) by (intro divide_left_mono) auto
    then show ?thesis using assms(4) that by auto
  qed
  with assms show ?thesis by (auto simp: curve_ok_def lengths_ok_def)
qed

lemma one_range:
  assumes ar: "0 < ar" and ab: "0 < a" "a \<le> b" and sz: "0 < sz"
    and al: "\<And>q. a \<le> q \<Longrightarrow> q \<le> b \<Longrightarrow> allowed_aspect mn mx rot q"
  shows "\<exists>s. rbind (fsqrt (ar * a)) (\<lambda>minx. rbind (fsqrt (ar * b)) (\<lambda>maxx.
      rbind (geometric_ratio 1 minx maxx sz) (\<lambda>r. fill_geometric ar minx r 0 sz (shape_alloc sz)))) = Inr s \<and>
    oriented_curve ar mn mx rot s \<and> shape_size s = sz"
proof -
  let ?a = "sqrt (ar * a)" and ?b = "sqrt (ar * b)"
  have pos: "0 < ?a" "?a \<le> ?b" using ar ab by simp_all
  obtain r where r: "geometric_ratio 1 ?a ?b sz = Inr r" "\<forall>i < sz. ?a \<le> ?a * r ^ i \<and> ?a * r ^ i \<le> ?b"
    "\<forall>i j. i \<le> j \<longrightarrow> j < sz \<longrightarrow> ?a * r ^ i \<le> ?a * r ^ j"
    using geometric_ratio_ok [OF sz pos] by blast
  have gt: "\<forall>i < sz. 0 < ?a * r ^ i" using r(2) pos(1) by (meson less_le_trans)
  have al0: "lengths_ok (shape_alloc sz)" "shape_size (shape_alloc sz) = sz" "left_pos (shape_alloc sz) = None"
    "right_pos (shape_alloc sz) = None" "median (shape_alloc sz) = None"
    by (simp_all add: lengths_ok_def shape_alloc_def)
  obtain s where s: "fill_geometric ar ?a r 0 sz (shape_alloc sz) = Inr s" "lengths_ok s" "shape_size s = sz"
    "left_pos s = None" "right_pos s = None" "median s = None"
    "\<forall>k < sz. shape_x s ! k = ?a * r ^ k \<and> shape_y s ! k = ar / (?a * r ^ k)"
    using fill_geometric_ok [of 0 sz "shape_alloc sz" ?a r ar] gt al0 by auto
  have "curve_ok s"
    by (rule area_curve_ok [OF ar s(2)]) (use s(3,7) sz gt r(3) in auto)
  moreover have "\<forall>k < sz. shape_x s ! k * shape_y s ! k = ar \<and>
      allowed_aspect mn mx rot (shape_x s ! k / shape_y s ! k)"
  proof (intro allI impI)
    fix k assume k: "k < sz"
    then have "?a \<le> shape_x s ! k" "shape_x s ! k \<le> ?b" "shape_y s ! k = ar / shape_x s ! k"
      using s(7) r(2) by auto
    with aspect_between [OF ar ab, of "shape_x s ! k"] al
    show "shape_x s ! k * shape_y s ! k = ar \<and> allowed_aspect mn mx rot (shape_x s ! k / shape_y s ! k)"
      by simp
  qed
  ultimately show ?thesis
    using r(1) s ar ab by (intro exI [of _ s]) (simp add: oriented_curve_def)
qed


text \<open>Two disjoint ranges, the second after the first, fill the two halves.\<close>

lemma two_ranges:
  assumes ar: "0 < ar" and ab: "0 < a" "a \<le> b" "b \<le> a'" "a' \<le> b'" and n: "0 < n"
    and al: "\<And>q. a \<le> q \<Longrightarrow> q \<le> b \<Longrightarrow> allowed_aspect mn mx rot q"
      "\<And>q. a' \<le> q \<Longrightarrow> q \<le> b' \<Longrightarrow> allowed_aspect mn mx rot q"
  shows "\<exists>s. rbind (fsqrt (ar * a)) (\<lambda>minx. rbind (fsqrt (ar * b)) (\<lambda>maxx.
      rbind (geometric_ratio 1 minx maxx n) (\<lambda>r.
      rbind (fill_geometric ar minx r 0 n (shape_alloc (2 * n))) (\<lambda>s.
      rbind (fsqrt (ar * a')) (\<lambda>minx. rbind (fsqrt (ar * b')) (\<lambda>maxx.
      rbind (geometric_ratio r minx maxx n) (\<lambda>r. fill_geometric ar minx r n n s))))))) = Inr s \<and>
    oriented_curve ar mn mx rot s \<and> shape_size s = 2 * n"
proof -
  let ?a = "sqrt (ar * a)" and ?b = "sqrt (ar * b)" and ?a' = "sqrt (ar * a')" and ?b' = "sqrt (ar * b')"
  have pos: "0 < ?a" "?a \<le> ?b" "0 < ?a'" "?a' \<le> ?b'" "?b \<le> ?a'" using ar ab by simp_all
  obtain r where r: "geometric_ratio 1 ?a ?b n = Inr r" "\<forall>i < n. ?a \<le> ?a * r ^ i \<and> ?a * r ^ i \<le> ?b"
    "\<forall>i j. i \<le> j \<longrightarrow> j < n \<longrightarrow> ?a * r ^ i \<le> ?a * r ^ j"
    using geometric_ratio_ok [OF n pos(1,2)] by blast
  obtain r' where r': "geometric_ratio r ?a' ?b' n = Inr r'" "\<forall>i < n. ?a' \<le> ?a' * r' ^ i \<and> ?a' * r' ^ i \<le> ?b'"
    "\<forall>i j. i \<le> j \<longrightarrow> j < n \<longrightarrow> ?a' * r' ^ i \<le> ?a' * r' ^ j"
    using geometric_ratio_ok [OF n pos(3,4)] by blast
  have gt: "\<forall>i < n. 0 < ?a * r ^ i" "\<forall>i < n. 0 < ?a' * r' ^ i"
    using r(2) r'(2) pos(1,3) by (meson less_le_trans)+
  have al0: "lengths_ok (shape_alloc (2 * n))" "shape_size (shape_alloc (2 * n)) = 2 * n"
    "left_pos (shape_alloc (2 * n)) = None" "right_pos (shape_alloc (2 * n)) = None" "median (shape_alloc (2 * n)) = None"
    by (simp_all add: lengths_ok_def shape_alloc_def)
  obtain s1 where s1: "fill_geometric ar ?a r 0 n (shape_alloc (2 * n)) = Inr s1" "lengths_ok s1" "shape_size s1 = 2 * n"
    "left_pos s1 = None" "right_pos s1 = None" "median s1 = None"
    "\<forall>k < 2 * n. k < n \<longrightarrow> shape_x s1 ! k = ?a * r ^ k \<and> shape_y s1 ! k = ar / (?a * r ^ k)"
    using fill_geometric_ok [of 0 n "shape_alloc (2 * n)" ?a r ar] gt(1) al0 by auto
  obtain s where s: "fill_geometric ar ?a' r' n n s1 = Inr s" "lengths_ok s" "shape_size s = 2 * n"
    "left_pos s = None" "right_pos s = None" "median s = None"
    "\<forall>k < 2 * n. if n \<le> k \<and> k < n + n then shape_x s ! k = ?a' * r' ^ (k - n) \<and> shape_y s ! k = ar / (?a' * r' ^ (k - n))
       else shape_x s ! k = shape_x s1 ! k \<and> shape_y s ! k = shape_y s1 ! k"
    using fill_geometric_ok [of n n s1 ?a' r' ar] gt(2) s1(2-6) by auto
  have low: "shape_x s ! k = ?a * r ^ k \<and> shape_y s ! k = ar / shape_x s ! k" if "k < n" for k
  proof -
    have "k < 2 * n" using that by simp
    with s(7) s1(7) that show ?thesis by auto
  qed
  have high: "shape_x s ! k = ?a' * r' ^ (k - n) \<and> shape_y s ! k = ar / shape_x s ! k" if "n \<le> k" "k < 2 * n" for k
    using s(7) that by auto
  have lowb: "?a \<le> shape_x s ! k \<and> shape_x s ! k \<le> ?b" if "k < n" for k using low [OF that] r(2) that by auto
  have highb: "?a' \<le> shape_x s ! k \<and> shape_x s ! k \<le> ?b'" if "n \<le> k" "k < 2 * n" for k
    using high [OF that] r'(2) that by (auto dest: spec [where x = "k - n"])
  have mono: "shape_x s ! i \<le> shape_x s ! j" if "i \<le> j" "j < 2 * n" for i j
  proof -
    consider "j < n" | "i < n" "n \<le> j" | "n \<le> i" by linarith
    then show ?thesis
    proof cases
      case 1
      then show ?thesis using low [of i] low [of j] r(3) that by auto
    next
      case 2
      then show ?thesis using lowb [of i] highb [of j] pos(5) that by linarith
    next
      case 3
      then have "i - n \<le> j - n" "j - n < n" using that by auto
      with r'(3) have "?a' * r' ^ (i - n) \<le> ?a' * r' ^ (j - n)" by blast
      then show ?thesis using high [of i] high [of j] 3 that by auto
    qed
  qed
  have entry: "0 < shape_x s ! k \<and> shape_y s ! k = ar / shape_x s ! k \<and> shape_x s ! k * shape_y s ! k = ar \<and>
      allowed_aspect mn mx rot (shape_x s ! k / shape_y s ! k)" if k: "k < 2 * n" for k
  proof (cases "k < n")
    case True
    with lowb [OF True] low [OF True] aspect_between [OF ar ab(1,2), of "shape_x s ! k"] al(1) show ?thesis by simp
  next
    case False
    then have "n \<le> k" by simp
    have "0 < a'" using ab by linarith
    from aspect_between [OF ar this ab(4), of "shape_x s ! k"] highb [OF \<open>n \<le> k\<close> k] high [OF \<open>n \<le> k\<close> k] al(2)
    show ?thesis by simp
  qed
  have "curve_ok s"
    by (rule area_curve_ok [OF ar s(2)]) (use s(3) n entry mono in auto)
  moreover have "\<forall>k < shape_size s. shape_x s ! k * shape_y s ! k = ar \<and>
      allowed_aspect mn mx rot (shape_x s ! k / shape_y s ! k)" using entry s(3) by metis
  ultimately have "oriented_curve ar mn mx rot s" unfolding oriented_curve_def using s(4-6) by blast
  with r(1) r'(1) s1(1) s(1,3) ar ab show ?thesis by (intro exI [of _ s]) simp
qed

section \<open>The routine\<close>

lemma inverse_aspect:
  fixes mn mx q :: real
  assumes "0 < mn" "0 < mx" "0 < q"
  shows "1 / mx \<le> q \<and> q \<le> 1 / mn \<longleftrightarrow> mn \<le> 1 / q \<and> 1 / q \<le> mx"
  using assms by (auto simp: field_simps)

lemma four_bounds:
  fixes mn mx u v :: real
  assumes "mn \<le> 1" "1 \<le> mx" "v \<le> 1" "1 \<le> u"
  shows "min (min (min mn mx) u) v = min mn v" "max (max (max mn mx) u) v = max mx u"
  using assms by auto

lemma split_ranges:
  fixes mn mx u v :: real
  assumes "mn \<le> mx" "v \<le> u" "(1 < mn \<and> u < 1) \<or> (mx < 1 \<and> 1 < v)"
  shows "(min (min mn u) (min mx v) = mn \<and> max (min mn u) (min mx v) = mx \<and>
      min (max mn u) (max mx v) = v \<and> max (max mn u) (max mx v) = u \<and> mx < v) \<or>
    (min (min mn u) (min mx v) = v \<and> max (min mn u) (min mx v) = u \<and>
      min (max mn u) (max mx v) = mn \<and> max (max mn u) (max mx v) = mx \<and> u < mn)"
  using assms(3)
proof
  assume "1 < mn \<and> u < 1"
  with assms(1,2) show ?thesis by simp
next
  assume "mx < 1 \<and> 1 < v"
  with assms(1,2) show ?thesis by simp
qed

lemma shape_from_aspect_ok:
  assumes ar: "0 < ar" and mn: "0 < mn" "mn \<le> mx" and n: "1 < orients" "even orients"
  shows "\<exists>s. shape_from_aspect ar mn mx rot orients = Inr s \<and> oriented_curve ar mn mx rot s \<and>
    shape_size s = (if mn = mx then if rot then 2 else 1 else nat orients)"
proof -
  define sz where "sz = (if mn = mx then 1 + (if rot then 1 else 0) else nat orients)"
  have sz: "0 < sz" "rot \<Longrightarrow> even sz" "rot \<Longrightarrow> 0 < sz div 2"
    using n by (auto simp: sz_def even_nat_iff)
  have size_eq: "(if mn = mx then if rot then 2 else 1 else nat orients) = sz" by (simp add: sz_def)
  show ?thesis
  proof (cases "rot \<and> \<not> (mn \<le> 1 \<and> 1 \<le> mx)")
    case False
    define lo where "lo = (if rot then min (min (min mn mx) (1 / mn)) (1 / mx) else mn)"
    define hi where "hi = (if rot then max (max (max mn mx) (1 / mn)) (1 / mx) else mx)"
    have lh: "0 < lo" "lo \<le> hi" using mn by (auto simp: lo_def hi_def)
    have al: "allowed_aspect mn mx rot q" if "lo \<le> q" "q \<le> hi" for q
    proof (cases rot)
      case True
      have q: "0 < q" using lh that by simp
      have one: "mn \<le> 1" "1 \<le> mx" "1 / mx \<le> 1" "1 \<le> 1 / mn" using False True mn by auto
      have "lo = min mn (1 / mx)" "hi = max mx (1 / mn)"
        using four_bounds [OF one] mn(2) True by (simp_all add: lo_def hi_def)
      then have "(mn \<le> q \<and> q \<le> mx) \<or> (1 / mx \<le> q \<and> q \<le> 1 / mn)" using that one by linarith
      then show ?thesis using True inverse_aspect [OF mn(1) _ q, of mx] mn by (auto simp: allowed_aspect_def)
    qed (use that in \<open>simp add: lo_def hi_def allowed_aspect_def\<close>)
    show ?thesis
      unfolding size_eq shape_from_aspect_def Let_def sz_def [symmetric]
      using one_range [OF ar lh sz(1) al] False n mn
      by (cases rot) (simp_all add: MAX4_def MIN4_def lo_def hi_def)
  next
    case True
    then have rot: rot and out: "1 < mn \<or> mx < 1" by auto
    define k where "k = sz div 2"
    have k: "0 < k" "sz = 2 * k" using sz(2,3) rot by (auto simp: k_def)
    let ?tl = "min mn (1 / mn)" and ?th = "min mx (1 / mx)" and ?ul = "max mn (1 / mn)" and ?uh = "max mx (1 / mx)"
    have inv: "1 / mx \<le> 1 / mn" "0 < 1 / mx" using mn by (simp_all add: frac_le)
    have eqs: "(min ?tl ?th = mn \<and> max ?tl ?th = mx \<and> min ?ul ?uh = 1 / mx \<and> max ?ul ?uh = 1 / mn \<and> mx < 1 / mx) \<or>
      (min ?tl ?th = 1 / mx \<and> max ?tl ?th = 1 / mn \<and> min ?ul ?uh = mn \<and> max ?ul ?uh = mx \<and> 1 / mn < mn)"
    proof (rule split_ranges [OF mn(2) inv(1)])
      show "(1 < mn \<and> 1 / mn < 1) \<or> (mx < 1 \<and> 1 < 1 / mx)" using out mn by auto
    qed
    have ord: "0 < min ?tl ?th" "min ?tl ?th \<le> max ?tl ?th" "max ?tl ?th \<le> min ?ul ?uh" "min ?ul ?uh \<le> max ?ul ?uh"
      using eqs mn inv by auto
    have al: "allowed_aspect mn mx rot q" if "mn \<le> q \<and> q \<le> mx \<or> 1 / mx \<le> q \<and> q \<le> 1 / mn" for q
    proof -
      have "0 < q" using that mn inv by linarith
      with that rot inverse_aspect [OF mn(1) _ this, of mx] mn show ?thesis by (auto simp: allowed_aspect_def)
    qed
    have al1: "allowed_aspect mn mx rot q" if "min ?tl ?th \<le> q" "q \<le> max ?tl ?th" for q
      by (rule al) (use that eqs in metis)
    have al2: "allowed_aspect mn mx rot q" if "min ?ul ?uh \<le> q" "q \<le> max ?ul ?uh" for q
      by (rule al) (use that eqs in metis)
    show ?thesis
      unfolding size_eq shape_from_aspect_def Let_def sz_def [symmetric]
      using two_ranges [OF ar ord k(1) al1 al2] rot out n mn by (auto simp: k(2))
  qed
qed


text \<open>
  C36: for a positive area and range of aspect ratios, \<open>shape_from_aspect\<close> stops on an odd or
  too small number of orientations and otherwise returns a leaf curve of that many orientations
  (one, or two for a rotable block, when the range is a point), each of exactly the area and of
  an allowed aspect ratio, with widths ascending.
\<close>

theorem shape_from_aspect_orientations:
  assumes "0 < ar" "0 < mn" "mn \<le> mx"
  shows "if orients \<le> 1 \<or> odd orients
    then shape_from_aspect ar mn mx rot orients =
      Inl (Fatal ''n_orients should be an even number greater than 1'')
    else \<exists>s. shape_from_aspect ar mn mx rot orients = Inr s \<and> curve_ok s \<and> left_pos s = None \<and>
      shape_size s = (if mn = mx then if rot then 2 else 1 else nat orients) \<and>
      (\<forall>k < shape_size s. shape_x s ! k * shape_y s ! k = ar \<and>
         allowed_aspect mn mx rot (shape_x s ! k / shape_y s ! k))"
proof (cases "orients \<le> 1 \<or> odd orients")
  case True
  then show ?thesis by (simp add: shape_from_aspect_def)
next
  case False
  then have "1 < orients" "even orients" by auto
  from shape_from_aspect_ok [OF assms this, of rot] obtain s where
    "shape_from_aspect ar mn mx rot orients = Inr s" "oriented_curve ar mn mx rot s"
    "shape_size s = (if mn = mx then if rot then 2 else 1 else nat orients)" by blast
  with False show ?thesis unfolding oriented_curve_def by auto
qed

theorem shape_from_aspect_orientations_witness:
  "\<exists>s. shape_from_aspect 2 1 2 True 4 = Inr s \<and> curve_ok s \<and> shape_size s = 4"
  using shape_from_aspect_orientations [of 2 1 2 4 True] by auto

end
