(* ===== verification/Flp_Wrap.thy ===== *)
theory Flp_Wrap
  imports Flp_Geom
begin

text \<open>
  The wrapping of the L2 around the core: the dimensions that \<open>flp_wrap_l2\<close> solves for, and the
  proof that a core that tiles its bounding rectangle becomes a chip that is tiled by the core and
  the three L2 blocks, of exactly the core's and the L2's area.
\<close>

section \<open>The dimensions\<close>

lemma quadratic_root:
  fixes s k a :: real
  assumes "0 < k" "0 < a" "0 < s"
  defines "x \<equiv> (sqrt (s * s + 8 * k * a) - s) / (4 * k)"
  shows "0 < x" "2 * k * x * x + s * x = a"
proof -
  let ?q = "sqrt (s * s + 8 * k * a)"
  have ka: "0 < k * a" using assms(1,2) by (rule mult_pos_pos)
  have "0 \<le> s * s" by simp
  then have "0 \<le> s * s + 8 * k * a" using ka by linarith
  then have q: "?q * ?q = s * s + 8 * k * a" by simp
  have "sqrt (s * s) < ?q" using ka by (intro real_sqrt_less_mono) linarith
  then have "s < ?q" using assms(3) by simp
  then show "0 < x" using assms(1) by (simp add: x_def)
  have e: "4 * k * x = ?q - s" using assms(1) by (simp add: x_def)
  have "8 * k * (2 * k * x * x + s * x) = (4 * k * x) * (4 * k * x) + 2 * s * (4 * k * x)"
    by (simp add: algebra_simps)
  also have "\<dots> = ?q * ?q - s * s" unfolding e by (simp add: algebra_simps)
  also have "\<dots> = 8 * k * a" using q by simp
  finally show "2 * k * x * x + s * x = a" using assms(1) by simp
qed

text \<open>
  The three values: the chip's width is the core's and the two arms', the L2 area is met, and
  the chip is a square unless that leaves no room, when one of the two dimensions is
  \<open>WRAP_L2_RATIO\<close> times the other.
\<close>

lemma chip_area:
  fixes x y k w h :: real
  shows "(2 * x + w) * (k * x + h) = w * h + (2 * k * x * x + (k * w + 2 * h) * x)"
    and "(2 * (k * y) + w) * (y + h) = w * h + (2 * k * y * y + (w + 2 * k * h) * y)"
  by (simp_all add: algebra_simps)

lemma l2_dimensions_ok:
  assumes "0 < cw" "0 < ch" "0 < a"
  shows "\<exists>x y side. l2_dimensions (cw * ch) cw ch a = Inr (x, y, side) \<and> 0 < x \<and> 0 < y \<and>
    side = 2 * x + cw \<and> side * (y + ch) = cw * ch + a \<and>
    (side = y + ch \<or> y = WRAP_L2_RATIO * x \<or> x = WRAP_L2_RATIO * y)"
proof -
  let ?s = "sqrt (cw * ch + a)"
  have pos: "0 < cw * ch + a" using assms by (simp add: add_pos_pos)
  have W: "(0::real) < WRAP_L2_RATIO" by (simp add: WRAP_L2_RATIO_def)
  show ?thesis
  proof (cases "(?s - cw) / 2 \<le> 0 \<or> ?s - ch \<le> 0")
    case False
    have "?s * ?s = cw * ch + a" using pos by simp
    moreover have "l2_dimensions (cw * ch) cw ch a = Inr ((?s - cw) / 2, ?s - ch, ?s)"
      using False pos by (simp only: l2_dimensions_def fsqrt_ok less_imp_le rbind_Inr Let_def if_False)
    moreover have "0 < (?s - cw) / 2" "0 < ?s - ch" using False by simp_all
    moreover have "?s = 2 * ((?s - cw) / 2) + cw" by (simp add: diff_divide_distrib)
    moreover have "?s = (?s - ch) + ch" by simp
    ultimately show ?thesis by metis
  next
    case True
    show ?thesis
    proof (cases "ch \<le> cw")
      case le: True
      let ?t = "WRAP_L2_RATIO * cw + 2 * ch"
      let ?x = "(sqrt (?t * ?t + 8 * WRAP_L2_RATIO * a) - ?t) / (4 * WRAP_L2_RATIO)"
      have t: "0 < ?t" using assms W by (simp add: add_pos_pos)
      note root = quadratic_root [OF W assms(3) t]
      have nn: "0 \<le> ?t * ?t + 8 * WRAP_L2_RATIO * a" using assms W by simp
      have "(2 * ?x + cw) * (WRAP_L2_RATIO * ?x + ch) = cw * ch + (2 * WRAP_L2_RATIO * ?x * ?x + ?t * ?x)"
        by (rule chip_area(1))
      then have "(2 * ?x + cw) * (WRAP_L2_RATIO * ?x + ch) = cw * ch + a" by (simp only: root(2))
      moreover have "0 < WRAP_L2_RATIO * ?x" using W root(1) by (rule mult_pos_pos)
      moreover have "l2_dimensions (cw * ch) cw ch a = Inr (?x, WRAP_L2_RATIO * ?x, 2 * ?x + cw)"
        using True le pos nn by (simp only: l2_dimensions_def fsqrt_ok less_imp_le rbind_Inr Let_def if_True prod.case)
      ultimately show ?thesis using root(1) by blast
    next
      case gt: False
      let ?t = "cw + 2 * WRAP_L2_RATIO * ch"
      let ?y = "(sqrt (?t * ?t + 8 * WRAP_L2_RATIO * a) - ?t) / (4 * WRAP_L2_RATIO)"
      have t: "0 < ?t" using assms W by (simp add: add_pos_pos)
      note root = quadratic_root [OF W assms(3) t]
      have nn: "0 \<le> ?t * ?t + 8 * WRAP_L2_RATIO * a" using assms W by simp
      have "(2 * (WRAP_L2_RATIO * ?y) + cw) * (?y + ch) = cw * ch + (2 * WRAP_L2_RATIO * ?y * ?y + ?t * ?y)"
        by (rule chip_area(2))
      then have "(2 * (WRAP_L2_RATIO * ?y) + cw) * (?y + ch) = cw * ch + a" by (simp only: root(2))
      moreover have "0 < WRAP_L2_RATIO * ?y" using W root(1) by (rule mult_pos_pos)
      moreover have "l2_dimensions (cw * ch) cw ch a = Inr (WRAP_L2_RATIO * ?y, ?y, 2 * (WRAP_L2_RATIO * ?y) + cw)"
        using True gt pos nn by (simp only: l2_dimensions_def fsqrt_ok less_imp_le rbind_Inr Let_def if_True if_False prod.case)
      ultimately show ?thesis using root(1) by blast
    qed
  qed
qed

section \<open>Names and wires leave the geometry alone\<close>

definition geom :: "unit_t \<Rightarrow> real \<times> real \<times> real \<times> real" where
  "geom u = (leftx u, bottomy u, width u, height u)"

text \<open>The floorplan \<open>g\<close> differs from \<open>f\<close> in names and wires at most.\<close>

definition same_places :: "nat \<Rightarrow> flp_t \<Rightarrow> flp_t \<Rightarrow> bool" where
  "same_places N f g \<longleftrightarrow> n_units g = n_units f \<and> length (units f) = N \<and> length (units g) = N \<and>
     rows_ok (wire_density g) N N \<and> (\<forall>i < N. geom (units g ! i) = geom (units f ! i))"

lemma same_places_refl: "length (units f) = N \<Longrightarrow> rows_ok (wire_density f) N N \<Longrightarrow> same_places N f f"
  by (simp add: same_places_def)

lemma name_step:
  assumes "same_places N f g" "i < N"
  shows "\<exists>g'. set_name i s g = Inr g' \<and> same_places N f g' \<and> wire_density g' = wire_density g \<and>
      unit_name (units g' ! i) = s \<and> (\<forall>j. j \<noteq> i \<longrightarrow> units g' ! j = units g ! j)"
    and "\<exists>g'. append_name i s g = Inr g' \<and> same_places N f g' \<and> wire_density g' = wire_density g \<and>
      unit_name (units g' ! i) = unit_name (units g ! i) @ s \<and> (\<forall>j. j \<noteq> i \<longrightarrow> units g' ! j = units g ! j)"
  using assms by (auto simp: same_places_def set_name_def append_name_def geom_def nth_list_update)

lemma wire_step:
  assumes "same_places N f g" "i < N" "j < N"
  shows "\<exists>g'. set_wire i j d g = Inr g' \<and> same_places N f g' \<and> units g' = units g"
proof -
  let ?w = "(wire_density g)[i := (wire_density g ! i)[j := d]]"
  have r: "rows_ok (wire_density g) N N" using assms(1) by (simp add: same_places_def)
  then have "set_wire i j d g = Inr (g\<lparr>wire_density := ?w\<rparr>)" using assms(2,3) by (simp add: set_wire_def)
  moreover have "same_places N f (g\<lparr>wire_density := ?w\<rparr>)" using assms(1) r by (simp add: same_places_def)
  ultimately show ?thesis by simp
qed

text \<open>
  The description has connectivity for the blocks \<open>from_i\<close> and below \<open>sz\<close>, and the floorplan has
  room for the three L2 blocks.
\<close>

lemma copy_l2_info_ok:
  assumes "length (units flp) = N" "rows_ok (wire_density flp) N N" "to_i + L2_ARMS < N" "sz \<le> N"
    and "from_i < length (desc_units desc)" "rows_ok (desc_wire_density desc) M M" "from_i < M" "sz \<le> M"
  shows "\<exists>g. copy_l2_info flp to_i desc from_i sz = Inr g \<and> same_places N flp g \<and>
    (\<forall>i < to_i. units g ! i = units flp ! i) \<and>
    unit_name (units g ! to_i) = up_name (desc_units desc ! from_i) \<and>
    unit_name (units g ! (to_i + 1)) = up_name (desc_units desc ! from_i) @ L2_LEFT_STR \<and>
    unit_name (units g ! (to_i + 2)) = up_name (desc_units desc ! from_i) @ L2_RIGHT_STR"
proof -
  let ?nm = "up_name (desc_units desc ! from_i)"
  let ?I = "\<lambda>k g. same_places N flp g \<and> (\<forall>i < to_i. units g ! i = units flp ! i) \<and>
    (\<forall>m < k. unit_name (units g ! (to_i + m)) = ?nm)"
  let ?wires = "\<lambda>k j flp. rbind (rd2 (desc_wire_density desc) from_i j) (\<lambda>d.
         rbind (set_wire (to_i + k) j d flp) (\<lambda>flp.
         rbind (rd2 (desc_wire_density desc) j from_i) (\<lambda>d. set_wire j (to_i + k) d flp)))"
  let ?body = "\<lambda>k flp. rbind (rd (desc_units desc) from_i) (\<lambda>u.
       rbind (set_name (to_i + k) (up_name u) flp) (\<lambda>flp. for_up 0 sz (?wires k) flp))"
  have wires: "\<exists>g'. for_up 0 sz (?wires k) g = Inr g' \<and> (same_places N flp g' \<and> units g' = units g)"
    if init: "same_places N flp g" and kN: "to_i + k < N" for k g
  proof (rule for_up_rule [where I = "\<lambda>_ g'. same_places N flp g' \<and> units g' = units g"])
    fix j t assume j: "j < sz" and t: "same_places N flp t \<and> units t = units g"
    have jN: "j < N" "j < M" using j assms by auto
    obtain t1 where t1: "set_wire (to_i + k) j (desc_wire_density desc ! from_i ! j) t = Inr t1"
      "same_places N flp t1" "units t1 = units t"
      using wire_step [OF conjunct1 [OF t] kN jN(1)] by blast
    obtain t2 where t2: "set_wire j (to_i + k) (desc_wire_density desc ! j ! from_i) t1 = Inr t2"
      "same_places N flp t2" "units t2 = units t1"
      using wire_step [OF t1(2) jN(1) kN] by blast
    show "\<exists>t'. ?wires k j t = Inr t' \<and> same_places N flp t' \<and> units t' = units g"
      using t t1 t2 jN assms(6,7) by simp
  qed (use init in auto)
  have step: "\<exists>g'. ?body k g = Inr g' \<and> ?I (Suc k) g'" if k: "k < L2_ARMS + 1" and inv: "?I k g" for k g
  proof -
    have kN: "to_i + k < N" using k assms(3) by simp
    obtain g1 where g1: "set_name (to_i + k) ?nm g = Inr g1" "same_places N flp g1"
      "unit_name (units g1 ! (to_i + k)) = ?nm" "\<forall>j. j \<noteq> to_i + k \<longrightarrow> units g1 ! j = units g ! j"
      using name_step(1) [OF conjunct1 [OF inv] kN, of ?nm] by blast
    obtain g2 where g2: "for_up 0 sz (?wires k) g1 = Inr g2" "same_places N flp g2" "units g2 = units g1"
      using wires [OF g1(2) kN] by blast
    have "unit_name (units g2 ! (to_i + m)) = ?nm" if "m < Suc k" for m
      using that inv g1(3,4) g2(3) by (cases "m = k") auto
    moreover have "units g2 ! i = units flp ! i" if "i < to_i" for i
      using that inv g1(4) g2(3) by simp
    ultimately show ?thesis using g1(1) g2(1,2) assms(5) by simp
  qed
  obtain g where g: "for_up 0 (L2_ARMS + 1) ?body flp = Inr g" "?I (L2_ARMS + 1) g"
    using for_up_rule [of 0 "L2_ARMS + 1" ?I flp ?body] step same_places_refl [OF assms(1,2)] by auto
  have arms: "to_i + 1 < N" "to_i + 2 < N" "L2_ARMS = 2" "L2_LEFT = 0" "L2_RIGHT = 1"
    using assms(3) by (simp_all add: L2_ARMS_def L2_LEFT_def L2_RIGHT_def)
  have "\<And>m. m < L2_ARMS + 1 \<Longrightarrow> unit_name (units g ! (to_i + m)) = ?nm" using g(2) by blast
  from this [of 0] this [of 1] this [of 2] have nm: "unit_name (units g ! (to_i + 0)) = ?nm" "unit_name (units g ! (to_i + 1)) = ?nm"
    "unit_name (units g ! (to_i + 2)) = ?nm"
    using arms(3) by simp_all
  obtain g1 where g1: "append_name (to_i + 1) L2_LEFT_STR g = Inr g1" "same_places N flp g1"
    "unit_name (units g1 ! (to_i + 1)) = ?nm @ L2_LEFT_STR" "\<forall>j. j \<noteq> to_i + 1 \<longrightarrow> units g1 ! j = units g ! j"
    using name_step(2) [OF conjunct1 [OF g(2)] arms(1), of L2_LEFT_STR] nm(2) by auto
  obtain g2 where g2: "append_name (to_i + 2) L2_RIGHT_STR g1 = Inr g2" "same_places N flp g2"
    "unit_name (units g2 ! (to_i + 2)) = ?nm @ L2_RIGHT_STR" "\<forall>j. j \<noteq> to_i + 2 \<longrightarrow> units g2 ! j = units g1 ! j"
    using name_step(2) [OF g1(2) arms(2), of L2_RIGHT_STR] nm(3) g1(4) by auto
  have "copy_l2_info flp to_i desc from_i sz = Inr g2"
    unfolding copy_l2_info_def g(1) using g1(1) g2(1) by (simp add: Let_def L2_ARMS_def L2_LEFT_def L2_RIGHT_def numeral_2_eq_2)
  moreover have "\<forall>i < to_i. units g2 ! i = units flp ! i" using g(2) g1(4) g2(4) by simp
  moreover have "unit_name (units g2 ! to_i) = ?nm" using nm(1) g1(4) g2(4) by simp
  moreover have "unit_name (units g2 ! (to_i + 1)) = ?nm @ L2_LEFT_STR" using g1(3) g2(4) by simp
  ultimately show ?thesis using g2(2,3) by blast
qed

section \<open>The wrapped chip\<close>

lemma geom_eq:
  assumes "geom v = geom u"
  shows "leftx v = leftx u" "bottomy v = bottomy u" "width v = width u" "height v = height u"
  using assms by (simp_all add: geom_def)

lemma place_unit_ok:
  "i < length (units flp) \<Longrightarrow> place_unit i w h l b flp =
     Inr (flp\<lparr>units := (units flp)[i := (units flp ! i)\<lparr>width := w, height := h, leftx := l, bottomy := b\<rparr>]\<rparr>)"
  by (simp add: place_unit_def)

text \<open>The core with a strip below it and an arm on each side.\<close>

lemma tiles_wrapped:
  assumes core: "tiles us {..<n} x y cw ch" and pos: "0 < x" "0 < y" "0 < cw" "0 < ch"
    and strip: "geom (us ! n) = (0, 0, 2 * x + cw, y)" and left: "geom (us ! (n + 1)) = (0, y, x, ch)"
    and right: "geom (us ! (n + 2)) = (x + cw, y, x, ch)"
  shows "tiles us {..<n + 3} 0 0 (2 * x + cw) (y + ch)"
proof -
  have l: "tiles us {n + 1} 0 y x ch" and s: "tiles us {n} 0 0 (2 * x + cw) y"
    and r: "tiles us {n + 2} (x + cw) y x ch"
    using assms by (auto intro!: tiles_single simp: geom_def)
  have "tiles us ({n + 1} \<union> {..<n}) 0 y (x + cw) ch"
    using tiles_beside [OF l, of "{..<n}" cw] core pos by simp
  then have "tiles us ({n + 1} \<union> {..<n} \<union> {n + 2}) 0 y (x + cw + x) ch"
    using tiles_beside [of us "{n + 1} \<union> {..<n}" 0 y "x + cw" ch "{n + 2}" x] r pos by simp
  moreover have "x + cw + x = 2 * x + cw" by simp
  ultimately have "tiles us ({n + 1} \<union> {..<n} \<union> {n + 2}) 0 (0 + y) (2 * x + cw) ch" by simp
  then have "tiles us ({n} \<union> ({n + 1} \<union> {..<n} \<union> {n + 2})) 0 0 (2 * x + cw) (y + ch)"
    by (intro tiles_above [OF s]) (use pos in auto)
  moreover have "{n} \<union> ({n + 1} \<union> {..<n} \<union> {n + 2}) = {..<n + 3}" by auto
  ultimately show ?thesis by simp
qed

text \<open>The last three steps of \<open>flp_wrap_l2\<close>.\<close>

definition place_three :: "flp_t \<Rightarrow> real \<Rightarrow> real \<Rightarrow> real \<Rightarrow> real \<Rightarrow> real \<Rightarrow> flp_t res" where
  "place_three flp side y x ch cw =
     rbind (place_unit (n_units flp - 1 - L2_ARMS) side y 0 0 flp) (\<lambda>flp.
     rbind (place_unit (n_units flp - L2_ARMS + L2_LEFT) x ch 0 y flp) (\<lambda>flp.
     place_unit (n_units flp - L2_ARMS + L2_RIGHT) x ch (x + cw) y flp))"

lemma place_three_ok:
  assumes "n_units flp = n + 3" "n + 3 \<le> length (units flp)"
  shows "\<exists>g. place_three flp side y x ch cw = Inr g \<and> n_units g = n + 3 \<and> length (units g) = length (units flp) \<and>
    (\<forall>i. unit_name (units g ! i) = unit_name (units flp ! i)) \<and> (\<forall>i < n. units g ! i = units flp ! i) \<and>
    geom (units g ! n) = (0, 0, side, y) \<and> geom (units g ! (n + 1)) = (0, y, x, ch) \<and>
    geom (units g ! (n + 2)) = (x + cw, y, x, ch)"
  using assms
  by (simp add: place_three_def place_unit_ok L2_ARMS_def L2_LEFT_def L2_RIGHT_def geom_def nth_list_update)

lemma drop_three: "n + 3 \<le> length us \<Longrightarrow> drop n (take (n + 3) us) = [us ! n, us ! (n + 1), us ! (n + 2)]"
  by (rule nth_equalityI) (auto simp: less_Suc_eq numeral_3_eq_3 nth_append)

text \<open>The description's last block is the L2, and the floorplan has room for its three parts.\<close>

definition wrap_ok :: "flp_t \<Rightarrow> flp_desc_t \<Rightarrow> bool" where
  "wrap_ok flp desc \<longleftrightarrow> flp_ok flp \<and>
     n_units flp + 3 \<le> length (units flp) \<and> rows_ok (wire_density flp) (length (units flp)) (length (units flp)) \<and>
     desc_n_units desc < length (desc_units desc) \<and> desc_n_units desc \<le> length (units flp) \<and>
     rows_ok (desc_wire_density desc) (length (desc_units desc)) (length (desc_units desc)) \<and>
     0 < unit_area (desc_units desc ! desc_n_units desc)"

abbreviation l2_of :: "flp_desc_t \<Rightarrow> unplaced_t" where
  "l2_of desc \<equiv> desc_units desc ! desc_n_units desc"

text \<open>
  C27: when the core tiles its bounding rectangle, the chip with the L2 wrapped around it is a
  rectangle with its corner in the origin that the core's blocks and the three L2 blocks tile;
  its area is the core's and the L2's; it is a square unless a dimension of the L2 is
  \<open>WRAP_L2_RATIO\<close> times the other one; the core's blocks keep their names and the L2 blocks
  get the label of the description and its two extensions.
\<close>

theorem flp_wrap_l2_tiles:
  assumes ok: "wrap_ok flp desc" and dims: "get_total_width flp = Inr cw" "get_total_height flp = Inr ch" "0 < cw" "0 < ch"
    and core: "tiles (units flp) {..<n_units flp} (min_of leftx flp) (min_of bottomy flp) cw ch"
  shows "\<exists>g x y. flp_wrap_l2 flp desc = Inr g \<and> n_units g = n_units flp + 3 \<and> 0 < x \<and> 0 < y \<and>
    tiles (units g) {..<n_units g} 0 0 (2 * x + cw) (y + ch) \<and>
    (2 * x + cw) * (y + ch) = cw * ch + unit_area (l2_of desc) \<and>
    (2 * x + cw = y + ch \<or> y = WRAP_L2_RATIO * x \<or> x = WRAP_L2_RATIO * y) \<and>
    (\<forall>i < n_units flp. unit_name (units g ! i) = unit_name (units flp ! i)) \<and>
    map unit_name (drop (n_units flp) (placed g)) =
      [up_name (l2_of desc), up_name (l2_of desc) @ L2_LEFT_STR, up_name (l2_of desc) @ L2_RIGHT_STR]"
proof -
  let ?n = "n_units flp" and ?N = "length (units flp)" and ?a = "unit_area (l2_of desc)"
  let ?mx = "min_of leftx flp" and ?my = "min_of bottomy flp"
  have fok: "flp_ok flp" and room: "?n + 3 \<le> ?N" using ok by (simp_all add: wrap_ok_def)
  have ar: "get_total_area flp = Inr (cw * ch)"
    using core by (simp add: get_total_area_ok [OF fok] tiles_def)
  obtain x y side where d: "l2_dimensions (cw * ch) cw ch ?a = Inr (x, y, side)" "0 < x" "0 < y"
    "side = 2 * x + cw" "side * (y + ch) = cw * ch + ?a"
    "side = y + ch \<or> y = WRAP_L2_RATIO * x \<or> x = WRAP_L2_RATIO * y"
    using l2_dimensions_ok [OF dims(3,4), of ?a] ok by (auto simp: wrap_ok_def)
  let ?f1 = "map_placed (\<lambda>u. u\<lparr>leftx := leftx u + (x - ?mx), bottomy := bottomy u + (y - ?my)\<rparr>) flp"
  note m = map_placed_props [OF fok]
  let ?f2 = "?f1\<lparr>n_units := ?n + 3\<rparr>"
  have "length (units ?f2) = ?N" "rows_ok (wire_density ?f2) ?N ?N" "?n + L2_ARMS < ?N"
    "desc_n_units desc \<le> ?N" "desc_n_units desc < length (desc_units desc)"
    "rows_ok (desc_wire_density desc) (length (desc_units desc)) (length (desc_units desc))"
    using m ok room by (simp_all add: wrap_ok_def L2_ARMS_def)
  from copy_l2_info_ok [OF this(1-6) this(5)] this(5)
  obtain f3 where f3: "copy_l2_info ?f2 ?n desc (desc_n_units desc) (desc_n_units desc) = Inr f3"
    "same_places ?N ?f2 f3" "\<forall>i < ?n. units f3 ! i = units ?f2 ! i"
    "unit_name (units f3 ! ?n) = up_name (l2_of desc)"
    "unit_name (units f3 ! (?n + 1)) = up_name (l2_of desc) @ L2_LEFT_STR"
    "unit_name (units f3 ! (?n + 2)) = up_name (l2_of desc) @ L2_RIGHT_STR" by auto
  have n3: "n_units f3 = ?n + 3" "length (units f3) = ?N" using f3(2) by (simp_all add: same_places_def)
  obtain g where g: "place_three f3 side y x ch cw = Inr g" "n_units g = ?n + 3" "length (units g) = ?N"
    "\<forall>i. unit_name (units g ! i) = unit_name (units f3 ! i)"
    "\<forall>i < ?n. units g ! i = units f3 ! i" "geom (units g ! ?n) = (0, 0, side, y)"
    "geom (units g ! (?n + 1)) = (0, y, x, ch)" "geom (units g ! (?n + 2)) = (x + cw, y, x, ch)"
    using place_three_ok [of f3 ?n side y x ch cw] n3 room by auto
  have run: "flp_wrap_l2 flp desc = Inr g"
    using ar dims(1,2) d(1) f3(1) g(1) m(2) ok
    by (simp add: flp_wrap_l2_def place_three_def flp_translate_ok [OF fok] wrap_ok_def L2_ARMS_def)
  have tiled: "tiles (units g) {..<n_units g} 0 0 (2 * x + cw) (y + ch)"
  proof -
    have "units g ! i = move_unit (x - ?mx) (y - ?my) (units flp ! i)" if "i < ?n" for i
      using that g(5) f3(3) m(4) by (simp add: move_unit_def)
    then have "tiles (units g) {..<?n} (?mx + (x - ?mx)) (?my + (y - ?my)) cw ch"
      by (intro tiles_moved [OF core]) simp
    then have "tiles (units g) {..<?n} x y cw ch" by simp
    then show ?thesis using tiles_wrapped [of "units g" ?n x y cw ch] d(2,3,4) dims(3,4) g by simp
  qed
  have kept: "\<forall>i < ?n. unit_name (units g ! i) = unit_name (units flp ! i)"
    using g(4) f3(3) m(4) by simp
  have l2: "map unit_name (drop ?n (placed g)) =
      [up_name (l2_of desc), up_name (l2_of desc) @ L2_LEFT_STR, up_name (l2_of desc) @ L2_RIGHT_STR]"
    using drop_three [of ?n "units g"] g(2,3,4) f3(4-6) room by (simp add: placed_def)
  show ?thesis
    by (intro exI [of _ g] exI [of _ x] exI [of _ y] conjI)
      (fact run g(2) d(2,3) tiled kept l2 d(5,6) [unfolded d(4)])+
qed

end
