(* ===== verification/Flp_Motion.thy ===== *)
theory Flp_Motion
  imports Flp_Geom
begin

text \<open>
  Adjacency and shared edges of placed blocks, and the wire metric: the properties of
  \<open>is_horiz_adj\<close>, \<open>is_vert_adj\<close>, \<open>get_shared_len\<close> and \<open>get_wire_metric\<close>.

  The motions of a floorplan: translations, scalings and the eight orientations as maps of the
  plane, their inverses, and their effect on areas, distances and tilings.
\<close>

section \<open>Adjacency\<close>

lemma diagonal_sym: "diagonal u v = diagonal v u"
  unfolding diagonal_def using eq_sym by metis

lemma horiz_adj_sym: "horiz_adj u v = horiz_adj v u"
proof -
  have "(eq (leftx u) (rightx v) \<or> eq (rightx u) (leftx v)) = (eq (leftx v) (rightx u) \<or> eq (rightx v) (leftx u))"
    using eq_sym by metis
  then show ?thesis unfolding horiz_adj_def Let_def diagonal_sym [of u v] by (simp only:) argo
qed

lemma vert_adj_sym: "vert_adj u v = vert_adj v u"
proof -
  have "(eq (bottomy u) (topy v) \<or> eq (topy u) (bottomy v)) = (eq (bottomy v) (topy u) \<or> eq (topy v) (bottomy u))"
    using eq_sym by metis
  then show ?thesis unfolding vert_adj_def Let_def diagonal_sym [of u v] by (simp only:) argo
qed

lemma not_both_adj: "\<not> (horiz_adj u v \<and> vert_adj u v)"
  by (auto simp: horiz_adj_def vert_adj_def diagonal_def Let_def split: if_splits)

text \<open>Two intervals of which one contains an end of the other have a common point.\<close>

lemma overlap_nonneg:
  fixes a b c d :: real
  assumes "a \<le> b" "c \<le> d" "(a \<le> c \<and> c \<le> b) \<or> (a \<le> d \<and> d \<le> b) \<or> (c \<le> a \<and> a \<le> d) \<or> (c \<le> b \<and> b \<le> d)"
  shows "max a c \<le> min b d"
  using assms by auto

lemma horiz_adj_overlap:
  assumes "horiz_adj u v" "0 \<le> height u" "0 \<le> height v"
  shows "max (bottomy u) (bottomy v) \<le> min (topy u) (topy v)"
  by (rule overlap_nonneg) (use assms in \<open>auto simp: horiz_adj_def Let_def split: if_splits\<close>)

lemma vert_adj_overlap:
  assumes "vert_adj u v" "0 \<le> width u" "0 \<le> width v"
  shows "max (leftx u) (leftx v) \<le> min (rightx u) (rightx v)"
  by (rule overlap_nonneg) (use assms in \<open>auto simp: vert_adj_def Let_def split: if_splits\<close>)

lemma room:
  fixes a b c d e :: real
  assumes "max a b + e < min c d"
  shows "a + e < c" "a + e < d" "b + e < c" "b + e < d"
  using assms by (simp_all add: max_def min_def split: if_splits)

text \<open>An edge longer than the tolerance is recognised.\<close>

lemma touching_horiz_adj:
  assumes "rightx u = leftx v" "max (bottomy u) (bottomy v) + DELTA < min (topy u) (topy v)"
  shows "horiz_adj u v"
proof -
  have o: "bottomy u + DELTA < topy v" "bottomy v + DELTA < topy u" "bottomy u + DELTA < topy u"
    "bottomy v + DELTA < topy v"
    using room [OF assms(2)] by simp_all
  have "\<not> eq (topy u) (bottomy v)" "\<not> eq (bottomy u) (topy v)"
    using o by (auto simp: eq_def)
  then have "\<not> diagonal u v" by (simp add: diagonal_def)
  moreover have "eq (rightx u) (leftx v)" using assms(1) DELTA_pos by (simp add: eq_def)
  moreover have "bottomy u \<le> bottomy v \<and> bottomy v \<le> topy u \<or> bottomy v \<le> bottomy u \<and> bottomy u \<le> topy v"
    using o DELTA_pos by linarith
  ultimately show ?thesis by (auto simp: horiz_adj_def Let_def)
qed

lemma touching_vert_adj:
  assumes "topy u = bottomy v" "max (leftx u) (leftx v) + DELTA < min (rightx u) (rightx v)"
  shows "vert_adj u v"
proof -
  have o: "leftx u + DELTA < rightx v" "leftx v + DELTA < rightx u" "leftx u + DELTA < rightx u"
    "leftx v + DELTA < rightx v"
    using room [OF assms(2)] by simp_all
  have "\<not> eq (rightx u) (leftx v)" "\<not> eq (leftx u) (rightx v)"
    using o by (auto simp: eq_def)
  then have "\<not> diagonal u v" by (simp add: diagonal_def)
  moreover have "eq (topy u) (bottomy v)" using assms(1) DELTA_pos by (simp add: eq_def)
  moreover have "leftx u \<le> leftx v \<and> leftx v \<le> rightx u \<or> leftx v \<le> leftx u \<and> leftx u \<le> rightx v"
    using o DELTA_pos by linarith
  ultimately show ?thesis by (auto simp: vert_adj_def Let_def)
qed

section \<open>Wires\<close>

text \<open>The metric is the sum over all pairs of blocks.\<close>

definition wire_sum :: "flp_t \<Rightarrow> real" where
  "wire_sum flp = (\<Sum>i < n_units flp. \<Sum>j < n_units flp. wire_density flp ! i ! j * centre_dist (units flp ! i) (units flp ! j))"

lemma get_wire_metric_ok:
  assumes "flp_ok flp" "rows_ok (wire_density flp) N N" "n_units flp \<le> N"
  shows "get_wire_metric flp = Inr (wire_sum flp)"
proof -
  let ?n = "n_units flp"
  let ?w = "\<lambda>i j. wire_density flp ! i ! j * centre_dist (units flp ! i) (units flp ! j)"
  have row: "for_up 0 ?n (\<lambda>j w. rbind (rd2 (wire_density flp) i j) (\<lambda>d.
      if d \<noteq> 0 then rbind (get_manhattan_dist flp i j) (\<lambda>dist. Inr (w + d * dist)) else Inr w)) w =
      Inr (w + (\<Sum>j < ?n. ?w i j))" if i: "i < ?n" for i w
  proof -
    have "fold (\<lambda>j w. w + ?w i j) [0..<m] w = w + (\<Sum>j < m. ?w i j)" for m by (induction m) auto
    moreover have "for_up 0 ?n (\<lambda>j w. rbind (rd2 (wire_density flp) i j) (\<lambda>d.
      if d \<noteq> 0 then rbind (get_manhattan_dist flp i j) (\<lambda>dist. Inr (w + d * dist)) else Inr w)) w =
      Inr (fold (\<lambda>j w. w + ?w i j) [0..<?n] w)"
      by (rule for_up_pure) (use i assms in \<open>auto simp: flp_ok_def get_manhattan_dist_def\<close>)
    ultimately show ?thesis by simp
  qed
  have "fold (\<lambda>i w. w + (\<Sum>j < ?n. ?w i j)) [0..<m] 0 = (\<Sum>i < m. \<Sum>j < ?n. ?w i j)" for m by (induction m) auto
  moreover have "get_wire_metric flp = Inr (fold (\<lambda>i w. w + (\<Sum>j < ?n. ?w i j)) [0..<?n] 0)"
    unfolding get_wire_metric_def by (rule for_up_pure) (simp add: row)
  ultimately show ?thesis by (simp add: wire_sum_def)
qed

text \<open>A change of the blocks that scales all distances scales the metric.\<close>

lemma wire_sum_map:
  assumes "flp_ok flp" "\<And>u v. centre_dist (f u) (f v) = k * centre_dist u v"
  shows "wire_sum (map_placed f flp) = k * wire_sum flp"
  using assms(2) map_placed_props(2,4,6) [OF assms(1), where f = f]
  by (simp add: wire_sum_def sum_distrib_left mult.left_commute)

section \<open>Translation and scaling\<close>

lemma placed_nonempty: "flp_ok flp \<Longrightarrow> set (placed flp) \<noteq> {}"
  using placed_length [of flp] by (auto simp: flp_ok_def)

lemma min_of_shift:
  assumes "flp_ok flp" "\<And>u. f (g u) = f u + c"
  shows "min_of f (map_placed g flp) = min_of f flp + c"
  using assms(2) Min_add_commute [OF _ placed_nonempty [OF assms(1)], of f c]
  by (simp add: map_placed_props(3) [OF assms(1)] image_image)

lemma min_of_scale:
  assumes "flp_ok flp" "0 \<le> k" "\<And>u. f (g u) = (f u - min_of f flp) * k + min_of f flp"
  shows "min_of f (map_placed g flp) = min_of f flp"
proof -
  let ?h = "\<lambda>z. (z - min_of f flp) * k + min_of f flp"
  have "mono ?h" using assms(2) by (intro monoI) (simp add: mult_right_mono)
  then have "?h (Min (f ` set (placed flp))) = Min (?h ` (f ` set (placed flp)))"
    by (rule mono_Min_commute) (simp_all only: finite_imageI finite_set image_is_empty placed_nonempty [OF assms(1)] not_False_eq_True)
  moreover have "min_of f (map_placed g flp) = Min (?h ` (f ` set (placed flp)))"
    unfolding map_placed_props(3) [OF assms(1)] set_map image_image assms(3) by (rule refl)
  ultimately have "min_of f (map_placed g flp) = ?h (min_of f flp)" by (simp only:)
  also have "\<dots> = min_of f flp" by (simp only: diff_self mult_zero_left add_0)
  finally show ?thesis .
qed

lemma centre_dist_move: "centre_dist (move_unit dx dy u) (move_unit dx dy v) = centre_dist u v"
  by (simp add: centre_dist_def move_unit_def Let_def)

definition scale_unit :: "real \<Rightarrow> real \<Rightarrow> real \<Rightarrow> unit_t \<Rightarrow> unit_t" where
  "scale_unit x0 y0 k u = u\<lparr>leftx := (leftx u - x0) * k + x0, bottomy := (bottomy u - y0) * k + y0,
     width := width u * k, height := height u * k\<rparr>"

text \<open>The centre of a block.\<close>

definition mid_x :: "unit_t \<Rightarrow> real" where "mid_x u = leftx u + width u / 2"
definition mid_y :: "unit_t \<Rightarrow> real" where "mid_y u = bottomy u + height u / 2"

lemma centre_dist_mid: "centre_dist u v = \<bar>mid_x v - mid_x u\<bar> + \<bar>mid_y v - mid_y u\<bar>"
  by (simp add: centre_dist_def mid_x_def mid_y_def Let_def)

lemma centre_dist_scale:
  assumes "0 \<le> k"
  shows "centre_dist (scale_unit x0 y0 k u) (scale_unit x0 y0 k v) = k * centre_dist u v"
proof -
  have "mid_x (scale_unit x0 y0 k v) - mid_x (scale_unit x0 y0 k u) = k * (mid_x v - mid_x u)"
    "mid_y (scale_unit x0 y0 k v) - mid_y (scale_unit x0 y0 k u) = k * (mid_y v - mid_y u)"
    by (simp_all add: mid_x_def mid_y_def scale_unit_def algebra_simps)
  then show ?thesis using assms by (simp only: centre_dist_mid abs_mult abs_of_nonneg distrib_left)
qed

section \<open>Orientations\<close>

definition orients :: "orient_t list" where
  "orients = [ROT_0, ROT_90, ROT_180, ROT_270, FLIP_0, FLIP_90, FLIP_180, FLIP_270]"

lemmas orient_flags = ROT_0_def ROT_90_def ROT_180_def ROT_270_def FLIP_0_def FLIP_90_def FLIP_180_def
  FLIP_270_def ORIENT_NDEF_def

text \<open>The images of a vector and the orientation that undoes an orientation.\<close>

definition turn :: "orient_t \<Rightarrow> real \<Rightarrow> real \<Rightarrow> real \<times> real" where
  "turn t p q =
     (if t = ROT_0 then (p, q) else if t = ROT_90 then (- q, p) else if t = ROT_180 then (- p, - q)
      else if t = ROT_270 then (q, - p) else if t = FLIP_0 then (- p, q) else if t = FLIP_90 then (q, p)
      else if t = FLIP_180 then (p, - q) else (- q, - p))"

definition undo :: "orient_t \<Rightarrow> orient_t" where
  "undo t = (if t = ROT_90 then ROT_270 else if t = ROT_270 then ROT_90 else t)"

definition covers :: "unit_t \<Rightarrow> real \<Rightarrow> real \<Rightarrow> bool" where
  "covers u p q \<longleftrightarrow> leftx u \<le> p \<and> p \<le> rightx u \<and> bottomy u \<le> q \<and> q \<le> topy u"

text \<open>The eight cases of a known orientation.\<close>

lemma orient_cases:
  assumes "t \<in> set orients"
  obtains "t = 0x01" | "t = 0x02" | "t = 0x04" | "t = 0x08" | "t = 0x10" | "t = 0x20" | "t = 0x40" | "t = 0x80"
  using assms by (auto simp: orients_def orient_flags)

text \<open>The block that a known orientation makes of a block.\<close>

definition turned :: "real \<Rightarrow> real \<Rightarrow> orient_t \<Rightarrow> unit_t \<Rightarrow> unit_t" where
  "turned cx cy t u = (case orient_unit cx cy t u of Inr v \<Rightarrow> v | Inl _ \<Rightarrow> u)"

lemmas orient_simps = orient_unit_def orient_flags turned_def undo_def turn_def Let_def

lemma orient_unit_turned: "t \<in> set orients \<Longrightarrow> orient_unit cx cy t u = Inr (turned cx cy t u)"
  by (erule orient_cases) (simp_all add: orient_simps)

lemma orient_unit_unknown: "t \<notin> set orients \<Longrightarrow> orient_unit cx cy t u = Inl (Fatal ''unknown orientation'')"
  by (simp add: orient_unit_def orients_def Let_def)

lemma turned_covers:
  assumes "t \<in> set orients"
  shows "covers (turned cx cy t u) (cx + fst (turn t (p - cx) (q - cy))) (cy + snd (turn t (p - cx) (q - cy))) = covers u p q"
  using assms by (rule orient_cases) (auto simp: orient_simps covers_def)

lemma turned_undo:
  assumes "t \<in> set orients"
  shows "turned cx cy (undo t) (turned cx cy t u) = u"
  using assms by (rule orient_cases) (simp_all add: orient_simps)

lemma undo_known: "t \<in> set orients \<Longrightarrow> undo t \<in> set orients"
  by (erule orient_cases) (simp_all add: orient_flags undo_def orients_def)

lemma turned_size:
  assumes "t \<in> set orients"
  shows "width (turned cx cy t u) * height (turned cx cy t u) = width u * height u"
    and "unit_name (turned cx cy t u) = unit_name u"
  using assms by (auto elim!: orient_cases simp: orient_simps)

lemma turned_mid:
  assumes "t \<in> set orients"
  shows "mid_x (turned cx cy t u) = cx + fst (turn t (mid_x u - cx) (mid_y u - cy))"
    and "mid_y (turned cx cy t u) = cy + snd (turn t (mid_x u - cx) (mid_y u - cy))"
  using assms by (auto elim!: orient_cases simp: orient_simps mid_x_def mid_y_def)

lemma turned_centre_dist:
  assumes "t \<in> set orients"
  shows "centre_dist (turned cx cy t u) (turned cx cy t v) = centre_dist u v"
  unfolding centre_dist_mid turned_mid [OF assms] by (auto simp: turn_def)

lemma flp_change_orient_ok:
  assumes "flp_ok flp" "t \<in> set orients"
  shows "flp_change_orient flp xo yo w h t = Inr (map_placed (turned (xo + w / 2) (yo + h / 2) t) flp)"
  unfolding flp_change_orient_def map_placed_def placed_def
  by (rule each_unit [where g = "orient_unit (xo + w / 2) (yo + h / 2) t"])
    (use assms in \<open>auto simp: orient_unit_turned flp_ok_def\<close>)

lemma map_placed_undo:
  assumes "flp_ok flp" "\<And>u. g (f u) = u"
  shows "map_placed g (map_placed f flp) = flp"
proof -
  let ?g = "map_placed g (map_placed f flp)"
  note m = map_placed_props [OF assms(1)]
  have "units ?g ! i = units flp ! i" for i
    using m(2,4,5) map_placed_props(4,5) [OF m(1)] assms(2) by (cases "i < n_units flp") simp_all
  then have "units ?g = units flp"
    using m(7) map_placed_props(7) [OF m(1)] by (intro nth_equalityI) simp_all
  then have "flp\<lparr>units := units ?g\<rparr> = flp" by simp
  then show ?thesis by (simp add: map_placed_def)
qed

end
