(* ===== verification/Flp_Props.thy ===== *)
theory Flp_Props
  imports Flp_Wrap Flp_Motion Slicing_Props
begin

text \<open>
  The properties of placed floorplans: adjacency and shared edges, lookup by name, translations,
  scalings and orientations, and the L2 wrapped around the core.
\<close>

section \<open>A floorplan of two blocks\<close>

definition block :: "string \<Rightarrow> real \<Rightarrow> real \<Rightarrow> real \<Rightarrow> real \<Rightarrow> unit_t" where
  "block nm l b w h = unit_zero\<lparr>unit_name := nm, width := w, height := h, leftx := l, bottomy := b\<rparr>"

definition pair_flp :: "nat \<Rightarrow> flp_t" where
  "pair_flp room = \<lparr>units = [block ''a'' 0 0 1 2, block ''b'' 1 0 1 2] @ replicate room unit_zero, n_units = 2,
     wire_density = replicate (2 + room) (replicate (2 + room) 1)\<rparr>"

lemma pair_flp_ok: "flp_ok (pair_flp room)"
  by (simp add: flp_ok_def pair_flp_def)

lemma rows_ok_square: "rows_ok (replicate n (replicate n x)) n n"
  by (simp add: rows_ok_def)

lemma pair_rows: "rows_ok (wire_density (pair_flp room)) (2 + room) (2 + room)"
  by (simp only: pair_flp_def flp_t.select_convs rows_ok_square)

lemma pair_placed: "placed (pair_flp room) = [block ''a'' 0 0 1 2, block ''b'' 1 0 1 2]"
  by (simp add: placed_def pair_flp_def)

section \<open>Adjacency and lookup\<close>

text \<open>
  Adjacency is symmetric and never both horizontal and vertical; the length that
  two adjacent blocks share is the overlap of their facing sides, is not negative and does not
  depend on the order; blocks that are not adjacent share no length; and two blocks whose
  sides touch along more than the tolerance are recognised.
\<close>

theorem shared_len_exact:
  assumes "i < length (units flp)" "j < length (units flp)" "i \<noteq> j" "u = units flp ! i" "v = units flp ! j"
    and "0 \<le> width u" "0 \<le> height u" "0 \<le> width v" "0 \<le> height v"
  shows "\<exists>h w len. is_horiz_adj flp i j = Inr h \<and> is_horiz_adj flp j i = Inr h \<and>
    is_vert_adj flp i j = Inr w \<and> is_vert_adj flp j i = Inr w \<and> \<not> (h \<and> w) \<and>
    get_shared_len flp i j = Inr len \<and> get_shared_len flp j i = Inr len \<and> 0 \<le> len \<and>
    len = (if h then min (topy u) (topy v) - max (bottomy u) (bottomy v)
           else if w then min (rightx u) (rightx v) - max (leftx u) (leftx v) else 0) \<and>
    (rightx u = leftx v \<and> max (bottomy u) (bottomy v) + DELTA < min (topy u) (topy v) \<longrightarrow> h) \<and>
    (topy u = bottomy v \<and> max (leftx u) (leftx v) + DELTA < min (rightx u) (rightx v) \<longrightarrow> w)"
proof -
  have adj: "is_horiz_adj flp i j = Inr (horiz_adj u v)" "is_horiz_adj flp j i = Inr (horiz_adj u v)"
    "is_vert_adj flp i j = Inr (vert_adj u v)" "is_vert_adj flp j i = Inr (vert_adj u v)"
    using assms(1-5) horiz_adj_sym [of v u] vert_adj_sym [of v u]
    by (auto simp: is_horiz_adj_def is_vert_adj_def)
  let ?len = "if horiz_adj u v then min (topy u) (topy v) - max (bottomy u) (bottomy v)
    else if vert_adj u v then min (rightx u) (rightx v) - max (leftx u) (leftx v) else 0"
  have "get_shared_len flp i j = Inr ?len" "get_shared_len flp j i = Inr ?len"
    using assms(1-5) adj not_both_adj [of u v]
    by (auto simp: get_shared_len_def Let_def MINd_def MAXd_def min_def max_def)
  moreover have "0 \<le> ?len"
    using horiz_adj_overlap [of u v] vert_adj_overlap [of u v] assms(6-9) by auto
  ultimately show ?thesis
    using adj not_both_adj [of u v] touching_horiz_adj [of u v] touching_vert_adj [of u v]
    by - (rule exI [of _ "horiz_adj u v"], rule exI [of _ "vert_adj u v"], rule exI [of _ ?len],
      (intro conjI impI; (assumption | rule refl | (elim conjE, simp only:))))
qed

theorem shared_len_exact_witness:
  "is_horiz_adj (pair_flp 0) 0 1 = Inr True \<and> get_shared_len (pair_flp 0) 0 1 = Inr 2"
  using shared_len_exact [of 0 "pair_flp 0" 1 "block ''a'' 0 0 1 2" "block ''b'' 1 0 1 2"]
  by (auto simp: pair_flp_def block_def DELTA_def)

lemma find_blk_ok:
  assumes "flp_ok flp" "i \<le> n_units flp"
  shows "(\<exists>k. find_blk flp nm i = Inr (int k) \<and> i \<le> k \<and> k < n_units flp \<and> strcase_eq nm (unit_name (units flp ! k)) \<and>
      (\<forall>j. i \<le> j \<and> j < k \<longrightarrow> \<not> strcase_eq nm (unit_name (units flp ! j)))) \<or>
    (find_blk flp nm i = Inl (Fatal (''block '' @ nm @ '' not found'')) \<and>
      (\<forall>j. i \<le> j \<and> j < n_units flp \<longrightarrow> \<not> strcase_eq nm (unit_name (units flp ! j))))"
  using assms(2)
proof (induction "n_units flp - i" arbitrary: i)
  case 0
  then show ?case by (subst (1 2) find_blk.simps) auto
next
  case (Suc m)
  then have i: "i < n_units flp" "i < length (units flp)" using assms(1) by (auto simp: flp_ok_def)
  show ?case
  proof (cases "strcase_eq nm (unit_name (units flp ! i))")
    case True
    with i have "find_blk flp nm i = Inr (int i)" by (subst find_blk.simps) simp
    with True i show ?thesis by auto
  next
    case False
    with i have e: "find_blk flp nm i = find_blk flp nm (Suc i)" by (subst find_blk.simps) simp
    have "m = n_units flp - Suc i" "Suc i \<le> n_units flp" using Suc.hyps(2) i by auto
    from Suc.hyps(1) [OF this] False show ?thesis unfolding e by (metis Suc_leD le_eq_less_or_eq less_eq_Suc_le)
  qed
qed

text \<open>
  Looking a block up by name gives the least index of a block whose name agrees up to
  case, and stops with an error exactly when there is none (or no floorplan).
\<close>

theorem get_blk_index_least:
  assumes "flp_ok flp"
  shows "(get_blk_index (Some flp) nm = Inr (int k) \<longleftrightarrow> k < n_units flp \<and> strcase_eq nm (unit_name (units flp ! k)) \<and>
      (\<forall>j < k. \<not> strcase_eq nm (unit_name (units flp ! j)))) \<and>
    ((\<exists>e. get_blk_index (Some flp) nm = Inl e) \<longleftrightarrow> (\<forall>j < n_units flp. \<not> strcase_eq nm (unit_name (units flp ! j)))) \<and>
    (\<exists>e. get_blk_index None nm = Inl e)"
  using find_blk_ok [OF assms, of 0 nm]
  by (auto simp: get_blk_index_def) (metis linorder_neqE_nat)+

lemma b_names: "strcase_eq ''B'' ''b''" "\<not> strcase_eq ''B'' ''a''"
  by code_simp+

theorem get_blk_index_least_witness: "get_blk_index (Some (pair_flp 0)) ''B'' = Inr (int 1)"
proof -
  have "unit_name (units (pair_flp 0) ! 0) = ''a''" "unit_name (units (pair_flp 0) ! 1) = ''b''"
    "n_units (pair_flp 0) = 2"
    by (simp_all add: pair_flp_def block_def)
  then show ?thesis using get_blk_index_least [OF pair_flp_ok, of 0 "''B''" 1] b_names by simp
qed

section \<open>Motions\<close>

text \<open>
  A translation puts the lower left corner of the floorplan at the given point by moving
  every block by the same vector; sizes, names, the tiling of a rectangle and the wire metric
  are kept.
\<close>

theorem flp_translate_moves_corner:
  assumes "flp_ok flp" "rows_ok (wire_density flp) N N" "n_units flp \<le> N"
  shows "\<exists>g. flp_translate flp x y = Inr g \<and> get_minx g = Inr x \<and> get_miny g = Inr y \<and>
    n_units g = n_units flp \<and>
    (\<forall>i < n_units flp. units g ! i = move_unit (x - min_of leftx flp) (y - min_of bottomy flp) (units flp ! i)) \<and>
    (\<forall>w h. tiles (units flp) {..<n_units flp} (min_of leftx flp) (min_of bottomy flp) w h \<longrightarrow>
       tiles (units g) {..<n_units g} x y w h) \<and>
    get_wire_metric g = get_wire_metric flp"
proof -
  let ?f = "move_unit (x - min_of leftx flp) (y - min_of bottomy flp)"
  let ?g = "map_placed ?f flp"
  note m = map_placed_props [OF assms(1), where f = ?f]
  have run: "flp_translate flp x y = Inr ?g"
    by (simp only: flp_translate_ok [OF assms(1)] move_unit_def [abs_def])
  have corner: "min_of leftx ?g = x" "min_of bottomy ?g = y"
    by (simp_all add: min_of_shift [OF assms(1), of leftx _ "x - min_of leftx flp"]
        min_of_shift [OF assms(1), of bottomy _ "y - min_of bottomy flp"] move_unit_def)
  have wires: "get_wire_metric ?g = get_wire_metric flp"
    using get_wire_metric_ok [of ?g N] get_wire_metric_ok [OF assms] m(1,2,6) assms(2,3)
      wire_sum_map [OF assms(1), of ?f 1] by (simp add: centre_dist_move)
  have tiled: "tiles (units ?g) {..<n_units ?g} x y w h"
    if "tiles (units flp) {..<n_units flp} (min_of leftx flp) (min_of bottomy flp) w h" for w h
    using tiles_moved [OF that, of "units ?g" "x - min_of leftx flp" "y - min_of bottomy flp"] m(2,4) by simp
  show ?thesis
    using run corner wires tiled m(1,2,4) get_minx_ok [OF m(1)] get_miny_ok [OF m(1)] by (intro exI [of _ ?g]) simp
qed

theorem flp_translate_moves_corner_witness:
  "\<exists>g. flp_translate (pair_flp 0) 3 4 = Inr g \<and> get_minx g = Inr 3 \<and> get_miny g = Inr 4 \<and>
    get_wire_metric g = get_wire_metric (pair_flp 0)"
  using flp_translate_moves_corner [OF pair_flp_ok pair_rows, of 0 3 4] by (auto simp: pair_flp_def)

text \<open>
  Scaling by a factor keeps the lower left corner, multiplies the total area by the square of the
  factor and the wire metric by the factor.
\<close>

theorem flp_scale_scales:
  assumes "flp_ok flp" "rows_ok (wire_density flp) N N" "n_units flp \<le> N" "0 \<le> k"
    and "get_total_area flp = Inr a" "get_wire_metric flp = Inr m"
  shows "\<exists>g. flp_scale flp k = Inr g \<and> get_minx g = get_minx flp \<and> get_miny g = get_miny flp \<and>
    get_total_area g = Inr (k * k * a) \<and> get_wire_metric g = Inr (k * m)"
proof -
  let ?f = "scale_unit (min_of leftx flp) (min_of bottomy flp) k"
  let ?g = "map_placed ?f flp"
  note p = map_placed_props [OF assms(1), where f = ?f]
  have run: "flp_scale flp k = Inr ?g"
    by (simp only: flp_scale_ok [OF assms(1)] scale_unit_def [abs_def])
  have corner: "get_minx ?g = get_minx flp" "get_miny ?g = get_miny flp"
    by (simp_all only: get_minx_ok [OF p(1)] get_minx_ok [OF assms(1)] get_miny_ok [OF p(1)] get_miny_ok [OF assms(1)]
        min_of_scale [OF assms(1,4), of leftx ?f] min_of_scale [OF assms(1,4), of bottomy ?f])
      (simp_all add: scale_unit_def min_of_scale [OF assms(1,4)])
  have "(\<Sum>i < n_units flp. width (units ?g ! i) * height (units ?g ! i)) =
      k * k * (\<Sum>i < n_units flp. width (units flp ! i) * height (units flp ! i))"
    unfolding sum_distrib_left by (rule sum.cong) (simp_all add: p(4) scale_unit_def)
  then have "get_total_area ?g = Inr (k * k * a)"
    using assms(5) p(2) by (simp add: get_total_area_ok [OF p(1)] get_total_area_ok [OF assms(1)])
  moreover have "get_wire_metric ?g = Inr (k * m)"
    using get_wire_metric_ok [of ?g N] get_wire_metric_ok [OF assms(1-3)] p(1,2,6) assms(2,3,6)
      wire_sum_map [OF assms(1), of ?f k] by (simp add: centre_dist_scale [OF assms(4)])
  ultimately show ?thesis using run corner by blast
qed

theorem flp_scale_scales_witness:
  "\<exists>g. flp_scale (pair_flp 0) 3 = Inr g \<and> get_total_area g = Inr 36 \<and> get_wire_metric g = Inr 6"
proof -
  have a: "get_total_area (pair_flp 0) = Inr 4"
    by (simp add: get_total_area_ok [OF pair_flp_ok]) (simp add: pair_flp_def block_def numeral_2_eq_2)
  have m: "get_wire_metric (pair_flp 0) = Inr 2"
    using get_wire_metric_ok [OF pair_flp_ok pair_rows, of 0]
    by (simp add: wire_sum_def pair_flp_def block_def centre_dist_def numeral_2_eq_2)
  show ?thesis
    using flp_scale_scales [OF pair_flp_ok pair_rows, of 0 3, OF _ _ a m] by (auto simp: pair_flp_def)
qed

text \<open>
  C34: a known orientation is an isometry of the plane about the centre of the given
  rectangle: a point is covered by the turned block exactly when the point it comes from was
  covered by the block, areas, names and the wire metric are kept, and the undoing orientation
  gives the floorplan back; an unknown orientation stops the program.
\<close>

theorem flp_change_orient_isometry:
  assumes "flp_ok flp" "rows_ok (wire_density flp) N N" "n_units flp \<le> N"
    and "cx = xo + w / 2" "cy = yo + h / 2"
  shows "if t \<in> set orients
    then \<exists>g. flp_change_orient flp xo yo w h t = Inr g \<and> n_units g = n_units flp \<and>
      (\<forall>i < n_units flp. unit_name (units g ! i) = unit_name (units flp ! i) \<and>
        (\<forall>p q. covers (units g ! i) (cx + fst (turn t (p - cx) (q - cy))) (cy + snd (turn t (p - cx) (q - cy))) =
          covers (units flp ! i) p q)) \<and>
      get_total_area g = get_total_area flp \<and> get_wire_metric g = get_wire_metric flp \<and>
      flp_change_orient g xo yo w h (undo t) = Inr flp
    else \<exists>e. flp_change_orient flp xo yo w h t = Inl e"
proof (cases "t \<in> set orients")
  case True
  let ?f = "turned cx cy t"
  let ?g = "map_placed ?f flp"
  note m = map_placed_props [OF assms(1), where f = ?f]
  have "flp_change_orient flp xo yo w h t = Inr ?g"
    by (simp only: flp_change_orient_ok [OF assms(1) True] assms(4,5))
  moreover have "get_total_area ?g = get_total_area flp"
    using m(2,4) by (simp add: get_total_area_ok [OF m(1)] get_total_area_ok [OF assms(1)] turned_size [OF True])
  moreover have "get_wire_metric ?g = get_wire_metric flp"
    using get_wire_metric_ok [of ?g N] get_wire_metric_ok [OF assms(1-3)] m(1,2,6) assms(2,3)
      wire_sum_map [OF assms(1), of ?f 1] by (simp add: turned_centre_dist [OF True])
  moreover have "flp_change_orient ?g xo yo w h (undo t) = Inr flp"
    by (simp only: flp_change_orient_ok [OF m(1) undo_known [OF True]] assms(4,5) [symmetric]
        map_placed_undo [OF assms(1), where f = ?f and g = "turned cx cy (undo t)"] turned_undo [OF True])
  ultimately show ?thesis
    using True m(2,4) by (auto simp: turned_covers turned_size)
next
  case False
  have "0 < n_units flp" "0 < length (units flp)" using assms(1) by (auto simp: flp_ok_def)
  then have "flp_change_orient flp xo yo w h t = Inl (Fatal ''unknown orientation'')"
    unfolding flp_change_orient_def by (subst for_up.simps) (simp add: orient_unit_unknown [OF False] rd_def)
  with False show ?thesis by simp
qed

theorem flp_change_orient_isometry_witness:
  "(\<exists>g. flp_change_orient (pair_flp 0) 0 0 2 2 ROT_90 = Inr g \<and> covers (units g ! 0) 0 0 \<and>
      flp_change_orient g 0 0 2 2 ROT_270 = Inr (pair_flp 0)) \<and>
    (\<exists>e. flp_change_orient (pair_flp 0) 0 0 2 2 ORIENT_NDEF = Inl e)"
proof
  have k: "ROT_90 \<in> set orients" "undo ROT_90 = ROT_270" "ORIENT_NDEF \<notin> set orients"
    by (simp_all add: orients_def undo_def orient_flags)
  note iso = flp_change_orient_isometry [OF pair_flp_ok pair_rows, of 0 1 0 2 1 0 2]
  have two: "n_units (pair_flp 0) = 2" by (simp add: pair_flp_def)
  have c: "covers (units (pair_flp 0) ! 0) 0 2" by (simp add: pair_flp_def block_def covers_def)
  obtain g where g: "flp_change_orient (pair_flp 0) 0 0 2 2 ROT_90 = Inr g"
    "\<forall>p q. covers (units g ! 0) (1 + fst (turn ROT_90 (p - 1) (q - 1))) (1 + snd (turn ROT_90 (p - 1) (q - 1))) =
      covers (units (pair_flp 0) ! 0) p q" "flp_change_orient g 0 0 2 2 ROT_270 = Inr (pair_flp 0)"
    using iso [of ROT_90] k two by auto
  have "turn ROT_90 (0 - 1) (2 - 1) = (- 1, - 1)" by (simp add: turn_def orient_flags)
  then have "covers (units g ! 0) 0 0" using g(2) [rule_format, of 0 2] c by simp
  then show "\<exists>g. flp_change_orient (pair_flp 0) 0 0 2 2 ROT_90 = Inr g \<and> covers (units g ! 0) 0 0 \<and>
      flp_change_orient g 0 0 2 2 ROT_270 = Inr (pair_flp 0)" using g by blast
  show "\<exists>e. flp_change_orient (pair_flp 0) 0 0 2 2 ORIENT_NDEF = Inl e"
    using iso [of ORIENT_NDEF] k two by simp
qed

section \<open>The L2 around the core\<close>

definition desc3 :: flp_desc_t where
  "desc3 = desc2\<lparr>desc_units := replicate 3 ((desc_units desc2 ! 0)\<lparr>unit_area := 5\<rparr>),
     desc_wire_density := replicate 3 (replicate 3 0)\<rparr>"

lemma pair_dims: "get_total_width (pair_flp room) = Inr 2" "get_total_height (pair_flp room) = Inr 2"
  by (simp_all add: get_total_width_ok get_total_height_ok pair_flp_ok pair_placed) (simp_all add: block_def)

lemma pair_tiles: "tiles (units (pair_flp room)) {..<2} 0 0 2 2"
  by (auto simp: tiles_def pair_flp_def block_def unit_inside_def unit_apart_def less_2_cases_iff numeral_2_eq_2 lessThan_Suc)

theorem flp_wrap_l2_tiles_witness:
  "\<exists>g x y. flp_wrap_l2 (pair_flp 3) desc3 = Inr g \<and> n_units g = 5 \<and> (2 * x + 2) * (y + 2) = 9 \<and>
    tiles (units g) {..<n_units g} 0 0 (2 * x + 2) (y + 2)"
proof -
  have c: "min_of leftx (pair_flp 3) = 0" "min_of bottomy (pair_flp 3) = 0" "n_units (pair_flp 3) = 2"
    unfolding pair_placed by (simp_all add: block_def pair_flp_def)
  have d: "desc_n_units desc3 = 2" "length (desc_units desc3) = 3" "rows_ok (desc_wire_density desc3) 3 3"
    "unit_area (l2_of desc3) = 5"
    by (simp_all add: desc3_def desc2_def rows_ok_def)
  have "length (units (pair_flp 3)) = 5" "rows_ok (wire_density (pair_flp 3)) 5 5"
    using pair_rows [of 3] by (simp_all add: pair_flp_def)
  then have "wrap_ok (pair_flp 3) desc3" using d c(3) pair_flp_ok by (simp add: wrap_ok_def)
  from flp_wrap_l2_tiles [OF this pair_dims] c d pair_tiles show ?thesis by auto
qed

end
