(* ===== verification/Util_Search.thy ===== *)
theory Util_Search
  imports Util_Base
begin

text \<open>
  The binary searches of \<open>hotspot_tool/util.c\<close> over arrays of doubles, whose comparison is the
  tolerant one of \<open>eq\<close>. The pointer \<open>arr\<close> of a recursive call is the offset \<open>off\<close> into the
  whole array; \<open>n\<close> is an \<open>int\<close>.
\<close>

function bsearch_double :: "real list \<Rightarrow> nat \<Rightarrow> int \<Rightarrow> real \<Rightarrow> (bool \<times> nat) res" where
  "bsearch_double arr off n ele =
     (if n < 0 then Inl (Fatal ''wrong index in binary search'')
      else if n = 0 then Inr (False, off)
      else rbind (rd arr (off + nat (n div 2))) (\<lambda>x.
        if eq x ele then Inr (True, off + nat (n div 2))
        else if x < ele then bsearch_double arr (off + nat (n div 2) + 1) ((n - 1) div 2) ele
        else bsearch_double arr off (n div 2) ele))"
  by pat_completeness auto
termination
  by (relation "measure (\<lambda>(arr, off, n, ele). nat n)") auto

declare bsearch_double.simps [simp del]

text \<open>The loop \<open>for(i=n-1; i >= loc; i--) arr[i+1] = arr[i]\<close>, here with \<open>i + 1\<close> as counter.\<close>

function shift_up :: "real list \<Rightarrow> nat \<Rightarrow> nat \<Rightarrow> real list res" where
  "shift_up arr loc n =
     (if loc < n then rbind (rd arr (n - 1)) (\<lambda>x. rbind (wr arr n x) (\<lambda>arr. shift_up arr loc (n - 1)))
      else Inr arr)"
  by pat_completeness auto
termination
  by (relation "measure (\<lambda>(arr, loc, n). n)") auto

declare shift_up.simps [simp del]

definition bsearch_insert_double :: "real list \<Rightarrow> nat \<Rightarrow> real \<Rightarrow> (bool \<times> real list) res" where
  "bsearch_insert_double arr n ele =
     rbind (bsearch_double arr 0 (int n) ele) (\<lambda>(found, loc).
       if found then Inr (False, arr)
       else rbind (shift_up arr loc n) (\<lambda>arr. rbind (wr arr loc ele) (\<lambda>arr. Inr (True, arr))))"

section \<open>Correctness of the search\<close>

text \<open>The cells from \<open>lo\<close> to \<open>hi\<close> are in ascending order.\<close>

definition ascending :: "real list \<Rightarrow> nat \<Rightarrow> nat \<Rightarrow> bool" where
  "ascending arr lo hi \<longleftrightarrow> (\<forall>i j. lo \<le> i \<longrightarrow> i \<le> j \<longrightarrow> j < hi \<longrightarrow> arr ! i \<le> arr ! j)"

text \<open>What a location returned for \<open>ele\<close> says about the cells between \<open>lo\<close> and \<open>hi\<close>.\<close>

definition located :: "real list \<Rightarrow> nat \<Rightarrow> nat \<Rightarrow> real \<Rightarrow> bool \<Rightarrow> nat \<Rightarrow> bool" where
  "located arr lo hi ele found loc \<longleftrightarrow>
     (if found then lo \<le> loc \<and> loc < hi \<and> eq (arr ! loc) ele
      else lo \<le> loc \<and> loc \<le> hi \<and>
        (\<forall>k. lo \<le> k \<longrightarrow> k < loc \<longrightarrow> arr ! k < ele \<and> \<not> eq (arr ! k) ele) \<and>
        (\<forall>k. loc \<le> k \<longrightarrow> k < hi \<longrightarrow> ele < arr ! k \<and> \<not> eq (arr ! k) ele))"

lemma below_not_eq: "y \<le> x \<Longrightarrow> x < ele \<Longrightarrow> \<not> eq x ele \<Longrightarrow> y < ele \<and> \<not> eq y ele"
  by (auto simp: eq_def abs_if split: if_splits)

lemma above_not_eq: "x \<le> y \<Longrightarrow> \<not> x < ele \<Longrightarrow> \<not> eq x ele \<Longrightarrow> ele < y \<and> \<not> eq y ele"
proof -
  assume "x \<le> y" "\<not> x < ele" "\<not> eq x ele"
  then have "DELTA \<le> x - ele" "x \<le> y" by (auto simp: eq_def)
  moreover have "0 < DELTA" by simp
  ultimately have "ele < y" "DELTA \<le> y - ele" by linarith+
  then show ?thesis by (simp add: eq_def)
qed

text \<open>The result of a half is the result of the whole when the other half is all on one side.\<close>

lemma located_right:
  assumes "located arr mid hi ele found loc" "\<And>k. lo \<le> k \<Longrightarrow> k < mid \<Longrightarrow> arr ! k < ele \<and> \<not> eq (arr ! k) ele"
    and "lo \<le> mid"
  shows "located arr lo hi ele found loc"
proof (cases found)
  case False
  have "arr ! k < ele \<and> \<not> eq (arr ! k) ele" if "lo \<le> k" "k < loc" for k
    using assms False that by (cases "k < mid") (auto simp: located_def)
  with assms False show ?thesis by (simp add: located_def)
qed (use assms in \<open>auto simp: located_def\<close>)

lemma located_left:
  assumes "located arr lo mid ele found loc" "\<And>k. mid \<le> k \<Longrightarrow> k < hi \<Longrightarrow> ele < arr ! k \<and> \<not> eq (arr ! k) ele"
    and "mid \<le> hi"
  shows "located arr lo hi ele found loc"
proof (cases found)
  case False
  have "ele < arr ! k \<and> \<not> eq (arr ! k) ele" if "loc \<le> k" "k < hi" for k
    using assms False that by (cases "k < mid") (auto simp: located_def)
  with assms False show ?thesis by (simp add: located_def)
qed (use assms in \<open>auto simp: located_def\<close>)

lemma bsearch_located:
  assumes "ascending arr off (off + nat n)" "off + nat n \<le> length arr" "0 \<le> n"
  shows "\<exists>found loc. bsearch_double arr off n ele = Inr (found, loc) \<and>
    located arr off (off + nat n) ele found loc"
  using assms
proof (induction "nat n" arbitrary: off n rule: less_induct)
  case less
  show ?case
  proof (cases "n = 0")
    case True
    then show ?thesis
      by (intro exI [of _ False] exI [of _ off]) (subst bsearch_double.simps, simp add: located_def)
  next
    case False
    let ?m = "off + nat (n div 2)" let ?x = "arr ! ?m"
    have half: "nat (n div 2) < nat n" "nat ((n - 1) div 2) < nat n" "0 \<le> (n - 1) div 2" "0 \<le> n div 2"
      "?m + 1 + nat ((n - 1) div 2) = off + nat n"
      using False less.prems(3) by auto
    have asc: "arr ! i \<le> arr ! j" if "off \<le> i" "i \<le> j" "j < off + nat n" for i j
      using less.prems(1) that by (simp add: ascending_def)
    have rd: "rd arr ?m = Inr ?x" using half less.prems(2) by simp
    consider "eq ?x ele" | "\<not> eq ?x ele" "?x < ele" | "\<not> eq ?x ele" "\<not> ?x < ele" by blast
    then show ?thesis
    proof cases
      case 1
      with rd False less.prems(3) half show ?thesis by (subst bsearch_double.simps) (auto simp: located_def)
    next
      case 2
      have "\<exists>found loc. bsearch_double arr (?m + 1) ((n - 1) div 2) ele = Inr (found, loc) \<and>
          located arr (?m + 1) (?m + 1 + nat ((n - 1) div 2)) ele found loc"
        by (rule less.hyps) (use half less.prems asc in \<open>auto simp: ascending_def\<close>)
      then obtain found loc where r: "bsearch_double arr (?m + 1) ((n - 1) div 2) ele = Inr (found, loc)"
        "located arr (?m + 1) (off + nat n) ele found loc" unfolding half(5) by blast
      have "arr ! k < ele \<and> \<not> eq (arr ! k) ele" if "off \<le> k" "k < ?m + 1" for k
        using below_not_eq [OF asc [OF that(1)] 2(2,1)] that half by simp
      then have "located arr off (off + nat n) ele found loc"
        by (rule located_right [OF r(2)]) (simp_all add: add.assoc)
      with r(1) rd 2 False less.prems(3) show ?thesis by (subst bsearch_double.simps) simp
    next
      case 3
      have "\<exists>found loc. bsearch_double arr off (n div 2) ele = Inr (found, loc) \<and>
          located arr off ?m ele found loc"
        by (rule less.hyps) (use half less.prems asc in \<open>auto simp: ascending_def\<close>)
      then obtain found loc where r: "bsearch_double arr off (n div 2) ele = Inr (found, loc)"
        "located arr off ?m ele found loc" by blast
      have "ele < arr ! k \<and> \<not> eq (arr ! k) ele" if "?m \<le> k" "k < off + nat n" for k
        using above_not_eq [OF asc [OF _ that(1,2)] 3(2,1)] by simp
      then have "located arr off (off + nat n) ele found loc"
        by (rule located_left [OF r(2)]) (use half(1) in simp_all)
      with r(1) rd 3 False less.prems(3) show ?thesis by (subst bsearch_double.simps) simp
    qed
  qed
qed

lemma shift_up_ok:
  assumes "n < length arr" "loc \<le> n"
  shows "\<exists>t. shift_up arr loc n = Inr t \<and> length t = length arr \<and>
    (\<forall>k < length arr. t ! k = (if loc < k \<and> k \<le> n then arr ! (k - 1) else arr ! k))"
  using assms
proof (induction "n - loc" arbitrary: arr n)
  case 0
  then show ?case by (subst shift_up.simps) auto
next
  case (Suc d)
  then have lt: "loc < n" "n - 1 < length arr" by auto
  obtain t where t: "shift_up (arr[n := arr ! (n - 1)]) loc (n - 1) = Inr t" "length t = length arr"
    "\<forall>k < length arr. t ! k = (if loc < k \<and> k \<le> n - 1 then arr[n := arr ! (n - 1)] ! (k - 1) else arr[n := arr ! (n - 1)] ! k)"
  proof -
    have "d = n - 1 - loc" "n - 1 < length (arr[n := arr ! (n - 1)])" "loc \<le> n - 1"
      using Suc.hyps(2) lt by simp_all
    from Suc.hyps(1) [OF this] that show ?thesis by auto
  qed
  have "t ! k = (if loc < k \<and> k \<le> n then arr ! (k - 1) else arr ! k)" if "k < length arr" for k
    using t(3) that lt by (auto simp: nth_list_update)
  with t lt Suc.prems show ?case by (subst shift_up.simps) auto
qed

section \<open>Properties\<close>

text \<open>
  C37: on an ascending array \<open>bsearch_double\<close> finds an element within the tolerance exactly when
  there is one, and otherwise returns the place that separates the smaller from the larger ones;
  it never reads outside the array.
\<close>

theorem bsearch_double_correct:
  assumes "ascending arr 0 n" "n \<le> length arr"
  shows "\<exists>found loc. bsearch_double arr 0 (int n) ele = Inr (found, loc) \<and>
    (found \<longleftrightarrow> (\<exists>k < n. eq (arr ! k) ele)) \<and>
    (if found then loc < n \<and> eq (arr ! loc) ele
     else loc \<le> n \<and> (\<forall>k < loc. arr ! k < ele) \<and> (\<forall>k. loc \<le> k \<longrightarrow> k < n \<longrightarrow> ele < arr ! k))"
proof -
  obtain found loc where r: "bsearch_double arr 0 (int n) ele = Inr (found, loc)" "located arr 0 n ele found loc"
    using bsearch_located [of arr 0 "int n" ele] assms by auto
  have "found \<longleftrightarrow> (\<exists>k < n. eq (arr ! k) ele)"
  proof (cases found)
    case True
    with r(2) show ?thesis by (auto simp: located_def)
  next
    case False
    have "\<not> eq (arr ! k) ele" if "k < n" for k
      using r(2) False that by (cases "k < loc") (auto simp: located_def)
    with False show ?thesis by blast
  qed
  moreover have "if found then loc < n \<and> eq (arr ! loc) ele
     else loc \<le> n \<and> (\<forall>k < loc. arr ! k < ele) \<and> (\<forall>k. loc \<le> k \<longrightarrow> k < n \<longrightarrow> ele < arr ! k)"
    using r(2) by (simp add: located_def split: if_splits)
  ultimately show ?thesis using r(1) by blast
qed

theorem bsearch_double_correct_witness:
  "\<exists>loc. bsearch_double [1, 2, 4] 0 3 3 = Inr (False, loc) \<and> loc \<le> 3"
proof -
  have "ascending [1, 2, 4] 0 3"
    by (auto simp: ascending_def numeral_3_eq_3 less_Suc_eq le_Suc_eq)
  from bsearch_double_correct [OF this, of 3] have "\<exists>found loc. bsearch_double [1, 2, 4] 0 3 3 = Inr (found, loc) \<and>
    (found \<longleftrightarrow> (\<exists>k < 3. eq ([1, 2, 4] ! k) 3)) \<and> (\<not> found \<longrightarrow> loc \<le> 3)" by auto
  moreover have "\<not> (\<exists>k < 3. eq ([1, 2, 4] ! k) 3)"
  proof clarify
    fix k :: nat assume k: "k < 3" "eq ([1, 2, 4] ! k) 3"
    then consider "k = 0" | "k = 1" | "k = 2" by linarith
    then show False using k(2) by cases (simp_all add: eq_def DELTA_def)
  qed
  ultimately show ?thesis by auto
qed

text \<open>
  \<open>bsearch_insert_double\<close> leaves an ascending array as it is when it holds the element to
  within the tolerance, and otherwise inserts it so that the first \<open>n + 1\<close> cells are ascending
  and hold the old elements and the new one.
\<close>

theorem bsearch_insert_sorted:
  assumes "ascending arr 0 n" "n < length arr"
  shows "\<exists>inserted t. bsearch_insert_double arr n ele = Inr (inserted, t) \<and> length t = length arr \<and>
    (inserted \<longleftrightarrow> \<not> (\<exists>k < n. eq (arr ! k) ele)) \<and>
    (if inserted then ascending t 0 (n + 1) \<and>
       (\<exists>loc \<le> n. take (n + 1) t = take loc arr @ ele # drop loc (take n arr))
     else t = arr)"
proof -
  obtain found loc where r: "bsearch_double arr 0 (int n) ele = Inr (found, loc)" "located arr 0 n ele found loc"
    using bsearch_located [of arr 0 "int n" ele] assms by auto
  show ?thesis
  proof (cases found)
    case True
    with r show ?thesis by (auto simp: bsearch_insert_double_def located_def)
  next
    case False
    then have loc: "loc \<le> n" "\<forall>k < loc. arr ! k < ele \<and> \<not> eq (arr ! k) ele"
      "\<forall>k. loc \<le> k \<longrightarrow> k < n \<longrightarrow> ele < arr ! k \<and> \<not> eq (arr ! k) ele" using r(2) by (auto simp: located_def)
    obtain s where s: "shift_up arr loc n = Inr s" "length s = length arr"
      "\<forall>k < length arr. s ! k = (if loc < k \<and> k \<le> n then arr ! (k - 1) else arr ! k)"
      using shift_up_ok [OF assms(2) loc(1)] by blast
    let ?t = "s[loc := ele]"
    have nth: "?t ! k = (if k = loc then ele else if k < loc then arr ! k else arr ! (k - 1))" if "k \<le> n" for k
      using s that loc(1) assms(2) by (auto simp: nth_list_update)
    have run: "bsearch_insert_double arr n ele = Inr (True, ?t)"
      using r(1) s False loc(1) assms(2) by (simp add: bsearch_insert_double_def)
    have "?t ! i \<le> ?t ! j" if "i \<le> j" "j < n + 1" for i j
      using that nth [of i] nth [of j] loc assms(1)
      by (auto simp: ascending_def less_imp_le dest: spec [where x = "j - 1"] spec [where x = i])
    then have "ascending ?t 0 (n + 1)" by (simp add: ascending_def)
    moreover have "take (n + 1) ?t = take loc arr @ ele # drop loc (take n arr)"
    proof (rule nth_equalityI)
      fix i assume "i < length (take (n + 1) ?t)"
      then have i: "i \<le> n" by simp
      have "(take loc arr @ ele # drop loc (take n arr)) ! i =
          (if i = loc then ele else if i < loc then arr ! i else arr ! (i - 1))"
        using i loc(1) assms(2) by (auto simp: nth_append nth_Cons')
      with nth [OF i] i show "take (n + 1) ?t ! i = (take loc arr @ ele # drop loc (take n arr)) ! i" by simp
    qed (use s loc(1) assms(2) in simp)
    moreover have "\<not> (\<exists>k < n. eq (arr ! k) ele)" using loc(2,3) by (metis not_less)
    ultimately show ?thesis
      using run s(2) loc(1) by (intro exI [of _ True] exI [of _ ?t]) auto
  qed
qed

theorem bsearch_insert_sorted_witness:
  "\<exists>t. bsearch_insert_double [1, 2, 4, 0] 3 1 = Inr (False, t) \<and> t = [1, 2, 4, 0]"
proof -
  have asc: "ascending [1, 2, 4, 0] 0 3"
    by (auto simp: ascending_def numeral_3_eq_3 less_Suc_eq le_Suc_eq)
  have "\<exists>inserted t. bsearch_insert_double [1, 2, 4, 0] 3 1 = Inr (inserted, t) \<and>
    (inserted \<longleftrightarrow> \<not> (\<exists>k < 3. eq ([1, 2, 4, 0] ! k) 1)) \<and> (\<not> inserted \<longrightarrow> t = [1, 2, 4, 0])"
    using bsearch_insert_sorted [OF asc, of 1] by auto
  moreover have "\<exists>k < 3. eq ([1, 2, 4, 0] ! k) 1" by (rule exI [of _ 0]) simp
  ultimately show ?thesis by auto
qed

end
