(* ===== verification/Linear.thy ===== *)
theory Linear
  imports Util_Base
begin

text \<open>
  The linear algebra of \<open>hotspot_tool/RCutil.c\<close>, as compiled without a vendor library
  (\<open>MATHACCEL\<close> is \<open>none\<close>): thermal resistances and capacitances, LUP decomposition, substitution,
  products and the inverse. Matrices are those of \<open>dmatrix\<close>; the flag \<open>spd\<close> is not read by
  this code.
\<close>

section \<open>Resistances and capacitances\<close>

definition C_FACTOR :: real where "C_FACTOR = 333 / 1000"

definition getr :: "real \<Rightarrow> real \<Rightarrow> real \<Rightarrow> real res" where
  "getr conductivity thickness area = fdiv thickness (conductivity * area)"

definition getcap :: "real \<Rightarrow> real \<Rightarrow> real \<Rightarrow> real" where
  "getcap sp_heat thickness area = C_FACTOR * sp_heat * thickness * area"

section \<open>LUP decomposition\<close>

text \<open>The largest absolute value of column \<open>k\<close> from row \<open>k\<close> on, and its row.\<close>

definition find_pivot :: "dmat \<Rightarrow> nat \<Rightarrow> nat \<Rightarrow> nat \<Rightarrow> (real \<times> nat) res" where
  "find_pivot a n k pivot =
     for_up k n (\<lambda>i (mx, pivot). rbind (mget a i k) (\<lambda>x.
       Inr (if \<bar>x\<bar> > mx then (\<bar>x\<bar>, i) else (mx, pivot)))) (0, pivot)"

definition swap_perm :: "nat list \<Rightarrow> nat \<Rightarrow> nat \<Rightarrow> nat list res" where
  "swap_perm p k pivot = rbind (rd p k) (\<lambda>x. rbind (rd p pivot) (\<lambda>y.
     rbind (wr p k y) (\<lambda>p. wr p pivot x)))"

definition swap_rows :: "dmat \<Rightarrow> nat \<Rightarrow> nat \<Rightarrow> nat \<Rightarrow> dmat res" where
  "swap_rows a n k pivot = for_up 0 n (\<lambda>i a.
     rbind (mget a k i) (\<lambda>x. rbind (mget a pivot i) (\<lambda>y.
     rbind (mset_at a k i y) (\<lambda>a. mset_at a pivot i x)))) a"

definition eliminate_row :: "nat \<Rightarrow> nat \<Rightarrow> nat \<Rightarrow> dmat \<Rightarrow> dmat res" where
  "eliminate_row n k i a =
     rbind (mget a i k) (\<lambda>x. rbind (mget a k k) (\<lambda>y. rbind (fdiv x y) (\<lambda>q.
     rbind (mset_at a i k q) (\<lambda>a.
     for_up (k + 1) n (\<lambda>j a.
       rbind (mget a i j) (\<lambda>aij. rbind (mget a i k) (\<lambda>aik. rbind (mget a k j) (\<lambda>akj.
       mset_at a i j (aij - aik * akj))))) a))))"

definition lup_step :: "nat \<Rightarrow> nat \<Rightarrow> dmat \<times> nat list \<times> nat \<Rightarrow> (dmat \<times> nat list \<times> nat) res" where
  "lup_step n k st = (case st of (a, p, pivot) \<Rightarrow>
     rbind (find_pivot a n k pivot) (\<lambda>(mx, pivot).
     if eq mx 0 then Inl (Fatal ''singular matrix in lupdcmp'') else
     rbind (swap_perm p k pivot) (\<lambda>p.
     rbind (swap_rows a n k pivot) (\<lambda>a.
     rbind (for_up (k + 1) n (eliminate_row n k) a) (\<lambda>a. Inr (a, p, pivot))))))"

definition lupdcmp :: "dmat \<Rightarrow> nat \<Rightarrow> nat list \<Rightarrow> bool \<Rightarrow> (dmat \<times> nat list) res" where
  "lupdcmp a n p spd =
     rbind (for_up 0 n (\<lambda>i p. wr p i i) p) (\<lambda>p.
     rbind (for_up 0 (n - 1) (lup_step n) (a, p, 0)) (\<lambda>(a, p, _). Inr (a, p)))"

section \<open>Substitution\<close>

definition LOWER :: "dmat \<Rightarrow> nat \<Rightarrow> nat \<Rightarrow> real res" where
  "LOWER a i j = (if i > j then mget a i j else Inr 0)"

definition UPPER :: "dmat \<Rightarrow> nat \<Rightarrow> nat \<Rightarrow> real res" where
  "UPPER a i j = (if i \<le> j then mget a i j else Inr 0)"

definition forward_subst :: "dmat \<Rightarrow> nat \<Rightarrow> nat list \<Rightarrow> real list \<Rightarrow> real list res" where
  "forward_subst a n p b =
     for_up 0 n (\<lambda>i y.
       rbind (for_up 0 i (\<lambda>j s. rbind (rd y j) (\<lambda>yj. rbind (LOWER a i j) (\<lambda>l. Inr (s + yj * l)))) 0) (\<lambda>s.
       rbind (rd p i) (\<lambda>pi. rbind (rd b pi) (\<lambda>bi. wr y i (bi - s))))) (dvector n)"

definition backward_subst :: "dmat \<Rightarrow> nat \<Rightarrow> real list \<Rightarrow> real list \<Rightarrow> real list res" where
  "backward_subst a n y x =
     for_down n (\<lambda>i x.
       rbind (for_up (i + 1) n (\<lambda>j s. rbind (rd x j) (\<lambda>xj. rbind (UPPER a i j) (\<lambda>u. Inr (s + xj * u)))) 0) (\<lambda>s.
       rbind (rd y i) (\<lambda>yi. rbind (UPPER a i i) (\<lambda>u. rbind (fdiv (yi - s) u) (wr x i))))) x"

definition lusolve :: "dmat \<Rightarrow> nat \<Rightarrow> nat list \<Rightarrow> real list \<Rightarrow> real list \<Rightarrow> bool \<Rightarrow> real list res" where
  "lusolve a n p b x spd = rbind (forward_subst a n p b) (\<lambda>y. backward_subst a n y x)"

section \<open>Products and the inverse\<close>

definition matmult :: "dmat \<Rightarrow> dmat \<Rightarrow> dmat \<Rightarrow> nat \<Rightarrow> dmat res" where
  "matmult c a b n =
     for_up 0 n (\<lambda>i c. for_up 0 n (\<lambda>j c.
       rbind (mset_at c i j 0) (\<lambda>c.
       for_up 0 n (\<lambda>k c.
         rbind (mget c i j) (\<lambda>s. rbind (mget a i k) (\<lambda>x. rbind (mget b k j) (\<lambda>y.
         mset_at c i j (s + x * y))))) c)) c) c"

definition diagmatmult :: "dmat \<Rightarrow> real list \<Rightarrow> dmat \<Rightarrow> nat \<Rightarrow> dmat res" where
  "diagmatmult c a b n =
     for_up 0 n (\<lambda>i c. for_up 0 n (\<lambda>j c.
       rbind (rd a i) (\<lambda>x. rbind (mget b i j) (\<lambda>y. mset_at c i j (x * y)))) c) c"

definition matvectmult :: "real list \<Rightarrow> dmat \<Rightarrow> real list \<Rightarrow> nat \<Rightarrow> real list res" where
  "matvectmult vout m vin n =
     for_up 0 n (\<lambda>i v.
       rbind (wr v i 0) (\<lambda>v.
       for_up 0 n (\<lambda>j v.
         rbind (rd v i) (\<lambda>s. rbind (mget m i j) (\<lambda>x. rbind (rd vin j) (\<lambda>y.
         wr v i (s + x * y))))) v)) vout"

definition diagmatvectmult :: "real list \<Rightarrow> real list \<Rightarrow> real list \<Rightarrow> nat \<Rightarrow> real list res" where
  "diagmatvectmult vout m vin n =
     for_up 0 n (\<lambda>i v. rbind (rd m i) (\<lambda>x. rbind (rd vin i) (\<lambda>y. wr v i (x * y)))) vout"

definition BLOCK_SIZE :: nat where "BLOCK_SIZE = 256"

text \<open>The matrix \<open>m\<close> is overwritten by its decomposition; both matrices are returned.\<close>

definition matinv :: "dmat \<Rightarrow> dmat \<Rightarrow> nat \<Rightarrow> bool \<Rightarrow> (dmat \<times> dmat) res" where
  "matinv iv m n spd =
     rbind (lupdcmp m n (replicate n 0) spd) (\<lambda>(m, p).
     rbind (for_up 0 n (\<lambda>j (iv, col, work).
       rbind (for_up 0 n (\<lambda>i col. wr col i 0) col) (\<lambda>col.
       rbind (wr col j 1) (\<lambda>col.
       rbind (lusolve m n p col work spd) (\<lambda>work.
       rbind (for_up 0 n (\<lambda>i iv. rbind (rd work i) (mset_at iv i j)) iv) (\<lambda>iv.
       Inr (iv, col, work)))))) (iv, dvector n, dvector (n * BLOCK_SIZE))) (\<lambda>(iv, _).
     Inr (iv, m)))"

definition scaleadd_dvector :: "real list \<Rightarrow> real list \<Rightarrow> real list \<Rightarrow> nat \<Rightarrow> real \<Rightarrow> real list res" where
  "scaleadd_dvector dst src1 src2 n scale =
     for_up 0 n (\<lambda>i dst. rbind (rd src1 i) (\<lambda>x. rbind (rd src2 i) (\<lambda>y. wr dst i (x + scale * y)))) dst"

end
