(* ===== verification/LUP.thy ===== *)
theory LUP
  imports Linear "HOL-Library.Multiset"
begin

text \<open>
  What the decomposition and the substitutions of \<open>RCutil.c\<close> compute: \<open>lupdcmp\<close> gives a
  permutation of the rows and the triangular factors of the permuted matrix, and \<open>lusolve\<close>
  solves the system of the matrix that was decomposed.
\<close>

lemma for_up_or:
  assumes "I lo s"
    and "\<And>i t. lo \<le> i \<Longrightarrow> i < hi \<Longrightarrow> I i t \<Longrightarrow> body i t = Inl e \<or> (\<exists>t'. body i t = Inr t' \<and> I (Suc i) t')"
    and "lo \<le> hi"
  shows "for_up lo hi body s = Inl e \<or> (\<exists>t. for_up lo hi body s = Inr t \<and> I hi t)"
  using assms
proof (induction "hi - lo" arbitrary: lo s)
  case (Suc d)
  then have lt: "lo < hi" by simp
  from Suc.prems(2) [of lo s] Suc.prems(1) lt consider "body lo s = Inl e" | t' where "body lo s = Inr t'" "I (Suc lo) t'"
    by auto
  then show ?case
  proof cases
    case 2
    then have "for_up (Suc lo) hi body t' = Inl e \<or> (\<exists>t. for_up (Suc lo) hi body t' = Inr t \<and> I hi t)"
      using Suc by (intro Suc.hyps(1)) auto
    with 2 lt show ?thesis by (simp add: for_up_step)
  qed (use lt in \<open>simp add: for_up_step\<close>)
qed (use le_antisym in fastforce)

section \<open>Updating a matrix\<close>

text \<open>The matrix \<open>m'\<close> is \<open>m\<close> with the entries given by \<open>F\<close>.\<close>

definition reads_as :: "dmat \<Rightarrow> nat \<Rightarrow> (nat \<Rightarrow> nat \<Rightarrow> real) \<Rightarrow> bool" where
  "reads_as m n F \<longleftrightarrow> dmat_ok m n n \<and> (\<forall>i < n. \<forall>j < n. mat_at m i j = F i j)"

lemma reads_as_self: "dmat_ok m n n \<Longrightarrow> reads_as m n (mat_at m)"
  by (simp add: reads_as_def)

lemma reads_as_get [simp]: "reads_as m n F \<Longrightarrow> i < n \<Longrightarrow> j < n \<Longrightarrow> mget m i j = Inr (F i j)"
  using mget_ok [of m n n i j] by (simp add: reads_as_def)

lemma reads_as_set:
  assumes "reads_as m n F" "i < n" "j < n"
  shows "\<exists>m'. mset_at m i j x = Inr m' \<and> reads_as m' n (\<lambda>k l. if k = i \<and> l = j then x else F k l)"
  using mset_ok [of m n n i j x] assms by (auto simp: reads_as_def)

lemma reads_as_cong:
  assumes "reads_as m n F" "\<And>i j. i < n \<Longrightarrow> j < n \<Longrightarrow> F i j = G i j"
  shows "reads_as m n G"
  using assms by (simp add: reads_as_def)

section \<open>The steps of the decomposition\<close>

lemma find_pivot_ok:
  assumes "reads_as a n F" "k < n"
  shows "\<exists>mx q. find_pivot a n k pivot = Inr (mx, q) \<and> 0 \<le> mx \<and> (\<forall>i. k \<le> i \<and> i < n \<longrightarrow> \<bar>F i k\<bar> \<le> mx) \<and>
    (mx = 0 \<or> k \<le> q \<and> q < n \<and> \<bar>F q k\<bar> = mx)"
proof -
  let ?I = "\<lambda>i (mx, q). 0 \<le> mx \<and> (\<forall>l. k \<le> l \<and> l < i \<longrightarrow> \<bar>F l k\<bar> \<le> mx) \<and>
    (mx = 0 \<or> k \<le> q \<and> q < n \<and> \<bar>F q k\<bar> = mx)"
  have "\<exists>t. find_pivot a n k pivot = Inr t \<and> ?I n t"
    unfolding find_pivot_def
  proof (rule for_up_rule [where I = ?I])
    fix i t assume "k \<le> i" "i < n" "?I i t"
    then show "\<exists>t'. (case t of (mx, pivot) \<Rightarrow> rbind (mget a i k) (\<lambda>x.
       Inr (if \<bar>x\<bar> > mx then (\<bar>x\<bar>, i) else (mx, pivot)))) = Inr t' \<and> ?I (Suc i) t'"
      using assms by (cases t) (fastforce simp: less_Suc_eq)
  qed (use assms in auto)
  then show ?thesis by auto
qed

lemma swap_rows_ok:
  assumes "reads_as a n F" "k < n" "q < n"
  shows "\<exists>a'. swap_rows a n k q = Inr a' \<and>
    reads_as a' n (\<lambda>i j. if i = k then F q j else if i = q then F k j else F i j)"
proof -
  let ?I = "\<lambda>c a'. reads_as a' n (\<lambda>i j. if j < c then if i = k then F q j else if i = q then F k j else F i j
    else F i j)"
  have "\<exists>t. swap_rows a n k q = Inr t \<and> ?I n t"
    unfolding swap_rows_def
  proof (rule for_up_rule [where I = ?I])
    fix c t assume c: "c < n" and I: "?I c t"
    obtain t1 where t1: "mset_at t k c (F q c) = Inr t1"
      "reads_as t1 n (\<lambda>i j. if i = k \<and> j = c then F q c else
         if j < c then if i = k then F q j else if i = q then F k j else F i j else F i j)"
      using reads_as_set [OF I assms(2) c] by blast
    obtain t2 where t2: "mset_at t1 q c (F k c) = Inr t2"
      "reads_as t2 n (\<lambda>i j. if i = q \<and> j = c then F k c else if i = k \<and> j = c then F q c else
         if j < c then if i = k then F q j else if i = q then F k j else F i j else F i j)"
      using reads_as_set [OF t1(2) assms(3) c] by blast
    have "?I (Suc c) t2" by (rule reads_as_cong [OF t2(2)]) (auto simp: less_Suc_eq)
    moreover have "rbind (mget t k c) (\<lambda>x. rbind (mget t q c) (\<lambda>y.
        rbind (mset_at t k c y) (\<lambda>a. mset_at a q c x))) = Inr t2"
      using I c assms(2,3) t1(1) t2(1) by simp
    ultimately show "\<exists>t'. rbind (mget t k c) (\<lambda>x. rbind (mget t q c) (\<lambda>y.
        rbind (mset_at t k c y) (\<lambda>a. mset_at a q c x))) = Inr t' \<and> ?I (Suc c) t'"
      by (intro exI [of _ t2] conjI)
  qed (use assms in simp_all)
  then obtain t where "swap_rows a n k q = Inr t" "?I n t" by blast
  then show ?thesis by (intro exI [of _ t]) (auto elim!: reads_as_cong)
qed

lemma eliminate_row_ok:
  assumes "reads_as a n F" "k < i" "i < n" "F k k \<noteq> 0"
  shows "\<exists>a'. eliminate_row n k i a = Inr a' \<and>
    reads_as a' n (\<lambda>r c. if r = i \<and> c = k then F i k / F k k
      else if r = i \<and> k < c then F i c - F i k / F k k * F k c else F r c)"
proof -
  have kn: "k < n" using assms by simp
  let ?q = "F i k / F k k"
  let ?G = "\<lambda>m r c. if r = i \<and> c = k then ?q else if r = i \<and> k < c \<and> c < m then F i c - ?q * F k c else F r c"
  obtain a1 where a1: "mset_at a i k ?q = Inr a1" "reads_as a1 n (\<lambda>r c. if r = i \<and> c = k then ?q else F r c)"
    using reads_as_set [OF assms(1,3) kn] by blast
  let ?body = "\<lambda>j a. rbind (mget a i j) (\<lambda>aij. rbind (mget a i k) (\<lambda>aik. rbind (mget a k j) (\<lambda>akj.
       mset_at a i j (aij - aik * akj))))"
  have "\<exists>t. for_up (k + 1) n ?body a1 = Inr t \<and> reads_as t n (?G n)"
  proof (rule for_up_rule [where I = "\<lambda>m t. reads_as t n (?G m)"])
    fix j t assume j: "k + 1 \<le> j" "j < n" and I: "reads_as t n (?G j)"
    obtain t1 where t1: "mset_at t i j (F i j - ?q * F k j) = Inr t1"
      "reads_as t1 n (\<lambda>r c. if r = i \<and> c = j then F i j - ?q * F k j else ?G j r c)"
      using reads_as_set [OF I assms(3) j(2)] by blast
    have "?body j t = Inr t1" using I j assms(2,3) kn t1(1) by simp
    moreover have "reads_as t1 n (?G (Suc j))" by (rule reads_as_cong [OF t1(2)]) (use j in \<open>auto simp: less_Suc_eq\<close>)
    ultimately show "\<exists>t'. ?body j t = Inr t' \<and> reads_as t' n (?G (Suc j))"
      by (intro exI [of _ t1] conjI)
  next
    show "reads_as a1 n (?G (k + 1))" by (rule reads_as_cong [OF a1(2)]) auto
  qed (use kn in simp)
  then obtain t where t: "for_up (k + 1) n ?body a1 = Inr t" "reads_as t n (?G n)" by blast
  have "eliminate_row n k i a = Inr t"
    using a1(1) t(1) assms kn by (simp add: eliminate_row_def)
  moreover have "reads_as t n (\<lambda>r c. if r = i \<and> c = k then ?q else if r = i \<and> k < c then F i c - ?q * F k c else F r c)"
    by (rule reads_as_cong [OF t(2)]) auto
  ultimately show ?thesis by (intro exI [of _ t] conjI)
qed

text \<open>One elimination: the multipliers below the pivot and the remaining square.\<close>

definition eliminated :: "nat \<Rightarrow> (nat \<Rightarrow> nat \<Rightarrow> real) \<Rightarrow> nat \<Rightarrow> nat \<Rightarrow> real" where
  "eliminated k F r c = (if k < r then if c = k then F r k / F k k
     else if k < c then F r c - F r k / F k k * F k c else F r c else F r c)"

lemma eliminate_ok:
  assumes "reads_as a n F" "k < n" "F k k \<noteq> 0"
  shows "\<exists>a'. for_up (k + 1) n (eliminate_row n k) a = Inr a' \<and> reads_as a' n (eliminated k F)"
proof -
  let ?G = "\<lambda>m r c. if r < m then eliminated k F r c else F r c"
  have "\<exists>t. for_up (k + 1) n (eliminate_row n k) a = Inr t \<and> reads_as t n (?G n)"
  proof (rule for_up_rule [where I = "\<lambda>m t. reads_as t n (?G m)"])
    fix i t assume i: "k + 1 \<le> i" "i < n" and I: "reads_as t n (?G i)"
    have "?G i k k \<noteq> 0" using assms(3) by (simp add: eliminated_def)
    then obtain t' where t': "eliminate_row n k i t = Inr t'" "reads_as t' n
      (\<lambda>r c. if r = i \<and> c = k then ?G i i k / ?G i k k
        else if r = i \<and> k < c then ?G i i c - ?G i i k / ?G i k k * ?G i k c else ?G i r c)"
      using eliminate_row_ok [OF I, of k i] i by auto
    have "reads_as t' n (?G (Suc i))"
      by (rule reads_as_cong [OF t'(2)]) (use i in \<open>auto simp: eliminated_def less_Suc_eq\<close>)
    with t'(1) show "\<exists>t'. eliminate_row n k i t = Inr t' \<and> reads_as t' n (?G (Suc i))"
      by (intro exI [of _ t'] conjI)
  next
    show "reads_as a n (?G (k + 1))" by (rule reads_as_cong [OF assms(1)]) (auto simp: eliminated_def)
  qed (use assms in simp)
  then obtain t where "for_up (k + 1) n (eliminate_row n k) a = Inr t" "reads_as t n (?G n)" by blast
  then show ?thesis by (auto elim!: reads_as_cong)
qed

section \<open>The factors\<close>

text \<open>
  After \<open>k\<close> steps the rows of \<open>A\<close>, permuted by \<open>p\<close>, are the products of the finished parts of
  the factors plus the square that is left.
\<close>

definition factored :: "nat \<Rightarrow> nat \<Rightarrow> (nat \<Rightarrow> nat \<Rightarrow> real) \<Rightarrow> nat list \<Rightarrow> (nat \<Rightarrow> nat \<Rightarrow> real) \<Rightarrow> bool" where
  "factored n k A p F \<longleftrightarrow> (\<forall>i < n. \<forall>j < n. A (p ! i) j =
     (\<Sum>l < min k (min i j). F i l * F l j) + (if j < i \<and> j < k then F i j * F j j else F i j))"

lemma factored_start: "(\<And>i. i < n \<Longrightarrow> p ! i = i) \<Longrightarrow> factored n 0 A p A"
  by (simp add: factored_def)

lemma factored_swap:
  assumes "factored n k A p F" "k < n" "k \<le> q" "q < n" "length p = n"
  shows "factored n k A (p[k := p ! q, q := p ! k]) (\<lambda>i j. if i = k then F q j else if i = q then F k j else F i j)"
    (is "factored n k A ?p ?G")
  unfolding factored_def
proof (intro allI impI)
  fix i j assume ij: "i < n" "j < n"
  define i' where "i' = (if i = k then q else if i = q then k else i)"
  have i': "i' < n" "min k (min i' j) = min k (min i j)" "j < i' \<and> j < k \<longleftrightarrow> j < i \<and> j < k"
    using ij assms(2-4) by (auto simp: i'_def)
  have "?p ! i = p ! i'" "\<And>l. ?G i l = F i' l"
    using ij assms(2-5) by (auto simp: i'_def nth_list_update)
  moreover have "?G l c = F l c" if "l < k" for l c using that assms(3) by simp
  moreover have "A (p ! i') j = (\<Sum>l < min k (min i' j). F i' l * F l j) + (if j < i' \<and> j < k then F i' j * F j j else F i' j)"
    using assms(1) i'(1) ij(2) by (simp add: factored_def)
  ultimately show "A (?p ! i) j = (\<Sum>l < min k (min i j). ?G i l * ?G l j) + (if j < i \<and> j < k then ?G i j * ?G j j else ?G i j)"
    by (simp only: i'(2,3)) (auto intro!: sum.cong)
qed

lemma factored_eliminate:
  assumes "factored n k A p F" "k < n" "F k k \<noteq> 0"
  shows "factored n (Suc k) A p (eliminated k F)"
  unfolding factored_def
proof (intro allI impI)
  fix i j assume ij: "i < n" "j < n"
  let ?G = "eliminated k F"
  have old: "A (p ! i) j = (\<Sum>l < min k (min i j). F i l * F l j) + (if j < i \<and> j < k then F i j * F j j else F i j)"
    using assms(1) ij by (simp add: factored_def)
  have rows: "?G r c = F r c" if "r \<le> k \<or> c < k" for r c
    using that by (auto simp: eliminated_def)
  have low: "(\<Sum>l < m. ?G i l * ?G l j) = (\<Sum>l < m. F i l * F l j)" if "m \<le> k" for m
    using that by (intro sum.cong) (auto simp: rows)
  show "A (p ! i) j = (\<Sum>l < min (Suc k) (min i j). ?G i l * ?G l j) + (if j < i \<and> j < Suc k then ?G i j * ?G j j else ?G i j)"
  proof (cases "i \<le> k \<or> j < k")
    case True
    then have "min (Suc k) (min i j) = min k (min i j)" "j < i \<and> j < Suc k \<longleftrightarrow> j < i \<and> j < k" by auto
    moreover have "?G i j = F i j" "j < i \<and> j < k \<Longrightarrow> ?G j j = F j j" using True by (auto simp: rows)
    ultimately show ?thesis using old low [of "min k (min i j)"] by (simp only: min.cobounded1) auto
  next
    case False
    show ?thesis
    proof (cases "j = k")
      case True
      then have "min (Suc k) (min i j) = k" "min k (min i j) = k" using False by auto
      with True False assms(3) old low [of k] show ?thesis by (simp add: rows) (simp add: eliminated_def)
    next
      case jk: False
      then have "min (Suc k) (min i j) = Suc k" "min k (min i j) = k" using False by auto
      with jk False old low [of k] show ?thesis by (simp add: rows) (simp add: eliminated_def)
    qed
  qed
qed

text \<open>A list that permutes the indices below \<open>n\<close>.\<close>

definition permutes_idx :: "nat list \<Rightarrow> nat \<Rightarrow> bool" where
  "permutes_idx p n \<longleftrightarrow> length p = n \<and> distinct p \<and> set p = {..<n}"

lemma permutes_idx_swap:
  assumes "permutes_idx p n" "k < n" "q < n"
  shows "swap_perm p k q = Inr (p[k := p ! q, q := p ! k])" "permutes_idx (p[k := p ! q, q := p ! k]) n"
proof -
  have len: "length p = n" using assms(1) by (simp add: permutes_idx_def)
  then show "swap_perm p k q = Inr (p[k := p ! q, q := p ! k])" using assms(2,3) by (simp add: swap_perm_def)
  have "mset (p[k := p ! q, q := p ! k]) = mset p"
    using len assms(2,3) by (simp add: mset_swap)
  then have "set (p[k := p ! q, q := p ! k]) = set p" "distinct (p[k := p ! q, q := p ! k]) = distinct p"
    by (rule mset_eq_setD, rule mset_eq_imp_distinct_iff)
  then show "permutes_idx (p[k := p ! q, q := p ! k]) n"
    using assms(1) by (simp only: permutes_idx_def length_list_update)
qed

lemma identity_perm:
  assumes "length p = n"
  shows "for_up 0 n (\<lambda>i p. wr p i i) p = Inr [0..<n]"
proof -
  have "\<exists>t. for_up 0 n (\<lambda>i p. wr p i i) p = Inr t \<and> length t = n \<and> (\<forall>j < n. t ! j = j)"
    by (rule for_up_rule [where I = "\<lambda>i t. length t = n \<and> (\<forall>j < i. t ! j = j)"])
      (use assms in \<open>auto simp: less_Suc_eq nth_list_update\<close>)
  then obtain t where t: "for_up 0 n (\<lambda>i p. wr p i i) p = Inr t" "length t = n" "\<forall>j < n. t ! j = j" by blast
  then have "t = [0..<n]" by (intro nth_equalityI) auto
  with t(1) show ?thesis by simp
qed

definition lup_inv :: "nat \<Rightarrow> (nat \<Rightarrow> nat \<Rightarrow> real) \<Rightarrow> nat \<Rightarrow> dmat \<times> nat list \<times> nat \<Rightarrow> bool" where
  "lup_inv n A k st = (case st of (a, p, pivot) \<Rightarrow> dmat_ok a n n \<and> permutes_idx p n \<and>
     factored n k A p (mat_at a) \<and> (\<forall>i < k. mat_at a i i \<noteq> 0))"

text \<open>A step either stops with a singular matrix or keeps the invariant.\<close>

lemma lup_step_ok:
  assumes "lup_inv n A k st" "k < n"
  shows "lup_step n k st = Inl (Fatal ''singular matrix in lupdcmp'') \<and>
      (\<forall>i. k \<le> i \<and> i < n \<longrightarrow> \<bar>mat_at (fst st) i k\<bar> < DELTA) \<or>
    (\<exists>st'. lup_step n k st = Inr st' \<and> lup_inv n A (Suc k) st')"
proof -
  obtain a p pivot where st: "st = (a, p, pivot)" by (cases st)
  let ?F = "mat_at a"
  have a: "reads_as a n ?F" and p: "permutes_idx p n" and f: "factored n k A p ?F" and d: "\<forall>i < k. ?F i i \<noteq> 0"
    using assms(1) by (auto simp: st lup_inv_def intro: reads_as_self)
  obtain mx q where q: "find_pivot a n k pivot = Inr (mx, q)" "0 \<le> mx" "\<forall>i. k \<le> i \<and> i < n \<longrightarrow> \<bar>?F i k\<bar> \<le> mx"
    "mx = 0 \<or> k \<le> q \<and> q < n \<and> \<bar>?F q k\<bar> = mx"
    using find_pivot_ok [OF a assms(2)] by blast
  show ?thesis
  proof (cases "eq mx 0")
    case True
    then have "mx < DELTA" using q(2) by (simp add: eq_def)
    then show ?thesis using q(1,3) True by (auto simp: st lup_step_def intro: le_less_trans)
  next
    case False
    then have mx: "mx \<noteq> 0" using DELTA_pos by (auto simp: eq_def)
    with q(4) have qn: "k \<le> q" "q < n" "?F q k \<noteq> 0" by auto
    let ?S = "\<lambda>i j. if i = k then ?F q j else if i = q then ?F k j else ?F i j"
    let ?p = "p[k := p ! q, q := p ! k]"
    obtain a1 where a1: "swap_rows a n k q = Inr a1" "reads_as a1 n ?S"
      using swap_rows_ok [OF a assms(2) qn(2)] by blast
    obtain a2 where a2: "for_up (k + 1) n (eliminate_row n k) a1 = Inr a2" "reads_as a2 n (eliminated k ?S)"
      using eliminate_ok [OF a1(2) assms(2)] qn(3) by auto
    have len: "length p = n" using p by (simp add: permutes_idx_def)
    have g: "factored n (Suc k) A ?p (eliminated k ?S)"
      by (rule factored_eliminate [OF factored_swap [OF f assms(2) qn(1,2) len] assms(2)]) (use qn(3) in simp)
    have m: "mat_at a2 i j = eliminated k ?S i j" if "i < n" "j < n" for i j
      using a2(2) that by (simp add: reads_as_def)
    have "factored n (Suc k) A ?p (mat_at a2)"
      using g unfolding factored_def by (auto simp: m intro!: sum.cong)
    moreover have "mat_at a2 i i \<noteq> 0" if "i < Suc k" for i
      using that assms(2) d qn by (auto simp: m eliminated_def less_Suc_eq)
    moreover have "lup_step n k st = Inr (a2, ?p, q)"
      using q(1) False a1(1) a2(1) permutes_idx_swap(1) [OF p assms(2) qn(2)] by (simp add: st lup_step_def)
    ultimately show ?thesis
      using a2(2) permutes_idx_swap(2) [OF p assms(2) qn(2)] by (auto simp: lup_inv_def reads_as_def)
  qed
qed

lemma lupdcmp_ok:
  assumes "dmat_ok a n n" "length p = n"
  shows "lupdcmp a n p spd = Inl (Fatal ''singular matrix in lupdcmp'') \<or>
    (\<exists>lu p'. lupdcmp a n p spd = Inr (lu, p') \<and> dmat_ok lu n n \<and> permutes_idx p' n \<and>
      factored n n (mat_at a) p' (mat_at lu) \<and> (\<forall>i < n - 1. mat_at lu i i \<noteq> 0))"
proof -
  let ?A = "mat_at a"
  have "lup_inv n ?A 0 (a, [0..<n], 0)"
    using assms(1) by (auto simp: lup_inv_def permutes_idx_def intro!: factored_start)
  then have "for_up 0 (n - 1) (lup_step n) (a, [0..<n], 0) = Inl (Fatal ''singular matrix in lupdcmp'') \<or>
      (\<exists>t. for_up 0 (n - 1) (lup_step n) (a, [0..<n], 0) = Inr t \<and> lup_inv n ?A (n - 1) t)"
  proof (rule for_up_or)
    fix i t assume "i < n - 1" "lup_inv n ?A i t"
    then show "lup_step n i t = Inl (Fatal ''singular matrix in lupdcmp'') \<or>
        (\<exists>t'. lup_step n i t = Inr t' \<and> lup_inv n ?A (Suc i) t')"
      using lup_step_ok [of n ?A i t] by auto
  qed simp
  moreover have "factored n n A q F" if "factored n (n - 1) A q F" for A q F
  proof -
    have "min (n - 1) (min i j) = min n (min i j) \<and> (j < i \<and> j < n - 1 \<longleftrightarrow> j < i \<and> j < n)"
      if "i < n" "j < n" for i j using that by auto
    with that show ?thesis unfolding factored_def by simp
  qed
  ultimately show ?thesis
    using identity_perm [OF assms(2)] by (fastforce simp: lupdcmp_def lup_inv_def)
qed

section \<open>The substitutions\<close>

lemma sum_loop:
  assumes "lo \<le> hi" "\<And>j s. lo \<le> j \<Longrightarrow> j < hi \<Longrightarrow> body j s = Inr (s + f j)"
  shows "for_up lo hi body (0::real) = Inr (\<Sum>j = lo..<hi. f j)"
proof -
  have "\<exists>t. for_up lo hi body 0 = Inr t \<and> t = (\<Sum>j = lo..<hi. f j)"
    by (rule for_up_rule [where I = "\<lambda>i t. t = (\<Sum>j = lo..<i. f j)"]) (use assms in auto)
  then show ?thesis by simp
qed

text \<open>The two triangles with the ones of the lower one written out.\<close>

lemma forward_subst_ok:
  assumes "reads_as a n F" "length p = n" "\<And>i. i < n \<Longrightarrow> p ! i < length b"
  shows "\<exists>y. forward_subst a n p b = Inr y \<and> length y = n \<and>
    (\<forall>i < n. y ! i + (\<Sum>j < i. F i j * y ! j) = b ! (p ! i))"
proof -
  let ?I = "\<lambda>i y. length y = n \<and> (\<forall>k < i. y ! k + (\<Sum>j < k. F k j * y ! j) = b ! (p ! k))"
  have "\<exists>y. forward_subst a n p b = Inr y \<and> ?I n y"
    unfolding forward_subst_def
  proof (rule for_up_rule [where I = ?I])
    fix i y assume i: "i < n" and I: "?I i y"
    let ?s = "\<Sum>j = 0..<i. F i j * y ! j"
    have s: "for_up 0 i (\<lambda>j s. rbind (rd y j) (\<lambda>yj. rbind (LOWER a i j) (\<lambda>l. Inr (s + yj * l)))) 0 = Inr ?s"
      by (rule sum_loop) (use i I assms(1) in \<open>auto simp: LOWER_def\<close>)
    let ?y = "y[i := b ! (p ! i) - ?s]"
    have "?I (Suc i) ?y"
    proof (intro conjI allI impI)
      fix k assume k: "k < Suc i"
      have "(\<Sum>j < k. F k j * ?y ! j) = (\<Sum>j < k. F k j * y ! j)"
        by (rule sum.cong) (use k in auto)
      then show "?y ! k + (\<Sum>j < k. F k j * ?y ! j) = b ! (p ! k)"
        using k I i by (cases "k = i") (auto simp: lessThan_atLeast0)
    qed (use I in simp)
    moreover have "rbind (for_up 0 i (\<lambda>j s. rbind (rd y j) (\<lambda>yj. rbind (LOWER a i j) (\<lambda>l. Inr (s + yj * l)))) 0) (\<lambda>s.
        rbind (rd p i) (\<lambda>pi. rbind (rd b pi) (\<lambda>bi. wr y i (bi - s)))) = Inr ?y"
      unfolding s using i I assms(2,3) by simp
    ultimately show "\<exists>y'. rbind (for_up 0 i (\<lambda>j s. rbind (rd y j) (\<lambda>yj. rbind (LOWER a i j) (\<lambda>l. Inr (s + yj * l)))) 0) (\<lambda>s.
        rbind (rd p i) (\<lambda>pi. rbind (rd b pi) (\<lambda>bi. wr y i (bi - s)))) = Inr y' \<and> ?I (Suc i) y'"
      by - (rule exI [of _ ?y], rule conjI, assumption+)
  qed (simp_all add: dvector_def)
  then show ?thesis by blast
qed

lemma backward_subst_ok:
  assumes "reads_as a n F" "length y = n" "n \<le> length x" "\<And>i. i < n \<Longrightarrow> F i i \<noteq> 0"
  shows "\<exists>x'. backward_subst a n y x = Inr x' \<and> length x' = length x \<and> drop n x' = drop n x \<and>
    (\<forall>i < n. (\<Sum>j = i..<n. F i j * x' ! j) = y ! i)"
proof -
  let ?I = "\<lambda>i x'. length x' = length x \<and> drop n x' = drop n x \<and>
    (\<forall>k. i \<le> k \<and> k < n \<longrightarrow> (\<Sum>j = k..<n. F k j * x' ! j) = y ! k)"
  have "\<exists>x'. backward_subst a n y x = Inr x' \<and> ?I 0 x'"
    unfolding backward_subst_def
  proof (rule for_down_rule [where I = ?I])
    fix i t assume i: "i < n" and I: "?I (Suc i) t"
    let ?s = "\<Sum>j = Suc i..<n. F i j * t ! j"
    have s: "for_up (i + 1) n (\<lambda>j s. rbind (rd t j) (\<lambda>xj. rbind (UPPER a i j) (\<lambda>u. Inr (s + xj * u)))) 0 = Inr ?s"
      unfolding Suc_eq_plus1 [symmetric]
      by (rule sum_loop) (use i I assms(1,3) in \<open>auto simp: UPPER_def\<close>)
    let ?v = "(y ! i - ?s) / F i i"
    let ?t = "t[i := ?v]"
    have "?I i ?t"
    proof (intro conjI allI impI)
      fix k assume k: "i \<le> k \<and> k < n"
      show "(\<Sum>j = k..<n. F k j * ?t ! j) = y ! k"
      proof (cases "k = i")
        case True
        have "(\<Sum>j = Suc i..<n. F i j * ?t ! j) = ?s" by (rule sum.cong) auto
        then show ?thesis
          using True i I assms(3,4) by (simp add: sum.atLeast_Suc_lessThan)
      next
        case False
        have "(\<Sum>j = k..<n. F k j * ?t ! j) = (\<Sum>j = k..<n. F k j * t ! j)"
          by (rule sum.cong) (use k False in auto)
        then show ?thesis using k False I by auto
      qed
    qed (use I i in simp_all)
    moreover have "rbind (for_up (i + 1) n (\<lambda>j s. rbind (rd t j) (\<lambda>xj. rbind (UPPER a i j) (\<lambda>u. Inr (s + xj * u)))) 0) (\<lambda>s.
        rbind (rd y i) (\<lambda>yi. rbind (UPPER a i i) (\<lambda>u. rbind (fdiv (yi - s) u) (wr t i)))) = Inr ?t"
      unfolding s using i I assms by (simp add: UPPER_def)
    ultimately show "\<exists>t'. rbind (for_up (i + 1) n (\<lambda>j s. rbind (rd t j) (\<lambda>xj. rbind (UPPER a i j) (\<lambda>u. Inr (s + xj * u)))) 0) (\<lambda>s.
        rbind (rd y i) (\<lambda>yi. rbind (UPPER a i i) (\<lambda>u. rbind (fdiv (yi - s) u) (wr t i)))) = Inr t' \<and> ?I i t'"
      by - (rule exI [of _ ?t], rule conjI, assumption+)
  qed simp
  then show ?thesis by auto
qed

text \<open>The product of the factors with a vector.\<close>

lemma factored_row:
  assumes "factored n n A p F" "i < n"
  shows "(\<Sum>j < n. A (p ! i) j * x j) =
    (\<Sum>j = i..<n. F i j * x j) + (\<Sum>l < i. F i l * (\<Sum>j = l..<n. F l j * x j))"
proof -
  let ?L = "\<lambda>l. if l < i then F i l else if l = i then 1 else 0"
  have entry: "A (p ! i) j = (\<Sum>l \<le> i. if l \<le> j then ?L l * F l j else 0)" if j: "j < n" for j
  proof -
    have e: "A (p ! i) j = (\<Sum>l < min i j. F i l * F l j) + (if j < i then F i j * F j j else F i j)"
      using assms j by (auto simp: factored_def)
    have "(\<Sum>l \<le> i. if l \<le> j then ?L l * F l j else 0) = (\<Sum>l \<in> {l. l \<le> i \<and> l \<le> j}. ?L l * F l j)"
      by (rule sum.mono_neutral_cong_right) auto
    also have "{l. l \<le> i \<and> l \<le> j} = insert (min i j) {..<min i j}" by auto
    also have "(\<Sum>l \<in> \<dots>. ?L l * F l j) = ?L (min i j) * F (min i j) j + (\<Sum>l < min i j. ?L l * F l j)" by simp
    also have "(\<Sum>l < min i j. ?L l * F l j) = (\<Sum>l < min i j. F i l * F l j)" by (rule sum.cong) auto
    finally show ?thesis using e by auto
  qed
  have "(\<Sum>j < n. A (p ! i) j * x j) = (\<Sum>j < n. \<Sum>l \<le> i. if l \<le> j then ?L l * (F l j * x j) else 0)"
    by (rule sum.cong) (auto simp: entry sum_distrib_right intro!: sum.cong)
  also have "\<dots> = (\<Sum>l \<le> i. \<Sum>j < n. if l \<le> j then ?L l * (F l j * x j) else 0)" by (rule sum.swap)
  also have "\<dots> = (\<Sum>l \<le> i. ?L l * (\<Sum>j = l..<n. F l j * x j))"
  proof (rule sum.cong)
    fix l assume "l \<in> {..i}"
    have "(\<Sum>j < n. if l \<le> j then ?L l * (F l j * x j) else 0) = (\<Sum>j \<in> {j. j < n \<and> l \<le> j}. ?L l * (F l j * x j))"
      by (rule sum.mono_neutral_cong_right) auto
    also have "{j. j < n \<and> l \<le> j} = {l..<n}" by auto
    finally show "(\<Sum>j < n. if l \<le> j then ?L l * (F l j * x j) else 0) = ?L l * (\<Sum>j = l..<n. F l j * x j)"
      by (simp add: sum_distrib_left)
  qed simp
  also have "\<dots> = (\<Sum>j = i..<n. F i j * x j) + (\<Sum>l < i. F i l * (\<Sum>j = l..<n. F l j * x j))"
    by (simp add: lessThan_Suc_atMost [symmetric] lessThan_Suc)
  finally show ?thesis .
qed

lemma lusolve_ok:
  assumes "dmat_ok lu n n" "permutes_idx p n" "factored n n A p (mat_at lu)" "\<forall>i < n. mat_at lu i i \<noteq> 0"
    and "n \<le> length b" "n \<le> length x"
  shows "\<exists>x'. lusolve lu n p b x spd = Inr x' \<and> length x' = length x \<and> drop n x' = drop n x \<and>
    (\<forall>i < n. (\<Sum>j < n. A i j * x' ! j) = b ! i)"
proof -
  let ?F = "mat_at lu"
  have r: "reads_as lu n ?F" using assms(1) by (rule reads_as_self)
  have p: "length p = n" "\<And>i. i < n \<Longrightarrow> p ! i < n" using assms(2) nth_mem by (fastforce simp: permutes_idx_def)+
  obtain y where y: "forward_subst lu n p b = Inr y" "length y = n"
    "\<forall>i < n. y ! i + (\<Sum>j < i. ?F i j * y ! j) = b ! (p ! i)"
    using forward_subst_ok [OF r p(1)] p(2) assms(5) by (meson less_le_trans)
  obtain x' where x': "backward_subst lu n y x = Inr x'" "length x' = length x" "drop n x' = drop n x"
    "\<forall>i < n. (\<Sum>j = i..<n. ?F i j * x' ! j) = y ! i"
    using backward_subst_ok [OF r y(2) assms(6)] assms(4) by blast
  have "(\<Sum>j < n. A i j * x' ! j) = b ! i" if i: "i < n" for i
  proof -
    have "i \<in> set p" using i assms(2) by (simp add: permutes_idx_def)
    then obtain k where k: "k < n" "p ! k = i" using p(1) by (auto simp: in_set_conv_nth)
    have "(\<Sum>l < k. ?F k l * (\<Sum>j = l..<n. ?F l j * x' ! j)) = (\<Sum>l < k. ?F k l * y ! l)"
      by (rule sum.cong) (use x'(4) k(1) in auto)
    then show ?thesis using factored_row [OF assms(3) k(1), of "\<lambda>j. x' ! j"] x'(4) y(3) k by simp
  qed
  then show ?thesis using y(1) x'(1-3) by (simp add: lusolve_def)
qed

end
