(* ===== verification/LUP_Props.thy ===== *)
theory LUP_Props
  imports LUP
begin

text \<open>
  Solving and inverting with the decomposition: for a matrix that is not singular, the
  decomposition either stops at a pivot column below the tolerance or gives factors with which
  \<open>lusolve\<close> finds the only solution and \<open>matinv\<close> the inverse.
\<close>

section \<open>Singular matrices\<close>

definition nonsingular :: "nat \<Rightarrow> (nat \<Rightarrow> nat \<Rightarrow> real) \<Rightarrow> bool" where
  "nonsingular n A \<longleftrightarrow> (\<forall>z. (\<forall>i < n. (\<Sum>j < n. A i j * z j) = 0) \<longrightarrow> (\<forall>j < n. z j = 0))"

text \<open>An upper triangle with nonzero diagonal can be solved for every right side.\<close>

lemma upper_solvable:
  fixes F :: "nat \<Rightarrow> nat \<Rightarrow> real"
  assumes "\<forall>i < m. F i i \<noteq> 0"
  shows "\<exists>x. \<forall>i < m. (\<Sum>j = i..<m. F i j * x j) = c i"
  using assms
proof (induction m arbitrary: c)
  case (Suc m)
  let ?v = "c m / F m m"
  obtain x where x: "\<forall>i < m. (\<Sum>j = i..<m. F i j * x j) = c i - F i m * ?v" using Suc by fastforce
  have "(\<Sum>j = i..<Suc m. F i j * (x(m := ?v)) j) = c i" if "i < Suc m" for i
  proof -
    have "(\<Sum>j = i..<m. F i j * (x(m := ?v)) j) = (\<Sum>j = i..<m. F i j * x j)" by (rule sum.cong) auto
    then show ?thesis using that x Suc.prems by (cases "i = m") auto
  qed
  then show ?case by blast
qed simp

text \<open>The last pivot of a matrix that is not singular is not zero.\<close>

lemma factored_at:
  assumes "factored n n A p F" "permutes_idx p n" "i < n"
  obtains k where "k < n" "p ! k = i"
    "(\<Sum>j < n. A i j * x j) = (\<Sum>j = k..<n. F k j * x j) + (\<Sum>l < k. F k l * (\<Sum>j = l..<n. F l j * x j))"
proof -
  have "i \<in> set p" using assms(2,3) by (simp add: permutes_idx_def)
  then obtain k where k: "k < n" "p ! k = i" using assms(2) by (auto simp: in_set_conv_nth permutes_idx_def)
  from that [OF k] factored_row [OF assms(1) k(1), of x] k(2) show ?thesis by simp
qed

lemma last_pivot:
  assumes "factored n n A p F" "permutes_idx p n" "\<forall>i < n - 1. F i i \<noteq> 0" "nonsingular n A"
  shows "\<forall>i < n. F i i \<noteq> 0"
proof (rule ccontr)
  assume "\<not> (\<forall>i < n. F i i \<noteq> 0)"
  then obtain i where i: "i < n" "F i i = 0" by blast
  with assms(3) have "\<not> i < n - 1" by blast
  with i(1) have "n = Suc i" by simp
  then obtain m where m: "n = Suc m" "F m m = 0" using i(2) by blast
  obtain x where x: "\<forall>i < m. (\<Sum>j = i..<m. F i j * x j) = - F i m"
    using upper_solvable [where F = F and m = m and c = "\<lambda>i. - F i m"] assms(3) m by auto
  let ?z = "x(m := 1)"
  have upper: "(\<Sum>j = i..<n. F i j * ?z j) = 0" if "i < n" for i
  proof -
    have "(\<Sum>j = i..<m. F i j * ?z j) = (\<Sum>j = i..<m. F i j * x j)" by (rule sum.cong) auto
    then show ?thesis using x m that by (cases "i = m") auto
  qed
  have "(\<Sum>j < n. A i j * ?z j) = 0" if i: "i < n" for i
  proof -
    obtain k where "k < n" "(\<Sum>j < n. A i j * ?z j) =
        (\<Sum>j = k..<n. F k j * ?z j) + (\<Sum>l < k. F k l * (\<Sum>j = l..<n. F l j * ?z j))"
      using factored_at [OF assms(1,2) i, of ?z] by blast
    then show ?thesis using upper by simp
  qed
  then have "?z m = 0" using assms(4) [unfolded nonsingular_def, rule_format, of ?z m] m(1) by simp
  then show False by simp
qed

lemma nonsingular_unique:
  assumes "nonsingular n A" "\<forall>i < n. (\<Sum>j < n. A i j * x j) = b i" "\<forall>i < n. (\<Sum>j < n. A i j * z j) = b i"
  shows "\<forall>j < n. z j = x j"
proof -
  have "(\<Sum>j < n. A i j * (z j - x j)) = 0" if "i < n" for i
    using assms(2,3) that by (simp add: right_diff_distrib sum_subtractf)
  then show ?thesis using assms(1) [unfolded nonsingular_def, rule_format, of "\<lambda>j. z j - x j"] by simp
qed

section \<open>Solving a system\<close>

lemma lup_ready:
  assumes "dmat_ok a n n" "length p = n" "nonsingular n (mat_at a)" "lupdcmp a n p spd = Inr (lu, p')"
  shows "dmat_ok lu n n" "permutes_idx p' n" "factored n n (mat_at a) p' (mat_at lu)" "\<forall>i < n. mat_at lu i i \<noteq> 0"
  using lupdcmp_ok [OF assms(1,2), of spd] assms(4) last_pivot [OF _ _ _ assms(3)] by auto

text \<open>
  C8: for a matrix that is not singular, the decomposition either stops because no pivot
  reaches the tolerance, or the substitutions with its factors return the solution of the
  system of the original matrix, and there is no other one.
\<close>

theorem lup_solves:
  assumes "dmat_ok a n n" "length p = n" "n \<le> length b" "n \<le> length x" "nonsingular n (mat_at a)"
  shows "lupdcmp a n p spd = Inl (Fatal ''singular matrix in lupdcmp'') \<or>
    (\<exists>lu p' x'. lupdcmp a n p spd = Inr (lu, p') \<and> lusolve lu n p' b x spd = Inr x' \<and>
      (\<forall>i < n. (\<Sum>j < n. mat_at a i j * x' ! j) = b ! i) \<and>
      (\<forall>z. (\<forall>i < n. (\<Sum>j < n. mat_at a i j * z j) = b ! i) \<longrightarrow> (\<forall>j < n. z j = x' ! j)))"
proof (cases "lupdcmp a n p spd")
  case (Inl e)
  then show ?thesis using lupdcmp_ok [OF assms(1,2), of spd] by auto
next
  case (Inr r)
  then obtain lu p' where r: "lupdcmp a n p spd = Inr (lu, p')" by (cases r) auto
  note lu = lup_ready [OF assms(1,2,5) r]
  obtain x' where x': "lusolve lu n p' b x spd = Inr x'" "\<forall>i < n. (\<Sum>j < n. mat_at a i j * x' ! j) = b ! i"
    using lusolve_ok [OF lu assms(3,4)] by blast
  then show ?thesis using r nonsingular_unique [OF assms(5) x'(2)] by blast
qed

section \<open>The inverse\<close>

lemma fill_const:
  assumes "n \<le> length xs"
  shows "for_up 0 n (\<lambda>i xs. wr xs i c) xs = Inr (replicate n c @ drop n xs)"
proof -
  have "\<exists>t. for_up 0 n (\<lambda>i xs. wr xs i c) xs = Inr t \<and> t = replicate n c @ drop n xs"
  proof (rule for_up_rule [where I = "\<lambda>i t. t = replicate i c @ drop i xs"])
    fix i t assume i: "i < n" and t: "t = replicate i c @ drop i xs"
    have "drop i xs = xs ! i # drop (Suc i) xs" using i assms by (intro Cons_nth_drop_Suc [symmetric]) simp
    then show "\<exists>t'. wr t i c = Inr t' \<and> t' = replicate (Suc i) c @ drop (Suc i) xs"
      using t i assms by (simp add: list_update_append replicate_append_same)
  qed simp_all
  then show ?thesis by simp
qed

lemma set_column:
  assumes "reads_as iv n F" "j < n" "n \<le> length w"
  shows "\<exists>iv'. for_up 0 n (\<lambda>i iv. rbind (rd w i) (mset_at iv i j)) iv = Inr iv' \<and>
    reads_as iv' n (\<lambda>r c. if c = j then w ! r else F r c)"
proof -
  let ?G = "\<lambda>m r c. if c = j \<and> r < m then w ! r else F r c"
  have "\<exists>t. for_up 0 n (\<lambda>i iv. rbind (rd w i) (mset_at iv i j)) iv = Inr t \<and> reads_as t n (?G n)"
  proof (rule for_up_rule [where I = "\<lambda>m t. reads_as t n (?G m)"])
    fix i t assume i: "i < n" and I: "reads_as t n (?G i)"
    obtain t' where t': "mset_at t i j (w ! i) = Inr t'" "reads_as t' n (\<lambda>k l. if k = i \<and> l = j then w ! i else ?G i k l)"
      using reads_as_set [OF I i assms(2)] by blast
    have "reads_as t' n (?G (Suc i))" by (rule reads_as_cong [OF t'(2)]) auto
    moreover have "rbind (rd w i) (mset_at t i j) = Inr t'" using i assms(3) t'(1) by simp
    ultimately show "\<exists>t'. rbind (rd w i) (mset_at t i j) = Inr t' \<and> reads_as t' n (?G (Suc i))"
      by - (rule exI [of _ t'], rule conjI, assumption+)
  qed (use assms in simp_all)
  then show ?thesis by (auto elim!: reads_as_cong)
qed

text \<open>
  The inverse of a matrix that is not singular: \<open>matinv\<close> stops when the
  decomposition does and otherwise returns the matrix whose product with the given one is the identity.
\<close>

theorem matinv_inverts:
  assumes "dmat_ok m n n" "dmat_ok iv n n" "nonsingular n (mat_at m)"
  shows "case lupdcmp m n (replicate n 0) spd of
      Inl e \<Rightarrow> e = Fatal ''singular matrix in lupdcmp'' \<and> matinv iv m n spd = Inl e
    | Inr (lu, _) \<Rightarrow> (\<exists>iv'. matinv iv m n spd = Inr (iv', lu) \<and> dmat_ok iv' n n \<and>
        (\<forall>i < n. \<forall>j < n. (\<Sum>k < n. mat_at m i k * mat_at iv' k j) = (if i = j then 1 else 0)))"
proof (cases "lupdcmp m n (replicate n 0) spd")
  case (Inl e)
  then show ?thesis using lupdcmp_ok [OF assms(1), of "replicate n 0" spd] by (auto simp: matinv_def)
next
  case (Inr r)
  then obtain lu p where r: "lupdcmp m n (replicate n 0) spd = Inr (lu, p)" by (cases r) auto
  note lu = lup_ready [OF assms(1) length_replicate assms(3) r]
  let ?A = "mat_at m"
  let ?body = "\<lambda>j (iv, col, work).
       rbind (for_up 0 n (\<lambda>i col. wr col i 0) col) (\<lambda>col.
       rbind (wr col j 1) (\<lambda>col.
       rbind (lusolve lu n p col work spd) (\<lambda>work.
       rbind (for_up 0 n (\<lambda>i iv. rbind (rd work i) (mset_at iv i j)) iv) (\<lambda>iv.
       Inr (iv, col, work)))))"
  let ?I = "\<lambda>j (iv', col, work). dmat_ok iv' n n \<and> length col = n \<and> n \<le> length work \<and>
    (\<forall>c < j. \<forall>i < n. (\<Sum>k < n. ?A i k * mat_at iv' k c) = (if i = c then 1 else 0))"
  have "\<exists>t. for_up 0 n ?body (iv, dvector n, dvector (n * BLOCK_SIZE)) = Inr t \<and> ?I n t"
  proof (rule for_up_rule [where I = ?I])
    fix j and t :: "dmat \<times> real list \<times> real list"
    assume j: "j < n" and I: "?I j t"
    obtain v col w where t: "t = (v, col, w)" by (cases t)
    have v: "reads_as v n (mat_at v)" "length col = n" "n \<le> length w"
      using I by (auto simp: t intro: reads_as_self)
    let ?e = "(replicate n 0)[j := 1] :: real list"
    obtain w' where w': "lusolve lu n p ?e w spd = Inr w'" "length w' = length w"
      "\<forall>i < n. (\<Sum>k < n. ?A i k * w' ! k) = ?e ! i"
      using lusolve_ok [OF lu, of ?e w spd] v(3) by auto
    obtain v' where v': "for_up 0 n (\<lambda>i iv. rbind (rd w' i) (mset_at iv i j)) v = Inr v'"
      "reads_as v' n (\<lambda>r c. if c = j then w' ! r else mat_at v r c)"
      using set_column [OF v(1) j, of w'] v(3) w'(2) by auto
    have "?body j t = Inr (v', ?e, w')"
      using fill_const [of n col 0] v(2) j w'(1) v'(1) by (simp add: t)
    moreover have "(\<Sum>k < n. ?A i k * mat_at v' k c) = (if i = c then 1 else 0)" if c: "c < Suc j" and i: "i < n" for c i
    proof (cases "c = j")
      case True
      have "(\<Sum>k < n. ?A i k * mat_at v' k c) = (\<Sum>k < n. ?A i k * w' ! k)"
        by (rule sum.cong) (use v'(2) True j in \<open>auto simp: reads_as_def\<close>)
      then show ?thesis using w'(3) i j True by (auto simp: nth_list_update)
    next
      case False
      have "(\<Sum>k < n. ?A i k * mat_at v' k c) = (\<Sum>k < n. ?A i k * mat_at v k c)"
        by (rule sum.cong) (use v'(2) False c j in \<open>auto simp: reads_as_def\<close>)
      then show ?thesis using I c False i by (auto simp: t)
    qed
    ultimately show "\<exists>t'. ?body j t = Inr t' \<and> ?I (Suc j) t'"
      using v'(2) w'(2) v(3) by (intro exI [of _ "(v', ?e, w')"]) (auto simp: reads_as_def)
  qed (use assms in \<open>auto simp: dvector_def BLOCK_SIZE_def\<close>)
  then show ?thesis using r by (auto simp: matinv_def)
qed

section \<open>Witnesses\<close>

lemma all_less_two: "(\<forall>i < Suc (Suc 0). P i) \<longleftrightarrow> P 0 \<and> P (Suc 0)"
  by (auto simp: less_Suc_eq)

definition mat2 :: dmat where
  "mat2 = \<lparr>cells = [2, 1, 1, 3], ncols = 2\<rparr>"

lemma mat2_ok: "dmat_ok mat2 2 2"
  by (simp add: dmat_ok_def mat2_def)

lemma mat2_nonsingular: "nonsingular 2 (mat_at mat2)"
proof -
  have "x = 0 \<and> y = 0" if "2 * x + y = 0" "x + 3 * y = 0" for x y :: real using that by linarith
  then show ?thesis
    by (simp add: nonsingular_def mat_at_def mat2_def numeral_2_eq_2 all_less_two)
qed

lemma mat2_lup: "lupdcmp mat2 2 p True = Inr (\<lparr>cells = [2, 1, 1 / 2, 5 / 2], ncols = 2\<rparr>, [0, 1])" if "length p = 2"
proof -
  have "for_up 0 2 (\<lambda>i p. wr p i i) p = Inr [0, 1]" using identity_perm [OF that] by (simp add: upt_rec)
  moreover have "lup_step 2 0 (mat2, [0, 1], 0) = Inr (\<lparr>cells = [2, 1, 1 / 2, 5 / 2], ncols = 2\<rparr>, [0, 1], 0)"
    by (simp add: lup_step_def find_pivot_def swap_perm_def swap_rows_def eliminate_row_def mat2_def mget_def
        mset_at_def res_simps eq_def DELTA_def numeral_2_eq_2)
  ultimately show ?thesis by (simp add: lupdcmp_def for_up_step)
qed

theorem lup_solves_witness:
  "\<exists>lu p' x'. lupdcmp mat2 2 [0, 0] True = Inr (lu, p') \<and> lusolve lu 2 p' [3, 4] [0, 0] True = Inr x' \<and>
    (\<forall>i < 2. (\<Sum>j < 2. mat_at mat2 i j * x' ! j) = [3, 4] ! i)"
  using lup_solves [OF mat2_ok _ _ _ mat2_nonsingular, of "[0, 0]" "[3, 4]" "[0, 0]" True] mat2_lup [of "[0, 0]"] by auto

theorem matinv_inverts_witness:
  "\<exists>iv' lu. matinv (dmatrix 2 2) mat2 2 True = Inr (iv', lu) \<and>
    (\<forall>i < 2. \<forall>j < 2. (\<Sum>k < 2. mat_at mat2 i k * mat_at iv' k j) = (if i = j then 1 else 0))"
  using matinv_inverts [OF mat2_ok dmatrix_ok mat2_nonsingular, of True] by (auto simp: mat2_lup)

end
