(* ===== verification/Thermal_Types.thy ===== *)
theory Thermal_Types
  imports Linear Flp_Types
begin

text \<open>
  The constants and records of \<open>hotspot_tool/temperature.h\<close>: the thermal configuration, the
  resistances and capacitances of the package and the numbering of the package nodes. Flags
  are the integers the configuration table holds; the character buffers are strings.
\<close>

section \<open>Constants\<close>

definition TEMP_HIGH :: real where "TEMP_HIGH = 500"

definition BLOCK_MODEL :: nat where "BLOCK_MODEL = 0"
definition GRID_MODEL :: nat where "GRID_MODEL = 1"
definition BLOCK_MODEL_STR :: string where "BLOCK_MODEL_STR = ''block''"
definition GRID_MODEL_STR :: string where "GRID_MODEL_STR = ''grid''"

definition GRID_AVG_STR :: string where "GRID_AVG_STR = ''avg''"
definition GRID_MIN_STR :: string where "GRID_MIN_STR = ''min''"
definition GRID_MAX_STR :: string where "GRID_MAX_STR = ''max''"
definition GRID_CENTER_STR :: string where "GRID_CENTER_STR = ''center''"

definition NULLFILE :: string where "NULLFILE = ''(null)''"

definition LEAKAGE_MAX_ITER :: nat where "LEAKAGE_MAX_ITER = 100"
definition LEAK_TOL :: real where "LEAK_TOL = 1 / 100"

definition EXTRA :: nat where "EXTRA = 12"
definition SP_W :: nat where "SP_W = 0"
definition SP_E :: nat where "SP_E = 1"
definition SP_N :: nat where "SP_N = 2"
definition SP_S :: nat where "SP_S = 3"
definition SINK_C_W :: nat where "SINK_C_W = 4"
definition SINK_C_E :: nat where "SINK_C_E = 5"
definition SINK_C_N :: nat where "SINK_C_N = 6"
definition SINK_C_S :: nat where "SINK_C_S = 7"
definition SINK_W :: nat where "SINK_W = 8"
definition SINK_E :: nat where "SINK_E = 9"
definition SINK_N :: nat where "SINK_N = 10"
definition SINK_S :: nat where "SINK_S = 11"

lemmas node_defs = EXTRA_def SP_W_def SP_E_def SP_N_def SP_S_def SINK_C_W_def SINK_C_E_def SINK_C_N_def
  SINK_C_S_def SINK_W_def SINK_E_def SINK_N_def SINK_S_def

definition RHO_SUB :: real where "RHO_SUB = 1 / 2"
definition RHO_SOLDER :: real where "RHO_SOLDER = 6 / 100"
definition RHO_PCB :: real where "RHO_PCB = 333 / 1000"
definition K_SUB :: real where "K_SUB = 1 / RHO_SUB"
definition K_SOLDER :: real where "K_SOLDER = 1 / RHO_SOLDER"
definition K_PCB :: real where "K_PCB = 1 / RHO_PCB"
definition SPEC_HEAT_SUB :: real where "SPEC_HEAT_SUB = 1600000"
definition SPEC_HEAT_SOLDER :: real where "SPEC_HEAT_SOLDER = 2100000"
definition SPEC_HEAT_PCB :: real where "SPEC_HEAT_PCB = 1320000"

definition MIN_STEP :: real where "MIN_STEP = 1 / 10000000"

section \<open>The configuration\<close>

record thermal_config_t =
  t_chip :: real
  k_chip :: real
  p_chip :: real
  thermal_threshold :: real
  c_convec :: real
  r_convec :: real
  s_sink :: real
  t_sink :: real
  k_sink :: real
  p_sink :: real
  s_spreader :: real
  t_spreader :: real
  k_spreader :: real
  p_spreader :: real
  t_interface :: real
  k_interface :: real
  p_interface :: real
  model_secondary :: int
  r_convec_sec :: real
  c_convec_sec :: real
  n_metal :: int
  t_metal :: real
  t_c4 :: real
  s_c4 :: real
  n_c4 :: int
  s_sub :: real
  t_sub :: real
  s_solder :: real
  t_solder :: real
  s_pcb :: real
  t_pcb :: real
  ambient :: real
  init_file :: string
  init_temp :: real
  steady_file :: string
  sampling_intvl :: real
  base_proc_freq :: real
  dtm_used :: int
  model_type :: string
  leakage_used :: int
  leakage_mode :: int
  package_model_used :: int
  package_config_file :: string
  block_omit_lateral :: int
  grid_rows :: int
  grid_cols :: int
  grid_layer_file :: string
  grid_steady_file :: string
  grid_map_mode :: string
  all_transient_file :: string
  steady_state_print_disable :: int
  mem_type :: string
  detailed_3D_used :: int

section \<open>The package\<close>

record package_RC_t =
  r_sp1_x :: real
  r_sp1_y :: real
  r_hs1_x :: real
  r_hs1_y :: real
  r_hs2_x :: real
  r_hs2_y :: real
  r_hs :: real
  r_sp_per_x :: real
  r_sp_per_y :: real
  r_hs_c_per_x :: real
  r_hs_c_per_y :: real
  r_hs_per :: real
  c_sp_per_x :: real
  c_sp_per_y :: real
  c_hs_c_per_x :: real
  c_hs_c_per_y :: real
  c_hs_per :: real
  r_amb_c_per_x :: real
  c_amb_c_per_x :: real
  r_amb_c_per_y :: real
  c_amb_c_per_y :: real
  r_amb_per :: real
  c_amb_per :: real
  r_sub1_x :: real
  r_sub1_y :: real
  r_solder1_x :: real
  r_solder1_y :: real
  r_pcb1_x :: real
  r_pcb1_y :: real
  r_pcb2_x :: real
  r_pcb2_y :: real
  r_pcb :: real
  r_sub_per_x :: real
  r_sub_per_y :: real
  r_solder_per_x :: real
  r_solder_per_y :: real
  r_pcb_c_per_x :: real
  r_pcb_c_per_y :: real
  r_pcb_per :: real
  c_sub_per_x :: real
  c_sub_per_y :: real
  c_solder_per_x :: real
  c_solder_per_y :: real
  c_pcb_c_per_x :: real
  c_pcb_c_per_y :: real
  c_pcb_per :: real
  r_amb_sec_c_per_x :: real
  c_amb_sec_c_per_x :: real
  r_amb_sec_c_per_y :: real
  c_amb_sec_c_per_y :: real
  r_amb_sec_per :: real
  c_amb_sec_per :: real

end
