(* ===== verification/Thermal_Config.thy ===== *)
theory Thermal_Config
  imports Thermal_Types Scan
begin

text \<open>
  Configuration parameters from a table of name-value pairs, the pattern that the \<open>add_from_strs\<close>
  routines repeat for every parameter: look the name up, scan the value, and stop when it has
  the wrong format.

  The thermal configuration, \<open>hotspot_tool/temperature.c\<close>: the defaults and the parameters read from a
  table. Printed warnings have no effect on the state and are left out.
\<close>

section \<open>Reading\<close>

definition read_param :: "(string \<Rightarrow> ('v \<times> string) option) \<Rightarrow> str_pair list \<Rightarrow> nat \<Rightarrow> string \<Rightarrow> string \<Rightarrow>
    ('v \<Rightarrow> 'c \<Rightarrow> 'c) \<Rightarrow> 'c \<Rightarrow> 'c res" where
  "read_param scan table sz msg nm put c = rbind (get_str_index (Some table) sz nm) (\<lambda>idx.
     if idx \<ge> 0 then rbind (rdi table idx) (\<lambda>p. case scan (pair_value p) of
         None \<Rightarrow> Inl (Fatal (msg @ nm))
       | Some (v, _) \<Rightarrow> Inr (put v c))
     else Inr c)"

text \<open>\<open>%s\<close> writes into a buffer of \<open>STR_SIZE\<close> characters.\<close>

definition scan_buffer :: "string \<Rightarrow> (string res \<times> string) option" where
  "scan_buffer s = (case scan_word s of None \<Rightarrow> None
     | Some (w, t) \<Rightarrow> Some (if length w < STR_SIZE then Inr w else Inl OutOfBounds, t))"

abbreviation invalid_msg :: string where "invalid_msg \<equiv> ''invalid format for configuration  parameter ''"

definition read_double :: "str_pair list \<Rightarrow> nat \<Rightarrow> string \<Rightarrow> (real \<Rightarrow> 'c \<Rightarrow> 'c) \<Rightarrow> 'c \<Rightarrow> 'c res" where
  "read_double table sz nm put c = read_param scan_double table sz invalid_msg nm put c"

definition read_int :: "str_pair list \<Rightarrow> nat \<Rightarrow> string \<Rightarrow> (int \<Rightarrow> 'c \<Rightarrow> 'c) \<Rightarrow> 'c \<Rightarrow> 'c res" where
  "read_int table sz nm put c = read_param scan_int table sz invalid_msg nm put c"

definition read_str :: "str_pair list \<Rightarrow> nat \<Rightarrow> string \<Rightarrow> (string \<Rightarrow> 'c \<Rightarrow> 'c) \<Rightarrow> 'c \<Rightarrow> 'c res" where
  "read_str table sz nm put c = rbind (get_str_index (Some table) sz nm) (\<lambda>idx.
     if idx \<ge> 0 then rbind (rdi table idx) (\<lambda>p. case scan_buffer (pair_value p) of
         None \<Rightarrow> Inl (Fatal (invalid_msg @ nm))
       | Some (r, _) \<Rightarrow> rbind r (\<lambda>v. Inr (put v c)))
     else Inr c)"

section \<open>What a parameter becomes\<close>

text \<open>The value of the first entry of the name, up to case.\<close>

definition value_of :: "str_pair list \<Rightarrow> nat \<Rightarrow> string \<Rightarrow> string option" where
  "value_of table sz nm = map_option pair_value (find (\<lambda>p. strcase_eq nm (pair_name p)) (take sz table))"

lemma find_name_find:
  assumes "sz \<le> length table" "i \<le> sz"
  shows "find_name table sz nm i = (case find (\<lambda>k. strcase_eq nm (pair_name (table ! k))) [i..<sz] of
    None \<Rightarrow> Inr (-1) | Some k \<Rightarrow> Inr (int k))"
  using assms(2)
proof (induction "sz - i" arbitrary: i)
  case 0
  then show ?case by (subst find_name.simps) simp
next
  case (Suc d)
  then have i: "i < sz" "i < length table" "d = sz - Suc i" using assms(1) by auto
  have "find_name table sz nm (Suc i) = (case find (\<lambda>k. strcase_eq nm (pair_name (table ! k))) [Suc i..<sz] of
      None \<Rightarrow> Inr (-1) | Some k \<Rightarrow> Inr (int k))" using Suc.hyps(1) [OF i(3)] i(1) by simp
  then show ?case using i by (subst find_name.simps) (simp add: upt_conv_Cons)
qed

lemma find_map: "find P (map f xs) = map_option f (find (P \<circ> f) xs)"
  by (induction xs) auto

lemma get_str_index_value:
  assumes "sz \<le> length table"
  shows "(value_of table sz nm = None \<and> get_str_index (Some table) sz nm = Inr (-1)) \<or>
    (\<exists>k < sz. value_of table sz nm = Some (pair_value (table ! k)) \<and> get_str_index (Some table) sz nm = Inr (int k))"
proof -
  let ?P = "\<lambda>k. strcase_eq nm (pair_name (table ! k))"
  have "take sz table = map ((!) table) [0..<sz]" using assms by (intro nth_equalityI) auto
  then have v: "value_of table sz nm = map_option (\<lambda>k. pair_value (table ! k)) (find ?P [0..<sz])"
    by (simp add: value_of_def find_map option.map_comp o_def)
  show ?thesis
  proof (cases "find ?P [0..<sz]")
    case None
    then show ?thesis using v find_name_find [OF assms, of 0 nm] by (simp add: get_str_index_def)
  next
    case (Some k)
    then have "k < sz" by (auto simp: find_Some_iff)
    then show ?thesis using v Some find_name_find [OF assms, of 0 nm] by (auto simp: get_str_index_def)
  qed
qed

text \<open>A parameter: how its value is read, or nothing when the name does not occur.\<close>

lemma read_param_value:
  assumes "sz \<le> length table"
  shows "read_param scan table sz msg nm put c = (case value_of table sz nm of
     None \<Rightarrow> Inr c
   | Some s \<Rightarrow> (case scan s of None \<Rightarrow> Inl (Fatal (msg @ nm)) | Some (v, _) \<Rightarrow> Inr (put v c)))"
  using get_str_index_value [OF assms, of nm] assms by (auto simp: read_param_def)

lemma read_str_value:
  assumes "sz \<le> length table"
  shows "read_str table sz nm put c = (case value_of table sz nm of
     None \<Rightarrow> Inr c
   | Some s \<Rightarrow> (case scan_word s of None \<Rightarrow> Inl (Fatal (invalid_msg @ nm))
       | Some (w, _) \<Rightarrow> if length w < STR_SIZE then Inr (put w c) else Inl OutOfBounds))"
  using get_str_index_value [OF assms, of nm] assms
  by (auto simp: read_str_def scan_buffer_def split: option.splits)

section \<open>Defaults\<close>

definition default_thermal_config :: thermal_config_t where
  "default_thermal_config = \<lparr>
     t_chip = 15 / 100000, k_chip = 100, p_chip = 1750000, thermal_threshold = 818 / 10 + 27315 / 100,
     c_convec = 1404 / 10, r_convec = 1 / 10, s_sink = 60 / 1000, t_sink = 69 / 10000, k_sink = 400,
     p_sink = 3550000, s_spreader = 30 / 1000, t_spreader = 1 / 1000, k_spreader = 400, p_spreader = 3550000,
     t_interface = 20 / 1000000, k_interface = 4, p_interface = 4000000, model_secondary = 0,
     r_convec_sec = 1, c_convec_sec = 1404 / 10, n_metal = 8, t_metal = 10 / 1000000, t_c4 = 1 / 10000,
     s_c4 = 20 / 1000000, n_c4 = 400, s_sub = 21 / 1000, t_sub = 1 / 1000, s_solder = 21 / 1000,
     t_solder = 94 / 100000, s_pcb = 1 / 10, t_pcb = 2 / 1000, ambient = 45 + 27315 / 100,
     init_file = NULLFILE, init_temp = 60 + 27315 / 100, steady_file = NULLFILE,
     sampling_intvl = 3333 / 1000000000, base_proc_freq = 3000000000, dtm_used = 0,
     model_type = BLOCK_MODEL_STR, leakage_used = 0, leakage_mode = 0, package_model_used = 0,
     package_config_file = NULLFILE, block_omit_lateral = 0, grid_rows = 64, grid_cols = 64,
     grid_layer_file = NULLFILE, grid_steady_file = NULLFILE, grid_map_mode = GRID_CENTER_STR,
     all_transient_file = NULLFILE, steady_state_print_disable = 0, mem_type = ''3Dmem'', detailed_3D_used = 0\<rparr>"

section \<open>Reading\<close>

definition read_chip_and_package :: "str_pair list \<Rightarrow> nat \<Rightarrow> thermal_config_t \<Rightarrow> thermal_config_t res" where
  "read_chip_and_package table sz =
     in_order [
       read_double table sz ''t_chip'' (\<lambda>v c. c\<lparr>t_chip := v\<rparr>),
       read_double table sz ''k_chip'' (\<lambda>v c. c\<lparr>k_chip := v\<rparr>),
       read_double table sz ''p_chip'' (\<lambda>v c. c\<lparr>p_chip := v\<rparr>),
       read_double table sz ''thermal_threshold'' (\<lambda>v c. c\<lparr>thermal_threshold := v\<rparr>),
       read_double table sz ''c_convec'' (\<lambda>v c. c\<lparr>c_convec := v\<rparr>),
       read_double table sz ''r_convec'' (\<lambda>v c. c\<lparr>r_convec := v\<rparr>),
       read_double table sz ''s_sink'' (\<lambda>v c. c\<lparr>s_sink := v\<rparr>),
       read_double table sz ''t_sink'' (\<lambda>v c. c\<lparr>t_sink := v\<rparr>),
       read_double table sz ''k_sink'' (\<lambda>v c. c\<lparr>k_sink := v\<rparr>),
       read_double table sz ''p_sink'' (\<lambda>v c. c\<lparr>p_sink := v\<rparr>),
       read_double table sz ''s_spreader'' (\<lambda>v c. c\<lparr>s_spreader := v\<rparr>),
       read_double table sz ''t_spreader'' (\<lambda>v c. c\<lparr>t_spreader := v\<rparr>),
       read_double table sz ''k_spreader'' (\<lambda>v c. c\<lparr>k_spreader := v\<rparr>),
       read_double table sz ''p_spreader'' (\<lambda>v c. c\<lparr>p_spreader := v\<rparr>),
       read_double table sz ''t_interface'' (\<lambda>v c. c\<lparr>t_interface := v\<rparr>),
       read_double table sz ''k_interface'' (\<lambda>v c. c\<lparr>k_interface := v\<rparr>),
       read_double table sz ''p_interface'' (\<lambda>v c. c\<lparr>p_interface := v\<rparr>)]"

definition read_secondary_path :: "str_pair list \<Rightarrow> nat \<Rightarrow> thermal_config_t \<Rightarrow> thermal_config_t res" where
  "read_secondary_path table sz =
     in_order [
       read_int table sz ''model_secondary'' (\<lambda>v c. c\<lparr>model_secondary := v\<rparr>),
       read_double table sz ''r_convec_sec'' (\<lambda>v c. c\<lparr>r_convec_sec := v\<rparr>),
       read_double table sz ''c_convec_sec'' (\<lambda>v c. c\<lparr>c_convec_sec := v\<rparr>),
       read_int table sz ''n_metal'' (\<lambda>v c. c\<lparr>n_metal := v\<rparr>),
       read_double table sz ''t_metal'' (\<lambda>v c. c\<lparr>t_metal := v\<rparr>),
       read_double table sz ''t_c4'' (\<lambda>v c. c\<lparr>t_c4 := v\<rparr>),
       read_double table sz ''s_c4'' (\<lambda>v c. c\<lparr>s_c4 := v\<rparr>),
       read_int table sz ''n_c4'' (\<lambda>v c. c\<lparr>n_c4 := v\<rparr>),
       read_double table sz ''s_sub'' (\<lambda>v c. c\<lparr>s_sub := v\<rparr>),
       read_double table sz ''t_sub'' (\<lambda>v c. c\<lparr>t_sub := v\<rparr>),
       read_double table sz ''s_solder'' (\<lambda>v c. c\<lparr>s_solder := v\<rparr>),
       read_double table sz ''t_solder'' (\<lambda>v c. c\<lparr>t_solder := v\<rparr>),
       read_double table sz ''s_pcb'' (\<lambda>v c. c\<lparr>s_pcb := v\<rparr>),
       read_double table sz ''t_pcb'' (\<lambda>v c. c\<lparr>t_pcb := v\<rparr>)]"

definition read_simulation :: "str_pair list \<Rightarrow> nat \<Rightarrow> thermal_config_t \<Rightarrow> thermal_config_t res" where
  "read_simulation table sz =
     in_order [
       read_double table sz ''ambient'' (\<lambda>v c. c\<lparr>ambient := v\<rparr>),
       read_str table sz ''init_file'' (\<lambda>v c. c\<lparr>init_file := v\<rparr>),
       read_double table sz ''init_temp'' (\<lambda>v c. c\<lparr>init_temp := v\<rparr>),
       read_str table sz ''steady_file'' (\<lambda>v c. c\<lparr>steady_file := v\<rparr>),
       read_double table sz ''sampling_intvl'' (\<lambda>v c. c\<lparr>sampling_intvl := v\<rparr>),
       read_double table sz ''base_proc_freq'' (\<lambda>v c. c\<lparr>base_proc_freq := v\<rparr>),
       read_int table sz ''dtm_used'' (\<lambda>v c. c\<lparr>dtm_used := v\<rparr>),
       read_str table sz ''model_type'' (\<lambda>v c. c\<lparr>model_type := v\<rparr>),
       read_int table sz ''leakage_used'' (\<lambda>v c. c\<lparr>leakage_used := v\<rparr>),
       read_int table sz ''leakage_mode'' (\<lambda>v c. c\<lparr>leakage_mode := v\<rparr>),
       read_int table sz ''package_model_used'' (\<lambda>v c. c\<lparr>package_model_used := v\<rparr>),
       read_str table sz ''package_config_file'' (\<lambda>v c. c\<lparr>package_config_file := v\<rparr>),
       read_int table sz ''block_omit_lateral'' (\<lambda>v c. c\<lparr>block_omit_lateral := v\<rparr>),
       read_int table sz ''grid_rows'' (\<lambda>v c. c\<lparr>grid_rows := v\<rparr>),
       read_int table sz ''grid_cols'' (\<lambda>v c. c\<lparr>grid_cols := v\<rparr>),
       read_str table sz ''grid_layer_file'' (\<lambda>v c. c\<lparr>grid_layer_file := v\<rparr>),
       read_str table sz ''grid_steady_file'' (\<lambda>v c. c\<lparr>grid_steady_file := v\<rparr>),
       read_str table sz ''grid_map_mode'' (\<lambda>v c. c\<lparr>grid_map_mode := v\<rparr>),
       read_str table sz ''all_transient_file'' (\<lambda>v c. c\<lparr>all_transient_file := v\<rparr>),
       read_int table sz ''steady_state_print_disable'' (\<lambda>v c. c\<lparr>steady_state_print_disable := v\<rparr>),
       read_str table sz ''type'' (\<lambda>v c. c\<lparr>mem_type := v\<rparr>)]"

text \<open>A word in single quotes.\<close>

definition quoted :: "string \<Rightarrow> string" where
  "quoted s = CHR 0x27 # s @ [CHR 0x27]"

definition check_dimensions :: "thermal_config_t \<Rightarrow> thermal_config_t res" where
  "check_dimensions c =
    (if t_chip c \<le> 0 \<or> s_sink c \<le> 0 \<or> t_sink c \<le> 0 \<or> s_spreader c \<le> 0 \<or> t_spreader c \<le> 0 \<or> t_interface c \<le> 0
     then Inl (Fatal ''chip and package dimensions should be greater than zero'')
     else if t_metal c \<le> 0 \<or> n_metal c \<le> 0 \<or> t_c4 c \<le> 0 \<or> s_c4 c \<le> 0 \<or> n_c4 c \<le> 0 \<or> s_sub c \<le> 0 \<or> t_sub c \<le> 0 \<or>
       s_solder c \<le> 0 \<or> t_solder c \<le> 0 \<or> s_pcb c \<le> 0 \<or> t_solder c \<le> 0 \<or> r_convec_sec c \<le> 0 \<or> c_convec_sec c \<le> 0
     then Inl (Fatal ''secondary heat tranfer layer dimensions should be greater than zero'')
     else Inr c)"

definition check_parameters :: "thermal_config_t \<Rightarrow> thermal_config_t res" where
  "check_parameters c =
    (if model_secondary c = 1 \<and> strcase_eq (model_type c) BLOCK_MODEL_STR
     then Inl (Fatal ''secondary heat tranfer path is supported only in the grid mode'')
     else if thermal_threshold c < 0 \<or> c_convec c < 0 \<or> r_convec c < 0 \<or> ambient c < 0 \<or> base_proc_freq c \<le> 0 \<or> sampling_intvl c \<le> 0
     then Inl (Fatal ''invalid thermal simulation parameters'')
     else if \<not> strcase_eq (model_type c) BLOCK_MODEL_STR \<and> \<not> strcase_eq (model_type c) GRID_MODEL_STR
     then Inl (Fatal (''invalid model type. use '' @ quoted ''block'' @ '' or '' @ quoted ''grid''))
     else if grid_rows c \<le> 0 \<or> grid_cols c \<le> 0
     then Inl (Fatal ''grid rows and columns should both be greater than zero'')
     else if \<not> strcase_eq (grid_map_mode c) GRID_AVG_STR \<and> \<not> strcase_eq (grid_map_mode c) GRID_MIN_STR \<and>
       \<not> strcase_eq (grid_map_mode c) GRID_MAX_STR \<and> \<not> strcase_eq (grid_map_mode c) GRID_CENTER_STR
     then Inl (Fatal (''invalid mapping mode. use '' @ quoted ''avg'' @ '', '' @ quoted ''min'' @ '', '' @ quoted ''max'' @ '' or '' @
       quoted ''center''))
     else Inr c)"

definition thermal_config_add_from_strs :: "thermal_config_t \<Rightarrow> str_pair list \<Rightarrow> nat \<Rightarrow> thermal_config_t res" where
  "thermal_config_add_from_strs config table sz =
     in_order [read_chip_and_package table sz, read_secondary_path table sz, read_simulation table sz,
       check_dimensions, check_parameters] config"

end
