(* ===== verification/Config_Props.thy ===== *)
theory Config_Props
  imports Thermal_Config
begin

text \<open>
  What reading the thermal configuration does: every parameter takes the value of the first
  entry of its name and the others stay, and what is accepted describes a possible chip.
\<close>

section \<open>Parameters of a sequence of reads\<close>

definition double_or :: "str_pair list \<Rightarrow> nat \<Rightarrow> string \<Rightarrow> real \<Rightarrow> real" where
  "double_or table sz nm x = (case value_of table sz nm of None \<Rightarrow> x | Some s \<Rightarrow> fst (the (scan_double s)))"

definition int_or :: "str_pair list \<Rightarrow> nat \<Rightarrow> string \<Rightarrow> int \<Rightarrow> int" where
  "int_or table sz nm x = (case value_of table sz nm of None \<Rightarrow> x | Some s \<Rightarrow> fst (the (scan_int s)))"

definition str_or :: "str_pair list \<Rightarrow> nat \<Rightarrow> string \<Rightarrow> string \<Rightarrow> string" where
  "str_or table sz nm x = (case value_of table sz nm of None \<Rightarrow> x | Some s \<Rightarrow> fst (the (scan_word s)))"

text \<open>When the statement returns, it has changed the field \<open>get\<close> by \<open>r\<close>.\<close>

definition sets :: "('c \<Rightarrow> 'a) \<Rightarrow> ('a \<Rightarrow> 'a) \<Rightarrow> ('c \<Rightarrow> 'c res) \<Rightarrow> bool" where
  "sets get r f \<longleftrightarrow> (\<forall>c c'. f c = Inr c' \<longrightarrow> get c' = r (get c))"

lemma sets_skip: "sets get (\<lambda>x. x) f \<Longrightarrow> sets get r (in_order fs) \<Longrightarrow> sets get r (in_order (f # fs))"
  by (auto simp: sets_def)

lemma sets_hit: "sets get r f \<Longrightarrow> sets get (\<lambda>x. x) (in_order fs) \<Longrightarrow> sets get r (in_order (f # fs))"
  by (auto simp: sets_def)

lemma sets_nil: "sets get (\<lambda>x. x) (in_order [])"
  by (simp add: sets_def)

lemma read_sets:
  assumes "sz \<le> length table"
  shows "(\<And>v c. dget (dput v c) = v) \<Longrightarrow> sets dget (double_or table sz nm) (read_double table sz nm dput)"
    "(\<And>v c. iget (iput v c) = v) \<Longrightarrow> sets iget (int_or table sz nm) (read_int table sz nm iput)"
    "(\<And>v c. sget (sput v c) = v) \<Longrightarrow> sets sget (str_or table sz nm) (read_str table sz nm sput)"
  unfolding sets_def read_double_def read_int_def read_param_value [OF assms] read_str_value [OF assms]
  by (auto simp: double_or_def int_or_def str_or_def split: option.splits if_splits)

lemma read_keeps:
  assumes "sz \<le> length table"
  shows "(\<And>v c. get (dput v c) = get c) \<Longrightarrow> sets get (\<lambda>x. x) (read_double table sz nm dput)"
    "(\<And>v c. get (iput v c) = get c) \<Longrightarrow> sets get (\<lambda>x. x) (read_int table sz nm iput)"
    "(\<And>v c. get (sput v c) = get c) \<Longrightarrow> sets get (\<lambda>x. x) (read_str table sz nm sput)"
  unfolding sets_def read_double_def read_int_def read_param_value [OF assms] read_str_value [OF assms]
  by (auto split: option.splits if_splits)

lemma check_keeps: "sets get (\<lambda>x. x) check_dimensions" "sets get (\<lambda>x. x) check_parameters"
  by (auto simp: sets_def check_dimensions_def check_parameters_def split: if_splits)

section \<open>The parameters\<close>

definition double_params :: "(string \<times> (thermal_config_t \<Rightarrow> real)) list" where
  "double_params = [
    (''t_chip'', t_chip), (''k_chip'', k_chip), (''p_chip'', p_chip),
    (''thermal_threshold'', thermal_threshold), (''c_convec'', c_convec), (''r_convec'', r_convec),
    (''s_sink'', s_sink), (''t_sink'', t_sink), (''k_sink'', k_sink), (''p_sink'', p_sink),
    (''s_spreader'', s_spreader), (''t_spreader'', t_spreader), (''k_spreader'', k_spreader),
    (''p_spreader'', p_spreader), (''t_interface'', t_interface), (''k_interface'', k_interface),
    (''p_interface'', p_interface), (''r_convec_sec'', r_convec_sec), (''c_convec_sec'', c_convec_sec),
    (''t_metal'', t_metal), (''t_c4'', t_c4), (''s_c4'', s_c4), (''s_sub'', s_sub), (''t_sub'', t_sub),
    (''s_solder'', s_solder), (''t_solder'', t_solder), (''s_pcb'', s_pcb), (''t_pcb'', t_pcb),
    (''ambient'', ambient), (''init_temp'', init_temp), (''sampling_intvl'', sampling_intvl),
    (''base_proc_freq'', base_proc_freq)]"

definition int_params :: "(string \<times> (thermal_config_t \<Rightarrow> int)) list" where
  "int_params = [
    (''model_secondary'', model_secondary), (''n_metal'', n_metal), (''n_c4'', n_c4), (''dtm_used'', dtm_used),
    (''leakage_used'', leakage_used), (''leakage_mode'', leakage_mode),
    (''package_model_used'', package_model_used), (''block_omit_lateral'', block_omit_lateral),
    (''grid_rows'', grid_rows), (''grid_cols'', grid_cols),
    (''steady_state_print_disable'', steady_state_print_disable)]"

definition str_params :: "(string \<times> (thermal_config_t \<Rightarrow> string)) list" where
  "str_params = [
    (''init_file'', init_file), (''steady_file'', steady_file), (''model_type'', model_type),
    (''package_config_file'', package_config_file), (''grid_layer_file'', grid_layer_file),
    (''grid_steady_file'', grid_steady_file), (''grid_map_mode'', grid_map_mode),
    (''all_transient_file'', all_transient_file), (''type'', mem_type)]"

lemma flatten_three: "in_order [in_order xs, in_order ys, in_order zs, f, g] = in_order (xs @ ys @ zs @ [f, g])"
proof
  fix c
  have e: "in_order (us @ vs) = (\<lambda>c. rbind (in_order us c) (in_order vs))" for us vs :: "('a \<Rightarrow> 'a res) list"
    by (rule ext) (rule in_order_append)
  have c: "in_order (h # hs) = (\<lambda>c. rbind (h c) (in_order hs))" for h :: "'a \<Rightarrow> 'a res" and hs
    by (rule ext) simp
  show "in_order [in_order xs, in_order ys, in_order zs, f, g] c = in_order (xs @ ys @ zs @ [f, g]) c"
    by (simp only: e c)
qed

lemma reads_flat:
  "thermal_config_add_from_strs config table sz = in_order (
     read_double table sz ''t_chip'' (\<lambda>v c. c\<lparr>t_chip := v\<rparr>) #
     read_double table sz ''k_chip'' (\<lambda>v c. c\<lparr>k_chip := v\<rparr>) #
     read_double table sz ''p_chip'' (\<lambda>v c. c\<lparr>p_chip := v\<rparr>) #
     read_double table sz ''thermal_threshold'' (\<lambda>v c. c\<lparr>thermal_threshold := v\<rparr>) #
     read_double table sz ''c_convec'' (\<lambda>v c. c\<lparr>c_convec := v\<rparr>) #
     read_double table sz ''r_convec'' (\<lambda>v c. c\<lparr>r_convec := v\<rparr>) #
     read_double table sz ''s_sink'' (\<lambda>v c. c\<lparr>s_sink := v\<rparr>) #
     read_double table sz ''t_sink'' (\<lambda>v c. c\<lparr>t_sink := v\<rparr>) #
     read_double table sz ''k_sink'' (\<lambda>v c. c\<lparr>k_sink := v\<rparr>) #
     read_double table sz ''p_sink'' (\<lambda>v c. c\<lparr>p_sink := v\<rparr>) #
     read_double table sz ''s_spreader'' (\<lambda>v c. c\<lparr>s_spreader := v\<rparr>) #
     read_double table sz ''t_spreader'' (\<lambda>v c. c\<lparr>t_spreader := v\<rparr>) #
     read_double table sz ''k_spreader'' (\<lambda>v c. c\<lparr>k_spreader := v\<rparr>) #
     read_double table sz ''p_spreader'' (\<lambda>v c. c\<lparr>p_spreader := v\<rparr>) #
     read_double table sz ''t_interface'' (\<lambda>v c. c\<lparr>t_interface := v\<rparr>) #
     read_double table sz ''k_interface'' (\<lambda>v c. c\<lparr>k_interface := v\<rparr>) #
     read_double table sz ''p_interface'' (\<lambda>v c. c\<lparr>p_interface := v\<rparr>) #
     read_int table sz ''model_secondary'' (\<lambda>v c. c\<lparr>model_secondary := v\<rparr>) #
     read_double table sz ''r_convec_sec'' (\<lambda>v c. c\<lparr>r_convec_sec := v\<rparr>) #
     read_double table sz ''c_convec_sec'' (\<lambda>v c. c\<lparr>c_convec_sec := v\<rparr>) #
     read_int table sz ''n_metal'' (\<lambda>v c. c\<lparr>n_metal := v\<rparr>) #
     read_double table sz ''t_metal'' (\<lambda>v c. c\<lparr>t_metal := v\<rparr>) #
     read_double table sz ''t_c4'' (\<lambda>v c. c\<lparr>t_c4 := v\<rparr>) #
     read_double table sz ''s_c4'' (\<lambda>v c. c\<lparr>s_c4 := v\<rparr>) #
     read_int table sz ''n_c4'' (\<lambda>v c. c\<lparr>n_c4 := v\<rparr>) #
     read_double table sz ''s_sub'' (\<lambda>v c. c\<lparr>s_sub := v\<rparr>) #
     read_double table sz ''t_sub'' (\<lambda>v c. c\<lparr>t_sub := v\<rparr>) #
     read_double table sz ''s_solder'' (\<lambda>v c. c\<lparr>s_solder := v\<rparr>) #
     read_double table sz ''t_solder'' (\<lambda>v c. c\<lparr>t_solder := v\<rparr>) #
     read_double table sz ''s_pcb'' (\<lambda>v c. c\<lparr>s_pcb := v\<rparr>) #
     read_double table sz ''t_pcb'' (\<lambda>v c. c\<lparr>t_pcb := v\<rparr>) #
     read_double table sz ''ambient'' (\<lambda>v c. c\<lparr>ambient := v\<rparr>) #
     read_str table sz ''init_file'' (\<lambda>v c. c\<lparr>init_file := v\<rparr>) #
     read_double table sz ''init_temp'' (\<lambda>v c. c\<lparr>init_temp := v\<rparr>) #
     read_str table sz ''steady_file'' (\<lambda>v c. c\<lparr>steady_file := v\<rparr>) #
     read_double table sz ''sampling_intvl'' (\<lambda>v c. c\<lparr>sampling_intvl := v\<rparr>) #
     read_double table sz ''base_proc_freq'' (\<lambda>v c. c\<lparr>base_proc_freq := v\<rparr>) #
     read_int table sz ''dtm_used'' (\<lambda>v c. c\<lparr>dtm_used := v\<rparr>) #
     read_str table sz ''model_type'' (\<lambda>v c. c\<lparr>model_type := v\<rparr>) #
     read_int table sz ''leakage_used'' (\<lambda>v c. c\<lparr>leakage_used := v\<rparr>) #
     read_int table sz ''leakage_mode'' (\<lambda>v c. c\<lparr>leakage_mode := v\<rparr>) #
     read_int table sz ''package_model_used'' (\<lambda>v c. c\<lparr>package_model_used := v\<rparr>) #
     read_str table sz ''package_config_file'' (\<lambda>v c. c\<lparr>package_config_file := v\<rparr>) #
     read_int table sz ''block_omit_lateral'' (\<lambda>v c. c\<lparr>block_omit_lateral := v\<rparr>) #
     read_int table sz ''grid_rows'' (\<lambda>v c. c\<lparr>grid_rows := v\<rparr>) #
     read_int table sz ''grid_cols'' (\<lambda>v c. c\<lparr>grid_cols := v\<rparr>) #
     read_str table sz ''grid_layer_file'' (\<lambda>v c. c\<lparr>grid_layer_file := v\<rparr>) #
     read_str table sz ''grid_steady_file'' (\<lambda>v c. c\<lparr>grid_steady_file := v\<rparr>) #
     read_str table sz ''grid_map_mode'' (\<lambda>v c. c\<lparr>grid_map_mode := v\<rparr>) #
     read_str table sz ''all_transient_file'' (\<lambda>v c. c\<lparr>all_transient_file := v\<rparr>) #
     read_int table sz ''steady_state_print_disable'' (\<lambda>v c. c\<lparr>steady_state_print_disable := v\<rparr>) #
     read_str table sz ''type'' (\<lambda>v c. c\<lparr>mem_type := v\<rparr>) #
     [check_dimensions, check_parameters]) config"
  unfolding thermal_config_add_from_strs_def read_chip_and_package_def read_secondary_path_def read_simulation_def
  by (simp only: flatten_three append.simps)

lemma double_params_set:
  assumes "sz \<le> length table"
  shows "list_all (\<lambda>(nm, get). sets get (double_or table sz nm) (\<lambda>c. thermal_config_add_from_strs c table sz)) double_params"
  unfolding double_params_def reads_flat
  by (simp only: list.pred_inject prod.case simp_thms, intro conjI;
    (((rule sets_skip, (rule read_keeps [OF assms], (simp; fail)))+)?,
     rule sets_hit, (rule read_sets [OF assms], (simp; fail)),
     ((rule sets_skip, (rule read_keeps [OF assms], (simp; fail)))+)?,
     rule sets_skip, rule check_keeps, rule sets_skip, rule check_keeps, rule sets_nil))

lemma int_params_set:
  assumes "sz \<le> length table"
  shows "list_all (\<lambda>(nm, get). sets get (int_or table sz nm) (\<lambda>c. thermal_config_add_from_strs c table sz)) int_params"
  unfolding int_params_def reads_flat
  by (simp only: list.pred_inject prod.case simp_thms, intro conjI;
    (((rule sets_skip, (rule read_keeps [OF assms], (simp; fail)))+)?,
     rule sets_hit, (rule read_sets [OF assms], (simp; fail)),
     ((rule sets_skip, (rule read_keeps [OF assms], (simp; fail)))+)?,
     rule sets_skip, rule check_keeps, rule sets_skip, rule check_keeps, rule sets_nil))

lemma str_params_set:
  assumes "sz \<le> length table"
  shows "list_all (\<lambda>(nm, get). sets get (str_or table sz nm) (\<lambda>c. thermal_config_add_from_strs c table sz)) str_params"
  unfolding str_params_def reads_flat
  by (simp only: list.pred_inject prod.case simp_thms, intro conjI;
    (((rule sets_skip, (rule read_keeps [OF assms], (simp; fail)))+)?,
     rule sets_hit, (rule read_sets [OF assms], (simp; fail)),
     ((rule sets_skip, (rule read_keeps [OF assms], (simp; fail)))+)?,
     rule sets_skip, rule check_keeps, rule sets_skip, rule check_keeps, rule sets_nil))

section \<open>Accepted configurations\<close>

text \<open>
  What the checks leave possible. The thickness of the board is not among the dimensions that
  are checked: the test of \<open>t_solder\<close> occurs twice.
\<close>

definition plausible :: "thermal_config_t \<Rightarrow> bool" where
  "plausible c \<longleftrightarrow> list_all (\<lambda>x. 0 < x) [t_chip c, s_sink c, t_sink c, s_spreader c, t_spreader c, t_interface c,
     t_metal c, t_c4 c, s_c4 c, s_sub c, t_sub c, s_solder c, t_solder c, s_pcb c, r_convec_sec c, c_convec_sec c,
     base_proc_freq c, sampling_intvl c] \<and> list_all (\<lambda>k. 0 < k) [n_metal c, n_c4 c, grid_rows c, grid_cols c] \<and>
     list_all (\<lambda>x. 0 \<le> x) [thermal_threshold c, c_convec c, r_convec c, ambient c] \<and>
     (strcase_eq (model_type c) BLOCK_MODEL_STR \<and> model_secondary c \<noteq> 1 \<or> strcase_eq (model_type c) GRID_MODEL_STR) \<and>
     list_ex (strcase_eq (grid_map_mode c)) [GRID_AVG_STR, GRID_MIN_STR, GRID_MAX_STR, GRID_CENTER_STR]"

lemma models_differ: "strcase_eq s GRID_MODEL_STR \<Longrightarrow> \<not> strcase_eq s BLOCK_MODEL_STR"
proof
  assume "strcase_eq s GRID_MODEL_STR" "strcase_eq s BLOCK_MODEL_STR"
  then have "strcase_eq GRID_MODEL_STR BLOCK_MODEL_STR" by (simp add: strcase_eq_def)
  moreover have "\<not> strcase_eq GRID_MODEL_STR BLOCK_MODEL_STR" by code_simp
  ultimately show False by blast
qed

lemma check_dimensions_iff:
  "check_dimensions c = Inr d \<longleftrightarrow> d = c \<and> list_all (\<lambda>x. 0 < x) [t_chip c, s_sink c, t_sink c, s_spreader c, t_spreader c, t_interface c,
     t_metal c, t_c4 c, s_c4 c, s_sub c, t_sub c, s_solder c, t_solder c, s_pcb c, r_convec_sec c, c_convec_sec c] \<and>
     0 < n_metal c \<and> 0 < n_c4 c"
  by (simp add: check_dimensions_def not_le eq_commute [of c] conj_comms)

lemma check_parameters_iff:
  "check_parameters c = Inr d \<longleftrightarrow> d = c \<and> 0 < base_proc_freq c \<and> 0 < sampling_intvl c \<and> 0 < grid_rows c \<and> 0 < grid_cols c \<and>
     list_all (\<lambda>x. 0 \<le> x) [thermal_threshold c, c_convec c, r_convec c, ambient c] \<and>
     (strcase_eq (model_type c) BLOCK_MODEL_STR \<and> model_secondary c \<noteq> 1 \<or> strcase_eq (model_type c) GRID_MODEL_STR) \<and>
     list_ex (strcase_eq (grid_map_mode c)) [GRID_AVG_STR, GRID_MIN_STR, GRID_MAX_STR, GRID_CENTER_STR]"
  using models_differ [of "model_type c"]
  by (simp add: check_parameters_def not_le not_less eq_commute [of c]) argo

lemma checks_plausible:
  "check_dimensions c = Inr d \<and> check_parameters d = Inr e \<longleftrightarrow> plausible c \<and> d = c \<and> e = c"
  by (simp only: check_dimensions_iff check_parameters_iff plausible_def list.pred_inject simp_thms) blast

definition read_all :: "str_pair list \<Rightarrow> nat \<Rightarrow> thermal_config_t \<Rightarrow> thermal_config_t res" where
  "read_all table sz = in_order [read_chip_and_package table sz, read_secondary_path table sz, read_simulation table sz]"

lemma flatten_five:
  "in_order [f, g, h, a, b] c = rbind (in_order [f, g, h] c) (in_order [a, b])"
  by (cases "f c"; simp; cases "g (projr (f c))"; simp; cases "h (projr (g (projr (f c))))"; simp)

lemma add_from_strs_split:
  "thermal_config_add_from_strs c table sz = Inr c' \<longleftrightarrow> read_all table sz c = Inr c' \<and> plausible c'"
proof -
  have "thermal_config_add_from_strs c table sz = rbind (read_all table sz c) (in_order [check_dimensions, check_parameters])"
    unfolding thermal_config_add_from_strs_def read_all_def by (simp only: flatten_five)
  then show ?thesis using checks_plausible by (auto simp: rbind_eq_Inr)
qed

text \<open>
  C28: a configuration that reading a table returns has every parameter set to the
  value of the first entry of its name and the parameters without an entry unchanged, and it
  is plausible: dimensions, counts, frequencies and intervals are positive, temperatures and
  convection parameters are not negative, and model and mapping are among the known ones.
\<close>

theorem thermal_config_reads:
  assumes "sz \<le> length table" "thermal_config_add_from_strs c table sz = Inr c'"
  shows "list_all (\<lambda>(nm, get). get c' = double_or table sz nm (get c)) double_params \<and>
    list_all (\<lambda>(nm, get). get c' = int_or table sz nm (get c)) int_params \<and>
    list_all (\<lambda>(nm, get). get c' = str_or table sz nm (get c)) str_params \<and> plausible c'"
proof (intro conjI)
  have get: "list_all (\<lambda>(nm, get). sets get (r nm) (\<lambda>c. thermal_config_add_from_strs c table sz)) ps \<Longrightarrow>
      list_all (\<lambda>(nm, get). get c' = r nm (get c)) ps" for r and ps :: "(string \<times> (thermal_config_t \<Rightarrow> 'a)) list"
    using assms(2) by (auto simp: list_all_iff sets_def)
  show "list_all (\<lambda>(nm, get). get c' = double_or table sz nm (get c)) double_params"
    by (rule get [OF double_params_set [OF assms(1)]])
  have get: "list_all (\<lambda>(nm, get). sets get (r nm) (\<lambda>c. thermal_config_add_from_strs c table sz)) ps \<Longrightarrow>
      list_all (\<lambda>(nm, get). get c' = r nm (get c)) ps" for r and ps :: "(string \<times> (thermal_config_t \<Rightarrow> int)) list"
    using assms(2) by (auto simp: list_all_iff sets_def)
  show "list_all (\<lambda>(nm, get). get c' = int_or table sz nm (get c)) int_params"
    by (rule get [OF int_params_set [OF assms(1)]])
  have get: "list_all (\<lambda>(nm, get). sets get (r nm) (\<lambda>c. thermal_config_add_from_strs c table sz)) ps \<Longrightarrow>
      list_all (\<lambda>(nm, get). get c' = r nm (get c)) ps" for r and ps :: "(string \<times> (thermal_config_t \<Rightarrow> string)) list"
    using assms(2) by (auto simp: list_all_iff sets_def)
  show "list_all (\<lambda>(nm, get). get c' = str_or table sz nm (get c)) str_params"
    by (rule get [OF str_params_set [OF assms(1)]])
  show "plausible c'" using add_from_strs_split assms(2) by blast
qed

section \<open>A board of negative thickness\<close>

definition bad_board :: "str_pair list" where
  "bad_board = [\<lparr>pair_name = ''t_pcb'', pair_value = ''-1''\<rparr>]"

lemma bad_board_value: "value_of bad_board 1 nm = (if strcase_eq nm ''t_pcb'' then Some ''-1'' else None)"
  by (simp add: value_of_def bad_board_def)

lemma bad_board_read:
  "\<not> strcase_eq nm ''t_pcb'' \<Longrightarrow> read_double bad_board 1 nm dput c = Inr c"
  "\<not> strcase_eq nm ''t_pcb'' \<Longrightarrow> read_int bad_board 1 nm iput c = Inr c"
  "\<not> strcase_eq nm ''t_pcb'' \<Longrightarrow> read_str bad_board 1 nm sput c = Inr c"
  "read_double bad_board 1 ''t_pcb'' dput c = Inr (dput (-1) c)"
proof -
  have l: "1 \<le> length bad_board" by (simp add: bad_board_def)
  have d: "scan_double ''-1'' = Some (-1, [])" by (simp add: scan_double_def skip_space_def scan_sign_def scan_exponent_def
      is_space_def is_digit_def digits_val_def digit_val_def Let_def)
  show "\<not> strcase_eq nm ''t_pcb'' \<Longrightarrow> read_double bad_board 1 nm dput c = Inr c"
    "\<not> strcase_eq nm ''t_pcb'' \<Longrightarrow> read_int bad_board 1 nm iput c = Inr c"
    "\<not> strcase_eq nm ''t_pcb'' \<Longrightarrow> read_str bad_board 1 nm sput c = Inr c"
    "read_double bad_board 1 ''t_pcb'' dput c = Inr (dput (-1) c)"
    unfolding read_double_def read_int_def read_param_value [OF l] read_str_value [OF l] bad_board_value using d by simp_all
qed

lemma no_board_names:
  "list_all (\<lambda>nm. nm = ''t_pcb'' \<or> \<not> strcase_eq nm ''t_pcb'') (map fst double_params @ map fst int_params @ map fst str_params)"
  by (simp add: double_params_def int_params_def str_params_def strcase_eq_def to_lower_def Let_def)

lemma bad_board_accepted:
  "thermal_config_add_from_strs default_thermal_config bad_board 1 = Inr (default_thermal_config\<lparr>t_pcb := -1\<rparr>)"
proof -
  note n = no_board_names [unfolded double_params_def int_params_def str_params_def list.map fst_conv append.simps list.pred_inject simp_thms]
  have r: "read_all bad_board 1 default_thermal_config = Inr (default_thermal_config\<lparr>t_pcb := -1\<rparr>)"
    unfolding read_all_def read_chip_and_package_def read_secondary_path_def read_simulation_def
    using n by (simp add: bad_board_read del: One_nat_def)
  have "plausible (default_thermal_config\<lparr>t_pcb := -1\<rparr>)"
    by (simp add: plausible_def default_thermal_config_def GRID_CENTER_STR_def)
  with r show ?thesis by (simp only: add_from_strs_split simp_thms)
qed
lemma thermal_config_reads_witness:
  "list_all (\<lambda>(nm, get). get (default_thermal_config\<lparr>t_pcb := -1\<rparr>) = double_or bad_board 1 nm (get default_thermal_config)) double_params \<and>
    plausible (default_thermal_config\<lparr>t_pcb := -1\<rparr>)"
  using thermal_config_reads [OF _ bad_board_accepted] by (simp add: bad_board_def)
end
