(* ===== verification/Package_RC.thy ===== *)
theory Package_RC
  imports Thermal_Types
begin

text \<open>
  The resistances and capacitances of the package, \<open>populate_package_R\<close> and
  \<open>populate_package_C\<close> of \<open>hotspot_tool/temperature.c\<close>: spreader and sink around a chip of the given
  extents, then substrate, solder and board of the secondary path.
\<close>

section \<open>Resistances\<close>

definition package_R_primary :: "thermal_config_t \<Rightarrow> real \<Rightarrow> real \<Rightarrow> package_RC_t \<Rightarrow> package_RC_t res" where
  "package_R_primary config w h =
    (let s_spreader = s_spreader config; t_spreader = t_spreader config;
         s_sink = s_sink config; t_sink = t_sink config;
         r_convec = r_convec config; k_sink = k_sink config; k_spreader = k_spreader config in
     in_order [
      assign (\<lambda>x p. p\<lparr>r_sp1_x := x\<rparr>) (getr k_spreader ((s_spreader - w) / 4) ((s_spreader + 3 * h) / 4 * t_spreader)),
      assign (\<lambda>x p. p\<lparr>r_sp1_y := x\<rparr>) (getr k_spreader ((s_spreader - h) / 4) ((s_spreader + 3 * w) / 4 * t_spreader)),
      assign (\<lambda>x p. p\<lparr>r_hs1_x := x\<rparr>) (getr k_sink ((s_spreader - w) / 4) ((s_spreader + 3 * h) / 4 * t_sink)),
      assign (\<lambda>x p. p\<lparr>r_hs1_y := x\<rparr>) (getr k_sink ((s_spreader - h) / 4) ((s_spreader + 3 * w) / 4 * t_sink)),
      assign (\<lambda>x p. p\<lparr>r_hs2_x := x\<rparr>) (getr k_sink ((s_spreader - w) / 4) ((3 * s_spreader + h) / 4 * t_sink)),
      assign (\<lambda>x p. p\<lparr>r_hs2_y := x\<rparr>) (getr k_sink ((s_spreader - h) / 4) ((3 * s_spreader + w) / 4 * t_sink)),
      assign (\<lambda>x p. p\<lparr>r_hs := x\<rparr>) (getr k_sink ((s_sink - s_spreader) / 4) ((s_sink + 3 * s_spreader) / 4 * t_sink)),
      assign (\<lambda>x p. p\<lparr>r_sp_per_x := x\<rparr>) (getr k_spreader t_spreader ((s_spreader + h) * (s_spreader - w) / 4)),
      assign (\<lambda>x p. p\<lparr>r_sp_per_y := x\<rparr>) (getr k_spreader t_spreader ((s_spreader + w) * (s_spreader - h) / 4)),
      assign (\<lambda>x p. p\<lparr>r_hs_c_per_x := x\<rparr>) (getr k_sink t_sink ((s_spreader + h) * (s_spreader - w) / 4)),
      assign (\<lambda>x p. p\<lparr>r_hs_c_per_y := x\<rparr>) (getr k_sink t_sink ((s_spreader + w) * (s_spreader - h) / 4)),
      assign (\<lambda>x p. p\<lparr>r_hs_per := x\<rparr>) (getr k_sink t_sink ((s_sink * s_sink - s_spreader * s_spreader) / 4)),
      assign (\<lambda>x p. p\<lparr>r_amb_c_per_x := x\<rparr>) (fdiv (r_convec * (s_sink * s_sink)) ((s_spreader + h) * (s_spreader - w) / 4)),
      assign (\<lambda>x p. p\<lparr>r_amb_c_per_y := x\<rparr>) (fdiv (r_convec * (s_sink * s_sink)) ((s_spreader + w) * (s_spreader - h) / 4)),
      assign (\<lambda>x p. p\<lparr>r_amb_per := x\<rparr>) (fdiv (r_convec * (s_sink * s_sink)) ((s_sink * s_sink - s_spreader * s_spreader) / 4))])"

definition package_R_secondary :: "thermal_config_t \<Rightarrow> real \<Rightarrow> real \<Rightarrow> package_RC_t \<Rightarrow> package_RC_t res" where
  "package_R_secondary config w h =
    (let s_sub = s_sub config; t_sub = t_sub config;
         s_solder = s_solder config; t_solder = t_solder config;
         s_pcb = s_pcb config; t_pcb = t_pcb config; r_convec_sec = r_convec_sec config in
     in_order [
      assign (\<lambda>x p. p\<lparr>r_sub1_x := x\<rparr>) (getr K_SUB ((s_sub - w) / 4) ((s_sub + 3 * h) / 4 * t_sub)),
      assign (\<lambda>x p. p\<lparr>r_sub1_y := x\<rparr>) (getr K_SUB ((s_sub - h) / 4) ((s_sub + 3 * w) / 4 * t_sub)),
      assign (\<lambda>x p. p\<lparr>r_solder1_x := x\<rparr>) (getr K_SOLDER ((s_solder - w) / 4) ((s_solder + 3 * h) / 4 * t_solder)),
      assign (\<lambda>x p. p\<lparr>r_solder1_y := x\<rparr>) (getr K_SOLDER ((s_solder - h) / 4) ((s_solder + 3 * w) / 4 * t_solder)),
      assign (\<lambda>x p. p\<lparr>r_pcb1_x := x\<rparr>) (getr K_PCB ((s_solder - w) / 4) ((s_solder + 3 * h) / 4 * t_pcb)),
      assign (\<lambda>x p. p\<lparr>r_pcb1_y := x\<rparr>) (getr K_PCB ((s_solder - h) / 4) ((s_solder + 3 * w) / 4 * t_pcb)),
      assign (\<lambda>x p. p\<lparr>r_pcb2_x := x\<rparr>) (getr K_PCB ((s_solder - w) / 4) ((3 * s_solder + h) / 4 * t_pcb)),
      assign (\<lambda>x p. p\<lparr>r_pcb2_y := x\<rparr>) (getr K_PCB ((s_solder - h) / 4) ((3 * s_solder + w) / 4 * t_pcb)),
      assign (\<lambda>x p. p\<lparr>r_pcb := x\<rparr>) (getr K_PCB ((s_pcb - s_solder) / 4) ((s_pcb + 3 * s_solder) / 4 * t_pcb)),
      assign (\<lambda>x p. p\<lparr>r_sub_per_x := x\<rparr>) (getr K_SUB t_sub ((s_sub + h) * (s_sub - w) / 4)),
      assign (\<lambda>x p. p\<lparr>r_sub_per_y := x\<rparr>) (getr K_SUB t_sub ((s_sub + w) * (s_sub - h) / 4)),
      assign (\<lambda>x p. p\<lparr>r_solder_per_x := x\<rparr>) (getr K_SOLDER t_solder ((s_solder + h) * (s_solder - w) / 4)),
      assign (\<lambda>x p. p\<lparr>r_solder_per_y := x\<rparr>) (getr K_SOLDER t_solder ((s_solder + w) * (s_solder - h) / 4)),
      assign (\<lambda>x p. p\<lparr>r_pcb_c_per_x := x\<rparr>) (getr K_PCB t_pcb ((s_solder + h) * (s_solder - w) / 4)),
      assign (\<lambda>x p. p\<lparr>r_pcb_c_per_y := x\<rparr>) (getr K_PCB t_pcb ((s_solder + w) * (s_solder - h) / 4)),
      assign (\<lambda>x p. p\<lparr>r_pcb_per := x\<rparr>) (getr K_PCB t_pcb ((s_pcb * s_pcb - s_solder * s_solder) / 4)),
      assign (\<lambda>x p. p\<lparr>r_amb_sec_c_per_x := x\<rparr>) (fdiv (r_convec_sec * (s_pcb * s_pcb)) ((s_solder + h) * (s_solder - w) / 4)),
      assign (\<lambda>x p. p\<lparr>r_amb_sec_c_per_y := x\<rparr>) (fdiv (r_convec_sec * (s_pcb * s_pcb)) ((s_solder + w) * (s_solder - h) / 4)),
      assign (\<lambda>x p. p\<lparr>r_amb_sec_per := x\<rparr>) (fdiv (r_convec_sec * (s_pcb * s_pcb)) ((s_pcb * s_pcb - s_solder * s_solder) / 4))])"

definition populate_package_R :: "package_RC_t \<Rightarrow> thermal_config_t \<Rightarrow> real \<Rightarrow> real \<Rightarrow> package_RC_t res" where
  "populate_package_R p config w h =
     rbind (package_R_primary config w h p) (package_R_secondary config w h)"

section \<open>Capacitances\<close>

definition package_C_primary :: "thermal_config_t \<Rightarrow> real \<Rightarrow> real \<Rightarrow> package_RC_t \<Rightarrow> package_RC_t res" where
  "package_C_primary config w h =
    (let s_spreader = s_spreader config; t_spreader = t_spreader config;
         s_sink = s_sink config; t_sink = t_sink config;
         c_convec = c_convec config; p_sink = p_sink config; p_spreader = p_spreader config in
     in_order [
      assign (\<lambda>x p. p\<lparr>c_sp_per_x := x\<rparr>) (Inr (getcap p_spreader t_spreader ((s_spreader + h) * (s_spreader - w) / 4))),
      assign (\<lambda>x p. p\<lparr>c_sp_per_y := x\<rparr>) (Inr (getcap p_spreader t_spreader ((s_spreader + w) * (s_spreader - h) / 4))),
      assign (\<lambda>x p. p\<lparr>c_hs_c_per_x := x\<rparr>) (Inr (getcap p_sink t_sink ((s_spreader + h) * (s_spreader - w) / 4))),
      assign (\<lambda>x p. p\<lparr>c_hs_c_per_y := x\<rparr>) (Inr (getcap p_sink t_sink ((s_spreader + w) * (s_spreader - h) / 4))),
      assign (\<lambda>x p. p\<lparr>c_hs_per := x\<rparr>) (Inr (getcap p_sink t_sink ((s_sink * s_sink - s_spreader * s_spreader) / 4))),
      assign (\<lambda>x p. p\<lparr>c_amb_c_per_x := x\<rparr>) (rbind (fdiv (C_FACTOR * c_convec) (s_sink * s_sink)) (\<lambda>q. Inr (q * ((s_spreader + h) * (s_spreader - w) / 4)))),
      assign (\<lambda>x p. p\<lparr>c_amb_c_per_y := x\<rparr>) (rbind (fdiv (C_FACTOR * c_convec) (s_sink * s_sink)) (\<lambda>q. Inr (q * ((s_spreader + w) * (s_spreader - h) / 4)))),
      assign (\<lambda>x p. p\<lparr>c_amb_per := x\<rparr>) (rbind (fdiv (C_FACTOR * c_convec) (s_sink * s_sink)) (\<lambda>q. Inr (q * ((s_sink * s_sink - s_spreader * s_spreader) / 4))))])"

definition package_C_secondary :: "thermal_config_t \<Rightarrow> real \<Rightarrow> real \<Rightarrow> package_RC_t \<Rightarrow> package_RC_t res" where
  "package_C_secondary config w h =
    (let s_sub = s_sub config; t_sub = t_sub config;
         s_solder = s_solder config; t_solder = t_solder config;
         s_pcb = s_pcb config; t_pcb = t_pcb config; c_convec_sec = c_convec_sec config in
     in_order [
      assign (\<lambda>x p. p\<lparr>c_sub_per_x := x\<rparr>) (Inr (getcap SPEC_HEAT_SUB t_sub ((s_sub + h) * (s_sub - w) / 4))),
      assign (\<lambda>x p. p\<lparr>c_sub_per_y := x\<rparr>) (Inr (getcap SPEC_HEAT_SUB t_sub ((s_sub + w) * (s_sub - h) / 4))),
      assign (\<lambda>x p. p\<lparr>c_solder_per_x := x\<rparr>) (Inr (getcap SPEC_HEAT_SOLDER t_solder ((s_solder + h) * (s_solder - w) / 4))),
      assign (\<lambda>x p. p\<lparr>c_solder_per_y := x\<rparr>) (Inr (getcap SPEC_HEAT_SOLDER t_solder ((s_solder + w) * (s_solder - h) / 4))),
      assign (\<lambda>x p. p\<lparr>c_pcb_c_per_x := x\<rparr>) (Inr (getcap SPEC_HEAT_PCB t_pcb ((s_solder + h) * (s_solder - w) / 4))),
      assign (\<lambda>x p. p\<lparr>c_pcb_c_per_y := x\<rparr>) (Inr (getcap SPEC_HEAT_PCB t_pcb ((s_solder + w) * (s_solder - h) / 4))),
      assign (\<lambda>x p. p\<lparr>c_pcb_per := x\<rparr>) (Inr (getcap SPEC_HEAT_PCB t_pcb ((s_pcb * s_pcb - s_solder * s_solder) / 4))),
      assign (\<lambda>x p. p\<lparr>c_amb_sec_c_per_x := x\<rparr>) (rbind (fdiv (C_FACTOR * c_convec_sec) (s_pcb * s_pcb)) (\<lambda>q. Inr (q * ((s_solder + h) * (s_solder - w) / 4)))),
      assign (\<lambda>x p. p\<lparr>c_amb_sec_c_per_y := x\<rparr>) (rbind (fdiv (C_FACTOR * c_convec_sec) (s_pcb * s_pcb)) (\<lambda>q. Inr (q * ((s_solder + w) * (s_solder - h) / 4)))),
      assign (\<lambda>x p. p\<lparr>c_amb_sec_per := x\<rparr>) (rbind (fdiv (C_FACTOR * c_convec_sec) (s_pcb * s_pcb)) (\<lambda>q. Inr (q * ((s_pcb * s_pcb - s_solder * s_solder) / 4))))])"

definition populate_package_C :: "package_RC_t \<Rightarrow> thermal_config_t \<Rightarrow> real \<Rightarrow> real \<Rightarrow> package_RC_t res" where
  "populate_package_C p config w h =
     rbind (package_C_primary config w h p) (package_C_secondary config w h)"

section \<open>Packages around the chip\<close>

text \<open>
  The chip is smaller than the spreader and the spreader smaller than the sink; the layers of
  the secondary path have extents for which their resistances are finite.
\<close>

definition package_ok :: "thermal_config_t \<Rightarrow> real \<Rightarrow> real \<Rightarrow> bool" where
  "package_ok config w h \<longleftrightarrow> 0 < w \<and> 0 < h \<and> w < s_spreader config \<and>
     h < s_spreader config \<and> s_spreader config < s_sink config \<and>
     0 < t_spreader config \<and> 0 < t_sink config \<and> 0 < k_sink config \<and> 0 < k_spreader config \<and> 0 \<le> r_convec config \<and>
     0 < s_sub config \<and> 0 < t_sub config \<and> 0 < s_solder config \<and> 0 < t_solder config \<and>
     0 < s_pcb config \<and> 0 < t_pcb config \<and> s_sub config \<noteq> w \<and> s_sub config \<noteq> h \<and>
     s_solder config \<noteq> w \<and> s_solder config \<noteq> h \<and> s_pcb config \<noteq> s_solder config"

text \<open>What the rest of the model needs of the resistances.\<close>

definition pack_R_ok :: "package_RC_t \<Rightarrow> bool" where
  "pack_R_ok p \<longleftrightarrow> 0 < r_sp1_x p \<and> 0 < r_sp1_y p \<and> 0 < r_hs1_x p \<and> 0 < r_hs1_y p \<and> 0 < r_hs2_x p \<and> 0 < r_hs2_y p \<and>
     0 < r_hs p \<and> 0 < r_sp_per_x p \<and> 0 < r_sp_per_y p \<and> 0 < r_hs_c_per_x p \<and> 0 < r_hs_c_per_y p \<and> 0 < r_hs_per p \<and>
     0 \<le> r_amb_c_per_x p \<and> 0 \<le> r_amb_c_per_y p \<and> 0 \<le> r_amb_per p"

lemma square_gap: "0 < a \<Longrightarrow> a < b \<Longrightarrow> a * a < b * (b::real)"
  by (rule mult_strict_mono) simp_all

lemma square_neq: "0 < a \<Longrightarrow> 0 < b \<Longrightarrow> a \<noteq> b \<Longrightarrow> a * a \<noteq> b * (b::real)"
  using square_gap [of a b] square_gap [of b a] by (cases "a < b") auto

lemma secondary_materials [simp]: "0 < K_SUB" "0 < K_SOLDER" "0 < K_PCB"
  by (simp_all add: K_SUB_def K_SOLDER_def K_PCB_def RHO_SUB_def RHO_SOLDER_def RHO_PCB_def)

lemma getr_ok [simp, res_simps]: "k \<noteq> 0 \<Longrightarrow> a \<noteq> 0 \<Longrightarrow> getr k t a = Inr (t / (k * a))"
  by (simp add: getr_def)

lemma package_R_primary_ok:
  assumes "package_ok config w h"
  shows "\<exists>p'. package_R_primary config w h p = Inr p' \<and> pack_R_ok p'"
  using assms square_gap [of "s_spreader config" "s_sink config"]
  by (simp add: package_R_primary_def package_ok_def Let_def pack_R_ok_def)

text \<open>A sequence of statements that all return and keep a property.\<close>

definition keeps :: "('s \<Rightarrow> bool) \<Rightarrow> ('s \<Rightarrow> 's res) \<Rightarrow> bool" where
  "keeps P f \<longleftrightarrow> (\<forall>s. P s \<longrightarrow> (\<exists>s'. f s = Inr s' \<and> P s'))"

lemma keeps_in_order: "list_all (keeps P) fs \<Longrightarrow> keeps P (in_order fs)"
proof (induction fs)
  case (Cons f fs)
  show ?case
    unfolding keeps_def
  proof (intro allI impI)
    fix s assume "P s"
    then obtain s' where "f s = Inr s'" "P s'" using Cons.prems by (auto simp: keeps_def)
    then show "\<exists>t. in_order (f # fs) s = Inr t \<and> P t" using Cons by (auto simp: keeps_def)
  qed
qed (simp add: keeps_def)

lemma keeps_assign: "r = Inr x \<Longrightarrow> (\<And>s. P (put x s) = P s) \<Longrightarrow> keeps P (assign put r)"
  by (simp add: keeps_def)

definition primary_part :: "package_RC_t \<Rightarrow> real list" where
  "primary_part p = [r_sp1_x p, r_sp1_y p, r_hs1_x p, r_hs1_y p, r_hs2_x p, r_hs2_y p, r_hs p, r_sp_per_x p, r_sp_per_y p,
     r_hs_c_per_x p, r_hs_c_per_y p, r_hs_per p, r_amb_c_per_x p, r_amb_c_per_y p, r_amb_per p]"

lemma primary_part_pack_R_ok: "primary_part p = primary_part q \<Longrightarrow> pack_R_ok p = pack_R_ok q"
  by (simp add: primary_part_def pack_R_ok_def)

lemma package_R_secondary_ok:
  assumes "package_ok config w h"
  shows "\<exists>p'. package_R_secondary config w h p = Inr p' \<and> primary_part p' = primary_part p"
proof -
  have nz: "s_sub config + h \<noteq> 0" "s_sub config + w \<noteq> 0" "s_solder config + h \<noteq> 0" "s_solder config + w \<noteq> 0"
    "s_sub config + 3 * h \<noteq> 0" "s_sub config + 3 * w \<noteq> 0" "s_solder config + 3 * h \<noteq> 0" "s_solder config + 3 * w \<noteq> 0"
    "3 * s_solder config + h \<noteq> 0" "3 * s_solder config + w \<noteq> 0" "s_pcb config + 3 * s_solder config \<noteq> 0"
    "s_sub config - w \<noteq> 0" "s_sub config - h \<noteq> 0" "s_solder config - w \<noteq> 0" "s_solder config - h \<noteq> 0"
    "s_pcb config * s_pcb config - s_solder config * s_solder config \<noteq> 0"
    "t_sub config \<noteq> 0" "t_solder config \<noteq> 0" "t_pcb config \<noteq> 0"
    using assms square_neq [of "s_pcb config" "s_solder config"] unfolding package_ok_def by auto
  have "keeps (\<lambda>q. primary_part q = primary_part p) (package_R_secondary config w h)"
    unfolding package_R_secondary_def Let_def
    by (rule keeps_in_order, simp only: list.pred_inject simp_thms,
      (intro conjI; (rule keeps_assign, (rule getr_ok fdiv_ok; use nz secondary_materials [THEN less_imp_neq] in simp),
        simp add: primary_part_def)))
  then show ?thesis by (simp add: keeps_def)
qed

lemma populate_package_R_ok:
  assumes "package_ok config w h"
  shows "\<exists>p'. populate_package_R p config w h = Inr p' \<and> pack_R_ok p'"
proof -
  obtain p1 where p1: "package_R_primary config w h p = Inr p1" "pack_R_ok p1" using package_R_primary_ok [OF assms] by blast
  obtain p2 where p2: "package_R_secondary config w h p1 = Inr p2" "primary_part p2 = primary_part p1"
    using package_R_secondary_ok [OF assms] by blast
  show ?thesis
    using p1 p2 primary_part_pack_R_ok [OF p2(2)] by (intro exI [of _ p2]) (simp add: populate_package_R_def)
qed

lemma primary_values:
  "in_order [
     assign (\<lambda>x p. p\<lparr>r_sp1_x := x\<rparr>) (Inr v0),
     assign (\<lambda>x p. p\<lparr>r_sp1_y := x\<rparr>) (Inr v1),
     assign (\<lambda>x p. p\<lparr>r_hs1_x := x\<rparr>) (Inr v2),
     assign (\<lambda>x p. p\<lparr>r_hs1_y := x\<rparr>) (Inr v3),
     assign (\<lambda>x p. p\<lparr>r_hs2_x := x\<rparr>) (Inr v4),
     assign (\<lambda>x p. p\<lparr>r_hs2_y := x\<rparr>) (Inr v5),
     assign (\<lambda>x p. p\<lparr>r_hs := x\<rparr>) (Inr v6),
     assign (\<lambda>x p. p\<lparr>r_sp_per_x := x\<rparr>) (Inr v7),
     assign (\<lambda>x p. p\<lparr>r_sp_per_y := x\<rparr>) (Inr v8),
     assign (\<lambda>x p. p\<lparr>r_hs_c_per_x := x\<rparr>) (Inr v9),
     assign (\<lambda>x p. p\<lparr>r_hs_c_per_y := x\<rparr>) (Inr v10),
     assign (\<lambda>x p. p\<lparr>r_hs_per := x\<rparr>) (Inr v11),
     assign (\<lambda>x p. p\<lparr>r_amb_c_per_x := x\<rparr>) (Inr v12),
     assign (\<lambda>x p. p\<lparr>r_amb_c_per_y := x\<rparr>) (Inr v13),
     assign (\<lambda>x p. p\<lparr>r_amb_per := x\<rparr>) (Inr v14)] p = Inr p' \<Longrightarrow>
    primary_part p' = [v0, v1, v2, v3, v4, v5, v6, v7, v8, v9, v10, v11, v12, v13, v14]"
  by (auto simp: primary_part_def)

text \<open>The resistances between the package nodes and to the ambient.\<close>

lemma populate_package_R_values:
  assumes "package_ok c w h" "populate_package_R p c w h = Inr p'"
  shows "r_sp_per_x p' = t_spreader c / (k_spreader c * ((s_spreader c + h) * (s_spreader c - w) / 4))"
    "r_sp_per_y p' = t_spreader c / (k_spreader c * ((s_spreader c + w) * (s_spreader c - h) / 4))"
    "r_hs p' = (s_sink c - s_spreader c) / 4 / (k_sink c * ((s_sink c + 3 * s_spreader c) / 4 * t_sink c))"
    "r_hs2_x p' = (s_spreader c - w) / 4 / (k_sink c * ((3 * s_spreader c + h) / 4 * t_sink c))"
    "r_hs2_y p' = (s_spreader c - h) / 4 / (k_sink c * ((3 * s_spreader c + w) / 4 * t_sink c))"
    "r_hs_per p' = t_sink c / (k_sink c * ((s_sink c * s_sink c - s_spreader c * s_spreader c) / 4))"
    "r_amb_per p' = r_convec c * (s_sink c * s_sink c) / ((s_sink c * s_sink c - s_spreader c * s_spreader c) / 4)"
proof -
  have sq: "s_spreader c * s_spreader c < s_sink c * s_sink c"
    using assms(1) square_gap [of "s_spreader c" "s_sink c"] by (simp add: package_ok_def)
  obtain p1 where p1: "package_R_primary c w h p = Inr p1" using package_R_primary_ok [OF assms(1)] by blast
  have e: "primary_part p' = primary_part p1"
    using package_R_secondary_ok [OF assms(1), of p1] assms(2) p1 by (auto simp: populate_package_R_def)
  have nz: "k_spreader c \<noteq> 0" "k_sink c \<noteq> 0" "(s_spreader c + 3 * h) / 4 * t_spreader c \<noteq> 0"
    "(s_spreader c + 3 * w) / 4 * t_spreader c \<noteq> 0" "(s_spreader c + 3 * h) / 4 * t_sink c \<noteq> 0"
    "(s_spreader c + 3 * w) / 4 * t_sink c \<noteq> 0" "(3 * s_spreader c + h) / 4 * t_sink c \<noteq> 0"
    "(3 * s_spreader c + w) / 4 * t_sink c \<noteq> 0" "(s_sink c + 3 * s_spreader c) / 4 * t_sink c \<noteq> 0"
    "(s_spreader c + h) * (s_spreader c - w) / 4 \<noteq> 0" "(s_spreader c + w) * (s_spreader c - h) / 4 \<noteq> 0"
    "(s_sink c * s_sink c - s_spreader c * s_spreader c) / 4 \<noteq> 0"
    using assms(1) sq by (auto simp: package_ok_def)
  note v = p1 [unfolded package_R_primary_def Let_def getr_ok [OF nz(1,3)] getr_ok [OF nz(1,4)] getr_ok [OF nz(2,5)]
    getr_ok [OF nz(2,6)] getr_ok [OF nz(2,7)] getr_ok [OF nz(2,8)] getr_ok [OF nz(2,9)] getr_ok [OF nz(1,10)] getr_ok [OF nz(1,11)]
    getr_ok [OF nz(2,10)] getr_ok [OF nz(2,11)] getr_ok [OF nz(2,12)] fdiv_ok [OF nz(10)] fdiv_ok [OF nz(11)] fdiv_ok [OF nz(12)],
    THEN primary_values]
  from e [unfolded v, unfolded primary_part_def] show "r_sp_per_x p' = t_spreader c / (k_spreader c * ((s_spreader c + h) * (s_spreader c - w) / 4))"
    "r_sp_per_y p' = t_spreader c / (k_spreader c * ((s_spreader c + w) * (s_spreader c - h) / 4))"
    "r_hs p' = (s_sink c - s_spreader c) / 4 / (k_sink c * ((s_sink c + 3 * s_spreader c) / 4 * t_sink c))"
    "r_hs2_x p' = (s_spreader c - w) / 4 / (k_sink c * ((3 * s_spreader c + h) / 4 * t_sink c))"
    "r_hs2_y p' = (s_spreader c - h) / 4 / (k_sink c * ((3 * s_spreader c + w) / 4 * t_sink c))"
    "r_hs_per p' = t_sink c / (k_sink c * ((s_sink c * s_sink c - s_spreader c * s_spreader c) / 4))"
    "r_amb_per p' = r_convec c * (s_sink c * s_sink c) / ((s_sink c * s_sink c - s_spreader c * s_spreader c) / 4)"
    by simp_all
qed

end
