(* ===== verification/RK4.thy ===== *)
theory RK4
  imports Util_Base
begin

text \<open>
  The adaptive Runge Kutta solver of \<open>hotspot_tool/RCutil.c\<close>, as compiled without a vendor library.
  The slope function is a callback: with the model and the power vector supplied it takes the
  point and the array to fill.

  The Runge Kutta solver against its interface: a slope function that fills the array with a
  vector field, and one that is Lipschitz. The step is the classical formula, and a small
  enough step is accepted at the first attempt.
\<close>

type_synonym slope_fn = "real list \<Rightarrow> real list \<Rightarrow> real list res"

section \<open>One step\<close>

definition trial_point :: "nat \<Rightarrow> real list \<Rightarrow> real \<Rightarrow> real list \<Rightarrow> real list \<Rightarrow> real list res" where
  "trial_point n y h k t =
     for_up 0 n (\<lambda>i t. rbind (rd y i) (\<lambda>yi. rbind (rd k i) (\<lambda>ki. wr t i (yi + h * ki)))) t"

definition rk4_core :: "real list \<Rightarrow> real list \<Rightarrow> nat \<Rightarrow> real \<Rightarrow> real list \<Rightarrow> slope_fn \<Rightarrow> real list res" where
  "rk4_core y k1 n h yout f =
     rbind (trial_point n y (h / 2) k1 (dvector n)) (\<lambda>t.
     rbind (f t (dvector n)) (\<lambda>k2.
     rbind (trial_point n y (h / 2) k2 t) (\<lambda>t.
     rbind (f t (dvector n)) (\<lambda>k3.
     rbind (trial_point n y h k3 t) (\<lambda>t.
     rbind (f t (dvector n)) (\<lambda>k4.
     for_up 0 n (\<lambda>i yout.
       rbind (rd y i) (\<lambda>yi. rbind (rd k1 i) (\<lambda>a. rbind (rd k2 i) (\<lambda>b. rbind (rd k3 i) (\<lambda>c. rbind (rd k4 i) (\<lambda>d.
       wr yout i (yi + h * (a + 2 * b + 2 * c + d) / 6))))))) yout))))))"

section \<open>The step size\<close>

definition RK4_SAFETY :: real where "RK4_SAFETY = 95 / 100"
definition RK4_MAXUP :: real where "RK4_MAXUP = 5"
definition RK4_MAXDOWN :: real where "RK4_MAXDOWN = 10"
definition RK4_PRECISION :: real where "RK4_PRECISION = 1 / 100"

text \<open>
  The largest difference of the two results, which replaces the contents of \<open>t1\<close>.
\<close>

definition max_diff :: "nat \<Rightarrow> real list \<Rightarrow> real list \<Rightarrow> real list \<Rightarrow> (real \<times> real list) res" where
  "max_diff n ytemp t2 t1 =
     rbind (for_up 0 n (\<lambda>i t1. rbind (rd ytemp i) (\<lambda>a. rbind (rd t2 i) (\<lambda>b. wr t1 i \<bar>a - b\<bar>))) t1) (\<lambda>t1.
     rbind (rd t1 0) (\<lambda>m.
     rbind (for_up 1 n (\<lambda>i m. rbind (rd t1 i) (\<lambda>x. Inr (if m < x then x else m))) m) (\<lambda>m.
     Inr (m, t1))))"

text \<open>
  For a difference of 0 the quotient \<open>RK4_PRECISION / max\<close> is infinite, and with a positive step
  the bound \<open>RK4_MAXUP\<close> applies.
\<close>

definition next_step :: "real \<Rightarrow> real \<Rightarrow> real res" where
  "next_step h mx =
     (if mx \<le> RK4_PRECISION then
        if mx = 0 then (if 0 < h then Inr (RK4_MAXUP * h) else Inl NonFinite)
        else let new_h = RK4_SAFETY * h * \<bar>RK4_PRECISION / mx\<bar> powr (1 / 5)
             in Inr (if new_h > RK4_MAXUP * h then RK4_MAXUP * h else new_h)
      else let new_h = RK4_SAFETY * h * \<bar>RK4_PRECISION / mx\<bar> powr (1 / 4)
           in Inr (if new_h < h / RK4_MAXDOWN then h / RK4_MAXDOWN else new_h))"

section \<open>The adaptive solver\<close>

text \<open>
  One attempt with step \<open>h\<close> and slope \<open>k1\<close>: the result of the full step, the next step and the
  contents that \<open>k1\<close>, \<open>t1\<close> and \<open>t2\<close> are left with.
\<close>

type_synonym work = "real list \<times> real list \<times> real list \<times> real list"

definition rk4_attempt :: "real list \<Rightarrow> nat \<Rightarrow> slope_fn \<Rightarrow> real \<Rightarrow> work \<Rightarrow> (real \<times> work) res" where
  "rk4_attempt y n f h w = (case w of (k1, t1, t2, ytemp) \<Rightarrow>
     rbind (rk4_core y k1 n h ytemp f) (\<lambda>ytemp.
     rbind (rk4_core y k1 n (h / 2) t1 f) (\<lambda>t1.
     rbind (f t1 k1) (\<lambda>k1.
     rbind (rk4_core t1 k1 n (h / 2) t2 f) (\<lambda>t2.
     rbind (max_diff n ytemp t2 t1) (\<lambda>(mx, t1).
     rbind (next_step h mx) (\<lambda>new_h. Inr (new_h, k1, t1, t2, ytemp))))))))"

text \<open>The loop; a run that never accepts a step is \<open>None\<close>.\<close>

partial_function (option) rk4_loop ::
  "real list \<Rightarrow> nat \<Rightarrow> slope_fn \<Rightarrow> real \<Rightarrow> work \<Rightarrow> (real \<times> real \<times> work) res option" where
  "rk4_loop y n f h w = (case rk4_attempt y n f h w of
     Inl e \<Rightarrow> Some (Inl e)
   | Inr (new_h, w') \<Rightarrow> if new_h < h then rk4_loop y n f new_h w' else Some (Inr (new_h, h, w')))"

text \<open>The step for the next call, the step taken and the solution.\<close>

definition rk4 :: "real list \<Rightarrow> nat \<Rightarrow> real \<Rightarrow> real list \<Rightarrow> slope_fn \<Rightarrow> (real \<times> real \<times> real list) res option" where
  "rk4 y n h yout f = (case f y (dvector n) of
     Inl e \<Rightarrow> Some (Inl e)
   | Inr k1 \<Rightarrow> (case rk4_loop y n f h (k1, dvector n, dvector n, dvector n) of
       None \<Rightarrow> None
     | Some (Inl e) \<Rightarrow> Some (Inl e)
     | Some (Inr (new_h, h, _, _, _, ytemp)) \<Rightarrow>
         Some (rbind (copy_dvector yout ytemp n) (\<lambda>yout. Inr (new_h, h, yout)))))"

section \<open>The classical formula\<close>

definition axpy :: "nat \<Rightarrow> real list \<Rightarrow> real \<Rightarrow> real list \<Rightarrow> real list" where
  "axpy n y h k = map (\<lambda>i. y ! i + h * k ! i) [0..<n]"

definition rk4_value :: "nat \<Rightarrow> (real list \<Rightarrow> real list) \<Rightarrow> real list \<Rightarrow> real list \<Rightarrow> real \<Rightarrow> real list" where
  "rk4_value n F y k1 h =
     (let k2 = F (axpy n y (h / 2) k1); k3 = F (axpy n y (h / 2) k2); k4 = F (axpy n y h k3)
      in map (\<lambda>i. y ! i + h * (k1 ! i + 2 * k2 ! i + 2 * k3 ! i + k4 ! i) / 6) [0..<n])"

lemma axpy_simps [simp]: "length (axpy n y h k) = n" "i < n \<Longrightarrow> axpy n y h k ! i = y ! i + h * k ! i"
  by (simp_all add: axpy_def)

lemma rk4_value_length [simp]: "length (rk4_value n F y k1 h) = n"
  by (simp add: rk4_value_def Let_def)

text \<open>A loop that writes every cell of an array from data it does not write.\<close>

lemma fill_loop:
  assumes "length t = n" "\<And>i t. i < n \<Longrightarrow> length t = n \<Longrightarrow> body i t = wr t i (g i)"
  shows "for_up 0 n body t = Inr (map g [0..<n])"
proof -
  have "\<exists>t'. for_up 0 n body t = Inr t' \<and> length t' = n \<and> (\<forall>j < n. t' ! j = g j)"
    by (rule for_up_rule [where I = "\<lambda>i t'. length t' = n \<and> (\<forall>j < i. t' ! j = g j)"])
      (use assms in \<open>auto simp: less_Suc_eq nth_list_update\<close>)
  then obtain t' where "for_up 0 n body t = Inr t'" "length t' = n" "\<forall>j < n. t' ! j = g j" by blast
  moreover from this have "t' = map g [0..<n]" by (intro nth_equalityI) auto
  ultimately show ?thesis by simp
qed

lemma trial_point_ok:
  assumes "length y = n" "length k = n" "length t = n"
  shows "trial_point n y h k t = Inr (axpy n y h k)"
  unfolding trial_point_def axpy_def by (rule fill_loop) (use assms in auto)

lemma max_diff_ok:
  assumes "length a = n" "length b = n" "length t = n" "0 < n"
  shows "\<exists>m d. max_diff n a b t = Inr (m, d) \<and> length d = n \<and> (\<exists>i < n. m = \<bar>a ! i - b ! i\<bar>) \<and>
    (\<forall>i < n. \<bar>a ! i - b ! i\<bar> \<le> m)"
proof -
  let ?d = "map (\<lambda>i. \<bar>a ! i - b ! i\<bar>) [0..<n]"
  have d: "for_up 0 n (\<lambda>i t1. rbind (rd a i) (\<lambda>x. rbind (rd b i) (\<lambda>y. wr t1 i \<bar>x - y\<bar>))) t = Inr ?d"
    by (rule fill_loop) (use assms in auto)
  have "\<exists>m. for_up 1 n (\<lambda>i m. rbind (rd ?d i) (\<lambda>x. Inr (if m < x then x else m))) \<bar>a ! 0 - b ! 0\<bar> = Inr m \<and>
      (\<exists>i < n. m = \<bar>a ! i - b ! i\<bar>) \<and> (\<forall>i < n. \<bar>a ! i - b ! i\<bar> \<le> m)"
    by (rule for_up_rule [where I = "\<lambda>k m. (\<exists>i < k. m = \<bar>a ! i - b ! i\<bar>) \<and> (\<forall>i < k. \<bar>a ! i - b ! i\<bar> \<le> m)"])
      (use assms(4) in \<open>auto simp: less_Suc_eq\<close>)
  then obtain m where "for_up 1 n (\<lambda>i m. rbind (rd ?d i) (\<lambda>x. Inr (if m < x then x else m))) \<bar>a ! 0 - b ! 0\<bar> = Inr m"
    "(\<exists>i < n. m = \<bar>a ! i - b ! i\<bar>) \<and> (\<forall>i < n. \<bar>a ! i - b ! i\<bar> \<le> m)" by blast
  then show ?thesis using d assms(4) by (simp add: max_diff_def rd_def)
qed

section \<open>Slope functions\<close>

locale slope_field =
  fixes f :: slope_fn and F :: "real list \<Rightarrow> real list" and n :: nat
  assumes slope: "length y = n \<Longrightarrow> length dy = n \<Longrightarrow> f y dy = Inr (F y)"
    and slope_length: "length y = n \<Longrightarrow> length (F y) = n"
begin

lemma rk4_core_value:
  assumes "length y = n" "length k1 = n" "length yout = n"
  shows "rk4_core y k1 n h yout f = Inr (rk4_value n F y k1 h)"
proof -
  let ?k2 = "F (axpy n y (h / 2) k1)"
  let ?k3 = "F (axpy n y (h / 2) ?k2)"
  let ?k4 = "F (axpy n y h ?k3)"
  have "for_up 0 n (\<lambda>i yout. rbind (rd y i) (\<lambda>yi. rbind (rd k1 i) (\<lambda>a. rbind (rd ?k2 i) (\<lambda>b. rbind (rd ?k3 i) (\<lambda>c.
      rbind (rd ?k4 i) (\<lambda>d. wr yout i (yi + h * (a + 2 * b + 2 * c + d) / 6))))))) yout =
    Inr (rk4_value n F y k1 h)"
    unfolding rk4_value_def Let_def by (rule fill_loop) (use assms slope_length in auto)
  then show ?thesis
    using assms by (simp add: rk4_core_def trial_point_ok slope slope_length dvector_def)
qed

text \<open>Where the slope is zero the step stays.\<close>

lemma rk4_value_steady:
  assumes "length y = n" "F y = replicate n 0"
  shows "rk4_value n F y (F y) h = y"
proof -
  have "axpy n y c (replicate n 0) = y" for c
    using assms(1) by (intro nth_equalityI) auto
  then show ?thesis using assms by (intro nth_equalityI) (simp_all add: rk4_value_def Let_def)
qed

text \<open>
  What one attempt leaves: the difference of the full step and the two half steps decides, and
  \<open>k1\<close> has become the slope at the end of the first half step.
\<close>

lemma rk4_attempt_value:
  fixes y k1 h
  defines "full \<equiv> rk4_value n F y k1 h" and "half \<equiv> rk4_value n F y k1 (h / 2)"
  defines "both \<equiv> rk4_value n F half (F half) (h / 2)"
  assumes "length y = n" "length k1 = n" "length t1 = n" "length t2 = n" "length yt = n" "0 < n"
  shows "\<exists>mx d. rk4_attempt y n f h (k1, t1, t2, yt) = rbind (next_step h mx) (\<lambda>new_h. Inr (new_h, F half, d, both, full)) \<and>
    length d = n \<and> (\<exists>i < n. mx = \<bar>full ! i - both ! i\<bar>) \<and> (\<forall>i < n. \<bar>full ! i - both ! i\<bar> \<le> mx)"
proof -
  have len: "length full = n" "length half = n" "length both = n" by (simp_all add: full_def half_def both_def)
  obtain mx d where "max_diff n full both half = Inr (mx, d)" "length d = n" "\<exists>i < n. mx = \<bar>full ! i - both ! i\<bar>"
    "\<forall>i < n. \<bar>full ! i - both ! i\<bar> \<le> mx"
    using max_diff_ok [OF len(1,3,2) assms(9)] by blast
  moreover have "rk4_attempt y n f h (k1, t1, t2, yt) = rbind (max_diff n full both half) (\<lambda>(mx, t1).
      rbind (next_step h mx) (\<lambda>new_h. Inr (new_h, F half, t1, both, full)))"
    using assms(4-8) len slope [OF len(2) assms(5)]
    by (simp add: rk4_attempt_def rk4_core_value slope_length full_def half_def both_def)
  ultimately show ?thesis by (intro exI [of _ mx] exI [of _ d]) simp
qed

end

section \<open>Small steps\<close>

definition bounded_by :: "nat \<Rightarrow> real list \<Rightarrow> real \<Rightarrow> bool" where
  "bounded_by n v K \<longleftrightarrow> (\<forall>i < n. \<bar>v ! i\<bar> \<le> K)"

definition near :: "nat \<Rightarrow> real list \<Rightarrow> real list \<Rightarrow> real \<Rightarrow> bool" where
  "near n u v d \<longleftrightarrow> (\<forall>i < n. \<bar>u ! i - v ! i\<bar> \<le> d)"

lemma fifth_root: "0 < x \<Longrightarrow> (x ^ 5) powr (1 / 5) = (x::real)"
proof -
  assume x: "0 < x"
  have e: "x ^ 5 = x powr 5" using x by simp
  have "(x ^ 5) powr (1 / 5) = x powr (5 * (1 / 5))" unfolding e powr_powr by (rule refl)
  then show ?thesis using x by simp
qed

text \<open>A difference below three quarters of the precision never shrinks the step.\<close>

lemma next_step_accepts:
  assumes "0 < h" "0 \<le> mx" "mx \<le> 3 / 4 * RK4_PRECISION"
  shows "\<exists>new_h. next_step h mx = Inr new_h \<and> h \<le> new_h \<and> new_h \<le> RK4_MAXUP * h"
proof (cases "mx = 0")
  case True
  then show ?thesis using assms(1) by (simp add: next_step_def RK4_PRECISION_def RK4_MAXUP_def)
next
  case False
  with assms(2) have mx: "0 < mx" by simp
  have "4 / 3 \<le> RK4_PRECISION / mx" using assms(3) mx by (simp add: pos_le_divide_eq)
  then have "4 / 3 \<le> \<bar>RK4_PRECISION / mx\<bar>" by linarith
  then have "(4 / 3) powr (1 / 5) \<le> \<bar>RK4_PRECISION / mx\<bar> powr (1 / 5)"
    by (intro powr_mono2) auto
  moreover have "100 / 95 \<le> (4 / 3 :: real) powr (1 / 5)"
  proof -
    have "((100 / 95 :: real) ^ 5) powr (1 / 5) \<le> (4 / 3) powr (1 / 5)"
      by (intro powr_mono2) (simp_all add: eval_nat_numeral)
    then show ?thesis by (simp only: fifth_root zero_less_divide_iff zero_less_numeral simp_thms)
  qed
  ultimately have "100 / 95 \<le> \<bar>RK4_PRECISION / mx\<bar> powr (1 / 5)" by linarith
  then have "RK4_SAFETY * h * (100 / 95) \<le> RK4_SAFETY * h * \<bar>RK4_PRECISION / mx\<bar> powr (1 / 5)"
    using assms(1) by (intro mult_left_mono) (simp_all add: RK4_SAFETY_def)
  then have "h \<le> RK4_SAFETY * h * \<bar>RK4_PRECISION / mx\<bar> powr (1 / 5)" by (simp add: RK4_SAFETY_def)
  moreover have "h \<le> RK4_MAXUP * h" using assms(1) by (simp add: RK4_MAXUP_def)
  moreover have "mx \<le> RK4_PRECISION" using assms(3) by (simp add: RK4_PRECISION_def)
  ultimately show ?thesis using False by (simp add: next_step_def Let_def)
qed

locale lipschitz_field = slope_field +
  fixes L :: real
  assumes L_nonneg: "0 \<le> L"
    and lipschitz: "length u = n \<Longrightarrow> length v = n \<Longrightarrow> near n u v d \<Longrightarrow> near n (F u) (F v) (L * d)"
begin

lemma slope_near:
  assumes "length y = n" "bounded_by n (F y) G" "bounded_by n k K" "0 \<le> h" "h * L \<le> 1" "0 \<le> K" "0 \<le> c" "c \<le> 1"
  shows "bounded_by n (F (axpy n y (c * h) k)) (G + c * K)"
proof -
  have "\<bar>axpy n y (c * h) k ! i - y ! i\<bar> \<le> c * h * K" if "i < n" for i
  proof -
    have "\<bar>c * h * k ! i\<bar> = c * h * \<bar>k ! i\<bar>" using assms(4,7) by (simp add: abs_mult)
    also have "\<dots> \<le> c * h * K" using assms(3,4,7) that by (intro mult_left_mono) (simp_all add: bounded_by_def)
    finally show ?thesis using that by simp
  qed
  then have n: "near n (F (axpy n y (c * h) k)) (F y) (L * (c * h * K))"
    using assms(1) by (intro lipschitz) (simp_all add: near_def)
  have "L * (c * h * K) = (h * L) * (c * K)" by simp
  also have "\<dots> \<le> 1 * (c * K)" using assms(5,6,7) by (intro mult_right_mono) simp_all
  finally have e: "L * (c * h * K) \<le> c * K" by simp
  have "\<bar>F (axpy n y (c * h) k) ! i\<bar> \<le> G + c * K" if "i < n" for i
    using n assms(2) that e by (fastforce simp: near_def bounded_by_def)
  then show ?thesis by (simp add: bounded_by_def)
qed

text \<open>How far a step of length \<open>h\<close> with slopes bounded by \<open>G\<close> can lead.\<close>

lemma rk4_value_near:
  assumes "length y = n" "bounded_by n (F y) G" "0 \<le> G" "0 \<le> h" "h * L \<le> 1"
  shows "near n (rk4_value n F y (F y) h) y (3 * h * G)"
proof -
  let ?k2 = "F (axpy n y (h / 2) (F y))"
  let ?k3 = "F (axpy n y (h / 2) ?k2)"
  let ?k4 = "F (axpy n y h ?k3)"
  have b2: "bounded_by n ?k2 (3 / 2 * G)"
    using slope_near [OF assms(1,2,2,4,5,3), of "1 / 2"] by simp
  have b3: "bounded_by n ?k3 (7 / 4 * G)"
    using slope_near [OF assms(1,2) b2 assms(4,5), of "1 / 2"] assms(3) by simp
  have b4: "bounded_by n ?k4 (11 / 4 * G)"
    using slope_near [OF assms(1,2) b3 assms(4,5), of 1] assms(3) by simp
  have "\<bar>rk4_value n F y (F y) h ! i - y ! i\<bar> \<le> 3 * h * G" if i: "i < n" for i
  proof -
    let ?s = "F y ! i + 2 * ?k2 ! i + 2 * ?k3 ! i + ?k4 ! i"
    have "\<bar>?s\<bar> \<le> 18 * G"
      using assms(2) [unfolded bounded_by_def, rule_format, OF i] b2 [unfolded bounded_by_def, rule_format, OF i]
        b3 [unfolded bounded_by_def, rule_format, OF i] b4 [unfolded bounded_by_def, rule_format, OF i] assms(3)
      by linarith
    then have "h * \<bar>?s\<bar> \<le> h * (18 * G)" using assms(4) by (rule mult_left_mono)
    then have "\<bar>h * ?s / 6\<bar> \<le> h * (18 * G) / 6"
      using assms(4) by (simp only: abs_divide abs_mult abs_of_nonneg abs_numeral divide_right_mono zero_le_numeral)
    then show ?thesis using i by (simp add: rk4_value_def Let_def mult.commute)
  qed
  then show ?thesis by (simp add: near_def)
qed

lemma near_triangle: "near n u v a \<Longrightarrow> near n v w b \<Longrightarrow> near n u w (a + b)"
  unfolding near_def by (smt (verit))

lemma near_sym: "near n u v d = near n v u d"
  by (simp add: near_def abs_minus_commute)

text \<open>
  A step so small that neither the field nor its change along the step exceeds the precision is
  accepted at once.
\<close>

lemma rk4_accepts:
  assumes "length y = n" "length yout = n" "0 < n" "bounded_by n (F y) G" "0 \<le> G"
    and "0 < h" "h * L \<le> 1" "33 / 4 * h * G \<le> 3 / 4 * RK4_PRECISION"
  shows "\<exists>new_h. rk4 y n h yout f = Some (Inr (new_h, h, rk4_value n F y (F y) h)) \<and> h \<le> new_h \<and> new_h \<le> RK4_MAXUP * h"
proof -
  let ?full = "rk4_value n F y (F y) h" and ?half = "rk4_value n F y (F y) (h / 2)"
  let ?both = "rk4_value n F ?half (F ?half) (h / 2)"
  have h: "0 \<le> h" "0 \<le> h / 2" "h / 2 * L \<le> 1" using assms(6,7) L_nonneg by auto
  have full: "near n ?full y (3 * h * G)" by (rule rk4_value_near [OF assms(1,4,5) h(1) assms(7)])
  have half: "near n ?half y (3 * (h / 2) * G)" by (rule rk4_value_near [OF assms(1,4,5) h(2,3)])
  have nf: "near n (F ?half) (F y) (L * (3 * (h / 2) * G))"
    using assms(1) half by (intro lipschitz) simp_all
  have lg: "L * (3 * (h / 2) * G) \<le> 3 / 2 * G"
    using mult_right_mono [OF assms(7,5)] by (simp add: algebra_simps)
  have "\<bar>F ?half ! i\<bar> \<le> 5 / 2 * G" if i: "i < n" for i
    using nf [unfolded near_def, rule_format, OF i] assms(4) [unfolded bounded_by_def, rule_format, OF i] lg by linarith
  then have "bounded_by n (F ?half) (5 / 2 * G)" by (simp add: bounded_by_def)
  then have "near n ?both ?half (3 * (h / 2) * (5 / 2 * G))"
    using assms(5) by (intro rk4_value_near h) simp_all
  from near_triangle [OF this half]
  have "near n y ?both (3 * (h / 2) * (5 / 2 * G) + 3 * (h / 2) * G)" by (simp add: near_sym)
  from near_triangle [OF full this] have near: "near n ?full ?both (33 / 4 * h * G)" by (simp add: algebra_simps)
  obtain mx d where a: "rk4_attempt y n f h (F y, dvector n, dvector n, dvector n) =
      rbind (next_step h mx) (\<lambda>new_h. Inr (new_h, F ?half, d, ?both, ?full))" "\<exists>i < n. mx = \<bar>?full ! i - ?both ! i\<bar>"
    using rk4_attempt_value [OF assms(1) slope_length [OF assms(1)], of "dvector n" "dvector n" "dvector n" h] assms(3)
    by (auto simp: dvector_def)
  then have "0 \<le> mx" "mx \<le> 33 / 4 * h * G" using near by (auto simp: near_def)
  then obtain new_h where nh: "next_step h mx = Inr new_h" "h \<le> new_h" "new_h \<le> RK4_MAXUP * h"
    using next_step_accepts [OF assms(6)] assms(8) by fastforce
  then have "rk4_loop y n f h (F y, dvector n, dvector n, dvector n) = Some (Inr (new_h, h, F ?half, d, ?both, ?full))"
    using a(1) by (subst rk4_loop.simps) simp
  then have "rk4 y n h yout f = Some (Inr (new_h, h, ?full))"
    using assms(1,2) slope [OF assms(1), of "dvector n"]
    by (simp add: rk4_def dvector_def copy_dvector_def copy_vector_def)
  with nh show ?thesis by blast
qed

end

end
