(* ===== verification/Block.thy ===== *)
theory Block
  imports Package_RC Flp RK4
begin

text \<open>
  The block model of \<open>hotspot_tool/temperature_block.c\<close>: one node per block in each of the four
  layers (silicon, interface, spreader, sink) and the \<open>EXTRA\<close> nodes of the package. The model
  holds a pointer to its floorplan: floorplans live in a store from addresses to their
  contents, and pointers are compared as addresses.
\<close>

definition NL :: nat where "NL = 4"
definition IFACE :: nat where "IFACE = 1"
definition HSP :: nat where "HSP = 2"
definition HSINK :: nat where "HSINK = 3"

lemmas layer_defs = NL_def IFACE_def HSP_def HSINK_def

type_synonym flp_store = "nat \<Rightarrow> flp_t"

text \<open>The arrays of the lumped lateral conductances of the four layers.\<close>

record lateral_t =
  gx :: "real list"
  gy :: "real list"
  gx_int :: "real list"
  gy_int :: "real list"
  gx_sp :: "real list"
  gy_sp :: "real list"
  gx_hs :: "real list"
  gy_hs :: "real list"

record block_model_t =
  bm_flp :: nat
  bm_config :: thermal_config_t
  bm_b :: dmat
  bm_lu :: dmat
  bm_p :: "nat list"
  bm_a :: "real list"
  bm_inva :: "real list"
  bm_c :: dmat
  bm_pack :: package_RC_t
  bm_lateral :: lateral_t
  bm_g_amb :: "real list"
  bm_t_vector :: "real list"
  bm_len :: dmat
  bm_g :: dmat
  bm_border :: "nat list list"
  bm_n_nodes :: nat
  bm_n_units :: nat
  bm_base_n_units :: nat
  bm_r_ready :: bool
  bm_c_ready :: bool

section \<open>Allocation\<close>

definition lateral_zero :: "nat \<Rightarrow> lateral_t" where
  "lateral_zero n = \<lparr>gx = dvector n, gy = dvector n, gx_int = dvector n, gy_int = dvector n,
     gx_sp = dvector n, gy_sp = dvector n, gx_hs = dvector n, gy_hs = dvector n\<rparr>"

text \<open>The model is allocated with \<open>calloc\<close>: what is not set is zero.\<close>

definition package_zero :: package_RC_t where
  "package_zero = \<lparr>r_sp1_x = 0, r_sp1_y = 0, r_hs1_x = 0, r_hs1_y = 0, r_hs2_x = 0, r_hs2_y = 0, r_hs = 0,
     r_sp_per_x = 0, r_sp_per_y = 0, r_hs_c_per_x = 0, r_hs_c_per_y = 0, r_hs_per = 0, c_sp_per_x = 0, c_sp_per_y = 0,
     c_hs_c_per_x = 0, c_hs_c_per_y = 0, c_hs_per = 0, r_amb_c_per_x = 0, c_amb_c_per_x = 0, r_amb_c_per_y = 0,
     c_amb_c_per_y = 0, r_amb_per = 0, c_amb_per = 0, r_sub1_x = 0, r_sub1_y = 0, r_solder1_x = 0, r_solder1_y = 0,
     r_pcb1_x = 0, r_pcb1_y = 0, r_pcb2_x = 0, r_pcb2_y = 0, r_pcb = 0, r_sub_per_x = 0, r_sub_per_y = 0,
     r_solder_per_x = 0, r_solder_per_y = 0, r_pcb_c_per_x = 0, r_pcb_c_per_y = 0, r_pcb_per = 0, c_sub_per_x = 0,
     c_sub_per_y = 0, c_solder_per_x = 0, c_solder_per_y = 0, c_pcb_c_per_x = 0, c_pcb_c_per_y = 0, c_pcb_per = 0,
     r_amb_sec_c_per_x = 0, c_amb_sec_c_per_x = 0, r_amb_sec_c_per_y = 0, c_amb_sec_c_per_y = 0, r_amb_sec_per = 0,
     c_amb_sec_per = 0\<rparr>"

definition alloc_block_model :: "flp_store \<Rightarrow> thermal_config_t \<Rightarrow> nat \<Rightarrow> block_model_t" where
  "alloc_block_model fs config placeholder =
     (let n = n_units (fs placeholder); m = NL * n + EXTRA in
      \<lparr>bm_flp = placeholder, bm_config = config, bm_b = dmatrix m m, bm_lu = dmatrix m m, bm_p = replicate m 0,
       bm_a = dvector m, bm_inva = dvector m, bm_c = dmatrix m m, bm_pack = package_zero, bm_lateral = lateral_zero n,
       bm_g_amb = dvector (n + EXTRA), bm_t_vector = dvector m, bm_len = dmatrix n n, bm_g = dmatrix m m,
       bm_border = replicate n (replicate 4 0), bm_n_nodes = m, bm_n_units = n, bm_base_n_units = n,
       bm_r_ready = False, bm_c_ready = False\<rparr>)"

section \<open>Conductances of the blocks\<close>

text \<open>From the centre of a block to its side, in a layer of the given conductivity and thickness.\<close>

definition lateral_x :: "real \<Rightarrow> real \<Rightarrow> unit_t \<Rightarrow> real res" where
  "lateral_x k t u = rbind (getr k (width u / 2) (height u * t)) (fdiv 1)"

definition lateral_y :: "real \<Rightarrow> real \<Rightarrow> unit_t \<Rightarrow> real res" where
  "lateral_y k t u = rbind (getr k (height u / 2) (width u * t)) (fdiv 1)"

definition lput :: "(lateral_t \<Rightarrow> real list) \<Rightarrow> ((real list \<Rightarrow> real list) \<Rightarrow> lateral_t \<Rightarrow> lateral_t) \<Rightarrow>
    nat \<Rightarrow> real res \<Rightarrow> lateral_t \<Rightarrow> lateral_t res" where
  "lput get upd i r l = rbind r (\<lambda>v. rbind (wr (get l) i v) (\<lambda>xs. Inr (upd (\<lambda>_. xs) l)))"

definition unit_lateral :: "thermal_config_t \<Rightarrow> flp_t \<Rightarrow> nat \<Rightarrow> lateral_t \<Rightarrow> lateral_t res" where
  "unit_lateral config flp i l = rbind (rd (units flp) i) (\<lambda>u.
     in_order [
       lput gx gx_update i (if block_omit_lateral config \<noteq> 0 then Inr 0 else lateral_x (k_chip config) (t_chip config) u),
       lput gy gy_update i (if block_omit_lateral config \<noteq> 0 then Inr 0 else lateral_y (k_chip config) (t_chip config) u),
       lput gx_int gx_int_update i (lateral_x (k_interface config) (t_interface config) u),
       lput gy_int gy_int_update i (lateral_y (k_interface config) (t_interface config) u),
       lput gx_sp gx_sp_update i (lateral_x (k_spreader config) (t_spreader config) u),
       lput gy_sp gy_sp_update i (lateral_y (k_spreader config) (t_spreader config) u),
       lput gx_hs gx_hs_update i (lateral_x (k_sink config) (t_sink config) u),
       lput gy_hs gy_hs_update i (lateral_y (k_sink config) (t_sink config) u)] l)"

text \<open>An assignment \<open>m[i][j] = m[j][i] = v\<close>.\<close>

definition mset_pair :: "nat \<Rightarrow> nat \<Rightarrow> real \<Rightarrow> dmat \<Rightarrow> dmat res" where
  "mset_pair i j v m = rbind (mset_at m j i v) (\<lambda>m. mset_at m i j v)"

definition fill_len :: "flp_t \<Rightarrow> nat \<Rightarrow> dmat \<Rightarrow> dmat res" where
  "fill_len flp n len =
     for_up 0 n (\<lambda>i len. for_up i n (\<lambda>j len. rbind (get_shared_len flp i j) (\<lambda>v. mset_pair i j v len)) len) len"

text \<open>
  The sides of the chip that a block lies on, and the sums of the conductances of the blocks
  along each side: a side is a column of \<open>border\<close> with the sums in the spreader and in the sink.
\<close>

type_synonym sides = "nat list list \<times> (nat \<Rightarrow> real) \<times> (nat \<Rightarrow> real)"

definition border_side :: "nat \<Rightarrow> nat \<Rightarrow> bool \<Rightarrow> real \<Rightarrow> real \<Rightarrow> sides \<Rightarrow> sides res" where
  "border_side i side on sp hs st = (case st of (border, g_sp, g_hs) \<Rightarrow>
     if on then rbind (wr2 border i side 1) (\<lambda>border.
       Inr (border, g_sp(side := g_sp side + sp), g_hs(side := g_hs side + hs)))
     else rbind (wr2 border i side 0) (\<lambda>border. Inr (border, g_sp, g_hs)))"

definition unit_border :: "lateral_t \<Rightarrow> flp_t \<Rightarrow> real \<Rightarrow> real \<Rightarrow> nat \<Rightarrow> sides \<Rightarrow> sides res" where
  "unit_border l flp w_chip l_chip i st =
     rbind (rd (units flp) i) (\<lambda>u.
     rbind (rd (gx_sp l) i) (\<lambda>xs. rbind (rd (gy_sp l) i) (\<lambda>ys.
     rbind (rd (gx_hs l) i) (\<lambda>xh. rbind (rd (gy_hs l) i) (\<lambda>yh.
     in_order [
       border_side i 2 (eq (bottomy u + height u) l_chip) ys yh,
       border_side i 3 (eq (bottomy u) 0) ys yh,
       border_side i 1 (eq (leftx u + width u) w_chip) xs xh,
       border_side i 0 (eq (leftx u) 0) xs xh] st)))))"

section \<open>Conductances between nodes\<close>

text \<open>The share per unit length of the neighbours' edge in one layer.\<close>

definition edge_part :: "bool \<Rightarrow> bool \<Rightarrow> unit_t \<Rightarrow> real list \<Rightarrow> real list \<Rightarrow> nat \<Rightarrow> real res" where
  "edge_part h v u xs ys i =
     (if h then rbind (rd xs i) (\<lambda>g. fdiv g (height u))
      else if v then rbind (rd ys i) (\<lambda>g. fdiv g (width u)) else Inr 0)"

definition layer_edges :: "lateral_t \<Rightarrow> flp_t \<Rightarrow> dmat \<Rightarrow> nat \<Rightarrow> nat \<Rightarrow> nat \<Rightarrow> dmat \<Rightarrow> dmat res" where
  "layer_edges l flp len n i j g =
     rbind (rd (units flp) i) (\<lambda>u.
     rbind (is_horiz_adj flp i j) (\<lambda>h.
     rbind (if h then Inr False else is_vert_adj flp i j) (\<lambda>v.
     rbind (edge_part h v u (gx l) (gy l) i) (\<lambda>part.
     rbind (edge_part h v u (gx_int l) (gy_int l) i) (\<lambda>part_int.
     rbind (edge_part h v u (gx_sp l) (gy_sp l) i) (\<lambda>part_sp.
     rbind (edge_part h v u (gx_hs l) (gy_hs l) i) (\<lambda>part_hs.
     rbind (mget len i j) (\<lambda>s.
     in_order [
       \<lambda>g. mset_at g i j (part * s),
       \<lambda>g. mset_at g (IFACE * n + i) (IFACE * n + j) (part_int * s),
       \<lambda>g. mset_at g (HSP * n + i) (HSP * n + j) (part_sp * s),
       \<lambda>g. mset_at g (HSINK * n + i) (HSINK * n + j) (part_hs * s)] g))))))))"

text \<open>Twice the conductance: the matrix takes the series of both directions.\<close>

definition vertical_g :: "real \<Rightarrow> real \<Rightarrow> real \<Rightarrow> real res" where
  "vertical_g k t ar = rbind (getr k t ar) (fdiv 2)"

text \<open>From a block on a side of the chip to the package node of that side.\<close>

definition side_g :: "nat list list \<Rightarrow> nat \<Rightarrow> nat \<Rightarrow> real \<Rightarrow> real \<Rightarrow> real \<Rightarrow> real res" where
  "side_g border i side gi r tot =
     rbind (rd2 border i side) (\<lambda>b. rbind (fdiv 1 gi) (\<lambda>x. rbind (fdiv (r * tot) gi) (\<lambda>y.
     fdiv (2 * real b) (x + y))))"

definition put_pair :: "nat \<Rightarrow> nat \<Rightarrow> real res \<Rightarrow> dmat \<Rightarrow> dmat res" where
  "put_pair i j r g = rbind r (\<lambda>v. mset_pair i j v g)"

definition unit_vertical :: "thermal_config_t \<Rightarrow> nat \<Rightarrow> nat \<Rightarrow> real \<Rightarrow> dmat \<Rightarrow> dmat res" where
  "unit_vertical config n i ar = in_order [
     put_pair i (IFACE * n + i) (vertical_g (k_chip config) (t_chip config) ar),
     put_pair (IFACE * n + i) (HSP * n + i) (vertical_g (k_interface config) (t_interface config) ar),
     put_pair (HSP * n + i) (HSINK * n + i) (vertical_g (k_spreader config) (t_spreader config) ar)]"

definition unit_ambient :: "thermal_config_t \<Rightarrow> real \<Rightarrow> real res" where
  "unit_ambient config ar =
     rbind (fdiv (r_convec config * (s_sink config * s_sink config)) ar) (\<lambda>r_amb.
     rbind (getr (k_sink config) (t_sink config) ar) (\<lambda>r. fdiv 1 (r + r_amb)))"

definition unit_package :: "package_RC_t \<Rightarrow> lateral_t \<Rightarrow> sides \<Rightarrow> nat \<Rightarrow> nat \<Rightarrow> dmat \<Rightarrow> dmat res" where
  "unit_package pack l st n i g = (case st of (border, g_sp, g_hs) \<Rightarrow>
     rbind (rd (gx_sp l) i) (\<lambda>xs. rbind (rd (gy_sp l) i) (\<lambda>ys.
     rbind (rd (gx_hs l) i) (\<lambda>xh. rbind (rd (gy_hs l) i) (\<lambda>yh.
     in_order [
       put_pair (HSP * n + i) (NL * n + SP_N) (side_g border i 2 ys (r_sp1_y pack) (g_sp 2)),
       put_pair (HSP * n + i) (NL * n + SP_S) (side_g border i 3 ys (r_sp1_y pack) (g_sp 3)),
       put_pair (HSP * n + i) (NL * n + SP_E) (side_g border i 1 xs (r_sp1_x pack) (g_sp 1)),
       put_pair (HSP * n + i) (NL * n + SP_W) (side_g border i 0 xs (r_sp1_x pack) (g_sp 0)),
       put_pair (HSINK * n + i) (NL * n + SINK_C_N) (side_g border i 2 yh (r_hs1_y pack) (g_hs 2)),
       put_pair (HSINK * n + i) (NL * n + SINK_C_S) (side_g border i 3 yh (r_hs1_y pack) (g_hs 3)),
       put_pair (HSINK * n + i) (NL * n + SINK_C_E) (side_g border i 1 xh (r_hs1_x pack) (g_hs 1)),
       put_pair (HSINK * n + i) (NL * n + SINK_C_W) (side_g border i 0 xh (r_hs1_x pack) (g_hs 0))] g)))))"

definition unit_conductances :: "thermal_config_t \<Rightarrow> package_RC_t \<Rightarrow> lateral_t \<Rightarrow> flp_t \<Rightarrow> dmat \<Rightarrow> sides \<Rightarrow> nat \<Rightarrow>
    nat \<Rightarrow> dmat \<times> real list \<Rightarrow> (dmat \<times> real list) res" where
  "unit_conductances config pack l flp len st n i gs = (case gs of (g, g_amb) \<Rightarrow>
     rbind (rd (units flp) i) (\<lambda>u. let ar = height u * width u in
     rbind (for_up 0 n (layer_edges l flp len n i) g) (\<lambda>g.
     rbind (unit_vertical config n i ar g) (\<lambda>g.
     rbind (unit_ambient config ar) (\<lambda>v. rbind (wr g_amb i v) (\<lambda>g_amb.
     rbind (unit_package pack l st n i g) (\<lambda>g. Inr (g, g_amb))))))))"

text \<open>The package nodes among themselves and to the ambient.\<close>

definition package_conductances :: "package_RC_t \<Rightarrow> nat \<Rightarrow> dmat \<Rightarrow> dmat res" where
  "package_conductances pack n = in_order [
     put_pair (NL * n + SP_N) (NL * n + SINK_C_N) (fdiv 2 (r_sp_per_y pack)),
     put_pair (NL * n + SP_S) (NL * n + SINK_C_S) (fdiv 2 (r_sp_per_y pack)),
     put_pair (NL * n + SP_E) (NL * n + SINK_C_E) (fdiv 2 (r_sp_per_x pack)),
     put_pair (NL * n + SP_W) (NL * n + SINK_C_W) (fdiv 2 (r_sp_per_x pack)),
     put_pair (NL * n + SINK_C_N) (NL * n + SINK_N) (fdiv 2 (r_hs pack + r_hs2_y pack)),
     put_pair (NL * n + SINK_C_S) (NL * n + SINK_S) (fdiv 2 (r_hs pack + r_hs2_y pack)),
     put_pair (NL * n + SINK_C_E) (NL * n + SINK_E) (fdiv 2 (r_hs pack + r_hs2_x pack)),
     put_pair (NL * n + SINK_C_W) (NL * n + SINK_W) (fdiv 2 (r_hs pack + r_hs2_x pack))]"

definition vput :: "nat \<Rightarrow> real res \<Rightarrow> real list \<Rightarrow> real list res" where
  "vput i r xs = rbind r (wr xs i)"

definition package_ambient :: "package_RC_t \<Rightarrow> nat \<Rightarrow> real list \<Rightarrow> real list res" where
  "package_ambient pack n = in_order [
     vput (n + SINK_C_S) (fdiv 1 (r_hs_c_per_y pack + r_amb_c_per_y pack)),
     vput (n + SINK_C_N) (fdiv 1 (r_hs_c_per_y pack + r_amb_c_per_y pack)),
     vput (n + SINK_C_W) (fdiv 1 (r_hs_c_per_x pack + r_amb_c_per_x pack)),
     vput (n + SINK_C_E) (fdiv 1 (r_hs_c_per_x pack + r_amb_c_per_x pack)),
     vput (n + SINK_W) (fdiv 1 (r_hs_per pack + r_amb_per pack)),
     vput (n + SINK_E) (fdiv 1 (r_hs_per pack + r_amb_per pack)),
     vput (n + SINK_S) (fdiv 1 (r_hs_per pack + r_amb_per pack)),
     vput (n + SINK_N) (fdiv 1 (r_hs_per pack + r_amb_per pack))]"

section \<open>The matrix\<close>

definition fill_b :: "dmat \<Rightarrow> nat \<Rightarrow> dmat \<Rightarrow> dmat res" where
  "fill_b g m b =
     for_up 0 m (\<lambda>i b. for_up 0 i (\<lambda>j b.
       rbind (mget g i j) (\<lambda>x. rbind (mget g j i) (\<lambda>y.
       if x = 0 \<or> y = 0 then mset_pair i j 0 b
       else rbind (fdiv 1 x) (\<lambda>p. rbind (fdiv 1 y) (\<lambda>q. rbind (fdiv (- 1) (p + q)) (\<lambda>v.
         mset_pair i j v b)))))) b) b"

definition fill_diag :: "real list \<Rightarrow> nat \<Rightarrow> nat \<Rightarrow> dmat \<Rightarrow> dmat res" where
  "fill_diag g_amb n i b =
     rbind (if HSINK * n \<le> i \<and> i < NL * n then rd g_amb (i mod n)
       else if NL * n + SINK_C_W \<le> i then rd g_amb (n + i - NL * n) else Inr 0) (\<lambda>v.
     rbind (mset_at b i i v) (\<lambda>b.
     for_up 0 (NL * n + EXTRA) (\<lambda>j b.
       if i \<noteq> j then rbind (mget b i i) (\<lambda>x. rbind (mget b i j) (\<lambda>y. mset_at b i i (x - y))) else Inr b) b))"

definition populate_R_model_block :: "flp_store \<Rightarrow> block_model_t \<Rightarrow> nat \<Rightarrow> block_model_t res" where
  "populate_R_model_block fs model fp =
    (let flp = fs fp; config = bm_config model; n = n_units flp; m = NL * n + EXTRA in
     rbind (get_total_width flp) (\<lambda>w_chip. rbind (get_total_height flp) (\<lambda>l_chip.
     if w_chip > s_sink config \<or> l_chip > s_sink config \<or> w_chip > s_spreader config \<or> l_chip > s_spreader config
     then Inl (Fatal ''inordinate floorplan size!'')
     else if bm_flp model \<noteq> fp \<or> bm_n_units model \<noteq> n \<or> bm_n_nodes model \<noteq> m
     then Inl (Fatal ''mismatch between the floorplan and the thermal model'')
     else
     rbind (for_up 0 n (unit_lateral config flp) (bm_lateral model)) (\<lambda>l.
     rbind (fill_len flp n (bm_len model)) (\<lambda>len.
     rbind (populate_package_R (bm_pack model) config w_chip l_chip) (\<lambda>pack.
     rbind (for_up 0 n (unit_border l flp w_chip l_chip) (bm_border model, \<lambda>_. 0, \<lambda>_. 0)) (\<lambda>st.
     rbind (zero_dmatrix (bm_g model) m m) (\<lambda>g.
     rbind (zero_dvector (bm_g_amb model) (n + EXTRA)) (\<lambda>g_amb.
     rbind (for_up 0 n (unit_conductances config pack l flp len st n) (g, g_amb)) (\<lambda>(g, g_amb).
     rbind (package_conductances pack n g) (\<lambda>g.
     rbind (package_ambient pack n g_amb) (\<lambda>g_amb.
     rbind (fill_b g m (bm_b model)) (\<lambda>b.
     rbind (for_up 0 m (fill_diag g_amb n) b) (\<lambda>b.
     rbind (copy_dmatrix (bm_lu model) b m m) (\<lambda>lu.
     rbind (lupdcmp lu m (bm_p model) True) (\<lambda>(lu, p).
     Inr (model\<lparr>bm_lateral := l, bm_len := len, bm_pack := pack, bm_border := fst st, bm_g := g, bm_g_amb := g_amb,
       bm_b := b, bm_lu := lu, bm_p := p, bm_flp := fp, bm_r_ready := True\<rparr>)))))))))))))))))"

end
