(* ===== verification/LUP_Cond.thy ===== *)
theory LUP_Cond
  imports LUP_Props
begin

text \<open>
  The decomposition of conductance matrices: symmetric, no positive entry off the diagonal, no
  negative row sum, and every node connected to a later node or to the outside by a
  conductance that reaches the tolerance. No row is ever exchanged and the decomposition
  never stops.
\<close>

section \<open>Conductance matrices\<close>

text \<open>
  The square of \<open>F\<close> from \<open>k\<close> on. \<open>leak\<close> is the conductance of a row to the outside.
\<close>

definition leak :: "nat \<Rightarrow> nat \<Rightarrow> (nat \<Rightarrow> nat \<Rightarrow> real) \<Rightarrow> nat \<Rightarrow> real" where
  "leak k n F i = (\<Sum>j = k..<n. F i j)"

definition conductive :: "nat \<Rightarrow> nat \<Rightarrow> real \<Rightarrow> (nat \<Rightarrow> nat \<Rightarrow> real) \<Rightarrow> bool" where
  "conductive k n d F \<longleftrightarrow>
     (\<forall>i j. k \<le> i \<and> i < n \<and> k \<le> j \<and> j < n \<longrightarrow> F i j = F j i \<and> (i \<noteq> j \<longrightarrow> F i j \<le> 0)) \<and>
     (\<forall>i. k \<le> i \<and> i < n \<longrightarrow> 0 \<le> leak k n F i \<and>
        (d \<le> leak k n F i \<or> (\<exists>j. i < j \<and> j < n \<and> F i j \<le> - d)))"

lemma conductiveD:
  assumes "conductive k n d F" "k \<le> i" "i < n"
  shows "k \<le> j \<Longrightarrow> j < n \<Longrightarrow> F i j = F j i" "k \<le> j \<Longrightarrow> j < n \<Longrightarrow> i \<noteq> j \<Longrightarrow> F i j \<le> 0" "0 \<le> leak k n F i"
    "d \<le> leak k n F i \<or> (\<exists>j. i < j \<and> j < n \<and> F i j \<le> - d)"
  using assms unfolding conductive_def by blast+

lemma leak_split:
  assumes "k \<le> i" "i < n"
  shows "leak k n F i = F i i + (\<Sum>j \<in> {k..<n} - {i}. F i j)"
  unfolding leak_def using assms by (intro sum.remove) auto

text \<open>The diagonal entry is at least the tolerance and the largest of its row.\<close>

lemma conductive_diag:
  assumes c: "conductive k n d F" and i: "k \<le> i" "i < n"
  shows "d \<le> F i i" "k \<le> j \<Longrightarrow> j < n \<Longrightarrow> i \<noteq> j \<Longrightarrow> \<bar>F i j\<bar> \<le> F i i"
proof -
  have l: "leak k n F i = F i i + (\<Sum>j \<in> {k..<n} - {i}. F i j)" by (rule leak_split [OF i])
  have np: "\<forall>j \<in> {k..<n} - {i}. F i j \<le> 0" using conductiveD(2) [OF c i] by auto
  have le: "(\<Sum>j \<in> {k..<n} - {i}. F i j) \<le> F i j" if "k \<le> j" "j < n" "i \<noteq> j" for j
  proof -
    have "(\<Sum>j \<in> {k..<n} - {i}. F i j) = F i j + (\<Sum>j \<in> {k..<n} - {i} - {j}. F i j)"
      using that by (intro sum.remove) auto
    moreover have "(\<Sum>j \<in> {k..<n} - {i} - {j}. F i j) \<le> 0" using np by (intro sum_nonpos) auto
    ultimately show ?thesis by simp
  qed
  have s: "(\<Sum>j \<in> {k..<n} - {i}. F i j) \<le> 0" using np by (intro sum_nonpos) auto
  from conductiveD(4) [OF c i] show "d \<le> F i i"
  proof
    assume "d \<le> leak k n F i"
    with l s show ?thesis by simp
  next
    assume "\<exists>j. i < j \<and> j < n \<and> F i j \<le> - d"
    then obtain j where "i < j" "j < n" "F i j \<le> - d" by blast
    with le [of j] l conductiveD(3) [OF c i] i show ?thesis by simp
  qed
  assume j: "k \<le> j" "j < n" "i \<noteq> j"
  then show "\<bar>F i j\<bar> \<le> F i i" using le [OF j] l conductiveD(3) [OF c i] np by simp
qed

section \<open>A step\<close>

text \<open>The first row of the greatest entry is the row of the diagonal.\<close>

lemma find_pivot_diag:
  assumes "reads_as a n F" "k < n" "0 < F k k" "\<And>i. k < i \<Longrightarrow> i < n \<Longrightarrow> \<bar>F i k\<bar> \<le> F k k"
  shows "find_pivot a n k pivot = Inr (F k k, k)"
proof -
  have "\<exists>t. find_pivot a n k pivot = Inr t \<and> (if n = k then t = (0, pivot) else t = (F k k, k))"
    unfolding find_pivot_def
  proof (rule for_up_rule [where I = "\<lambda>i t. if i = k then t = (0, pivot) else t = (F k k, k)"])
    fix i and t :: "real \<times> nat"
    assume i: "k \<le> i" "i < n" "if i = k then t = (0, pivot) else t = (F k k, k)"
    then show "\<exists>t'. (case t of (mx, pivot) \<Rightarrow> rbind (mget a i k) (\<lambda>x.
       Inr (if \<bar>x\<bar> > mx then (\<bar>x\<bar>, i) else (mx, pivot)))) = Inr t' \<and>
       (if Suc i = k then t' = (0, pivot) else t' = (F k k, k))"
      using assms(3) assms(4) [of i] reads_as_get [OF assms(1) i(2) assms(2)] by (cases "i = k") auto
  qed (use assms in auto)
  with assms(2) show ?thesis by auto
qed

lemma lup_step_diag:
  assumes "reads_as a n F" "permutes_idx p n" "k < n" "conductive k n d F" "DELTA \<le> d"
  shows "\<exists>a'. lup_step n k (a, p, pivot) = Inr (a', p, k) \<and> reads_as a' n (eliminated k F)"
proof -
  have d: "d \<le> F k k" using conductive_diag(1) [OF assms(4) order_refl assms(3)] .
  then have pos: "0 < F k k" using assms(5) DELTA_pos by linarith
  have "\<bar>F i k\<bar> \<le> F k k" if "k < i" "i < n" for i
    using conductive_diag(2) [OF assms(4) order_refl assms(3), of i] conductiveD(1) [OF assms(4) order_refl assms(3), of i] that
    by simp
  with pos have f: "find_pivot a n k pivot = Inr (F k k, k)" by (intro find_pivot_diag [OF assms(1,3)])
  have e: "\<not> eq (F k k) 0" using d assms(5) DELTA_pos by (simp add: eq_def)
  have len: "length p = n" using assms(2) by (simp add: permutes_idx_def)
  obtain a1 where a1: "swap_rows a n k k = Inr a1" "reads_as a1 n (\<lambda>i j. if i = k then F k j else if i = k then F k j else F i j)"
    using swap_rows_ok [OF assms(1,3,3)] by blast
  have r1: "reads_as a1 n F" by (rule reads_as_cong [OF a1(2)]) auto
  obtain a2 where a2: "for_up (k + 1) n (eliminate_row n k) a1 = Inr a2" "reads_as a2 n (eliminated k F)"
    using eliminate_ok [OF r1 assms(3)] pos by auto
  then show ?thesis
    using f e a1(1) permutes_idx_swap(1) [OF assms(2,3,3)] by (simp add: lup_step_def)
qed

text \<open>Eliminating a node leaves a conductance matrix of the other nodes.\<close>

lemma eliminated_sum:
  assumes "k < i" "k < n"
  shows "leak (Suc k) n (eliminated k F) i = leak k n F i - F i k / F k k * leak k n F k - (F i k - F i k / F k k * F k k)"
proof -
  have "leak (Suc k) n (eliminated k F) i = (\<Sum>j = Suc k..<n. F i j - F i k / F k k * F k j)"
    unfolding leak_def by (rule sum.cong) (use assms in \<open>auto simp: eliminated_def\<close>)
  also have "\<dots> = (\<Sum>j = Suc k..<n. F i j) - F i k / F k k * (\<Sum>j = Suc k..<n. F k j)"
    by (simp add: sum_subtractf sum_distrib_left)
  finally show ?thesis
    using assms(2) by (simp add: leak_def sum.atLeast_Suc_lessThan algebra_simps)
qed

lemma conductive_eliminated:
  assumes c: "conductive k n d F" and k: "k < n" and d: "0 < d"
  shows "conductive (Suc k) n d (eliminated k F)"
proof -
  have pos: "0 < F k k" using conductive_diag(1) [OF c order_refl k] d by linarith
  have col: "F i k \<le> 0" "F k i = F i k" if "k < i" "i < n" for i
    using conductiveD(1,2) [OF c order_refl k, of i] that by auto
  have less: "eliminated k F i j \<le> F i j" if "k < i" "i < n" "k < j" "j < n" for i j
  proof -
    have "0 \<le> F i k * F k j / F k k"
      using col [OF that(1,2)] col [OF that(3,4)] pos by (intro divide_nonneg_pos mult_nonpos_nonpos) simp_all
    then show ?thesis using that by (simp add: eliminated_def)
  qed
  have leak: "leak k n F i \<le> leak (Suc k) n (eliminated k F) i" if "k < i" "i < n" for i
  proof -
    have "F i k / F k k * leak k n F k \<le> 0"
      using col [OF that] pos conductiveD(3) [OF c order_refl k] by (intro mult_nonpos_nonneg divide_nonpos_pos)
    then show ?thesis using eliminated_sum [OF that(1) k, of F] pos by simp
  qed
  have "eliminated k F i j = eliminated k F j i \<and> (i \<noteq> j \<longrightarrow> eliminated k F i j \<le> 0)"
    if ij: "Suc k \<le> i" "i < n" "Suc k \<le> j" "j < n" for i j
  proof -
    have i: "k \<le> i" "k < i" and j: "k \<le> j" "k < j" using ij by auto
    have "F i j = F j i" "i \<noteq> j \<Longrightarrow> F i j \<le> 0" using conductiveD(1,2) [OF c i(1) ij(2) j(1) ij(4)] by auto
    then show ?thesis
      using less [OF i(2) ij(2) j(2) ij(4)] col(2) [OF i(2) ij(2)] col(2) [OF j(2) ij(4)] i j by (auto simp: eliminated_def)
  qed
  moreover have "0 \<le> leak (Suc k) n (eliminated k F) i \<and> (d \<le> leak (Suc k) n (eliminated k F) i \<or>
      (\<exists>j. i < j \<and> j < n \<and> eliminated k F i j \<le> - d))" if i: "Suc k \<le> i" "i < n" for i
  proof -
    have i': "k \<le> i" "k < i" using i by auto
    have "eliminated k F i j \<le> F i j" if "i < j" "j < n" for j using less [OF i'(2) i(2), of j] i' that by simp
    then show ?thesis
      using conductiveD(3,4) [OF c i'(1) i(2)] leak [OF i'(2) i(2)] by (meson order_trans)
  qed
  ultimately show ?thesis unfolding conductive_def by blast
qed

section \<open>The decomposition\<close>

lemma conductive_eliminated_diag: "eliminated k F k j = F k j" "i < k \<Longrightarrow> eliminated k F i j = F i j"
  by (simp_all add: eliminated_def)

lemma lupdcmp_conductive:
  assumes "dmat_ok a n n" "length p = n" "conductive 0 n d (mat_at a)" "DELTA \<le> d"
  shows "\<exists>lu. lupdcmp a n p spd = Inr (lu, [0..<n]) \<and> dmat_ok lu n n \<and> permutes_idx [0..<n] n \<and>
    factored n n (mat_at a) [0..<n] (mat_at lu) \<and> (\<forall>i < n. d \<le> mat_at lu i i)"
proof -
  let ?I = "\<lambda>k (st :: dmat \<times> nat list \<times> nat). fst (snd st) = [0..<n] \<and> dmat_ok (fst st) n n \<and>
    conductive k n d (mat_at (fst st)) \<and> (\<forall>i < k. d \<le> mat_at (fst st) i i)"
  have perm: "permutes_idx [0..<n] n" by (auto simp: permutes_idx_def)
  have d: "0 < d" using assms(4) DELTA_pos by linarith
  have "\<exists>t. for_up 0 (n - 1) (lup_step n) (a, [0..<n], 0) = Inr t \<and> ?I (n - 1) t"
  proof (rule for_up_rule [where I = ?I])
    fix k st assume k: "k < n - 1" and I: "?I k st"
    obtain b pv where st: "st = (b, [0..<n], pv)" using I by (cases st) auto
    have kn: "k < n" using k by simp
    have b: "reads_as b n (mat_at b)" "conductive k n d (mat_at b)" "\<forall>i < k. d \<le> mat_at b i i"
      using I by (auto simp: st intro: reads_as_self)
    obtain b' where b': "lup_step n k st = Inr (b', [0..<n], k)" "reads_as b' n (eliminated k (mat_at b))"
      using lup_step_diag [OF b(1) perm kn b(2) assms(4), of pv] by (auto simp: st)
    let ?G = "mat_at b'" and ?E = "eliminated k (mat_at b)"
    have GE: "?G i j = ?E i j" if "i < n" "j < n" for i j using b'(2) that by (simp add: reads_as_def)
    have "leak (Suc k) n ?G i = leak (Suc k) n ?E i" if "i < n" for i
      unfolding leak_def by (rule sum.cong) (use GE that in auto)
    then have "conductive (Suc k) n d ?G"
      using conductive_eliminated [OF b(2) kn d] GE by (auto simp: conductive_def)
    moreover have "d \<le> ?G i i" if "i < Suc k" for i
      using b(3) conductive_diag(1) [OF b(2) order_refl kn] GE [of i i] that kn
      by (auto simp: less_Suc_eq conductive_eliminated_diag)
    ultimately have "?I (Suc k) (b', [0..<n], k)" using b'(2) by (simp add: reads_as_def)
    with b'(1) show "\<exists>t'. lup_step n k st = Inr t' \<and> ?I (Suc k) t'" by blast
  qed (use assms in auto)
  then obtain lu pv where lu: "for_up 0 (n - 1) (lup_step n) (a, [0..<n], 0) = Inr (lu, [0..<n], pv)"
    "dmat_ok lu n n" "conductive (n - 1) n d (mat_at lu)" "\<forall>i < n - 1. d \<le> mat_at lu i i" by auto
  have r: "lupdcmp a n p spd = Inr (lu, [0..<n])" using lu(1) identity_perm [OF assms(2)] by (simp add: lupdcmp_def)
  then have "factored n n (mat_at a) [0..<n] (mat_at lu)" using lupdcmp_ok [OF assms(1,2), of spd] by auto
  moreover have "d \<le> mat_at lu i i" if "i < n" for i
  proof (cases "i = n - 1")
    case True
    then show ?thesis using conductive_diag(1) [OF lu(3), of i] that by simp
  qed (use lu(4) that in auto)
  ultimately show ?thesis using r lu(2) perm by blast
qed

text \<open>Factors without a zero pivot: the matrix is not singular.\<close>

lemma factored_nonsingular:
  assumes f: "factored n n A p F" "permutes_idx p n" and d: "\<forall>i < n. F i i \<noteq> 0"
  shows "nonsingular n A"
  unfolding nonsingular_def
proof (intro allI impI)
  fix z j assume z: "\<forall>i < n. (\<Sum>j < n. A i j * z j) = 0" and j: "j < n"
  have up: "(\<Sum>j = i..<n. F i j * z j) = 0" if "i < n" for i
    using that
  proof (induction i rule: less_induct)
    case (less i)
    have "p ! i < n" using f(2) less.prems nth_mem [of i p] by (auto simp: permutes_idx_def)
    then have "(\<Sum>j < n. A (p ! i) j * z j) = 0" using z by blast
    moreover have "(\<Sum>l < i. F i l * (\<Sum>j = l..<n. F l j * z j)) = 0"
      using less by (intro sum.neutral) auto
    ultimately show ?case using factored_row [OF f(1) less.prems, of z] by simp
  qed
  have "z (n - 1 - m) = 0" if "m < n" for m
    using that
  proof (induction m rule: less_induct)
    case (less m)
    let ?i = "n - 1 - m"
    have i: "?i < n" using less.prems by simp
    have "z l = 0" if "l \<in> {Suc ?i..<n}" for l
      using less.IH [of "n - 1 - l"] that less.prems by force
    then have "(\<Sum>j = Suc ?i..<n. F ?i j * z j) = 0" by (intro sum.neutral) simp
    then have "F ?i ?i * z ?i = 0" using up [OF i] i by (simp add: sum.atLeast_Suc_lessThan)
    then show ?case using d i by simp
  qed
  from this [of "n - 1 - j"] j show "z j = 0" by simp
qed

end
