(* ===== verification/Block_Net.thy ===== *)
theory Block_Net
  imports Block LUP_Cond Flp_Motion
begin

text \<open>
  The conductances that \<open>populate_R_model_block\<close> computes: what each loop leaves, first the
  lateral arrays, the shared lengths and the borders, then the matrix of conductances between
  nodes, which is never negative and connects every node to the ambient.
\<close>

section \<open>Chips\<close>

definition chip_ok :: "flp_t \<Rightarrow> bool" where
  "chip_ok flp \<longleftrightarrow> flp_ok flp \<and> (\<forall>i < n_units flp. 0 < width (units flp ! i) \<and> 0 < height (units flp ! i))"

definition layers_ok :: "thermal_config_t \<Rightarrow> bool" where
  "layers_ok config \<longleftrightarrow> 0 < t_chip config \<and> 0 < k_chip config \<and> 0 < t_interface config \<and> 0 < k_interface config \<and>
     0 < t_spreader config \<and> 0 < k_spreader config \<and> 0 < t_sink config \<and> 0 < k_sink config"

lemma chip_unit:
  assumes "chip_ok flp" "i < n_units flp"
  shows "rd (units flp) i = Inr (units flp ! i)" "0 < width (units flp ! i)" "0 < height (units flp ! i)" "i < length (units flp)"
  using assms by (auto simp: chip_ok_def flp_ok_def)

section \<open>Lateral conductances\<close>

lemma lateral_ok:
  assumes "0 < k" "0 < t" "0 < width u" "0 < height u"
  shows "lateral_x k t u = Inr (2 * (k * (height u * t)) / width u)"
    "lateral_y k t u = Inr (2 * (k * (width u * t)) / height u)"
  using assms by (simp_all add: lateral_x_def lateral_y_def)

definition side_x :: "real \<Rightarrow> real \<Rightarrow> unit_t \<Rightarrow> real" where
  "side_x k t u = 2 * (k * (height u * t)) / width u"

definition side_y :: "real \<Rightarrow> real \<Rightarrow> unit_t \<Rightarrow> real" where
  "side_y k t u = 2 * (k * (width u * t)) / height u"

definition lateral_of :: "thermal_config_t \<Rightarrow> flp_t \<Rightarrow> lateral_t" where
  "lateral_of c flp = (let us = map (\<lambda>i. units flp ! i) [0..<n_units flp]; om = block_omit_lateral c \<noteq> 0 in
     \<lparr>gx = map (\<lambda>u. if om then 0 else side_x (k_chip c) (t_chip c) u) us,
      gy = map (\<lambda>u. if om then 0 else side_y (k_chip c) (t_chip c) u) us,
      gx_int = map (side_x (k_interface c) (t_interface c)) us, gy_int = map (side_y (k_interface c) (t_interface c)) us,
      gx_sp = map (side_x (k_spreader c) (t_spreader c)) us, gy_sp = map (side_y (k_spreader c) (t_spreader c)) us,
      gx_hs = map (side_x (k_sink c) (t_sink c)) us, gy_hs = map (side_y (k_sink c) (t_sink c)) us\<rparr>)"

text \<open>A list whose first \<open>i\<close> cells are those of another one.\<close>

definition agrees :: "nat \<Rightarrow> 'a list \<Rightarrow> 'a list \<Rightarrow> bool" where
  "agrees i xs ys \<longleftrightarrow> length xs = length ys \<and> (\<forall>j < i. xs ! j = ys ! j)"

lemma agrees_step: "agrees i xs ys \<Longrightarrow> i < length ys \<Longrightarrow> ys ! i = v \<Longrightarrow> agrees (Suc i) (xs[i := v]) ys"
  by (auto simp: agrees_def less_Suc_eq nth_list_update)

lemma agrees_all: "agrees (length ys) xs ys \<Longrightarrow> xs = ys"
  by (rule nth_equalityI) (auto simp: agrees_def)

definition lateral_agrees :: "nat \<Rightarrow> lateral_t \<Rightarrow> lateral_t \<Rightarrow> bool" where
  "lateral_agrees i l m \<longleftrightarrow> agrees i (gx l) (gx m) \<and> agrees i (gy l) (gy m) \<and> agrees i (gx_int l) (gx_int m) \<and>
     agrees i (gy_int l) (gy_int m) \<and> agrees i (gx_sp l) (gx_sp m) \<and> agrees i (gy_sp l) (gy_sp m) \<and>
     agrees i (gx_hs l) (gx_hs m) \<and> agrees i (gy_hs l) (gy_hs m)"

lemma lateral_of_lengths:
  "length (gx (lateral_of c flp)) = n_units flp" "length (gy (lateral_of c flp)) = n_units flp"
  "length (gx_int (lateral_of c flp)) = n_units flp" "length (gy_int (lateral_of c flp)) = n_units flp"
  "length (gx_sp (lateral_of c flp)) = n_units flp" "length (gy_sp (lateral_of c flp)) = n_units flp"
  "length (gx_hs (lateral_of c flp)) = n_units flp" "length (gy_hs (lateral_of c flp)) = n_units flp"
  by (simp_all add: lateral_of_def Let_def)

lemma lateral_of_nth:
  assumes "i < n_units flp"
  shows "gx (lateral_of c flp) ! i = (if block_omit_lateral c \<noteq> 0 then 0 else side_x (k_chip c) (t_chip c) (units flp ! i))"
    "gy (lateral_of c flp) ! i = (if block_omit_lateral c \<noteq> 0 then 0 else side_y (k_chip c) (t_chip c) (units flp ! i))"
    "gx_int (lateral_of c flp) ! i = side_x (k_interface c) (t_interface c) (units flp ! i)"
    "gy_int (lateral_of c flp) ! i = side_y (k_interface c) (t_interface c) (units flp ! i)"
    "gx_sp (lateral_of c flp) ! i = side_x (k_spreader c) (t_spreader c) (units flp ! i)"
    "gy_sp (lateral_of c flp) ! i = side_y (k_spreader c) (t_spreader c) (units flp ! i)"
    "gx_hs (lateral_of c flp) ! i = side_x (k_sink c) (t_sink c) (units flp ! i)"
    "gy_hs (lateral_of c flp) ! i = side_y (k_sink c) (t_sink c) (units flp ! i)"
  using assms by (simp_all add: lateral_of_def Let_def)

lemma unit_lateral_ok:
  assumes "chip_ok flp" "layers_ok c" "i < n_units flp" "lateral_agrees i l (lateral_of c flp)"
  shows "\<exists>l'. unit_lateral c flp i l = Inr l' \<and> lateral_agrees (Suc i) l' (lateral_of c flp)"
proof -
  note u = chip_unit [OF assms(1,3)]
  have k: "lateral_x (k_chip c) (t_chip c) (units flp ! i) = Inr (side_x (k_chip c) (t_chip c) (units flp ! i))"
    "lateral_y (k_chip c) (t_chip c) (units flp ! i) = Inr (side_y (k_chip c) (t_chip c) (units flp ! i))"
    "lateral_x (k_interface c) (t_interface c) (units flp ! i) = Inr (side_x (k_interface c) (t_interface c) (units flp ! i))"
    "lateral_y (k_interface c) (t_interface c) (units flp ! i) = Inr (side_y (k_interface c) (t_interface c) (units flp ! i))"
    "lateral_x (k_spreader c) (t_spreader c) (units flp ! i) = Inr (side_x (k_spreader c) (t_spreader c) (units flp ! i))"
    "lateral_y (k_spreader c) (t_spreader c) (units flp ! i) = Inr (side_y (k_spreader c) (t_spreader c) (units flp ! i))"
    "lateral_x (k_sink c) (t_sink c) (units flp ! i) = Inr (side_x (k_sink c) (t_sink c) (units flp ! i))"
    "lateral_y (k_sink c) (t_sink c) (units flp ! i) = Inr (side_y (k_sink c) (t_sink c) (units flp ! i))"
    using assms(2) u unfolding layers_ok_def side_x_def side_y_def by (simp_all only: lateral_ok)
  have len: "length (gx l) = n_units flp" "length (gy l) = n_units flp" "length (gx_int l) = n_units flp"
    "length (gy_int l) = n_units flp" "length (gx_sp l) = n_units flp" "length (gy_sp l) = n_units flp"
    "length (gx_hs l) = n_units flp" "length (gy_hs l) = n_units flp"
    using assms(4) by (simp_all add: lateral_agrees_def agrees_def lateral_of_lengths)
  show ?thesis
    using assms(3,4) u(1) len
    by (simp add: unit_lateral_def lput_def k lateral_agrees_def agrees_step lateral_of_lengths lateral_of_nth)
qed

lemma lateral_loop:
  assumes "chip_ok flp" "layers_ok c" "lateral_agrees 0 l (lateral_of c flp)"
  shows "for_up 0 (n_units flp) (unit_lateral c flp) l = Inr (lateral_of c flp)"
proof -
  have "\<exists>l'. for_up 0 (n_units flp) (unit_lateral c flp) l = Inr l' \<and> lateral_agrees (n_units flp) l' (lateral_of c flp)"
    by (rule for_up_rule [where I = "\<lambda>i l. lateral_agrees i l (lateral_of c flp)"])
      (use assms unit_lateral_ok in auto)
  then obtain l' where l': "for_up 0 (n_units flp) (unit_lateral c flp) l = Inr l'"
    "lateral_agrees (n_units flp) l' (lateral_of c flp)" by blast
  have "l' = lateral_of c flp"
    using l'(2) agrees_all lateral_of_lengths [of c flp] unfolding lateral_agrees_def by (metis (mono_tags) lateral_t.equality unit.exhaust)
  with l'(1) show ?thesis by simp
qed

lemma lateral_zero_agrees: "lateral_agrees 0 (lateral_zero (n_units flp)) (lateral_of c flp)"
  by (simp add: lateral_agrees_def agrees_def lateral_zero_def lateral_of_lengths dvector_def)

text \<open>Every entry is positive, except those of the silicon layer when they are left out.\<close>

lemma side_pos: "0 < k \<Longrightarrow> 0 < t \<Longrightarrow> 0 < width u \<Longrightarrow> 0 < height u \<Longrightarrow> 0 < side_x k t u \<and> 0 < side_y k t u"
  by (simp add: side_x_def side_y_def)

section \<open>Shared lengths\<close>

definition shared :: "flp_t \<Rightarrow> nat \<Rightarrow> nat \<Rightarrow> real" where
  "shared flp i j = (let u = units flp ! i; v = units flp ! j in
     if i = j then 0
     else if horiz_adj u v then min (topy u) (topy v) - max (bottomy u) (bottomy v)
     else if vert_adj u v then min (rightx u) (rightx v) - max (leftx u) (leftx v) else 0)"

lemma shared_sym: "shared flp i j = shared flp j i"
  unfolding shared_def Let_def horiz_adj_sym [of "units flp ! j"] vert_adj_sym [of "units flp ! j"]
  by (auto simp: min.commute max.commute)

lemma shared_ok:
  assumes "chip_ok flp" "i < n_units flp" "j < n_units flp"
  shows "get_shared_len flp i j = Inr (shared flp i j)" "0 \<le> shared flp i j"
    "is_horiz_adj flp i j = Inr (i \<noteq> j \<and> horiz_adj (units flp ! i) (units flp ! j))"
    "is_vert_adj flp i j = Inr (i \<noteq> j \<and> vert_adj (units flp ! i) (units flp ! j))"
proof -
  note i = chip_unit [OF assms(1,2)] and j = chip_unit [OF assms(1,3)]
  show h: "is_horiz_adj flp i j = Inr (i \<noteq> j \<and> horiz_adj (units flp ! i) (units flp ! j))"
    "is_vert_adj flp i j = Inr (i \<noteq> j \<and> vert_adj (units flp ! i) (units flp ! j))"
    using i j by (simp_all add: is_horiz_adj_def is_vert_adj_def)
  show "get_shared_len flp i j = Inr (shared flp i j)"
    using i j h not_both_adj [of "units flp ! i" "units flp ! j"]
    by (auto simp: get_shared_len_def shared_def Let_def MINd_def MAXd_def min_def max_def)
  show "0 \<le> shared flp i j"
    using i(2,3) j(2,3) horiz_adj_overlap [of "units flp ! i" "units flp ! j"]
      vert_adj_overlap [of "units flp ! i" "units flp ! j"] by (auto simp: shared_def Let_def)
qed

lemma if_same: "(if a then v else if b then v else f) = (if a \<or> b then v else f)"
  by simp

lemma mset_pair_ok:
  assumes "reads_as m N F" "i < N" "j < N"
  shows "\<exists>m'. mset_pair i j v m = Inr m' \<and> reads_as m' N (\<lambda>k l. if k = i \<and> l = j \<or> k = j \<and> l = i then v else F k l)"
proof -
  obtain m1 where m1: "mset_at m j i v = Inr m1" "reads_as m1 N (\<lambda>k l. if k = j \<and> l = i then v else F k l)"
    using reads_as_set [OF assms(1,3,2)] by blast
  obtain m2 where m2: "mset_at m1 i j v = Inr m2"
    "reads_as m2 N (\<lambda>k l. if k = i \<and> l = j then v else if k = j \<and> l = i then v else F k l)"
    using reads_as_set [OF m1(2) assms(2,3)] by blast
  have "reads_as m2 N (\<lambda>k l. if k = i \<and> l = j \<or> k = j \<and> l = i then v else F k l)"
    by (rule reads_as_cong [OF m2(2)]) (rule if_same)
  with m1(1) m2(1) show ?thesis by (simp add: mset_pair_def)
qed

lemma fill_len_ok:
  assumes "chip_ok flp" "n = n_units flp" "dmat_ok len n n"
  shows "\<exists>len'. fill_len flp n len = Inr len' \<and> reads_as len' n (shared flp)"
proof -
  let ?S = "shared flp" and ?L = "mat_at len"
  let ?I = "\<lambda>i r c. if min r c < i then ?S r c else ?L r c"
  let ?J = "\<lambda>i j r c. if min r c < i \<or> min r c = i \<and> max r c < j then ?S r c else ?L r c"
  have "\<exists>l'. fill_len flp n len = Inr l' \<and> reads_as l' n (?I n)"
    unfolding fill_len_def
  proof (rule for_up_rule [where I = "\<lambda>i l. reads_as l n (?I i)"])
    fix i l assume i: "0 \<le> i" "i < n" and I: "reads_as l n (?I i)"
    have "\<exists>l'. for_up i n (\<lambda>j len. rbind (get_shared_len flp i j) (\<lambda>v. mset_pair i j v len)) l = Inr l' \<and>
        reads_as l' n (?J i n)"
    proof (rule for_up_rule [where I = "\<lambda>j l. reads_as l n (?J i j)"])
      have "min r c < i \<longleftrightarrow> min r c < i \<or> min r c = i \<and> max r c < i" for r c by (cases "r \<le> c") auto
      then show "reads_as l n (?J i i)" using I by simp
      fix j t assume j: "i \<le> j" "j < n" and J: "reads_as t n (?J i j)"
      obtain t' where t': "mset_pair i j (?S i j) t = Inr t'"
        "reads_as t' n (\<lambda>k l. if k = i \<and> l = j \<or> k = j \<and> l = i then ?S i j else ?J i j k l)"
        using mset_pair_ok [OF J i(2) j(2)] by blast
      have "reads_as t' n (?J i (Suc j))"
      proof (rule reads_as_cong [OF t'(2)])
        fix k l assume "k < n" "l < n"
        show "(if k = i \<and> l = j \<or> k = j \<and> l = i then ?S i j else ?J i j k l) = ?J i (Suc j) k l"
        proof (cases "k = i \<and> l = j \<or> k = j \<and> l = i")
          case True
          then have "min k l = i" "max k l = j" "?S k l = ?S i j" using j shared_sym [of flp j i] by auto
          then show ?thesis using True by simp
        next
          case False
          then have "\<not> (min k l = i \<and> max k l = j)" by (auto simp: min_def max_def split: if_splits)
          then have "(min k l < i \<or> min k l = i \<and> max k l < j) = (min k l < i \<or> min k l = i \<and> max k l < Suc j)" by auto
          then show ?thesis by (simp only: if_not_P [OF False])
        qed
      qed
      then show "\<exists>t'. rbind (get_shared_len flp i j) (\<lambda>v. mset_pair i j v t) = Inr t' \<and> reads_as t' n (?J i (Suc j))"
        using t'(1) shared_ok(1) [OF assms(1), of i j] i j assms(2) by auto
    qed (use i in simp)
    moreover have "reads_as l' n (?I (Suc i))" if "reads_as l' n (?J i n)" for l'
      by (rule reads_as_cong [OF that]) (simp add: less_Suc_eq)
    ultimately show "\<exists>l'. for_up i n (\<lambda>j len. rbind (get_shared_len flp i j) (\<lambda>v. mset_pair i j v len)) l = Inr l' \<and>
        reads_as l' n (?I (Suc i))" by blast
  next
    show "reads_as len n (?I 0)" using assms(3) by (simp add: reads_as_def)
  qed simp
  then obtain l' where l': "fill_len flp n len = Inr l'" "reads_as l' n (?I n)" by blast
  have "reads_as l' n ?S" by (rule reads_as_cong [OF l'(2)]) (simp add: min_def)
  with l'(1) show ?thesis by blast
qed

section \<open>Borders\<close>

definition sides_ok :: "nat \<Rightarrow> sides \<Rightarrow> bool" where
  "sides_ok n st \<longleftrightarrow> (case st of (border, g_sp, g_hs) \<Rightarrow> rows_ok border n 4 \<and> (\<forall>s. 0 \<le> g_sp s \<and> 0 \<le> g_hs s))"

lemma border_side_ok: "i < n \<Longrightarrow> s < 4 \<Longrightarrow> 0 \<le> sp \<Longrightarrow> 0 \<le> hs \<Longrightarrow> keeps (sides_ok n) (border_side i s on sp hs)"
  unfolding keeps_def border_side_def sides_ok_def by (auto simp: split_beta)

lemma unit_border_ok:
  assumes "chip_ok flp" "layers_ok c" "i < n_units flp"
  shows "keeps (sides_ok (n_units flp)) (unit_border (lateral_of c flp) flp w l i)"
proof -
  note u = chip_unit [OF assms(1,3)]
  have p: "0 \<le> side_x (k_spreader c) (t_spreader c) (units flp ! i)" "0 \<le> side_y (k_spreader c) (t_spreader c) (units flp ! i)"
    "0 \<le> side_x (k_sink c) (t_sink c) (units flp ! i)" "0 \<le> side_y (k_sink c) (t_sink c) (units flp ! i)"
    using side_pos u(2,3) assms(2) unfolding layers_ok_def by (simp_all add: less_imp_le)
  show ?thesis
    unfolding unit_border_def
    using u(1) assms(3) lateral_of_lengths [of c flp] lateral_of_nth [OF assms(3), of c] p
    by (simp add: keeps_in_order border_side_ok del: in_order.simps)
qed

lemma border_loop:
  assumes "chip_ok flp" "layers_ok c" "n = n_units flp" "rows_ok border n 4"
  shows "\<exists>st. for_up 0 n (unit_border (lateral_of c flp) flp w l) (border, \<lambda>_. 0, \<lambda>_. 0) = Inr st \<and> sides_ok n st"
  by (rule for_up_rule [where I = "\<lambda>i st. sides_ok n st"])
    (use assms unit_border_ok [OF assms(1,2)] in \<open>auto simp: sides_ok_def keeps_def\<close>)

end
