(* ===== verification/Block_Frame.thy ===== *)
theory Block_Frame
  imports Block_Net
begin

text \<open>
  The matrix of conductances between nodes, statement by statement: which entries a statement
  may change, that none becomes negative, and the entries that every later argument uses.
\<close>

section \<open>Statements and what they change\<close>

definition nonneg_mat :: "nat \<Rightarrow> dmat \<Rightarrow> bool" where
  "nonneg_mat N g \<longleftrightarrow> dmat_ok g N N \<and> (\<forall>x < N. \<forall>y < N. 0 \<le> mat_at g x y)"

definition same_outside :: "nat \<Rightarrow> (nat \<Rightarrow> nat \<Rightarrow> bool) \<Rightarrow> dmat \<Rightarrow> dmat \<Rightarrow> bool" where
  "same_outside N W g g' \<longleftrightarrow> (\<forall>x < N. \<forall>y < N. \<not> W x y \<longrightarrow> mat_at g' x y = mat_at g x y)"

definition writes :: "nat \<Rightarrow> (nat \<Rightarrow> nat \<Rightarrow> bool) \<Rightarrow> (dmat \<Rightarrow> dmat res) \<Rightarrow> bool" where
  "writes N W f \<longleftrightarrow> (\<forall>g. nonneg_mat N g \<longrightarrow> (\<exists>g'. f g = Inr g' \<and> nonneg_mat N g' \<and> same_outside N W g g'))"

lemma writesD:
  assumes "writes N W f" "nonneg_mat N g"
  obtains g' where "f g = Inr g'" "nonneg_mat N g'" "same_outside N W g g'"
  using assms unfolding writes_def by blast

lemma same_outside_trans: "same_outside N W g h \<Longrightarrow> same_outside N W h k \<Longrightarrow> same_outside N W g k"
  by (simp add: same_outside_def)

lemma writes_weaken: "writes N W f \<Longrightarrow> (\<And>x y. W x y \<Longrightarrow> V x y) \<Longrightarrow> writes N V f"
  unfolding writes_def same_outside_def by meson

lemma writes_in_order: "list_all (writes N W) fs \<Longrightarrow> writes N W (in_order fs)"
proof (induction fs)
  case (Cons f fs)
  show ?case
    unfolding writes_def
  proof (intro allI impI)
    fix g assume "nonneg_mat N g"
    then obtain h where h: "f g = Inr h" "nonneg_mat N h" "same_outside N W g h"
      using Cons.prems by (auto elim: writesD)
    obtain k where "in_order fs h = Inr k" "nonneg_mat N k" "same_outside N W h k"
      using Cons h(2) by (auto elim: writesD)
    then show "\<exists>k. in_order (f # fs) g = Inr k \<and> nonneg_mat N k \<and> same_outside N W g k"
      using h same_outside_trans [OF h(3)] by auto
  qed
qed (simp add: writes_def same_outside_def)

lemma writes_loop:
  assumes "\<And>i. lo \<le> i \<Longrightarrow> i < hi \<Longrightarrow> writes N W (body i)" "lo \<le> hi"
  shows "writes N W (for_up lo hi body)"
  unfolding writes_def
proof (intro allI impI)
  fix g assume g: "nonneg_mat N g"
  show "\<exists>k. for_up lo hi body g = Inr k \<and> nonneg_mat N k \<and> same_outside N W g k"
  proof (rule for_up_rule [where I = "\<lambda>i k. nonneg_mat N k \<and> same_outside N W g k"])
    fix i t assume i: "lo \<le> i" "i < hi" "nonneg_mat N t \<and> same_outside N W g t"
    then obtain k where "body i t = Inr k" "nonneg_mat N k" "same_outside N W t k"
      using assms(1) by (meson writesD)
    then show "\<exists>t'. body i t = Inr t' \<and> nonneg_mat N t' \<and> same_outside N W g t'"
      using same_outside_trans i(3) by blast
  qed (use assms(2) g in \<open>auto simp: same_outside_def\<close>)
qed

lemma writes_entry:
  assumes "x < N" "y < N" "0 \<le> v" "W x y"
  shows "writes N W (\<lambda>g. mset_at g x y v)"
  unfolding writes_def
proof (intro allI impI)
  fix g assume g: "nonneg_mat N g"
  then have "reads_as g N (mat_at g)" by (intro reads_as_self) (simp add: nonneg_mat_def)
  then obtain g' where g': "mset_at g x y v = Inr g'" "reads_as g' N (\<lambda>k l. if k = x \<and> l = y then v else mat_at g k l)"
    using reads_as_set [OF _ assms(1,2)] by blast
  then have "nonneg_mat N g'" "same_outside N W g g'"
    using g assms(3,4) by (auto simp: reads_as_def nonneg_mat_def same_outside_def)
  with g'(1) show "\<exists>g'. mset_at g x y v = Inr g' \<and> nonneg_mat N g' \<and> same_outside N W g g'" by blast
qed

section \<open>Sequences of symmetric assignments\<close>

type_synonym entry = "nat \<times> nat \<times> real"

definition entry_ok :: "nat \<Rightarrow> entry \<Rightarrow> bool" where
  "entry_ok N e \<longleftrightarrow> fst e < N \<and> fst (snd e) < N \<and> 0 \<le> snd (snd e)"

definition hits :: "entry \<Rightarrow> nat \<Rightarrow> nat \<Rightarrow> bool" where
  "hits e x y \<longleftrightarrow> x = fst e \<and> y = fst (snd e) \<or> x = fst (snd e) \<and> y = fst e"

definition put_entry :: "entry \<Rightarrow> dmat \<Rightarrow> dmat res" where
  "put_entry e = put_pair (fst e) (fst (snd e)) (Inr (snd (snd e)))"

definition holds :: "dmat \<Rightarrow> entry \<Rightarrow> bool" where
  "holds g e \<longleftrightarrow> mat_at g (fst e) (fst (snd e)) = snd (snd e) \<and> mat_at g (fst (snd e)) (fst e) = snd (snd e)"

lemma put_entry_ok:
  assumes "entry_ok N e" "nonneg_mat N g"
  shows "\<exists>g'. put_entry e g = Inr g' \<and> nonneg_mat N g' \<and> holds g' e \<and> same_outside N (hits e) g g'"
proof -
  obtain x y v where e: "e = (x, y, v)" by (cases e)
  have xy: "x < N" "y < N" "0 \<le> v" using assms(1) by (auto simp: entry_ok_def e)
  have "reads_as g N (mat_at g)" using assms(2) by (intro reads_as_self) (simp add: nonneg_mat_def)
  then obtain g' where g': "mset_pair x y v g = Inr g'"
    "reads_as g' N (\<lambda>k l. if k = x \<and> l = y \<or> k = y \<and> l = x then v else mat_at g k l)"
    using mset_pair_ok [OF _ xy(1,2)] by blast
  then have "nonneg_mat N g'" "holds g' e" "same_outside N (hits e) g g'"
    using assms(2) xy by (auto simp: reads_as_def nonneg_mat_def holds_def same_outside_def hits_def e)
  with g'(1) show ?thesis by (auto simp: put_entry_def put_pair_def e)
qed

lemma put_entries:
  assumes "list_all (entry_ok N) es" "sorted_wrt (\<lambda>e f. \<not> hits f (fst e) (fst (snd e))) es" "nonneg_mat N g"
  shows "\<exists>g'. in_order (map put_entry es) g = Inr g' \<and> nonneg_mat N g' \<and> list_all (holds g') es \<and>
    same_outside N (\<lambda>x y. list_ex (\<lambda>e. hits e x y) es) g g'"
  using assms
proof (induction es arbitrary: g)
  case (Cons e es)
  have ok: "entry_ok N e" using Cons.prems(1) by simp
  obtain h where h: "put_entry e g = Inr h" "nonneg_mat N h" "holds h e" "same_outside N (hits e) g h"
    using put_entry_ok [OF ok Cons.prems(3)] by blast
  obtain k where k: "in_order (map put_entry es) h = Inr k" "nonneg_mat N k" "list_all (holds k) es"
    "same_outside N (\<lambda>x y. list_ex (\<lambda>e. hits e x y) es) h k"
    using Cons.IH [OF _ _ h(2)] Cons.prems by auto
  have "\<not> list_ex (\<lambda>f. hits f (fst e) (fst (snd e))) es" "\<not> list_ex (\<lambda>f. hits f (fst (snd e)) (fst e)) es"
    using Cons.prems(2) by (auto simp: list_ex_iff hits_def)
  then have "holds k e" using h(3) k(4) ok by (simp add: holds_def same_outside_def entry_ok_def)
  then show ?case using h(1,4) k by (auto simp: same_outside_def)
qed (simp add: same_outside_def)

section \<open>The statements of the block model\<close>

abbreviation nodes :: "nat \<Rightarrow> nat" where "nodes n \<equiv> NL * n + EXTRA"

text \<open>Both nodes in the same layer; a node of the package.\<close>

definition same_layer :: "nat \<Rightarrow> nat \<Rightarrow> nat \<Rightarrow> bool" where
  "same_layer n x y \<longleftrightarrow> x < NL * n \<and> y < NL * n \<and> x div n = y div n"

definition package_entry :: "nat \<Rightarrow> nat \<Rightarrow> nat \<Rightarrow> bool" where
  "package_entry n x y \<longleftrightarrow> NL * n \<le> x \<or> NL * n \<le> y"

lemma same_layer_nodes: "i < n \<Longrightarrow> j < n \<Longrightarrow> k < 4 \<Longrightarrow> same_layer n (k * n + i) (k * n + j)"
proof -
  assume a: "i < n" "j < n" "k < 4"
  then have "Suc k * n \<le> 4 * n" by (intro mult_le_mono1) simp
  with a have "k * n + i < 4 * n" "k * n + j < 4 * n" by (simp_all only: mult_Suc)
  with a show ?thesis by (simp add: same_layer_def NL_def)
qed

lemma part_ok:
  assumes "i < length xs" "i < length ys" "0 \<le> xs ! i" "0 \<le> ys ! i" "0 < width u" "0 < height u"
  shows "\<exists>p. edge_part h v u xs ys i = Inr p \<and> 0 \<le> p"
  using assms by (simp add: edge_part_def)

lemma lateral_of_nonneg:
  assumes "chip_ok flp" "layers_ok c" "i < n_units flp"
  shows "0 \<le> gx (lateral_of c flp) ! i" "0 \<le> gy (lateral_of c flp) ! i"
    "0 < gx_int (lateral_of c flp) ! i" "0 < gy_int (lateral_of c flp) ! i"
    "0 < gx_sp (lateral_of c flp) ! i" "0 < gy_sp (lateral_of c flp) ! i"
    "0 < gx_hs (lateral_of c flp) ! i" "0 < gy_hs (lateral_of c flp) ! i"
proof -
  note u = chip_unit [OF assms(1,3)]
  show "0 < gx_int (lateral_of c flp) ! i" "0 < gy_int (lateral_of c flp) ! i"
    "0 < gx_sp (lateral_of c flp) ! i" "0 < gy_sp (lateral_of c flp) ! i"
    "0 < gx_hs (lateral_of c flp) ! i" "0 < gy_hs (lateral_of c flp) ! i"
    using side_pos u(2,3) assms(2) unfolding lateral_of_nth [OF assms(3)] layers_ok_def by auto
  show "0 \<le> gx (lateral_of c flp) ! i" "0 \<le> gy (lateral_of c flp) ! i"
    using side_pos [of "k_chip c" "t_chip c" "units flp ! i"] u(2,3) assms(2)
    unfolding lateral_of_nth [OF assms(3)] layers_ok_def by auto
qed

lemma layer_edges_writes:
  assumes "chip_ok flp" "layers_ok c" "n = n_units flp" "i < n" "j < n" "reads_as len n (shared flp)"
  shows "writes (nodes n) (same_layer n) (layer_edges (lateral_of c flp) flp len n i j)"
proof -
  let ?l = "lateral_of c flp" and ?u = "units flp ! i"
  have i: "i < n_units flp" and j: "j < n_units flp" using assms(3-5) by auto
  note u = chip_unit [OF assms(1) i] and s = shared_ok [OF assms(1) i j]
  note l = lateral_of_nonneg [OF assms(1,2) i]
  let ?h = "i \<noteq> j \<and> horiz_adj ?u (units flp ! j)"
  let ?v = "\<not> ?h \<and> i \<noteq> j \<and> vert_adj ?u (units flp ! j)"
  have len: "i < length (gx ?l)" "i < length (gy ?l)" "i < length (gx_int ?l)" "i < length (gy_int ?l)"
    "i < length (gx_sp ?l)" "i < length (gy_sp ?l)" "i < length (gx_hs ?l)" "i < length (gy_hs ?l)"
    using i by (simp_all add: lateral_of_lengths)
  obtain p where p1: "edge_part ?h ?v ?u (gx ?l) (gy ?l) i = Inr p" "0 \<le> p"
    using part_ok [OF len(1,2) l(1,2) u(2,3)] by blast
  obtain pi where p2: "edge_part ?h ?v ?u (gx_int ?l) (gy_int ?l) i = Inr pi" "0 \<le> pi"
    using part_ok [OF len(3,4) l(3,4) [THEN less_imp_le] u(2,3)] by blast
  obtain ps where p3: "edge_part ?h ?v ?u (gx_sp ?l) (gy_sp ?l) i = Inr ps" "0 \<le> ps"
    using part_ok [OF len(5,6) l(5,6) [THEN less_imp_le] u(2,3)] by blast
  obtain ph where p4: "edge_part ?h ?v ?u (gx_hs ?l) (gy_hs ?l) i = Inr ph" "0 \<le> ph"
    using part_ok [OF len(7,8) l(7,8) [THEN less_imp_le] u(2,3)] by blast
  note p = p1 p2 p3 p4
  have sl: "mget len i j = Inr (shared flp i j)" using assms(4-6) by simp
  let ?s = "shared flp i j"
  let ?fs = "[\<lambda>g. mset_at g i j (p * ?s), \<lambda>g. mset_at g (IFACE * n + i) (IFACE * n + j) (pi * ?s),
    \<lambda>g. mset_at g (HSP * n + i) (HSP * n + j) (ps * ?s), \<lambda>g. mset_at g (HSINK * n + i) (HSINK * n + j) (ph * ?s)]"
  have "list_all (writes (nodes n) (same_layer n)) ?fs"
    using p s(2) assms(4,5) same_layer_nodes [OF assms(4,5), of 0] same_layer_nodes [OF assms(4,5), of 1]
      same_layer_nodes [OF assms(4,5), of 2] same_layer_nodes [OF assms(4,5), of 3]
    by (simp add: writes_entry layer_defs EXTRA_def)
  then have "writes (nodes n) (same_layer n) (in_order ?fs)" by (rule writes_in_order)
  moreover have "layer_edges ?l flp len n i j = in_order ?fs"
  proof
    fix g
    have "(if ?h then Inr False else is_vert_adj flp i j) = Inr ?v" using s(4) by simp
    with p s(3) u(1) sl show "layer_edges ?l flp len n i j g = in_order ?fs g"
      unfolding layer_edges_def by (simp del: in_order.simps)
  qed
  ultimately show ?thesis by simp
qed

text \<open>Different layers or blocks give different nodes.\<close>

lemma node_inj:
  fixes i k n L M :: nat
  assumes "i < n" "k < n"
  shows "L * n + i = M * n + k \<longleftrightarrow> L = M \<and> i = k" "i = M * n + k \<longleftrightarrow> M = 0 \<and> i = k"
    "L * n + i = k \<longleftrightarrow> L = 0 \<and> i = k"
proof -
  show *: "L * n + i = M * n + k \<longleftrightarrow> L = M \<and> i = k" for L M
    using assms index_inj [of i n k L M] by (auto simp: mult.commute)
  show "i = M * n + k \<longleftrightarrow> M = 0 \<and> i = k" using * [of 0 M] by auto
  show "L * n + i = k \<longleftrightarrow> L = 0 \<and> i = k" using * [of L 0] by simp
qed

lemma layers_differ: "IFACE \<noteq> HSP" "HSP \<noteq> IFACE" "IFACE \<noteq> HSINK" "HSINK \<noteq> IFACE" "HSP \<noteq> HSINK" "HSINK \<noteq> HSP"
  "IFACE \<noteq> 0" "HSP \<noteq> 0" "HSINK \<noteq> 0"
  by (simp_all add: layer_defs)

text \<open>The vertical conductances of one block.\<close>

definition vval :: "real \<Rightarrow> real \<Rightarrow> real \<Rightarrow> real" where
  "vval k t ar = 2 / (t / (k * ar))"

definition area_of :: "flp_t \<Rightarrow> nat \<Rightarrow> real" where
  "area_of flp i = height (units flp ! i) * width (units flp ! i)"

definition vertical_entries :: "thermal_config_t \<Rightarrow> flp_t \<Rightarrow> nat \<Rightarrow> nat \<Rightarrow> entry list" where
  "vertical_entries c flp n i =
     [(i, IFACE * n + i, vval (k_chip c) (t_chip c) (area_of flp i)),
      (IFACE * n + i, HSP * n + i, vval (k_interface c) (t_interface c) (area_of flp i)),
      (HSP * n + i, HSINK * n + i, vval (k_spreader c) (t_spreader c) (area_of flp i))]"

lemma area_pos: "chip_ok flp \<Longrightarrow> i < n_units flp \<Longrightarrow> 0 < area_of flp i"
  using chip_unit by (simp add: area_of_def)

lemma vertical_g_ok: "0 < k \<Longrightarrow> 0 < t \<Longrightarrow> 0 < ar \<Longrightarrow> vertical_g k t ar = Inr (vval k t ar) \<and> 0 < vval k t ar"
  by (simp add: vertical_g_def vval_def)

lemma unit_vertical_ok:
  assumes "chip_ok flp" "layers_ok c" "n = n_units flp" "i < n" "nonneg_mat (nodes n) g"
  shows "\<exists>g'. unit_vertical c n i (area_of flp i) g = Inr g' \<and> nonneg_mat (nodes n) g' \<and>
    list_all (holds g') (vertical_entries c flp n i) \<and>
    same_outside (nodes n) (\<lambda>x y. list_ex (\<lambda>e. hits e x y) (vertical_entries c flp n i)) g g'"
proof -
  have ar: "0 < area_of flp i" using area_pos assms(1,3,4) by simp
  have v: "vertical_g (k_chip c) (t_chip c) (area_of flp i) = Inr (vval (k_chip c) (t_chip c) (area_of flp i))"
    "vertical_g (k_interface c) (t_interface c) (area_of flp i) = Inr (vval (k_interface c) (t_interface c) (area_of flp i))"
    "vertical_g (k_spreader c) (t_spreader c) (area_of flp i) = Inr (vval (k_spreader c) (t_spreader c) (area_of flp i))"
    "0 < vval (k_chip c) (t_chip c) (area_of flp i)" "0 < vval (k_interface c) (t_interface c) (area_of flp i)"
    "0 < vval (k_spreader c) (t_spreader c) (area_of flp i)"
    using vertical_g_ok [OF _ _ ar] assms(2) by (auto simp: layers_ok_def)
  have "unit_vertical c n i (area_of flp i) = in_order (map put_entry (vertical_entries c flp n i))"
    by (simp add: unit_vertical_def vertical_entries_def put_entry_def v del: in_order.simps)
  moreover have "list_all (entry_ok (nodes n)) (vertical_entries c flp n i)"
    using v(4-6) assms(4) by (simp add: vertical_entries_def entry_ok_def layer_defs EXTRA_def)
  moreover have "sorted_wrt (\<lambda>e f. \<not> hits f (fst e) (fst (snd e))) (vertical_entries c flp n i)"
    by (simp add: vertical_entries_def hits_def node_inj [OF assms(4,4)] layers_differ) (use assms(4) in simp)
  ultimately show ?thesis using put_entries [OF _ _ assms(5)] by presburger
qed

lemma vertical_disjoint:
  assumes "i < n" "k < n" "e \<in> set (vertical_entries c flp n k)"
  shows "\<not> same_layer n (fst e) (fst (snd e))" "\<not> package_entry n (fst e) (fst (snd e))"
    "i \<noteq> k \<Longrightarrow> \<not> list_ex (\<lambda>f. hits f (fst e) (fst (snd e))) (vertical_entries c flp n i)"
proof -
  have e: "fst e = k \<and> fst (snd e) = IFACE * n + k \<or> fst e = IFACE * n + k \<and> fst (snd e) = HSP * n + k \<or>
      fst e = HSP * n + k \<and> fst (snd e) = HSINK * n + k"
    using assms(3) by (auto simp: vertical_entries_def)
  show "\<not> same_layer n (fst e) (fst (snd e))"
    using e assms(2) by (auto simp: same_layer_def layer_defs)
  show "\<not> package_entry n (fst e) (fst (snd e))"
    using e assms(2) by (elim disjE conjE; simp add: package_entry_def layer_defs)
  assume "i \<noteq> k"
  then show "\<not> list_ex (\<lambda>f. hits f (fst e) (fst (snd e))) (vertical_entries c flp n i)"
    using e by (elim disjE conjE; simp add: vertical_entries_def hits_def node_inj [OF assms(1,2)] node_inj [OF assms(2,1)])
qed

text \<open>Entries that a statement may not change keep holding.\<close>

lemma holds_outside:
  assumes "list_all (holds g) es" "list_all (entry_ok N) es" "same_outside N W g g'"
    and "\<And>e. e \<in> set es \<Longrightarrow> \<not> W (fst e) (fst (snd e)) \<and> \<not> W (fst (snd e)) (fst e)"
  shows "list_all (holds g') es"
  using assms unfolding list_all_iff holds_def same_outside_def entry_ok_def by simp

lemma side_g_ok:
  assumes "rows_ok border n 4" "i < n" "s < 4" "0 < gi" "0 \<le> r" "0 \<le> tot"
  shows "\<exists>v. side_g border i s gi r tot = Inr v \<and> 0 \<le> v"
proof -
  have "0 < 1 / gi + r * tot / gi" using assms(4-6) by (simp add: add_pos_nonneg)
  then show ?thesis using assms by (simp add: side_g_def)
qed

lemma put_pair_writes:
  assumes "x < N" "y < N" "\<exists>v. r = Inr v \<and> 0 \<le> v" "W x y" "W y x"
  shows "writes N W (put_pair x y r)"
proof -
  obtain v where v: "r = Inr v" "0 \<le> v" using assms(3) by blast
  have e: "put_pair x y r = put_entry (x, y, v)" by (simp add: put_entry_def v(1))
  have "writes N (hits (x, y, v)) (put_entry (x, y, v))"
    unfolding writes_def using put_entry_ok [of N "(x, y, v)"] assms(1,2) v(2) by (fastforce simp: entry_ok_def)
  then show ?thesis unfolding e by (rule writes_weaken) (use assms(4,5) in \<open>auto simp: hits_def\<close>)
qed

lemma unit_package_writes:
  assumes "chip_ok flp" "layers_ok c" "n = n_units flp" "i < n" "pack_R_ok pack" "sides_ok n st"
  shows "writes (nodes n) (package_entry n) (unit_package pack (lateral_of c flp) st n i)"
proof -
  obtain border g_sp g_hs where st: "st = (border, g_sp, g_hs)" by (cases st)
  have i: "i < n_units flp" using assms(3,4) by simp
  note l = lateral_of_nonneg [OF assms(1,2) i]
  have b: "rows_ok border n 4" "\<And>s. 0 \<le> g_sp s" "\<And>s. 0 \<le> g_hs s" using assms(6) by (auto simp: sides_ok_def st)
  have r: "0 \<le> r_sp1_x pack" "0 \<le> r_sp1_y pack" "0 \<le> r_hs1_x pack" "0 \<le> r_hs1_y pack"
    using assms(5) by (auto simp: pack_R_ok_def)
  show ?thesis
  proof -
    let ?l = "lateral_of c flp"
    have "writes (nodes n) (package_entry n) (in_order [
       put_pair (HSP * n + i) (NL * n + SP_N) (side_g border i 2 (gy_sp ?l ! i) (r_sp1_y pack) (g_sp 2)),
       put_pair (HSP * n + i) (NL * n + SP_S) (side_g border i 3 (gy_sp ?l ! i) (r_sp1_y pack) (g_sp 3)),
       put_pair (HSP * n + i) (NL * n + SP_E) (side_g border i 1 (gx_sp ?l ! i) (r_sp1_x pack) (g_sp 1)),
       put_pair (HSP * n + i) (NL * n + SP_W) (side_g border i 0 (gx_sp ?l ! i) (r_sp1_x pack) (g_sp 0)),
       put_pair (HSINK * n + i) (NL * n + SINK_C_N) (side_g border i 2 (gy_hs ?l ! i) (r_hs1_y pack) (g_hs 2)),
       put_pair (HSINK * n + i) (NL * n + SINK_C_S) (side_g border i 3 (gy_hs ?l ! i) (r_hs1_y pack) (g_hs 3)),
       put_pair (HSINK * n + i) (NL * n + SINK_C_E) (side_g border i 1 (gx_hs ?l ! i) (r_hs1_x pack) (g_hs 1)),
       put_pair (HSINK * n + i) (NL * n + SINK_C_W) (side_g border i 0 (gx_hs ?l ! i) (r_hs1_x pack) (g_hs 0))])"
      by (rule writes_in_order, simp only: list.pred_inject simp_thms,
        (intro conjI; rule put_pair_writes;
          ((rule side_g_ok [OF b(1) assms(4) _ _ _ b(2)] side_g_ok [OF b(1) assms(4) _ _ _ b(3)]; simp add: l r)
          | use assms(4) in \<open>simp add: package_entry_def node_defs layer_defs\<close>)))
    then show ?thesis
      using i assms(3) unfolding unit_package_def st by (simp add: lateral_of_lengths del: in_order.simps)
  qed
qed

section \<open>All blocks\<close>

definition ambient_of :: "thermal_config_t \<Rightarrow> flp_t \<Rightarrow> nat \<Rightarrow> real" where
  "ambient_of c flp i = 1 / (t_sink c / (k_sink c * area_of flp i) + r_convec c * (s_sink c * s_sink c) / area_of flp i)"

lemma unit_ambient_ok:
  assumes "layers_ok c" "0 \<le> r_convec c" "chip_ok flp" "i < n_units flp"
  shows "unit_ambient c (area_of flp i) = Inr (ambient_of c flp i)" "0 < ambient_of c flp i"
proof -
  have ar: "0 < area_of flp i" using area_pos assms(3,4) by simp
  then have "0 < t_sink c / (k_sink c * area_of flp i) + r_convec c * (s_sink c * s_sink c) / area_of flp i"
    using assms(1,2) by (intro add_pos_nonneg) (simp_all add: layers_ok_def)
  then show "unit_ambient c (area_of flp i) = Inr (ambient_of c flp i)" "0 < ambient_of c flp i"
    using ar assms(1) by (simp_all add: unit_ambient_def ambient_of_def layers_ok_def)
qed

definition net_inv :: "thermal_config_t \<Rightarrow> flp_t \<Rightarrow> nat \<Rightarrow> nat \<Rightarrow> dmat \<times> real list \<Rightarrow> bool" where
  "net_inv c flp n i gs \<longleftrightarrow> (case gs of (g, g_amb) \<Rightarrow> nonneg_mat (nodes n) g \<and> length g_amb = n + EXTRA \<and>
     (\<forall>k < i. list_all (holds g) (vertical_entries c flp n k)) \<and>
     (\<forall>k < n + EXTRA. g_amb ! k = (if k < i then ambient_of c flp k else 0)))"

lemma unit_conductances_ok:
  assumes "chip_ok flp" "layers_ok c" "0 \<le> r_convec c" "n = n_units flp" "i < n" "pack_R_ok pack" "sides_ok n st"
    and "reads_as len n (shared flp)" "net_inv c flp n i gs"
  shows "\<exists>gs'. unit_conductances c pack (lateral_of c flp) flp len st n i gs = Inr gs' \<and> net_inv c flp n (Suc i) gs'"
proof -
  obtain g g_amb where gs: "gs = (g, g_amb)" by (cases gs)
  have g: "nonneg_mat (nodes n) g" "length g_amb = n + EXTRA"
    "\<And>k. k < i \<Longrightarrow> list_all (holds g) (vertical_entries c flp n k)"
    "\<And>k. k < n + EXTRA \<Longrightarrow> g_amb ! k = (if k < i then ambient_of c flp k else 0)"
    using assms(9) by (auto simp: net_inv_def gs)
  have i: "i < n_units flp" using assms(4,5) by simp
  have ok: "list_all (entry_ok (nodes n)) (vertical_entries c flp n k)" if "k < n" for k
    using vertical_g_ok [OF _ _ area_pos [OF assms(1)], of _ _ k] assms(2,4) that
    by (simp add: vertical_entries_def entry_ok_def layer_defs EXTRA_def layers_ok_def less_imp_le)
  have "writes (nodes n) (same_layer n) (for_up 0 n (layer_edges (lateral_of c flp) flp len n i))"
    using layer_edges_writes [OF assms(1,2,4,5) _ assms(8)] by (intro writes_loop) auto
  then obtain g1 where g1: "for_up 0 n (layer_edges (lateral_of c flp) flp len n i) g = Inr g1"
    "nonneg_mat (nodes n) g1" "same_outside (nodes n) (same_layer n) g g1" using g(1) by (rule writesD)
  obtain g2 where g2: "unit_vertical c n i (area_of flp i) g1 = Inr g2" "nonneg_mat (nodes n) g2"
    "list_all (holds g2) (vertical_entries c flp n i)"
    "same_outside (nodes n) (\<lambda>x y. list_ex (\<lambda>e. hits e x y) (vertical_entries c flp n i)) g1 g2"
    using unit_vertical_ok [OF assms(1,2,4,5) g1(2)] by blast
  obtain g3 where g3: "unit_package pack (lateral_of c flp) st n i g2 = Inr g3" "nonneg_mat (nodes n) g3"
    "same_outside (nodes n) (package_entry n) g2 g3"
    using unit_package_writes [OF assms(1,2,4-7)] g2(2) by (rule writesD)
  have sl: "same_layer n x y = same_layer n y x" "package_entry n x y = package_entry n y x" "hits e x y = hits e y x" for x y e
    by (auto simp: same_layer_def package_entry_def hits_def)
  have v3: "list_all (holds g3) (vertical_entries c flp n k)" if k: "k < n" "list_all (holds g2) (vertical_entries c flp n k)" for k
    using vertical_disjoint(2) [OF assms(5) k(1)] sl(2)
    by (intro holds_outside [OF k(2) ok [OF k(1)] g3(3)]) blast
  have "list_all (holds g2) (vertical_entries c flp n k)" if k: "k < i" for k
  proof -
    have kn: "k < n" using k assms(5) by simp
    have "list_all (holds g1) (vertical_entries c flp n k)"
      using vertical_disjoint(1) [OF assms(5) kn] sl(1)
      by (intro holds_outside [OF g(3) [OF k] ok [OF kn] g1(3)]) blast
    then show ?thesis
      using vertical_disjoint(3) [OF assms(5) kn] k
      by (intro holds_outside [OF _ ok [OF kn] g2(4)]) (auto simp: sl(3))
  qed
  then have "list_all (holds g3) (vertical_entries c flp n k)" if "k < Suc i" for k
    using v3 that g2(3) assms(5) by (auto simp: less_Suc_eq)
  moreover have "(g_amb[i := ambient_of c flp i]) ! k = (if k < Suc i then ambient_of c flp k else 0)" if "k < n + EXTRA" for k
    using g(2,4) that assms(5) by (auto simp: nth_list_update less_Suc_eq)
  ultimately have "net_inv c flp n (Suc i) (g3, g_amb[i := ambient_of c flp i])"
    using g3(2) g(2) by (simp add: net_inv_def)
  moreover have "unit_conductances c pack (lateral_of c flp) flp len st n i gs = Inr (g3, g_amb[i := ambient_of c flp i])"
    using g1(1) g2(1) g3(1) chip_unit(1) [OF assms(1) i] unit_ambient_ok [OF assms(2,3,1) i] g(2) assms(5)
    by (simp add: unit_conductances_def gs area_of_def [symmetric])
  ultimately show ?thesis by blast
qed

lemma conductance_loop:
  assumes "chip_ok flp" "layers_ok c" "0 \<le> r_convec c" "n = n_units flp" "pack_R_ok pack" "sides_ok n st"
    and "reads_as len n (shared flp)" "net_inv c flp n 0 gs"
  shows "\<exists>gs'. for_up 0 n (unit_conductances c pack (lateral_of c flp) flp len st n) gs = Inr gs' \<and> net_inv c flp n n gs'"
  by (rule for_up_rule [where I = "net_inv c flp n"])
    (use assms(8) unit_conductances_ok [OF assms(1-4) _ assms(5-7)] in auto)

section \<open>The package\<close>

definition package_entries :: "package_RC_t \<Rightarrow> nat \<Rightarrow> entry list" where
  "package_entries pack n = [
     (NL * n + SP_N, NL * n + SINK_C_N, 2 / r_sp_per_y pack), (NL * n + SP_S, NL * n + SINK_C_S, 2 / r_sp_per_y pack),
     (NL * n + SP_E, NL * n + SINK_C_E, 2 / r_sp_per_x pack), (NL * n + SP_W, NL * n + SINK_C_W, 2 / r_sp_per_x pack),
     (NL * n + SINK_C_N, NL * n + SINK_N, 2 / (r_hs pack + r_hs2_y pack)), (NL * n + SINK_C_S, NL * n + SINK_S, 2 / (r_hs pack + r_hs2_y pack)),
     (NL * n + SINK_C_E, NL * n + SINK_E, 2 / (r_hs pack + r_hs2_x pack)), (NL * n + SINK_C_W, NL * n + SINK_W, 2 / (r_hs pack + r_hs2_x pack))]"

lemma package_conductances_ok:
  assumes "pack_R_ok pack" "nonneg_mat (nodes n) g"
  shows "\<exists>g'. package_conductances pack n g = Inr g' \<and> nonneg_mat (nodes n) g' \<and>
    list_all (holds g') (package_entries pack n) \<and> same_outside (nodes n) (package_entry n) g g'"
proof -
  have r: "0 < r_sp_per_x pack" "0 < r_sp_per_y pack" "0 < r_hs pack + r_hs2_x pack" "0 < r_hs pack + r_hs2_y pack"
    using assms(1) by (auto simp: pack_R_ok_def)
  have e: "package_conductances pack n = in_order (map put_entry (package_entries pack n))"
    using r by (simp add: package_conductances_def package_entries_def put_entry_def del: in_order.simps)
  have ok: "list_all (entry_ok (nodes n)) (package_entries pack n)"
    using r by (simp add: package_entries_def entry_ok_def node_defs)
  have s: "sorted_wrt (\<lambda>e f. \<not> hits f (fst e) (fst (snd e))) (package_entries pack n)"
    by (simp add: package_entries_def hits_def node_defs)
  obtain g' where "package_conductances pack n g = Inr g'" "nonneg_mat (nodes n) g'" "list_all (holds g') (package_entries pack n)"
    "same_outside (nodes n) (\<lambda>x y. list_ex (\<lambda>e. hits e x y) (package_entries pack n)) g g'"
    using put_entries [OF ok s assms(2)] unfolding e by blast
  moreover have "list_ex (\<lambda>e. hits e x y) (package_entries pack n) \<Longrightarrow> package_entry n x y" for x y
    by (auto simp: package_entries_def hits_def package_entry_def)
  ultimately show ?thesis unfolding same_outside_def by blast
qed

definition package_leak :: "package_RC_t \<Rightarrow> nat \<Rightarrow> real" where
  "package_leak pack k = (if k < SINK_C_W then 0
     else if k = SINK_C_N \<or> k = SINK_C_S then 1 / (r_hs_c_per_y pack + r_amb_c_per_y pack)
     else if k = SINK_C_E \<or> k = SINK_C_W then 1 / (r_hs_c_per_x pack + r_amb_c_per_x pack)
     else 1 / (r_hs_per pack + r_amb_per pack))"

lemma extra_cases: "k < EXTRA \<longleftrightarrow> k \<in> {0, 1, 2, 3, 4, 5, 6, 7, 8, 9, 10, 11}"
  by (simp add: EXTRA_def) presburger

lemma package_ambient_ok:
  assumes "pack_R_ok pack" "length g_amb = n + EXTRA" "\<forall>k < EXTRA. g_amb ! (n + k) = 0"
  shows "\<exists>g_amb'. package_ambient pack n g_amb = Inr g_amb' \<and> length g_amb' = n + EXTRA \<and>
    (\<forall>k < n. g_amb' ! k = g_amb ! k) \<and> (\<forall>k < EXTRA. g_amb' ! (n + k) = package_leak pack k)"
proof -
  have r: "0 < r_hs_c_per_y pack + r_amb_c_per_y pack" "0 < r_hs_c_per_x pack + r_amb_c_per_x pack"
    "0 < r_hs_per pack + r_amb_per pack"
    using assms(1) by (auto simp: pack_R_ok_def)
  let ?y = "1 / (r_hs_c_per_y pack + r_amb_c_per_y pack)" and ?x = "1 / (r_hs_c_per_x pack + r_amb_c_per_x pack)"
    and ?p = "1 / (r_hs_per pack + r_amb_per pack)"
  let ?g = "g_amb[n + 7 := ?y, n + 6 := ?y, n + 4 := ?x, n + 5 := ?x, n + 8 := ?p, n + 9 := ?p, n + 11 := ?p, n + 10 := ?p]"
  have "package_ambient pack n g_amb = Inr ?g"
    using r assms(2) by (simp add: package_ambient_def vput_def node_defs)
  moreover have "?g ! (n + k) = package_leak pack k" if "k < EXTRA" for k
  proof -
    have z: "g_amb ! (n + k) = 0" using assms(3) that by blast
    have l: "length g_amb = n + 12" using assms(2) by (simp add: EXTRA_def)
    from that have "k \<in> {0, 1, 2, 3, 4, 5, 6, 7, 8, 9, 10, 11}" by (simp only: extra_cases)
    then show ?thesis using z by (elim insertE emptyE; simp add: package_leak_def node_defs l)
  qed
  ultimately show ?thesis using assms(2) by (intro exI [of _ ?g]) (simp add: nth_list_update)
qed

end
