(* ===== verification/Block_Matrix.thy ===== *)
theory Block_Matrix
  imports Block_Frame
begin

text \<open>
  The matrix \<open>B\<close> of the block model: the series of both halves of every connection off the
  diagonal, and on the diagonal the sum of the conductances of the node.
\<close>

section \<open>Off the diagonal\<close>

definition series :: "real \<Rightarrow> real \<Rightarrow> real" where
  "series x y = (if x = 0 \<or> y = 0 then 0 else 1 / (1 / x + 1 / y))"

lemma series_sym: "series x y = series y x"
  by (simp add: series_def add.commute)

lemma series_nonneg: "0 \<le> x \<Longrightarrow> 0 \<le> y \<Longrightarrow> 0 \<le> series x y"
  by (simp add: series_def)

lemma series_same: "series x x = x / 2"
  by (simp add: series_def)

text \<open>What the body of the loop over the lower triangle computes.\<close>

lemma fill_b_entry:
  assumes "nonneg_mat N g" "i < N" "j < N" "reads_as b N F"
  shows "\<exists>b'. rbind (mget g i j) (\<lambda>x. rbind (mget g j i) (\<lambda>y.
       if x = 0 \<or> y = 0 then mset_pair i j 0 b
       else rbind (fdiv 1 x) (\<lambda>p. rbind (fdiv 1 y) (\<lambda>q. rbind (fdiv (- 1) (p + q)) (\<lambda>v.
         mset_pair i j v b))))) = Inr b' \<and>
    reads_as b' N (\<lambda>k l. if k = i \<and> l = j \<or> k = j \<and> l = i then - series (mat_at g k l) (mat_at g l k) else F k l)"
proof -
  let ?x = "mat_at g i j" and ?y = "mat_at g j i"
  have g: "mget g i j = Inr ?x" "mget g j i = Inr ?y" "0 \<le> ?x" "0 \<le> ?y"
    using assms(1-3) mget_ok [of g N N] by (auto simp: nonneg_mat_def)
  obtain b' where b': "mset_pair i j (- series ?x ?y) b = Inr b'"
    "reads_as b' N (\<lambda>k l. if k = i \<and> l = j \<or> k = j \<and> l = i then - series ?x ?y else F k l)"
    using mset_pair_ok [OF assms(4,2,3)] by blast
  have "reads_as b' N (\<lambda>k l. if k = i \<and> l = j \<or> k = j \<and> l = i then - series (mat_at g k l) (mat_at g l k) else F k l)"
  proof (rule reads_as_cong [OF b'(2)])
    fix k l
    have "series ?x ?y = series (mat_at g k l) (mat_at g l k)" if "k = i \<and> l = j \<or> k = j \<and> l = i"
      using that series_sym by (elim disjE conjE) simp_all
    then show "(if k = i \<and> l = j \<or> k = j \<and> l = i then - series ?x ?y else F k l) =
        (if k = i \<and> l = j \<or> k = j \<and> l = i then - series (mat_at g k l) (mat_at g l k) else F k l)"
      by - (rule if_cong, rule refl, simp only:, rule refl)
  qed
  moreover
  have nz: "1 / ?x + 1 / ?y \<noteq> 0" if "?x \<noteq> 0" "?y \<noteq> 0"
  proof -
    have "0 < 1 / ?x" "0 < 1 / ?y" using g(3,4) that by simp_all
    then show ?thesis by linarith
  qed
  have "rbind (mget g i j) (\<lambda>x. rbind (mget g j i) (\<lambda>y.
       if x = 0 \<or> y = 0 then mset_pair i j 0 b
       else rbind (fdiv 1 x) (\<lambda>p. rbind (fdiv 1 y) (\<lambda>q. rbind (fdiv (- 1) (p + q)) (\<lambda>v.
         mset_pair i j v b))))) = Inr b'"
  proof (cases "?x = 0 \<or> ?y = 0")
    case True
    then have "series ?x ?y = 0" by (simp only: series_def if_True)
    then show ?thesis using b'(1) True by (simp only: g(1,2) rbind_Inr if_True minus_zero)
  next
    case False
    have x: "?x \<noteq> 0" "?y \<noteq> 0" using False by auto
    have "- series ?x ?y = - 1 / (1 / ?x + 1 / ?y)" using False by (simp only: series_def if_False minus_divide_left)
    then show ?thesis
      using b'(1) False by (simp only: g(1,2) rbind_Inr if_False fdiv_ok [OF x(1)] fdiv_ok [OF x(2)] fdiv_ok [OF nz [OF x]])
  qed
  ultimately show ?thesis by - (rule exI [of _ b'], rule conjI, assumption+)
qed

lemma fill_b_ok:
  assumes "nonneg_mat N g" "dmat_ok b N N"
  shows "\<exists>b'. fill_b g N b = Inr b' \<and> dmat_ok b' N N \<and>
    (\<forall>i < N. \<forall>j < N. i \<noteq> j \<longrightarrow> mat_at b' i j = - series (mat_at g i j) (mat_at g j i))"
proof -
  let ?S = "\<lambda>k l. - series (mat_at g k l) (mat_at g l k)"
  let ?I = "\<lambda>i k l. if max k l < i \<and> k \<noteq> l then ?S k l else mat_at b k l"
  let ?J = "\<lambda>i j k l. if (max k l < i \<or> max k l = i \<and> min k l < j) \<and> k \<noteq> l then ?S k l else mat_at b k l"
  have "\<exists>b'. fill_b g N b = Inr b' \<and> reads_as b' N (?I N)"
    unfolding fill_b_def
  proof (rule for_up_rule [where I = "\<lambda>i b. reads_as b N (?I i)"])
    fix i t assume i: "i < N" and I: "reads_as t N (?I i)"
    let ?body = "\<lambda>j b. rbind (mget g i j) (\<lambda>x. rbind (mget g j i) (\<lambda>y.
       if x = 0 \<or> y = 0 then mset_pair i j 0 b
       else rbind (fdiv 1 x) (\<lambda>p. rbind (fdiv 1 y) (\<lambda>q. rbind (fdiv (- 1) (p + q)) (\<lambda>v.
         mset_pair i j v b)))))"
    have "\<exists>t'. for_up 0 i ?body t = Inr t' \<and> reads_as t' N (?J i i)"
    proof (rule for_up_rule [where I = "\<lambda>j b. reads_as b N (?J i j)"])
      show "reads_as t N (?J i 0)" using I by simp
      fix j u assume j: "j < i" and J: "reads_as u N (?J i j)"
      have jN: "j < N" using i j by simp
      obtain u' where u': "?body j u = Inr u'"
        "reads_as u' N (\<lambda>k l. if k = i \<and> l = j \<or> k = j \<and> l = i then ?S k l else ?J i j k l)"
        using fill_b_entry [OF assms(1) i jN J] by (elim exE conjE) (rule that)
      have "reads_as u' N (?J i (Suc j))"
      proof (rule reads_as_cong [OF u'(2)])
        fix k l
        have "(max k l < i \<or> max k l = i \<and> min k l < Suc j) \<and> k \<noteq> l \<longleftrightarrow>
            (k = i \<and> l = j \<or> k = j \<and> l = i) \<or> (max k l < i \<or> max k l = i \<and> min k l < j) \<and> k \<noteq> l"
          using j by (cases "k \<le> l") (auto simp: max_def min_def)
        then show "(if k = i \<and> l = j \<or> k = j \<and> l = i then ?S k l else ?J i j k l) = ?J i (Suc j) k l"
          by (simp only: if_same)
      qed
      with u'(1) show "\<exists>u'. ?body j u = Inr u' \<and> reads_as u' N (?J i (Suc j))"
        by - (rule exI [of _ u'], rule conjI, assumption+)
    qed simp
    moreover have "reads_as t' N (?I (Suc i))" if "reads_as t' N (?J i i)" for t'
    proof (rule reads_as_cong [OF that])
      fix k l
      have "(max k l < i \<or> max k l = i \<and> min k l < i) \<and> k \<noteq> l \<longleftrightarrow> max k l < Suc i \<and> k \<noteq> l"
        by (cases "k \<le> l") auto
      then show "?J i i k l = ?I (Suc i) k l" by (simp only:)
    qed
    ultimately show "\<exists>t'. for_up 0 i ?body t = Inr t' \<and> reads_as t' N (?I (Suc i))" by blast
  next
    show "reads_as b N (?I 0)" using assms(2) by (simp add: reads_as_def)
  qed simp
  then show ?thesis by (auto simp: reads_as_def)
qed

section \<open>The diagonal\<close>

text \<open>The conductance of a node to the ambient.\<close>

definition node_leak :: "real list \<Rightarrow> nat \<Rightarrow> nat \<Rightarrow> real" where
  "node_leak g_amb n i = (if HSINK * n \<le> i \<and> i < NL * n then g_amb ! (i mod n)
     else if NL * n + SINK_C_W \<le> i then g_amb ! (n + i - NL * n) else 0)"

lemma fill_diag_ok:
  assumes "reads_as b (nodes n) F" "i < nodes n" "length g_amb = n + EXTRA"
  shows "\<exists>b'. fill_diag g_amb n i b = Inr b' \<and> reads_as b' (nodes n)
    (\<lambda>k l. if k = i \<and> l = i then node_leak g_amb n i - (\<Sum>j \<in> {..<nodes n} - {i}. F i j) else F k l)"
proof -
  let ?v = "node_leak g_amb n i" and ?N = "nodes n"
  let ?F = "\<lambda>m k l. if k = i \<and> l = i then ?v - (\<Sum>j \<in> {..<m} - {i}. F i j) else F k l"
  have r: "(if HSINK * n \<le> i \<and> i < NL * n then rd g_amb (i mod n)
       else if NL * n + SINK_C_W \<le> i then rd g_amb (n + i - NL * n) else Inr 0) = Inr ?v"
  proof -
    have "i mod n < n + EXTRA" if "i < NL * n" using that by (cases "n = 0") (auto simp: trans_less_add1)
    moreover have "n + i - NL * n < n + EXTRA" using assms(2) by (simp add: layer_defs node_defs)
    ultimately show ?thesis using assms(3) by (simp add: node_leak_def)
  qed
  obtain b0 where b0: "mset_at b i i ?v = Inr b0" "reads_as b0 ?N (\<lambda>k l. if k = i \<and> l = i then ?v else F k l)"
    using reads_as_set [OF assms(1,2,2)] by blast
  let ?body = "\<lambda>j b. if i \<noteq> j then rbind (mget b i i) (\<lambda>x. rbind (mget b i j) (\<lambda>y. mset_at b i i (x - y))) else Inr b"
  have "\<exists>b'. for_up 0 ?N ?body b0 = Inr b' \<and> reads_as b' ?N (?F ?N)"
  proof (rule for_up_rule [where I = "\<lambda>m b. reads_as b ?N (?F m)"])
    show "reads_as b0 ?N (?F 0)" using b0(2) by (simp only: lessThan_0 empty_Diff sum.empty diff_zero)
    fix j t assume j: "j < ?N" and I: "reads_as t ?N (?F j)"
    show "\<exists>t'. ?body j t = Inr t' \<and> reads_as t' ?N (?F (Suc j))"
    proof (cases "i = j")
      case True
      then have "{..<Suc j} - {i} = {..<j} - {i}" by auto
      then have "reads_as t ?N (?F (Suc j))" using I by (simp only:)
      then show ?thesis using True by auto
    next
      case False
      have "{..<Suc j} - {i} = insert j ({..<j} - {i})" using False by auto
      then have s: "(\<Sum>k \<in> {..<Suc j} - {i}. F i k) = (\<Sum>k \<in> {..<j} - {i}. F i k) + F i j" by simp
      obtain t' where t': "mset_at t i i (?F j i i - F i j) = Inr t'"
        "reads_as t' ?N (\<lambda>k l. if k = i \<and> l = i then ?F j i i - F i j else ?F j k l)"
        using reads_as_set [OF I assms(2,2)] by blast
      have "?body j t = Inr t'"
        using False t'(1) reads_as_get [OF I assms(2,2)] reads_as_get [OF I assms(2) j] by simp
      moreover have "reads_as t' ?N (?F (Suc j))"
        by (rule reads_as_cong [OF t'(2)]) (simp add: s)
      ultimately show ?thesis by blast
    qed
  qed simp
  then show ?thesis using b0(1) r by (simp add: fill_diag_def)
qed

lemma diag_loop:
  assumes "dmat_ok b (nodes n) (nodes n)" "length g_amb = n + EXTRA"
  shows "\<exists>b'. for_up 0 (nodes n) (fill_diag g_amb n) b = Inr b' \<and> dmat_ok b' (nodes n) (nodes n) \<and>
    (\<forall>i < nodes n. \<forall>j < nodes n. mat_at b' i j = (if i = j then node_leak g_amb n i -
      (\<Sum>j \<in> {..<nodes n} - {i}. mat_at b i j) else mat_at b i j))"
proof -
  let ?N = "nodes n" and ?B = "mat_at b"
  let ?D = "\<lambda>i. node_leak g_amb n i - (\<Sum>j \<in> {..<?N} - {i}. ?B i j)"
  let ?F = "\<lambda>m i j. if i = j \<and> i < m then ?D i else ?B i j"
  have "\<exists>b'. for_up 0 ?N (fill_diag g_amb n) b = Inr b' \<and> reads_as b' ?N (?F ?N)"
  proof (rule for_up_rule [where I = "\<lambda>m b. reads_as b ?N (?F m)"])
    show "reads_as b ?N (?F 0)" using assms(1) by (simp add: reads_as_def)
    fix i t assume i: "i < ?N" and I: "reads_as t ?N (?F i)"
    obtain t' where t': "fill_diag g_amb n i t = Inr t'" "reads_as t' ?N
        (\<lambda>k l. if k = i \<and> l = i then node_leak g_amb n i - (\<Sum>j \<in> {..<?N} - {i}. ?F i i j) else ?F i k l)"
      using fill_diag_ok [OF I i assms(2)] by blast
    have "(\<Sum>j \<in> {..<?N} - {i}. ?F i i j) = (\<Sum>j \<in> {..<?N} - {i}. ?B i j)" by (rule sum.cong) auto
    then have "reads_as t' ?N (?F (Suc i))"
      using t'(2) by (intro reads_as_cong [OF t'(2)]) (auto simp: less_Suc_eq)
    with t'(1) show "\<exists>t'. fill_diag g_amb n i t = Inr t' \<and> reads_as t' ?N (?F (Suc i))" by blast
  qed simp
  then show ?thesis by (auto simp: reads_as_def)
qed

text \<open>Rows sum to the conductance to the ambient.\<close>

lemma row_sum:
  fixes B :: "nat \<Rightarrow> nat \<Rightarrow> real"
  assumes "i < N" "B i i = v - (\<Sum>j \<in> {..<N} - {i}. B i j)"
  shows "(\<Sum>j < N. B i j) = v"
  using assms sum.remove [OF finite_lessThan, of i N "B i"] by simp

end
