(* ===== verification/Block_R.thy ===== *)
theory Block_R
  imports Block_Matrix
begin

text \<open>
  \<open>populate_R_model_block\<close> as a whole: on a chip that fits its package and whose vertical
  conductances reach the tolerance it never stops, and leaves a conductance matrix with its
  factors, the invariant on which the solvers rest.
\<close>

section \<open>The invariant\<close>

text \<open>The arrays of a model have the sizes that belong to its number of units.\<close>

definition block_sized :: "flp_store \<Rightarrow> block_model_t \<Rightarrow> bool" where
  "block_sized fs m \<longleftrightarrow> (let n = bm_n_units m; N = nodes n in
     n_units (fs (bm_flp m)) = n \<and> bm_n_nodes m = N \<and> dmat_ok (bm_b m) N N \<and> dmat_ok (bm_c m) N N \<and>
     dmat_ok (bm_lu m) N N \<and> dmat_ok (bm_g m) N N \<and> dmat_ok (bm_len m) n n \<and> length (bm_p m) = N \<and>
     length (bm_a m) = N \<and> length (bm_inva m) = N \<and> length (bm_t_vector m) = N \<and> length (bm_g_amb m) = n + EXTRA \<and>
     rows_ok (bm_border m) n 4 \<and> lateral_agrees 0 (bm_lateral m) (lateral_zero n))"

definition leak_at :: "block_model_t \<Rightarrow> nat \<Rightarrow> real" where
  "leak_at m i = node_leak (bm_g_amb m) (bm_n_units m) i"

definition R_ok :: "flp_store \<Rightarrow> block_model_t \<Rightarrow> bool" where
  "R_ok fs m \<longleftrightarrow> block_sized fs m \<and> bm_r_ready m \<and> (let N = bm_n_nodes m; B = mat_at (bm_b m) in
     conductive 0 N DELTA B \<and> (\<forall>i < N. (\<Sum>j < N. B i j) = leak_at m i) \<and> (\<forall>k < bm_n_units m + EXTRA. 0 \<le> bm_g_amb m ! k) \<and>
     (\<forall>k < SINK_C_W. bm_g_amb m ! (bm_n_units m + k) = 0) \<and> permutes_idx (bm_p m) N \<and> factored N N B (bm_p m) (mat_at (bm_lu m)) \<and> (\<forall>i < N. mat_at (bm_lu m) i i \<noteq> 0))"

lemma alloc_sized:
  assumes "m = alloc_block_model fs config fp"
  shows "block_sized fs m" "bm_flp m = fp" "bm_config m = config" "bm_n_units m = n_units (fs fp)"
    "\<not> bm_r_ready m" "\<not> bm_c_ready m"
  using assms
  by (simp_all add: alloc_block_model_def Let_def block_sized_def dmatrix_ok rows_ok_def lateral_agrees_def agrees_def dvector_def)

section \<open>Coupling\<close>

text \<open>
  The conductance of a slab, and the conductances that must reach the tolerance of the
  decomposition: through the layers under every block, from every block and every outer node
  of the package to the ambient, and between the nodes of the package.
\<close>

definition slab :: "real \<Rightarrow> real \<Rightarrow> real \<Rightarrow> real" where
  "slab k t ar = k * ar / t"

definition well_coupled :: "thermal_config_t \<Rightarrow> flp_t \<Rightarrow> package_RC_t \<Rightarrow> bool" where
  "well_coupled c flp pack \<longleftrightarrow> (\<forall>i < n_units flp. DELTA \<le> slab (k_chip c) (t_chip c) (area_of flp i) \<and>
       DELTA \<le> slab (k_interface c) (t_interface c) (area_of flp i) \<and>
       DELTA \<le> slab (k_spreader c) (t_spreader c) (area_of flp i) \<and> DELTA \<le> ambient_of c flp i) \<and>
     DELTA \<le> 1 / r_sp_per_x pack \<and> DELTA \<le> 1 / r_sp_per_y pack \<and> DELTA \<le> 1 / (r_hs pack + r_hs2_x pack) \<and>
     DELTA \<le> 1 / (r_hs pack + r_hs2_y pack) \<and> DELTA \<le> 1 / (r_hs_per pack + r_amb_per pack)"

lemma vval_slab: "vval k t ar = 2 * slab k t ar"
  by (simp add: vval_def slab_def)

text \<open>Every node is a block in a layer or a node of the package.\<close>

lemma node_cases:
  assumes "i < nodes n"
  obtains (silicon) "i < n" | (interface) k where "k < n" "i = IFACE * n + k" | (spreader) k where "k < n" "i = HSP * n + k"
    | (sink) k where "k < n" "i = HSINK * n + k" | (package) k where "k < EXTRA" "i = NL * n + k"
proof -
  consider "i < n" | "n \<le> i" "i < 2 * n" | "2 * n \<le> i" "i < 3 * n" | "3 * n \<le> i" "i < 4 * n" | "4 * n \<le> i" by linarith
  then show thesis
  proof cases
    case 2 with interface [of "i - n"] show thesis by (simp add: layer_defs)
  next
    case 3 with spreader [of "i - 2 * n"] show thesis by (simp add: layer_defs)
  next
    case 4 with sink [of "i - 3 * n"] show thesis by (simp add: layer_defs)
  next
    case 5 with package [of "i - 4 * n"] assms show thesis by (simp add: layer_defs)
  qed (rule silicon)
qed

lemma node_leak_simps:
  assumes "k < n"
  shows "node_leak g n k = 0" "node_leak g n (IFACE * n + k) = 0" "node_leak g n (HSP * n + k) = 0"
    "node_leak g n (HSINK * n + k) = g ! k"
  using assms by (simp_all add: node_leak_def layer_defs)

lemma node_leak_package: "node_leak g n (NL * n + k) = (if SINK_C_W \<le> k then g ! (n + k) else 0)"
  by (simp add: node_leak_def)

text \<open>The matrix that the nonnegative conductances and their leaks give.\<close>

definition network_of :: "dmat \<Rightarrow> real list \<Rightarrow> nat \<Rightarrow> (nat \<Rightarrow> nat \<Rightarrow> real) \<Rightarrow> bool" where
  "network_of g g_amb n B \<longleftrightarrow>
     (\<forall>i < nodes n. \<forall>j < nodes n. i \<noteq> j \<longrightarrow> B i j = - series (mat_at g i j) (mat_at g j i)) \<and>
     (\<forall>i < nodes n. (\<Sum>j < nodes n. B i j) = node_leak g_amb n i)"

lemma network_conductive:
  assumes g: "nonneg_mat (nodes n) g" and B: "network_of g g_amb n B"
    and v: "\<And>k. k < n \<Longrightarrow> list_all (holds g) (vertical_entries c flp n k)" and p: "list_all (holds g) (package_entries pack n)"
    and amb: "\<And>k. k < n \<Longrightarrow> g_amb ! k = ambient_of c flp k" "\<And>k. k < EXTRA \<Longrightarrow> g_amb ! (n + k) = package_leak pack k"
    and pack: "pack_R_ok pack" and nn: "\<And>k. k < n \<Longrightarrow> 0 \<le> ambient_of c flp k" and w: "well_coupled c flp pack" and n: "n = n_units flp"
  shows "conductive 0 (nodes n) DELTA B"
proof -
  let ?N = "nodes n"
  have off: "B i j = - series (mat_at g i j) (mat_at g j i)" if "i < ?N" "j < ?N" "i \<noteq> j" for i j
    using B that by (simp add: network_of_def)
  have leak: "leak 0 ?N B i = node_leak g_amb n i" if "i < ?N" for i
    using B that by (simp add: network_of_def leak_def atLeast0LessThan)
  have gv: "\<And>k. k < n \<Longrightarrow> mat_at g k (IFACE * n + k) = 2 * slab (k_chip c) (t_chip c) (area_of flp k) \<and>
      mat_at g (IFACE * n + k) k = 2 * slab (k_chip c) (t_chip c) (area_of flp k)"
    "\<And>k. k < n \<Longrightarrow> mat_at g (IFACE * n + k) (HSP * n + k) = 2 * slab (k_interface c) (t_interface c) (area_of flp k) \<and>
      mat_at g (HSP * n + k) (IFACE * n + k) = 2 * slab (k_interface c) (t_interface c) (area_of flp k)"
    "\<And>k. k < n \<Longrightarrow> mat_at g (HSP * n + k) (HSINK * n + k) = 2 * slab (k_spreader c) (t_spreader c) (area_of flp k) \<and>
      mat_at g (HSINK * n + k) (HSP * n + k) = 2 * slab (k_spreader c) (t_spreader c) (area_of flp k)"
    using v by (simp_all add: vertical_entries_def holds_def vval_slab)
  have nl: "0 \<le> node_leak g_amb n i" if "i < ?N" for i
    using that
  proof (cases rule: node_cases)
    case (package k)
    have "0 \<le> package_leak pack k" using pack by (simp add: package_leak_def pack_R_ok_def)
    with package show ?thesis using amb(2) by (simp add: node_leak_package)
  qed (simp_all add: node_leak_simps amb nn)
  have le: "mat_at g i j = 2 * s \<and> mat_at g j i = 2 * s \<Longrightarrow> DELTA \<le> s \<Longrightarrow> i < j \<Longrightarrow> j < ?N \<Longrightarrow>
      \<exists>j. i < j \<and> j < ?N \<and> B i j \<le> - DELTA" for i j s
    using off [of i j] by (intro exI [of _ j]) (simp add: series_same)
  have gp: "list_all (holds g) (package_entries pack n)" by (rule p)
  have "DELTA \<le> node_leak g_amb n i \<or> (\<exists>j. i < j \<and> j < ?N \<and> B i j \<le> - DELTA)" if i: "i < ?N" for i
    using i
  proof (cases rule: node_cases)
    case silicon
    then show ?thesis using le [OF gv(1)] w n by (simp add: well_coupled_def layer_defs)
  next
    case (interface k)
    then show ?thesis using le [OF gv(2)] w n by (simp add: well_coupled_def layer_defs)
  next
    case (spreader k)
    then show ?thesis using le [OF gv(3)] w n by (simp add: well_coupled_def layer_defs)
  next
    case (sink k)
    then show ?thesis using w n amb(1) by (simp add: node_leak_simps well_coupled_def)
  next
    case (package k)
    have W: "DELTA \<le> 1 / r_sp_per_x pack" "DELTA \<le> 1 / r_sp_per_y pack" "DELTA \<le> 1 / (r_hs pack + r_hs2_x pack)"
      "DELTA \<le> 1 / (r_hs pack + r_hs2_y pack)" "DELTA \<le> 1 / (r_hs_per pack + r_amb_per pack)"
      using w by (auto simp: well_coupled_def)
    have l: "DELTA \<le> node_leak g_amb n (NL * n + k)" if "8 \<le> k"
      using that W(5) amb(2) [OF package(1)] by (simp add: node_leak_package package_leak_def node_defs)
    have e: "\<exists>j. NL * n + k < j \<and> j < ?N \<and> B (NL * n + k) j \<le> - DELTA" if "k < 8"
    proof -
      have "k + 4 < EXTRA" using that by (simp add: EXTRA_def)
      then have j: "NL * n + k < NL * n + (k + 4)" "NL * n + (k + 4) < ?N" by simp_all
      have k8: "k \<in> {0, 1, 2, 3, 4, 5, 6, 7}" using that by auto
      have two: "2 * DELTA \<le> 2 / x" if "DELTA \<le> 1 / x" for x using that by simp
      have "2 * DELTA \<le> mat_at g (NL * n + k) (NL * n + (k + 4)) \<and>
          mat_at g (NL * n + (k + 4)) (NL * n + k) = mat_at g (NL * n + k) (NL * n + (k + 4))"
        using k8 gp W(1-4) [THEN two] unfolding package_entries_def list.pred_inject holds_def fst_conv snd_conv node_defs
        by (elim insertE emptyE; simp)
      with le [OF _ _ j, of "mat_at g (NL * n + k) (NL * n + (k + 4)) / 2"] show ?thesis by simp
    qed
    show ?thesis
    proof (cases "k < 8")
      case True
      with e package(2) show ?thesis by simp
    next
      case False
      with l package(2) show ?thesis by simp
    qed
  qed
  moreover have "B i j = B j i \<and> (i \<noteq> j \<longrightarrow> B i j \<le> 0)" if ij: "i < ?N" "j < ?N" for i j
  proof (cases "i = j")
    case False
    have "0 \<le> series (mat_at g i j) (mat_at g j i)" using g ij by (simp add: nonneg_mat_def series_nonneg)
    then show ?thesis
      using off [OF ij False] off [OF ij(2,1)] False series_sym [of "mat_at g i j" "mat_at g j i"] by linarith
  qed simp
  ultimately show ?thesis
    unfolding conductive_def using leak nl by simp
qed

section \<open>The routine\<close>

lemma sizedD:
  assumes "block_sized fs m" "n = bm_n_units m"
  shows "n_units (fs (bm_flp m)) = n" "bm_n_nodes m = nodes n" "dmat_ok (bm_b m) (nodes n) (nodes n)"
    "dmat_ok (bm_c m) (nodes n) (nodes n)" "dmat_ok (bm_lu m) (nodes n) (nodes n)" "dmat_ok (bm_g m) (nodes n) (nodes n)"
    "dmat_ok (bm_len m) n n" "length (bm_p m) = nodes n" "length (bm_a m) = nodes n" "length (bm_inva m) = nodes n"
    "length (bm_t_vector m) = nodes n" "length (bm_g_amb m) = n + EXTRA" "rows_ok (bm_border m) n 4"
    "lateral_agrees 0 (bm_lateral m) (lateral_zero n)"
  using assms unfolding block_sized_def Let_def by blast+

text \<open>The matrix \<open>g\<close> and the vector \<open>g_amb\<close> after all statements that fill them.\<close>

lemma net_start:
  assumes "nonneg_mat (nodes n) g" "length g_amb = n + EXTRA" "\<forall>k < n + EXTRA. g_amb ! k = 0"
  shows "net_inv c flp n 0 (g, g_amb)"
  using assms by (simp add: net_inv_def)

lemma zero_dmatrix_ok:
  assumes "dmat_ok g N N"
  shows "\<exists>g'. zero_dmatrix g N N = Inr g' \<and> nonneg_mat N g'"
proof -
  have "mat_at (g\<lparr>cells := replicate (N * N) 0\<rparr>) x y = 0" if "x < N" "y < N" for x y
    using that assms index_in_matrix [OF that] by (simp add: mat_at_def dmat_ok_def)
  then show ?thesis using assms by (simp add: zero_dmatrix_def zero_dvector_def dmat_ok_def nonneg_mat_def)
qed

definition populated :: "thermal_config_t \<Rightarrow> flp_t \<Rightarrow> package_RC_t \<Rightarrow> nat \<Rightarrow> dmat \<Rightarrow> real list \<Rightarrow> bool" where
  "populated c flp pack n g g_amb \<longleftrightarrow> nonneg_mat (nodes n) g \<and> length g_amb = n + EXTRA \<and>
     (\<forall>k < n. list_all (holds g) (vertical_entries c flp n k)) \<and> list_all (holds g) (package_entries pack n) \<and>
     (\<forall>k < n. g_amb ! k = ambient_of c flp k) \<and> (\<forall>k < EXTRA. g_amb ! (n + k) = package_leak pack k)"

lemma package_step:
  assumes "net_inv c flp n n (g, g_amb)" "pack_R_ok pack" "chip_ok flp" "layers_ok c" "n = n_units flp"
  shows "\<exists>g' g_amb'. package_conductances pack n g = Inr g' \<and> package_ambient pack n g_amb = Inr g_amb' \<and>
    populated c flp pack n g' g_amb'"
proof -
  have I: "nonneg_mat (nodes n) g" "length g_amb = n + EXTRA" "\<And>k. k < n \<Longrightarrow> list_all (holds g) (vertical_entries c flp n k)"
    "\<And>k. k < n + EXTRA \<Longrightarrow> g_amb ! k = (if k < n then ambient_of c flp k else 0)"
    using assms(1) by (auto simp: net_inv_def)
  obtain g' where g': "package_conductances pack n g = Inr g'" "nonneg_mat (nodes n) g'" "list_all (holds g') (package_entries pack n)"
    "same_outside (nodes n) (package_entry n) g g'"
    using package_conductances_ok [OF assms(2) I(1)] by blast
  obtain a where a: "package_ambient pack n g_amb = Inr a" "length a = n + EXTRA" "\<forall>k < n. a ! k = g_amb ! k"
    "\<forall>k < EXTRA. a ! (n + k) = package_leak pack k"
    using package_ambient_ok [OF assms(2) I(2)] I(4) by auto
  have "list_all (holds g') (vertical_entries c flp n k)" if k: "k < n" for k
  proof -
    have "list_all (entry_ok (nodes n)) (vertical_entries c flp n k)"
      using vertical_g_ok [OF _ _ area_pos [OF assms(3)], of _ _ k] assms(4,5) k
      by (simp add: vertical_entries_def entry_ok_def layer_defs EXTRA_def layers_ok_def less_imp_le)
    moreover have "package_entry n x y = package_entry n y x" for x y by (auto simp: package_entry_def)
    ultimately show ?thesis
      using vertical_disjoint(2) [OF k k] by (intro holds_outside [OF I(3) [OF k] _ g'(4)]) blast+
  qed
  then have "populated c flp pack n g' a" using g'(2,3) a(2,3,4) I(4) by (simp add: populated_def)
  with g'(1) a(1) show ?thesis by blast
qed

lemma populated_network:
  assumes "populated c flp pack n g g_amb" "dmat_ok b (nodes n) (nodes n)"
  shows "\<exists>b1 b'. fill_b g (nodes n) b = Inr b1 \<and> for_up 0 (nodes n) (fill_diag g_amb n) b1 = Inr b' \<and>
    dmat_ok b' (nodes n) (nodes n) \<and> network_of g g_amb n (mat_at b')"
proof -
  let ?N = "nodes n"
  have g: "nonneg_mat ?N g" "length g_amb = n + EXTRA" using assms(1) by (auto simp: populated_def)
  obtain b1 where b1: "fill_b g ?N b = Inr b1" "dmat_ok b1 ?N ?N"
    "\<forall>i < ?N. \<forall>j < ?N. i \<noteq> j \<longrightarrow> mat_at b1 i j = - series (mat_at g i j) (mat_at g j i)"
    using fill_b_ok [OF g(1) assms(2)] by blast
  obtain b2 where b2: "for_up 0 ?N (fill_diag g_amb n) b1 = Inr b2" "dmat_ok b2 ?N ?N"
    "\<forall>i < ?N. \<forall>j < ?N. mat_at b2 i j = (if i = j then node_leak g_amb n i -
      (\<Sum>j \<in> {..<?N} - {i}. mat_at b1 i j) else mat_at b1 i j)"
    using diag_loop [OF b1(2) g(2)] by blast
  have "(\<Sum>j < ?N. mat_at b2 i j) = node_leak g_amb n i" if i: "i < ?N" for i
  proof (rule row_sum [OF i])
    have "(\<Sum>j \<in> {..<?N} - {i}. mat_at b1 i j) = (\<Sum>j \<in> {..<?N} - {i}. mat_at b2 i j)"
      by (rule sum.cong) (use b2(3) i in auto)
    then show "mat_at b2 i i = node_leak g_amb n i - (\<Sum>j \<in> {..<?N} - {i}. mat_at b2 i j)" using b2(3) i by simp
  qed
  then have "network_of g g_amb n (mat_at b2)" using b1(3) b2(3) by (simp add: network_of_def)
  with b1(1) b2(1,2) show ?thesis by blast
qed

lemma copy_whole:
  assumes "dmat_ok d N N" "dmat_ok s N N"
  shows "\<exists>d'. copy_dmatrix d s N N = Inr d' \<and> dmat_ok d' N N \<and> mat_at d' = mat_at s"
  using assms by (auto simp: copy_dmatrix_def copy_vector_def dmat_ok_def mat_at_def fun_eq_iff)

definition fits :: "thermal_config_t \<Rightarrow> flp_t \<Rightarrow> real \<Rightarrow> real \<Rightarrow> bool" where
  "fits c flp w l \<longleftrightarrow> chip_ok flp \<and> layers_ok c \<and> get_total_width flp = Inr w \<and> get_total_height flp = Inr l \<and> package_ok c w l"

text \<open>What the routine leaves, the models being the same but for the parts it computes.\<close>

definition same_setting :: "block_model_t \<Rightarrow> block_model_t \<Rightarrow> bool" where
  "same_setting m m' \<longleftrightarrow> bm_flp m' = bm_flp m \<and> bm_config m' = bm_config m \<and> bm_n_units m' = bm_n_units m \<and>
     bm_n_nodes m' = bm_n_nodes m \<and> bm_base_n_units m' = bm_base_n_units m"

lemma populate_R_body:
  assumes "block_sized fs m" "fits (bm_config m) (fs (bm_flp m)) w l"
    and "populate_package_R (bm_pack m) (bm_config m) w l = Inr pack"
    and "well_coupled (bm_config m) (fs (bm_flp m)) pack"
  shows "\<exists>m'. populate_R_model_block fs m (bm_flp m) = Inr m' \<and> same_setting m m' \<and> R_ok fs m' \<and> bm_pack m' = pack \<and>
    bm_c_ready m' = bm_c_ready m \<and> bm_c m' = bm_c m \<and> bm_a m' = bm_a m \<and> bm_inva m' = bm_inva m \<and> bm_t_vector m' = bm_t_vector m \<and>
    populated (bm_config m) (fs (bm_flp m)) pack (bm_n_units m) (bm_g m') (bm_g_amb m') \<and>
    network_of (bm_g m') (bm_g_amb m') (bm_n_units m) (mat_at (bm_b m'))"
proof -
  define n where "n = bm_n_units m"
  let ?flp = "fs (bm_flp m)" and ?c = "bm_config m" and ?N = "nodes n"
  note z = sizedD [OF assms(1) n_def]
  have f: "chip_ok ?flp" "layers_ok ?c" "get_total_width ?flp = Inr w" "get_total_height ?flp = Inr l" "package_ok ?c w l"
    using assms(2) by (auto simp: fits_def)
  have n: "n = n_units ?flp" using z(1) by simp
  have rc: "0 \<le> r_convec ?c" and sp: "w < s_spreader ?c" "l < s_spreader ?c" "s_spreader ?c < s_sink ?c"
    using f(5) by (auto simp: package_ok_def)
  have pk: "pack_R_ok pack" using populate_package_R_ok [OF f(5), of "bm_pack m"] assms(3) by auto
  have la: "lateral_agrees 0 (bm_lateral m) (lateral_of ?c ?flp)"
    using z(14) lateral_zero_agrees [of ?flp ?c] n by (simp add: lateral_agrees_def agrees_def)
  have lat: "for_up 0 n (unit_lateral ?c ?flp) (bm_lateral m) = Inr (lateral_of ?c ?flp)"
    using lateral_loop [OF f(1,2) la] n by simp
  obtain len where len: "fill_len ?flp n (bm_len m) = Inr len" "reads_as len n (shared ?flp)"
    using fill_len_ok [OF f(1) n z(7)] by blast
  obtain st where st: "for_up 0 n (unit_border (lateral_of ?c ?flp) ?flp w l) (bm_border m, \<lambda>_. 0, \<lambda>_. 0) = Inr st" "sides_ok n st"
    using border_loop [OF f(1,2) n z(13)] by blast
  obtain g0 where g0: "zero_dmatrix (bm_g m) ?N ?N = Inr g0" "nonneg_mat ?N g0" using zero_dmatrix_ok [OF z(6)] by blast
  have a0: "zero_dvector (bm_g_amb m) (n + EXTRA) = Inr (replicate (n + EXTRA) 0)" using z(12) by (simp add: zero_dvector_def)
  have s0: "net_inv ?c ?flp n 0 (g0, replicate (n + EXTRA) 0)" by (rule net_start [OF g0(2)]) simp_all
  obtain g1 a1 where g1: "for_up 0 n (unit_conductances ?c pack (lateral_of ?c ?flp) ?flp len st n) (g0, replicate (n + EXTRA) 0) = Inr (g1, a1)"
    "net_inv ?c ?flp n n (g1, a1)"
    using conductance_loop [OF f(1,2) rc n pk st(2) len(2) s0] by auto
  obtain g2 a2 where g2: "package_conductances pack n g1 = Inr g2" "package_ambient pack n a1 = Inr a2" "populated ?c ?flp pack n g2 a2"
    using package_step [OF g1(2) pk f(1,2) n] by blast
  obtain b1 b2 where b: "fill_b g2 ?N (bm_b m) = Inr b1" "for_up 0 ?N (fill_diag a2 n) b1 = Inr b2" "dmat_ok b2 ?N ?N"
    "network_of g2 a2 n (mat_at b2)" using populated_network [OF g2(3) z(3)] by blast
  have amb: "0 \<le> ambient_of ?c ?flp k" if "k < n" for k using unit_ambient_ok(2) [OF f(2) rc f(1)] n that by (simp add: less_imp_le)
  have cond: "conductive 0 ?N DELTA (mat_at b2)"
    using g2(3) by (intro network_conductive [OF _ b(4) _ _ _ _ pk amb assms(4) n]) (auto simp: populated_def)
  obtain lu0 where lu0: "copy_dmatrix (bm_lu m) b2 ?N ?N = Inr lu0" "dmat_ok lu0 ?N ?N" "mat_at lu0 = mat_at b2"
    using copy_whole [OF z(5) b(3)] by blast
  obtain lu where lu: "lupdcmp lu0 ?N (bm_p m) True = Inr (lu, [0..<?N])" "dmat_ok lu ?N ?N" "permutes_idx [0..<?N] ?N"
    "factored ?N ?N (mat_at b2) [0..<?N] (mat_at lu)" "\<forall>i < ?N. DELTA \<le> mat_at lu i i"
    using lupdcmp_conductive [OF lu0(2) z(8) _ order_refl, of True] cond unfolding lu0(3) by blast
  let ?m = "m\<lparr>bm_lateral := lateral_of ?c ?flp, bm_len := len, bm_pack := pack, bm_border := fst st, bm_g := g2, bm_g_amb := a2,
       bm_b := b2, bm_lu := lu, bm_p := [0..<?N], bm_flp := bm_flp m, bm_r_ready := True\<rparr>"
  have "\<not> (w > s_sink ?c \<or> l > s_sink ?c \<or> w > s_spreader ?c \<or> l > s_spreader ?c)" using sp by simp
  moreover have "\<not> (bm_flp m \<noteq> bm_flp m \<or> bm_n_units m \<noteq> n_units ?flp \<or> bm_n_nodes m \<noteq> nodes (n_units ?flp))"
    using n n_def z(2) by simp
  ultimately have r: "populate_R_model_block fs m (bm_flp m) = Inr ?m"
    unfolding populate_R_model_block_def Let_def n [symmetric] f(3,4) rbind_Inr if_not_P
    by (simp only: lat len(1) assms(3) st(1) g0(1) a0 g1(1) g2(1,2) b(1,2) lu0(1) lu(1) rbind_Inr prod.case if_not_P if_False)
  have szd: "block_sized fs ?m"
    using z n lat len(2) st(2) lu(2) b(3) g2(3)
    by (simp add: block_sized_def n_def [symmetric] reads_as_def sides_ok_def populated_def nonneg_mat_def split_beta
        lateral_agrees_def agrees_def lateral_of_lengths lateral_zero_def dvector_def)
  have amb_nn: "0 \<le> a2 ! k" if "k < n + EXTRA" for k
  proof (cases "k < n")
    case True
    then show ?thesis using amb g2(3) by (simp add: populated_def)
  next
    case False
    then have "a2 ! (n + (k - n)) = package_leak pack (k - n)" using g2(3) that unfolding populated_def by (metis add_diff_inverse_nat add_less_cancel_left)
    then show ?thesis using False pk by (simp add: package_leak_def pack_R_ok_def)
  qed
  have "mat_at lu i i \<noteq> 0" if "i < ?N" for i using lu(5) that DELTA_pos by (metis less_irrefl less_le_trans)
  moreover have "a2 ! (n + k) = 0" if "k < SINK_C_W" for k
    using g2(3) that by (simp add: populated_def package_leak_def node_defs)
  ultimately have "R_ok fs ?m"
    using szd cond lu(3,4) amb_nn b(4) z(2)
    unfolding R_ok_def Let_def by (simp add: n_def [symmetric] network_of_def leak_at_def)
  with r g2(3) b(4) show ?thesis by (intro exI [of _ ?m]) (simp add: same_setting_def n_def)
qed

end
