(* ===== verification/Block_Ops.thy ===== *)
theory Block_Ops
  imports Block RK4
begin

text \<open>
  The other operations of \<open>hotspot_tool/temperature_block.c\<close>: the capacitances, the steady state and
  the transient solver, and the vectors of temperatures.
\<close>

section \<open>Capacitances\<close>

definition unit_capacitances :: "thermal_config_t \<Rightarrow> flp_t \<Rightarrow> nat \<Rightarrow> nat \<Rightarrow> real list \<Rightarrow> real list res" where
  "unit_capacitances config flp n i a = rbind (rd (units flp) i) (\<lambda>u. let ar = height u * width u in
     in_order [
       vput i (Inr (getcap (p_chip config) (t_chip config) ar)),
       vput (IFACE * n + i) (Inr (getcap (p_interface config) (t_interface config) ar)),
       vput (HSP * n + i) (Inr (getcap (p_spreader config) (t_spreader config) ar)),
       vput (HSINK * n + i) (rbind (fdiv (C_FACTOR * c_convec config) (s_sink config * s_sink config)) (\<lambda>q.
         let c_amb = q * ar in Inr (getcap (p_sink config) (t_sink config) ar + c_amb)))] a)"

definition package_capacitances :: "package_RC_t \<Rightarrow> nat \<Rightarrow> real list \<Rightarrow> real list res" where
  "package_capacitances pack n = in_order [
     vput (NL * n + SP_S) (Inr (c_sp_per_y pack)), vput (NL * n + SP_N) (Inr (c_sp_per_y pack)),
     vput (NL * n + SP_W) (Inr (c_sp_per_x pack)), vput (NL * n + SP_E) (Inr (c_sp_per_x pack)),
     vput (NL * n + SINK_C_S) (Inr (c_hs_c_per_y pack + c_amb_c_per_y pack)),
     vput (NL * n + SINK_C_N) (Inr (c_hs_c_per_y pack + c_amb_c_per_y pack)),
     vput (NL * n + SINK_C_W) (Inr (c_hs_c_per_x pack + c_amb_c_per_x pack)),
     vput (NL * n + SINK_C_E) (Inr (c_hs_c_per_x pack + c_amb_c_per_x pack)),
     vput (NL * n + SINK_W) (Inr (c_hs_per pack + c_amb_per pack)),
     vput (NL * n + SINK_E) (Inr (c_hs_per pack + c_amb_per pack)),
     vput (NL * n + SINK_S) (Inr (c_hs_per pack + c_amb_per pack)),
     vput (NL * n + SINK_N) (Inr (c_hs_per pack + c_amb_per pack))]"

definition invert_diag :: "nat \<Rightarrow> real list \<Rightarrow> real list \<Rightarrow> real list res" where
  "invert_diag m a inva = for_up 0 m (\<lambda>i inva. rbind (rd a i) (\<lambda>x. vput i (fdiv 1 x) inva)) inva"

definition populate_C_model_block :: "flp_store \<Rightarrow> block_model_t \<Rightarrow> nat \<Rightarrow> block_model_t res" where
  "populate_C_model_block fs model fp =
    (let flp = fs fp; config = bm_config model; n = n_units flp; m = NL * n + EXTRA in
     if \<not> bm_r_ready model then Inl (Fatal ''R model not ready'')
     else if bm_flp model \<noteq> fp \<or> bm_n_units model \<noteq> n \<or> bm_n_nodes model \<noteq> m
     then Inl (Fatal ''different floorplans for R and C models!'')
     else
     rbind (get_total_width flp) (\<lambda>w_chip. rbind (get_total_height flp) (\<lambda>l_chip.
     rbind (populate_package_C (bm_pack model) config w_chip l_chip) (\<lambda>pack.
     rbind (for_up 0 n (unit_capacitances config flp n) (bm_a model)) (\<lambda>a.
     rbind (package_capacitances pack n a) (\<lambda>a.
     rbind (invert_diag m a (bm_inva model)) (\<lambda>inva.
     rbind (diagmatmult (bm_c model) inva (bm_b model) m) (\<lambda>c.
     Inr (model\<lparr>bm_pack := pack, bm_a := a, bm_inva := inva, bm_c := c, bm_c_ready := True\<rparr>)))))))))"

section \<open>Steady state\<close>

text \<open>\<open>zero_dvector(&v[off], n)\<close>.\<close>

definition zero_at :: "real list \<Rightarrow> nat \<Rightarrow> nat \<Rightarrow> real list res" where
  "zero_at v off n = (if off + n \<le> length v then Inr (take off v @ replicate n 0 @ drop (off + n) v) else Inl OutOfBounds)"

definition set_internal_power_block :: "block_model_t \<Rightarrow> real list \<Rightarrow> real list res" where
  "set_internal_power_block model pw =
    (let n = bm_n_units model in
     rbind (zero_at pw (IFACE * n) n) (\<lambda>pw.
     rbind (zero_at pw (HSP * n) n) (\<lambda>pw.
     for_up 0 (n + EXTRA) (\<lambda>i pw. rbind (rd (bm_g_amb model) i) (\<lambda>g.
       wr pw (HSINK * n + i) (ambient (bm_config model) * g))) pw)))"

definition steady_state_temp_block :: "block_model_t \<Rightarrow> real list \<Rightarrow> real list \<Rightarrow> (real list \<times> real list) res" where
  "steady_state_temp_block model pw temp =
    (if \<not> bm_r_ready model then Inl (Fatal ''R model not ready'') else
     rbind (set_internal_power_block model pw) (\<lambda>pw.
     rbind (lusolve (bm_lu model) (bm_n_nodes model) (bm_p model) pw temp True) (\<lambda>temp. Inr (pw, temp))))"

section \<open>Transient temperatures\<close>

definition slope_fn_block :: "block_model_t \<Rightarrow> real list \<Rightarrow> real list \<Rightarrow> real list \<Rightarrow> real list res" where
  "slope_fn_block model y p dy =
    (let n = bm_n_nodes model in
     rbind (matvectmult (dvector n) (bm_c model) y n) (\<lambda>t.
     for_up 0 n (\<lambda>i dy. rbind (rd p i) (\<lambda>x. rbind (rd t i) (\<lambda>z. wr dy i (x - z)))) dy))"

text \<open>
  The loop over the steps from time \<open>t\<close>; a run that never ends is \<open>None\<close>. The scratch pad of the
  model is the power vector of the solver.
\<close>

partial_function (option) transient_loop ::
  "block_model_t \<Rightarrow> real \<Rightarrow> real \<Rightarrow> real \<Rightarrow> real list \<Rightarrow> real list res option" where
  "transient_loop model time_elapsed t new_h temp =
    (if t < time_elapsed \<and> new_h \<ge> MIN_STEP * DELTA then
       (case rk4 temp (bm_n_nodes model) new_h temp (\<lambda>y. slope_fn_block model y (bm_t_vector model)) of
          None \<Rightarrow> None
        | Some (Inl e) \<Rightarrow> Some (Inl e)
        | Some (Inr (new_h, h, temp)) \<Rightarrow>
            transient_loop model time_elapsed (t + h) (MINd new_h (time_elapsed - t - h)) temp)
     else Some (Inr temp))"

text \<open>
  \<open>scratch\<close> tells whether the caller passed the scratch pad of the model as the vector of
  temperatures.
\<close>

definition compute_temp_block ::
  "block_model_t \<Rightarrow> real list \<Rightarrow> real list \<Rightarrow> bool \<Rightarrow> real \<Rightarrow> (block_model_t \<times> real list \<times> real list) res option" where
  "compute_temp_block model pw temp scratch time_elapsed =
    (if \<not> bm_r_ready model \<or> \<not> bm_c_ready model then Some (Inl (Fatal ''block model not ready''))
     else if scratch then Some (Inl (Fatal ''output same as scratch pad''))
     else case rbind (set_internal_power_block model pw) (\<lambda>pw.
         rbind (diagmatvectmult (bm_t_vector model) (bm_inva model) pw (bm_n_nodes model)) (\<lambda>t_vector.
         Inr (pw, model\<lparr>bm_t_vector := t_vector\<rparr>))) of
       Inl e \<Rightarrow> Some (Inl e)
     | Inr (pw, model) \<Rightarrow>
        (case transient_loop model time_elapsed 0 MIN_STEP temp of
           None \<Rightarrow> None
         | Some r \<Rightarrow> Some (rbind r (\<lambda>temp. Inr (model, pw, temp)))))"

section \<open>Vectors of temperatures\<close>

definition hotspot_vector_block :: "block_model_t \<Rightarrow> real list" where
  "hotspot_vector_block model = dvector (bm_n_nodes model)"

definition trim_hotspot_vector_block :: "block_model_t \<Rightarrow> real list \<Rightarrow> real list \<Rightarrow> nat \<Rightarrow> nat \<Rightarrow> real list res" where
  "trim_hotspot_vector_block model dst src at_i sz =
     rbind (for_up 0 (min at_i (bm_n_nodes model)) (\<lambda>i dst. rbind (rd src i) (wr dst i)) dst) (\<lambda>dst.
     for_up (at_i + sz) (bm_n_nodes model) (\<lambda>i dst. rbind (rd src i) (wr dst (i - sz))) dst)"

definition resize_thermal_model_block :: "block_model_t \<Rightarrow> nat \<Rightarrow> block_model_t res" where
  "resize_thermal_model_block model n =
    (if n > bm_base_n_units model then Inl (Fatal ''resizing block model to more than the allocated space'')
     else let m = NL * n + EXTRA in
       Inr (model\<lparr>bm_n_units := n, bm_n_nodes := m, bm_len := resize_dmatrix (bm_len model) n n,
         bm_g := resize_dmatrix (bm_g model) m m, bm_b := resize_dmatrix (bm_b model) m m,
         bm_c := resize_dmatrix (bm_c model) m m, bm_lu := resize_dmatrix (bm_lu model) m m\<rparr>))"

definition set_temp_block :: "block_model_t \<Rightarrow> real list \<Rightarrow> real \<Rightarrow> real list res" where
  "set_temp_block model temp val = for_up 0 (bm_n_nodes model) (\<lambda>i temp. wr temp i val) temp"

definition copy_temp_block :: "flp_store \<Rightarrow> block_model_t \<Rightarrow> real list \<Rightarrow> real list \<Rightarrow> real list res" where
  "copy_temp_block fs model dst src = copy_dvector dst src (NL * n_units (fs (bm_flp model)) + EXTRA)"

definition find_max_temp_block :: "block_model_t \<Rightarrow> real list \<Rightarrow> real res" where
  "find_max_temp_block model temp = for_up 0 (bm_n_units model) (\<lambda>i mx. rbind (rd temp i) (\<lambda>x.
     if x < 0 then Inl (Fatal ''negative temperature!'') else Inr (if mx < x then x else mx))) 0"

definition find_avg_temp_block :: "block_model_t \<Rightarrow> real list \<Rightarrow> real res" where
  "find_avg_temp_block model temp =
     rbind (for_up 0 (bm_n_units model) (\<lambda>i s. rbind (rd temp i) (\<lambda>x.
       if x < 0 then Inl (Fatal ''negative temperature!'') else Inr (s + x))) 0) (\<lambda>s.
     fdiv s (real (bm_n_units model)))"

text \<open>A part of the average over the sink: the nodes \<open>lo\<close> to \<open>hi\<close> of the package, with one weight.\<close>

definition sink_part :: "nat \<Rightarrow> real list \<Rightarrow> nat \<Rightarrow> nat \<Rightarrow> real \<Rightarrow> real \<Rightarrow> real res" where
  "sink_part n temp lo hi wt s = for_up lo (hi + 1) (\<lambda>i s. rbind (rd temp (i + NL * n)) (\<lambda>x.
     if x < 0 then Inl (Fatal ''negative temperature!'') else Inr (s + x * wt))) s"

definition calc_sink_temp_block :: "flp_store \<Rightarrow> block_model_t \<Rightarrow> real list \<Rightarrow> thermal_config_t \<Rightarrow> real res" where
  "calc_sink_temp_block fs model temp config =
    (let flp = fs (bm_flp model); n = n_units flp; spr = s_spreader config in
     rbind (get_total_width flp) (\<lambda>w. rbind (get_total_height flp) (\<lambda>h.
     let spr_size = spr * spr; sink_size = s_sink config * s_sink config in
     rbind (for_up 0 n (\<lambda>i s. rbind (rd temp (HSINK * n + i)) (\<lambda>x. rbind (rd (units flp) i) (\<lambda>u.
       if x < 0 then Inl (Fatal ''negative temperature!'') else Inr (s + x * (width u * height u))))) 0) (\<lambda>s.
     rbind (sink_part n temp SINK_C_W SINK_C_E (1 / 4 * (spr + h) * (spr - w)) s) (\<lambda>s.
     rbind (sink_part n temp SINK_C_N SINK_C_S (1 / 4 * (spr + w) * (spr - h)) s) (\<lambda>s.
     rbind (sink_part n temp SINK_W SINK_S (1 / 4 * (sink_size - spr_size)) s) (\<lambda>s.
     fdiv s sink_size)))))))"

end
