(* ===== verification/Block_C.thy ===== *)
theory Block_C
  imports Block_R Block_Ops RK4
begin

text \<open>
  \<open>populate_C_model_block\<close>: every node has a positive capacitance, and the matrix of the
  transient equation is the conductance matrix divided by the capacitances row by row.

  The initialised block model: the invariant that both initialisations establish, the power
  vector, and the steady state as the equilibrium of the network, with the balance of heat and
  the bound by the ambient temperature.
\<close>

section \<open>Products\<close>

lemma dot_loop:
  assumes "i < n" "length v = n" "length x = n" "\<And>j. j < n \<Longrightarrow> r j = Inr (F j)" "v ! i = 0"
  shows "for_up 0 n (\<lambda>j v. rbind (rd v i) (\<lambda>s. rbind (r j) (\<lambda>a. rbind (rd x j) (\<lambda>b. wr v i (s + a * b))))) v =
    Inr (v[i := (\<Sum>j < n. F j * x ! j)])"
proof -
  let ?s = "\<lambda>m. \<Sum>j < m. F j * x ! j"
  have "\<exists>w. for_up 0 n (\<lambda>j v. rbind (rd v i) (\<lambda>s. rbind (r j) (\<lambda>a. rbind (rd x j) (\<lambda>b. wr v i (s + a * b))))) v = Inr w \<and>
      w = v[i := ?s n]"
  proof (rule for_up_rule [where I = "\<lambda>m w. w = v[i := ?s m]"])
    show "v = v[i := ?s 0]" using assms(5) by (metis list_update_id lessThan_0 sum.empty)
  qed (use assms in auto)
  then show ?thesis by simp
qed

lemma matvectmult_ok:
  assumes "reads_as m n F" "length x = n" "length v = n"
  shows "matvectmult v m x n = Inr (map (\<lambda>i. \<Sum>j < n. F i j * x ! j) [0..<n])"
proof -
  let ?y = "map (\<lambda>i. \<Sum>j < n. F i j * x ! j) [0..<n]"
  have "\<exists>w. matvectmult v m x n = Inr w \<and> agrees n w ?y"
    unfolding matvectmult_def
  proof (rule for_up_rule [where I = "\<lambda>i w. agrees i w ?y"])
    fix i and w :: "real list" assume i: "i < n" and w: "agrees i w ?y"
    have len: "length w = n" using w by (simp add: agrees_def)
    have "for_up 0 n (\<lambda>j v. rbind (rd v i) (\<lambda>s. rbind (mget m i j) (\<lambda>a. rbind (rd x j) (\<lambda>b. wr v i (s + a * b))))) (w[i := 0]) =
        Inr ((w[i := 0])[i := ?y ! i])"
      using i len assms(2) reads_as_get [OF assms(1) i] by (subst dot_loop [where F = "F i"]) auto
    then show "\<exists>w'. rbind (wr w i 0) (for_up 0 n (\<lambda>j v. rbind (rd v i) (\<lambda>s. rbind (mget m i j) (\<lambda>a. rbind (rd x j) (\<lambda>b.
        wr v i (s + a * b)))))) = Inr w' \<and> agrees (Suc i) w' ?y"
      using i len agrees_step [OF w, of "?y ! i"] by simp
  qed (use assms(3) in \<open>auto simp: agrees_def\<close>)
  then show ?thesis using agrees_all [of ?y] by auto
qed

lemma diagmatvectmult_ok:
  assumes "length d = n" "length x = n" "length v = n"
  shows "diagmatvectmult v d x n = Inr (map (\<lambda>i. d ! i * x ! i) [0..<n])"
  unfolding diagmatvectmult_def by (rule fill_loop) (use assms in auto)

lemma diagmatmult_ok:
  assumes "dmat_ok c n n" "length d = n" "reads_as b n F"
  shows "\<exists>c'. diagmatmult c d b n = Inr c' \<and> reads_as c' n (\<lambda>i j. d ! i * F i j)"
proof -
  let ?I = "\<lambda>i k l. if k < i then d ! k * F k l else mat_at c k l"
  let ?J = "\<lambda>i j k l. if k < i \<or> k = i \<and> l < j then d ! k * F k l else mat_at c k l"
  have "\<exists>c'. diagmatmult c d b n = Inr c' \<and> reads_as c' n (?I n)"
    unfolding diagmatmult_def
  proof (rule for_up_rule [where I = "\<lambda>i t. reads_as t n (?I i)"])
    fix i t assume i: "i < n" and I: "reads_as t n (?I i)"
    let ?body = "\<lambda>j c. rbind (rd d i) (\<lambda>x. rbind (mget b i j) (\<lambda>y. mset_at c i j (x * y)))"
    have "\<exists>t'. for_up 0 n ?body t = Inr t' \<and> reads_as t' n (?J i n)"
    proof (rule for_up_rule [where I = "\<lambda>j t. reads_as t n (?J i j)"])
      show "reads_as t n (?J i 0)" using I by simp
      fix j u assume j: "j < n" and J: "reads_as u n (?J i j)"
      obtain u' where u': "mset_at u i j (d ! i * F i j) = Inr u'"
        "reads_as u' n (\<lambda>k l. if k = i \<and> l = j then d ! i * F i j else ?J i j k l)"
        using reads_as_set [OF J i j] by blast
      have "reads_as u' n (?J i (Suc j))" by (rule reads_as_cong [OF u'(2)]) (auto simp: less_Suc_eq)
      moreover have "?body j u = Inr u'" using i assms(2) reads_as_get [OF assms(3) i j] u'(1) by simp
      ultimately show "\<exists>u'. ?body j u = Inr u' \<and> reads_as u' n (?J i (Suc j))"
        by - (rule exI [of _ u'], rule conjI, assumption+)
    qed simp
    moreover have "reads_as t' n (?I (Suc i))" if "reads_as t' n (?J i n)" for t'
      by (rule reads_as_cong [OF that]) (auto simp: less_Suc_eq)
    ultimately show "\<exists>t'. for_up 0 n ?body t = Inr t' \<and> reads_as t' n (?I (Suc i))" by blast
  next
    show "reads_as c n (?I 0)" using assms(1) by (simp add: reads_as_def)
  qed simp
  then show ?thesis by (auto elim!: reads_as_cong)
qed

section \<open>Capacitances of the package\<close>

definition heat_ok :: "thermal_config_t \<Rightarrow> bool" where
  "heat_ok c \<longleftrightarrow> 0 < p_chip c \<and> 0 < p_interface c \<and> 0 < p_spreader c \<and> 0 < p_sink c \<and> 0 \<le> c_convec c"

definition pack_C_ok :: "package_RC_t \<Rightarrow> bool" where
  "pack_C_ok p \<longleftrightarrow> 0 < c_sp_per_x p \<and> 0 < c_sp_per_y p \<and> 0 < c_hs_c_per_x p \<and> 0 < c_hs_c_per_y p \<and> 0 < c_hs_per p \<and>
     0 \<le> c_amb_c_per_x p \<and> 0 \<le> c_amb_c_per_y p \<and> 0 \<le> c_amb_per p"

lemma getcap_pos [simp]: "0 < s \<Longrightarrow> 0 < t \<Longrightarrow> 0 < ar \<Longrightarrow> 0 < getcap s t ar"
  by (simp add: getcap_def C_FACTOR_def)

lemma populate_package_C_ok:
  assumes "package_ok c w h" "heat_ok c"
  shows "\<exists>p'. populate_package_C p c w h = Inr p' \<and> pack_C_ok p'"
proof -
  have "\<exists>p'. package_C_primary c w h p = Inr p' \<and> pack_C_ok p'"
    using assms square_gap [of "s_spreader c" "s_sink c"]
    by (simp add: package_C_primary_def Let_def package_ok_def heat_ok_def pack_C_ok_def C_FACTOR_def)
  then obtain p' where p': "package_C_primary c w h p = Inr p'" "pack_C_ok p'" by blast
  have z: "s_pcb c * s_pcb c \<noteq> 0" using assms(1) by (simp add: package_ok_def)
  have "keeps pack_C_ok (package_C_secondary c w h)"
    unfolding package_C_secondary_def Let_def fdiv_ok [OF z] rbind_Inr
    by (rule keeps_in_order, simp only: list.pred_inject simp_thms,
      (intro conjI; (rule keeps_assign, rule refl, simp add: pack_C_ok_def)))
  with p' show ?thesis by (simp add: populate_package_C_def keeps_def)
qed

section \<open>Capacitances of the nodes\<close>

definition pos_below :: "nat \<Rightarrow> nat \<Rightarrow> real list \<Rightarrow> bool" where
  "pos_below n i a \<longleftrightarrow> length a = nodes n \<and> (\<forall>k < i. 0 < a ! k \<and> 0 < a ! (IFACE * n + k) \<and> 0 < a ! (HSP * n + k) \<and> 0 < a ! (HSINK * n + k))"

lemma unit_capacitances_ok:
  assumes "chip_ok flp" "layers_ok c" "heat_ok c" "0 < s_sink c" "n = n_units flp" "i < n" "pos_below n i a"
  shows "\<exists>a'. unit_capacitances c flp n i a = Inr a' \<and> pos_below n (Suc i) a'"
proof -
  have i: "i < n_units flp" using assms(5,6) by simp
  note u = chip_unit [OF assms(1) i]
  let ?ar = "height (units flp ! i) * width (units flp ! i)"
  have ar: "0 < ?ar" using u by simp
  let ?s = "getcap (p_sink c) (t_sink c) ?ar + C_FACTOR * c_convec c / (s_sink c * s_sink c) * ?ar"
  let ?v = "\<lambda>L. if L = 0 then getcap (p_chip c) (t_chip c) ?ar else if L = IFACE then getcap (p_interface c) (t_interface c) ?ar
    else if L = HSP then getcap (p_spreader c) (t_spreader c) ?ar else ?s"
  have pos: "0 < ?v L" for L
    using ar assms(2-4) by (simp add: layers_ok_def heat_ok_def C_FACTOR_def add_pos_nonneg)
  let ?a = "a[i := ?v 0, IFACE * n + i := ?v IFACE, HSP * n + i := ?v HSP, HSINK * n + i := ?v HSINK]"
  have len: "length a = nodes n" using assms(7) by (simp add: pos_below_def)
  have "unit_capacitances c flp n i a = Inr ?a"
    using u(1) len assms(4,6) by (simp add: unit_capacitances_def vput_def Let_def layer_defs EXTRA_def)
  moreover have "pos_below n (Suc i) ?a"
    unfolding pos_below_def
  proof (intro conjI allI impI)
    show "length ?a = nodes n" using len by simp
    fix k assume k: "k < Suc i"
    then have kn: "k < n" using assms(6) by simp
    have lt: "L * n + k < length a" if "L \<in> {0, IFACE, HSP, HSINK}" for L using that len kn by (auto simp: layer_defs EXTRA_def)
    have "0 < ?a ! (L * n + k)" if L: "L \<in> {0, IFACE, HSP, HSINK}" for L
    proof (cases "k = i")
      case True
      then have "?a ! (L * n + k) = ?v L"
        using L lt [OF L] assms(6) node_inj(1) [OF assms(6,6), of L] node_inj(2,3) [OF assms(6,6)]
        by (auto simp: nth_list_update layers_differ)
      then show ?thesis using pos by simp
    next
      case False
      then have "?a ! (L * n + k) = a ! (L * n + k)"
        using node_inj [OF kn assms(6)] node_inj [OF assms(6) kn] by (simp add: nth_list_update_neq)
      moreover have "0 < a ! (L * n + k)" using assms(7) False k L by (auto simp: pos_below_def less_Suc_eq)
      ultimately show ?thesis by simp
    qed
    from this [of 0] this [of IFACE] this [of HSP] this [of HSINK]
    show "0 < ?a ! k" "0 < ?a ! (IFACE * n + k)" "0 < ?a ! (HSP * n + k)" "0 < ?a ! (HSINK * n + k)" by simp_all
  qed
  ultimately show ?thesis by blast
qed

lemma package_capacitances_ok:
  assumes "pos_below n n a" "pack_C_ok pack"
  shows "\<exists>a'. package_capacitances pack n a = Inr a' \<and> length a' = nodes n \<and> (\<forall>i < nodes n. 0 < a' ! i)"
proof -
  have len: "length a = NL * n + 12" using assms(1) by (simp add: pos_below_def EXTRA_def)
  let ?y = "c_hs_c_per_y pack + c_amb_c_per_y pack" and ?x = "c_hs_c_per_x pack + c_amb_c_per_x pack"
    and ?p = "c_hs_per pack + c_amb_per pack"
  let ?N = "NL * n"
  let ?a = "a[?N + 3 := c_sp_per_y pack, ?N + 2 := c_sp_per_y pack, ?N := c_sp_per_x pack, ?N + 1 := c_sp_per_x pack,
    ?N + 7 := ?y, ?N + 6 := ?y, ?N + 4 := ?x, ?N + 5 := ?x, ?N + 8 := ?p, ?N + 9 := ?p, ?N + 11 := ?p, ?N + 10 := ?p]"
  have r: "package_capacitances pack n a = Inr ?a"
    using len by (simp add: package_capacitances_def vput_def node_defs)
  have pos: "0 < ?y" "0 < ?x" "0 < ?p" "0 < c_sp_per_y pack" "0 < c_sp_per_x pack"
    using assms(2) by (simp_all add: pack_C_ok_def)
  have low: "?a ! i = a ! i" if "i < ?N" for i using that by simp
  have "0 < ?a ! i" if i: "i < nodes n" for i
    using i
  proof (cases rule: node_cases)
    case (package k)
    from package(1) have "k \<in> {0, 1, 2, 3, 4, 5, 6, 7, 8, 9, 10, 11}" by (simp only: extra_cases)
    then show ?thesis using pos package(2) by (elim insertE emptyE; simp add: len)
  next
    case silicon
    moreover have "i < ?N" using silicon by (simp add: NL_def)
    ultimately show ?thesis using low assms(1) by (simp add: pos_below_def)
  next
    case (interface k)
    moreover have "IFACE * n + k < ?N" using interface(1) by (simp add: layer_defs)
    ultimately show ?thesis using low assms(1) by (simp add: pos_below_def)
  next
    case (spreader k)
    moreover have "HSP * n + k < ?N" using spreader(1) by (simp add: layer_defs)
    ultimately show ?thesis using low assms(1) by (simp add: pos_below_def)
  next
    case (sink k)
    moreover have "HSINK * n + k < ?N" using sink(1) by (simp add: layer_defs)
    ultimately show ?thesis using low assms(1) by (simp add: pos_below_def)
  qed
  then show ?thesis using r len by (intro exI [of _ ?a]) (simp add: EXTRA_def)
qed

section \<open>The initialised model\<close>

definition C_ok :: "block_model_t \<Rightarrow> bool" where
  "C_ok m \<longleftrightarrow> bm_c_ready m \<and> (\<forall>i < bm_n_nodes m. 0 < bm_a m ! i \<and> bm_inva m ! i = 1 / bm_a m ! i \<and>
     (\<forall>j < bm_n_nodes m. mat_at (bm_c m) i j = mat_at (bm_b m) i j / bm_a m ! i))"

lemma invert_diag_ok:
  assumes "length a = N" "length v = N" "\<forall>i < N. a ! i \<noteq> 0"
  shows "invert_diag N a v = Inr (map (\<lambda>i. 1 / a ! i) [0..<N])"
  unfolding invert_diag_def by (rule fill_loop) (use assms in \<open>auto simp: vput_def\<close>)

lemma capacitance_loop:
  assumes "chip_ok flp" "layers_ok c" "heat_ok c" "0 < s_sink c" "n = n_units flp" "length a = nodes n"
  shows "\<exists>a'. for_up 0 n (unit_capacitances c flp n) a = Inr a' \<and> pos_below n n a'"
  by (rule for_up_rule [where I = "pos_below n"])
    (use assms(6) unit_capacitances_ok [OF assms(1-5)] in \<open>auto simp: pos_below_def\<close>)

lemma populate_C_body:
  assumes "R_ok fs m" "fits (bm_config m) (fs (bm_flp m)) w l" "heat_ok (bm_config m)"
  shows "\<exists>m'. populate_C_model_block fs m (bm_flp m) = Inr m' \<and> same_setting m m' \<and> R_ok fs m' \<and> C_ok m' \<and>
    bm_b m' = bm_b m \<and> bm_g_amb m' = bm_g_amb m"
proof -
  define n where "n = bm_n_units m"
  let ?flp = "fs (bm_flp m)" and ?c = "bm_config m" and ?N = "nodes n"
  have sz: "block_sized fs m" and r: "bm_r_ready m" using assms(1) by (auto simp: R_ok_def)
  note z = sizedD [OF sz n_def]
  have f: "chip_ok ?flp" "layers_ok ?c" "get_total_width ?flp = Inr w" "get_total_height ?flp = Inr l" "package_ok ?c w l"
    using assms(2) by (auto simp: fits_def)
  have n: "n = n_units ?flp" using z(1) by simp
  have sink: "0 < s_sink ?c" using f(5) by (simp add: package_ok_def)
  obtain pack where pack: "populate_package_C (bm_pack m) ?c w l = Inr pack" "pack_C_ok pack"
    using populate_package_C_ok [OF f(5) assms(3)] by blast
  obtain a1 where a1: "for_up 0 n (unit_capacitances ?c ?flp n) (bm_a m) = Inr a1" "pos_below n n a1"
    using capacitance_loop [OF f(1,2) assms(3) sink n z(9)] by blast
  obtain a where a: "package_capacitances pack n a1 = Inr a" "length a = ?N" "\<forall>i < ?N. 0 < a ! i"
    using package_capacitances_ok [OF a1(2) pack(2)] by blast
  let ?v = "map (\<lambda>i. 1 / a ! i) [0..<?N]"
  have v: "invert_diag ?N a (bm_inva m) = Inr ?v" by (rule invert_diag_ok [OF a(2) z(10)]) (use a(3) in fastforce)
  obtain c where c: "diagmatmult (bm_c m) ?v (bm_b m) ?N = Inr c" "reads_as c ?N (\<lambda>i j. ?v ! i * mat_at (bm_b m) i j)"
    using diagmatmult_ok [OF z(4) _ reads_as_self [OF z(3)], of ?v] by auto
  let ?m = "m\<lparr>bm_pack := pack, bm_a := a, bm_inva := ?v, bm_c := c, bm_c_ready := True\<rparr>"
  have "\<not> (bm_flp m \<noteq> bm_flp m \<or> bm_n_units m \<noteq> n_units ?flp \<or> bm_n_nodes m \<noteq> nodes (n_units ?flp))"
    using n n_def z(2) by simp
  then have run: "populate_C_model_block fs m (bm_flp m) = Inr ?m"
    unfolding populate_C_model_block_def Let_def n [symmetric] f(3,4) rbind_Inr
    by (simp only: r not_True_eq_False if_False if_not_P pack(1) a1(1) a(1) v c(1) rbind_Inr)
  have "block_sized fs ?m"
    using sz a(2) c(2) unfolding block_sized_def Let_def by (simp add: n_def [symmetric] reads_as_def)
  then have "R_ok fs ?m" using assms(1) unfolding R_ok_def Let_def leak_at_def by simp
  moreover have "C_ok ?m" using a(3) c(2) z(2) by (simp add: C_ok_def reads_as_def)
  ultimately show ?thesis using run by (intro exI [of _ ?m]) (simp add: same_setting_def)
qed

section \<open>The power vector\<close>

text \<open>The power of the blocks is kept; the sink and the package get their share from the ambient.\<close>

definition full_power :: "block_model_t \<Rightarrow> real list \<Rightarrow> nat \<Rightarrow> real" where
  "full_power m pw i = (if i < bm_n_units m then pw ! i else 0) + leak_at m i * ambient (bm_config m)"

lemma zero_at_ok:
  assumes "off + n \<le> length v"
  shows "\<exists>v'. zero_at v off n = Inr v' \<and> length v' = length v \<and>
    (\<forall>i < length v. v' ! i = (if off \<le> i \<and> i < off + n then 0 else v ! i))"
  using assms by (auto simp: zero_at_def nth_append)

lemma set_internal_power_block_ok:
  assumes "R_ok fs m" "length pw = bm_n_nodes m"
  shows "\<exists>pw'. set_internal_power_block m pw = Inr pw' \<and> length pw' = bm_n_nodes m \<and>
    (\<forall>i < bm_n_nodes m. pw' ! i = full_power m pw i)"
proof -
  define n where "n = bm_n_units m"
  have sz: "block_sized fs m" using assms(1) by (simp add: R_ok_def)
  note z = sizedD [OF sz n_def]
  have N: "bm_n_nodes m = 4 * n + 12" using z(2) by (simp add: layer_defs EXTRA_def)
  obtain p1 where p1: "zero_at pw (IFACE * n) n = Inr p1" "length p1 = length pw"
    "\<forall>i < length pw. p1 ! i = (if n \<le> i \<and> i < 2 * n then 0 else pw ! i)"
    using zero_at_ok [of "IFACE * n" n pw] assms(2) N by (auto simp: layer_defs)
  obtain p2 where p2: "zero_at p1 (HSP * n) n = Inr p2" "length p2 = length pw"
    "\<forall>i < length pw. p2 ! i = (if 2 * n \<le> i \<and> i < 3 * n then 0 else p1 ! i)"
    using zero_at_ok [of "HSP * n" n p1] assms(2) N p1(2) by (auto simp: layer_defs)
  let ?A = "ambient (bm_config m)"
  let ?I = "\<lambda>k v. length v = length pw \<and> (\<forall>i < length pw. v ! i =
    (if 3 * n \<le> i \<and> i < 3 * n + k then ?A * bm_g_amb m ! (i - 3 * n) else p2 ! i))"
  have "\<exists>v. for_up 0 (n + EXTRA) (\<lambda>i pw. rbind (rd (bm_g_amb m) i) (\<lambda>g. wr pw (HSINK * n + i) (?A * g))) p2 = Inr v \<and> ?I (n + EXTRA) v"
  proof (rule for_up_rule [where I = ?I])
    show "?I 0 p2" using p2(2) by simp
    fix k v assume k: "k < n + EXTRA" and I: "?I k v"
    have lt: "3 * n + k < length v" using k I assms(2) N by (simp add: EXTRA_def)
    let ?v = "v[3 * n + k := ?A * bm_g_amb m ! k]"
    have "?I (Suc k) ?v" using I lt by (auto simp: nth_list_update less_Suc_eq)
    then show "\<exists>v'. rbind (rd (bm_g_amb m) k) (\<lambda>g. wr v (HSINK * n + k) (?A * g)) = Inr v' \<and> ?I (Suc k) v'"
      using k z(12) lt by (simp add: HSINK_def)
  qed simp
  then obtain v where v: "for_up 0 (n + EXTRA) (\<lambda>i pw. rbind (rd (bm_g_amb m) i) (\<lambda>g. wr pw (HSINK * n + i) (?A * g))) p2 = Inr v"
    "?I (n + EXTRA) v" by blast
  have run: "set_internal_power_block m pw = Inr v"
    using p1(1) p2(1) v(1) by (simp add: set_internal_power_block_def Let_def n_def [symmetric])
  have sp: "bm_g_amb m ! (n + k) = 0" if "k < SINK_C_W" for k
    using assms(1) that by (simp add: R_ok_def Let_def n_def)
  have "v ! i = full_power m pw i" if i: "i < nodes n" for i
  proof -
    have il: "i < length pw" using i assms(2) z(2) by simp
    have vi: "v ! i = (if 3 * n \<le> i then ?A * bm_g_amb m ! (i - 3 * n) else if n \<le> i then 0 else pw ! i)"
      using v(2) p2(3) p1(3) il i by (simp add: layer_defs EXTRA_def)
    show ?thesis
      using i
    proof (cases rule: node_cases)
      case (package k)
      then have "v ! i = ?A * bm_g_amb m ! (n + k)" using vi by (simp add: layer_defs add.commute)
      moreover have "full_power m pw i = (if SINK_C_W \<le> k then bm_g_amb m ! (n + k) else 0) * ?A"
        using package by (simp add: full_power_def leak_at_def n_def [symmetric] node_leak_package, simp add: NL_def)
      ultimately show ?thesis using sp by simp
    next
      case (sink k)
      then have "v ! i = ?A * bm_g_amb m ! k" "\<not> i < n" using vi by (simp_all add: layer_defs)
      then show ?thesis using sink by (simp add: full_power_def leak_at_def n_def [symmetric] node_leak_simps)
    next
      case silicon
      then show ?thesis using vi by (simp add: full_power_def leak_at_def n_def [symmetric] node_leak_simps)
    next
      case (interface k)
      then have "v ! i = 0" "\<not> i < n" using vi by (simp_all add: layer_defs)
      then show ?thesis using interface by (simp add: full_power_def leak_at_def n_def [symmetric] node_leak_simps)
    next
      case (spreader k)
      then have "v ! i = 0" "\<not> i < n" using vi by (simp_all add: layer_defs)
      then show ?thesis using spreader by (simp add: full_power_def leak_at_def n_def [symmetric] node_leak_simps)
    qed
  qed
  then show ?thesis using run v(2) assms(2) z(2) by (simp add: n_def [symmetric])
qed

end
