(* ===== verification/Block_Transient.thy ===== *)
theory Block_Transient
  imports Block_C
begin

text \<open>
  The steady state as the equilibrium of the network: the solver returns the one vector of
  temperatures at which every node passes on the heat it receives. Conductance matrices are
  inverse positive, so no power makes a node cooler than the ambient.

  The transient solver on the block model: the slope function as a vector field with a
  Lipschitz bound, which makes it an instance of the interface of the Runge Kutta solver, the
  end of the loop on a steady state, and the first step of a short interval.
\<close>

section \<open>Conductance matrices are inverse positive\<close>

text \<open>A node of least temperature without a colder later node loses no heat.\<close>

lemma least_row:
  assumes c: "conductive 0 n d B" and i: "i < n" and le: "\<forall>j < n. M \<le> x j" "x i = M" and neg: "M < 0"
    and row: "0 \<le> (\<Sum>j < n. B i j * x j)"
  shows "leak 0 n B i = 0" "\<forall>j < n. B i j * (x j - M) = 0"
proof -
  have trm: "B i j * (x j - M) \<le> 0" if "j < n" for j
    using conductiveD(2) [OF c _ i, of j] le that by (cases "i = j") (auto intro: mult_nonpos_nonneg)
  have s: "(\<Sum>j < n. B i j * (x j - M)) \<le> 0" by (rule sum_nonpos) (use trm in auto)
  have "(\<Sum>j < n. B i j * x j) = (\<Sum>j < n. B i j * (x j - M)) + M * leak 0 n B i"
    by (simp add: leak_def atLeast0LessThan sum_distrib_left sum.distrib [symmetric] algebra_simps)
  moreover have l: "0 \<le> leak 0 n B i" by (rule conductiveD(3) [OF c _ i]) simp
  moreover have "M * leak 0 n B i \<le> 0" using neg l by (simp add: mult_nonpos_nonneg)
  ultimately have z: "M * leak 0 n B i = 0" "(\<Sum>j < n. B i j * (x j - M)) = 0" using s row by linarith+
  then show "leak 0 n B i = 0" using neg by simp
  have "(\<Sum>j < n. - (B i j * (x j - M))) = 0" using z(2) by (simp add: sum_negf)
  then have "\<forall>j \<in> {..<n}. - (B i j * (x j - M)) = 0"
    by (subst (asm) sum_nonneg_eq_0_iff) (use trm in auto)
  then show "\<forall>j < n. B i j * (x j - M) = 0" by simp
qed

lemma inverse_positive:
  assumes c: "conductive 0 n d B" "0 < d" and row: "\<forall>i < n. 0 \<le> (\<Sum>j < n. B i j * x j)" and i: "i < n"
  shows "0 \<le> x i"
proof (rule ccontr)
  define M where "M = Min (x ` {..<n})"
  assume "\<not> 0 \<le> x i"
  moreover have le: "\<forall>j < n. M \<le> x j" by (simp add: M_def)
  ultimately have neg: "M < 0" using i by fastforce
  define I where "I = {j. j < n \<and> x j = M}"
  have "M \<in> x ` {..<n}" unfolding M_def using i by (intro Min_in) auto
  then have I: "finite I" "I \<noteq> {}" by (auto simp: I_def)
  define k where "k = Max I"
  have k: "k < n" "x k = M" using Max_in [OF I] by (auto simp: k_def I_def)
  have z: "leak 0 n B k = 0" "\<forall>j < n. B k j * (x j - M) = 0"
    using least_row [OF c(1) k(1) le k(2) neg] row k(1) by blast+
  obtain j where j: "k < j" "j < n" "B k j \<le> - d" using conductiveD(4) [OF c(1) _ k(1)] z(1) c(2) by auto
  then have "x j = M" using z(2) c(2) by fastforce
  then have "j \<le> k" unfolding k_def using I(1) j(2) by (intro Max_ge) (simp_all add: I_def)
  with j(1) show False by simp
qed

section \<open>The solver\<close>

definition in_balance :: "block_model_t \<Rightarrow> real list \<Rightarrow> real list \<Rightarrow> bool" where
  "in_balance m pw temp \<longleftrightarrow> length temp = bm_n_nodes m \<and>
     (\<forall>i < bm_n_nodes m. (\<Sum>j < bm_n_nodes m. mat_at (bm_b m) i j * temp ! j) = full_power m pw i)"

lemma R_okD:
  assumes "R_ok fs m" "N = bm_n_nodes m" "B = mat_at (bm_b m)"
  shows "block_sized fs m" "bm_r_ready m" "conductive 0 N DELTA B" "\<forall>i < N. (\<Sum>j < N. B i j) = leak_at m i"
    "permutes_idx (bm_p m) N" "factored N N B (bm_p m) (mat_at (bm_lu m))" "\<forall>i < N. mat_at (bm_lu m) i i \<noteq> 0"
    "dmat_ok (bm_lu m) N N"
  using assms sizedD(2,5) [OF _ refl] unfolding R_ok_def Let_def by fastforce+

lemma steady_ok:
  assumes "R_ok fs m" "length pw = bm_n_nodes m" "length temp = bm_n_nodes m"
  shows "\<exists>pw' temp'. steady_state_temp_block m pw temp = Inr (pw', temp') \<and> length pw' = bm_n_nodes m \<and> in_balance m pw temp'"
proof -
  note r = R_okD [OF assms(1) refl refl]
  obtain pw' where p: "set_internal_power_block m pw = Inr pw'" "length pw' = bm_n_nodes m"
    "\<forall>i < bm_n_nodes m. pw' ! i = full_power m pw i"
    using set_internal_power_block_ok [OF assms(1,2)] by blast
  obtain x where x: "lusolve (bm_lu m) (bm_n_nodes m) (bm_p m) pw' temp True = Inr x" "length x = length temp"
    "\<forall>i < bm_n_nodes m. (\<Sum>j < bm_n_nodes m. mat_at (bm_b m) i j * x ! j) = pw' ! i"
    using lusolve_ok [OF r(8,5,6,7), of pw' temp True] p(2) assms(3) by auto
  show ?thesis
    using p x assms(3) r(2) by (simp add: steady_state_temp_block_def in_balance_def)
qed

lemma balance_unique:
  assumes "R_ok fs m" "in_balance m pw t" "in_balance m pw u"
  shows "t = u"
proof (rule nth_equalityI)
  note r = R_okD [OF assms(1) refl refl]
  show "length t = length u" using assms(2,3) by (simp add: in_balance_def)
  fix i assume "i < length t"
  moreover have "nonsingular (bm_n_nodes m) (mat_at (bm_b m))" by (rule factored_nonsingular [OF r(6,5,7)])
  note nonsingular_unique [OF this, of "(!) u" "full_power m pw" "(!) t"]
  ultimately show "t ! i = u ! i"
    using assms(2,3) by (simp add: in_balance_def)
qed

section \<open>Heat\<close>

text \<open>All the power leaves to the ambient.\<close>

lemma balance_heat:
  assumes "R_ok fs m" "in_balance m pw t"
  shows "(\<Sum>i < bm_n_nodes m. leak_at m i * (t ! i - ambient (bm_config m))) = (\<Sum>i < bm_n_units m. pw ! i)"
proof -
  let ?N = "bm_n_nodes m" and ?B = "mat_at (bm_b m)" and ?A = "ambient (bm_config m)"
  note r = R_okD [OF assms(1) refl refl]
  have N: "bm_n_units m \<le> ?N" using sizedD(2) [OF r(1) refl] by (simp add: layer_defs)
  have sym: "?B i j = ?B j i" if "i < ?N" "j < ?N" for i j using conductiveD(1) [OF r(3)] that by simp
  have "(\<Sum>i < ?N. full_power m pw i) = (\<Sum>i < ?N. \<Sum>j < ?N. ?B i j * t ! j)" using assms(2) by (simp add: in_balance_def)
  also have "\<dots> = (\<Sum>j < ?N. \<Sum>i < ?N. ?B i j * t ! j)" by (rule sum.swap)
  also have "\<dots> = (\<Sum>j < ?N. leak_at m j * t ! j)"
  proof (rule sum.cong)
    fix j assume j: "j \<in> {..<?N}"
    have "(\<Sum>i < ?N. ?B i j * t ! j) = (\<Sum>i < ?N. ?B j i) * t ! j"
      unfolding sum_distrib_right by (rule sum.cong) (use j sym in auto)
    then show "(\<Sum>i < ?N. ?B i j * t ! j) = leak_at m j * t ! j" using r(4) j by simp
  qed simp
  finally have "(\<Sum>j < ?N. leak_at m j * t ! j) = (\<Sum>i < ?N. full_power m pw i)" by simp
  moreover have "(\<Sum>i < ?N. if i < bm_n_units m then pw ! i else 0) = (\<Sum>i < bm_n_units m. pw ! i)"
    using N by (intro sum.mono_neutral_cong_right) auto
  ultimately show ?thesis
    by (simp add: full_power_def sum.distrib sum_subtractf algebra_simps)
qed

text \<open>More power nowhere makes a node cooler.\<close>

lemma balance_mono:
  assumes "R_ok fs m" "in_balance m pw t" "in_balance m pw' u" "\<forall>k < bm_n_units m. pw ! k \<le> pw' ! k" "i < bm_n_nodes m"
  shows "t ! i \<le> u ! i"
proof -
  let ?N = "bm_n_nodes m" and ?B = "mat_at (bm_b m)"
  note r = R_okD [OF assms(1) refl refl]
  have "0 \<le> (\<Sum>j < ?N. ?B k j * (u ! j - t ! j))" if "k < ?N" for k
  proof -
    have "(\<Sum>j < ?N. ?B k j * (u ! j - t ! j)) = full_power m pw' k - full_power m pw k"
      using assms(2,3) that by (simp add: in_balance_def right_diff_distrib sum_subtractf)
    then show ?thesis using assms(4) by (simp add: full_power_def)
  qed
  then show ?thesis using inverse_positive [OF r(3) DELTA_pos, of "\<lambda>j. u ! j - t ! j"] assms(5) by simp
qed

text \<open>Without power every node has the temperature of the ambient.\<close>

lemma balance_ambient:
  assumes "R_ok fs m" "\<forall>k < bm_n_units m. pw ! k = 0"
  shows "in_balance m pw (replicate (bm_n_nodes m) (ambient (bm_config m)))"
  using assms(2) R_okD(4) [OF assms(1) refl refl]
  by (simp add: in_balance_def full_power_def sum_distrib_right [symmetric])

lemma balance_above_ambient:
  assumes "R_ok fs m" "in_balance m pw t" "\<forall>k < bm_n_units m. 0 \<le> pw ! k" "i < bm_n_nodes m"
  shows "ambient (bm_config m) \<le> t ! i"
proof -
  let ?z = "replicate (bm_n_units m) 0 :: real list"
  have "in_balance m ?z (replicate (bm_n_nodes m) (ambient (bm_config m)))" by (rule balance_ambient [OF assms(1)]) simp
  from balance_mono [OF assms(1) this assms(2) _ assms(4)] assms(3,4) show ?thesis by simp
qed

section \<open>The slope function\<close>

text \<open>The models whose transient matrix and power vector have the size of the model.\<close>

definition transient_sized :: "block_model_t \<Rightarrow> bool" where
  "transient_sized m \<longleftrightarrow> dmat_ok (bm_c m) (bm_n_nodes m) (bm_n_nodes m) \<and> length (bm_t_vector m) = bm_n_nodes m"

definition block_field :: "block_model_t \<Rightarrow> real list \<Rightarrow> real list" where
  "block_field m y = map (\<lambda>i. bm_t_vector m ! i - (\<Sum>j < bm_n_nodes m. mat_at (bm_c m) i j * y ! j)) [0..<bm_n_nodes m]"

definition field_bound :: "block_model_t \<Rightarrow> real" where
  "field_bound m = (\<Sum>i < bm_n_nodes m. \<Sum>j < bm_n_nodes m. \<bar>mat_at (bm_c m) i j\<bar>)"

lemma block_field_length [simp]: "length (block_field m y) = bm_n_nodes m"
  by (simp add: block_field_def)

lemma field_bound_nonneg [simp]: "0 \<le> field_bound m"
  by (simp add: field_bound_def sum_nonneg)

lemma slope_value:
  assumes "transient_sized m" "length y = bm_n_nodes m" "length dy = bm_n_nodes m"
  shows "slope_fn_block m y (bm_t_vector m) dy = Inr (block_field m y)"
proof -
  let ?N = "bm_n_nodes m" and ?y = "map (\<lambda>i. \<Sum>j < bm_n_nodes m. mat_at (bm_c m) i j * y ! j) [0..<bm_n_nodes m]"
  have "reads_as (bm_c m) ?N (mat_at (bm_c m))" using assms(1) by (auto simp: transient_sized_def intro: reads_as_self)
  from matvectmult_ok [OF this assms(2), of "dvector ?N"]
  have y: "matvectmult (dvector ?N) (bm_c m) y ?N = Inr ?y" by (simp add: dvector_def)
  have "for_up 0 ?N (\<lambda>i dy. rbind (rd (bm_t_vector m) i) (\<lambda>x. rbind (rd ?y i) (\<lambda>z. wr dy i (x - z)))) dy = Inr (block_field m y)"
    unfolding block_field_def by (rule fill_loop) (use assms(1,3) in \<open>auto simp: transient_sized_def\<close>)
  with y show ?thesis by (simp add: slope_fn_block_def)
qed

lemma field_near:
  assumes "near (bm_n_nodes m) u v d"
  shows "near (bm_n_nodes m) (block_field m u) (block_field m v) (field_bound m * d)"
  unfolding near_def
proof (intro allI impI)
  let ?N = "bm_n_nodes m" and ?C = "mat_at (bm_c m)"
  fix i assume i: "i < ?N"
  then have d: "0 \<le> d" using assms abs_ge_zero order_trans by (fastforce simp: near_def)
  have "block_field m u ! i - block_field m v ! i = (\<Sum>j < ?N. ?C i j * (v ! j - u ! j))"
    using i by (simp add: block_field_def sum_subtractf right_diff_distrib)
  moreover have "\<bar>\<Sum>j < ?N. ?C i j * (v ! j - u ! j)\<bar> \<le> (\<Sum>j < ?N. \<bar>?C i j\<bar> * d)"
    using assms by (intro order_trans [OF sum_abs] sum_mono) (auto simp: abs_mult near_def abs_minus_commute intro: mult_left_mono)
  moreover have "(\<Sum>j < ?N. \<bar>?C i j\<bar>) \<le> field_bound m"
    unfolding field_bound_def using i by (intro member_le_sum) (auto intro: sum_nonneg)
  then have "(\<Sum>j < ?N. \<bar>?C i j\<bar> * d) \<le> field_bound m * d"
    using d by (simp add: sum_distrib_right [symmetric] mult_right_mono)
  ultimately show "\<bar>block_field m u ! i - block_field m v ! i\<bar> \<le> field_bound m * d" by simp
qed

typedef sized_model = "{m. transient_sized m}"
proof
  show "undefined\<lparr>bm_n_nodes := 0, bm_c := dmatrix 0 0, bm_t_vector := []\<rparr> \<in> {m. transient_sized m}"
    by (simp add: transient_sized_def dmatrix_ok)
qed

lemma rep_sized [simp]: "transient_sized (Rep_sized_model M)"
  using Rep_sized_model [of M] by simp

interpretation slope: slope_field "\<lambda>y. slope_fn_block (Rep_sized_model M) y (bm_t_vector (Rep_sized_model M))"
  "block_field (Rep_sized_model M)" "bm_n_nodes (Rep_sized_model M)" for M
  by unfold_locales (simp_all add: slope_value)

interpretation transient: lipschitz_field "\<lambda>y. slope_fn_block (Rep_sized_model M) y (bm_t_vector (Rep_sized_model M))"
  "block_field (Rep_sized_model M)" "bm_n_nodes (Rep_sized_model M)" "field_bound (Rep_sized_model M)" for M
  by unfold_locales (simp_all add: field_near)

text \<open>The same facts of a model of the right size.\<close>

lemma sized_cases:
  assumes "transient_sized m"
  obtains M where "m = Rep_sized_model M"
  using Rep_sized_model_cases [of m] assms by auto

lemma block_rk4_accepts:
  assumes "transient_sized m" "length y = bm_n_nodes m" "length yout = bm_n_nodes m" "0 < bm_n_nodes m"
    and "bounded_by (bm_n_nodes m) (block_field m y) G" "0 \<le> G" "0 < h" "h * field_bound m \<le> 1"
    and "33 / 4 * h * G \<le> 3 / 4 * RK4_PRECISION"
  shows "\<exists>new_h. rk4 y (bm_n_nodes m) h yout (\<lambda>y. slope_fn_block m y (bm_t_vector m)) =
      Some (Inr (new_h, h, rk4_value (bm_n_nodes m) (block_field m) y (block_field m y) h)) \<and> h \<le> new_h \<and> new_h \<le> RK4_MAXUP * h"
proof -
  obtain M where M: "m = Rep_sized_model M" using assms(1) by (rule sized_cases)
  show ?thesis using transient.rk4_accepts [of y M yout G h] assms(2-) unfolding M by blast
qed

section \<open>A steady state\<close>

lemma rk4_steady:
  assumes "transient_sized m" "length y = bm_n_nodes m" "0 < bm_n_nodes m" "0 < h"
    and steady: "block_field m y = replicate (bm_n_nodes m) 0"
  shows "rk4 y (bm_n_nodes m) h y (\<lambda>y. slope_fn_block m y (bm_t_vector m)) = Some (Inr (RK4_MAXUP * h, h, y))"
proof -
  obtain M where M: "m = Rep_sized_model M" using assms(1) by (rule sized_cases)
  let ?N = "bm_n_nodes m" and ?F = "block_field m" and ?f = "\<lambda>y. slope_fn_block m y (bm_t_vector m)"
  have v: "rk4_value ?N ?F y (?F y) c = y" for c
    using slope.rk4_value_steady [of y M] assms(2,5) unfolding M by simp
  obtain mx d where a: "rk4_attempt y ?N ?f h (?F y, dvector ?N, dvector ?N, dvector ?N) =
      rbind (next_step h mx) (\<lambda>new_h. Inr (new_h, ?F y, d, y, y))" "mx = 0"
    using slope.rk4_attempt_value [of y M "?F y" "dvector ?N" "dvector ?N" "dvector ?N" h] assms(2,3) v
    unfolding M by (auto simp: dvector_def)
  have "next_step h 0 = Inr (RK4_MAXUP * h)" using assms(4) by (simp add: next_step_def RK4_PRECISION_def)
  moreover have "\<not> RK4_MAXUP * h < h" using assms(4) by (simp add: RK4_MAXUP_def)
  ultimately have "rk4_loop y ?N ?f h (?F y, dvector ?N, dvector ?N, dvector ?N) = Some (Inr (RK4_MAXUP * h, h, ?F y, d, y, y))"
    using a by (subst rk4_loop.simps) simp
  then show ?thesis
    using assms(1,2) slope_value [of m y "dvector ?N"] by (simp add: rk4_def dvector_def copy_dvector_def copy_vector_def)
qed

text \<open>Every step but the last has at least the length \<open>MIN_STEP * DELTA\<close>, so the loop ends.\<close>

lemma transient_steady:
  assumes "transient_sized m" "length y = bm_n_nodes m" "0 < bm_n_nodes m"
    and "block_field m y = replicate (bm_n_nodes m) 0" "te - t \<le> real k * (MIN_STEP * DELTA)"
  shows "transient_loop m te t h y = Some (Inr y)"
  using assms(5)
proof (induction k arbitrary: t h)
  case 0
  then show ?case by (subst transient_loop.simps) simp
next
  case (Suc k)
  show ?case
  proof (cases "t < te \<and> MIN_STEP * DELTA \<le> h")
    case True
    have "0 < MIN_STEP * DELTA" using DELTA_pos by (simp add: MIN_STEP_def)
    with True have h: "0 < h" by linarith
    have "te - (t + h) \<le> real k * (MIN_STEP * DELTA)" using Suc.prems True by (simp add: algebra_simps)
    from Suc.IH [OF this] show ?thesis
      using True rk4_steady [OF assms(1-3) h assms(4)] by (subst transient_loop.simps) simp
  next
    case False
    then show ?thesis by (subst transient_loop.simps) auto
  qed
qed

section \<open>The whole solver\<close>

text \<open>The model after the power vector was computed.\<close>

definition powered :: "block_model_t \<Rightarrow> real list \<Rightarrow> block_model_t" where
  "powered m pw = m\<lparr>bm_t_vector := map (\<lambda>i. bm_inva m ! i * full_power m pw i) [0..<bm_n_nodes m]\<rparr>"

lemma powered_simps [simp]: "bm_n_nodes (powered m pw) = bm_n_nodes m" "bm_c (powered m pw) = bm_c m"
  "length (bm_t_vector (powered m pw)) = bm_n_nodes m"
  "i < bm_n_nodes m \<Longrightarrow> bm_t_vector (powered m pw) ! i = bm_inva m ! i * full_power m pw i"
  by (simp_all add: powered_def)

lemma powered_sized: "block_sized fs m \<Longrightarrow> transient_sized (powered m pw)"
  using sizedD(2,4) [OF _ refl] by (fastforce simp: transient_sized_def)

lemma compute_temp_run:
  assumes "R_ok fs m" "C_ok m" "length pw = bm_n_nodes m"
  shows "\<exists>pw'. compute_temp_block m pw temp False te = (case transient_loop (powered m pw) te 0 MIN_STEP temp of
      None \<Rightarrow> None | Some r \<Rightarrow> Some (rbind r (\<lambda>temp. Inr (powered m pw, pw', temp))))"
proof -
  obtain pw' where p: "set_internal_power_block m pw = Inr pw'" "length pw' = bm_n_nodes m"
    "\<forall>i < bm_n_nodes m. pw' ! i = full_power m pw i"
    using set_internal_power_block_ok [OF assms(1,3)] by blast
  note r = R_okD [OF assms(1) refl refl]
  note z = sizedD [OF r(1) refl]
  have "diagmatvectmult (bm_t_vector m) (bm_inva m) pw' (bm_n_nodes m) = Inr (map (\<lambda>i. bm_inva m ! i * pw' ! i) [0..<bm_n_nodes m])"
    using z(2,10,11) p(2) by (intro diagmatvectmult_ok) simp_all
  moreover have "map (\<lambda>i. bm_inva m ! i * pw' ! i) [0..<bm_n_nodes m] = bm_t_vector (powered m pw)"
    using p(3) by (simp add: powered_def)
  ultimately show ?thesis
    using p(1) r(2) assms(2) unfolding powered_def
    by (intro exI [of _ pw']) (simp add: compute_temp_block_def C_ok_def)
qed

lemma field_balance:
  assumes "C_ok m" "in_balance m pw temp"
  shows "block_field (powered m pw) temp = replicate (bm_n_nodes m) 0"
proof (rule nth_equalityI)
  let ?N = "bm_n_nodes m"
  fix i assume "i < length (block_field (powered m pw) temp)"
  then have i: "i < ?N" by simp
  have "(\<Sum>j < ?N. mat_at (bm_c m) i j * temp ! j) = (\<Sum>j < ?N. mat_at (bm_b m) i j * temp ! j) / bm_a m ! i"
    using assms(1) i by (simp add: C_ok_def sum_divide_distrib)
  then have "(\<Sum>j < ?N. mat_at (bm_c m) i j * temp ! j) = bm_inva m ! i * full_power m pw i"
    using assms i by (simp add: in_balance_def C_ok_def)
  then show "block_field (powered m pw) temp ! i = replicate ?N 0 ! i" using i by (simp add: block_field_def)
qed simp

lemma nodes_pos: "block_sized fs m \<Longrightarrow> 0 < bm_n_nodes m"
  using sizedD(2) [OF _ refl] by (simp add: EXTRA_def)

lemma compute_temp_balance:
  assumes "R_ok fs m" "C_ok m" "length pw = bm_n_nodes m" "in_balance m pw temp"
  shows "\<exists>m' pw'. compute_temp_block m pw temp False te = Some (Inr (m', pw', temp))"
proof -
  have sz: "block_sized fs m" by (rule R_okD(1) [OF assms(1) refl refl])
  have "0 < MIN_STEP * DELTA" using DELTA_pos by (simp add: MIN_STEP_def)
  then obtain k where "te - 0 < real k * (MIN_STEP * DELTA)" using ex_less_of_nat_mult by blast
  then have "transient_loop (powered m pw) te 0 MIN_STEP temp = Some (Inr temp)"
    using assms(4) nodes_pos [OF sz] powered_sized [OF sz] field_balance [OF assms(2,4)]
    by (intro transient_steady [where k = k]) (simp_all add: in_balance_def)
  with compute_temp_run [OF assms(1-3), of temp te] show ?thesis by auto
qed

end
