(* ===== verification/Block_Props.thy ===== *)
theory Block_Props
  imports Block_Transient Thermal_Config
begin

text \<open>
  The properties of the block model: initialisation, the steady state and the transient solver.
\<close>

section \<open>A chip of one block\<close>

text \<open>A block of 10 mm by 10 mm in the package of the default configuration.\<close>

definition die :: flp_t where
  "die = \<lparr>units = [unit_zero\<lparr>width := 1 / 100, height := 1 / 100\<rparr>], n_units = 1, wire_density = [[0]]\<rparr>"

lemma die_fits: "fits default_thermal_config die (1 / 100) (1 / 100)"
  by (simp add: fits_def die_def chip_ok_def flp_ok_def layers_ok_def default_thermal_config_def package_ok_def
      get_total_width_def get_total_height_def unit_zero_def)

lemma die_heat: "heat_ok default_thermal_config"
  by (simp add: heat_ok_def default_thermal_config_def)

lemma die_pack:
  obtains pack where "populate_package_R p default_thermal_config (1 / 100) (1 / 100) = Inr pack"
    "well_coupled default_thermal_config die pack"
proof -
  have ok: "package_ok default_thermal_config (1 / 100) (1 / 100)" using die_fits by (simp add: fits_def)
  obtain pack where pack: "populate_package_R p default_thermal_config (1 / 100) (1 / 100) = Inr pack"
    using populate_package_R_ok [OF ok] by blast
  have "well_coupled default_thermal_config die pack"
    unfolding well_coupled_def populate_package_R_values [OF ok pack]
    by (simp add: die_def slab_def area_of_def ambient_of_def default_thermal_config_def DELTA_def unit_zero_def)
  with pack show thesis by (rule that)
qed

lemma die_model:
  obtains m where "R_ok (\<lambda>_. die) m" "C_ok m" "bm_n_units m = 1" "bm_config m = default_thermal_config" "bm_n_nodes m = 16"
proof -
  let ?fs = "\<lambda>_::nat. die"
  define m where "m = alloc_block_model ?fs default_thermal_config 0"
  note a = alloc_sized [OF m_def]
  obtain pack where pack: "populate_package_R (bm_pack m) default_thermal_config (1 / 100) (1 / 100) = Inr pack"
    "well_coupled default_thermal_config die pack" by (rule die_pack)
  obtain m1 where m1: "same_setting m m1" "R_ok ?fs m1"
    using populate_R_body [OF a(1), of "1 / 100" "1 / 100" pack] die_fits pack a(2,3) by auto
  then obtain m2 where m2: "same_setting m1 m2" "R_ok ?fs m2" "C_ok m2"
    using populate_C_body [OF m1(2)] die_fits die_heat a(2,3) by (auto simp: same_setting_def)
  moreover have "bm_n_units m = 1" using a(4) by (simp add: die_def)
  moreover have "bm_n_nodes m = 16" using a(1,4) by (simp add: block_sized_def Let_def die_def layer_defs EXTRA_def)
  ultimately show thesis using m1(1) a(3) by (intro that [of m2]) (simp_all add: same_setting_def)
qed

section \<open>Initialisation\<close>

text \<open>
  C2: for a chip of placed blocks that fits its package and whose vertical paths conduct,
  allocating the block model and computing resistances and capacitances returns a model in
  which \<open>b\<close> is a conductance matrix (symmetric, no positive entry off the diagonal, row sums
  equal to the conductances to the ambient) with its factors, every capacitance is positive
  and \<open>c\<close> is \<open>b\<close> divided by the capacitances.
\<close>

theorem block_model_initialises:
  assumes "m = alloc_block_model fs config fp" "fits config (fs fp) w l" "heat_ok config"
    and "populate_package_R package_zero config w l = Inr pack" "well_coupled config (fs fp) pack"
  shows "\<exists>m1 m2. populate_R_model_block fs m fp = Inr m1 \<and> populate_C_model_block fs m1 fp = Inr m2 \<and>
    R_ok fs m2 \<and> C_ok m2 \<and> bm_flp m2 = fp \<and> bm_config m2 = config \<and> bm_n_units m2 = n_units (fs fp)"
proof -
  note a = alloc_sized [OF assms(1)]
  have p: "bm_pack m = package_zero" by (simp add: assms(1) alloc_block_model_def Let_def)
  obtain m1 where m1: "populate_R_model_block fs m fp = Inr m1" "same_setting m m1" "R_ok fs m1"
    using populate_R_body [OF a(1), of w l pack] assms(2,4,5) a(2,3) p by auto
  then obtain m2 where "populate_C_model_block fs m1 fp = Inr m2" "same_setting m1 m2" "R_ok fs m2" "C_ok m2"
    using populate_C_body [OF m1(3), of w l] assms(2,3) a(2,3) by (auto simp: same_setting_def)
  then show ?thesis using m1 a by (simp add: same_setting_def)
qed

lemma block_model_initialises_witness:
  "\<exists>m1 m2. populate_R_model_block (\<lambda>_. die) (alloc_block_model (\<lambda>_. die) default_thermal_config 0) 0 = Inr m1 \<and>
    populate_C_model_block (\<lambda>_. die) m1 0 = Inr m2 \<and> C_ok m2"
proof -
  obtain pack where "populate_package_R package_zero default_thermal_config (1 / 100) (1 / 100) = Inr pack"
    "well_coupled default_thermal_config die pack" by (rule die_pack)
  then show ?thesis
    using block_model_initialises [where fs = "\<lambda>_. die" and fp = 0, OF refl die_fits die_heat] by blast
qed

text \<open>
  the decomposition of a conductance matrix whose nodes all reach a later node or the
  ambient through a conductance of at least \<open>d\<close>, \<open>d\<close> not below the tolerance, never stops,
  exchanges no rows, and leaves pivots of at least \<open>d\<close>.
\<close>

theorem conductance_decomposes:
  assumes "dmat_ok a n n" "length p = n" "conductive 0 n d (mat_at a)" "DELTA \<le> d"
  shows "\<exists>lu. lupdcmp a n p spd = Inr (lu, [0..<n]) \<and> dmat_ok lu n n \<and>
    factored n n (mat_at a) [0..<n] (mat_at lu) \<and> (\<forall>i < n. d \<le> mat_at lu i i)"
  using lupdcmp_conductive [OF assms, of spd] by blast

lemma conductance_decomposes_witness:
  "\<exists>lu. lupdcmp \<lparr>cells = [2, -1, -1, 2], ncols = 2\<rparr> 2 [0, 1] False = Inr (lu, [0..<2]) \<and> (\<forall>i < 2. 1 \<le> mat_at lu i i)"
proof -
  have two: "{i. i < (2::nat)} = {0, 1}" "i < (2::nat) \<longleftrightarrow> i = 0 \<or> i = 1" for i by auto
  have "conductive 0 2 1 (mat_at \<lparr>cells = [2, -1, -1, 2], ncols = 2\<rparr>)"
    by (auto simp: conductive_def leak_def mat_at_def two atLeast0LessThan lessThan_nat_numeral)
  then show ?thesis
    using conductance_decomposes [of "\<lparr>cells = [2, -1, -1, 2], ncols = 2\<rparr>" 2 "[0, 1]" 1 False]
    by (auto simp: dmat_ok_def DELTA_def)
qed

section \<open>The steady state\<close>

text \<open>
  C4: on an initialised model the steady state solver never stops and returns the one vector
  of temperatures at which every node passes on the heat it receives: the conductance matrix
  times the temperatures is the power of the blocks plus the exchange with the ambient.
\<close>

theorem steady_state_solves:
  assumes "R_ok fs m" "length pw = bm_n_nodes m" "length temp = bm_n_nodes m"
  shows "\<exists>pw' t. steady_state_temp_block m pw temp = Inr (pw', t) \<and> length t = bm_n_nodes m \<and>
    (\<forall>i < bm_n_nodes m. (\<Sum>j < bm_n_nodes m. mat_at (bm_b m) i j * t ! j) =
      (if i < bm_n_units m then pw ! i else 0) + leak_at m i * ambient (bm_config m)) \<and>
    (\<forall>u. in_balance m pw u \<longrightarrow> u = t)"
proof -
  obtain pw' t where t: "steady_state_temp_block m pw temp = Inr (pw', t)" "in_balance m pw t"
    using steady_ok [OF assms] by blast
  moreover have "\<forall>u. in_balance m pw u \<longrightarrow> u = t" using balance_unique [OF assms(1) _ t(2)] by blast
  ultimately show ?thesis unfolding in_balance_def full_power_def by blast
qed

lemma steady_state_solves_witness:
  "\<exists>fs m pw' t. R_ok fs m \<and> bm_config m = default_thermal_config \<and>
    steady_state_temp_block m (replicate 16 5) (replicate 16 0) = Inr (pw', t) \<and> length t = 16"
proof -
  obtain m where m: "R_ok (\<lambda>_. die) m" "C_ok m" "bm_n_units m = 1" "bm_config m = default_thermal_config" "bm_n_nodes m = 16"
    by (rule die_model)
  have l: "length (replicate 16 5 :: real list) = bm_n_nodes m" "length (replicate 16 0 :: real list) = bm_n_nodes m"
    using m(5) by simp_all
  obtain pw' t where "steady_state_temp_block m (replicate 16 5) (replicate 16 0) = Inr (pw', t)" "length t = bm_n_nodes m"
    using steady_state_solves [OF m(1) l] by blast
  with m(1,4,5) show ?thesis by metis
qed

text \<open>
  C9: at the steady state the heat that flows to the ambient through the sink and the package
  is the power of the blocks.
\<close>

theorem steady_state_conserves_heat:
  assumes "R_ok fs m" "length pw = bm_n_nodes m" "length temp = bm_n_nodes m" "steady_state_temp_block m pw temp = Inr (pw', t)"
  shows "(\<Sum>i < bm_n_nodes m. leak_at m i * (t ! i - ambient (bm_config m))) = (\<Sum>i < bm_n_units m. pw ! i)"
  using steady_ok [OF assms(1-3)] assms(4) balance_heat [OF assms(1), of pw t] by auto

lemma steady_state_conserves_heat_witness:
  "\<exists>fs m pw' t. steady_state_temp_block m (replicate 16 5) (replicate 16 0) = Inr (pw', t) \<and> R_ok fs m \<and>
    (\<Sum>i < 16. leak_at m i * (t ! i - ambient default_thermal_config)) = 5"
proof -
  obtain m where m: "R_ok (\<lambda>_. die) m" "C_ok m" "bm_n_units m = 1" "bm_config m = default_thermal_config" "bm_n_nodes m = 16"
    by (rule die_model)
  obtain pw' t where t: "steady_state_temp_block m (replicate 16 5) (replicate 16 0) = Inr (pw', t)"
    using steady_ok [OF m(1), of "replicate 16 5" "replicate 16 0"] m(5) by auto
  show ?thesis using steady_state_conserves_heat [OF m(1) _ _ t] m t by auto
qed

text \<open>
  C10: the steady state is never below the ambient temperature when no block has negative
  power, and more power nowhere makes a node cooler.
\<close>

theorem steady_state_monotone:
  assumes "R_ok fs m" "length pw = bm_n_nodes m" "length pw2 = bm_n_nodes m" "length temp = bm_n_nodes m"
    and "steady_state_temp_block m pw temp = Inr (pw', t)" "steady_state_temp_block m pw2 temp = Inr (pw2', t2)"
    and "\<forall>k < bm_n_units m. 0 \<le> pw ! k \<and> pw ! k \<le> pw2 ! k"
  shows "\<forall>i < bm_n_nodes m. ambient (bm_config m) \<le> t ! i \<and> t ! i \<le> t2 ! i"
proof -
  have "in_balance m pw t" "in_balance m pw2 t2"
    using steady_ok [OF assms(1,2,4)] steady_ok [OF assms(1,3,4)] assms(5,6) by auto
  then show ?thesis using balance_above_ambient [OF assms(1)] balance_mono [OF assms(1)] assms(7) by blast
qed

lemma steady_state_monotone_witness:
  "\<exists>fs m pw' t. steady_state_temp_block m (replicate 16 5) (replicate 16 0) = Inr (pw', t) \<and> R_ok fs m \<and>
    (\<forall>i < 16. ambient default_thermal_config \<le> t ! i)"
proof -
  obtain m where m: "R_ok (\<lambda>_. die) m" "C_ok m" "bm_n_units m = 1" "bm_config m = default_thermal_config" "bm_n_nodes m = 16"
    by (rule die_model)
  obtain pw' t where t: "steady_state_temp_block m (replicate 16 5) (replicate 16 0) = Inr (pw', t)"
    using steady_ok [OF m(1), of "replicate 16 5" "replicate 16 0"] m(5) by auto
  show ?thesis using steady_state_monotone [OF m(1) _ _ _ t t] m t by auto
qed

section \<open>Transient temperatures\<close>

text \<open>
  C25: the transient solver started on the steady state of its power ends for every interval
  and returns the temperatures unchanged.
\<close>

theorem compute_temp_keeps_steady:
  assumes "R_ok fs m" "C_ok m" "length pw = bm_n_nodes m" "length temp = bm_n_nodes m"
    and "steady_state_temp_block m pw temp = Inr (pw', t)"
  shows "\<exists>m' pw''. compute_temp_block m pw t False te = Some (Inr (m', pw'', t))"
  using steady_ok [OF assms(1,3,4)] assms(5) compute_temp_balance [OF assms(1-3), of t te] by auto

lemma compute_temp_keeps_steady_witness:
  "\<exists>fs m pw' t m' pw''. R_ok fs m \<and> steady_state_temp_block m (replicate 16 5) (replicate 16 0) = Inr (pw', t) \<and>
    compute_temp_block m (replicate 16 5) t False 1 = Some (Inr (m', pw'', t))"
proof -
  obtain m where m: "R_ok (\<lambda>_. die) m" "C_ok m" "bm_n_units m = 1" "bm_config m = default_thermal_config" "bm_n_nodes m = 16"
    by (rule die_model)
  have l: "length (replicate 16 5 :: real list) = bm_n_nodes m" "length (replicate 16 0 :: real list) = bm_n_nodes m"
    using m(5) by simp_all
  obtain pw' t where t: "steady_state_temp_block m (replicate 16 5) (replicate 16 0) = Inr (pw', t)"
    using steady_ok [OF m(1) l] by blast
  show ?thesis using compute_temp_keeps_steady [OF m(1,2) l t] m(1) t by blast
qed

text \<open>
  A step of the Runge Kutta solver on the block model that is small against the rate of
  change is accepted at the first attempt: the solver returns the classical fourth order
  formula and a next step between the step and five times the step.
\<close>

theorem block_small_step:
  assumes "R_ok fs m" "length y = bm_n_nodes m" "length yout = bm_n_nodes m"
    and "bounded_by (bm_n_nodes m) (block_field m y) G" "0 \<le> G"
    and "0 < h" "h * field_bound m \<le> 1" "33 / 4 * h * G \<le> 3 / 4 * RK4_PRECISION"
  shows "\<exists>new_h. rk4 y (bm_n_nodes m) h yout (\<lambda>y. slope_fn_block m y (bm_t_vector m)) =
      Some (Inr (new_h, h, rk4_value (bm_n_nodes m) (block_field m) y (block_field m y) h)) \<and> h \<le> new_h \<and> new_h \<le> RK4_MAXUP * h"
proof (rule block_rk4_accepts)
  have sz: "block_sized fs m" by (rule R_okD(1) [OF assms(1) refl refl])
  show "0 < bm_n_nodes m" by (rule nodes_pos [OF sz])
  show "transient_sized m" using sizedD(2,4,11) [OF sz refl] by (simp add: transient_sized_def)
qed (use assms in auto)

lemma bounded_somehow: "\<exists>G \<ge> 0. bounded_by n v G"
proof (intro exI conjI)
  show "0 \<le> (\<Sum>i < n. \<bar>v ! i\<bar>)" by (simp add: sum_nonneg)
  have "\<bar>v ! i\<bar> \<le> (\<Sum>i < n. \<bar>v ! i\<bar>)" if "i < n" for i using that by (intro member_le_sum) auto
  then show "bounded_by n v (\<Sum>i < n. \<bar>v ! i\<bar>)" by (simp add: bounded_by_def)
qed

lemma block_small_step_witness:
  "\<exists>fs m h new_h y'. R_ok fs m \<and> 0 < h \<and> rk4 (replicate 16 300) 16 h (replicate 16 0) (\<lambda>y. slope_fn_block m y (bm_t_vector m)) =
    Some (Inr (new_h, h, y')) \<and> h \<le> new_h"
proof -
  obtain m where m: "R_ok (\<lambda>_. die) m" "C_ok m" "bm_n_units m = 1" "bm_config m = default_thermal_config" "bm_n_nodes m = 16"
    by (rule die_model)
  have l: "length (replicate 16 300 :: real list) = bm_n_nodes m" "length (replicate 16 0 :: real list) = bm_n_nodes m"
    using m(5) by simp_all
  obtain G where G: "0 \<le> G" "bounded_by (bm_n_nodes m) (block_field m (replicate 16 300)) G" using bounded_somehow by blast
  define s where "s = 1 + field_bound m + 1100 * G"
  define h where "h = 1 / s"
  have s: "0 < s" "field_bound m \<le> s" "1100 * G \<le> s" using G(1) by (simp_all add: s_def add_pos_nonneg)
  have "h * field_bound m \<le> 1" using s by (simp add: h_def)
  moreover have "33 / 4 * h * G \<le> 3 / 4 * RK4_PRECISION" using s by (simp add: h_def RK4_PRECISION_def pos_divide_le_eq)
  moreover have "0 < h" using s by (simp add: h_def)
  ultimately obtain new_h y' where "rk4 (replicate 16 300) (bm_n_nodes m) h (replicate 16 0) (\<lambda>y. slope_fn_block m y (bm_t_vector m)) =
      Some (Inr (new_h, h, y'))" "h \<le> new_h" "0 < h"
    using block_small_step [OF m(1) l G(2,1), of h] by blast
  then show ?thesis using m(1) unfolding m(5) by blast
qed

text \<open>
  An interval shorter than \<open>MIN_STEP\<close> is not the one that is computed: when the first step
  is accepted, every interval up to \<open>MIN_STEP\<close> gives the temperatures after a whole step.
\<close>

theorem compute_temp_short_interval:
  assumes "R_ok fs m" "C_ok m" "length pw = bm_n_nodes m" "0 < te" "te \<le> MIN_STEP"
    and "rk4 temp (bm_n_nodes m) MIN_STEP temp (\<lambda>y. slope_fn_block (powered m pw) y (bm_t_vector (powered m pw))) =
      Some (Inr (new_h, MIN_STEP, t))"
  shows "\<exists>pw'. compute_temp_block m pw temp False te = Some (Inr (powered m pw, pw', t))"
proof -
  let ?m = "powered m pw"
  have d: "MIN_STEP * DELTA \<le> MIN_STEP" by (simp add: MIN_STEP_def DELTA_def)
  have "transient_loop ?m te MIN_STEP h t = Some (Inr t)" for h
    using assms(5) by (subst transient_loop.simps) simp
  then have "transient_loop ?m te 0 MIN_STEP temp = Some (Inr t)"
    using assms(4,6) d by (subst transient_loop.simps) simp
  with compute_temp_run [OF assms(1-3), of temp te] show ?thesis by auto
qed

lemma compute_temp_short_interval_witness:
  "\<exists>fs m m' pw' t. R_ok fs m \<and> compute_temp_block m (replicate 16 0) t False (MIN_STEP / 2) = Some (Inr (m', pw', t)) \<and> length t = 16"
proof -
  obtain m where m: "R_ok (\<lambda>_. die) m" "C_ok m" "bm_n_units m = 1" "bm_config m = default_thermal_config" "bm_n_nodes m = 16"
    by (rule die_model)
  let ?pw = "replicate 16 0 :: real list" and ?t = "replicate 16 (ambient (bm_config m))"
  have l: "length ?pw = bm_n_nodes m" using m(5) by simp
  have sz: "block_sized (\<lambda>_. die) m" by (rule R_okD(1) [OF m(1) refl refl])
  have "in_balance m ?pw ?t" using balance_ambient [OF m(1), of ?pw] m(3,5) by simp
  from field_balance [OF m(2) this]
  have "rk4 ?t (bm_n_nodes m) MIN_STEP ?t (\<lambda>y. slope_fn_block (powered m ?pw) y (bm_t_vector (powered m ?pw))) =
      Some (Inr (RK4_MAXUP * MIN_STEP, MIN_STEP, ?t))"
    using rk4_steady [OF powered_sized [OF sz, of ?pw], of ?t MIN_STEP] m(5) by (simp add: MIN_STEP_def)
  from compute_temp_short_interval [OF m(1,2) l _ _ this, of "MIN_STEP / 2"] m(1) show ?thesis
    by (force simp: MIN_STEP_def)
qed

end
