(* ===== verification/Block_Vectors.thy ===== *)
theory Block_Vectors
  imports Block_Props Flp_Geom
begin

text \<open>
  The vectors of temperatures of the block model: trimming, extremes, averages, and the mean
  temperature of the sink.
\<close>

section \<open>Trimming\<close>

text \<open>The call of \<open>trim_hotspot_vector\<close> with one array as source and destination.\<close>

definition trim_in_place :: "block_model_t \<Rightarrow> real list \<Rightarrow> nat \<Rightarrow> nat \<Rightarrow> real list res" where
  "trim_in_place model v at_i sz =
     rbind (for_up 0 (min at_i (bm_n_nodes model)) (\<lambda>i v. rbind (rd v i) (wr v i)) v) (\<lambda>v.
     for_up (at_i + sz) (bm_n_nodes model) (\<lambda>i v. rbind (rd v i) (wr v (i - sz))) v)"

definition trimmed :: "nat \<Rightarrow> nat \<Rightarrow> nat \<Rightarrow> real list \<Rightarrow> real list" where
  "trimmed n at_i sz v = take at_i v @ take (n - (at_i + sz)) (drop (at_i + sz) v)"

lemma trimmed_nth: "at_i + sz \<le> n \<Longrightarrow> n \<le> length v \<Longrightarrow> i < n - sz \<Longrightarrow> trimmed n at_i sz v ! i = v ! (if i < at_i then i else i + sz)"
  by (auto simp: trimmed_def nth_append min_def add.commute)

lemma trimmed_length: "at_i + sz \<le> n \<Longrightarrow> n \<le> length v \<Longrightarrow> length (trimmed n at_i sz v) = n - sz"
  by (auto simp: trimmed_def min_def)

text \<open>The second loop moves the tail; the cells it reads are not yet written.\<close>

lemma prefix_is:
  assumes "k \<le> length d" "length xs = k" "\<forall>i < k. d ! i = xs ! i" "length d = length e" "\<forall>i. k \<le> i \<and> i < length d \<longrightarrow> d ! i = e ! i"
  shows "d = xs @ drop k e"
  by (rule nth_equalityI) (use assms in \<open>auto simp: nth_append\<close>)

lemma move_tail:
  fixes src d :: "real list"
  assumes "at_i + sz \<le> n" "n - sz \<le> length d" "n \<le> length src"
    and "\<forall>i < at_i. d ! i = src ! i" "\<And>i v. i < n \<Longrightarrow> length v = length d \<Longrightarrow> v ! i = src ! i \<or> from_src \<Longrightarrow> rdr v i = Inr (src ! i)"
    and "from_src \<or> (d = src)"
  shows "for_up (at_i + sz) n (\<lambda>i v. rbind (rdr v i) (wr v (i - sz))) d = Inr (trimmed n at_i sz src @ drop (n - sz) d)"
proof -
  let ?I = "\<lambda>i v. length v = length d \<and> (\<forall>j < i - sz. v ! j = src ! (if j < at_i then j else j + sz)) \<and>
    (\<forall>j. i - sz \<le> j \<and> j < length d \<longrightarrow> v ! j = d ! j)"
  have "\<exists>v. for_up (at_i + sz) n (\<lambda>i v. rbind (rdr v i) (wr v (i - sz))) d = Inr v \<and> ?I n v"
  proof (rule for_up_rule [where I = ?I])
    fix i v assume i: "at_i + sz \<le> i" "i < n" and I: "?I i v"
    have "v ! i = src ! i \<or> from_src" using I i assms(3,6) by auto
    then have r: "rdr v i = Inr (src ! i)" using assms(5) i(2) I by blast
    have "?I (Suc i) (v[i - sz := src ! i])"
      using I i assms(1,2) by (auto simp: nth_list_update less_Suc_eq Suc_diff_le)
    then show "\<exists>t'. rbind (rdr v i) (wr v (i - sz)) = Inr t' \<and> ?I (Suc i) t'"
      using r I i assms(2) by simp
  qed (use assms(1,4) in auto)
  then obtain v where v: "for_up (at_i + sz) n (\<lambda>i v. rbind (rdr v i) (wr v (i - sz))) d = Inr v" "?I n v" by blast
  have "v = trimmed n at_i sz src @ drop (n - sz) d"
    using v(2) assms(1-3) trimmed_nth [OF assms(1,3)] trimmed_length [OF assms(1,3)] by (intro prefix_is) auto
  with v(1) show ?thesis by simp
qed

lemma head_loop:
  assumes "k \<le> length d" "k \<le> length src"
  shows "for_up 0 k (\<lambda>i d. rbind (rd src i) (wr d i)) d = Inr (take k src @ drop k d)"
proof -
  let ?I = "\<lambda>i v. length v = length d \<and> (\<forall>j < i. v ! j = src ! j) \<and> (\<forall>j. i \<le> j \<and> j < length d \<longrightarrow> v ! j = d ! j)"
  have "\<exists>v. for_up 0 k (\<lambda>i d. rbind (rd src i) (wr d i)) d = Inr v \<and> ?I k v"
    by (rule for_up_rule [where I = ?I]) (use assms in \<open>auto simp: nth_list_update less_Suc_eq\<close>)
  then obtain v where v: "for_up 0 k (\<lambda>i d. rbind (rd src i) (wr d i)) d = Inr v" "?I k v" by blast
  have "v = take k src @ drop k d" using v(2) assms by (intro prefix_is) auto
  with v(1) show ?thesis by simp
qed

lemma self_loop:
  assumes "k \<le> length v"
  shows "for_up 0 k (\<lambda>i v. rbind (rd v i) (wr v i)) v = Inr v"
proof -
  have "\<exists>w. for_up 0 k (\<lambda>i v. rbind (rd v i) (wr v i)) v = Inr w \<and> w = v"
    by (rule for_up_rule [where I = "\<lambda>i w. w = v"]) (use assms in auto)
  then show ?thesis by simp
qed

text \<open>
  Trimming removes exactly the \<open>sz\<close> entries from position \<open>at_i\<close> on, keeps the others in
  their order, leaves the rest of the destination as it was, and may be done in place.
\<close>

theorem trim_hotspot_vector_removes:
  assumes "n = bm_n_nodes m" "at_i + sz \<le> n" "n \<le> length src" "n - sz \<le> length dst"
  shows "trim_hotspot_vector_block m dst src at_i sz =
      Inr (take at_i src @ take (n - (at_i + sz)) (drop (at_i + sz) src) @ drop (n - sz) dst) \<and>
    trim_in_place m src at_i sz =
      Inr (take at_i src @ take (n - (at_i + sz)) (drop (at_i + sz) src) @ drop (n - sz) src)"
proof
  have k: "min at_i n = at_i" "at_i \<le> length dst" "at_i \<le> length src" "n - sz \<le> length src" using assms by auto
  let ?d = "take at_i src @ drop at_i dst"
  have l: "length ?d = length dst" using k by simp
  have dr: "drop (n - sz) ?d = drop (n - sz) dst" using assms(2) k by simp
  have "for_up (at_i + sz) n (\<lambda>i v. rbind (rd src i) (wr v (i - sz))) ?d = Inr (trimmed n at_i sz src @ drop (n - sz) ?d)"
    by (rule move_tail [where from_src = True]) (use assms l k in \<open>auto simp: nth_append\<close>)
  then show "trim_hotspot_vector_block m dst src at_i sz = Inr (take at_i src @ take (n - (at_i + sz)) (drop (at_i + sz) src) @ drop (n - sz) dst)"
    using head_loop [OF k(2,3)] k(1) assms(1) unfolding dr by (simp add: trim_hotspot_vector_block_def trimmed_def)
  have "for_up (at_i + sz) n (\<lambda>i v. rbind (rd v i) (wr v (i - sz))) src = Inr (trimmed n at_i sz src @ drop (n - sz) src)"
    by (rule move_tail [where from_src = False]) (use assms k in auto)
  then show "trim_in_place m src at_i sz = Inr (take at_i src @ take (n - (at_i + sz)) (drop (at_i + sz) src) @ drop (n - sz) src)"
    using self_loop [OF k(3)] k(1) assms(1) by (simp add: trim_in_place_def trimmed_def)
qed

lemma die_nodes: "bm_n_nodes (alloc_block_model (\<lambda>_. die) default_thermal_config 0) = 16"
  "bm_n_units (alloc_block_model (\<lambda>_. die) default_thermal_config 0) = 1"
  by (simp_all add: alloc_block_model_def Let_def die_def layer_defs EXTRA_def)

lemma trim_hotspot_vector_removes_witness:
  "trim_in_place (alloc_block_model (\<lambda>_. die) default_thermal_config 0) (map real [0..<16]) 1 14 =
    Inr ([0, 15] @ map real [2..<16])"
proof -
  have "(16::nat) = bm_n_nodes (alloc_block_model (\<lambda>_. die) default_thermal_config 0)" by (simp add: die_nodes)
  from trim_hotspot_vector_removes [OF this, of 1 14 "map real [0..<16]" "map real [0..<16]"]
  moreover have "map real [0..<1] = [0]" by simp
  ultimately show ?thesis by (simp add: take_map drop_map numeral_2_eq_2 [symmetric] del: One_nat_def)
qed

section \<open>Extremes and averages\<close>

text \<open>A loop that stops at the first index where its body does.\<close>

lemma for_up_stops:
  assumes "lo \<le> k" "k < hi" "I lo s" "\<And>i t. lo \<le> i \<Longrightarrow> i < k \<Longrightarrow> I i t \<Longrightarrow> \<exists>t'. body i t = Inr t' \<and> I (Suc i) t'"
    and "\<And>t. I k t \<Longrightarrow> body k t = Inl e"
  shows "for_up lo hi body s = Inl e"
proof -
  obtain t where t: "for_up lo k body s = Inr t" "I k t" using for_up_rule [where I = I and body = body, OF assms(1,3)] assms(4) by blast
  have "for_up lo hi body s = rbind (for_up lo k body s) (for_up k hi body)" using assms(1,2) by (intro for_up_split) auto
  with t assms(2,5) show ?thesis by (simp add: for_up_step)
qed

lemma first_below:
  assumes "\<exists>i < n. v ! i < (0::real)"
  obtains k where "k < n" "v ! k < 0" "\<forall>i < k. 0 \<le> v ! i"
proof -
  obtain k where "k < n \<and> v ! k < 0" "\<forall>i < k. \<not> (i < n \<and> v ! i < 0)"
    using assms exists_least_iff [of "\<lambda>i. i < n \<and> v ! i < 0"] by blast
  then show thesis by (intro that [of k]) (auto simp: not_less)
qed

text \<open>
  The largest temperature of the blocks is the maximum over the blocks and the average
  lies between no temperature and the maximum; a negative temperature of a block stops both.
\<close>

theorem max_and_avg_temp:
  assumes "n = bm_n_units m" "0 < n" "n \<le> length temp"
  shows "if \<exists>i < n. temp ! i < 0
    then find_max_temp_block m temp = Inl (Fatal ''negative temperature!'') \<and>
      find_avg_temp_block m temp = Inl (Fatal ''negative temperature!'')
    else \<exists>mx avg. find_max_temp_block m temp = Inr mx \<and> find_avg_temp_block m temp = Inr avg \<and>
      (\<exists>i < n. mx = temp ! i) \<and> (\<forall>i < n. temp ! i \<le> mx) \<and> real n * avg = (\<Sum>i < n. temp ! i) \<and> 0 \<le> avg \<and> avg \<le> mx"
proof (cases "\<exists>i < n. temp ! i < 0")
  case True
  then obtain k where k: "k < n" "temp ! k < 0" "\<forall>i < k. 0 \<le> temp ! i" by (rule first_below)
  have a: "for_up 0 n (\<lambda>i mx. rbind (rd temp i) (\<lambda>x. if x < 0 then Inl (Fatal ''negative temperature!'')
      else Inr (if mx < x then x else mx))) 0 = Inl (Fatal ''negative temperature!'')"
    by (rule for_up_stops [where k = k and I = "\<lambda>_ _. True"]) (use k assms(3) in auto)
  have "for_up 0 n (\<lambda>i s. rbind (rd temp i) (\<lambda>x. if x < 0 then Inl (Fatal ''negative temperature!'')
      else Inr (s + x))) 0 = Inl (Fatal ''negative temperature!'')"
    by (rule for_up_stops [where k = k and I = "\<lambda>_ _. True"]) (use k assms(3) in auto)
  with a True show ?thesis by (simp add: find_max_temp_block_def find_avg_temp_block_def assms(1) [symmetric])
next
  case False
  then have nn: "\<And>i. i < n \<Longrightarrow> 0 \<le> temp ! i" by force
  let ?I = "\<lambda>k mx. (\<forall>i < k. temp ! i \<le> mx) \<and> (if k = 0 then mx = 0 else \<exists>i < k. mx = temp ! i)"
  have "\<exists>mx. for_up 0 n (\<lambda>i mx. rbind (rd temp i) (\<lambda>x. if x < 0 then Inl (Fatal ''negative temperature!'')
      else Inr (if mx < x then x else mx))) 0 = Inr mx \<and> ?I n mx"
  proof (rule for_up_rule [where I = ?I])
    fix i mx assume i: "i < n" and I: "?I i mx"
    have x: "rd temp i = Inr (temp ! i)" "\<not> temp ! i < 0" using i assms(3) nn [OF i] by auto
    have "?I (Suc i) (if mx < temp ! i then temp ! i else mx)"
    proof (cases "i = 0")
      case True
      with I nn [OF i] show ?thesis by auto
    next
      case False
      with I show ?thesis by (auto simp: less_Suc_eq)
    qed
    then show "\<exists>t'. rbind (rd temp i) (\<lambda>x. if x < 0 then Inl (Fatal ''negative temperature!'')
      else Inr (if mx < x then x else mx)) = Inr t' \<and> ?I (Suc i) t'" using x by simp
  qed simp_all
  then obtain mx where mx: "find_max_temp_block m temp = Inr mx" "?I n mx"
    unfolding find_max_temp_block_def assms(1) [symmetric] by blast
  have "\<exists>s. for_up 0 n (\<lambda>i s. rbind (rd temp i) (\<lambda>x. if x < 0 then Inl (Fatal ''negative temperature!'')
      else Inr (s + x))) 0 = Inr s \<and> s = (\<Sum>i < n. temp ! i)"
    by (rule for_up_rule [where I = "\<lambda>k s. s = (\<Sum>i < k. temp ! i)"]) (use assms(3) nn in \<open>auto simp: not_less\<close>)
  then have avg: "find_avg_temp_block m temp = Inr ((\<Sum>i < n. temp ! i) / real n)"
    using assms(2) by (auto simp: find_avg_temp_block_def assms(1) [symmetric])
  have "(\<Sum>i < n. temp ! i) \<le> (\<Sum>i < n. mx)" by (rule sum_mono) (use mx(2) in auto)
  then have "(\<Sum>i < n. temp ! i) / real n \<le> mx" using assms(2) by (simp add: pos_divide_le_eq mult.commute)
  moreover have "0 \<le> (\<Sum>i < n. temp ! i) / real n" using nn by (intro divide_nonneg_nonneg sum_nonneg) auto
  ultimately show ?thesis using False mx avg assms(2) by auto
qed

lemma max_and_avg_temp_witness:
  "\<exists>mx avg. find_max_temp_block (alloc_block_model (\<lambda>_. die) default_thermal_config 0) (replicate 16 300) = Inr mx \<and>
    find_avg_temp_block (alloc_block_model (\<lambda>_. die) default_thermal_config 0) (replicate 16 300) = Inr avg \<and> avg \<le> mx"
proof -
  have "(1::nat) = bm_n_units (alloc_block_model (\<lambda>_. die) default_thermal_config 0)" by (simp add: die_nodes)
  from max_and_avg_temp [OF this, of "replicate 16 300"] show ?thesis by auto
qed

section \<open>The sink\<close>

text \<open>A weighted sum of values between two bounds.\<close>

definition mean_in :: "real \<Rightarrow> real \<Rightarrow> real \<Rightarrow> real \<Rightarrow> bool" where
  "mean_in lo hi wt s \<longleftrightarrow> lo * wt \<le> s \<and> s \<le> hi * wt"

lemma mean_add: "mean_in lo hi wt s \<Longrightarrow> lo \<le> x \<Longrightarrow> x \<le> hi \<Longrightarrow> 0 \<le> v \<Longrightarrow> mean_in lo hi (wt + v) (s + x * v)"
  using mult_right_mono [of lo x v] mult_right_mono [of x hi v] by (simp add: mean_in_def algebra_simps)

lemma sink_part_mean:
  assumes "lo_i \<le> hi_i + 1" "hi_i + NL * n < length temp" "\<forall>i. lo_i \<le> i \<and> i \<le> hi_i \<longrightarrow> 0 \<le> temp ! (i + NL * n) \<and>
      lo \<le> temp ! (i + NL * n) \<and> temp ! (i + NL * n) \<le> hi" "0 \<le> wt" "mean_in lo hi W s"
  shows "\<exists>s'. sink_part n temp lo_i hi_i wt s = Inr s' \<and> mean_in lo hi (W + real (hi_i + 1 - lo_i) * wt) s'"
  unfolding sink_part_def
proof (rule for_up_rule [where I = "\<lambda>k s. mean_in lo hi (W + real (k - lo_i) * wt) s"])
  fix i s assume i: "lo_i \<le> i" "i < hi_i + 1" and I: "mean_in lo hi (W + real (i - lo_i) * wt) s"
  have t: "0 \<le> temp ! (i + NL * n)" "lo \<le> temp ! (i + NL * n)" "temp ! (i + NL * n) \<le> hi" using assms(3) i by auto
  have "real (Suc i - lo_i) = real (i - lo_i) + 1" using i by (simp add: Suc_diff_le)
  then have "mean_in lo hi (W + real (Suc i - lo_i) * wt) (s + temp ! (i + NL * n) * wt)"
    using mean_add [OF I t(2,3) assms(4)] by (simp add: algebra_simps)
  then show "\<exists>t'. rbind (rd temp (i + NL * n)) (\<lambda>x. if x < 0 then Inl (Fatal ''negative temperature!'')
      else Inr (s + x * wt)) = Inr t' \<and> mean_in lo hi (W + real (Suc i - lo_i) * wt) t'"
    using t(1) i assms(2) by simp
qed (use assms(1,5) in auto)

text \<open>
  C33: on a chip that tiles its bounding rectangle the weights of the mean temperature of the
  sink add up to its area, so the mean lies between every lower and every upper bound of the
  temperatures of the sink.
\<close>

theorem calc_sink_temp_mean:
  assumes "n = n_units flp" "fs (bm_flp m) = flp" "length temp = nodes n" "n \<le> length (units flp)"
    and "get_total_width flp = Inr w" "get_total_height flp = Inr h" "tiles (units flp) {..<n} l b w h"
    and "w \<le> s_spreader config" "h \<le> s_spreader config" "0 \<le> w" "0 \<le> h" "s_spreader config \<le> s_sink config" "0 < s_sink config"
    and "\<forall>i. HSINK * n \<le> i \<and> i < nodes n \<longrightarrow> 0 \<le> temp ! i \<and> lo \<le> temp ! i \<and> temp ! i \<le> hi"
  shows "\<exists>s. calc_sink_temp_block fs m temp config = Inr s \<and> lo \<le> s \<and> s \<le> hi"
proof -
  let ?r = "s_spreader config" and ?S = "s_sink config"
  let ?ar = "\<lambda>i. width (units flp ! i) * height (units flp ! i)"
  have T: "0 \<le> temp ! i" "lo \<le> temp ! i" "temp ! i \<le> hi" if "3 * n \<le> i" "i < 4 * n + 12" for i
    using assms(14) that by (simp_all add: layer_defs EXTRA_def)
  have len: "length temp = 4 * n + 12" using assms(3) by (simp add: layer_defs EXTRA_def)
  have ar: "0 \<le> ?ar i" if "i < n" for i using assms(7) that by (simp add: tiles_def unit_inside_def)
  have "\<exists>s. for_up 0 n (\<lambda>i s. rbind (rd temp (HSINK * n + i)) (\<lambda>x. rbind (rd (units flp) i) (\<lambda>u.
      if x < 0 then Inl (Fatal ''negative temperature!'') else Inr (s + x * (width u * height u))))) 0 = Inr s \<and>
    mean_in lo hi (\<Sum>i < n. ?ar i) s"
  proof (rule for_up_rule [where I = "\<lambda>k s. mean_in lo hi (\<Sum>i < k. ?ar i) s"])
    fix i s assume i: "i < n" and I: "mean_in lo hi (\<Sum>i < i. ?ar i) s"
    have t: "0 \<le> temp ! (3 * n + i)" "lo \<le> temp ! (3 * n + i)" "temp ! (3 * n + i) \<le> hi" using T i by simp_all
    show "\<exists>t'. rbind (rd temp (HSINK * n + i)) (\<lambda>x. rbind (rd (units flp) i) (\<lambda>u.
        if x < 0 then Inl (Fatal ''negative temperature!'') else Inr (s + x * (width u * height u)))) = Inr t' \<and>
      mean_in lo hi (\<Sum>i < Suc i. ?ar i) t'"
      using mean_add [OF I t(2,3) ar [OF i]] t(1) i assms(4) len by (simp add: HSINK_def)
  qed (simp_all add: mean_in_def)
  then obtain s1 where s1: "for_up 0 n (\<lambda>i s. rbind (rd temp (HSINK * n + i)) (\<lambda>x. rbind (rd (units flp) i) (\<lambda>u.
      if x < 0 then Inl (Fatal ''negative temperature!'') else Inr (s + x * (width u * height u))))) 0 = Inr s1"
    "mean_in lo hi (w * h) s1" using assms(7) by (auto simp: tiles_def)
  have sq: "?r * ?r \<le> ?S * ?S" using assms(8,10,12) by (intro mult_mono) auto
  obtain s2 where s2: "sink_part n temp SINK_C_W SINK_C_E (1 / 4 * (?r + h) * (?r - w)) s1 = Inr s2"
    "mean_in lo hi (w * h + 2 * (1 / 4 * (?r + h) * (?r - w))) s2"
    using sink_part_mean [OF _ _ _ _ s1(2), of SINK_C_W SINK_C_E n temp "1 / 4 * (?r + h) * (?r - w)"] T len assms(8-11)
    by (auto simp: node_defs NL_def)
  obtain s3 where s3: "sink_part n temp SINK_C_N SINK_C_S (1 / 4 * (?r + w) * (?r - h)) s2 = Inr s3"
    "mean_in lo hi (w * h + 2 * (1 / 4 * (?r + h) * (?r - w)) + 2 * (1 / 4 * (?r + w) * (?r - h))) s3"
    using sink_part_mean [OF _ _ _ _ s2(2), of SINK_C_N SINK_C_S n temp "1 / 4 * (?r + w) * (?r - h)"] T len assms(8-11)
    by (auto simp: node_defs NL_def)
  obtain s4 where s4: "sink_part n temp SINK_W SINK_S (1 / 4 * (?S * ?S - ?r * ?r)) s3 = Inr s4"
    "mean_in lo hi (w * h + 2 * (1 / 4 * (?r + h) * (?r - w)) + 2 * (1 / 4 * (?r + w) * (?r - h)) + 4 * (1 / 4 * (?S * ?S - ?r * ?r))) s4"
    using sink_part_mean [OF _ _ _ _ s3(2), of SINK_W SINK_S n temp "1 / 4 * (?S * ?S - ?r * ?r)"] T len sq
    by (auto simp: node_defs NL_def)
  have "w * h + 2 * (1 / 4 * (?r + h) * (?r - w)) + 2 * (1 / 4 * (?r + w) * (?r - h)) + 4 * (1 / 4 * (?S * ?S - ?r * ?r)) = ?S * ?S"
    by algebra
  then have m4: "mean_in lo hi (?S * ?S) s4" using s4(2) by simp
  have S: "0 < ?S * ?S" "?S * ?S \<noteq> 0" using assms(13) by simp_all
  have "calc_sink_temp_block fs m temp config = Inr (s4 / (?S * ?S))"
    using s1(1) s2(1) s3(1) s4(1) assms(1,2,5,6) by (simp add: calc_sink_temp_block_def Let_def fdiv_ok [OF S(2)])
  moreover have "lo \<le> s4 / (?S * ?S)" "s4 / (?S * ?S) \<le> hi"
    using m4 S(1) by (simp_all add: mean_in_def pos_le_divide_eq pos_divide_le_eq)
  ultimately show ?thesis by blast
qed

lemma calc_sink_temp_mean_witness:
  "\<exists>s. calc_sink_temp_block (\<lambda>_. die) (alloc_block_model (\<lambda>_. die) default_thermal_config 0) (replicate 16 300)
    default_thermal_config = Inr s \<and> 300 \<le> s \<and> s \<le> 300"
proof (rule calc_sink_temp_mean)
  have "tiles (units die) {0} 0 0 (1 / 100) (1 / 100)" by (rule tiles_single) (simp_all add: die_def unit_zero_def)
  moreover have "{..<1::nat} = {0}" by auto
  ultimately show "tiles (units die) {..<1} 0 0 (1 / 100) (1 / 100)" by simp
  show "get_total_width die = Inr (1 / 100)" "get_total_height die = Inr (1 / 100)" using die_fits by (simp_all add: fits_def)
qed (simp_all add: die_def default_thermal_config_def layer_defs EXTRA_def)

section \<open>Sizes\<close>

text \<open>
  The vectors of the model have its number of nodes, and setting and copying them never
  leaves their bounds.
\<close>

theorem block_vectors_sized:
  assumes "block_sized fs m" "length temp = bm_n_nodes m" "length src = bm_n_nodes m"
  shows "length (hotspot_vector_block m) = bm_n_nodes m \<and> set_temp_block m temp v = Inr (replicate (bm_n_nodes m) v) \<and>
    copy_temp_block fs m temp src = Inr src"
proof -
  have "set_temp_block m temp v = Inr (map (\<lambda>_. v) [0..<bm_n_nodes m])"
    unfolding set_temp_block_def by (rule fill_loop) (use assms in auto)
  then show ?thesis
    using assms(2,3) sizedD(1,2) [OF assms(1) refl]
    by (simp add: hotspot_vector_block_def dvector_def copy_temp_block_def copy_dvector_def copy_vector_def map_replicate_const)
qed

lemma block_vectors_sized_witness:
  "set_temp_block (alloc_block_model (\<lambda>_. die) default_thermal_config 0) (replicate 16 0) 300 = Inr (replicate 16 300)"
  using block_vectors_sized [OF alloc_sized(1) [OF refl], of "replicate 16 0" "\<lambda>_. die" default_thermal_config 0 "replicate 16 0" 300]
  by (simp add: die_nodes)

end
