(* ===== verification/RK4_Retry.thy ===== *)
theory RK4_Retry
  imports Block_Transient
begin

text \<open>
  A rejected step of the Runge Kutta solver. The slope at the start is computed once; the
  attempt that is rejected leaves the slope at its middle in its place, and the attempt with the
  smaller step starts with that slope.
\<close>

lemma next_step_rejects:
  assumes "0 < h" "RK4_PRECISION < mx"
  shows "\<exists>new_h. next_step h mx = Inr new_h \<and> h / RK4_MAXDOWN \<le> new_h \<and> new_h < h"
proof -
  have p: "0 < RK4_PRECISION / mx" "RK4_PRECISION / mx \<le> 1" using assms(2) by (simp_all add: RK4_PRECISION_def)
  then have "\<bar>RK4_PRECISION / mx\<bar> powr (1 / 4) \<le> 1 powr (1 / 4)" by (intro powr_mono2) auto
  then have "RK4_SAFETY * h * \<bar>RK4_PRECISION / mx\<bar> powr (1 / 4) \<le> RK4_SAFETY * h * 1"
    using assms(1) by (intro mult_left_mono) (simp_all add: RK4_SAFETY_def)
  then have "RK4_SAFETY * h * \<bar>RK4_PRECISION / mx\<bar> powr (1 / 4) < h" using assms(1) by (simp add: RK4_SAFETY_def)
  then show ?thesis using assms by (simp add: next_step_def Let_def RK4_MAXDOWN_def)
qed

text \<open>What \<open>rk4\<close> returns from the end of its loop.\<close>

definition commit :: "nat \<Rightarrow> real list \<Rightarrow> (real \<times> real \<times> work) res option \<Rightarrow> (real \<times> real \<times> real list) res option" where
  "commit n yout r = (case r of None \<Rightarrow> None | Some (Inl e) \<Rightarrow> Some (Inl e)
     | Some (Inr (new_h, h, _, _, _, ytemp)) \<Rightarrow> Some (rbind (copy_dvector yout ytemp n) (\<lambda>yout. Inr (new_h, h, yout))))"

text \<open>The classical step of the block model.\<close>

definition classical_step :: "block_model_t \<Rightarrow> real list \<Rightarrow> real \<Rightarrow> real list" where
  "classical_step m y h = rk4_value (bm_n_nodes m) (block_field m) y (block_field m y) h"

text \<open>
  C38: when the full step and the two half steps differ by more than the precision, the step is
  rejected and the loop goes on with a step of at least a tenth, but with the slope at the
  middle of the rejected step where the formula needs the slope at the start.
\<close>

theorem rk4_retry_uses_middle_slope:
  assumes "transient_sized m" "length y = bm_n_nodes m" "0 < h"
    and "i < bm_n_nodes m" "RK4_PRECISION < \<bar>classical_step m y h ! i -
      classical_step m (classical_step m y (h / 2)) (h / 2) ! i\<bar>"
  shows "\<exists>new_h t1 t2 yt. h / RK4_MAXDOWN \<le> new_h \<and> new_h < h \<and>
    rk4 y (bm_n_nodes m) h yout (\<lambda>y. slope_fn_block m y (bm_t_vector m)) =
      commit (bm_n_nodes m) yout (rk4_loop y (bm_n_nodes m) (\<lambda>y. slope_fn_block m y (bm_t_vector m)) new_h
        (block_field m (classical_step m y (h / 2)), t1, t2, yt))"
proof -
  obtain M where M: "m = Rep_sized_model M" using assms(1) by (rule sized_cases)
  let ?N = "bm_n_nodes m" and ?F = "block_field m" and ?f = "\<lambda>y. slope_fn_block m y (bm_t_vector m)"
  let ?full = "classical_step m y h" and ?half = "classical_step m y (h / 2)"
  let ?both = "classical_step m ?half (h / 2)"
  obtain mx d where a: "rk4_attempt y ?N ?f h (?F y, dvector ?N, dvector ?N, dvector ?N) =
      rbind (next_step h mx) (\<lambda>new_h. Inr (new_h, ?F ?half, d, ?both, ?full))"
    and mx: "\<forall>i < ?N. \<bar>?full ! i - ?both ! i\<bar> \<le> mx"
    using slope.rk4_attempt_value [of y M "?F y" "dvector ?N" "dvector ?N" "dvector ?N" h] assms(2,4)
    unfolding M classical_step_def by (auto simp: dvector_def)
  have "RK4_PRECISION < mx" using assms(4,5) mx by (meson less_le_trans)
  from next_step_rejects [OF assms(3) this] obtain new_h where
    nh: "next_step h mx = Inr new_h" "h / RK4_MAXDOWN \<le> new_h" "new_h < h" by blast
  have "rk4_loop y ?N ?f h (?F y, dvector ?N, dvector ?N, dvector ?N) =
      rk4_loop y ?N ?f new_h (?F ?half, d, ?both, ?full)"
    using a nh(1,3) by (subst rk4_loop.simps) simp
  moreover have "slope_fn_block m y (bm_t_vector m) (dvector ?N) = Inr (?F y)"
    using slope_value [OF assms(1,2)] by (simp add: dvector_def)
  ultimately have "rk4 y ?N h yout ?f = commit ?N yout (rk4_loop y ?N ?f new_h (?F ?half, d, ?both, ?full))"
    by (simp add: rk4_def commit_def)
  with nh(2,3) show ?thesis by blast
qed

text \<open>One node that cools with the rate 10: the slopes at the start and in the middle differ.\<close>

definition one_node :: "block_model_t" where
  "one_node = (alloc_block_model (\<lambda>_. undefined\<lparr>n_units := 0\<rparr>) undefined 0)\<lparr>bm_n_nodes := 1, bm_c := \<lparr>cells = [10], ncols = 1\<rparr>,
     bm_t_vector := [0]\<rparr>"

lemma one_node_simps: "transient_sized one_node" "bm_n_nodes one_node = 1" "block_field one_node [x] = [-10 * x]"
  by (simp_all add: one_node_def transient_sized_def dmat_ok_def block_field_def mat_at_def)

lemma one_node_step: "classical_step one_node [x] h =
    [x + h * (-10 * x + 2 * (-10 * (x + h / 2 * (-10 * x))) + 2 * (-10 * (x + h / 2 * (-10 * (x + h / 2 * (-10 * x))))) +
      -10 * (x + h * (-10 * (x + h / 2 * (-10 * (x + h / 2 * (-10 * x))))))) / 6]"
  by (simp add: classical_step_def rk4_value_def Let_def axpy_def one_node_simps [unfolded One_nat_def])

lemma rk4_retry_uses_middle_slope_witness:
  "\<exists>new_h t1 t2 yt. new_h < 1 \<and> rk4 [1] 1 1 [0] (\<lambda>y. slope_fn_block one_node y (bm_t_vector one_node)) =
      commit 1 [0] (rk4_loop [1] 1 (\<lambda>y. slope_fn_block one_node y (bm_t_vector one_node)) new_h ([- (1645 / 12)], t1, t2, yt)) \<and>
    block_field one_node [1] = [-10]"
proof -
  have h: "classical_step one_node [1] (1 / 2) = [329 / 24]" unfolding one_node_step by simp
  have f: "block_field one_node [329 / 24] = [- (1645 / 12)]" "block_field one_node [1] = [-10]"
    by (simp_all add: one_node_simps)
  have "\<exists>new_h t1 t2 yt. 1 / RK4_MAXDOWN \<le> new_h \<and> new_h < 1 \<and>
    rk4 [1] 1 1 [0] (\<lambda>y. slope_fn_block one_node y (bm_t_vector one_node)) =
      commit 1 [0] (rk4_loop [1] 1 (\<lambda>y. slope_fn_block one_node y (bm_t_vector one_node)) new_h ([- (1645 / 12)], t1, t2, yt))"
    using rk4_retry_uses_middle_slope [of one_node "[1]" 1 0 "[0]", unfolded one_node_simps(2) f h] one_node_simps(1)
    by (simp add: one_node_step RK4_PRECISION_def del: One_nat_def)
  with f(2) show ?thesis by blast
qed

end
