(* ===== verification/Grid_Types.thy ===== *)
theory Grid_Types
  imports Block_Ops Thermal_Config
begin

text \<open>
  The data of the grid thermal model, \<open>hotspot_tool/temperature_grid.h\<close>: a stack of layers, each a
  mesh of cells, the maps between blocks and cells, and the vectors over all cells.

  Layers may share their maps: the code keeps pointers to them. A map is an entry of a store
  of the model, and a layer holds its address, the number of the layer that allocated it. The
  pointer to a floorplan is an index into a store of floorplans, as in the block model. The
  matrices of SuperLU are not part of the model.
\<close>

section \<open>Constants\<close>

definition EXTRA_SEC :: nat where "EXTRA_SEC = 16"

definition GRID_AVG :: nat where "GRID_AVG = 0"
definition GRID_MIN :: nat where "GRID_MIN = 1"
definition GRID_MAX :: nat where "GRID_MAX = 2"
definition GRID_CENTER :: nat where "GRID_CENTER = 3"

definition V_POWER :: nat where "V_POWER = 0"
definition V_TEMP :: nat where "V_TEMP = 1"

definition DEFAULT_CHIP_LAYERS :: nat where "DEFAULT_CHIP_LAYERS = 2"
definition LAYER_SI :: nat where "LAYER_SI = 0"
definition LAYER_INT :: nat where "LAYER_INT = 1"
definition SEC_CHIP_LAYERS :: nat where "SEC_CHIP_LAYERS = 2"
definition LAYER_C4 :: nat where "LAYER_C4 = 0"
definition LAYER_METAL :: nat where "LAYER_METAL = 1"
definition DEFAULT_PACK_LAYERS :: nat where "DEFAULT_PACK_LAYERS = 2"
definition LAYER_SP :: nat where "LAYER_SP = 0"
definition LAYER_SINK :: nat where "LAYER_SINK = 1"
definition SEC_PACK_LAYERS :: nat where "SEC_PACK_LAYERS = 3"
definition LAYER_PCB :: nat where "LAYER_PCB = 0"
definition LAYER_SOLDER :: nat where "LAYER_SOLDER = 1"
definition LAYER_SUB :: nat where "LAYER_SUB = 2"

definition OCCUPANCY_THRESHOLD :: real where "OCCUPANCY_THRESHOLD = 95 / 100"

lemmas stack_defs = DEFAULT_CHIP_LAYERS_def LAYER_SI_def LAYER_INT_def SEC_CHIP_LAYERS_def LAYER_C4_def LAYER_METAL_def
  DEFAULT_PACK_LAYERS_def LAYER_SP_def LAYER_SINK_def SEC_PACK_LAYERS_def LAYER_PCB_def LAYER_SOLDER_def LAYER_SUB_def

definition RHO_METAL :: real where "RHO_METAL = 25 / 10000"
definition RHO_C4 :: real where "RHO_C4 = 8 / 10"
definition K_METAL :: real where "K_METAL = 1 / RHO_METAL"
definition K_C4 :: real where "K_C4 = 1 / RHO_C4"
definition SPEC_HEAT_METAL :: real where "SPEC_HEAT_METAL = 3550000"
definition SPEC_HEAT_C4 :: real where "SPEC_HEAT_C4 = 1650000"

section \<open>Records\<close>

text \<open>A block in a cell; the list of the blocks of a cell is linked in the code. The
  resistances and the capacitance of the cell are those of its first entry.\<close>

record blist_t =
  bl_idx :: nat
  occupancy :: real
  bl_lock :: bool
  bl_hasRes :: bool
  bl_hasCap :: bool
  bl_rx :: real
  bl_ry :: real
  bl_rz :: real
  bl_capacitance :: real

record glist_t =
  gl_i1 :: nat
  gl_i2 :: nat
  gl_j1 :: nat
  gl_j2 :: nat

record layer_t =
  ly_flp :: nat
  ly_no :: nat
  ly_has_lateral :: bool
  ly_has_power :: bool
  ly_k :: real
  ly_thickness :: real
  ly_sp :: real
  ly_rx :: real
  ly_ry :: real
  ly_rz :: real
  ly_c :: real
  ly_b2gmap :: nat
  ly_g2bmap :: nat

text \<open>
  A vector over the grid: the cells of all layers and behind them the extra nodes of the
  package, in one allocation; the number of rows and columns is that of its allocation.
\<close>

record grid_model_vector_t =
  gv_data :: "real list"
  gv_layers :: nat
  gv_rows :: nat
  gv_cols :: nat

type_synonym b2gmap_t = "blist_t list list list"

record grid_model_t =
  gm_config :: thermal_config_t
  gm_layers :: "layer_t list"
  gm_n_layers :: nat
  gm_rows :: nat
  gm_cols :: nat
  gm_width :: real
  gm_height :: real
  gm_pack :: package_RC_t
  gm_total_n_blocks :: nat
  gm_map_mode :: nat
  gm_r_ready :: bool
  gm_c_ready :: bool
  gm_has_lcf :: bool
  gm_last_steady :: grid_model_vector_t
  gm_last_trans :: grid_model_vector_t
  gm_base_n_units :: nat
  gm_b2g :: "nat \<Rightarrow> b2gmap_t"
  gm_g2b :: "nat \<Rightarrow> glist_t list"

section \<open>Vectors over the grid\<close>

text \<open>\<open>v->cuboid[n][i][j]\<close> and \<open>v->extra[i]\<close>.\<close>

definition gv_index :: "grid_model_vector_t \<Rightarrow> nat \<Rightarrow> nat \<Rightarrow> nat \<Rightarrow> nat" where
  "gv_index v n i j = dcuboid_row (gv_rows v) (gv_cols v) n i + j"

definition gv_extra :: "grid_model_vector_t \<Rightarrow> nat" where
  "gv_extra v = gv_rows v * gv_cols v * gv_layers v"

definition gv_get :: "grid_model_vector_t \<Rightarrow> nat \<Rightarrow> nat \<Rightarrow> nat \<Rightarrow> real res" where
  "gv_get v n i j = (if n < gv_layers v \<and> i < gv_rows v \<and> j < gv_cols v then rd (gv_data v) (gv_index v n i j) else Inl OutOfBounds)"

definition gv_set :: "grid_model_vector_t \<Rightarrow> nat \<Rightarrow> nat \<Rightarrow> nat \<Rightarrow> real \<Rightarrow> grid_model_vector_t res" where
  "gv_set v n i j x = (if n < gv_layers v \<and> i < gv_rows v \<and> j < gv_cols v
     then rbind (wr (gv_data v) (gv_index v n i j) x) (\<lambda>d. Inr (v\<lparr>gv_data := d\<rparr>)) else Inl OutOfBounds)"

definition gx_get :: "grid_model_vector_t \<Rightarrow> nat \<Rightarrow> real res" where
  "gx_get v i = rd (gv_data v) (gv_extra v + i)"

definition gx_set :: "grid_model_vector_t \<Rightarrow> nat \<Rightarrow> real \<Rightarrow> grid_model_vector_t res" where
  "gx_set v i x = rbind (wr (gv_data v) (gv_extra v + i) x) (\<lambda>d. Inr (v\<lparr>gv_data := d\<rparr>))"

definition extra_nodes :: "thermal_config_t \<Rightarrow> nat" where
  "extra_nodes config = (if model_secondary config \<noteq> 0 then EXTRA + EXTRA_SEC else EXTRA)"

definition new_grid_model_vector :: "grid_model_t \<Rightarrow> grid_model_vector_t" where
  "new_grid_model_vector model =
    (let nr = gm_rows model; nc = gm_cols model; nl = gm_n_layers model in
     \<lparr>gv_data = dvector (nl * nr * nc + extra_nodes (gm_config model)), gv_layers = nl, gv_rows = nr, gv_cols = nc\<rparr>)"

text \<open>A vector of the shape of a model, read as a function of layer, row and column.\<close>

definition gv_at :: "grid_model_vector_t \<Rightarrow> nat \<Rightarrow> nat \<Rightarrow> nat \<Rightarrow> real" where
  "gv_at v n i j = gv_data v ! gv_index v n i j"

definition gx_at :: "grid_model_vector_t \<Rightarrow> nat \<Rightarrow> real" where
  "gx_at v i = gv_data v ! (gv_extra v + i)"

definition gv_ok :: "grid_model_vector_t \<Rightarrow> nat \<Rightarrow> nat \<Rightarrow> nat \<Rightarrow> nat \<Rightarrow> bool" where
  "gv_ok v nl nr nc xt \<longleftrightarrow> gv_layers v = nl \<and> gv_rows v = nr \<and> gv_cols v = nc \<and> length (gv_data v) = nl * nr * nc + xt"

lemma gv_get_ok [simp]:
  "gv_ok v nl nr nc xt \<Longrightarrow> n < nl \<Longrightarrow> i < nr \<Longrightarrow> j < nc \<Longrightarrow> gv_get v n i j = Inr (gv_at v n i j)"
  using dcuboid_in_bounds [of n nl i nr j nc] by (simp add: gv_get_def gv_ok_def gv_at_def gv_index_def)

lemma gx_get_ok [simp]: "gv_ok v nl nr nc xt \<Longrightarrow> i < xt \<Longrightarrow> gx_get v i = Inr (gx_at v i)"
  by (simp add: gx_get_def gv_ok_def gx_at_def gv_extra_def algebra_simps)

lemma gv_set_ok:
  assumes "gv_ok v nl nr nc xt" "n < nl" "i < nr" "j < nc"
  shows "\<exists>w. gv_set v n i j x = Inr w \<and> gv_ok w nl nr nc xt \<and> (\<forall>k < xt. gx_at w k = gx_at v k) \<and>
    (\<forall>m k l. m < nl \<and> k < nr \<and> l < nc \<longrightarrow> gv_at w m k l = (if m = n \<and> k = i \<and> l = j then x else gv_at v m k l))"
proof -
  have v: "gv_layers v = nl" "gv_rows v = nr" "gv_cols v = nc" "length (gv_data v) = nl * nr * nc + xt"
    using assms(1) by (auto simp: gv_ok_def)
  let ?p = "dcuboid_row nr nc n i + j"
  let ?w = "v\<lparr>gv_data := (gv_data v)[?p := x]\<rparr>"
  have p: "?p < nl * nr * nc" by (rule dcuboid_in_bounds [OF assms(2-4)])
  have "gv_at ?w m k l = (if m = n \<and> k = i \<and> l = j then x else gv_at v m k l)" if "m < nl" "k < nr" "l < nc" for m k l
  proof -
    have q: "dcuboid_row nr nc m k + l < nl * nr * nc" by (rule dcuboid_in_bounds [OF that])
    have "?p = dcuboid_row nr nc m k + l \<longleftrightarrow> m = n \<and> k = i \<and> l = j"
      using dcuboid_rows_disjoint [OF assms(3,4) that(2,3), of n m] by auto
    then show ?thesis using q v by (auto simp: gv_at_def gv_index_def nth_list_update)
  qed
  moreover have "gx_at ?w k = gx_at v k" for k using p v by (simp add: gx_at_def gv_extra_def mult.commute mult.left_commute)
  ultimately show ?thesis
    using assms(2-4) v p by (intro exI [of _ ?w]) (simp add: gv_set_def gv_ok_def gv_index_def)
qed

lemma gx_set_ok:
  assumes "gv_ok v nl nr nc xt" "i < xt"
  shows "\<exists>w. gx_set v i x = Inr w \<and> gv_ok w nl nr nc xt \<and> (\<forall>k < xt. gx_at w k = (if k = i then x else gx_at v k)) \<and>
    (\<forall>m k l. m < nl \<and> k < nr \<and> l < nc \<longrightarrow> gv_at w m k l = gv_at v m k l)"
proof -
  have v: "gv_layers v = nl" "gv_rows v = nr" "gv_cols v = nc" "length (gv_data v) = nl * nr * nc + xt"
    using assms(1) by (auto simp: gv_ok_def)
  have x: "gv_extra v = nl * nr * nc" by (simp add: gv_extra_def v)
  let ?w = "v\<lparr>gv_data := (gv_data v)[nl * nr * nc + i := x]\<rparr>"
  have "gv_at ?w m k l = gv_at v m k l" if "m < nl" "k < nr" "l < nc" for m k l
    using dcuboid_in_bounds [OF that] v by (simp add: gv_at_def gv_index_def)
  then show ?thesis
    using assms(2) v x by (intro exI [of _ ?w]) (auto simp: gx_set_def gv_ok_def gx_at_def gv_extra_def nth_list_update algebra_simps)
qed

lemma new_grid_model_vector_ok:
  "gv_ok (new_grid_model_vector m) (gm_n_layers m) (gm_rows m) (gm_cols m) (extra_nodes (gm_config m))"
  by (simp add: new_grid_model_vector_def gv_ok_def Let_def dvector_def)

section \<open>Loops over a mesh\<close>

text \<open>A loop that visits every cell of a rectangle once and writes that cell only.\<close>

definition in_rect :: "nat \<Rightarrow> nat \<Rightarrow> nat \<Rightarrow> nat \<Rightarrow> nat \<Rightarrow> nat \<Rightarrow> bool" where
  "in_rect i1 i2 j1 j2 k l \<longleftrightarrow> i1 \<le> k \<and> k < i2 \<and> j1 \<le> l \<and> l < j2"

lemma mesh_rule:
  fixes get :: "'s \<Rightarrow> nat \<Rightarrow> nat \<Rightarrow> 'a"
  assumes "i1 \<le> i2" "j1 \<le> j2" "ok s"
    and D: "\<And>k l. in_rect i1 i2 j1 j2 k l \<Longrightarrow> D k l"
    and step: "\<And>i j t. in_rect i1 i2 j1 j2 i j \<Longrightarrow> ok t \<Longrightarrow> get t i j = get s i j \<Longrightarrow>
      \<exists>t'. body i j t = Inr t' \<and> ok t' \<and> (\<forall>k l. D k l \<longrightarrow> get t' k l = (if k = i \<and> l = j then F i j else get t k l))"
  shows "\<exists>t. for_up i1 i2 (\<lambda>i. for_up j1 j2 (body i)) s = Inr t \<and> ok t \<and>
    (\<forall>k l. D k l \<longrightarrow> get t k l = (if in_rect i1 i2 j1 j2 k l then F k l else get s k l))"
proof -
  define upto where "upto i j k l \<longleftrightarrow> in_rect i1 i2 j1 j2 k l \<and> (k < i \<or> k = i \<and> l < j)" for i j k l
  define I where "I i j t \<longleftrightarrow> ok t \<and> (\<forall>k l. D k l \<longrightarrow> get t k l = (if upto i j k l then F k l else get s k l))" for i j t
  have cell: "\<exists>t'. body i j t = Inr t' \<and> I i (Suc j) t'" if r: "in_rect i1 i2 j1 j2 i j" and "I i j t" for i j t
  proof -
    have "get t i j = get s i j" using that D [OF r] by (simp add: I_def upto_def)
    then obtain t' where t': "body i j t = Inr t'" "ok t'"
      "\<forall>k l. D k l \<longrightarrow> get t' k l = (if k = i \<and> l = j then F i j else get t k l)"
      using step [OF r] \<open>I i j t\<close> unfolding I_def by blast
    have u: "upto i (Suc j) k l \<longleftrightarrow> k = i \<and> l = j \<or> upto i j k l" for k l using r by (auto simp: upto_def in_rect_def)
    have "get t' k l = (if upto i (Suc j) k l then F k l else get s k l)" if "D k l" for k l
      using t'(3) that \<open>I i j t\<close> unfolding u I_def by auto
    then show ?thesis using t' by (auto simp: I_def)
  qed
  have row: "\<exists>t'. for_up j1 j2 (body i) t = Inr t' \<and> I (Suc i) j1 t'" if "i1 \<le> i" "i < i2" "I i j1 t" for i t
  proof -
    have "\<exists>t'. for_up j1 j2 (body i) t = Inr t' \<and> I i j2 t'"
      by (rule for_up_rule) (use that cell assms(2) in \<open>auto simp: in_rect_def\<close>)
    moreover have "upto i j2 = upto (Suc i) j1" by (intro ext) (auto simp: upto_def in_rect_def)
    ultimately show ?thesis by (simp add: I_def)
  qed
  have "\<exists>t. for_up i1 i2 (\<lambda>i. for_up j1 j2 (body i)) s = Inr t \<and> I i2 j1 t"
    by (rule for_up_rule [where I = "\<lambda>i. I i j1"]) (use assms row in \<open>auto simp: I_def upto_def in_rect_def\<close>)
  moreover have "upto i2 j1 = in_rect i1 i2 j1 j2" by (intro ext) (auto simp: upto_def in_rect_def)
  ultimately show ?thesis by (simp add: I_def)
qed

end
