(* ===== verification/Grid_Map.thy ===== *)
theory Grid_Map
  imports Grid_Types
begin

text \<open>
  The maps between blocks and cells of \<open>hotspot_tool/temperature_grid.c\<close>: \<open>set_bgmap\<close> records for
  every cell the blocks in it with the part of the cell they cover, and for every block the
  cells it extends over. With detailed 3-D modelling the first entry of a cell also carries
  its resistances and capacitance.
\<close>

section \<open>Entries\<close>

text \<open>What the code passes beside the block and its occupancy.\<close>

record cell_par =
  cp_res :: real
  cp_res_l :: real
  cp_sh :: real
  cp_3D :: bool
  cp_cw :: real
  cp_ch :: real
  cp_thickness :: real
  cp_has_lateral :: bool

definition res_x :: "cell_par \<Rightarrow> real res" where
  "res_x c = rbind (fdiv 1 (cp_res_l c)) (\<lambda>k. getr k (cp_cw c) (cp_ch c * cp_thickness c))"

definition res_y :: "cell_par \<Rightarrow> real res" where
  "res_y c = rbind (fdiv 1 (cp_res_l c)) (\<lambda>k. getr k (cp_ch c) (cp_cw c * cp_thickness c))"

definition res_z :: "cell_par \<Rightarrow> real res" where
  "res_z c = rbind (fdiv 1 (cp_res c)) (\<lambda>k. getr k (cp_thickness c) (cp_cw c * cp_ch c))"

definition cell_cap :: "cell_par \<Rightarrow> real" where
  "cell_cap c = getcap (cp_sh c) (cp_thickness c) (cp_cw c * cp_ch c)"

text \<open>A resistance of which only a part of the cell is made, and one in parallel to it.\<close>

definition partly :: "real \<Rightarrow> real res \<Rightarrow> real res" where
  "partly occ r = rbind r (\<lambda>x. rbind (fdiv 1 x) (\<lambda>g. fdiv 1 (g * occ)))"

definition parallel :: "real \<Rightarrow> real \<Rightarrow> real res \<Rightarrow> real res" where
  "parallel occ old r = rbind (fdiv 1 old) (\<lambda>g0. rbind r (\<lambda>x. rbind (fdiv 1 x) (\<lambda>g. fdiv 1 (g0 + g * occ))))"

definition lateral_or_large :: "cell_par \<Rightarrow> real res \<Rightarrow> real res" where
  "lateral_or_large c r = (if cp_has_lateral c then r else Inr LARGENUM)"

definition new_blist :: "nat \<Rightarrow> real \<Rightarrow> cell_par \<Rightarrow> bool \<Rightarrow> blist_t res" where
  "new_blist idx occ c first =
    (let ptr = \<lparr>bl_idx = idx, occupancy = occ, bl_lock = False, bl_hasRes = False, bl_hasCap = False,
                bl_rx = 0, bl_ry = 0, bl_rz = 0, bl_capacitance = 0\<rparr> in
     if first \<and> cp_3D c then
       if occ \<ge> OCCUPANCY_THRESHOLD then
         rbind (lateral_or_large c (res_x c)) (\<lambda>rx. rbind (lateral_or_large c (res_y c)) (\<lambda>ry. rbind (res_z c) (\<lambda>rz.
         Inr (ptr\<lparr>bl_lock := True, bl_rx := rx, bl_ry := ry, bl_rz := rz, bl_capacitance := cell_cap c\<rparr>))))
       else
         rbind (lateral_or_large c (partly occ (res_x c))) (\<lambda>rx. rbind (lateral_or_large c (partly occ (res_y c))) (\<lambda>ry.
         rbind (partly occ (res_z c)) (\<lambda>rz.
         Inr (ptr\<lparr>bl_lock := False, bl_rx := rx, bl_ry := ry, bl_rz := rz, bl_capacitance := cell_cap c\<rparr>))))
     else Inr ptr)"

text \<open>The change of the first entry of the list to which a block is appended.\<close>

definition update_head :: "real \<Rightarrow> cell_par \<Rightarrow> blist_t \<Rightarrow> blist_t res" where
  "update_head occ c head =
    (if cp_3D c \<and> \<not> bl_lock head then
       if occ \<ge> OCCUPANCY_THRESHOLD then
         rbind (lateral_or_large c (res_x c)) (\<lambda>rx. rbind (lateral_or_large c (res_y c)) (\<lambda>ry. rbind (res_z c) (\<lambda>rz.
         Inr (head\<lparr>bl_lock := True, bl_rx := rx, bl_ry := ry, bl_rz := rz, bl_capacitance := cell_cap c\<rparr>))))
       else
         rbind (lateral_or_large c (parallel occ (bl_rx head) (res_x c))) (\<lambda>rx.
         rbind (lateral_or_large c (parallel occ (bl_ry head) (res_y c))) (\<lambda>ry.
         rbind (parallel occ (bl_rz head) (res_z c)) (\<lambda>rz.
         Inr (head\<lparr>bl_rx := rx, bl_ry := ry, bl_rz := rz, bl_lock := False\<rparr>))))
     else Inr head)"

definition blist_append :: "blist_t list \<Rightarrow> nat \<Rightarrow> real \<Rightarrow> cell_par \<Rightarrow> bool \<Rightarrow> blist_t list res" where
  "blist_append bs idx occ c first = (case bs of
       [] \<Rightarrow> Inl (if cp_3D c then OutOfBounds else Fatal ''blist_append called with empty list'')
     | head # rest \<Rightarrow> rbind (update_head occ c head) (\<lambda>head.
         rbind (new_blist idx occ (c\<lparr>cp_res_l := cp_res c\<rparr>) first) (\<lambda>b. Inr (head # rest @ [b]))))"

text \<open>The average of a list of blocks; the vector of the blocks of the layer starts at \<open>base\<close>.\<close>

fun blist_avg :: "blist_t list \<Rightarrow> flp_t \<Rightarrow> real list \<Rightarrow> nat \<Rightarrow> nat \<Rightarrow> real \<Rightarrow> real res" where
  "blist_avg [] flp v base ty val = Inr val"
| "blist_avg (b # bs) flp v base ty val =
     (if ty = V_POWER then
        rbind (rd v (base + bl_idx b)) (\<lambda>x. rbind (rd (units flp) (bl_idx b)) (\<lambda>u.
        rbind (fdiv (occupancy b * x) (width u * height u)) (\<lambda>q. blist_avg bs flp v base ty (val + q))))
      else if ty = V_TEMP then
        rbind (rd v (base + bl_idx b)) (\<lambda>x. blist_avg bs flp v base ty (val + occupancy b * x))
      else Inl (Fatal ''unknown vector type''))"

section \<open>Cells\<close>

definition new_b2gmap :: "nat \<Rightarrow> nat \<Rightarrow> b2gmap_t" where
  "new_b2gmap rows cols = replicate rows (replicate cols [])"

definition cell_get :: "b2gmap_t \<Rightarrow> nat \<Rightarrow> nat \<Rightarrow> blist_t list res" where
  "cell_get m i j = rbind (rd m i) (\<lambda>row. rd row j)"

definition cell_put :: "b2gmap_t \<Rightarrow> nat \<Rightarrow> nat \<Rightarrow> blist_t list \<Rightarrow> b2gmap_t res" where
  "cell_put m i j x = rbind (rd m i) (\<lambda>row. rbind (wr row j x) (wr m i))"

definition reset_b2gmap :: "nat \<Rightarrow> nat \<Rightarrow> b2gmap_t \<Rightarrow> b2gmap_t res" where
  "reset_b2gmap rows cols m = for_up 0 rows (\<lambda>i m. for_up 0 cols (\<lambda>j m. cell_put m i j []) m) m"

text \<open>The cells a unit extends over: rows are counted from the top.\<close>

definition unit_extent :: "nat \<Rightarrow> nat \<Rightarrow> real \<Rightarrow> real \<Rightarrow> unit_t \<Rightarrow> glist_t res" where
  "unit_extent rows cols cw ch un =
    (let lu = leftx un; ru = lu + width un; bu = bottomy un; tu = bu + height un in
     rbind (fdiv tu ch) (\<lambda>t. rbind (fdiv bu ch) (\<lambda>b. rbind (fdiv lu cw) (\<lambda>l. rbind (fdiv ru cw) (\<lambda>r.
     let i1 = int rows - tolerant_ceil t; i2 = int rows - tolerant_floor b; j1 = tolerant_floor l; j2 = tolerant_ceil r in
     if i1 < 0 \<or> j1 < 0 then Inl (Fatal ''negative grid cell start index!'')
     else if i2 > int rows \<or> j2 > int cols then Inl (Fatal ''grid cell end index out of bounds!'')
     else if i1 \<ge> i2 \<or> j1 \<ge> j2 then Inl (Fatal ''invalid floorplan spec or grid resolution'')
     else Inr \<lparr>gl_i1 = nat i1, gl_i2 = nat i2, gl_j1 = nat j1, gl_j2 = nat j2\<rparr>)))))"

text \<open>An overlap within the tolerance of nothing or of a whole cell counts as that.\<close>

definition snap :: "real \<Rightarrow> real \<Rightarrow> real res" where
  "snap x c = rbind (fdiv x c) (\<lambda>q. Inr (if eq q 0 then 0 else if eq q 1 then c else x))"

definition cell_occupancy :: "real \<Rightarrow> real \<Rightarrow> real \<Rightarrow> unit_t \<Rightarrow> nat \<Rightarrow> nat \<Rightarrow> real res" where
  "cell_occupancy h cw ch un i j =
    (let lu = leftx un; ru = lu + width un; bu = bottomy un; tu = bu + height un;
         lc = real j * cw; rc = real (j + 1) * cw; tc = h - real i * ch; bc = h - real (i + 1) * ch in
     rbind (snap (MINd tu tc - MAXd bu bc) ch) (\<lambda>oh. rbind (snap (MINd ru rc - MAXd lu lc) cw) (\<lambda>ow.
     rbind (fdiv (oh * ow) (ch * cw)) (\<lambda>occ.
     if oh < 0 \<or> ow < 0 then Inl (Fatal ''negative overlap!'') else Inr occ))))"

text \<open>A block is entered into a cell; \<open>first\<close> is what the code passes when it appends.\<close>

definition enter_block :: "nat \<Rightarrow> real \<Rightarrow> cell_par \<Rightarrow> unit_t \<Rightarrow> bool \<Rightarrow> blist_t list \<Rightarrow> blist_t list res" where
  "enter_block u occ c un first bs =
    (if bs = [] then rbind (new_blist u occ c True) (\<lambda>b. Inr [b\<lparr>bl_hasRes := True, bl_hasCap := hasSh un\<rparr>])
     else blist_append bs u occ c first)"

definition map_cell :: "real \<Rightarrow> cell_par \<Rightarrow> unit_t \<Rightarrow> nat \<Rightarrow> glist_t \<Rightarrow> nat \<Rightarrow> nat \<Rightarrow> b2gmap_t \<Rightarrow> b2gmap_t res" where
  "map_cell h c un u g i j m = rbind (cell_get m i j) (\<lambda>bs.
     rbind (if i > gl_i1 g \<and> i + 1 < gl_i2 g \<and> j > gl_j1 g \<and> j + 1 < gl_j2 g
       then enter_block u 1 c un True bs
       else rbind (cell_occupancy h (cp_cw c) (cp_ch c) un i j) (\<lambda>occ. enter_block u occ c un False bs)) (\<lambda>bs.
     cell_put m i j bs))"

definition cell_params :: "thermal_config_t \<Rightarrow> layer_t \<Rightarrow> unit_t \<Rightarrow> real \<Rightarrow> real \<Rightarrow> cell_par res" where
  "cell_params config layer un cw ch =
    (let d3 = detailed_3D_used config \<noteq> 0 in
     rbind (if hasRes un \<and> d3 then Inr (resistivity un) else fdiv 1 (ly_k layer)) (\<lambda>res.
     let sh = if hasSh un \<and> d3 then specificheat un else ly_sp layer in
     Inr \<lparr>cp_res = res, cp_res_l = res, cp_sh = sh, cp_3D = d3, cp_cw = cw, cp_ch = ch,
          cp_thickness = ly_thickness layer, cp_has_lateral = ly_has_lateral layer\<rparr>))"

definition map_unit :: "thermal_config_t \<Rightarrow> layer_t \<Rightarrow> flp_t \<Rightarrow> nat \<Rightarrow> nat \<Rightarrow> real \<Rightarrow> real \<Rightarrow> real \<Rightarrow> nat \<Rightarrow>
    b2gmap_t \<times> glist_t list \<Rightarrow> (b2gmap_t \<times> glist_t list) res" where
  "map_unit config layer flp rows cols h cw ch u = (\<lambda>(m, gl).
     rbind (rd (units flp) u) (\<lambda>un.
     rbind (unit_extent rows cols cw ch un) (\<lambda>g.
     rbind (wr gl u g) (\<lambda>gl.
     rbind (cell_params config layer un cw ch) (\<lambda>c.
     rbind (for_up (gl_i1 g) (gl_i2 g) (\<lambda>i m. for_up (gl_j1 g) (gl_j2 g) (\<lambda>j m. map_cell h c un u g i j m) m) m) (\<lambda>m.
     Inr (m, gl)))))))"

definition set_bgmap :: "flp_store \<Rightarrow> grid_model_t \<Rightarrow> layer_t \<Rightarrow> grid_model_t res" where
  "set_bgmap fs model layer =
    (let rows = gm_rows model; cols = gm_cols model; flp = fs (ly_flp layer) in
     rbind (fdiv (gm_width model) (real cols)) (\<lambda>cw. rbind (fdiv (gm_height model) (real rows)) (\<lambda>ch.
     rbind (reset_b2gmap rows cols (gm_b2g model (ly_b2gmap layer))) (\<lambda>m.
     rbind (for_up 0 (n_units flp) (map_unit (gm_config model) layer flp rows cols (gm_height model) cw ch)
       (m, gm_g2b model (ly_g2bmap layer))) (\<lambda>(m, gl).
     Inr (model\<lparr>gm_b2g := (gm_b2g model)(ly_b2gmap layer := m), gm_g2b := (gm_g2b model)(ly_g2bmap layer := gl)\<rparr>))))))"

end
