(* ===== verification/Grid_Matrix.thy ===== *)
theory Grid_Matrix
  imports Grid_Map
begin

text \<open>
  The coordinate arrays \<open>cooX\<close>, \<open>cooY\<close>, \<open>cooV\<close> that the builders of \<open>hotspot_tool/temperature_grid.c\<close> fill,
  and the statements they fill them with. The three arrays are one list of triples (row, column,
  value) whose length is \<open>curidx\<close>; a write behind their \<open>nnz\<close> allocated elements stops the model.

  The conductance matrix of the grid, \<open>build_transient_grid_matrix\<close> and \<open>build_steady_grid_matrix\<close> of
  \<open>hotspot_tool/temperature_grid.c\<close> up to their coordinate arrays: the resistances between cells, the
  row of a cell in each of the nine positions the code tells apart, the rows of the nodes of the
  package, and the loops that write them.

  The code of fluid cells is commented out in the source; its flags and its currents \<open>Jn\<close>, \<open>Js\<close>,
  \<open>Je\<close>, \<open>Jw\<close>, \<open>Jc\<close> are constantly 0. The layers of the secondary path are compared with unset
  variables when there is no secondary path; the value does not matter, since the test of
  \<open>model_secondary\<close> follows.
\<close>

section \<open>Statements\<close>

type_synonym triple = "nat \<times> nat \<times> real"

record coo_state =
  triples :: "triple list"
  dia_val :: real

definition put_triple :: "nat \<Rightarrow> triple \<Rightarrow> coo_state \<Rightarrow> coo_state res" where
  "put_triple nnz e s = (if length (triples s) < nnz then Inr (s\<lparr>triples := triples s @ [e]\<rparr>) else Inl OutOfBounds)"

text \<open>A resistance \<open>R\<close> between the nodes \<open>r\<close> and \<open>c\<close>, in row \<open>r\<close>.\<close>

definition link :: "nat \<Rightarrow> nat \<Rightarrow> nat \<Rightarrow> real \<Rightarrow> coo_state \<Rightarrow> coo_state res" where
  "link nnz r c R s = rbind (fdiv 1 R) (\<lambda>g. rbind (put_triple nnz (r, c, - g) s) (\<lambda>s. Inr (s\<lparr>dia_val := dia_val s + g\<rparr>)))"

text \<open>A resistance to the ambient, which is no node.\<close>

definition ground :: "real \<Rightarrow> coo_state \<Rightarrow> coo_state res" where
  "ground R s = rbind (fdiv 1 R) (\<lambda>g. Inr (s\<lparr>dia_val := dia_val s + g\<rparr>))"

definition diagonal :: "nat \<Rightarrow> nat \<Rightarrow> coo_state \<Rightarrow> coo_state res" where
  "diagonal nnz r s = put_triple nnz (r, r, dia_val s) s"

text \<open>A row: its node, its resistances to other nodes in the order of the code, and those to the ambient.\<close>

type_synonym row = "nat \<times> (nat \<times> real) list \<times> real list"

definition write_row :: "nat \<Rightarrow> row \<Rightarrow> coo_state \<Rightarrow> coo_state res" where
  "write_row nnz = (\<lambda>(r, links, grounds) s.
     in_order (map (\<lambda>(c, R). link nnz r c R) links @ map ground grounds @ [diagonal nnz r]) (s\<lparr>dia_val := 0\<rparr>))"

section \<open>What a row leaves\<close>

definition row_dia :: "row \<Rightarrow> real" where
  "row_dia = (\<lambda>(r, links, grounds). (\<Sum>R \<leftarrow> map snd links @ grounds. 1 / R))"

definition row_triples :: "row \<Rightarrow> triple list" where
  "row_triples = (\<lambda>(r, links, grounds). map (\<lambda>(c, R). (r, c, - (1 / R))) links @ [(r, r, row_dia (r, links, grounds))])"

definition row_pos :: "row \<Rightarrow> bool" where
  "row_pos = (\<lambda>(r, links, grounds). (\<forall>(c, R) \<in> set links. 0 < R) \<and> (\<forall>R \<in> set grounds. 0 < R))"

lemma length_row_triples [simp]: "length (row_triples (r, links, grounds)) = Suc (length links)"
  by (simp add: row_triples_def)

lemma links_ok:
  assumes "\<forall>(c, R) \<in> set links. 0 < R" "length (triples s) + length links \<le> nnz"
  shows "in_order (map (\<lambda>(c, R). link nnz r c R) links) s =
    Inr (s\<lparr>triples := triples s @ map (\<lambda>(c, R). (r, c, - (1 / R))) links, dia_val := dia_val s + (\<Sum>R \<leftarrow> map snd links. 1 / R)\<rparr>)"
  using assms
proof (induction links arbitrary: s)
  case (Cons e links)
  then show ?case by (cases e) (simp add: link_def put_triple_def)
qed simp

lemma grounds_ok:
  assumes "\<forall>R \<in> set grounds. 0 < R"
  shows "in_order (map ground grounds) s = Inr (s\<lparr>dia_val := dia_val s + (\<Sum>R \<leftarrow> grounds. 1 / R)\<rparr>)"
  using assms by (induction grounds arbitrary: s) (simp_all add: ground_def)

lemma write_row_ok:
  assumes "row_pos r" "length (triples s) + length (row_triples r) \<le> nnz"
  shows "\<exists>t. write_row nnz r s = Inr t \<and> triples t = triples s @ row_triples r"
proof -
  obtain n links grounds where r: "r = (n, links, grounds)" by (cases r)
  then show ?thesis
    using assms by (simp add: write_row_def row_pos_def in_order_append links_ok grounds_ok diagonal_def put_triple_def row_triples_def row_dia_def)
qed

lemma write_rows_ok:
  assumes "list_all row_pos rs" "length (triples s) + length (concat (map row_triples rs)) \<le> nnz"
  shows "\<exists>t. in_order (map (write_row nnz) rs) s = Inr t \<and> triples t = triples s @ concat (map row_triples rs)"
  using assms
proof (induction rs arbitrary: s)
  case (Cons r rs)
  obtain t where t: "write_row nnz r s = Inr t" "triples t = triples s @ row_triples r"
    using write_row_ok [of r s nnz] Cons.prems by auto
  show ?case using Cons.IH [of t] Cons.prems t by simp
qed simp

text \<open>A row that does not fit stops the model.\<close>

lemma write_row_grows:
  assumes "write_row nnz r s = Inr t"
  shows "length (triples t) = length (triples s) + length (row_triples r) \<and> length (triples t) \<le> nnz"
proof -
  obtain n links grounds where r: "r = (n, links, grounds)" by (cases r)
  have l: "in_order (map (\<lambda>(c, R). link nnz n c R) ls) s = Inr t \<Longrightarrow> length (triples t) = length (triples s) + length ls" for ls s t
  proof (induction ls arbitrary: s)
    case (Cons e ls)
    then show ?case by (cases e) (auto simp: link_def put_triple_def split: if_splits)
  qed simp
  have g: "in_order (map ground gs) s = Inr t \<Longrightarrow> triples t = triples s" for gs s t
    by (induction gs arbitrary: s) (auto simp: ground_def)
  show ?thesis
    using assms by (auto simp: r write_row_def in_order_append diagonal_def put_triple_def dest!: l g split: if_splits)
qed

section \<open>Nodes of the secondary path\<close>

definition SUB_W :: nat where "SUB_W = 12"
definition SUB_E :: nat where "SUB_E = 13"
definition SUB_N :: nat where "SUB_N = 14"
definition SUB_S :: nat where "SUB_S = 15"
definition SOLDER_W :: nat where "SOLDER_W = 16"
definition SOLDER_E :: nat where "SOLDER_E = 17"
definition SOLDER_N :: nat where "SOLDER_N = 18"
definition SOLDER_S :: nat where "SOLDER_S = 19"
definition PCB_C_W :: nat where "PCB_C_W = 20"
definition PCB_C_E :: nat where "PCB_C_E = 21"
definition PCB_C_N :: nat where "PCB_C_N = 22"
definition PCB_C_S :: nat where "PCB_C_S = 23"
definition PCB_W :: nat where "PCB_W = 24"
definition PCB_E :: nat where "PCB_E = 25"
definition PCB_N :: nat where "PCB_N = 26"
definition PCB_S :: nat where "PCB_S = 27"

lemmas sec_node_defs = SUB_W_def SUB_E_def SUB_N_def SUB_S_def SOLDER_W_def SOLDER_E_def SOLDER_N_def SOLDER_S_def
  PCB_C_W_def PCB_C_E_def PCB_C_N_def PCB_C_S_def PCB_W_def PCB_E_def PCB_N_def PCB_S_def

section \<open>Resistances between cells\<close>

definition find_res_3D :: "nat \<Rightarrow> nat \<Rightarrow> nat \<Rightarrow> grid_model_t \<Rightarrow> nat \<Rightarrow> real res" where
  "find_res_3D n i j model choice =
     rbind (rd (gm_layers model) n) (\<lambda>l. rbind (cell_get (gm_b2g model (ly_b2gmap l)) i j) (\<lambda>bs. rbind (rd bs 0) (\<lambda>b.
     if choice = 1 then Inr (if \<not> bl_hasRes b then ly_rx l else bl_rx b)
     else if choice = 2 then Inr (if \<not> bl_hasRes b then ly_ry l else bl_ry b)
     else if choice = 3 then Inr (if \<not> bl_hasRes b then ly_rz l else bl_rz b)
     else Inr 0)))"

definition find_cap_3D :: "nat \<Rightarrow> nat \<Rightarrow> nat \<Rightarrow> grid_model_t \<Rightarrow> real res" where
  "find_cap_3D n i j model =
     rbind (rd (gm_layers model) n) (\<lambda>l. rbind (cell_get (gm_b2g model (ly_b2gmap l)) i j) (\<lambda>bs. rbind (rd bs 0) (\<lambda>b.
     Inr (if bl_lock b then bl_capacitance b else ly_c l))))"

text \<open>The sum of two resistances, each with a divisor.\<close>

definition in_series :: "real res \<Rightarrow> real \<Rightarrow> real res \<Rightarrow> real \<Rightarrow> real res" where
  "in_series a p b q = rbind a (\<lambda>x. rbind b (\<lambda>y. Inr (x / p + y / q)))"

definition not_adjacent :: "real res" where
  "not_adjacent = Inl (Fatal ''find_res must be called on adjacent grid cells'')"

definition find_res_detailed :: "grid_model_t \<Rightarrow> nat \<Rightarrow> nat \<Rightarrow> nat \<Rightarrow> nat \<Rightarrow> nat \<Rightarrow> nat \<Rightarrow> real res" where
  "find_res_detailed model n1 i1 j1 n2 i2 j2 =
    (if n1 = 0 \<and> i1 = i2 \<and> j1 = j2 then in_series (find_res_3D n1 i1 j1 model 3) 1 (find_res_3D n2 i2 j2 model 3) 2
     else if n2 = 0 \<and> i1 = i2 \<and> j1 = j2 then in_series (find_res_3D n2 i2 j2 model 3) 1 (find_res_3D n1 i1 j1 model 3) 2
     else if n1 \<noteq> n2 \<and> i1 = i2 \<and> j1 = j2 then in_series (find_res_3D n1 i1 j1 model 3) 2 (find_res_3D n2 i2 j2 model 3) 2
     else if n1 = n2 \<and> i1 \<noteq> i2 \<and> j1 = j2 then in_series (find_res_3D n1 i1 j1 model 1) 2 (find_res_3D n2 i2 j2 model 1) 2
     else if n1 = n2 \<and> i1 = i2 \<and> j1 \<noteq> j2 then in_series (find_res_3D n1 i1 j1 model 2) 2 (find_res_3D n2 i2 j2 model 2) 2
     else not_adjacent)"

definition layer_r :: "(layer_t \<Rightarrow> real) \<Rightarrow> grid_model_t \<Rightarrow> nat \<Rightarrow> real res" where
  "layer_r f model n = rbind (rd (gm_layers model) n) (\<lambda>l. Inr (f l))"

definition find_res_layer :: "grid_model_t \<Rightarrow> nat \<Rightarrow> nat \<Rightarrow> nat \<Rightarrow> nat \<Rightarrow> nat \<Rightarrow> nat \<Rightarrow> real res" where
  "find_res_layer model n1 i1 j1 n2 i2 j2 =
    (if n1 < n2 \<and> i1 = i2 \<and> j1 = j2 then layer_r ly_rz model n1
     else if n1 > n2 \<and> i1 = i2 \<and> j1 = j2 then layer_r ly_rz model n2
     else if n1 = n2 \<and> i1 \<noteq> i2 \<and> j1 = j2 then in_series (layer_r ly_rx model n1) 2 (layer_r ly_rx model n2) 2
     else if n1 = n2 \<and> i1 = i2 \<and> j1 \<noteq> j2 then in_series (layer_r ly_ry model n1) 2 (layer_r ly_ry model n2) 2
     else not_adjacent)"

definition find_res :: "grid_model_t \<Rightarrow> nat \<Rightarrow> nat \<Rightarrow> nat \<Rightarrow> nat \<Rightarrow> nat \<Rightarrow> nat \<Rightarrow> real res" where
  "find_res model n1 i1 j1 n2 i2 j2 =
    (if detailed_3D_used (gm_config model) = 1 then find_res_detailed model n1 i1 j1 n2 i2 j2
     else find_res_layer model n1 i1 j1 n2 i2 j2)"

text \<open>The resistances of a cell to its six neighbours, \<open>LARGENUM\<close> where there is none.\<close>

record cell_res =
  Rw :: real
  Re :: real
  Rn :: real
  Rs :: real
  Ra :: real
  Rb :: real

definition if_any :: "bool \<Rightarrow> real res \<Rightarrow> real res" where
  "if_any c r = (if c then r else Inr LARGENUM)"

type_synonym resistances = "grid_model_t \<Rightarrow> nat \<Rightarrow> nat \<Rightarrow> nat \<Rightarrow> cell_res res"

definition transient_resistances :: resistances where
  "transient_resistances model l i j =
    (let nr = gm_rows model; nc = gm_cols model; nl = gm_n_layers model in
     rbind (if_any (0 < j) (find_res model l i (j - 1) l i j)) (\<lambda>w.
     rbind (if_any (j < nc - 1) (find_res model l i (j + 1) l i j)) (\<lambda>e.
     rbind (if_any (0 < i) (find_res model l (i - 1) j l i j)) (\<lambda>n.
     rbind (if_any (i < nr - 1) (find_res model l (i + 1) j l i j)) (\<lambda>s.
     rbind (if_any (0 < l) (find_res model (l - 1) i j l i j)) (\<lambda>a.
     rbind (if_any (l < nl - 1) (find_res model (l + 1) i j l i j)) (\<lambda>b.
     Inr \<lparr>Rw = w, Re = e, Rn = n, Rs = s, Ra = a, Rb = b\<rparr>)))))))"

definition steady_resistances :: resistances where
  "steady_resistances model l i j =
    (let nr = gm_rows model; nc = gm_cols model; nl = gm_n_layers model; d3 = detailed_3D_used (gm_config model) = 1 in
     rbind (if_any (0 < j) (if d3 then find_res_3D l i (j - 1) model 1 else layer_r ly_rx model l)) (\<lambda>w.
     rbind (if_any (j < nc - 1) (if d3 then find_res_3D l i (j + 1) model 1 else layer_r ly_rx model l)) (\<lambda>e.
     rbind (if_any (0 < i) (if d3 then find_res_3D l (i - 1) j model 2 else layer_r ly_ry model l)) (\<lambda>n.
     rbind (if_any (i < nr - 1) (if d3 then find_res_3D l (i + 1) j model 2 else layer_r ly_ry model l)) (\<lambda>s.
     rbind (if_any (0 < l) (if d3 then find_res_3D (l - 1) i j model 3 else layer_r ly_rz model (l - 1))) (\<lambda>a.
     rbind (if_any (l < nl - 1) (if d3 then find_res_3D l i j model 3 else layer_r ly_rz model l)) (\<lambda>b.
     Inr \<lparr>Rw = w, Re = e, Rn = n, Rs = s, Ra = a, Rb = b\<rparr>)))))))"

section \<open>The border of a layer\<close>

definition spidx :: "grid_model_t \<Rightarrow> nat" where
  "spidx model = gm_n_layers model - DEFAULT_PACK_LAYERS + LAYER_SP"

definition hsidx :: "grid_model_t \<Rightarrow> nat" where
  "hsidx model = gm_n_layers model - DEFAULT_PACK_LAYERS + LAYER_SINK"

definition grid_cells :: "grid_model_t \<Rightarrow> nat" where
  "grid_cells model = gm_n_layers model * gm_rows model * gm_cols model"

datatype compass = West | East | North | South

text \<open>The node of a part of the package on a side.\<close>

fun at_side :: "nat \<Rightarrow> compass \<Rightarrow> nat" where
  "at_side w West = w" | "at_side w East = w + 1" | "at_side w North = w + 2" | "at_side w South = w + 3"

fun across :: "compass \<Rightarrow> 'a \<Rightarrow> 'a \<Rightarrow> 'a" where
  "across West x y = x" | "across East x y = x" | "across North x y = y" | "across South x y = y"

text \<open>Half of an edge cell, and the share of the side of the package in front of it.\<close>

definition edge_res :: "grid_model_t \<Rightarrow> layer_t \<Rightarrow> compass \<Rightarrow> real \<Rightarrow> real \<Rightarrow> real" where
  "edge_res model ly d rx1 ry1 =
     across d (ly_rx ly / 2 + real (gm_rows model) * rx1) (ly_ry ly / 2 + real (gm_cols model) * ry1)"

definition border_link :: "grid_model_t \<Rightarrow> layer_t \<Rightarrow> nat \<Rightarrow> compass \<Rightarrow> (nat \<times> real) list" where
  "border_link model ly l d =
    (let pk = gm_pack model; base = grid_cells model; sec = model_secondary (gm_config model) \<noteq> 0 in
     if l = spidx model then [(base + at_side SP_W d, edge_res model ly d (r_sp1_x pk) (r_sp1_y pk))]
     else if l = hsidx model then [(base + at_side SINK_C_W d, edge_res model ly d (r_hs1_x pk) (r_hs1_y pk))]
     else if l = LAYER_SUB \<and> sec then [(base + at_side SUB_W d, edge_res model ly d (r_sub1_x pk) (r_sub1_y pk))]
     else if l = LAYER_SOLDER \<and> sec then [(base + at_side SOLDER_W d, edge_res model ly d (r_solder1_x pk) (r_solder1_y pk))]
     else if l = LAYER_PCB \<and> sec then [(base + at_side PCB_C_W d, edge_res model ly d (r_pcb1_x pk) (r_pcb1_y pk))]
     else [])"

text \<open>The resistance between a cell and the ambient: every cell of the sink and of the board has one.\<close>

definition pcb_ambient :: "grid_model_t \<Rightarrow> real res" where
  "pcb_ambient model =
    (let c = gm_config model in
     rbind (fdiv (gm_width model) (real (gm_cols model))) (\<lambda>cw. rbind (fdiv (gm_height model) (real (gm_rows model))) (\<lambda>ch.
     fdiv (r_convec_sec c * (s_pcb c * s_pcb c)) (cw * ch))))"

definition cell_ambient :: "grid_model_t \<Rightarrow> layer_t \<Rightarrow> nat \<Rightarrow> real list res" where
  "cell_ambient model ly l =
    (let sec = model_secondary (gm_config model) \<noteq> 0 in
     if l = spidx model then Inr []
     else if l = hsidx model then Inr [ly_rz ly]
     else if (l = LAYER_SUB \<or> l = LAYER_SOLDER) \<and> sec then Inr []
     else if l = LAYER_PCB \<and> sec then rbind (pcb_ambient model) (\<lambda>r. Inr [r])
     else Inr [])"

section \<open>The row of a cell\<close>

text \<open>\<open>x\<close> is the node of the cell, \<open>grididx + xoffset\<close>.\<close>

definition vertical_links :: "grid_model_t \<Rightarrow> cell_res \<Rightarrow> nat \<Rightarrow> nat \<Rightarrow> (nat \<times> real) list" where
  "vertical_links model R l x =
    (let k = gm_rows model * gm_cols model in
     (if l < gm_n_layers model - 1 then [(x + k, Rb R)] else []) @ (if 0 < l then [(x - k, Ra R)] else []))"

definition top_left :: "grid_model_t \<Rightarrow> layer_t \<Rightarrow> cell_res \<Rightarrow> nat \<Rightarrow> nat \<Rightarrow> (nat \<times> real) list" where
  "top_left model ly R l x = [(x + 1, Re R), (x + gm_cols model, Rs R)] @ vertical_links model R l x @
     border_link model ly l North @ border_link model ly l West"

definition top_right :: "grid_model_t \<Rightarrow> layer_t \<Rightarrow> cell_res \<Rightarrow> nat \<Rightarrow> nat \<Rightarrow> (nat \<times> real) list" where
  "top_right model ly R l x = [(x - 1, Rw R), (x + gm_cols model, Rs R)] @ vertical_links model R l x @
     border_link model ly l North @ border_link model ly l East"

definition bottom_left :: "grid_model_t \<Rightarrow> layer_t \<Rightarrow> cell_res \<Rightarrow> nat \<Rightarrow> nat \<Rightarrow> (nat \<times> real) list" where
  "bottom_left model ly R l x = [(x + 1, Re R), (x - gm_cols model, Rn R)] @ vertical_links model R l x @
     border_link model ly l South @ border_link model ly l West"

definition bottom_right :: "grid_model_t \<Rightarrow> layer_t \<Rightarrow> cell_res \<Rightarrow> nat \<Rightarrow> nat \<Rightarrow> (nat \<times> real) list" where
  "bottom_right model ly R l x = [(x - 1, Rw R), (x - gm_cols model, Rn R)] @ vertical_links model R l x @
     border_link model ly l South @ border_link model ly l East"

definition top_row :: "grid_model_t \<Rightarrow> layer_t \<Rightarrow> cell_res \<Rightarrow> nat \<Rightarrow> nat \<Rightarrow> (nat \<times> real) list" where
  "top_row model ly R l x = [(x - 1, Rw R), (x + 1, Re R), (x + gm_cols model, Rs R)] @ vertical_links model R l x @
     border_link model ly l North"

definition bottom_row :: "grid_model_t \<Rightarrow> layer_t \<Rightarrow> cell_res \<Rightarrow> nat \<Rightarrow> nat \<Rightarrow> (nat \<times> real) list" where
  "bottom_row model ly R l x = [(x - 1, Rw R), (x + 1, Re R), (x - gm_cols model, Rn R)] @ vertical_links model R l x @
     border_link model ly l South"

definition left_column :: "grid_model_t \<Rightarrow> layer_t \<Rightarrow> cell_res \<Rightarrow> nat \<Rightarrow> nat \<Rightarrow> (nat \<times> real) list" where
  "left_column model ly R l x = [(x - gm_cols model, Rn R), (x + gm_cols model, Rs R), (x + 1, Re R)] @ vertical_links model R l x @
     border_link model ly l West"

definition right_column :: "grid_model_t \<Rightarrow> layer_t \<Rightarrow> cell_res \<Rightarrow> nat \<Rightarrow> nat \<Rightarrow> (nat \<times> real) list" where
  "right_column model ly R l x = [(x - gm_cols model, Rn R), (x + gm_cols model, Rs R), (x - 1, Rw R)] @ vertical_links model R l x @
     border_link model ly l East"

definition central_cell :: "grid_model_t \<Rightarrow> cell_res \<Rightarrow> nat \<Rightarrow> nat \<Rightarrow> (nat \<times> real) list" where
  "central_cell model R l x = [(x - gm_cols model, Rn R), (x + gm_cols model, Rs R), (x - 1, Rw R), (x + 1, Re R)] @
     vertical_links model R l x"

definition cell_links :: "grid_model_t \<Rightarrow> layer_t \<Rightarrow> cell_res \<Rightarrow> nat \<Rightarrow> nat \<Rightarrow> nat \<Rightarrow> (nat \<times> real) list" where
  "cell_links model ly R l grididx x =
    (let nr = gm_rows model; nc = gm_cols model in
     if 0 = grididx then top_left model ly R l x
     else if nc - 1 = grididx then top_right model ly R l x
     else if nr * nc - nc = grididx then bottom_left model ly R l x
     else if nr * nc - 1 = grididx then bottom_right model ly R l x
     else if 0 < grididx \<and> grididx < nc - 1 then top_row model ly R l x
     else if nr * nc - nc < grididx \<and> grididx < nr * nc - 1 then bottom_row model ly R l x
     else if 0 = grididx mod nc then left_column model ly R l x
     else if 0 = (grididx + 1) mod nc then right_column model ly R l x
     else central_cell model R l x)"

definition cell_node :: "grid_model_t \<Rightarrow> nat \<Rightarrow> nat \<Rightarrow> nat \<Rightarrow> nat" where
  "cell_node model l i j = i * gm_cols model + j + l * gm_rows model * gm_cols model"

definition cell_row :: "resistances \<Rightarrow> grid_model_t \<Rightarrow> nat \<Rightarrow> nat \<Rightarrow> nat \<Rightarrow> row res" where
  "cell_row res model l i j =
     rbind (res model l i j) (\<lambda>R. rbind (rd (gm_layers model) l) (\<lambda>ly. rbind (cell_ambient model ly l) (\<lambda>amb.
     Inr (cell_node model l i j, cell_links model ly R l (i * gm_cols model + j) (cell_node model l i j), amb))))"

section \<open>The rows of the package\<close>

definition all_sides :: "compass list" where "all_sides = [North, South, West, East]"

text \<open>The cells of a layer along a side.\<close>

definition edge_cells :: "grid_model_t \<Rightarrow> nat \<Rightarrow> compass \<Rightarrow> nat list" where
  "edge_cells model l d =
    (case d of North \<Rightarrow> map (\<lambda>j. cell_node model l 0 j) [0..<gm_cols model]
     | South \<Rightarrow> map (\<lambda>j. cell_node model l (gm_rows model - 1) j) [0..<gm_cols model]
     | West \<Rightarrow> map (\<lambda>i. cell_node model l i 0) [0..<gm_rows model]
     | East \<Rightarrow> map (\<lambda>i. cell_node model l i (gm_cols model - 1)) [0..<gm_rows model])"

definition edge_links :: "grid_model_t \<Rightarrow> layer_t \<Rightarrow> nat \<Rightarrow> compass \<Rightarrow> real \<Rightarrow> real \<Rightarrow> (nat \<times> real) list" where
  "edge_links model ly l d rx1 ry1 = map (\<lambda>x. (x, edge_res model ly d rx1 ry1)) (edge_cells model l d)"

definition sink_outer_row :: "grid_model_t \<Rightarrow> compass \<Rightarrow> row" where
  "sink_outer_row model d =
    (let pk = gm_pack model; base = grid_cells model in
     (base + at_side SINK_W d, [(base + at_side SINK_C_W d, across d (r_hs2_x pk) (r_hs2_y pk) + r_hs pk)], [r_hs_per pk + r_amb_per pk]))"

definition sink_inner_row :: "grid_model_t \<Rightarrow> layer_t \<Rightarrow> compass \<Rightarrow> row" where
  "sink_inner_row model ly d =
    (let pk = gm_pack model; base = grid_cells model in
     (base + at_side SINK_C_W d,
      edge_links model ly (hsidx model) d (r_hs1_x pk) (r_hs1_y pk) @
      [(base + at_side SP_W d, across d (r_sp_per_x pk) (r_sp_per_y pk)),
       (base + at_side SINK_W d, across d (r_hs2_x pk) (r_hs2_y pk) + r_hs pk)],
      [across d (r_hs_c_per_x pk + r_amb_c_per_x pk) (r_hs_c_per_y pk + r_amb_c_per_y pk)]))"

definition spreader_row :: "grid_model_t \<Rightarrow> layer_t \<Rightarrow> compass \<Rightarrow> row" where
  "spreader_row model ly d =
    (let pk = gm_pack model; base = grid_cells model in
     (base + at_side SP_W d,
      edge_links model ly (spidx model) d (r_sp1_x pk) (r_sp1_y pk) @
      [(base + at_side SINK_C_W d, across d (r_sp_per_x pk) (r_sp_per_y pk))], []))"

definition pcb_outer_row :: "grid_model_t \<Rightarrow> compass \<Rightarrow> row" where
  "pcb_outer_row model d =
    (let pk = gm_pack model; base = grid_cells model in
     (base + at_side PCB_W d, [(base + at_side PCB_C_W d, across d (r_pcb2_x pk) (r_pcb2_y pk) + r_pcb pk)], [r_amb_sec_per pk]))"

definition pcb_inner_row :: "grid_model_t \<Rightarrow> layer_t \<Rightarrow> compass \<Rightarrow> row" where
  "pcb_inner_row model ly d =
    (let pk = gm_pack model; base = grid_cells model in
     (base + at_side PCB_C_W d,
      edge_links model ly LAYER_PCB d (r_pcb1_x pk) (r_pcb1_y pk) @
      [(base + at_side SOLDER_W d, across d (r_pcb_c_per_x pk) (r_pcb_c_per_y pk)),
       (base + at_side PCB_W d, across d (r_pcb2_x pk) (r_pcb2_y pk) + r_pcb pk)],
      [across d (r_amb_sec_c_per_x pk) (r_amb_sec_c_per_y pk)]))"

definition solder_row :: "grid_model_t \<Rightarrow> layer_t \<Rightarrow> compass \<Rightarrow> row" where
  "solder_row model ly d =
    (let pk = gm_pack model; base = grid_cells model in
     (base + at_side SOLDER_W d,
      edge_links model ly LAYER_SOLDER d (r_solder1_x pk) (r_solder1_y pk) @
      [(base + at_side SUB_W d, across d (r_solder_per_x pk) (r_solder_per_y pk)),
       (base + at_side PCB_C_W d, across d (r_pcb_c_per_x pk) (r_pcb_c_per_y pk))], []))"

definition substrate_row :: "grid_model_t \<Rightarrow> layer_t \<Rightarrow> compass \<Rightarrow> row" where
  "substrate_row model ly d =
    (let pk = gm_pack model; base = grid_cells model in
     (base + at_side SUB_W d,
      edge_links model ly LAYER_SUB d (r_sub1_x pk) (r_sub1_y pk) @
      [(base + at_side SOLDER_W d, across d (r_solder_per_x pk) (r_solder_per_y pk))], []))"

definition primary_rows :: "grid_model_t \<Rightarrow> row list res" where
  "primary_rows model =
     rbind (rd (gm_layers model) (hsidx model)) (\<lambda>hs. rbind (rd (gm_layers model) (spidx model)) (\<lambda>sp.
     Inr (map (sink_outer_row model) all_sides @ map (sink_inner_row model hs) all_sides @ map (spreader_row model sp) all_sides)))"

definition secondary_rows :: "grid_model_t \<Rightarrow> row list res" where
  "secondary_rows model =
    (if model_secondary (gm_config model) = 0 then Inr [] else
     rbind (rd (gm_layers model) LAYER_PCB) (\<lambda>pcb. rbind (rd (gm_layers model) LAYER_SOLDER) (\<lambda>sol. rbind (rd (gm_layers model) LAYER_SUB) (\<lambda>sub.
     Inr (map (pcb_outer_row model) all_sides @ map (pcb_inner_row model pcb) all_sides @ map (solder_row model sol) all_sides @
       map (substrate_row model sub) all_sides)))))"

section \<open>The builders\<close>

text \<open>The number of elements allocated for the coordinate arrays.\<close>

definition grid_nnz :: "grid_model_t \<Rightarrow> nat" where
  "grid_nnz model =
    (let nr = gm_rows model; nc = gm_cols model; nl = gm_n_layers model;
         nnz = (5 * nr * nc - 2 * (nr + nc)) * nl + 2 * (nl - 1) * nr * nc in
     if model_secondary (gm_config model) \<noteq> 0 then nnz + 5 * 2 * 2 * (nr + nc) + (EXTRA + EXTRA_SEC) + (16 + 24)
     else nnz + 2 * 2 * 2 * (nr + nc) + (EXTRA + 16))"

definition write_cells :: "resistances \<Rightarrow> grid_model_t \<Rightarrow> nat \<Rightarrow> coo_state \<Rightarrow> coo_state res" where
  "write_cells res model nnz =
     for_up 0 (gm_n_layers model) (\<lambda>l. for_up 0 (gm_rows model) (\<lambda>i. for_up 0 (gm_cols model) (\<lambda>j s.
       rbind (cell_row res model l i j) (\<lambda>r. write_row nnz r s))))"

definition write_package :: "grid_model_t \<Rightarrow> nat \<Rightarrow> coo_state \<Rightarrow> coo_state res" where
  "write_package model nnz s =
     rbind (primary_rows model) (\<lambda>rs. rbind (in_order (map (write_row nnz) rs) s) (\<lambda>s.
     rbind (secondary_rows model) (\<lambda>rs. in_order (map (write_row nnz) rs) s)))"

definition grid_triples :: "resistances \<Rightarrow> string \<Rightarrow> grid_model_t \<Rightarrow> triple list res" where
  "grid_triples res msg model =
    (let nnz = grid_nnz model in
     rbind (write_cells res model nnz \<lparr>triples = [], dia_val = 0\<rparr>) (\<lambda>s.
     rbind (write_package model nnz s) (\<lambda>s.
     if length (triples s) \<noteq> nnz then Inl (Fatal msg) else Inr (triples s))))"

end
