(* ===== verification/Grid_Layers.thy ===== *)
theory Grid_Layers
  imports Grid_Map
begin

text \<open>
  The layers of the grid model: the default stack, the layer configuration file, the layers of
  the package, allocation, and the resistances and capacitances of the cells.

  The layer file is the list of the first words of its significant lines, and reading the
  floorplan file that a word names is a parameter, which gives the index of the floorplan.
\<close>

section \<open>Layers\<close>

definition glist_zero :: glist_t where
  "glist_zero = \<lparr>gl_i1 = 0, gl_i2 = 0, gl_j1 = 0, gl_j2 = 0\<rparr>"

definition layer_zero :: layer_t where
  "layer_zero = \<lparr>ly_flp = 0, ly_no = 0, ly_has_lateral = False, ly_has_power = False, ly_k = 0, ly_thickness = 0, ly_sp = 0,
     ly_rx = 0, ly_ry = 0, ly_rz = 0, ly_c = 0, ly_b2gmap = 0, ly_g2bmap = 0\<rparr>"

definition upd_layer :: "nat \<Rightarrow> (layer_t \<Rightarrow> layer_t) \<Rightarrow> grid_model_t \<Rightarrow> grid_model_t res" where
  "upd_layer i f model = rbind (rd (gm_layers model) i) (\<lambda>l. rbind (wr (gm_layers model) i (f l)) (\<lambda>ls.
     Inr (model\<lparr>gm_layers := ls\<rparr>)))"

text \<open>The assignments that every layer of the stack gets.\<close>

definition fill_layer :: "nat \<Rightarrow> bool \<Rightarrow> real \<Rightarrow> real \<Rightarrow> real \<Rightarrow> nat \<Rightarrow> nat \<Rightarrow> nat \<Rightarrow> grid_model_t \<Rightarrow> grid_model_t res" where
  "fill_layer i pwr k t sp flp bmap gmap = upd_layer i (\<lambda>l. l\<lparr>ly_no := i, ly_has_lateral := True, ly_has_power := pwr,
     ly_k := k, ly_thickness := t, ly_sp := sp, ly_flp := flp, ly_b2gmap := bmap, ly_g2bmap := gmap\<rparr>)"

text \<open>A layer with the floorplan and the maps of another one.\<close>

definition fill_like :: "nat \<Rightarrow> nat \<Rightarrow> real \<Rightarrow> real \<Rightarrow> real \<Rightarrow> grid_model_t \<Rightarrow> grid_model_t res" where
  "fill_like other i k t sp model = rbind (rd (gm_layers model) other) (\<lambda>src.
     fill_layer i False k t sp (ly_flp src) (ly_b2gmap src) (ly_g2bmap src) model)"

text \<open>New maps, at the address that belongs to the layer.\<close>

definition alloc_b2gmap :: "nat \<Rightarrow> grid_model_t \<Rightarrow> grid_model_t" where
  "alloc_b2gmap i model = model\<lparr>gm_b2g := (gm_b2g model)(i := new_b2gmap (gm_rows model) (gm_cols model))\<rparr>"

definition alloc_g2bmap :: "nat \<Rightarrow> nat \<Rightarrow> grid_model_t \<Rightarrow> grid_model_t" where
  "alloc_g2bmap i n model = model\<lparr>gm_g2b := (gm_g2b model)(i := replicate n glist_zero)\<rparr>"

definition populate_default_layers :: "flp_store \<Rightarrow> nat \<Rightarrow> grid_model_t \<Rightarrow> grid_model_t res" where
  "populate_default_layers fs flp_default model =
    (let c = gm_config model; sec = (model_secondary c \<noteq> 0);
         silidx = (if sec then SEC_PACK_LAYERS + SEC_CHIP_LAYERS + LAYER_SI else LAYER_SI);
         intidx = (if sec then SEC_PACK_LAYERS + SEC_CHIP_LAYERS + LAYER_INT else LAYER_INT);
         c4idx = SEC_PACK_LAYERS + LAYER_C4; metalidx = SEC_PACK_LAYERS + LAYER_METAL in
     rbind (fill_layer silidx True (k_chip c) (t_chip c) (p_chip c) flp_default silidx silidx model) (\<lambda>model.
     rbind (fill_like silidx intidx (k_interface c) (t_interface c) (p_interface c)
       (alloc_g2bmap silidx (n_units (fs flp_default)) (alloc_b2gmap silidx model))) (\<lambda>model.
     if sec then
       rbind (fill_like silidx metalidx K_METAL (t_metal c) SPEC_HEAT_METAL model) (fill_like silidx c4idx K_C4 (t_c4 c) SPEC_HEAT_C4)
     else Inr model)))"

text \<open>The map of a layer replaced by a new one, and by the map of another layer.\<close>

definition own_b2gmap :: "nat \<Rightarrow> grid_model_t \<Rightarrow> grid_model_t res" where
  "own_b2gmap i model = upd_layer i (\<lambda>l. l\<lparr>ly_b2gmap := i\<rparr>) (alloc_b2gmap i model)"

definition share_b2gmap :: "nat \<Rightarrow> nat \<Rightarrow> grid_model_t \<Rightarrow> grid_model_t res" where
  "share_b2gmap other i model = rbind (rd (gm_layers model) other) (\<lambda>src. upd_layer i (\<lambda>l. l\<lparr>ly_b2gmap := ly_b2gmap src\<rparr>) model)"

definition append_package_layers :: "grid_model_t \<Rightarrow> grid_model_t res" where
  "append_package_layers model =
    (let c = gm_config model; nl = gm_n_layers model; sec = (model_secondary c \<noteq> 0); d3 = (detailed_3D_used c \<noteq> 0);
         spidx = nl - DEFAULT_PACK_LAYERS + LAYER_SP; hsidx = nl - DEFAULT_PACK_LAYERS + LAYER_SINK;
         silidx = (if gm_has_lcf model then SEC_PACK_LAYERS else SEC_PACK_LAYERS + SEC_CHIP_LAYERS + LAYER_SI) in
     if spidx = 0 then Inl OutOfBounds else
     in_order
      ([fill_like (spidx - 1) spidx (k_spreader c) (t_spreader c) (p_spreader c),
        fill_like (spidx - 1) hsidx (k_sink c) (t_sink c) (p_sink c)] @
       (if d3 then [own_b2gmap spidx, share_b2gmap spidx hsidx] else []) @
       (if sec then
         [fill_like silidx LAYER_SUB K_SUB (t_sub c) SPEC_HEAT_SUB,
          fill_like silidx LAYER_SOLDER K_SOLDER (t_solder c) SPEC_HEAT_SOLDER,
          fill_like silidx LAYER_PCB K_PCB (t_pcb c) SPEC_HEAT_PCB] @
         (if d3 then [own_b2gmap LAYER_SUB, share_b2gmap LAYER_SUB LAYER_SOLDER, share_b2gmap LAYER_SUB LAYER_PCB] else [])
        else [])) model)"

section \<open>The layer file\<close>

definition LCF_NPARAMS :: nat where "LCF_NPARAMS = 7"
definition LCF_SNO :: nat where "LCF_SNO = 0"
definition LCF_LATERAL :: nat where "LCF_LATERAL = 1"
definition LCF_POWER :: nat where "LCF_POWER = 2"
definition LCF_SP :: nat where "LCF_SP = 3"
definition LCF_RHO :: nat where "LCF_RHO = 4"
definition LCF_THICK :: nat where "LCF_THICK = 5"
definition LCF_FLP :: nat where "LCF_FLP = 6"

lemmas lcf_defs = LCF_NPARAMS_def LCF_SNO_def LCF_LATERAL_def LCF_POWER_def LCF_SP_def LCF_RHO_def LCF_THICK_def LCF_FLP_def

text \<open>\<open>Y\<close>, \<open>y\<close>, \<open>N\<close> or \<open>n\<close>.\<close>

definition read_flag :: "string \<Rightarrow> string \<Rightarrow> bool res" where
  "read_flag msg w = (case w of [] \<Rightarrow> Inl (Fatal msg)
     | ch # _ \<Rightarrow> if ch = CHR ''Y'' \<or> ch = CHR ''y'' then Inr True
         else if ch = CHR ''N'' \<or> ch = CHR ''n'' then Inr False else Inl (Fatal msg))"

definition read_number :: "string \<Rightarrow> string \<Rightarrow> real res" where
  "read_number msg w = (case scan_double w of None \<Rightarrow> Inl (Fatal msg) | Some (x, _) \<Rightarrow> Inr x)"

definition read_layer_no :: "nat \<Rightarrow> nat \<Rightarrow> string \<Rightarrow> grid_model_t \<Rightarrow> (nat \<times> grid_model_t) res" where
  "read_layer_no base inner_layers w model = (case scan_int w of
       None \<Rightarrow> Inl (Fatal ''invalid layer number'')
     | Some (ival, _) \<Rightarrow>
         if ival \<ge> int inner_layers \<or> ival < 0
         then Inl (Fatal ''layer number must be >= 0 and < no. of layers specified'')
         else rbind (rd (gm_layers model) (base + nat ival)) (\<lambda>l.
           if ly_no l \<noteq> 0 then Inl (Fatal ''layer numbers must be unique'')
           else let i = base + nat ival in rbind (upd_layer i (\<lambda>l. l\<lparr>ly_no := base + nat ival\<rparr>) model) (\<lambda>model. Inr (i, model))))"

definition read_layer_flp :: "flp_store \<Rightarrow> (string \<Rightarrow> nat) \<Rightarrow> nat \<Rightarrow> nat \<Rightarrow> string \<Rightarrow> grid_model_t \<Rightarrow> grid_model_t res" where
  "read_layer_flp fs read_flp cnt i w model =
     rbind (upd_layer i (\<lambda>l. l\<lparr>ly_flp := read_flp w\<rparr>) model) (\<lambda>model.
     rbind (get_total_width (fs (read_flp w))) (\<lambda>fw. rbind (get_total_height (fs (read_flp w))) (\<lambda>fh.
     if cnt < LCF_NPARAMS then Inr (model\<lparr>gm_width := fw, gm_height := fh\<rparr>)
     else if \<not> eq (gm_width model) fw \<or> \<not> eq (gm_height model) fh then Inl (Fatal ''width and height differ across layers'')
     else Inr model)))"

definition read_layer_field :: "flp_store \<Rightarrow> (string \<Rightarrow> nat) \<Rightarrow> nat \<Rightarrow> nat \<Rightarrow> nat \<Rightarrow> nat \<Rightarrow> string \<Rightarrow>
    nat \<times> grid_model_t \<Rightarrow> (nat \<times> grid_model_t) res" where
  "read_layer_field fs read_flp base inner_layers cnt field w = (\<lambda>(i, model).
    (let keep_i = (\<lambda>r. rbind r (\<lambda>model. Inr (i, model))) in
     if field = LCF_SNO then read_layer_no base inner_layers w model
     else if field = LCF_LATERAL then
       keep_i (rbind (read_flag ''invalid layer heat flow indicator'' w) (\<lambda>b. upd_layer i (\<lambda>l. l\<lparr>ly_has_lateral := b\<rparr>) model))
     else if field = LCF_POWER then
       keep_i (rbind (read_flag ''invalid layer power dissipation indicator'' w) (\<lambda>b. upd_layer i (\<lambda>l. l\<lparr>ly_has_power := b\<rparr>) model))
     else if field = LCF_SP then
       keep_i (rbind (read_number ''invalid specific heat'' w) (\<lambda>x. upd_layer i (\<lambda>l. l\<lparr>ly_sp := x\<rparr>) model))
     else if field = LCF_RHO then
       keep_i (rbind (read_number ''invalid resistivity'' w) (\<lambda>x. rbind (fdiv 1 x) (\<lambda>k. upd_layer i (\<lambda>l. l\<lparr>ly_k := k\<rparr>) model)))
     else if field = LCF_THICK then
       keep_i (rbind (read_number ''invalid thickness'' w) (\<lambda>x. upd_layer i (\<lambda>l. l\<lparr>ly_thickness := x\<rparr>) model))
     else if field = LCF_FLP then keep_i (read_layer_flp fs read_flp cnt i w model)
     else Inl (Fatal ''invalid field id'')))"

fun parse_fields :: "flp_store \<Rightarrow> (string \<Rightarrow> nat) \<Rightarrow> nat \<Rightarrow> nat \<Rightarrow> string list \<Rightarrow> nat \<Rightarrow> nat \<Rightarrow>
    nat \<times> grid_model_t \<Rightarrow> (nat \<times> grid_model_t) res" where
  "parse_fields fs rf base inner_layers [] cnt field st = Inr st"
| "parse_fields fs rf base inner_layers (w # ws) cnt field st =
     (if cnt < inner_layers * LCF_NPARAMS then
        rbind (read_layer_field fs rf base inner_layers cnt field w st)
          (parse_fields fs rf base inner_layers ws (cnt + 1) ((field + 1) mod LCF_NPARAMS))
      else Inr st)"

definition parse_layer_file :: "flp_store \<Rightarrow> (string \<Rightarrow> nat) \<Rightarrow> string list \<Rightarrow> grid_model_t \<Rightarrow> grid_model_t res" where
  "parse_layer_file fs read_flp ws model =
    (let sec = (model_secondary (gm_config model) \<noteq> 0); base = (if sec then SEC_PACK_LAYERS else 0);
         inner_layers = gm_n_layers model - DEFAULT_PACK_LAYERS - (if sec then SEC_PACK_LAYERS else 0) in
     rbind (parse_fields fs read_flp base inner_layers ws 0 LCF_SNO (0, model)) (\<lambda>(_, model).
     for_up base (base + inner_layers) (\<lambda>i model. rbind (rd (gm_layers model) i) (\<lambda>l.
       upd_layer i (\<lambda>l. l\<lparr>ly_b2gmap := i, ly_g2bmap := i\<rparr>) (alloc_g2bmap i (n_units (fs (ly_flp l))) (alloc_b2gmap i model)))) model))"

definition populate_layers_grid :: "flp_store \<Rightarrow> (string \<Rightarrow> nat) \<Rightarrow> string list \<Rightarrow> nat \<Rightarrow> grid_model_t \<Rightarrow> grid_model_t res" where
  "populate_layers_grid fs read_flp ws flp_default model =
    (let sec = (model_secondary (gm_config model) \<noteq> 0) in
     rbind (if gm_has_lcf model then
         if length ws mod LCF_NPARAMS \<noteq> 0 then Inl (Fatal ''wrong no. of lines in layer file'')
         else Inr (length ws div LCF_NPARAMS)
       else Inr (if sec then DEFAULT_CHIP_LAYERS + SEC_CHIP_LAYERS else DEFAULT_CHIP_LAYERS)) (\<lambda>n.
     let nl = n + DEFAULT_PACK_LAYERS + (if sec then SEC_PACK_LAYERS else 0);
         model = model\<lparr>gm_n_layers := nl, gm_layers := replicate nl layer_zero\<rparr> in
     rbind (if gm_has_lcf model then parse_layer_file fs read_flp ws model
       else populate_default_layers fs flp_default model) append_package_layers))"

section \<open>Allocation\<close>

definition count_blocks :: "flp_store \<Rightarrow> grid_model_t \<Rightarrow> nat res" where
  "count_blocks fs model = for_up 0 (gm_n_layers model) (\<lambda>i s. rbind (rd (gm_layers model) i) (\<lambda>l. Inr (s + n_units (fs (ly_flp l))))) 0"

definition find_map_mode :: "string \<Rightarrow> nat res" where
  "find_map_mode s =
    (if strcase_eq s GRID_AVG_STR then Inr GRID_AVG else if strcase_eq s GRID_MIN_STR then Inr GRID_MIN
     else if strcase_eq s GRID_MAX_STR then Inr GRID_MAX else if strcase_eq s GRID_CENTER_STR then Inr GRID_CENTER
     else Inl (Fatal ''unknown mapping mode''))"

text \<open>The zeroed model of \<open>calloc\<close>, with no maps.\<close>

definition no_vector :: grid_model_vector_t where
  "no_vector = \<lparr>gv_data = [], gv_layers = 0, gv_rows = 0, gv_cols = 0\<rparr>"

definition grid_zero :: "thermal_config_t \<Rightarrow> grid_model_t" where
  "grid_zero config = \<lparr>gm_config = config, gm_layers = [], gm_n_layers = 0, gm_rows = 0, gm_cols = 0, gm_width = 0, gm_height = 0,
     gm_pack = package_zero, gm_total_n_blocks = 0, gm_map_mode = 0, gm_r_ready = False, gm_c_ready = False, gm_has_lcf = False,
     gm_last_steady = no_vector, gm_last_trans = no_vector, gm_base_n_units = 0, gm_b2g = (\<lambda>_. []), gm_g2b = (\<lambda>_. [])\<rparr>"

definition alloc_grid_model :: "flp_store \<Rightarrow> (string \<Rightarrow> nat) \<Rightarrow> string list \<Rightarrow> thermal_config_t \<Rightarrow> nat \<Rightarrow> bool \<Rightarrow> grid_model_t res" where
  "alloc_grid_model fs read_flp ws config flp_default do_detailed_3D =
    (let model = (grid_zero config)\<lparr>gm_rows := nat (grid_rows config), gm_cols := nat (grid_cols config),
           gm_config := (if do_detailed_3D then config\<lparr>detailed_3D_used := 1\<rparr> else config)\<rparr> in
     rbind (find_map_mode (grid_map_mode config)) (\<lambda>mm.
     let has_lcf = (grid_layer_file config \<noteq> NULLFILE);
         model = model\<lparr>gm_map_mode := mm, gm_has_lcf := has_lcf,
           gm_base_n_units := (if has_lcf then 0 else n_units (fs flp_default))\<rparr> in
     rbind (populate_layers_grid fs read_flp ws flp_default model) (\<lambda>model.
     rbind (count_blocks fs model) (\<lambda>nb.
     let v = new_grid_model_vector model in
     Inr (model\<lparr>gm_total_n_blocks := nb, gm_last_steady := v, gm_last_trans := v\<rparr>)))))"

section \<open>Resistances and capacitances\<close>

text \<open>The first entry of every cell of a package layer gives no resistance of its own.\<close>

definition forget_cell :: "nat \<Rightarrow> nat \<Rightarrow> b2gmap_t \<Rightarrow> b2gmap_t res" where
  "forget_cell i j m = rbind (cell_get m i j) (\<lambda>bs. case bs of [] \<Rightarrow> Inl OutOfBounds
     | b # rest \<Rightarrow> cell_put m i j (b\<lparr>bl_hasRes := False, bl_hasCap := False, bl_lock := False\<rparr> # rest))"

definition set_package_map :: "flp_store \<Rightarrow> nat \<Rightarrow> grid_model_t \<Rightarrow> grid_model_t res" where
  "set_package_map fs idx model = rbind (rd (gm_layers model) idx) (\<lambda>l.
     rbind (set_bgmap fs model l) (\<lambda>model.
     rbind (for_up 0 (gm_rows model) (\<lambda>i m. for_up 0 (gm_cols model) (\<lambda>j m. forget_cell i j m) m) (gm_b2g model (ly_b2gmap l))) (\<lambda>m.
     Inr (model\<lparr>gm_b2g := (gm_b2g model)(ly_b2gmap l := m)\<rparr>))))"

definition layer_resistances :: "thermal_config_t \<Rightarrow> real \<Rightarrow> real \<Rightarrow> nat \<Rightarrow> nat \<Rightarrow> grid_model_t \<Rightarrow> grid_model_t res" where
  "layer_resistances c cw ch hsidx i model = rbind (rd (gm_layers model) i) (\<lambda>l.
     rbind (if ly_has_lateral l then getr (ly_k l) cw (ch * ly_thickness l) else Inr LARGENUM) (\<lambda>rx.
     rbind (if ly_has_lateral l then getr (ly_k l) ch (cw * ly_thickness l) else Inr LARGENUM) (\<lambda>ry.
     rbind (getr (ly_k l) (ly_thickness l) (cw * ch)) (\<lambda>rz.
     rbind (if i = hsidx then rbind (fdiv (r_convec c * (s_sink c * s_sink c)) (cw * ch)) (\<lambda>a. Inr (rz + a)) else Inr rz) (\<lambda>rz.
     upd_layer i (\<lambda>l. l\<lparr>ly_rx := rx, ly_ry := ry, ly_rz := rz\<rparr>) model)))))"

definition populate_R_model_grid :: "flp_store \<Rightarrow> grid_model_t \<Rightarrow> nat \<Rightarrow> grid_model_t res" where
  "populate_R_model_grid fs model fp =
    (let c = gm_config model; nl = gm_n_layers model; sec = (model_secondary c \<noteq> 0); lcf = gm_has_lcf model;
         base = (if sec then if lcf then SEC_PACK_LAYERS else SEC_CHIP_LAYERS + SEC_PACK_LAYERS else 0);
         inner_layers = nl - DEFAULT_PACK_LAYERS - (if sec then SEC_PACK_LAYERS + (if lcf then 0 else SEC_CHIP_LAYERS) else 0);
         silidx = (if sec then SEC_PACK_LAYERS + (if lcf then 0 else SEC_CHIP_LAYERS) + LAYER_SI else LAYER_SI) in
     rbind (if lcf then for_up base (base + inner_layers) (\<lambda>i model. rbind (rd (gm_layers model) i) (set_bgmap fs model)) model
       else rbind (rd (gm_layers model) silidx) (\<lambda>l.
         if fp \<noteq> ly_flp l then Inl (Fatal ''mismatch between the floorplan and the thermal model'')
         else rbind (get_total_width (fs fp)) (\<lambda>w. rbind (get_total_height (fs fp)) (\<lambda>h.
           set_bgmap fs (model\<lparr>gm_width := w, gm_height := h\<rparr>) l)))) (\<lambda>model.
     rbind (if detailed_3D_used c \<noteq> 0
       then rbind (set_package_map fs (nl - DEFAULT_PACK_LAYERS + LAYER_SP) model) (\<lambda>model.
         if sec then set_package_map fs LAYER_SUB model else Inr model)
       else Inr model) (\<lambda>model.
     let w = gm_width model; h = gm_height model in
     if w > s_sink c \<or> h > s_sink c \<or> w > s_spreader c \<or> h > s_spreader c then Inl (Fatal ''inordinate floorplan size!'')
     else
     rbind (fdiv w (real (gm_cols model))) (\<lambda>cw. rbind (fdiv h (real (gm_rows model))) (\<lambda>ch.
     rbind (populate_package_R (gm_pack model) c w h) (\<lambda>pack.
     rbind (for_up 0 nl (layer_resistances c cw ch (nl - DEFAULT_PACK_LAYERS + LAYER_SINK)) (model\<lparr>gm_pack := pack\<rparr>)) (\<lambda>model.
     Inr (model\<lparr>gm_r_ready := True\<rparr>))))))))"

definition populate_C_model_grid :: "flp_store \<Rightarrow> grid_model_t \<Rightarrow> nat \<Rightarrow> grid_model_t res" where
  "populate_C_model_grid fs model fp =
    (let c = gm_config model; nl = gm_n_layers model; sec = (model_secondary c \<noteq> 0); lcf = gm_has_lcf model;
         hsidx = nl - DEFAULT_PACK_LAYERS + LAYER_SINK;
         silidx = (if sec then SEC_PACK_LAYERS + (if lcf then 0 else SEC_CHIP_LAYERS) + LAYER_SI else LAYER_SI) in
     rbind (fdiv (gm_width model) (real (gm_cols model))) (\<lambda>cw. rbind (fdiv (gm_height model) (real (gm_rows model))) (\<lambda>ch.
     if \<not> gm_r_ready model then Inl (Fatal ''R model not ready'') else
     rbind (if lcf then Inr () else rbind (rd (gm_layers model) silidx) (\<lambda>l.
       if fp \<noteq> ly_flp l then Inl (Fatal ''different floorplans for R and C models!'') else Inr ())) (\<lambda>_.
     rbind (populate_package_C (gm_pack model) c (gm_width model) (gm_height model)) (\<lambda>pack.
     rbind (for_up 0 nl (\<lambda>i. upd_layer i (\<lambda>l. l\<lparr>ly_c := getcap (ly_sp l) (ly_thickness l) (cw * ch)\<rparr>)) (model\<lparr>gm_pack := pack\<rparr>)) (\<lambda>model.
     rbind (fdiv (C_FACTOR * c_convec c * (cw * ch)) (s_sink c * s_sink c)) (\<lambda>a.
     rbind (upd_layer hsidx (\<lambda>l. l\<lparr>ly_c := ly_c l + a\<rparr>) model) (\<lambda>model.
     rbind (if sec then rbind (fdiv (C_FACTOR * c_convec_sec c * (cw * ch)) (s_pcb c * s_pcb c)) (\<lambda>a.
         upd_layer LAYER_PCB (\<lambda>l. l\<lparr>ly_c := ly_c l + a\<rparr>) model)
       else Inr model) (\<lambda>model.
     Inr (model\<lparr>gm_c_ready := True\<rparr>))))))))))"

end
