(* ===== verification/Grid_Ops.thy ===== *)
theory Grid_Ops
  imports Grid_Layers
begin

text \<open>
  The operations of the grid model on vectors: the vectors of blocks, their translation from and
  to the vectors of cells, and the operators of the multigrid solver.
\<close>

section \<open>Vectors of blocks\<close>

definition total_nodes :: "grid_model_t \<Rightarrow> nat" where
  "total_nodes model = gm_total_n_blocks model + extra_nodes (gm_config model)"

definition hotspot_vector_grid :: "grid_model_t \<Rightarrow> real list res" where
  "hotspot_vector_grid model =
    (if gm_total_n_blocks model = 0 then Inl (Fatal ''total_n_blocks is not greater than zero'')
     else Inr (dvector (total_nodes model)))"

definition trim_hotspot_vector_grid :: "grid_model_t \<Rightarrow> real list \<Rightarrow> real list \<Rightarrow> nat \<Rightarrow> nat \<Rightarrow> real list res" where
  "trim_hotspot_vector_grid model dst src at_i sz =
    (if gm_has_lcf model then Inl (Fatal ''trim_hotspot_vector_grid called with lcf file'') else
     rbind (for_up 0 (min at_i (total_nodes model)) (\<lambda>i dst. rbind (rd src i) (wr dst i)) dst) (\<lambda>dst.
     for_up (at_i + sz) (total_nodes model) (\<lambda>i dst. rbind (rd src i) (wr dst (i - sz))) dst))"

definition resize_thermal_model_grid :: "flp_store \<Rightarrow> grid_model_t \<Rightarrow> nat \<Rightarrow> grid_model_t res" where
  "resize_thermal_model_grid fs model n =
    (if gm_has_lcf model then Inl (Fatal ''resize_thermal_model_grid called with lcf file'')
     else if n > gm_base_n_units model then Inl (Fatal ''resizing grid model to more than the allocated space'')
     else rbind (count_blocks fs model) (\<lambda>nb. Inr (model\<lparr>gm_total_n_blocks := nb\<rparr>)))"

definition set_temp_grid :: "grid_model_t \<Rightarrow> real list \<Rightarrow> real \<Rightarrow> real list res" where
  "set_temp_grid model temp val =
    (if gm_total_n_blocks model = 0 then Inl (Fatal ''total_n_blocks is not greater than zero'')
     else for_up 0 (total_nodes model) (\<lambda>i temp. wr temp i val) temp)"

definition copy_temp_grid :: "grid_model_t \<Rightarrow> real list \<Rightarrow> real list \<Rightarrow> real list res" where
  "copy_temp_grid model dst src = copy_dvector dst src (total_nodes model)"

definition sil_layer :: "grid_model_t \<Rightarrow> nat" where
  "sil_layer model =
    (if model_secondary (gm_config model) = 0 then LAYER_SI
     else if gm_has_lcf model then SEC_PACK_LAYERS else SEC_PACK_LAYERS + SEC_CHIP_LAYERS)"

definition find_max_temp_grid :: "flp_store \<Rightarrow> grid_model_t \<Rightarrow> real list \<Rightarrow> real res" where
  "find_max_temp_grid fs model temp = rbind (rd (gm_layers model) (sil_layer model)) (\<lambda>l.
     for_up 0 (n_units (fs (ly_flp l))) (\<lambda>i mx. rbind (rd temp i) (\<lambda>x.
       if x < 0 then Inl (Fatal ''negative temperature!'') else Inr (if mx < x then x else mx))) 0)"

definition find_avg_temp_grid :: "flp_store \<Rightarrow> grid_model_t \<Rightarrow> real list \<Rightarrow> real res" where
  "find_avg_temp_grid fs model temp =
     rbind (for_up 0 (gm_n_layers model) (\<lambda>n (base, cnt, s). rbind (rd (gm_layers model) n) (\<lambda>l.
       let nu = n_units (fs (ly_flp l)) in
       if ly_has_power l then
         rbind (for_up 0 nu (\<lambda>i s. rbind (rd temp (base + i)) (\<lambda>x.
           if x < 0 then Inl (Fatal ''negative temperature!'') else Inr (s + x))) s) (\<lambda>s. Inr (base + nu, cnt + nu, s))
       else Inr (base + nu, cnt, s))) (0, 0, 0)) (\<lambda>(base, cnt, s).
     if cnt = 0 then Inl (Fatal ''no power dissipating units?!'') else fdiv s (real cnt))"

definition grid_sink_part :: "nat \<Rightarrow> real list \<Rightarrow> nat \<Rightarrow> nat \<Rightarrow> real \<Rightarrow> real \<Rightarrow> real res" where
  "grid_sink_part base temp lo hi wt s = for_up lo (hi + 1) (\<lambda>i s. rbind (rd temp (i + base)) (\<lambda>x.
     if x < 0 then Inl (Fatal ''negative temperature!'') else Inr (s + x * wt))) s"

definition calc_sink_temp_grid :: "flp_store \<Rightarrow> grid_model_t \<Rightarrow> real list \<Rightarrow> thermal_config_t \<Rightarrow> real res" where
  "calc_sink_temp_grid fs model temp config =
    (let hsidx = gm_n_layers model - DEFAULT_PACK_LAYERS + LAYER_SINK; spr = s_spreader config;
         spr_size = spr * spr; sink_size = s_sink config * s_sink config; w = gm_width model; h = gm_height model in
     rbind (for_up 0 hsidx (\<lambda>n base. rbind (rd (gm_layers model) n) (\<lambda>l. Inr (base + n_units (fs (ly_flp l))))) 0) (\<lambda>base.
     rbind (rd (gm_layers model) hsidx) (\<lambda>l. let flp = fs (ly_flp l) in
     rbind (for_up base (base + n_units flp) (\<lambda>i s. rbind (rd temp i) (\<lambda>x. rbind (rd (units flp) (i - base)) (\<lambda>u.
       if x < 0 then Inl (Fatal ''negative temperature!'') else Inr (s + x * (width u * height u))))) 0) (\<lambda>s.
     let base = gm_total_n_blocks model in
     rbind (grid_sink_part base temp SINK_C_W SINK_C_E (1 / 4 * (spr + h) * (spr - w)) s) (\<lambda>s.
     rbind (grid_sink_part base temp SINK_C_N SINK_C_S (1 / 4 * (spr + w) * (spr - h)) s) (\<lambda>s.
     rbind (grid_sink_part base temp SINK_W SINK_S (1 / 4 * (sink_size - spr_size)) s) (\<lambda>s.
     fdiv s sink_size)))))))"

definition set_internal_power_grid :: "grid_model_t \<Rightarrow> real list \<Rightarrow> real list res" where
  "set_internal_power_grid model pw = zero_at pw (gm_total_n_blocks model) (extra_nodes (gm_config model))"

section \<open>Translation\<close>

definition b2g_cell :: "grid_model_t \<Rightarrow> flp_t \<Rightarrow> b2gmap_t \<Rightarrow> real list \<Rightarrow> nat \<Rightarrow> nat \<Rightarrow> real \<Rightarrow> nat \<Rightarrow> nat \<Rightarrow> nat \<Rightarrow>
    grid_model_vector_t \<Rightarrow> grid_model_vector_t res" where
  "b2g_cell model flp m b base ty cell_area n i j g =
    (if ty = V_POWER then
       rbind (cell_get m i j) (\<lambda>bs. rbind (blist_avg bs flp b base ty 0) (\<lambda>x. gv_set g n i j (x * cell_area)))
     else if ty = V_TEMP then
       rbind (cell_get m i j) (\<lambda>bs. rbind (blist_avg bs flp b base ty 0) (gv_set g n i j))
     else Inl (Fatal ''unknown vector type''))"

definition b2g_layer :: "flp_store \<Rightarrow> grid_model_t \<Rightarrow> real list \<Rightarrow> nat \<Rightarrow> real \<Rightarrow> nat \<Rightarrow>
    nat \<times> grid_model_vector_t \<Rightarrow> (nat \<times> grid_model_vector_t) res" where
  "b2g_layer fs model b ty cell_area n = (\<lambda>(base, g). rbind (rd (gm_layers model) n) (\<lambda>l. let flp = fs (ly_flp l) in
     rbind (for_up 0 (gm_rows model) (\<lambda>i g. for_up 0 (gm_cols model)
       (\<lambda>j. b2g_cell model flp (gm_b2g model (ly_b2gmap l)) b base ty cell_area n i j) g) g) (\<lambda>g.
     Inr (base + n_units flp, g))))"

definition xlate_vector_b2g :: "flp_store \<Rightarrow> grid_model_t \<Rightarrow> real list \<Rightarrow> grid_model_vector_t \<Rightarrow> nat \<Rightarrow> grid_model_vector_t res" where
  "xlate_vector_b2g fs model b g ty =
     rbind (fdiv (gm_width model * gm_height model) (real (gm_cols model * gm_rows model))) (\<lambda>cell_area.
     rbind (for_up 0 (gm_n_layers model) (b2g_layer fs model b ty cell_area) (0, g)) (\<lambda>(base, g).
     for_up 0 (extra_nodes (gm_config model)) (\<lambda>i g. rbind (rd b (base + i)) (gx_set g i)) g))"

text \<open>The temperature of the centre of a block, the mean of the cells next to it.\<close>

definition centre_temp :: "grid_model_vector_t \<Rightarrow> nat \<Rightarrow> glist_t \<Rightarrow> real res" where
  "centre_temp g n gl =
    (let ci1 = (gl_i1 gl + gl_i2 gl) div 2; cj1 = (gl_j1 gl + gl_j2 gl) div 2;
         ci2 = ci1 - (if even (gl_i2 gl - gl_i1 gl) then 1 else 0); cj2 = cj1 - (if even (gl_j2 gl - gl_j1 gl) then 1 else 0) in
     rbind (gv_get g n ci1 cj1) (\<lambda>a. rbind (gv_get g n ci2 cj1) (\<lambda>b. rbind (gv_get g n ci1 cj2) (\<lambda>c. rbind (gv_get g n ci2 cj2) (\<lambda>d.
     Inr ((a + b + c + d) / 4))))))"

text \<open>Least, greatest and sum of the temperatures of the cells of a block, and their number.\<close>

definition scan_block :: "grid_model_vector_t \<Rightarrow> nat \<Rightarrow> glist_t \<Rightarrow> (real \<times> real \<times> real \<times> nat) res" where
  "scan_block g n gl = rbind (gv_get g n (gl_i1 gl) (gl_j1 gl)) (\<lambda>x.
     for_up (gl_i1 gl) (gl_i2 gl) (\<lambda>i st. for_up (gl_j1 gl) (gl_j2 gl) (\<lambda>j (mn, mx, s, cnt).
       rbind (gv_get g n i j) (\<lambda>x. Inr (if x < mn then x else mn, if x > mx then x else mx, s + x, cnt + 1))) st) (x, x, 0, 0))"

definition block_temp :: "nat \<Rightarrow> grid_model_vector_t \<Rightarrow> nat \<Rightarrow> glist_t \<Rightarrow> real res" where
  "block_temp map_mode g n gl =
    (if map_mode = GRID_CENTER then centre_temp g n gl else
     rbind (scan_block g n gl) (\<lambda>(mn, mx, s, cnt).
     if map_mode = GRID_AVG then fdiv s (real cnt) else if map_mode = GRID_MIN then Inr mn
     else if map_mode = GRID_MAX then Inr mx else Inl (Fatal ''unknown mapping mode'')))"

definition g2b_layer :: "flp_store \<Rightarrow> grid_model_t \<Rightarrow> grid_model_vector_t \<Rightarrow> nat \<Rightarrow> nat \<times> real list \<Rightarrow> (nat \<times> real list) res" where
  "g2b_layer fs model g n = (\<lambda>(base, b). rbind (rd (gm_layers model) n) (\<lambda>l. let nu = n_units (fs (ly_flp l)) in
     rbind (for_up 0 nu (\<lambda>u b. rbind (rd (gm_g2b model (ly_g2bmap l)) u) (\<lambda>gl. rbind (block_temp (gm_map_mode model) g n gl) (\<lambda>x.
       wr b (base + u) x))) b) (\<lambda>b.
     Inr (base + nu, b))))"

definition xlate_temp_g2b :: "flp_store \<Rightarrow> grid_model_t \<Rightarrow> real list \<Rightarrow> grid_model_vector_t \<Rightarrow> real list res" where
  "xlate_temp_g2b fs model b g =
     rbind (for_up 0 (gm_n_layers model) (g2b_layer fs model g) (0, b)) (\<lambda>(base, b).
     for_up 0 (extra_nodes (gm_config model)) (\<lambda>i b. rbind (gx_get g i) (wr b (base + i))) b)"

section \<open>Multigrid\<close>

text \<open>\<open>copy_dvector\<close> of the extra nodes of two vectors.\<close>

definition copy_extra :: "grid_model_t \<Rightarrow> grid_model_vector_t \<Rightarrow> grid_model_vector_t \<Rightarrow> grid_model_vector_t res" where
  "copy_extra model dst src = for_up 0 (extra_nodes (gm_config model)) (\<lambda>i dst. rbind (gx_get src i) (gx_set dst i)) dst"

definition multigrid_restrict_power :: "grid_model_t \<Rightarrow> grid_model_vector_t \<Rightarrow> grid_model_vector_t \<Rightarrow> grid_model_vector_t res" where
  "multigrid_restrict_power model dst src =
     rbind (for_up 0 (gm_n_layers model) (\<lambda>n dst. for_up 0 (gm_rows model) (\<lambda>i dst. for_up 0 (gm_cols model) (\<lambda>j dst.
       rbind (gv_get src n (2 * i) (2 * j)) (\<lambda>a. rbind (gv_get src n (2 * i + 1) (2 * j)) (\<lambda>b.
       rbind (gv_get src n (2 * i) (2 * j + 1)) (\<lambda>c. rbind (gv_get src n (2 * i + 1) (2 * j + 1)) (\<lambda>d.
       gv_set dst n i j (a + b + c + d)))))) dst) dst) dst) (\<lambda>dst.
     copy_extra model dst src)"

text \<open>The bilinear interpolation between four neighbours of the coarse grid.\<close>

definition prolong_inner :: "grid_model_vector_t \<Rightarrow> nat \<Rightarrow> nat \<Rightarrow> nat \<Rightarrow> grid_model_vector_t \<Rightarrow> grid_model_vector_t res" where
  "prolong_inner s n i j d =
     rbind (gv_get s n i j) (\<lambda>p. rbind (gv_get s n (i + 1) j) (\<lambda>q. rbind (gv_get s n (i + 1) (j + 1)) (\<lambda>r. rbind (gv_get s n i (j + 1)) (\<lambda>t.
     rbind (gv_set d n (2 * i + 1) (2 * j + 1) (9 / 16 * p + 3 / 16 * q + 1 / 16 * r + 3 / 16 * t)) (\<lambda>d.
     rbind (gv_set d n (2 * i + 2) (2 * j + 1) (3 / 16 * p + 9 / 16 * q + 3 / 16 * r + 1 / 16 * t)) (\<lambda>d.
     rbind (gv_set d n (2 * i + 2) (2 * j + 2) (1 / 16 * p + 3 / 16 * q + 9 / 16 * r + 3 / 16 * t)) (\<lambda>d.
     gv_set d n (2 * i + 1) (2 * j + 2) (3 / 16 * p + 1 / 16 * q + 3 / 16 * r + 9 / 16 * t))))))))"

text \<open>The value of a boundary cell of the coarse grid, for two cells of the fine grid.\<close>

definition prolong_pair :: "grid_model_vector_t \<Rightarrow> nat \<Rightarrow> nat \<Rightarrow> nat \<Rightarrow> nat \<Rightarrow> nat \<Rightarrow> nat \<Rightarrow> nat \<Rightarrow>
    grid_model_vector_t \<Rightarrow> grid_model_vector_t res" where
  "prolong_pair s n i j i1 j1 i2 j2 d = rbind (gv_get s n i j) (\<lambda>x. rbind (gv_set d n i2 j2 x) (\<lambda>d. gv_set d n i1 j1 x))"

definition prolong_border :: "nat \<Rightarrow> nat \<Rightarrow> grid_model_vector_t \<Rightarrow> nat \<Rightarrow> grid_model_vector_t \<Rightarrow> grid_model_vector_t res" where
  "prolong_border nr nc s n d =
     rbind (for_up 0 nr (\<lambda>i. in_order [prolong_pair s n i 0 (2 * i) 0 (2 * i + 1) 0,
       prolong_pair s n i (nc - 1) (2 * i) (2 * nc - 1) (2 * i + 1) (2 * nc - 1)]) d) (\<lambda>d.
     for_up 0 nc (\<lambda>j. in_order [prolong_pair s n 0 j 0 (2 * j) 0 (2 * j + 1),
       prolong_pair s n (nr - 1) j (2 * nr - 1) (2 * j) (2 * nr - 1) (2 * j + 1)]) d)"

definition multigrid_prolong_temp :: "grid_model_t \<Rightarrow> grid_model_vector_t \<Rightarrow> grid_model_vector_t \<Rightarrow> grid_model_vector_t res" where
  "multigrid_prolong_temp model dst src =
    (let nr = gm_rows model; nc = gm_cols model in
     rbind (for_up 0 (gm_n_layers model) (\<lambda>n d. for_up 0 (nr - 1) (\<lambda>i d. for_up 0 (nc - 1) (\<lambda>j. prolong_inner src n i j) d) d) dst) (\<lambda>d.
     rbind (for_up 0 (gm_n_layers model) (prolong_border nr nc src) d) (\<lambda>d.
     copy_extra model d src)))"

section \<open>Initial temperatures\<close>

text \<open>\<open>scaleadd_dvector\<close> of the cells of a layer and a matrix, both of \<open>nr * nc\<close> cells.\<close>

definition layer_cells :: "grid_model_vector_t \<Rightarrow> nat \<Rightarrow> nat \<Rightarrow> real list res" where
  "layer_cells v n k = (let p = dcuboid_row (gv_rows v) (gv_cols v) n 0 in
     if n < gv_layers v \<and> p + k \<le> length (gv_data v) then Inr (take k (drop p (gv_data v))) else Inl OutOfBounds)"

definition add_layer :: "real list \<Rightarrow> grid_model_vector_t \<Rightarrow> nat \<Rightarrow> nat \<Rightarrow> real \<Rightarrow> real list res" where
  "add_layer sm v n k scale = rbind (layer_cells v n k) (\<lambda>xs. scaleadd_dvector sm sm xs k scale)"

definition put_layer :: "grid_model_vector_t \<Rightarrow> nat \<Rightarrow> nat \<Rightarrow> (nat \<Rightarrow> real res) \<Rightarrow> grid_model_vector_t res" where
  "put_layer v n k f = for_up 0 k (\<lambda>i v. rbind (f i) (\<lambda>x. rbind (wr (gv_data v) (dcuboid_row (gv_rows v) (gv_cols v) n 0 + i) x) (\<lambda>d.
     Inr (v\<lparr>gv_data := d\<rparr>)))) v"

definition set_heuristic_temp :: "grid_model_t \<Rightarrow> grid_model_vector_t \<Rightarrow> grid_model_vector_t \<Rightarrow> grid_model_vector_t res" where
  "set_heuristic_temp model pw temp =
    (let nl = gm_n_layers model; k = gm_rows model * gm_cols model; amb = ambient (gm_config model) in
     rbind (for_up 0 (extra_nodes (gm_config model)) (\<lambda>i temp. gx_set temp i amb) temp) (\<lambda>temp.
     rbind (for_up 0 nl (\<lambda>n sm. add_layer sm pw n k 1) (replicate k 0)) (\<lambda>sm.
     if nl = 0 then Inl OutOfBounds else
     rbind (rd (gm_layers model) (nl - 1)) (\<lambda>l.
     rbind (put_layer temp (nl - 1) k (\<lambda>i. rbind (rd sm i) (\<lambda>x. Inr (amb + x * ly_rz l)))) (\<lambda>temp.
     rbind (add_layer sm pw (nl - 1) k (-1)) (\<lambda>sm.
     rbind (for_down (nl - 1) (\<lambda>n (temp, sm). rbind (rd (gm_layers model) n) (\<lambda>l.
       rbind (layer_cells temp (n + 1) k) (\<lambda>above.
       rbind (put_layer temp n k (\<lambda>i. rbind (rd above i) (\<lambda>a. rbind (rd sm i) (\<lambda>x. Inr (a + ly_rz l * x))))) (\<lambda>temp.
       rbind (add_layer sm pw n k (-1)) (\<lambda>sm. Inr (temp, sm)))))) (temp, sm)) (\<lambda>(temp, sm).
     Inr temp)))))))"

end
