(* ===== verification/Grid_Cover.thy ===== *)
theory Grid_Cover
  imports Grid_Ops
begin

text \<open>
  How much of a cell an interval or a block covers. Boundaries that are within the tolerance of
  a cell boundary are taken to lie on it; where none is, the occupancies are exact.
\<close>

section \<open>Intervals\<close>

text \<open>In units of a cell: the part of the cell \<open>[k, k + 1]\<close> that \<open>[a, b]\<close> covers.\<close>

definition overlap :: "real \<Rightarrow> real \<Rightarrow> nat \<Rightarrow> real" where
  "overlap a b k = max 0 (min b (real k + 1) - max a (real k))"

lemma overlap_telescopes:
  assumes "a \<le> b"
  shows "overlap a b k = max a (min b (real (Suc k))) - max a (min b (real k))"
  using assms by (auto simp: overlap_def min_def max_def)

lemma sum_overlap:
  assumes "0 \<le> a" "a \<le> b" "b \<le> real n"
  shows "(\<Sum>k < n. overlap a b k) = b - a"
proof -
  have "(\<Sum>k < n. overlap a b k) = (\<Sum>k < n. max a (min b (real (Suc k))) - max a (min b (real k)))"
    using overlap_telescopes [OF assms(2)] by simp
  also have "\<dots> = max a (min b (real n)) - max a (min b (real 0))" by (rule sum_lessThan_telescope)
  finally show ?thesis using assms by simp
qed

lemma overlap_not_neg [simp]: "0 \<le> overlap a b k"
  by (simp add: overlap_def)

text \<open>A boundary that the tolerance does not move.\<close>

definition exact :: "real \<Rightarrow> bool" where
  "exact x \<longleftrightarrow> (\<forall>k::int. eq x (of_int k) \<longrightarrow> x = of_int k)"

lemma exact_round:
  assumes "exact x"
  shows "tolerant_ceil x = \<lceil>x\<rceil>" "tolerant_floor x = \<lfloor>x\<rfloor>"
proof -
  have "eq x (of_int \<lfloor>x + 1 / 2\<rfloor>) \<Longrightarrow> x = of_int \<lfloor>x + 1 / 2\<rfloor>" using assms by (simp add: exact_def)
  then show "tolerant_ceil x = \<lceil>x\<rceil>" "tolerant_floor x = \<lfloor>x\<rfloor>"
    unfolding tolerant_ceil_def tolerant_floor_def Let_def by (metis ceiling_of_int, metis floor_of_int)
qed

lemma exact_of_nat [simp]: "exact (real k)"
  unfolding exact_def
proof (intro allI impI)
  fix z assume "eq (real k) (of_int z)"
  then have "\<bar>of_int (int k - z)\<bar> < (1::real)" by (simp add: eq_def DELTA_def)
  then have "int k - z = 0" by linarith
  then show "real k = of_int z" by simp
qed

lemma not_eq_far: "\<not> eq x y \<Longrightarrow> x + DELTA \<le> y \<or> y + DELTA \<le> x"
  by (auto simp: eq_def abs_if split: if_splits)

lemma exact_far: "exact x \<Longrightarrow> x \<noteq> of_int k \<Longrightarrow> x + DELTA \<le> of_int k \<or> of_int k + DELTA \<le> x"
  using not_eq_far [of x "of_int k"] by (auto simp: exact_def)

text \<open>The part of a cell in an extent is positive, and within the tolerance of a cell only if it is one.\<close>

lemma covered_part:
  assumes "exact a" "exact b" "DELTA \<le> b - a" "\<lfloor>a\<rfloor> \<le> k" "k < \<lceil>b\<rceil>"
  defines "q \<equiv> min b (of_int k + 1) - max a (of_int k)"
  shows "0 < q" "\<not> eq q 0" "eq q 1 \<Longrightarrow> q = 1"
proof -
  have a: "a < of_int k + 1" and b: "of_int k < b" using assms(4,5) by linarith+
  have d: "0 < DELTA" "DELTA < 1" by (simp_all add: DELTA_def)
  have a1: "a \<le> of_int k + 1 - DELTA" using exact_far [OF assms(1), of "k + 1"] a d by auto
  have b1: "of_int k + DELTA \<le> b" using exact_far [OF assms(2), of k] b d by auto
  have a2: "a \<le> of_int k \<or> of_int k + DELTA \<le> a"
    using exact_far [OF assms(1), of k] d by (cases "a = of_int k") auto
  have b2: "of_int k + 1 \<le> b \<or> b \<le> of_int k + 1 - DELTA"
    using exact_far [OF assms(2), of "k + 1"] d by (cases "b = of_int k + 1") auto
  have q: "DELTA \<le> q" using a1 b1 assms(3) d by (auto simp: q_def min_def max_def)
  then show pos: "0 < q" using d(1) by linarith
  show "\<not> eq q 0" using q pos unfolding eq_def by simp
  assume "eq q 1"
  then have "1 - DELTA < q" by (auto simp: eq_def)
  then show "q = 1" using a2 b2 unfolding q_def min_def max_def by (auto split: if_splits)
qed

lemma overlap_in:
  assumes "\<lfloor>a\<rfloor> \<le> int k" "int k < \<lceil>b\<rceil>" "a \<le> b"
  shows "overlap a b k = min b (real k + 1) - max a (real k)"
proof -
  have "a < real k + 1" "real k < b" using assms by linarith+
  then show ?thesis using assms(3) by (auto simp: overlap_def min_def max_def)
qed

lemma overlap_out:
  assumes "int k < \<lfloor>a\<rfloor> \<or> \<lceil>b\<rceil> \<le> int k"
  shows "overlap a b k = 0"
proof -
  have "real k + 1 \<le> a \<or> b \<le> real k" using assms by linarith
  then show ?thesis by (auto simp: overlap_def min_def max_def)
qed

lemma overlap_inner:
  assumes "\<lfloor>a\<rfloor> < int k" "int k + 1 < \<lceil>b\<rceil>"
  shows "overlap a b k = 1"
proof -
  have "a \<le> real k" "real k + 1 \<le> b" using assms by linarith+
  then show ?thesis by (auto simp: overlap_def min_def max_def)
qed

text \<open>The tolerance leaves an exact part of a cell as it is.\<close>

lemma snap_exact:
  assumes "0 < c" "\<not> eq q 0" "eq q 1 \<Longrightarrow> q = 1"
  shows "snap (q * c) c = Inr (q * c)"
  using assms by (auto simp: snap_def)

section \<open>Blocks\<close>

text \<open>The boundaries of a block in units of a cell, rows counted from below.\<close>

definition x_lo :: "real \<Rightarrow> unit_t \<Rightarrow> real" where "x_lo cw un = leftx un / cw"
definition x_hi :: "real \<Rightarrow> unit_t \<Rightarrow> real" where "x_hi cw un = (leftx un + width un) / cw"
definition y_lo :: "real \<Rightarrow> unit_t \<Rightarrow> real" where "y_lo ch un = bottomy un / ch"
definition y_hi :: "real \<Rightarrow> unit_t \<Rightarrow> real" where "y_hi ch un = (bottomy un + height un) / ch"

definition on_grid :: "nat \<Rightarrow> nat \<Rightarrow> real \<Rightarrow> real \<Rightarrow> unit_t \<Rightarrow> bool" where
  "on_grid rows cols cw ch un \<longleftrightarrow> exact (x_lo cw un) \<and> exact (x_hi cw un) \<and> exact (y_lo ch un) \<and> exact (y_hi ch un) \<and>
     DELTA \<le> width un / cw \<and> DELTA \<le> height un / ch \<and> 0 \<le> x_lo cw un \<and> x_hi cw un \<le> real cols \<and>
     0 \<le> y_lo ch un \<and> y_hi ch un \<le> real rows"

definition cover :: "nat \<Rightarrow> real \<Rightarrow> real \<Rightarrow> unit_t \<Rightarrow> nat \<Rightarrow> nat \<Rightarrow> real" where
  "cover rows cw ch un i j = overlap (y_lo ch un) (y_hi ch un) (rows - 1 - i) * overlap (x_lo cw un) (x_hi cw un) j"

definition extent :: "nat \<Rightarrow> real \<Rightarrow> real \<Rightarrow> unit_t \<Rightarrow> glist_t" where
  "extent rows cw ch un = \<lparr>gl_i1 = nat (int rows - \<lceil>y_hi ch un\<rceil>), gl_i2 = nat (int rows - \<lfloor>y_lo ch un\<rfloor>),
     gl_j1 = nat \<lfloor>x_lo cw un\<rfloor>, gl_j2 = nat \<lceil>x_hi cw un\<rceil>\<rparr>"

lemma on_gridD:
  assumes "on_grid rows cols cw ch un" "0 < cw" "0 < ch"
  shows "exact (x_lo cw un)" "exact (x_hi cw un)" "exact (y_lo ch un)" "exact (y_hi ch un)"
    "DELTA \<le> x_hi cw un - x_lo cw un" "DELTA \<le> y_hi ch un - y_lo ch un" "x_lo cw un < x_hi cw un" "y_lo ch un < y_hi ch un"
    "0 \<le> \<lfloor>x_lo cw un\<rfloor>" "\<lceil>x_hi cw un\<rceil> \<le> int cols" "0 \<le> \<lfloor>y_lo ch un\<rfloor>" "\<lceil>y_hi ch un\<rceil> \<le> int rows"
    "\<lfloor>x_lo cw un\<rfloor> < \<lceil>x_hi cw un\<rceil>" "\<lfloor>y_lo ch un\<rfloor> < \<lceil>y_hi ch un\<rceil>"
proof -
  note g = assms(1) [unfolded on_grid_def]
  show "exact (x_lo cw un)" "exact (x_hi cw un)" "exact (y_lo ch un)" "exact (y_hi ch un)" using g by blast+
  show d: "DELTA \<le> x_hi cw un - x_lo cw un" "DELTA \<le> y_hi ch un - y_lo ch un"
    using g by (simp_all add: x_hi_def x_lo_def y_hi_def y_lo_def add_divide_distrib)
  then show l: "x_lo cw un < x_hi cw un" "y_lo ch un < y_hi ch un" using DELTA_pos by linarith+
  show "0 \<le> \<lfloor>x_lo cw un\<rfloor>" "\<lceil>x_hi cw un\<rceil> \<le> int cols" "0 \<le> \<lfloor>y_lo ch un\<rfloor>" "\<lceil>y_hi ch un\<rceil> \<le> int rows"
    using g by (simp_all add: ceiling_le_iff)
  show "\<lfloor>x_lo cw un\<rfloor> < \<lceil>x_hi cw un\<rceil>" "\<lfloor>y_lo ch un\<rfloor> < \<lceil>y_hi ch un\<rceil>" using l by linarith+
qed

lemma unit_extent_ok:
  assumes "on_grid rows cols cw ch un" "0 < cw" "0 < ch"
  shows "unit_extent rows cols cw ch un = Inr (extent rows cw ch un)"
    "gl_i1 (extent rows cw ch un) < gl_i2 (extent rows cw ch un)" "gl_i2 (extent rows cw ch un) \<le> rows"
    "gl_j1 (extent rows cw ch un) < gl_j2 (extent rows cw ch un)" "gl_j2 (extent rows cw ch un) \<le> cols"
proof -
  note g = on_gridD [OF assms]
  have "fdiv (bottomy un + height un) ch = Inr (y_hi ch un)" "fdiv (bottomy un) ch = Inr (y_lo ch un)"
    "fdiv (leftx un) cw = Inr (x_lo cw un)" "fdiv (leftx un + width un) cw = Inr (x_hi cw un)"
    using assms(2,3) by (simp_all add: x_lo_def x_hi_def y_lo_def y_hi_def)
  then show "unit_extent rows cols cw ch un = Inr (extent rows cw ch un)"
    using g by (simp add: unit_extent_def Let_def exact_round extent_def)
  have A: "nat (int n - c) < nat (int n - f) \<and> nat (int n - f) \<le> n \<and> nat f < nat c \<and> nat c \<le> n"
    if "0 \<le> f" "f < c" "c \<le> int n" for f c n using that by auto
  show "gl_i1 (extent rows cw ch un) < gl_i2 (extent rows cw ch un)" "gl_i2 (extent rows cw ch un) \<le> rows"
    "gl_j1 (extent rows cw ch un) < gl_j2 (extent rows cw ch un)" "gl_j2 (extent rows cw ch un) \<le> cols"
    using A [OF g(11,14,12)] A [OF g(9,13,10)] by (simp_all only: extent_def glist_t.select_convs)
qed

definition in_extent :: "glist_t \<Rightarrow> nat \<Rightarrow> nat \<Rightarrow> bool" where
  "in_extent g i j \<longleftrightarrow> gl_i1 g \<le> i \<and> i < gl_i2 g \<and> gl_j1 g \<le> j \<and> j < gl_j2 g"

lemma in_extent_iff:
  assumes "on_grid rows cols cw ch un" "0 < cw" "0 < ch" "i < rows"
  shows "in_extent (extent rows cw ch un) i j \<longleftrightarrow> \<lfloor>y_lo ch un\<rfloor> \<le> int (rows - 1 - i) \<and> int (rows - 1 - i) < \<lceil>y_hi ch un\<rceil> \<and>
    \<lfloor>x_lo cw un\<rfloor> \<le> int j \<and> int j < \<lceil>x_hi cw un\<rceil>"
  using on_gridD [OF assms(1-3)] assms(4) by (auto simp: in_extent_def extent_def nat_le_iff zless_nat_eq_int_zless)

lemma cover_outside:
  assumes "on_grid rows cols cw ch un" "0 < cw" "0 < ch" "i < rows" "\<not> in_extent (extent rows cw ch un) i j"
  shows "cover rows cw ch un i j = 0"
  using assms(5) overlap_out [of "rows - 1 - i" "y_lo ch un" "y_hi ch un"] overlap_out [of j "x_lo cw un" "x_hi cw un"]
  unfolding in_extent_iff [OF assms(1-4)] cover_def by fastforce

lemma cover_inner:
  assumes "on_grid rows cols cw ch un" "0 < cw" "0 < ch" "i < rows" "g = extent rows cw ch un"
    and "gl_i1 g < i" "i + 1 < gl_i2 g" "gl_j1 g < j" "j + 1 < gl_j2 g"
  shows "cover rows cw ch un i j = 1"
proof -
  note o = on_gridD [OF assms(1-3)]
  have "\<lfloor>y_lo ch un\<rfloor> < int (rows - 1 - i)" "int (rows - 1 - i) + 1 < \<lceil>y_hi ch un\<rceil>" "\<lfloor>x_lo cw un\<rfloor> < int j" "int j + 1 < \<lceil>x_hi cw un\<rceil>"
    using assms(4-9) o by (auto simp: extent_def)
  then show ?thesis by (simp add: cover_def overlap_inner)
qed

lemma cell_occupancy_ok:
  assumes "on_grid rows cols cw ch un" "0 < cw" "0 < ch" "i < rows" "in_extent (extent rows cw ch un) i j" "h = real rows * ch"
  shows "cell_occupancy h cw ch un i j = Inr (cover rows cw ch un i j)"
proof -
  note g = on_gridD [OF assms(1-3)]
  have e: "\<lfloor>y_lo ch un\<rfloor> \<le> int (rows - 1 - i)" "int (rows - 1 - i) < \<lceil>y_hi ch un\<rceil>" "\<lfloor>x_lo cw un\<rfloor> \<le> int j" "int j < \<lceil>x_hi cw un\<rceil>"
    using assms(5) unfolding in_extent_iff [OF assms(1-4)] by blast+
  let ?k = "rows - 1 - i"
  let ?oy = "overlap (y_lo ch un) (y_hi ch un) ?k" and ?ox = "overlap (x_lo cw un) (x_hi cw un) j"
  have k: "real ?k + 1 = real rows - real i" using assms(4) by (simp add: of_nat_diff)
  have yq: "?oy = min (y_hi ch un) (real ?k + 1) - max (y_lo ch un) (real ?k)" by (rule overlap_in) (use e g in auto)
  have xq: "?ox = min (x_hi cw un) (real j + 1) - max (x_lo cw un) (real j)" by (rule overlap_in) (use e g in auto)
  have mn: "MINd (a * c) (b * c) = min a b * c" "MAXd (a * c) (b * c) = max a b * c" if "0 < c" for a b c
    using that by (auto simp: MINd_def MAXd_def min_def max_def)
  have "bottomy un + height un = y_hi ch un * ch" "bottomy un = y_lo ch un * ch" "leftx un + width un = x_hi cw un * cw"
    "leftx un = x_lo cw un * cw" using assms(2,3) by (simp_all add: x_lo_def x_hi_def y_lo_def y_hi_def)
  moreover have "h - real i * ch = (real ?k + 1) * ch" "h - real (i + 1) * ch = real ?k * ch"
    unfolding assms(6) k using k by (simp_all add: algebra_simps)
  moreover have "real (j + 1) * cw = (real j + 1) * cw" by simp
  ultimately have eqs: "MINd (bottomy un + height un) (h - real i * ch) - MAXd (bottomy un) (h - real (i + 1) * ch) = ?oy * ch"
    "MINd (leftx un + width un) (real (j + 1) * cw) - MAXd (leftx un) (real j * cw) = ?ox * cw"
    using assms(2,3) by (simp_all only: mn yq xq left_diff_distrib)
  have y: "0 < ?oy" "\<not> eq ?oy 0" "eq ?oy 1 \<Longrightarrow> ?oy = 1"
    using covered_part [OF g(3,4,6) e(1,2)] unfolding yq of_int_of_nat_eq by blast+
  have x: "0 < ?ox" "\<not> eq ?ox 0" "eq ?ox 1 \<Longrightarrow> ?ox = 1"
    using covered_part [OF g(1,2,5) e(3,4)] unfolding xq of_int_of_nat_eq by blast+
  have "?oy * ch * (?ox * cw) / (ch * cw) = ?oy * ?ox" using assms(2,3) by simp
  moreover have "\<not> (?oy * ch < 0 \<or> ?ox * cw < 0)" using x(1) y(1) assms(2,3) by (simp add: mult_less_0_iff)
  moreover have "fdiv (?oy * ch * (?ox * cw)) (ch * cw) = Inr (?oy * ch * (?ox * cw) / (ch * cw))" using assms(2,3) by simp
  moreover have "snap (?oy * ch) ch = Inr (?oy * ch)" using assms(3) y(2,3) by (rule snap_exact)
  moreover have "snap (?ox * cw) cw = Inr (?ox * cw)" using assms(2) x(2,3) by (rule snap_exact)
  ultimately show ?thesis
    unfolding cell_occupancy_def Let_def eqs cover_def by simp
qed

text \<open>All parts of a block together are the block.\<close>

lemma sum_cover:
  assumes "on_grid rows cols cw ch un" "0 < cw" "0 < ch"
  shows "(\<Sum>i < rows. \<Sum>j < cols. cover rows cw ch un i j) = height un / ch * (width un / cw)"
proof -
  note g = on_gridD [OF assms] and o = assms(1) [unfolded on_grid_def]
  have y: "(\<Sum>i < rows. overlap (y_lo ch un) (y_hi ch un) (rows - 1 - i)) = height un / ch"
  proof -
    have "(\<Sum>i < rows. overlap (y_lo ch un) (y_hi ch un) (rows - 1 - i)) = (\<Sum>k < rows. overlap (y_lo ch un) (y_hi ch un) k)"
      using sum.nat_diff_reindex [of "overlap (y_lo ch un) (y_hi ch un)" rows] by simp
    then show ?thesis
      using sum_overlap [of "y_lo ch un" "y_hi ch un" rows] o g(8) by (simp add: y_hi_def y_lo_def add_divide_distrib)
  qed
  have x: "(\<Sum>j < cols. overlap (x_lo cw un) (x_hi cw un) j) = width un / cw"
    using sum_overlap [of "x_lo cw un" "x_hi cw un" cols] o g(7) by (simp add: x_hi_def x_lo_def add_divide_distrib)
  show ?thesis unfolding cover_def sum_product [symmetric] x y by (rule refl)
qed

lemma overlap_le: "a \<le> b \<Longrightarrow> overlap a b k \<le> 1"
  by (auto simp: overlap_def min_def max_def)

lemma cover_range:
  assumes "on_grid rows cols cw ch un" "0 < cw" "0 < ch" "i < rows" "in_extent (extent rows cw ch un) i j"
  shows "0 < cover rows cw ch un i j" "cover rows cw ch un i j \<le> 1"
proof -
  note g = on_gridD [OF assms(1-3)]
  have e: "\<lfloor>y_lo ch un\<rfloor> \<le> int (rows - 1 - i)" "int (rows - 1 - i) < \<lceil>y_hi ch un\<rceil>" "\<lfloor>x_lo cw un\<rfloor> \<le> int j" "int j < \<lceil>x_hi cw un\<rceil>"
    using assms(5) unfolding in_extent_iff [OF assms(1-4)] by blast+
  have "0 < overlap (y_lo ch un) (y_hi ch un) (rows - 1 - i)"
    unfolding overlap_in [OF e(1,2) less_imp_le [OF g(8)]] using covered_part(1) [OF g(3,4,6) e(1,2)] by simp
  moreover have "0 < overlap (x_lo cw un) (x_hi cw un) j"
    unfolding overlap_in [OF e(3,4) less_imp_le [OF g(7)]] using covered_part(1) [OF g(1,2,5) e(3,4)] by simp
  ultimately show "0 < cover rows cw ch un i j" "cover rows cw ch un i j \<le> 1"
    using overlap_le [OF less_imp_le [OF g(8)]] overlap_le [OF less_imp_le [OF g(7)]] by (simp_all add: cover_def mult_le_one less_imp_le)
qed

end
