(* ===== verification/Grid_Map_Ok.thy ===== *)
theory Grid_Map_Ok
  imports Grid_Cover
begin

text \<open>
  The maps that \<open>set_bgmap\<close> makes: the cell in row \<open>i\<close> and column \<open>j\<close> lists the blocks that
  extend over it, in the order of the floorplan, each with the part of the cell it covers.
\<close>

section \<open>Cells\<close>

definition map_ok :: "nat \<Rightarrow> nat \<Rightarrow> b2gmap_t \<Rightarrow> bool" where
  "map_ok rows cols m \<longleftrightarrow> length m = rows \<and> (\<forall>row \<in> set m. length row = cols)"

definition m_at :: "b2gmap_t \<Rightarrow> nat \<Rightarrow> nat \<Rightarrow> blist_t list" where
  "m_at m i j = m ! i ! j"

definition entries :: "blist_t list \<Rightarrow> (nat \<times> real) list" where
  "entries bs = List.map (\<lambda>b. (bl_idx b, occupancy b)) bs"

lemma entries_simps [simp]:
  "entries [] = []" "entries (xs @ ys) = entries xs @ entries ys" "entries (b # bs) = (bl_idx b, occupancy b) # entries bs"
  "entries bs = [] \<longleftrightarrow> bs = []"
  by (auto simp: entries_def)

lemma cell_get_ok: "map_ok rows cols m \<Longrightarrow> i < rows \<Longrightarrow> j < cols \<Longrightarrow> cell_get m i j = Inr (m_at m i j)"
  by (simp add: map_ok_def cell_get_def m_at_def)

lemma cell_put_ok:
  assumes "map_ok rows cols m" "i < rows" "j < cols"
  shows "\<exists>m'. cell_put m i j x = Inr m' \<and> map_ok rows cols m' \<and>
    (\<forall>k l. k < rows \<and> l < cols \<longrightarrow> m_at m' k l = (if k = i \<and> l = j then x else m_at m k l))"
proof -
  have l: "length m = rows" "length (m ! k) = cols" if "k < rows" for k using assms(1) that by (auto simp: map_ok_def)
  have "length row = cols" if "row \<in> set (m[i := (m ! i)[j := x]])" for row
    using that assms l(2) [OF assms(2)] unfolding map_ok_def
    by (metis in_set_conv_nth length_list_update nth_list_update_eq nth_list_update_neq nth_mem)
  moreover have "m[i := (m ! i)[j := x]] ! k ! q = (if k = i \<and> q = j then x else m ! k ! q)" if "k < rows" "q < cols" for k q
    using that l assms by (auto simp: nth_list_update)
  ultimately show ?thesis
    using l assms by (intro exI [of _ "m[i := (m ! i)[j := x]]"]) (simp add: cell_put_def map_ok_def m_at_def)
qed

lemma new_b2gmap_ok: "map_ok rows cols (new_b2gmap rows cols)"
  by (simp add: map_ok_def new_b2gmap_def)

lemma reset_b2gmap_ok:
  assumes "map_ok rows cols m"
  shows "\<exists>m'. reset_b2gmap rows cols m = Inr m' \<and> map_ok rows cols m' \<and> (\<forall>i j. i < rows \<and> j < cols \<longrightarrow> m_at m' i j = [])"
proof -
  have "\<exists>t. for_up 0 rows (\<lambda>i. for_up 0 cols (\<lambda>j m. cell_put m i j [])) m = Inr t \<and> map_ok rows cols t \<and>
    (\<forall>k l. k < rows \<and> l < cols \<longrightarrow> m_at t k l = (if in_rect 0 rows 0 cols k l then [] else m_at m k l))"
    by (rule mesh_rule) (use assms cell_put_ok in \<open>auto simp: in_rect_def\<close>)
  then show ?thesis unfolding reset_b2gmap_def by (auto simp: in_rect_def)
qed

section \<open>Entering blocks\<close>

lemma new_blist_plain:
  assumes "\<not> cp_3D c"
  shows "\<exists>b. new_blist u occ c f = Inr b \<and> bl_idx b = u \<and> occupancy b = occ"
  using assms by (simp add: new_blist_def)

lemma enter_block_plain:
  assumes "\<not> cp_3D c"
  shows "\<exists>bs'. enter_block u occ c un f bs = Inr bs' \<and> entries bs' = entries bs @ [(u, occ)]"
proof (cases bs)
  case Nil
  then show ?thesis using new_blist_plain [OF assms, of u occ True] by (auto simp: enter_block_def)
next
  case (Cons b rest)
  then show ?thesis using assms new_blist_plain [of "c\<lparr>cp_res_l := cp_res c\<rparr>" u occ f]
    by (auto simp: enter_block_def blist_append_def update_head_def)
qed

lemma map_cell_ok:
  assumes "on_grid rows cols (cp_cw c) (cp_ch c) un" "0 < cp_cw c" "0 < cp_ch c" "h = real rows * cp_ch c" "\<not> cp_3D c"
    and "map_ok rows cols m" "i < rows" "j < cols" "g = extent rows (cp_cw c) (cp_ch c) un" "in_extent g i j"
  shows "\<exists>m'. map_cell h c un u g i j m = Inr m' \<and> map_ok rows cols m' \<and>
    (\<forall>k l. k < rows \<and> l < cols \<longrightarrow> entries (m_at m' k l) =
      (if k = i \<and> l = j then entries (m_at m i j) @ [(u, cover rows (cp_cw c) (cp_ch c) un i j)] else entries (m_at m k l)))"
proof -
  let ?occ = "cover rows (cp_cw c) (cp_ch c) un i j" and ?inner = "i > gl_i1 g \<and> i + 1 < gl_i2 g \<and> j > gl_j1 g \<and> j + 1 < gl_j2 g"
  let ?new = "if ?inner then enter_block u 1 c un True (m_at m i j)
    else rbind (cell_occupancy h (cp_cw c) (cp_ch c) un i j) (\<lambda>occ. enter_block u occ c un False (m_at m i j))"
  have "?new = enter_block u ?occ c un ?inner (m_at m i j)"
  proof (cases ?inner)
    case True
    then have "?occ = 1" using cover_inner [OF assms(1-3,7,9)] by blast
    then show ?thesis using True by simp
  next
    case False
    have "cell_occupancy h (cp_cw c) (cp_ch c) un i j = Inr ?occ"
      using cell_occupancy_ok [OF assms(1-3,7)] assms(4,9,10) by blast
    then show ?thesis unfolding if_not_P [OF False] using False by (simp only: rbind_Inr if_False)
  qed
  then obtain bs where bs: "?new = Inr bs" "entries bs = entries (m_at m i j) @ [(u, ?occ)]"
    using enter_block_plain [OF assms(5), of u ?occ un ?inner "m_at m i j"] by auto
  obtain m' where "cell_put m i j bs = Inr m'" "map_ok rows cols m'"
    "\<forall>k l. k < rows \<and> l < cols \<longrightarrow> m_at m' k l = (if k = i \<and> l = j then bs else m_at m k l)"
    using cell_put_ok [OF assms(6-8)] by blast
  then show ?thesis
    using bs(2) unfolding map_cell_def cell_get_ok [OF assms(6-8)] rbind_Inr bs(1) by (intro exI [of _ m']) auto
qed

section \<open>Units\<close>

definition plain_cells :: "thermal_config_t \<Rightarrow> layer_t \<Rightarrow> bool" where
  "plain_cells config layer \<longleftrightarrow> detailed_3D_used config = 0 \<and> ly_k layer \<noteq> 0"

lemma cell_params_plain:
  assumes "plain_cells config layer"
  shows "\<exists>c. cell_params config layer un cw ch = Inr c \<and> \<not> cp_3D c \<and> cp_cw c = cw \<and> cp_ch c = ch"
  using assms by (auto simp: cell_params_def plain_cells_def Let_def)

text \<open>What a cell lists when the first \<open>n\<close> units are entered.\<close>

definition cell_list :: "nat \<Rightarrow> real \<Rightarrow> real \<Rightarrow> flp_t \<Rightarrow> nat \<Rightarrow> nat \<Rightarrow> nat \<Rightarrow> (nat \<times> real) list" where
  "cell_list rows cw ch flp n i j =
     List.map (\<lambda>u. (u, cover rows cw ch (units flp ! u) i j)) (filter (\<lambda>u. in_extent (extent rows cw ch (units flp ! u)) i j) [0..<n])"

lemma map_unit_ok:
  assumes "on_grid rows cols cw ch (units flp ! u)" "0 < cw" "0 < ch" "h = real rows * ch" "plain_cells config layer"
    and "u < length (units flp)" "u < length gl" "map_ok rows cols m"
    and "\<And>i j. i < rows \<Longrightarrow> j < cols \<Longrightarrow> entries (m_at m i j) = cell_list rows cw ch flp u i j"
  shows "\<exists>m'. map_unit config layer flp rows cols h cw ch u (m, gl) = Inr (m', gl[u := extent rows cw ch (units flp ! u)]) \<and>
    map_ok rows cols m' \<and> (\<forall>i j. i < rows \<and> j < cols \<longrightarrow> entries (m_at m' i j) = cell_list rows cw ch flp (Suc u) i j)"
proof -
  let ?un = "units flp ! u" let ?g = "extent rows cw ch (units flp ! u)"
  note e = unit_extent_ok [OF assms(1-3)]
  obtain c where c: "cell_params config layer ?un cw ch = Inr c" "\<not> cp_3D c" "cp_cw c = cw" "cp_ch c = ch"
    using cell_params_plain [OF assms(5)] by blast
  have "\<exists>t. for_up (gl_i1 ?g) (gl_i2 ?g) (\<lambda>i. for_up (gl_j1 ?g) (gl_j2 ?g) (map_cell h c ?un u ?g i)) m = Inr t \<and> map_ok rows cols t \<and>
    (\<forall>k l. k < rows \<and> l < cols \<longrightarrow> entries (m_at t k l) = (if in_rect (gl_i1 ?g) (gl_i2 ?g) (gl_j1 ?g) (gl_j2 ?g) k l
      then entries (m_at m k l) @ [(u, cover rows cw ch ?un k l)] else entries (m_at m k l)))"
  proof (rule mesh_rule)
    fix i j t
    assume r: "in_rect (gl_i1 ?g) (gl_i2 ?g) (gl_j1 ?g) (gl_j2 ?g) i j" and t: "map_ok rows cols t" "entries (m_at t i j) = entries (m_at m i j)"
    have "i < rows" "j < cols" "in_extent ?g i j" using r e(3,5) by (auto simp: in_rect_def in_extent_def)
    then show "\<exists>t'. map_cell h c ?un u ?g i j t = Inr t' \<and> map_ok rows cols t' \<and> (\<forall>k l. k < rows \<and> l < cols \<longrightarrow> entries (m_at t' k l) =
      (if k = i \<and> l = j then entries (m_at m i j) @ [(u, cover rows cw ch ?un i j)] else entries (m_at t k l)))"
      using map_cell_ok [of rows cols c ?un h t i j ?g u, unfolded c(3,4) t(2)] assms(1-4) t(1) c(2) by blast
  qed (use e assms(8) in \<open>auto simp: in_rect_def\<close>)
  then obtain t where t: "for_up (gl_i1 ?g) (gl_i2 ?g) (\<lambda>i. for_up (gl_j1 ?g) (gl_j2 ?g) (map_cell h c ?un u ?g i)) m = Inr t"
    "map_ok rows cols t" and T: "\<forall>k l. k < rows \<and> l < cols \<longrightarrow> entries (m_at t k l) = (if in_rect (gl_i1 ?g) (gl_i2 ?g) (gl_j1 ?g) (gl_j2 ?g) k l
      then entries (m_at m k l) @ [(u, cover rows cw ch ?un k l)] else entries (m_at m k l))" by blast
  have "in_rect (gl_i1 ?g) (gl_i2 ?g) (gl_j1 ?g) (gl_j2 ?g) k l = in_extent ?g k l" for k l by (auto simp: in_rect_def in_extent_def)
  then have "\<forall>i j. i < rows \<and> j < cols \<longrightarrow> entries (m_at t i j) = cell_list rows cw ch flp (Suc u) i j"
    using T assms(9) by (simp add: cell_list_def)
  then show ?thesis using t assms(6,7) by (simp add: map_unit_def e(1) c(1))
qed

section \<open>Layers\<close>

text \<open>A floorplan whose boundaries the tolerance does not move, on a mesh of the given size.\<close>

definition grid_fits :: "nat \<Rightarrow> nat \<Rightarrow> real \<Rightarrow> real \<Rightarrow> flp_t \<Rightarrow> bool" where
  "grid_fits rows cols w h flp \<longleftrightarrow> 0 < rows \<and> 0 < cols \<and> 0 < w \<and> 0 < h \<and> n_units flp \<le> length (units flp) \<and>
     (\<forall>u < n_units flp. on_grid rows cols (w / real cols) (h / real rows) (units flp ! u))"

text \<open>The maps of a layer are those of its floorplan.\<close>

definition cell_width :: "grid_model_t \<Rightarrow> real" where "cell_width m = gm_width m / real (gm_cols m)"
definition cell_height :: "grid_model_t \<Rightarrow> real" where "cell_height m = gm_height m / real (gm_rows m)"

definition mapped :: "flp_store \<Rightarrow> grid_model_t \<Rightarrow> layer_t \<Rightarrow> bool" where
  "mapped fs m l \<longleftrightarrow> (let flp = fs (ly_flp l); bg = gm_b2g m (ly_b2gmap l); gb = gm_g2b m (ly_g2bmap l) in
     map_ok (gm_rows m) (gm_cols m) bg \<and> n_units flp \<le> length gb \<and>
     (\<forall>i < gm_rows m. \<forall>j < gm_cols m.
       entries (m_at bg i j) = cell_list (gm_rows m) (cell_width m) (cell_height m) flp (n_units flp) i j) \<and>
     (\<forall>u < n_units flp. gb ! u = extent (gm_rows m) (cell_width m) (cell_height m) (units flp ! u)))"

lemma set_bgmap_ok:
  assumes "grid_fits (gm_rows m) (gm_cols m) (gm_width m) (gm_height m) (fs (ly_flp l))" "plain_cells (gm_config m) l"
    and "map_ok (gm_rows m) (gm_cols m) (gm_b2g m (ly_b2gmap l))" "n_units (fs (ly_flp l)) \<le> length (gm_g2b m (ly_g2bmap l))"
  shows "\<exists>bg gb. set_bgmap fs m l = Inr (m\<lparr>gm_b2g := (gm_b2g m)(ly_b2gmap l := bg), gm_g2b := (gm_g2b m)(ly_g2bmap l := gb)\<rparr>) \<and>
    mapped fs (m\<lparr>gm_b2g := (gm_b2g m)(ly_b2gmap l := bg), gm_g2b := (gm_g2b m)(ly_g2bmap l := gb)\<rparr>) l"
proof -
  let ?r = "gm_rows m" and ?c = "gm_cols m" and ?f = "fs (ly_flp l)"
  let ?cw = "cell_width m" and ?ch = "cell_height m"
  have f: "0 < ?r" "0 < ?c" "0 < ?cw" "0 < ?ch" "n_units ?f \<le> length (units ?f)" "gm_height m = real ?r * ?ch"
    and on: "\<And>u. u < n_units ?f \<Longrightarrow> on_grid ?r ?c ?cw ?ch (units ?f ! u)"
    using assms(1) by (auto simp: grid_fits_def cell_width_def cell_height_def)
  obtain m0 where m0: "reset_b2gmap ?r ?c (gm_b2g m (ly_b2gmap l)) = Inr m0" "map_ok ?r ?c m0" "\<And>i j. i < ?r \<Longrightarrow> j < ?c \<Longrightarrow> m_at m0 i j = []"
    using reset_b2gmap_ok [OF assms(3)] by blast
  define I where "I u st \<longleftrightarrow> (case st of (bg, gb) \<Rightarrow> map_ok ?r ?c bg \<and> n_units ?f \<le> length gb \<and>
    (\<forall>i j. i < ?r \<and> j < ?c \<longrightarrow> entries (m_at bg i j) = cell_list ?r ?cw ?ch ?f u i j) \<and>
    (\<forall>v < u. gb ! v = extent ?r ?cw ?ch (units ?f ! v)))" for u st
  have "\<exists>st. for_up 0 (n_units ?f) (map_unit (gm_config m) l ?f ?r ?c (gm_height m) ?cw ?ch) (m0, gm_g2b m (ly_g2bmap l)) = Inr st \<and> I (n_units ?f) st"
  proof (rule for_up_rule)
    show "I 0 (m0, gm_g2b m (ly_g2bmap l))" using m0 assms(4) by (simp add: I_def cell_list_def)
  next
    fix u st assume u: "u < n_units ?f" and st: "I u st"
    obtain bg gb where p: "st = (bg, gb)" by (cases st)
    have gb: "u < length gb" using st u by (auto simp: p I_def)
    have cells: "entries (m_at bg i j) = cell_list ?r ?cw ?ch ?f u i j" if "i < ?r" "j < ?c" for i j
      using st that by (simp add: p I_def)
    have "u < length (units ?f)" "map_ok ?r ?c bg" using u f(5) st by (simp_all add: p I_def)
    then obtain bg' where "map_unit (gm_config m) l ?f ?r ?c (gm_height m) ?cw ?ch u (bg, gb) = Inr (bg', gb[u := extent ?r ?cw ?ch (units ?f ! u)])"
      "map_ok ?r ?c bg'" "\<forall>i j. i < ?r \<and> j < ?c \<longrightarrow> entries (m_at bg' i j) = cell_list ?r ?cw ?ch ?f (Suc u) i j"
      using map_unit_ok [OF on [OF u] f(3,4,6) assms(2) _ gb _ cells] by blast
    then show "\<exists>st'. map_unit (gm_config m) l ?f ?r ?c (gm_height m) ?cw ?ch u st = Inr st' \<and> I (Suc u) st'"
      using st gb by (auto simp: p I_def nth_list_update less_Suc_eq)
  qed simp
  then obtain bg gb where bg: "for_up 0 (n_units ?f) (map_unit (gm_config m) l ?f ?r ?c (gm_height m) ?cw ?ch) (m0, gm_g2b m (ly_g2bmap l)) = Inr (bg, gb)"
    "I (n_units ?f) (bg, gb)" by (metis surj_pair)
  have "fdiv (gm_width m) (real ?c) = Inr ?cw" "fdiv (gm_height m) (real ?r) = Inr ?ch"
    using f(1,2) by (simp_all add: cell_width_def cell_height_def)
  then have "set_bgmap fs m l = Inr (m\<lparr>gm_b2g := (gm_b2g m)(ly_b2gmap l := bg), gm_g2b := (gm_g2b m)(ly_g2bmap l := gb)\<rparr>)"
    unfolding set_bgmap_def Let_def using m0(1) bg(1) by simp
  moreover have "mapped fs (m\<lparr>gm_b2g := (gm_b2g m)(ly_b2gmap l := bg), gm_g2b := (gm_g2b m)(ly_g2bmap l := gb)\<rparr>) l"
    using bg(2) by (simp add: mapped_def I_def Let_def cell_width_def cell_height_def)
  ultimately show ?thesis by blast
qed

section \<open>Shares\<close>

text \<open>The part of a cell that a block is listed with.\<close>

definition share_of :: "nat \<Rightarrow> (nat \<times> real) list \<Rightarrow> real" where
  "share_of u es = sum_list (List.map snd (filter (\<lambda>e. fst e = u) es))"

lemma share_of_cell_list:
  assumes "on_grid rows cols cw ch (units flp ! u)" "0 < cw" "0 < ch" "i < rows" "u < n"
  shows "share_of u (cell_list rows cw ch flp n i j) = cover rows cw ch (units flp ! u) i j"
proof -
  have one: "filter (\<lambda>v. v = u \<and> P v) [0..<n] = (if P u then [u] else [])" for P
    using assms(5) by (induction n) (auto simp: less_Suc_eq)
  have "share_of u (cell_list rows cw ch flp n i j) = sum_list (List.map (\<lambda>v. cover rows cw ch (units flp ! v) i j)
    (filter (\<lambda>v. v = u \<and> in_extent (extent rows cw ch (units flp ! v)) i j) [0..<n]))"
    by (simp add: share_of_def cell_list_def filter_map comp_def filter_filter conj_commute)
  then show ?thesis using cover_outside [OF assms(1-4)] unfolding one by auto
qed

end
