(* ===== verification/Grid_Setup.thy ===== *)
theory Grid_Setup
  imports Grid_Map_Ok Block_Props
begin

text \<open>
  Setting up the grid model with the default stack: silicon, interface material, spreader and
  sink, all with the floorplan and the maps of the silicon layer.
\<close>

section \<open>The default stack\<close>

definition stack_layer :: "nat \<Rightarrow> nat \<Rightarrow> bool \<Rightarrow> real \<Rightarrow> real \<Rightarrow> real \<Rightarrow> layer_t" where
  "stack_layer fp i pwr k t sp = layer_zero\<lparr>ly_no := i, ly_has_lateral := True, ly_has_power := pwr, ly_k := k, ly_thickness := t,
     ly_sp := sp, ly_flp := fp\<rparr>"

definition default_stack :: "thermal_config_t \<Rightarrow> nat \<Rightarrow> layer_t list" where
  "default_stack c fp = [stack_layer fp 0 True (k_chip c) (t_chip c) (p_chip c),
     stack_layer fp 1 False (k_interface c) (t_interface c) (p_interface c),
     stack_layer fp 2 False (k_spreader c) (t_spreader c) (p_spreader c), stack_layer fp 3 False (k_sink c) (t_sink c) (p_sink c)]"

definition plain_grid :: "thermal_config_t \<Rightarrow> bool" where
  "plain_grid c \<longleftrightarrow> model_secondary c = 0 \<and> detailed_3D_used c = 0 \<and> grid_layer_file c = NULLFILE \<and>
     \<not> isl (find_map_mode (grid_map_mode c))"

lemma plain_gridD:
  assumes "plain_grid c"
  shows "model_secondary c = 0" "detailed_3D_used c = 0" "grid_layer_file c = NULLFILE" "\<exists>mm. find_map_mode (grid_map_mode c) = Inr mm"
  using assms by (auto simp: plain_grid_def isl_def sum.exhaust_sel) (metis sum.exhaust)

lemma default_layers:
  assumes "plain_grid (gm_config m)" "gm_has_lcf m = False"
  shows "populate_layers_grid fs rf ws fp m = Inr (m\<lparr>gm_n_layers := 4, gm_layers := default_stack (gm_config m) fp,
    gm_b2g := (gm_b2g m)(0 := new_b2gmap (gm_rows m) (gm_cols m)), gm_g2b := (gm_g2b m)(0 := replicate (n_units (fs fp)) glist_zero)\<rparr>)"
  using assms(2) plain_gridD(1,2) [OF assms(1)]
  by (simp add: populate_layers_grid_def populate_default_layers_def append_package_layers_def stack_defs Let_def eval_nat_numeral
      fill_like_def fill_layer_def upd_layer_def alloc_b2gmap_def alloc_g2bmap_def default_stack_def stack_layer_def layer_zero_def)


section \<open>Allocation\<close>

text \<open>The model between allocation and the computation of its resistances.\<close>

definition grid_allocated :: "flp_store \<Rightarrow> thermal_config_t \<Rightarrow> nat \<Rightarrow> grid_model_t \<Rightarrow> bool" where
  "grid_allocated fs c fp m \<longleftrightarrow> gm_config m = c \<and> gm_layers m = default_stack c fp \<and> gm_n_layers m = 4 \<and>
     gm_rows m = nat (grid_rows c) \<and> gm_cols m = nat (grid_cols c) \<and> \<not> gm_has_lcf m \<and> gm_base_n_units m = n_units (fs fp) \<and>
     gm_total_n_blocks m = 4 * n_units (fs fp) \<and> find_map_mode (grid_map_mode c) = Inr (gm_map_mode m) \<and>
     map_ok (gm_rows m) (gm_cols m) (gm_b2g m 0) \<and> length (gm_g2b m 0) = n_units (fs fp) \<and>
     gv_ok (gm_last_steady m) 4 (gm_rows m) (gm_cols m) EXTRA \<and> gv_ok (gm_last_trans m) 4 (gm_rows m) (gm_cols m) EXTRA"

lemma count_blocks_default:
  assumes "gm_layers m = default_stack c fp" "gm_n_layers m = 4"
  shows "count_blocks fs m = Inr (4 * n_units (fs fp))"
  using assms by (simp add: count_blocks_def default_stack_def stack_layer_def eval_nat_numeral for_up_step)

lemma alloc_grid_model_ok:
  assumes "plain_grid c"
  shows "\<exists>m. alloc_grid_model fs rf ws c fp False = Inr m \<and> grid_allocated fs c fp m"
proof -
  note c = plain_gridD [OF assms]
  obtain mm where mm: "find_map_mode (grid_map_mode c) = Inr mm" using c(4) by blast
  define m0 where "m0 = (grid_zero c)\<lparr>gm_rows := nat (grid_rows c), gm_cols := nat (grid_cols c), gm_config := c,
    gm_map_mode := mm, gm_has_lcf := False, gm_base_n_units := n_units (fs fp)\<rparr>"
  define m1 where "m1 = m0\<lparr>gm_n_layers := 4, gm_layers := default_stack c fp,
    gm_b2g := (gm_b2g m0)(0 := new_b2gmap (gm_rows m0) (gm_cols m0)), gm_g2b := (gm_g2b m0)(0 := replicate (n_units (fs fp)) glist_zero)\<rparr>"
  have p: "populate_layers_grid fs rf ws fp m0 = Inr m1"
    using default_layers [of m0 fs rf ws fp] assms by (simp add: m0_def m1_def grid_zero_def)
  have n: "count_blocks fs m1 = Inr (4 * n_units (fs fp))" by (rule count_blocks_default) (simp_all add: m1_def)
  let ?v = "new_grid_model_vector m1"
  let ?m = "m1\<lparr>gm_total_n_blocks := 4 * n_units (fs fp), gm_last_steady := ?v, gm_last_trans := ?v\<rparr>"
  have "alloc_grid_model fs rf ws c fp False = Inr ?m"
    unfolding alloc_grid_model_def using mm c(3) p n by (simp add: m0_def Let_def)
  moreover have "gv_ok ?v 4 (gm_rows m1) (gm_cols m1) EXTRA"
    using new_grid_model_vector_ok [of m1] c(1) by (simp add: m1_def m0_def grid_zero_def extra_nodes_def)
  then have "grid_allocated fs c fp ?m"
    using mm new_b2gmap_ok by (simp add: grid_allocated_def m1_def m0_def grid_zero_def)
  ultimately show ?thesis by blast
qed

section \<open>Resistances\<close>

text \<open>What the layers keep while their resistances are computed.\<close>

definition layer_like :: "layer_t \<Rightarrow> layer_t \<Rightarrow> bool" where
  "layer_like l k \<longleftrightarrow> ly_flp l = ly_flp k \<and> ly_no l = ly_no k \<and> ly_has_lateral l = ly_has_lateral k \<and> ly_has_power l = ly_has_power k \<and>
     ly_k l = ly_k k \<and> ly_thickness l = ly_thickness k \<and> ly_sp l = ly_sp k \<and> ly_b2gmap l = ly_b2gmap k \<and> ly_g2bmap l = ly_g2bmap k"

definition good_layer :: "layer_t \<Rightarrow> bool" where
  "good_layer l \<longleftrightarrow> ly_has_lateral l \<and> 0 < ly_k l \<and> 0 < ly_thickness l"

definition resistive :: "layer_t \<Rightarrow> bool" where
  "resistive l \<longleftrightarrow> 0 < ly_rx l \<and> 0 < ly_ry l \<and> 0 < ly_rz l"

lemma layer_resistances_ok:
  assumes "i < length (gm_layers m)" "good_layer (gm_layers m ! i)" "0 < cw" "0 < ch" "0 \<le> r_convec c"
  shows "\<exists>l. layer_resistances c cw ch hs i m = Inr (m\<lparr>gm_layers := (gm_layers m)[i := l]\<rparr>) \<and> layer_like l (gm_layers m ! i) \<and> resistive l"
proof -
  have "0 \<le> r_convec c * (s_sink c * s_sink c) / (cw * ch)" using assms by simp
  then show ?thesis
    using assms by (auto simp: layer_resistances_def good_layer_def upd_layer_def layer_like_def resistive_def add_pos_nonneg)
qed

lemma all_resistances_ok:
  assumes "\<And>i. i < length (gm_layers m) \<Longrightarrow> good_layer (gm_layers m ! i)" "0 < cw" "0 < ch" "0 \<le> r_convec c"
  shows "\<exists>ls. for_up 0 (length (gm_layers m)) (layer_resistances c cw ch hs) m = Inr (m\<lparr>gm_layers := ls\<rparr>) \<and>
    length ls = length (gm_layers m) \<and> (\<forall>i < length ls. layer_like (ls ! i) (gm_layers m ! i) \<and> resistive (ls ! i))"
proof -
  define I where "I k t \<longleftrightarrow> (\<exists>ls. t = m\<lparr>gm_layers := ls\<rparr> \<and> length ls = length (gm_layers m) \<and>
    (\<forall>i < length ls. layer_like (ls ! i) (gm_layers m ! i) \<and> (i < k \<longrightarrow> resistive (ls ! i))))" for k t
  have "\<exists>t. for_up 0 (length (gm_layers m)) (layer_resistances c cw ch hs) m = Inr t \<and> I (length (gm_layers m)) t"
  proof (rule for_up_rule)
    show "I 0 m" by (auto simp: I_def layer_like_def intro!: exI [of _ "gm_layers m"])
  next
    fix i t assume i: "i < length (gm_layers m)" and "I i t"
    then obtain ls where ls: "t = m\<lparr>gm_layers := ls\<rparr>" "length ls = length (gm_layers m)"
      "\<forall>k < length ls. layer_like (ls ! k) (gm_layers m ! k) \<and> (k < i \<longrightarrow> resistive (ls ! k))" by (auto simp: I_def)
    have "good_layer (ls ! i)" using assms(1) [OF i] ls(2,3) i by (auto simp: good_layer_def layer_like_def)
    then obtain l where l: "layer_resistances c cw ch hs i t = Inr (m\<lparr>gm_layers := ls[i := l]\<rparr>)" "layer_like l (ls ! i)" "resistive l"
      using layer_resistances_ok [of i t cw ch c hs] assms(2-4) ls(1,2) i by auto
    have "layer_like l (gm_layers m ! i)" using l(2) ls(2,3) i by (simp add: layer_like_def)
    then have "I (Suc i) (m\<lparr>gm_layers := ls[i := l]\<rparr>)"
    proof -
      have "layer_like (ls[i := l] ! k) (gm_layers m ! k) \<and> (k < Suc i \<longrightarrow> resistive (ls[i := l] ! k))" if "k < length (gm_layers m)" for k
        using ls(2,3) l(3) i that \<open>layer_like l (gm_layers m ! i)\<close> by (cases "k = i") (simp_all add: less_Suc_eq)
      then show ?thesis unfolding I_def using ls(2) by (intro exI [of _ "ls[i := l]"]) simp
    qed
    then show "\<exists>t'. layer_resistances c cw ch hs i t = Inr t' \<and> I (Suc i) t'" unfolding l(1) by simp
  qed simp
  then obtain t where "for_up 0 (length (gm_layers m)) (layer_resistances c cw ch hs) m = Inr t" "I (length (gm_layers m)) t" by (elim exE conjE)
  then obtain ls where "for_up 0 (length (gm_layers m)) (layer_resistances c cw ch hs) m = Inr (m\<lparr>gm_layers := ls\<rparr>)"
    "length ls = length (gm_layers m)" "\<forall>i < length ls. layer_like (ls ! i) (gm_layers m ! i) \<and> (i < length (gm_layers m) \<longrightarrow> resistive (ls ! i))"
    by (auto simp: I_def)
  then show ?thesis by (intro exI [of _ ls]) simp
qed


section \<open>The model ready for use\<close>

definition grid_ready :: "flp_store \<Rightarrow> thermal_config_t \<Rightarrow> nat \<Rightarrow> real \<Rightarrow> real \<Rightarrow> grid_model_t \<Rightarrow> bool" where
  "grid_ready fs c fp w h m \<longleftrightarrow> gm_config m = c \<and> gm_rows m = nat (grid_rows c) \<and> gm_cols m = nat (grid_cols c) \<and> gm_width m = w \<and>
     gm_height m = h \<and> gm_n_layers m = 4 \<and> length (gm_layers m) = 4 \<and> gm_r_ready m \<and> pack_R_ok (gm_pack m) \<and>
     find_map_mode (grid_map_mode c) = Inr (gm_map_mode m) \<and> gm_total_n_blocks m = 4 * n_units (fs fp) \<and> \<not> gm_has_lcf m \<and>
     gv_ok (gm_last_steady m) 4 (gm_rows m) (gm_cols m) EXTRA \<and> gv_ok (gm_last_trans m) 4 (gm_rows m) (gm_cols m) EXTRA \<and>
     (\<forall>i < 4. let l = gm_layers m ! i in ly_flp l = fp \<and> ly_has_power l = (i = 0) \<and> resistive l \<and> mapped fs m l \<and> layer_like l (default_stack c fp ! i))"

lemma default_stack_layers:
  assumes "i < 4"
  shows "ly_flp (default_stack c fp ! i) = fp" "ly_has_power (default_stack c fp ! i) = (i = 0)" "ly_b2gmap (default_stack c fp ! i) = 0"
    "ly_g2bmap (default_stack c fp ! i) = 0" "layers_ok c \<Longrightarrow> good_layer (default_stack c fp ! i)"
proof -
  have "i = 0 \<or> i = 1 \<or> i = 2 \<or> i = 3" using assms by auto
  then show "ly_flp (default_stack c fp ! i) = fp" "ly_has_power (default_stack c fp ! i) = (i = 0)" "ly_b2gmap (default_stack c fp ! i) = 0"
    "ly_g2bmap (default_stack c fp ! i) = 0" "layers_ok c \<Longrightarrow> good_layer (default_stack c fp ! i)"
    by (auto simp: default_stack_def stack_layer_def layer_zero_def good_layer_def layers_ok_def)
qed

lemma mapped_cong:
  assumes "mapped fs m l" "ly_flp l' = ly_flp l" "ly_b2gmap l' = ly_b2gmap l" "ly_g2bmap l' = ly_g2bmap l"
    and "gm_b2g m' = gm_b2g m" "gm_g2b m' = gm_g2b m" "gm_rows m' = gm_rows m" "gm_cols m' = gm_cols m" "gm_width m' = gm_width m"
    "gm_height m' = gm_height m"
  shows "mapped fs m' l'"
  using assms(1) unfolding mapped_def cell_width_def cell_height_def assms(2-) .

lemma populate_R_grid_ok:
  assumes "grid_allocated fs c fp m" "plain_grid c" "fits c (fs fp) w h" "grid_fits (gm_rows m) (gm_cols m) w h (fs fp)"
  shows "\<exists>m1. populate_R_model_grid fs m fp = Inr m1 \<and> grid_ready fs c fp w h m1"
proof -
  note c = plain_gridD [OF assms(2)]
  have m: "gm_config m = c" "gm_layers m = default_stack c fp" "gm_n_layers m = 4" "\<not> gm_has_lcf m" "map_ok (gm_rows m) (gm_cols m) (gm_b2g m 0)"
    "length (gm_g2b m 0) = n_units (fs fp)" "gm_rows m = nat (grid_rows c)" "gm_cols m = nat (grid_cols c)"
    "gm_total_n_blocks m = 4 * n_units (fs fp)" "find_map_mode (grid_map_mode c) = Inr (gm_map_mode m)"
    "gv_ok (gm_last_steady m) 4 (gm_rows m) (gm_cols m) EXTRA" "gv_ok (gm_last_trans m) 4 (gm_rows m) (gm_cols m) EXTRA"
    using assms(1) unfolding grid_allocated_def by blast+
  have f: "layers_ok c" "get_total_width (fs fp) = Inr w" "get_total_height (fs fp) = Inr h" "package_ok c w h"
    using assms(3) by (simp_all add: fits_def)
  have s: "w < s_spreader c" "h < s_spreader c" "s_spreader c < s_sink c" "0 \<le> r_convec c" using f(4) by (simp_all add: package_ok_def)
  let ?m0 = "m\<lparr>gm_width := w, gm_height := h\<rparr>" and ?l = "default_stack c fp ! 0"
  note l0 = default_stack_layers [of 0 c fp, simplified]
  have k: "plain_cells c ?l" using c(2) f(1) by (simp add: plain_cells_def layers_ok_def default_stack_def stack_layer_def)
  obtain bg gb where bg: "set_bgmap fs ?m0 ?l = Inr (?m0\<lparr>gm_b2g := (gm_b2g m)(0 := bg), gm_g2b := (gm_g2b m)(0 := gb)\<rparr>)"
    "mapped fs (?m0\<lparr>gm_b2g := (gm_b2g m)(0 := bg), gm_g2b := (gm_g2b m)(0 := gb)\<rparr>) ?l"
    using set_bgmap_ok [of ?m0 fs ?l] assms(4) k m l0 by auto
  let ?m1 = "?m0\<lparr>gm_b2g := (gm_b2g m)(0 := bg), gm_g2b := (gm_g2b m)(0 := gb)\<rparr>"
  obtain pack where pack: "populate_package_R (gm_pack m) c w h = Inr pack" "pack_R_ok pack"
    using populate_package_R_ok [OF f(4), of "gm_pack m"] by blast
  let ?m2 = "?m1\<lparr>gm_pack := pack\<rparr>"
  have cw: "0 < w / real (gm_cols m)" "0 < h / real (gm_rows m)" using assms(4) by (simp_all add: grid_fits_def)
  have good: "good_layer (gm_layers ?m2 ! i)" if "i < length (gm_layers ?m2)" for i
    using default_stack_layers(5) [of i c fp] f(1) that m(2) by (simp add: default_stack_def)
  have four: "length (gm_layers ?m2) = 4" using m(2) by (simp add: default_stack_def)
  obtain ls where ls: "for_up 0 4 (layer_resistances c (w / real (gm_cols m)) (h / real (gm_rows m)) (4 - DEFAULT_PACK_LAYERS + LAYER_SINK)) ?m2 =
      Inr (?m2\<lparr>gm_layers := ls\<rparr>)" "length ls = 4" "\<forall>i < length ls. layer_like (ls ! i) (gm_layers ?m2 ! i) \<and> resistive (ls ! i)"
    using all_resistances_ok [OF good cw s(4), of "4 - DEFAULT_PACK_LAYERS + LAYER_SINK"] unfolding four by auto
  let ?m3 = "?m2\<lparr>gm_layers := ls, gm_r_ready := True\<rparr>"
  have "populate_R_model_grid fs m fp = Inr ?m3"
  proof -
    have rd0: "rd (gm_layers m) LAYER_SI = Inr ?l" "ly_flp ?l = fp" using m(2) l0 by (simp_all add: default_stack_def LAYER_SI_def)
    have d: "fdiv w (real (gm_cols m)) = Inr (w / real (gm_cols m))" "fdiv h (real (gm_rows m)) = Inr (h / real (gm_rows m))"
      using assms(4) by (simp_all add: grid_fits_def)
    have "\<not> (w > s_sink c \<or> h > s_sink c \<or> w > s_spreader c \<or> h > s_spreader c)" using s by linarith
    then show ?thesis
      unfolding populate_R_model_grid_def Let_def using c(1,2) m(1,3,4) rd0 f(2,3) bg(1) pack(1) d ls(1) by simp
  qed
  moreover have "grid_ready fs c fp w h ?m3"
  proof -
    have "ly_flp (ls ! i) = fp \<and> ly_has_power (ls ! i) = (i = 0) \<and> resistive (ls ! i) \<and> mapped fs ?m3 (ls ! i) \<and> layer_like (ls ! i) (default_stack c fp ! i)" if "i < 4" for i
    proof -
      have sl: "layer_like (ls ! i) (default_stack c fp ! i)" "resistive (ls ! i)" using ls(2,3) that m(2) by simp_all
      have "mapped fs ?m3 (ls ! i)"
        by (rule mapped_cong [OF bg(2)]) (use sl(1) l0 default_stack_layers [OF that, of c fp] in \<open>simp_all add: layer_like_def\<close>)
      then show ?thesis using sl default_stack_layers [OF that, of c fp] by (simp add: layer_like_def)
    qed
    then show ?thesis using m ls(2) pack(2) by (simp add: grid_ready_def Let_def)
  qed
  ultimately show ?thesis by blast
qed

end
