(* ===== verification/Grid_Joined.thy ===== *)
theory Grid_Joined
  imports Grid_Matrix Grid_Setup
begin

text \<open>
  The resistor network that the matrix of the grid stands for: which nodes are joined, by which
  resistance, and that the row the code writes for a node lists exactly the nodes joined with it.
\<close>

section \<open>Nodes of cells\<close>

lemma cell_node_row: "cell_node m l i j = dcuboid_row (gm_rows m) (gm_cols m) l i + j"
  by (simp add: cell_node_def dcuboid_row_def algebra_simps)

definition in_grid :: "grid_model_t \<Rightarrow> nat \<Rightarrow> nat \<Rightarrow> nat \<Rightarrow> bool" where
  "in_grid m l i j \<longleftrightarrow> l < gm_n_layers m \<and> i < gm_rows m \<and> j < gm_cols m"

lemma cell_node_less: "in_grid m l i j \<Longrightarrow> cell_node m l i j < grid_cells m"
  unfolding in_grid_def cell_node_row grid_cells_def using dcuboid_in_bounds by blast

lemma cell_node_inj [simp]:
  assumes "in_grid m l i j" "in_grid m l' i' j'"
  shows "cell_node m l i j = cell_node m l' i' j' \<longleftrightarrow> l = l' \<and> i = i' \<and> j = j'"
  using dcuboid_rows_disjoint [of i "gm_rows m" j "gm_cols m" i' j' l l'] assms by (auto simp: in_grid_def cell_node_row)

lemma cell_node_no_package [simp]:
  assumes "in_grid m l i j"
  shows "cell_node m l i j \<noteq> grid_cells m + k" "grid_cells m + k \<noteq> cell_node m l i j"
  using cell_node_less [OF assms] by simp_all

text \<open>The neighbours of a cell, by their numbers.\<close>

lemma cell_node_next:
  "cell_node m l i j + 1 = cell_node m l i (j + 1)" "cell_node m l i j + gm_cols m = cell_node m l (i + 1) j"
  "cell_node m l i j + gm_rows m * gm_cols m = cell_node m (l + 1) i j"
  by (simp_all add: cell_node_def algebra_simps)

lemma cell_node_prev:
  "0 < j \<Longrightarrow> cell_node m l i j - 1 = cell_node m l i (j - 1)" "0 < i \<Longrightarrow> cell_node m l i j - gm_cols m = cell_node m l (i - 1) j"
  "0 < l \<Longrightarrow> cell_node m l i j - gm_rows m * gm_cols m = cell_node m (l - 1) i j"
  using cell_node_next(1) [of m l i "j - 1"] cell_node_next(2) [of m l "i - 1" j] cell_node_next(3) [of m "l - 1" i j] by simp_all

text \<open>The positions that the code finds from the number of a cell in its layer.\<close>

lemma index_eq:
  fixes nc :: nat
  assumes "j < nc" "j' < nc"
  shows "i * nc + j = i' * nc + j' \<longleftrightarrow> i = i' \<and> j = j'"
proof
  assume e: "i * nc + j = i' * nc + j'"
  then have "(i * nc + j) div nc = (i' * nc + j') div nc" "(i * nc + j) mod nc = (i' * nc + j') mod nc" by simp_all
  then show "i = i' \<and> j = j'" using assms by simp
qed simp

lemma corners:
  fixes nr nc :: nat
  assumes "2 \<le> nr" "2 \<le> nc" "i < nr" "j < nc"
  shows "0 = i * nc + j \<longleftrightarrow> i = 0 \<and> j = 0" "nc - 1 = i * nc + j \<longleftrightarrow> i = 0 \<and> j = nc - 1"
    "nr * nc - nc = i * nc + j \<longleftrightarrow> i = nr - 1 \<and> j = 0" "nr * nc - 1 = i * nc + j \<longleftrightarrow> i = nr - 1 \<and> j = nc - 1"
proof -
  have lt: "0 < nc" "nc - 1 < nc" using assms by simp_all
  have e: "nr * nc - nc = (nr - 1) * nc + 0" "nr * nc - 1 = (nr - 1) * nc + (nc - 1)"
    using assms by (cases nr; simp add: algebra_simps)+
  show "0 = i * nc + j \<longleftrightarrow> i = 0 \<and> j = 0" using assms by auto
  show "nc - 1 = i * nc + j \<longleftrightarrow> i = 0 \<and> j = nc - 1" using index_eq [OF lt(2) assms(4), of 0 i] by auto
  show "nr * nc - nc = i * nc + j \<longleftrightarrow> i = nr - 1 \<and> j = 0" unfolding e index_eq [OF lt(1) assms(4)] by auto
  show "nr * nc - 1 = i * nc + j \<longleftrightarrow> i = nr - 1 \<and> j = nc - 1" unfolding e index_eq [OF lt(2) assms(4)] by auto
qed

lemma borders:
  fixes nr nc :: nat
  assumes "2 \<le> nr" "2 \<le> nc" "i < nr" "j < nc"
  shows "i * nc + j < nc - 1 \<longleftrightarrow> i = 0 \<and> j < nc - 1" "nr * nc - nc < i * nc + j \<longleftrightarrow> i = nr - 1 \<and> 0 < j"
    "(i * nc + j) mod nc = j" "(i * nc + j + 1) mod nc = 0 \<longleftrightarrow> j = nc - 1" "i * nc + j < nr * nc - 1 \<longleftrightarrow> \<not> (i = nr - 1 \<and> j = nc - 1)"
proof -
  show "i * nc + j < nc - 1 \<longleftrightarrow> i = 0 \<and> j < nc - 1" using assms by (cases i) auto
  have "nr * nc - nc = (nr - 1) * nc" by (simp add: algebra_simps)
  moreover have "(nr - 1) * nc < i * nc + j \<longleftrightarrow> i = nr - 1 \<and> 0 < j"
  proof
    assume h: "(nr - 1) * nc < i * nc + j"
    have "nr - 1 \<le> i"
    proof (rule ccontr)
      assume "\<not> nr - 1 \<le> i"
      then have "(i + 1) * nc \<le> (nr - 1) * nc" by (intro mult_right_mono) simp_all
      with h assms(4) show False by simp
    qed
    with assms(3) have "i = nr - 1" by simp
    with h show "i = nr - 1 \<and> 0 < j" by simp
  qed simp
  ultimately show "nr * nc - nc < i * nc + j \<longleftrightarrow> i = nr - 1 \<and> 0 < j" by simp
  show "(i * nc + j) mod nc = j" using assms by simp
  have "(i * nc + j + 1) mod nc = (j + 1) mod nc" by (metis add.assoc mod_mult_self3)
  also have "\<dots> = 0 \<longleftrightarrow> j = nc - 1" using assms(2,4) by (cases "j + 1 = nc") (auto simp: mod_less)
  finally show "(i * nc + j + 1) mod nc = 0 \<longleftrightarrow> j = nc - 1" .
  have "i * nc + j < nr * nc" by (metis assms(3,4) index_in_matrix mult.commute)
  then show "i * nc + j < nr * nc - 1 \<longleftrightarrow> \<not> (i = nr - 1 \<and> j = nc - 1)" using corners(4) [OF assms] by linarith
qed

section \<open>One rule for the nine positions\<close>

text \<open>The part of the package that a layer borders on: its first node, and its resistances.\<close>

definition part :: "grid_model_t \<Rightarrow> nat \<Rightarrow> (nat \<times> real \<times> real) option" where
  "part m l = (let pk = gm_pack m; sec = model_secondary (gm_config m) \<noteq> 0 in
     if l = spidx m then Some (SP_W, r_sp1_x pk, r_sp1_y pk) else if l = hsidx m then Some (SINK_C_W, r_hs1_x pk, r_hs1_y pk)
     else if l = LAYER_SUB \<and> sec then Some (SUB_W, r_sub1_x pk, r_sub1_y pk)
     else if l = LAYER_SOLDER \<and> sec then Some (SOLDER_W, r_solder1_x pk, r_solder1_y pk)
     else if l = LAYER_PCB \<and> sec then Some (PCB_C_W, r_pcb1_x pk, r_pcb1_y pk) else None)"

lemma border_link_part:
  "border_link m ly l d = (case part m l of None \<Rightarrow> [] | Some (w, rx, ry) \<Rightarrow> [(grid_cells m + at_side w d, edge_res m ly d rx ry)])"
  by (simp add: border_link_def part_def Let_def)

definition on_side :: "grid_model_t \<Rightarrow> compass \<Rightarrow> nat \<Rightarrow> nat \<Rightarrow> bool" where
  "on_side m d i j = (case d of North \<Rightarrow> i = 0 | South \<Rightarrow> i = gm_rows m - 1 | West \<Rightarrow> j = 0 | East \<Rightarrow> j = gm_cols m - 1)"

text \<open>The resistances of a mesh: from a cell to its eastern, southern and lower neighbour.\<close>

record mesh =
  to_east :: "nat \<Rightarrow> nat \<Rightarrow> nat \<Rightarrow> real"
  to_south :: "nat \<Rightarrow> nat \<Rightarrow> nat \<Rightarrow> real"
  to_below :: "nat \<Rightarrow> nat \<Rightarrow> nat \<Rightarrow> real"

definition reads_mesh :: "grid_model_t \<Rightarrow> mesh \<Rightarrow> nat \<Rightarrow> nat \<Rightarrow> nat \<Rightarrow> cell_res \<Rightarrow> bool" where
  "reads_mesh m M l i j R \<longleftrightarrow>
     (0 < j \<longrightarrow> Rw R = to_east M l i (j - 1)) \<and> (j + 1 < gm_cols m \<longrightarrow> Re R = to_east M l i j) \<and>
     (0 < i \<longrightarrow> Rn R = to_south M l (i - 1) j) \<and> (i + 1 < gm_rows m \<longrightarrow> Rs R = to_south M l i j) \<and>
     (0 < l \<longrightarrow> Ra R = to_below M (l - 1) i j) \<and> (l + 1 < gm_n_layers m \<longrightarrow> Rb R = to_below M l i j)"

definition cell_rule :: "grid_model_t \<Rightarrow> mesh \<Rightarrow> layer_t \<Rightarrow> nat \<Rightarrow> nat \<Rightarrow> nat \<Rightarrow> (nat \<times> real) list" where
  "cell_rule m M ly l i j =
     (if 0 < j then [(cell_node m l i (j - 1), to_east M l i (j - 1))] else []) @
     (if j + 1 < gm_cols m then [(cell_node m l i (j + 1), to_east M l i j)] else []) @
     (if 0 < i then [(cell_node m l (i - 1) j, to_south M l (i - 1) j)] else []) @
     (if i + 1 < gm_rows m then [(cell_node m l (i + 1) j, to_south M l i j)] else []) @
     (if l + 1 < gm_n_layers m then [(cell_node m (l + 1) i j, to_below M l i j)] else []) @
     (if 0 < l then [(cell_node m (l - 1) i j, to_below M (l - 1) i j)] else []) @
     concat (map (\<lambda>d. if on_side m d i j then border_link m ly l d else []) all_sides)"

lemma vertical_links_rule:
  assumes "reads_mesh m M l i j R"
  shows "vertical_links m R l (cell_node m l i j) =
     (if l + 1 < gm_n_layers m then [(cell_node m (l + 1) i j, to_below M l i j)] else []) @
     (if 0 < l then [(cell_node m (l - 1) i j, to_below M (l - 1) i j)] else [])"
  using assms unfolding vertical_links_def Let_def cell_node_next reads_mesh_def
  by (auto simp: cell_node_prev(3) less_diff_conv)

lemma cell_links_rule:
  assumes n: "2 \<le> gm_rows m" "2 \<le> gm_cols m" and g: "in_grid m l i j" and R: "reads_mesh m M l i j R"
  shows "mset (cell_links m ly R l (i * gm_cols m + j) (cell_node m l i j)) = mset (cell_rule m M ly l i j)"
proof -
  have ij: "i < gm_rows m" "j < gm_cols m" using g by (simp_all add: in_grid_def)
  have inner: "j + 1 < gm_cols m \<longleftrightarrow> j \<noteq> gm_cols m - 1" "i + 1 < gm_rows m \<longleftrightarrow> i \<noteq> gm_rows m - 1" using ij by auto
  define x where "x = cell_node m l i j"
  define V where "V = (if l + 1 < gm_n_layers m then [(cell_node m (l + 1) i j, to_below M l i j)] else []) @
     (if 0 < l then [(cell_node m (l - 1) i j, to_below M (l - 1) i j)] else [])"
  define W E N S where "W = (cell_node m l i (j - 1), to_east M l i (j - 1))" and "E = (cell_node m l i (j + 1), to_east M l i j)"
    and "N = (cell_node m l (i - 1) j, to_south M l (i - 1) j)" and "S = (cell_node m l (i + 1) j, to_south M l i j)"
  define B where "B = border_link m ly l"
  have v: "vertical_links m R l x = V" unfolding V_def x_def by (rule vertical_links_rule [OF R])
  have R': "0 < j \<Longrightarrow> (x - 1, Rw R) = W" "j + 1 < gm_cols m \<Longrightarrow> (x + 1, Re R) = E"
    "0 < i \<Longrightarrow> (x - gm_cols m, Rn R) = N" "i + 1 < gm_rows m \<Longrightarrow> (x + gm_cols m, Rs R) = S"
    using R unfolding W_def E_def N_def S_def x_def cell_node_next by (simp_all add: reads_mesh_def cell_node_prev [unfolded One_nat_def])
  note R' = R' [unfolded inner]
  have rule: "cell_rule m M ly l i j = (if 0 < j then [W] else []) @ (if j + 1 < gm_cols m then [E] else []) @ (if 0 < i then [N] else []) @
     (if i + 1 < gm_rows m then [S] else []) @ V @ (if i = 0 then B North else []) @ (if i = gm_rows m - 1 then B South else []) @
     (if j = 0 then B West else []) @ (if j = gm_cols m - 1 then B East else [])"
    by (simp add: cell_rule_def all_sides_def on_side_def W_def E_def N_def S_def V_def B_def)
  note rule = rule [unfolded inner]
  define gi where "gi = i * gm_cols m + j"
  note pos = corners [OF n ij, folded gi_def] borders [OF n ij, folded gi_def]
  have gi: "0 < gi \<longleftrightarrow> \<not> (i = 0 \<and> j = 0)" using pos(1) by (metis neq0_conv)
  have jl: "j < gm_cols m - 1 \<longleftrightarrow> j \<noteq> gm_cols m - 1" using ij by auto
  have links: "cell_links m ly R l gi x =
    (if i = 0 \<and> j = 0 then top_left m ly R l x else if i = 0 \<and> j = gm_cols m - 1 then top_right m ly R l x
     else if i = gm_rows m - 1 \<and> j = 0 then bottom_left m ly R l x else if i = gm_rows m - 1 \<and> j = gm_cols m - 1 then bottom_right m ly R l x
     else if i = 0 then top_row m ly R l x else if i = gm_rows m - 1 then bottom_row m ly R l x
     else if j = 0 then left_column m ly R l x else if j = gm_cols m - 1 then right_column m ly R l x else central_cell m R l x)"
    unfolding cell_links_def Let_def gi pos jl eq_commute [of 0 "_ mod _"]
    using ij n by (cases "i = 0"; cases "i = gm_rows m - 1"; cases "j = 0"; cases "j = gm_cols m - 1") simp_all
  note defs = links rule v B_def [symmetric]
    top_left_def top_right_def bottom_left_def bottom_right_def top_row_def bottom_row_def left_column_def right_column_def central_cell_def
  show ?thesis
    unfolding x_def [symmetric] gi_def [symmetric] defs
    using ij n R' by (cases "i = 0"; cases "i = gm_rows m - 1"; cases "j = 0"; cases "j = gm_cols m - 1") simp_all
qed

section \<open>The network\<close>

definition stacked :: "grid_model_t \<Rightarrow> bool" where
  "stacked m \<longleftrightarrow> 2 \<le> gm_rows m \<and> 2 \<le> gm_cols m \<and> length (gm_layers m) = gm_n_layers m \<and>
     (if model_secondary (gm_config m) \<noteq> 0 then 5 else 2) \<le> gm_n_layers m"

lemma stackedD:
  assumes "stacked m"
  shows "2 \<le> gm_rows m" "2 \<le> gm_cols m" "length (gm_layers m) = gm_n_layers m" "2 \<le> gm_n_layers m"
    "model_secondary (gm_config m) \<noteq> 0 \<Longrightarrow> 5 \<le> gm_n_layers m"
  using assms by (auto simp: stacked_def split: if_splits)

text \<open>The parts of the package that are joined with each other, side by side.\<close>

definition plates :: "grid_model_t \<Rightarrow> (nat \<times> nat \<times> (compass \<Rightarrow> real)) list" where
  "plates m = (let pk = gm_pack m in
     [(SP_W, SINK_C_W, \<lambda>d. across d (r_sp_per_x pk) (r_sp_per_y pk)), (SINK_C_W, SINK_W, \<lambda>d. across d (r_hs2_x pk) (r_hs2_y pk) + r_hs pk)] @
     (if model_secondary (gm_config m) = 0 then [] else
       [(SUB_W, SOLDER_W, \<lambda>d. across d (r_solder_per_x pk) (r_solder_per_y pk)),
        (SOLDER_W, PCB_C_W, \<lambda>d. across d (r_pcb_c_per_x pk) (r_pcb_c_per_y pk)),
        (PCB_C_W, PCB_W, \<lambda>d. across d (r_pcb2_x pk) (r_pcb2_y pk) + r_pcb pk)]))"

inductive joined :: "grid_model_t \<Rightarrow> mesh \<Rightarrow> nat \<Rightarrow> nat \<Rightarrow> real \<Rightarrow> bool" for m M where
  east: "in_grid m l i (j + 1) \<Longrightarrow> joined m M (cell_node m l i j) (cell_node m l i (j + 1)) (to_east M l i j)"
| south: "in_grid m l (i + 1) j \<Longrightarrow> joined m M (cell_node m l i j) (cell_node m l (i + 1) j) (to_south M l i j)"
| below: "in_grid m (l + 1) i j \<Longrightarrow> joined m M (cell_node m l i j) (cell_node m (l + 1) i j) (to_below M l i j)"
| edge: "in_grid m l i j \<Longrightarrow> on_side m d i j \<Longrightarrow> part m l = Some (w, rx, ry) \<Longrightarrow>
    joined m M (cell_node m l i j) (grid_cells m + at_side w d) (edge_res m (gm_layers m ! l) d rx ry)"
| plate: "(v, w, f) \<in> set (plates m) \<Longrightarrow> joined m M (grid_cells m + at_side v d) (grid_cells m + at_side w d) (f d)"

inductive_cases joinedE: "joined m M n c R"

text \<open>Every resistor leads to a node of a greater number.\<close>

lemmas part_node_defs = SP_W_def SINK_C_W_def SINK_W_def SUB_W_def SOLDER_W_def PCB_C_W_def PCB_W_def

lemma at_side_inj:
  assumes "4 dvd v" "4 dvd w"
  shows "at_side v d = at_side w e \<longleftrightarrow> v = w \<and> d = e"
  using assms by (cases d; cases e) (auto elim!: dvdE, presburger+)

lemma at_side_less: "v + 4 \<le> w \<Longrightarrow> at_side v d < at_side w d"
  by (cases d) auto

lemma plates_nodes:
  assumes "(v, w, f) \<in> set (plates m)"
  shows "4 dvd v" "4 dvd w" "v + 4 \<le> w"
  using assms by (auto simp: plates_def Let_def part_node_defs split: if_splits)

lemma part_node: "part m l = Some (w, rx, ry) \<Longrightarrow> 4 dvd w"
  by (auto simp: part_def Let_def part_node_defs split: if_splits)

lemma in_grid_prev:
  "in_grid m l i (j + 1) \<Longrightarrow> in_grid m l i j" "in_grid m l (i + 1) j \<Longrightarrow> in_grid m l i j" "in_grid m (l + 1) i j \<Longrightarrow> in_grid m l i j"
  by (simp_all add: in_grid_def)

lemma joined_less:
  assumes "2 \<le> gm_rows m" "2 \<le> gm_cols m" "joined m M n c R"
  shows "n < c"
  using assms(3)
proof (cases rule: joined.cases)
  case (edge l i j d w rx ry)
  then show ?thesis using cell_node_less [of m l i j] by simp
next
  case (plate v w f d)
  then show ?thesis using plates_nodes(3) at_side_less by simp
qed (use assms(1,2) in \<open>auto simp: cell_node_next [symmetric] simp del: One_nat_def add_Suc_right\<close>)

text \<open>The resistors of a cell, and of a node of the package.\<close>

lemma joined_cell:
  assumes "in_grid m l i j"
  shows "joined m M (cell_node m l i j) c R \<longleftrightarrow>
      (j + 1 < gm_cols m \<and> c = cell_node m l i (j + 1) \<and> R = to_east M l i j) \<or>
      (i + 1 < gm_rows m \<and> c = cell_node m l (i + 1) j \<and> R = to_south M l i j) \<or>
      (l + 1 < gm_n_layers m \<and> c = cell_node m (l + 1) i j \<and> R = to_below M l i j) \<or>
      (\<exists>d w rx ry. on_side m d i j \<and> part m l = Some (w, rx, ry) \<and> c = grid_cells m + at_side w d \<and> R = edge_res m (gm_layers m ! l) d rx ry)" (is ?P)
  and "joined m M c (cell_node m l i j) R \<longleftrightarrow>
      (0 < j \<and> c = cell_node m l i (j - 1) \<and> R = to_east M l i (j - 1)) \<or>
      (0 < i \<and> c = cell_node m l (i - 1) j \<and> R = to_south M l (i - 1) j) \<or>
      (0 < l \<and> c = cell_node m (l - 1) i j \<and> R = to_below M (l - 1) i j)" (is ?Q)
proof -
  have lt: "l < gm_n_layers m" "i < gm_rows m" "j < gm_cols m" using assms by (simp_all add: in_grid_def)
  show ?P
  proof
    assume "joined m M (cell_node m l i j) c R"
    then show "(j + 1 < gm_cols m \<and> c = cell_node m l i (j + 1) \<and> R = to_east M l i j) \<or>
      (i + 1 < gm_rows m \<and> c = cell_node m l (i + 1) j \<and> R = to_south M l i j) \<or>
      (l + 1 < gm_n_layers m \<and> c = cell_node m (l + 1) i j \<and> R = to_below M l i j) \<or>
      (\<exists>d w rx ry. on_side m d i j \<and> part m l = Some (w, rx, ry) \<and> c = grid_cells m + at_side w d \<and> R = edge_res m (gm_layers m ! l) d rx ry)"
    proof (cases rule: joined.cases)
      case (east l' i' j')
      then show ?thesis using cell_node_inj [OF assms in_grid_prev(1) [OF east(4)]] by (auto simp: in_grid_def)
    next
      case (south l' i' j')
      then show ?thesis using cell_node_inj [OF assms in_grid_prev(2) [OF south(4)]] by (auto simp: in_grid_def)
    next
      case (below l' i' j')
      then show ?thesis using cell_node_inj [OF assms in_grid_prev(3) [OF below(4)]] by (auto simp: in_grid_def)
    next
      case (edge l' i' j' d w rx ry)
      then show ?thesis using cell_node_inj [OF assms edge(4)] by blast
    next
      case (plate v w f d)
      then show ?thesis using cell_node_no_package(1) [OF assms] by simp
    qed
  qed (use assms in \<open>auto intro: joined.intros simp: in_grid_def simp del: One_nat_def add_Suc_right Suc_eq_plus1 [symmetric]\<close>)
  have e: "0 < j \<Longrightarrow> joined m M (cell_node m l i (j - 1)) (cell_node m l i j) (to_east M l i (j - 1))"
    "0 < i \<Longrightarrow> joined m M (cell_node m l (i - 1) j) (cell_node m l i j) (to_south M l (i - 1) j)"
    "0 < l \<Longrightarrow> joined m M (cell_node m (l - 1) i j) (cell_node m l i j) (to_below M (l - 1) i j)"
    using assms joined.intros(1) [of m l i "j - 1" M] joined.intros(2) [of m l "i - 1" j M] joined.intros(3) [of m "l - 1" i j M] by simp_all
  show ?Q
  proof
    assume "joined m M c (cell_node m l i j) R"
    then show "(0 < j \<and> c = cell_node m l i (j - 1) \<and> R = to_east M l i (j - 1)) \<or>
      (0 < i \<and> c = cell_node m l (i - 1) j \<and> R = to_south M l (i - 1) j) \<or>
      (0 < l \<and> c = cell_node m (l - 1) i j \<and> R = to_below M (l - 1) i j)"
    proof (cases rule: joined.cases)
      case (east l' i' j')
      then show ?thesis using cell_node_inj [OF assms east(4)] by auto
    next
      case (south l' i' j')
      then show ?thesis using cell_node_inj [OF assms south(4)] by auto
    next
      case (below l' i' j')
      then show ?thesis using cell_node_inj [OF assms below(4)] by auto
    next
      case (edge l' i' j' d w rx ry)
      then show ?thesis using cell_node_no_package(1) [OF assms] by simp
    next
      case (plate v w f d)
      then show ?thesis using cell_node_no_package(1) [OF assms] by simp
    qed
  qed (elim disjE conjE; simp only: e)
qed

end
