(* ===== verification/Grid_Rows.thy ===== *)
theory Grid_Rows
  imports Grid_Joined
begin

text \<open>
  The rows that the code writes list the resistors of the network: the row of every node, of a
  cell or of the package, names each node joined with it once, with the resistance between them.
\<close>

section \<open>Rows of cells\<close>

definition row_joined :: "grid_model_t \<Rightarrow> mesh \<Rightarrow> nat \<Rightarrow> (nat \<times> real) list \<Rightarrow> bool" where
  "row_joined m M n ls \<longleftrightarrow> distinct (map fst ls) \<and> set ls = {(c, R). joined m M n c R \<or> joined m M c n R}"

lemma row_joined_mset: "mset ls = mset ks \<Longrightarrow> row_joined m M n ls = row_joined m M n ks"
  using mset_eq_imp_distinct_iff [of "map fst ls" "map fst ks"] mset_eq_setD [of ls ks] by (simp add: row_joined_def)

definition neighbours :: "grid_model_t \<Rightarrow> nat \<Rightarrow> nat \<Rightarrow> nat \<Rightarrow> (nat \<times> nat \<times> nat) list" where
  "neighbours m l i j = (if 0 < j then [(l, i, j - 1)] else []) @ (if j + 1 < gm_cols m then [(l, i, j + 1)] else []) @
     (if 0 < i then [(l, i - 1, j)] else []) @ (if i + 1 < gm_rows m then [(l, i + 1, j)] else []) @
     (if l + 1 < gm_n_layers m then [(l + 1, i, j)] else []) @ (if 0 < l then [(l - 1, i, j)] else [])"

lemma neighbours_ok: "in_grid m l i j \<Longrightarrow> distinct (neighbours m l i j) \<and> (\<forall>(a, b, c) \<in> set (neighbours m l i j). in_grid m a b c)"
  by (auto simp: neighbours_def in_grid_def)

lemma cell_rule_nodes:
  "map fst (cell_rule m M ly l i j) = map (\<lambda>(a, b, c). cell_node m a b c) (neighbours m l i j) @
     (case part m l of None \<Rightarrow> [] | Some (w, rx, ry) \<Rightarrow> map (\<lambda>d. grid_cells m + at_side w d) (filter (\<lambda>d. on_side m d i j) all_sides))"
proof -
  have b: "map fst (concat (map (\<lambda>d. if P d then border_link m ly l d else []) ds)) =
    (case part m l of None \<Rightarrow> [] | Some (w, rx, ry) \<Rightarrow> map (\<lambda>d. grid_cells m + at_side w d) (filter P ds))" for P ds
    by (induction ds) (auto simp: border_link_part split: option.split)
  show ?thesis unfolding cell_rule_def neighbours_def map_append b if_distrib [of "map _"] by simp
qed

lemma cell_rule_distinct:
  assumes "in_grid m l i j"
  shows "distinct (map fst (cell_rule m M ly l i j))"
proof -
  note n = neighbours_ok [OF assms]
  have inj: "inj_on (\<lambda>(a, b, c). cell_node m a b c) (set (neighbours m l i j))"
  proof (rule inj_onI, clarsimp)
    fix a b c a' b' c'
    assume "(a, b, c) \<in> set (neighbours m l i j)" "(a', b', c') \<in> set (neighbours m l i j)" "cell_node m a b c = cell_node m a' b' c'"
    then show "a = a' \<and> b = b' \<and> c = c'" using n cell_node_inj by blast
  qed
  have "distinct (map (\<lambda>d. grid_cells m + at_side w d) (filter P all_sides))" if "4 dvd w" for w P
    using at_side_inj [OF that that] by (auto simp: distinct_map inj_on_def all_sides_def)
  then have p: "distinct (case part m l of None \<Rightarrow> [] | Some (w, rx, ry) \<Rightarrow>
      map (\<lambda>d. grid_cells m + at_side w d) (filter (\<lambda>d. on_side m d i j) all_sides))"
    using part_node by (auto split: option.split)
  have "cell_node m a b c < grid_cells m" if "(a, b, c) \<in> set (neighbours m l i j)" for a b c using n that by (auto intro: cell_node_less)
  then have "set (map (\<lambda>(a, b, c). cell_node m a b c) (neighbours m l i j)) \<inter>
      set (case part m l of None \<Rightarrow> [] | Some (w, rx, ry) \<Rightarrow> map (\<lambda>d. grid_cells m + at_side w d) (filter (\<lambda>d. on_side m d i j) all_sides)) = {}"
    by (fastforce split: option.split)
  then show ?thesis unfolding cell_rule_nodes using n inj p by (simp add: distinct_map)
qed

lemma cell_rule_joined:
  assumes "in_grid m l i j"
  shows "row_joined m M (cell_node m l i j) (cell_rule m M (gm_layers m ! l) l i j)"
proof -
  have s: "(c, R) \<in> set (if P then [(a, b)] else []) \<longleftrightarrow> P \<and> c = a \<and> R = b" for R b :: real and c a :: nat and P by auto
  have "(\<exists>d \<in> set all_sides. (c, R) \<in> set (if on_side m d i j then border_link m ly l d else [])) \<longleftrightarrow>
    (\<exists>d w rx ry. on_side m d i j \<and> part m l = Some (w, rx, ry) \<and> c = grid_cells m + at_side w d \<and> R = edge_res m ly d rx ry)" for c R ly
  proof -
    have "d \<in> set all_sides" for d by (cases d) (simp_all add: all_sides_def)
    then show ?thesis by (cases "part m l") (auto simp: border_link_part split: if_splits)
  qed
  then have b: "(c, R) \<in> set (concat (map (\<lambda>d. if on_side m d i j then border_link m ly l d else []) all_sides)) \<longleftrightarrow>
    (\<exists>d w rx ry. on_side m d i j \<and> part m l = Some (w, rx, ry) \<and> c = grid_cells m + at_side w d \<and> R = edge_res m ly d rx ry)" for c R ly
    unfolding set_concat set_map UN_iff bex_simps(7) .
  have "(c, R) \<in> set (cell_rule m M (gm_layers m ! l) l i j) \<longleftrightarrow>
    joined m M (cell_node m l i j) c R \<or> joined m M c (cell_node m l i j) R" for c R
    unfolding cell_rule_def set_append Un_iff s b joined_cell [OF assms] by blast
  then show ?thesis using cell_rule_distinct [OF assms] by (auto simp: row_joined_def)
qed

section \<open>Rows of the package\<close>

lemma joined_node:
  assumes "4 dvd w"
  shows "joined m M (grid_cells m + at_side w d) c R \<longleftrightarrow> (\<exists>v f. (w, v, f) \<in> set (plates m) \<and> c = grid_cells m + at_side v d \<and> R = f d)" (is ?P)
  and "joined m M c (grid_cells m + at_side w d) R \<longleftrightarrow>
    (\<exists>v f. (v, w, f) \<in> set (plates m) \<and> c = grid_cells m + at_side v d \<and> R = f d) \<or>
    (\<exists>l i j rx ry. in_grid m l i j \<and> on_side m d i j \<and> part m l = Some (w, rx, ry) \<and> c = cell_node m l i j \<and>
      R = edge_res m (gm_layers m ! l) d rx ry)" (is "?Q \<longleftrightarrow> ?S")
proof -
  have no: "\<not> in_grid m l i j" if "grid_cells m + k = cell_node m l i j" for k l i j
    using cell_node_less [of m l i j] that by force
  show ?P
  proof
    assume "joined m M (grid_cells m + at_side w d) c R"
    then show "\<exists>v f. (w, v, f) \<in> set (plates m) \<and> c = grid_cells m + at_side v d \<and> R = f d"
    proof (cases rule: joined.cases)
      case (plate v w' f d')
      then show ?thesis using at_side_inj [OF assms plates_nodes(1) [OF plate(4)]] by auto
    qed (use no in_grid_prev in blast)+
  qed (auto intro: joined.plate)
  show "?Q \<longleftrightarrow> ?S"
  proof
    assume ?Q
    then show ?S
    proof (cases rule: joined.cases)
      case (edge l i j d' w' rx ry)
      have "w' = w \<and> d' = d" using at_side_inj [OF assms part_node [OF edge(6)], of d d'] edge(2) by simp
      then show ?thesis using edge by blast
    next
      case (plate v w' f d')
      then show ?thesis using at_side_inj [OF assms plates_nodes(2) [OF plate(4)]] by auto
    qed (use no in blast)+
  next
    assume ?S
    then show ?Q by (elim disjE exE conjE; simp add: joined.plate joined.edge)
  qed
qed

lemma part_iff:
  assumes "stacked m"
  shows "part m l = Some (SP_W, rx, ry) \<longleftrightarrow> l = spidx m \<and> rx = r_sp1_x (gm_pack m) \<and> ry = r_sp1_y (gm_pack m)"
    "part m l = Some (SINK_C_W, rx, ry) \<longleftrightarrow> l = hsidx m \<and> rx = r_hs1_x (gm_pack m) \<and> ry = r_hs1_y (gm_pack m)"
    "part m l \<noteq> Some (SINK_W, rx, ry)" "part m l \<noteq> Some (PCB_W, rx, ry)"
    "model_secondary (gm_config m) \<noteq> 0 \<Longrightarrow> part m l = Some (SUB_W, rx, ry) \<longleftrightarrow>
      l = LAYER_SUB \<and> rx = r_sub1_x (gm_pack m) \<and> ry = r_sub1_y (gm_pack m)"
    "model_secondary (gm_config m) \<noteq> 0 \<Longrightarrow> part m l = Some (SOLDER_W, rx, ry) \<longleftrightarrow>
      l = LAYER_SOLDER \<and> rx = r_solder1_x (gm_pack m) \<and> ry = r_solder1_y (gm_pack m)"
    "model_secondary (gm_config m) \<noteq> 0 \<Longrightarrow> part m l = Some (PCB_C_W, rx, ry) \<longleftrightarrow>
      l = LAYER_PCB \<and> rx = r_pcb1_x (gm_pack m) \<and> ry = r_pcb1_y (gm_pack m)"
  using stackedD(4,5) [OF assms] by (auto simp: part_def Let_def part_node_defs spidx_def hsidx_def stack_defs)

lemma edge_cells_ok:
  assumes "stacked m" "l < gm_n_layers m"
  shows "set (edge_cells m l d) = {cell_node m l i j | i j. in_grid m l i j \<and> on_side m d i j}" "distinct (edge_cells m l d)"
proof -
  note n = stackedD [OF assms(1)]
  show "set (edge_cells m l d) = {cell_node m l i j | i j. in_grid m l i j \<and> on_side m d i j}"
    using assms(2) n(1,2) by (cases d) (auto simp: edge_cells_def on_side_def in_grid_def)
  have g: "in_grid m l i j" if "i < gm_rows m" "j < gm_cols m" for i j using that assms(2) by (simp add: in_grid_def)
  show "distinct (edge_cells m l d)"
    using n(1,2) by (cases d) (auto simp: edge_cells_def distinct_map inj_on_def g)
qed

text \<open>A row of the package: the cells of its layer, then other nodes.\<close>

lemma package_row_joined:
  assumes "stacked m" "4 dvd w" "l < gm_n_layers m"
    and p: "\<And>k x y. part m k = Some (w, x, y) \<longleftrightarrow> k = l \<and> x = rx \<and> y = ry"
    and d: "distinct (map fst vs)" "\<And>v r. (v, r) \<in> set vs \<Longrightarrow> 4 dvd v"
    and s: "\<And>v r. (v, r) \<in> set vs \<longleftrightarrow> (\<exists>f. r = f d \<and> ((w, v, f) \<in> set (plates m) \<or> (v, w, f) \<in> set (plates m)))"
  shows "row_joined m M (grid_cells m + at_side w d)
    (edge_links m (gm_layers m ! l) l d rx ry @ map (\<lambda>(v, r). (grid_cells m + at_side v d, r)) vs)"
proof -
  let ?E = "edge_links m (gm_layers m ! l) l d rx ry" and ?V = "map (\<lambda>(v, r). (grid_cells m + at_side v d, r)) vs"
  note e = edge_cells_ok [OF assms(1,3), of d]
  have E: "(c, R) \<in> set ?E \<longleftrightarrow> (\<exists>i j. in_grid m l i j \<and> on_side m d i j \<and> c = cell_node m l i j \<and> R = edge_res m (gm_layers m ! l) d rx ry)" for c R
    using e(1) by (auto simp: edge_links_def)
  have V: "(c, R) \<in> set ?V \<longleftrightarrow> (\<exists>v. (v, R) \<in> set vs \<and> c = grid_cells m + at_side v d)" for c R by force
  have "(c, R) \<in> set (?E @ ?V) \<longleftrightarrow> joined m M (grid_cells m + at_side w d) c R \<or> joined m M c (grid_cells m + at_side w d) R" for c R
    unfolding set_append Un_iff E V s joined_node [OF assms(2)] p by blast
  then have "set (?E @ ?V) = {(c, R). joined m M (grid_cells m + at_side w d) c R \<or> joined m M c (grid_cells m + at_side w d) R}"
    by blast
  moreover have "distinct (map fst (?E @ ?V))"
  proof -
    have "map fst ?E = edge_cells m l d" "map fst ?V = map (\<lambda>v. grid_cells m + at_side v d) (map fst vs)"
      by (simp_all add: edge_links_def comp_def split_beta)
    moreover have "inj_on (\<lambda>v. grid_cells m + at_side v d) (set (map fst vs))"
      by (rule inj_onI) (use d(2) at_side_inj in auto)
    moreover have "set (edge_cells m l d) \<inter> set (map (\<lambda>v. grid_cells m + at_side v d) (map fst vs)) = {}"
      unfolding e(1) by auto
    ultimately show ?thesis using e(2) d(1) unfolding map_append distinct_append by (simp only: distinct_map simp_thms)
  qed
  ultimately show ?thesis unfolding row_joined_def by blast
qed

definition package_rows :: "grid_model_t \<Rightarrow> row list" where
  "package_rows m =
    (let ly = (\<lambda>l. gm_layers m ! l) in
     map (sink_outer_row m) all_sides @ map (sink_inner_row m (ly (hsidx m))) all_sides @ map (spreader_row m (ly (spidx m))) all_sides @
     (if model_secondary (gm_config m) = 0 then [] else
      map (pcb_outer_row m) all_sides @ map (pcb_inner_row m (ly LAYER_PCB)) all_sides @ map (solder_row m (ly LAYER_SOLDER)) all_sides @
      map (substrate_row m (ly LAYER_SUB)) all_sides))"

lemma stacked_layers:
  assumes "stacked m"
  shows "spidx m < gm_n_layers m" "hsidx m < gm_n_layers m"
    "model_secondary (gm_config m) \<noteq> 0 \<Longrightarrow> LAYER_PCB < gm_n_layers m \<and> LAYER_SOLDER < gm_n_layers m \<and> LAYER_SUB < gm_n_layers m"
  using stackedD(4,5) [OF assms] by (simp_all add: spidx_def hsidx_def stack_defs)

lemma package_rows_eq:
  assumes "stacked m"
  shows "\<exists>ps ss. primary_rows m = Inr ps \<and> secondary_rows m = Inr ss \<and> package_rows m = ps @ ss"
  using stacked_layers [OF assms] stackedD(3) [OF assms]
  by (simp add: primary_rows_def secondary_rows_def package_rows_def Let_def)

text \<open>The two rows without a layer.\<close>

lemma outer_row_joined:
  assumes w: "4 dvd w" "4 dvd v" and p: "\<And>l rx ry. part m l \<noteq> Some (w, rx, ry)"
    and s: "\<And>u f. (w, u, f) \<notin> set (plates m)" "\<And>u f. (u, w, f) \<in> set (plates m) \<longleftrightarrow> u = v \<and> f = F"
  shows "row_joined m M (grid_cells m + at_side w d) [(grid_cells m + at_side v d, F d)]"
  using s(1) by (auto simp: row_joined_def joined_node [OF w(1)] p s(2))

lemma primary_row_joined:
  assumes "stacked m"
  shows "row_joined m M (grid_cells m + at_side SINK_W d) (fst (snd (sink_outer_row m d)))"
    "row_joined m M (grid_cells m + at_side SINK_C_W d) (fst (snd (sink_inner_row m (gm_layers m ! hsidx m) d)))"
    "row_joined m M (grid_cells m + at_side SP_W d) (fst (snd (spreader_row m (gm_layers m ! spidx m) d)))"
proof -
  note P = part_iff [OF assms] and L = stacked_layers [OF assms]
  have dv: "4 dvd SINK_W" "4 dvd SINK_C_W" "4 dvd SP_W" by (simp_all add: part_node_defs)
  note pl = plates_def Let_def part_node_defs
  have "row_joined m M (grid_cells m + at_side SINK_W d)
    [(grid_cells m + at_side SINK_C_W d, (\<lambda>d. across d (r_hs2_x (gm_pack m)) (r_hs2_y (gm_pack m)) + r_hs (gm_pack m)) d)]"
    by (rule outer_row_joined [OF dv(1,2) P(3)]) (auto simp: pl split: if_splits)
  then show "row_joined m M (grid_cells m + at_side SINK_W d) (fst (snd (sink_outer_row m d)))"
    by (simp add: sink_outer_row_def Let_def)
  let ?vs = "[(SP_W, across d (r_sp_per_x (gm_pack m)) (r_sp_per_y (gm_pack m))),
    (SINK_W, across d (r_hs2_x (gm_pack m)) (r_hs2_y (gm_pack m)) + r_hs (gm_pack m))]"
  have "row_joined m M (grid_cells m + at_side SINK_C_W d) (edge_links m (gm_layers m ! hsidx m) (hsidx m) d (r_hs1_x (gm_pack m)) (r_hs1_y (gm_pack m)) @
      map (\<lambda>(v, r). (grid_cells m + at_side v d, r)) ?vs)"
    by (rule package_row_joined [OF assms dv(2) L(2) P(2)]) (auto simp: pl split: if_splits)
  then show "row_joined m M (grid_cells m + at_side SINK_C_W d) (fst (snd (sink_inner_row m (gm_layers m ! hsidx m) d)))"
    by (simp add: sink_inner_row_def Let_def)
  let ?ws = "[(SINK_C_W, across d (r_sp_per_x (gm_pack m)) (r_sp_per_y (gm_pack m)))]"
  have "row_joined m M (grid_cells m + at_side SP_W d) (edge_links m (gm_layers m ! spidx m) (spidx m) d (r_sp1_x (gm_pack m)) (r_sp1_y (gm_pack m)) @
      map (\<lambda>(v, r). (grid_cells m + at_side v d, r)) ?ws)"
    by (rule package_row_joined [OF assms dv(3) L(1) P(1)]) (auto simp: pl split: if_splits)
  then show "row_joined m M (grid_cells m + at_side SP_W d) (fst (snd (spreader_row m (gm_layers m ! spidx m) d)))"
    by (simp add: spreader_row_def Let_def)
qed

lemma secondary_row_joined:
  assumes "stacked m" and sec: "model_secondary (gm_config m) \<noteq> 0"
  shows "row_joined m M (grid_cells m + at_side PCB_W d) (fst (snd (pcb_outer_row m d)))"
    "row_joined m M (grid_cells m + at_side PCB_C_W d) (fst (snd (pcb_inner_row m (gm_layers m ! LAYER_PCB) d)))"
    "row_joined m M (grid_cells m + at_side SOLDER_W d) (fst (snd (solder_row m (gm_layers m ! LAYER_SOLDER) d)))"
    "row_joined m M (grid_cells m + at_side SUB_W d) (fst (snd (substrate_row m (gm_layers m ! LAYER_SUB) d)))"
proof -
  note P = part_iff(4) [OF assms(1)] part_iff(5-7) [OF assms]
  have L: "LAYER_PCB < gm_n_layers m" "LAYER_SOLDER < gm_n_layers m" "LAYER_SUB < gm_n_layers m"
    using stacked_layers(3) [OF assms] by simp_all
  have dv: "4 dvd PCB_W" "4 dvd PCB_C_W" "4 dvd SOLDER_W" "4 dvd SUB_W" by (simp_all add: part_node_defs)
  note pl = plates_def Let_def part_node_defs
  have "row_joined m M (grid_cells m + at_side PCB_W d)
    [(grid_cells m + at_side PCB_C_W d, (\<lambda>d. across d (r_pcb2_x (gm_pack m)) (r_pcb2_y (gm_pack m)) + r_pcb (gm_pack m)) d)]"
    by (rule outer_row_joined [OF dv(1,2) P(1)]) (use sec in \<open>auto simp: pl split: if_splits\<close>)
  then show "row_joined m M (grid_cells m + at_side PCB_W d) (fst (snd (pcb_outer_row m d)))"
    by (simp add: pcb_outer_row_def Let_def)
  let ?vs = "[(SOLDER_W, across d (r_pcb_c_per_x (gm_pack m)) (r_pcb_c_per_y (gm_pack m))),
    (PCB_W, across d (r_pcb2_x (gm_pack m)) (r_pcb2_y (gm_pack m)) + r_pcb (gm_pack m))]"
  have "row_joined m M (grid_cells m + at_side PCB_C_W d) (edge_links m (gm_layers m ! LAYER_PCB) LAYER_PCB d (r_pcb1_x (gm_pack m)) (r_pcb1_y (gm_pack m)) @
      map (\<lambda>(v, r). (grid_cells m + at_side v d, r)) ?vs)"
    by (rule package_row_joined [OF assms(1) dv(2) L(1) P(4)]) (use sec in \<open>auto simp: pl split: if_splits\<close>)
  then show "row_joined m M (grid_cells m + at_side PCB_C_W d) (fst (snd (pcb_inner_row m (gm_layers m ! LAYER_PCB) d)))"
    by (simp add: pcb_inner_row_def Let_def)
  let ?ws = "[(SUB_W, across d (r_solder_per_x (gm_pack m)) (r_solder_per_y (gm_pack m))),
    (PCB_C_W, across d (r_pcb_c_per_x (gm_pack m)) (r_pcb_c_per_y (gm_pack m)))]"
  have "row_joined m M (grid_cells m + at_side SOLDER_W d) (edge_links m (gm_layers m ! LAYER_SOLDER) LAYER_SOLDER d (r_solder1_x (gm_pack m))
      (r_solder1_y (gm_pack m)) @ map (\<lambda>(v, r). (grid_cells m + at_side v d, r)) ?ws)"
    by (rule package_row_joined [OF assms(1) dv(3) L(2) P(3)]) (use sec in \<open>auto simp: pl split: if_splits\<close>)
  then show "row_joined m M (grid_cells m + at_side SOLDER_W d) (fst (snd (solder_row m (gm_layers m ! LAYER_SOLDER) d)))"
    by (simp add: solder_row_def Let_def)
  let ?us = "[(SOLDER_W, across d (r_solder_per_x (gm_pack m)) (r_solder_per_y (gm_pack m)))]"
  have "row_joined m M (grid_cells m + at_side SUB_W d) (edge_links m (gm_layers m ! LAYER_SUB) LAYER_SUB d (r_sub1_x (gm_pack m)) (r_sub1_y (gm_pack m)) @
      map (\<lambda>(v, r). (grid_cells m + at_side v d, r)) ?us)"
    by (rule package_row_joined [OF assms(1) dv(4) L(3) P(2)]) (use sec in \<open>auto simp: pl split: if_splits\<close>)
  then show "row_joined m M (grid_cells m + at_side SUB_W d) (fst (snd (substrate_row m (gm_layers m ! LAYER_SUB) d)))"
    by (simp add: substrate_row_def Let_def)
qed

end
