(* ===== verification/Grid_Assembly.thy ===== *)
theory Grid_Assembly
  imports Grid_Rows
begin

text \<open>
  The builder of the matrix returns: every row is written, in the order of the loops, and the rows
  fill the coordinate arrays exactly, so that neither a write behind their end nor the final
  \<open>fatal\<close> can happen.
\<close>

section \<open>Steps that append triples\<close>

definition appends :: "nat \<Rightarrow> (coo_state \<Rightarrow> coo_state res) \<Rightarrow> triple list \<Rightarrow> bool" where
  "appends nnz f ts \<longleftrightarrow>
     (\<forall>s. length (triples s) + length ts \<le> nnz \<longrightarrow> (\<exists>t. f s = Inr t \<and> triples t = triples s @ ts))"

lemma appends_row: "row_pos r \<Longrightarrow> appends nnz (write_row nnz r) (row_triples r)"
  unfolding appends_def using write_row_ok by blast

lemma appends_rows: "list_all row_pos rs \<Longrightarrow> appends nnz (in_order (map (write_row nnz) rs)) (concat (map row_triples rs))"
  unfolding appends_def using write_rows_ok by blast

lemma appends_loop:
  assumes "\<And>i. i < n \<Longrightarrow> appends nnz (body i) (g i)"
  shows "appends nnz (for_up 0 n body) (concat (map g [0..<n]))"
  unfolding appends_def
proof (intro allI impI)
  fix s :: coo_state assume len: "length (triples s) + length (concat (map g [0..<n])) \<le> nnz"
  show "\<exists>t. for_up 0 n body s = Inr t \<and> triples t = triples s @ concat (map g [0..<n])"
  proof (rule for_up_rule [where I = "\<lambda>i t. triples t = triples s @ concat (map g [0..<i])"])
    fix i and t :: coo_state assume i: "i < n" and I: "triples t = triples s @ concat (map g [0..<i])"
    have "[0..<n] = [0..<Suc i] @ [Suc i..<n]" using i upt_add_eq_append [of 0 "Suc i" "n - Suc i"] by simp
    then have "length (triples t) + length (g i) \<le> nnz" using len I by simp
    then obtain t' where "body i t = Inr t'" "triples t' = triples t @ g i"
      using assms [OF i, unfolded appends_def, rule_format, of t] by blast
    then show "\<exists>t'. body i t = Inr t' \<and> triples t' = triples s @ concat (map g [0..<Suc i])" using I by simp
  qed simp_all
qed

lemma appends_fun_cong: "(\<And>s. f s = f' s) \<Longrightarrow> appends nnz f ts = appends nnz f' ts"
  by (simp add: appends_def)

section \<open>Positive resistances\<close>

definition secondary_ok :: "grid_model_t \<Rightarrow> bool" where
  "secondary_ok m \<longleftrightarrow> (let p = gm_pack m; c = gm_config m in
     0 < r_sub1_x p \<and> 0 < r_sub1_y p \<and> 0 < r_solder1_x p \<and> 0 < r_solder1_y p \<and> 0 < r_pcb1_x p \<and> 0 < r_pcb1_y p \<and>
     0 < r_pcb2_x p \<and> 0 < r_pcb2_y p \<and> 0 < r_pcb p \<and> 0 < r_solder_per_x p \<and> 0 < r_solder_per_y p \<and> 0 < r_pcb_c_per_x p \<and>
     0 < r_pcb_c_per_y p \<and> 0 < r_amb_sec_c_per_x p \<and> 0 < r_amb_sec_c_per_y p \<and> 0 < r_amb_sec_per p \<and>
     0 < r_convec_sec c \<and> s_pcb c \<noteq> 0 \<and> 0 < gm_width m \<and> 0 < gm_height m)"

definition wired :: "resistances \<Rightarrow> grid_model_t \<Rightarrow> mesh \<Rightarrow> bool" where
  "wired res m M \<longleftrightarrow> stacked m \<and> pack_R_ok (gm_pack m) \<and> (model_secondary (gm_config m) \<noteq> 0 \<longrightarrow> secondary_ok m) \<and>
     (\<forall>l < gm_n_layers m. resistive (gm_layers m ! l)) \<and>
     (\<forall>l i j. in_grid m l i j \<longrightarrow> 0 < to_east M l i j \<and> 0 < to_south M l i j \<and> 0 < to_below M l i j \<and>
       (\<exists>R. res m l i j = Inr R \<and> reads_mesh m M l i j R))"

lemma wiredD:
  assumes "wired res m M"
  shows "stacked m" "pack_R_ok (gm_pack m)" "model_secondary (gm_config m) \<noteq> 0 \<Longrightarrow> secondary_ok m"
    "l < gm_n_layers m \<Longrightarrow> resistive (gm_layers m ! l)"
    "in_grid m l i j \<Longrightarrow> 0 < to_east M l i j \<and> 0 < to_south M l i j \<and> 0 < to_below M l i j"
    "in_grid m l i j \<Longrightarrow> \<exists>R. res m l i j = Inr R \<and> reads_mesh m M l i j R"
  using assms unfolding wired_def by blast+

definition pcb_res :: "grid_model_t \<Rightarrow> real" where
  "pcb_res m = (let c = gm_config m in
     r_convec_sec c * (s_pcb c * s_pcb c) / (gm_width m / real (gm_cols m) * (gm_height m / real (gm_rows m))))"

text \<open>The resistances between a cell and the ambient.\<close>

definition ambient_list :: "grid_model_t \<Rightarrow> nat \<Rightarrow> real list" where
  "ambient_list m l = (if l = hsidx m then [ly_rz (gm_layers m ! l)]
     else if l = LAYER_PCB \<and> model_secondary (gm_config m) \<noteq> 0 then [pcb_res m] else [])"

lemma pcb_ambient_ok:
  assumes "wired res m M" "model_secondary (gm_config m) \<noteq> 0"
  shows "pcb_ambient m = Inr (pcb_res m) \<and> 0 < pcb_res m"
proof -
  have s: "secondary_ok m" by (rule wiredD(3) [OF assms])
  then have "s_pcb (gm_config m) \<noteq> 0" by (simp add: secondary_ok_def Let_def)
  then have "0 < s_pcb (gm_config m) * s_pcb (gm_config m)" by (simp add: zero_less_mult_iff neq_iff disj_commute)
  then show ?thesis
    using s stackedD(1,2) [OF wiredD(1) [OF assms(1)]] by (simp add: secondary_ok_def Let_def pcb_ambient_def pcb_res_def)
qed

lemma cell_ambient_ok:
  assumes "wired res m M" "l < gm_n_layers m"
  shows "cell_ambient m (gm_layers m ! l) l = Inr (ambient_list m l)" "\<forall>R \<in> set (ambient_list m l). 0 < R"
proof -
  note w = wiredD [OF assms(1)] and n = stackedD [OF wiredD(1) [OF assms(1)]]
  note pcb = pcb_ambient_ok [OF assms(1)]
  show "cell_ambient m (gm_layers m ! l) l = Inr (ambient_list m l)"
    using pcb n(4,5) by (auto simp: cell_ambient_def ambient_list_def Let_def spidx_def hsidx_def stack_defs)
  show "\<forall>R \<in> set (ambient_list m l). 0 < R"
    using pcb w(4) [OF assms(2)] by (auto simp: ambient_list_def resistive_def)
qed

lemma part_pos:
  assumes "wired res m M" "part m l = Some (w, rx, ry)"
  shows "0 < rx \<and> 0 < ry"
  using assms(2) wiredD(2,3) [OF assms(1)]
  by (auto simp: part_def Let_def pack_R_ok_def secondary_ok_def split: if_splits)

lemma edge_res_pos:
  assumes "resistive ly" "0 < rx" "0 < ry"
  shows "0 < edge_res m ly d rx ry"
  using assms by (cases d) (simp_all add: edge_res_def resistive_def add_pos_nonneg)

lemma plates_pos:
  assumes "wired res m M" "(v, w, f) \<in> set (plates m)"
  shows "0 < f d"
proof -
  note k = wiredD(2,3) [OF assms(1)]
  have p: "0 < r_sp_per_x (gm_pack m)" "0 < r_sp_per_y (gm_pack m)" "0 < r_hs2_x (gm_pack m)" "0 < r_hs2_y (gm_pack m)" "0 < r_hs (gm_pack m)"
    using k(1) by (simp_all add: pack_R_ok_def)
  have s: "0 < r_solder_per_x (gm_pack m)" "0 < r_solder_per_y (gm_pack m)" "0 < r_pcb_c_per_x (gm_pack m)" "0 < r_pcb_c_per_y (gm_pack m)"
    "0 < r_pcb2_x (gm_pack m)" "0 < r_pcb2_y (gm_pack m)" "0 < r_pcb (gm_pack m)" if "model_secondary (gm_config m) \<noteq> 0"
    using k(2) [OF that] by (simp_all add: secondary_ok_def Let_def)
  show ?thesis
    using assms(2) p s by (cases d) (auto simp: plates_def Let_def add_pos_pos split: if_splits)
qed

lemma joined_pos:
  assumes "wired res m M" "joined m M n c R"
  shows "0 < R"
  using assms(2)
proof (cases rule: joined.cases)
  case (edge l i j d w rx ry)
  then have "l < gm_n_layers m" by (simp add: in_grid_def)
  then show ?thesis using edge part_pos [OF assms(1)] wiredD(4) [OF assms(1)] by (simp add: edge_res_pos)
next
  case (plate v w f d)
  then show ?thesis using plates_pos [OF assms(1)] by blast
qed (use wiredD(5) [OF assms(1)] in_grid_prev in blast)+

section \<open>The rows in order\<close>

definition grid_dim :: "grid_model_t \<Rightarrow> nat" where
  "grid_dim m = gm_n_layers m * gm_cols m * gm_rows m + extra_nodes (gm_config m)"

lemma grid_dim_cells: "grid_dim m = grid_cells m + extra_nodes (gm_config m)"
  by (simp add: grid_dim_def grid_cells_def mult.commute mult.left_commute)

definition good_row :: "grid_model_t \<Rightarrow> mesh \<Rightarrow> row \<Rightarrow> bool" where
  "good_row m M = (\<lambda>(n, ls, gs). row_joined m M n ls \<and> (\<forall>R \<in> set gs. 0 < R))"

lemma good_row_pos:
  assumes "wired res m M" "good_row m M r"
  shows "row_pos r"
  using assms joined_pos [OF assms(1)] by (auto simp: good_row_def row_pos_def row_joined_def split: prod.splits)

lemma cell_row_ok:
  assumes "wired res m M" "in_grid m l i j"
  shows "\<exists>ls. cell_row res m l i j = Inr (cell_node m l i j, ls, ambient_list m l) \<and>
    mset ls = mset (cell_rule m M (gm_layers m ! l) l i j) \<and> good_row m M (cell_node m l i j, ls, ambient_list m l)"
proof -
  note w = wiredD [OF assms(1)] and n = stackedD [OF wiredD(1) [OF assms(1)]]
  obtain R where R: "res m l i j = Inr R" "reads_mesh m M l i j R" using w(6) [OF assms(2)] by blast
  have l: "l < gm_n_layers m" using assms(2) by (simp add: in_grid_def)
  let ?ls = "cell_links m (gm_layers m ! l) R l (i * gm_cols m + j) (cell_node m l i j)"
  have ms: "mset ?ls = mset (cell_rule m M (gm_layers m ! l) l i j)" by (rule cell_links_rule [OF n(1,2) assms(2) R(2)])
  have "row_joined m M (cell_node m l i j) ?ls"
    using cell_rule_joined [OF assms(2)] row_joined_mset [OF ms] by blast
  then show ?thesis
    using ms R(1) l n(3) cell_ambient_ok [OF assms(1) l] by (intro exI [of _ ?ls]) (simp add: cell_row_def good_row_def)
qed

definition cell_row_at :: "resistances \<Rightarrow> grid_model_t \<Rightarrow> nat \<Rightarrow> nat \<Rightarrow> nat \<Rightarrow> row" where
  "cell_row_at res m l i j = projr (cell_row res m l i j)"

definition cell_rows :: "resistances \<Rightarrow> grid_model_t \<Rightarrow> row list" where
  "cell_rows res m = concat (map (\<lambda>l. concat (map (\<lambda>i. map (cell_row_at res m l i) [0..<gm_cols m]) [0..<gm_rows m])) [0..<gm_n_layers m])"

definition matrix_rows :: "resistances \<Rightarrow> grid_model_t \<Rightarrow> row list" where
  "matrix_rows res m = cell_rows res m @ package_rows m"

lemma cell_row_at_ok:
  assumes "wired res m M" "in_grid m l i j"
  shows "cell_row res m l i j = Inr (cell_row_at res m l i j)" "good_row m M (cell_row_at res m l i j)"
    "fst (cell_row_at res m l i j) = cell_node m l i j" "snd (snd (cell_row_at res m l i j)) = ambient_list m l"
    "length (fst (snd (cell_row_at res m l i j))) = length (cell_rule m M (gm_layers m ! l) l i j)"
  using cell_row_ok [OF assms] mset_eq_length by (auto simp: cell_row_at_def)

lemma in_cell_rows:
  "r \<in> set (cell_rows res m) \<longleftrightarrow> (\<exists>l i j. in_grid m l i j \<and> r = cell_row_at res m l i j)"
proof -
  have "set (cell_rows res m) = (\<Union>l < gm_n_layers m. \<Union>i < gm_rows m. (\<lambda>j. cell_row_at res m l i j) ` {..<gm_cols m})"
    by (simp add: cell_rows_def atLeast0LessThan)
  then show ?thesis unfolding in_grid_def by blast
qed

lemma package_rows_good:
  assumes "wired res m M" "r \<in> set (package_rows m)"
  shows "good_row m M r"
proof -
  note w = wiredD [OF assms(1)]
  have p: "0 < r_hs_per (gm_pack m) + r_amb_per (gm_pack m)"
    "0 < across d (r_hs_c_per_x (gm_pack m) + r_amb_c_per_x (gm_pack m)) (r_hs_c_per_y (gm_pack m) + r_amb_c_per_y (gm_pack m))" for d
    using w(2) by (cases d; simp add: pack_R_ok_def add_pos_nonneg)+
  have s: "0 < r_amb_sec_per (gm_pack m)" "0 < across d (r_amb_sec_c_per_x (gm_pack m)) (r_amb_sec_c_per_y (gm_pack m))"
    if "model_secondary (gm_config m) \<noteq> 0" for d
    using w(3) [OF that] by (cases d; simp add: secondary_ok_def Let_def)+
  have prim: "good_row m M (sink_outer_row m d)" "good_row m M (sink_inner_row m (gm_layers m ! hsidx m) d)"
    "good_row m M (spreader_row m (gm_layers m ! spidx m) d)" for d
    using primary_row_joined [OF w(1), where d = d and M = M] p(1) p(2) [of d]
    by (simp_all add: good_row_def sink_outer_row_def sink_inner_row_def spreader_row_def Let_def)
  have sec: "good_row m M (pcb_outer_row m d)" "good_row m M (pcb_inner_row m (gm_layers m ! LAYER_PCB) d)"
    "good_row m M (solder_row m (gm_layers m ! LAYER_SOLDER) d)" "good_row m M (substrate_row m (gm_layers m ! LAYER_SUB) d)"
    if "model_secondary (gm_config m) \<noteq> 0" for d
    using secondary_row_joined [OF w(1) that, where d = d and M = M] s(1) [OF that] s(2) [OF that, of d]
    by (simp_all add: good_row_def pcb_outer_row_def pcb_inner_row_def solder_row_def substrate_row_def Let_def)
  have "list_all (good_row m M) (package_rows m)" by (simp add: package_rows_def Let_def all_sides_def prim sec)
  then show ?thesis using assms(2) by (simp add: list_all_iff)
qed

lemma grid_rows_good:
  assumes "wired res m M" "r \<in> set (matrix_rows res m)"
  shows "good_row m M r"
  using assms(2) package_rows_good [OF assms(1)] cell_row_at_ok(2) [OF assms(1)] unfolding matrix_rows_def set_append in_cell_rows Un_iff by blast

text \<open>Every node has one row.\<close>

lemma upt_concat: "concat (map (\<lambda>i. map (\<lambda>j. i * n + j + k) [0..<n]) [0..<r]) = [k..<k + r * (n::nat)]"
proof (induction r)
  case (Suc r)
  have "map (\<lambda>j. r * n + j + k) [0..<n] = [k + r * n..<k + r * n + n]"
    by (rule nth_equalityI) simp_all
  then show ?case using Suc upt_add_eq_append [of k "k + r * n" n] by (simp add: add.commute add.left_commute)
qed simp

lemma cell_rows_nodes:
  assumes "wired res m M"
  shows "map fst (cell_rows res m) = [0..<grid_cells m]"
proof -
  let ?nr = "gm_rows m" and ?nc = "gm_cols m" and ?nl = "gm_n_layers m"
  have f: "fst (cell_row_at res m l i j) = i * ?nc + j + l * (?nr * ?nc)" if "l < ?nl" "i < ?nr" "j < ?nc" for l i j
    using cell_row_at_ok(3) [OF assms, of l i j] that by (simp add: in_grid_def cell_node_def)
  have r: "map fst (map (cell_row_at res m l i) [0..<?nc]) = map (\<lambda>j. i * ?nc + j + l * (?nr * ?nc)) [0..<?nc]" if "l < ?nl" "i < ?nr" for l i
    using f [OF that] by simp
  have L: "map fst (concat (map (\<lambda>i. map (cell_row_at res m l i) [0..<?nc]) [0..<?nr])) = [l * (?nr * ?nc)..<l * (?nr * ?nc) + ?nr * ?nc]" if "l < ?nl" for l
    unfolding upt_concat [symmetric] map_concat map_map using r [OF that] by (intro arg_cong [where f = concat] map_cong) simp_all
  then have "map fst (cell_rows res m) = concat (map (\<lambda>l. [l * (?nr * ?nc)..<l * (?nr * ?nc) + ?nr * ?nc]) [0..<?nl])"
    unfolding cell_rows_def map_concat [of fst "map _ [0..<?nl]"] map_map by (intro arg_cong [where f = concat] map_cong) (simp_all add: L)
  also have "\<dots> = concat (map (\<lambda>l. map (\<lambda>j. l * (?nr * ?nc) + j + 0) [0..<?nr * ?nc]) [0..<?nl])"
    by (intro arg_cong [where f = concat] map_cong refl nth_equalityI) simp_all
  also have "\<dots> = [0..<grid_cells m]" unfolding upt_concat by (simp add: grid_cells_def mult.assoc)
  finally show ?thesis .
qed

lemma package_rows_nodes:
  "distinct (map fst (package_rows m))" "set (map fst (package_rows m)) = {grid_cells m..<grid_dim m}"
proof -
  let ?sec = "if model_secondary (gm_config m) = 0 then [] else [26, 27, 24, 25, 22, 23, 20, 21, 18, 19, 16, 17, 14, 15, 12, 13::nat]"
  have e: "map fst (package_rows m) = map (\<lambda>k. grid_cells m + k) ([10, 11, 8, 9, 6, 7, 4, 5, 2, 3, 0, 1] @ ?sec)"
    by (simp add: package_rows_def Let_def all_sides_def sink_outer_row_def sink_inner_row_def spreader_row_def pcb_outer_row_def
        pcb_inner_row_def solder_row_def substrate_row_def part_node_defs)
  have s: "distinct ([10, 11, 8, 9, 6, 7, 4, 5, 2, 3, 0, 1] @ ?sec)" by simp
  then show "distinct (map fst (package_rows m))" unfolding e by (simp only: distinct_map inj_on_add simp_thms)
  have "set ([10, 11, 8, 9, 6, 7, 4, 5, 2, 3, 0, 1] @ ?sec) = {0..<extra_nodes (gm_config m)}"
    by (simp add: extra_nodes_def EXTRA_def EXTRA_SEC_def) (auto simp: less_Suc_eq numeral_eq_Suc)
  then show "set (map fst (package_rows m)) = {grid_cells m..<grid_dim m}"
    unfolding e set_map grid_dim_cells by (simp only: image_add_atLeastLessThan add_0_right add_0_left add.commute)
qed

lemma grid_rows_nodes:
  assumes "wired res m M"
  shows "distinct (map fst (matrix_rows res m))" "set (map fst (matrix_rows res m)) = {..<grid_dim m}"
proof -
  have c: "map fst (matrix_rows res m) = [0..<grid_cells m] @ map fst (package_rows m)"
    unfolding matrix_rows_def map_append cell_rows_nodes [OF assms] ..
  show "distinct (map fst (matrix_rows res m))" "set (map fst (matrix_rows res m)) = {..<grid_dim m}"
    unfolding c using package_rows_nodes [of m] by (auto simp: grid_dim_cells)
qed

section \<open>Writing the rows\<close>

lemma concat_map_concat: "concat (map f (concat xss)) = concat (map (\<lambda>xs. concat (map f xs)) xss)"
  by (induction xss) simp_all

lemma write_cells_ok:
  assumes "wired res m M"
  shows "appends nnz (write_cells res m nnz) (concat (map row_triples (cell_rows res m)))"
proof -
  have row: "appends nnz (\<lambda>s. rbind (cell_row res m l i j) (\<lambda>r. write_row nnz r s)) (row_triples (cell_row_at res m l i j))"
    if "in_grid m l i j" for l i j
    unfolding cell_row_at_ok(1) [OF assms that] rbind_Inr
    using appends_row good_row_pos [OF assms] cell_row_at_ok(2) [OF assms that] by blast
  have "concat (map row_triples (cell_rows res m)) = concat (map (\<lambda>l. concat (map (\<lambda>i. concat (map (\<lambda>j. row_triples (cell_row_at res m l i j))
      [0..<gm_cols m])) [0..<gm_rows m])) [0..<gm_n_layers m])"
    unfolding cell_rows_def concat_map_concat map_map comp_def ..
  then show ?thesis
    unfolding write_cells_def using row by (simp only:) (intro appends_loop, simp add: in_grid_def)
qed

lemma write_package_ok:
  assumes "wired res m M"
  shows "appends nnz (write_package m nnz) (concat (map row_triples (package_rows m)))"
proof -
  obtain ps ss where r: "primary_rows m = Inr ps" "secondary_rows m = Inr ss" "package_rows m = ps @ ss"
    using package_rows_eq [OF wiredD(1) [OF assms]] by blast
  have "list_all row_pos (package_rows m)"
    using package_rows_good [OF assms] good_row_pos [OF assms] by (auto simp: list_all_iff)
  from appends_rows [OF this, of nnz] show ?thesis
    unfolding appends_def write_package_def r rbind_Inr in_order_append map_append .
qed

section \<open>Counting\<close>

lemma length_concat_upt: "length (concat (map g [0..<n])) = (\<Sum>i < n. length (g i))"
  by (induction n) simp_all

lemma sum_ends:
  assumes "2 \<le> (n::nat)"
  shows "(\<Sum>j < n. of_bool (0 < j)) = n - 1" "(\<Sum>j < n. of_bool (j + 1 < n)) = n - 1" "(\<Sum>j < n. of_bool (j = 0)) = (1::nat)"
    "(\<Sum>j < n. of_bool (j = n - 1)) = (1::nat)"
proof -
  obtain k where k: "n = Suc k" using assms by (cases n) auto
  show "(\<Sum>j < n. of_bool (0 < j)) = n - 1" unfolding k sum.lessThan_Suc_shift by simp
  show "(\<Sum>j < n. of_bool (j + 1 < n)) = n - 1" unfolding k sum.lessThan_Suc by simp
  show "(\<Sum>j < n. of_bool (j = 0)) = (1::nat)" unfolding k sum.lessThan_Suc_shift by simp
  show "(\<Sum>j < n. of_bool (j = n - 1)) = (1::nat)" unfolding k sum.lessThan_Suc by (simp add: less_imp_neq)
qed

lemma cell_rule_length:
  "length (cell_rule m M ly l i j) = of_bool (0 < j) + of_bool (j + 1 < gm_cols m) + of_bool (0 < i) + of_bool (i + 1 < gm_rows m) +
     of_bool (l + 1 < gm_n_layers m) + of_bool (0 < l) + of_bool (part m l \<noteq> None) *
       (of_bool (i = 0) + of_bool (i = gm_rows m - 1) + of_bool (j = 0) + of_bool (j = gm_cols m - 1))"
proof -
  have s: "length (if P then [x] else []) = of_bool P" for P and x :: "nat \<times> real" by simp
  have "length (concat (map (\<lambda>d. if on_side m d i j then border_link m ly l d else []) all_sides)) =
    of_bool (part m l \<noteq> None) * (of_bool (i = 0) + of_bool (i = gm_rows m - 1) + of_bool (j = 0) + of_bool (j = gm_cols m - 1))"
    by (cases "part m l") (simp_all add: border_link_part all_sides_def on_side_def split_beta)
  then show ?thesis unfolding cell_rule_def length_append s by (simp only: add.assoc)
qed

lemma part_count:
  assumes "stacked m"
  shows "(\<Sum>l < gm_n_layers m. of_bool (part m l \<noteq> None)) = (if model_secondary (gm_config m) \<noteq> 0 then 5 else 2 :: nat)"
proof -
  note n = stackedD(4,5) [OF assms]
  let ?S = "if model_secondary (gm_config m) \<noteq> 0 then {0, 1, 2, spidx m, hsidx m} else {spidx m, hsidx m}"
  have "{l. l < gm_n_layers m \<and> part m l \<noteq> None} = ?S"
    using n by (auto simp: part_def Let_def stack_defs spidx_def hsidx_def split: if_splits)
  moreover have "card ?S = (if model_secondary (gm_config m) \<noteq> 0 then 5 else 2)"
    by (cases "model_secondary (gm_config m) = 0") (use n in \<open>auto simp: spidx_def hsidx_def stack_defs card_insert_if\<close>)
  moreover have "(\<Sum>l < gm_n_layers m. of_bool (part m l \<noteq> None)) = card {l. l < gm_n_layers m \<and> part m l \<noteq> None}"
    by (simp add: sum.If_cases of_bool_def Int_def)
  ultimately show ?thesis by simp
qed

lemma cell_rows_count:
  assumes "wired res m M"
  shows "length (concat (map row_triples (cell_rows res m))) =
    (5 * gm_rows m * gm_cols m - 2 * (gm_rows m + gm_cols m)) * gm_n_layers m + 2 * (gm_n_layers m - 1) * gm_rows m * gm_cols m +
    (if model_secondary (gm_config m) \<noteq> 0 then 5 else 2) * (2 * gm_rows m + 2 * gm_cols m)"
proof -
  let ?nr = "gm_rows m" and ?nc = "gm_cols m" and ?nl = "gm_n_layers m"
  note w = wiredD(1) [OF assms] and n = stackedD [OF wiredD(1) [OF assms]]
  define b where "b l = (of_bool (part m l \<noteq> None) :: nat)" for l
  have len: "length (row_triples (cell_row_at res m l i j)) = 1 + of_bool (0 < j) + of_bool (j + 1 < ?nc) + of_bool (0 < i) + of_bool (i + 1 < ?nr) +
     of_bool (l + 1 < ?nl) + of_bool (0 < l) + b l * (of_bool (i = 0) + of_bool (i = ?nr - 1) + of_bool (j = 0) + of_bool (j = ?nc - 1))"
    if "in_grid m l i j" for l i j
  proof -
    have "length (row_triples (cell_row_at res m l i j)) = Suc (length (fst (snd (cell_row_at res m l i j))))"
      by (cases "cell_row_at res m l i j") simp
    then show ?thesis unfolding cell_row_at_ok(5) [OF assms that] cell_rule_length b_def by simp
  qed
  have row: "(\<Sum>j < ?nc. length (row_triples (cell_row_at res m l i j))) = (3 * ?nc - 2) +
      ?nc * (of_bool (0 < i) + of_bool (i + 1 < ?nr) + of_bool (l + 1 < ?nl) + of_bool (0 < l)) +
      b l * (?nc * (of_bool (i = 0) + of_bool (i = ?nr - 1)) + 2)" if "l < ?nl" "i < ?nr" for l i
  proof -
    have "(\<Sum>j < ?nc. length (row_triples (cell_row_at res m l i j))) = (\<Sum>j < ?nc. 1 + of_bool (0 < j) + of_bool (j + 1 < ?nc) + of_bool (0 < i) +
        of_bool (i + 1 < ?nr) + of_bool (l + 1 < ?nl) + of_bool (0 < l) +
        b l * (of_bool (i = 0) + of_bool (i = ?nr - 1) + of_bool (j = 0) + of_bool (j = ?nc - 1)))"
      by (rule sum.cong [OF refl len]) (use that in \<open>simp add: in_grid_def\<close>)
    also have "\<dots> = ?nc + (?nc - 1) + (?nc - 1) + ?nc * of_bool (0 < i) + ?nc * of_bool (i + 1 < ?nr) + ?nc * of_bool (l + 1 < ?nl) + ?nc * of_bool (0 < l) +
        b l * (?nc * of_bool (i = 0) + ?nc * of_bool (i = ?nr - 1) + 1 + 1)"
      unfolding sum.distrib sum_distrib_left [symmetric] sum_ends [OF n(2)] by simp
    finally show ?thesis using n(2) by (simp add: algebra_simps)
  qed
  have layer: "(\<Sum>i < ?nr. \<Sum>j < ?nc. length (row_triples (cell_row_at res m l i j))) =
      ?nr * (3 * ?nc - 2) + ?nc * (2 * (?nr - 1)) + ?nr * ?nc * (of_bool (l + 1 < ?nl) + of_bool (0 < l)) + b l * (2 * ?nr + 2 * ?nc)"
    if "l < ?nl" for l
  proof -
    have "(\<Sum>i < ?nr. \<Sum>j < ?nc. length (row_triples (cell_row_at res m l i j))) = (\<Sum>i < ?nr. (3 * ?nc - 2) +
      ?nc * (of_bool (0 < i) + of_bool (i + 1 < ?nr) + of_bool (l + 1 < ?nl) + of_bool (0 < l)) +
      b l * (?nc * (of_bool (i = 0) + of_bool (i = ?nr - 1)) + 2))"
      by (rule sum.cong [OF refl row [OF that]]) simp
    also have "\<dots> = ?nr * (3 * ?nc - 2) + ?nc * ((?nr - 1) + (?nr - 1) + ?nr * of_bool (l + 1 < ?nl) + ?nr * of_bool (0 < l)) +
      b l * (?nc * (1 + 1) + ?nr * 2)"
      unfolding sum.distrib sum_distrib_left [symmetric] sum_ends [OF n(1)] by simp
    finally show ?thesis by (simp add: algebra_simps)
  qed
  have "length (concat (map row_triples (cell_rows res m))) =
      (\<Sum>l < ?nl. \<Sum>i < ?nr. \<Sum>j < ?nc. length (row_triples (cell_row_at res m l i j)))"
    unfolding cell_rows_def concat_map_concat map_map comp_def length_concat_upt ..
  also have "\<dots> = (\<Sum>l < ?nl. ?nr * (3 * ?nc - 2) + ?nc * (2 * (?nr - 1)) + ?nr * ?nc * (of_bool (l + 1 < ?nl) + of_bool (0 < l)) + b l * (2 * ?nr + 2 * ?nc))"
    by (rule sum.cong [OF refl layer]) simp
  also have "\<dots> = ?nl * (?nr * (3 * ?nc - 2)) + ?nl * (?nc * (2 * (?nr - 1))) + ?nr * ?nc * ((?nl - 1) + (?nl - 1)) +
      (\<Sum>l < ?nl. b l) * (2 * ?nr + 2 * ?nc)"
    unfolding sum.distrib sum_distrib_left [symmetric] sum_distrib_right [symmetric] sum_ends [OF n(4)] by simp
  also have "(\<Sum>l < ?nl. b l) = (if model_secondary (gm_config m) \<noteq> 0 then 5 else 2)"
    unfolding b_def by (rule part_count [OF w])
  also have "?nl * (?nr * (3 * ?nc - 2)) + ?nl * (?nc * (2 * (?nr - 1))) + ?nr * ?nc * ((?nl - 1) + (?nl - 1)) =
      (5 * ?nr * ?nc - 2 * (?nr + ?nc)) * ?nl + 2 * (?nl - 1) * ?nr * ?nc"
  proof -
    obtain a b c where "?nr = a + 2" "?nc = b + 2" "?nl = c + 2" using n(1,2,4) by (metis add.commute le_Suc_ex)
    then show ?thesis by (simp add: algebra_simps)
  qed
  finally show ?thesis .
qed

lemma package_rows_count:
  "length (concat (map row_triples (package_rows m))) =
    (if model_secondary (gm_config m) \<noteq> 0 then 28 + 40 + 5 * (2 * gm_rows m + 2 * gm_cols m) else 28 + 2 * (2 * gm_rows m + 2 * gm_cols m))"
proof -
  have e: "length (edge_links m ly l d rx ry) = across d (gm_rows m) (gm_cols m)" for ly l d rx ry
    by (cases d) (simp_all add: edge_links_def edge_cells_def)
  show ?thesis
    by (simp add: package_rows_def Let_def all_sides_def sink_outer_row_def sink_inner_row_def spreader_row_def pcb_outer_row_def
        pcb_inner_row_def solder_row_def substrate_row_def e)
qed

section \<open>The builder returns\<close>

theorem grid_triples_ok:
  assumes "wired res m M"
  shows "grid_triples res msg m = Inr (concat (map row_triples (matrix_rows res m)))"
    "length (concat (map row_triples (matrix_rows res m))) = grid_nnz m"
proof -
  have c: "length (concat (map row_triples (cell_rows res m))) + length (concat (map row_triples (package_rows m))) = grid_nnz m"
    unfolding cell_rows_count [OF assms] package_rows_count grid_nnz_def Let_def EXTRA_def EXTRA_SEC_def by simp
  then show l: "length (concat (map row_triples (matrix_rows res m))) = grid_nnz m" by (simp add: matrix_rows_def)
  obtain s where s: "write_cells res m (grid_nnz m) \<lparr>triples = [], dia_val = 0\<rparr> = Inr s" "triples s = concat (map row_triples (cell_rows res m))"
    using write_cells_ok [OF assms, of "grid_nnz m", unfolded appends_def, rule_format, of "\<lparr>triples = [], dia_val = 0\<rparr>"] c by auto
  obtain t where t: "write_package m (grid_nnz m) s = Inr t" "triples t = concat (map row_triples (matrix_rows res m))"
    using write_package_ok [OF assms, of "grid_nnz m", unfolded appends_def, rule_format, of s] c s(2) unfolding matrix_rows_def by auto
  show "grid_triples res msg m = Inr (concat (map row_triples (matrix_rows res m)))"
    using s(1) t l by (simp add: grid_triples_def Let_def)
qed

end
