(* ===== verification/Csc.thy ===== *)
theory Csc
  imports Util_Base "HOL-Library.Multiset"
begin

text \<open>
  Sparse matrices: \<open>coo2csc\<close> of \<open>hotspot_tool/util.c\<close>, which turns coordinate arrays into compressed
  columns, and the operations of \<open>util.c\<close> on compressed columns. The records \<open>NCformat\<close> and
  \<open>SuperMatrix\<close> keep the fields of the structures of SuperLU that the code reads and writes.
\<close>

section \<open>Sorting\<close>

text \<open>\<open>qsort\<close> of the C library, for elements that the comparison tells apart: insertion.\<close>

fun insert_by :: "('a \<Rightarrow> 'a \<Rightarrow> int) \<Rightarrow> 'a \<Rightarrow> 'a list \<Rightarrow> 'a list" where
  "insert_by cmp x [] = [x]"
| "insert_by cmp x (y # ys) = (if cmp x y \<le> 0 then x # y # ys else y # insert_by cmp x ys)"

definition qsort :: "('a \<Rightarrow> 'a \<Rightarrow> int) \<Rightarrow> 'a list \<Rightarrow> 'a list" where
  "qsort cmp xs = foldr (insert_by cmp) xs []"

lemma mset_insert_by [simp]: "mset (insert_by cmp x xs) = add_mset x (mset xs)"
  by (induction xs) auto

lemma mset_qsort [simp]: "mset (qsort cmp xs) = mset xs"
  by (induction xs) (simp_all add: qsort_def)

lemma length_qsort [simp]: "length (qsort cmp xs) = length xs"
  by (rule mset_eq_length) simp

lemma set_qsort [simp]: "set (qsort cmp xs) = set xs"
  by (rule mset_eq_setD) simp

lemma sorted_insert_by:
  fixes key :: "'a \<Rightarrow> nat"
  assumes "\<And>x y. cmp x y \<le> 0 \<Longrightarrow> key x \<le> key y" "\<And>x y. \<not> cmp x y \<le> 0 \<Longrightarrow> key y \<le> key x" "sorted (map key xs)"
  shows "sorted (map key (insert_by cmp x xs))"
  using assms(3)
proof (induction xs)
  case (Cons y xs)
  have "set (insert_by cmp x xs) = insert x (set xs)" by (metis mset_insert_by set_mset_add_mset_insert set_mset_mset)
  then show ?case using Cons assms(1) [of x y] assms(2) [of x y] by (auto intro: order_trans)
qed simp

lemma sorted_qsort:
  fixes key :: "'a \<Rightarrow> nat"
  assumes "\<And>x y. cmp x y \<le> 0 \<Longrightarrow> key x \<le> key y" "\<And>x y. \<not> cmp x y \<le> 0 \<Longrightarrow> key y \<le> key x"
  shows "sorted (map key (qsort cmp xs))"
  by (induction xs) (simp_all add: qsort_def sorted_insert_by [of cmp key, OF assms])

section \<open>From coordinates to compressed columns\<close>

record coo_elem =
  ce_x :: nat
  ce_y :: nat
  ce_val :: real

definition c2c_cmp :: "coo_elem \<Rightarrow> coo_elem \<Rightarrow> int" where
  "c2c_cmp c d = (if ce_y c \<noteq> ce_y d then int (ce_y c) - int (ce_y d) else int (ce_x c) - int (ce_x d))"

definition copy_in :: "nat \<Rightarrow> nat list \<Rightarrow> nat list \<Rightarrow> real list \<Rightarrow> coo_elem list res" where
  "copy_in nnz cooX cooY cooV =
     for_up 0 nnz (\<lambda>i a. rbind (rd cooX i) (\<lambda>x. rbind (rd cooY i) (\<lambda>y. rbind (rd cooV i) (\<lambda>v.
       wr a i \<lparr>ce_x = x, ce_y = y, ce_val = v\<rparr>)))) (replicate nnz \<lparr>ce_x = 0, ce_y = 0, ce_val = 0\<rparr>)"

text \<open>
  One element; \<open>k\<close> is the column after the last one that was opened, \<open>j + 1\<close> in the code, whose \<open>j\<close>
  starts with -1. Elements of one position are reported on the terminal only.
\<close>

type_synonym csc_arrays = "nat list \<times> nat list \<times> real list"

definition copy_elem :: "coo_elem list \<Rightarrow> nat \<Rightarrow> nat \<times> csc_arrays \<Rightarrow> (nat \<times> csc_arrays) res" where
  "copy_elem a i = (\<lambda>(k, rowind, colptr, vals). rbind (rd a i) (\<lambda>e. rbind (wr rowind i (ce_x e)) (\<lambda>rowind. rbind (wr vals i (ce_val e)) (\<lambda>vals.
     rbind (for_up k (ce_y e + 1) (\<lambda>c p. wr p c i) colptr) (\<lambda>colptr. Inr (max k (ce_y e + 1), rowind, colptr, vals))))))"

definition coo2csc :: "nat \<Rightarrow> nat list \<Rightarrow> nat list \<Rightarrow> real list \<Rightarrow> csc_arrays \<Rightarrow> csc_arrays res" where
  "coo2csc nnz cooX cooY cooV out =
     rbind (copy_in nnz cooX cooY cooV) (\<lambda>a. rbind (for_up 0 nnz (copy_elem (qsort c2c_cmp a)) (0, out)) (\<lambda>(k, rowind, colptr, vals).
     rbind (wr colptr k nnz) (\<lambda>colptr. Inr (rowind, colptr, vals))))"

section \<open>Matrices of compressed columns\<close>

record NCformat =
  nc_nnz :: nat
  nzval :: "real list"
  rowind :: "nat list"
  colptr :: "nat list"

record SuperMatrix =
  sm_nrow :: nat
  sm_ncol :: nat
  sm_Store :: NCformat

record diagonal_matrix_t =
  dm_n :: nat
  dm_vals :: "real list"

text \<open>The elements of a column that lie on the diagonal, and whether there is one.\<close>

definition bump_column :: "nat \<Rightarrow> real \<Rightarrow> NCformat \<Rightarrow> (bool \<times> NCformat) res" where
  "bump_column i v st = rbind (rd (colptr st) i) (\<lambda>lo. rbind (rd (colptr st) (i + 1)) (\<lambda>hi.
     for_up lo hi (\<lambda>j (found, st). rbind (rd (rowind st) j) (\<lambda>r.
       if r = i then rbind (rd (nzval st) j) (\<lambda>x. rbind (wr (nzval st) j (x + v)) (\<lambda>a. Inr (True, st\<lparr>nzval := a\<rparr>)))
       else Inr (found, st))) (False, st)))"

definition diagonal_add_SparseMatrix :: "real \<Rightarrow> diagonal_matrix_t \<Rightarrow> SuperMatrix \<Rightarrow> SuperMatrix res" where
  "diagonal_add_SparseMatrix c diag A =
     rbind (for_up 0 (sm_ncol A) (\<lambda>i st. rbind (rd (dm_vals diag) i) (\<lambda>d. rbind (bump_column i (c * d) st) (\<lambda>(found, st).
       if found then Inr st else Inl (Fatal ''Matrix missing diagonal element! Cannot support that yet'')))) (sm_Store A)) (\<lambda>st.
     Inr (A\<lparr>sm_Store := st\<rparr>))"

definition diagonal_mul_vector :: "real \<Rightarrow> diagonal_matrix_t \<Rightarrow> real list \<Rightarrow> real list res" where
  "diagonal_mul_vector c diag vector =
     for_up 0 (dm_n diag) (\<lambda>i v. rbind (rd v i) (\<lambda>x. rbind (rd (dm_vals diag) i) (\<lambda>d. wr v i (x * (c * d))))) vector"

definition vector_add_vector :: "nat \<Rightarrow> real \<Rightarrow> real list \<Rightarrow> real \<Rightarrow> real list \<Rightarrow> real list res" where
  "vector_add_vector n c1 vector1 c2 vector2 =
     for_up 0 n (\<lambda>i v. rbind (rd vector1 i) (\<lambda>x. rbind (rd v i) (\<lambda>y. wr v i (c1 * x + c2 * y)))) vector2"

definition SparseMatrix_mul_vector :: "SuperMatrix \<Rightarrow> real list \<Rightarrow> real list res" where
  "SparseMatrix_mul_vector A vector =
    (let m = sm_nrow A; st = sm_Store A in
     rbind (for_up 0 (sm_ncol A) (\<lambda>i result. rbind (rd (colptr st) i) (\<lambda>lo. rbind (rd (colptr st) (i + 1)) (\<lambda>hi.
       for_up lo hi (\<lambda>j result. rbind (rd (rowind st) j) (\<lambda>r. rbind (rd result r) (\<lambda>s. rbind (rd (nzval st) j) (\<lambda>a. rbind (rd vector i) (\<lambda>x.
         wr result r (s + a * x)))))) result))) (dvector m)) (\<lambda>result.
     copy_dvector vector result m))"

text \<open>The entry of a matrix, and its columns read back as triples.\<close>

definition csc_at :: "NCformat \<Rightarrow> nat \<Rightarrow> nat \<Rightarrow> real" where
  "csc_at st r c = (\<Sum>k = colptr st ! c..<colptr st ! (c + 1). if rowind st ! k = r then nzval st ! k else 0)"

definition csc_triples :: "nat \<Rightarrow> NCformat \<Rightarrow> (nat \<times> nat \<times> real) list" where
  "csc_triples n st = concat (map (\<lambda>c. map (\<lambda>k. (rowind st ! k, c, nzval st ! k)) [colptr st ! c..<colptr st ! (c + 1)]) [0..<n])"

definition coo_at :: "(nat \<times> nat \<times> real) list \<Rightarrow> nat \<Rightarrow> nat \<Rightarrow> real" where
  "coo_at ts r c = (\<Sum>(x, y, v) \<leftarrow> ts. if x = r \<and> y = c then v else 0)"

definition csc_ok :: "nat \<Rightarrow> NCformat \<Rightarrow> bool" where
  "csc_ok n st \<longleftrightarrow> length (rowind st) = nc_nnz st \<and> length (nzval st) = nc_nnz st \<and> length (colptr st) = n + 1 \<and>
     colptr st ! n = nc_nnz st \<and> sorted (colptr st) \<and> (\<forall>r \<in> set (rowind st). r < n)"

section \<open>What the conversion returns\<close>

lemma copy_in_ok:
  assumes "length xs = nnz" "length ys = nnz" "length vs = nnz"
  shows "copy_in nnz xs ys vs = Inr (map (\<lambda>i. \<lparr>ce_x = xs ! i, ce_y = ys ! i, ce_val = vs ! i\<rparr>) [0..<nnz])"
proof -
  let ?e = "\<lambda>i. \<lparr>ce_x = xs ! i, ce_y = ys ! i, ce_val = vs ! i\<rparr>"
  have "\<exists>a. copy_in nnz xs ys vs = Inr a \<and> length a = nnz \<and> (\<forall>i < nnz. a ! i = ?e i)"
    unfolding copy_in_def
  proof (rule for_up_rule [where I = "\<lambda>k a. length a = nnz \<and> (\<forall>i < k. a ! i = ?e i)"])
    fix k and a :: "coo_elem list" assume "k < nnz" "length a = nnz \<and> (\<forall>i < k. a ! i = ?e i)"
    then show "\<exists>t. rbind (rd xs k) (\<lambda>x. rbind (rd ys k) (\<lambda>y. rbind (rd vs k) (\<lambda>v. wr a k \<lparr>ce_x = x, ce_y = y, ce_val = v\<rparr>))) = Inr t \<and>
        length t = nnz \<and> (\<forall>i < Suc k. t ! i = ?e i)"
      using assms by (simp add: nth_list_update less_Suc_eq)
  qed simp_all
  then obtain a where a: "copy_in nnz xs ys vs = Inr a" "length a = nnz" "\<forall>i < nnz. a ! i = ?e i" by blast
  moreover have "a = map ?e [0..<nnz]" by (rule nth_equalityI) (use a in auto)
  ultimately show ?thesis by simp
qed

definition elem_of :: "nat \<times> nat \<times> real \<Rightarrow> coo_elem" where
  "elem_of = (\<lambda>(x, y, v). \<lparr>ce_x = x, ce_y = y, ce_val = v\<rparr>)"

definition triple_of :: "coo_elem \<Rightarrow> nat \<times> nat \<times> real" where
  "triple_of e = (ce_x e, ce_y e, ce_val e)"

lemma triple_of_elem [simp]: "triple_of (elem_of t) = t"
  by (simp add: triple_of_def elem_of_def split: prod.split)

text \<open>The sorted elements, and the number of those in columns before \<open>c\<close>.\<close>

definition sorted_elems :: "(nat \<times> nat \<times> real) list \<Rightarrow> coo_elem list" where
  "sorted_elems ts = qsort c2c_cmp (map elem_of ts)"

definition before :: "coo_elem list \<Rightarrow> nat \<Rightarrow> nat" where
  "before s c = length (filter (\<lambda>e. ce_y e < c) s)"

lemma sorted_elems_props:
  "length (sorted_elems ts) = length ts" "sorted (map ce_y (sorted_elems ts))" "mset (map triple_of (sorted_elems ts)) = mset ts"
proof -
  show "length (sorted_elems ts) = length ts" by (simp add: sorted_elems_def)
  show "sorted (map ce_y (sorted_elems ts))"
    unfolding sorted_elems_def by (rule sorted_qsort) (auto simp: c2c_cmp_def split: if_splits)
  have "mset (map triple_of (sorted_elems ts)) = image_mset triple_of (mset (map elem_of ts))" by (simp add: sorted_elems_def)
  then show "mset (map triple_of (sorted_elems ts)) = mset ts" by (simp add: multiset.map_comp comp_def)
qed

lemma before_mono: "c \<le> d \<Longrightarrow> before s c \<le> before s d"
  unfolding before_def by (induction s) auto

lemma before_iff:
  assumes "sorted (map ce_y s)" "k < length s"
  shows "ce_y (s ! k) < c \<longleftrightarrow> k < before s c"
  using assms
proof (induction s arbitrary: k)
  case (Cons e s)
  have z: "before s c = 0" if "\<not> ce_y e < c" using Cons.prems(1) that by (fastforce simp: before_def filter_empty_conv)
  show ?case
  proof (cases k)
    case 0
    then show ?thesis using z by (simp add: before_def)
  next
    case (Suc i)
    then have "ce_y (s ! i) < c \<longleftrightarrow> i < before s c" using Cons by simp
    moreover have "before (e # s) c = (if ce_y e < c then Suc (before s c) else before s c)" by (simp add: before_def)
    ultimately show ?thesis using z Suc by (cases "ce_y e < c") simp_all
  qed
qed simp

lemma before_take:
  assumes "sorted (map ce_y s)" "k < length s" "c \<le> ce_y (s ! k)" "\<forall>i < k. ce_y (s ! i) < c"
  shows "before s c = k"
proof (rule antisym)
  show "before s c \<le> k" using before_iff [OF assms(1,2), of c] assms(3) by linarith
  have "i < before s c" if "i < k" for i using before_iff [OF assms(1), of i c] assms(2,4) that by simp
  then show "k \<le> before s c" by (metis leI less_irrefl)
qed

lemma open_columns:
  assumes "k \<le> y + 1 \<longrightarrow> y < length p"
  shows "for_up k (y + 1) (\<lambda>c p. wr p c i) p = Inr (map (\<lambda>c. if k \<le> c \<and> c \<le> y then i else p ! c) [0..<length p])"
proof (cases "k \<le> y + 1")
  case True
  have "\<exists>q. for_up k (y + 1) (\<lambda>c p. wr p c i) p = Inr q \<and> length q = length p \<and>
      (\<forall>c < length p. q ! c = (if k \<le> c \<and> c < y + 1 then i else p ! c))"
    by (rule for_up_rule [where I = "\<lambda>u q. length q = length p \<and> (\<forall>c < length p. q ! c = (if k \<le> c \<and> c < u then i else p ! c))"])
      (use True assms in \<open>auto simp: nth_list_update\<close>)
  then obtain q where q: "for_up k (y + 1) (\<lambda>c p. wr p c i) p = Inr q" "length q = length p"
    "\<forall>c < length p. q ! c = (if k \<le> c \<and> c < y + 1 then i else p ! c)" by blast
  have "q = map (\<lambda>c. if k \<le> c \<and> c \<le> y then i else p ! c) [0..<length p]" by (rule nth_equalityI) (use q in auto)
  with q(1) show ?thesis by simp
next
  case False
  then have "map (\<lambda>c. if k \<le> c \<and> c \<le> y then i else p ! c) [0..<length p] = p" by (intro nth_equalityI) auto
  then show ?thesis using False by simp
qed

lemma coo2csc_ok:
  assumes out: "length ro = length ts" "length co = n + 1" "length vo = length ts"
    and y: "\<forall>(x, y, v) \<in> set ts. y < n" and last: "\<exists>(x, y, v) \<in> set ts. y + 1 = n"
  shows "\<exists>P. coo2csc (length ts) (map fst ts) (map (fst \<circ> snd) ts) (map (snd \<circ> snd) ts) (ro, co, vo) =
      Inr (map ce_x (sorted_elems ts), P, map ce_val (sorted_elems ts)) \<and> length P = n + 1 \<and> (\<forall>c \<le> n. P ! c = before (sorted_elems ts) c)"
proof -
  let ?s = "sorted_elems ts" and ?N = "length ts"
  note s = sorted_elems_props [of ts]
  have arr: "copy_in ?N (map fst ts) (map (fst \<circ> snd) ts) (map (snd \<circ> snd) ts) = Inr (map elem_of ts)"
    by (subst copy_in_ok) (auto intro!: nth_equalityI simp: elem_of_def split_beta)
  have ce: "set (map triple_of ?s) = set ts" using mset_eq_setD [OF s(3)] .
  have lt: "ce_y (?s ! k) < n" if "k < ?N" for k
  proof -
    have "triple_of (?s ! k) \<in> set ts" unfolding ce [symmetric] using that s(1) by simp
    then show ?thesis using y by (auto simp: triple_of_def)
  qed
  let ?I = "\<lambda>i (k, r, P, v). length r = ?N \<and> length P = n + 1 \<and> length v = ?N \<and> take i r = map ce_x (take i ?s) \<and> take i v = map ce_val (take i ?s) \<and>
    (\<forall>c < k. P ! c = before ?s c) \<and> (\<forall>j < i. ce_y (?s ! j) < k) \<and> (if i = 0 then k = 0 else k = ce_y (?s ! (i - 1)) + 1)"
  have "\<exists>t. for_up 0 ?N (copy_elem ?s) (0, ro, co, vo) = Inr t \<and> ?I ?N t"
  proof (rule for_up_rule [where I = ?I])
    fix i t assume i: "i < ?N" and I: "?I i t"
    obtain k r P v where t: "t = (k, r, P, v)" by (cases t)
    have J: "length r = ?N" "length P = n + 1" "length v = ?N" "take i r = map ce_x (take i ?s)" "take i v = map ce_val (take i ?s)"
      "\<forall>c < k. P ! c = before ?s c" "\<forall>j < i. ce_y (?s ! j) < k" "if i = 0 then k = 0 else k = ce_y (?s ! (i - 1)) + 1"
      using I by (auto simp: t)
    let ?y = "ce_y (?s ! i)"
    have mono: "ce_y (?s ! j) \<le> ?y" if "j \<le> i" for j
      using sorted_nth_mono [OF s(2), of j i] that i s(1) by simp
    have k: "k \<le> ?y + 1" using J(8) mono [of "i - 1"] by (auto split: if_splits)
    let ?P = "map (\<lambda>c. if k \<le> c \<and> c \<le> ?y then i else P ! c) [0..<length P]"
    have st: "copy_elem ?s i t = Inr (?y + 1, r[i := ce_x (?s ! i)], ?P, v[i := ce_val (?s ! i)])"
      using i s(1) J(1-3) lt [OF i] k open_columns [of k ?y P i] by (simp add: t copy_elem_def max_def)
    have P: "?P ! c = before ?s c" if "c < ?y + 1" for c
    proof (cases "k \<le> c")
      case True
      then have "before ?s c = i" using J(7) that i s(1) by (intro before_take [OF s(2)]) (auto intro: less_le_trans)
      then show ?thesis using True that J(2) lt [OF i] by (simp del: upt_Suc)
    qed (use J(2,6) that lt [OF i] in \<open>simp del: upt_Suc\<close>)
    have "?I (Suc i) (?y + 1, r[i := ce_x (?s ! i)], ?P, v[i := ce_val (?s ! i)])"
      using P J(1-5) i s(1) mono by (auto simp: take_Suc_update take_Suc_conv_app_nth less_Suc_eq_le)
    with st show "\<exists>t'. copy_elem ?s i t = Inr t' \<and> ?I (Suc i) t'" by blast
  qed (use out in simp_all)
  then obtain k r P v where t: "for_up 0 ?N (copy_elem ?s) (0, ro, co, vo) = Inr (k, r, P, v)" and I: "?I ?N (k, r, P, v)" by auto
  have rv: "r = map ce_x ?s" "v = map ce_val ?s" "length P = n + 1" "\<forall>c < k. P ! c = before ?s c" using I s(1) by auto
  have N: "?N \<noteq> 0" using last by auto
  have "k = n"
  proof -
    have k: "k = ce_y (?s ! (?N - 1)) + 1" using I N by auto
    obtain x v where "(x, n - 1, v) \<in> set ts" "0 < n" using last by fastforce
    then have "(x, n - 1, v) \<in> set (map triple_of ?s)" using ce by simp
    then obtain j where j: "j < ?N" "ce_y (?s ! j) = n - 1" using s(1) by (auto simp: in_set_conv_nth triple_of_def)
    then have "n - 1 \<le> ce_y (?s ! (?N - 1))" using sorted_nth_mono [OF s(2), of j "?N - 1"] s(1) by simp
    then show ?thesis using k lt [of "?N - 1"] N by simp
  qed
  moreover have "before ?s n = ?N"
  proof -
    have "filter (\<lambda>e. ce_y e < n) ?s = ?s" using lt s(1) by (auto simp: filter_id_conv in_set_conv_nth)
    then show ?thesis using s(1) by (simp add: before_def)
  qed
  ultimately have "\<forall>c \<le> n. P[n := ?N] ! c = before ?s c" using rv(3,4) by (auto simp: nth_list_update le_less)
  then show ?thesis
    using t rv \<open>k = n\<close> unfolding coo2csc_def arr rbind_Inr sorted_elems_def [symmetric] by (intro exI [of _ "P[n := ?N]"]) simp
qed

section \<open>Reading a matrix back\<close>

lemma coo_at_mset: "mset ts = mset us \<Longrightarrow> coo_at ts r c = coo_at us r c"
  unfolding coo_at_def sum_mset_sum_list [symmetric] mset_map by simp

lemma coo_at_Nil [simp]: "coo_at [] r c = 0"
  by (simp add: coo_at_def)

lemma coo_at_append [simp]: "coo_at (ts @ us) r c = coo_at ts r c + coo_at us r c"
  by (simp add: coo_at_def)

lemma csc_at_coo:
  assumes "c < n"
  shows "csc_at st r c = coo_at (csc_triples n st) r c"
proof -
  have e: "coo_at (map (\<lambda>k. (rowind st ! k, d, nzval st ! k)) [lo..<hi]) r c =
    (if d = c then (\<Sum>k = lo..<hi. if rowind st ! k = r then nzval st ! k else 0) else 0)" for d lo hi
    by (simp add: coo_at_def comp_def interv_sum_list_conv_sum_set_nat)
  have "coo_at (concat (map (\<lambda>d. map (\<lambda>k. (rowind st ! k, d, nzval st ! k)) [colptr st ! d..<colptr st ! (d + 1)]) [0..<m])) r c =
      (if c < m then csc_at st r c else 0)" for m
    by (induction m) (auto simp: e [unfolded Suc_eq_plus1] csc_at_def less_Suc_eq simp flip: Suc_eq_plus1)
  then show ?thesis using assms by (simp add: csc_triples_def)
qed

definition represents :: "nat \<Rightarrow> (nat \<times> nat \<times> real) list \<Rightarrow> NCformat \<Rightarrow> bool" where
  "represents n ts st \<longleftrightarrow> csc_ok n st \<and> mset (csc_triples n st) = mset ts"

lemma represents_at: "represents n ts st \<Longrightarrow> c < n \<Longrightarrow> csc_at st r c = coo_at ts r c"
  using csc_at_coo coo_at_mset unfolding represents_def by metis

lemma coo2csc_represents:
  assumes out: "length ro = length ts" "length co = n + 1" "length vo = length ts"
    and y: "\<forall>(x, y, v) \<in> set ts. x < n \<and> y < n" and last: "\<exists>(x, y, v) \<in> set ts. y + 1 = n"
  shows "\<exists>R P V. coo2csc (length ts) (map fst ts) (map (fst \<circ> snd) ts) (map (snd \<circ> snd) ts) (ro, co, vo) = Inr (R, P, V) \<and>
    represents n ts \<lparr>nc_nnz = length ts, nzval = V, rowind = R, colptr = P\<rparr>"
proof -
  let ?s = "sorted_elems ts" and ?N = "length ts"
  note s = sorted_elems_props [of ts]
  obtain P where P: "coo2csc ?N (map fst ts) (map (fst \<circ> snd) ts) (map (snd \<circ> snd) ts) (ro, co, vo) = Inr (map ce_x ?s, P, map ce_val ?s)"
    "length P = n + 1" "\<forall>c \<le> n. P ! c = before ?s c"
    using coo2csc_ok [OF out _ last] y by fastforce
  have ce: "set (map triple_of ?s) = set ts" using mset_eq_setD [OF s(3)] .
  have lt: "ce_x e < n \<and> ce_y e < n" if "e \<in> set ?s" for e
  proof -
    have "triple_of e \<in> set ts" unfolding ce [symmetric] using that by simp
    then show ?thesis using y by (auto simp: triple_of_def)
  qed
  let ?st = "\<lparr>nc_nnz = ?N, nzval = map ce_val ?s, rowind = map ce_x ?s, colptr = P\<rparr>"
  have b0: "before ?s 0 = 0" by (simp add: before_def)
  have bn: "before ?s n = ?N" using lt s(1) by (simp add: before_def filter_id_conv)
  have "sorted P" using P(2,3) before_mono by (auto simp: sorted_iff_nth_mono)
  then have ok: "csc_ok n ?st" using s(1) P(2,3) bn lt by (auto simp: csc_ok_def)
  have "concat (map (\<lambda>c. map (\<lambda>k. (rowind ?st ! k, c, nzval ?st ! k)) [P ! c..<P ! (c + 1)]) [0..<m]) =
      map (\<lambda>k. triple_of (?s ! k)) [0..<before ?s m]" if "m \<le> n" for m
    using that
  proof (induction m)
    case (Suc m)
    have Pm: "P ! m = before ?s m" "P ! (m + 1) = before ?s (Suc m)" using P(3) Suc.prems by simp_all
    have le: "before ?s m \<le> before ?s (Suc m)" "before ?s (Suc m) \<le> ?N"
      using before_mono [of m "Suc m" ?s] before_mono [OF Suc.prems, of ?s] bn by simp_all
    have "ce_y (?s ! k) = m" if "before ?s m \<le> k" "k < before ?s (Suc m)" for k
      using before_iff [OF s(2), of k m] before_iff [OF s(2), of k "Suc m"] that le s(1) by simp
    then have "map (\<lambda>k. (rowind ?st ! k, m, nzval ?st ! k)) [before ?s m..<before ?s (Suc m)] =
        map (\<lambda>k. triple_of (?s ! k)) [before ?s m..<before ?s (Suc m)]"
      using le s(1) by (intro map_cong) (auto simp: triple_of_def)
    moreover have "[0..<before ?s (Suc m)] = [0..<before ?s m] @ [before ?s m..<before ?s (Suc m)]"
      using le(1) upt_add_eq_append [of 0 "before ?s m" "before ?s (Suc m) - before ?s m"] by simp
    ultimately show ?case using Suc.IH Suc.prems using Pm [unfolded Suc_eq_plus1 [symmetric]] by simp
  qed (simp add: b0)
  from this [OF order_refl] have "csc_triples n ?st = map (\<lambda>k. triple_of (?s ! k)) [0..<?N]"
    unfolding csc_triples_def bn by simp
  also have "\<dots> = map triple_of ?s" using s(1) by (intro nth_equalityI) simp_all
  finally have "represents n ts ?st" using ok s(3) by (simp add: represents_def)
  with P(1) show ?thesis by blast
qed

section \<open>Operations\<close>

lemma csc_okD:
  assumes "csc_ok n st" "c < n"
  shows "rd (colptr st) c = Inr (colptr st ! c)" "rd (colptr st) (c + 1) = Inr (colptr st ! (c + 1))"
    "colptr st ! c \<le> colptr st ! (c + 1)" "colptr st ! (c + 1) \<le> nc_nnz st"
proof -
  have l: "length (colptr st) = n + 1" "sorted (colptr st)" "colptr st ! n = nc_nnz st" using assms(1) by (simp_all add: csc_ok_def)
  then show "rd (colptr st) c = Inr (colptr st ! c)" "rd (colptr st) (c + 1) = Inr (colptr st ! (c + 1))" using assms(2) by simp_all
  show "colptr st ! c \<le> colptr st ! (c + 1)" using sorted_nth_mono [OF l(2), of c "c + 1"] l(1) assms(2) by simp
  show "colptr st ! (c + 1) \<le> nc_nnz st" using sorted_nth_mono [OF l(2), of "c + 1" n] l(1,3) assms(2) by simp
qed

lemma csc_elem:
  assumes "csc_ok n st" "k < nc_nnz st"
  shows "rd (rowind st) k = Inr (rowind st ! k)" "rd (nzval st) k = Inr (nzval st ! k)" "rowind st ! k < n"
  using assms by (auto simp: csc_ok_def)

text \<open>The product with a vector.\<close>

lemma copy_vector_whole: "length dst = n \<Longrightarrow> length src = n \<Longrightarrow> copy_dvector dst src n = Inr src"
  by (simp add: copy_dvector_def copy_vector_def)

lemma SparseMatrix_mul_vector_ok:
  assumes "csc_ok n (sm_Store A)" "sm_nrow A = n" "sm_ncol A = n" "length x = n"
  shows "SparseMatrix_mul_vector A x = Inr (map (\<lambda>r. \<Sum>c < n. csc_at (sm_Store A) r c * x ! c) [0..<n])"
proof -
  let ?st = "sm_Store A"
  let ?col = "\<lambda>c hi r. (\<Sum>k = colptr ?st ! c..<hi. if rowind ?st ! k = r then nzval ?st ! k else 0) * x ! c"
  let ?F = "\<lambda>i r. \<Sum>c < i. csc_at ?st r c * x ! c"
  let ?body = "\<lambda>i result. rbind (rd (colptr ?st) i) (\<lambda>lo. rbind (rd (colptr ?st) (i + 1)) (\<lambda>hi.
       for_up lo hi (\<lambda>j result. rbind (rd (rowind ?st) j) (\<lambda>r. rbind (rd result r) (\<lambda>s. rbind (rd (nzval ?st) j) (\<lambda>a. rbind (rd x i) (\<lambda>y.
         wr result r (s + a * y)))))) result))"
  have "\<exists>t. for_up 0 n ?body (dvector n) = Inr t \<and> length t = n \<and> (\<forall>r < n. t ! r = ?F n r)"
  proof (rule for_up_rule [where I = "\<lambda>i t. length t = n \<and> (\<forall>r < n. t ! r = ?F i r)"])
    fix i and t :: "real list" assume i: "i < n" and I: "length t = n \<and> (\<forall>r < n. t ! r = ?F i r)"
    note c = csc_okD [OF assms(1) i]
    have "\<exists>t'. for_up (colptr ?st ! i) (colptr ?st ! (i + 1)) (\<lambda>j result. rbind (rd (rowind ?st) j) (\<lambda>r. rbind (rd result r) (\<lambda>s. rbind (rd (nzval ?st) j) (\<lambda>a. rbind (rd x i) (\<lambda>y.
         wr result r (s + a * y)))))) t = Inr t' \<and> length t' = n \<and> (\<forall>r < n. t' ! r = ?F i r + ?col i (colptr ?st ! (i + 1)) r)"
    proof (rule for_up_rule [where I = "\<lambda>k u. length u = n \<and> (\<forall>r < n. u ! r = ?F i r + ?col i k r)"])
      fix j and u :: "real list"
      assume j: "colptr ?st ! i \<le> j" "j < colptr ?st ! (i + 1)" and J: "length u = n \<and> (\<forall>r < n. u ! r = ?F i r + ?col i j r)"
      have jn: "j < nc_nnz ?st" using j(2) c(4) by simp
      note e = csc_elem [OF assms(1) jn]
      have "?col i (Suc j) r = ?col i j r + (if rowind ?st ! j = r then nzval ?st ! j else 0) * x ! i" for r
        using j(1) by (simp add: sum.atLeastLessThan_Suc algebra_simps)
      then show "\<exists>v. rbind (rd (rowind ?st) j) (\<lambda>r. rbind (rd u r) (\<lambda>s. rbind (rd (nzval ?st) j) (\<lambda>a. rbind (rd x i) (\<lambda>y. wr u r (s + a * y))))) = Inr v \<and>
          length v = n \<and> (\<forall>r < n. v ! r = ?F i r + ?col i (Suc j) r)"
        using e J assms(4) i by (auto simp: nth_list_update)
    qed (use I c(3) in simp_all)
    then show "\<exists>t'. ?body i t = Inr t' \<and> length t' = n \<and> (\<forall>r < n. t' ! r = ?F (Suc i) r)"
      unfolding c(1,2) rbind_Inr by (simp add: csc_at_def)
  qed (simp_all add: dvector_def)
  then obtain t where t: "for_up 0 n ?body (dvector n) = Inr t" "length t = n" "\<forall>r < n. t ! r = ?F n r" by blast
  have "t = map (?F n) [0..<n]" by (rule nth_equalityI) (use t in auto)
  then show ?thesis
    using t(1,2) assms(2-4) copy_vector_whole [of x n t] by (simp add: SparseMatrix_mul_vector_def Let_def)
qed

text \<open>The addition of a diagonal matrix.\<close>

definition diag_slots :: "NCformat \<Rightarrow> nat \<Rightarrow> nat set" where
  "diag_slots st i = {k. colptr st ! i \<le> k \<and> k < colptr st ! (i + 1) \<and> rowind st ! k = i}"

definition diag_once :: "nat \<Rightarrow> NCformat \<Rightarrow> bool" where
  "diag_once n st \<longleftrightarrow> (\<forall>i < n. card (diag_slots st i) = 1)"

definition same_pattern :: "NCformat \<Rightarrow> NCformat \<Rightarrow> bool" where
  "same_pattern st st' \<longleftrightarrow> nc_nnz st' = nc_nnz st \<and> rowind st' = rowind st \<and> colptr st' = colptr st \<and> length (nzval st') = length (nzval st)"

lemma same_pattern_slots: "same_pattern st st' \<Longrightarrow> diag_slots st' = diag_slots st \<and> (csc_ok n st \<longrightarrow> csc_ok n st')"
  by (auto simp: same_pattern_def diag_slots_def csc_ok_def)

lemma bump_column_ok:
  assumes "csc_ok n st" "i < n"
  shows "\<exists>st'. bump_column i v st = Inr (diag_slots st i \<noteq> {}, st') \<and> same_pattern st st' \<and>
    (\<forall>k < nc_nnz st. nzval st' ! k = nzval st ! k + (if k \<in> diag_slots st i then v else 0))"
proof -
  note c = csc_okD [OF assms]
  let ?lo = "colptr st ! i" and ?hi = "colptr st ! (i + 1)"
  have len: "length (nzval st) = nc_nnz st" using assms(1) by (simp add: csc_ok_def)
  let ?body = "\<lambda>j (found, st). rbind (rd (rowind st) j) (\<lambda>r.
       if r = i then rbind (rd (nzval st) j) (\<lambda>x. rbind (wr (nzval st) j (x + v)) (\<lambda>a. Inr (True, st\<lparr>nzval := a\<rparr>)))
       else Inr (found, st))"
  let ?I = "\<lambda>j (found, s). found = (\<exists>k \<in> diag_slots st i. k < j) \<and> same_pattern st s \<and>
    (\<forall>k < nc_nnz st. nzval s ! k = nzval st ! k + (if k \<in> diag_slots st i \<and> k < j then v else 0))"
  have "\<exists>t. for_up ?lo ?hi ?body (False, st) = Inr t \<and> ?I ?hi t"
  proof (rule for_up_rule [where I = ?I])
    fix j and t :: "bool \<times> NCformat" assume j: "?lo \<le> j" "j < ?hi" and I: "?I j t"
    obtain f s where t: "t = (f, s)" by (cases t)
    have jn: "j < nc_nnz st" using j(2) c(4) by simp
    have s: "nc_nnz s = nc_nnz st" "rowind s = rowind st" "colptr s = colptr st" "length (nzval s) = nc_nnz st"
      "rd (rowind s) j = Inr (rowind st ! j)" "\<forall>k < nc_nnz st. nzval s ! k = nzval st ! k + (if k \<in> diag_slots st i \<and> k < j then v else 0)"
      using I len csc_elem [OF assms(1) jn] by (auto simp: t same_pattern_def)
    have jm: "j \<in> diag_slots st i \<longleftrightarrow> rowind st ! j = i" using j by (simp add: diag_slots_def)
    show "\<exists>t'. ?body j t = Inr t' \<and> ?I (Suc j) t'"
    proof (cases "rowind st ! j = i")
      case True
      let ?s = "s\<lparr>nzval := (nzval s)[j := nzval s ! j + v]\<rparr>"
      have "?body j t = Inr (True, ?s)" using True jn s(4,5) by (simp add: t)
      moreover have "same_pattern st ?s" using s len by (simp add: same_pattern_def)
      moreover have "nzval ?s ! k = nzval st ! k + (if k \<in> diag_slots st i \<and> k < Suc j then v else 0)" if "k < nc_nnz st" for k
        using s(4,6) that True jm jn by (auto simp: nth_list_update less_Suc_eq)
      ultimately show ?thesis using True jm by auto
    next
      case False
      then have "k \<in> diag_slots st i \<and> k < Suc j \<longleftrightarrow> k \<in> diag_slots st i \<and> k < j" for k using jm by (auto simp: less_Suc_eq)
      then show ?thesis using I False s(5) by (auto simp: t)
    qed
  next
    show "?I ?lo (False, st)" by (auto simp: same_pattern_def diag_slots_def)
  qed (rule c(3))
  then obtain f s where t: "for_up ?lo ?hi ?body (False, st) = Inr (f, s)" "?I ?hi (f, s)" by auto
  have "k < ?hi" if "k \<in> diag_slots st i" for k using that by (simp add: diag_slots_def)
  then show ?thesis using t c(1,2) by (intro exI [of _ s]) (auto simp: bump_column_def)
qed

lemma slots_disjoint:
  assumes "csc_ok n st" "c < n" "i < n" "colptr st ! c \<le> k" "k < colptr st ! (c + 1)" "k \<in> diag_slots st i"
  shows "c = i"
proof -
  have l: "length (colptr st) = n + 1" "sorted (colptr st)" using assms(1) by (simp_all add: csc_ok_def)
  have m: "colptr st ! (a + 1) \<le> colptr st ! b" if "a < b" "b < n" for a b using sorted_nth_mono [OF l(2), of "a + 1" b] l(1) that by simp
  have "\<not> c < i" "\<not> i < c" using m [of c i] m [of i c] assms by (auto simp: diag_slots_def)
  then show ?thesis by simp
qed

lemma bump_column_at:
  assumes ok: "csc_ok n st" "i < n" "c < n" and once: "card (diag_slots st i) = 1" and p: "same_pattern st st'"
    and v: "\<forall>k < nc_nnz st. nzval st' ! k = nzval st ! k + (if k \<in> diag_slots st i then v else 0)"
  shows "csc_at st' r c = csc_at st r c + (if r = i \<and> c = i then v else 0)"
proof -
  let ?S = "{colptr st ! c..<colptr st ! (c + 1)}"
  have "k < nc_nnz st" if "k \<in> ?S" for k using csc_okD(4) [OF ok(1,3)] that by simp
  then have "csc_at st' r c = (\<Sum>k \<in> ?S. (if rowind st ! k = r then nzval st ! k else 0) + (if rowind st ! k = r \<and> k \<in> diag_slots st i then v else 0))"
    unfolding csc_at_def using p v by (intro sum.cong) (auto simp: same_pattern_def)
  also have "\<dots> = csc_at st r c + (\<Sum>k \<in> ?S. if rowind st ! k = r \<and> k \<in> diag_slots st i then v else 0)"
    by (simp add: sum.distrib csc_at_def)
  also have "(\<Sum>k \<in> ?S. if rowind st ! k = r \<and> k \<in> diag_slots st i then v else 0) = (if r = i \<and> c = i then v else 0)"
  proof (cases "r = i \<and> c = i")
    case True
    have "(\<Sum>k \<in> ?S. if rowind st ! k = r \<and> k \<in> diag_slots st i then v else 0) = (\<Sum>k \<in> diag_slots st i. v)"
      using True by (intro sum.mono_neutral_cong_right) (auto simp: diag_slots_def)
    then show ?thesis using once True by simp
  next
    case False
    have "\<not> (rowind st ! k = r \<and> k \<in> diag_slots st i)" if "k \<in> ?S" for k
      using slots_disjoint [OF ok(1,3,2), of k] that False by (auto simp: diag_slots_def)
    then have "(\<Sum>k \<in> ?S. if rowind st ! k = r \<and> k \<in> diag_slots st i then v else 0) = (\<Sum>k \<in> ?S. 0)"
      by (intro sum.cong) auto
    then show ?thesis using False by auto
  qed
  finally show ?thesis .
qed

text \<open>A loop over the columns that adds \<open>f i\<close> to each diagonal element.\<close>

lemma add_diagonal_ok:
  assumes ok: "csc_ok n st" "diag_once n st"
    and body: "\<And>i s. i < n \<Longrightarrow> body i s = rbind (bump_column i (f i) s) (\<lambda>(found, s). if found then Inr s else Inl e)"
  shows "\<exists>st'. for_up 0 n body st = Inr st' \<and> same_pattern st st' \<and> (\<forall>r < n. \<forall>c < n. csc_at st' r c = csc_at st r c + (if r = c then f r else 0))"
proof -
  let ?I = "\<lambda>i s. same_pattern st s \<and> (\<forall>r < n. \<forall>c < n. csc_at s r c = csc_at st r c + (if r = c \<and> r < i then f r else 0))"
  have "\<exists>s. for_up 0 n body st = Inr s \<and> ?I n s"
  proof (rule for_up_rule [where I = ?I])
    fix i and s :: NCformat assume i: "i < n" and I: "?I i s"
    have s: "csc_ok n s" "diag_slots s = diag_slots st" using same_pattern_slots [of st s n] I ok(1) by auto
    obtain s' where s': "bump_column i (f i) s = Inr (diag_slots s i \<noteq> {}, s')" "same_pattern s s'"
      "\<forall>k < nc_nnz s. nzval s' ! k = nzval s ! k + (if k \<in> diag_slots s i then f i else 0)"
      using bump_column_ok [OF s(1) i] by blast
    have once: "card (diag_slots s i) = 1" using ok(2) i s(2) by (simp add: diag_once_def)
    have "?I (Suc i) s'"
      using I s'(2) bump_column_at [OF s(1) i _ once s'(2,3)] by (auto simp: same_pattern_def less_Suc_eq)
    moreover have "body i s = Inr s'" using body [OF i] s'(1) once by auto
    ultimately show "\<exists>t. body i s = Inr t \<and> ?I (Suc i) t" by blast
  qed (auto simp: same_pattern_def)
  then show ?thesis by auto
qed

lemma diagonal_add_ok:
  assumes "csc_ok n (sm_Store A)" "diag_once n (sm_Store A)" "sm_ncol A = n" "length (dm_vals diag) = n"
  shows "\<exists>st. diagonal_add_SparseMatrix c diag A = Inr (A\<lparr>sm_Store := st\<rparr>) \<and> same_pattern (sm_Store A) st \<and>
    (\<forall>r < n. \<forall>k < n. csc_at st r k = csc_at (sm_Store A) r k + (if r = k then c * dm_vals diag ! r else 0))"
proof -
  have "\<exists>st. for_up 0 n (\<lambda>i st. rbind (rd (dm_vals diag) i) (\<lambda>d. rbind (bump_column i (c * d) st) (\<lambda>(found, st).
       if found then Inr st else Inl (Fatal ''Matrix missing diagonal element! Cannot support that yet'')))) (sm_Store A) = Inr st \<and>
      same_pattern (sm_Store A) st \<and> (\<forall>r < n. \<forall>k < n. csc_at st r k = csc_at (sm_Store A) r k + (if r = k then c * dm_vals diag ! r else 0))"
    by (rule add_diagonal_ok [OF assms(1,2)]) (use assms(4) in simp)
  then show ?thesis using assms(3) by (auto simp: diagonal_add_SparseMatrix_def)
qed

text \<open>The diagonal elements of a matrix that represents triples.\<close>

lemma represents_slots:
  assumes "represents n ts st" "i < n"
  shows "card (diag_slots st i) = length (filter (\<lambda>(x, y, v). x = i \<and> y = i) ts)"
proof -
  define P where "P = (\<lambda>(x, y, v :: real). x = i \<and> y = i)"
  let ?g = "\<lambda>c k. (rowind st ! k, c, nzval st ! k)"
  have f: "length (filter (P \<circ> ?g c) [lo..<hi]) = (if c = i then card {k. lo \<le> k \<and> k < hi \<and> rowind st ! k = i} else 0)" for c lo hi
  proof -
    have "filter (P \<circ> ?g c) [lo..<hi] = (if c = i then filter (\<lambda>k. rowind st ! k = i) [lo..<hi] else [])" by (auto simp: comp_def P_def)
    moreover have "length (filter (\<lambda>k. rowind st ! k = i) [lo..<hi]) = card {k. lo \<le> k \<and> k < hi \<and> rowind st ! k = i}"
      by (subst distinct_card [symmetric]) (auto intro!: arg_cong [where f = card])
    ultimately show ?thesis by simp
  qed
  have "length (filter P (concat (map (\<lambda>c. map (?g c) [colptr st ! c..<colptr st ! (c + 1)]) [0..<m]))) = (if i < m then card (diag_slots st i) else 0)" for m
    by (induction m) (auto simp: filter_map f [unfolded Suc_eq_plus1] diag_slots_def less_Suc_eq simp flip: Suc_eq_plus1)
  then have "length (filter P (csc_triples n st)) = card (diag_slots st i)" using assms(2) by (simp add: csc_triples_def)
  moreover have "mset (filter P (csc_triples n st)) = mset (filter P ts)" using assms(1) by (simp add: represents_def)
  ultimately have "length (filter P ts) = card (diag_slots st i)" using mset_eq_length [of "filter P (csc_triples n st)" "filter P ts"] by simp
  then show ?thesis by (simp add: P_def)
qed

end
