(* ===== verification/Grid_Network.thy ===== *)
theory Grid_Network
  imports Grid_Assembly Csc
begin

text \<open>
  The matrix as the conductances of a network: symmetric, no positive entry off the diagonal, rows
  that sum to the conductance to the ambient, and a way from every node to the ambient.
\<close>

section \<open>The entries of a list of rows\<close>

definition rows_coo :: "row list \<Rightarrow> triple list" where
  "rows_coo rs = concat (map row_triples rs)"

text \<open>The conductance from a node to the ambient, and to another node.\<close>

definition row_ground :: "row \<Rightarrow> real" where
  "row_ground = (\<lambda>(n, ls, gs). \<Sum>R \<leftarrow> gs. 1 / R)"

definition row_link :: "row \<Rightarrow> nat \<Rightarrow> real" where
  "row_link = (\<lambda>(n, ls, gs) c. case map_of ls c of None \<Rightarrow> 0 | Some R \<Rightarrow> 1 / R)"

lemma coo_at_other_row: "r \<noteq> fst row \<Longrightarrow> coo_at (row_triples row) r c = 0"
  by (auto simp: coo_at_def row_triples_def comp_def split_beta intro!: sum_list_0)

lemma coo_at_rows:
  assumes "distinct (map fst rs)" "row \<in> set rs"
  shows "coo_at (rows_coo rs) (fst row) c = coo_at (row_triples row) (fst row) c"
proof -
  have z: "coo_at (concat (map row_triples ks)) r c = 0" if "r \<notin> set (map fst ks)" for ks r
    using that by (induction ks) (auto simp: coo_at_other_row)
  show ?thesis
    using assms unfolding rows_coo_def
  proof (induction rs)
    case (Cons k rs)
    then show ?case using z [of "fst row" rs] coo_at_other_row [of "fst row" k c] by (cases "row = k") (auto simp: image_iff)
  qed simp
qed

lemma coo_at_row:
  assumes "distinct (map fst ls)" "n \<notin> set (map fst ls)"
  shows "coo_at (row_triples (n, ls, gs)) n c = (if c = n then row_dia (n, ls, gs) else - row_link (n, ls, gs) c)"
proof -
  have "coo_at (map (\<lambda>(c, R). (n, c, - (1 / R))) ls) n c = (case map_of ls c of None \<Rightarrow> 0 | Some R \<Rightarrow> - (1 / R))"
    using assms(1)
  proof (induction ls)
    case (Cons e ls)
    obtain d R where e: "e = (d, R)" by (cases e)
    have "map_of ls c = None" if "d = c" using Cons.prems that by (auto simp: e map_of_eq_None_iff)
    then show ?case using Cons by (auto simp: e coo_at_def)
  qed simp
  moreover have "map_of ls n = None" using assms(2) by (simp add: map_of_eq_None_iff)
  moreover have "coo_at [(n, n, row_dia (n, ls, gs))] n c = (if c = n then row_dia (n, ls, gs) else 0)" by (simp add: coo_at_def)
  ultimately show ?thesis by (auto simp: row_triples_def row_link_def split: option.split)
qed

lemma sum_links:
  fixes N :: nat
  assumes "distinct (map fst ls)" "set (map fst ls) \<subseteq> {..<N}"
  shows "(\<Sum>c < N. case map_of ls c of None \<Rightarrow> 0 | Some R \<Rightarrow> 1 / R) = (\<Sum>R \<leftarrow> map snd ls. 1 / R :: real)"
  using assms
proof (induction ls)
  case (Cons e ls)
  obtain d R where e: "e = (d, R)" by (cases e)
  have d: "d < N" "map_of ls d = None" using Cons.prems by (auto simp: e map_of_eq_None_iff)
  have "(\<Sum>c < N. case map_of (e # ls) c of None \<Rightarrow> 0 | Some R \<Rightarrow> 1 / R) =
      (\<Sum>c < N. (if c = d then 1 / R else 0) + (case map_of ls c of None \<Rightarrow> 0 | Some R \<Rightarrow> 1 / R))"
    using d(2) by (intro sum.cong) (auto simp: e)
  moreover have "(\<Sum>c < N. if c = d then 1 / R else 0) = 1 / R" using d(1) by simp
  ultimately show ?case using Cons by (simp add: e sum.distrib)
qed simp

section \<open>The network\<close>

text \<open>The conductance of a node to the ambient.\<close>

definition package_ambient :: "grid_model_t \<Rightarrow> nat \<Rightarrow> real" where
  "package_ambient m k = (let p = gm_pack m in
     if k < SINK_C_W then 0
     else if k \<le> SINK_C_E then 1 / (r_hs_c_per_x p + r_amb_c_per_x p) else if k \<le> SINK_C_S then 1 / (r_hs_c_per_y p + r_amb_c_per_y p)
     else if k \<le> SINK_S then 1 / (r_hs_per p + r_amb_per p)
     else if k < PCB_C_W then 0
     else if k \<le> PCB_C_E then 1 / r_amb_sec_c_per_x p else if k \<le> PCB_C_S then 1 / r_amb_sec_c_per_y p else 1 / r_amb_sec_per p)"

definition ambient_g :: "grid_model_t \<Rightarrow> nat \<Rightarrow> real" where
  "ambient_g m n = (if n < grid_cells m then \<Sum>R \<leftarrow> ambient_list m (n div (gm_rows m * gm_cols m)). 1 / R
     else package_ambient m (n - grid_cells m))"

lemma cell_node_layer:
  assumes "in_grid m l i j"
  shows "cell_node m l i j div (gm_rows m * gm_cols m) = l"
proof -
  have "i * gm_cols m + j < gm_rows m * gm_cols m" using assms index_in_matrix [of i "gm_rows m" j "gm_cols m"] by (simp add: in_grid_def mult.commute)
  moreover have "cell_node m l i j = i * gm_cols m + j + l * (gm_rows m * gm_cols m)" by (simp add: cell_node_def)
  ultimately show ?thesis by (metis add.commute add.right_neutral div_less div_mult_self1 less_zeroE)
qed

lemma row_ground_ok:
  assumes "wired res m M" "row \<in> set (matrix_rows res m)"
  shows "row_ground row = ambient_g m (fst row)"
proof -
  have "row_ground row = ambient_g m (fst row)" if c: "row \<in> set (cell_rows res m)"
  proof -
    obtain l i j where g: "in_grid m l i j" "row = cell_row_at res m l i j" using c by (auto simp: in_cell_rows)
    have "row_ground row = (\<Sum>R \<leftarrow> snd (snd row). 1 / R)" by (simp add: row_ground_def split_beta)
    then show ?thesis
      using cell_row_at_ok(3,4) [OF assms(1) g(1)] cell_node_less [OF g(1)] cell_node_layer [OF g(1)] g(2) by (simp add: ambient_g_def)
  qed
  moreover have "list_all (\<lambda>row. row_ground row = ambient_g m (fst row)) (package_rows m)"
    by (simp add: package_rows_def Let_def all_sides_def ambient_g_def package_ambient_def row_ground_def sink_outer_row_def sink_inner_row_def
        spreader_row_def pcb_outer_row_def pcb_inner_row_def solder_row_def substrate_row_def node_defs sec_node_defs)
  ultimately show ?thesis using assms(2) unfolding matrix_rows_def list_all_iff by auto
qed

definition conductance :: "resistances \<Rightarrow> grid_model_t \<Rightarrow> nat \<Rightarrow> nat \<Rightarrow> real" where
  "conductance res m r c = coo_at (rows_coo (matrix_rows res m)) r c"

text \<open>What the row of a node says about it.\<close>

lemma node_row:
  assumes "wired res m M" "n < grid_dim m"
  shows "\<exists>ls gs. (n, ls, gs) \<in> set (matrix_rows res m) \<and> row_joined m M n ls \<and>
    (\<forall>c. conductance res m n c = (if c = n then row_dia (n, ls, gs) else - row_link (n, ls, gs) c)) \<and>
    (\<Sum>R \<leftarrow> gs. 1 / R) = ambient_g m n \<and> (\<forall>R \<in> set gs. 0 < R)"
proof -
  note nodes = grid_rows_nodes [OF assms(1)] and st = stackedD [OF wiredD(1) [OF assms(1)]]
  obtain row where row: "row \<in> set (matrix_rows res m)" "fst row = n" using nodes(2) assms(2) by (metis (no_types, lifting) imageE lessThan_iff list.set_map)
  obtain ls gs where r: "row = (n, ls, gs)" using row(2) by (cases row) auto
  have g: "row_joined m M n ls" "\<forall>R \<in> set gs. 0 < R" using grid_rows_good [OF assms(1) row(1)] by (simp_all add: r good_row_def)
  have "n \<notin> set (map fst ls)" using g(1) joined_less [OF st(1,2)] by (fastforce simp: row_joined_def)
  then have "conductance res m n c = (if c = n then row_dia (n, ls, gs) else - row_link (n, ls, gs) c)" for c
    unfolding conductance_def using coo_at_rows [OF nodes(1) row(1), of c] coo_at_row [of ls n gs c] g(1) by (simp add: r row_joined_def)
  moreover have "(\<Sum>R \<leftarrow> gs. 1 / R) = ambient_g m n" using row_ground_ok [OF assms(1) row(1)] by (simp add: r row_ground_def)
  ultimately show ?thesis using row(1) g by (auto simp: r)
qed

lemma row_link_sym:
  assumes "row_joined m M n ls" "row_joined m M c ks"
  shows "row_link (n, ls, gs) c = row_link (c, ks, hs) n"
proof -
  have "map_of ls c = Some R \<longleftrightarrow> map_of ks n = Some R" for R
    using assms by (auto simp: row_joined_def map_of_eq_Some_iff)
  then have "map_of ls c = map_of ks n" by (metis not_None_eq)
  then show ?thesis by (simp add: row_link_def)
qed

lemma row_link_joined:
  assumes "row_joined m M n ls" "joined m M n c R \<or> joined m M c n R"
  shows "row_link (n, ls, gs) c = 1 / R"
  using assms by (auto simp: row_joined_def row_link_def dest: map_of_is_SomeI)

section \<open>Conductive\<close>

lemma conductance_sym:
  assumes "wired res m M" "r < grid_dim m" "c < grid_dim m"
  shows "conductance res m r c = conductance res m c r"
proof (cases "r = c")
  case False
  obtain ls gs where r: "row_joined m M r ls" "\<forall>c. conductance res m r c = (if c = r then row_dia (r, ls, gs) else - row_link (r, ls, gs) c)"
    using node_row [OF assms(1,2)] by blast
  obtain ks hs where c: "row_joined m M c ks" "\<forall>r. conductance res m c r = (if r = c then row_dia (c, ks, hs) else - row_link (c, ks, hs) r)"
    using node_row [OF assms(1,3)] by blast
  show ?thesis using r(2) c(2) row_link_sym [OF r(1) c(1)] False by simp
qed simp

lemma conductance_joined:
  assumes "wired res m M" "n < grid_dim m" "joined m M n c R \<or> joined m M c n R"
  shows "conductance res m n c = - (1 / R)"
proof -
  obtain ls gs where r: "row_joined m M n ls" "\<forall>c. conductance res m n c = (if c = n then row_dia (n, ls, gs) else - row_link (n, ls, gs) c)"
    using node_row [OF assms(1,2)] by blast
  have "c \<noteq> n" using joined_less stackedD(1,2) [OF wiredD(1) [OF assms(1)]] assms(3) by blast
  then show ?thesis using r(2) row_link_joined [OF r(1) assms(3)] by simp
qed

lemma conductance_off_diag:
  assumes "wired res m M" "n < grid_dim m" "n \<noteq> c"
  shows "conductance res m n c \<le> 0"
proof -
  obtain ls gs where r: "row_joined m M n ls" "\<forall>c. conductance res m n c = (if c = n then row_dia (n, ls, gs) else - row_link (n, ls, gs) c)"
    using node_row [OF assms(1,2)] by blast
  have "0 < R" if "map_of ls c = Some R" for R
    using map_of_SomeD [OF that] r(1) joined_pos [OF assms(1)] by (auto simp: row_joined_def)
  then show ?thesis using r(2) assms(3) by (simp add: row_link_def less_imp_le split: option.split)
qed

lemma joined_dim:
  assumes "wired res m M" "joined m M n c R"
  shows "n < grid_dim m" "c < grid_dim m"
proof -
  have "c < grid_dim m"
    using assms(2)
  proof (cases rule: joined.cases)
    case (edge l i j d w rx ry)
    then show ?thesis
      by (cases d) (auto simp: grid_dim_cells extra_nodes_def EXTRA_def EXTRA_SEC_def part_def Let_def part_node_defs split: if_splits)
  next
    case (plate v w f d)
    then show ?thesis
      by (cases d) (auto simp: grid_dim_cells extra_nodes_def EXTRA_def EXTRA_SEC_def plates_def Let_def part_node_defs split: if_splits)
  qed (use cell_node_less in \<open>auto simp: grid_dim_cells intro: trans_less_add1\<close>)
  moreover have "n < c" using joined_less stackedD(1,2) [OF wiredD(1) [OF assms(1)]] assms(2) by blast
  ultimately show "n < grid_dim m" "c < grid_dim m" by simp_all
qed

lemma conductance_row_sum:
  assumes "wired res m M" "n < grid_dim m"
  shows "(\<Sum>c < grid_dim m. conductance res m n c) = ambient_g m n"
proof -
  obtain ls gs where r: "row_joined m M n ls" "\<forall>c. conductance res m n c = (if c = n then row_dia (n, ls, gs) else - row_link (n, ls, gs) c)"
    "(\<Sum>R \<leftarrow> gs. 1 / R) = ambient_g m n"
    using node_row [OF assms] by blast
  have less: "a < b" if "joined m M a b R" for a b R using joined_less stackedD(1,2) [OF wiredD(1) [OF assms(1)]] that by blast
  have sub: "set (map fst ls) \<subseteq> {..<grid_dim m}" using r(1) joined_dim [OF assms(1)] by (auto simp: row_joined_def)
  have "n \<notin> set (map fst ls)" using r(1) less by (fastforce simp: row_joined_def)
  then have "map_of ls n = None" by (simp add: map_of_eq_None_iff)
  then have n: "row_link (n, ls, gs) n = 0" by (simp add: row_link_def)
  have "(\<Sum>c < grid_dim m. conductance res m n c) =
      (\<Sum>c < grid_dim m. (if c = n then row_dia (n, ls, gs) else 0) - row_link (n, ls, gs) c)"
    using r(2) n by (intro sum.cong) auto
  also have "\<dots> = row_dia (n, ls, gs) - (\<Sum>c < grid_dim m. row_link (n, ls, gs) c)"
    using assms(2) by (simp add: sum_subtractf)
  also have "(\<Sum>c < grid_dim m. row_link (n, ls, gs) c) = (\<Sum>R \<leftarrow> map snd ls. 1 / R)"
    using sum_links [of ls "grid_dim m"] r(1) sub by (simp add: row_link_def row_joined_def)
  finally show ?thesis using r(3) by (simp add: row_dia_def)
qed

lemma ambient_g_nonneg:
  assumes "wired res m M" "n < grid_dim m"
  shows "0 \<le> ambient_g m n"
proof -
  obtain gs where g: "(\<Sum>R \<leftarrow> gs. 1 / R) = ambient_g m n" "\<forall>R \<in> set gs. 0 < R" using node_row [OF assms] by blast
  have "0 \<le> (\<Sum>R \<leftarrow> gs. 1 / R)" by (rule sum_list_nonneg) (use g(2) in auto)
  then show ?thesis using g(1) by simp
qed

text \<open>Every node loses heat to the ambient or to a node of a greater number.\<close>

lemma package_node_cases:
  assumes "k < extra_nodes (gm_config m)"
  shows "\<exists>w d. k = at_side w d \<and> (w \<in> {SP_W, SINK_C_W, SINK_W} \<or> model_secondary (gm_config m) \<noteq> 0 \<and> w \<in> {SUB_W, SOLDER_W, PCB_C_W, PCB_W})"
proof -
  define w where "w = 4 * (k div 4)"
  have "k = w + k mod 4" by (simp add: w_def)
  moreover have "k mod 4 \<in> {0, 1, 2, 3}" by auto
  ultimately have "\<exists>d. k = at_side w d"
    using at_side.simps [of w] by (metis add.right_neutral empty_iff insert_iff)
  moreover have "w \<in> {SP_W, SINK_C_W, SINK_W} \<or> model_secondary (gm_config m) \<noteq> 0 \<and> w \<in> {SUB_W, SOLDER_W, PCB_C_W, PCB_W}"
  proof (cases "model_secondary (gm_config m) = 0")
    case True
    then have "k div 4 < 3" using assms by (simp add: extra_nodes_def EXTRA_def)
    then show ?thesis by (auto simp: w_def part_node_defs)
  next
    case False
    then have "k div 4 < 7" using assms by (simp add: extra_nodes_def EXTRA_def EXTRA_SEC_def)
    then show ?thesis using False by (auto simp: w_def part_node_defs)
  qed
  ultimately show ?thesis by blast
qed

lemma node_cools:
  assumes "wired res m M" "n < grid_dim m"
  shows "0 < ambient_g m n \<or> (\<exists>c R. joined m M n c R)"
proof (cases "n < grid_cells m")
  case True
  have "n \<in> set (map fst (cell_rows res m))" using True by (simp add: cell_rows_nodes [OF assms(1)])
  then obtain row where "row \<in> set (cell_rows res m)" "n = fst row" by auto
  then obtain l i j where g: "in_grid m l i j" "n = cell_node m l i j"
    using cell_row_at_ok(3) [OF assms(1)] by (auto simp: in_cell_rows)
  show ?thesis
  proof (cases "l + 1 < gm_n_layers m")
    case True
    then have "in_grid m (l + 1) i j" using g(1) by (simp add: in_grid_def)
    from joined.below [OF this, of M] show ?thesis using g(2) by blast
  next
    case False
    then have "l = hsidx m" using g(1) stackedD(4) [OF wiredD(1) [OF assms(1)]] by (auto simp: in_grid_def hsidx_def stack_defs)
    moreover have "0 < ly_rz (gm_layers m ! l)" using wiredD(4) [OF assms(1)] g(1) by (simp add: in_grid_def resistive_def)
    ultimately show ?thesis using True g by (simp add: ambient_g_def cell_node_layer ambient_list_def)
  qed
next
  case False
  define k where "k = n - grid_cells m"
  have k: "n = grid_cells m + k" "k < extra_nodes (gm_config m)" using False assms(2) by (simp_all add: k_def grid_dim_cells)
  obtain w d where wd: "k = at_side w d" "w \<in> {SP_W, SINK_C_W, SINK_W} \<or> model_secondary (gm_config m) \<noteq> 0 \<and> w \<in> {SUB_W, SOLDER_W, PCB_C_W, PCB_W}"
    using package_node_cases [OF k(2)] by blast
  have pl: "\<exists>v f. (w, v, f) \<in> set (plates m)" if "w = SP_W \<or> model_secondary (gm_config m) \<noteq> 0 \<and> w \<in> {SUB_W, SOLDER_W}"
    using that by (auto simp: plates_def Let_def)
  have am: "0 < package_ambient m (at_side w d)" if "w = SINK_C_W \<or> w = SINK_W \<or> model_secondary (gm_config m) \<noteq> 0 \<and> w \<in> {PCB_C_W, PCB_W}"
  proof -
    note p = wiredD(2,3) [OF assms(1)]
    have "0 < r_hs_c_per_x (gm_pack m) + r_amb_c_per_x (gm_pack m)" "0 < r_hs_c_per_y (gm_pack m) + r_amb_c_per_y (gm_pack m)"
      "0 < r_hs_per (gm_pack m) + r_amb_per (gm_pack m)" using p(1) by (simp_all add: pack_R_ok_def add_pos_nonneg)
    moreover have "0 < r_amb_sec_c_per_x (gm_pack m) \<and> 0 < r_amb_sec_c_per_y (gm_pack m) \<and> 0 < r_amb_sec_per (gm_pack m)"
      if "model_secondary (gm_config m) \<noteq> 0" using p(2) [OF that] by (simp add: secondary_ok_def Let_def)
    ultimately show ?thesis using that by (cases d) (auto simp: package_ambient_def Let_def node_defs sec_node_defs)
  qed
  show ?thesis using wd(2) pl am joined.plate [of w _ _ m M d] k(1) wd(1) unfolding ambient_g_def by fastforce
qed

lemma uniform_bound:
  assumes "\<And>i d e. P i d \<Longrightarrow> e \<le> d \<Longrightarrow> P i e" "\<forall>i < n. \<exists>d > 0. P i d"
  shows "\<exists>d > (0::real). \<forall>i < (n::nat). P i d"
  using assms(2)
proof (induction n)
  case 0
  show ?case by (intro exI [of _ 1]) simp
next
  case (Suc n)
  then obtain d where d: "0 < d" "\<forall>i < n. P i d" by auto
  obtain e where e: "0 < e" "P n e" using Suc.prems by blast
  show ?case using d e assms(1) by (intro exI [of _ "min d e"]) (auto simp: less_Suc_eq intro: assms(1))
qed

theorem grid_conductive:
  assumes "wired res m M"
  shows "\<exists>d > 0. conductive 0 (grid_dim m) d (conductance res m)"
proof -
  let ?N = "grid_dim m" and ?F = "conductance res m"
  let ?P = "\<lambda>i d. d \<le> ambient_g m i \<or> (\<exists>j. i < j \<and> j < ?N \<and> ?F i j \<le> - d)"
  have leak: "leak 0 ?N ?F i = ambient_g m i" if "i < ?N" for i
    using conductance_row_sum [OF assms that] by (simp add: leak_def atLeast0LessThan)
  have "\<exists>d > 0. ?P i d" if i: "i < ?N" for i
  proof (cases "0 < ambient_g m i")
    case False
    then obtain c R where j: "joined m M i c R" using node_cools [OF assms i] by blast
    have "i < c" using joined_less stackedD(1,2) [OF wiredD(1) [OF assms]] j by blast
    moreover have "?F i c = - (1 / R)" using conductance_joined [OF assms i] j by blast
    ultimately show ?thesis using joined_pos [OF assms j] joined_dim(2) [OF assms j] by (intro exI [of _ "1 / R"]) auto
  qed blast
  then have ex: "\<forall>i < ?N. \<exists>d > 0. ?P i d" by blast
  have "\<exists>d > 0. \<forall>i < ?N. ?P i d"
    by (rule uniform_bound [OF _ ex]) (meson neg_le_iff_le order_trans)
  then obtain d where d: "0 < d" "\<forall>i < ?N. ?P i d" by blast
  have "conductive 0 ?N d ?F"
    unfolding conductive_def using conductance_sym [OF assms] conductance_off_diag [OF assms] leak ambient_g_nonneg [OF assms] d(2) by auto
  with d(1) show ?thesis by blast
qed

end
