(* ===== verification/Grid_Power.thy ===== *)
theory Grid_Power
  imports Grid_Setup
begin

text \<open>
  Power on the grid: the power of a cell is what the blocks in it dissipate there, so that the
  cells of a layer together have the power of its blocks.
\<close>

section \<open>A cell\<close>

lemma on_grid_sizes:
  assumes "on_grid rows cols cw ch un" "0 < cw" "0 < ch"
  shows "0 < width un" "0 < height un"
proof -
  have "0 < width un / cw" "0 < height un / ch" using assms(1) DELTA_pos unfolding on_grid_def by linarith+
  then show "0 < width un" "0 < height un" using assms(2,3) by (simp_all add: zero_less_divide_iff)
qed

definition density :: "flp_t \<Rightarrow> real list \<Rightarrow> nat \<Rightarrow> nat \<Rightarrow> real" where
  "density flp b base u = b ! (base + u) / (width (units flp ! u) * height (units flp ! u))"

text \<open>What a block contributes to a cell it covers: its density of power, or its temperature.\<close>

definition unit_value :: "nat \<Rightarrow> flp_t \<Rightarrow> real list \<Rightarrow> nat \<Rightarrow> nat \<Rightarrow> real" where
  "unit_value ty flp b base u = (if ty = V_POWER then density flp b base u else b ! (base + u))"

lemma blist_avg_ok:
  assumes ty: "ty = V_POWER \<or> ty = V_TEMP" and "\<And>e. e \<in> set (entries bs) \<Longrightarrow> fst e < n" "n \<le> length (units flp)" "base + n \<le> length b"
    and "\<And>u. u < n \<Longrightarrow> width (units flp ! u) \<noteq> 0 \<and> height (units flp ! u) \<noteq> 0"
  shows "blist_avg bs flp b base ty val = Inr (val + (\<Sum>e \<leftarrow> entries bs. snd e * unit_value ty flp b base (fst e)))"
  using assms(2)
proof (induction bs arbitrary: val)
  case (Cons a bs)
  have "bl_idx a < n" using Cons.prems [of "(bl_idx a, occupancy a)"] by simp
  then have "rd b (base + bl_idx a) = Inr (b ! (base + bl_idx a))" "rd (units flp) (bl_idx a) = Inr (units flp ! bl_idx a)"
    "width (units flp ! bl_idx a) * height (units flp ! bl_idx a) \<noteq> 0"
    using assms(3,4,5) by simp_all
  then show ?case using Cons ty by (auto simp: density_def unit_value_def V_POWER_def V_TEMP_def)
qed simp

lemma cell_list_sum:
  assumes "\<And>u. u < n \<Longrightarrow> on_grid rows cols cw ch (units flp ! u)" "0 < cw" "0 < ch" "i < rows"
  shows "(\<Sum>e \<leftarrow> cell_list rows cw ch flp n i j. snd e * d (fst e)) = (\<Sum>u < n. cover rows cw ch (units flp ! u) i j * d u)"
  using assms(1)
proof (induction n)
  case (Suc n)
  have "on_grid rows cols cw ch (units flp ! n)" using Suc.prems by simp
  then have "\<not> in_extent (extent rows cw ch (units flp ! n)) i j \<Longrightarrow> cover rows cw ch (units flp ! n) i j = 0"
    using cover_outside assms(2-4) by blast
  then show ?case using Suc by (auto simp: cell_list_def)
qed (simp add: cell_list_def)

lemma cell_list_index: "e \<in> set (cell_list rows cw ch flp n i j) \<Longrightarrow> fst e < n"
  by (auto simp: cell_list_def)

section \<open>A layer\<close>

lemma layer_power:
  assumes "\<And>u. u < n \<Longrightarrow> on_grid rows cols cw ch (units flp ! u)" "0 < cw" "0 < ch"
  shows "(\<Sum>i < rows. \<Sum>j < cols. (\<Sum>u < n. cover rows cw ch (units flp ! u) i j * density flp b base u) * (cw * ch)) = (\<Sum>u < n. b ! (base + u))"
proof -
  let ?C = "\<lambda>u i j. cover rows cw ch (units flp ! u) i j" and ?d = "density flp b base"
  have "(\<Sum>i < rows. \<Sum>j < cols. (\<Sum>u < n. ?C u i j * ?d u) * (cw * ch)) = (\<Sum>i < rows. \<Sum>j < cols. \<Sum>u < n. ?C u i j * (?d u * (cw * ch)))"
    by (simp add: sum_distrib_right mult.assoc)
  also have "\<dots> = (\<Sum>i < rows. \<Sum>u < n. \<Sum>j < cols. ?C u i j * (?d u * (cw * ch)))" by (intro sum.cong refl sum.swap)
  also have "\<dots> = (\<Sum>u < n. \<Sum>i < rows. \<Sum>j < cols. ?C u i j * (?d u * (cw * ch)))" by (rule sum.swap)
  also have "\<dots> = (\<Sum>u < n. (\<Sum>i < rows. \<Sum>j < cols. ?C u i j) * (?d u * (cw * ch)))" by (simp only: sum_distrib_right)
  also have "\<dots> = (\<Sum>u < n. b ! (base + u))"
  proof (rule sum.cong)
    fix u assume "u \<in> {..<n}"
    then have on: "on_grid rows cols cw ch (units flp ! u)" using assms(1) by simp
    show "(\<Sum>i < rows. \<Sum>j < cols. ?C u i j) * (?d u * (cw * ch)) = b ! (base + u)"
      using assms(2,3) on_grid_sizes [OF on assms(2,3)] unfolding sum_cover [OF on assms(2,3)] by (simp add: density_def field_simps)
  qed simp
  finally show ?thesis .
qed

section \<open>The model\<close>

text \<open>Where the blocks of a layer start in a vector of blocks.\<close>

definition block_base :: "flp_store \<Rightarrow> grid_model_t \<Rightarrow> nat \<Rightarrow> nat" where
  "block_base fs m n = (\<Sum>k < n. n_units (fs (ly_flp (gm_layers m ! k))))"

definition cell_power :: "flp_store \<Rightarrow> grid_model_t \<Rightarrow> real list \<Rightarrow> nat \<Rightarrow> nat \<Rightarrow> nat \<Rightarrow> real" where
  "cell_power fs m b n i j = (let flp = fs (ly_flp (gm_layers m ! n)) in
     (\<Sum>u < n_units flp. cover (gm_rows m) (cell_width m) (cell_height m) (units flp ! u) i j * density flp b (block_base fs m n) u) *
     (cell_width m * cell_height m))"

text \<open>The value of a cell for either type of vector.\<close>

definition cell_value :: "flp_store \<Rightarrow> grid_model_t \<Rightarrow> real list \<Rightarrow> nat \<Rightarrow> nat \<Rightarrow> nat \<Rightarrow> nat \<Rightarrow> real" where
  "cell_value fs m b ty n i j = (let flp = fs (ly_flp (gm_layers m ! n)) in
     (\<Sum>u < n_units flp. cover (gm_rows m) (cell_width m) (cell_height m) (units flp ! u) i j * unit_value ty flp b (block_base fs m n) u) *
     (if ty = V_POWER then cell_width m * cell_height m else 1))"

lemma cell_value_power: "cell_value fs m b V_POWER = cell_power fs m b"
  by (intro ext) (simp add: cell_value_def cell_power_def unit_value_def)

definition usable :: "flp_store \<Rightarrow> grid_model_t \<Rightarrow> bool" where
  "usable fs m \<longleftrightarrow> gm_n_layers m \<le> length (gm_layers m) \<and> 0 < gm_width m \<and> 0 < gm_height m \<and>
     (\<forall>n < gm_n_layers m. mapped fs m (gm_layers m ! n) \<and>
       grid_fits (gm_rows m) (gm_cols m) (gm_width m) (gm_height m) (fs (ly_flp (gm_layers m ! n))))"

lemma block_base_mono: "k \<le> n \<Longrightarrow> block_base fs m k \<le> block_base fs m n"
  unfolding block_base_def by (rule sum_mono2) auto

lemma usableD:
  assumes "usable fs m" "n < gm_n_layers m"
  shows "rd (gm_layers m) n = Inr (gm_layers m ! n)" "mapped fs m (gm_layers m ! n)" "0 < gm_rows m" "0 < gm_cols m"
    "0 < cell_width m" "0 < cell_height m" "n_units (fs (ly_flp (gm_layers m ! n))) \<le> length (units (fs (ly_flp (gm_layers m ! n))))"
    "u < n_units (fs (ly_flp (gm_layers m ! n))) \<Longrightarrow>
      on_grid (gm_rows m) (gm_cols m) (cell_width m) (cell_height m) (units (fs (ly_flp (gm_layers m ! n))) ! u)"
proof -
  have "grid_fits (gm_rows m) (gm_cols m) (gm_width m) (gm_height m) (fs (ly_flp (gm_layers m ! n)))" "mapped fs m (gm_layers m ! n)"
    "n < length (gm_layers m)" using assms by (auto simp: usable_def)
  then show "rd (gm_layers m) n = Inr (gm_layers m ! n)" "mapped fs m (gm_layers m ! n)" "0 < gm_rows m" "0 < gm_cols m"
    "0 < cell_width m" "0 < cell_height m" "n_units (fs (ly_flp (gm_layers m ! n))) \<le> length (units (fs (ly_flp (gm_layers m ! n))))"
    "u < n_units (fs (ly_flp (gm_layers m ! n))) \<Longrightarrow>
      on_grid (gm_rows m) (gm_cols m) (cell_width m) (cell_height m) (units (fs (ly_flp (gm_layers m ! n))) ! u)"
    by (simp_all add: grid_fits_def cell_width_def cell_height_def)
qed

lemma b2g_cell_ok:
  assumes ty: "ty = V_POWER \<or> ty = V_TEMP" and "usable fs m" "n < gm_n_layers m" "i < gm_rows m" "j < gm_cols m" "block_base fs m (gm_n_layers m) \<le> length b"
    and "gv_ok g (gm_n_layers m) (gm_rows m) (gm_cols m) xt" "l = gm_layers m ! n"
  shows "b2g_cell m (fs (ly_flp l)) (gm_b2g m (ly_b2gmap l)) b (block_base fs m n) ty (cell_width m * cell_height m) n i j g =
    gv_set g n i j (cell_value fs m b ty n i j)"
proof -
  let ?f = "fs (ly_flp l)" and ?bs = "m_at (gm_b2g m (ly_b2gmap l)) i j"
  note u = usableD [OF assms(2,3), folded assms(8)]
  have e: "entries ?bs = cell_list (gm_rows m) (cell_width m) (cell_height m) ?f (n_units ?f) i j" "map_ok (gm_rows m) (gm_cols m) (gm_b2g m (ly_b2gmap l))"
    using u(2) assms(4,5) by (auto simp: mapped_def Let_def)
  have "block_base fs m n + n_units ?f = block_base fs m (Suc n)" by (simp add: block_base_def assms(8))
  also have "\<dots> \<le> length b" using block_base_mono [of "Suc n" "gm_n_layers m" fs m] assms(3,6) by simp
  finally have len: "block_base fs m n + n_units ?f \<le> length b" .
  have "blist_avg ?bs ?f b (block_base fs m n) ty 0 = Inr (0 + (\<Sum>e \<leftarrow> entries ?bs. snd e * unit_value ty ?f b (block_base fs m n) (fst e)))"
  proof (rule blist_avg_ok [OF ty])
    show "width (units ?f ! v) \<noteq> 0 \<and> height (units ?f ! v) \<noteq> 0" if "v < n_units ?f" for v
      using on_grid_sizes [OF u(8) [OF that] u(5,6)] by simp
    show "fst e < n_units ?f" if "e \<in> set (entries ?bs)" for e using that cell_list_index unfolding e(1) by blast
  qed (rule u(7) len)+
  then have "blist_avg ?bs ?f b (block_base fs m n) ty 0 =
      Inr (\<Sum>v < n_units ?f. cover (gm_rows m) (cell_width m) (cell_height m) (units ?f ! v) i j * unit_value ty ?f b (block_base fs m n) v)"
    unfolding e(1) using cell_list_sum [of "n_units ?f", OF u(8) u(5,6) assms(4)] by simp
  then show ?thesis
    using cell_get_ok [OF e(2) assms(4,5)] ty unfolding b2g_cell_def cell_value_def Let_def assms(8) by (auto simp: V_POWER_def V_TEMP_def)
qed

lemma xlate_vector_ok:
  assumes ty: "ty = V_POWER \<or> ty = V_TEMP" and "usable fs m" "block_base fs m (gm_n_layers m) + extra_nodes (gm_config m) \<le> length b" "0 < gm_n_layers m"
    and "gv_ok g (gm_n_layers m) (gm_rows m) (gm_cols m) (extra_nodes (gm_config m))"
  shows "\<exists>g'. xlate_vector_b2g fs m b g ty = Inr g' \<and> gv_ok g' (gm_n_layers m) (gm_rows m) (gm_cols m) (extra_nodes (gm_config m)) \<and>
    (\<forall>n i j. n < gm_n_layers m \<and> i < gm_rows m \<and> j < gm_cols m \<longrightarrow> gv_at g' n i j = cell_value fs m b ty n i j) \<and>
    (\<forall>k < extra_nodes (gm_config m). gx_at g' k = b ! (block_base fs m (gm_n_layers m) + k))"
proof -
  let ?nl = "gm_n_layers m" and ?r = "gm_rows m" and ?c = "gm_cols m" and ?x = "extra_nodes (gm_config m)"
  let ?area = "cell_width m * cell_height m"
  have area: "fdiv (gm_width m * gm_height m) (real (?c * ?r)) = Inr ?area"
    using usableD(3,4) [OF assms(2,4)] by (simp add: cell_width_def cell_height_def)
  define P where "P n g \<longleftrightarrow> gv_ok g ?nl ?r ?c ?x \<and> (\<forall>k i j. k < n \<and> i < ?r \<and> j < ?c \<longrightarrow> gv_at g k i j = cell_value fs m b ty k i j)" for n g
  have "\<exists>st. for_up 0 ?nl (b2g_layer fs m b ty ?area) (0, g) = Inr st \<and> (case st of (base, g) \<Rightarrow> base = block_base fs m ?nl \<and> P ?nl g)"
  proof (rule for_up_rule [where I = "\<lambda>n st. case st of (base, g) \<Rightarrow> base = block_base fs m n \<and> P n g"])
    show "case (0, g) of (base, g) \<Rightarrow> base = block_base fs m 0 \<and> P 0 g" using assms(5) by (simp add: P_def block_base_def)
  next
    fix n st assume n: "n < ?nl" and "case st of (base, g) \<Rightarrow> base = block_base fs m n \<and> P n g"
    then obtain h where st: "st = (block_base fs m n, h)" and h: "P n h" by (cases st) auto
    let ?l = "gm_layers m ! n"
    let ?body = "\<lambda>i j. b2g_cell m (fs (ly_flp ?l)) (gm_b2g m (ly_b2gmap ?l)) b (block_base fs m n) ty ?area n i j"
    have "\<exists>t. for_up 0 ?r (\<lambda>i. for_up 0 ?c (?body i)) h = Inr t \<and> P n t \<and>
      (\<forall>k l. k < ?r \<and> l < ?c \<longrightarrow> gv_at t n k l = (if in_rect 0 ?r 0 ?c k l then cell_value fs m b ty n k l else gv_at h n k l))"
    proof (rule mesh_rule)
      fix i j t assume "in_rect 0 ?r 0 ?c i j" and t: "P n t"
      then have ij: "i < ?r" "j < ?c" by (simp_all add: in_rect_def)
      have ok: "gv_ok t ?nl ?r ?c ?x" using t by (simp add: P_def)
      have "?body i j t = gv_set t n i j (cell_value fs m b ty n i j)"
        by (rule b2g_cell_ok [OF ty assms(2) n ij _ ok]) (use assms(3) in simp_all)
      moreover obtain w where w: "gv_set t n i j (cell_value fs m b ty n i j) = Inr w" "gv_ok w ?nl ?r ?c ?x"
        "\<forall>q k l. q < ?nl \<and> k < ?r \<and> l < ?c \<longrightarrow> gv_at w q k l = (if q = n \<and> k = i \<and> l = j then cell_value fs m b ty n i j else gv_at t q k l)"
        using gv_set_ok [OF ok n ij] by blast
      moreover have "P n w" using w(2,3) t n by (simp add: P_def)
      ultimately show "\<exists>t'. ?body i j t = Inr t' \<and> P n t' \<and>
          (\<forall>k l. k < ?r \<and> l < ?c \<longrightarrow> gv_at t' n k l = (if k = i \<and> l = j then cell_value fs m b ty n i j else gv_at t n k l))"
        using n by (intro exI [of _ w]) simp
    qed (use h in \<open>simp_all add: in_rect_def\<close>)
    then obtain t where t: "for_up 0 ?r (\<lambda>i. for_up 0 ?c (?body i)) h = Inr t" "P n t"
      "\<forall>k l. k < ?r \<and> l < ?c \<longrightarrow> gv_at t n k l = cell_value fs m b ty n k l" by (auto simp: in_rect_def)
    then have "P (Suc n) t" by (auto simp: P_def less_Suc_eq)
    moreover have "b2g_layer fs m b ty ?area n st = Inr (block_base fs m (Suc n), t)"
      unfolding b2g_layer_def st prod.case usableD(1) [OF assms(2) n] rbind_Inr Let_def t(1) by (simp add: block_base_def)
    ultimately show "\<exists>st'. b2g_layer fs m b ty ?area n st = Inr st' \<and> (case st' of (base, g) \<Rightarrow> base = block_base fs m (Suc n) \<and> P (Suc n) g)"
      by auto
  qed simp
  then obtain h where h: "for_up 0 ?nl (b2g_layer fs m b ty ?area) (0, g) = Inr (block_base fs m ?nl, h)" "P ?nl h" by auto
  let ?B = "block_base fs m ?nl"
  have "\<exists>g'. for_up 0 ?x (\<lambda>i g. rbind (rd b (?B + i)) (gx_set g i)) h = Inr g' \<and> P ?nl g' \<and> (\<forall>k < ?x. gx_at g' k = b ! (?B + k))"
  proof (rule for_up_rule [where I = "\<lambda>i g. P ?nl g \<and> (\<forall>k < i. gx_at g k = b ! (?B + k))"])
      fix i t assume i: "i < ?x" and t: "P ?nl t \<and> (\<forall>k < i. gx_at t k = b ! (?B + k))"
      obtain w where "gx_set t i (b ! (?B + i)) = Inr w" "gv_ok w ?nl ?r ?c ?x"
        "\<forall>k < ?x. gx_at w k = (if k = i then b ! (?B + i) else gx_at t k)" "\<forall>q k l. q < ?nl \<and> k < ?r \<and> l < ?c \<longrightarrow> gv_at w q k l = gv_at t q k l"
        using gx_set_ok [of t ?nl ?r ?c ?x i "b ! (?B + i)"] t i unfolding P_def by blast
      then show "\<exists>t'. rbind (rd b (?B + i)) (gx_set t i) = Inr t' \<and> P ?nl t' \<and> (\<forall>k < Suc i. gx_at t' k = b ! (?B + k))"
        using t i assms(3) by (intro exI [of _ w]) (simp add: P_def less_Suc_eq)
  qed (use h(2) in simp_all)
  then show ?thesis unfolding xlate_vector_b2g_def area rbind_Inr h(1) prod.case P_def by blast
qed

lemmas xlate_power_ok = xlate_vector_ok [of V_POWER, unfolded cell_value_power, OF disjI1 [OF refl]]

lemma cell_power_sum:
  assumes "usable fs m" "n < gm_n_layers m"
  shows "(\<Sum>i < gm_rows m. \<Sum>j < gm_cols m. cell_power fs m b n i j) =
    (\<Sum>u < n_units (fs (ly_flp (gm_layers m ! n))). b ! (block_base fs m n + u))"
  using layer_power [of "n_units (fs (ly_flp (gm_layers m ! n)))" "gm_rows m" "gm_cols m" "cell_width m" "cell_height m"
      "fs (ly_flp (gm_layers m ! n))" b "block_base fs m n"] usableD [OF assms] by (simp add: cell_power_def Let_def)

lemma ready_usable:
  assumes "grid_ready fs c fp w h m" "grid_fits (nat (grid_rows c)) (nat (grid_cols c)) w h (fs fp)"
  shows "usable fs m" "n \<le> 4 \<Longrightarrow> block_base fs m n = n * n_units (fs fp)"
proof -
  have m: "gm_rows m = nat (grid_rows c)" "gm_cols m = nat (grid_cols c)" "gm_width m = w" "gm_height m = h" "gm_n_layers m = 4"
    "length (gm_layers m) = 4" and l: "\<And>i. i < 4 \<Longrightarrow> ly_flp (gm_layers m ! i) = fp \<and> mapped fs m (gm_layers m ! i)"
    using assms(1) by (simp_all add: grid_ready_def Let_def)
  show "usable fs m" unfolding usable_def m using l assms(2) by (auto simp: grid_fits_def)
  assume "n \<le> 4"
  then have "block_base fs m n = (\<Sum>k < n. n_units (fs fp))" unfolding block_base_def using l by (intro sum.cong refl) auto
  then show "block_base fs m n = n * n_units (fs fp)" by simp
qed


lemma find_map_mode_range: "find_map_mode s = Inr mm \<Longrightarrow> mm \<le> GRID_CENTER"
  by (auto simp: find_map_mode_def GRID_AVG_def GRID_MIN_def GRID_MAX_def GRID_CENTER_def split: if_splits)

end
