(* ===== verification/Grid_Temp.thy ===== *)
theory Grid_Temp
  imports Grid_Power
begin

text \<open>
  Temperatures of blocks on the grid: \<open>xlate_temp_g2b\<close> gives a block the mean, the least or the
  greatest temperature of the cells it extends over, or that of its centre.
\<close>

section \<open>The cells of a block\<close>

definition cells_of :: "glist_t \<Rightarrow> (nat \<times> nat) list" where
  "cells_of gl = List.product [gl_i1 gl..<gl_i2 gl] [gl_j1 gl..<gl_j2 gl]"

definition temps_of :: "grid_model_vector_t \<Rightarrow> nat \<Rightarrow> glist_t \<Rightarrow> real list" where
  "temps_of g n gl = List.map (\<lambda>(i, j). gv_at g n i j) (cells_of gl)"

definition block_value :: "nat \<Rightarrow> grid_model_vector_t \<Rightarrow> nat \<Rightarrow> glist_t \<Rightarrow> real" where
  "block_value mode g n gl =
    (let xs = temps_of g n gl; ci = (gl_i1 gl + gl_i2 gl) div 2; cj = (gl_j1 gl + gl_j2 gl) div 2;
         di = ci - (if even (gl_i2 gl - gl_i1 gl) then 1 else 0); dj = cj - (if even (gl_j2 gl - gl_j1 gl) then 1 else 0) in
     if mode = GRID_AVG then sum_list xs / real (length xs) else if mode = GRID_MIN then Min (set xs)
     else if mode = GRID_MAX then Max (set xs) else (gv_at g n ci cj + gv_at g n di cj + gv_at g n ci dj + gv_at g n di dj) / 4)"

definition glist_ok :: "nat \<Rightarrow> nat \<Rightarrow> glist_t \<Rightarrow> bool" where
  "glist_ok rows cols gl \<longleftrightarrow> gl_i1 gl < gl_i2 gl \<and> gl_i2 gl \<le> rows \<and> gl_j1 gl < gl_j2 gl \<and> gl_j2 gl \<le> cols"

lemma set_cells_of: "set (cells_of gl) = {(i, j). in_extent gl i j}"
  by (auto simp: cells_of_def in_extent_def)

lemma fold_rows: "fold (\<lambda>i. fold (f i) ys) xs s = fold (\<lambda>(i, j). f i j) (List.product xs ys) s"
  by (induction xs arbitrary: s) (simp_all add: fold_map comp_def)

lemma fold_scan:
  "fold (\<lambda>p (mn, mx, s, cnt). (if v p < mn then v p else mn, if v p > mx then v p else mx, s + v p, cnt + 1)) ps (mn, mx, s, cnt) =
    (fold min (List.map v ps) mn, fold max (List.map v ps) (mx::real), s + sum_list (List.map v ps), cnt + length ps)"
proof (induction ps arbitrary: mn mx s cnt)
  case (Cons p ps)
  have "(if v p < mn then v p else mn) = min (v p) mn" "(if v p > mx then v p else mx) = max (v p) mx" by (auto simp: min_def max_def)
  then show ?case using Cons by simp
qed simp

lemma fold_min_max:
  assumes "(x::real) \<in> set xs"
  shows "fold min xs x = Min (set xs)" "fold max xs x = Max (set xs)"
  using Min.set_eq_fold [of x xs] Max.set_eq_fold [of x xs] assms by (simp_all add: insert_absorb)

lemma scan_block_ok:
  assumes "gv_ok g nl rows cols xt" "n < nl" "glist_ok rows cols gl"
  shows "scan_block g n gl = Inr (let xs = temps_of g n gl in (Min (set xs), Max (set xs), sum_list xs, length xs))"
proof -
  let ?v = "\<lambda>(i, j). gv_at g n i j" and ?x = "gv_at g n (gl_i1 gl) (gl_j1 gl)"
  let ?f = "\<lambda>i j (mn, mx, s, cnt). (if gv_at g n i j < mn then gv_at g n i j else mn, if gv_at g n i j > mx then gv_at g n i j else mx,
    s + gv_at g n i j, cnt + 1 :: nat)"
  have x: "gv_get g n i j = Inr (gv_at g n i j)" if "in_extent gl i j" for i j
    using assms that by (intro gv_get_ok) (auto simp: in_extent_def glist_ok_def)
  have row: "for_up (gl_j1 gl) (gl_j2 gl) (\<lambda>j (mn, mx, s, cnt).
      rbind (gv_get g n i j) (\<lambda>x. Inr (if x < mn then x else mn, if x > mx then x else mx, s + x, cnt + 1))) st =
      Inr (fold (?f i) [gl_j1 gl..<gl_j2 gl] st)" if "gl_i1 gl \<le> i" "i < gl_i2 gl" for i st
    by (rule for_up_pure) (use x that in \<open>simp add: in_extent_def split: prod.split\<close>)
  have "in_extent gl (gl_i1 gl) (gl_j1 gl)" using assms(3) by (simp add: in_extent_def glist_ok_def)
  moreover from this have "?x \<in> set (temps_of g n gl)" by (force simp: temps_of_def set_cells_of)
  moreover have "for_up (gl_i1 gl) (gl_i2 gl) (\<lambda>i st. for_up (gl_j1 gl) (gl_j2 gl) (\<lambda>j (mn, mx, s, cnt).
      rbind (gv_get g n i j) (\<lambda>x. Inr (if x < mn then x else mn, if x > mx then x else mx, s + x, cnt + 1))) st) (?x, ?x, 0, 0) =
      Inr (fold (\<lambda>i. fold (?f i) [gl_j1 gl..<gl_j2 gl]) [gl_i1 gl..<gl_i2 gl] (?x, ?x, 0, 0))"
    by (rule for_up_pure) (rule row)
  moreover have "(\<lambda>(i, j). ?f i j) = (\<lambda>p (mn, mx, s, cnt). (if ?v p < mn then ?v p else mn, if ?v p > mx then ?v p else mx, s + ?v p, cnt + 1))"
    by (intro ext) (simp split: prod.split)
  ultimately show ?thesis
    unfolding scan_block_def
    by (simp add: x fold_rows fold_scan fold_min_max temps_of_def cells_of_def Let_def del: One_nat_def)
qed

lemma centre_inside:
  assumes "(a::nat) < b" "c = (a + b) div 2" "d = c - (if even (b - a) then 1 else 0)"
  shows "a \<le> c \<and> c < b \<and> a \<le> d \<and> d < b"
proof -
  have c: "a \<le> c" "c < b" using assms by auto
  have "a \<le> d" if "even (b - a)"
  proof -
    have "a + 2 \<le> b" using that assms(1) by (cases "b - a = 1") auto
    then show ?thesis using that assms by auto
  qed
  then show ?thesis using c assms(3) by (auto split: if_splits)
qed

lemma block_temp_ok:
  assumes "gv_ok g nl rows cols xt" "n < nl" "glist_ok rows cols gl" "mode \<le> GRID_CENTER"
  shows "block_temp mode g n gl = Inr (block_value mode g n gl)"
proof (cases "mode = GRID_CENTER")
  case True
  let ?ci = "(gl_i1 gl + gl_i2 gl) div 2" and ?cj = "(gl_j1 gl + gl_j2 gl) div 2"
  let ?di = "?ci - (if even (gl_i2 gl - gl_i1 gl) then 1 else 0)" and ?dj = "?cj - (if even (gl_j2 gl - gl_j1 gl) then 1 else 0)"
  have b: "?ci < rows" "?di < rows" "?cj < cols" "?dj < cols"
    using centre_inside [of "gl_i1 gl" "gl_i2 gl", OF _ refl refl] centre_inside [of "gl_j1 gl" "gl_j2 gl", OF _ refl refl] assms(3)
    unfolding glist_ok_def by linarith+
  have "gv_get g n ?ci ?cj = Inr (gv_at g n ?ci ?cj)" "gv_get g n ?di ?cj = Inr (gv_at g n ?di ?cj)"
    "gv_get g n ?ci ?dj = Inr (gv_at g n ?ci ?dj)" "gv_get g n ?di ?dj = Inr (gv_at g n ?di ?dj)"
    using gv_get_ok [OF assms(1,2)] b by blast+
  then show ?thesis unfolding block_temp_def centre_temp_def block_value_def Let_def True by (simp add: GRID_CENTER_def GRID_AVG_def GRID_MIN_def GRID_MAX_def)
next
  case False
  have l: "temps_of g n gl \<noteq> []" using assms(3) by (simp add: temps_of_def cells_of_def glist_ok_def flip: length_0_conv)
  have "mode = GRID_AVG \<or> mode = GRID_MIN \<or> mode = GRID_MAX"
    using False assms(4) by (auto simp: GRID_CENTER_def GRID_AVG_def GRID_MIN_def GRID_MAX_def)
  then show ?thesis
    unfolding block_temp_def scan_block_ok [OF assms(1-3)] block_value_def Let_def rbind_Inr prod.case
    using l by (auto simp: GRID_CENTER_def GRID_AVG_def GRID_MIN_def GRID_MAX_def)
qed

lemma sum_list_between:
  assumes "\<forall>x \<in> set xs. lo \<le> x \<and> x \<le> hi"
  shows "lo * real (length xs) \<le> sum_list xs \<and> sum_list xs \<le> hi * real (length xs)"
  using assms by (induction xs) (auto simp: algebra_simps)

lemma block_value_between:
  assumes "glist_ok rows cols gl" "\<And>i j. in_extent gl i j \<Longrightarrow> lo \<le> gv_at g n i j \<and> gv_at g n i j \<le> hi"
  shows "lo \<le> block_value mode g n gl \<and> block_value mode g n gl \<le> hi"
proof -
  let ?xs = "temps_of g n gl"
  have xs: "\<forall>x \<in> set ?xs. lo \<le> x \<and> x \<le> hi" using assms(2) by (auto simp: temps_of_def set_cells_of)
  have ne: "?xs \<noteq> []" using assms(1) by (simp add: temps_of_def cells_of_def glist_ok_def flip: length_0_conv)
  have mean: "lo \<le> sum_list ?xs / real (length ?xs) \<and> sum_list ?xs / real (length ?xs) \<le> hi"
    using sum_list_between [OF xs] ne by (simp add: field_simps)
  have "Min (set ?xs) \<in> set ?xs" "Max (set ?xs) \<in> set ?xs" using ne by simp_all
  then have ends: "lo \<le> Min (set ?xs) \<and> Min (set ?xs) \<le> hi" "lo \<le> Max (set ?xs) \<and> Max (set ?xs) \<le> hi" using xs by blast+
  have centre: "lo \<le> (gv_at g n ci cj + gv_at g n di cj + gv_at g n ci dj + gv_at g n di dj) / 4 \<and>
      (gv_at g n ci cj + gv_at g n di cj + gv_at g n ci dj + gv_at g n di dj) / 4 \<le> hi"
    if "ci = (gl_i1 gl + gl_i2 gl) div 2" "di = ci - (if even (gl_i2 gl - gl_i1 gl) then 1 else 0)"
      "cj = (gl_j1 gl + gl_j2 gl) div 2" "dj = cj - (if even (gl_j2 gl - gl_j1 gl) then 1 else 0)" for ci cj di dj
  proof -
    have "in_extent gl ci cj \<and> in_extent gl di cj \<and> in_extent gl ci dj \<and> in_extent gl di dj"
      using centre_inside [OF _ that(1,2)] centre_inside [OF _ that(3,4)] assms(1) unfolding in_extent_def glist_ok_def by blast
    then have "lo \<le> gv_at g n ci cj" "gv_at g n ci cj \<le> hi" "lo \<le> gv_at g n di cj" "gv_at g n di cj \<le> hi"
      "lo \<le> gv_at g n ci dj" "gv_at g n ci dj \<le> hi" "lo \<le> gv_at g n di dj" "gv_at g n di dj \<le> hi" using assms(2) by blast+
    then show ?thesis by simp
  qed
  consider "mode = GRID_AVG" | "mode \<noteq> GRID_AVG" "mode = GRID_MIN" | "mode \<noteq> GRID_AVG" "mode \<noteq> GRID_MIN" "mode = GRID_MAX"
    | "mode \<noteq> GRID_AVG" "mode \<noteq> GRID_MIN" "mode \<noteq> GRID_MAX" by blast
  then show ?thesis
  proof cases
    case 4
    then show ?thesis unfolding block_value_def Let_def using centre [OF refl refl refl refl] by (simp only: if_False)
  qed (use mean ends in \<open>simp_all add: block_value_def Let_def\<close>)
qed

section \<open>The model\<close>

lemma mapped_extent:
  assumes "usable fs m" "n < gm_n_layers m" "l = gm_layers m ! n" "u < n_units (fs (ly_flp l))"
  shows "rd (gm_g2b m (ly_g2bmap l)) u = Inr (extent (gm_rows m) (cell_width m) (cell_height m) (units (fs (ly_flp l)) ! u))"
    "glist_ok (gm_rows m) (gm_cols m) (extent (gm_rows m) (cell_width m) (cell_height m) (units (fs (ly_flp l)) ! u))"
proof -
  note d = usableD [OF assms(1,2), folded assms(3)]
  have "u < length (gm_g2b m (ly_g2bmap l))" "gm_g2b m (ly_g2bmap l) ! u = extent (gm_rows m) (cell_width m) (cell_height m) (units (fs (ly_flp l)) ! u)"
    using d(2) assms(4) by (auto simp: mapped_def Let_def)
  then show "rd (gm_g2b m (ly_g2bmap l)) u = Inr (extent (gm_rows m) (cell_width m) (cell_height m) (units (fs (ly_flp l)) ! u))" by simp
  show "glist_ok (gm_rows m) (gm_cols m) (extent (gm_rows m) (cell_width m) (cell_height m) (units (fs (ly_flp l)) ! u))"
    using unit_extent_ok [OF d(8) [OF assms(4)] d(5,6)] by (simp add: glist_ok_def)
qed

definition value_of_block :: "flp_store \<Rightarrow> grid_model_t \<Rightarrow> grid_model_vector_t \<Rightarrow> nat \<Rightarrow> nat \<Rightarrow> real" where
  "value_of_block fs m g n u = block_value (gm_map_mode m) g n
     (extent (gm_rows m) (cell_width m) (cell_height m) (units (fs (ly_flp (gm_layers m ! n))) ! u))"

lemma base_apart:
  assumes "k < n" "v < n_units (fs (ly_flp (gm_layers m ! k)))"
  shows "block_base fs m k + v < block_base fs m n"
proof -
  have "block_base fs m k + v < block_base fs m (Suc k)" using assms(2) by (simp add: block_base_def)
  also have "\<dots> \<le> block_base fs m n" using assms(1) by (intro block_base_mono) simp
  finally show ?thesis .
qed

lemma g2b_layer_ok:
  assumes "usable fs m" "n < gm_n_layers m" "gv_ok g (gm_n_layers m) (gm_rows m) (gm_cols m) xt" "gm_map_mode m \<le> GRID_CENTER"
    and "block_base fs m (gm_n_layers m) \<le> length b"
  shows "\<exists>b'. g2b_layer fs m g n (block_base fs m n, b) = Inr (block_base fs m (Suc n), b') \<and> length b' = length b \<and>
    (\<forall>p < length b. b' ! p = (if block_base fs m n \<le> p \<and> p < block_base fs m (Suc n) then value_of_block fs m g n (p - block_base fs m n) else b ! p))"
proof -
  let ?l = "gm_layers m ! n" let ?B = "block_base fs m n" let ?nu = "n_units (fs (ly_flp ?l))"
  have suc: "block_base fs m (Suc n) = ?B + ?nu" by (simp add: block_base_def)
  have len: "?B + ?nu \<le> length b" using block_base_mono [of "Suc n" "gm_n_layers m" fs m] assms(2,5) suc by simp
  have "\<exists>b'. for_up 0 ?nu (\<lambda>u b. rbind (rd (gm_g2b m (ly_g2bmap ?l)) u) (\<lambda>gl. rbind (block_temp (gm_map_mode m) g n gl) (\<lambda>x.
      wr b (?B + u) x))) b = Inr b' \<and> (length b' = length b \<and>
    (\<forall>p < length b. b' ! p = (if ?B \<le> p \<and> p < ?B + ?nu then value_of_block fs m g n (p - ?B) else b ! p)))"
  proof (rule for_up_rule [where I = "\<lambda>u t. length t = length b \<and>
      (\<forall>p < length b. t ! p = (if ?B \<le> p \<and> p < ?B + u then value_of_block fs m g n (p - ?B) else b ! p))"])
    fix u t assume u: "u < ?nu" and t: "length t = length b \<and>
      (\<forall>p < length b. t ! p = (if ?B \<le> p \<and> p < ?B + u then value_of_block fs m g n (p - ?B) else b ! p))"
    note e = mapped_extent [OF assms(1,2) refl u]
    have "wr t (?B + u) (value_of_block fs m g n u) = Inr (t[?B + u := value_of_block fs m g n u])" using t u len by simp
    moreover have "t[?B + u := value_of_block fs m g n u] ! p = (if ?B \<le> p \<and> p < ?B + Suc u then value_of_block fs m g n (p - ?B) else b ! p)"
      if "p < length b" for p
      using t that u len by (cases "p = ?B + u") auto
    ultimately show "\<exists>t'. rbind (rd (gm_g2b m (ly_g2bmap ?l)) u) (\<lambda>gl. rbind (block_temp (gm_map_mode m) g n gl) (\<lambda>x. wr t (?B + u) x)) = Inr t' \<and>
        length t' = length b \<and> (\<forall>p < length b. t' ! p = (if ?B \<le> p \<and> p < ?B + Suc u then value_of_block fs m g n (p - ?B) else b ! p))"
      unfolding e(1) rbind_Inr block_temp_ok [OF assms(3,2) e(2) assms(4)] value_of_block_def using t by simp
  qed simp_all
  then obtain b' where "for_up 0 ?nu (\<lambda>u b. rbind (rd (gm_g2b m (ly_g2bmap ?l)) u) (\<lambda>gl. rbind (block_temp (gm_map_mode m) g n gl) (\<lambda>x.
      wr b (?B + u) x))) b = Inr b'" "length b' = length b"
    "\<forall>p < length b. b' ! p = (if ?B \<le> p \<and> p < ?B + ?nu then value_of_block fs m g n (p - ?B) else b ! p)" by blast
  then show ?thesis
    unfolding g2b_layer_def prod.case usableD(1) [OF assms(1,2)] rbind_Inr Let_def suc by (intro exI [of _ b']) simp
qed

lemma xlate_temp_ok:
  assumes "usable fs m" "gv_ok g (gm_n_layers m) (gm_rows m) (gm_cols m) (extra_nodes (gm_config m))" "gm_map_mode m \<le> GRID_CENTER"
    and "block_base fs m (gm_n_layers m) + extra_nodes (gm_config m) \<le> length b"
  shows "\<exists>b'. xlate_temp_g2b fs m b g = Inr b' \<and> length b' = length b \<and>
    (\<forall>n < gm_n_layers m. \<forall>u < n_units (fs (ly_flp (gm_layers m ! n))). b' ! (block_base fs m n + u) = value_of_block fs m g n u) \<and>
    (\<forall>k < extra_nodes (gm_config m). b' ! (block_base fs m (gm_n_layers m) + k) = gx_at g k)"
proof -
  let ?nl = "gm_n_layers m" and ?x = "extra_nodes (gm_config m)"
  let ?B = "block_base fs m ?nl"
  define P where "P n t \<longleftrightarrow> length t = length b \<and>
    (\<forall>k < n. \<forall>u < n_units (fs (ly_flp (gm_layers m ! k))). t ! (block_base fs m k + u) = value_of_block fs m g k u)" for n t
  have "\<exists>st. for_up 0 ?nl (g2b_layer fs m g) (0, b) = Inr st \<and> (case st of (base, t) \<Rightarrow> base = ?B \<and> P ?nl t)"
  proof (rule for_up_rule [where I = "\<lambda>n st. case st of (base, t) \<Rightarrow> base = block_base fs m n \<and> P n t"])
    fix n st assume n: "n < ?nl" and "case st of (base, t) \<Rightarrow> base = block_base fs m n \<and> P n t"
    then obtain t where st: "st = (block_base fs m n, t)" and t: "P n t" by (cases st) auto
    obtain t' where t': "g2b_layer fs m g n (block_base fs m n, t) = Inr (block_base fs m (Suc n), t')" "length t' = length t"
      "\<forall>p < length t. t' ! p = (if block_base fs m n \<le> p \<and> p < block_base fs m (Suc n) then value_of_block fs m g n (p - block_base fs m n) else t ! p)"
      using g2b_layer_ok [OF assms(1) n assms(2,3), of t] t assms(4) by (auto simp: P_def)
    have "t' ! (block_base fs m k + u) = value_of_block fs m g k u" if "k < Suc n" "u < n_units (fs (ly_flp (gm_layers m ! k)))" for k u
    proof -
      have "block_base fs m k + u < ?B" using base_apart [of k ?nl u fs m] that n by simp
      then have "block_base fs m k + u < length t" using t assms(4) by (simp add: P_def)
      moreover have "k < n \<Longrightarrow> block_base fs m k + u < block_base fs m n" using base_apart [of k n u fs m] that by simp
      moreover have "block_base fs m n + u < block_base fs m (Suc n)" if "k = n" using base_apart [of n "Suc n" u fs m] \<open>u < n_units _\<close> that by simp
      ultimately show ?thesis using t'(3) t that by (cases "k = n") (auto simp: P_def)
    qed
    then show "\<exists>st'. g2b_layer fs m g n st = Inr st' \<and> (case st' of (base, t) \<Rightarrow> base = block_base fs m (Suc n) \<and> P (Suc n) t)"
      unfolding st t'(1) using t t'(2) by (simp add: P_def)
  qed (simp_all add: P_def block_base_def)
  then obtain t where t: "for_up 0 ?nl (g2b_layer fs m g) (0, b) = Inr (?B, t)" "P ?nl t" by auto
  have "\<exists>b'. for_up 0 ?x (\<lambda>i b. rbind (gx_get g i) (wr b (?B + i))) t = Inr b' \<and> (P ?nl b' \<and> (\<forall>k < ?x. b' ! (?B + k) = gx_at g k))"
  proof (rule for_up_rule [where I = "\<lambda>i b'. P ?nl b' \<and> (\<forall>k < i. b' ! (?B + k) = gx_at g k)"])
    fix i s assume i: "i < ?x" and s: "P ?nl s \<and> (\<forall>k < i. s ! (?B + k) = gx_at g k)"
    have "?B + i < length s" using s i assms(4) by (simp add: P_def)
    moreover have "?B + i \<noteq> block_base fs m k + u" if "k < ?nl" "u < n_units (fs (ly_flp (gm_layers m ! k)))" for k u
      using base_apart [of k ?nl u fs m] that by simp
    then have "P ?nl (s[?B + i := gx_at g i])" using s by (simp add: P_def)
    ultimately have "wr s (?B + i) (gx_at g i) = Inr (s[?B + i := gx_at g i])" "P ?nl (s[?B + i := gx_at g i])"
      "\<forall>k < Suc i. s[?B + i := gx_at g i] ! (?B + k) = gx_at g k"
      using s by (auto simp: nth_list_update less_Suc_eq)
    then show "\<exists>s'. rbind (gx_get g i) (wr s (?B + i)) = Inr s' \<and> P ?nl s' \<and> (\<forall>k < Suc i. s' ! (?B + k) = gx_at g k)"
      unfolding gx_get_ok [OF assms(2) i] by simp
  qed (use t(2) in simp_all)
  then show ?thesis unfolding xlate_temp_g2b_def t(1) rbind_Inr prod.case P_def by blast
qed

end
