(* ===== verification/Grid_Solve.thy ===== *)
theory Grid_Solve
  imports Grid_Network Grid_Power Grid_Temp Grid_Ops
begin

text \<open>
  Solving the grid: the compressed matrix, the vector of power and the diagonal matrix of capacitances
  of \<open>hotspot_tool/temperature_grid.c\<close>, the step of \<open>backward_euler\<close> in \<open>hotspot_tool/RCutil.c\<close>, and the
  steady and the transient temperatures.

  The solver \<open>dgssv\<close> of SuperLU is not part of the repository. It is a parameter: a function from a
  matrix and a right hand side to the vector that overwrites the right hand side. The code does
  not look at \<open>info\<close>, by which SuperLU reports a singular matrix.
\<close>

section \<open>The matrix\<close>

definition to_SuperMatrix :: "nat \<Rightarrow> nat \<Rightarrow> triple list \<Rightarrow> SuperMatrix res" where
  "to_SuperMatrix n nnz ts =
     rbind (coo2csc nnz (map fst ts) (map (fst \<circ> snd) ts) (map (snd \<circ> snd) ts) (replicate nnz 0, replicate (n + 1) 0, dvector nnz)) (\<lambda>(asub, xa, a).
     Inr \<lparr>sm_nrow = n, sm_ncol = n, sm_Store = \<lparr>nc_nnz = nnz, nzval = a, rowind = asub, colptr = xa\<rparr>\<rparr>)"

definition build_transient_grid_matrix :: "grid_model_t \<Rightarrow> SuperMatrix res" where
  "build_transient_grid_matrix model =
     rbind (grid_triples transient_resistances ''Transient Matrix build error: less elements than nnz'' model) (\<lambda>ts.
     to_SuperMatrix (grid_dim model) (grid_nnz model) ts)"

definition build_steady_grid_matrix :: "grid_model_t \<Rightarrow> SuperMatrix res" where
  "build_steady_grid_matrix model =
     rbind (grid_triples steady_resistances ''Steady-state Matrix build error: less elements than nnz'' model) (\<lambda>ts.
     to_SuperMatrix (grid_dim model) (grid_nnz model) ts)"

section \<open>The vector of power\<close>

definition cell_source :: "grid_model_t \<Rightarrow> grid_model_vector_t \<Rightarrow> nat \<Rightarrow> nat \<Rightarrow> nat \<Rightarrow> real res" where
  "cell_source model pw l i j =
    (let amb = ambient (gm_config model) in
     if l = hsidx model then rbind (rd (gm_layers model) l) (\<lambda>ly. rbind (fdiv amb (ly_rz ly)) (\<lambda>q. rbind (gv_get pw l i j) (\<lambda>p. Inr (q + p))))
     else if l = LAYER_PCB \<and> model_secondary (gm_config model) \<noteq> 0 then
       rbind (gv_get pw l i j) (\<lambda>p. rbind (pcb_ambient model) (\<lambda>r. rbind (fdiv amb r) (\<lambda>q. Inr (p + q))))
     else gv_get pw l i j)"

definition primary_sources :: "grid_model_t \<Rightarrow> (nat \<times> real res) list" where
  "primary_sources model = (let pk = gm_pack model; amb = ambient (gm_config model) in
     [(SP_W, Inr 0), (SP_E, Inr 0), (SP_N, Inr 0), (SP_S, Inr 0),
      (SINK_C_W, fdiv amb (r_hs_c_per_x pk + r_amb_c_per_x pk)), (SINK_C_E, fdiv amb (r_hs_c_per_x pk + r_amb_c_per_x pk)),
      (SINK_C_N, fdiv amb (r_hs_c_per_y pk + r_amb_c_per_y pk)), (SINK_C_S, fdiv amb (r_hs_c_per_y pk + r_amb_c_per_y pk)),
      (SINK_W, fdiv amb (r_hs_per pk + r_amb_per pk)), (SINK_E, fdiv amb (r_hs_per pk + r_amb_per pk)),
      (SINK_N, fdiv amb (r_hs_per pk + r_amb_per pk)), (SINK_S, fdiv amb (r_hs_per pk + r_amb_per pk))])"

definition secondary_sources :: "grid_model_t \<Rightarrow> (nat \<times> real res) list" where
  "secondary_sources model = (let pk = gm_pack model; amb = ambient (gm_config model) in
     if model_secondary (gm_config model) = 0 then [] else
     [(SUB_W, Inr 0), (SUB_E, Inr 0), (SUB_N, Inr 0), (SUB_S, Inr 0),
      (SOLDER_W, Inr 0), (SOLDER_E, Inr 0), (SOLDER_N, Inr 0), (SOLDER_S, Inr 0),
      (PCB_C_W, fdiv amb (r_amb_sec_c_per_x pk)), (PCB_C_E, fdiv amb (r_amb_sec_c_per_x pk)),
      (PCB_C_N, fdiv amb (r_amb_sec_c_per_y pk)), (PCB_C_S, fdiv amb (r_amb_sec_c_per_y pk)),
      (PCB_W, fdiv amb (r_amb_sec_per pk)), (PCB_E, fdiv amb (r_amb_sec_per pk)),
      (PCB_N, fdiv amb (r_amb_sec_per pk)), (PCB_S, fdiv amb (r_amb_sec_per pk))])"

definition for_cells :: "grid_model_t \<Rightarrow> (nat \<Rightarrow> nat \<Rightarrow> nat \<Rightarrow> real res) \<Rightarrow> real list \<Rightarrow> real list res" where
  "for_cells model f =
    (let nr = gm_rows model; nc = gm_cols model in
     for_up 0 (gm_n_layers model) (\<lambda>l. for_up 0 nr (\<lambda>i. for_up 0 nc (\<lambda>j v.
       rbind (f l i j) (wr v (l * nr * nc + i * nc + j))))))"

definition put_nodes :: "grid_model_t \<Rightarrow> (nat \<times> real res) list \<Rightarrow> real list \<Rightarrow> real list res" where
  "put_nodes model xs = in_order (map (\<lambda>(k, x) v. rbind x (wr v (grid_cells model + k))) xs)"

definition build_transient_power_vector :: "grid_model_t \<Rightarrow> grid_model_vector_t \<Rightarrow> real list res" where
  "build_transient_power_vector model pw =
     rbind (for_cells model (cell_source model pw) (dvector (grid_dim model))) (\<lambda>v.
     rbind (put_nodes model (primary_sources model) v) (put_nodes model (secondary_sources model)))"

definition build_steady_rhs_vector :: "grid_model_t \<Rightarrow> grid_model_vector_t \<Rightarrow> real list res" where
  "build_steady_rhs_vector model pw =
     rbind (for_cells model (cell_source model pw) (dvector (grid_dim model))) (\<lambda>v.
     rbind (put_nodes model (primary_sources model) v) (put_nodes model (secondary_sources model)))"

section \<open>Capacitances\<close>

definition cell_capacitance :: "grid_model_t \<Rightarrow> nat \<Rightarrow> nat \<Rightarrow> nat \<Rightarrow> real res" where
  "cell_capacitance model l i j =
    (if detailed_3D_used (gm_config model) = 1 then find_cap_3D l i j model else layer_r ly_c model l)"

definition primary_capacitances :: "grid_model_t \<Rightarrow> (nat \<times> real res) list" where
  "primary_capacitances model = (let pk = gm_pack model in
     [(SP_W, Inr (c_sp_per_x pk)), (SP_E, Inr (c_sp_per_x pk)), (SP_N, Inr (c_sp_per_y pk)), (SP_S, Inr (c_sp_per_y pk)),
      (SINK_C_W, Inr (c_hs_c_per_x pk + c_amb_c_per_x pk)), (SINK_C_E, Inr (c_hs_c_per_x pk + c_amb_c_per_x pk)),
      (SINK_C_N, Inr (c_hs_c_per_y pk + c_amb_c_per_y pk)), (SINK_C_S, Inr (c_hs_c_per_y pk + c_amb_c_per_y pk)),
      (SINK_W, Inr (c_hs_per pk + c_amb_per pk)), (SINK_E, Inr (c_hs_per pk + c_amb_per pk)),
      (SINK_N, Inr (c_hs_per pk + c_amb_per pk)), (SINK_S, Inr (c_hs_per pk + c_amb_per pk))])"

definition secondary_capacitances :: "grid_model_t \<Rightarrow> (nat \<times> real res) list" where
  "secondary_capacitances model =
    (if model_secondary (gm_config model) = 0 then [] else
     map (\<lambda>k. (k, Inr 0)) [SUB_W, SUB_E, SUB_N, SUB_S, SOLDER_W, SOLDER_E, SOLDER_N, SOLDER_S,
       PCB_C_W, PCB_C_E, PCB_C_N, PCB_C_S, PCB_W, PCB_E, PCB_N, PCB_S])"

definition build_diagonal_matrix :: "grid_model_t \<Rightarrow> diagonal_matrix_t res" where
  "build_diagonal_matrix model =
     rbind (for_cells model (cell_capacitance model) (dvector (grid_dim model))) (\<lambda>v.
     rbind (put_nodes model (primary_capacitances model) v) (\<lambda>v.
     rbind (put_nodes model (secondary_capacitances model) v) (\<lambda>v.
     Inr \<lparr>dm_n = grid_dim model, dm_vals = v\<rparr>)))"

section \<open>Steady state\<close>

type_synonym superlu = "SuperMatrix \<Rightarrow> real list \<Rightarrow> real list"

definition copy_nodes :: "nat \<Rightarrow> real list \<Rightarrow> real list \<Rightarrow> real list res" where
  "copy_nodes n src = for_up 0 n (\<lambda>i d. rbind (rd src i) (wr d i))"

definition direct_SLU :: "superlu \<Rightarrow> grid_model_t \<Rightarrow> grid_model_vector_t \<Rightarrow> grid_model_t res" where
  "direct_SLU dgssv model pw =
     rbind (build_transient_grid_matrix model) (\<lambda>A. rbind (build_transient_power_vector model pw) (\<lambda>P.
     rbind (copy_nodes (grid_dim model) (dgssv A P) (gv_data (gm_last_steady model))) (\<lambda>d.
     Inr (model\<lparr>gm_last_steady := (gm_last_steady model)\<lparr>gv_data := d\<rparr>\<rparr>))))"

text \<open>The vector of power is changed in place; the total that the code sums up is not used.\<close>

definition steady_state_temp_grid :: "superlu \<Rightarrow> flp_store \<Rightarrow> grid_model_t \<Rightarrow> real list \<Rightarrow> real list \<Rightarrow>
    (grid_model_t \<times> real list \<times> real list) res" where
  "steady_state_temp_grid dgssv fs model pw temp =
    (if \<not> gm_r_ready model then Inl (Fatal ''R model not ready'') else
     rbind (set_internal_power_grid model pw) (\<lambda>pw.
     rbind (xlate_vector_b2g fs model pw (new_grid_model_vector model) V_POWER) (\<lambda>p.
     rbind (direct_SLU dgssv model p) (\<lambda>model.
     rbind (xlate_temp_g2b fs model temp (gm_last_steady model)) (\<lambda>temp. Inr (model, pw, temp))))))"

section \<open>Transients\<close>

definition build_A_matrix :: "SuperMatrix \<Rightarrow> diagonal_matrix_t \<Rightarrow> real \<Rightarrow> SuperMatrix option res" where
  "build_A_matrix G C h =
     rbind (for_up 0 (sm_ncol G) (\<lambda>i st. case st of None \<Rightarrow> Inr None | Some st \<Rightarrow>
       rbind (fdiv 1 h) (\<lambda>q. rbind (rd (dm_vals C) i) (\<lambda>c. rbind (bump_column i (q * c) st) (\<lambda>(found, st).
       Inr (if found then Some st else None))))) (Some (sm_Store G))) (\<lambda>st.
     Inr (map_option (\<lambda>st. G\<lparr>sm_Store := st\<rparr>) st))"

definition build_B_matrix :: "diagonal_matrix_t \<Rightarrow> real list \<Rightarrow> real list \<Rightarrow> real \<Rightarrow> real list res" where
  "build_B_matrix C T P h =
     for_up 0 (dm_n C) (\<lambda>i b. rbind (fdiv 1 h) (\<lambda>q. rbind (rd (dm_vals C) i) (\<lambda>c. rbind (rd T i) (\<lambda>t. rbind (rd P i) (\<lambda>p.
       wr b i (q * c * t + p)))))) (dvector (dm_n C))"

text \<open>The step is returned unchanged: the adaptive part of the code is commented out.\<close>

definition backward_euler :: "superlu \<Rightarrow> SuperMatrix \<Rightarrow> diagonal_matrix_t \<Rightarrow> real list \<Rightarrow> real list \<Rightarrow> real \<Rightarrow> real list \<Rightarrow>
    (real \<times> real list) res" where
  "backward_euler dgssv G C T P h Tout =
     rbind (build_A_matrix G C h) (\<lambda>A. case A of None \<Rightarrow> Inl (Fatal ''error'') | Some A \<Rightarrow>
     rbind (build_B_matrix C T P h) (\<lambda>B.
     rbind (copy_nodes (dm_n C) (dgssv A B) (dvector (dm_n C))) (\<lambda>Ttemp.
     rbind (copy_nodes (dm_n C) Ttemp Tout) (\<lambda>Tout. Inr (h, Tout)))))"

text \<open>
  What a call leaves for the next one: \<open>first_call\<close> is a static variable of the process, the other
  fields belong to the model. \<open>G\<close> and \<open>C\<close> are null in a fresh model, whose memory is zero; reading
  through a null pointer stops the model.
\<close>

record transient_state =
  ts_first_call :: bool
  ts_model :: grid_model_t
  ts_G :: "SuperMatrix option"
  ts_C :: "diagonal_matrix_t option"
  ts_last_temp :: "real list"

definition not_null :: "'a option \<Rightarrow> 'a res" where
  "not_null p = (case p of None \<Rightarrow> Inl OutOfBounds | Some x \<Rightarrow> Inr x)"

definition compute_temp_grid :: "superlu \<Rightarrow> flp_store \<Rightarrow> transient_state \<Rightarrow> real list \<Rightarrow> real list option \<Rightarrow> real \<Rightarrow>
    (transient_state \<times> real list) res" where
  "compute_temp_grid dgssv fs s pw temp time_elapsed =
    (let model = ts_model s in
     if \<not> gm_r_ready model \<or> \<not> gm_c_ready model then Inl (Fatal ''grid model not ready'') else
     rbind (set_internal_power_grid model pw) (\<lambda>pw.
     rbind (xlate_vector_b2g fs model pw (new_grid_model_vector model) V_POWER) (\<lambda>p.
     rbind (case temp of None \<Rightarrow> Inr s
       | Some t \<Rightarrow> rbind (xlate_vector_b2g fs model t (gm_last_trans model) V_TEMP) (\<lambda>v.
           Inr (s\<lparr>ts_model := model\<lparr>gm_last_trans := v\<rparr>, ts_last_temp := t\<rparr>))) (\<lambda>s.
     rbind (if ts_first_call s then
         rbind (build_transient_grid_matrix (ts_model s)) (\<lambda>G. rbind (build_diagonal_matrix (ts_model s)) (\<lambda>C.
         Inr (s\<lparr>ts_first_call := False, ts_G := Some G, ts_C := Some C\<rparr>)))
       else Inr s) (\<lambda>s.
     rbind (build_transient_power_vector (ts_model s) p) (\<lambda>P.
     rbind (not_null (ts_G s)) (\<lambda>G. rbind (not_null (ts_C s)) (\<lambda>C.
     rbind (backward_euler dgssv G C (gv_data (gm_last_trans (ts_model s))) P time_elapsed (gv_data (gm_last_trans (ts_model s)))) (\<lambda>(h, T).
     let s = s\<lparr>ts_model := (ts_model s)\<lparr>gm_last_trans := (gm_last_trans (ts_model s))\<lparr>gv_data := T\<rparr>\<rparr>\<rparr> in
     rbind (xlate_temp_g2b fs (ts_model s) (ts_last_temp s) (gm_last_trans (ts_model s))) (\<lambda>t.
     Inr (s\<lparr>ts_last_temp := t\<rparr>, pw)))))))))))"

end
