(* ===== verification/Grid_Solve_Ok.thy ===== *)
theory Grid_Solve_Ok
  imports Grid_Solve Block_Transient
begin

text \<open>
  What the builders of the grid's equations return, and the temperatures that solve them: the
  balance of heat of the steady state and of a step of the backward Euler method.
\<close>

section \<open>The compressed matrix\<close>

lemma rows_coo_diag:
  assumes "distinct (map fst rs)" "\<And>n ls gs. (n, ls, gs) \<in> set rs \<Longrightarrow> n \<notin> set (map fst ls)"
  shows "length (filter (\<lambda>(x, y, v). x = i \<and> y = i) (rows_coo rs)) = (if i \<in> set (map fst rs) then 1 else 0)"
proof -
  define P :: "triple \<Rightarrow> bool" where "P = (\<lambda>(x, y, v). x = i \<and> y = i)"
  have row: "length (filter P (row_triples r)) = (if i = fst r then 1 else 0)" if "\<And>n ls gs. r = (n, ls, gs) \<Longrightarrow> n \<notin> set (map fst ls)" for r
  proof -
    obtain n ls gs where r: "r = (n, ls, gs)" by (cases r)
    have "filter P (map (\<lambda>(c, R). (n, c, - (1 / R))) ls) = []"
      using that [OF r] by (force simp: filter_empty_conv P_def)
    then show ?thesis by (simp add: r row_triples_def P_def)
  qed
  have "length (filter P (rows_coo rs)) = (if i \<in> set (map fst rs) then 1 else 0)"
    using assms
  proof (induction rs)
    case (Cons r rs)
    have "length (filter P (rows_coo rs)) = (if i \<in> set (map fst rs) then 1 else 0)"
      by (rule Cons.IH) (use Cons.prems in auto)
    moreover have "length (filter P (row_triples r)) = (if i = fst r then 1 else 0)"
      by (rule row) (use Cons.prems(2) in auto)
    moreover have "rows_coo (r # rs) = row_triples r @ rows_coo rs" by (simp add: rows_coo_def)
    ultimately show ?case using Cons.prems(1) by auto
  qed (simp add: rows_coo_def)
  then show ?thesis by (simp add: P_def)
qed

definition grid_matrix :: "resistances \<Rightarrow> grid_model_t \<Rightarrow> SuperMatrix \<Rightarrow> bool" where
  "grid_matrix res m A \<longleftrightarrow> sm_nrow A = grid_dim m \<and> sm_ncol A = grid_dim m \<and> nc_nnz (sm_Store A) = grid_nnz m \<and>
     represents (grid_dim m) (rows_coo (matrix_rows res m)) (sm_Store A) \<and> diag_once (grid_dim m) (sm_Store A)"

lemma grid_matrixD:
  assumes "grid_matrix res m A"
  shows "sm_nrow A = grid_dim m" "sm_ncol A = grid_dim m" "csc_ok (grid_dim m) (sm_Store A)" "diag_once (grid_dim m) (sm_Store A)"
    "c < grid_dim m \<Longrightarrow> csc_at (sm_Store A) r c = conductance res m r c"
  using assms represents_at [of "grid_dim m" "rows_coo (matrix_rows res m)" "sm_Store A" c r]
  by (auto simp: grid_matrix_def conductance_def) (auto simp: represents_def)

lemma grid_dim_pos: "0 < grid_dim m"
  by (simp add: grid_dim_def extra_nodes_def EXTRA_def)

lemma to_SuperMatrix_ok:
  assumes "wired res m M"
  shows "\<exists>A. to_SuperMatrix (grid_dim m) (grid_nnz m) (rows_coo (matrix_rows res m)) = Inr A \<and> grid_matrix res m A"
proof -
  let ?ts = "rows_coo (matrix_rows res m)" and ?n = "grid_dim m"
  note nodes = grid_rows_nodes [OF assms] and st = stackedD [OF wiredD(1) [OF assms]]
  have N: "length ?ts = grid_nnz m" using grid_triples_ok(2) [OF assms] by (simp add: rows_coo_def)
  have joined: "(c, R) \<in> set ls \<Longrightarrow> joined m M n c R \<or> joined m M c n R" if "(n, ls, gs) \<in> set (matrix_rows res m)" for n ls gs c R
    using grid_rows_good [OF assms that] by (auto simp: good_row_def row_joined_def)
  have dim: "n < ?n" if "(n, ls, gs) \<in> set (matrix_rows res m)" for n ls gs
  proof -
    have "n \<in> set (map fst (matrix_rows res m))" using that by force
    then show ?thesis unfolding nodes(2) by simp
  qed
  have self: "n \<notin> set (map fst ls)" if "(n, ls, gs) \<in> set (matrix_rows res m)" for n ls gs
    using joined [OF that] joined_less [OF st(1,2)] by fastforce
  have lt: "\<forall>(x, y, v) \<in> set ?ts. x < ?n \<and> y < ?n"
  proof (clarsimp simp: rows_coo_def)
    fix x y v n ls gs assume r: "(n, ls, gs) \<in> set (matrix_rows res m)" "(x, y, v) \<in> set (row_triples (n, ls, gs))"
    then show "x < ?n \<and> y < ?n" using joined [OF r(1), of y] joined_dim [OF assms] dim [OF r(1)] by (auto simp: row_triples_def) blast
  qed
  have "?n - 1 \<in> set (map fst (matrix_rows res m))" unfolding nodes(2) using grid_dim_pos [of m] by simp
  then obtain row where row: "row \<in> set (matrix_rows res m)" "fst row = ?n - 1" by auto
  then obtain ls gs where "(?n - 1, ls, gs) \<in> set (matrix_rows res m)" by (metis prod.collapse)
  then have "(?n - 1, ?n - 1, row_dia (?n - 1, ls, gs)) \<in> set ?ts"
    unfolding rows_coo_def set_concat set_map by (rule UN_I [OF imageI, where A1 = "set (matrix_rows res m)"]) (simp add: row_triples_def)
  then have last: "\<exists>(x, y, v) \<in> set ?ts. y + 1 = ?n" using grid_dim_pos [of m] by force
  obtain R P V where r: "coo2csc (length ?ts) (map fst ?ts) (map (fst \<circ> snd) ?ts) (map (snd \<circ> snd) ?ts)
      (replicate (length ?ts) 0, replicate (?n + 1) 0, dvector (length ?ts)) = Inr (R, P, V)"
    "represents ?n ?ts \<lparr>nc_nnz = length ?ts, nzval = V, rowind = R, colptr = P\<rparr>"
    using coo2csc_represents [OF _ _ _ lt last] by (metis length_replicate dvector_def)
  have "card (diag_slots \<lparr>nc_nnz = length ?ts, nzval = V, rowind = R, colptr = P\<rparr> i) = 1" if "i < ?n" for i
    using represents_slots [OF r(2) that] rows_coo_diag [OF nodes(1) self, where i = i] that unfolding nodes(2) by simp
  then show ?thesis using r by (simp add: to_SuperMatrix_def grid_matrix_def diag_once_def N)
qed

lemma transient_matrix_ok: "wired transient_resistances m M \<Longrightarrow> \<exists>A. build_transient_grid_matrix m = Inr A \<and> grid_matrix transient_resistances m A"
  using to_SuperMatrix_ok grid_triples_ok(1) by (fastforce simp: build_transient_grid_matrix_def rows_coo_def)

lemma steady_matrix_ok: "wired steady_resistances m M \<Longrightarrow> \<exists>A. build_steady_grid_matrix m = Inr A \<and> grid_matrix steady_resistances m A"
  using to_SuperMatrix_ok grid_triples_ok(1) by (fastforce simp: build_steady_grid_matrix_def rows_coo_def)

section \<open>Vectors over all nodes\<close>

lemma cell_node_order: "cell_node m l i (gm_cols m) = cell_node m l (i + 1) 0" "cell_node m l (gm_rows m) 0 = cell_node m (l + 1) 0 0"
  by (simp_all add: cell_node_def algebra_simps)

lemma for_cells_ok:
  assumes f: "\<And>l i j. in_grid m l i j \<Longrightarrow> f l i j = Inr (F (cell_node m l i j))" and len: "grid_cells m \<le> length v"
  shows "\<exists>t. for_cells m f v = Inr t \<and> length t = length v \<and> (\<forall>n < length v. t ! n = (if n < grid_cells m then F n else v ! n))"
proof -
  define I where "I p t \<longleftrightarrow> length t = length v \<and> (\<forall>n < length v. t ! n = (if n < p then F n else v ! n))" for p t
  have cell: "\<exists>t'. rbind (f l i j) (wr t (l * gm_rows m * gm_cols m + i * gm_cols m + j)) = Inr t' \<and> I (cell_node m l i (Suc j)) t'"
    if "in_grid m l i j" "I (cell_node m l i j) t" for l i j t
  proof -
    have n: "cell_node m l i j < length v" using cell_node_less [OF that(1)] len by simp
    have e: "l * gm_rows m * gm_cols m + i * gm_cols m + j = cell_node m l i j" "cell_node m l i (Suc j) = Suc (cell_node m l i j)"
      by (simp_all add: cell_node_def)
    show ?thesis using f [OF that(1)] that(2) n unfolding e I_def by (auto simp: nth_list_update less_Suc_eq)
  qed
  have row: "\<exists>t'. for_up 0 (gm_cols m) (\<lambda>j v. rbind (f l i j) (wr v (l * gm_rows m * gm_cols m + i * gm_cols m + j))) t = Inr t' \<and> I (cell_node m l (Suc i) 0) t'"
    if "l < gm_n_layers m" "i < gm_rows m" "I (cell_node m l i 0) t" for l i t
    unfolding cell_node_order(1) [unfolded Suc_eq_plus1 [symmetric], symmetric]
    by (rule for_up_rule [where I = "\<lambda>j. I (cell_node m l i j)"]) (use that cell in \<open>auto simp: in_grid_def\<close>)
  have layer: "\<exists>t'. for_up 0 (gm_rows m) (\<lambda>i. for_up 0 (gm_cols m) (\<lambda>j v. rbind (f l i j) (wr v (l * gm_rows m * gm_cols m + i * gm_cols m + j)))) t = Inr t' \<and>
      I (cell_node m (Suc l) 0 0) t'" if "l < gm_n_layers m" "I (cell_node m l 0 0) t" for l t
    unfolding cell_node_order(2) [unfolded Suc_eq_plus1 [symmetric], symmetric]
    by (rule for_up_rule [where I = "\<lambda>i. I (cell_node m l i 0)"]) (use that row in auto)
  have "\<exists>t. for_cells m f v = Inr t \<and> I (cell_node m (gm_n_layers m) 0 0) t"
    unfolding for_cells_def Let_def
    by (rule for_up_rule [where I = "\<lambda>l. I (cell_node m l 0 0)"]) (use layer in \<open>auto simp: I_def cell_node_def\<close>)
  moreover have "cell_node m (gm_n_layers m) 0 0 = grid_cells m" by (simp add: cell_node_def grid_cells_def)
  ultimately show ?thesis by (auto simp: I_def)
qed

lemma put_nodes_ok:
  assumes "\<forall>(k, x) \<in> set xs. x = Inr (F (grid_cells m + k)) \<and> grid_cells m + k < length v"
  shows "\<exists>t. put_nodes m xs v = Inr t \<and> length t = length v \<and>
    (\<forall>n < length v. t ! n = (if grid_cells m \<le> n \<and> n - grid_cells m \<in> set (map fst xs) then F n else v ! n))"
  using assms
proof (induction xs arbitrary: v)
  case Nil
  show ?case by (simp add: put_nodes_def)
next
  case (Cons e xs)
  obtain k where e: "e = (k, Inr (F (grid_cells m + k)))" "grid_cells m + k < length v" using Cons.prems by (cases e) auto
  obtain t where t: "put_nodes m xs (v[grid_cells m + k := F (grid_cells m + k)]) = Inr t" "length t = length v"
    "\<forall>n < length v. t ! n = (if grid_cells m \<le> n \<and> n - grid_cells m \<in> set (map fst xs) then F n else v[grid_cells m + k := F (grid_cells m + k)] ! n)"
    using Cons.IH [of "v[grid_cells m + k := F (grid_cells m + k)]"] Cons.prems by auto
  have "put_nodes m (e # xs) v = Inr t" using t(1) e by (simp add: put_nodes_def)
  moreover have "t ! n = (if grid_cells m \<le> n \<and> n - grid_cells m \<in> set (map fst (e # xs)) then F n else v ! n)" if "n < length v" for n
    using t(3) that e by (auto simp: nth_list_update)
  ultimately show ?case using t(2) by blast
qed

lemma node_vector_ok:
  assumes f: "\<And>l i j. in_grid m l i j \<Longrightarrow> f l i j = Inr (F (cell_node m l i j))"
    and p: "\<forall>(k, x) \<in> set ps. x = Inr (F (grid_cells m + k))" "\<forall>(k, x) \<in> set qs. x = Inr (F (grid_cells m + k))"
    and keys: "set (map fst ps) \<union> set (map fst qs) = {..<extra_nodes (gm_config m)}"
  shows "\<exists>u v w. for_cells m f (dvector (grid_dim m)) = Inr u \<and> put_nodes m ps u = Inr v \<and> put_nodes m qs v = Inr w \<and>
    length w = grid_dim m \<and> (\<forall>n < grid_dim m. w ! n = F n)"
proof -
  have k: "grid_cells m + k < grid_dim m" if "(k, x) \<in> set ps \<or> (k, x) \<in> set qs" for k x
  proof -
    have "k \<in> set (map fst ps) \<union> set (map fst qs)" using that by force
    then show ?thesis unfolding keys by (simp add: grid_dim_cells)
  qed
  have node_list: "\<forall>(k, x) \<in> set xs. x = Inr (F (grid_cells m + k)) \<and> grid_cells m + k < length t"
    if "\<forall>(k, x) \<in> set xs. x = Inr (F (grid_cells m + k))" "set xs \<subseteq> set ps \<union> set qs" "length t = grid_dim m" for xs t
    using that k by fastforce
  obtain u where u: "for_cells m f (dvector (grid_dim m)) = Inr u" "length u = grid_dim m" "\<forall>n < grid_dim m. n < grid_cells m \<longrightarrow> u ! n = F n"
    using for_cells_ok [of m f F "dvector (grid_dim m)", OF f] by (force simp: grid_dim_cells dvector_def)
  obtain v where v: "put_nodes m ps u = Inr v" "length v = grid_dim m"
    "\<forall>n < grid_dim m. v ! n = (if grid_cells m \<le> n \<and> n - grid_cells m \<in> set (map fst ps) then F n else u ! n)"
    using put_nodes_ok [of ps F m u, OF node_list [OF p(1) _ u(2)]] k u(2) by auto
  obtain w where w: "put_nodes m qs v = Inr w" "length w = grid_dim m"
    "\<forall>n < grid_dim m. w ! n = (if grid_cells m \<le> n \<and> n - grid_cells m \<in> set (map fst qs) then F n else v ! n)"
    using put_nodes_ok [of qs F m v, OF node_list [OF p(2) _ v(2)]] k v(2) by auto
  have "w ! n = F n" if n: "n < grid_dim m" for n
  proof (cases "n < grid_cells m")
    case False
    then have "n - grid_cells m \<in> set (map fst ps) \<union> set (map fst qs)" unfolding keys using n by (auto simp: grid_dim_cells)
    then show ?thesis using v(3) w(3) n False by auto
  qed (use u(3) v(3) w(3) n in simp)
  then show ?thesis using u(1) v(1) w(1,2) by blast
qed

section \<open>Power and capacitances\<close>

definition node_power :: "grid_model_t \<Rightarrow> grid_model_vector_t \<Rightarrow> nat \<Rightarrow> real" where
  "node_power m pw n = (if n < grid_cells m then gv_data pw ! n else 0) + ambient (gm_config m) * ambient_g m n"

lemma gv_at_node: "gv_ok v (gm_n_layers m) (gm_rows m) (gm_cols m) xt \<Longrightarrow> gv_at v l i j = gv_data v ! cell_node m l i j"
  by (simp add: gv_at_def gv_index_def gv_ok_def dcuboid_row_def cell_node_def algebra_simps)

lemma cell_source_ok:
  assumes "wired res m M" "gv_ok pw (gm_n_layers m) (gm_rows m) (gm_cols m) xt" "in_grid m l i j"
  shows "cell_source m pw l i j = Inr (node_power m pw (cell_node m l i j))"
proof -
  note n = stackedD [OF wiredD(1) [OF assms(1)]] and w = wiredD [OF assms(1)]
  have l: "l < gm_n_layers m" "i < gm_rows m" "j < gm_cols m" using assms(3) by (simp_all add: in_grid_def)
  have g: "gv_get pw l i j = Inr (gv_data pw ! cell_node m l i j)"
    using gv_get_ok [OF assms(2) l] gv_at_node [OF assms(2)] by simp
  have a: "ambient_g m (cell_node m l i j) = (\<Sum>R \<leftarrow> ambient_list m l. 1 / R)"
    using cell_node_less [OF assms(3)] cell_node_layer [OF assms(3)] by (simp add: ambient_g_def)
  have pos: "\<forall>R \<in> set (ambient_list m l). 0 < R" by (rule cell_ambient_ok(2) [OF assms(1) l(1)])
  note pcb = pcb_ambient_ok [OF assms(1)]
  show ?thesis
    using g a pos pcb l n(3) cell_node_less [OF assms(3)]
    by (auto simp: cell_source_def ambient_list_def node_power_def Let_def)
qed

lemma primary_keys: "set (map fst (primary_sources m)) = {..<EXTRA}" "set (map fst (primary_capacitances m)) = {..<EXTRA}"
  by (auto simp: primary_sources_def primary_capacitances_def Let_def node_defs EXTRA_def less_Suc_eq numeral_eq_Suc)

lemma secondary_keys:
  "set (map fst (secondary_sources m)) = (if model_secondary (gm_config m) = 0 then {} else {EXTRA..<EXTRA + EXTRA_SEC})"
  "set (map fst (secondary_capacitances m)) = (if model_secondary (gm_config m) = 0 then {} else {EXTRA..<EXTRA + EXTRA_SEC})"
  by (auto simp: secondary_sources_def secondary_capacitances_def Let_def sec_node_defs EXTRA_def EXTRA_SEC_def less_Suc_eq numeral_eq_Suc)

lemma all_keys:
  "set (map fst (primary_sources m)) \<union> set (map fst (secondary_sources m)) = {..<extra_nodes (gm_config m)}"
  "set (map fst (primary_capacitances m)) \<union> set (map fst (secondary_capacitances m)) = {..<extra_nodes (gm_config m)}"
  unfolding primary_keys secondary_keys extra_nodes_def by (auto simp: EXTRA_def EXTRA_SEC_def)

lemma sources_ok:
  assumes "wired res m M"
  shows "\<forall>(k, x) \<in> set (primary_sources m). x = Inr (node_power m pw (grid_cells m + k))"
    "\<forall>(k, x) \<in> set (secondary_sources m). x = Inr (node_power m pw (grid_cells m + k))"
proof -
  note w = wiredD(2,3) [OF assms]
  have p: "r_hs_c_per_x (gm_pack m) + r_amb_c_per_x (gm_pack m) \<noteq> 0" "r_hs_c_per_y (gm_pack m) + r_amb_c_per_y (gm_pack m) \<noteq> 0"
    "r_hs_per (gm_pack m) + r_amb_per (gm_pack m) \<noteq> 0"
    using w(1) by (simp_all add: pack_R_ok_def add_pos_nonneg less_imp_neq [symmetric])
  show "\<forall>(k, x) \<in> set (primary_sources m). x = Inr (node_power m pw (grid_cells m + k))"
    using p by (simp add: primary_sources_def Let_def node_power_def ambient_g_def package_ambient_def node_defs)
  have s: "r_amb_sec_c_per_x (gm_pack m) \<noteq> 0" "r_amb_sec_c_per_y (gm_pack m) \<noteq> 0" "r_amb_sec_per (gm_pack m) \<noteq> 0"
    if "model_secondary (gm_config m) \<noteq> 0" using w(2) [OF that] by (simp_all add: secondary_ok_def Let_def)
  show "\<forall>(k, x) \<in> set (secondary_sources m). x = Inr (node_power m pw (grid_cells m + k))"
    using s by (simp add: secondary_sources_def Let_def node_power_def ambient_g_def package_ambient_def node_defs sec_node_defs)
qed

lemma power_vector_ok:
  assumes "wired res m M" "gv_ok pw (gm_n_layers m) (gm_rows m) (gm_cols m) xt"
  shows "\<exists>P. build_transient_power_vector m pw = Inr P \<and> build_steady_rhs_vector m pw = Inr P \<and> length P = grid_dim m \<and>
    (\<forall>n < grid_dim m. P ! n = node_power m pw n)"
  using node_vector_ok [of m "cell_source m pw" "node_power m pw", OF cell_source_ok [OF assms] sources_ok [OF assms(1)] all_keys(1)]
  by (auto simp: build_transient_power_vector_def build_steady_rhs_vector_def)

text \<open>The capacitances of the package; those of the secondary path are set to zero.\<close>

definition package_cap :: "grid_model_t \<Rightarrow> nat \<Rightarrow> real" where
  "package_cap m k = (let p = gm_pack m in
     if k \<le> SP_E then c_sp_per_x p else if k \<le> SP_S then c_sp_per_y p
     else if k \<le> SINK_C_E then c_hs_c_per_x p + c_amb_c_per_x p else if k \<le> SINK_C_S then c_hs_c_per_y p + c_amb_c_per_y p
     else if k \<le> SINK_S then c_hs_per p + c_amb_per p else 0)"

definition node_cap :: "(nat \<Rightarrow> real) \<Rightarrow> grid_model_t \<Rightarrow> nat \<Rightarrow> real" where
  "node_cap C m n = (if n < grid_cells m then C n else package_cap m (n - grid_cells m))"

lemma diagonal_matrix_ok:
  assumes "\<And>l i j. in_grid m l i j \<Longrightarrow> cell_capacitance m l i j = Inr (C (cell_node m l i j))"
  shows "\<exists>v. build_diagonal_matrix m = Inr \<lparr>dm_n = grid_dim m, dm_vals = v\<rparr> \<and> length v = grid_dim m \<and> (\<forall>n < grid_dim m. v ! n = node_cap C m n)"
proof -
  have p: "\<forall>(k, x) \<in> set (primary_capacitances m). x = Inr (node_cap C m (grid_cells m + k))"
    "\<forall>(k, x) \<in> set (secondary_capacitances m). x = Inr (node_cap C m (grid_cells m + k))"
    by (simp_all add: primary_capacitances_def secondary_capacitances_def node_cap_def package_cap_def Let_def node_defs sec_node_defs)
  have "cell_capacitance m l i j = Inr (node_cap C m (cell_node m l i j))" if "in_grid m l i j" for l i j
    using assms [OF that] cell_node_less [OF that] by (simp add: node_cap_def)
  from node_vector_ok [of m "cell_capacitance m" "node_cap C m", OF this p all_keys(2)]
  show ?thesis by (auto simp: build_diagonal_matrix_def)
qed

section \<open>Networks\<close>

lemma conductive_mono:
  assumes "conductive 0 n d B" "0 < d" "\<forall>i < n. (\<Sum>j < n. B i j * x j) \<le> (\<Sum>j < n. B i j * y j)" "i < n"
  shows "x i \<le> y i"
  using inverse_positive [OF assms(1,2), of "\<lambda>j. y j - x j" i] assms(3,4) by (simp add: right_diff_distrib sum_subtractf)

lemma conductive_nonsingular:
  assumes "conductive 0 n d B" "0 < d"
  shows "nonsingular n B"
  unfolding nonsingular_def
proof (intro allI impI)
  fix z j assume z: "\<forall>i < n. (\<Sum>j < n. B i j * z j) = 0" and j: "j < n"
  have "z j \<le> 0" "0 \<le> z j"
    using conductive_mono [OF assms, of z "\<lambda>_. 0" j] conductive_mono [OF assms, of "\<lambda>_. 0" z j] z j by simp_all
  then show "z j = 0" by simp
qed

lemma conductive_heat:
  assumes "conductive 0 n d B"
  shows "(\<Sum>i < n. \<Sum>j < n. B i j * x j) = (\<Sum>j < n. leak 0 n B j * x j)"
proof -
  have "(\<Sum>i < n. \<Sum>j < n. B i j * x j) = (\<Sum>j < n. \<Sum>i < n. B i j * x j)" by (rule sum.swap)
  also have "\<dots> = (\<Sum>j < n. \<Sum>i < n. B j i * x j)"
    using conductiveD(1) [OF assms] by (intro sum.cong) auto
  finally show ?thesis by (simp add: leak_def atLeast0LessThan sum_distrib_right)
qed

lemma sum_diag: "i < n \<Longrightarrow> (\<Sum>j < n. (if i = j then e i else 0) * x j) = e i * (x i :: real)" for n :: nat
  by (subst sum.cong [OF refl, of _ _ "\<lambda>j. if i = j then e i * x i else 0"]) auto

lemma conductive_add_diag:
  assumes "conductive 0 n d B" "\<forall>i < n. 0 \<le> e i"
  shows "conductive 0 n d (\<lambda>i j. B i j + (if i = j then e i else 0))"
proof -
  let ?F = "\<lambda>i j. B i j + (if i = j then e i else 0)"
  have leak: "leak 0 n ?F i = leak 0 n B i + e i" if "i < n" for i
    using that by (simp add: leak_def sum.distrib)
  have "d \<le> leak 0 n ?F i \<or> (\<exists>j. i < j \<and> j < n \<and> ?F i j \<le> - d)" if i: "i < n" for i
  proof (cases "d \<le> leak 0 n B i")
    case True
    then show ?thesis using leak [OF i] assms(2) i by (simp add: add_increasing2)
  next
    case False
    then obtain j where "i < j" "j < n" "B i j \<le> - d" using conductiveD(4) [OF assms(1) le0 i] by blast
    then show ?thesis by (intro disjI2 exI [of _ j]) simp
  qed
  then show ?thesis
    using assms leak unfolding conductive_def by (simp add: add_nonneg_nonneg)
qed

section \<open>Steady state\<close>

text \<open>What SuperLU promises: the solution of a regular system in compressed columns.\<close>

definition solves :: "superlu \<Rightarrow> bool" where
  "solves dgssv \<longleftrightarrow> (\<forall>A b n. sm_nrow A = n \<and> sm_ncol A = n \<and> csc_ok n (sm_Store A) \<and> nonsingular n (csc_at (sm_Store A)) \<and> length b = n \<longrightarrow>
     length (dgssv A b) = n \<and> (\<forall>r < n. (\<Sum>c < n. csc_at (sm_Store A) r c * dgssv A b ! c) = b ! r))"

lemma solvesD:
  assumes "solves dgssv" "sm_nrow A = n" "sm_ncol A = n" "csc_ok n (sm_Store A)" "length b = n"
    and "conductive 0 n d B" "0 < d" "\<And>r c. r < n \<Longrightarrow> c < n \<Longrightarrow> csc_at (sm_Store A) r c = B r c"
  shows "length (dgssv A b) = n" "r < n \<Longrightarrow> (\<Sum>c < n. B r c * dgssv A b ! c) = b ! r"
proof -
  have eq: "(\<Sum>c < n. csc_at (sm_Store A) r c * z c) = (\<Sum>c < n. B r c * z c)" if "r < n" for r z
    using assms(8) [OF that] by (intro sum.cong) simp_all
  have "nonsingular n (csc_at (sm_Store A))"
    using conductive_nonsingular [OF assms(6,7)] by (simp add: nonsingular_def eq)
  then have "length (dgssv A b) = n \<and> (\<forall>r < n. (\<Sum>c < n. csc_at (sm_Store A) r c * dgssv A b ! c) = b ! r)"
    using assms(1-5) unfolding solves_def by blast
  then show "length (dgssv A b) = n" "r < n \<Longrightarrow> (\<Sum>c < n. B r c * dgssv A b ! c) = b ! r" using eq by simp_all
qed

lemma copy_nodes_ok:
  assumes "length src = n" "length dst = n"
  shows "copy_nodes n src dst = Inr src"
proof -
  have "\<exists>t. copy_nodes n src dst = Inr t \<and> length t = n \<and> (\<forall>k < n. t ! k = src ! k)"
    unfolding copy_nodes_def
    by (rule for_up_rule [where I = "\<lambda>i t. length t = n \<and> (\<forall>k < i. t ! k = src ! k)", of 0 n, simplified])
      (use assms in \<open>auto simp: nth_list_update less_Suc_eq\<close>)
  then obtain t where "copy_nodes n src dst = Inr t" "length t = n" "\<forall>k < n. t ! k = src ! k" by blast
  moreover from this have "t = src" using assms(1) by (intro nth_equalityI) simp_all
  ultimately show ?thesis by simp
qed

text \<open>The temperatures at which every node passes on the heat it receives.\<close>

definition grid_balance :: "grid_model_t \<Rightarrow> grid_model_vector_t \<Rightarrow> real list \<Rightarrow> bool" where
  "grid_balance m pw t \<longleftrightarrow> length t = grid_dim m \<and>
     (\<forall>n < grid_dim m. (\<Sum>c < grid_dim m. conductance transient_resistances m n c * t ! c) = node_power m pw n)"

lemma direct_SLU_ok:
  assumes "wired transient_resistances m M" "solves dgssv" "gv_ok pw (gm_n_layers m) (gm_rows m) (gm_cols m) xt"
    and "length (gv_data (gm_last_steady m)) = grid_dim m"
  shows "\<exists>t. direct_SLU dgssv m pw = Inr (m\<lparr>gm_last_steady := (gm_last_steady m)\<lparr>gv_data := t\<rparr>\<rparr>) \<and> grid_balance m pw t"
proof -
  obtain d where d: "0 < d" "conductive 0 (grid_dim m) d (conductance transient_resistances m)"
    using grid_conductive [OF assms(1)] by blast
  obtain A where A: "build_transient_grid_matrix m = Inr A" "grid_matrix transient_resistances m A"
    using transient_matrix_ok [OF assms(1)] by blast
  obtain P where P: "build_transient_power_vector m pw = Inr P" "length P = grid_dim m" "\<forall>n < grid_dim m. P ! n = node_power m pw n"
    using power_vector_ok [OF assms(1,3)] by blast
  note g = grid_matrixD [OF A(2)]
  note s = solvesD [OF assms(2) g(1,2,3) P(2) d(2,1) g(5)]
  have "copy_nodes (grid_dim m) (dgssv A P) (gv_data (gm_last_steady m)) = Inr (dgssv A P)" by (rule copy_nodes_ok [OF s(1) assms(4)])
  then show ?thesis using A(1) P s by (auto simp: direct_SLU_def grid_balance_def)
qed

lemma balance_leak:
  assumes "wired res m M" "n < grid_dim m"
  shows "leak 0 (grid_dim m) (conductance res m) n = ambient_g m n"
  using conductance_row_sum [OF assms] by (simp add: leak_def atLeast0LessThan)

text \<open>All the power of the cells leaves to the ambient.\<close>

lemma sum_node_power:
  "(\<Sum>n < grid_dim m. node_power m pw n) = (\<Sum>n < grid_cells m. gv_data pw ! n) + (\<Sum>n < grid_dim m. ambient_g m n * ambient (gm_config m))"
proof -
  have "(\<Sum>n < grid_dim m. if n < grid_cells m then gv_data pw ! n else 0) = (\<Sum>n < grid_cells m. gv_data pw ! n)"
    by (rule sum.mono_neutral_cong_right) (auto simp: grid_dim_cells)
  then show ?thesis by (simp add: node_power_def sum.distrib mult.commute)
qed

lemma grid_balance_heat:
  assumes "wired transient_resistances m M" "grid_balance m pw t"
  shows "(\<Sum>n < grid_dim m. ambient_g m n * (t ! n - ambient (gm_config m))) = (\<Sum>n < grid_cells m. gv_data pw ! n)"
proof -
  let ?N = "grid_dim m" and ?B = "conductance transient_resistances m"
  obtain d where d: "conductive 0 ?N d ?B" using grid_conductive [OF assms(1)] by blast
  have "(\<Sum>n < ?N. ambient_g m n * t ! n) = (\<Sum>n < ?N. \<Sum>c < ?N. ?B n c * t ! c)"
    unfolding conductive_heat [OF d, of "(!) t"] using balance_leak [OF assms(1)] by (intro sum.cong) simp_all
  also have "\<dots> = (\<Sum>n < ?N. node_power m pw n)" using assms(2) by (intro sum.cong) (simp_all add: grid_balance_def)
  finally show ?thesis unfolding sum_node_power by (simp add: right_diff_distrib sum_subtractf)
qed

lemma grid_balance_mono:
  assumes "wired transient_resistances m M" "grid_balance m pw t" "grid_balance m pw' u" "\<forall>k < grid_cells m. gv_data pw ! k \<le> gv_data pw' ! k"
    and "n < grid_dim m"
  shows "t ! n \<le> u ! n"
proof -
  obtain d where d: "0 < d" "conductive 0 (grid_dim m) d (conductance transient_resistances m)" using grid_conductive [OF assms(1)] by blast
  show ?thesis
    by (rule conductive_mono [OF d(2,1) _ assms(5), of "(!) t" "(!) u"]) (use assms(2-4) in \<open>simp add: grid_balance_def node_power_def\<close>)
qed

lemma grid_balance_ambient:
  assumes "wired transient_resistances m M" "\<forall>k < grid_cells m. gv_data pw ! k = 0"
  shows "grid_balance m pw (replicate (grid_dim m) (ambient (gm_config m)))"
proof -
  have "(\<Sum>c < grid_dim m. conductance transient_resistances m n c * ambient (gm_config m)) = ambient (gm_config m) * ambient_g m n"
    if "n < grid_dim m" for n
    unfolding sum_distrib_right [symmetric] conductance_row_sum [OF assms(1) that] by (rule mult.commute)
  then show ?thesis using assms(2) by (simp add: grid_balance_def node_power_def)
qed

lemma grid_balance_above:
  assumes "wired transient_resistances m M" "grid_balance m pw t" "\<forall>k < grid_cells m. 0 \<le> gv_data pw ! k" "n < grid_dim m"
  shows "ambient (gm_config m) \<le> t ! n"
  using grid_balance_mono [OF assms(1) grid_balance_ambient [OF assms(1), of "pw\<lparr>gv_data := replicate (grid_cells m) 0\<rparr>"] assms(2) _ assms(4)] assms(3,4)
  by simp

section \<open>Transients\<close>

lemma for_up_Some:
  assumes "for_up lo hi g s = Inr s'" "\<And>i t t'. lo \<le> i \<Longrightarrow> i < hi \<Longrightarrow> g i t = Inr t' \<Longrightarrow> body i (Some t) = Inr (Some t')"
  shows "for_up lo hi body (Some s) = Inr (Some s')"
  using assms
proof (induction lo hi g s rule: for_up.induct)
  case (1 lo hi g s)
  show ?case
  proof (cases "lo < hi")
    case True
    then obtain t where t: "g lo s = Inr t" "for_up (Suc lo) hi g t = Inr s'"
      using "1.prems"(1) by (auto simp: for_up_step [OF True] rbind_def split: sum.splits)
    have "for_up (Suc lo) hi body (Some t) = Inr (Some s')"
      by (rule "1.IH" [OF True t(1,2)]) (use "1.prems"(2) in auto)
    then show ?thesis using "1.prems"(2) [OF _ True t(1)] by (simp add: for_up_step [OF True])
  next
    case False
    then show ?thesis using "1.prems"(1) by simp
  qed
qed

lemma build_A_ok:
  assumes "csc_ok n (sm_Store G)" "diag_once n (sm_Store G)" "sm_ncol G = n" "length (dm_vals C) = n" "h \<noteq> 0"
  shows "\<exists>st. build_A_matrix G C h = Inr (Some (G\<lparr>sm_Store := st\<rparr>)) \<and> same_pattern (sm_Store G) st \<and>
    (\<forall>r < n. \<forall>k < n. csc_at st r k = csc_at (sm_Store G) r k + (if r = k then 1 / h * dm_vals C ! r else 0))"
proof -
  define g where "g i s = rbind (bump_column i (1 / h * dm_vals C ! i) s) (\<lambda>(found, s). if found then Inr s else Inl OutOfBounds)" for i s
  obtain st where st: "for_up 0 n g (sm_Store G) = Inr st" "same_pattern (sm_Store G) st"
    "\<forall>r < n. \<forall>k < n. csc_at st r k = csc_at (sm_Store G) r k + (if r = k then 1 / h * dm_vals C ! r else 0)"
    using add_diagonal_ok [OF assms(1,2), of g "\<lambda>i. 1 / h * dm_vals C ! i"] unfolding g_def by blast
  have "for_up 0 n (\<lambda>i st. case st of None \<Rightarrow> Inr None | Some st \<Rightarrow>
       rbind (fdiv 1 h) (\<lambda>q. rbind (rd (dm_vals C) i) (\<lambda>c. rbind (bump_column i (q * c) st) (\<lambda>(found, st).
       Inr (if found then Some st else None))))) (Some (sm_Store G)) = Inr (Some st)"
    by (rule for_up_Some [OF st(1)])
      (use assms(4,5) in \<open>auto simp: g_def rbind_def split: sum.splits prod.splits if_splits\<close>)
  then show ?thesis using st(2,3) assms(3) by (auto simp: build_A_matrix_def)
qed

lemma build_B_ok:
  assumes "length (dm_vals C) = n" "dm_n C = n" "length T = n" "length P = n" "h \<noteq> 0"
  shows "\<exists>B. build_B_matrix C T P h = Inr B \<and> length B = n \<and> (\<forall>i < n. B ! i = 1 / h * dm_vals C ! i * T ! i + P ! i)"
proof -
  have "\<exists>B. build_B_matrix C T P h = Inr B \<and> length B = n \<and> (\<forall>i < n. B ! i = 1 / h * dm_vals C ! i * T ! i + P ! i)"
    unfolding build_B_matrix_def assms(2)
    by (rule for_up_rule [where I = "\<lambda>k B. length B = n \<and> (\<forall>i < k. B ! i = 1 / h * dm_vals C ! i * T ! i + P ! i)"])
      (use assms in \<open>auto simp: nth_list_update less_Suc_eq dvector_def\<close>)
  then show ?thesis .
qed

text \<open>
  A step of the backward Euler method: the heat a node stores over the step is what its power
  and its neighbours bring at the temperatures after the step.
\<close>

definition euler_step :: "resistances \<Rightarrow> grid_model_t \<Rightarrow> (nat \<Rightarrow> real) \<Rightarrow> (nat \<Rightarrow> real) \<Rightarrow> real \<Rightarrow> real list \<Rightarrow> real list \<Rightarrow> bool" where
  "euler_step res m C P h T U \<longleftrightarrow> length U = grid_dim m \<and>
     (\<forall>n < grid_dim m. C n * (U ! n - T ! n) = h * (P n - (\<Sum>c < grid_dim m. conductance res m n c * U ! c)))"

text \<open>The equations of a step: \<open>(G + C / h) U = C / h T + P\<close>.\<close>

lemma euler_eq:
  fixes B :: "nat \<Rightarrow> nat \<Rightarrow> real"
  assumes "h \<noteq> 0" "n < grid_dim m"
  shows "(\<Sum>c < grid_dim m. (B n c + (if n = c then 1 / h * C n else 0)) * u c) = 1 / h * C n * t + p \<longleftrightarrow>
    C n * (u n - t) = h * (p - (\<Sum>c < grid_dim m. B n c * u c))"
proof -
  have "(\<Sum>c < grid_dim m. (B n c + (if n = c then 1 / h * C n else 0)) * u c) = (\<Sum>c < grid_dim m. B n c * u c) + 1 / h * C n * u n"
    using sum_diag [OF assms(2), of "\<lambda>i. 1 / h * C i" u] by (simp add: distrib_right sum.distrib)
  then show ?thesis using assms(1) by (auto simp: field_simps)
qed

lemma backward_euler_ok:
  assumes "wired res m M" "grid_matrix res m G" "solves dgssv" "0 < h" "dm_n C = grid_dim m" "length (dm_vals C) = grid_dim m"
    and "\<forall>n < grid_dim m. 0 \<le> dm_vals C ! n" "length T = grid_dim m" "length P = grid_dim m" "length Tout = grid_dim m"
  shows "\<exists>U. backward_euler dgssv G C T P h Tout = Inr (h, U) \<and> euler_step res m ((!) (dm_vals C)) ((!) P) h T U"
proof -
  let ?N = "grid_dim m" and ?c = "\<lambda>i. 1 / h * dm_vals C ! i"
  have h: "h \<noteq> 0" using assms(4) by simp
  note g = grid_matrixD [OF assms(2)]
  obtain d where d: "0 < d" "conductive 0 ?N d (conductance res m)" using grid_conductive [OF assms(1)] by blast
  let ?A = "\<lambda>i j. conductance res m i j + (if i = j then ?c i else 0)"
  have cond: "conductive 0 ?N d ?A" by (rule conductive_add_diag [OF d(2)]) (use assms(4,7) in simp)
  obtain st where st: "build_A_matrix G C h = Inr (Some (G\<lparr>sm_Store := st\<rparr>))" "same_pattern (sm_Store G) st"
    "\<forall>r < ?N. \<forall>k < ?N. csc_at st r k = csc_at (sm_Store G) r k + (if r = k then ?c r else 0)"
    using build_A_ok [OF g(3,4,2) assms(6) h] by blast
  obtain B where B: "build_B_matrix C T P h = Inr B" "length B = ?N" "\<forall>i < ?N. B ! i = 1 / h * dm_vals C ! i * T ! i + P ! i"
    using build_B_ok [OF assms(6,5,8,9) h] by blast
  let ?A' = "G\<lparr>sm_Store := st\<rparr>"
  have A: "sm_nrow ?A' = ?N" "sm_ncol ?A' = ?N" "csc_ok ?N (sm_Store ?A')"
    using g(1-3) same_pattern_slots [OF st(2), of ?N] by simp_all
  have ent: "csc_at (sm_Store ?A') r c = ?A r c" if "r < ?N" "c < ?N" for r c using st(3) g(5) that by simp
  note s = solvesD [OF assms(3) A B(2) cond d(1) ent]
  have "copy_nodes ?N (dgssv ?A' B) (dvector ?N) = Inr (dgssv ?A' B)" "copy_nodes ?N (dgssv ?A' B) Tout = Inr (dgssv ?A' B)"
    using copy_nodes_ok [OF s(1)] assms(10) by (simp_all add: dvector_def)
  then have "backward_euler dgssv G C T P h Tout = Inr (h, dgssv ?A' B)"
    using st(1) B(1) assms(5) by (simp add: backward_euler_def)
  moreover have "dm_vals C ! n * (dgssv ?A' B ! n - T ! n) = h * (P ! n - (\<Sum>c < ?N. conductance res m n c * dgssv ?A' B ! c))" if n: "n < ?N" for n
    using euler_eq [OF h n, of "conductance res m" "(!) (dm_vals C)" "(!) (dgssv ?A' B)" "T ! n" "P ! n"] s(2) [OF _ _ n] B(3) n by simp
  ultimately show ?thesis using s(1) by (intro exI [of _ "dgssv ?A' B"]) (simp add: euler_step_def)
qed

lemma euler_mono:
  assumes "wired res m M" "0 < h" "\<forall>n < grid_dim m. 0 \<le> C n" "euler_step res m C P h T U" "euler_step res m C Q h S V"
    and "\<forall>n < grid_dim m. T ! n \<le> S ! n \<and> P n \<le> Q n" "n < grid_dim m"
  shows "U ! n \<le> V ! n"
proof -
  let ?N = "grid_dim m" and ?e = "\<lambda>i. 1 / h * C i"
  obtain d where d: "0 < d" "conductive 0 ?N d (conductance res m)" using grid_conductive [OF assms(1)] by blast
  let ?A = "\<lambda>i j. conductance res m i j + (if i = j then ?e i else 0)"
  have e: "\<forall>i < ?N. 0 \<le> ?e i" using assms(2,3) by simp
  have h: "h \<noteq> 0" using assms(2) by simp
  note eq = euler_eq [OF h, of _ m "conductance res m" C, THEN iffD2]
  have "(\<Sum>c < ?N. ?A i c * U ! c) \<le> (\<Sum>c < ?N. ?A i c * V ! c)" if i: "i < ?N" for i
  proof -
    have "?e i * T ! i + P i \<le> ?e i * S ! i + Q i" using assms(6) e i by (intro add_mono mult_left_mono) auto
    then show ?thesis
      using eq [OF i, of "(!) U" "T ! i" "P i"] eq [OF i, of "(!) V" "S ! i" "Q i"] assms(4,5) i by (simp add: euler_step_def)
  qed
  then show ?thesis using conductive_mono [OF conductive_add_diag [OF d(2) e] d(1), of "(!) U" "(!) V"] assms(7) by blast
qed

lemma euler_fixed: "grid_balance m pw S \<Longrightarrow> euler_step transient_resistances m C (node_power m pw) h S S"
  by (simp add: euler_step_def grid_balance_def)

lemma euler_energy:
  assumes "wired transient_resistances m M" "euler_step transient_resistances m C (node_power m pw) h T U"
  shows "(\<Sum>n < grid_dim m. C n * (U ! n - T ! n)) =
    h * ((\<Sum>n < grid_cells m. gv_data pw ! n) - (\<Sum>n < grid_dim m. ambient_g m n * (U ! n - ambient (gm_config m))))"
proof -
  let ?N = "grid_dim m" and ?B = "conductance transient_resistances m"
  obtain d where d: "conductive 0 ?N d ?B" using grid_conductive [OF assms(1)] by blast
  have "(\<Sum>n < ?N. C n * (U ! n - T ! n)) = (\<Sum>n < ?N. h * (node_power m pw n - (\<Sum>c < ?N. ?B n c * U ! c)))"
    using assms(2) by (intro sum.cong) (simp_all add: euler_step_def)
  also have "\<dots> = h * ((\<Sum>n < ?N. node_power m pw n) - (\<Sum>n < ?N. \<Sum>c < ?N. ?B n c * U ! c))"
    by (simp add: sum_distrib_left [symmetric] sum_subtractf)
  also have "(\<Sum>n < ?N. \<Sum>c < ?N. ?B n c * U ! c) = (\<Sum>n < ?N. ambient_g m n * U ! n)"
    unfolding conductive_heat [OF d, of "(!) U"] using balance_leak [OF assms(1)] by (intro sum.cong) simp_all
  finally show ?thesis unfolding sum_node_power by (simp add: right_diff_distrib sum_subtractf distrib_left)
qed

lemma euler_cong:
  "(\<And>n. n < grid_dim m \<Longrightarrow> P n = Q n \<and> C n = D n) \<Longrightarrow> euler_step res m C P h T U \<longleftrightarrow> euler_step res m D Q h T U"
  by (simp add: euler_step_def)

end
