(* ===== verification/Grid_Chip.thy ===== *)
theory Grid_Chip
  imports Grid_Solve_Ok
begin

text \<open>
  The equations of a chip on its package: the two readings of the resistances between cells, the
  capacitances, and the steady and the transient temperatures of the model that
  \<open>populate_R_model_grid\<close> and \<open>populate_C_model_grid\<close> leave.
\<close>

section \<open>Resistances between cells\<close>

text \<open>
  The meshes the builders read. \<open>find_res\<close> takes \<open>rx\<close> between rows and \<open>ry\<close> between columns, the
  builder of the steady matrix \<open>rx\<close> between columns and \<open>ry\<close> between rows.
\<close>

definition transient_mesh :: "grid_model_t \<Rightarrow> mesh" where
  "transient_mesh m = \<lparr>to_east = \<lambda>l i j. ly_ry (gm_layers m ! l), to_south = \<lambda>l i j. ly_rx (gm_layers m ! l),
     to_below = \<lambda>l i j. ly_rz (gm_layers m ! l)\<rparr>"

definition steady_mesh :: "grid_model_t \<Rightarrow> mesh" where
  "steady_mesh m = \<lparr>to_east = \<lambda>l i j. ly_rx (gm_layers m ! l), to_south = \<lambda>l i j. ly_ry (gm_layers m ! l),
     to_below = \<lambda>l i j. ly_rz (gm_layers m ! l)\<rparr>"

definition plain_R :: "grid_model_t \<Rightarrow> bool" where
  "plain_R m \<longleftrightarrow> stacked m \<and> pack_R_ok (gm_pack m) \<and> (model_secondary (gm_config m) \<noteq> 0 \<longrightarrow> secondary_ok m) \<and>
     detailed_3D_used (gm_config m) \<noteq> 1 \<and> (\<forall>l < gm_n_layers m. resistive (gm_layers m ! l))"

definition layered :: "grid_model_t \<Rightarrow> bool" where
  "layered m \<longleftrightarrow> length (gm_layers m) = gm_n_layers m \<and> detailed_3D_used (gm_config m) \<noteq> 1"

lemma plain_layered: "plain_R m \<Longrightarrow> layered m"
  by (simp add: plain_R_def layered_def stackedD(3))

lemma layer_r_ok: "layered m \<Longrightarrow> l < gm_n_layers m \<Longrightarrow> layer_r f m l = Inr (f (gm_layers m ! l))"
  by (simp add: layer_r_def layered_def)

lemma if_any_ok: "(c \<Longrightarrow> r = Inr x) \<Longrightarrow> if_any c r = Inr (if c then x else LARGENUM)"
  by (simp add: if_any_def)

text \<open>The resistances of a cell read from a mesh.\<close>

definition mesh_res :: "grid_model_t \<Rightarrow> mesh \<Rightarrow> nat \<Rightarrow> nat \<Rightarrow> nat \<Rightarrow> cell_res" where
  "mesh_res m M l i j = \<lparr>
     Rw = (if 0 < j then to_east M l i (j - 1) else LARGENUM), Re = (if j < gm_cols m - 1 then to_east M l i j else LARGENUM),
     Rn = (if 0 < i then to_south M l (i - 1) j else LARGENUM), Rs = (if i < gm_rows m - 1 then to_south M l i j else LARGENUM),
     Ra = (if 0 < l then to_below M (l - 1) i j else LARGENUM), Rb = (if l < gm_n_layers m - 1 then to_below M l i j else LARGENUM)\<rparr>"

lemma mesh_res_reads: "reads_mesh m M l i j (mesh_res m M l i j)"
  by (auto simp: reads_mesh_def mesh_res_def)

lemma find_res_ok:
  assumes "layered m" "l < gm_n_layers m"
  shows "i \<noteq> k \<Longrightarrow> find_res m l i j l k j = Inr (ly_rx (gm_layers m ! l))" "j \<noteq> k \<Longrightarrow> find_res m l i j l i k = Inr (ly_ry (gm_layers m ! l))"
    "0 < l \<Longrightarrow> find_res m (l - 1) i j l i j = Inr (ly_rz (gm_layers m ! (l - 1)))"
    "l + 1 < gm_n_layers m \<Longrightarrow> find_res m (l + 1) i j l i j = Inr (ly_rz (gm_layers m ! l))"
proof -
  have p: "detailed_3D_used (gm_config m) \<noteq> 1" using assms(1) by (simp add: layered_def)
  note r = layer_r_ok [OF assms(1)]
  show "i \<noteq> k \<Longrightarrow> find_res m l i j l k j = Inr (ly_rx (gm_layers m ! l))" "j \<noteq> k \<Longrightarrow> find_res m l i j l i k = Inr (ly_ry (gm_layers m ! l))"
    "0 < l \<Longrightarrow> find_res m (l - 1) i j l i j = Inr (ly_rz (gm_layers m ! (l - 1)))"
    "l + 1 < gm_n_layers m \<Longrightarrow> find_res m (l + 1) i j l i j = Inr (ly_rz (gm_layers m ! l))"
    using p assms(2) r [of l] r [of "l - 1"] by (simp_all add: find_res_def find_res_layer_def in_series_def)
qed

lemma transient_res_ok:
  assumes "layered m" "in_grid m l i j"
  shows "transient_resistances m l i j = Inr (mesh_res m (transient_mesh m) l i j)"
proof -
  have l: "l < gm_n_layers m" using assms(2) by (simp add: in_grid_def)
  note f = find_res_ok [OF assms(1) l]
  have "if_any (0 < j) (find_res m l i (j - 1) l i j) = Inr (Rw (mesh_res m (transient_mesh m) l i j))"
    "if_any (j < gm_cols m - 1) (find_res m l i (j + 1) l i j) = Inr (Re (mesh_res m (transient_mesh m) l i j))"
    "if_any (0 < i) (find_res m l (i - 1) j l i j) = Inr (Rn (mesh_res m (transient_mesh m) l i j))"
    "if_any (i < gm_rows m - 1) (find_res m l (i + 1) j l i j) = Inr (Rs (mesh_res m (transient_mesh m) l i j))"
    "if_any (0 < l) (find_res m (l - 1) i j l i j) = Inr (Ra (mesh_res m (transient_mesh m) l i j))"
    "if_any (l < gm_n_layers m - 1) (find_res m (l + 1) i j l i j) = Inr (Rb (mesh_res m (transient_mesh m) l i j))"
    unfolding mesh_res_def cell_res.simps transient_mesh_def mesh.simps
    by (rule if_any_ok; rule f; simp)+
  then show ?thesis unfolding transient_resistances_def Let_def by simp
qed

lemma steady_res_ok:
  assumes "layered m" "in_grid m l i j"
  shows "steady_resistances m l i j = Inr (mesh_res m (steady_mesh m) l i j)"
proof -
  have l: "l < gm_n_layers m" using assms(2) by (simp add: in_grid_def)
  have p: "(detailed_3D_used (gm_config m) = 1) = False" using assms(1) by (simp add: layered_def)
  note r = layer_r_ok [OF assms(1) l] layer_r_ok [OF assms(1) less_imp_diff_less [OF l]]
  have "if_any (0 < j) (layer_r ly_rx m l) = Inr (Rw (mesh_res m (steady_mesh m) l i j))"
    "if_any (j < gm_cols m - 1) (layer_r ly_rx m l) = Inr (Re (mesh_res m (steady_mesh m) l i j))"
    "if_any (0 < i) (layer_r ly_ry m l) = Inr (Rn (mesh_res m (steady_mesh m) l i j))"
    "if_any (i < gm_rows m - 1) (layer_r ly_ry m l) = Inr (Rs (mesh_res m (steady_mesh m) l i j))"
    "if_any (0 < l) (layer_r ly_rz m (l - 1)) = Inr (Ra (mesh_res m (steady_mesh m) l i j))"
    "if_any (l < gm_n_layers m - 1) (layer_r ly_rz m l) = Inr (Rb (mesh_res m (steady_mesh m) l i j))"
    unfolding mesh_res_def cell_res.simps steady_mesh_def mesh.simps by (rule if_any_ok; rule r)+
  then show ?thesis unfolding steady_resistances_def Let_def p if_False by simp
qed

lemma plain_wired:
  assumes "plain_R m" "\<And>l i j. in_grid m l i j \<Longrightarrow> res m l i j = Inr (mesh_res m M l i j)"
    and "\<And>l i j. in_grid m l i j \<Longrightarrow> 0 < to_east M l i j \<and> 0 < to_south M l i j \<and> 0 < to_below M l i j"
  shows "wired res m M"
  using assms mesh_res_reads by (auto simp: wired_def plain_R_def)

lemma transient_wired: "plain_R m \<Longrightarrow> wired transient_resistances m (transient_mesh m)"
  by (rule plain_wired [OF _ transient_res_ok [OF plain_layered]], assumption+) (auto simp: transient_mesh_def plain_R_def resistive_def in_grid_def)

lemma steady_wired: "plain_R m \<Longrightarrow> wired steady_resistances m (steady_mesh m)"
  by (rule plain_wired [OF _ steady_res_ok [OF plain_layered]], assumption+) (auto simp: steady_mesh_def plain_R_def resistive_def in_grid_def)

section \<open>The model of a chip\<close>

lemma readyD:
  assumes "grid_ready fs c fp w h m"
  shows "gm_config m = c" "gm_rows m = nat (grid_rows c)" "gm_cols m = nat (grid_cols c)" "gm_n_layers m = 4" "gm_r_ready m"
    "find_map_mode (grid_map_mode c) = Inr (gm_map_mode m)" "gm_total_n_blocks m = 4 * n_units (fs fp)"
    "gv_ok (gm_last_steady m) 4 (gm_rows m) (gm_cols m) EXTRA" "gv_ok (gm_last_trans m) 4 (gm_rows m) (gm_cols m) EXTRA"
    "l < 4 \<Longrightarrow> ly_flp (gm_layers m ! l) = fp" "plain_grid c \<Longrightarrow> extra_nodes (gm_config m) = EXTRA" "gm_map_mode m \<le> GRID_CENTER"
proof -
  note r = assms [unfolded grid_ready_def Let_def]
  show "gm_config m = c" "gm_rows m = nat (grid_rows c)" "gm_cols m = nat (grid_cols c)" "gm_n_layers m = 4" "gm_r_ready m"
    "find_map_mode (grid_map_mode c) = Inr (gm_map_mode m)" "gm_total_n_blocks m = 4 * n_units (fs fp)"
    "gv_ok (gm_last_steady m) 4 (gm_rows m) (gm_cols m) EXTRA" "gv_ok (gm_last_trans m) 4 (gm_rows m) (gm_cols m) EXTRA"
    "l < 4 \<Longrightarrow> ly_flp (gm_layers m ! l) = fp"
    using r by blast+
  then show "plain_grid c \<Longrightarrow> extra_nodes (gm_config m) = EXTRA" "gm_map_mode m \<le> GRID_CENTER"
    using find_map_mode_range plain_gridD(1) by (auto simp: extra_nodes_def)
qed

lemma ready_plain_R:
  assumes "grid_ready fs c fp w h m" "plain_grid c" "2 \<le> grid_rows c" "2 \<le> grid_cols c"
  shows "plain_R m"
proof -
  have "gm_config m = c" "gm_rows m = nat (grid_rows c)" "gm_cols m = nat (grid_cols c)" "gm_n_layers m = 4" "length (gm_layers m) = 4"
    "pack_R_ok (gm_pack m)" "\<forall>i < 4. resistive (gm_layers m ! i)"
    using assms(1) by (simp_all add: grid_ready_def Let_def)
  then show ?thesis using plain_gridD(1,2) [OF assms(2)] assms(3,4) by (simp add: plain_R_def stacked_def le_nat_iff)
qed

lemma ready_dim:
  assumes "grid_ready fs c fp w h m" "plain_grid c"
  shows "length (gv_data (gm_last_steady m)) = grid_dim m" "length (gv_data (gm_last_trans m)) = grid_dim m"
    "grid_dim m = grid_cells m + EXTRA"
  using assms(1) plain_gridD(1) [OF assms(2)]
  by (simp_all add: grid_ready_def gv_ok_def grid_dim_cells grid_cells_def extra_nodes_def)

text \<open>The power of all cells is the power of all blocks.\<close>

lemma sum_groups: "(\<Sum>l < q. \<Sum>j < k. g (j + l * k)) = (\<Sum>n < q * k. g n :: real)" for q k :: nat
proof -
  have block: "sum g {a..<a + k} = (\<Sum>j < k. g (j + a))" for g :: "nat \<Rightarrow> real" and a k
    using sum.shift_bounds_nat_ivl [of g 0 a k] by (simp add: add.commute atLeast0LessThan)
  show ?thesis unfolding sum.nat_group [symmetric] block ..
qed

lemma sum_cells:
  fixes f :: "nat \<Rightarrow> real"
  shows "(\<Sum>n < grid_cells m. f n) = (\<Sum>l < gm_n_layers m. \<Sum>i < gm_rows m. \<Sum>j < gm_cols m. f (cell_node m l i j))"
proof -
  let ?L = "gm_n_layers m" and ?r = "gm_rows m" and ?c = "gm_cols m"
  have "(\<Sum>n < grid_cells m. f n) = (\<Sum>n < ?L * (?r * ?c). f n)" by (simp add: grid_cells_def mult.assoc)
  also have "\<dots> = (\<Sum>l < ?L. \<Sum>i < ?r. \<Sum>j < ?c. f (j + i * ?c + l * (?r * ?c)))" unfolding sum_groups [symmetric] ..
  also have "\<dots> = (\<Sum>l < ?L. \<Sum>i < ?r. \<Sum>j < ?c. f (cell_node m l i j))" by (simp add: cell_node_def ac_simps)
  finally show ?thesis .
qed

lemma cell_of_node:
  assumes "n < grid_cells m"
  shows "\<exists>l i j. in_grid m l i j \<and> n = cell_node m l i j"
proof -
  let ?r = "gm_rows m" and ?c = "gm_cols m"
  have pos: "0 < ?r" "0 < ?c" using assms by (auto simp: grid_cells_def intro!: Nat.gr0I)
  let ?l = "n div (?r * ?c)" and ?k = "n mod (?r * ?c)"
  have "?l < gm_n_layers m" using assms by (simp add: grid_cells_def mult.assoc less_mult_imp_div_less)
  moreover have "?k < ?r * ?c" using pos by simp
  then have "?k div ?c < ?r" by (simp add: less_mult_imp_div_less)
  moreover have "n = cell_node m ?l (?k div ?c) (?k mod ?c)"
    using div_mult_mod_eq [of ?k ?c] div_mult_mod_eq [of n "?r * ?c"] by (simp add: cell_node_def mult.assoc)
  moreover have "?k mod ?c < ?c" using pos by simp
  ultimately show ?thesis unfolding in_grid_def by blast
qed

section \<open>Capacitances\<close>

definition storing :: "grid_model_t \<Rightarrow> bool" where
  "storing m \<longleftrightarrow> gm_c_ready m \<and> pack_C_ok (gm_pack m) \<and> (\<forall>l < gm_n_layers m. 0 < ly_c (gm_layers m ! l))"

text \<open>What the capacitances leave of a layer.\<close>

definition layer_same :: "layer_t \<Rightarrow> layer_t \<Rightarrow> bool" where
  "layer_same l k \<longleftrightarrow> layer_like l k \<and> ly_rx l = ly_rx k \<and> ly_ry l = ly_ry k \<and> ly_rz l = ly_rz k"

definition heated :: "layer_t \<Rightarrow> bool" where
  "heated l \<longleftrightarrow> 0 < ly_sp l \<and> 0 < ly_thickness l"

lemma layer_caps_ok:
  assumes "\<And>i. i < length (gm_layers m) \<Longrightarrow> heated (gm_layers m ! i)" "0 < a"
  shows "\<exists>ls. for_up 0 (length (gm_layers m)) (\<lambda>i. upd_layer i (\<lambda>l. l\<lparr>ly_c := getcap (ly_sp l) (ly_thickness l) a\<rparr>)) m = Inr (m\<lparr>gm_layers := ls\<rparr>) \<and>
    length ls = length (gm_layers m) \<and> (\<forall>i < length ls. layer_same (ls ! i) (gm_layers m ! i) \<and> 0 < ly_c (ls ! i))"
proof -
  let ?f = "\<lambda>l. l\<lparr>ly_c := getcap (ly_sp l) (ly_thickness l) a\<rparr>"
  let ?I = "\<lambda>k t. \<exists>ls. t = m\<lparr>gm_layers := ls\<rparr> \<and> length ls = length (gm_layers m) \<and>
    (\<forall>i < length ls. ls ! i = (if i < k then ?f (gm_layers m ! i) else gm_layers m ! i))"
  have "\<exists>t. for_up 0 (length (gm_layers m)) (\<lambda>i. upd_layer i ?f) m = Inr t \<and> ?I (length (gm_layers m)) t"
  proof (rule for_up_rule [where I = ?I])
    show "?I 0 m" by (intro exI [of _ "gm_layers m"]) simp
  next
    fix i t assume i: "i < length (gm_layers m)" and "?I i t"
    then obtain ls where ls: "t = m\<lparr>gm_layers := ls\<rparr>" "length ls = length (gm_layers m)"
      "\<forall>k < length ls. ls ! k = (if k < i then ?f (gm_layers m ! k) else gm_layers m ! k)" by blast
    have "upd_layer i ?f t = Inr (m\<lparr>gm_layers := ls[i := ?f (gm_layers m ! i)]\<rparr>)" using ls i by (simp add: upd_layer_def)
    moreover have "?I (Suc i) (m\<lparr>gm_layers := ls[i := ?f (gm_layers m ! i)]\<rparr>)"
      using ls(2,3) by (intro exI [of _ "ls[i := ?f (gm_layers m ! i)]"]) (auto simp: nth_list_update less_Suc_eq)
    ultimately show "\<exists>t'. upd_layer i ?f t = Inr t' \<and> ?I (Suc i) t'" by blast
  qed simp
  then obtain ls where ls: "for_up 0 (length (gm_layers m)) (\<lambda>i. upd_layer i ?f) m = Inr (m\<lparr>gm_layers := ls\<rparr>)"
    "length ls = length (gm_layers m)" "\<forall>i < length ls. ls ! i = ?f (gm_layers m ! i)" by auto
  moreover have "layer_same (ls ! i) (gm_layers m ! i) \<and> 0 < ly_c (ls ! i)" if "i < length ls" for i
    using ls(2,3) that assms(1) [of i] assms(2) by (simp add: layer_same_def layer_like_def heated_def)
  ultimately show ?thesis by blast
qed

lemma package_C_keeps_R:
  assumes "populate_package_C p c w h = Inr p'" "package_ok c w h" "pack_R_ok p"
  shows "pack_R_ok p'"
proof -
  have z: "s_sink c * s_sink c \<noteq> 0" "s_pcb c * s_pcb c \<noteq> 0" using assms(2) by (simp_all add: package_ok_def)
  have "keeps pack_R_ok (package_C_primary c w h)" "keeps pack_R_ok (package_C_secondary c w h)"
    unfolding package_C_primary_def package_C_secondary_def Let_def fdiv_ok [OF z(1)] fdiv_ok [OF z(2)] rbind_Inr
    by (rule keeps_in_order, simp only: list.pred_inject simp_thms,
      (intro conjI; (rule keeps_assign, rule refl, simp add: pack_R_ok_def)))+
  then show ?thesis using assms(1,3) unfolding populate_package_C_def keeps_def by fastforce
qed

lemma ready_heated:
  assumes "grid_ready fs c fp w h m" "layers_ok c" "heat_ok c" "i < 4"
  shows "heated (gm_layers m ! i)"
proof -
  have "layer_like (gm_layers m ! i) (default_stack c fp ! i)" using assms(1,4) by (simp add: grid_ready_def Let_def)
  moreover have "i = 0 \<or> i = 1 \<or> i = 2 \<or> i = 3" using assms(4) by auto
  ultimately show ?thesis
    using assms(2,3) by (auto simp: heated_def layer_like_def default_stack_def stack_layer_def layers_ok_def heat_ok_def)
qed

lemma populate_C_grid_ok:
  assumes "grid_ready fs c fp w h m" "plain_grid c" "fits c (fs fp) w h" "heat_ok c" "0 < nat (grid_rows c)" "0 < nat (grid_cols c)"
  shows "\<exists>m2. populate_C_model_grid fs m fp = Inr m2 \<and> grid_ready fs c fp w h m2 \<and> storing m2"
proof -
  note c = plain_gridD [OF assms(2)]
  have m: "gm_config m = c" "gm_rows m = nat (grid_rows c)" "gm_cols m = nat (grid_cols c)" "gm_width m = w" "gm_height m = h" "gm_n_layers m = 4"
    "length (gm_layers m) = 4" "gm_r_ready m" "\<not> gm_has_lcf m" "pack_R_ok (gm_pack m)" "find_map_mode (grid_map_mode c) = Inr (gm_map_mode m)"
    and l: "\<And>i. i < 4 \<Longrightarrow> ly_flp (gm_layers m ! i) = fp \<and> ly_has_power (gm_layers m ! i) = (i = 0) \<and> resistive (gm_layers m ! i) \<and> mapped fs m (gm_layers m ! i) \<and>
      layer_like (gm_layers m ! i) (default_stack c fp ! i)"
    using assms(1) by (simp_all add: grid_ready_def Let_def)
  have f: "package_ok c w h" "0 < w" "0 < h" "0 < s_sink c" using assms(3) by (auto simp: fits_def package_ok_def)
  obtain pack where pack: "populate_package_C (gm_pack m) c w h = Inr pack" "pack_C_ok pack"
    using populate_package_C_ok [OF f(1) assms(4)] by blast
  have R: "pack_R_ok pack" by (rule package_C_keeps_R [OF pack(1) f(1) m(10)])
  let ?cw = "w / real (nat (grid_cols c))" and ?ch = "h / real (nat (grid_rows c))"
  have a: "0 < ?cw * ?ch" using f(2,3) assms(5,6) by simp
  have d: "fdiv w (real (nat (grid_cols c))) = Inr ?cw" "fdiv h (real (nat (grid_rows c))) = Inr ?ch" using assms(5,6) by simp_all
  have "heated (gm_layers (m\<lparr>gm_pack := pack\<rparr>) ! i)" if "i < length (gm_layers (m\<lparr>gm_pack := pack\<rparr>))" for i
    using ready_heated [OF assms(1) _ assms(4)] assms(3) that m(7) by (simp add: fits_def)
  from layer_caps_ok [OF this a]
  obtain ls where ls: "for_up 0 4 (\<lambda>i. upd_layer i (\<lambda>l. l\<lparr>ly_c := getcap (ly_sp l) (ly_thickness l) (?cw * ?ch)\<rparr>)) (m\<lparr>gm_pack := pack\<rparr>) =
      Inr (m\<lparr>gm_pack := pack, gm_layers := ls\<rparr>)" "length ls = 4" "\<forall>i < 4. layer_same (ls ! i) (gm_layers m ! i) \<and> 0 < ly_c (ls ! i)"
    using m(7) by auto
  let ?x = "C_FACTOR * c_convec c * (?cw * ?ch) / (s_sink c * s_sink c)"
  let ?l = "(ls ! 3)\<lparr>ly_c := ly_c (ls ! 3) + ?x\<rparr>"
  let ?m = "m\<lparr>gm_pack := pack, gm_layers := ls[3 := ?l], gm_c_ready := True\<rparr>"
  have "0 \<le> C_FACTOR" "0 \<le> c_convec c" using assms(4) by (simp_all add: heat_ok_def C_FACTOR_def)
  then have x: "0 \<le> ?x" using f(2-4) by (intro divide_nonneg_nonneg mult_nonneg_nonneg) simp_all
  have "populate_C_model_grid fs m fp = Inr ?m"
  proof -
    have "rd (gm_layers m) LAYER_SI = Inr (gm_layers m ! 0)" "ly_flp (gm_layers m ! 0) = fp" using m(7) l [of 0] by (simp_all add: LAYER_SI_def)
    then show ?thesis
      unfolding populate_C_model_grid_def Let_def using m c d pack(1) ls(1,2) f(4) by (simp add: stack_defs upd_layer_def mult.assoc)
  qed
  moreover have "grid_ready fs c fp w h ?m \<and> storing ?m"
  proof -
    have k: "layer_same (ls[3 := ?l] ! i) (gm_layers m ! i) \<and> 0 < ly_c (ls[3 := ?l] ! i)" if "i < 4" for i
      using ls(2,3) that x by (cases "i = 3") (auto simp: layer_same_def layer_like_def intro: add_pos_nonneg)
    have "ly_flp (ls[3 := ?l] ! i) = fp \<and> ly_has_power (ls[3 := ?l] ! i) = (i = 0) \<and> resistive (ls[3 := ?l] ! i) \<and> mapped fs ?m (ls[3 := ?l] ! i) \<and>
        layer_like (ls[3 := ?l] ! i) (default_stack c fp ! i)"
      if i: "i < 4" for i
    proof -
      note e = k [OF i, unfolded layer_same_def layer_like_def]
      have "mapped fs ?m (ls[3 := ?l] ! i)" by (rule mapped_cong [of fs m "gm_layers m ! i"]) (use e l [OF i] in auto)
      then show ?thesis using e l [OF i] default_stack_layers(1,2) [OF i, of c fp] by (simp add: resistive_def layer_like_def)
    qed
    then show ?thesis using assms(1) m R pack(2) ls(2) k by (simp add: grid_ready_def storing_def Let_def)
  qed
  ultimately show ?thesis by blast
qed

section \<open>Power\<close>

lemma cell_power_mono:
  assumes "usable fs m" "n < gm_n_layers m" "i < gm_rows m"
    and "\<forall>u < n_units (fs (ly_flp (gm_layers m ! n))). b ! (block_base fs m n + u) \<le> b' ! (block_base fs m n + u)"
  shows "cell_power fs m b n i j \<le> cell_power fs m b' n i j"
proof -
  let ?flp = "fs (ly_flp (gm_layers m ! n))" and ?base = "block_base fs m n"
  let ?c = "\<lambda>v. cover (gm_rows m) (cell_width m) (cell_height m) (units ?flp ! v) i j"
  note u = usableD [OF assms(1,2)]
  have "?c v * density ?flp b ?base v \<le> ?c v * density ?flp b' ?base v" if v: "v < n_units ?flp" for v
  proof -
    note on = u(8) [OF v]
    have "0 \<le> ?c v"
      using cover_range(1) [OF on u(5,6) assms(3)] cover_outside [OF on u(5,6) assms(3)]
      by (cases "in_extent (extent (gm_rows m) (cell_width m) (cell_height m) (units ?flp ! v)) i j") (simp_all add: less_imp_le)
    moreover have "density ?flp b ?base v \<le> density ?flp b' ?base v"
      using on_grid_sizes [OF on u(5,6)] assms(4) v by (simp add: density_def divide_right_mono)
    ultimately show ?thesis by (intro mult_left_mono)
  qed
  then have "(\<Sum>v < n_units ?flp. ?c v * density ?flp b ?base v) \<le> (\<Sum>v < n_units ?flp. ?c v * density ?flp b' ?base v)"
    by (intro sum_mono) simp
  then show ?thesis unfolding cell_power_def Let_def using u(5,6) by (simp add: mult_right_mono)
qed

text \<open>The vector of the power of the cells, from the power of the blocks with that of the package set to zero.\<close>

definition powered :: "flp_store \<Rightarrow> grid_model_t \<Rightarrow> real list \<Rightarrow> grid_model_vector_t \<Rightarrow> bool" where
  "powered fs m pw p \<longleftrightarrow> gv_ok p (gm_n_layers m) (gm_rows m) (gm_cols m) (extra_nodes (gm_config m)) \<and>
     (\<forall>l i j. in_grid m l i j \<longrightarrow> gv_data p ! cell_node m l i j = cell_power fs m pw l i j)"

lemma ready_power:
  assumes "grid_ready fs c fp w h m" "plain_grid c" "grid_fits (nat (grid_rows c)) (nat (grid_cols c)) w h (fs fp)"
    and "length pw = 4 * n_units (fs fp) + EXTRA"
  shows "\<exists>pw' p. set_internal_power_grid m pw = Inr pw' \<and> xlate_vector_b2g fs m pw' (new_grid_model_vector m) V_POWER = Inr p \<and> powered fs m pw' p \<and>
    pw' = take (4 * n_units (fs fp)) pw @ replicate EXTRA 0"
proof -
  note us = ready_usable(1) [OF assms(1,3)] and base = ready_usable(2) [OF assms(1,3)]
  have m: "gm_n_layers m = 4" "gm_total_n_blocks m = 4 * n_units (fs fp)" "extra_nodes (gm_config m) = EXTRA"
    using assms(1) plain_gridD(1) [OF assms(2)] by (simp_all add: grid_ready_def extra_nodes_def)
  let ?pw = "take (4 * n_units (fs fp)) pw @ replicate EXTRA 0"
  have s: "set_internal_power_grid m pw = Inr ?pw" using assms(4) by (simp add: set_internal_power_grid_def zero_at_def m)
  have le: "block_base fs m (gm_n_layers m) + extra_nodes (gm_config m) \<le> length ?pw" using assms(4) base [of 4] by (simp add: m)
  obtain p where p: "xlate_vector_b2g fs m ?pw (new_grid_model_vector m) V_POWER = Inr p" "gv_ok p 4 (gm_rows m) (gm_cols m) EXTRA"
    "\<forall>n i j. n < 4 \<and> i < gm_rows m \<and> j < gm_cols m \<longrightarrow> gv_at p n i j = cell_power fs m ?pw n i j"
    using xlate_power_ok [OF us le _ new_grid_model_vector_ok, unfolded m] by auto
  have "powered fs m ?pw p"
    using p(2,3) gv_at_node [of p m EXTRA] by (simp add: powered_def m in_grid_def)
  then show ?thesis using s p(1) by blast
qed

lemma powered_total:
  assumes "grid_ready fs c fp w h m" "grid_fits (nat (grid_rows c)) (nat (grid_cols c)) w h (fs fp)" "powered fs m pw p"
  shows "(\<Sum>n < grid_cells m. gv_data p ! n) = (\<Sum>k < 4 * n_units (fs fp). pw ! k)"
proof -
  note us = ready_usable(1) [OF assms(1,2)] and base = ready_usable(2) [OF assms(1,2)]
  have n: "gm_n_layers m = 4" and fl: "\<And>l. l < 4 \<Longrightarrow> ly_flp (gm_layers m ! l) = fp" using assms(1) by (simp_all add: grid_ready_def Let_def)
  have "(\<Sum>n < grid_cells m. gv_data p ! n) = (\<Sum>l < gm_n_layers m. \<Sum>i < gm_rows m. \<Sum>j < gm_cols m. cell_power fs m pw l i j)"
    unfolding sum_cells using assms(3) by (intro sum.cong refl) (simp add: powered_def in_grid_def)
  also have "\<dots> = (\<Sum>l < 4. \<Sum>u < n_units (fs fp). pw ! (u + l * n_units (fs fp)))"
    unfolding n by (rule sum.cong [OF refl]) (use cell_power_sum [OF us] base fl n in \<open>simp add: add.commute\<close>)
  also have "\<dots> = (\<Sum>k < 4 * n_units (fs fp). pw ! k)" unfolding sum_groups ..
  finally show ?thesis .
qed

lemma powered_mono:
  assumes "grid_ready fs c fp w h m" "grid_fits (nat (grid_rows c)) (nat (grid_cols c)) w h (fs fp)" "powered fs m pw p" "powered fs m qw q"
    and "\<forall>k < 4 * n_units (fs fp). pw ! k \<le> qw ! k" "n < grid_cells m"
  shows "gv_data p ! n \<le> gv_data q ! n"
proof -
  note us = ready_usable(1) [OF assms(1,2)] and base = ready_usable(2) [OF assms(1,2)]
  have nl: "gm_n_layers m = 4" and fl: "\<And>l. l < 4 \<Longrightarrow> ly_flp (gm_layers m ! l) = fp" using readyD(4,10) [OF assms(1)] by blast+
  obtain l i j where g: "in_grid m l i j" "n = cell_node m l i j" using cell_of_node [OF assms(6)] by blast
  have l: "l < 4" "i < gm_rows m" using g(1) nl by (simp_all add: in_grid_def)
  have "block_base fs m l + u < 4 * n_units (fs fp)" if "u < n_units (fs fp)" for u
    using index_in_matrix [of l 4 u "n_units (fs fp)"] l(1) that base [of l] by (simp add: mult.commute)
  then have "\<forall>u < n_units (fs (ly_flp (gm_layers m ! l))). pw ! (block_base fs m l + u) \<le> qw ! (block_base fs m l + u)"
    using assms(5) fl [OF l(1)] by simp
  then have "cell_power fs m pw l i j \<le> cell_power fs m qw l i j" using cell_power_mono [OF us, of l i] l nl by simp
  then show ?thesis using assms(3,4) g by (simp add: powered_def)
qed

lemma powered_none:
  assumes "grid_ready fs c fp w h m" "grid_fits (nat (grid_rows c)) (nat (grid_cols c)) w h (fs fp)"
  shows "\<exists>p. powered fs m (replicate (4 * n_units (fs fp)) 0) p \<and> (\<forall>n < grid_cells m. gv_data p ! n = 0)"
proof -
  let ?z = "replicate (4 * n_units (fs fp)) 0" and ?p = "new_grid_model_vector m"
  note us = ready_usable(1) [OF assms] and base = ready_usable(2) [OF assms]
  have "cell_power fs m ?z l i j = 0" if "l < 4" for l i j
  proof -
    have fl: "ly_flp (gm_layers m ! l) = fp" by (rule readyD(10) [OF assms(1) that])
    have "block_base fs m l + u < 4 * n_units (fs fp)" if "u < n_units (fs fp)" for u
      using index_in_matrix [of l 4 u "n_units (fs fp)"] \<open>l < 4\<close> that base [of l] by (simp add: mult.commute)
    then show ?thesis by (simp add: cell_power_def density_def fl)
  qed
  moreover have "gv_ok ?p (gm_n_layers m) (gm_rows m) (gm_cols m) (extra_nodes (gm_config m))" by (rule new_grid_model_vector_ok)
  moreover from this have "gv_data ?p ! n = 0" if "n < grid_cells m" for n
    using that by (simp add: grid_cells_def new_grid_model_vector_def dvector_def Let_def)
  ultimately show ?thesis
    using cell_node_less readyD(4) [OF assms(1)] by (intro exI [of _ ?p]) (simp add: powered_def in_grid_def)
qed

lemma powered_nonneg:
  assumes "grid_ready fs c fp w h m" "grid_fits (nat (grid_rows c)) (nat (grid_cols c)) w h (fs fp)" "powered fs m pw p"
    and "\<forall>k < 4 * n_units (fs fp). 0 \<le> pw ! k" "n < grid_cells m"
  shows "0 \<le> gv_data p ! n"
proof -
  obtain z where z: "powered fs m (replicate (4 * n_units (fs fp)) 0) z" "gv_data z ! n = 0" using powered_none [OF assms(1,2)] assms(5) by blast
  show ?thesis using powered_mono [OF assms(1,2) z(1) assms(3) _ assms(5)] assms(4) z(2) by simp
qed

section \<open>Temperatures of blocks\<close>

lemma usable_temps:
  "usable fs (m\<lparr>gm_last_steady := v\<rparr>) = usable fs m" "usable fs (m\<lparr>gm_last_trans := v\<rparr>) = usable fs m"
  "block_base fs (m\<lparr>gm_last_steady := v\<rparr>) = block_base fs m" "block_base fs (m\<lparr>gm_last_trans := v\<rparr>) = block_base fs m"
  "value_of_block fs (m\<lparr>gm_last_steady := v\<rparr>) = value_of_block fs m" "value_of_block fs (m\<lparr>gm_last_trans := v\<rparr>) = value_of_block fs m"
  by (simp_all add: usable_def mapped_def cell_width_def cell_height_def Let_def block_base_def value_of_block_def fun_eq_iff)

lemma mapped_temps:
  "mapped fs (m\<lparr>gm_last_steady := v\<rparr>) = mapped fs m" "mapped fs (m\<lparr>gm_last_trans := v\<rparr>) = mapped fs m"
  by (simp_all add: mapped_def cell_width_def cell_height_def fun_eq_iff)

text \<open>Everything \<open>grid_ready\<close> says but for the vectors of temperatures is about other fields.\<close>

lemma ready_cong:
  assumes "grid_ready fs c fp w h m" "mapped fs m' = mapped fs m" "gv_ok (gm_last_steady m') 4 (gm_rows m) (gm_cols m) EXTRA"
    and "gv_ok (gm_last_trans m') 4 (gm_rows m) (gm_cols m) EXTRA"
    and "gm_config m' = gm_config m" "gm_rows m' = gm_rows m" "gm_cols m' = gm_cols m" "gm_width m' = gm_width m" "gm_height m' = gm_height m"
    and "gm_n_layers m' = gm_n_layers m" "gm_layers m' = gm_layers m" "gm_r_ready m' = gm_r_ready m" "gm_pack m' = gm_pack m"
    and "gm_map_mode m' = gm_map_mode m" "gm_total_n_blocks m' = gm_total_n_blocks m" "gm_has_lcf m' = gm_has_lcf m"
  shows "grid_ready fs c fp w h m'"
  using assms(1) assms(3,4) unfolding grid_ready_def Let_def assms(2) assms(5-) by blast

lemma ready_temps_update:
  assumes "grid_ready fs c fp w h m" "gv_ok v 4 (gm_rows m) (gm_cols m) EXTRA"
  shows "grid_ready fs c fp w h (m\<lparr>gm_last_steady := v\<rparr>)" "grid_ready fs c fp w h (m\<lparr>gm_last_trans := v\<rparr>)"
  by (rule ready_cong [OF assms(1)]; use mapped_temps readyD(8,9) [OF assms(1)] assms(2) in simp)+

text \<open>The temperature of a block of a chip, from those of the nodes.\<close>

definition chip_temp :: "flp_store \<Rightarrow> nat \<Rightarrow> grid_model_t \<Rightarrow> real list \<Rightarrow> nat \<Rightarrow> nat \<Rightarrow> real" where
  "chip_temp fs fp m t l u =
     block_value (gm_map_mode m) ((gm_last_steady m)\<lparr>gv_data := t\<rparr>) l (extent (gm_rows m) (cell_width m) (cell_height m) (units (fs fp) ! u))"

lemma block_value_data:
  assumes "gv_ok g nl nr nc xt" "gv_ok h nl nr nc xt" "gv_data g = gv_data h"
  shows "block_value mode g n gl = block_value mode h n gl"
proof -
  have "gv_at g n = gv_at h n" using assms by (simp add: gv_at_def gv_index_def gv_ok_def fun_eq_iff)
  then show ?thesis unfolding block_value_def temps_of_def by (simp only:)
qed

text \<open>The translation back to blocks.\<close>

lemma ready_temps:
  assumes "grid_ready fs c fp w h m" "plain_grid c" "grid_fits (nat (grid_rows c)) (nat (grid_cols c)) w h (fs fp)"
    and "gv_ok g 4 (gm_rows m) (gm_cols m) EXTRA" "length b = 4 * n_units (fs fp) + EXTRA"
  shows "\<exists>b'. xlate_temp_g2b fs m b g = Inr b' \<and> length b' = length b \<and>
    (\<forall>l < 4. \<forall>u < n_units (fs fp). b' ! (l * n_units (fs fp) + u) = chip_temp fs fp m (gv_data g) l u) \<and>
    (\<forall>k < EXTRA. b' ! (4 * n_units (fs fp) + k) = gv_data g ! (grid_cells m + k))"
proof -
  note us = ready_usable(1) [OF assms(1,3)] and base = ready_usable(2) [OF assms(1,3)]
  have m: "gm_n_layers m = 4" "extra_nodes (gm_config m) = EXTRA" "gm_map_mode m \<le> GRID_CENTER" "gv_ok (gm_last_steady m) 4 (gm_rows m) (gm_cols m) EXTRA"
    using readyD [OF assms(1)] assms(2) by blast+
  note fl = readyD(10) [OF assms(1)]
  have le: "block_base fs m (gm_n_layers m) + extra_nodes (gm_config m) \<le> length b" using base [of 4] assms(5) by (simp add: m)
  obtain b' where b': "xlate_temp_g2b fs m b g = Inr b'" "length b' = length b"
    "\<forall>n < 4. \<forall>u < n_units (fs (ly_flp (gm_layers m ! n))). b' ! (block_base fs m n + u) = value_of_block fs m g n u"
    "\<forall>k < EXTRA. b' ! (block_base fs m 4 + k) = gx_at g k"
    using xlate_temp_ok [OF us, of g b, unfolded m] assms(4) m(3) le [unfolded m] by blast
  have "gx_at g k = gv_data g ! (grid_cells m + k)" for k using assms(4) by (simp add: gx_at_def gv_extra_def gv_ok_def grid_cells_def m mult.commute mult.left_commute)
  moreover have "value_of_block fs m g l u = chip_temp fs fp m (gv_data g) l u" if "l < 4" for l u
  proof -
    have "gv_ok ((gm_last_steady m)\<lparr>gv_data := gv_data g\<rparr>) 4 (gm_rows m) (gm_cols m) EXTRA" using m(4) assms(4) by (simp add: gv_ok_def)
    from block_value_data [OF assms(4) this] show ?thesis by (simp add: value_of_block_def chip_temp_def fl [OF that])
  qed
  ultimately show ?thesis using b' base fl by (intro exI [of _ b']) simp
qed

text \<open>The value of a block follows those of its cells.\<close>

lemma sum_list_le: "\<forall>p \<in> set ps. f p \<le> g p \<Longrightarrow> sum_list (map f ps) \<le> (sum_list (map g ps) :: real)"
  by (induction ps) (auto intro: add_mono)

lemma block_value_mono:
  assumes "glist_ok rows cols gl" "\<And>i j. in_extent gl i j \<Longrightarrow> gv_at g n i j \<le> gv_at h n i j"
  shows "block_value mode g n gl \<le> block_value mode h n gl"
proof -
  let ?xs = "temps_of g n gl" and ?ys = "temps_of h n gl"
  have cells: "cells_of gl \<noteq> []" using assms(1) by (simp add: cells_of_def glist_ok_def flip: length_0_conv)
  have le: "\<forall>p \<in> set (cells_of gl). (\<lambda>(i, j). gv_at g n i j) p \<le> (\<lambda>(i, j). gv_at h n i j) p" using assms(2) by (auto simp: set_cells_of)
  have mean: "sum_list ?xs / real (length ?xs) \<le> sum_list ?ys / real (length ?ys)"
    unfolding temps_of_def length_map by (rule divide_right_mono [OF sum_list_le [OF le]]) simp
  have ends: "Min (set ?xs) \<le> Min (set ?ys)" "Max (set ?xs) \<le> Max (set ?ys)"
  proof -
    have "Min (set ?ys) \<in> set ?ys" "Max (set ?xs) \<in> set ?xs" using cells by (simp_all add: temps_of_def)
    then obtain p q where p: "p \<in> set (cells_of gl)" "Min (set ?ys) = (\<lambda>(i, j). gv_at h n i j) p"
      and q: "q \<in> set (cells_of gl)" "Max (set ?xs) = (\<lambda>(i, j). gv_at g n i j) q" by (auto simp: temps_of_def)
    have "Min (set ?xs) \<le> (\<lambda>(i, j). gv_at g n i j) p" using p(1) by (intro Min_le) (auto simp: temps_of_def)
    then show "Min (set ?xs) \<le> Min (set ?ys)" using le p by force
    have "(\<lambda>(i, j). gv_at h n i j) q \<le> Max (set ?ys)" using q(1) by (intro Max_ge) (auto simp: temps_of_def)
    then show "Max (set ?xs) \<le> Max (set ?ys)" using le q by force
  qed
  have centre: "(gv_at g n ci cj + gv_at g n di cj + gv_at g n ci dj + gv_at g n di dj) / 4 \<le>
      (gv_at h n ci cj + gv_at h n di cj + gv_at h n ci dj + gv_at h n di dj) / 4"
    if "ci = (gl_i1 gl + gl_i2 gl) div 2" "di = ci - (if even (gl_i2 gl - gl_i1 gl) then 1 else 0)"
      "cj = (gl_j1 gl + gl_j2 gl) div 2" "dj = cj - (if even (gl_j2 gl - gl_j1 gl) then 1 else 0)" for ci cj di dj
  proof -
    have "in_extent gl ci cj \<and> in_extent gl di cj \<and> in_extent gl ci dj \<and> in_extent gl di dj"
      using centre_inside [OF _ that(1,2)] centre_inside [OF _ that(3,4)] assms(1) unfolding in_extent_def glist_ok_def by blast
    then have "gv_at g n ci cj \<le> gv_at h n ci cj" "gv_at g n di cj \<le> gv_at h n di cj" "gv_at g n ci dj \<le> gv_at h n ci dj"
      "gv_at g n di dj \<le> gv_at h n di dj" using assms(2) by blast+
    then show ?thesis by simp
  qed
  consider "mode = GRID_AVG" | "mode \<noteq> GRID_AVG" "mode = GRID_MIN" | "mode \<noteq> GRID_AVG" "mode \<noteq> GRID_MIN" "mode = GRID_MAX"
    | "mode \<noteq> GRID_AVG" "mode \<noteq> GRID_MIN" "mode \<noteq> GRID_MAX" by blast
  then show ?thesis
  proof cases
    case 4
    then show ?thesis unfolding block_value_def Let_def using centre [OF refl refl refl refl] by (simp only: if_False)
  qed (use mean ends in \<open>simp_all add: block_value_def Let_def\<close>)
qed

lemma chip_temp_at:
  assumes "grid_ready fs c fp w h m" "grid_fits (nat (grid_rows c)) (nat (grid_cols c)) w h (fs fp)" "l < 4" "u < n_units (fs fp)"
  defines "e \<equiv> extent (gm_rows m) (cell_width m) (cell_height m) (units (fs fp) ! u)"
  shows "glist_ok (gm_rows m) (gm_cols m) e"
    "in_extent e i j \<Longrightarrow> in_grid m l i j \<and> gv_at ((gm_last_steady m)\<lparr>gv_data := t\<rparr>) l i j = t ! cell_node m l i j"
proof -
  note us = ready_usable(1) [OF assms(1,2)]
  have m: "gm_n_layers m = 4" "gv_ok (gm_last_steady m) 4 (gm_rows m) (gm_cols m) EXTRA" "ly_flp (gm_layers m ! l) = fp"
    using readyD [OF assms(1)] assms(3) by blast+
  have l: "l < gm_n_layers m" using assms(3) m(1) by simp
  show gl: "glist_ok (gm_rows m) (gm_cols m) e"
    using mapped_extent(2) [OF us l refl] assms(4) m(3) by (simp add: e_def)
  assume "in_extent e i j"
  then have "in_grid m l i j" using gl l by (auto simp: in_extent_def glist_ok_def in_grid_def)
  moreover have "gv_at ((gm_last_steady m)\<lparr>gv_data := t\<rparr>) l i j = t ! cell_node m l i j"
    using m(1,2) by (simp add: gv_at_def gv_index_def gv_ok_def dcuboid_row_def cell_node_def algebra_simps)
  ultimately show "in_grid m l i j \<and> gv_at ((gm_last_steady m)\<lparr>gv_data := t\<rparr>) l i j = t ! cell_node m l i j" ..
qed

lemma chip_temp_mono:
  assumes "grid_ready fs c fp w h m" "grid_fits (nat (grid_rows c)) (nat (grid_cols c)) w h (fs fp)" "l < 4" "u < n_units (fs fp)"
    and "\<And>n. n < grid_cells m \<Longrightarrow> t ! n \<le> t' ! n"
  shows "chip_temp fs fp m t l u \<le> chip_temp fs fp m t' l u"
  unfolding chip_temp_def
  by (rule block_value_mono [OF chip_temp_at(1) [OF assms(1-4)]])
    (use chip_temp_at(2) [OF assms(1-4)] assms(5) cell_node_less in fastforce)

text \<open>Bounds of the cells of a chip are bounds of its blocks.\<close>

lemma chip_temp_between:
  assumes "grid_ready fs c fp w h m" "grid_fits (nat (grid_rows c)) (nat (grid_cols c)) w h (fs fp)" "l < 4" "u < n_units (fs fp)"
    and "\<And>n. n < grid_cells m \<Longrightarrow> lo \<le> t ! n \<and> t ! n \<le> hi"
  shows "lo \<le> chip_temp fs fp m t l u \<and> chip_temp fs fp m t l u \<le> hi"
  unfolding chip_temp_def
  by (rule block_value_between [OF chip_temp_at(1) [OF assms(1-4)]])
    (use chip_temp_at(2) [OF assms(1-4)] assms(5) cell_node_less in fastforce)

section \<open>Steady state\<close>

lemma steady_grid_ok:
  assumes "grid_ready fs c fp w h m" "plain_grid c" "2 \<le> grid_rows c" "2 \<le> grid_cols c"
    and "grid_fits (nat (grid_rows c)) (nat (grid_cols c)) w h (fs fp)" "solves dgssv"
    and "length pw = 4 * n_units (fs fp) + EXTRA" "length temp = 4 * n_units (fs fp) + EXTRA"
  shows "\<exists>m' pw' temp' p t. steady_state_temp_grid dgssv fs m pw temp = Inr (m', pw', temp') \<and>
    pw' = take (4 * n_units (fs fp)) pw @ replicate EXTRA 0 \<and> powered fs m pw' p \<and> grid_balance m p t \<and>
    m' = m\<lparr>gm_last_steady := (gm_last_steady m)\<lparr>gv_data := t\<rparr>\<rparr> \<and> length temp' = length temp \<and>
    (\<forall>l < 4. \<forall>u < n_units (fs fp). temp' ! (l * n_units (fs fp) + u) = chip_temp fs fp m t l u) \<and>
    (\<forall>k < EXTRA. temp' ! (4 * n_units (fs fp) + k) = t ! (grid_cells m + k))"
proof -
  note w = transient_wired [OF ready_plain_R [OF assms(1-4)]] and dim = ready_dim [OF assms(1,2)]
  have m: "gm_r_ready m" "gv_ok (gm_last_steady m) 4 (gm_rows m) (gm_cols m) EXTRA" "gm_n_layers m = 4"
    using readyD [OF assms(1)] by blast+
  obtain pw' p where p: "set_internal_power_grid m pw = Inr pw'" "xlate_vector_b2g fs m pw' (new_grid_model_vector m) V_POWER = Inr p"
    "powered fs m pw' p" "pw' = take (4 * n_units (fs fp)) pw @ replicate EXTRA 0" using ready_power [OF assms(1,2,5,7)] by blast
  have "gv_ok p (gm_n_layers m) (gm_rows m) (gm_cols m) (extra_nodes (gm_config m))" using p(3) by (simp add: powered_def)
  then obtain t where t: "direct_SLU dgssv m p = Inr (m\<lparr>gm_last_steady := (gm_last_steady m)\<lparr>gv_data := t\<rparr>\<rparr>)" "grid_balance m p t"
    using direct_SLU_ok [OF w assms(6) _ dim(1)] by blast
  let ?v = "(gm_last_steady m)\<lparr>gv_data := t\<rparr>"
  have v: "gv_ok ?v 4 (gm_rows m) (gm_cols m) EXTRA" "gv_data ?v = t"
    using t(2) m(2,3) dim(3) by (simp_all add: grid_balance_def gv_ok_def grid_cells_def)
  have r: "grid_ready fs c fp w h (m\<lparr>gm_last_steady := ?v\<rparr>)"
    by (rule ready_temps_update(1) [OF assms(1) v(1)])
  have e: "chip_temp fs fp (m\<lparr>gm_last_steady := ?v\<rparr>) = chip_temp fs fp m" "grid_cells (m\<lparr>gm_last_steady := ?v\<rparr>) = grid_cells m"
    by (simp_all add: chip_temp_def fun_eq_iff cell_width_def cell_height_def grid_cells_def)
  obtain temp' where "xlate_temp_g2b fs (m\<lparr>gm_last_steady := ?v\<rparr>) temp ?v = Inr temp'" "length temp' = length temp"
    "\<forall>l < 4. \<forall>u < n_units (fs fp). temp' ! (l * n_units (fs fp) + u) = chip_temp fs fp m t l u"
    "\<forall>k < EXTRA. temp' ! (4 * n_units (fs fp) + k) = t ! (grid_cells m + k)"
    using ready_temps [OF r assms(2,5) _ assms(8), of ?v] v unfolding e by auto
  then show ?thesis
    using p t m(1) by (intro exI [of _ "m\<lparr>gm_last_steady := ?v\<rparr>"] exI [of _ pw'] exI [of _ temp'] exI [of _ p] exI [of _ t])
      (simp add: steady_state_temp_grid_def)
qed

section \<open>Transients\<close>

text \<open>Neither the matrix nor the vector of capacitances depends on the temperatures.\<close>

lemma cell_row_temps: "cell_row transient_resistances (m\<lparr>gm_last_steady := u, gm_last_trans := v\<rparr>) = cell_row transient_resistances m"
proof -
  let ?m = "m\<lparr>gm_last_steady := u, gm_last_trans := v\<rparr>"
  have flds: "gm_pack ?m = gm_pack m" "gm_config ?m = gm_config m" "gm_rows ?m = gm_rows m" "gm_cols ?m = gm_cols m" "gm_layers ?m = gm_layers m"
    "spidx ?m = spidx m" "hsidx ?m = hsidx m" "grid_cells ?m = grid_cells m" "edge_res ?m = edge_res m" "pcb_ambient ?m = pcb_ambient m"
    "cell_node ?m = cell_node m" "vertical_links ?m = vertical_links m" "transient_resistances ?m = transient_resistances m"
    by (simp_all add: fun_eq_iff spidx_def hsidx_def grid_cells_def edge_res_def pcb_ambient_def cell_node_def vertical_links_def
        transient_resistances_def find_res_def find_res_layer_def find_res_detailed_def find_res_3D_def layer_r_def Let_def)
  have border: "border_link ?m = border_link m" "cell_ambient ?m = cell_ambient m"
    by (intro ext; simp only: border_link_def cell_ambient_def flds)+
  have "cell_links ?m = cell_links m"
    by (intro ext) (simp only: cell_links_def top_left_def top_right_def bottom_left_def bottom_right_def top_row_def bottom_row_def
        left_column_def right_column_def central_cell_def flds border)
  then show ?thesis by (intro ext) (simp only: cell_row_def flds border)
qed

lemma matrix_all_temps:
  "matrix_rows transient_resistances (m\<lparr>gm_last_steady := u, gm_last_trans := v\<rparr>) = matrix_rows transient_resistances m"
  "grid_dim (m\<lparr>gm_last_steady := u, gm_last_trans := v\<rparr>) = grid_dim m" "grid_nnz (m\<lparr>gm_last_steady := u, gm_last_trans := v\<rparr>) = grid_nnz m"
  "grid_cells (m\<lparr>gm_last_steady := u, gm_last_trans := v\<rparr>) = grid_cells m" "ambient_g (m\<lparr>gm_last_steady := u, gm_last_trans := v\<rparr>) = ambient_g m"
proof -
  have "edge_cells (m\<lparr>gm_last_steady := u, gm_last_trans := v\<rparr>) = edge_cells m"
    by (simp add: fun_eq_iff edge_cells_def cell_node_def split: compass.split)
  then have "edge_links (m\<lparr>gm_last_steady := u, gm_last_trans := v\<rparr>) = edge_links m" by (simp add: fun_eq_iff edge_links_def edge_res_def)
  then have "sink_outer_row (m\<lparr>gm_last_steady := u, gm_last_trans := v\<rparr>) = sink_outer_row m" "sink_inner_row (m\<lparr>gm_last_steady := u, gm_last_trans := v\<rparr>) = sink_inner_row m"
    "spreader_row (m\<lparr>gm_last_steady := u, gm_last_trans := v\<rparr>) = spreader_row m" "pcb_outer_row (m\<lparr>gm_last_steady := u, gm_last_trans := v\<rparr>) = pcb_outer_row m"
    "pcb_inner_row (m\<lparr>gm_last_steady := u, gm_last_trans := v\<rparr>) = pcb_inner_row m" "solder_row (m\<lparr>gm_last_steady := u, gm_last_trans := v\<rparr>) = solder_row m"
    "substrate_row (m\<lparr>gm_last_steady := u, gm_last_trans := v\<rparr>) = substrate_row m"
    by (simp_all add: fun_eq_iff sink_outer_row_def sink_inner_row_def spreader_row_def pcb_outer_row_def pcb_inner_row_def solder_row_def
        substrate_row_def grid_cells_def hsidx_def spidx_def)
  then have "package_rows (m\<lparr>gm_last_steady := u, gm_last_trans := v\<rparr>) = package_rows m" by (simp add: package_rows_def hsidx_def spidx_def Let_def)
  moreover have "cell_row_at transient_resistances (m\<lparr>gm_last_steady := u, gm_last_trans := v\<rparr>) = cell_row_at transient_resistances m"
    by (simp add: fun_eq_iff cell_row_at_def cell_row_temps)
  then have "cell_rows transient_resistances (m\<lparr>gm_last_steady := u, gm_last_trans := v\<rparr>) = cell_rows transient_resistances m"
    by (simp add: cell_rows_def)
  ultimately show "matrix_rows transient_resistances (m\<lparr>gm_last_steady := u, gm_last_trans := v\<rparr>) = matrix_rows transient_resistances m"
    by (simp add: matrix_rows_def)
  show "grid_dim (m\<lparr>gm_last_steady := u, gm_last_trans := v\<rparr>) = grid_dim m" "grid_nnz (m\<lparr>gm_last_steady := u, gm_last_trans := v\<rparr>) = grid_nnz m"
    "grid_cells (m\<lparr>gm_last_steady := u, gm_last_trans := v\<rparr>) = grid_cells m" "ambient_g (m\<lparr>gm_last_steady := u, gm_last_trans := v\<rparr>) = ambient_g m"
    by (simp_all add: grid_dim_def grid_nnz_def grid_cells_def fun_eq_iff ambient_g_def ambient_list_def package_ambient_def hsidx_def pcb_res_def)
qed

lemma matrix_temps:
  "matrix_rows transient_resistances (m\<lparr>gm_last_trans := v\<rparr>) = matrix_rows transient_resistances m"
  "grid_dim (m\<lparr>gm_last_trans := v\<rparr>) = grid_dim m" "grid_nnz (m\<lparr>gm_last_trans := v\<rparr>) = grid_nnz m"
  "grid_cells (m\<lparr>gm_last_trans := v\<rparr>) = grid_cells m" "ambient_g (m\<lparr>gm_last_trans := v\<rparr>) = ambient_g m"
  using matrix_all_temps [where m = m and u = "gm_last_steady m" and v = v] by simp_all

lemma matrix_steady_temps:
  "matrix_rows transient_resistances (m\<lparr>gm_last_steady := u\<rparr>) = matrix_rows transient_resistances m"
  "grid_dim (m\<lparr>gm_last_steady := u\<rparr>) = grid_dim m" "grid_cells (m\<lparr>gm_last_steady := u\<rparr>) = grid_cells m"
  "ambient_g (m\<lparr>gm_last_steady := u\<rparr>) = ambient_g m"
  using matrix_all_temps [where m = m and u = u and v = "gm_last_trans m"] by simp_all

text \<open>The capacitance of a node.\<close>

definition chip_cap :: "grid_model_t \<Rightarrow> nat \<Rightarrow> real" where
  "chip_cap m = node_cap (\<lambda>n. ly_c (gm_layers m ! (n div (gm_rows m * gm_cols m)))) m"

lemma chip_capacitances:
  assumes "plain_R m"
  shows "\<exists>v. build_diagonal_matrix m = Inr \<lparr>dm_n = grid_dim m, dm_vals = v\<rparr> \<and> length v = grid_dim m \<and> (\<forall>n < grid_dim m. v ! n = chip_cap m n)"
proof -
  have p: "layered m" "detailed_3D_used (gm_config m) \<noteq> 1" using assms plain_layered by (auto simp: plain_R_def)
  have "cell_capacitance m l i j = Inr (ly_c (gm_layers m ! (cell_node m l i j div (gm_rows m * gm_cols m))))" if g: "in_grid m l i j" for l i j
    using layer_r_ok [OF p(1), of l ly_c] p(2) g by (simp add: cell_capacitance_def cell_node_layer [OF g] in_grid_def)
  from diagonal_matrix_ok [of m "\<lambda>n. ly_c (gm_layers m ! (n div (gm_rows m * gm_cols m)))", OF this] show ?thesis by (simp add: chip_cap_def)
qed

lemma chip_cap_nonneg:
  assumes "storing m"
  shows "0 \<le> chip_cap m n"
proof -
  have "0 \<le> package_cap m k" for k
    using assms by (simp add: package_cap_def storing_def pack_C_ok_def Let_def)
  moreover have "0 < ly_c (gm_layers m ! (n div (gm_rows m * gm_cols m)))" if "n < grid_cells m"
    using assms that by (simp add: storing_def grid_cells_def mult.assoc less_mult_imp_div_less)
  ultimately show ?thesis by (simp add: chip_cap_def node_cap_def less_imp_le)
qed

text \<open>
  What holds between the calls: the model is ready, and once the first call has run the matrix
  and the capacitances are those of the model.
\<close>

definition transient_inv :: "flp_store \<Rightarrow> thermal_config_t \<Rightarrow> nat \<Rightarrow> real \<Rightarrow> real \<Rightarrow> transient_state \<Rightarrow> bool" where
  "transient_inv fs c fp w h s \<longleftrightarrow> grid_ready fs c fp w h (ts_model s) \<and> storing (ts_model s) \<and>
     (\<not> ts_first_call s \<longrightarrow> (\<exists>G C. ts_G s = Some G \<and> ts_C s = Some C \<and> grid_matrix transient_resistances (ts_model s) G \<and>
       dm_n C = grid_dim (ts_model s) \<and> length (dm_vals C) = grid_dim (ts_model s) \<and>
       (\<forall>n < grid_dim (ts_model s). dm_vals C ! n = chip_cap (ts_model s) n)))"

text \<open>The temperatures a call starts from: those given for the blocks, or those of the last call.\<close>

definition started :: "flp_store \<Rightarrow> transient_state \<Rightarrow> real list option \<Rightarrow> real list \<Rightarrow> bool" where
  "started fs s temp T \<longleftrightarrow> (let m = ts_model s in length T = grid_dim m \<and>
     (case temp of None \<Rightarrow> T = gv_data (gm_last_trans m)
      | Some b \<Rightarrow> (\<forall>l i j. in_grid m l i j \<longrightarrow> T ! cell_node m l i j = cell_value fs m b V_TEMP l i j) \<and>
          (\<forall>k < EXTRA. T ! (grid_cells m + k) = b ! (block_base fs m (gm_n_layers m) + k))))"

lemma start_ok:
  assumes "grid_ready fs c fp w h (ts_model s)" "plain_grid c" "grid_fits (nat (grid_rows c)) (nat (grid_cols c)) w h (fs fp)"
    and "case temp of None \<Rightarrow> length (ts_last_temp s) = 4 * n_units (fs fp) + EXTRA | Some b \<Rightarrow> length b = 4 * n_units (fs fp) + EXTRA"
  shows "\<exists>v b. (case temp of None \<Rightarrow> Inr s
       | Some t \<Rightarrow> rbind (xlate_vector_b2g fs (ts_model s) t (gm_last_trans (ts_model s)) V_TEMP) (\<lambda>v.
           Inr (s\<lparr>ts_model := (ts_model s)\<lparr>gm_last_trans := v\<rparr>, ts_last_temp := t\<rparr>))) =
     Inr (s\<lparr>ts_model := (ts_model s)\<lparr>gm_last_trans := v\<rparr>, ts_last_temp := b\<rparr>) \<and>
     gv_ok v 4 (gm_rows (ts_model s)) (gm_cols (ts_model s)) EXTRA \<and> started fs s temp (gv_data v) \<and> length b = 4 * n_units (fs fp) + EXTRA"
proof -
  let ?m = "ts_model s"
  note r = readyD [OF assms(1)] and us = ready_usable(1) [OF assms(1,3)] and base = ready_usable(2) [OF assms(1,3)]
  have x: "extra_nodes (gm_config ?m) = EXTRA" by (rule r(11) [OF assms(2)])
  have dim: "length (gv_data v) = grid_dim ?m" if "gv_ok v 4 (gm_rows ?m) (gm_cols ?m) EXTRA" for v
    using that r(4) ready_dim(3) [OF assms(1,2)] by (simp add: gv_ok_def grid_cells_def)
  show ?thesis
  proof (cases temp)
    case None
    then show ?thesis
      using r(9) dim [OF r(9)] assms(4) by (intro exI [of _ "gm_last_trans ?m"] exI [of _ "ts_last_temp s"]) (simp add: started_def Let_def)
  next
    case (Some b)
    have le: "block_base fs ?m (gm_n_layers ?m) + extra_nodes (gm_config ?m) \<le> length b" using base [of 4] assms(4) Some by (simp add: r(4) x)
    obtain v where v: "xlate_vector_b2g fs ?m b (gm_last_trans ?m) V_TEMP = Inr v" "gv_ok v 4 (gm_rows ?m) (gm_cols ?m) EXTRA"
      "\<forall>n i j. n < 4 \<and> i < gm_rows ?m \<and> j < gm_cols ?m \<longrightarrow> gv_at v n i j = cell_value fs ?m b V_TEMP n i j"
      "\<forall>k < EXTRA. gx_at v k = b ! (block_base fs ?m 4 + k)"
      using xlate_vector_ok [OF disjI2 [OF refl] us le _ , of "gm_last_trans ?m", unfolded r(4) x] r(9) by auto
    have "gx_at v k = gv_data v ! (grid_cells ?m + k)" for k
      using v(2) by (simp add: gx_at_def gv_extra_def gv_ok_def grid_cells_def r(4) mult.commute mult.left_commute)
    moreover have "gv_at v l i j = gv_data v ! cell_node ?m l i j" for l i j
      using gv_at_node [of v ?m EXTRA] v(2) by (simp add: r(4))
    ultimately have "started fs s temp (gv_data v)"
      using v(3,4) dim [OF v(2)] Some by (simp add: started_def Let_def in_grid_def r(4))
    then show ?thesis using v(1,2) assms(4) Some by (intro exI [of _ v] exI [of _ b]) simp
  qed
qed

lemma inv_temps:
  assumes "transient_inv fs c fp w h s" "gv_ok v 4 (gm_rows (ts_model s)) (gm_cols (ts_model s)) EXTRA"
  shows "transient_inv fs c fp w h (s\<lparr>ts_model := (ts_model s)\<lparr>gm_last_trans := v\<rparr>, ts_last_temp := b\<rparr>)"
proof -
  let ?m = "ts_model s"
  have "grid_ready fs c fp w h (?m\<lparr>gm_last_trans := v\<rparr>)"
    using ready_temps_update(2) [of fs c fp w h ?m v] assms by (simp add: transient_inv_def)
  moreover have "chip_cap (?m\<lparr>gm_last_trans := v\<rparr>) = chip_cap ?m"
    by (simp add: chip_cap_def node_cap_def package_cap_def fun_eq_iff matrix_temps)
  moreover have "storing (?m\<lparr>gm_last_trans := v\<rparr>) = storing ?m" by (simp add: storing_def)
  ultimately show ?thesis
    using assms(1) by (simp add: transient_inv_def grid_matrix_def matrix_temps)
qed

text \<open>The first call builds the matrix and the capacitances; after it they are at hand.\<close>

lemma prepared:
  assumes "transient_inv fs c fp w h s" "plain_grid c" "2 \<le> grid_rows c" "2 \<le> grid_cols c"
  shows "\<exists>s'. (if ts_first_call s then
         rbind (build_transient_grid_matrix (ts_model s)) (\<lambda>G. rbind (build_diagonal_matrix (ts_model s)) (\<lambda>C.
         Inr (s\<lparr>ts_first_call := False, ts_G := Some G, ts_C := Some C\<rparr>)))
       else Inr s) = Inr s' \<and> transient_inv fs c fp w h s' \<and> \<not> ts_first_call s' \<and> ts_model s' = ts_model s \<and> ts_last_temp s' = ts_last_temp s"
proof (cases "ts_first_call s")
  case True
  have r: "grid_ready fs c fp w h (ts_model s)" using assms(1) by (simp add: transient_inv_def)
  note p = ready_plain_R [OF r assms(2-4)]
  obtain A where A: "build_transient_grid_matrix (ts_model s) = Inr A" "grid_matrix transient_resistances (ts_model s) A"
    using transient_matrix_ok [OF transient_wired [OF p]] by blast
  obtain v where v: "build_diagonal_matrix (ts_model s) = Inr \<lparr>dm_n = grid_dim (ts_model s), dm_vals = v\<rparr>" "length v = grid_dim (ts_model s)"
    "\<forall>n < grid_dim (ts_model s). v ! n = chip_cap (ts_model s) n" using chip_capacitances [OF p] by blast
  then show ?thesis using A True assms(1) by (simp add: transient_inv_def)
next
  case False
  then show ?thesis using assms(1) by (intro exI [of _ s]) simp
qed

lemma compute_temp_grid_ok:
  assumes "transient_inv fs c fp w h s" "plain_grid c" "2 \<le> grid_rows c" "2 \<le> grid_cols c"
    and "grid_fits (nat (grid_rows c)) (nat (grid_cols c)) w h (fs fp)" "solves dgssv" "0 < dt" "length pw = 4 * n_units (fs fp) + EXTRA"
    and "case temp of None \<Rightarrow> length (ts_last_temp s) = 4 * n_units (fs fp) + EXTRA | Some b \<Rightarrow> length b = 4 * n_units (fs fp) + EXTRA"
  shows "\<exists>s' pw' p T U. compute_temp_grid dgssv fs s pw temp dt = Inr (s', pw') \<and> transient_inv fs c fp w h s' \<and> \<not> ts_first_call s' \<and>
    pw' = take (4 * n_units (fs fp)) pw @ replicate EXTRA 0 \<and> powered fs (ts_model s) pw' p \<and> started fs s temp T \<and>
    euler_step transient_resistances (ts_model s) (chip_cap (ts_model s)) (node_power (ts_model s) p) dt T U \<and>
    ts_model s' = (ts_model s)\<lparr>gm_last_trans := gm_last_trans (ts_model s')\<rparr> \<and>
    gv_data (gm_last_trans (ts_model s')) = U \<and> length (ts_last_temp s') = 4 * n_units (fs fp) + EXTRA \<and>
    (\<forall>l < 4. \<forall>u < n_units (fs fp). ts_last_temp s' ! (l * n_units (fs fp) + u) = chip_temp fs fp (ts_model s) U l u) \<and>
    (\<forall>k < EXTRA. ts_last_temp s' ! (4 * n_units (fs fp) + k) = U ! (grid_cells (ts_model s) + k))"
proof -
  let ?m = "ts_model s"
  have r: "grid_ready fs c fp w h ?m" "gm_r_ready ?m" "gm_c_ready ?m" "storing ?m"
    using assms(1) readyD(5) by (auto simp: transient_inv_def storing_def)
  note rd = readyD [OF r(1)]
  have wired: "wired transient_resistances ?m (transient_mesh ?m)" by (rule transient_wired [OF ready_plain_R [OF r(1) assms(2-4)]])
  have x: "extra_nodes (gm_config ?m) = EXTRA" by (rule rd(11) [OF assms(2)])
  obtain pw' p where p: "set_internal_power_grid ?m pw = Inr pw'" "xlate_vector_b2g fs ?m pw' (new_grid_model_vector ?m) V_POWER = Inr p"
    "powered fs ?m pw' p" "pw' = take (4 * n_units (fs fp)) pw @ replicate EXTRA 0" using ready_power [OF r(1) assms(2,5,8)] by blast
  obtain v b where v: "(case temp of None \<Rightarrow> Inr s
       | Some t \<Rightarrow> rbind (xlate_vector_b2g fs ?m t (gm_last_trans ?m) V_TEMP) (\<lambda>v.
           Inr (s\<lparr>ts_model := ?m\<lparr>gm_last_trans := v\<rparr>, ts_last_temp := t\<rparr>))) =
     Inr (s\<lparr>ts_model := ?m\<lparr>gm_last_trans := v\<rparr>, ts_last_temp := b\<rparr>)" "gv_ok v 4 (gm_rows ?m) (gm_cols ?m) EXTRA"
    "started fs s temp (gv_data v)" "length b = 4 * n_units (fs fp) + EXTRA"
    using start_ok [OF r(1) assms(2,5,9)] by blast
  let ?s1 = "s\<lparr>ts_model := ?m\<lparr>gm_last_trans := v\<rparr>, ts_last_temp := b\<rparr>"
  let ?m1 = "?m\<lparr>gm_last_trans := v\<rparr>"
  have inv1: "transient_inv fs c fp w h ?s1" by (rule inv_temps [OF assms(1) v(2)])
  obtain s2 where s2: "(if ts_first_call ?s1 then
         rbind (build_transient_grid_matrix (ts_model ?s1)) (\<lambda>G. rbind (build_diagonal_matrix (ts_model ?s1)) (\<lambda>C.
         Inr (?s1\<lparr>ts_first_call := False, ts_G := Some G, ts_C := Some C\<rparr>)))
       else Inr ?s1) = Inr s2" "transient_inv fs c fp w h s2" "\<not> ts_first_call s2" "ts_model s2 = ?m1" "ts_last_temp s2 = b"
    using prepared [OF inv1 assms(2-4)] by auto
  obtain G C where GC: "ts_G s2 = Some G" "ts_C s2 = Some C" "grid_matrix transient_resistances ?m G" "dm_n C = grid_dim ?m"
    "length (dm_vals C) = grid_dim ?m" "\<forall>n < grid_dim ?m. dm_vals C ! n = chip_cap ?m n"
  proof -
    have "chip_cap ?m1 = chip_cap ?m" by (simp add: chip_cap_def node_cap_def package_cap_def fun_eq_iff matrix_temps)
    then show ?thesis using s2(2-4) that by (auto simp: transient_inv_def grid_matrix_def matrix_temps)
  qed
  have gp: "gv_ok p (gm_n_layers ?m) (gm_rows ?m) (gm_cols ?m) (extra_nodes (gm_config ?m))" using p(3) by (simp add: powered_def)
  have wired1: "wired transient_resistances ?m1 (transient_mesh ?m1)"
    by (rule transient_wired [OF ready_plain_R [OF _ assms(2-4)]]) (rule ready_temps_update(2) [OF r(1) v(2)])
  obtain P where P: "build_transient_power_vector ?m1 p = Inr P" "length P = grid_dim ?m" "\<forall>n < grid_dim ?m. P ! n = node_power ?m p n"
    using power_vector_ok [OF wired1, of p] gp by (auto simp: matrix_temps node_power_def)
  have T: "length (gv_data v) = grid_dim ?m" using v(3) by (simp add: started_def Let_def)
  have cap: "\<forall>n < grid_dim ?m. 0 \<le> dm_vals C ! n" using GC(6) chip_cap_nonneg [OF r(4)] by simp
  obtain U where U: "backward_euler dgssv G C (gv_data v) P dt (gv_data v) = Inr (dt, U)"
    "euler_step transient_resistances ?m ((!) (dm_vals C)) ((!) P) dt (gv_data v) U"
    using backward_euler_ok [OF wired GC(3) assms(6,7) GC(4,5) cap T P(2) T] by blast
  have U': "euler_step transient_resistances ?m (chip_cap ?m) (node_power ?m p) dt (gv_data v) U"
    using U(2) euler_cong [of ?m "(!) P" "node_power ?m p" "(!) (dm_vals C)" "chip_cap ?m"] P(3) GC(6) by blast
  let ?v = "v\<lparr>gv_data := U\<rparr>"
  let ?m2 = "?m\<lparr>gm_last_trans := ?v\<rparr>"
  have gv: "gv_ok ?v 4 (gm_rows ?m) (gm_cols ?m) EXTRA"
    using v(2) U' T ready_dim(3) [OF r(1) assms(2)] by (simp add: gv_ok_def euler_step_def grid_cells_def rd(4))
  have r2: "grid_ready fs c fp w h ?m2" by (rule ready_temps_update(2) [OF r(1) gv])
  have e: "chip_temp fs fp ?m2 = chip_temp fs fp ?m" "grid_cells ?m2 = grid_cells ?m"
    by (simp_all add: chip_temp_def fun_eq_iff cell_width_def cell_height_def grid_cells_def)
  obtain b' where b': "xlate_temp_g2b fs ?m2 b ?v = Inr b'" "length b' = length b"
    "\<forall>l < 4. \<forall>u < n_units (fs fp). b' ! (l * n_units (fs fp) + u) = chip_temp fs fp ?m U l u"
    "\<forall>k < EXTRA. b' ! (4 * n_units (fs fp) + k) = U ! (grid_cells ?m + k)"
    using ready_temps [OF r2 assms(2,5) _ v(4), of ?v] gv unfolding e by auto
  let ?s' = "s2\<lparr>ts_model := ?m2, ts_last_temp := b'\<rparr>"
  have run: "compute_temp_grid dgssv fs s pw temp dt = Inr (?s', pw')"
    using r(2,3) p(1,2) v(1) s2(1,4,5) P(1) GC(1,2) U(1) b'(1) by (simp add: compute_temp_grid_def Let_def not_null_def)
  have "transient_inv fs c fp w h ?s'" using inv_temps [OF s2(2), of ?v b'] gv s2(4) by simp
  then show ?thesis
    using run s2(3) p(3,4) v(3,4) U' b'
    by (intro exI [of _ ?s'] exI [of _ pw'] exI [of _ p] exI [of _ "gv_data v"] exI [of _ U]) simp
qed

end
