(* ===== verification/Elimination.thy ===== *)
theory Elimination
  imports Grid_Solve_Ok
begin

text \<open>
  Elimination by rows: a reference for what the model relies on SuperLU for, the solution of a
  regular system given in compressed columns. It is no part of the program; the properties of the
  grid are applied to it at concrete chips.
\<close>

section \<open>Linear systems\<close>

definition pivot_row :: "nat \<Rightarrow> (nat \<Rightarrow> nat \<Rightarrow> real) \<Rightarrow> nat" where
  "pivot_row n A = (case List.find (\<lambda>i. A i n \<noteq> 0) [0..<Suc n] of None \<Rightarrow> n | Some p \<Rightarrow> p)"

definition exchanged :: "nat \<Rightarrow> nat \<Rightarrow> nat \<Rightarrow> nat" where
  "exchanged p n i = (if i = p then n else if i = n then p else i)"

fun eliminate :: "nat \<Rightarrow> (nat \<Rightarrow> nat \<Rightarrow> real) \<Rightarrow> (nat \<Rightarrow> real) \<Rightarrow> nat \<Rightarrow> real" where
  "eliminate 0 A b = (\<lambda>_. 0)"
| "eliminate (Suc n) A b =
    (let s = exchanged (pivot_row n A) n; d = A (s n) n;
         x = eliminate n (\<lambda>i j. A (s i) j - A (s i) n / d * A (s n) j) (\<lambda>i. b (s i) - A (s i) n / d * b (s n)) in
     x(n := (b (s n) - (\<Sum>j < n. A (s n) j * x j)) / d))"

lemma pivot_row_ok:
  assumes "nonsingular (Suc n) A"
  shows "pivot_row n A < Suc n" "A (pivot_row n A) n \<noteq> 0"
proof -
  have "\<exists>i < Suc n. A i n \<noteq> 0"
  proof (rule ccontr)
    assume "\<not> (\<exists>i < Suc n. A i n \<noteq> 0)"
    then have "\<forall>i < Suc n. (\<Sum>j < Suc n. A i j * (if j = n then 1 else 0)) = 0" by simp
    with assms have "\<forall>j < Suc n. (if j = n then 1 else 0 :: real) = 0"
      unfolding nonsingular_def by (elim allE [of _ "\<lambda>j. if j = n then 1 else 0"]) blast
    then show False by (auto dest: spec [of _ n])
  qed
  then obtain p where "List.find (\<lambda>i. A i n \<noteq> 0) [0..<Suc n] = Some p"
    by (cases "List.find (\<lambda>i. A i n \<noteq> 0) [0..<Suc n]") (auto simp: find_None_iff simp del: upt_Suc)
  moreover from this have "p \<in> set [0..<Suc n] \<and> A p n \<noteq> 0" unfolding find_Some_iff by (metis nth_mem)
  ultimately show "pivot_row n A < Suc n" "A (pivot_row n A) n \<noteq> 0" by (simp_all add: pivot_row_def del: upt_Suc)
qed

lemma exchanged_all:
  assumes "p < Suc n"
  shows "(\<forall>i < Suc n. P (exchanged p n i)) \<longleftrightarrow> (\<forall>i < Suc n. P i)"
proof -
  have e: "exchanged p n i < Suc n" "exchanged p n (exchanged p n i) = i" if "i < Suc n" for i
    using that assms by (simp_all add: exchanged_def)
  show ?thesis
  proof (intro iffI allI impI)
    fix i assume "\<forall>i < Suc n. P (exchanged p n i)" and i: "i < Suc n"
    then have "P (exchanged p n (exchanged p n i))" using e(1) [OF i] by blast
    then show "P i" unfolding e(2) [OF i] .
  qed (use e(1) in blast)
qed

text \<open>A system with a pivot in its last row and the system of the other rows.\<close>

lemma reduced_row:
  fixes A :: "nat \<Rightarrow> nat \<Rightarrow> real"
  assumes "d = A q n" "d \<noteq> 0" "x n = (c - (\<Sum>j < n. A q j * x j)) / d"
  shows "(\<Sum>j < Suc n. A q j * x j) = c"
    "(\<Sum>j < Suc n. A r j * x j) = (\<Sum>j < n. (A r j - A r n / d * A q j) * x j) + A r n / d * c"
proof -
  define R Q where "R = (\<Sum>j < n. A r j * x j)" and "Q = (\<Sum>j < n. A q j * x j)"
  have x: "x n = (c - Q) / d" using assms(3) by (simp add: Q_def)
  show "(\<Sum>j < Suc n. A q j * x j) = c" using assms(1,2) x by (simp add: Q_def)
  have "(\<Sum>j < n. (A r j - A r n / d * A q j) * x j) = R - A r n / d * Q"
    by (simp add: R_def Q_def left_diff_distrib sum_subtractf sum_distrib_left mult.assoc)
  moreover have "(\<Sum>j < Suc n. A r j * x j) = R + A r n * x n" by (simp add: R_def)
  moreover have "R + A r n * x n = R - A r n / d * Q + A r n / d * c" unfolding x using assms(2) by (simp add: field_simps)
  ultimately show "(\<Sum>j < Suc n. A r j * x j) = (\<Sum>j < n. (A r j - A r n / d * A q j) * x j) + A r n / d * c" by (simp only:)
qed

lemma reduced_nonsingular:
  assumes "nonsingular (Suc n) A" "p < Suc n" "d = A (exchanged p n n) n" "d \<noteq> 0"
  shows "nonsingular n (\<lambda>i j. A (exchanged p n i) j - A (exchanged p n i) n / d * A (exchanged p n n) j)"
  unfolding nonsingular_def
proof (intro allI impI)
  let ?s = "exchanged p n"
  fix z j assume z: "\<forall>i < n. (\<Sum>j < n. (A (?s i) j - A (?s i) n / d * A (?s n) j) * z j) = 0" and j: "j < n"
  define x where "x = z(n := (0 - (\<Sum>j < n. A (?s n) j * z j)) / d)"
  have xz: "(\<Sum>j < n. f j * x j) = (\<Sum>j < n. f j * z j)" for f by (intro sum.cong) (simp_all add: x_def)
  have xn: "x n = (0 - (\<Sum>j < n. A (?s n) j * x j)) / d" unfolding xz by (simp add: x_def)
  have "(\<Sum>j < Suc n. A (?s i) j * x j) = 0" if "i < Suc n" for i
  proof (cases "i = n")
    case True
    then show ?thesis using reduced_row(1) [of d A "?s n" n x 0, OF assms(3,4) xn] by simp
  next
    case False
    then show ?thesis using reduced_row(2) [of d A "?s n" n x 0 "?s i", OF assms(3,4) xn] z that unfolding xz by simp
  qed
  then have "\<forall>i < Suc n. (\<Sum>j < Suc n. A i j * x j) = 0"
    using exchanged_all [OF assms(2), of "\<lambda>i. (\<Sum>j < Suc n. A i j * x j) = 0"] by blast
  then have "x j = 0" using assms(1) j unfolding nonsingular_def by (metis less_SucI)
  then show "z j = 0" using j by (simp add: x_def)
qed

theorem elimination_ok:
  assumes "nonsingular n A" "i < n"
  shows "(\<Sum>j < n. A i j * eliminate n A b j) = b i"
  using assms
proof (induction n arbitrary: A b i)
  case (Suc n)
  define p where "p = pivot_row n A"
  let ?s = "exchanged p n"
  define d where "d = A (?s n) n"
  have p: "p < Suc n" "d \<noteq> 0" using pivot_row_ok [OF Suc.prems(1)] by (auto simp: p_def d_def exchanged_def)
  define x where "x = eliminate n (\<lambda>i j. A (?s i) j - A (?s i) n / d * A (?s n) j) (\<lambda>i. b (?s i) - A (?s i) n / d * b (?s n))"
  define y where "y = x(n := (b (?s n) - (\<Sum>j < n. A (?s n) j * x j)) / d)"
  have y: "eliminate (Suc n) A b = y" by (simp add: y_def x_def d_def p_def Let_def)
  have yx: "(\<Sum>j < n. f j * y j) = (\<Sum>j < n. f j * x j)" for f by (intro sum.cong) (simp_all add: y_def)
  have yn: "y n = (b (?s n) - (\<Sum>j < n. A (?s n) j * y j)) / d" unfolding yx by (simp add: y_def)
  have x: "(\<Sum>j < n. (A (?s k) j - A (?s k) n / d * A (?s n) j) * x j) = b (?s k) - A (?s k) n / d * b (?s n)" if "k < n" for k
    unfolding x_def by (rule Suc.IH [OF reduced_nonsingular [OF Suc.prems(1) p(1) d_def p(2)] that])
  have "(\<Sum>j < Suc n. A (?s k) j * y j) = b (?s k)" if k: "k < Suc n" for k
  proof (cases "k = n")
    case True
    then show ?thesis using reduced_row(1) [of d A "?s n" n y "b (?s n)", OF d_def p(2) yn] by simp
  next
    case False
    then show ?thesis using reduced_row(2) [of d A "?s n" n y "b (?s n)" "?s k", OF d_def p(2) yn] x [of k] k unfolding yx by simp
  qed
  then have "\<forall>i < Suc n. (\<Sum>j < Suc n. A i j * y j) = b i"
    using exchanged_all [OF p(1), of "\<lambda>i. (\<Sum>j < Suc n. A i j * y j) = b i"] by blast
  then show ?case unfolding y using Suc.prems(2) by blast
qed simp

section \<open>Compressed columns\<close>

definition reference_dgssv :: superlu where
  "reference_dgssv A b = map (eliminate (sm_nrow A) (csc_at (sm_Store A)) (\<lambda>i. b ! i)) [0..<sm_nrow A]"

theorem reference_solves: "solves reference_dgssv"
  unfolding solves_def
proof (intro allI impI, elim conjE)
  fix A :: SuperMatrix and b n assume n: "sm_nrow A = n" "nonsingular n (csc_at (sm_Store A))"
  have "(\<Sum>c < n. csc_at (sm_Store A) r c * reference_dgssv A b ! c) = b ! r" if "r < n" for r
  proof -
    have "(\<Sum>c < n. csc_at (sm_Store A) r c * reference_dgssv A b ! c) =
        (\<Sum>c < n. csc_at (sm_Store A) r c * eliminate n (csc_at (sm_Store A)) (\<lambda>i. b ! i) c)"
      by (intro sum.cong) (simp_all add: reference_dgssv_def n(1))
    then show ?thesis using elimination_ok [OF n(2) that] by simp
  qed
  then show "length (reference_dgssv A b) = n \<and> (\<forall>r < n. (\<Sum>c < n. csc_at (sm_Store A) r c * reference_dgssv A b ! c) = b ! r)"
    by (simp add: reference_dgssv_def n(1))
qed

end
