(* ===== verification/Grid_Multi.thy ===== *)
theory Grid_Multi
  imports Grid_Ops
begin

text \<open>
  The operators between the grids of the multigrid solver. Restriction adds the power of four
  cells of the finer grid; prolongation writes every cell of the finer grid, with a weighted
  mean of temperatures of the coarser one.
\<close>

section \<open>Restriction\<close>

definition four_cells :: "grid_model_vector_t \<Rightarrow> nat \<Rightarrow> nat \<Rightarrow> nat \<Rightarrow> real" where
  "four_cells v n i j = gv_at v n (2 * i) (2 * j) + gv_at v n (2 * i + 1) (2 * j) + gv_at v n (2 * i) (2 * j + 1) + gv_at v n (2 * i + 1) (2 * j + 1)"

lemma sum_pairs: "(\<Sum>k < 2 * n. f k) = (\<Sum>i < n. f (2 * i) + f (2 * i + 1))" for f :: "nat \<Rightarrow> real"
  by (induction n) (simp_all add: algebra_simps)

lemma sum_four_cells:
  "(\<Sum>i < nr. \<Sum>j < nc. four_cells v n i j) = (\<Sum>k < 2 * nr. \<Sum>l < 2 * nc. gv_at v n k l)"
  unfolding sum_pairs four_cells_def by (intro sum.cong refl) (simp add: sum.distrib algebra_simps)

text \<open>The extra nodes are copied last.\<close>

lemma copy_extra_ok:
  assumes "gv_ok d nl nr nc xt" "gv_ok s nl' nr' nc' xt" "xt = extra_nodes (gm_config m)"
  shows "\<exists>d'. copy_extra m d s = Inr d' \<and> gv_ok d' nl nr nc xt \<and> (\<forall>k < xt. gx_at d' k = gx_at s k) \<and>
    (\<forall>n i j. n < nl \<and> i < nr \<and> j < nc \<longrightarrow> gv_at d' n i j = gv_at d n i j)"
proof -
  let ?I = "\<lambda>i t. gv_ok t nl nr nc xt \<and> (\<forall>k < i. gx_at t k = gx_at s k) \<and> (\<forall>n i j. n < nl \<and> i < nr \<and> j < nc \<longrightarrow> gv_at t n i j = gv_at d n i j)"
  have "\<exists>t. for_up 0 xt (\<lambda>i dst. rbind (gx_get s i) (gx_set dst i)) d = Inr t \<and> ?I xt t"
  proof (rule for_up_rule [where I = ?I])
    fix i t assume i: "i < xt" and t: "?I i t"
    obtain w where "gx_set t i (gx_at s i) = Inr w" "gv_ok w nl nr nc xt" "\<forall>k < xt. gx_at w k = (if k = i then gx_at s i else gx_at t k)"
      "\<forall>q k l. q < nl \<and> k < nr \<and> l < nc \<longrightarrow> gv_at w q k l = gv_at t q k l"
      using gx_set_ok [of t nl nr nc xt i "gx_at s i"] t i by blast
    then show "\<exists>t'. rbind (gx_get s i) (gx_set t i) = Inr t' \<and> ?I (Suc i) t'"
      unfolding gx_get_ok [OF assms(2) i] using t i by (simp add: less_Suc_eq)
  qed (use assms(1) in simp_all)
  then show ?thesis unfolding copy_extra_def assms(3) by blast
qed

lemma restrict_ok:
  assumes "gv_ok dst (gm_n_layers m) (gm_rows m) (gm_cols m) (extra_nodes (gm_config m))"
    and "gv_ok src (gm_n_layers m) (2 * gm_rows m) (2 * gm_cols m) (extra_nodes (gm_config m))"
  shows "\<exists>d. multigrid_restrict_power m dst src = Inr d \<and> gv_ok d (gm_n_layers m) (gm_rows m) (gm_cols m) (extra_nodes (gm_config m)) \<and>
    (\<forall>n i j. n < gm_n_layers m \<and> i < gm_rows m \<and> j < gm_cols m \<longrightarrow> gv_at d n i j = four_cells src n i j) \<and>
    (\<forall>k < extra_nodes (gm_config m). gx_at d k = gx_at src k)"
proof -
  let ?nl = "gm_n_layers m" and ?r = "gm_rows m" and ?c = "gm_cols m" and ?x = "extra_nodes (gm_config m)"
  let ?body = "\<lambda>n i j dst. rbind (gv_get src n (2 * i) (2 * j)) (\<lambda>a. rbind (gv_get src n (2 * i + 1) (2 * j)) (\<lambda>b.
     rbind (gv_get src n (2 * i) (2 * j + 1)) (\<lambda>c. rbind (gv_get src n (2 * i + 1) (2 * j + 1)) (\<lambda>d.
     gv_set dst n i j (a + b + c + d)))))"
  define P where "P n t \<longleftrightarrow> gv_ok t ?nl ?r ?c ?x \<and> (\<forall>k i j. k < n \<and> i < ?r \<and> j < ?c \<longrightarrow> gv_at t k i j = four_cells src k i j)" for n t
  have body: "?body n i j t = gv_set t n i j (four_cells src n i j)" if "n < ?nl" "i < ?r" "j < ?c" for n i j t
    using that gv_get_ok [OF assms(2) that(1)] by (simp add: four_cells_def del: One_nat_def)
  have "\<exists>t. for_up 0 ?nl (\<lambda>n. for_up 0 ?r (\<lambda>i. for_up 0 ?c (?body n i))) dst = Inr t \<and> P ?nl t"
  proof (rule for_up_rule [where I = P])
    fix n t assume n: "n < ?nl" and t: "P n t"
    have "\<exists>w. for_up 0 ?r (\<lambda>i. for_up 0 ?c (?body n i)) t = Inr w \<and> P n w \<and>
      (\<forall>k l. k < ?r \<and> l < ?c \<longrightarrow> gv_at w n k l = (if in_rect 0 ?r 0 ?c k l then four_cells src n k l else gv_at t n k l))"
    proof (rule mesh_rule)
      fix i j u assume "in_rect 0 ?r 0 ?c i j" and u: "P n u"
      then have ij: "i < ?r" "j < ?c" by (simp_all add: in_rect_def)
      obtain w where "gv_set u n i j (four_cells src n i j) = Inr w" "gv_ok w ?nl ?r ?c ?x"
        "\<forall>q k l. q < ?nl \<and> k < ?r \<and> l < ?c \<longrightarrow> gv_at w q k l = (if q = n \<and> k = i \<and> l = j then four_cells src n i j else gv_at u q k l)"
        using gv_set_ok [of u ?nl ?r ?c ?x n i j] u n ij unfolding P_def by blast
      then show "\<exists>w. ?body n i j u = Inr w \<and> P n w \<and>
          (\<forall>k l. k < ?r \<and> l < ?c \<longrightarrow> gv_at w n k l = (if k = i \<and> l = j then four_cells src n i j else gv_at u n k l))"
        unfolding body [OF n ij] using u n by (intro exI [of _ w]) (simp add: P_def)
    qed (use t in \<open>simp_all add: in_rect_def\<close>)
    then show "\<exists>w. for_up 0 ?r (\<lambda>i. for_up 0 ?c (?body n i)) t = Inr w \<and> P (Suc n) w"
      by (auto simp: P_def in_rect_def less_Suc_eq)
  qed (use assms(1) in \<open>simp_all add: P_def\<close>)
  then obtain t where t: "for_up 0 ?nl (\<lambda>n. for_up 0 ?r (\<lambda>i. for_up 0 ?c (?body n i))) dst = Inr t" "P ?nl t" by blast
  obtain d where "copy_extra m t src = Inr d" "gv_ok d ?nl ?r ?c ?x" "\<forall>k < ?x. gx_at d k = gx_at src k"
    "\<forall>n i j. n < ?nl \<and> i < ?r \<and> j < ?c \<longrightarrow> gv_at d n i j = gv_at t n i j"
    using copy_extra_ok [OF _ assms(2) refl, of t] t(2) unfolding P_def by blast
  then show ?thesis unfolding multigrid_restrict_power_def t(1) rbind_Inr using t(2) by (simp add: P_def)
qed

section \<open>Prolongation\<close>

text \<open>
  The vectors whose cells in a set are between two bounds of their layers, and the operations
  that add a set of cells to it.
\<close>

definition ranged :: "nat \<Rightarrow> nat \<Rightarrow> nat \<Rightarrow> nat \<Rightarrow> (nat \<Rightarrow> real) \<Rightarrow> (nat \<Rightarrow> real) \<Rightarrow> (nat \<times> nat \<times> nat) set \<Rightarrow> grid_model_vector_t \<Rightarrow> bool" where
  "ranged nl nr nc xt lo hi W t \<longleftrightarrow> gv_ok t nl nr nc xt \<and> (\<forall>(n, i, j) \<in> W. lo n \<le> gv_at t n i j \<and> gv_at t n i j \<le> hi n) \<and>
     W \<subseteq> {..<nl} \<times> {..<nr} \<times> {..<nc}"

definition fills :: "((nat \<times> nat \<times> nat) set \<Rightarrow> grid_model_vector_t \<Rightarrow> bool) \<Rightarrow> (nat \<times> nat \<times> nat) set \<Rightarrow>
    (grid_model_vector_t \<Rightarrow> grid_model_vector_t res) \<Rightarrow> bool" where
  "fills P A f \<longleftrightarrow> (\<forall>W t. P W t \<longrightarrow> (\<exists>t'. f t = Inr t' \<and> P (W \<union> A) t'))"

lemma fillsD: "fills P A f \<Longrightarrow> P W t \<Longrightarrow> \<exists>t'. f t = Inr t' \<and> P (W \<union> A) t'"
  unfolding fills_def by blast

lemma fills_bind: "fills P A f \<Longrightarrow> fills P B g \<Longrightarrow> fills P (A \<union> B) (\<lambda>t. rbind (f t) g)"
  unfolding fills_def by (metis Un_assoc rbind_Inr)

lemma fills_for_up:
  assumes "\<And>i. lo \<le> i \<Longrightarrow> i < hi \<Longrightarrow> fills P (A i) (f i)" "lo \<le> hi"
  shows "fills P (\<Union>i \<in> {lo..<hi}. A i) (for_up lo hi f)"
  unfolding fills_def
proof (intro allI impI)
  fix W t assume t: "P W t"
  show "\<exists>t'. for_up lo hi f t = Inr t' \<and> P (W \<union> (\<Union>i \<in> {lo..<hi}. A i)) t'"
  proof (rule for_up_rule [where I = "\<lambda>i. P (W \<union> (\<Union>k \<in> {lo..<i}. A k))"])
    fix i u assume i: "lo \<le> i" "i < hi" and u: "P (W \<union> (\<Union>k \<in> {lo..<i}. A k)) u"
    have "W \<union> (\<Union>k \<in> {lo..<i}. A k) \<union> A i = W \<union> (\<Union>k \<in> {lo..<Suc i}. A k)" using i by (auto simp: atLeastLessThanSuc)
    then show "\<exists>u'. f i u = Inr u' \<and> P (W \<union> (\<Union>k \<in> {lo..<Suc i}. A k)) u'"
      using assms(1) [OF i] u unfolding fills_def by metis
  qed (use assms(2) t in simp_all)
qed

lemma fills_set:
  assumes "n < nl" "i < nr" "j < nc" "lo n \<le> x" "x \<le> hi n"
  shows "fills (ranged nl nr nc xt lo hi) {(n, i, j)} (\<lambda>t. gv_set t n i j x)"
  unfolding fills_def
proof (intro allI impI)
  fix W t assume t: "ranged nl nr nc xt lo hi W t"
  then have ok: "gv_ok t nl nr nc xt" by (simp add: ranged_def)
  obtain w where w: "gv_set t n i j x = Inr w" "gv_ok w nl nr nc xt"
    "\<And>q k l. q < nl \<Longrightarrow> k < nr \<Longrightarrow> l < nc \<Longrightarrow> gv_at w q k l = (if q = n \<and> k = i \<and> l = j then x else gv_at t q k l)"
    using gv_set_ok [OF ok assms(1-3), of x] by auto
  have sub: "W \<union> {(n, i, j)} \<subseteq> {..<nl} \<times> {..<nr} \<times> {..<nc}" using t assms(1-3) by (simp add: ranged_def)
  have "lo q \<le> gv_at w q k l \<and> gv_at w q k l \<le> hi q" if "(q, k, l) \<in> W \<union> {(n, i, j)}" for q k l
  proof -
    have "q < nl" "k < nr" "l < nc" using sub that by auto
    then show ?thesis using w(3) [of q k l] that t assms(4,5) by (auto simp: ranged_def)
  qed
  then have "ranged nl nr nc xt lo hi (W \<union> {(n, i, j)}) w" using w(2) sub unfolding ranged_def by blast
  then show "\<exists>t'. gv_set t n i j x = Inr t' \<and> ranged nl nr nc xt lo hi (W \<union> {(n, i, j)}) t'" using w(1) by blast
qed

text \<open>The bounds of a layer of the coarser grid.\<close>

definition bounds_of :: "grid_model_vector_t \<Rightarrow> nat \<Rightarrow> nat \<Rightarrow> (nat \<Rightarrow> real) \<Rightarrow> (nat \<Rightarrow> real) \<Rightarrow> nat \<Rightarrow> bool" where
  "bounds_of s nr nc lo hi n \<longleftrightarrow> (\<forall>i < nr. \<forall>j < nc. lo n \<le> gv_at s n i j \<and> gv_at s n i j \<le> hi n)"

lemma fills_inner:
  assumes "gv_ok s nl nr nc xs" "bounds_of s nr nc lo hi n" "n < nl" "i + 1 < nr" "j + 1 < nc"
  shows "fills (ranged nl (2 * nr) (2 * nc) xt lo hi)
    {(n, 2 * i + 1, 2 * j + 1), (n, 2 * i + 2, 2 * j + 1), (n, 2 * i + 2, 2 * j + 2), (n, 2 * i + 1, 2 * j + 2)} (prolong_inner s n i j)"
proof -
  let ?p = "gv_at s n i j" and ?q = "gv_at s n (i + 1) j" and ?r = "gv_at s n (i + 1) (j + 1)" and ?t = "gv_at s n i (j + 1)"
  let ?P = "ranged nl (2 * nr) (2 * nc) xt lo hi"
  have b: "lo n \<le> ?p" "?p \<le> hi n" "lo n \<le> ?q" "?q \<le> hi n" "lo n \<le> ?r" "?r \<le> hi n" "lo n \<le> ?t" "?t \<le> hi n"
    using assms(2,4,5) by (simp_all add: bounds_of_def)
  have get: "gv_get s n i j = Inr ?p" "gv_get s n (i + 1) j = Inr ?q" "gv_get s n (i + 1) (j + 1) = Inr ?r" "gv_get s n i (j + 1) = Inr ?t"
    using gv_get_ok [OF assms(1,3)] assms(4,5) by simp_all
  have "fills ?P {(n, 2 * i + 1, 2 * j + 1)} (\<lambda>d. gv_set d n (2 * i + 1) (2 * j + 1) (9 / 16 * ?p + 3 / 16 * ?q + 1 / 16 * ?r + 3 / 16 * ?t))"
    by (rule fills_set) (use assms(3-5) b in linarith)+
  moreover have "fills ?P {(n, 2 * i + 2, 2 * j + 1)} (\<lambda>d. gv_set d n (2 * i + 2) (2 * j + 1) (3 / 16 * ?p + 9 / 16 * ?q + 3 / 16 * ?r + 1 / 16 * ?t))"
    by (rule fills_set) (use assms(3-5) b in linarith)+
  moreover have "fills ?P {(n, 2 * i + 2, 2 * j + 2)} (\<lambda>d. gv_set d n (2 * i + 2) (2 * j + 2) (1 / 16 * ?p + 3 / 16 * ?q + 9 / 16 * ?r + 3 / 16 * ?t))"
    by (rule fills_set) (use assms(3-5) b in linarith)+
  moreover have "fills ?P {(n, 2 * i + 1, 2 * j + 2)} (\<lambda>d. gv_set d n (2 * i + 1) (2 * j + 2) (3 / 16 * ?p + 1 / 16 * ?q + 3 / 16 * ?r + 9 / 16 * ?t))"
    by (rule fills_set) (use assms(3-5) b in linarith)+
  ultimately have "fills ?P ({(n, 2 * i + 1, 2 * j + 1)} \<union> ({(n, 2 * i + 2, 2 * j + 1)} \<union> ({(n, 2 * i + 2, 2 * j + 2)} \<union> {(n, 2 * i + 1, 2 * j + 2)})))
    (prolong_inner s n i j)"
    unfolding prolong_inner_def get rbind_Inr by (intro fills_bind)
  then show ?thesis by (simp add: insert_commute)
qed

lemma fills_pair:
  assumes "gv_ok s nl nr nc xs" "bounds_of s nr nc lo hi n" "n < nl" "i < nr" "j < nc"
    and "i1 < 2 * nr" "j1 < 2 * nc" "i2 < 2 * nr" "j2 < 2 * nc"
  shows "fills (ranged nl (2 * nr) (2 * nc) xt lo hi) ({(n, i2, j2)} \<union> {(n, i1, j1)}) (prolong_pair s n i j i1 j1 i2 j2)"
  unfolding prolong_pair_def gv_get_ok [OF assms(1,3-5)] rbind_Inr
  by (intro fills_bind fills_set) (use assms in \<open>simp_all add: bounds_of_def\<close>)

lemma fills_two: "fills P A f \<Longrightarrow> fills P B g \<Longrightarrow> fills P (A \<union> B) (in_order [f, g])"
proof -
  have "in_order [f, g] = (\<lambda>t. rbind (f t) g)" by (rule ext) (simp add: rbind_def split: sum.split)
  then show "fills P A f \<Longrightarrow> fills P B g \<Longrightarrow> fills P (A \<union> B) (in_order [f, g])" using fills_bind [of P A f B g] by simp
qed

definition border_rows :: "nat \<Rightarrow> nat \<Rightarrow> nat \<Rightarrow> (nat \<times> nat \<times> nat) set" where
  "border_rows n nc i = ({(n, 2 * i + 1, 0)} \<union> {(n, 2 * i, 0)}) \<union> ({(n, 2 * i + 1, 2 * nc - 1)} \<union> {(n, 2 * i, 2 * nc - 1)})"

definition border_cols :: "nat \<Rightarrow> nat \<Rightarrow> nat \<Rightarrow> (nat \<times> nat \<times> nat) set" where
  "border_cols n nr j = ({(n, 0, 2 * j + 1)} \<union> {(n, 0, 2 * j)}) \<union> ({(n, 2 * nr - 1, 2 * j + 1)} \<union> {(n, 2 * nr - 1, 2 * j)})"

lemma fills_border:
  assumes "gv_ok s nl nr nc xs" "bounds_of s nr nc lo hi n" "n < nl" "0 < nr" "0 < nc"
  shows "fills (ranged nl (2 * nr) (2 * nc) xt lo hi)
    ((\<Union>i \<in> {0..<nr}. border_rows n nc i) \<union> (\<Union>j \<in> {0..<nc}. border_cols n nr j)) (prolong_border nr nc s n)"
  unfolding prolong_border_def border_rows_def border_cols_def
  by (intro fills_bind fills_for_up fills_two fills_pair [OF assms(1-3)]) (use assms(4,5) in simp_all)

text \<open>Every cell of the finer grid is one of those.\<close>

lemma fine_cells:
  assumes "k < 2 * nr" "l < 2 * nc" "0 < nr" "0 < nc"
  shows "(\<exists>i < nr - 1. \<exists>j < nc - 1. (k = 2 * i + 1 \<or> k = 2 * i + 2) \<and> (l = 2 * j + 1 \<or> l = 2 * j + 2)) \<or>
    (\<exists>i < nr. (n, k, l) \<in> border_rows n nc i) \<or> (\<exists>j < nc. (n, k, l) \<in> border_cols n nr j)"
proof (cases "k = 0 \<or> k = 2 * nr - 1 \<or> l = 0 \<or> l = 2 * nc - 1")
  case True
  have "k = 2 * (k div 2) \<or> k = 2 * (k div 2) + 1" "k div 2 < nr" "l = 2 * (l div 2) \<or> l = 2 * (l div 2) + 1" "l div 2 < nc"
    using assms(1,2) by linarith+
  with True show ?thesis unfolding border_rows_def border_cols_def by blast
next
  case False
  have k: "(k = 2 * ((k - 1) div 2) + 1 \<or> k = 2 * ((k - 1) div 2) + 2) \<and> (k - 1) div 2 < nr - 1" using False assms(1) by linarith
  have l: "(l = 2 * ((l - 1) div 2) + 1 \<or> l = 2 * ((l - 1) div 2) + 2) \<and> (l - 1) div 2 < nc - 1" using False assms(2) by linarith
  show ?thesis using k l by blast
qed

lemma prolong_ok:
  assumes "gv_ok dst (gm_n_layers m) (2 * gm_rows m) (2 * gm_cols m) (extra_nodes (gm_config m))"
    and "gv_ok src (gm_n_layers m) (gm_rows m) (gm_cols m) (extra_nodes (gm_config m))" "0 < gm_rows m" "0 < gm_cols m"
    and "\<And>n. n < gm_n_layers m \<Longrightarrow> bounds_of src (gm_rows m) (gm_cols m) lo hi n"
  shows "\<exists>d. multigrid_prolong_temp m dst src = Inr d \<and> gv_ok d (gm_n_layers m) (2 * gm_rows m) (2 * gm_cols m) (extra_nodes (gm_config m)) \<and>
    (\<forall>n k l. n < gm_n_layers m \<and> k < 2 * gm_rows m \<and> l < 2 * gm_cols m \<longrightarrow> lo n \<le> gv_at d n k l \<and> gv_at d n k l \<le> hi n) \<and>
    (\<forall>k < extra_nodes (gm_config m). gx_at d k = gx_at src k)"
proof -
  let ?nl = "gm_n_layers m" and ?r = "gm_rows m" and ?c = "gm_cols m" and ?x = "extra_nodes (gm_config m)"
  let ?P = "ranged ?nl (2 * ?r) (2 * ?c) ?x lo hi"
  let ?A = "\<Union>n \<in> {0..<?nl}. \<Union>i \<in> {0..<?r - 1}. \<Union>j \<in> {0..<?c - 1}.
    {(n, 2 * i + 1, 2 * j + 1), (n, 2 * i + 2, 2 * j + 1), (n, 2 * i + 2, 2 * j + 2), (n, 2 * i + 1, 2 * j + 2)}"
  let ?B = "\<Union>n \<in> {0..<?nl}. (\<Union>i \<in> {0..<?r}. border_rows n ?c i) \<union> (\<Union>j \<in> {0..<?c}. border_cols n ?r j)"
  have A: "fills ?P ?A (for_up 0 ?nl (\<lambda>n. for_up 0 (?r - 1) (\<lambda>i. for_up 0 (?c - 1) (prolong_inner src n i))))"
    by (intro fills_for_up fills_inner [OF assms(2)] assms(5)) auto
  have B: "fills ?P ?B (for_up 0 ?nl (prolong_border ?r ?c src))"
    by (intro fills_for_up fills_border [OF assms(2)] assms(3-5)) auto
  have "?P {} dst" using assms(1) by (simp add: ranged_def)
  then obtain t1 where t1: "for_up 0 ?nl (\<lambda>n. for_up 0 (?r - 1) (\<lambda>i. for_up 0 (?c - 1) (prolong_inner src n i))) dst = Inr t1" "?P ({} \<union> ?A) t1"
    using fillsD [OF A] by blast
  obtain t2 where t2: "for_up 0 ?nl (prolong_border ?r ?c src) t1 = Inr t2" "?P ({} \<union> ?A \<union> ?B) t2"
    using fillsD [OF B t1(2)] by blast
  define W where "W = {} \<union> ?A \<union> ?B"
  have W: "?P W t2" using t2(2) unfolding W_def .
  have all: "(n, k, l) \<in> W" if "n < ?nl" "k < 2 * ?r" "l < 2 * ?c" for n k l
    unfolding W_def using fine_cells [OF that(2,3) assms(3,4), of n] that(1) by fastforce
  obtain d where "copy_extra m t2 src = Inr d" "gv_ok d ?nl (2 * ?r) (2 * ?c) ?x" "\<forall>k < ?x. gx_at d k = gx_at src k"
    "\<forall>n i j. n < ?nl \<and> i < 2 * ?r \<and> j < 2 * ?c \<longrightarrow> gv_at d n i j = gv_at t2 n i j"
    using copy_extra_ok [OF _ assms(2) refl, of t2] W unfolding ranged_def by blast
  moreover have "lo n \<le> gv_at t2 n k l \<and> gv_at t2 n k l \<le> hi n" if "n < ?nl" "k < 2 * ?r" "l < 2 * ?c" for n k l
    using all [OF that] W unfolding ranged_def by blast
  ultimately show ?thesis unfolding multigrid_prolong_temp_def Let_def t1(1) rbind_Inr t2(1) by auto
qed

end
