(* ===== verification/Grid_Props.thy ===== *)
theory Grid_Props
  imports Grid_Temp Grid_Multi
begin

text \<open>
  The properties of the grid model: the maps between blocks and cells, power and temperature
  translated through them, and the operators of the multigrid solver.
\<close>

section \<open>Maps\<close>

lemma mapped_shares:
  assumes "mapped fs m l" "grid_fits (gm_rows m) (gm_cols m) (gm_width m) (gm_height m) (fs (ly_flp l))" "u < n_units (fs (ly_flp l))"
  shows "(\<Sum>i < gm_rows m. \<Sum>j < gm_cols m. share_of u (entries (m_at (gm_b2g m (ly_b2gmap l)) i j))) * (cell_width m * cell_height m) =
    width (units (fs (ly_flp l)) ! u) * height (units (fs (ly_flp l)) ! u)"
proof -
  let ?un = "units (fs (ly_flp l)) ! u" and ?es = "\<lambda>i j. entries (m_at (gm_b2g m (ly_b2gmap l)) i j)"
  have on: "on_grid (gm_rows m) (gm_cols m) (cell_width m) (cell_height m) ?un" and c: "0 < cell_width m" "0 < cell_height m"
    using assms(2,3) by (simp_all add: grid_fits_def cell_width_def cell_height_def)
  have "share_of u (?es i j) = cover (gm_rows m) (cell_width m) (cell_height m) ?un i j" if "i < gm_rows m" "j < gm_cols m" for i j
  proof -
    have "?es i j = cell_list (gm_rows m) (cell_width m) (cell_height m) (fs (ly_flp l)) (n_units (fs (ly_flp l))) i j"
      using assms(1) that by (simp add: mapped_def Let_def)
    then show ?thesis using share_of_cell_list [of _ _ _ _ "fs (ly_flp l)" u, OF on c that(1) assms(3)] by simp
  qed
  then have "(\<Sum>i < gm_rows m. \<Sum>j < gm_cols m. share_of u (?es i j)) = height ?un / cell_height m * (width ?un / cell_width m)"
    unfolding sum_cover [OF on c, symmetric] by (intro sum.cong refl) simp
  then show ?thesis using c by simp
qed

lemma mapped_entry:
  assumes "mapped fs m l" "grid_fits (gm_rows m) (gm_cols m) (gm_width m) (gm_height m) (fs (ly_flp l))"
    and "i < gm_rows m" "j < gm_cols m" "(u, q) \<in> set (entries (m_at (gm_b2g m (ly_b2gmap l)) i j))"
  shows "u < n_units (fs (ly_flp l)) \<and> 0 < q \<and> q \<le> 1"
proof -
  let ?un = "units (fs (ly_flp l)) ! u"
  have "(u, q) \<in> set (cell_list (gm_rows m) (cell_width m) (cell_height m) (fs (ly_flp l)) (n_units (fs (ly_flp l))) i j)"
    using assms(1,3-5) by (simp add: mapped_def Let_def)
  then have u: "u < n_units (fs (ly_flp l))" "in_extent (extent (gm_rows m) (cell_width m) (cell_height m) ?un) i j"
    "q = cover (gm_rows m) (cell_width m) (cell_height m) ?un i j" by (auto simp: cell_list_def)
  have "on_grid (gm_rows m) (gm_cols m) (cell_width m) (cell_height m) ?un" "0 < cell_width m" "0 < cell_height m"
    using assms(2) u(1) by (simp_all add: grid_fits_def cell_width_def cell_height_def)
  then show ?thesis using cover_range [OF _ _ _ assms(3) u(2)] u(1,3) by simp
qed

text \<open>
  C30: for a floorplan that lies on the mesh, with boundaries the tolerance does not move, \<open>set_bgmap\<close>
  returns maps in which the parts of the cells listed for a block add up to the area of the
  block, and every entry of a cell names a block of the floorplan and covers a positive part
  of the cell that is not more than the whole.
\<close>

theorem set_bgmap_shares:
  assumes "grid_fits (gm_rows m) (gm_cols m) (gm_width m) (gm_height m) (fs (ly_flp l))" "plain_cells (gm_config m) l"
    and "map_ok (gm_rows m) (gm_cols m) (gm_b2g m (ly_b2gmap l))" "n_units (fs (ly_flp l)) \<le> length (gm_g2b m (ly_g2bmap l))"
  shows "\<exists>m'. set_bgmap fs m l = Inr m' \<and>
    (\<forall>u < n_units (fs (ly_flp l)). (\<Sum>i < gm_rows m. \<Sum>j < gm_cols m. share_of u (entries (m_at (gm_b2g m' (ly_b2gmap l)) i j))) *
      (cell_width m * cell_height m) = width (units (fs (ly_flp l)) ! u) * height (units (fs (ly_flp l)) ! u)) \<and>
    (\<forall>i < gm_rows m. \<forall>j < gm_cols m. \<forall>(u, q) \<in> set (entries (m_at (gm_b2g m' (ly_b2gmap l)) i j)).
      u < n_units (fs (ly_flp l)) \<and> 0 < q \<and> q \<le> 1)"
proof -
  obtain bg gb where m': "set_bgmap fs m l = Inr (m\<lparr>gm_b2g := (gm_b2g m)(ly_b2gmap l := bg), gm_g2b := (gm_g2b m)(ly_g2bmap l := gb)\<rparr>)"
    "mapped fs (m\<lparr>gm_b2g := (gm_b2g m)(ly_b2gmap l := bg), gm_g2b := (gm_g2b m)(ly_g2bmap l := gb)\<rparr>) l"
    using set_bgmap_ok [of m fs l] assms by blast
  then show ?thesis
    using mapped_shares [OF m'(2)] mapped_entry [OF m'(2)] assms(1) by (auto simp: cell_width_def cell_height_def)
qed

section \<open>A chip on a grid\<close>

lemma exact_number: "exact 0" "exact 1" "exact (numeral k)"
  using exact_of_nat [of 0] exact_of_nat [of 1] exact_of_nat [of "numeral k"] by simp_all

lemma die_on_grid:
  assumes "0 < rows" "0 < cols"
  shows "grid_fits rows cols (1 / 100) (1 / 100) die"
  using assms exact_of_nat [of rows] exact_of_nat [of cols] DELTA_pos
  by (simp add: grid_fits_def on_grid_def die_def unit_zero_def x_lo_def x_hi_def y_lo_def y_hi_def exact_number DELTA_def)

lemma default_plain: "plain_grid default_thermal_config"
  by (simp add: plain_grid_def default_thermal_config_def find_map_mode_def strcase_eq_def)

lemma set_bgmap_shares_witness:
  "\<exists>m m'. set_bgmap (\<lambda>_. die) m (stack_layer 0 0 True 100 1 1) = Inr m' \<and> gm_rows m = 3 \<and> gm_cols m = 2 \<and>
    (\<Sum>i < 3. \<Sum>j < 2. share_of 0 (entries (m_at (gm_b2g m' 0) i j))) * (1 / 200 * (1 / 300)) = 1 / 10000"
proof -
  define m where "m = (grid_zero default_thermal_config)\<lparr>gm_rows := 3, gm_cols := 2, gm_width := 1 / 100, gm_height := 1 / 100,
    gm_b2g := \<lambda>_. new_b2gmap 3 2, gm_g2b := \<lambda>_. [glist_zero]\<rparr>"
  have s: "gm_rows m = 3" "gm_cols m = 2" "gm_width m = 1 / 100" "gm_height m = 1 / 100" "cell_width m = 1 / 200" "cell_height m = 1 / 300"
    "gm_config m = default_thermal_config" "gm_b2g m 0 = new_b2gmap 3 2" "gm_g2b m 0 = [glist_zero]"
    by (simp_all add: m_def cell_width_def cell_height_def grid_zero_def)
  have l: "ly_flp (stack_layer 0 0 True 100 1 1) = 0" "ly_b2gmap (stack_layer 0 0 True 100 1 1) = 0" "ly_g2bmap (stack_layer 0 0 True 100 1 1) = 0"
    "plain_cells default_thermal_config (stack_layer 0 0 True 100 1 1)"
    by (simp_all add: stack_layer_def layer_zero_def plain_cells_def default_thermal_config_def)
  have n: "n_units die = 1" "width (units die ! 0) = 1 / 100" "height (units die ! 0) = 1 / 100" by (simp_all add: die_def unit_zero_def)
  obtain m' where "set_bgmap (\<lambda>_. die) m (stack_layer 0 0 True 100 1 1) = Inr m'"
    "(\<Sum>i < 3. \<Sum>j < 2. share_of 0 (entries (m_at (gm_b2g m' 0) i j))) * (1 / 200 * (1 / 300)) = 1 / 10000"
    using set_bgmap_shares [of m "\<lambda>_. die" "stack_layer 0 0 True 100 1 1", unfolded s l, OF die_on_grid l(4) new_b2gmap_ok] by (auto simp: n)
  then show ?thesis using s(1,2) by (intro exI [of _ m] exI [of _ m']) blast
qed

section \<open>Power\<close>

text \<open>
  C29: a grid model with the default stack, allocated and with its resistances computed for a
  floorplan that fits its package and its mesh, translates a vector of block powers to one of
  cells in which the cells of every layer together have the power of the blocks of that layer,
  and the extra nodes have theirs.
\<close>

theorem grid_conserves_power:
  assumes "plain_grid c" "fits c (fs fp) w h" "grid_fits (nat (grid_rows c)) (nat (grid_cols c)) w h (fs fp)"
    and "length b = 4 * n_units (fs fp) + EXTRA"
  shows "\<exists>m m1 g. alloc_grid_model fs rf ws c fp False = Inr m \<and> populate_R_model_grid fs m fp = Inr m1 \<and>
    xlate_vector_b2g fs m1 b (new_grid_model_vector m1) V_POWER = Inr g \<and>
    (\<forall>n < 4. (\<Sum>i < nat (grid_rows c). \<Sum>j < nat (grid_cols c). gv_at g n i j) = (\<Sum>u < n_units (fs fp). b ! (n * n_units (fs fp) + u))) \<and>
    (\<forall>k < EXTRA. gx_at g k = b ! (4 * n_units (fs fp) + k))"
proof -
  obtain m where m: "alloc_grid_model fs rf ws c fp False = Inr m" "grid_allocated fs c fp m"
    using alloc_grid_model_ok [OF assms(1)] by blast
  then obtain m1 where m1: "populate_R_model_grid fs m fp = Inr m1" "grid_ready fs c fp w h m1"
    using populate_R_grid_ok [OF m(2) assms(1,2)] assms(3) by (auto simp: grid_allocated_def)
  have f: "gm_rows m1 = nat (grid_rows c)" "gm_cols m1 = nat (grid_cols c)" "gm_n_layers m1 = 4" "extra_nodes (gm_config m1) = EXTRA"
    using m1(2) plain_gridD(1) [OF assms(1)] by (simp_all add: grid_ready_def extra_nodes_def)
  note us = ready_usable(1) [OF m1(2) assms(3)] and base = ready_usable(2) [OF m1(2) assms(3)]
  obtain g where g: "xlate_vector_b2g fs m1 b (new_grid_model_vector m1) V_POWER = Inr g"
    "\<forall>n i j. n < 4 \<and> i < gm_rows m1 \<and> j < gm_cols m1 \<longrightarrow> gv_at g n i j = cell_power fs m1 b n i j"
    "\<forall>k < EXTRA. gx_at g k = b ! (4 * n_units (fs fp) + k)"
    using xlate_power_ok [OF us _ _ new_grid_model_vector_ok, of b] assms(4) base [of 4] unfolding f by auto
  have "(\<Sum>i < gm_rows m1. \<Sum>j < gm_cols m1. gv_at g n i j) = (\<Sum>u < n_units (fs fp). b ! (n * n_units (fs fp) + u))" if n: "n < 4" for n
  proof -
    have fl: "ly_flp (gm_layers m1 ! n) = fp" using m1(2) n by (simp add: grid_ready_def Let_def)
    have n1: "n < gm_n_layers m1" using n f(3) by simp
    have "(\<Sum>i < gm_rows m1. \<Sum>j < gm_cols m1. gv_at g n i j) = (\<Sum>i < gm_rows m1. \<Sum>j < gm_cols m1. cell_power fs m1 b n i j)"
      using g(2) n by (intro sum.cong refl) simp
    also have "\<dots> = (\<Sum>u < n_units (fs fp). b ! (block_base fs m1 n + u))"
      using cell_power_sum [OF us n1] fl by simp
    finally show ?thesis using base [of n] n by simp
  qed
  then show ?thesis using m(1) m1(1) g(1,3) unfolding f by blast
qed

lemma grid_conserves_power_witness:
  "\<exists>m m1 g. alloc_grid_model (\<lambda>_. die) (\<lambda>_. 0) [] default_thermal_config 0 False = Inr m \<and>
    populate_R_model_grid (\<lambda>_. die) m 0 = Inr m1 \<and>
    xlate_vector_b2g (\<lambda>_. die) m1 (7 # replicate 15 0) (new_grid_model_vector m1) V_POWER = Inr g \<and>
    (\<Sum>i < 64. \<Sum>j < 64. gv_at g 0 i j) = 7"
proof -
  have g: "nat (grid_rows default_thermal_config) = 64" "nat (grid_cols default_thermal_config) = 64" by (simp_all add: default_thermal_config_def)
  have n: "n_units die = 1" by (simp add: die_def)
  have l: "length ((7::real) # replicate 15 0) = 4 * n_units die + EXTRA" by (simp add: n EXTRA_def)
  show ?thesis
    using grid_conserves_power [of default_thermal_config "\<lambda>_. die" 0 "1 / 100" "1 / 100", unfolded g, OF default_plain die_fits die_on_grid l,
      of "\<lambda>_. 0" "[]"] by (auto simp: n)
qed

section \<open>Temperature\<close>

text \<open>
  C31: on such a model \<open>xlate_temp_g2b\<close> never stops and gives every block the mean, the least or the
  greatest temperature of the cells it extends over, or the mean of the cells at its centre,
  as the mapping mode of the configuration says, which in every mode lies between any bounds
  of the temperatures of those cells; the extra nodes keep theirs.
\<close>

theorem block_temps_from_cells:
  assumes "plain_grid c" "fits c (fs fp) w h" "grid_fits (nat (grid_rows c)) (nat (grid_cols c)) w h (fs fp)"
    and "find_map_mode (grid_map_mode c) = Inr mode" "length b = 4 * n_units (fs fp) + EXTRA"
    and "gv_ok g 4 (nat (grid_rows c)) (nat (grid_cols c)) EXTRA"
  shows "\<exists>m m1 b'. alloc_grid_model fs rf ws c fp False = Inr m \<and> populate_R_model_grid fs m fp = Inr m1 \<and>
    xlate_temp_g2b fs m1 b g = Inr b' \<and> (\<forall>k < EXTRA. b' ! (4 * n_units (fs fp) + k) = gx_at g k) \<and>
    (\<forall>n < 4. \<forall>u < n_units (fs fp).
      let e = extent (nat (grid_rows c)) (w / real (nat (grid_cols c))) (h / real (nat (grid_rows c))) (units (fs fp) ! u);
          t = b' ! (n * n_units (fs fp) + u) in
      t = block_value mode g n e \<and>
      (\<forall>lo hi. (\<forall>i j. in_extent e i j \<longrightarrow> lo \<le> gv_at g n i j \<and> gv_at g n i j \<le> hi) \<longrightarrow> lo \<le> t \<and> t \<le> hi))"
proof -
  obtain m where m: "alloc_grid_model fs rf ws c fp False = Inr m" "grid_allocated fs c fp m"
    using alloc_grid_model_ok [OF assms(1)] by blast
  then obtain m1 where m1: "populate_R_model_grid fs m fp = Inr m1" "grid_ready fs c fp w h m1"
    using populate_R_grid_ok [OF m(2) assms(1,2)] assms(3) by (auto simp: grid_allocated_def)
  have f: "gm_rows m1 = nat (grid_rows c)" "gm_cols m1 = nat (grid_cols c)" "gm_n_layers m1 = 4" "extra_nodes (gm_config m1) = EXTRA"
    "cell_width m1 = w / real (nat (grid_cols c))" "cell_height m1 = h / real (nat (grid_rows c))" "gm_map_mode m1 = mode"
    using m1(2) plain_gridD(1) [OF assms(1)] assms(4) by (simp_all add: grid_ready_def extra_nodes_def cell_width_def cell_height_def)
  have fl: "ly_flp (gm_layers m1 ! n) = fp" if "n < 4" for n using m1(2) that by (simp add: grid_ready_def Let_def)
  note us = ready_usable(1) [OF m1(2) assms(3)] and base = ready_usable(2) [OF m1(2) assms(3)]
  have mode: "gm_map_mode m1 \<le> GRID_CENTER" using find_map_mode_range [OF assms(4)] f(7) by simp
  obtain b' where b': "xlate_temp_g2b fs m1 b g = Inr b'"
    "\<forall>n < 4. \<forall>u < n_units (fs (ly_flp (gm_layers m1 ! n))). b' ! (block_base fs m1 n + u) = value_of_block fs m1 g n u"
    "\<forall>k < EXTRA. b' ! (block_base fs m1 4 + k) = gx_at g k"
    using xlate_temp_ok [OF us _ mode, of g b] assms(5,6) base [of 4] unfolding f by auto
  have "b' ! (n * n_units (fs fp) + u) = block_value mode g n (extent (gm_rows m1) (cell_width m1) (cell_height m1) (units (fs fp) ! u)) \<and>
    (\<forall>lo hi. (\<forall>i j. in_extent (extent (gm_rows m1) (cell_width m1) (cell_height m1) (units (fs fp) ! u)) i j \<longrightarrow>
        lo \<le> gv_at g n i j \<and> gv_at g n i j \<le> hi) \<longrightarrow>
      lo \<le> b' ! (n * n_units (fs fp) + u) \<and> b' ! (n * n_units (fs fp) + u) \<le> hi)" if "n < 4" "u < n_units (fs fp)" for n u
  proof -
    have v: "b' ! (n * n_units (fs fp) + u) = block_value mode g n (extent (gm_rows m1) (cell_width m1) (cell_height m1) (units (fs fp) ! u))"
      using b'(2) [rule_format, of n u] that fl [OF that(1)] base [of n] f(7) by (simp add: value_of_block_def)
    have "glist_ok (gm_rows m1) (gm_cols m1) (extent (gm_rows m1) (cell_width m1) (cell_height m1) (units (fs fp) ! u))"
      using mapped_extent(2) [OF us, of n "gm_layers m1 ! n" u] that fl [OF that(1)] f(3) by simp
    then show ?thesis using block_value_between v by metis
  qed
  moreover have "\<forall>k < EXTRA. b' ! (4 * n_units (fs fp) + k) = gx_at g k" using b'(3) base [of 4] by simp
  ultimately show ?thesis using m(1) m1(1) b'(1) unfolding f Let_def by blast
qed

lemma block_temps_from_cells_witness:
  "\<exists>m m1 b'. alloc_grid_model (\<lambda>_. die) (\<lambda>_. 0) [] default_thermal_config 0 False = Inr m \<and>
    populate_R_model_grid (\<lambda>_. die) m 0 = Inr m1 \<and>
    xlate_temp_g2b (\<lambda>_. die) m1 (replicate 16 0) \<lparr>gv_data = replicate 16396 300, gv_layers = 4, gv_rows = 64, gv_cols = 64\<rparr> = Inr b' \<and> b' ! 0 = 300"
proof -
  let ?g = "\<lparr>gv_data = replicate 16396 300, gv_layers = 4, gv_rows = 64, gv_cols = 64\<rparr>"
  have g: "nat (grid_rows default_thermal_config) = 64" "nat (grid_cols default_thermal_config) = 64" by (simp_all add: default_thermal_config_def)
  have n: "n_units die = 1" by (simp add: die_def)
  have ok: "gv_ok ?g 4 64 64 EXTRA" by (simp add: gv_ok_def EXTRA_def)
  have at: "gv_at ?g 0 i j = 300" if "i < 64" "j < 64" for i j
    using that by (simp add: gv_at_def gv_index_def dcuboid_row_def)
  have mode: "find_map_mode (grid_map_mode default_thermal_config) = Inr GRID_CENTER"
  proof -
    have "grid_map_mode default_thermal_config = GRID_CENTER_STR" by (simp add: default_thermal_config_def)
    moreover have "find_map_mode GRID_CENTER_STR = Inr GRID_CENTER" by code_simp
    ultimately show ?thesis by simp
  qed
  have grid: "on_grid 64 64 (1 / 100 / real 64) (1 / 100 / real 64) (units die ! 0)"
    using die_on_grid [of 64 64] by (simp add: grid_fits_def n)
  have in64: "i < 64 \<and> j < 64" if "in_extent (extent 64 (1 / 100 / real 64) (1 / 100 / real 64) (units die ! 0)) i j" for i j
    using that unit_extent_ok(3,5) [OF grid] by (simp add: in_extent_def)
  have b: "length (replicate 16 (0::real)) = 4 * n_units die + EXTRA" by (simp add: n EXTRA_def)
  obtain m m1 b' where r: "alloc_grid_model (\<lambda>_. die) (\<lambda>_. 0) [] default_thermal_config 0 False = Inr m"
    "populate_R_model_grid (\<lambda>_. die) m 0 = Inr m1" "xlate_temp_g2b (\<lambda>_. die) m1 (replicate 16 0) ?g = Inr b'"
    "\<forall>lo hi. (\<forall>i j. in_extent (extent 64 (1 / 100 / real 64) (1 / 100 / real 64) (units die ! 0)) i j \<longrightarrow>
      lo \<le> gv_at ?g 0 i j \<and> gv_at ?g 0 i j \<le> hi) \<longrightarrow> lo \<le> b' ! 0 \<and> b' ! 0 \<le> hi"
    using block_temps_from_cells [of default_thermal_config "\<lambda>_. die" 0 "1 / 100" "1 / 100", unfolded g, OF default_plain die_fits die_on_grid mode b ok,
      of "\<lambda>_. 0" "[]"] unfolding n Let_def by fastforce
  have "300 \<le> b' ! 0 \<and> b' ! 0 \<le> 300" by (rule r(4) [rule_format]) (use in64 at in auto)
  then show ?thesis using r(1-3) by fastforce
qed

section \<open>Multigrid\<close>

text \<open>
  C32: between a grid and the one with twice its rows and columns, restriction keeps the power of
  every layer, and prolongation writes every cell of the finer grid with a temperature between
  the least and the greatest of its layer on the coarser one; both copy the extra nodes.
\<close>

theorem multigrid_transfers:
  assumes "gv_ok coarse (gm_n_layers m) (gm_rows m) (gm_cols m) (extra_nodes (gm_config m))"
    and "gv_ok fine (gm_n_layers m) (2 * gm_rows m) (2 * gm_cols m) (extra_nodes (gm_config m))" "0 < gm_rows m" "0 < gm_cols m"
  shows "(\<exists>d. multigrid_restrict_power m coarse fine = Inr d \<and>
      (\<forall>n < gm_n_layers m. (\<Sum>i < gm_rows m. \<Sum>j < gm_cols m. gv_at d n i j) = (\<Sum>k < 2 * gm_rows m. \<Sum>l < 2 * gm_cols m. gv_at fine n k l)) \<and>
      (\<forall>k < extra_nodes (gm_config m). gx_at d k = gx_at fine k)) \<and>
    (\<exists>d. multigrid_prolong_temp m fine coarse = Inr d \<and>
      (\<forall>n < gm_n_layers m. \<forall>k < 2 * gm_rows m. \<forall>l < 2 * gm_cols m.
        Min {gv_at coarse n i j | i j. i < gm_rows m \<and> j < gm_cols m} \<le> gv_at d n k l \<and>
        gv_at d n k l \<le> Max {gv_at coarse n i j | i j. i < gm_rows m \<and> j < gm_cols m}) \<and>
      (\<forall>k < extra_nodes (gm_config m). gx_at d k = gx_at coarse k))"
proof
  obtain d where d: "multigrid_restrict_power m coarse fine = Inr d" "\<forall>k < extra_nodes (gm_config m). gx_at d k = gx_at fine k"
    "\<forall>n i j. n < gm_n_layers m \<and> i < gm_rows m \<and> j < gm_cols m \<longrightarrow> gv_at d n i j = four_cells fine n i j"
    using restrict_ok [OF assms(1,2)] by blast
  have "(\<Sum>i < gm_rows m. \<Sum>j < gm_cols m. gv_at d n i j) = (\<Sum>k < 2 * gm_rows m. \<Sum>l < 2 * gm_cols m. gv_at fine n k l)"
    if "n < gm_n_layers m" for n
    unfolding sum_four_cells [symmetric] using d(3) that by (intro sum.cong refl) simp
  with d show "\<exists>d. multigrid_restrict_power m coarse fine = Inr d \<and>
      (\<forall>n < gm_n_layers m. (\<Sum>i < gm_rows m. \<Sum>j < gm_cols m. gv_at d n i j) = (\<Sum>k < 2 * gm_rows m. \<Sum>l < 2 * gm_cols m. gv_at fine n k l)) \<and>
      (\<forall>k < extra_nodes (gm_config m). gx_at d k = gx_at fine k)" by blast
next
  let ?S = "\<lambda>n. {gv_at coarse n i j | i j. i < gm_rows m \<and> j < gm_cols m}"
  have "?S n = (\<lambda>(i, j). gv_at coarse n i j) ` ({..<gm_rows m} \<times> {..<gm_cols m})" for n by auto
  then have fin: "finite (?S n)" for n by simp
  have "bounds_of coarse (gm_rows m) (gm_cols m) (\<lambda>n. Min (?S n)) (\<lambda>n. Max (?S n)) n" for n
    unfolding bounds_of_def by (intro allI impI conjI Min_le Max_ge fin) auto
  from prolong_ok [OF assms(2,1,3,4) this] obtain d where "multigrid_prolong_temp m fine coarse = Inr d"
    "\<forall>n k l. n < gm_n_layers m \<and> k < 2 * gm_rows m \<and> l < 2 * gm_cols m \<longrightarrow> Min (?S n) \<le> gv_at d n k l \<and> gv_at d n k l \<le> Max (?S n)"
    "\<forall>k < extra_nodes (gm_config m). gx_at d k = gx_at coarse k" by blast
  then show "\<exists>d. multigrid_prolong_temp m fine coarse = Inr d \<and>
      (\<forall>n < gm_n_layers m. \<forall>k < 2 * gm_rows m. \<forall>l < 2 * gm_cols m. Min (?S n) \<le> gv_at d n k l \<and> gv_at d n k l \<le> Max (?S n)) \<and>
      (\<forall>k < extra_nodes (gm_config m). gx_at d k = gx_at coarse k)" by blast
qed

lemma multigrid_transfers_witness:
  "\<exists>m d. gm_rows m = 1 \<and> gm_cols m = 1 \<and>
    multigrid_restrict_power m \<lparr>gv_data = replicate 13 0, gv_layers = 1, gv_rows = 1, gv_cols = 1\<rparr>
      \<lparr>gv_data = [1, 2, 3, 4] @ replicate 12 0, gv_layers = 1, gv_rows = 2, gv_cols = 2\<rparr> = Inr d \<and> gv_at d 0 0 0 = 10"
proof -
  define m where "m = (grid_zero default_thermal_config)\<lparr>gm_rows := 1, gm_cols := 1, gm_n_layers := 1\<rparr>"
  have s: "gm_rows m = 1" "gm_cols m = 1" "gm_n_layers m = 1" "extra_nodes (gm_config m) = 12"
    by (simp_all add: m_def grid_zero_def extra_nodes_def default_thermal_config_def EXTRA_def)
  let ?c = "\<lparr>gv_data = replicate 13 (0::real), gv_layers = 1, gv_rows = 1, gv_cols = 1\<rparr>"
  let ?f = "\<lparr>gv_data = [1, 2, 3, 4] @ replicate 12 (0::real), gv_layers = 1, gv_rows = 2, gv_cols = 2\<rparr>"
  have ok: "gv_ok ?c 1 1 1 12" "gv_ok ?f 1 (2 * 1) (2 * 1) 12" by (simp_all add: gv_ok_def)
  obtain d where "multigrid_restrict_power m ?c ?f = Inr d"
    "(\<Sum>i < 1. \<Sum>j < 1. gv_at d 0 i j) = (\<Sum>k < 2 * 1. \<Sum>l < 2 * 1. gv_at ?f 0 k l)"
    using multigrid_transfers [of ?c m ?f, unfolded s, OF ok] by auto
  then show ?thesis using s(1,2)
    by (intro exI [of _ m] exI [of _ d]) (simp add: gv_at_def gv_index_def dcuboid_row_def eval_nat_numeral)
qed

end
