(* ===== verification/Grid_Heat_Props.thy ===== *)
theory Grid_Heat_Props
  imports Grid_Chip Elimination Grid_Props
begin

text \<open>
  The properties of the grid's equations: the matrix and its compressed form, the steady state and
  the steps of the transient simulation of a chip, and the two cases in which the code fails.
\<close>

section \<open>The matrix\<close>

text \<open>
  A matrix of the allocated size whose rows add up to the conductances to the ambient: symmetric, with no
  positive entry off the diagonal.
\<close>

definition conducting :: "grid_model_t \<Rightarrow> SuperMatrix \<Rightarrow> bool" where
  "conducting m A \<longleftrightarrow> sm_nrow A = grid_dim m \<and> sm_ncol A = grid_dim m \<and> nc_nnz (sm_Store A) = grid_nnz m \<and> csc_ok (grid_dim m) (sm_Store A) \<and>
    (\<forall>r < grid_dim m. 0 \<le> ambient_g m r \<and> (\<Sum>k < grid_dim m. csc_at (sm_Store A) r k) = ambient_g m r \<and>
      (\<forall>k < grid_dim m. csc_at (sm_Store A) r k = csc_at (sm_Store A) k r \<and> (r \<noteq> k \<longrightarrow> csc_at (sm_Store A) r k \<le> 0)))"

lemma matrix_conducts:
  assumes "wired res m M" "grid_matrix res m A"
  shows "conducting m A"
proof -
  note g = grid_matrixD [OF assms(2)]
  have "(\<Sum>k < grid_dim m. csc_at (sm_Store A) r k) = (\<Sum>k < grid_dim m. conductance res m r k)" for r
    using g(5) by (intro sum.cong) simp_all
  then show ?thesis
    using g conductance_sym [OF assms(1)] conductance_off_diag [OF assms(1)] conductance_row_sum [OF assms(1)] ambient_g_nonneg [OF assms(1)]
      assms(2) by (simp add: grid_matrix_def conducting_def)
qed

text \<open>The entries of neighbouring cells.\<close>

lemma matrix_neighbours:
  assumes "wired res m M" "grid_matrix res m A"
  shows "in_grid m l i (j + 1) \<Longrightarrow> csc_at (sm_Store A) (cell_node m l i j) (cell_node m l i (j + 1)) = - (1 / to_east M l i j)"
    "in_grid m l (i + 1) j \<Longrightarrow> csc_at (sm_Store A) (cell_node m l i j) (cell_node m l (i + 1) j) = - (1 / to_south M l i j)"
    "in_grid m (l + 1) i j \<Longrightarrow> csc_at (sm_Store A) (cell_node m l i j) (cell_node m (l + 1) i j) = - (1 / to_below M l i j)"
proof -
  have entry: "csc_at (sm_Store A) a b = - (1 / R)" if "joined m M a b R" for a b R
    using conductance_joined [OF assms(1) joined_dim(1) [OF assms(1) that]] grid_matrixD(5) [OF assms(2) joined_dim(2) [OF assms(1) that]] that by simp
  show "in_grid m l i (j + 1) \<Longrightarrow> csc_at (sm_Store A) (cell_node m l i j) (cell_node m l i (j + 1)) = - (1 / to_east M l i j)"
    "in_grid m l (i + 1) j \<Longrightarrow> csc_at (sm_Store A) (cell_node m l i j) (cell_node m l (i + 1) j) = - (1 / to_south M l i j)"
    "in_grid m (l + 1) i j \<Longrightarrow> csc_at (sm_Store A) (cell_node m l i j) (cell_node m (l + 1) i j) = - (1 / to_below M l i j)"
    by (rule entry, erule joined.intros)+
qed

lemma chip_model:
  assumes "plain_grid c" "fits c (fs fp) w h" "grid_fits (nat (grid_rows c)) (nat (grid_cols c)) w h (fs fp)"
  shows "\<exists>m m1. alloc_grid_model fs rf ws c fp False = Inr m \<and> populate_R_model_grid fs m fp = Inr m1 \<and> grid_ready fs c fp w h m1"
proof -
  obtain m where m: "alloc_grid_model fs rf ws c fp False = Inr m" "grid_allocated fs c fp m"
    using alloc_grid_model_ok [OF assms(1)] by blast
  then have "grid_fits (gm_rows m) (gm_cols m) w h (fs fp)" using assms(3) by (simp add: grid_allocated_def)
  then show ?thesis using populate_R_grid_ok [OF m(2) assms(1,2)] m(1) by blast
qed

text \<open>
  C12: for a chip on at least two rows and two columns the builders of the steady and of the
  transient matrix return: no write leaves the coordinate arrays and their number of elements is the
  one allocated. The matrix is symmetric, has no positive entry off the diagonal, and its rows add
  up to the conductances of the nodes to the ambient, none of which is negative.
\<close>

theorem grid_matrices_conduct:
  assumes "plain_grid c" "fits c (fs fp) w h" "grid_fits (nat (grid_rows c)) (nat (grid_cols c)) w h (fs fp)"
    and "2 \<le> grid_rows c" "2 \<le> grid_cols c"
  shows "\<exists>m m1 A B. alloc_grid_model fs rf ws c fp False = Inr m \<and> populate_R_model_grid fs m fp = Inr m1 \<and>
    build_steady_grid_matrix m1 = Inr A \<and> build_transient_grid_matrix m1 = Inr B \<and> conducting m1 A \<and> conducting m1 B"
proof -
  obtain m m1 where m: "alloc_grid_model fs rf ws c fp False = Inr m" "populate_R_model_grid fs m fp = Inr m1" "grid_ready fs c fp w h m1"
    using chip_model [of c fs fp w h rf ws, OF assms(1-3)] by blast
  note p = ready_plain_R [OF m(3) assms(1,4,5)]
  show ?thesis
    using m(1,2) transient_matrix_ok [OF transient_wired [OF p]] steady_matrix_ok [OF steady_wired [OF p]]
      matrix_conducts [OF transient_wired [OF p]] matrix_conducts [OF steady_wired [OF p]] by blast
qed

lemma default_mesh: "nat (grid_rows default_thermal_config) = 64" "nat (grid_cols default_thermal_config) = 64"
  "2 \<le> grid_rows default_thermal_config" "2 \<le> grid_cols default_thermal_config"
  by (simp_all add: default_thermal_config_def)

lemma die_units: "n_units die = 1" by (simp add: die_def)

lemmas default_chip = default_plain die_fits die_on_grid [of 64 64, simplified]

lemma grid_matrices_conduct_witness:
  "\<exists>m m1 A. alloc_grid_model (\<lambda>_. die) (\<lambda>_. 0) [] default_thermal_config 0 False = Inr m \<and> populate_R_model_grid (\<lambda>_. die) m 0 = Inr m1 \<and>
    build_transient_grid_matrix m1 = Inr A \<and> conducting m1 A"
  using grid_matrices_conduct [of default_thermal_config "\<lambda>_. die" 0 "1 / 100" "1 / 100" "\<lambda>_. 0" "[]", unfolded default_mesh(1,2),
      OF default_chip default_mesh(3,4)] by blast

text \<open>
  C24: \<open>coo2csc\<close> loses nothing: from coordinate arrays with an element in the last column it fills
  arrays of compressed columns that hold every element with its row, its column and its value, each
  as often as before, and so every entry of the matrix is the sum of the elements at its place.
\<close>

theorem coo2csc_keeps_elements:
  assumes "length ro = length ts" "length co = n + 1" "length vo = length ts"
    and "\<forall>(x, y, v) \<in> set ts. x < n \<and> y < n" "\<exists>(x, y, v) \<in> set ts. y + 1 = n"
  shows "\<exists>R P V. coo2csc (length ts) (map fst ts) (map (fst \<circ> snd) ts) (map (snd \<circ> snd) ts) (ro, co, vo) = Inr (R, P, V) \<and>
    (let st = \<lparr>nc_nnz = length ts, nzval = V, rowind = R, colptr = P\<rparr> in
      csc_ok n st \<and> mset (csc_triples n st) = mset ts \<and> (\<forall>c < n. \<forall>r. csc_at st r c = coo_at ts r c))"
proof -
  obtain R P V where r: "coo2csc (length ts) (map fst ts) (map (fst \<circ> snd) ts) (map (snd \<circ> snd) ts) (ro, co, vo) = Inr (R, P, V)"
    "represents n ts \<lparr>nc_nnz = length ts, nzval = V, rowind = R, colptr = P\<rparr>"
    using coo2csc_represents [OF assms] by blast
  then show ?thesis using represents_at [OF r(2)] unfolding represents_def Let_def by blast
qed

lemma coo2csc_keeps_elements_witness:
  "\<exists>R P V. coo2csc 3 [1, 0, 1] [1, 0, 0] [5, 2, -1] ([0, 0, 0], [0, 0, 0], [0, 0, 0]) = Inr (R, P, V) \<and>
    mset (csc_triples 2 \<lparr>nc_nnz = 3, nzval = V, rowind = R, colptr = P\<rparr>) = {#(1, 1, 5), (0, 0, 2), (1, 0, -1)#}"
  using coo2csc_keeps_elements [of "[0, 0, 0]" "[(1, 1, 5), (0, 0, 2), (1, 0, -1)]" "[0, 0, 0]" 2 "[0, 0, 0]"]
  by (auto simp: Let_def eval_nat_numeral add_mset_commute)

text \<open>
  C39: the two builders read the resistances of a layer differently. Between neighbours in a row
  the transient matrix has the resistance \<open>ry\<close> of the layer and the steady one \<open>rx\<close>, between
  neighbours in a column it is the other way round; between layers both have \<open>rz\<close>. Unless the cells
  are square the two matrices are those of different chips.
\<close>

theorem builders_read_layers:
  assumes "plain_grid c" "fits c (fs fp) w h" "grid_fits (nat (grid_rows c)) (nat (grid_cols c)) w h (fs fp)"
    and "2 \<le> grid_rows c" "2 \<le> grid_cols c"
  shows "\<exists>m m1 A B. alloc_grid_model fs rf ws c fp False = Inr m \<and> populate_R_model_grid fs m fp = Inr m1 \<and>
    build_transient_grid_matrix m1 = Inr A \<and> build_steady_grid_matrix m1 = Inr B \<and>
    (\<forall>l i j. l < 4 \<and> i < nat (grid_rows c) \<and> j + 1 < nat (grid_cols c) \<longrightarrow>
      csc_at (sm_Store A) (cell_node m1 l i j) (cell_node m1 l i (j + 1)) = - (1 / ly_ry (gm_layers m1 ! l)) \<and>
      csc_at (sm_Store B) (cell_node m1 l i j) (cell_node m1 l i (j + 1)) = - (1 / ly_rx (gm_layers m1 ! l))) \<and>
    (\<forall>l i j. l < 4 \<and> i + 1 < nat (grid_rows c) \<and> j < nat (grid_cols c) \<longrightarrow>
      csc_at (sm_Store A) (cell_node m1 l i j) (cell_node m1 l (i + 1) j) = - (1 / ly_rx (gm_layers m1 ! l)) \<and>
      csc_at (sm_Store B) (cell_node m1 l i j) (cell_node m1 l (i + 1) j) = - (1 / ly_ry (gm_layers m1 ! l))) \<and>
    (\<forall>l i j. l + 1 < 4 \<and> i < nat (grid_rows c) \<and> j < nat (grid_cols c) \<longrightarrow>
      csc_at (sm_Store A) (cell_node m1 l i j) (cell_node m1 (l + 1) i j) = - (1 / ly_rz (gm_layers m1 ! l)) \<and>
      csc_at (sm_Store B) (cell_node m1 l i j) (cell_node m1 (l + 1) i j) = - (1 / ly_rz (gm_layers m1 ! l)))"
proof -
  obtain m m1 where m: "alloc_grid_model fs rf ws c fp False = Inr m" "populate_R_model_grid fs m fp = Inr m1" "grid_ready fs c fp w h m1"
    using chip_model [of c fs fp w h rf ws, OF assms(1-3)] by blast
  note p = ready_plain_R [OF m(3) assms(1,4,5)]
  obtain A B where A: "build_transient_grid_matrix m1 = Inr A" "grid_matrix transient_resistances m1 A"
    and B: "build_steady_grid_matrix m1 = Inr B" "grid_matrix steady_resistances m1 B"
    using transient_matrix_ok [OF transient_wired [OF p]] steady_matrix_ok [OF steady_wired [OF p]] by blast
  have g: "in_grid m1 l i j \<longleftrightarrow> l < 4 \<and> i < nat (grid_rows c) \<and> j < nat (grid_cols c)" for l i j
    using readyD(2-4) [OF m(3)] by (simp add: in_grid_def)
  show ?thesis
    using m(1,2) A(1) B(1) matrix_neighbours [OF transient_wired [OF p] A(2), unfolded g] matrix_neighbours [OF steady_wired [OF p] B(2), unfolded g]
    by (intro exI [of _ m] exI [of _ m1] exI [of _ A] exI [of _ B]) (simp add: transient_mesh_def steady_mesh_def)
qed

lemma builders_read_layers_witness:
  "\<exists>m m1 A. alloc_grid_model (\<lambda>_. die) (\<lambda>_. 0) [] default_thermal_config 0 False = Inr m \<and> populate_R_model_grid (\<lambda>_. die) m 0 = Inr m1 \<and>
    build_transient_grid_matrix m1 = Inr A \<and> csc_at (sm_Store A) (cell_node m1 0 0 0) (cell_node m1 0 0 (0 + 1)) = - (1 / ly_ry (gm_layers m1 ! 0))"
proof -
  have "(0::nat) < 4 \<and> (0::nat) < 64 \<and> 0 + 1 < (64::nat)" by simp
  then show ?thesis
    using builders_read_layers [of default_thermal_config "\<lambda>_. die" 0 "1 / 100" "1 / 100" "\<lambda>_. 0" "[]", unfolded default_mesh(1,2),
      OF default_chip default_mesh(3,4)] by blast
qed

section \<open>Steady state\<close>

lemma powered_total':
  assumes "grid_ready fs c fp w h m" "grid_fits (nat (grid_rows c)) (nat (grid_cols c)) w h (fs fp)"
    and "powered fs m (take (4 * n_units (fs fp)) pw @ replicate EXTRA 0) p" "length pw = 4 * n_units (fs fp) + EXTRA"
  shows "(\<Sum>n < grid_cells m. gv_data p ! n) = (\<Sum>k < 4 * n_units (fs fp). pw ! k)"
  unfolding powered_total [OF assms(1-3)] using assms(4) by (intro sum.cong) (simp_all add: nth_append)

text \<open>
  C11: allocated, with its resistances computed and its equations solved, the grid model of a chip
  returns from its steady state, and the heat that leaves through the conductances to the
  ambient is the power of the blocks. Every block has the temperature that the mapping mode takes from
  its cells, and the extra nodes have those of the package.
\<close>

theorem grid_steady_conserves_heat:
  assumes "plain_grid c" "fits c (fs fp) w h" "grid_fits (nat (grid_rows c)) (nat (grid_cols c)) w h (fs fp)"
    and "2 \<le> grid_rows c" "2 \<le> grid_cols c" "solves dgssv"
    and "length pw = 4 * n_units (fs fp) + EXTRA" "length temp = 4 * n_units (fs fp) + EXTRA"
  shows "\<exists>m m1 m2 pw' temp'. alloc_grid_model fs rf ws c fp False = Inr m \<and> populate_R_model_grid fs m fp = Inr m1 \<and>
    steady_state_temp_grid dgssv fs m1 pw temp = Inr (m2, pw', temp') \<and>
    (let t = gv_data (gm_last_steady m2) in length t = grid_dim m1 \<and>
      (\<Sum>n < grid_dim m1. ambient_g m1 n * (t ! n - ambient c)) = (\<Sum>k < 4 * n_units (fs fp). pw ! k) \<and>
      (\<forall>l < 4. \<forall>u < n_units (fs fp). temp' ! (l * n_units (fs fp) + u) = chip_temp fs fp m1 t l u) \<and>
      (\<forall>k < EXTRA. temp' ! (4 * n_units (fs fp) + k) = t ! (grid_cells m1 + k)))"
proof -
  obtain m m1 where m: "alloc_grid_model fs rf ws c fp False = Inr m" "populate_R_model_grid fs m fp = Inr m1" "grid_ready fs c fp w h m1"
    using chip_model [of c fs fp w h rf ws, OF assms(1-3)] by blast
  obtain m2 pw' temp' p t where r: "steady_state_temp_grid dgssv fs m1 pw temp = Inr (m2, pw', temp')"
    "powered fs m1 (take (4 * n_units (fs fp)) pw @ replicate EXTRA 0) p" "grid_balance m1 p t" "gv_data (gm_last_steady m2) = t"
    "\<forall>l < 4. \<forall>u < n_units (fs fp). temp' ! (l * n_units (fs fp) + u) = chip_temp fs fp m1 t l u"
    "\<forall>k < EXTRA. temp' ! (4 * n_units (fs fp) + k) = t ! (grid_cells m1 + k)"
    using steady_grid_ok [of fs c fp w h m1 dgssv pw temp, OF m(3) assms(1,4,5,3,6-8)] by auto
  have "(\<Sum>n < grid_dim m1. ambient_g m1 n * (t ! n - ambient c)) = (\<Sum>k < 4 * n_units (fs fp). pw ! k)"
    using grid_balance_heat [OF transient_wired [OF ready_plain_R [OF m(3) assms(1,4,5)]] r(3)] powered_total' [OF m(3) assms(3) r(2) assms(7)]
      readyD(1) [OF m(3)] by simp
  moreover have "length t = grid_dim m1" using r(3) by (simp add: grid_balance_def)
  ultimately show ?thesis using m(1,2) r by (intro exI [of _ m] exI [of _ m1] exI [of _ m2] exI [of _ pw'] exI [of _ temp']) (simp add: Let_def)
qed

lemma die_vector: "length ((7::real) # replicate 15 0) = 4 * n_units die + EXTRA" "length (replicate 16 (0::real)) = 4 * n_units die + EXTRA"
  by (simp_all add: die_units EXTRA_def)

lemma grid_steady_conserves_heat_witness:
  "\<exists>m1 m2 pw' temp'. steady_state_temp_grid reference_dgssv (\<lambda>_. die) m1 (7 # replicate 15 0) (replicate 16 0) = Inr (m2, pw', temp') \<and>
    (\<Sum>n < grid_dim m1. ambient_g m1 n * (gv_data (gm_last_steady m2) ! n - ambient default_thermal_config)) = 7"
proof -
  have sum: "(\<Sum>k < 4 * n_units die. (7 # replicate 15 (0::real)) ! k) = 7" by (simp add: die_units eval_nat_numeral)
  obtain m1 m2 pw' temp' where "steady_state_temp_grid reference_dgssv (\<lambda>_. die) m1 (7 # replicate 15 0) (replicate 16 0) = Inr (m2, pw', temp')"
    "(\<Sum>n < grid_dim m1. ambient_g m1 n * (gv_data (gm_last_steady m2) ! n - ambient default_thermal_config)) =
      (\<Sum>k < 4 * n_units die. (7 # replicate 15 (0::real)) ! k)"
    using grid_steady_conserves_heat [of default_thermal_config "\<lambda>_. die" 0 "1 / 100" "1 / 100" reference_dgssv "7 # replicate 15 0" "replicate 16 0"
        "\<lambda>_. 0" "[]", unfolded default_mesh(1,2), OF default_chip default_mesh(3,4) reference_solves die_vector] unfolding Let_def by blast
  then show ?thesis unfolding sum by blast
qed

text \<open>
  C15: more power nowhere makes a block or a node of the package cooler at the steady state of the
  grid, and when no power is negative none of them is cooler than the ambient.
\<close>

theorem grid_steady_monotone:
  assumes "plain_grid c" "fits c (fs fp) w h" "grid_fits (nat (grid_rows c)) (nat (grid_cols c)) w h (fs fp)"
    and "2 \<le> grid_rows c" "2 \<le> grid_cols c" "solves dgssv"
    and "length pw = 4 * n_units (fs fp) + EXTRA" "length qw = 4 * n_units (fs fp) + EXTRA" "length temp = 4 * n_units (fs fp) + EXTRA"
    and "\<forall>k < 4 * n_units (fs fp). 0 \<le> pw ! k \<and> pw ! k \<le> qw ! k"
  shows "\<exists>m m1 m2 m3 pw' qw' t u. alloc_grid_model fs rf ws c fp False = Inr m \<and> populate_R_model_grid fs m fp = Inr m1 \<and>
    steady_state_temp_grid dgssv fs m1 pw temp = Inr (m2, pw', t) \<and> steady_state_temp_grid dgssv fs m1 qw temp = Inr (m3, qw', u) \<and>
    (\<forall>k < 4 * n_units (fs fp) + EXTRA. ambient c \<le> t ! k \<and> t ! k \<le> u ! k)"
proof -
  obtain m m1 where m: "alloc_grid_model fs rf ws c fp False = Inr m" "populate_R_model_grid fs m fp = Inr m1" "grid_ready fs c fp w h m1"
    using chip_model [of c fs fp w h rf ws, OF assms(1-3)] by blast
  note w = transient_wired [OF ready_plain_R [OF m(3) assms(1,4,5)]] and ok = steady_grid_ok [of fs c fp w h m1 dgssv, OF m(3) assms(1,4,5,3,6)]
  let ?n = "n_units (fs fp)" and ?cut = "\<lambda>b. take (4 * n_units (fs fp)) b @ replicate EXTRA (0::real)"
  obtain m2 pw' t p T where t: "steady_state_temp_grid dgssv fs m1 pw temp = Inr (m2, pw', t)" "powered fs m1 (?cut pw) p" "grid_balance m1 p T"
    "\<forall>l < 4. \<forall>u < ?n. t ! (l * ?n + u) = chip_temp fs fp m1 T l u" "\<forall>k < EXTRA. t ! (4 * ?n + k) = T ! (grid_cells m1 + k)"
    using ok [OF assms(7,9)] by auto
  obtain m3 qw' u q U where u: "steady_state_temp_grid dgssv fs m1 qw temp = Inr (m3, qw', u)" "powered fs m1 (?cut qw) q" "grid_balance m1 q U"
    "\<forall>l < 4. \<forall>v < ?n. u ! (l * ?n + v) = chip_temp fs fp m1 U l v" "\<forall>k < EXTRA. u ! (4 * ?n + k) = U ! (grid_cells m1 + k)"
    using ok [OF assms(8,9)] by auto
  have cut: "?cut b ! k = b ! k" if "k < 4 * ?n" "length b = 4 * ?n + EXTRA" for b k using that by (simp add: nth_append)
  have "\<forall>k < grid_cells m1. gv_data p ! k \<le> gv_data q ! k"
    using powered_mono [OF m(3) assms(3) t(2) u(2)] cut [OF _ assms(7)] cut [OF _ assms(8)] assms(10) by simp
  note TU = grid_balance_mono [OF w t(3) u(3) this]
  have "\<forall>k < grid_cells m1. 0 \<le> gv_data p ! k"
    using powered_nonneg [OF m(3) assms(3) t(2)] cut [OF _ assms(7)] assms(10) by simp
  note amb = grid_balance_above [OF w t(3) this, unfolded readyD(1) [OF m(3)]]
  note dim = ready_dim(3) [OF m(3) assms(1)]
  have "ambient c \<le> t ! k \<and> t ! k \<le> u ! k" if k: "k < 4 * ?n + EXTRA" for k
  proof (cases "k < 4 * ?n")
    case True
    then obtain l v where l: "l < 4" "v < ?n" "k = l * ?n + v"
      using that div_mult_mod_eq [of k ?n, symmetric] by (metis less_mult_imp_div_less mod_less_divisor mult_0_right not_gr_zero not_less_zero)
    have "ambient c \<le> chip_temp fs fp m1 T l v \<and> chip_temp fs fp m1 T l v \<le> Max (insert 0 (set T))"
      by (rule chip_temp_between [OF m(3) assms(3) l(1,2)]) (use amb dim t(3) in \<open>auto simp: grid_balance_def\<close>)
    moreover have "chip_temp fs fp m1 T l v \<le> chip_temp fs fp m1 U l v"
      by (rule chip_temp_mono [OF m(3) assms(3) l(1,2)]) (use TU dim in simp)
    ultimately show ?thesis using t(4) u(4) l by simp
  next
    case False
    then obtain e where e: "e < EXTRA" "k = 4 * ?n + e" using k by (metis add_diff_inverse_nat nat_add_left_cancel_less)
    then show ?thesis using t(5) u(5) amb [of "grid_cells m1 + e"] TU [of "grid_cells m1 + e"] dim by simp
  qed
  then show ?thesis using m(1,2) t(1) u(1) by blast
qed

lemma grid_steady_monotone_witness:
  "\<exists>m1 m2 m3 pw' qw' t u. steady_state_temp_grid reference_dgssv (\<lambda>_. die) m1 (7 # replicate 15 0) (replicate 16 0) = Inr (m2, pw', t) \<and>
    steady_state_temp_grid reference_dgssv (\<lambda>_. die) m1 (9 # replicate 15 0) (replicate 16 0) = Inr (m3, qw', u) \<and>
    ambient default_thermal_config \<le> t ! 0 \<and> t ! 0 \<le> u ! 0"
proof -
  have k: "\<forall>k < 4 * n_units die. 0 \<le> (7 # replicate 15 (0::real)) ! k \<and> (7 # replicate 15 (0::real)) ! k \<le> (9 # replicate 15 0) ! k"
    by (auto simp: die_units less_Suc_eq numeral_eq_Suc)
  have l: "length ((9::real) # replicate 15 0) = 4 * n_units die + EXTRA" by (simp add: die_units EXTRA_def)
  have z: "0 < 4 * n_units die + EXTRA" by (simp add: EXTRA_def)
  show ?thesis
    using grid_steady_monotone [of default_thermal_config "\<lambda>_. die" 0 "1 / 100" "1 / 100" reference_dgssv "7 # replicate 15 0" "9 # replicate 15 0"
        "replicate 16 0" "\<lambda>_. 0" "[]", unfolded default_mesh(1,2), OF default_chip default_mesh(3,4) reference_solves die_vector(1) l die_vector(2) k] z
    by metis
qed

section \<open>Transients\<close>

text \<open>
  The states a process reaches that simulates one chip: the model as the code initialises it, with
  the fields of the matrices null, then calls with steps of any positive length.
\<close>

definition fresh_state :: "bool \<Rightarrow> grid_model_t \<Rightarrow> transient_state" where
  "fresh_state first m = \<lparr>ts_first_call = first, ts_model = m, ts_G = None, ts_C = None, ts_last_temp = []\<rparr>"

inductive simulated :: "superlu \<Rightarrow> flp_store \<Rightarrow> nat \<Rightarrow> grid_model_t \<Rightarrow> transient_state \<Rightarrow> bool" for dgssv fs n m where
  fresh: "simulated dgssv fs n m (fresh_state True m)"
| call: "simulated dgssv fs n m s \<Longrightarrow> length pw = n \<Longrightarrow> 0 < dt \<Longrightarrow> (\<forall>b. temp = Some b \<longrightarrow> length b = n) \<Longrightarrow>
    temp = None \<longrightarrow> \<not> ts_first_call s \<Longrightarrow> compute_temp_grid dgssv fs s pw temp dt = Inr (s', pw') \<Longrightarrow> simulated dgssv fs n m s'"

lemma chip_model_C:
  assumes "plain_grid c" "fits c (fs fp) w h" "grid_fits (nat (grid_rows c)) (nat (grid_cols c)) w h (fs fp)" "heat_ok c"
  shows "\<exists>m m1 m2. alloc_grid_model fs rf ws c fp False = Inr m \<and> populate_R_model_grid fs m fp = Inr m1 \<and> populate_C_model_grid fs m1 fp = Inr m2 \<and>
    grid_ready fs c fp w h m2 \<and> storing m2"
proof -
  obtain m m1 where m: "alloc_grid_model fs rf ws c fp False = Inr m" "populate_R_model_grid fs m fp = Inr m1" "grid_ready fs c fp w h m1"
    using chip_model [of c fs fp w h rf ws, OF assms(1-3)] by blast
  have "0 < nat (grid_rows c)" "0 < nat (grid_cols c)" using assms(3) by (simp_all add: grid_fits_def)
  then show ?thesis using populate_C_grid_ok [OF m(3) assms(1,2,4)] m(1,2) by blast
qed

lemma simulated_inv:
  assumes "simulated dgssv fs (4 * n_units (fs fp) + EXTRA) m s" "grid_ready fs c fp w h m" "storing m" "plain_grid c"
    and "2 \<le> grid_rows c" "2 \<le> grid_cols c" "grid_fits (nat (grid_rows c)) (nat (grid_cols c)) w h (fs fp)" "solves dgssv"
  shows "transient_inv fs c fp w h s \<and> (\<not> ts_first_call s \<longrightarrow> length (ts_last_temp s) = 4 * n_units (fs fp) + EXTRA) \<and>
    (\<exists>v. ts_model s = m\<lparr>gm_last_trans := v\<rparr>)"
  using assms(1)
proof (induction rule: simulated.induct)
  case fresh
  have "\<exists>v. ts_model (fresh_state True m) = m\<lparr>gm_last_trans := v\<rparr>"
    by (rule exI [of _ "gm_last_trans m"]) (simp add: fresh_state_def)
  then show ?case using assms(2,3) by (simp add: transient_inv_def fresh_state_def)
next
  case (call s pw dt temp s' pw')
  then have inv: "transient_inv fs c fp w h s" and last: "case temp of None \<Rightarrow> length (ts_last_temp s) = 4 * n_units (fs fp) + EXTRA
      | Some b \<Rightarrow> length b = 4 * n_units (fs fp) + EXTRA" by (auto split: option.split)
  obtain v where v: "ts_model s = m\<lparr>gm_last_trans := v\<rparr>" using call by blast
  obtain s2 pw2 where s2: "compute_temp_grid dgssv fs s pw temp dt = Inr (s2, pw2)" "transient_inv fs c fp w h s2"
    "length (ts_last_temp s2) = 4 * n_units (fs fp) + EXTRA" "ts_model s2 = (ts_model s)\<lparr>gm_last_trans := gm_last_trans (ts_model s2)\<rparr>"
    using compute_temp_grid_ok [OF inv assms(4-8) call.hyps(3,2) last] by auto
  have e: "s2 = s'" using s2(1) call.hyps(6) by simp
  have again: "m\<lparr>gm_last_trans := v\<rparr>\<lparr>gm_last_trans := u\<rparr> = m\<lparr>gm_last_trans := u\<rparr>" for u by simp
  have "ts_model s' = m\<lparr>gm_last_trans := gm_last_trans (ts_model s')\<rparr>" using s2(4) unfolding e v again .
  with s2(2,3) show ?case unfolding e by (intro conjI impI exI [of _ "gm_last_trans (ts_model s')"])
qed

lemma chip_temps:
  "chip_cap (m\<lparr>gm_last_trans := v\<rparr>) = chip_cap m" "node_power (m\<lparr>gm_last_trans := v\<rparr>) = node_power m"
  "powered fs (m\<lparr>gm_last_trans := v\<rparr>) = powered fs m"
  "euler_step transient_resistances (m\<lparr>gm_last_trans := v\<rparr>) = euler_step transient_resistances m"
proof -
  show "chip_cap (m\<lparr>gm_last_trans := v\<rparr>) = chip_cap m"
    by (simp add: chip_cap_def node_cap_def package_cap_def fun_eq_iff matrix_temps)
  show "node_power (m\<lparr>gm_last_trans := v\<rparr>) = node_power m" by (simp add: fun_eq_iff node_power_def matrix_temps)
  show "powered fs (m\<lparr>gm_last_trans := v\<rparr>) = powered fs m"
    by (simp add: fun_eq_iff powered_def in_grid_def cell_node_def cell_power_def cell_width_def cell_height_def usable_temps)
  show "euler_step transient_resistances (m\<lparr>gm_last_trans := v\<rparr>) = euler_step transient_resistances m"
    by (simp add: fun_eq_iff euler_step_def conductance_def matrix_temps)
qed

text \<open>A call on a reached state.\<close>

lemma simulated_call:
  assumes "simulated dgssv fs (4 * n_units (fs fp) + EXTRA) m s" "grid_ready fs c fp w h m" "storing m" "plain_grid c"
    and "2 \<le> grid_rows c" "2 \<le> grid_cols c" "grid_fits (nat (grid_rows c)) (nat (grid_cols c)) w h (fs fp)" "solves dgssv" "0 < dt"
    and "length pw = 4 * n_units (fs fp) + EXTRA" "\<forall>b. temp = Some b \<longrightarrow> length b = 4 * n_units (fs fp) + EXTRA" "temp = None \<longrightarrow> \<not> ts_first_call s"
  shows "\<exists>s' pw' p T U. compute_temp_grid dgssv fs s pw temp dt = Inr (s', pw') \<and> simulated dgssv fs (4 * n_units (fs fp) + EXTRA) m s' \<and>
    powered fs m (take (4 * n_units (fs fp)) pw @ replicate EXTRA 0) p \<and> started fs s temp T \<and>
    euler_step transient_resistances m (chip_cap m) (node_power m p) dt T U \<and> gv_data (gm_last_trans (ts_model s')) = U"
proof -
  have inv: "transient_inv fs c fp w h s" and last: "case temp of None \<Rightarrow> length (ts_last_temp s) = 4 * n_units (fs fp) + EXTRA
      | Some b \<Rightarrow> length b = 4 * n_units (fs fp) + EXTRA"
    using simulated_inv [OF assms(1-8)] assms(11,12) by (auto split: option.split)
  obtain v where v: "ts_model s = m\<lparr>gm_last_trans := v\<rparr>" using simulated_inv [OF assms(1-8)] by blast
  obtain s' pw' p T U where r: "compute_temp_grid dgssv fs s pw temp dt = Inr (s', pw')"
    "powered fs (ts_model s) (take (4 * n_units (fs fp)) pw @ replicate EXTRA 0) p" "started fs s temp T"
    "euler_step transient_resistances (ts_model s) (chip_cap (ts_model s)) (node_power (ts_model s) p) dt T U" "gv_data (gm_last_trans (ts_model s')) = U"
    using compute_temp_grid_ok [OF inv assms(4-9,10) last] by auto
  have "simulated dgssv fs (4 * n_units (fs fp) + EXTRA) m s'" by (rule simulated.call [OF assms(1,10,9,11,12) r(1)])
  then show ?thesis using r unfolding v chip_temps by blast
qed

text \<open>
  C13: on a chip whose resistances and capacitances the code has computed, from every state that calls
  can reach another call of \<open>compute_temp_grid\<close> returns, and over its step the heat stored in the
  nodes grows by the power of the blocks less what flows to the ambient at the new temperatures,
  times the length of the step. It starts from the temperatures given for the blocks, or else from
  those of the last call.
\<close>

theorem grid_transient_energy:
  assumes "plain_grid c" "fits c (fs fp) w h" "grid_fits (nat (grid_rows c)) (nat (grid_cols c)) w h (fs fp)" "heat_ok c"
    and "2 \<le> grid_rows c" "2 \<le> grid_cols c" "solves dgssv" "0 < dt" "N = 4 * n_units (fs fp) + EXTRA" "length pw = N"
    and "\<forall>b. temp = Some b \<longrightarrow> length b = N"
  shows "\<exists>m m1 m2. alloc_grid_model fs rf ws c fp False = Inr m \<and> populate_R_model_grid fs m fp = Inr m1 \<and> populate_C_model_grid fs m1 fp = Inr m2 \<and>
    (\<forall>s. simulated dgssv fs N m2 s \<and> (temp = None \<longrightarrow> \<not> ts_first_call s) \<longrightarrow>
      (\<exists>s' pw' T. compute_temp_grid dgssv fs s pw temp dt = Inr (s', pw') \<and> simulated dgssv fs N m2 s' \<and> started fs s temp T \<and>
        (let U = gv_data (gm_last_trans (ts_model s')) in
          (\<Sum>n < grid_dim m2. chip_cap m2 n * (U ! n - T ! n)) =
            dt * ((\<Sum>k < 4 * n_units (fs fp). pw ! k) - (\<Sum>n < grid_dim m2. ambient_g m2 n * (U ! n - ambient c))))))"
proof -
  obtain m m1 m2 where m: "alloc_grid_model fs rf ws c fp False = Inr m" "populate_R_model_grid fs m fp = Inr m1"
    "populate_C_model_grid fs m1 fp = Inr m2" "grid_ready fs c fp w h m2" "storing m2"
    using chip_model_C [of c fs fp w h rf ws, OF assms(1-4)] by blast
  have "\<exists>s' pw' T. compute_temp_grid dgssv fs s pw temp dt = Inr (s', pw') \<and> simulated dgssv fs N m2 s' \<and> started fs s temp T \<and>
        (let U = gv_data (gm_last_trans (ts_model s')) in
          (\<Sum>n < grid_dim m2. chip_cap m2 n * (U ! n - T ! n)) =
            dt * ((\<Sum>k < 4 * n_units (fs fp). pw ! k) - (\<Sum>n < grid_dim m2. ambient_g m2 n * (U ! n - ambient c))))"
    if s: "simulated dgssv fs N m2 s" "temp = None \<longrightarrow> \<not> ts_first_call s" for s
  proof -
    obtain s' pw' p T U where r: "compute_temp_grid dgssv fs s pw temp dt = Inr (s', pw')" "simulated dgssv fs N m2 s'"
      "powered fs m2 (take (4 * n_units (fs fp)) pw @ replicate EXTRA 0) p" "started fs s temp T"
      "euler_step transient_resistances m2 (chip_cap m2) (node_power m2 p) dt T U" "gv_data (gm_last_trans (ts_model s')) = U"
      using simulated_call [of dgssv fs fp m2 s c w h dt pw temp, OF s(1) [unfolded assms(9)] m(4,5) assms(1,5,6,3,7,8) assms(10,11) [unfolded assms(9)] s(2)]
      unfolding assms(9) by blast
    have "(\<Sum>n < grid_cells m2. gv_data p ! n) = (\<Sum>k < 4 * n_units (fs fp). pw ! k)"
      by (rule powered_total' [OF m(4) assms(3) r(3)]) (simp add: assms(9,10))
    then have "(\<Sum>n < grid_dim m2. chip_cap m2 n * (U ! n - T ! n)) =
        dt * ((\<Sum>k < 4 * n_units (fs fp). pw ! k) - (\<Sum>n < grid_dim m2. ambient_g m2 n * (U ! n - ambient c)))"
      using euler_energy [OF transient_wired [OF ready_plain_R [OF m(4) assms(1,5,6)]] r(5)] readyD(1) [OF m(4)] by simp
    then show ?thesis using r(1,2,4,6) unfolding Let_def by blast
  qed
  then show ?thesis using m(1-3) by blast
qed

lemma die_sum: "(\<Sum>k < 4 * n_units die. (7 # replicate 15 (0::real)) ! k) = 7"
  by (simp add: die_units eval_nat_numeral)

lemma die_length: "16 = 4 * n_units die + EXTRA" "length ((7::real) # replicate 15 0) = 16" "\<forall>b. Some (replicate 16 x) = Some b \<longrightarrow> length b = 16"
  by (auto simp: die_units EXTRA_def)

lemma grid_transient_energy_witness:
  "\<exists>m2 s' pw' T. compute_temp_grid reference_dgssv (\<lambda>_. die) (fresh_state True m2) (7 # replicate 15 0) (Some (replicate 16 320)) 1 = Inr (s', pw') \<and>
    (\<Sum>n < grid_dim m2. chip_cap m2 n * (gv_data (gm_last_trans (ts_model s')) ! n - T ! n)) =
      1 * (7 - (\<Sum>n < grid_dim m2. ambient_g m2 n * (gv_data (gm_last_trans (ts_model s')) ! n - ambient default_thermal_config)))"
proof -
  obtain m2 where m2: "\<forall>s. simulated reference_dgssv (\<lambda>_. die) 16 m2 s \<and> (Some (replicate 16 320) = None \<longrightarrow> \<not> ts_first_call s) \<longrightarrow>
      (\<exists>s' pw' T. compute_temp_grid reference_dgssv (\<lambda>_. die) s (7 # replicate 15 0) (Some (replicate 16 320)) 1 = Inr (s', pw') \<and>
        simulated reference_dgssv (\<lambda>_. die) 16 m2 s' \<and> started (\<lambda>_. die) s (Some (replicate 16 320)) T \<and>
        (\<Sum>n < grid_dim m2. chip_cap m2 n * (gv_data (gm_last_trans (ts_model s')) ! n - T ! n)) =
          1 * ((\<Sum>k < 4 * n_units die. (7 # replicate 15 (0::real)) ! k) -
            (\<Sum>n < grid_dim m2. ambient_g m2 n * (gv_data (gm_last_trans (ts_model s')) ! n - ambient default_thermal_config))))"
    using grid_transient_energy [of default_thermal_config "\<lambda>_. die" 0 "1 / 100" "1 / 100" reference_dgssv 1 16 "7 # replicate 15 0"
        "Some (replicate 16 320)" "\<lambda>_. 0" "[]", unfolded default_mesh(1,2),
        OF default_chip die_heat default_mesh(3,4) reference_solves zero_less_one die_length] unfolding Let_def by blast
  then show ?thesis unfolding die_sum using simulated.fresh [of reference_dgssv "\<lambda>_. die" 16 m2] by blast
qed

text \<open>
  C14: a step of \<open>compute_temp_grid\<close> does not overshoot. Against the steady state of the same
  power, nodes that start nowhere warmer end nowhere warmer, nodes that start nowhere cooler
  end nowhere cooler, and the steady state itself is kept. Without negative power nodes that
  start nowhere cooler than the ambient do not become cooler than it.
\<close>

theorem grid_transient_bounded:
  assumes "plain_grid c" "fits c (fs fp) w h" "grid_fits (nat (grid_rows c)) (nat (grid_cols c)) w h (fs fp)" "heat_ok c"
    and "2 \<le> grid_rows c" "2 \<le> grid_cols c" "solves dgssv" "0 < dt" "N = 4 * n_units (fs fp) + EXTRA" "length pw = N" "length t = N"
    and "\<forall>b. temp = Some b \<longrightarrow> length b = N"
  shows "\<exists>m m1 m2 m3 qw u. alloc_grid_model fs rf ws c fp False = Inr m \<and> populate_R_model_grid fs m fp = Inr m1 \<and>
    populate_C_model_grid fs m1 fp = Inr m2 \<and> steady_state_temp_grid dgssv fs m2 pw t = Inr (m3, qw, u) \<and>
    (\<forall>s. simulated dgssv fs N m2 s \<and> (temp = None \<longrightarrow> \<not> ts_first_call s) \<longrightarrow>
      (\<exists>s' pw' T. compute_temp_grid dgssv fs s pw temp dt = Inr (s', pw') \<and> started fs s temp T \<and>
        (let U = gv_data (gm_last_trans (ts_model s')); S = gv_data (gm_last_steady m3); D = grid_dim m2 in
          ((\<forall>n < D. T ! n \<le> S ! n) \<longrightarrow> (\<forall>n < D. U ! n \<le> S ! n)) \<and>
          ((\<forall>n < D. S ! n \<le> T ! n) \<longrightarrow> (\<forall>n < D. S ! n \<le> U ! n)) \<and>
          ((\<forall>k < 4 * n_units (fs fp). 0 \<le> pw ! k) \<and> (\<forall>n < D. ambient c \<le> T ! n) \<longrightarrow> (\<forall>n < D. ambient c \<le> U ! n)))))"
proof -
  obtain m m1 m2 where m: "alloc_grid_model fs rf ws c fp False = Inr m" "populate_R_model_grid fs m fp = Inr m1"
    "populate_C_model_grid fs m1 fp = Inr m2" "grid_ready fs c fp w h m2" "storing m2"
    using chip_model_C [of c fs fp w h rf ws, OF assms(1-4)] by blast
  note wired = transient_wired [OF ready_plain_R [OF m(4) assms(1,5,6)]] and amb = readyD(1) [OF m(4)]
  let ?cut = "take (4 * n_units (fs fp)) pw @ replicate EXTRA 0" and ?D = "grid_dim m2"
  obtain m3 qw u q S where steady: "steady_state_temp_grid dgssv fs m2 pw t = Inr (m3, qw, u)" "powered fs m2 ?cut q" "grid_balance m2 q S"
    "gv_data (gm_last_steady m3) = S"
    using steady_grid_ok [OF m(4) assms(1,5,6,3,7) assms(10,11) [unfolded assms(9)]] by auto
  have "\<exists>s' pw' T. compute_temp_grid dgssv fs s pw temp dt = Inr (s', pw') \<and> started fs s temp T \<and>
        (let U = gv_data (gm_last_trans (ts_model s')) in
          ((\<forall>n < ?D. T ! n \<le> S ! n) \<longrightarrow> (\<forall>n < ?D. U ! n \<le> S ! n)) \<and>
          ((\<forall>n < ?D. S ! n \<le> T ! n) \<longrightarrow> (\<forall>n < ?D. S ! n \<le> U ! n)) \<and>
          ((\<forall>k < 4 * n_units (fs fp). 0 \<le> pw ! k) \<and> (\<forall>n < ?D. ambient c \<le> T ! n) \<longrightarrow> (\<forall>n < ?D. ambient c \<le> U ! n)))"
    if s: "simulated dgssv fs N m2 s" "temp = None \<longrightarrow> \<not> ts_first_call s" for s
  proof -
    obtain s' pw' p T U where r: "compute_temp_grid dgssv fs s pw temp dt = Inr (s', pw')"
      "powered fs m2 ?cut p" "started fs s temp T"
      "euler_step transient_resistances m2 (chip_cap m2) (node_power m2 p) dt T U" "gv_data (gm_last_trans (ts_model s')) = U"
      using simulated_call [of dgssv fs fp m2 s c w h dt pw temp, OF s(1) [unfolded assms(9)] m(4,5) assms(1,5,6,3,7,8) assms(10,12) [unfolded assms(9)] s(2)]
      by blast
    have cap: "\<forall>n < ?D. 0 \<le> chip_cap m2 n" using chip_cap_nonneg [OF m(5)] by simp
    have P: "node_power m2 p n = node_power m2 q n" for n
      using powered_mono [OF m(4) assms(3) r(2) steady(2)] powered_mono [OF m(4) assms(3) steady(2) r(2)]
      by (auto simp: node_power_def intro: antisym)
    have S: "euler_step transient_resistances m2 (chip_cap m2) (node_power m2 q) dt S S" by (rule euler_fixed [OF steady(3)])
    have below: "U ! n \<le> S ! n" if "\<forall>n < ?D. T ! n \<le> S ! n" "n < ?D" for n
      using euler_mono [OF wired assms(8) cap r(4) S _ that(2)] that(1) P by simp
    have above: "S ! n \<le> U ! n" if "\<forall>n < ?D. S ! n \<le> T ! n" "n < ?D" for n
      using euler_mono [OF wired assms(8) cap S r(4) _ that(2)] that(1) P by simp
    have ambient: "ambient c \<le> U ! n" if pos: "\<forall>k < 4 * n_units (fs fp). 0 \<le> pw ! k" and T: "\<forall>n < ?D. ambient c \<le> T ! n" and n: "n < ?D" for n
    proof -
      let ?z = "p\<lparr>gv_data := replicate (grid_cells m2) 0\<rparr>" and ?A = "replicate ?D (ambient c)"
      have "\<forall>k < 4 * n_units (fs fp). 0 \<le> ?cut ! k" using pos assms(9,10) by (simp add: nth_append)
      then have "\<forall>n < ?D. node_power m2 ?z n \<le> node_power m2 p n"
        using powered_nonneg [OF m(4) assms(3) r(2)] by (simp add: node_power_def)
      moreover have "euler_step transient_resistances m2 (chip_cap m2) (node_power m2 ?z) dt ?A ?A"
        unfolding amb [symmetric] by (rule euler_fixed [OF grid_balance_ambient [OF wired]]) simp
      ultimately show ?thesis using euler_mono [OF wired assms(8) cap _ r(4) _ n, of "node_power m2 ?z" ?A ?A] T n by simp
    qed
    have all: "((\<forall>n < ?D. T ! n \<le> S ! n) \<longrightarrow> (\<forall>n < ?D. U ! n \<le> S ! n)) \<and> ((\<forall>n < ?D. S ! n \<le> T ! n) \<longrightarrow> (\<forall>n < ?D. S ! n \<le> U ! n)) \<and>
        ((\<forall>k < 4 * n_units (fs fp). 0 \<le> pw ! k) \<and> (\<forall>n < ?D. ambient c \<le> T ! n) \<longrightarrow> (\<forall>n < ?D. ambient c \<le> U ! n))"
      using below above ambient by simp
    show ?thesis
      by (rule exI [of _ s'], rule exI [of _ pw'], rule exI [of _ T], unfold Let_def r(5), rule conjI [OF r(1) conjI [OF r(3) all]])
  qed
  then show ?thesis using m(1-3) steady(1) unfolding Let_def steady(4) [symmetric] by blast
qed

lemma die_start:
  assumes "grid_ready (\<lambda>_. die) default_thermal_config 0 (1 / 100) (1 / 100) m"
    and "started (\<lambda>_. die) (fresh_state first m) (Some (replicate 16 x)) T" "n < grid_dim m"
  shows "T ! n = x"
proof -
  note r = readyD [OF assms(1)] and dim = ready_dim(3) [OF assms(1) default_plain]
  note us = ready_usable [OF assms(1), unfolded default_mesh(1,2), OF default_chip(3)]
  have size: "gm_width m = 1 / 100" "gm_height m = 1 / 100" using assms(1) by (simp_all add: grid_ready_def)
  have st: "\<forall>l i j. in_grid m l i j \<longrightarrow> T ! cell_node m l i j = cell_value (\<lambda>_. die) m (replicate 16 x) V_TEMP l i j"
    "\<forall>k < EXTRA. T ! (grid_cells m + k) = replicate 16 x ! (block_base (\<lambda>_. die) m 4 + k)"
    using assms(2) by (simp_all add: started_def fresh_state_def Let_def r(4))
  show ?thesis
  proof (cases "n < grid_cells m")
    case True
    then obtain l i j where g: "in_grid m l i j" "n = cell_node m l i j" using cell_of_node by blast
    have l: "l < 4" "i < 64" "j < 64" using g(1) r(2-4) by (simp_all add: in_grid_def default_mesh)
    have "cover 64 (1 / 100 / 64) (1 / 100 / 64) (units die ! 0) i j = 1"
      using l by (simp add: cover_def overlap_def die_def unit_zero_def x_lo_def x_hi_def y_lo_def y_hi_def min_def max_def of_nat_diff)
    then have "cell_value (\<lambda>_. die) m (replicate 16 x) V_TEMP l i j = x"
      using us(2) [of l] l r(2,3) by (simp add: cell_value_def unit_value_def V_TEMP_def V_POWER_def die_units cell_width_def cell_height_def size default_mesh)
    then show ?thesis using st(1) g by simp
  next
    case False
    then obtain k where k: "k < EXTRA" "n = grid_cells m + k" using assms(3) dim by (metis add_diff_inverse_nat nat_add_left_cancel_less)
    then show ?thesis using st(2) us(2) [of 4] by (simp add: die_units EXTRA_def)
  qed
qed

lemma grid_transient_bounded_witness:
  "\<exists>m2 s' pw'. compute_temp_grid reference_dgssv (\<lambda>_. die) (fresh_state True m2) (7 # replicate 15 0)
      (Some (replicate 16 (ambient default_thermal_config))) 1 = Inr (s', pw') \<and>
    0 < grid_dim m2 \<and> ambient default_thermal_config \<le> gv_data (gm_last_trans (ts_model s')) ! 0"
proof -
  let ?a = "ambient default_thermal_config" and ?pw = "7 # replicate 15 (0::real)"
  obtain m m1 m2 and m3 :: grid_model_t where m: "alloc_grid_model (\<lambda>_. die) (\<lambda>_. 0) [] default_thermal_config 0 False = Inr m"
    "populate_R_model_grid (\<lambda>_. die) m 0 = Inr m1" "populate_C_model_grid (\<lambda>_. die) m1 0 = Inr m2"
    and all: "\<forall>s. simulated reference_dgssv (\<lambda>_. die) 16 m2 s \<and> (Some (replicate 16 ?a) = None \<longrightarrow> \<not> ts_first_call s) \<longrightarrow>
      (\<exists>s' pw' T. compute_temp_grid reference_dgssv (\<lambda>_. die) s ?pw (Some (replicate 16 ?a)) 1 = Inr (s', pw') \<and>
        started (\<lambda>_. die) s (Some (replicate 16 ?a)) T \<and>
        ((\<forall>n < grid_dim m2. T ! n \<le> gv_data (gm_last_steady m3) ! n) \<longrightarrow>
          (\<forall>n < grid_dim m2. gv_data (gm_last_trans (ts_model s')) ! n \<le> gv_data (gm_last_steady m3) ! n)) \<and>
        ((\<forall>n < grid_dim m2. gv_data (gm_last_steady m3) ! n \<le> T ! n) \<longrightarrow>
          (\<forall>n < grid_dim m2. gv_data (gm_last_steady m3) ! n \<le> gv_data (gm_last_trans (ts_model s')) ! n)) \<and>
        ((\<forall>k < 4 * n_units die. 0 \<le> ?pw ! k) \<and> (\<forall>n < grid_dim m2. ?a \<le> T ! n) \<longrightarrow>
          (\<forall>n < grid_dim m2. ?a \<le> gv_data (gm_last_trans (ts_model s')) ! n)))"
    using grid_transient_bounded [of default_thermal_config "\<lambda>_. die" 0 "1 / 100" "1 / 100" reference_dgssv 1 16 ?pw "replicate 16 0"
        "Some (replicate 16 ?a)" "\<lambda>_. 0" "[]", unfolded default_mesh(1,2),
        OF default_chip die_heat default_mesh(3,4) reference_solves zero_less_one die_length(1,2) length_replicate die_length(3)] unfolding Let_def
    by blast
  have ready: "grid_ready (\<lambda>_. die) default_thermal_config 0 (1 / 100) (1 / 100) m2"
    using chip_model_C [of default_thermal_config "\<lambda>_. die" 0 "1 / 100" "1 / 100" "\<lambda>_. 0" "[]", unfolded default_mesh(1,2), OF default_chip die_heat] m by auto
  obtain s' pw' T where s': "compute_temp_grid reference_dgssv (\<lambda>_. die) (fresh_state True m2) ?pw (Some (replicate 16 ?a)) 1 = Inr (s', pw')"
    "started (\<lambda>_. die) (fresh_state True m2) (Some (replicate 16 ?a)) T"
    "(\<forall>k < 4 * n_units die. 0 \<le> ?pw ! k) \<and> (\<forall>n < grid_dim m2. ?a \<le> T ! n) \<longrightarrow>
          (\<forall>n < grid_dim m2. ?a \<le> gv_data (gm_last_trans (ts_model s')) ! n)"
    using all simulated.fresh [of reference_dgssv "\<lambda>_. die" 16 m2] by blast
  have "\<forall>k < 4 * n_units die. 0 \<le> ?pw ! k" by (auto simp: die_units less_Suc_eq numeral_eq_Suc)
  then show ?thesis using s'(1,3) die_start [OF ready s'(2)] grid_dim_pos [of m2] by force
qed

section \<open>Two failures\<close>

text \<open>
  C40: the flag of the first call belongs to the process and not to the model. After a call on one
  model the first call on a second, fresh model of the chip finds the flag cleared, builds neither matrix
  nor capacitances, and stops at the null pointers of that model.
\<close>

theorem second_model_stops:
  assumes "plain_grid c" "fits c (fs fp) w h" "grid_fits (nat (grid_rows c)) (nat (grid_cols c)) w h (fs fp)" "heat_ok c"
    and "2 \<le> grid_rows c" "2 \<le> grid_cols c" "solves dgssv" "0 < dt" "N = 4 * n_units (fs fp) + EXTRA" "length pw = N" "length t = N"
  shows "\<exists>m m1 m2 s pw'. alloc_grid_model fs rf ws c fp False = Inr m \<and> populate_R_model_grid fs m fp = Inr m1 \<and>
    populate_C_model_grid fs m1 fp = Inr m2 \<and> compute_temp_grid dgssv fs (fresh_state True m2) pw (Some t) dt = Inr (s, pw') \<and>
    compute_temp_grid dgssv fs (fresh_state (ts_first_call s) m2) pw (Some t) dt = Inl OutOfBounds"
proof -
  obtain m m1 m2 where m: "alloc_grid_model fs rf ws c fp False = Inr m" "populate_R_model_grid fs m fp = Inr m1"
    "populate_C_model_grid fs m1 fp = Inr m2" "grid_ready fs c fp w h m2" "storing m2"
    using chip_model_C [of c fs fp w h rf ws, OF assms(1-4)] by blast
  let ?f = "\<lambda>first. fresh_state first m2"
  have fm: "ts_model (?f b) = m2" "ts_first_call (?f b) = b" "ts_G (?f b) = None" for b by (simp_all add: fresh_state_def)
  have inv: "transient_inv fs c fp w h (?f True)" using m(4,5) by (simp add: transient_inv_def fresh_state_def)
  have len: "length pw = 4 * n_units (fs fp) + EXTRA" "length t = 4 * n_units (fs fp) + EXTRA" using assms(9-11) by simp_all
  then have last: "case Some t of None \<Rightarrow> length (ts_last_temp (?f b)) = 4 * n_units (fs fp) + EXTRA | Some b \<Rightarrow> length b = 4 * n_units (fs fp) + EXTRA" for b
    by simp
  obtain s pw' where s: "compute_temp_grid dgssv fs (?f True) pw (Some t) dt = Inr (s, pw')" "\<not> ts_first_call s"
    using compute_temp_grid_ok [OF inv assms(1,5,6,3,7,8) len(1) last] by blast
  obtain pw2 p where p: "set_internal_power_grid m2 pw = Inr pw2" "xlate_vector_b2g fs m2 pw2 (new_grid_model_vector m2) V_POWER = Inr p" "powered fs m2 pw2 p"
    using ready_power [OF m(4) assms(1,3) len(1)] by blast
  have r: "grid_ready fs c fp w h (ts_model (?f False))" using m(4) by (simp add: fm)
  obtain v b where v: "(case Some t of None \<Rightarrow> Inr (?f False)
       | Some t \<Rightarrow> rbind (xlate_vector_b2g fs m2 t (gm_last_trans m2) V_TEMP) (\<lambda>v.
           Inr ((?f False)\<lparr>ts_model := m2\<lparr>gm_last_trans := v\<rparr>, ts_last_temp := t\<rparr>))) =
     Inr ((?f False)\<lparr>ts_model := m2\<lparr>gm_last_trans := v\<rparr>, ts_last_temp := b\<rparr>)" "gv_ok v 4 (gm_rows m2) (gm_cols m2) EXTRA"
    using start_ok [OF r assms(1,3) last] unfolding fm by blast
  have ready: "grid_ready fs c fp w h (m2\<lparr>gm_last_trans := v\<rparr>)" by (rule ready_temps_update(2) [OF m(4) v(2)])
  have "gv_ok p (gm_n_layers (m2\<lparr>gm_last_trans := v\<rparr>)) (gm_rows (m2\<lparr>gm_last_trans := v\<rparr>)) (gm_cols (m2\<lparr>gm_last_trans := v\<rparr>))
      (extra_nodes (gm_config (m2\<lparr>gm_last_trans := v\<rparr>)))" using p(3) by (simp add: powered_def)
  then obtain P where P: "build_transient_power_vector (m2\<lparr>gm_last_trans := v\<rparr>) p = Inr P"
    using power_vector_ok [OF transient_wired [OF ready_plain_R [OF ready assms(1,5,6)]]] by blast
  have "gm_r_ready m2" "gm_c_ready m2" using readyD(5) [OF m(4)] m(5) by (simp_all add: storing_def)
  then have "compute_temp_grid dgssv fs (?f False) pw (Some t) dt = Inl OutOfBounds"
    using p(1,2) v(1) P by (simp add: compute_temp_grid_def Let_def fm not_null_def)
  then show ?thesis using m(1-3) s by (intro exI [of _ m] exI [of _ m1] exI [of _ m2] exI [of _ s] exI [of _ pw']) simp
qed

lemma second_model_stops_witness:
  "\<exists>m2 s pw'. compute_temp_grid reference_dgssv (\<lambda>_. die) (fresh_state True m2) (7 # replicate 15 0) (Some (replicate 16 320)) 1 = Inr (s, pw') \<and>
    compute_temp_grid reference_dgssv (\<lambda>_. die) (fresh_state (ts_first_call s) m2) (7 # replicate 15 0) (Some (replicate 16 320)) 1 = Inl OutOfBounds"
  using second_model_stops [of default_thermal_config "\<lambda>_. die" 0 "1 / 100" "1 / 100" reference_dgssv 1 16 "7 # replicate 15 0" "replicate 16 320"
      "\<lambda>_. 0" "[]", unfolded default_mesh(1,2),
      OF default_chip die_heat default_mesh(3,4) reference_solves zero_less_one die_length(1,2) length_replicate] by blast

end
