(* ===== verification/Grid_Column.thy ===== *)
theory Grid_Column
  imports Grid_Heat_Props
begin

text \<open>
  A grid of one column. The configuration accepts it, because one is a power of two, but the
  number of elements that the builders allocate counts too few for it.
\<close>

section \<open>Rows that do not fit\<close>

lemma links_overflow:
  assumes "\<forall>(c, R) \<in> set links. 0 < R" "length (triples s) \<le> nnz" "nnz < length (triples s) + length links"
  shows "in_order (map (\<lambda>(c, R). link nnz r c R) links) s = Inl OutOfBounds"
  using assms
proof (induction links arbitrary: s)
  case (Cons e links)
  obtain c R where e: "e = (c, R)" by (cases e)
  show ?case
  proof (cases "length (triples s) < nnz")
    case True
    then show ?thesis using Cons by (simp add: e link_def put_triple_def)
  next
    case False
    then show ?thesis using Cons.prems by (simp add: e link_def put_triple_def)
  qed
qed simp

lemma row_overflow:
  assumes "row_pos r" "length (triples s) \<le> nnz" "nnz < length (triples s) + length (row_triples r)"
  shows "write_row nnz r s = Inl OutOfBounds"
proof -
  obtain n links grounds where r: "r = (n, links, grounds)" by (cases r)
  have pos: "\<forall>(c, R) \<in> set links. 0 < R" "\<forall>R \<in> set grounds. 0 < R" using assms(1) by (simp_all add: r row_pos_def)
  show ?thesis
  proof (cases "nnz < length (triples s) + length links")
    case True
    then show ?thesis using links_overflow [OF pos(1), of "s\<lparr>dia_val := 0\<rparr>" nnz n] assms(2) by (simp add: r write_row_def in_order_append)
  next
    case False
    then show ?thesis using assms(3) pos
      by (simp add: r write_row_def in_order_append links_ok grounds_ok diagonal_def put_triple_def)
  qed
qed

lemma rows_overflow:
  assumes "list_all row_pos rs" "length (triples s) \<le> nnz" "nnz < length (triples s) + length (concat (map row_triples rs))"
  shows "in_order (map (write_row nnz) rs) s = Inl OutOfBounds"
  using assms
proof (induction rs arbitrary: s)
  case (Cons r rs)
  show ?case
  proof (cases "length (triples s) + length (row_triples r) \<le> nnz")
    case True
    then obtain t where "write_row nnz r s = Inr t" "triples t = triples s @ row_triples r"
      using write_row_ok [of r s nnz] Cons.prems(1) by auto
    then show ?thesis using Cons.IH [of t] Cons.prems True by simp
  next
    case False
    then show ?thesis using row_overflow [of r s nnz] Cons.prems by simp
  qed
qed simp

section \<open>One column\<close>

text \<open>A model as \<open>populate_R_model_grid\<close> leaves it, with one column.\<close>

definition one_column :: "grid_model_t \<Rightarrow> bool" where
  "one_column m \<longleftrightarrow> gm_cols m = 1 \<and> 2 \<le> gm_rows m \<and> gm_n_layers m = 4 \<and> layered m \<and> pack_R_ok (gm_pack m) \<and>
     model_secondary (gm_config m) = 0 \<and> (\<forall>l < 4. resistive (gm_layers m ! l))"

definition corner :: "grid_model_t \<Rightarrow> nat \<Rightarrow> bool" where
  "corner m i \<longleftrightarrow> i = 0 \<or> i = gm_rows m - 1"

text \<open>The number of elements of a row of the matrix.\<close>

definition row_size :: "grid_model_t \<Rightarrow> nat \<Rightarrow> nat \<Rightarrow> nat" where
  "row_size m l i = (if corner m i then 3 else 4) + (if l = 0 \<or> l = 3 then 1 else 2) +
     (if 2 \<le> l then if corner m i then 2 else 1 else 0)"

lemma column_row:
  assumes "one_column m" "l < 4" "i < gm_rows m" "res m l i 0 = Inr R"
    and "0 < Rw R" "0 < Re R" "0 < Rn R" "0 < Rs R" "0 < Ra R" "0 < Rb R"
  shows "\<exists>r. cell_row res m l i 0 = Inr r \<and> row_pos r \<and> length (row_triples r) = row_size m l i"
proof -
  have m: "gm_cols m = 1" "2 \<le> gm_rows m" "gm_n_layers m = 4" "length (gm_layers m) = 4" "pack_R_ok (gm_pack m)"
    "model_secondary (gm_config m) = 0" "resistive (gm_layers m ! l)" using assms(1,2) by (simp_all add: one_column_def layered_def)
  have idx: "spidx m = 2" "hsidx m = 3" using m(3) by (simp_all add: spidx_def hsidx_def stack_defs)
  have pk: "0 < r_sp1_x (gm_pack m)" "0 < r_sp1_y (gm_pack m)" "0 < r_hs1_x (gm_pack m)" "0 < r_hs1_y (gm_pack m)"
    using m(5) by (simp_all add: pack_R_ok_def)
  let ?ly = "gm_layers m ! l" and ?x = "cell_node m l i 0"
  have border: "length (border_link m ?ly l d) = (if 2 \<le> l then 1 else 0)" "list_all (\<lambda>(c, R). 0 < R) (border_link m ?ly l d)" for d
    using edge_res_pos [OF m(7)] pk assms(2) by (auto simp: border_link_def Let_def idx m(6))
  have vert: "length (vertical_links m R l ?x) = (if l = 0 \<or> l = 3 then 1 else 2)" "list_all (\<lambda>(c, R). 0 < R) (vertical_links m R l ?x)"
    using assms(2,9,10) by (auto simp: vertical_links_def Let_def m(3))
  have links: "cell_links m ?ly R l i ?x = (if i = 0 then top_left m ?ly R l ?x else if i = gm_rows m - 1 then bottom_left m ?ly R l ?x
      else left_column m ?ly R l ?x)"
    using m(1,2) assms(3) by (auto simp: cell_links_def Let_def)
  have "length (cell_links m ?ly R l i ?x) + 1 = row_size m l i"
    using m(2) vert(1) border(1) unfolding links
    by (auto simp: top_left_def bottom_left_def left_column_def row_size_def corner_def)
  moreover have "list_all (\<lambda>(c, R). 0 < R) (cell_links m ?ly R l i ?x)"
    using assms(5-8) vert(2) border(2) unfolding links by (auto simp: top_left_def bottom_left_def left_column_def)
  moreover have "cell_ambient m ?ly l = Inr (if l = 3 then [ly_rz ?ly] else [])"
    using m(6) by (simp add: cell_ambient_def Let_def idx)
  moreover have "0 < ly_rz ?ly" using m(7) by (simp add: resistive_def)
  ultimately show ?thesis
    using assms(2,4) m(4) by (auto simp: cell_row_def row_pos_def m(1) list_all_iff)
qed

lemma sum_corners:
  assumes "2 \<le> gm_rows m"
  shows "(\<Sum>i < gm_rows m. if corner m i then a else b) = 2 * a + (gm_rows m - 2) * (b :: nat)"
proof -
  obtain k where k: "gm_rows m = Suc (Suc k)" using assms by (metis add_2_eq_Suc le_Suc_ex)
  have "(\<Sum>i < Suc k. if corner m (Suc i) then a else b) = (\<Sum>i < k. b) + a"
    unfolding sum.lessThan_Suc by (simp add: corner_def k)
  then show ?thesis unfolding k sum.lessThan_Suc_shift by (simp add: corner_def k)
qed

lemma sum_row_size:
  assumes "2 \<le> gm_rows m"
  shows "(\<Sum>l < 4. \<Sum>i < gm_rows m. row_size m l i) = 24 * gm_rows m - 4"
proof -
  have "(\<Sum>i < gm_rows m. row_size m l i) = 2 * ((if l = 0 \<or> l = 3 then 4 else 5) + (if 2 \<le> l then 2 else 0)) +
      (gm_rows m - 2) * ((if l = 0 \<or> l = 3 then 5 else 6) + (if 2 \<le> l then 1 else 0))" for l
    by (subst sum_corners [OF assms, symmetric]) (auto simp: row_size_def intro!: sum.cong)
  then show ?thesis using assms by (simp add: eval_nat_numeral)
qed

lemma appends_sum: "length (concat (map g [0..<n])) = (\<Sum>i < n. length (g i))"
  by (simp add: length_concat comp_def interv_sum_list_conv_sum_set_nat atLeast0LessThan)

text \<open>The cells still fit.\<close>

lemma column_cells:
  assumes "one_column m" "\<And>l i. l < 4 \<Longrightarrow> i < gm_rows m \<Longrightarrow> res m l i 0 = Inr (mesh_res m M l i 0)"
    and "\<And>l i j. l < 4 \<Longrightarrow> 0 < to_east M l i j \<and> 0 < to_south M l i j \<and> 0 < to_below M l i j"
  shows "\<exists>ts. appends nnz (write_cells res m nnz) ts \<and> length ts = 24 * gm_rows m - 4"
proof -
  have m: "gm_cols m = 1" "gm_n_layers m = 4" "2 \<le> gm_rows m" using assms(1) by (simp_all add: one_column_def)
  define rw where "rw l i = projr (cell_row res m l i 0)" for l i
  have rw: "cell_row res m l i 0 = Inr (rw l i)" "row_pos (rw l i)" "length (row_triples (rw l i)) = row_size m l i" if "l < 4" "i < gm_rows m" for l i
  proof -
    have "0 < Rw (mesh_res m M l i 0)" "0 < Re (mesh_res m M l i 0)" "0 < Rn (mesh_res m M l i 0)" "0 < Rs (mesh_res m M l i 0)"
      "0 < Ra (mesh_res m M l i 0)" "0 < Rb (mesh_res m M l i 0)"
      using assms(3) that by (simp_all add: mesh_res_def LARGENUM_def)
    from column_row [where res = res, OF assms(1) that assms(2) [OF that] this]
    show "cell_row res m l i 0 = Inr (rw l i)" "row_pos (rw l i)" "length (row_triples (rw l i)) = row_size m l i" by (auto simp: rw_def)
  qed
  have row: "appends nnz (for_up 0 1 (\<lambda>j s. rbind (cell_row res m l i j) (\<lambda>r. write_row nnz r s))) (row_triples (rw l i))"
    if "l < 4" "i < gm_rows m" for l i
  proof -
    have "for_up 0 1 (\<lambda>j s. rbind (cell_row res m l i j) (\<lambda>r. write_row nnz r s)) s = write_row nnz (rw l i) s" for s
      using rw(1) [OF that] by (simp add: for_up_step) (cases "write_row nnz (rw l i) s"; simp)
    then show ?thesis using appends_row [OF rw(2) [OF that], of nnz] by (simp only: appends_def)
  qed
  have "appends nnz (write_cells res m nnz) (concat (map (\<lambda>l. concat (map (\<lambda>i. row_triples (rw l i)) [0..<gm_rows m])) [0..<4]))"
    unfolding write_cells_def m(1,2) by (intro appends_loop row)
  moreover have "length (concat (map (\<lambda>l. concat (map (\<lambda>i. row_triples (rw l i)) [0..<gm_rows m])) [0..<4])) = 24 * gm_rows m - 4"
    unfolding appends_sum sum_row_size [OF m(3), symmetric] by (intro sum.cong refl) (simp add: rw(3))
  ultimately show ?thesis by blast
qed

text \<open>The package does not.\<close>

lemma column_package:
  assumes "one_column m" "length (triples s) = 24 * gm_rows m - 4" "nnz = 26 * gm_rows m + 28"
  shows "write_package m nnz s = Inl OutOfBounds"
proof -
  have m: "gm_cols m = 1" "2 \<le> gm_rows m" "gm_n_layers m = 4" "length (gm_layers m) = 4" "pack_R_ok (gm_pack m)"
    "\<And>l. l < 4 \<Longrightarrow> resistive (gm_layers m ! l)" using assms(1) by (simp_all add: one_column_def layered_def)
  have idx: "spidx m = 2" "hsidx m = 3" using m(3) by (simp_all add: spidx_def hsidx_def stack_defs)
  let ?rs = "map (sink_outer_row m) all_sides @ map (sink_inner_row m (gm_layers m ! 3)) all_sides @ map (spreader_row m (gm_layers m ! 2)) all_sides"
  have edge: "0 < edge_res m (gm_layers m ! l) d (r_hs1_x (gm_pack m)) (r_hs1_y (gm_pack m))"
    "0 < edge_res m (gm_layers m ! l) d (r_sp1_x (gm_pack m)) (r_sp1_y (gm_pack m))" if "l < 4" for l d
    using edge_res_pos [OF m(6) [OF that]] m(5) by (simp_all add: pack_R_ok_def)
  have pos: "list_all row_pos ?rs"
    using m(5) edge by (simp add: all_sides_def row_pos_def sink_outer_row_def sink_inner_row_def spreader_row_def edge_links_def Let_def pack_R_ok_def
        add_pos_pos add_pos_nonneg)
  have cells: "length (edge_cells m l d) = (case d of North \<Rightarrow> 1 | South \<Rightarrow> 1 | West \<Rightarrow> gm_rows m | East \<Rightarrow> gm_rows m)" for l d
    by (simp add: edge_cells_def m(1) split: compass.split)
  have "length (concat (map row_triples ?rs)) = 4 * gm_rows m + 32"
    by (simp add: all_sides_def sink_outer_row_def sink_inner_row_def spreader_row_def edge_links_def Let_def cells)
  then have "in_order (map (write_row nnz) ?rs) s = Inl OutOfBounds"
    using rows_overflow [OF pos, of s nnz] assms(2,3) m(2) by linarith
  then show ?thesis by (simp add: write_package_def primary_rows_def idx m(4))
qed

lemma column_overflows:
  assumes "one_column m" "\<And>l i. l < 4 \<Longrightarrow> i < gm_rows m \<Longrightarrow> res m l i 0 = Inr (mesh_res m M l i 0)"
    and "\<And>l i j. l < 4 \<Longrightarrow> 0 < to_east M l i j \<and> 0 < to_south M l i j \<and> 0 < to_below M l i j"
  shows "grid_triples res msg m = Inl OutOfBounds"
proof -
  have m: "gm_cols m = 1" "2 \<le> gm_rows m" "gm_n_layers m = 4" "model_secondary (gm_config m) = 0" using assms(1) by (simp_all add: one_column_def)
  have nnz: "grid_nnz m = 26 * gm_rows m + 28"
    using m(2) by (simp add: grid_nnz_def Let_def m(1,3,4) EXTRA_def)
  obtain ts where ts: "appends (grid_nnz m) (write_cells res m (grid_nnz m)) ts" "length ts = 24 * gm_rows m - 4"
    using column_cells [where m = m and res = res and M = M and nnz = "grid_nnz m", OF assms] by blast
  obtain s where s: "write_cells res m (grid_nnz m) \<lparr>triples = [], dia_val = 0\<rparr> = Inr s" "triples s = ts"
    using ts nnz unfolding appends_def by (elim allE [of _ "\<lparr>triples = [], dia_val = 0\<rparr>"]) auto
  have "write_package m (grid_nnz m) s = Inl OutOfBounds" by (rule column_package [OF assms(1) _ nnz]) (simp add: s(2) ts(2))
  then show ?thesis using s(1) by (simp add: grid_triples_def Let_def)
qed

text \<open>
  On a grid of a single column, which the configuration accepts, both builders write behind
  the end of the coordinate arrays. The cells of the column are written like those of a border,
  with a neighbour beside them (the next cell of the column) that the number of allocated
  elements does not count.
\<close>

theorem one_column_overflows:
  assumes "plain_grid c" "fits c (fs fp) w h" "grid_fits (nat (grid_rows c)) (nat (grid_cols c)) w h (fs fp)"
    and "2 \<le> grid_rows c" "grid_cols c = 1"
  shows "\<exists>m m1. alloc_grid_model fs rf ws c fp False = Inr m \<and> populate_R_model_grid fs m fp = Inr m1 \<and>
    build_steady_grid_matrix m1 = Inl OutOfBounds \<and> build_transient_grid_matrix m1 = Inl OutOfBounds"
proof -
  obtain m m1 where m: "alloc_grid_model fs rf ws c fp False = Inr m" "populate_R_model_grid fs m fp = Inr m1" "grid_ready fs c fp w h m1"
    using chip_model [of c fs fp w h rf ws, OF assms(1-3)] by blast
  have r: "gm_rows m1 = nat (grid_rows c)" "gm_cols m1 = 1" "gm_n_layers m1 = 4" "length (gm_layers m1) = 4" "gm_config m1 = c"
    "pack_R_ok (gm_pack m1)" "\<forall>l < 4. resistive (gm_layers m1 ! l)"
    using m(3) assms(5) by (simp_all add: grid_ready_def Let_def)
  have one: "one_column m1" using r assms(4) plain_gridD(1,2) [OF assms(1)] by (simp add: one_column_def layered_def le_nat_iff)
  then have layered: "layered m1" by (simp add: one_column_def)
  have g: "in_grid m1 l i 0" if "l < 4" "i < gm_rows m1" for l i using that r(2,3) by (simp add: in_grid_def)
  have pos: "l < 4 \<Longrightarrow> 0 < to_east (transient_mesh m1) l i j \<and> 0 < to_south (transient_mesh m1) l i j \<and> 0 < to_below (transient_mesh m1) l i j"
    "l < 4 \<Longrightarrow> 0 < to_east (steady_mesh m1) l i j \<and> 0 < to_south (steady_mesh m1) l i j \<and> 0 < to_below (steady_mesh m1) l i j" for l i j
    using r(7) by (simp_all add: transient_mesh_def steady_mesh_def resistive_def)
  show ?thesis
    using m(1,2) column_overflows [where res = transient_resistances and M = "transient_mesh m1", OF one transient_res_ok [OF layered g] pos(1)]
      column_overflows [where res = steady_resistances and M = "steady_mesh m1", OF one steady_res_ok [OF layered g] pos(2)]
    by (intro exI [of _ m] exI [of _ m1]) (simp add: build_steady_grid_matrix_def build_transient_grid_matrix_def)
qed

lemma one_column_overflows_witness:
  "\<exists>m1. populate_R_model_grid (\<lambda>_. die) (projr (alloc_grid_model (\<lambda>_. die) (\<lambda>_. 0) [] (default_thermal_config\<lparr>grid_cols := 1\<rparr>) 0 False)) 0 = Inr m1 \<and>
    build_steady_grid_matrix m1 = Inl OutOfBounds"
proof -
  let ?c = "default_thermal_config\<lparr>grid_cols := 1\<rparr>"
  have p: "plain_grid ?c" using default_plain by (simp add: plain_grid_def)
  have f: "fits ?c die (1 / 100) (1 / 100)" using die_fits by (simp add: fits_def layers_ok_def package_ok_def)
  have g: "grid_fits (nat (grid_rows ?c)) (nat (grid_cols ?c)) (1 / 100) (1 / 100) die" by (rule die_on_grid) (simp_all add: default_thermal_config_def)
  have "2 \<le> grid_rows ?c" "grid_cols ?c = 1" by (simp_all add: default_thermal_config_def)
  from one_column_overflows [of ?c "\<lambda>_. die" 0 "1 / 100" "1 / 100" "\<lambda>_. 0" "[]", OF p f g this] show ?thesis by auto
qed

end
