(* ===== verification/Grid_Relax.thy ===== *)
theory Grid_Relax
  imports Grid_Solve Grid_Joined
begin

text \<open>
  The solvers of the grid that do not build a matrix, \<open>hotspot_tool/temperature_grid.c\<close>: the relaxation
  sweep \<open>single_iteration_steady_grid\<close>, the multigrid solver on top of it, and the slope
  functions \<open>slope_fn_grid\<close> and \<open>slope_fn_pack\<close> of the explicit transient solver.

  A sweep visits every cell and then every node of the package. For a node it sums the conductances to
  its neighbours and to the ambient (\<open>csum\<close>) and the temperatures weighted with them (\<open>wsum\<close>), and
  sets the temperature to \<open>wsum / csum\<close>. The addends are lists here: of the six neighbours of a cell
  (the macros \<open>NC\<close>, \<open>SC\<close>, \<open>EC\<close>, \<open>WC\<close>, \<open>AC\<close>, \<open>BC\<close> and \<open>NT\<close>, \<open>ST\<close>, \<open>ET\<close>, \<open>WT\<close>, \<open>AT\<close>, \<open>BT\<close>), of the parts of the package at
  its rim, of the resistances to the ambient.
\<close>

section \<open>Sums of addends\<close>

primrec total_of :: "real res list \<Rightarrow> real res" where
  "total_of [] = Inr 0"
| "total_of (x # xs) = rbind x (\<lambda>a. rbind (total_of xs) (\<lambda>b. Inr (a + b)))"

text \<open>Where a temperature is read: \<open>v[n][i][j]\<close> or \<open>extra[k]\<close>.\<close>

datatype place = Cell nat nat nat | Extra nat

fun temp_at :: "grid_model_vector_t \<Rightarrow> place \<Rightarrow> real res" where
  "temp_at t (Cell n i j) = gv_get t n i j"
| "temp_at t (Extra k) = gx_get t k"

text \<open>
  Places with one resistance between each of them and a node. The conductance of the addend is the
  number of its places over the resistance, its weighted temperature their sum over the resistance.
\<close>

type_synonym addend = "place list \<times> real"

definition conductance_of :: "addend \<Rightarrow> real res" where
  "conductance_of = (\<lambda>(ps, R). fdiv (real (length ps)) R)"

definition weighted :: "(place \<Rightarrow> real res) \<Rightarrow> addend \<Rightarrow> real res" where
  "weighted x = (\<lambda>(ps, R). rbind (total_of (map x ps)) (\<lambda>s. fdiv s R))"

section \<open>Cells\<close>

definition next_cells :: "grid_model_t \<Rightarrow> nat \<Rightarrow> nat \<Rightarrow> nat \<Rightarrow> (bool \<times> place \<times> real res) list" where
  "next_cells model n i j =
    (let nr = gm_rows model; nc = gm_cols model; nl = gm_n_layers model in
     [(i > 0, Cell n (i - 1) j, find_res model n (i - 1) j n i j),
      (i < nr - 1, Cell n (i + 1) j, find_res model n (i + 1) j n i j),
      (j < nc - 1, Cell n i (j + 1), find_res model n i (j + 1) n i j),
      (j > 0, Cell n i (j - 1), find_res model n i (j - 1) n i j),
      (n > 0, Cell (n - 1) i j, find_res model (n - 1) i j n i j),
      (n < nl - 1, Cell (n + 1) i j, find_res model (n + 1) i j n i j)])"

definition next_cells_det3D :: "grid_model_t \<Rightarrow> nat \<Rightarrow> nat \<Rightarrow> nat \<Rightarrow> (bool \<times> place \<times> real res) list" where
  "next_cells_det3D model n i j =
    (let nr = gm_rows model; nc = gm_cols model; nl = gm_n_layers model in
     [(i > 0, Cell n (i - 1) j, find_res_3D n (i - 1) j model 2),
      (i < nr - 1, Cell n (i + 1) j, find_res_3D n (i + 1) j model 2),
      (j < nc - 1, Cell n i (j + 1), find_res_3D n i (j + 1) model 1),
      (j > 0, Cell n i (j - 1), find_res_3D n i (j - 1) model 1),
      (n > 0, Cell (n - 1) i j, find_res_3D (n - 1) i j model 3),
      (n < nl - 1, Cell (n + 1) i j, find_res_3D n i j model 3)])"

text \<open>The neighbours that exist; the resistances of the others are not evaluated.\<close>

primrec existing :: "(bool \<times> place \<times> real res) list \<Rightarrow> addend list res" where
  "existing [] = Inr []"
| "existing (x # xs) = (case x of (c, p, r) \<Rightarrow>
     if c then rbind r (\<lambda>R. rbind (existing xs) (\<lambda>ys. Inr (([p], R) # ys))) else existing xs)"

text \<open>The part of the package around a layer, on the sides on which the cell lies.\<close>

definition rim :: "grid_model_t \<Rightarrow> layer_t \<Rightarrow> nat \<Rightarrow> nat \<Rightarrow> nat \<Rightarrow> addend list" where
  "rim model ly n i j = (case part model n of None \<Rightarrow> []
     | Some (w, rx, ry) \<Rightarrow> map (\<lambda>d. ([Extra (at_side w d)], edge_res model ly d rx ry))
         (filter (\<lambda>d. on_side model d i j) [North, South, East, West]))"

text \<open>The addends of a cell and its resistances to the ambient.\<close>

definition cell_addends :: "(grid_model_t \<Rightarrow> nat \<Rightarrow> nat \<Rightarrow> nat \<Rightarrow> (bool \<times> place \<times> real res) list) \<Rightarrow>
    grid_model_t \<Rightarrow> nat \<Rightarrow> nat \<Rightarrow> nat \<Rightarrow> (addend list \<times> real list) res" where
  "cell_addends nexts model n i j =
     rbind (existing (nexts model n i j)) (\<lambda>ns. rbind (rd (gm_layers model) n) (\<lambda>ly. rbind (cell_ambient model ly n) (\<lambda>amb.
     Inr (ns @ rim model ly n i j, amb))))"

definition sweep_cells :: "grid_model_t \<Rightarrow> nat \<Rightarrow> nat \<Rightarrow> nat \<Rightarrow> (bool \<times> place \<times> real res) list" where
  "sweep_cells model n i j = (if detailed_3D_used (gm_config model) = 1 then next_cells_det3D model n i j else next_cells model n i j)"

text \<open>The sums of the conductances and of the weighted temperatures.\<close>

definition conductance_sum :: "addend list \<times> real list \<Rightarrow> real res" where
  "conductance_sum = (\<lambda>(ls, amb). total_of (map conductance_of ls @ map (fdiv 1) amb))"

definition weighted_sum :: "grid_model_t \<Rightarrow> grid_model_vector_t \<Rightarrow> addend list \<times> real list \<Rightarrow> real res" where
  "weighted_sum model t = (\<lambda>(ls, amb). total_of (map (weighted (temp_at t)) ls @ map (fdiv (ambient (gm_config model))) amb))"

definition relax_cell :: "grid_model_t \<Rightarrow> grid_model_vector_t \<Rightarrow> nat \<Rightarrow> nat \<Rightarrow> nat \<Rightarrow>
    grid_model_vector_t \<times> real \<Rightarrow> (grid_model_vector_t \<times> real) res" where
  "relax_cell model pw n i j = (\<lambda>(t, mx).
     rbind (cell_addends sweep_cells model n i j) (\<lambda>ls.
     rbind (conductance_sum ls) (\<lambda>csum. rbind (weighted_sum model t ls) (\<lambda>wsum.
     rbind (gv_get t n i j) (\<lambda>prev. rbind (gv_get pw n i j) (\<lambda>p. rbind (fdiv (p + wsum) csum) (\<lambda>x.
     rbind (gv_set t n i j x) (\<lambda>t. Inr (t, if \<bar>prev - x\<bar> > mx then \<bar>prev - x\<bar> else mx)))))))))"

section \<open>Nodes of the package\<close>

text \<open>A node, its addends and its resistances to the ambient.\<close>

type_synonym pack_node = "nat \<times> addend list \<times> real list"

definition edge_places :: "grid_model_t \<Rightarrow> nat \<Rightarrow> compass \<Rightarrow> place list" where
  "edge_places model l d =
    (case d of North \<Rightarrow> map (\<lambda>j. Cell l 0 j) [0..<gm_cols model]
     | South \<Rightarrow> map (\<lambda>j. Cell l (gm_rows model - 1) j) [0..<gm_cols model]
     | West \<Rightarrow> map (\<lambda>i. Cell l i 0) [0..<gm_rows model]
     | East \<Rightarrow> map (\<lambda>i. Cell l i (gm_cols model - 1)) [0..<gm_rows model])"

definition sink_outer_node :: "grid_model_t \<Rightarrow> compass \<Rightarrow> pack_node" where
  "sink_outer_node model d = (let pk = gm_pack model in
     (at_side SINK_W d, [([Extra (at_side SINK_C_W d)], across d (r_hs2_x pk) (r_hs2_y pk) + r_hs pk)], [r_hs_per pk + r_amb_per pk]))"

definition sink_inner_node :: "grid_model_t \<Rightarrow> layer_t \<Rightarrow> compass \<Rightarrow> pack_node" where
  "sink_inner_node model hs d = (let pk = gm_pack model in
     (at_side SINK_C_W d,
      [(edge_places model (hsidx model) d, edge_res model hs d (r_hs1_x pk) (r_hs1_y pk)),
       ([Extra (at_side SP_W d)], across d (r_sp_per_x pk) (r_sp_per_y pk)),
       ([Extra (at_side SINK_W d)], across d (r_hs2_x pk) (r_hs2_y pk) + r_hs pk)],
      [across d (r_hs_c_per_x pk + r_amb_c_per_x pk) (r_hs_c_per_y pk + r_amb_c_per_y pk)]))"

definition spreader_node :: "grid_model_t \<Rightarrow> layer_t \<Rightarrow> compass \<Rightarrow> pack_node" where
  "spreader_node model sp d = (let pk = gm_pack model in
     (at_side SP_W d,
      [(edge_places model (spidx model) d, edge_res model sp d (r_sp1_x pk) (r_sp1_y pk)),
       ([Extra (at_side SINK_C_W d)], across d (r_sp_per_x pk) (r_sp_per_y pk))], []))"

definition pcb_outer_node :: "grid_model_t \<Rightarrow> compass \<Rightarrow> pack_node" where
  "pcb_outer_node model d = (let pk = gm_pack model in
     (at_side PCB_W d, [([Extra (at_side PCB_C_W d)], across d (r_pcb2_x pk) (r_pcb2_y pk) + r_pcb pk)], [r_amb_sec_per pk]))"

definition pcb_inner_node :: "grid_model_t \<Rightarrow> layer_t \<Rightarrow> compass \<Rightarrow> pack_node" where
  "pcb_inner_node model pcb d = (let pk = gm_pack model in
     (at_side PCB_C_W d,
      [(edge_places model LAYER_PCB d, edge_res model pcb d (r_pcb1_x pk) (r_pcb1_y pk)),
       ([Extra (at_side SOLDER_W d)], across d (r_pcb_c_per_x pk) (r_pcb_c_per_y pk)),
       ([Extra (at_side PCB_W d)], across d (r_pcb2_x pk) (r_pcb2_y pk) + r_pcb pk)],
      [across d (r_amb_sec_c_per_x pk) (r_amb_sec_c_per_y pk)]))"

definition solder_node :: "grid_model_t \<Rightarrow> layer_t \<Rightarrow> compass \<Rightarrow> pack_node" where
  "solder_node model sol d = (let pk = gm_pack model in
     (at_side SOLDER_W d,
      [(edge_places model LAYER_SOLDER d, edge_res model sol d (r_solder1_x pk) (r_solder1_y pk)),
       ([Extra (at_side SUB_W d)], across d (r_solder_per_x pk) (r_solder_per_y pk)),
       ([Extra (at_side PCB_C_W d)], across d (r_pcb_c_per_x pk) (r_pcb_c_per_y pk))], []))"

definition substrate_node :: "grid_model_t \<Rightarrow> layer_t \<Rightarrow> compass \<Rightarrow> pack_node" where
  "substrate_node model sub d = (let pk = gm_pack model in
     (at_side SUB_W d,
      [(edge_places model LAYER_SUB d, edge_res model sub d (r_sub1_x pk) (r_sub1_y pk)),
       ([Extra (at_side SOLDER_W d)], across d (r_solder_per_x pk) (r_solder_per_y pk))], []))"

definition primary_nodes :: "grid_model_t \<Rightarrow> pack_node list res" where
  "primary_nodes model =
     rbind (rd (gm_layers model) (hsidx model)) (\<lambda>hs. rbind (rd (gm_layers model) (spidx model)) (\<lambda>sp.
     Inr (map (sink_outer_node model) all_sides @ map (sink_inner_node model hs) all_sides @ map (spreader_node model sp) all_sides)))"

definition secondary_nodes :: "grid_model_t \<Rightarrow> pack_node list res" where
  "secondary_nodes model =
    (if model_secondary (gm_config model) = 0 then Inr [] else
     rbind (rd (gm_layers model) LAYER_PCB) (\<lambda>pcb. rbind (rd (gm_layers model) LAYER_SOLDER) (\<lambda>sol. rbind (rd (gm_layers model) LAYER_SUB) (\<lambda>sub.
     Inr (map (pcb_outer_node model) all_sides @ map (pcb_inner_node model pcb) all_sides @ map (solder_node model sol) all_sides @
       map (substrate_node model sub) all_sides)))))"

text \<open>The code keeps the changes in an array and takes their maximum at the end.\<close>

definition relax_node :: "grid_model_t \<Rightarrow> pack_node \<Rightarrow> grid_model_vector_t \<times> real \<Rightarrow> (grid_model_vector_t \<times> real) res" where
  "relax_node model = (\<lambda>(k, ls) (t, mx).
     rbind (conductance_sum ls) (\<lambda>csum. rbind (weighted_sum model t ls) (\<lambda>wsum. rbind (fdiv wsum csum) (\<lambda>x.
     rbind (gx_get t k) (\<lambda>prev. rbind (gx_set t k x) (\<lambda>t. Inr (t, if \<bar>prev - x\<bar> > mx then \<bar>prev - x\<bar> else mx)))))))"

definition single_iteration_steady_pack :: "grid_model_t \<Rightarrow> grid_model_vector_t \<Rightarrow> (grid_model_vector_t \<times> real) res" where
  "single_iteration_steady_pack model t =
     rbind (primary_nodes model) (\<lambda>ps. rbind (secondary_nodes model) (\<lambda>ss.
     in_order (map (relax_node model) (ps @ ss)) (t, 0)))"

section \<open>Sweeps\<close>

definition single_iteration_steady_grid :: "grid_model_t \<Rightarrow> grid_model_vector_t \<Rightarrow> grid_model_vector_t \<Rightarrow>
    (grid_model_vector_t \<times> real) res" where
  "single_iteration_steady_grid model pw t =
     rbind (for_up 0 (gm_n_layers model) (\<lambda>n. for_up 0 (gm_rows model) (\<lambda>i. for_up 0 (gm_cols model) (\<lambda>j.
       relax_cell model pw n i j))) (t, 0)) (\<lambda>(t, mx).
     rbind (single_iteration_steady_pack model t) (\<lambda>(t, d). Inr (t, MAXd mx d)))"

text \<open>\<open>do \<dots> while (!eq(delta, 0))\<close>\<close>

partial_function (option) relax_loop :: "grid_model_t \<Rightarrow> grid_model_vector_t \<Rightarrow> grid_model_vector_t \<Rightarrow> grid_model_vector_t res option" where
  "relax_loop model pw t = (case single_iteration_steady_grid model pw t of
     Inl e \<Rightarrow> Some (Inl e)
   | Inr (t, delta) \<Rightarrow> if eq delta 0 then Some (Inr t) else relax_loop model pw t)"

text \<open>The model on a grid of half the rows and columns, and back.\<close>

definition coarser :: "grid_model_t \<Rightarrow> grid_model_t" where
  "coarser model = model\<lparr>gm_rows := gm_rows model div 2, gm_cols := gm_cols model div 2,
     gm_layers := map (\<lambda>l. l\<lparr>ly_rz := ly_rz l / 4, ly_c := if gm_c_ready model then ly_c l * 4 else ly_c l\<rparr>) (gm_layers model)\<rparr>"

definition finer :: "grid_model_t \<Rightarrow> grid_model_t" where
  "finer model = model\<lparr>gm_rows := gm_rows model * 2, gm_cols := gm_cols model * 2,
     gm_layers := map (\<lambda>l. l\<lparr>ly_rz := ly_rz l * 4, ly_c := if gm_c_ready model then ly_c l / 4 else ly_c l\<rparr>) (gm_layers model)\<rparr>"

definition relax :: "grid_model_t \<Rightarrow> grid_model_vector_t \<Rightarrow> grid_model_vector_t \<Rightarrow> (grid_model_t \<times> grid_model_vector_t) res option" where
  "relax model pw t = map_option (\<lambda>r. rbind r (\<lambda>t. Inr (model, t))) (relax_loop model pw t)"

function recursive_multigrid :: "grid_model_t \<Rightarrow> grid_model_vector_t \<Rightarrow> grid_model_vector_t \<Rightarrow>
    (grid_model_t \<times> grid_model_vector_t) res option" where
  "recursive_multigrid model pw t =
    (if gm_rows model \<le> 1 \<or> gm_cols model \<le> 1 then
       (case set_heuristic_temp model pw t of Inl e \<Rightarrow> Some (Inl e) | Inr t \<Rightarrow> relax model pw t)
     else let coarse = coarser model in
       (case multigrid_restrict_power coarse (new_grid_model_vector coarse) pw of
          Inl e \<Rightarrow> Some (Inl e)
        | Inr coarse_power \<Rightarrow> (case recursive_multigrid coarse coarse_power (new_grid_model_vector coarse) of
            None \<Rightarrow> None
          | Some (Inl e) \<Rightarrow> Some (Inl e)
          | Some (Inr (coarse, coarse_temp)) \<Rightarrow> (case multigrid_prolong_temp coarse t coarse_temp of
              Inl e \<Rightarrow> Some (Inl e)
            | Inr t \<Rightarrow> relax (finer coarse) pw t))))"
  by pat_completeness auto
termination
  by (relation "measure (\<lambda>(model, pw, t). gm_rows model)") (auto simp: coarser_def)

declare recursive_multigrid.simps [simp del]

section \<open>Slopes\<close>

text \<open>
  The temperatures are a flat array here, read by \<open>A3D\<close> and \<open>x\<close>. An addend contributes the differences
  to the temperature of the node, over its resistance.
\<close>

fun array_at :: "grid_model_t \<Rightarrow> real list \<Rightarrow> place \<Rightarrow> real res" where
  "array_at model v (Cell n i j) = rd v (n * gm_rows model * gm_cols model + i * gm_cols model + j)"
| "array_at model v (Extra k) = rd v (gm_n_layers model * gm_rows model * gm_cols model + k)"

definition currents :: "grid_model_t \<Rightarrow> real list \<Rightarrow> real \<Rightarrow> addend list \<times> real list \<Rightarrow> real res" where
  "currents model v x = (\<lambda>(ls, amb). total_of (map (weighted (\<lambda>p. rbind (array_at model v p) (\<lambda>y. Inr (y - x)))) ls @
     map (fdiv (ambient (gm_config model) - x)) amb))"

text \<open>The macros \<open>NP_det3D\<close> and the like are those of \<open>NP\<close>: both use \<open>find_res\<close>.\<close>

definition slope_cell :: "grid_model_t \<Rightarrow> real list \<Rightarrow> grid_model_vector_t \<Rightarrow> nat \<Rightarrow> nat \<Rightarrow> nat \<Rightarrow> real list \<Rightarrow> real list res" where
  "slope_cell model v p n i j dv =
     rbind (cell_addends next_cells model n i j) (\<lambda>ls. rbind (array_at model v (Cell n i j)) (\<lambda>x.
     rbind (currents model v x ls) (\<lambda>psum. rbind (gv_get p n i j) (\<lambda>q. rbind (cell_capacitance model n i j) (\<lambda>c.
     rbind (fdiv (q + psum) c) (\<lambda>s. wr dv (n * gm_rows model * gm_cols model + i * gm_cols model + j) s))))))"

text \<open>In the slope of the solder its resistance to the substrate does not occur.\<close>

definition solder_slope_node :: "grid_model_t \<Rightarrow> layer_t \<Rightarrow> compass \<Rightarrow> pack_node" where
  "solder_slope_node model sol d = (let pk = gm_pack model in
     (at_side SOLDER_W d,
      [(edge_places model LAYER_SOLDER d, edge_res model sol d (r_solder1_x pk) (r_solder1_y pk)),
       ([Extra (at_side PCB_C_W d)], across d (r_pcb_c_per_x pk) (r_pcb_c_per_y pk))], []))"

definition slope_node :: "grid_model_t \<Rightarrow> real list \<Rightarrow> (compass \<Rightarrow> pack_node) \<Rightarrow> (package_RC_t \<Rightarrow> real) \<Rightarrow> (package_RC_t \<Rightarrow> real) \<Rightarrow>
    compass \<Rightarrow> real list \<Rightarrow> real list res" where
  "slope_node model v nd cx cy d dv = (case nd d of (k, ls) \<Rightarrow>
     rbind (array_at model v (Extra k)) (\<lambda>x. rbind (currents model v x ls) (\<lambda>psum.
     rbind (fdiv psum (across d (cx (gm_pack model)) (cy (gm_pack model)))) (\<lambda>s.
     wr dv (gm_n_layers model * gm_rows model * gm_cols model + k) s))))"

definition slope_fn_pack :: "grid_model_t \<Rightarrow> real list \<Rightarrow> real list \<Rightarrow> real list res" where
  "slope_fn_pack model v dv =
    (let side = (\<lambda>nd cx cy. map (slope_node model v nd cx cy) all_sides) in
     rbind (rd (gm_layers model) (hsidx model)) (\<lambda>hs. rbind (rd (gm_layers model) (spidx model)) (\<lambda>sp.
     rbind (in_order
      (side (sink_outer_node model) (\<lambda>pk. c_hs_per pk + c_amb_per pk) (\<lambda>pk. c_hs_per pk + c_amb_per pk) @
       side (sink_inner_node model hs) (\<lambda>pk. c_hs_c_per_x pk + c_amb_c_per_x pk) (\<lambda>pk. c_hs_c_per_y pk + c_amb_c_per_y pk) @
       side (spreader_node model sp) c_sp_per_x c_sp_per_y) dv) (\<lambda>dv.
     if model_secondary (gm_config model) = 0 then Inr dv else
     rbind (rd (gm_layers model) LAYER_PCB) (\<lambda>pcb. rbind (rd (gm_layers model) LAYER_SOLDER) (\<lambda>sol. rbind (rd (gm_layers model) LAYER_SUB) (\<lambda>sub.
     in_order
      (side (pcb_outer_node model) (\<lambda>pk. c_pcb_per pk + c_amb_sec_per pk) (\<lambda>pk. c_pcb_per pk + c_amb_sec_per pk) @
       side (pcb_inner_node model pcb) (\<lambda>pk. c_pcb_c_per_x pk + c_amb_sec_c_per_x pk) (\<lambda>pk. c_pcb_c_per_y pk + c_amb_sec_c_per_y pk) @
       side (solder_slope_node model sol) c_solder_per_x c_solder_per_y @
       side (substrate_node model sub) c_sub_per_x c_sub_per_y) dv)))))))"

definition slope_fn_grid :: "grid_model_t \<Rightarrow> real list \<Rightarrow> grid_model_vector_t \<Rightarrow> real list \<Rightarrow> real list res" where
  "slope_fn_grid model v p dv =
     rbind (for_up 0 (gm_n_layers model) (\<lambda>n. for_up 0 (gm_rows model) (\<lambda>i. for_up 0 (gm_cols model) (\<lambda>j.
       slope_cell model v p n i j))) dv) (slope_fn_pack model v)"

end
