(* ===== verification/Relax_Network.thy ===== *)
theory Relax_Network
  imports Grid_Relax Grid_Chip
begin

text \<open>
  The addends of the relaxation and of the slopes are the resistors of the network that the matrix
  is built from: the sums over them are the rows of the matrix.
\<close>

section \<open>Rows of the matrix as sums over resistors\<close>

lemma sum_weighted_links:
  fixes N :: nat and x :: "nat \<Rightarrow> real"
  assumes "distinct (map fst ls)" "set (map fst ls) \<subseteq> {..<N}"
  shows "(\<Sum>c < N. (case map_of ls c of None \<Rightarrow> 0 | Some R \<Rightarrow> 1 / R) * x c) = (\<Sum>(c, R) \<leftarrow> ls. x c / R)"
  using assms
proof (induction ls)
  case (Cons e ls)
  obtain d R where e: "e = (d, R)" by (cases e)
  have d: "d < N" "map_of ls d = None" using Cons.prems by (auto simp: e map_of_eq_None_iff)
  have "(\<Sum>c < N. (case map_of (e # ls) c of None \<Rightarrow> 0 | Some R \<Rightarrow> 1 / R) * x c) =
      (\<Sum>c < N. (if c = d then x d / R else 0) + (case map_of ls c of None \<Rightarrow> 0 | Some R \<Rightarrow> 1 / R) * x c)"
    using d(2) by (intro sum.cong) (auto simp: e)
  moreover have "(\<Sum>c < N. if c = d then x d / R else 0) = x d / R" using d(1) by simp
  ultimately show ?case using Cons by (simp add: e sum.distrib)
qed simp

lemma row_joined_same:
  assumes "row_joined m M n ls" "row_joined m M n ks"
  shows "mset ls = mset ks"
proof -
  have "distinct ls" "distinct ks" "set ls = set ks" using assms by (auto simp: row_joined_def distinct_map)
  then show ?thesis by (simp add: set_eq_iff_mset_eq_distinct)
qed

lemma sum_list_mset: "mset xs = mset ys \<Longrightarrow> (\<Sum>x \<leftarrow> xs. f x) = (\<Sum>x \<leftarrow> ys. f x :: real)"
  by (metis mset_map sum_mset_sum_list)

lemma row_flow:
  assumes "wired res m M" "n < grid_dim m" "row_joined m M n ls"
  shows "conductance res m n n = ambient_g m n + (\<Sum>(c, R) \<leftarrow> ls. 1 / R)"
    "(\<Sum>c < grid_dim m. conductance res m n c * x c) = conductance res m n n * x n - (\<Sum>(c, R) \<leftarrow> ls. x c / R)"
proof -
  obtain ks gs where r: "row_joined m M n ks" "\<forall>c. conductance res m n c = (if c = n then row_dia (n, ks, gs) else - row_link (n, ks, gs) c)"
    "(\<Sum>R \<leftarrow> gs. 1 / R) = ambient_g m n"
    using node_row [OF assms(1,2)] by blast
  note same = row_joined_same [OF r(1) assms(3)]
  show "conductance res m n n = ambient_g m n + (\<Sum>(c, R) \<leftarrow> ls. 1 / R)"
    using r(2,3) sum_list_mset [OF same, of "\<lambda>(c, R). 1 / R"] by (simp add: row_dia_def case_prod_unfold comp_def)
  have less: "a < b" if "joined m M a b R" for a b R using joined_less stackedD(1,2) [OF wiredD(1) [OF assms(1)]] that by blast
  have sub: "set (map fst ks) \<subseteq> {..<grid_dim m}" using r(1) joined_dim [OF assms(1)] by (auto simp: row_joined_def)
  have "n \<notin> set (map fst ks)" using r(1) less by (fastforce simp: row_joined_def)
  then have "map_of ks n = None" by (simp add: map_of_eq_None_iff)
  then have n: "row_link (n, ks, gs) n = 0" by (simp add: row_link_def)
  have "(\<Sum>c < grid_dim m. conductance res m n c * x c) =
      (\<Sum>c < grid_dim m. (if c = n then conductance res m n n * x n else 0) - row_link (n, ks, gs) c * x c)"
    using r(2) n by (intro sum.cong) auto
  also have "\<dots> = conductance res m n n * x n - (\<Sum>c < grid_dim m. row_link (n, ks, gs) c * x c)"
    using assms(2) by (simp add: sum_subtractf)
  also have "(\<Sum>c < grid_dim m. row_link (n, ks, gs) c * x c) = (\<Sum>(c, R) \<leftarrow> ks. x c / R)"
    using sum_weighted_links [of ks "grid_dim m" x] r(1) sub by (simp add: row_link_def row_joined_def)
  also have "\<dots> = (\<Sum>(c, R) \<leftarrow> ls. x c / R)" by (rule sum_list_mset [OF same])
  finally show "(\<Sum>c < grid_dim m. conductance res m n c * x c) = conductance res m n n * x n - (\<Sum>(c, R) \<leftarrow> ls. x c / R)" .
qed

section \<open>Addends\<close>

primrec place_node :: "grid_model_t \<Rightarrow> place \<Rightarrow> nat" where
  "place_node m (Cell l i j) = cell_node m l i j"
| "place_node m (Extra k) = grid_cells m + k"

definition links_of :: "grid_model_t \<Rightarrow> addend list \<Rightarrow> (nat \<times> real) list" where
  "links_of m ls = concat (map (\<lambda>(ps, R). map (\<lambda>p. (place_node m p, R)) ps) ls)"

lemma links_of_simps [simp]:
  "links_of m [] = []" "links_of m ((ps, R) # ls) = map (\<lambda>p. (place_node m p, R)) ps @ links_of m ls"
  by (simp_all add: links_of_def)

lemma links_of_append [simp]: "links_of m (ls @ ks) = links_of m ls @ links_of m ks"
  by (simp add: links_of_def)

primrec proper :: "grid_model_t \<Rightarrow> place \<Rightarrow> bool" where
  "proper m (Cell l i j) \<longleftrightarrow> in_grid m l i j"
| "proper m (Extra k) \<longleftrightarrow> k < extra_nodes (gm_config m)"

text \<open>The addends of a node and its resistances to the ambient.\<close>

definition addends_of :: "grid_model_t \<Rightarrow> mesh \<Rightarrow> nat \<Rightarrow> addend list \<times> real list \<Rightarrow> bool" where
  "addends_of m M n = (\<lambda>(ls, amb). row_joined m M n (links_of m ls) \<and> (\<forall>(ps, R) \<in> set ls. R \<noteq> 0 \<and> (\<forall>p \<in> set ps. proper m p)) \<and>
     (\<forall>R \<in> set amb. R \<noteq> 0) \<and> (\<Sum>R \<leftarrow> amb. 1 / R) = ambient_g m n)"

lemma total_map: "(\<And>x. x \<in> set xs \<Longrightarrow> f x = Inr (g x)) \<Longrightarrow> total_of (map f xs) = Inr (\<Sum>x \<leftarrow> xs. g x)"
  by (induction xs) simp_all

lemma total_append: "total_of xs = Inr a \<Longrightarrow> total_of ys = Inr b \<Longrightarrow> total_of (xs @ ys) = Inr (a + b)"
proof (induction xs arbitrary: a)
  case (Cons x xs)
  then show ?case by (auto simp: rbind_eq_Inr)
qed simp

lemma sum_divide_list: "(\<Sum>x \<leftarrow> xs. f x / R) = (\<Sum>x \<leftarrow> xs. f x) / (R :: real)"
  by (induction xs) (simp_all add: add_divide_distrib)

lemma sum_links_of:
  "(\<Sum>(c, R) \<leftarrow> links_of m ls. f c / R) = (\<Sum>(ps, R) \<leftarrow> ls. (\<Sum>p \<leftarrow> ps. f (place_node m p)) / (R :: real))"
  by (induction ls) (auto simp: comp_def sum_divide_list)

lemma conductance_sum_ok:
  assumes "wired res m M" "n < grid_dim m" "addends_of m M n A"
  shows "conductance_sum A = Inr (conductance res m n n)"
proof -
  obtain ls amb where A: "A = (ls, amb)" by (cases A)
  have "total_of (map conductance_of ls) = Inr (\<Sum>(ps, R) \<leftarrow> ls. (\<Sum>p \<leftarrow> ps. 1) / R)"
    by (rule total_map) (use assms(3) in \<open>auto simp: A addends_of_def conductance_of_def sum_list_triv\<close>)
  moreover have "total_of (map (fdiv 1) amb) = Inr (\<Sum>R \<leftarrow> amb. 1 / R)"
    by (rule total_map) (use assms(3) in \<open>auto simp: A addends_of_def\<close>)
  ultimately show ?thesis
    using total_append row_flow(1) [OF assms(1,2), of "links_of m ls"] assms(3) sum_links_of [of "\<lambda>_. 1" m ls]
    by (fastforce simp: A addends_of_def conductance_sum_def)
qed

lemma weighted_ok:
  assumes "R \<noteq> 0" "\<And>p. p \<in> set ps \<Longrightarrow> f p = Inr (x p)"
  shows "weighted f (ps, R) = Inr ((\<Sum>p \<leftarrow> ps. x p) / R)"
  using total_map [of ps f x] assms by (simp add: weighted_def)

text \<open>The sums over all addends, at temperatures \<open>x\<close>.\<close>

lemma addends_total:
  assumes "addends_of m M n (ls, amb)" "\<And>p. proper m p \<Longrightarrow> f p = Inr (x (place_node m p))"
  shows "total_of (map (weighted f) ls @ map (fdiv a) amb) = Inr ((\<Sum>(c, R) \<leftarrow> links_of m ls. x c / R) + a * ambient_g m n)"
proof -
  have "total_of (map (weighted f) ls) = Inr (\<Sum>(ps, R) \<leftarrow> ls. (\<Sum>p \<leftarrow> ps. x (place_node m p)) / R)"
  proof (rule total_map)
    fix e assume e: "e \<in> set ls"
    obtain ps R where "e = (ps, R)" by (cases e)
    then show "weighted f e = Inr (case e of (ps, R) \<Rightarrow> (\<Sum>p \<leftarrow> ps. x (place_node m p)) / R)"
      using weighted_ok [of R ps f "\<lambda>p. x (place_node m p)"] assms e by (auto simp: addends_of_def)
  qed
  moreover have "total_of (map (fdiv a) amb) = Inr (\<Sum>R \<leftarrow> amb. a / R)"
    by (rule total_map) (use assms(1) in \<open>auto simp: addends_of_def\<close>)
  moreover have "(\<Sum>R \<leftarrow> amb. a / R) = a * ambient_g m n"
    using assms(1) sum_list_const_mult [of a "\<lambda>R. 1 / R" amb] by (simp add: addends_of_def)
  ultimately show ?thesis using total_append unfolding sum_links_of by fastforce
qed

lemma weighted_sum_ok:
  assumes "wired res m M" "n < grid_dim m" "addends_of m M n A" "\<And>p. proper m p \<Longrightarrow> temp_at t p = Inr (x (place_node m p))"
  shows "weighted_sum m t A = Inr (ambient (gm_config m) * ambient_g m n - (\<Sum>c \<in> {..<grid_dim m} - {n}. conductance res m n c * x c))"
proof -
  obtain ls amb where A: "A = (ls, amb)" by (cases A)
  have "row_joined m M n (links_of m ls)" using assms(3) by (simp add: A addends_of_def)
  from row_flow(2) [OF assms(1,2) this, of x] have "(\<Sum>c \<in> {..<grid_dim m} - {n}. conductance res m n c * x c) = - (\<Sum>(c, R) \<leftarrow> links_of m ls. x c / R)"
    using assms(2) by (subst (asm) sum.remove [of _ n]) simp_all
  then show ?thesis using addends_total [of m M n ls amb "temp_at t" x, OF assms(3) [unfolded A] assms(4)] by (simp add: A weighted_sum_def)
qed

lemma currents_ok:
  assumes "wired res m M" "n < grid_dim m" "addends_of m M n A" "\<And>p. proper m p \<Longrightarrow> array_at m v p = Inr (x (place_node m p))"
  shows "currents m v (x n) A = Inr (ambient (gm_config m) * ambient_g m n - (\<Sum>c < grid_dim m. conductance res m n c * x c))"
proof -
  obtain ls amb where A: "A = (ls, amb)" by (cases A)
  have r: "row_joined m M n (links_of m ls)" using assms(3) by (simp add: A addends_of_def)
  have "currents m v (x n) A =
      Inr ((\<Sum>(c, R) \<leftarrow> links_of m ls. (x c - x n) / R) + (ambient (gm_config m) - x n) * ambient_g m n)"
    using addends_total [OF assms(3) [unfolded A], of "\<lambda>p. rbind (array_at m v p) (\<lambda>y. Inr (y - x n))" "\<lambda>c. x c - x n"] assms(4)
    by (simp add: A currents_def)
  moreover have "(\<Sum>(c, R) \<leftarrow> links_of m ls. (x c - x n) / R) = (\<Sum>(c, R) \<leftarrow> links_of m ls. x c / R) - x n * (\<Sum>(c, R) \<leftarrow> links_of m ls. 1 / R)"
    by (simp add: case_prod_unfold diff_divide_distrib sum_list_subtractf sum_list_const_mult [symmetric])
  ultimately show ?thesis using row_flow [OF assms(1,2) r] by (simp add: algebra_simps)
qed

section \<open>Addends of cells\<close>

lemma plain_mesh_res:
  assumes "plain_R m" "in_grid m l i j"
  shows "j + 1 < gm_cols m \<Longrightarrow> find_res m l i (j + 1) l i j = Inr (to_east (transient_mesh m) l i j)"
    "0 < j \<Longrightarrow> find_res m l i (j - 1) l i j = Inr (to_east (transient_mesh m) l i (j - 1))"
    "i + 1 < gm_rows m \<Longrightarrow> find_res m l (i + 1) j l i j = Inr (to_south (transient_mesh m) l i j)"
    "0 < i \<Longrightarrow> find_res m l (i - 1) j l i j = Inr (to_south (transient_mesh m) l (i - 1) j)"
    "l + 1 < gm_n_layers m \<Longrightarrow> find_res m (l + 1) i j l i j = Inr (to_below (transient_mesh m) l i j)"
    "0 < l \<Longrightarrow> find_res m (l - 1) i j l i j = Inr (to_below (transient_mesh m) (l - 1) i j)"
  using find_res_ok [OF plain_layered [OF assms(1)], of l] assms(2) by (simp_all add: in_grid_def transient_mesh_def)

lemma existing_Cons:
  assumes "c \<Longrightarrow> r = Inr R" "existing xs = Inr ys"
  shows "existing ((c, p, r) # xs) = Inr ((if c then [([p], R)] else []) @ ys)"
  using assms by simp

lemma sides_mset: "mset (concat (map f [North, South, East, West])) = mset (concat (map f all_sides))"
  by (simp add: all_sides_def)

lemma rim_links:
  "mset (links_of m (rim m ly l i j)) = mset (concat (map (\<lambda>d. if on_side m d i j then border_link m ly l d else []) all_sides))"
proof (cases "part m l")
  case None
  have "border_link m ly l d = []" for d unfolding border_link_part None by simp
  then have "concat (map (\<lambda>d. if on_side m d i j then border_link m ly l d else []) all_sides) = []"
    unfolding concat_eq_Nil_conv by auto
  then show ?thesis by (simp add: rim_def None)
next
  case (Some e)
  obtain w rx ry where e: "e = (w, rx, ry)" by (cases e)
  have "border_link m ly l d = [(grid_cells m + at_side w d, edge_res m ly d rx ry)]" for d unfolding border_link_part Some e by simp
  then have l: "links_of m (map (\<lambda>d. ([Extra (at_side w d)], edge_res m ly d rx ry)) (filter P ds)) = concat (map (\<lambda>d. if P d then border_link m ly l d else []) ds)"
    for P ds by (induction ds) simp_all
  show ?thesis unfolding sides_mset [symmetric] rim_def Some e option.case prod.case l ..
qed

lemma rim_proper:
  assumes "resistive ly" "wired res m M"
  shows "\<forall>(ps, R) \<in> set (rim m ly l i j). R \<noteq> 0 \<and> (\<forall>p \<in> set ps. proper m p)"
proof (cases "part m l")
  case (Some e)
  obtain w rx ry where e: "part m l = Some (w, rx, ry)" using Some by (cases e) auto
  have "edge_res m ly d rx ry \<noteq> 0" for d using edge_res_pos [OF assms(1), of rx ry m d] part_pos [OF assms(2) e] by simp
  moreover have "at_side w d < extra_nodes (gm_config m)" for d
    using e by (cases d) (auto simp: part_def Let_def part_node_defs extra_nodes_def EXTRA_def EXTRA_SEC_def split: if_splits)
  ultimately show ?thesis unfolding rim_def e by simp
qed (simp add: rim_def)

lemma next_cells_ok:
  assumes "plain_R m" "in_grid m l i j"
  shows "\<exists>ns. existing (next_cells m l i j) = Inr ns \<and>
    mset (links_of m ns @ concat (map (\<lambda>d. if on_side m d i j then border_link m ly l d else []) all_sides)) =
      mset (cell_rule m (transient_mesh m) ly l i j) \<and>
    (\<forall>(ps, R) \<in> set ns. R \<noteq> 0 \<and> (\<forall>p \<in> set ps. proper m p))"
proof -
  note n = plain_mesh_res [OF assms, unfolded One_nat_def add_Suc_right add_0_right]
  have g: "l < gm_n_layers m" "i < gm_rows m" "j < gm_cols m" using assms(2) by (simp_all add: in_grid_def)
  have w: "wired transient_resistances m (transient_mesh m)" by (rule transient_wired [OF assms(1)])
  have pos: "to_east (transient_mesh m) l i j \<noteq> 0" "to_south (transient_mesh m) l i j \<noteq> 0" "to_below (transient_mesh m) l i j \<noteq> 0"
    if "in_grid m l i j" for l i j using wiredD(5) [OF w that] by simp_all
  let ?M = "transient_mesh m"
  let ?ns = "(if 0 < i then [([Cell l (i - 1) j], to_south ?M l (i - 1) j)] else []) @ (if i + 1 < gm_rows m then [([Cell l (i + 1) j], to_south ?M l i j)] else []) @
    (if j + 1 < gm_cols m then [([Cell l i (j + 1)], to_east ?M l i j)] else []) @ (if 0 < j then [([Cell l i (j - 1)], to_east ?M l i (j - 1))] else []) @
    (if 0 < l then [([Cell (l - 1) i j], to_below ?M (l - 1) i j)] else []) @ (if l + 1 < gm_n_layers m then [([Cell (l + 1) i j], to_below ?M l i j)] else [])"
  have lt: "i < gm_rows m - 1 \<longleftrightarrow> Suc i < gm_rows m" "j < gm_cols m - 1 \<longleftrightarrow> Suc j < gm_cols m" "l < gm_n_layers m - 1 \<longleftrightarrow> Suc l < gm_n_layers m"
    using g by auto
  have ns: "?ns = ?ns @ []" by (rule append_Nil2 [symmetric])
  have "existing (next_cells m l i j) = Inr ?ns"
    unfolding next_cells_def Let_def lt Suc_eq_plus1 [symmetric] ns append_assoc
    by (intro existing_Cons) (simp_all add: n)
  moreover have "mset (links_of m ?ns @ concat (map (\<lambda>d. if on_side m d i j then border_link m ly l d else []) all_sides)) =
      mset (cell_rule m ?M ly l i j)"
    unfolding cell_rule_def by simp
  moreover have "\<forall>(ps, R) \<in> set ?ns. R \<noteq> 0 \<and> (\<forall>p \<in> set ps. proper m p)"
    using pos g by (auto simp: in_grid_def)
  ultimately show ?thesis by blast
qed

lemma cell_addends_ok:
  assumes "plain_R m" "in_grid m l i j"
  shows "\<exists>A. cell_addends next_cells m l i j = Inr A \<and> addends_of m (transient_mesh m) (cell_node m l i j) A"
proof -
  have w: "wired transient_resistances m (transient_mesh m)" by (rule transient_wired [OF assms(1)])
  have l: "l < gm_n_layers m" "length (gm_layers m) = gm_n_layers m" using assms(2) stackedD(3) [OF wiredD(1) [OF w]] by (simp_all add: in_grid_def)
  let ?ly = "gm_layers m ! l"
  obtain ns where ns: "existing (next_cells m l i j) = Inr ns"
    "mset (links_of m ns @ concat (map (\<lambda>d. if on_side m d i j then border_link m ?ly l d else []) all_sides)) =
      mset (cell_rule m (transient_mesh m) ?ly l i j)"
    "\<forall>(ps, R) \<in> set ns. R \<noteq> 0 \<and> (\<forall>p \<in> set ps. proper m p)"
    using next_cells_ok [OF assms, of ?ly] by blast
  have "mset (links_of m (ns @ rim m ?ly l i j)) = mset (cell_rule m (transient_mesh m) ?ly l i j)"
    using ns(2) rim_links [of m ?ly l i j] by simp
  then have "row_joined m (transient_mesh m) (cell_node m l i j) (links_of m (ns @ rim m ?ly l i j))"
    using cell_rule_joined [OF assms(2)] row_joined_mset by blast
  moreover note amb = cell_ambient_ok [OF w l(1)]
  moreover have "(\<Sum>R \<leftarrow> ambient_list m l. 1 / R) = ambient_g m (cell_node m l i j)"
    by (simp add: ambient_g_def cell_node_less [OF assms(2)] cell_node_layer [OF assms(2)])
  moreover have "\<forall>(ps, R) \<in> set (ns @ rim m ?ly l i j). R \<noteq> 0 \<and> (\<forall>p \<in> set ps. proper m p)"
    using ns(3) rim_proper [OF wiredD(4) [OF w l(1)] w] unfolding set_append ball_Un by blast
  moreover have "\<forall>R \<in> set (ambient_list m l). R \<noteq> 0" using amb(2) by (simp add: less_imp_neq [symmetric])
  ultimately have "addends_of m (transient_mesh m) (cell_node m l i j) (ns @ rim m ?ly l i j, ambient_list m l)"
    unfolding addends_of_def prod.case by blast
  then show ?thesis using ns(1) l amb(1) by (simp add: cell_addends_def)
qed

section \<open>Addends of the package\<close>

lemma edge_links_of:
  "map (\<lambda>p. (place_node m p, edge_res m ly d rx ry)) (edge_places m l d) = edge_links m ly l d rx ry"
  by (cases d) (simp_all add: edge_places_def edge_links_def edge_cells_def)

lemma edge_places_proper:
  assumes "stacked m" "l < gm_n_layers m" "p \<in> set (edge_places m l d)"
  shows "proper m p"
  using assms stackedD(1,2) [OF assms(1)] by (cases d) (auto simp: edge_places_def in_grid_def)

definition node_row_of :: "grid_model_t \<Rightarrow> pack_node \<Rightarrow> row" where
  "node_row_of m = (\<lambda>(k, ls, amb). (grid_cells m + k, links_of m ls, amb))"

lemma node_row_of_nodes:
  "node_row_of m (sink_outer_node m d) = sink_outer_row m d"
  "node_row_of m (sink_inner_node m ly d) = sink_inner_row m ly d"
  "node_row_of m (spreader_node m ly d) = spreader_row m ly d"
  "node_row_of m (pcb_outer_node m d) = pcb_outer_row m d"
  "node_row_of m (pcb_inner_node m ly d) = pcb_inner_row m ly d"
  "node_row_of m (solder_node m ly d) = solder_row m ly d"
  "node_row_of m (substrate_node m ly d) = substrate_row m ly d"
  by (simp_all add: node_row_of_def Let_def edge_links_of sink_outer_node_def sink_inner_node_def spreader_node_def pcb_outer_node_def
      pcb_inner_node_def solder_node_def substrate_node_def sink_outer_row_def sink_inner_row_def spreader_row_def pcb_outer_row_def
      pcb_inner_row_def solder_row_def substrate_row_def)

text \<open>The node exists, its addends have places and the places exist.\<close>

definition node_proper :: "grid_model_t \<Rightarrow> pack_node \<Rightarrow> bool" where
  "node_proper m = (\<lambda>(k, ls, amb). k < extra_nodes (gm_config m) \<and> list_all (\<lambda>(ps, R). ps \<noteq> [] \<and> list_all (proper m) ps) ls)"

lemma nodes_proper:
  assumes "stacked m"
  shows "node_proper m (sink_outer_node m d)" "node_proper m (sink_inner_node m ly d)" "node_proper m (spreader_node m ly d)"
    "model_secondary (gm_config m) \<noteq> 0 \<Longrightarrow> node_proper m (pcb_outer_node m d)"
    "model_secondary (gm_config m) \<noteq> 0 \<Longrightarrow> node_proper m (pcb_inner_node m ly d)"
    "model_secondary (gm_config m) \<noteq> 0 \<Longrightarrow> node_proper m (solder_node m ly d)"
    "model_secondary (gm_config m) \<noteq> 0 \<Longrightarrow> node_proper m (substrate_node m ly d)"
proof -
  note L = stacked_layers [OF assms] and n = stackedD [OF assms]
  have e: "edge_places m l d \<noteq> []" for l using n(1,2) by (cases d) (auto simp: edge_places_def)
  have p: "list_all (proper m) (edge_places m l d)" if "l < gm_n_layers m" for l
    using edge_places_proper [OF assms that] by (simp add: list_all_iff)
  have x: "at_side w d < EXTRA" if "w \<in> {SP_W, SINK_C_W, SINK_W}" for w
    using that by (cases d) (auto simp: part_node_defs EXTRA_def)
  have y: "at_side w d < EXTRA + EXTRA_SEC" if "w \<in> {SUB_W, SOLDER_W, PCB_C_W, PCB_W}" for w
    using that by (cases d) (auto simp: part_node_defs EXTRA_def EXTRA_SEC_def)
  have x': "at_side w d < extra_nodes (gm_config m)" if "w \<in> {SP_W, SINK_C_W, SINK_W}" for w
    using x [OF that] by (simp add: extra_nodes_def)
  show "node_proper m (sink_outer_node m d)" "node_proper m (sink_inner_node m ly d)" "node_proper m (spreader_node m ly d)"
    by (simp_all add: node_proper_def sink_outer_node_def sink_inner_node_def spreader_node_def Let_def x' e p L(1,2))
  show "model_secondary (gm_config m) \<noteq> 0 \<Longrightarrow> node_proper m (pcb_outer_node m d)"
    "model_secondary (gm_config m) \<noteq> 0 \<Longrightarrow> node_proper m (pcb_inner_node m ly d)"
    "model_secondary (gm_config m) \<noteq> 0 \<Longrightarrow> node_proper m (solder_node m ly d)"
    "model_secondary (gm_config m) \<noteq> 0 \<Longrightarrow> node_proper m (substrate_node m ly d)"
    by (simp_all add: node_proper_def pcb_outer_node_def pcb_inner_node_def solder_node_def substrate_node_def Let_def extra_nodes_def y e p L(3))
qed

lemma package_nodes_eq:
  assumes "stacked m"
  shows "\<exists>ps ss. primary_nodes m = Inr ps \<and> secondary_nodes m = Inr ss \<and> map (node_row_of m) (ps @ ss) = package_rows m \<and>
    list_all (node_proper m) (ps @ ss)"
proof -
  note L = stacked_layers [OF assms] and n = stackedD [OF assms]
  have m: "map (node_row_of m) (map f ds) = map (\<lambda>d. node_row_of m (f d)) ds" for f ds by simp
  have a: "list_all (node_proper m) (map f ds)" if "\<And>d. node_proper m (f d)" for f ds using that by (simp add: list_all_iff)
  show ?thesis
  proof (cases "model_secondary (gm_config m) = 0")
    case True
    show ?thesis
      using True L(1,2) n(3) by (simp add: primary_nodes_def secondary_nodes_def package_rows_def Let_def comp_def node_row_of_nodes a nodes_proper [OF assms])
  next
    case False
    show ?thesis
      using False L n(3) by (simp add: primary_nodes_def secondary_nodes_def package_rows_def Let_def comp_def node_row_of_nodes a nodes_proper [OF assms])
  qed
qed

lemma package_addends_ok:
  assumes "wired res m M" "map (node_row_of m) nds = package_rows m" "list_all (node_proper m) nds" "(k, A) \<in> set nds"
  shows "k < extra_nodes (gm_config m)" "addends_of m M (grid_cells m + k) A"
proof -
  obtain ls amb where A: "A = (ls, amb)" by (cases A)
  have row: "(grid_cells m + k, links_of m ls, amb) \<in> set (package_rows m)"
    unfolding assms(2) [symmetric] using assms(4) by (force simp: A node_row_of_def)
  have pr: "node_proper m (k, ls, amb)" using assms(3,4) by (auto simp: list_all_iff A)
  then show "k < extra_nodes (gm_config m)" by (simp add: node_proper_def)
  have g: "row_joined m M (grid_cells m + k) (links_of m ls)" "\<forall>R \<in> set amb. 0 < R"
    using package_rows_good [OF assms(1) row] by (simp_all add: good_row_def)
  have "R \<noteq> 0 \<and> (\<forall>p \<in> set ps. proper m p)" if e: "(ps, R) \<in> set ls" for ps R
  proof -
    have p: "ps \<noteq> []" "\<forall>p \<in> set ps. proper m p" using pr e by (auto simp: node_proper_def list_all_iff)
    have "(place_node m (hd ps), R) \<in> set (links_of m ls)" using e p(1) unfolding links_of_def by force
    then have "0 < R" using g(1) joined_pos [OF assms(1)] by (auto simp: row_joined_def)
    then show ?thesis using p(2) by simp
  qed
  moreover have "(\<Sum>R \<leftarrow> amb. 1 / R) = ambient_g m (grid_cells m + k)"
    using row_ground_ok [OF assms(1), of "(grid_cells m + k, links_of m ls, amb)"] row by (simp add: matrix_rows_def row_ground_def)
  moreover have "\<forall>R \<in> set amb. R \<noteq> 0" using g(2) by (simp add: less_imp_neq [symmetric])
  ultimately show "addends_of m M (grid_cells m + k) A" using g(1) unfolding A addends_of_def prod.case by blast
qed

end
