(* ===== verification/Gauss_Seidel.thy ===== *)
theory Gauss_Seidel
  imports Elimination
begin

text \<open>
  Relaxation of a network of conductances, node by node: a node is set to the temperature at which
  its own equation holds. What one pass over all nodes does to the equations and to the distance
  from their solution, for every order of the nodes. The sweep of the grid refines such a pass.
\<close>

section \<open>The equations\<close>

definition solution :: "nat \<Rightarrow> (nat \<Rightarrow> nat \<Rightarrow> real) \<Rightarrow> (nat \<Rightarrow> real) \<Rightarrow> (nat \<Rightarrow> real) \<Rightarrow> bool" where
  "solution N G P s \<longleftrightarrow> (\<forall>n < N. (\<Sum>c < N. G n c * s c) = P n)"

text \<open>The value that solves the equation of a node, the other nodes being left as they are.\<close>

definition relaxed :: "nat \<Rightarrow> (nat \<Rightarrow> nat \<Rightarrow> real) \<Rightarrow> (nat \<Rightarrow> real) \<Rightarrow> (nat \<Rightarrow> real) \<Rightarrow> nat \<Rightarrow> real" where
  "relaxed N G P x n = (P n - (\<Sum>c \<in> {..<N} - {n}. G n c * x c)) / G n n"

lemma row_split: "n < N \<Longrightarrow> (\<Sum>c < N. f c) = f n + (\<Sum>c \<in> {..<N} - {n}. f c :: real)" for N :: nat
  by (subst sum.remove [of _ n]) simp_all

lemma row_others: "(\<Sum>c \<in> {..<N} - {n}. G n c * (x(n := y)) c) = (\<Sum>c \<in> {..<N} - {n}. G n c * (x c :: real))" for N :: nat
  by (rule sum.cong) auto

lemma relaxed_solves:
  assumes "n < N" "G n n \<noteq> 0"
  shows "(\<Sum>c < N. G n c * (x(n := relaxed N G P x n)) c) = P n"
  unfolding row_split [OF assms(1)] row_others using assms(2) by (simp add: relaxed_def)

section \<open>Damping\<close>

text \<open>Weights in which a step takes a node nearer to the solution than all nodes were.\<close>

definition damped :: "nat \<Rightarrow> (nat \<Rightarrow> nat \<Rightarrow> real) \<Rightarrow> (nat \<Rightarrow> real) \<Rightarrow> real \<Rightarrow> bool" where
  "damped N G w \<rho> \<longleftrightarrow> 0 \<le> \<rho> \<and> \<rho> < 1 \<and>
     (\<forall>n < N. 0 < w n \<and> 0 < G n n \<and> (\<Sum>c \<in> {..<N} - {n}. \<bar>G n c\<bar> * w c) \<le> \<rho> * (G n n * w n))"

lemma dampedD:
  assumes "damped N G w \<rho>"
  shows "0 \<le> \<rho>" "\<rho> < 1" "n < N \<Longrightarrow> 0 < w n" "n < N \<Longrightarrow> 0 < G n n"
    "n < N \<Longrightarrow> (\<Sum>c \<in> {..<N} - {n}. \<bar>G n c\<bar> * w c) \<le> \<rho> * (G n n * w n)"
  using assms by (auto simp: damped_def)

lemma conductive_others:
  assumes "conductive 0 N d G" "n < N"
  shows "(\<Sum>c \<in> {..<N} - {n}. \<bar>G n c\<bar> * w c) = - (\<Sum>c \<in> {..<N} - {n}. G n c * w c)"
  unfolding sum_negf [symmetric] using conductiveD(2) [OF assms(1) le0 assms(2)] by (intro sum.cong) (auto simp: abs_of_nonpos)

lemma conductive_diagonal:
  assumes "conductive 0 N d G" "0 < d" "n < N"
  shows "(\<Sum>c \<in> {..<N} - {n}. \<bar>G n c\<bar>) \<le> G n n" "0 < G n n"
proof -
  have leak: "leak 0 N G n = G n n - (\<Sum>c \<in> {..<N} - {n}. \<bar>G n c\<bar>)"
    using conductive_others [OF assms(1,3), of "\<lambda>_. 1"] by (simp add: leak_def atLeast0LessThan row_split [OF assms(3)])
  then show le: "(\<Sum>c \<in> {..<N} - {n}. \<bar>G n c\<bar>) \<le> G n n" using conductiveD(3) [OF assms(1) le0 assms(3)] by simp
  consider "d \<le> leak 0 N G n" | j where "n < j" "j < N" "G n j \<le> - d" using conductiveD(4) [OF assms(1) le0 assms(3)] by blast
  then show "0 < G n n"
  proof cases
    case 1
    have "0 \<le> (\<Sum>c \<in> {..<N} - {n}. \<bar>G n c\<bar>)" by (simp add: sum_nonneg)
    then show ?thesis using 1 leak assms(2) by linarith
  next
    case 2
    have "\<bar>G n j\<bar> \<le> (\<Sum>c \<in> {..<N} - {n}. \<bar>G n c\<bar>)" using 2 by (intro member_le_sum) auto
    then show ?thesis using 2 le assms(2) by linarith
  qed
qed

lemma conductive_damped:
  assumes "conductive 0 N d G" "0 < d"
  shows "\<exists>w \<rho>. damped N G w \<rho>"
proof -
  define w where "w = eliminate N G (\<lambda>_. 1)"
  have w: "(\<Sum>c < N. G n c * w c) = 1" if "n < N" for n
    unfolding w_def by (rule elimination_ok [OF conductive_nonsingular [OF assms] that])
  have nonneg: "0 \<le> w c" if "c < N" for c
    using conductive_mono [OF assms, of "\<lambda>_. 0" w c] w that by simp
  note diag = conductive_diagonal [OF assms]
  have others: "(\<Sum>c \<in> {..<N} - {n}. \<bar>G n c\<bar> * w c) = G n n * w n - 1" if n: "n < N" for n
    using w [OF n] unfolding conductive_others [OF assms(1) n] row_split [OF n] by simp
  have gw: "1 \<le> G n n * w n" if n: "n < N" for n
  proof -
    have "0 \<le> (\<Sum>c \<in> {..<N} - {n}. \<bar>G n c\<bar> * w c)" using nonneg by (intro sum_nonneg mult_nonneg_nonneg) auto
    then show ?thesis using others [OF n] by simp
  qed
  have pos: "0 < w n" if n: "n < N" for n using gw [OF n] nonneg [OF n] by (cases "w n = 0") auto
  let ?g = "\<lambda>n. max 0 (G n n * w n)"
  have "\<exists>e > 0. \<forall>n < N. e * ?g n \<le> 1"
  proof (rule uniform_bound)
    fix n and a b :: real assume "a * ?g n \<le> 1" "b \<le> a"
    then show "b * ?g n \<le> 1" using mult_right_mono [of b a "?g n"] by linarith
  next
    have "1 / ?g n * ?g n \<le> 1 \<and> 0 < 1 / ?g n" if "n < N" for n using gw [OF that] by simp
    then show "\<forall>n < N. \<exists>e > 0. e * ?g n \<le> 1" by blast
  qed
  then obtain e where e: "0 < e" "e * ?g n \<le> 1" if "n < N" for n by blast
  define \<rho> where "\<rho> = (if N = 0 then 0 else max 0 (1 - e))"
  have "(\<Sum>c \<in> {..<N} - {n}. \<bar>G n c\<bar> * w c) \<le> \<rho> * (G n n * w n)" if n: "n < N" for n
  proof -
    have "G n n * w n - 1 \<le> (1 - e) * (G n n * w n)" using e(2) [OF n] gw [OF n] by (simp add: left_diff_distrib)
    also have "\<dots> \<le> \<rho> * (G n n * w n)" using gw [OF n] n by (intro mult_right_mono) (auto simp: \<rho>_def)
    finally show ?thesis unfolding others [OF n] .
  qed
  moreover have "0 \<le> \<rho>" "\<rho> < 1" using e(1) [of 0] by (auto simp: \<rho>_def)
  ultimately show ?thesis unfolding damped_def using pos diag(2) by blast
qed

section \<open>A pass\<close>

text \<open>
  In the middle of a pass that began at \<open>x0\<close>: the nodes of \<open>V\<close> have been set, the greatest change is at
  most \<open>mx\<close>. The equation of a node held when the node was set, at temperatures each of which is that of
  now or that of the beginning.
\<close>

definition nearer :: "nat \<Rightarrow> (nat \<Rightarrow> nat \<Rightarrow> real) \<Rightarrow> (nat \<Rightarrow> real) \<Rightarrow> (nat \<Rightarrow> real) \<Rightarrow> nat set \<Rightarrow> (nat \<Rightarrow> real) \<Rightarrow> real \<Rightarrow> bool" where
  "nearer N G P x0 V x mx \<longleftrightarrow> (\<forall>s w \<rho> q. damped N G w \<rho> \<and> solution N G P s \<and> 0 \<le> q \<and> (\<forall>c < N. \<bar>x0 c - s c\<bar> \<le> q * w c) \<longrightarrow>
     (\<forall>c < N. \<bar>x c - s c\<bar> \<le> (if c \<in> V then \<rho> * q else q) * w c) \<and> (\<forall>W \<ge> 0. (\<forall>c < N. w c \<le> W) \<longrightarrow> mx \<le> 2 * q * W))"

definition swept :: "nat \<Rightarrow> (nat \<Rightarrow> nat \<Rightarrow> real) \<Rightarrow> (nat \<Rightarrow> real) \<Rightarrow> (nat \<Rightarrow> real) \<Rightarrow> nat set \<Rightarrow> (nat \<Rightarrow> real) \<Rightarrow> real \<Rightarrow> bool" where
  "swept N G P x0 V x mx \<longleftrightarrow> 0 \<le> mx \<and> (\<forall>c < N. (c \<notin> V \<longrightarrow> x c = x0 c) \<and> \<bar>x0 c - x c\<bar> \<le> mx) \<and>
     (\<forall>n \<in> V. \<exists>z. z n = x n \<and> (\<forall>c < N. z c = x c \<or> z c = x0 c) \<and> (\<Sum>c < N. G n c * z c) = P n) \<and> nearer N G P x0 V x mx"

lemma swept_start: "swept N G P x {} x 0"
  by (auto simp: swept_def nearer_def)

lemma nearer_step:
  assumes "nearer N G P x0 V x mx" "n < N" "n \<notin> V" "x n = x0 n"
  shows "nearer N G P x0 (insert n V) (x(n := relaxed N G P x n)) (max mx \<bar>x n - relaxed N G P x n\<bar>)"
  unfolding nearer_def
proof (intro allI impI, elim conjE)
  fix s w \<rho> q assume d: "damped N G w \<rho>" and s: "solution N G P s" and q: "0 \<le> q" and e0: "\<forall>c < N. \<bar>x0 c - s c\<bar> \<le> q * w c"
  let ?y = "relaxed N G P x n"
  note D = dampedD [OF d]
  have x: "\<forall>c < N. \<bar>x c - s c\<bar> \<le> (if c \<in> V then \<rho> * q else q) * w c" and mx: "\<forall>W \<ge> 0. (\<forall>c < N. w c \<le> W) \<longrightarrow> mx \<le> 2 * q * W"
    using assms(1) d s q e0 unfolding nearer_def by blast+
  have rq: "\<rho> * q \<le> q" using D(2) q mult_right_mono [of \<rho> 1 q] by simp
  have e: "\<bar>x c - s c\<bar> \<le> q * w c" if "c < N" for c
  proof -
    have "(if c \<in> V then \<rho> * q else q) * w c \<le> q * w c" using rq D(3) [OF that] by (intro mult_right_mono) auto
    then show ?thesis using x that by force
  qed
  have P: "P n = (\<Sum>c < N. G n c * s c)" using s assms(2) by (simp add: solution_def)
  have "?y - s n = - (\<Sum>c \<in> {..<N} - {n}. G n c * (x c - s c)) / G n n"
    using D(4) [OF assms(2)] by (simp add: relaxed_def P row_split [OF assms(2)] right_diff_distrib sum_subtractf field_simps)
  moreover have "\<bar>\<Sum>c \<in> {..<N} - {n}. G n c * (x c - s c)\<bar> \<le> (\<Sum>c \<in> {..<N} - {n}. \<bar>G n c\<bar> * (q * w c))"
    using e by (intro order_trans [OF sum_abs] sum_mono) (auto simp: abs_mult intro: mult_left_mono)
  moreover have "(\<Sum>c \<in> {..<N} - {n}. \<bar>G n c\<bar> * (q * w c)) = q * (\<Sum>c \<in> {..<N} - {n}. \<bar>G n c\<bar> * w c)"
    by (simp add: sum_distrib_left mult_ac)
  moreover have "q * (\<Sum>c \<in> {..<N} - {n}. \<bar>G n c\<bar> * w c) \<le> q * (\<rho> * (G n n * w n))"
    by (rule mult_left_mono [OF D(5) [OF assms(2)] q])
  ultimately have y: "\<bar>?y - s n\<bar> \<le> \<rho> * q * w n"
    using D(4) [OF assms(2)] by (simp add: abs_divide pos_divide_le_eq mult_ac)
  have "\<bar>x n - ?y\<bar> \<le> 2 * q * W" if W: "0 \<le> W" "\<forall>c < N. w c \<le> W" for W
  proof -
    have "\<rho> * q * w n \<le> q * w n" using rq D(3) [OF assms(2)] by (intro mult_right_mono) auto
    moreover have "q * w n \<le> q * W" using W(2) assms(2) q by (intro mult_left_mono) auto
    ultimately show ?thesis using y e [OF assms(2)] by linarith
  qed
  then show "(\<forall>c < N. \<bar>(x(n := ?y)) c - s c\<bar> \<le> (if c \<in> insert n V then \<rho> * q else q) * w c) \<and>
      (\<forall>W \<ge> 0. (\<forall>c < N. w c \<le> W) \<longrightarrow> max mx \<bar>x n - ?y\<bar> \<le> 2 * q * W)"
    using x mx y by auto
qed

lemma swept_step:
  assumes "swept N G P x0 V x mx" "n < N" "n \<notin> V" "G n n \<noteq> 0"
  shows "swept N G P x0 (insert n V) (x(n := relaxed N G P x n)) (max mx \<bar>x n - relaxed N G P x n\<bar>)"
proof -
  let ?y = "relaxed N G P x n" and ?x = "x(n := relaxed N G P x n)"
  have s: "0 \<le> mx" "\<And>c. c < N \<Longrightarrow> c \<notin> V \<Longrightarrow> x c = x0 c" "\<And>c. c < N \<Longrightarrow> \<bar>x0 c - x c\<bar> \<le> mx" "nearer N G P x0 V x mx"
    and z: "\<And>k. k \<in> V \<Longrightarrow> \<exists>z. z k = x k \<and> (\<forall>c < N. z c = x c \<or> z c = x0 c) \<and> (\<Sum>c < N. G k c * z c) = P k"
    using assms(1) unfolding swept_def by blast+
  have n: "x n = x0 n" using s(2) assms(2,3) by blast
  have eqs: "\<exists>z. z k = ?x k \<and> (\<forall>c < N. z c = ?x c \<or> z c = x0 c) \<and> (\<Sum>c < N. G k c * z c) = P k" if "k \<in> insert n V" for k
  proof (cases "k = n")
    case True
    then show ?thesis unfolding True using relaxed_solves [of n N G x P, OF assms(2,4)] by blast
  next
    case False
    then have "k \<in> V" using that by simp
    from z [OF this] obtain z where k: "z k = x k" "\<forall>c < N. z c = x c \<or> z c = x0 c" "(\<Sum>c < N. G k c * z c) = P k" by blast
    have "z c = ?x c \<or> z c = x0 c" if "c < N" for c using k(2) n that by (cases "c = n") auto
    then show ?thesis using False k(1,3) by (intro exI [of _ z]) simp
  qed
  have c: "(c \<notin> insert n V \<longrightarrow> ?x c = x0 c) \<and> \<bar>x0 c - ?x c\<bar> \<le> max mx \<bar>x n - ?y\<bar>" if "c < N" for c
    using s(2,3) [OF that] n by (auto simp: le_max_iff_disj)
  moreover have "0 \<le> max mx \<bar>x n - ?y\<bar>" using s(1) by simp
  ultimately show ?thesis unfolding swept_def using eqs nearer_step [OF s(4) assms(2,3) n] by blast
qed

section \<open>After a pass\<close>

lemma swept_residual:
  assumes "swept N G P x0 V x mx" "n \<in> V" "n < N"
  shows "\<bar>(\<Sum>c < N. G n c * x c) - P n\<bar> \<le> (\<Sum>c \<in> {..<N} - {n}. \<bar>G n c\<bar>) * mx"
proof -
  obtain z where z: "z n = x n" "\<forall>c < N. z c = x c \<or> z c = x0 c" "(\<Sum>c < N. G n c * z c) = P n"
    using assms(1,2) unfolding swept_def by blast
  have mx: "0 \<le> mx" "\<bar>x0 c - x c\<bar> \<le> mx" if "c < N" for c using assms(1) that unfolding swept_def by blast+
  have "(\<Sum>c < N. G n c * x c) - P n = (\<Sum>c \<in> {..<N} - {n}. G n c * (x c - z c))"
    unfolding z(3) [symmetric] row_split [OF assms(3)] by (simp add: z(1) right_diff_distrib sum_subtractf)
  moreover have "\<bar>x c - z c\<bar> \<le> mx" if "c < N" for c using z(2) mx [OF that] that by (auto simp: abs_minus_commute)
  then have "\<bar>\<Sum>c \<in> {..<N} - {n}. G n c * (x c - z c)\<bar> \<le> (\<Sum>c \<in> {..<N} - {n}. \<bar>G n c\<bar> * mx)"
    by (intro order_trans [OF sum_abs] sum_mono) (auto simp: abs_mult intro: mult_left_mono)
  ultimately show ?thesis by (simp add: sum_distrib_right)
qed

text \<open>A pass leaves the solution as it is, and only the solution.\<close>

lemma swept_solution:
  assumes "swept N G P x0 {..<N} x mx" "\<exists>w \<rho>. damped N G w \<rho>" "0 < N"
  shows "mx = 0 \<longleftrightarrow> solution N G P x0" "mx = 0 \<Longrightarrow> c < N \<Longrightarrow> x c = x0 c"
proof -
  have c: "0 \<le> mx" "\<bar>x0 c - x c\<bar> \<le> mx" if "c < N" for c using assms(1) that unfolding swept_def by blast+
  have eq: "x c = x0 c" if "mx = 0" "c < N" for c using c(2) [OF that(2)] that(1) by simp
  then show "mx = 0 \<Longrightarrow> c < N \<Longrightarrow> x c = x0 c" .
  show "mx = 0 \<longleftrightarrow> solution N G P x0"
  proof
    assume z: "mx = 0"
    have "(\<Sum>c < N. G n c * x c) = P n" if "n < N" for n using swept_residual [OF assms(1) _ that] that z by simp
    then show "solution N G P x0" using eq [OF z] by (simp add: solution_def)
  next
    assume s: "solution N G P x0"
    obtain w \<rho> where d: "damped N G w \<rho>" using assms(2) by blast
    define W where "W = (\<Sum>c < N. w c)"
    have W: "0 \<le> W" "\<forall>c < N. w c \<le> W"
      using dampedD(3) [OF d] by (auto simp: W_def less_imp_le intro!: sum_nonneg member_le_sum)
    have near: "nearer N G P x0 {..<N} x mx" using assms(1) by (simp add: swept_def)
    have "mx \<le> 2 * 0 * W" using near [unfolded nearer_def, rule_format, of w \<rho> x0 0] d s W by simp
    then show "mx = 0" using c(1) [OF assms(3)] by simp
  qed
qed

text \<open>Passes until the change is small: how many are enough, and what is left then.\<close>

lemma swept_contracts:
  assumes "swept N G P x0 {..<N} x mx" "damped N G w \<rho>" "solution N G P s" "0 \<le> q" "\<forall>c < N. \<bar>x0 c - s c\<bar> \<le> q * w c"
    and "0 \<le> W" "\<forall>c < N. w c \<le> W"
  shows "\<forall>c < N. \<bar>x c - s c\<bar> \<le> \<rho> * q * w c" "mx \<le> 2 * q * W"
  using assms(1) unfolding swept_def nearer_def using assms(2-7) by auto

lemma near_enough:
  assumes "damped N G w \<rho>" "0 < (\<epsilon>::real)"
  shows "\<exists>q W k. 0 \<le> q \<and> (\<forall>c < N. \<bar>x c - s c\<bar> \<le> q * w c) \<and> 0 \<le> W \<and> (\<forall>c < N. w c \<le> W) \<and> 2 * (\<rho> ^ k * q) * W < \<epsilon>"
proof -
  note D = dampedD [OF assms(1)]
  define W where "W = (\<Sum>c < N. w c)"
  define q where "q = (\<Sum>c < N. \<bar>x c - s c\<bar> / w c)"
  have W: "0 \<le> W" "\<forall>c < N. w c \<le> W" using D(3) by (auto simp: W_def less_imp_le intro!: sum_nonneg member_le_sum)
  have q: "0 \<le> q" using D(3) by (auto simp: q_def less_imp_le intro!: sum_nonneg)
  have "\<bar>x c - s c\<bar> \<le> q * w c" if c: "c < N" for c
  proof -
    have "\<bar>x c - s c\<bar> / w c \<le> q" unfolding q_def using D(3) c by (intro member_le_sum) (auto simp: less_imp_le)
    then show ?thesis using D(3) [OF c] by (simp add: pos_divide_le_eq)
  qed
  moreover have "0 < \<epsilon> / (2 * q * W + 1)" using assms(2) q W(1) by (simp add: add_nonneg_pos)
  then obtain k where "\<rho> ^ k < \<epsilon> / (2 * q * W + 1)" using real_arch_pow_inv D(2) by blast
  then have "\<rho> ^ k * (2 * q * W + 1) < \<epsilon>" using q W(1) by (simp add: pos_less_divide_eq add_nonneg_pos)
  then have "2 * (\<rho> ^ k * q) * W < \<epsilon>" using zero_le_power [OF D(1), of k] by (simp add: algebra_simps)
  ultimately show ?thesis using q W by blast
qed

end
