(* ===== verification/Relax_Ok.thy ===== *)
theory Relax_Ok
  imports Relax_Network Gauss_Seidel
begin

text \<open>
  The sweep of the grid is a pass of relaxation over all nodes of the network, so the loop of sweeps
  ends, near the steady state.

  The slopes of the explicit solver: for a node the power less the current that leaves it, over its
  capacitance, with the very matrix, capacitances and vector of power of the implicit solver.
\<close>

section \<open>Loops over all nodes\<close>

lemma cells_loop:
  assumes "I 0 s" "\<And>l i j t. in_grid m l i j \<Longrightarrow> I (cell_node m l i j) t \<Longrightarrow> \<exists>t'. body l i j t = Inr t' \<and> I (Suc (cell_node m l i j)) t'"
  shows "\<exists>t. for_up 0 (gm_n_layers m) (\<lambda>l. for_up 0 (gm_rows m) (\<lambda>i. for_up 0 (gm_cols m) (\<lambda>j. body l i j))) s = Inr t \<and> I (grid_cells m) t"
proof -
  have step: "cell_node m l i (Suc j) = Suc (cell_node m l i j)" for l i j by (simp add: cell_node_def)
  have row: "\<exists>t'. for_up 0 (gm_cols m) (\<lambda>j. body l i j) t = Inr t' \<and> I (cell_node m l (Suc i) 0) t'"
    if "l < gm_n_layers m" "i < gm_rows m" "I (cell_node m l i 0) t" for l i t
    unfolding cell_node_order(1) [unfolded Suc_eq_plus1 [symmetric], symmetric]
    by (rule for_up_rule [where I = "\<lambda>j. I (cell_node m l i j)"]) (use that assms(2) step in \<open>auto simp: in_grid_def\<close>)
  have layer: "\<exists>t'. for_up 0 (gm_rows m) (\<lambda>i. for_up 0 (gm_cols m) (\<lambda>j. body l i j)) t = Inr t' \<and> I (cell_node m (Suc l) 0 0) t'"
    if "l < gm_n_layers m" "I (cell_node m l 0 0) t" for l t
    unfolding cell_node_order(2) [unfolded Suc_eq_plus1 [symmetric], symmetric]
    by (rule for_up_rule [where I = "\<lambda>i. I (cell_node m l i 0)"]) (use that row in auto)
  have "\<exists>t. for_up 0 (gm_n_layers m) (\<lambda>l. for_up 0 (gm_rows m) (\<lambda>i. for_up 0 (gm_cols m) (\<lambda>j. body l i j))) s = Inr t \<and>
      I (cell_node m (gm_n_layers m) 0 0) t"
    by (rule for_up_rule [where I = "\<lambda>l. I (cell_node m l 0 0)"]) (use layer assms(1) in \<open>auto simp: cell_node_def\<close>)
  moreover have "cell_node m (gm_n_layers m) 0 0 = grid_cells m" by (simp add: cell_node_def grid_cells_def)
  ultimately show ?thesis by simp
qed

lemma in_order_rule:
  assumes "distinct (map key xs)" "set (map key xs) \<inter> V = {}" "I V s"
    and "\<And>x V t. x \<in> set xs \<Longrightarrow> key x \<notin> V \<Longrightarrow> I V t \<Longrightarrow> \<exists>t'. f x t = Inr t' \<and> I (insert (key x) V) t'"
  shows "\<exists>t. in_order (map f xs) s = Inr t \<and> I (V \<union> key ` set xs) t"
  using assms
proof (induction xs arbitrary: V s)
  case (Cons x xs)
  obtain t where t: "f x s = Inr t" "I (insert (key x) V) t" using Cons.prems(2,3) Cons.prems(4) [of x V s] by auto
  have "\<exists>u. in_order (map f xs) t = Inr u \<and> I (insert (key x) V \<union> key ` set xs) u"
    by (rule Cons.IH) (use Cons.prems t(2) in auto)
  then show ?case using t(1) by simp
qed simp

section \<open>Reading\<close>

lemma extra_at: "gv_ok t (gm_n_layers m) (gm_rows m) (gm_cols m) xt \<Longrightarrow> gv_extra t = grid_cells m"
  by (simp add: gv_extra_def gv_ok_def grid_cells_def mult.commute mult.left_commute)

abbreviation fits_grid :: "grid_model_t \<Rightarrow> grid_model_vector_t \<Rightarrow> bool" where
  "fits_grid m t \<equiv> gv_ok t (gm_n_layers m) (gm_rows m) (gm_cols m) (extra_nodes (gm_config m))"

lemma fits_length: "fits_grid m t \<Longrightarrow> length (gv_data t) = grid_dim m"
  by (simp add: gv_ok_def grid_dim_cells grid_cells_def)

lemma temp_at_proper:
  assumes "fits_grid m t" "proper m p"
  shows "temp_at t p = Inr (gv_data t ! place_node m p)"
proof (cases p)
  case (Cell l i j)
  then show ?thesis using assms gv_get_ok [OF assms(1)] gv_at_node [OF assms(1)] by (simp add: in_grid_def)
next
  case (Extra k)
  then show ?thesis using assms extra_at [OF assms(1)] by (simp add: gx_get_ok [OF assms(1)] gx_at_def)
qed

lemma array_at_proper:
  assumes "length v = grid_dim m" "proper m p"
  shows "array_at m v p = Inr (v ! place_node m p)"
proof (cases p)
  case (Cell l i j)
  have "cell_node m l i j < length v" using cell_node_less assms Cell by (simp add: grid_dim_cells trans_less_add1)
  then show ?thesis using Cell by (simp add: cell_node_def ac_simps)
next
  case (Extra k)
  then show ?thesis using assms by (simp add: grid_dim_cells grid_cells_def)
qed

lemma gv_set_node:
  assumes "fits_grid m t" "in_grid m l i j"
  shows "gv_set t l i j x = Inr (t\<lparr>gv_data := (gv_data t)[cell_node m l i j := x]\<rparr>)"
proof -
  have "cell_node m l i j < length (gv_data t)" using cell_node_less [OF assms(2)] fits_length [OF assms(1)] by (simp add: grid_dim_cells)
  moreover have "gv_index t l i j = cell_node m l i j" using assms(1) by (simp add: gv_index_def gv_ok_def cell_node_row)
  ultimately show ?thesis using assms by (simp add: gv_set_def gv_ok_def in_grid_def)
qed

lemma gx_set_node:
  assumes "fits_grid m t" "k < extra_nodes (gm_config m)"
  shows "gx_set t k x = Inr (t\<lparr>gv_data := (gv_data t)[grid_cells m + k := x]\<rparr>)"
  using extra_at [OF assms(1)] fits_length [OF assms(1)] assms(2) by (simp add: gx_set_def grid_dim_cells)

lemma fits_grid_update: "fits_grid m (t\<lparr>gv_data := (gv_data t)[n := x]\<rparr>) = fits_grid m t"
  by (simp add: gv_ok_def)

section \<open>The sweep\<close>

text \<open>In the middle of a sweep.\<close>

definition sweeping :: "grid_model_t \<Rightarrow> grid_model_vector_t \<Rightarrow> grid_model_vector_t \<Rightarrow> nat set \<Rightarrow> grid_model_vector_t \<Rightarrow> real \<Rightarrow> bool" where
  "sweeping m pw t0 V t mx \<longleftrightarrow> fits_grid m t \<and>
     swept (grid_dim m) (conductance transient_resistances m) (node_power m pw) ((!) (gv_data t0)) V ((!) (gv_data t)) mx"

lemma conductance_diag:
  assumes "wired res m M" "n < grid_dim m"
  shows "0 < conductance res m n n"
  using grid_conductive [OF assms(1)] conductive_diagonal(2) assms(2) by blast

lemma sweeping_step:
  assumes "sweeping m pw t0 V t mx" "wired transient_resistances m M" "n < grid_dim m" "n \<notin> V"
    and "x = relaxed (grid_dim m) (conductance transient_resistances m) (node_power m pw) ((!) (gv_data t)) n"
  shows "sweeping m pw t0 (insert n V) (t\<lparr>gv_data := (gv_data t)[n := x]\<rparr>) (max mx \<bar>gv_data t ! n - x\<bar>)"
proof -
  have "n < length (gv_data t)" using assms(1,3) fits_length [of t m] by (simp add: sweeping_def)
  then have e: "(!) ((gv_data t)[n := x]) = ((!) (gv_data t))(n := x)" by (simp add: fun_eq_iff nth_list_update)
  have "swept (grid_dim m) (conductance transient_resistances m) (node_power m pw) ((!) (gv_data t0)) V ((!) (gv_data t)) mx"
    using assms(1) by (simp add: sweeping_def)
  from swept_step [OF this assms(3,4)] conductance_diag [OF assms(2,3)]
  have "swept (grid_dim m) (conductance transient_resistances m) (node_power m pw) ((!) (gv_data t0)) (insert n V)
      (((!) (gv_data t))(n := x)) (max mx \<bar>gv_data t ! n - x\<bar>)" by (simp add: assms(5) less_imp_neq [symmetric])
  then show ?thesis using assms(1) fits_grid_update [of t n x m] e unfolding sweeping_def by simp
qed

lemma if_greater: "(if b > a then b else a) = max a (b :: real)"
  by (simp add: max_def)

lemma relax_cell_ok:
  assumes "plain_R m" "fits_grid m pw" "in_grid m l i j" "sweeping m pw t0 {..<cell_node m l i j} t mx"
  shows "\<exists>t' mx'. relax_cell m pw l i j (t, mx) = Inr (t', mx') \<and> sweeping m pw t0 {..<Suc (cell_node m l i j)} t' mx'"
proof -
  let ?n = "cell_node m l i j" and ?x = "(!) (gv_data t)" and ?G = "conductance transient_resistances m"
  note w = transient_wired [OF assms(1)]
  have n: "?n < grid_dim m" "?n < grid_cells m" using cell_node_less [OF assms(3)] by (simp_all add: grid_dim_cells)
  have t: "fits_grid m t" using assms(4) by (simp add: sweeping_def)
  obtain A where A: "cell_addends next_cells m l i j = Inr A" "addends_of m (transient_mesh m) ?n A" using cell_addends_ok [OF assms(1,3)] by blast
  have nc: "cell_addends sweep_cells m l i j = Inr A"
    using A(1) assms(1) by (simp add: cell_addends_def sweep_cells_def plain_R_def)
  have c: "conductance_sum A = Inr (?G ?n ?n)" by (rule conductance_sum_ok [OF w n(1) A(2)])
  have s: "weighted_sum m t A = Inr (ambient (gm_config m) * ambient_g m ?n - (\<Sum>c \<in> {..<grid_dim m} - {?n}. ?G ?n c * ?x c))"
    by (rule weighted_sum_ok [OF w n(1) A(2) temp_at_proper [OF t]])
  have g: "gv_get u l i j = Inr (gv_data u ! ?n)" if "fits_grid m u" for u
    using gv_get_ok [OF that] gv_at_node [OF that] assms(3) by (simp add: in_grid_def)
  define x where "x = relaxed (grid_dim m) ?G (node_power m pw) ?x ?n"
  have x: "fdiv (gv_data pw ! ?n + (ambient (gm_config m) * ambient_g m ?n - (\<Sum>c \<in> {..<grid_dim m} - {?n}. ?G ?n c * ?x c))) (?G ?n ?n) = Inr x"
    using conductance_diag [OF w n(1)] n(2) by (simp add: x_def relaxed_def node_power_def)
  have "relax_cell m pw l i j (t, mx) = Inr (t\<lparr>gv_data := (gv_data t)[?n := x]\<rparr>, max mx \<bar>gv_data t ! ?n - x\<bar>)"
    by (simp add: relax_cell_def nc c s g [OF t] g [OF assms(2)] x gv_set_node [OF t assms(3)] if_greater)
  then show ?thesis using sweeping_step [OF assms(4) w n(1) _ x_def] by (simp add: lessThan_Suc)
qed

lemma relax_node_ok:
  assumes "wired transient_resistances m M" "sweeping m pw t0 V t (max mx0 mx)" "k < extra_nodes (gm_config m)"
    and "addends_of m M (grid_cells m + k) A" "grid_cells m + k \<notin> V"
  shows "\<exists>t' mx'. relax_node m (k, A) (t, mx) = Inr (t', mx') \<and> sweeping m pw t0 (insert (grid_cells m + k) V) t' (max mx0 mx')"
proof -
  let ?n = "grid_cells m + k" and ?x = "(!) (gv_data t)" and ?G = "conductance transient_resistances m"
  have n: "?n < grid_dim m" using assms(3) by (simp add: grid_dim_cells)
  have t: "fits_grid m t" using assms(2) by (simp add: sweeping_def)
  have c: "conductance_sum A = Inr (?G ?n ?n)" by (rule conductance_sum_ok [OF assms(1) n assms(4)])
  have s: "weighted_sum m t A = Inr (ambient (gm_config m) * ambient_g m ?n - (\<Sum>c \<in> {..<grid_dim m} - {?n}. ?G ?n c * ?x c))"
    by (rule weighted_sum_ok [OF assms(1) n assms(4) temp_at_proper [OF t]])
  have g: "gx_get t k = Inr (gv_data t ! ?n)" using gx_get_ok [OF t assms(3)] extra_at [OF t] by (simp add: gx_at_def)
  define x where "x = relaxed (grid_dim m) ?G (node_power m pw) ?x ?n"
  have x: "fdiv (ambient (gm_config m) * ambient_g m ?n - (\<Sum>c \<in> {..<grid_dim m} - {?n}. ?G ?n c * ?x c)) (?G ?n ?n) = Inr x"
    using conductance_diag [OF assms(1) n] by (simp add: x_def relaxed_def node_power_def)
  have "relax_node m (k, A) (t, mx) = Inr (t\<lparr>gv_data := (gv_data t)[?n := x]\<rparr>, max mx \<bar>gv_data t ! ?n - x\<bar>)"
    by (simp add: relax_node_def c s x g gx_set_node [OF t assms(3)] if_greater)
  then show ?thesis using sweeping_step [OF assms(2,1) n assms(5) x_def] by (simp add: max.assoc)
qed

lemma sweep_ok:
  assumes "plain_R m" "fits_grid m pw" "fits_grid m t0"
  shows "\<exists>t \<delta>. single_iteration_steady_grid m pw t0 = Inr (t, \<delta>) \<and> sweeping m pw t0 {..<grid_dim m} t \<delta>"
proof -
  note w = transient_wired [OF assms(1)]
  have start: "sweeping m pw t0 {..<0} t0 0" using assms(3) swept_start by (simp add: sweeping_def)
  obtain t mx where t: "for_up 0 (gm_n_layers m) (\<lambda>n. for_up 0 (gm_rows m) (\<lambda>i. for_up 0 (gm_cols m) (\<lambda>j. relax_cell m pw n i j))) (t0, 0) = Inr (t, mx)"
    "sweeping m pw t0 {..<grid_cells m} t mx"
    using cells_loop [of "\<lambda>p s. sweeping m pw t0 {..<p} (fst s) (snd s)" "(t0, 0)" m "relax_cell m pw"] relax_cell_ok [OF assms(1,2)] start by fastforce
  obtain ps ss where ns: "primary_nodes m = Inr ps" "secondary_nodes m = Inr ss" "map (node_row_of m) (ps @ ss) = package_rows m"
    "list_all (node_proper m) (ps @ ss)"
    using package_nodes_eq [OF wiredD(1) [OF w]] by blast
  let ?key = "\<lambda>(k, A). grid_cells m + k"
  have keys: "map ?key (ps @ ss) = map fst (package_rows m)"
    unfolding ns(3) [symmetric] by (simp add: node_row_of_def comp_def case_prod_unfold)
  have mx: "0 \<le> mx" using t(2) by (simp add: sweeping_def swept_def)
  let ?I = "\<lambda>V s. sweeping m pw t0 V (fst s) (max mx (snd s))"
  have "\<exists>s. in_order (map (relax_node m) (ps @ ss)) (t, 0) = Inr s \<and> ?I ({..<grid_cells m} \<union> ?key ` set (ps @ ss)) s"
  proof (rule in_order_rule [of ?key])
    show "distinct (map ?key (ps @ ss))" unfolding keys by (rule package_rows_nodes(1))
    show "set (map ?key (ps @ ss)) \<inter> {..<grid_cells m} = {}" unfolding keys package_rows_nodes(2) by auto
    show "?I {..<grid_cells m} (t, 0)" using t(2) mx by simp
    fix x V s assume x: "x \<in> set (ps @ ss)" "?key x \<notin> V" "?I V s"
    obtain k A where k: "x = (k, A)" by (cases x)
    show "\<exists>s'. relax_node m x s = Inr s' \<and> ?I (insert (?key x) V) s'"
      using relax_node_ok [OF w, of pw t0 V "fst s" mx "snd s" k A] package_addends_ok [OF w ns(3,4) x(1) [unfolded k]] x(2,3) by (auto simp: k)
  qed
  moreover have "{..<grid_cells m} \<union> ?key ` set (ps @ ss) = {..<grid_dim m}"
  proof -
    have "?key ` set (ps @ ss) = {grid_cells m..<grid_dim m}" unfolding set_map [symmetric] keys by (rule package_rows_nodes(2))
    then show ?thesis by (auto simp: grid_dim_cells)
  qed
  ultimately obtain u d where u: "in_order (map (relax_node m) (ps @ ss)) (t, 0) = Inr (u, d)" "sweeping m pw t0 {..<grid_dim m} u (max mx d)"
    by auto
  then have "single_iteration_steady_grid m pw t0 = Inr (u, max mx d)"
    using t(1) ns(1,2) by (simp add: single_iteration_steady_grid_def single_iteration_steady_pack_def)
  then show ?thesis using u(2) by blast
qed

section \<open>The loop of sweeps\<close>

lemma relax_loop_steps:
  assumes "single_iteration_steady_grid m pw t = Inr (u, \<delta>)"
  shows "relax_loop m pw t = (if eq \<delta> 0 then Some (Inr u) else relax_loop m pw u)"
  using assms by (subst relax_loop.simps) simp

text \<open>At the temperatures with which the loop ends the equation of a node is off by less than its conductance times \<open>DELTA\<close>.\<close>

definition nearly_balanced :: "grid_model_t \<Rightarrow> grid_model_vector_t \<Rightarrow> real list \<Rightarrow> bool" where
  "nearly_balanced m pw t \<longleftrightarrow> (\<forall>n < grid_dim m.
     \<bar>(\<Sum>c < grid_dim m. conductance transient_resistances m n c * t ! c) - node_power m pw n\<bar> < conductance transient_resistances m n n * DELTA)"

lemma swept_balanced:
  assumes "wired transient_resistances m M" "sweeping m pw t0 {..<grid_dim m} t \<delta>" "eq \<delta> 0"
  shows "nearly_balanced m pw (gv_data t)"
  unfolding nearly_balanced_def
proof (intro allI impI)
  let ?N = "grid_dim m" and ?G = "conductance transient_resistances m"
  fix n assume n: "n < ?N"
  obtain d where d: "0 < d" "conductive 0 ?N d ?G" using grid_conductive [OF assms(1)] by blast
  have s: "swept ?N ?G (node_power m pw) ((!) (gv_data t0)) {..<?N} ((!) (gv_data t)) \<delta>" using assms(2) by (simp add: sweeping_def)
  then have \<delta>: "0 \<le> \<delta>" "\<delta> < DELTA" using assms(3) by (auto simp: swept_def eq_def)
  have "\<bar>(\<Sum>c < ?N. ?G n c * gv_data t ! c) - node_power m pw n\<bar> \<le> (\<Sum>c \<in> {..<?N} - {n}. \<bar>?G n c\<bar>) * \<delta>"
    by (rule swept_residual [OF s _ n]) (use n in simp)
  also have "\<dots> \<le> ?G n n * \<delta>" by (rule mult_right_mono [OF conductive_diagonal(1) [OF d(2,1) n] \<delta>(1)])
  also have "\<dots> < ?G n n * DELTA" using conductance_diag [OF assms(1) n] \<delta>(2) by simp
  finally show "\<bar>(\<Sum>c < ?N. ?G n c * gv_data t ! c) - node_power m pw n\<bar> < ?G n n * DELTA" .
qed

text \<open>The loop, near enough to the solution: in weights \<open>w\<close> bounded by \<open>W\<close> every sweep brings the temperatures nearer.\<close>

lemma sweep_once:
  assumes "plain_R m" "fits_grid m pw" "damped (grid_dim m) (conductance transient_resistances m) w \<rho>"
    and "solution (grid_dim m) (conductance transient_resistances m) (node_power m pw) s" "0 \<le> W" "\<forall>c < grid_dim m. w c \<le> W"
    and "fits_grid m t" "0 \<le> q" "\<forall>c < grid_dim m. \<bar>gv_data t ! c - s c\<bar> \<le> q * w c"
  shows "\<exists>u \<delta>. single_iteration_steady_grid m pw t = Inr (u, \<delta>) \<and> fits_grid m u \<and> 0 \<le> \<delta> \<and> (eq \<delta> 0 \<longrightarrow> nearly_balanced m pw (gv_data u)) \<and>
      (\<forall>c < grid_dim m. \<bar>gv_data u ! c - s c\<bar> \<le> \<rho> * q * w c) \<and> \<delta> \<le> 2 * q * W"
proof -
  obtain u \<delta> where u: "single_iteration_steady_grid m pw t = Inr (u, \<delta>)" "sweeping m pw t {..<grid_dim m} u \<delta>"
    using sweep_ok [OF assms(1,2,7)] by blast
  then have sw: "swept (grid_dim m) (conductance transient_resistances m) (node_power m pw) ((!) (gv_data t)) {..<grid_dim m} ((!) (gv_data u)) \<delta>"
    and f: "fits_grid m u" by (simp_all add: sweeping_def)
  note c = swept_contracts [OF sw assms(3,4,8,9,5,6)]
  have "0 \<le> \<delta>" using sw by (simp add: swept_def)
  then show ?thesis using u(1) f c swept_balanced [OF transient_wired [OF assms(1)] u(2)] by blast
qed

lemma relax_loop_ends:
  assumes "plain_R m" "fits_grid m pw" "damped (grid_dim m) (conductance transient_resistances m) w \<rho>"
    and "solution (grid_dim m) (conductance transient_resistances m) (node_power m pw) s" "0 \<le> W" "\<forall>c < grid_dim m. w c \<le> W"
    and "fits_grid m t" "0 \<le> q" "\<forall>c < grid_dim m. \<bar>gv_data t ! c - s c\<bar> \<le> q * w c" "2 * (\<rho> ^ k * q) * W < DELTA"
  shows "\<exists>u. relax_loop m pw t = Some (Inr u) \<and> fits_grid m u \<and> nearly_balanced m pw (gv_data u)"
  using assms(7-10)
proof (induction k arbitrary: t q)
  case 0
  obtain u \<delta> where u: "single_iteration_steady_grid m pw t = Inr (u, \<delta>)" "fits_grid m u" "0 \<le> \<delta>" "eq \<delta> 0 \<longrightarrow> nearly_balanced m pw (gv_data u)" "\<delta> \<le> 2 * q * W"
    using sweep_once [OF assms(1-6) 0(1-3)] by blast
  then have "eq \<delta> 0" using 0(4) by (simp add: eq_def)
  then show ?case using u relax_loop_steps [OF u(1)] by simp
next
  case (Suc k)
  obtain u \<delta> where u: "single_iteration_steady_grid m pw t = Inr (u, \<delta>)" "fits_grid m u" "eq \<delta> 0 \<longrightarrow> nearly_balanced m pw (gv_data u)"
    "\<forall>c < grid_dim m. \<bar>gv_data u ! c - s c\<bar> \<le> \<rho> * q * w c"
    using sweep_once [OF assms(1-6) Suc.prems(1-3)] by blast
  show ?case
  proof (cases "eq \<delta> 0")
    case True
    then show ?thesis using u relax_loop_steps [OF u(1)] by simp
  next
    case False
    have "\<exists>v. relax_loop m pw u = Some (Inr v) \<and> fits_grid m v \<and> nearly_balanced m pw (gv_data v)"
      by (rule Suc.IH [OF u(2) _ u(4)]) (use Suc.prems(2,4) dampedD(1) [OF assms(3)] in \<open>simp_all add: mult_ac\<close>)
    then show ?thesis using relax_loop_steps [OF u(1)] False by simp
  qed
qed

lemma grid_damped:
  assumes "wired res m M"
  shows "\<exists>w \<rho>. damped (grid_dim m) (conductance res m) w \<rho>"
  using grid_conductive [OF assms] conductive_damped by blast

lemma grid_solution:
  assumes "wired res m M"
  shows "\<exists>s. solution (grid_dim m) (conductance res m) P s"
proof -
  obtain d where d: "0 < d" "conductive 0 (grid_dim m) d (conductance res m)" using grid_conductive [OF assms] by blast
  show ?thesis
    using elimination_ok [OF conductive_nonsingular [OF d(2,1)]] by (intro exI [of _ "eliminate (grid_dim m) (conductance res m) P"]) (simp add: solution_def)
qed

theorem relax_loop_ok:
  assumes "plain_R m" "fits_grid m pw" "fits_grid m t"
  shows "\<exists>u. relax_loop m pw t = Some (Inr u) \<and> fits_grid m u \<and> nearly_balanced m pw (gv_data u)"
proof -
  note w = transient_wired [OF assms(1)]
  obtain x \<rho> where d: "damped (grid_dim m) (conductance transient_resistances m) x \<rho>" using grid_damped [OF w] by blast
  obtain s where s: "solution (grid_dim m) (conductance transient_resistances m) (node_power m pw) s" using grid_solution [OF w] by blast
  have "0 < DELTA" by (simp add: DELTA_def)
  from near_enough [OF d this, of "\<lambda>c. gv_data t ! c" s] obtain q W k where "0 \<le> q" "\<forall>c < grid_dim m. \<bar>gv_data t ! c - s c\<bar> \<le> q * x c" "0 \<le> W"
    "\<forall>c < grid_dim m. x c \<le> W" "2 * (\<rho> ^ k * q) * W < DELTA" by blast
  then show ?thesis using relax_loop_ends [OF assms(1,2) d s _ _ assms(3)] by blast
qed

lemma sweep_fixed:
  assumes "plain_R m" "fits_grid m pw" "fits_grid m t"
  shows "single_iteration_steady_grid m pw t = Inr (t, 0) \<longleftrightarrow> grid_balance m pw (gv_data t)"
proof -
  note w = transient_wired [OF assms(1)]
  obtain u \<delta> where u: "single_iteration_steady_grid m pw t = Inr (u, \<delta>)" "sweeping m pw t {..<grid_dim m} u \<delta>"
    using sweep_ok [OF assms] by blast
  have f: "fits_grid m u" and sw: "swept (grid_dim m) (conductance transient_resistances m) (node_power m pw) ((!) (gv_data t)) {..<grid_dim m} ((!) (gv_data u)) \<delta>"
    using u(2) by (simp_all add: sweeping_def)
  note z = swept_solution [OF sw grid_damped [OF w] grid_dim_pos]
  have b: "solution (grid_dim m) (conductance transient_resistances m) (node_power m pw) ((!) (gv_data t)) \<longleftrightarrow> grid_balance m pw (gv_data t)"
    using fits_length [OF assms(3)] by (simp add: solution_def grid_balance_def)
  have "u = t" if "\<delta> = 0"
  proof -
    have "gv_data u = gv_data t" using z(2) [OF that] fits_length [OF f] fits_length [OF assms(3)] by (intro nth_equalityI) simp_all
    then show ?thesis using f assms(3) by (cases u; cases t) (simp add: gv_ok_def)
  qed
  then show ?thesis using z(1) unfolding b by (auto simp: u(1))
qed

section \<open>The slope of a node\<close>

definition slope_at :: "grid_model_t \<Rightarrow> grid_model_vector_t \<Rightarrow> real list \<Rightarrow> nat \<Rightarrow> real" where
  "slope_at m p v n = (node_power m p n - (\<Sum>c < grid_dim m. conductance transient_resistances m n c * v ! c)) / chip_cap m n"

text \<open>Slopes that have been written.\<close>

definition sloped :: "grid_model_t \<Rightarrow> grid_model_vector_t \<Rightarrow> real list \<Rightarrow> nat set \<Rightarrow> real list \<Rightarrow> bool" where
  "sloped m p v V s \<longleftrightarrow> length s = grid_dim m \<and> (\<forall>n \<in> V. s ! n = slope_at m p v n)"

lemma sloped_step:
  assumes "sloped m p v V s" "n < grid_dim m"
  shows "wr s n (slope_at m p v n) = Inr (s[n := slope_at m p v n]) \<and> sloped m p v (insert n V) (s[n := slope_at m p v n])"
  using assms by (auto simp: sloped_def nth_list_update)

lemma chip_cap_pos:
  assumes "storing m" "model_secondary (gm_config m) = 0" "n < grid_dim m"
  shows "0 < chip_cap m n"
proof (cases "n < grid_cells m")
  case True
  then show ?thesis using assms(1) by (simp add: chip_cap_def node_cap_def storing_def grid_cells_def mult.assoc less_mult_imp_div_less)
next
  case False
  have "n - grid_cells m < EXTRA" using assms(2,3) False by (simp add: grid_dim_cells extra_nodes_def)
  then show ?thesis
    using assms(1) False by (auto simp: chip_cap_def node_cap_def package_cap_def storing_def pack_C_ok_def Let_def node_defs EXTRA_def add_pos_nonneg)
qed

lemma slope_cell_ok:
  assumes "plain_R m" "storing m" "model_secondary (gm_config m) = 0" "fits_grid m p" "length v = grid_dim m"
    and "in_grid m l i j" "sloped m p v V s"
  shows "\<exists>s'. slope_cell m v p l i j s = Inr s' \<and> sloped m p v (insert (cell_node m l i j) V) s'"
proof -
  let ?n = "cell_node m l i j" and ?G = "conductance transient_resistances m"
  note w = transient_wired [OF assms(1)]
  have n: "?n < grid_dim m" "?n < grid_cells m" using cell_node_less [OF assms(6)] by (simp_all add: grid_dim_cells)
  obtain A where A: "cell_addends next_cells m l i j = Inr A" "addends_of m (transient_mesh m) ?n A" using cell_addends_ok [OF assms(1,6)] by blast
  have x: "array_at m v (Cell l i j) = Inr (v ! ?n)" using array_at_proper [OF assms(5), of "Cell l i j"] assms(6) by simp
  have c: "currents m v (v ! ?n) A = Inr (ambient (gm_config m) * ambient_g m ?n - (\<Sum>c < grid_dim m. ?G ?n c * v ! c))"
    by (rule currents_ok [OF w n(1) A(2) array_at_proper [OF assms(5)]])
  have g: "gv_get p l i j = Inr (gv_data p ! ?n)"
    using gv_get_ok [OF assms(4)] gv_at_node [OF assms(4)] assms(6) by (simp add: in_grid_def)
  have cap: "cell_capacitance m l i j = Inr (chip_cap m ?n)"
    using layer_r_ok [OF plain_layered [OF assms(1)], of l ly_c] assms(1,6) n(2) cell_node_layer [OF assms(6)]
    by (simp add: cell_capacitance_def plain_R_def in_grid_def chip_cap_def node_cap_def)
  have idx: "l * gm_rows m * gm_cols m + i * gm_cols m + j = ?n" by (simp add: cell_node_def)
  have "fdiv (gv_data p ! ?n + (ambient (gm_config m) * ambient_g m ?n - (\<Sum>c < grid_dim m. ?G ?n c * v ! c))) (chip_cap m ?n) = Inr (slope_at m p v ?n)"
    using chip_cap_pos [OF assms(2,3) n(1)] n(2) by (simp add: slope_at_def node_power_def)
  then show ?thesis
    using sloped_step [OF assms(7) n(1)] by (simp add: slope_cell_def A(1) x c g cap idx del: array_at.simps)
qed

lemma slope_node_ok:
  assumes "wired transient_resistances m M" "storing m" "model_secondary (gm_config m) = 0" "length v = grid_dim m" "nd d = (k, A)"
    and "k < extra_nodes (gm_config m)" "addends_of m M (grid_cells m + k) A" "sloped m p v V s"
    and "across d (cx (gm_pack m)) (cy (gm_pack m)) = package_cap m k"
  shows "\<exists>s'. slope_node m v nd cx cy d s = Inr s' \<and> sloped m p v (insert (grid_cells m + k) V) s'"
proof -
  let ?n = "grid_cells m + k" and ?G = "conductance transient_resistances m"
  have n: "?n < grid_dim m" using assms(6) by (simp add: grid_dim_cells)
  have x: "array_at m v (Extra k) = Inr (v ! ?n)" using array_at_proper [OF assms(4), of "Extra k"] assms(6) by simp
  have c: "currents m v (v ! ?n) A = Inr (ambient (gm_config m) * ambient_g m ?n - (\<Sum>c < grid_dim m. ?G ?n c * v ! c))"
    by (rule currents_ok [OF assms(1) n assms(7) array_at_proper [OF assms(4)]])
  have cap: "package_cap m k = chip_cap m ?n" by (simp add: chip_cap_def node_cap_def)
  have idx: "gm_n_layers m * gm_rows m * gm_cols m + k = ?n" by (simp add: grid_cells_def)
  have "fdiv (ambient (gm_config m) * ambient_g m ?n - (\<Sum>c < grid_dim m. ?G ?n c * v ! c)) (chip_cap m ?n) = Inr (slope_at m p v ?n)"
    using chip_cap_pos [OF assms(2,3) n] by (simp add: slope_at_def node_power_def)
  then show ?thesis
    using sloped_step [OF assms(8) n] by (simp add: slope_node_def assms(5,9) x c cap idx del: array_at.simps)
qed

section \<open>All nodes\<close>

text \<open>The sides of the package: their nodes and capacitances.\<close>

type_synonym slope_side = "(compass \<Rightarrow> pack_node) \<times> (package_RC_t \<Rightarrow> real) \<times> (package_RC_t \<Rightarrow> real) \<times> compass"

definition primary_slopes :: "grid_model_t \<Rightarrow> slope_side list" where
  "primary_slopes m =
     map (\<lambda>d. (sink_outer_node m, \<lambda>pk. c_hs_per pk + c_amb_per pk, \<lambda>pk. c_hs_per pk + c_amb_per pk, d)) all_sides @
     map (\<lambda>d. (sink_inner_node m (gm_layers m ! hsidx m), \<lambda>pk. c_hs_c_per_x pk + c_amb_c_per_x pk, \<lambda>pk. c_hs_c_per_y pk + c_amb_c_per_y pk, d)) all_sides @
     map (\<lambda>d. (spreader_node m (gm_layers m ! spidx m), c_sp_per_x, c_sp_per_y, d)) all_sides"

lemma slope_fn_pack_primary:
  assumes "stacked m" "model_secondary (gm_config m) = 0"
  shows "slope_fn_pack m v = in_order (map (\<lambda>(nd, cx, cy, d). slope_node m v nd cx cy d) (primary_slopes m))"
  using stacked_layers(1,2) [OF assms(1)] stackedD(3) [OF assms(1)] assms(2)
  by (simp add: fun_eq_iff slope_fn_pack_def primary_slopes_def Let_def comp_def)

lemma primary_slopes_nodes:
  assumes "stacked m"
  shows "primary_nodes m = Inr (map (\<lambda>(nd, cx, cy, d). nd d) (primary_slopes m))"
  using stacked_layers(1,2) [OF assms] stackedD(3) [OF assms] by (simp add: primary_nodes_def primary_slopes_def comp_def)

lemma primary_slopes_caps:
  assumes "(nd, cx, cy, d) \<in> set (primary_slopes m)" "nd d = (k, A)"
  shows "across d (cx (gm_pack m)) (cy (gm_pack m)) = package_cap m k"
  using assms
  by (cases d) (auto simp: primary_slopes_def sink_outer_node_def sink_inner_node_def spreader_node_def Let_def package_cap_def node_defs)

lemma slope_fn_grid_ok:
  assumes "plain_R m" "storing m" "model_secondary (gm_config m) = 0" "fits_grid m p" "length v = grid_dim m" "length dv = grid_dim m"
  shows "\<exists>s. slope_fn_grid m v p dv = Inr s \<and> length s = grid_dim m \<and> (\<forall>n < grid_dim m. s ! n = slope_at m p v n)"
proof -
  note w = transient_wired [OF assms(1)]
  note st = wiredD(1) [OF w]
  obtain t where t: "for_up 0 (gm_n_layers m) (\<lambda>n. for_up 0 (gm_rows m) (\<lambda>i. for_up 0 (gm_cols m) (\<lambda>j. slope_cell m v p n i j))) dv = Inr t"
    "sloped m p v {..<grid_cells m} t"
    using cells_loop [of "\<lambda>k. sloped m p v {..<k}" dv m "slope_cell m v p"] slope_cell_ok [OF assms(1-5)] assms(6)
    by (fastforce simp: lessThan_Suc sloped_def)
  obtain ps ss where ns: "primary_nodes m = Inr ps" "secondary_nodes m = Inr ss" "map (node_row_of m) (ps @ ss) = package_rows m"
    "list_all (node_proper m) (ps @ ss)"
    using package_nodes_eq [OF st] by blast
  have ps: "ps @ ss = map (\<lambda>(nd, cx, cy, d). nd d) (primary_slopes m)"
    using ns(1,2) primary_slopes_nodes [OF st] assms(3) by (simp add: secondary_nodes_def)
  let ?key = "\<lambda>(nd, cx, cy, d). grid_cells m + fst (nd d)"
  have keys: "map ?key (primary_slopes m) = map fst (package_rows m)"
    unfolding ns(3) [symmetric] ps by (simp add: node_row_of_def comp_def case_prod_unfold)
  have "\<exists>s. in_order (map (\<lambda>(nd, cx, cy, d). slope_node m v nd cx cy d) (primary_slopes m)) t = Inr s \<and>
      sloped m p v ({..<grid_cells m} \<union> ?key ` set (primary_slopes m)) s"
  proof (rule in_order_rule [of ?key])
    show "distinct (map ?key (primary_slopes m))" unfolding keys by (rule package_rows_nodes(1))
    show "set (map ?key (primary_slopes m)) \<inter> {..<grid_cells m} = {}" unfolding keys package_rows_nodes(2) by auto
    show "sloped m p v {..<grid_cells m} t" by (rule t(2))
    fix x V s assume x: "x \<in> set (primary_slopes m)" "sloped m p v V s"
    obtain nd cx cy d where e: "x = (nd, cx, cy, d)" by (cases x)
    obtain k A where k: "nd d = (k, A)" by (cases "nd d")
    have "(k, A) \<in> set (ps @ ss)" unfolding ps using x(1) e k by force
    from package_addends_ok [OF w ns(3,4) this] show "\<exists>s'. (case x of (nd, cx, cy, d) \<Rightarrow> slope_node m v nd cx cy d) s = Inr s' \<and> sloped m p v (insert (?key x) V) s'"
      using slope_node_ok [where nd = nd and cx = cx and cy = cy, OF w assms(2,3,5) k _ _ x(2) primary_slopes_caps [OF x(1) [unfolded e] k]] by (simp add: e k)
  qed
  moreover have "?key ` set (primary_slopes m) = {grid_cells m..<grid_dim m}" unfolding set_map [symmetric] keys by (rule package_rows_nodes(2))
  moreover have "{..<grid_cells m} \<union> {grid_cells m..<grid_dim m} = {..<grid_dim m}" by (auto simp: grid_dim_cells)
  ultimately obtain s where s: "in_order (map (\<lambda>(nd, cx, cy, d). slope_node m v nd cx cy d) (primary_slopes m)) t = Inr s"
    "sloped m p v {..<grid_dim m} s" by auto
  have "slope_fn_grid m v p dv = Inr s" unfolding slope_fn_grid_def t(1) rbind_Inr slope_fn_pack_primary [OF st assms(3)] by (rule s(1))
  then show ?thesis using s(2) by (simp add: sloped_def)
qed

end
