(* ===== verification/Relax_Props.thy ===== *)
theory Relax_Props
  imports Relax_Ok Grid_Heat_Props
begin

text \<open>
  The properties of the solvers of the grid that build no matrix: the slopes of the explicit
  solver, the sweep of the relaxation and its loop, each against the matrix of the direct solver.
\<close>

lemma equations_of_model:
  assumes "plain_R m"
  shows "\<exists>G. build_transient_grid_matrix m = Inr G \<and> (\<forall>n k. k < grid_dim m \<longrightarrow> csc_at (sm_Store G) n k = conductance transient_resistances m n k)"
  using transient_matrix_ok [OF transient_wired [OF assms]] grid_matrixD(5) by blast

lemma matrix_row:
  assumes "\<forall>n k. k < grid_dim m \<longrightarrow> csc_at (sm_Store G) n k = conductance transient_resistances m n k"
  shows "(\<Sum>k < grid_dim m. csc_at (sm_Store G) n k * v ! k) = (\<Sum>k < grid_dim m. conductance transient_resistances m n k * v ! k)"
  using assms by (intro sum.cong) simp_all

section \<open>Slopes\<close>

text \<open>
  C22: on a chip whose resistances and capacitances the code has computed, \<open>slope_fn_grid\<close> returns for all
  powers and temperatures, and its slopes are those of the equations that the implicit solver
  builds as a matrix, a diagonal matrix and a vector: the capacitance of a node times its
  slope is its power less what the row of the matrix takes away at the temperatures.
\<close>

theorem slopes_match_matrices:
  assumes "plain_grid c" "fits c (fs fp) w h" "grid_fits (nat (grid_rows c)) (nat (grid_cols c)) w h (fs fp)" "heat_ok c"
    and "2 \<le> grid_rows c" "2 \<le> grid_cols c"
  shows "\<exists>m m1 m2 G C. alloc_grid_model fs rf ws c fp False = Inr m \<and> populate_R_model_grid fs m fp = Inr m1 \<and> populate_C_model_grid fs m1 fp = Inr m2 \<and>
    build_transient_grid_matrix m2 = Inr G \<and> build_diagonal_matrix m2 = Inr C \<and>
    (\<forall>p v dv. fits_grid m2 p \<and> length v = grid_dim m2 \<and> length dv = grid_dim m2 \<longrightarrow>
      (\<exists>P s. build_transient_power_vector m2 p = Inr P \<and> slope_fn_grid m2 v p dv = Inr s \<and> length s = grid_dim m2 \<and>
        (\<forall>n < grid_dim m2. dm_vals C ! n * s ! n = P ! n - (\<Sum>k < grid_dim m2. csc_at (sm_Store G) n k * v ! k))))"
proof -
  obtain m m1 m2 where m: "alloc_grid_model fs rf ws c fp False = Inr m" "populate_R_model_grid fs m fp = Inr m1"
    "populate_C_model_grid fs m1 fp = Inr m2" "grid_ready fs c fp w h m2" "storing m2"
    using chip_model_C [of c fs fp w h rf ws, OF assms(1-4)] by blast
  note p = ready_plain_R [OF m(4) assms(1,5,6)]
  have sec: "model_secondary (gm_config m2) = 0" using readyD(1) [OF m(4)] plain_gridD(1) [OF assms(1)] by simp
  obtain G where G: "build_transient_grid_matrix m2 = Inr G"
    "\<forall>n k. k < grid_dim m2 \<longrightarrow> csc_at (sm_Store G) n k = conductance transient_resistances m2 n k"
    using equations_of_model [OF p] by blast
  obtain C where C: "build_diagonal_matrix m2 = Inr C" "\<forall>n < grid_dim m2. dm_vals C ! n = chip_cap m2 n"
    using chip_capacitances [OF p] by auto
  have "\<exists>P s. build_transient_power_vector m2 q = Inr P \<and> slope_fn_grid m2 v q dv = Inr s \<and> length s = grid_dim m2 \<and>
        (\<forall>n < grid_dim m2. dm_vals C ! n * s ! n = P ! n - (\<Sum>k < grid_dim m2. csc_at (sm_Store G) n k * v ! k))"
    if f: "fits_grid m2 q" "length v = grid_dim m2" "length dv = grid_dim m2" for q v dv
  proof -
    obtain P where P: "build_transient_power_vector m2 q = Inr P" "\<forall>n < grid_dim m2. P ! n = node_power m2 q n"
      using power_vector_ok [OF transient_wired [OF p] f(1)] by blast
    obtain s where s: "slope_fn_grid m2 v q dv = Inr s" "length s = grid_dim m2" "\<forall>n < grid_dim m2. s ! n = slope_at m2 q v n"
      using slope_fn_grid_ok [OF p m(5) sec f] by blast
    have "dm_vals C ! n * s ! n = P ! n - (\<Sum>k < grid_dim m2. csc_at (sm_Store G) n k * v ! k)" if n: "n < grid_dim m2" for n
      unfolding matrix_row [OF G(2)] using C(2) P(2) s(3) n chip_cap_pos [OF m(5) sec n] by (simp add: slope_at_def)
    then show ?thesis using P(1) s(1,2) by blast
  qed
  then show ?thesis using m(1-3) G(1) C(1) by blast
qed

lemma slopes_match_matrices_witness:
  "\<exists>m G C P s. build_transient_grid_matrix m = Inr G \<and> build_diagonal_matrix m = Inr C \<and>
    build_transient_power_vector m (new_grid_model_vector m) = Inr P \<and>
    slope_fn_grid m (replicate (grid_dim m) 320) (new_grid_model_vector m) (dvector (grid_dim m)) = Inr s \<and>
    (\<forall>n < grid_dim m. dm_vals C ! n * s ! n = P ! n - (\<Sum>k < grid_dim m. csc_at (sm_Store G) n k * replicate (grid_dim m) 320 ! k))"
proof -
  obtain m G C where m: "build_transient_grid_matrix m = Inr G" "build_diagonal_matrix m = Inr C"
    "\<forall>p v dv. fits_grid m p \<and> length v = grid_dim m \<and> length dv = grid_dim m \<longrightarrow>
      (\<exists>P s. build_transient_power_vector m p = Inr P \<and> slope_fn_grid m v p dv = Inr s \<and> length s = grid_dim m \<and>
        (\<forall>n < grid_dim m. dm_vals C ! n * s ! n = P ! n - (\<Sum>k < grid_dim m. csc_at (sm_Store G) n k * v ! k)))"
    using slopes_match_matrices [of default_thermal_config "\<lambda>_. die" 0 "1 / 100" "1 / 100" "\<lambda>_. 0" "[]", unfolded default_mesh(1,2),
      OF default_chip die_heat default_mesh(3,4)] by blast
  have "length (replicate (grid_dim m) 320) = grid_dim m" "length (dvector (grid_dim m)) = grid_dim m" by (simp_all add: dvector_def)
  with m(3) new_grid_model_vector_ok [of m] show ?thesis using m(1,2) by blast
qed

section \<open>Relaxation\<close>

text \<open>
  C21: on a chip whose resistances the code has computed the loop of relaxation sweeps ends, from
  any temperatures and for any power, and returns temperatures that solve the equations of the
  direct solver up to its threshold: the equation of a node is off by less than \<open>DELTA\<close> times
  the conductance of the node.
\<close>

theorem relaxation_reaches_balance:
  assumes "plain_grid c" "fits c (fs fp) w h" "grid_fits (nat (grid_rows c)) (nat (grid_cols c)) w h (fs fp)"
    and "2 \<le> grid_rows c" "2 \<le> grid_cols c"
  shows "\<exists>m m1 G. alloc_grid_model fs rf ws c fp False = Inr m \<and> populate_R_model_grid fs m fp = Inr m1 \<and> build_transient_grid_matrix m1 = Inr G \<and>
    (\<forall>p t. fits_grid m1 p \<and> fits_grid m1 t \<longrightarrow>
      (\<exists>P u. build_transient_power_vector m1 p = Inr P \<and> relax_loop m1 p t = Some (Inr u) \<and> fits_grid m1 u \<and>
        (\<forall>n < grid_dim m1. \<bar>(\<Sum>k < grid_dim m1. csc_at (sm_Store G) n k * gv_data u ! k) - P ! n\<bar> < csc_at (sm_Store G) n n * DELTA)))"
proof -
  obtain m m1 where m: "alloc_grid_model fs rf ws c fp False = Inr m" "populate_R_model_grid fs m fp = Inr m1" "grid_ready fs c fp w h m1"
    using chip_model [of c fs fp w h rf ws, OF assms(1-3)] by blast
  note p = ready_plain_R [OF m(3) assms(1,4,5)]
  obtain G where G: "build_transient_grid_matrix m1 = Inr G"
    "\<forall>n k. k < grid_dim m1 \<longrightarrow> csc_at (sm_Store G) n k = conductance transient_resistances m1 n k"
    using equations_of_model [OF p] by blast
  have "\<exists>P u. build_transient_power_vector m1 q = Inr P \<and> relax_loop m1 q t = Some (Inr u) \<and> fits_grid m1 u \<and>
        (\<forall>n < grid_dim m1. \<bar>(\<Sum>k < grid_dim m1. csc_at (sm_Store G) n k * gv_data u ! k) - P ! n\<bar> < csc_at (sm_Store G) n n * DELTA)"
    if f: "fits_grid m1 q" "fits_grid m1 t" for q t
  proof -
    obtain P where P: "build_transient_power_vector m1 q = Inr P" "\<forall>n < grid_dim m1. P ! n = node_power m1 q n"
      using power_vector_ok [OF transient_wired [OF p] f(1)] by blast
    obtain u where u: "relax_loop m1 q t = Some (Inr u)" "fits_grid m1 u" "nearly_balanced m1 q (gv_data u)"
      using relax_loop_ok [OF p f] by blast
    then show ?thesis using P G(2) unfolding matrix_row [OF G(2)] by (auto simp: nearly_balanced_def)
  qed
  then show ?thesis using m(1,2) G(1) by blast
qed

lemma relaxation_reaches_balance_witness:
  "\<exists>m G P u. build_transient_grid_matrix m = Inr G \<and> build_transient_power_vector m (new_grid_model_vector m) = Inr P \<and>
    relax_loop m (new_grid_model_vector m) (new_grid_model_vector m) = Some (Inr u) \<and>
    (\<forall>n < grid_dim m. \<bar>(\<Sum>k < grid_dim m. csc_at (sm_Store G) n k * gv_data u ! k) - P ! n\<bar> < csc_at (sm_Store G) n n * DELTA)"
proof -
  obtain m G where m: "build_transient_grid_matrix m = Inr G"
    "\<forall>p t. fits_grid m p \<and> fits_grid m t \<longrightarrow>
      (\<exists>P u. build_transient_power_vector m p = Inr P \<and> relax_loop m p t = Some (Inr u) \<and> fits_grid m u \<and>
        (\<forall>n < grid_dim m. \<bar>(\<Sum>k < grid_dim m. csc_at (sm_Store G) n k * gv_data u ! k) - P ! n\<bar> < csc_at (sm_Store G) n n * DELTA))"
    using relaxation_reaches_balance [of default_thermal_config "\<lambda>_. die" 0 "1 / 100" "1 / 100" "\<lambda>_. 0" "[]", unfolded default_mesh(1,2),
      OF default_chip default_mesh(3,4)] by blast
  with new_grid_model_vector_ok [of m] show ?thesis by blast
qed

text \<open>
  C23: a relaxation sweep changes nothing, and reports no change, at the solution of the direct
  solver's equations and only there.
\<close>

theorem sweep_keeps_exactly_balance:
  assumes "plain_grid c" "fits c (fs fp) w h" "grid_fits (nat (grid_rows c)) (nat (grid_cols c)) w h (fs fp)"
    and "2 \<le> grid_rows c" "2 \<le> grid_cols c"
  shows "\<exists>m m1 G. alloc_grid_model fs rf ws c fp False = Inr m \<and> populate_R_model_grid fs m fp = Inr m1 \<and> build_transient_grid_matrix m1 = Inr G \<and>
    (\<forall>p t. fits_grid m1 p \<and> fits_grid m1 t \<longrightarrow> (\<exists>P. build_transient_power_vector m1 p = Inr P \<and>
      (single_iteration_steady_grid m1 p t = Inr (t, 0) \<longleftrightarrow>
        (\<forall>n < grid_dim m1. (\<Sum>k < grid_dim m1. csc_at (sm_Store G) n k * gv_data t ! k) = P ! n))))"
proof -
  obtain m m1 where m: "alloc_grid_model fs rf ws c fp False = Inr m" "populate_R_model_grid fs m fp = Inr m1" "grid_ready fs c fp w h m1"
    using chip_model [of c fs fp w h rf ws, OF assms(1-3)] by blast
  note p = ready_plain_R [OF m(3) assms(1,4,5)]
  obtain G where G: "build_transient_grid_matrix m1 = Inr G"
    "\<forall>n k. k < grid_dim m1 \<longrightarrow> csc_at (sm_Store G) n k = conductance transient_resistances m1 n k"
    using equations_of_model [OF p] by blast
  have "\<exists>P. build_transient_power_vector m1 q = Inr P \<and> (single_iteration_steady_grid m1 q t = Inr (t, 0) \<longleftrightarrow>
        (\<forall>n < grid_dim m1. (\<Sum>k < grid_dim m1. csc_at (sm_Store G) n k * gv_data t ! k) = P ! n))"
    if f: "fits_grid m1 q" "fits_grid m1 t" for q t
  proof -
    obtain P where P: "build_transient_power_vector m1 q = Inr P" "\<forall>n < grid_dim m1. P ! n = node_power m1 q n"
      using power_vector_ok [OF transient_wired [OF p] f(1)] by blast
    then show ?thesis using fits_length [OF f(2)] unfolding sweep_fixed [OF p f] matrix_row [OF G(2)] by (simp add: grid_balance_def)
  qed
  then show ?thesis using m(1,2) G(1) by blast
qed

lemma sweep_keeps_exactly_balance_witness:
  "\<exists>m G P. build_transient_grid_matrix m = Inr G \<and> build_transient_power_vector m (new_grid_model_vector m) = Inr P \<and>
    (single_iteration_steady_grid m (new_grid_model_vector m) (new_grid_model_vector m) = Inr (new_grid_model_vector m, 0) \<longleftrightarrow>
      (\<forall>n < grid_dim m. (\<Sum>k < grid_dim m. csc_at (sm_Store G) n k * gv_data (new_grid_model_vector m) ! k) = P ! n))"
proof -
  obtain m G where m: "build_transient_grid_matrix m = Inr G"
    "\<forall>p t. fits_grid m p \<and> fits_grid m t \<longrightarrow> (\<exists>P. build_transient_power_vector m p = Inr P \<and>
      (single_iteration_steady_grid m p t = Inr (t, 0) \<longleftrightarrow>
        (\<forall>n < grid_dim m. (\<Sum>k < grid_dim m. csc_at (sm_Store G) n k * gv_data t ! k) = P ! n)))"
    using sweep_keeps_exactly_balance [of default_thermal_config "\<lambda>_. die" 0 "1 / 100" "1 / 100" "\<lambda>_. 0" "[]", unfolded default_mesh(1,2),
      OF default_chip default_mesh(3,4)] by blast
  have "fits_grid m (new_grid_model_vector m)" by (rule new_grid_model_vector_ok)
  from m(2) [rule_format, OF conjI [OF this this]] m(1) show ?thesis by blast
qed

end
