(* ===== verification/RC_Model.thy ===== *)
theory RC_Model
  imports Grid_Solve Scan
begin

text \<open>
  The thermal model as its clients see it, \<open>hotspot_tool/temperature.c\<close>: the choice between the block and
  the grid model, the leakage power, which depends on the temperature, the loop that makes power and
  temperature agree, and one transient step with leakage.

  The pointer \<open>config\<close> of the code leads into the block or grid model and is read from there. A model
  that \<open>alloc_RC_model\<close> did not set up is \<open>Other_Model\<close>; every operation stops on it. The arrays
  \<open>leakage\<close> and \<open>volt\<close> are global variables that \<open>hotspot.c\<close> fills. \<open>pow\<close> of a negative
  base is no number. The names of units are strings; \<open>(float) volt[j]/10\<close> is exact, as all arithmetic.
\<close>

section \<open>The model\<close>

datatype RC_union = Block_Model block_model_t | Grid_Model grid_model_t | Other_Model

record RC_model_t =
  rc_union :: RC_union
  rc_banks_nr :: int
  rc_bank_modes :: "real list"

definition unknown_model :: "'a res" where
  "unknown_model = Inl (Fatal ''unknown model type'')"

definition alloc_RC_model :: "flp_store \<Rightarrow> (string \<Rightarrow> nat) \<Rightarrow> string list \<Rightarrow> thermal_config_t \<Rightarrow> nat \<Rightarrow> bool \<Rightarrow> RC_model_t res" where
  "alloc_RC_model fs read_flp ws config placeholder do_detailed_3D =
    (let model = \<lparr>rc_union = Other_Model, rc_banks_nr = 0, rc_bank_modes = replicate MAX_UNITS 0\<rparr> in
     if strcase_eq (model_type config) BLOCK_MODEL_STR then
       Inr (model\<lparr>rc_union := Block_Model (alloc_block_model fs config placeholder)\<rparr>)
     else if strcase_eq (model_type config) GRID_MODEL_STR then
       rbind (alloc_grid_model fs read_flp ws config placeholder do_detailed_3D) (\<lambda>g. Inr (model\<lparr>rc_union := Grid_Model g\<rparr>))
     else unknown_model)"

definition populate_R_model :: "flp_store \<Rightarrow> RC_model_t \<Rightarrow> nat \<Rightarrow> RC_model_t res" where
  "populate_R_model fs model flp = (case rc_union model of
     Block_Model b \<Rightarrow> rbind (populate_R_model_block fs b flp) (\<lambda>b. Inr (model\<lparr>rc_union := Block_Model b\<rparr>))
   | Grid_Model g \<Rightarrow> rbind (populate_R_model_grid fs g flp) (\<lambda>g. Inr (model\<lparr>rc_union := Grid_Model g\<rparr>))
   | Other_Model \<Rightarrow> unknown_model)"

definition populate_C_model :: "flp_store \<Rightarrow> RC_model_t \<Rightarrow> nat \<Rightarrow> RC_model_t res" where
  "populate_C_model fs model flp = (case rc_union model of
     Block_Model b \<Rightarrow> rbind (populate_C_model_block fs b flp) (\<lambda>b. Inr (model\<lparr>rc_union := Block_Model b\<rparr>))
   | Grid_Model g \<Rightarrow> rbind (populate_C_model_grid fs g flp) (\<lambda>g. Inr (model\<lparr>rc_union := Grid_Model g\<rparr>))
   | Other_Model \<Rightarrow> unknown_model)"

definition hotspot_vector :: "RC_model_t \<Rightarrow> real list res" where
  "hotspot_vector model = (case rc_union model of Block_Model b \<Rightarrow> Inr (hotspot_vector_block b)
     | Grid_Model g \<Rightarrow> hotspot_vector_grid g | Other_Model \<Rightarrow> unknown_model)"

definition trim_hotspot_vector :: "RC_model_t \<Rightarrow> real list \<Rightarrow> real list \<Rightarrow> nat \<Rightarrow> nat \<Rightarrow> real list res" where
  "trim_hotspot_vector model dst src at_i sz = (case rc_union model of Block_Model b \<Rightarrow> trim_hotspot_vector_block b dst src at_i sz
     | Grid_Model g \<Rightarrow> trim_hotspot_vector_grid g dst src at_i sz | Other_Model \<Rightarrow> unknown_model)"

definition resize_thermal_model :: "flp_store \<Rightarrow> RC_model_t \<Rightarrow> nat \<Rightarrow> RC_model_t res" where
  "resize_thermal_model fs model n = (case rc_union model of
     Block_Model b \<Rightarrow> rbind (resize_thermal_model_block b n) (\<lambda>b. Inr (model\<lparr>rc_union := Block_Model b\<rparr>))
   | Grid_Model g \<Rightarrow> rbind (resize_thermal_model_grid fs g n) (\<lambda>g. Inr (model\<lparr>rc_union := Grid_Model g\<rparr>))
   | Other_Model \<Rightarrow> unknown_model)"

definition set_temp :: "RC_model_t \<Rightarrow> real list \<Rightarrow> real \<Rightarrow> real list res" where
  "set_temp model temp val = (case rc_union model of Block_Model b \<Rightarrow> set_temp_block b temp val
     | Grid_Model g \<Rightarrow> set_temp_grid g temp val | Other_Model \<Rightarrow> unknown_model)"

definition calc_sink_temp :: "flp_store \<Rightarrow> RC_model_t \<Rightarrow> real list \<Rightarrow> real res" where
  "calc_sink_temp fs model temp = (case rc_union model of Block_Model b \<Rightarrow> calc_sink_temp_block fs b temp (bm_config b)
     | Grid_Model g \<Rightarrow> calc_sink_temp_grid fs g temp (gm_config g) | Other_Model \<Rightarrow> unknown_model)"

definition copy_temp :: "flp_store \<Rightarrow> RC_model_t \<Rightarrow> real list \<Rightarrow> real list \<Rightarrow> real list res" where
  "copy_temp fs model dst src = (case rc_union model of Block_Model b \<Rightarrow> copy_temp_block fs b dst src
     | Grid_Model g \<Rightarrow> copy_temp_grid g dst src | Other_Model \<Rightarrow> unknown_model)"

definition find_max_temp :: "flp_store \<Rightarrow> RC_model_t \<Rightarrow> real list \<Rightarrow> real res" where
  "find_max_temp fs model temp = (case rc_union model of Block_Model b \<Rightarrow> find_max_temp_block b temp
     | Grid_Model g \<Rightarrow> find_max_temp_grid fs g temp | Other_Model \<Rightarrow> unknown_model)"

definition find_avg_temp :: "flp_store \<Rightarrow> RC_model_t \<Rightarrow> real list \<Rightarrow> real res" where
  "find_avg_temp fs model temp = (case rc_union model of Block_Model b \<Rightarrow> find_avg_temp_block b temp
     | Grid_Model g \<Rightarrow> find_avg_temp_grid fs g temp | Other_Model \<Rightarrow> unknown_model)"

section \<open>Leakage power\<close>

definition c_pow :: "real \<Rightarrow> real \<Rightarrow> real res" where
  "c_pow x y = (if x < 0 then Inl NonFinite else Inr (x powr y))"

text \<open>\<open>strstr(s, t) != NULL\<close>.\<close>

definition has_substring :: "string \<Rightarrow> string \<Rightarrow> bool" where
  "has_substring s t = list_ex (\<lambda>i. take (length t) (drop i s) = t) [0..<Suc (length s)]"

text \<open>\<open>(int) strtol(s, NULL, 10)\<close> with a \<open>long\<close> of 64 bits: 0 without digits, clamped, then cut to 32 bits.\<close>

definition int_of_strtol :: "string \<Rightarrow> int" where
  "int_of_strtol s = (case scan_int s of None \<Rightarrow> 0
     | Some (z, _) \<Rightarrow> signed_take_bit 31 (max (- (2 ^ 63)) (min (2 ^ 63 - 1) z)))"

text \<open>The power of a bank is scaled by the mode of the bank its name gives.\<close>

definition bank_scaled :: "unit_t option \<Rightarrow> real list \<Rightarrow> real \<Rightarrow> real res" where
  "bank_scaled unit bank_modes leakage_power = (case unit of
     None \<Rightarrow> Inr leakage_power
   | Some u \<Rightarrow> if has_substring (unit_name u) ''B_'' then
       rbind (rdi bank_modes (int_of_strtol (drop 2 (unit_name u)))) (\<lambda>mode. Inr (leakage_power * mode))
     else Inr leakage_power)"

definition hotleakage :: "err" where
  "hotleakage = Fatal ''HotLeakage currently is not implemented in this release of HotSpot, please check back later.''"

text \<open>The fitted curve, \<open>(hi + (lo - hi) / (1 + pow(temp / mid, slope))) / 1000\<close>.\<close>

definition leak_curve :: "real \<Rightarrow> real \<Rightarrow> real \<Rightarrow> real \<Rightarrow> real \<Rightarrow> real res" where
  "leak_curve hi lo mid slope temp =
     rbind (c_pow (temp / mid) slope) (\<lambda>p. rbind (fdiv (lo - hi) (1 + p)) (\<lambda>q. Inr ((hi + q) / 1000)))"

definition calc_leakage :: "int \<Rightarrow> real \<Rightarrow> real \<Rightarrow> real \<Rightarrow> unit_t option \<Rightarrow> real list \<Rightarrow> real res" where
  "calc_leakage mode h w temp unit bank_modes =
    (if mode \<noteq> 0 then Inl hotleakage
     else rbind (leak_curve (1070333 / 1000) (210718 / 100000) (4562595 / 10000) (5405409 / 1000000) temp)
       (bank_scaled unit bank_modes))"

definition calc_lc_leakage :: "int \<Rightarrow> real \<Rightarrow> real \<Rightarrow> real \<Rightarrow> unit_t option \<Rightarrow> real list \<Rightarrow> real res" where
  "calc_lc_leakage mode h w temp unit bank_modes =
    (if mode \<noteq> 0 then Inl hotleakage
     else rbind (leak_curve (5482052 / 1000) (1402015 / 10000) (4406993 / 10000) (1657078 / 100000) temp)
       (bank_scaled unit bank_modes))"

definition calc_core_leakage :: "int \<Rightarrow> real \<Rightarrow> real \<Rightarrow> real \<Rightarrow> real res" where
  "calc_core_leakage mode h w temp =
    (if mode \<noteq> 0 then Inl hotleakage
     else leak_curve (9447469 / 1000) (643729 / 1000) (3732385 / 10000) (4337272 / 100000) temp)"

section \<open>Steady state with leakage\<close>

definition thermal_runaway :: "err" where
  "thermal_runaway = Fatal ''temperature is too high, possible thermal runaway. Double-check pw inputs and package settings.''"

definition no_convergence :: "err" where
  "no_convergence = Fatal ''too many iterations before temperature-leakage convergence -- possible thermal runaway''"

text \<open>
  \<open>for (leak_iter = 0; !leak_convg_true && leak_iter <= LEAKAGE_MAX_ITER; leak_iter++)\<close> and the test after it:
  \<open>body\<close> returns the largest rise of a temperature, the limit for the alarm is \<open>first\<close>.
\<close>

function leak_loop :: "('s \<Rightarrow> (real \<times> 's) res) \<Rightarrow> nat \<Rightarrow> nat \<Rightarrow> bool \<Rightarrow> 's \<Rightarrow> 's res" where
  "leak_loop body first leak_iter leak_convg_true s =
    (if \<not> leak_convg_true \<and> leak_iter \<le> LEAKAGE_MAX_ITER then
       rbind (body s) (\<lambda>(d_max, s).
         if d_max > TEMP_HIGH \<and> leak_iter > first then Inl thermal_runaway
         else leak_loop body first (Suc leak_iter) (d_max < LEAK_TOL) s)
     else if \<not> leak_convg_true then Inl no_convergence else Inr s)"
  by pat_completeness auto
termination by (relation "measure (\<lambda>(_, _, k, _). Suc LEAKAGE_MAX_ITER - k)") auto

declare leak_loop.simps [simp del]

text \<open>The vectors of the loop: the three it allocates and the caller's temperatures.\<close>

record leak_vectors =
  lv_d_temp :: "real list"
  lv_temp_old :: "real list"
  lv_power_new :: "real list"
  lv_temp :: "real list"

definition leak_power_block :: "flp_store \<Rightarrow> block_model_t \<Rightarrow> real list \<Rightarrow> real list \<Rightarrow> leak_vectors \<Rightarrow> leak_vectors res" where
  "leak_power_block fs b bank_modes pw v =
    (let flp = fs (bm_flp b) in for_up 0 (n_units flp) (\<lambda>i v. rbind (rd (units flp) i) (\<lambda>u.
       rbind (rd pw i) (\<lambda>p. rbind (rd (lv_temp v) i) (\<lambda>t.
       rbind (calc_leakage (leakage_mode (bm_config b)) (height u) (width u) t (Some u) bank_modes) (\<lambda>l.
       rbind (wr (lv_power_new v) i (p + l)) (\<lambda>pn. rbind (wr (lv_temp_old v) i t) (\<lambda>old.
       Inr (v\<lparr>lv_power_new := pn, lv_temp_old := old\<rparr>)))))))) v)"

definition temp_rise :: "nat \<Rightarrow> real \<times> leak_vectors \<Rightarrow> (real \<times> leak_vectors) res" where
  "temp_rise i = (\<lambda>(d_max, v). rbind (rd (lv_temp v) i) (\<lambda>t. rbind (rd (lv_temp_old v) i) (\<lambda>old.
     rbind (wr (lv_d_temp v) i (t - old)) (\<lambda>d. Inr (if t - old > d_max then t - old else d_max, v\<lparr>lv_d_temp := d\<rparr>)))))"

definition leak_body_block :: "flp_store \<Rightarrow> block_model_t \<Rightarrow> real list \<Rightarrow> real list \<Rightarrow> leak_vectors \<Rightarrow> (real \<times> leak_vectors) res" where
  "leak_body_block fs b bank_modes pw v =
     rbind (leak_power_block fs b bank_modes pw v) (\<lambda>v.
     rbind (steady_state_temp_block b (lv_power_new v) (lv_temp v)) (\<lambda>(pn, t).
     for_up 0 (n_units (fs (bm_flp b))) temp_rise (0, v\<lparr>lv_power_new := pn, lv_temp := t\<rparr>)))"

definition steady_state_leak_block :: "flp_store \<Rightarrow> block_model_t \<Rightarrow> real list \<Rightarrow> real list \<Rightarrow> real list \<Rightarrow> real list res" where
  "steady_state_leak_block fs b bank_modes pw temp =
    (let z = hotspot_vector_block b in
     rbind (leak_loop (leak_body_block fs b bank_modes pw) 1 0 False
       \<lparr>lv_d_temp = z, lv_temp_old = z, lv_power_new = z, lv_temp = temp\<rparr>) (\<lambda>v. Inr (lv_temp v)))"

section \<open>Leakage by the kind of architecture\<close>

record leak_globals =
  leakage_on :: "nat list"
  volt :: "nat list"

text \<open>The units of the layers with power, with the number of their layer and their place in the vectors;
  the first component of the result is \<open>base\<close>, the place behind the last.\<close>

definition over_power_units :: "flp_store \<Rightarrow> grid_model_t \<Rightarrow> (nat \<Rightarrow> nat \<Rightarrow> nat \<Rightarrow> unit_t \<Rightarrow> 's \<Rightarrow> 's res) \<Rightarrow> 's \<Rightarrow> (nat \<times> 's) res" where
  "over_power_units fs g body s =
     for_up 0 (gm_n_layers g) (\<lambda>k (base, s). rbind (rd (gm_layers g) k) (\<lambda>l. let flp = fs (ly_flp l) in
       rbind (if ly_has_power l then for_up 0 (n_units flp) (\<lambda>j s. rbind (rd (units flp) j) (\<lambda>u. body k j (base + j) u s)) s else Inr s)
         (\<lambda>s. Inr (base + n_units flp, s)))) (0, s)"

text \<open>
  The power of one unit; the outcomes \<open>p\<close> and \<open>t\<close> are those of reading its power and its temperature,
  which the code does only where it uses them.
\<close>

definition plus_leakage :: "real res \<Rightarrow> real res \<Rightarrow> (real \<Rightarrow> real res) \<Rightarrow> real res" where
  "plus_leakage p t f = rbind p (\<lambda>p. rbind t (\<lambda>t. rbind (f t) (\<lambda>l. Inr (p + l))))"

definition plus_core_leakage :: "leak_globals \<Rightarrow> int \<Rightarrow> nat \<Rightarrow> unit_t \<Rightarrow> real res \<Rightarrow> real res \<Rightarrow> real res" where
  "plus_core_leakage gl mode j u p t = rbind p (\<lambda>p. rbind (rd (volt gl) j) (\<lambda>v. rbind t (\<lambda>t.
     rbind (calc_core_leakage mode (height u) (width u) t) (\<lambda>l. Inr (p + real v / 10 * l)))))"

definition unless_off :: "leak_globals \<Rightarrow> nat \<Rightarrow> real res \<Rightarrow> real res" where
  "unless_off gl j r = rbind (rd (leakage_on gl) j) (\<lambda>x. if x = 0 then Inr 0 else r)"

type_synonym leak_rule = "leak_globals \<Rightarrow> int \<Rightarrow> real list \<Rightarrow> nat \<Rightarrow> nat \<Rightarrow> unit_t \<Rightarrow> real res \<Rightarrow> real res \<Rightarrow> real res"

definition power_3Dmem :: leak_rule where
  "power_3Dmem gl mode bank_modes k j u p t =
    (if k = 3 then unless_off gl j (plus_leakage p t (\<lambda>t. calc_lc_leakage mode (height u) (width u) t (Some u) bank_modes))
     else unless_off gl j (plus_leakage p t (\<lambda>t. calc_leakage mode (height u) (width u) t (Some u) bank_modes)))"

definition power_Core :: leak_rule where
  "power_Core gl mode bank_modes k j u p t = unless_off gl j (plus_core_leakage gl mode j u p t)"

definition power_3D :: leak_rule where
  "power_3D gl mode bank_modes k j u p t =
    (if k = 19 then plus_core_leakage gl mode j u p t
     else unless_off gl j (plus_leakage p t (\<lambda>t. calc_leakage mode (height u) (width u) t (Some u) bank_modes)))"

text \<open>The two solvers differ in the power of the air: none at the steady state, its own in a transient.\<close>

definition power_25D :: "bool \<Rightarrow> leak_rule" where
  "power_25D steady gl mode bank_modes k j u p t =
    (let air = (if steady then Inr 0 else p) in
     if k = 5 then
       if j = 22 \<or> j = 21 \<or> j = 20 then air
       else if j \<le> 3 then plus_core_leakage gl mode j u p t
       else unless_off gl (j - 4) (plus_leakage p t (\<lambda>t. calc_lc_leakage mode (height u) (width u) t (Some u) bank_modes))
     else if j = 19 \<or> j = 18 \<or> j = 17 \<or> j = 16 then air
     else unless_off gl j (plus_leakage p t (\<lambda>t. calc_leakage mode (height u) (width u) t (Some u) bank_modes)))"

text \<open>A type that is none of these has no rule: the code leaves the vectors as they are.\<close>

definition steady_rule :: "string \<Rightarrow> leak_rule option" where
  "steady_rule ty = (if ty = ''3Dmem'' \<or> ty = ''DDR'' then Some power_3Dmem else if ty = ''Core'' then Some power_Core
     else if ty = ''3D'' then Some power_3D else if ty = ''2.5D'' then Some (power_25D True) else None)"

definition leak_power_grid :: "flp_store \<Rightarrow> leak_globals \<Rightarrow> grid_model_t \<Rightarrow> real list \<Rightarrow> real list \<Rightarrow> leak_vectors \<Rightarrow> leak_vectors res" where
  "leak_power_grid fs gl g bank_modes pw v = (case steady_rule (mem_type (gm_config g)) of None \<Rightarrow> Inr v
   | Some rule \<Rightarrow> rbind (over_power_units fs g (\<lambda>k j n u v.
       rbind (rule gl (leakage_mode (gm_config g)) bank_modes k j u (rd pw n) (rd (lv_temp v) n)) (\<lambda>p.
       rbind (wr (lv_power_new v) n p) (\<lambda>pn. rbind (rd (lv_temp v) n) (\<lambda>t. rbind (wr (lv_temp_old v) n t) (\<lambda>old.
       Inr (v\<lparr>lv_power_new := pn, lv_temp_old := old\<rparr>)))))) v) (\<lambda>(base, v). Inr v))"

definition leak_body_grid :: "superlu \<Rightarrow> flp_store \<Rightarrow> leak_globals \<Rightarrow> real list \<Rightarrow> real list \<Rightarrow> grid_model_t \<times> leak_vectors \<Rightarrow>
    (real \<times> grid_model_t \<times> leak_vectors) res" where
  "leak_body_grid dgssv fs gl bank_modes pw = (\<lambda>(g, v).
     rbind (leak_power_grid fs gl g bank_modes pw v) (\<lambda>v.
     rbind (steady_state_temp_grid dgssv fs g (lv_power_new v) (lv_temp v)) (\<lambda>(g, pn, t).
     rbind (over_power_units fs g (\<lambda>k j n u. temp_rise n) (0, v\<lparr>lv_power_new := pn, lv_temp := t\<rparr>)) (\<lambda>(base, d_max, v).
     Inr (d_max, g, v)))))"

definition steady_state_leak_grid :: "superlu \<Rightarrow> flp_store \<Rightarrow> leak_globals \<Rightarrow> grid_model_t \<Rightarrow> real list \<Rightarrow> real list \<Rightarrow> real list \<Rightarrow>
    (grid_model_t \<times> real list) res" where
  "steady_state_leak_grid dgssv fs gl g bank_modes pw temp = rbind (hotspot_vector_grid g) (\<lambda>z.
     rbind (leak_loop (leak_body_grid dgssv fs gl bank_modes pw) 0 0 False
       (g, \<lparr>lv_d_temp = z, lv_temp_old = z, lv_power_new = z, lv_temp = temp\<rparr>)) (\<lambda>(g, v). Inr (g, lv_temp v)))"

text \<open>Without leakage the vector of power is changed in place; it is the second component.\<close>

definition steady_state_temp :: "superlu \<Rightarrow> flp_store \<Rightarrow> leak_globals \<Rightarrow> RC_model_t \<Rightarrow> real list \<Rightarrow> real list \<Rightarrow>
    (RC_model_t \<times> real list \<times> real list) res" where
  "steady_state_temp dgssv fs gl model pw temp = (case rc_union model of
     Block_Model b \<Rightarrow>
       if leakage_used (bm_config b) \<noteq> 0
       then rbind (steady_state_leak_block fs b (rc_bank_modes model) pw temp) (\<lambda>t. Inr (model, pw, t))
       else rbind (steady_state_temp_block b pw temp) (\<lambda>(p, t). Inr (model, p, t))
   | Grid_Model g \<Rightarrow>
       if leakage_used (gm_config g) \<noteq> 0
       then rbind (steady_state_leak_grid dgssv fs gl g (rc_bank_modes model) pw temp) (\<lambda>(g, t).
         Inr (model\<lparr>rc_union := Grid_Model g\<rparr>, pw, t))
       else rbind (steady_state_temp_grid dgssv fs g pw temp) (\<lambda>(g, p, t). Inr (model\<lparr>rc_union := Grid_Model g\<rparr>, p, t))
   | Other_Model \<Rightarrow> unknown_model)"

section \<open>Transients with leakage\<close>

text \<open>
  The banks of a memory without activity, which \<open>read_bank_state_array\<close> reads from a file at every
  call: \<open>None\<close> when there is no file. The number of the bank is that of the layer and the unit.
\<close>

definition read_bank_state_array :: "real list option \<Rightarrow> real list res" where
  "read_bank_state_array file = (case file of None \<Rightarrow> Inl (Fatal ''Error Reading File bankStateData.txt'') | Some bs \<Rightarrow> Inr bs)"

definition transient_3Dmem :: "real list \<Rightarrow> leak_rule" where
  "transient_3Dmem bank_state gl mode bank_modes k j u p t =
    (if k = 3 then unless_off gl j (plus_leakage p t (\<lambda>t. calc_lc_leakage mode (height u) (width u) t (Some u) bank_modes))
     else rbind (rdi bank_state (c_div (int k - 5) 2 * 16 + int j)) (\<lambda>b.
       if b = 0 then rbind t (\<lambda>t. rbind (calc_leakage mode (height u) (width u) t (Some u) bank_modes) (\<lambda>l. Inr (17 / 100 * l)))
       else plus_leakage p t (\<lambda>t. calc_leakage mode (height u) (width u) t (Some u) bank_modes)))"

definition transient_rule :: "real list \<Rightarrow> string \<Rightarrow> leak_rule option" where
  "transient_rule bank_state ty = (if ty = ''3Dmem'' \<or> ty = ''DDR'' then Some (transient_3Dmem bank_state)
     else if ty = ''Core'' then Some power_Core
     else if ty = ''3D'' then Some power_3D else if ty = ''2.5D'' then Some (power_25D False) else None)"

text \<open>The powers of a call and \<open>base\<close>, the number of those that go to the dump.\<close>

definition transient_power :: "flp_store \<Rightarrow> leak_globals \<Rightarrow> real list \<Rightarrow> grid_model_t \<Rightarrow> real list \<Rightarrow> real list \<Rightarrow> real list \<Rightarrow>
    real list \<Rightarrow> (nat \<times> real list) res" where
  "transient_power fs gl bank_state g bank_modes pw temp pn = (case transient_rule bank_state (mem_type (gm_config g)) of
     None \<Rightarrow> Inr (0, pn)
   | Some rule \<Rightarrow> over_power_units fs g (\<lambda>k j n u pn.
       rbind (rule gl (leakage_mode (gm_config g)) bank_modes k j u (rd pw n) (rd temp n)) (wr pn n)) pn)"

text \<open>
  The static variables \<open>count\<close> and \<open>temp_first_time\<close>: the latter points to the vector of the first call,
  and \<open>None\<close> is the null pointer. \<open>tp_grid\<close> is what \<open>compute_temp_grid\<close> keeps between the calls.
\<close>

record temp_process =
  tp_count :: nat
  tp_first_time :: "real list option"
  tp_grid :: transient_state

definition compute_temp_leak :: "superlu \<Rightarrow> flp_store \<Rightarrow> leak_globals \<Rightarrow> real list \<Rightarrow> temp_process \<Rightarrow> real list \<Rightarrow> real list \<Rightarrow>
    real list option \<Rightarrow> real list \<Rightarrow> real \<Rightarrow> (temp_process \<times> real list) res" where
  "compute_temp_leak dgssv fs gl bank_state tp bank_modes pw temp tot_power_dump time_elapsed =
    (let g = ts_model (tp_grid tp) in
     rbind (hotspot_vector_grid g) (\<lambda>pn.
     let first = (if tp_count tp = 0 then temp else tp_first_time tp) in
     rbind (not_null first) (\<lambda>t.
     rbind (transient_power fs gl bank_state g bank_modes pw t pn) (\<lambda>(base, pn).
     rbind (for_up 0 base (\<lambda>k d. rbind (rd pn k) (wr d k)) tot_power_dump) (\<lambda>dump.
     rbind (compute_temp_grid dgssv fs (tp_grid tp) pn (Some t) time_elapsed) (\<lambda>(ts, pn).
     Inr (tp\<lparr>tp_count := Suc (tp_count tp), tp_first_time := Some (ts_last_temp ts), tp_grid := ts\<rparr>, dump)))))))"

text \<open>
  The result: the process, the model, the power, the temperatures in the vector to which they were
  written, and the dump. The grid model is the one of the process.
\<close>

definition compute_temp :: "superlu \<Rightarrow> flp_store \<Rightarrow> leak_globals \<Rightarrow> real list option \<Rightarrow> temp_process \<Rightarrow> RC_model_t \<Rightarrow> real list \<Rightarrow>
    real list option \<Rightarrow> bool \<Rightarrow> real list \<Rightarrow> real \<Rightarrow>
    (temp_process \<times> RC_model_t \<times> real list \<times> real list \<times> real list) res option" where
  "compute_temp dgssv fs gl file tp model pw temp scratch tot_power_dump time_elapsed =
    (case read_bank_state_array file of Inl e \<Rightarrow> Some (Inl e) | Inr bank_state \<Rightarrow>
     (case rc_union model of
       Block_Model b \<Rightarrow> (case not_null temp of Inl e \<Rightarrow> Some (Inl e) | Inr t \<Rightarrow>
         map_option (\<lambda>r. rbind r (\<lambda>(b, p, t). Inr (tp, model\<lparr>rc_union := Block_Model b\<rparr>, p, t, tot_power_dump)))
           (compute_temp_block b pw t scratch time_elapsed))
     | Grid_Model g \<Rightarrow> let tp = tp\<lparr>tp_grid := (tp_grid tp)\<lparr>ts_model := g\<rparr>\<rparr> in Some (
         if leakage_used (gm_config g) \<noteq> 0
         then rbind (compute_temp_leak dgssv fs gl bank_state tp (rc_bank_modes model) pw temp tot_power_dump time_elapsed) (\<lambda>(tp, dump).
           Inr (tp, model\<lparr>rc_union := Grid_Model (ts_model (tp_grid tp))\<rparr>, pw, ts_last_temp (tp_grid tp), dump))
         else rbind (compute_temp_grid dgssv fs (tp_grid tp) pw temp time_elapsed) (\<lambda>(ts, p).
           Inr (tp\<lparr>tp_grid := ts\<rparr>, model\<lparr>rc_union := Grid_Model (ts_model ts)\<rparr>, p, ts_last_temp ts, tot_power_dump)))
     | Other_Model \<Rightarrow> Some unknown_model))"

end
