(* ===== verification/Leakage_Ok.thy ===== *)
theory Leakage_Ok
  imports Grid_Chip RC_Model
begin

text \<open>
  Leakage grows with the temperature and the temperature with the power: the feedback that the loop of
  \<open>steady_state_temp\<close> iterates. This theory holds the values of the leakage functions and the interface of
  such a loop, with what follows for every solver that is monotone in the power.

  Both thermal models provide the interface of the leakage loop: the block model for every floorplan, the
  grid model for a chip with the default stack and every kind of architecture that has a rule.
\<close>

section \<open>The leakage functions\<close>

definition leak_value :: "real \<Rightarrow> real \<Rightarrow> real \<Rightarrow> real \<Rightarrow> real \<Rightarrow> real" where
  "leak_value hi lo mid slope t = (hi + (lo - hi) / (1 + (t / mid) powr slope)) / 1000"

lemma one_plus_powr: "0 < 1 + x powr (y::real)" "1 + x powr y \<noteq> 0"
  using powr_ge_zero [of x y] by linarith+

lemma leak_curve_ok: "0 \<le> t \<Longrightarrow> 0 < mid \<Longrightarrow> leak_curve hi lo mid slope t = Inr (leak_value hi lo mid slope t)"
  by (simp add: leak_curve_def c_pow_def fdiv_def leak_value_def divide_less_0_iff one_plus_powr)

lemma leak_value_mono:
  assumes "lo \<le> hi" "0 < mid" "0 \<le> slope" "0 \<le> t" "t \<le> u"
  shows "leak_value hi lo mid slope t \<le> leak_value hi lo mid slope u"
proof -
  let ?p = "(t / mid) powr slope" and ?q = "(u / mid) powr slope"
  have "?p \<le> ?q" using assms by (intro powr_mono2 divide_right_mono) auto
  moreover have "0 \<le> ?p" by simp
  ultimately have "(hi - lo) / (1 + ?q) \<le> (hi - lo) / (1 + ?p)" using assms(1) by (intro divide_left_mono mult_pos_pos one_plus_powr) auto
  then have "(lo - hi) / (1 + ?p) \<le> (lo - hi) / (1 + ?q)" by (simp add: minus_divide_left [symmetric] algebra_simps diff_divide_distrib)
  then show ?thesis unfolding leak_value_def by (intro divide_right_mono add_left_mono) simp_all
qed

lemma leak_value_between:
  assumes "lo \<le> hi" "0 \<le> t" "0 < mid"
  shows "lo / 1000 \<le> leak_value hi lo mid slope t \<and> leak_value hi lo mid slope t \<le> hi / 1000"
proof -
  let ?q = "1 + (t / mid) powr slope"
  have q: "1 \<le> ?q" by simp
  have "(hi - lo) / ?q \<le> (hi - lo) / 1" using assms(1) q by (intro divide_left_mono mult_pos_pos one_plus_powr) auto
  then have "hi - (hi - lo) / ?q \<ge> lo" by simp
  moreover have "0 \<le> (hi - lo) / ?q" using assms(1) q by simp
  moreover have "(lo - hi) / ?q = - ((hi - lo) / ?q)" by (simp add: minus_divide_left)
  ultimately show ?thesis unfolding leak_value_def by simp
qed

definition bank_leak :: "real \<Rightarrow> real" where
  "bank_leak = leak_value (1070333 / 1000) (210718 / 100000) (4562595 / 10000) (5405409 / 1000000)"

definition logic_leak :: "real \<Rightarrow> real" where
  "logic_leak = leak_value (5482052 / 1000) (1402015 / 10000) (4406993 / 10000) (1657078 / 100000)"

definition core_leak :: "real \<Rightarrow> real" where
  "core_leak = leak_value (9447469 / 1000) (643729 / 1000) (3732385 / 10000) (4337272 / 100000)"

text \<open>The scale of a unit; a name with the mark of a bank has to name one of the modes.\<close>

definition unit_scale :: "real list \<Rightarrow> unit_t \<Rightarrow> real" where
  "unit_scale modes u = (if has_substring (unit_name u) ''B_'' then modes ! nat (int_of_strtol (drop 2 (unit_name u))) else 1)"

definition bank_known :: "real list \<Rightarrow> unit_t \<Rightarrow> bool" where
  "bank_known modes u \<longleftrightarrow> (has_substring (unit_name u) ''B_'' \<longrightarrow>
     (let b = int_of_strtol (drop 2 (unit_name u)) in 0 \<le> b \<and> b < int (length modes) \<and> 0 \<le> modes ! nat b))"

lemma bank_scaled_ok: "bank_known modes u \<Longrightarrow> bank_scaled (Some u) modes x = Inr (x * unit_scale modes u)"
  by (auto simp: bank_known_def bank_scaled_def unit_scale_def Let_def)

lemma unit_scale_nonneg: "bank_known modes u \<Longrightarrow> 0 \<le> unit_scale modes u"
  by (simp add: bank_known_def unit_scale_def Let_def)

lemma calc_leakage_ok:
  assumes "0 \<le> t" "bank_known modes u"
  shows "calc_leakage 0 h w t (Some u) modes = Inr (bank_leak t * unit_scale modes u)"
    "calc_lc_leakage 0 h w t (Some u) modes = Inr (logic_leak t * unit_scale modes u)"
  using assms by (simp_all add: calc_leakage_def calc_lc_leakage_def bank_leak_def logic_leak_def leak_curve_ok bank_scaled_ok)

lemma calc_core_leakage_ok: "0 \<le> t \<Longrightarrow> calc_core_leakage 0 h w t = Inr (core_leak t)"
  by (simp add: calc_core_leakage_def core_leak_def leak_curve_ok)

lemma leaks_mono:
  assumes "0 \<le> t" "t \<le> u"
  shows "bank_leak t \<le> bank_leak u" "logic_leak t \<le> logic_leak u" "core_leak t \<le> core_leak u"
  unfolding bank_leak_def logic_leak_def core_leak_def by (rule leak_value_mono; use assms in simp)+

lemma leaks_between:
  assumes "0 \<le> t"
  shows "210718 / 100000000 \<le> bank_leak t" "bank_leak t \<le> 1070333 / 1000000"
    "1402015 / 10000000 \<le> logic_leak t" "logic_leak t \<le> 5482052 / 1000000"
    "643729 / 1000000 \<le> core_leak t" "core_leak t \<le> 9447469 / 1000000"
  using leak_value_between [of "210718 / 100000" "1070333 / 1000" t "4562595 / 10000" "5405409 / 1000000"]
    leak_value_between [of "1402015 / 10000" "5482052 / 1000" t "4406993 / 10000" "1657078 / 100000"]
    leak_value_between [of "643729 / 1000" "9447469 / 1000" t "3732385 / 10000" "4337272 / 100000"] assms
  by (simp_all add: bank_leak_def logic_leak_def core_leak_def)

section \<open>The loop\<close>

text \<open>What the loop looks at: the rise of the first \<open>n\<close> temperatures.\<close>

definition calm :: "nat \<Rightarrow> real list \<Rightarrow> real list \<Rightarrow> bool" where
  "calm n t t' \<longleftrightarrow> (\<forall>i < n. t' ! i - t ! i < LEAK_TOL)"

definition alarm :: "nat \<Rightarrow> real list \<Rightarrow> real list \<Rightarrow> bool" where
  "alarm n t t' \<longleftrightarrow> (\<exists>i < n. t' ! i - t ! i > TEMP_HIGH)"

definition largest_rise :: "nat \<Rightarrow> real list \<Rightarrow> real list \<Rightarrow> real \<Rightarrow> bool" where
  "largest_rise n t t' d \<longleftrightarrow> 0 \<le> d \<and> (\<forall>i < n. t' ! i - t ! i \<le> d) \<and> (d = 0 \<or> (\<exists>i < n. d = t' ! i - t ! i))"

lemma largest_rise_calm: "largest_rise n t t' d \<Longrightarrow> d < LEAK_TOL \<longleftrightarrow> calm n t t'"
  by (force simp: largest_rise_def calm_def LEAK_TOL_def)

lemma largest_rise_alarm: "largest_rise n t t' d \<Longrightarrow> d > TEMP_HIGH \<longleftrightarrow> alarm n t t'"
  by (force simp: largest_rise_def alarm_def TEMP_HIGH_def)

text \<open>
  The iterations \<open>T 0\<close>, \<open>T 1\<close>, \<open>\<dots>\<close>, \<open>T n\<close> of a step that is taken until it is calm, and how the loop
  ends: with the last temperatures after a calm step, or with one of its two messages.
\<close>

definition settling :: "(real list \<Rightarrow> real list \<Rightarrow> bool) \<Rightarrow> nat \<Rightarrow> real list \<Rightarrow> (nat \<Rightarrow> real list) \<Rightarrow> nat \<Rightarrow> bool" where
  "settling step w t T n \<longleftrightarrow> T 0 = t \<and> (\<forall>k < n. step (T k) (T (Suc k))) \<and> (\<forall>k. Suc k < n \<longrightarrow> \<not> calm w (T k) (T (Suc k)))"

definition loop_ends :: "nat \<Rightarrow> nat \<Rightarrow> (nat \<Rightarrow> real list) \<Rightarrow> nat \<Rightarrow> real list res \<Rightarrow> bool" where
  "loop_ends w first T n r \<longleftrightarrow> 0 < n \<and> n \<le> Suc LEAKAGE_MAX_ITER \<and> (case r of
     Inr t \<Rightarrow> t = T n \<and> calm w (T (n - 1)) (T n)
   | Inl e \<Rightarrow> \<not> calm w (T (n - 1)) (T n) \<and>
       (e = thermal_runaway \<and> Suc first < n \<and> alarm w (T (n - 1)) (T n) \<or> e = no_convergence \<and> n = Suc LEAKAGE_MAX_ITER))"

lemma settling_Suc:
  assumes "settling step w t T k" "step (T k) u" "0 < k \<longrightarrow> \<not> calm w (T (k - 1)) (T k)"
  shows "settling step w t (T(Suc k := u)) (Suc k)"
proof -
  have "\<not> calm w (T j) (T (Suc j))" if "Suc j \<le> k" for j
    using assms(1,3) that unfolding settling_def by (cases "Suc j = k") auto
  then show ?thesis using assms(1,2) unfolding settling_def by (auto simp: less_Suc_eq)
qed

lemma loop_ends_cong: "(\<forall>k \<le> n. T k = T' k) \<Longrightarrow> loop_ends w first T n r = loop_ends w first T' n r"
  by (simp add: loop_ends_def split: sum.split)

text \<open>
  The interface: a body that replaces temperatures by those that settle for the power they cause, and
  settled temperatures that are monotone in the temperatures before.
\<close>

locale leakage_feedback =
  fixes ok :: "'p \<Rightarrow> bool" and body :: "'p \<Rightarrow> 's \<Rightarrow> (real \<times> 's) res" and good :: "'p \<Rightarrow> 's \<Rightarrow> bool"
    and temps :: "'s \<Rightarrow> real list" and watched :: "'p \<Rightarrow> nat" and nodes :: "'p \<Rightarrow> nat"
    and settle :: "'p \<Rightarrow> real list \<Rightarrow> real list \<Rightarrow> bool"
  assumes body_ok: "ok p \<Longrightarrow> good p s \<Longrightarrow> \<exists>d s'. body p s = Inr (d, s') \<and> good p s' \<and>
      settle p (temps s) (temps s') \<and> largest_rise (watched p) (temps s) (temps s') d"
    and settle_mono: "ok p \<Longrightarrow> settle p t t' \<Longrightarrow> settle p u u' \<Longrightarrow> \<forall>i < watched p. 0 \<le> t ! i \<and> t ! i \<le> u ! i \<Longrightarrow>
      i < nodes p \<Longrightarrow> t' ! i \<le> u' ! i"
    and settle_nonneg: "ok p \<Longrightarrow> settle p t t' \<Longrightarrow> \<forall>i < watched p. 0 \<le> t ! i \<Longrightarrow> i < nodes p \<Longrightarrow> 0 \<le> t' ! i"
    and good_nonneg: "ok p \<Longrightarrow> good p s \<Longrightarrow> i < watched p \<Longrightarrow> 0 \<le> temps s ! i"
    and watched_nodes: "ok p \<Longrightarrow> watched p \<le> nodes p"
begin

lemma loop_from:
  assumes "ok p" "good p s" "k \<le> Suc LEAKAGE_MAX_ITER" "settling (settle p) (watched p) t T k" "T k = temps s"
    and "0 < k \<longrightarrow> \<not> calm (watched p) (T (k - 1)) (T k)"
  shows "\<exists>T n. settling (settle p) (watched p) t T n \<and>
    loop_ends (watched p) first T n (rbind (leak_loop (body p) first k False s) (\<lambda>s. Inr (temps s))) \<and>
    (\<forall>s'. leak_loop (body p) first k False s = Inr s' \<longrightarrow> good p s')"
  using assms(2-6)
proof (induction "Suc LEAKAGE_MAX_ITER - k" arbitrary: k s T)
  case 0
  then have k: "k = Suc LEAKAGE_MAX_ITER" by simp
  then have "leak_loop (body p) first k False s = Inl no_convergence" by (subst leak_loop.simps) simp
  then show ?case using 0 k by (intro exI [of _ T] exI [of _ k]) (simp add: loop_ends_def)
next
  case (Suc j)
  note prems = Suc.prems
  have k: "k \<le> LEAKAGE_MAX_ITER" using Suc.hyps(2) by simp
  obtain d s' where b: "body p s = Inr (d, s')" "good p s'" "settle p (temps s) (temps s')"
    "largest_rise (watched p) (temps s) (temps s') d" using body_ok [OF assms(1) prems(1)] by blast
  let ?T = "T(Suc k := temps s')"
  note d = largest_rise_calm [OF b(4)] largest_rise_alarm [OF b(4)]
  have st: "settling (settle p) (watched p) t ?T (Suc k)" by (rule settling_Suc) (use prems b(3) in simp_all)
  have run: "leak_loop (body p) first k False s = (if alarm (watched p) (temps s) (temps s') \<and> first < k then Inl thermal_runaway
      else leak_loop (body p) first (Suc k) (calm (watched p) (temps s) (temps s')) s')"
    using k b(1) by (subst leak_loop.simps) (simp add: d)
  have not: "\<not> calm (watched p) (temps s) (temps s')" if "alarm (watched p) (temps s) (temps s')"
    using that d b(4) by (auto simp: LEAK_TOL_def TEMP_HIGH_def)
  consider "alarm (watched p) (temps s) (temps s')" "first < k"
    | "\<not> (alarm (watched p) (temps s) (temps s') \<and> first < k)" "calm (watched p) (temps s) (temps s')"
    | "\<not> (alarm (watched p) (temps s) (temps s') \<and> first < k)" "\<not> calm (watched p) (temps s) (temps s')" by blast
  then show ?case
  proof cases
    case 1
    then show ?thesis using st run k not prems(4) by (intro exI [of _ ?T] exI [of _ "Suc k"]) (simp add: loop_ends_def)
  next
    case 2
    then show ?thesis
      using st run k b(2) prems(4) by (intro exI [of _ ?T] exI [of _ "Suc k"]) (simp add: loop_ends_def leak_loop.simps [of _ _ "Suc k" True])
  next
    case 3
    then have "leak_loop (body p) first k False s = leak_loop (body p) first (Suc k) False s'" using run by auto
    then show ?thesis using Suc.hyps(1) [of "Suc k" s' ?T] Suc.hyps(2) b(2) st k 3 prems(4) by simp
  qed
qed

theorem loop_ok:
  assumes "ok p" "good p s"
  shows "\<exists>T n. settling (settle p) (watched p) (temps s) T n \<and>
    loop_ends (watched p) first T n (rbind (leak_loop (body p) first 0 False s) (\<lambda>s. Inr (temps s))) \<and>
    (\<forall>s'. leak_loop (body p) first 0 False s = Inr s' \<longrightarrow> good p s')"
  by (rule loop_from [of p s 0 "temps s" "\<lambda>_. temps s"]) (use assms in \<open>simp_all add: settling_def\<close>)

text \<open>Temperatures that rise at first rise in every step, and stay below every agreement above them.\<close>

lemma settling_nonneg:
  assumes "ok p" "settling (settle p) (watched p) t T n" "\<forall>i < watched p. 0 \<le> t ! i" "k \<le> n" "i < watched p"
  shows "0 \<le> T k ! i"
  using assms(4,5)
proof (induction k arbitrary: i)
  case 0
  then show ?case using assms(2,3) by (simp add: settling_def)
next
  case (Suc k)
  then show ?case
    using settle_nonneg [OF assms(1), of "T k" "T (Suc k)" i] watched_nodes [OF assms(1)] assms(2) by (simp add: settling_def)
qed

lemma settling_rises:
  assumes "ok p" "settling (settle p) (watched p) t T n" "\<forall>i < watched p. 0 \<le> t ! i" "\<forall>i < watched p. t ! i \<le> T 1 ! i"
    and "k < n" "i < watched p"
  shows "T k ! i \<le> T (Suc k) ! i"
  using assms(5,6)
proof (induction k arbitrary: i)
  case 0
  then show ?case using assms(2,4) by (simp add: settling_def)
next
  case (Suc k)
  have "settle p (T k) (T (Suc k))" "settle p (T (Suc k)) (T (Suc (Suc k)))" using assms(2) Suc.prems by (simp_all add: settling_def)
  from settle_mono [OF assms(1) this] settling_nonneg [OF assms(1-3), of k] Suc watched_nodes [OF assms(1)] show ?case by simp
qed

lemma settling_below:
  assumes "ok p" "settling (settle p) (watched p) t T n" "\<forall>i < watched p. 0 \<le> t ! i \<and> t ! i \<le> u ! i" "settle p u u"
    and "k < n" "i < nodes p"
  shows "T (Suc k) ! i \<le> u ! i"
proof -
  have "\<forall>i < watched p. T k ! i \<le> u ! i" if "k < n" for k
    using that
  proof (induction k)
    case 0
    then show ?case using assms(2,3) by (simp add: settling_def)
  next
    case (Suc k)
    then have "settle p (T k) (T (Suc k))" using assms(2) by (simp add: settling_def)
    from settle_mono [OF assms(1) this assms(4)] settling_nonneg [OF assms(1,2), of k] assms(3) Suc watched_nodes [OF assms(1)]
    show ?case by simp
  qed
  moreover have "settle p (T k) (T (Suc k))" using assms(2,5) by (simp add: settling_def)
  ultimately show ?thesis
    using settle_mono [OF assms(1) _ assms(4), of "T k" "T (Suc k)" i] settling_nonneg [OF assms(1,2), of k] assms(3,5,6) by simp
qed

text \<open>
  A start no warmer than what settles for it: a loop that returns has found temperatures that settle for
  temperatures less than the tolerance cooler, and is at most every agreement above the start.
\<close>

theorem cool_start:
  assumes "ok p" "good p s" "leak_loop (body p) first 0 False s = Inr s'" "\<forall>t. settle p (temps s) t \<longrightarrow> (\<forall>i < watched p. temps s ! i \<le> t ! i)"
  shows "\<exists>old. settle p old (temps s') \<and> (\<forall>i < watched p. temps s ! i \<le> old ! i \<and> old ! i \<le> temps s' ! i \<and> temps s' ! i < old ! i + LEAK_TOL) \<and>
    (\<forall>u. settle p u u \<longrightarrow> (\<forall>i < watched p. temps s ! i \<le> u ! i) \<longrightarrow> (\<forall>i < nodes p. temps s' ! i \<le> u ! i))"
proof -
  obtain T n where T: "settling (settle p) (watched p) (temps s) T n" "loop_ends (watched p) first T n (Inr (temps s'))"
    using loop_ok [OF assms(1,2), of first] assms(3) by auto
  then have n: "0 < n" "temps s' = T n" "calm (watched p) (T (n - 1)) (T n)" by (simp_all add: loop_ends_def)
  have nn: "\<forall>i < watched p. 0 \<le> temps s ! i" using good_nonneg [OF assms(1,2)] by blast
  have T1: "\<forall>i < watched p. temps s ! i \<le> T 1 ! i" using assms(4) T(1) n(1) by (auto simp: settling_def)
  note up = settling_rises [OF assms(1) T(1) nn T1]
  have start: "temps s ! i \<le> T k ! i" if "k < n" "i < watched p" for k i
    using that(1)
  proof (induction k)
    case (Suc k)
    then show ?case using up [of k i] that(2) by simp
  qed (use T(1) in \<open>simp add: settling_def\<close>)
  obtain k where k: "n = Suc k" using n(1) by (cases n) auto
  have "settle p (T k) (temps s')" using T(1) n(2) by (simp add: settling_def k)
  moreover have "temps s ! i \<le> T k ! i \<and> T k ! i \<le> temps s' ! i \<and> temps s' ! i < T k ! i + LEAK_TOL" if "i < watched p" for i
    using start [of k i] up [of k i] n(2,3) that by (simp add: k calm_def algebra_simps)
  moreover have "temps s' ! i \<le> u ! i" if "settle p u u" "\<forall>i < watched p. temps s ! i \<le> u ! i" "i < nodes p" for u i
    using settling_below [OF assms(1) T(1) _ that(1), of k i] nn that(2,3) n(2) by (simp add: k)
  ultimately show ?thesis by (intro exI [of _ "T k"]) simp
qed

text \<open>A start from which no temperature rises is taken for convergence, however far the temperatures fall.\<close>

theorem falling_start:
  assumes "ok p" "good p s" "\<And>t t'. settle p (temps s) t \<Longrightarrow> settle p (temps s) t' \<Longrightarrow> t = t'" "settle p (temps s) t"
    and "\<forall>i < watched p. t ! i \<le> temps s ! i"
  shows "\<exists>s'. leak_loop (body p) first 0 False s = Inr s' \<and> good p s' \<and> temps s' = t"
proof -
  obtain d s' where b: "body p s = Inr (d, s')" "good p s'" "settle p (temps s) (temps s')" "largest_rise (watched p) (temps s) (temps s') d"
    using body_ok [OF assms(1,2)] by blast
  have t: "temps s' = t" by (rule assms(3) [OF b(3) assms(4)])
  have "d = 0" using b(4) assms(5) unfolding t largest_rise_def by force
  then show ?thesis
    using b(1,2) t by (subst leak_loop.simps) (simp add: leak_loop.simps [of _ _ _ True] LEAK_TOL_def TEMP_HIGH_def)
qed

end

section \<open>One pass over the units\<close>

text \<open>The largest rise over the first \<open>n\<close> temperatures.\<close>

lemma temp_rises_ok:
  assumes "n \<le> length (lv_d_temp v)" "n \<le> length (lv_temp v)" "n \<le> length (lv_temp_old v)"
  shows "\<exists>d ds. for_up 0 n temp_rise (0, v) = Inr (d, v\<lparr>lv_d_temp := ds\<rparr>) \<and> length ds = length (lv_d_temp v) \<and>
    largest_rise n (lv_temp_old v) (lv_temp v) d"
proof -
  define I where "I i s \<longleftrightarrow> (\<exists>d ds. s = (d, v\<lparr>lv_d_temp := ds\<rparr>) \<and> length ds = length (lv_d_temp v) \<and>
    largest_rise i (lv_temp_old v) (lv_temp v) d)" for i and s :: "real \<times> leak_vectors"
  have "\<exists>s. for_up 0 n temp_rise (0, v) = Inr s \<and> I n s"
  proof (rule for_up_rule)
    show "I 0 (0, v)" by (simp add: I_def largest_rise_def exI [of _ "lv_d_temp v"])
    fix i s assume i: "i < n" "I i s"
    then obtain d ds where s: "s = (d, v\<lparr>lv_d_temp := ds\<rparr>)" "length ds = length (lv_d_temp v)"
      "largest_rise i (lv_temp_old v) (lv_temp v) d" by (auto simp: I_def)
    let ?r = "lv_temp v ! i - lv_temp_old v ! i"
    have "largest_rise (Suc i) (lv_temp_old v) (lv_temp v) (if ?r > d then ?r else d)"
      using s(3) by (fastforce simp: largest_rise_def less_Suc_eq)
    then show "\<exists>s'. temp_rise i s = Inr s' \<and> I (Suc i) s'"
      using i(1) s assms by (simp add: temp_rise_def I_def exI [of _ "ds[i := ?r]"])
  qed simp
  then show ?thesis by (auto simp: I_def)
qed

text \<open>A loop that gives every unit its new power and remembers its temperature.\<close>

definition powers_set :: "nat \<Rightarrow> (nat \<Rightarrow> real) \<Rightarrow> leak_vectors \<Rightarrow> leak_vectors \<Rightarrow> bool" where
  "powers_set n f v v' \<longleftrightarrow> lv_temp v' = lv_temp v \<and> lv_d_temp v' = lv_d_temp v \<and>
     length (lv_power_new v') = length (lv_power_new v) \<and> length (lv_temp_old v') = length (lv_temp_old v) \<and>
     (\<forall>i < length (lv_power_new v). lv_power_new v' ! i = (if i < n then f i else lv_power_new v ! i)) \<and>
     (\<forall>i < n. lv_temp_old v' ! i = lv_temp v ! i)"

lemma powers_loop:
  assumes "n \<le> length (lv_power_new v)" "n \<le> length (lv_temp_old v)"
    and "\<And>i u. i < n \<Longrightarrow> lv_temp u = lv_temp v \<Longrightarrow> length (lv_power_new u) = length (lv_power_new v) \<Longrightarrow>
      length (lv_temp_old u) = length (lv_temp_old v) \<Longrightarrow>
      body i u = Inr (u\<lparr>lv_power_new := (lv_power_new u)[i := f i], lv_temp_old := (lv_temp_old u)[i := lv_temp v ! i]\<rparr>)"
  shows "\<exists>v'. for_up 0 n body v = Inr v' \<and> powers_set n f v v'"
proof (rule for_up_rule [where I = "\<lambda>i. powers_set i f v"])
  show "powers_set 0 f v v" by (simp add: powers_set_def)
  fix i u assume i: "i < n" "powers_set i f v u"
  let ?u = "u\<lparr>lv_power_new := (lv_power_new u)[i := f i], lv_temp_old := (lv_temp_old u)[i := lv_temp v ! i]\<rparr>"
  have "powers_set (Suc i) f v ?u" using i assms(1,2) by (auto simp: powers_set_def nth_list_update less_Suc_eq)
  then show "\<exists>u'. body i u = Inr u' \<and> powers_set (Suc i) f v u'" using assms(3) [OF i(1), of u] i(2) by (auto simp: powers_set_def)
qed simp

section \<open>The block model\<close>

type_synonym block_feedback = "flp_store \<times> block_model_t \<times> real list \<times> real list"

text \<open>The power of the blocks with the leakage at the temperatures \<open>t\<close>.\<close>

definition leaky :: "flp_t \<Rightarrow> real list \<Rightarrow> real list \<Rightarrow> real list \<Rightarrow> real list" where
  "leaky flp modes pw t = map (\<lambda>i. pw ! i + bank_leak (t ! i) * unit_scale modes (units flp ! i)) [0..<n_units flp]"

definition powers_ok :: "flp_t \<Rightarrow> real list \<Rightarrow> real list \<Rightarrow> bool" where
  "powers_ok flp modes pw \<longleftrightarrow> n_units flp \<le> length (units flp) \<and> n_units flp \<le> length pw \<and>
     (\<forall>i < n_units flp. 0 \<le> pw ! i \<and> bank_known modes (units flp ! i))"

definition block_leaks :: "block_feedback \<Rightarrow> bool" where
  "block_leaks = (\<lambda>(fs, b, modes, pw). R_ok fs b \<and> leakage_mode (bm_config b) = 0 \<and> 0 \<le> ambient (bm_config b) \<and>
     powers_ok (fs (bm_flp b)) modes pw)"

definition block_good :: "block_feedback \<Rightarrow> leak_vectors \<Rightarrow> bool" where
  "block_good = (\<lambda>(fs, b, modes, pw) v. length (lv_d_temp v) = bm_n_nodes b \<and> length (lv_temp_old v) = bm_n_nodes b \<and>
     length (lv_power_new v) = bm_n_nodes b \<and> length (lv_temp v) = bm_n_nodes b \<and> (\<forall>i < bm_n_units b. 0 \<le> lv_temp v ! i))"

definition block_body :: "block_feedback \<Rightarrow> leak_vectors \<Rightarrow> (real \<times> leak_vectors) res" where
  "block_body = (\<lambda>(fs, b, modes, pw). leak_body_block fs b modes pw)"

definition block_settle :: "block_feedback \<Rightarrow> real list \<Rightarrow> real list \<Rightarrow> bool" where
  "block_settle = (\<lambda>(fs, b, modes, pw) t. in_balance b (leaky (fs (bm_flp b)) modes pw t))"

lemma in_balance_cong: "(\<forall>i < bm_n_units b. pw ! i = pw' ! i) \<Longrightarrow> in_balance b pw t = in_balance b pw' t"
  by (simp add: in_balance_def full_power_def)

lemma block_counts:
  assumes "R_ok fs b"
  shows "n_units (fs (bm_flp b)) = bm_n_units b" "bm_n_units b \<le> bm_n_nodes b"
  using sizedD(1,2) [OF R_okD(1) [OF assms refl refl] refl] by (simp_all add: layer_defs)

lemma leak_power_block_ok:
  assumes "block_leaks (fs, b, modes, pw)" "block_good (fs, b, modes, pw) v"
  shows "\<exists>v'. leak_power_block fs b modes pw v = Inr v' \<and> powers_set (bm_n_units b) ((!) (leaky (fs (bm_flp b)) modes pw (lv_temp v))) v v'"
proof -
  let ?flp = "fs (bm_flp b)"
  have a: "R_ok fs b" "leakage_mode (bm_config b) = 0" "powers_ok ?flp modes pw" using assms(1) by (simp_all add: block_leaks_def)
  note n = block_counts [OF a(1)]
  show ?thesis
    unfolding leak_power_block_def Let_def n(1)
    by (rule powers_loop)
      (use assms(2) n a(2,3) in \<open>simp_all add: block_good_def powers_ok_def calc_leakage_ok leaky_def\<close>)
qed

lemma leaky_mono:
  assumes "powers_ok flp modes pw" "0 \<le> t ! i" "t ! i \<le> u ! i" "i < n_units flp"
  shows "leaky flp modes pw t ! i \<le> leaky flp modes pw u ! i"
  using assms leaks_mono(1) [OF assms(2,3)] unit_scale_nonneg [of modes "units flp ! i"] by (simp add: leaky_def powers_ok_def mult_right_mono)

lemma leaky_nonneg:
  assumes "powers_ok flp modes pw" "0 \<le> t ! i" "i < n_units flp"
  shows "0 \<le> leaky flp modes pw t ! i"
  using assms leaks_between(1) [OF assms(2)] unit_scale_nonneg [of modes "units flp ! i"] by (simp add: leaky_def powers_ok_def)

lemma block_settle_nonneg:
  assumes "block_leaks p" "block_settle p t t'" "\<forall>i < bm_n_units (fst (snd p)). 0 \<le> t ! i" "i < bm_n_nodes (fst (snd p))"
  shows "ambient (bm_config (fst (snd p))) \<le> t' ! i" "0 \<le> t' ! i"
proof -
  obtain fs b modes pw where p: "p = (fs, b, modes, pw)" by (cases p)
  have a: "R_ok fs b" "powers_ok (fs (bm_flp b)) modes pw" "0 \<le> ambient (bm_config b)" "in_balance b (leaky (fs (bm_flp b)) modes pw t) t'"
    using assms(1,2) by (simp_all add: p block_leaks_def block_settle_def)
  show "ambient (bm_config (fst (snd p))) \<le> t' ! i"
    using balance_above_ambient [OF a(1,4)] leaky_nonneg [OF a(2)] assms(3,4) block_counts(1) [OF a(1)] by (simp add: p)
  then show "0 \<le> t' ! i" using a(3) by (simp add: p)
qed

lemma block_body_ok:
  assumes "block_leaks p" "block_good p v"
  shows "\<exists>d v'. block_body p v = Inr (d, v') \<and> block_good p v' \<and> block_settle p (lv_temp v) (lv_temp v') \<and>
    largest_rise (bm_n_units (fst (snd p))) (lv_temp v) (lv_temp v') d"
proof -
  obtain fs b modes pw where p: "p = (fs, b, modes, pw)" by (cases p)
  let ?n = "bm_n_units b" and ?l = "leaky (fs (bm_flp b)) modes pw (lv_temp v)"
  have r: "R_ok fs b" using assms(1) by (simp add: p block_leaks_def)
  note n = block_counts [OF r]
  have g: "length (lv_d_temp v) = bm_n_nodes b" "length (lv_temp_old v) = bm_n_nodes b" "length (lv_power_new v) = bm_n_nodes b"
    "length (lv_temp v) = bm_n_nodes b" "\<forall>i < ?n. 0 \<le> lv_temp v ! i" using assms(2) by (simp_all add: p block_good_def)
  obtain v1 where v1: "leak_power_block fs b modes pw v = Inr v1" "powers_set ?n ((!) ?l) v v1"
    using leak_power_block_ok [OF assms [unfolded p]] by blast
  have s1: "lv_temp v1 = lv_temp v" "lv_d_temp v1 = lv_d_temp v" "length (lv_power_new v1) = bm_n_nodes b" "length (lv_temp_old v1) = bm_n_nodes b"
    "\<forall>i < ?n. lv_power_new v1 ! i = ?l ! i" "\<forall>i < ?n. lv_temp_old v1 ! i = lv_temp v ! i"
    using v1(2) g n(2) by (simp_all add: powers_set_def)
  obtain pn t where t: "steady_state_temp_block b (lv_power_new v1) (lv_temp v1) = Inr (pn, t)" "length pn = bm_n_nodes b"
    "in_balance b (lv_power_new v1) t" using steady_ok [OF r, of "lv_power_new v1" "lv_temp v1"] s1 g by auto
  have set: "block_settle p (lv_temp v) t" using t(3) in_balance_cong [OF s1(5)] by (simp add: p block_settle_def)
  have len: "length t = bm_n_nodes b" using t(3) by (simp add: in_balance_def)
  let ?v2 = "v1\<lparr>lv_power_new := pn, lv_temp := t\<rparr>"
  obtain d ds where d: "for_up 0 ?n temp_rise (0, ?v2) = Inr (d, ?v2\<lparr>lv_d_temp := ds\<rparr>)" "length ds = bm_n_nodes b"
    "largest_rise ?n (lv_temp_old v1) t d" using temp_rises_ok [of ?n ?v2] s1 g len n(2) by auto
  have "block_good p (?v2\<lparr>lv_d_temp := ds\<rparr>)"
    using d(2) s1 t(2) len block_settle_nonneg(2) [OF assms(1) set] g(5) n(2) by (simp add: p block_good_def)
  moreover have "largest_rise ?n (lv_temp v) t d" using d(3) s1(6) by (auto simp: largest_rise_def)
  ultimately show ?thesis using v1(1) t(1) d(1) n(1) set by (simp add: p block_body_def leak_body_block_def)
qed

interpretation block_loop: leakage_feedback block_leaks block_body block_good lv_temp
  "\<lambda>p. bm_n_units (fst (snd p))" "\<lambda>p. bm_n_nodes (fst (snd p))" block_settle
proof unfold_locales
  fix p :: block_feedback and t t' u u' i
  obtain fs b modes pw where p: "p = (fs, b, modes, pw)" by (cases p)
  assume a: "block_leaks p" "block_settle p t t'" "block_settle p u u'" "\<forall>i < bm_n_units (fst (snd p)). 0 \<le> t ! i \<and> t ! i \<le> u ! i"
    "i < bm_n_nodes (fst (snd p))"
  have r: "R_ok fs b" "powers_ok (fs (bm_flp b)) modes pw" using a(1) by (simp_all add: p block_leaks_def)
  have "leaky (fs (bm_flp b)) modes pw t ! k \<le> leaky (fs (bm_flp b)) modes pw u ! k" if "k < bm_n_units b" for k
    using leaky_mono [OF r(2)] a(4) that block_counts(1) [OF r(1)] by (simp add: p)
  then show "t' ! i \<le> u' ! i" using balance_mono [OF r(1)] a(2,3,5) by (simp add: p block_settle_def)
qed (use block_body_ok block_settle_nonneg(2) block_counts(2) in \<open>auto simp: block_good_def block_leaks_def split: prod.splits\<close>)

section \<open>The grid model\<close>

text \<open>The power of unit \<open>j\<close> of the first layer, which is the layer with power of the default stack.\<close>

definition layer_power :: "string \<Rightarrow> leak_globals \<Rightarrow> real list \<Rightarrow> nat \<Rightarrow> unit_t \<Rightarrow> real \<Rightarrow> real \<Rightarrow> real" where
  "layer_power ty gl modes j u p t =
    (if ty = ''2.5D'' \<and> 16 \<le> j \<and> j \<le> 19 \<or> leakage_on gl ! j = 0 then 0
     else if ty = ''Core'' then p + real (volt gl ! j) / 10 * core_leak t
     else p + bank_leak t * unit_scale modes u)"

definition gl_leaky :: "string \<Rightarrow> leak_globals \<Rightarrow> flp_t \<Rightarrow> real list \<Rightarrow> real list \<Rightarrow> real list \<Rightarrow> real list" where
  "gl_leaky ty gl flp modes pw t = map (\<lambda>i. layer_power ty gl modes i (units flp ! i) (pw ! i) (t ! i)) [0..<n_units flp]"

definition globals_ok :: "leak_globals \<Rightarrow> nat \<Rightarrow> bool" where
  "globals_ok gl n \<longleftrightarrow> n \<le> length (leakage_on gl) \<and> n \<le> length (volt gl)"

lemma steady_rule_ok:
  assumes "steady_rule ty = Some rule" "globals_ok gl n" "j < n" "0 \<le> t" "bank_known modes u"
  shows "rule gl 0 modes 0 j u (Inr p) (Inr t) = Inr (layer_power ty gl modes j u p t)"
proof -
  have "j < length (leakage_on gl)" "j < length (volt gl)" using assms(2,3) by (simp_all add: globals_ok_def)
  moreover have "(j = 19 \<or> j = 18 \<or> j = 17 \<or> j = 16) = (16 \<le> j \<and> j \<le> 19)" by auto
  ultimately show ?thesis
    using assms(1,4,5)
    by (auto simp: steady_rule_def layer_power_def power_3Dmem_def power_Core_def power_3D_def power_25D_def unless_off_def plus_leakage_def
        plus_core_leakage_def calc_leakage_ok calc_core_leakage_ok Let_def split: if_splits)
qed

lemma gl_leaky_mono:
  assumes "powers_ok flp modes pw" "0 \<le> t ! i" "t ! i \<le> u ! i" "i < n_units flp"
  shows "gl_leaky ty gl flp modes pw t ! i \<le> gl_leaky ty gl flp modes pw u ! i"
  using assms leaks_mono [OF assms(2,3)] unit_scale_nonneg [of modes "units flp ! i"]
  by (simp add: gl_leaky_def layer_power_def powers_ok_def mult_right_mono mult_left_mono)

lemma gl_leaky_nonneg:
  assumes "powers_ok flp modes pw" "0 \<le> t ! i" "i < n_units flp"
  shows "0 \<le> gl_leaky ty gl flp modes pw t ! i"
  using assms leaks_between [OF assms(2)] unit_scale_nonneg [of modes "units flp ! i"] by (simp add: gl_leaky_def layer_power_def powers_ok_def)

text \<open>The units of the layers with power of a chip are those of its first layer.\<close>

lemma over_power_units_chip:
  assumes "grid_ready fs c fp w h g" "n_units (fs fp) \<le> length (units (fs fp))"
  shows "over_power_units fs g body s = rbind (for_up 0 (n_units (fs fp)) (\<lambda>j. body 0 j j (units (fs fp) ! j)) s) (\<lambda>s. Inr (4 * n_units (fs fp), s))"
proof -
  have g: "gm_n_layers g = 4" "length (gm_layers g) = 4"
    "\<And>i. i < 4 \<Longrightarrow> ly_flp (gm_layers g ! i) = fp \<and> ly_has_power (gm_layers g ! i) = (i = 0)"
    using assms(1) by (simp_all add: grid_ready_def Let_def)
  have "for_up 0 (n_units (fs fp)) (\<lambda>j s. rbind (rd (units (fs fp)) j) (\<lambda>u. body 0 j j u s)) s =
      for_up 0 (n_units (fs fp)) (\<lambda>j. body 0 j j (units (fs fp) ! j)) s"
    using assms(2) by (intro for_up_cong refl) simp
  moreover have four: "n + n + n + n = 4 * n" for n :: nat by simp
  ultimately show ?thesis
    by (simp add: over_power_units_def for_up_step g Let_def rbind_assoc four)
qed

type_synonym grid_feedback = "superlu \<times> flp_store \<times> leak_globals \<times> real list \<times> real list \<times> grid_model_t \<times> nat"

text \<open>The values of blocks and nodes of the package that settle for a power of the blocks.\<close>

definition chip_settled :: "flp_store \<Rightarrow> nat \<Rightarrow> grid_model_t \<Rightarrow> real list \<Rightarrow> real list \<Rightarrow> bool" where
  "chip_settled fs fp g pw t' \<longleftrightarrow> (let n = n_units (fs fp) in length t' = 4 * n + EXTRA \<and>
     (\<exists>p T. Grid_Chip.powered fs g (take n pw @ replicate (3 * n + EXTRA) 0) p \<and> grid_balance g p T \<and>
       (\<forall>l < 4. \<forall>u < n. t' ! (l * n + u) = chip_temp fs fp g T l u) \<and> (\<forall>k < EXTRA. t' ! (4 * n + k) = T ! (grid_cells g + k))))"

definition chip_net :: "thermal_config_t \<Rightarrow> real \<Rightarrow> real \<Rightarrow> superlu \<Rightarrow> flp_store \<Rightarrow> grid_model_t \<Rightarrow> nat \<Rightarrow> bool" where
  "chip_net c w h dgssv fs g fp \<longleftrightarrow> grid_ready fs c fp w h g \<and> plain_grid c \<and> 2 \<le> grid_rows c \<and> 2 \<le> grid_cols c \<and>
     grid_fits (nat (grid_rows c)) (nat (grid_cols c)) w h (fs fp) \<and> solves dgssv"

definition chip_leaks :: "thermal_config_t \<Rightarrow> real \<Rightarrow> real \<Rightarrow> grid_feedback \<Rightarrow> bool" where
  "chip_leaks c w h = (\<lambda>(dgssv, fs, gl, modes, pw, g, fp). chip_net c w h dgssv fs g fp \<and> leakage_mode c = 0 \<and> 0 \<le> ambient c \<and>
     powers_ok (fs fp) modes pw \<and> globals_ok gl (n_units (fs fp)) \<and> steady_rule (mem_type c) \<noteq> None)"

definition grid_leaks :: "grid_feedback \<Rightarrow> bool" where
  "grid_leaks = (\<lambda>p. case p of (dgssv, fs, gl, modes, pw, g, fp) \<Rightarrow> \<exists>w h. chip_leaks (gm_config g) w h p)"

definition grid_good :: "grid_feedback \<Rightarrow> grid_model_t \<times> leak_vectors \<Rightarrow> bool" where
  "grid_good = (\<lambda>(dgssv, fs, gl, modes, pw, g, fp) (g', v). let n = n_units (fs fp); N = 4 * n + EXTRA in
     (\<exists>x. g' = g\<lparr>gm_last_steady := x\<rparr> \<and> gv_ok x 4 (gm_rows g) (gm_cols g) EXTRA) \<and>
     length (lv_d_temp v) = N \<and> length (lv_temp_old v) = N \<and> length (lv_power_new v) = N \<and> length (lv_temp v) = N \<and>
     (\<forall>i < n. 0 \<le> lv_temp v ! i) \<and> (\<forall>i < N. n \<le> i \<longrightarrow> lv_power_new v ! i = 0))"

definition grid_body :: "grid_feedback \<Rightarrow> grid_model_t \<times> leak_vectors \<Rightarrow> (real \<times> grid_model_t \<times> leak_vectors) res" where
  "grid_body = (\<lambda>(dgssv, fs, gl, modes, pw, g, fp). leak_body_grid dgssv fs gl modes pw)"

definition grid_settle :: "grid_feedback \<Rightarrow> real list \<Rightarrow> real list \<Rightarrow> bool" where
  "grid_settle = (\<lambda>(dgssv, fs, gl, modes, pw, g, fp) t.
     chip_settled fs fp g (gl_leaky (mem_type (gm_config g)) gl (fs fp) modes pw t))"

lemma leak_power_grid_ok:
  assumes "steady_rule (mem_type (gm_config g)) = Some rule" "leakage_mode (gm_config g) = 0" "grid_ready fs c fp w h g" "powers_ok (fs fp) modes pw"
    and "globals_ok gl (n_units (fs fp))" "n_units (fs fp) \<le> length (lv_temp v)" "n_units (fs fp) \<le> length (lv_temp_old v)"
    and "n_units (fs fp) \<le> length (lv_power_new v)" "\<forall>i < n_units (fs fp). 0 \<le> lv_temp v ! i"
  shows "\<exists>v'. leak_power_grid fs gl g modes pw v = Inr v' \<and>
    powers_set (n_units (fs fp)) ((!) (gl_leaky (mem_type (gm_config g)) gl (fs fp) modes pw (lv_temp v))) v v'"
proof -
  have l: "n_units (fs fp) \<le> length (units (fs fp))" "n_units (fs fp) \<le> length pw" "\<forall>i < n_units (fs fp). bank_known modes (units (fs fp) ! i)"
    using assms(4) by (simp_all add: powers_ok_def)
  note rule = steady_rule_ok [OF assms(1,5)]
  have "\<exists>v'. for_up 0 (n_units (fs fp)) (\<lambda>j v. rbind (rule gl (leakage_mode (gm_config g)) modes 0 j (units (fs fp) ! j) (rd pw j) (rd (lv_temp v) j)) (\<lambda>p.
       rbind (wr (lv_power_new v) j p) (\<lambda>pn. rbind (rd (lv_temp v) j) (\<lambda>t. rbind (wr (lv_temp_old v) j t) (\<lambda>old.
       Inr (v\<lparr>lv_power_new := pn, lv_temp_old := old\<rparr>)))))) v = Inr v' \<and>
    powers_set (n_units (fs fp)) ((!) (gl_leaky (mem_type (gm_config g)) gl (fs fp) modes pw (lv_temp v))) v v'"
    by (rule powers_loop) (use assms(2,6-9) l rule in \<open>simp_all add: gl_leaky_def\<close>)
  then show ?thesis
    by (auto simp: leak_power_grid_def assms(1) over_power_units_chip [OF assms(3) l(1)])
qed

text \<open>The steady temperatures of the last call matter to nothing.\<close>

lemma steady_temps_irrelevant:
  assumes "gv_ok (gm_last_steady g) 4 (gm_rows g) (gm_cols g) EXTRA" "gv_ok x 4 (gm_rows g) (gm_cols g) EXTRA"
  shows "Grid_Chip.powered fs (g\<lparr>gm_last_steady := x\<rparr>) = Grid_Chip.powered fs g" "grid_balance (g\<lparr>gm_last_steady := x\<rparr>) = grid_balance g"
    "chip_temp fs fp (g\<lparr>gm_last_steady := x\<rparr>) = chip_temp fs fp g" "grid_cells (g\<lparr>gm_last_steady := x\<rparr>) = grid_cells g"
proof -
  show "Grid_Chip.powered fs (g\<lparr>gm_last_steady := x\<rparr>) = Grid_Chip.powered fs g"
    by (simp add: fun_eq_iff Grid_Chip.powered_def in_grid_def cell_node_def cell_power_def cell_width_def cell_height_def usable_temps)
  show "grid_balance (g\<lparr>gm_last_steady := x\<rparr>) = grid_balance g"
    by (simp add: fun_eq_iff grid_balance_def conductance_def node_power_def matrix_steady_temps)
  have "x\<lparr>gv_data := t\<rparr> = (gm_last_steady g)\<lparr>gv_data := t\<rparr>" for t
    using assms by (cases x, cases "gm_last_steady g") (simp add: gv_ok_def)
  then show "chip_temp fs fp (g\<lparr>gm_last_steady := x\<rparr>) = chip_temp fs fp g"
    by (simp add: fun_eq_iff chip_temp_def cell_width_def cell_height_def)
  show "grid_cells (g\<lparr>gm_last_steady := x\<rparr>) = grid_cells g" by (rule matrix_steady_temps)
qed

lemma chip_steady:
  assumes "chip_net c w h dgssv fs g fp" "gv_ok x 4 (gm_rows g) (gm_cols g) EXTRA"
    and "length pn = 4 * n_units (fs fp) + EXTRA" "length t = 4 * n_units (fs fp) + EXTRA"
    and "\<forall>i < 4 * n_units (fs fp) + EXTRA. n_units (fs fp) \<le> i \<longrightarrow> pn ! i = 0"
  shows "\<exists>y t'. steady_state_temp_grid dgssv fs (g\<lparr>gm_last_steady := x\<rparr>) pn t = Inr (g\<lparr>gm_last_steady := y\<rparr>, pn, t') \<and>
    gv_ok y 4 (gm_rows g) (gm_cols g) EXTRA \<and> chip_settled fs fp g pn t'"
proof -
  let ?n = "n_units (fs fp)" and ?g = "g\<lparr>gm_last_steady := x\<rparr>"
  have a: "grid_ready fs c fp w h g" "plain_grid c" "2 \<le> grid_rows c" "2 \<le> grid_cols c"
    "grid_fits (nat (grid_rows c)) (nat (grid_cols c)) w h (fs fp)" "solves dgssv" using assms(1) by (simp_all add: chip_net_def)
  have r: "grid_ready fs c fp w h ?g" by (rule ready_temps_update(1) [OF a(1) assms(2)])
  note irr = steady_temps_irrelevant [OF readyD(8) [OF a(1)] assms(2)]
  have cut: "take (4 * ?n) pn @ replicate EXTRA 0 = pn" "take ?n pn @ replicate (3 * ?n + EXTRA) 0 = pn"
    using assms(3,5) by (auto intro!: nth_equalityI simp: nth_append)
  obtain m' pw' t' p T where s: "steady_state_temp_grid dgssv fs ?g pn t = Inr (m', pw', t')" "pw' = pn"
    "Grid_Chip.powered fs g pn p" "grid_balance g p T" "m' = ?g\<lparr>gm_last_steady := (gm_last_steady ?g)\<lparr>gv_data := T\<rparr>\<rparr>" "length t' = length t"
    "\<forall>l < 4. \<forall>u < ?n. t' ! (l * ?n + u) = chip_temp fs fp g T l u" "\<forall>k < EXTRA. t' ! (4 * ?n + k) = T ! (grid_cells g + k)"
    using steady_grid_ok [OF r a(2-6) assms(3,4)] unfolding irr cut(1) by metis
  have "gv_ok (x\<lparr>gv_data := T\<rparr>) 4 (gm_rows g) (gm_cols g) EXTRA"
    using assms(2) s(4) ready_dim(3) [OF a(1,2)] readyD(4) [OF a(1)] by (simp add: gv_ok_def grid_balance_def grid_cells_def)
  then show ?thesis
    using s assms(4) cut(2) by (intro exI [of _ "x\<lparr>gv_data := T\<rparr>"] exI [of _ t']) (auto simp: chip_settled_def Let_def)
qed

lemma chip_settled_cong:
  assumes "\<forall>i < n_units (fs fp). pw ! i = pw' ! i" "n_units (fs fp) \<le> length pw" "n_units (fs fp) \<le> length pw'"
  shows "chip_settled fs fp g pw t = chip_settled fs fp g pw' t"
proof -
  have "take (n_units (fs fp)) pw = take (n_units (fs fp)) pw'" using assms by (simp add: list_eq_iff_nth_eq)
  then show ?thesis by (simp add: chip_settled_def Let_def)
qed

text \<open>Entries of a vector of blocks and package nodes.\<close>

lemma entry_cases:
  assumes "i < 4 * n + (e::nat)"
  obtains l u where "l < 4" "u < n" "i = l * n + u" | k where "k < e" "i = 4 * n + k"
proof (cases "i < 4 * n")
  case True
  then have "i div n < 4" "i mod n < n" "i = i div n * n + i mod n"
    by (simp_all add: less_mult_imp_div_less)
  then show thesis by (rule that(1))
next
  case False
  then show thesis using assms by (intro that(2) [of "i - 4 * n"]) simp_all
qed

lemma settled_mono:
  assumes "chip_net c w h dgssv fs g fp" "chip_settled fs fp g a t" "chip_settled fs fp g b u"
    and "n_units (fs fp) \<le> length a" "n_units (fs fp) \<le> length b" "\<forall>i < n_units (fs fp). a ! i \<le> b ! i" "i < 4 * n_units (fs fp) + EXTRA"
  shows "t ! i \<le> u ! i"
proof -
  let ?n = "n_units (fs fp)" and ?cut = "\<lambda>a. take (n_units (fs fp)) a @ replicate (3 * n_units (fs fp) + EXTRA) (0::real)"
  have r: "grid_ready fs c fp w h g" "plain_grid c" "2 \<le> grid_rows c" "2 \<le> grid_cols c"
    "grid_fits (nat (grid_rows c)) (nat (grid_cols c)) w h (fs fp)" using assms(1) by (simp_all add: chip_net_def)
  obtain p T where t: "Grid_Chip.powered fs g (?cut a) p" "grid_balance g p T" "\<forall>l < 4. \<forall>u < ?n. t ! (l * ?n + u) = chip_temp fs fp g T l u"
    "\<forall>k < EXTRA. t ! (4 * ?n + k) = T ! (grid_cells g + k)" using assms(2) by (auto simp: chip_settled_def Let_def)
  obtain q U where u: "Grid_Chip.powered fs g (?cut b) q" "grid_balance g q U" "\<forall>l < 4. \<forall>v < ?n. u ! (l * ?n + v) = chip_temp fs fp g U l v"
    "\<forall>k < EXTRA. u ! (4 * ?n + k) = U ! (grid_cells g + k)" using assms(3) by (auto simp: chip_settled_def Let_def)
  have "\<forall>k < 4 * ?n. ?cut a ! k \<le> ?cut b ! k" using assms(4-6) by (simp add: nth_append)
  then have "\<forall>k < grid_cells g. gv_data p ! k \<le> gv_data q ! k" using powered_mono [OF r(1,5) t(1) u(1)] by blast
  note TU = grid_balance_mono [OF transient_wired [OF ready_plain_R [OF r(1-4)]] t(2) u(2) this] and dim = ready_dim(3) [OF r(1,2)]
  show ?thesis
  proof (cases rule: entry_cases [OF assms(7)])
    case (1 l v)
    then show ?thesis using chip_temp_mono [OF r(1,5) 1(1,2), of T U] TU dim t(3) u(3) by simp
  next
    case (2 k)
    then show ?thesis using TU [of "grid_cells g + k"] dim t(4) u(4) by simp
  qed
qed

lemma settled_above:
  assumes "chip_net c w h dgssv fs g fp" "chip_settled fs fp g a t"
    and "n_units (fs fp) \<le> length a" "\<forall>i < n_units (fs fp). 0 \<le> a ! i" "i < 4 * n_units (fs fp) + EXTRA"
  shows "ambient c \<le> t ! i"
proof -
  let ?n = "n_units (fs fp)" and ?cut = "take (n_units (fs fp)) a @ replicate (3 * n_units (fs fp) + EXTRA) (0::real)"
  have r: "grid_ready fs c fp w h g" "plain_grid c" "2 \<le> grid_rows c" "2 \<le> grid_cols c"
    "grid_fits (nat (grid_rows c)) (nat (grid_cols c)) w h (fs fp)" using assms(1) by (simp_all add: chip_net_def)
  obtain p T where t: "Grid_Chip.powered fs g ?cut p" "grid_balance g p T" "\<forall>l < 4. \<forall>u < ?n. t ! (l * ?n + u) = chip_temp fs fp g T l u"
    "\<forall>k < EXTRA. t ! (4 * ?n + k) = T ! (grid_cells g + k)" using assms(2) by (auto simp: chip_settled_def Let_def)
  have "\<forall>k < 4 * ?n. 0 \<le> ?cut ! k" using assms(3,4) by (simp add: nth_append)
  then have "\<forall>k < grid_cells g. 0 \<le> gv_data p ! k" using powered_nonneg [OF r(1,5) t(1)] by blast
  note amb = grid_balance_above [OF transient_wired [OF ready_plain_R [OF r(1-4)]] t(2) this, unfolded readyD(1) [OF r(1)]]
  note dim = ready_dim(3) [OF r(1,2)]
  show ?thesis
  proof (cases rule: entry_cases [OF assms(5)])
    case (1 l v)
    have "ambient c \<le> chip_temp fs fp g T l v \<and> chip_temp fs fp g T l v \<le> Max (insert 0 (set T))"
      by (rule chip_temp_between [OF r(1,5) 1(1,2)]) (use amb dim t(2) in \<open>auto simp: grid_balance_def\<close>)
    then show ?thesis using t(3) 1 by simp
  next
    case (2 k)
    then show ?thesis using amb [of "grid_cells g + k"] dim t(4) by simp
  qed
qed

lemma grid_settle_above:
  assumes "chip_leaks c w h (dgssv, fs, gl, modes, pw, g, fp)" "grid_settle (dgssv, fs, gl, modes, pw, g, fp) t t'"
    and "\<forall>i < n_units (fs fp). 0 \<le> t ! i" "i < 4 * n_units (fs fp) + EXTRA"
  shows "ambient c \<le> t' ! i" "0 \<le> t' ! i"
proof -
  have a: "powers_ok (fs fp) modes pw" "0 \<le> ambient c" "chip_net c w h dgssv fs g fp" using assms(1) by (simp_all add: chip_leaks_def)
  show "ambient c \<le> t' ! i"
    by (rule settled_above [OF a(3) _ _ _ assms(4), where a = "gl_leaky (mem_type (gm_config g)) gl (fs fp) modes pw t"])
      (use assms(2,3) gl_leaky_nonneg [OF a(1)] in \<open>auto simp: grid_settle_def gl_leaky_def\<close>)
  then show "0 \<le> t' ! i" using a(2) by simp
qed

lemma grid_body_ok:
  assumes "chip_leaks c w h p" "p = (dgssv, fs, gl, modes, pw, g, fp)" "grid_good p s"
  shows "\<exists>d s'. grid_body p s = Inr (d, s') \<and> grid_good p s' \<and> grid_settle p (lv_temp (snd s)) (lv_temp (snd s')) \<and>
    largest_rise (n_units (fs fp)) (lv_temp (snd s)) (lv_temp (snd s')) d"
proof -
  let ?n = "n_units (fs fp)" and ?N = "4 * n_units (fs fp) + EXTRA"
  obtain x v where s: "s = (g\<lparr>gm_last_steady := x\<rparr>, v)" "gv_ok x 4 (gm_rows g) (gm_cols g) EXTRA" "length (lv_d_temp v) = ?N"
    "length (lv_temp_old v) = ?N" "length (lv_power_new v) = ?N" "length (lv_temp v) = ?N" "\<forall>i < ?n. 0 \<le> lv_temp v ! i"
    "\<forall>i < ?N. ?n \<le> i \<longrightarrow> lv_power_new v ! i = 0"
    using assms(3) unfolding assms(2) by (cases s) (auto simp: grid_good_def Let_def)
  note a = assms(1) [unfolded assms(2)]
  have r: "grid_ready fs c fp w h g" "leakage_mode c = 0" "powers_ok (fs fp) modes pw" "globals_ok gl ?n" and net: "chip_net c w h dgssv fs g fp"
    using a by (simp_all add: chip_leaks_def chip_net_def)
  obtain rule where rule: "steady_rule (mem_type c) = Some rule" using a by (auto simp: chip_leaks_def)
  have c: "gm_config g = c" by (rule readyD(1) [OF r(1)])
  let ?l = "gl_leaky (mem_type c) gl (fs fp) modes pw (lv_temp v)"
  have r': "grid_ready fs c fp w h (g\<lparr>gm_last_steady := y\<rparr>)" if "gv_ok y 4 (gm_rows g) (gm_cols g) EXTRA" for y
    by (rule ready_temps_update(1) [OF r(1) that])
  obtain v1 where v1: "leak_power_grid fs gl (g\<lparr>gm_last_steady := x\<rparr>) modes pw v = Inr v1" "powers_set ?n ((!) ?l) v v1"
    using leak_power_grid_ok [OF _ _ r' [OF s(2)] r(3,4), of rule v] s c rule r(2) by auto
  have s1: "lv_temp v1 = lv_temp v" "lv_d_temp v1 = lv_d_temp v" "length (lv_power_new v1) = ?N" "length (lv_temp_old v1) = ?N"
    "\<forall>i < ?n. lv_power_new v1 ! i = ?l ! i" "\<forall>i < ?N. ?n \<le> i \<longrightarrow> lv_power_new v1 ! i = 0" "\<forall>i < ?n. lv_temp_old v1 ! i = lv_temp v ! i"
    using v1(2) s(4,5,8) by (simp_all add: powers_set_def)
  obtain y t where t: "steady_state_temp_grid dgssv fs (g\<lparr>gm_last_steady := x\<rparr>) (lv_power_new v1) (lv_temp v) =
      Inr (g\<lparr>gm_last_steady := y\<rparr>, lv_power_new v1, t)" "gv_ok y 4 (gm_rows g) (gm_cols g) EXTRA" "chip_settled fs fp g (lv_power_new v1) t"
    using chip_steady [OF net s(2) s1(3) s(6) s1(6)] by blast
  have len: "length t = ?N" using t(3) by (simp add: chip_settled_def Let_def)
  have set: "grid_settle p (lv_temp v) t"
    using t(3) chip_settled_cong [of fs fp "lv_power_new v1" ?l] s1(3,5) by (simp add: assms(2) grid_settle_def c gl_leaky_def)
  let ?v2 = "v1\<lparr>lv_temp := t\<rparr>"
  obtain d ds where d: "for_up 0 ?n temp_rise (0, ?v2) = Inr (d, ?v2\<lparr>lv_d_temp := ds\<rparr>)" "length ds = ?N" "largest_rise ?n (lv_temp_old v1) t d"
    using temp_rises_ok [of ?n ?v2] s1 s(3) len by auto
  have le: "?n \<le> length (units (fs fp))" using r(3) by (simp add: powers_ok_def)
  have rises: "over_power_units fs (g\<lparr>gm_last_steady := y\<rparr>) (\<lambda>k j n u. temp_rise n) (0, ?v2) = Inr (4 * ?n, d, ?v2\<lparr>lv_d_temp := ds\<rparr>)"
    using over_power_units_chip [OF r' [OF t(2)] le, of "\<lambda>k j n u. temp_rise n"] d(1) by simp
  have "v1\<lparr>lv_power_new := lv_power_new v1, lv_temp := t\<rparr> = ?v2" by simp
  then have "grid_body p s = Inr (d, g\<lparr>gm_last_steady := y\<rparr>, ?v2\<lparr>lv_d_temp := ds\<rparr>)"
    using v1(1) t(1) rises s1(1) by (simp add: assms(2) s(1) grid_body_def leak_body_grid_def)
  moreover have "grid_good p (g\<lparr>gm_last_steady := y\<rparr>, ?v2\<lparr>lv_d_temp := ds\<rparr>)"
    using t(2) d(2) s1 len grid_settle_above(2) [OF a set [unfolded assms(2)] s(7)] by (auto simp: assms(2) grid_good_def Let_def)
  moreover have "largest_rise ?n (lv_temp v) t d" using d(3) s1(7) by (auto simp: largest_rise_def)
  ultimately show ?thesis using set s(1) by (intro exI [of _ d] exI [of _ "(g\<lparr>gm_last_steady := y\<rparr>, ?v2\<lparr>lv_d_temp := ds\<rparr>)"]) simp
qed

definition chip_units :: "grid_feedback \<Rightarrow> nat" where
  "chip_units = (\<lambda>(dgssv, fs, gl, modes, pw, g, fp). n_units (fs fp))"

lemma grid_settle_mono:
  assumes "chip_leaks c w h (dgssv, fs, gl, modes, pw, g, fp)" "grid_settle (dgssv, fs, gl, modes, pw, g, fp) t t'"
    and "grid_settle (dgssv, fs, gl, modes, pw, g, fp) u u'" "\<forall>i < n_units (fs fp). 0 \<le> t ! i \<and> t ! i \<le> u ! i"
    and "i < 4 * n_units (fs fp) + EXTRA"
  shows "t' ! i \<le> u' ! i"
proof -
  have a: "powers_ok (fs fp) modes pw" "chip_net c w h dgssv fs g fp" using assms(1) by (simp_all add: chip_leaks_def)
  show ?thesis
    by (rule settled_mono [OF a(2) _ _ _ _ _ assms(5), where a = "gl_leaky (mem_type (gm_config g)) gl (fs fp) modes pw t"
          and b = "gl_leaky (mem_type (gm_config g)) gl (fs fp) modes pw u"])
      (use assms(2-4) gl_leaky_mono [OF a(1)] in \<open>auto simp: grid_settle_def gl_leaky_def\<close>)
qed

interpretation grid_loop: leakage_feedback grid_leaks grid_body grid_good "\<lambda>s. lv_temp (snd s)"
  chip_units "\<lambda>p. 4 * chip_units p + EXTRA" grid_settle
proof unfold_locales
  fix p :: grid_feedback and s t t' u u' i
  obtain dgssv fs gl modes pw g fp where p: "p = (dgssv, fs, gl, modes, pw, g, fp)" by (cases p)
  have n: "chip_units p = n_units (fs fp)" by (simp add: p chip_units_def)
  assume "grid_leaks p"
  then obtain w h where l: "chip_leaks (gm_config g) w h p" by (auto simp: grid_leaks_def p)
  note l' = l [unfolded p]
  show "\<exists>d s'. grid_body p s = Inr (d, s') \<and> grid_good p s' \<and> grid_settle p (lv_temp (snd s)) (lv_temp (snd s')) \<and>
      largest_rise (chip_units p) (lv_temp (snd s)) (lv_temp (snd s')) d" if "grid_good p s"
    using grid_body_ok [OF l p that] by (simp add: n)
  show "t' ! i \<le> u' ! i" if "grid_settle p t t'" "grid_settle p u u'" "\<forall>i < chip_units p. 0 \<le> t ! i \<and> t ! i \<le> u ! i" "i < 4 * chip_units p + EXTRA"
    by (rule grid_settle_mono [OF l']) (use that in \<open>simp_all add: n p [symmetric]\<close>)
  show "0 \<le> t' ! i" if "grid_settle p t t'" "\<forall>i < chip_units p. 0 \<le> t ! i" "i < 4 * chip_units p + EXTRA"
    by (rule grid_settle_above(2) [OF l', of t]) (use that in \<open>simp_all add: n p [symmetric]\<close>)
  show "0 \<le> lv_temp (snd s) ! i" if "grid_good p s" "i < chip_units p"
    using that by (cases s) (auto simp: grid_good_def p chip_units_def Let_def)
qed simp

end
