(* ===== verification/Leakage_Props.thy ===== *)
theory Leakage_Props
  imports Leakage_Ok Grid_Heat_Props
begin

text \<open>
  The properties of the loop that makes power and temperature agree and of a transient step with leakage.
\<close>

section \<open>The loop on the block model\<close>

lemma leak_block_run:
  assumes "block_leaks (fs, b, modes, pw)" "length temp = bm_n_nodes b" "\<forall>i < bm_n_units b. 0 \<le> temp ! i"
  defines "v \<equiv> \<lparr>lv_d_temp = hotspot_vector_block b, lv_temp_old = hotspot_vector_block b, lv_power_new = hotspot_vector_block b, lv_temp = temp\<rparr>"
  shows "block_good (fs, b, modes, pw) v" "steady_state_leak_block fs b modes pw temp =
    rbind (leak_loop (block_body (fs, b, modes, pw)) 1 0 False v) (\<lambda>v. Inr (lv_temp v))"
  using assms(2,3) by (simp_all add: v_def block_good_def hotspot_vector_block_def dvector_def steady_state_leak_block_def block_body_def Let_def)

text \<open>
  C16: with leakage the steady state on an initialised block model ends after at most 101 iterations, each
  of which replaces the temperatures by the one vector in balance with the power of the blocks plus their
  leakage at the temperatures before. It returns the temperatures of the first iteration in which no block
  got warmer by the tolerance, and otherwise stops with one of its two messages.
\<close>

theorem leakage_loop_ends:
  assumes "rc_union model = Block_Model b" "leakage_used (bm_config b) \<noteq> 0" "block_leaks (fs, b, rc_bank_modes model, pw)"
    and "length temp = bm_n_nodes b" "\<forall>i < bm_n_units b. 0 \<le> temp ! i"
  shows "\<exists>T n r. steady_state_temp dgssv fs gl model pw temp = rbind r (\<lambda>t. Inr (model, pw, t)) \<and>
    settling (\<lambda>t. in_balance b (leaky (fs (bm_flp b)) (rc_bank_modes model) pw t)) (bm_n_units b) temp T n \<and>
    loop_ends (bm_n_units b) 1 T n r"
proof -
  note run = leak_block_run [OF assms(3-5)]
  have "block_settle (fs, b, rc_bank_modes model, pw) = (\<lambda>t. in_balance b (leaky (fs (bm_flp b)) (rc_bank_modes model) pw t))"
    by (simp add: block_settle_def)
  with block_loop.loop_ok [OF assms(3) run(1), of 1] run(2) show ?thesis
    by (auto simp: steady_state_temp_def assms(1,2))
qed

text \<open>The die with its leakage.\<close>

definition leaky_config :: thermal_config_t where
  "leaky_config = default_thermal_config\<lparr>leakage_used := 1\<rparr>"

lemma die_powers: "length pw = 16 \<Longrightarrow> 0 \<le> pw ! 0 \<Longrightarrow> powers_ok die [] pw"
  by (simp add: powers_ok_def die_def bank_known_def unit_zero_def has_substring_def)

lemma leaky_die:
  obtains b where "R_ok (\<lambda>_. die) b" "bm_n_units b = 1" "bm_config b = leaky_config" "bm_n_nodes b = 16"
    "\<And>pw. length pw = 16 \<Longrightarrow> 0 \<le> pw ! 0 \<Longrightarrow> block_leaks (\<lambda>_. die, b, [], pw)"
proof -
  obtain m where m: "R_ok (\<lambda>_. die) m" "bm_n_units m = 1" "bm_config m = default_thermal_config" "bm_n_nodes m = 16"
    by (rule die_model)
  let ?b = "m\<lparr>bm_config := leaky_config\<rparr>"
  have r: "R_ok (\<lambda>_. die) ?b" using m(1) by (simp add: R_ok_def block_sized_def leak_at_def)
  then have "block_leaks (\<lambda>_. die, ?b, [], pw)" if "length pw = 16" "0 \<le> pw ! 0" for pw
    using die_powers [OF that] by (simp add: block_leaks_def leaky_config_def default_thermal_config_def)
  with r show thesis using m(2,4) by (intro that [of ?b]) simp_all
qed

lemma leakage_loop_ends_witness:
  "\<exists>b T n r. steady_state_temp reference_dgssv (\<lambda>_. die) \<lparr>leakage_on = [], volt = []\<rparr> \<lparr>rc_union = Block_Model b, rc_banks_nr = 0, rc_bank_modes = []\<rparr> (replicate 16 5) (replicate 16 300) =
      rbind r (\<lambda>t. Inr (\<lparr>rc_union = Block_Model b, rc_banks_nr = 0, rc_bank_modes = []\<rparr>, replicate 16 5, t)) \<and> loop_ends 1 1 T n r"
proof -
  obtain b where b: "bm_n_units b = 1" "bm_config b = leaky_config" "bm_n_nodes b = 16" "block_leaks (\<lambda>_. die, b, [], replicate 16 5)"
    by (rule leaky_die) simp
  show ?thesis
    using leakage_loop_ends [of "\<lparr>rc_union = Block_Model b, rc_banks_nr = 0, rc_bank_modes = []\<rparr>" b "\<lambda>_. die" "replicate 16 5" "replicate 16 300"]
      b by (fastforce simp: leaky_config_def)
qed

text \<open>
  C20: temperatures from which no block gets warmer are taken for convergence: however far the blocks cool
  down in the first iteration, the loop returns its temperatures.
\<close>

theorem leakage_accepts_any_fall:
  assumes "rc_union model = Block_Model b" "leakage_used (bm_config b) \<noteq> 0" "block_leaks (fs, b, rc_bank_modes model, pw)"
    and "length temp = bm_n_nodes b" "\<forall>i < bm_n_units b. 0 \<le> temp ! i"
    and "in_balance b (leaky (fs (bm_flp b)) (rc_bank_modes model) pw temp) t" "\<forall>i < bm_n_units b. t ! i \<le> temp ! i"
  shows "steady_state_temp dgssv fs gl model pw temp = Inr (model, pw, t)"
proof -
  note run = leak_block_run [OF assms(3-5)]
  have r: "R_ok fs b" using assms(3) by (simp add: block_leaks_def)
  have u: "x = y" if "block_settle (fs, b, rc_bank_modes model, pw) temp x" "block_settle (fs, b, rc_bank_modes model, pw) temp y" for x y
    using that balance_unique [OF r] by (auto simp: block_settle_def)
  from block_loop.falling_start [OF assms(3) run(1), of t 1] u assms(6,7) run(2) show ?thesis
    by (auto simp: steady_state_temp_def assms(1,2) block_settle_def)
qed

text \<open>A start as warm as the steady state for more power than the die can leak.\<close>

lemma leakage_accepts_any_fall_witness:
  "\<exists>b temp t. steady_state_temp reference_dgssv (\<lambda>_. die) \<lparr>leakage_on = [], volt = []\<rparr> \<lparr>rc_union = Block_Model b, rc_banks_nr = 0, rc_bank_modes = []\<rparr> (replicate 16 0) temp =
      Inr (\<lparr>rc_union = Block_Model b, rc_banks_nr = 0, rc_bank_modes = []\<rparr>, replicate 16 0, t) \<and> t ! 0 \<le> temp ! 0"
proof -
  obtain b where b: "R_ok (\<lambda>_. die) b" "bm_n_units b = 1" "bm_config b = leaky_config" "bm_n_nodes b = 16"
    "block_leaks (\<lambda>_. die, b, [], replicate 16 0)" by (rule leaky_die) simp
  obtain hot where hot: "in_balance b (replicate 16 2) hot" using steady_ok [OF b(1), of "replicate 16 2" "replicate 16 0"] b(4) by auto
  have len: "length hot = 16" using hot b(4) by (simp add: in_balance_def)
  have z: "0 \<le> hot ! 0" using balance_above_ambient [OF b(1) hot, of 0] b(2-4) by (simp add: leaky_config_def default_thermal_config_def)
  let ?l = "leaky die [] (replicate 16 0) hot"
  obtain t where t: "in_balance b ?l t" using steady_ok [OF b(1), of "?l @ replicate 15 0" "replicate 16 0"] b(2,4) in_balance_cong [of b ?l "?l @ replicate 15 0"]
    by (auto simp: leaky_def die_def nth_append)
  have "?l ! 0 \<le> 2"
    using leaks_between(2) [OF z] by (simp add: leaky_def die_def unit_scale_def unit_zero_def has_substring_def)
  then have "t ! 0 \<le> hot ! 0" using balance_mono [OF b(1) t hot, of 0] b(2,4) by simp
  then show ?thesis
    using leakage_accepts_any_fall [of "\<lparr>rc_union = Block_Model b, rc_banks_nr = 0, rc_bank_modes = []\<rparr>" b "\<lambda>_. die" "replicate 16 0" hot t reference_dgssv "\<lparr>leakage_on = [], volt = []\<rparr>"]
      b len z t by (fastforce simp: leaky_config_def)
qed

section \<open>The loop on the grid model\<close>

lemma leak_grid_run:
  assumes "grid_leaks (dgssv, fs, gl, modes, pw, g, fp)" "length temp = 4 * n_units (fs fp) + EXTRA" "\<forall>i < n_units (fs fp). 0 \<le> temp ! i"
    and "0 < n_units (fs fp)"
  obtains v where "grid_good (dgssv, fs, gl, modes, pw, g, fp) (g, v)" "lv_temp v = temp" "steady_state_leak_grid dgssv fs gl g modes pw temp =
    rbind (leak_loop (grid_body (dgssv, fs, gl, modes, pw, g, fp)) 0 0 False (g, v)) (\<lambda>(g, v). Inr (g, lv_temp v))"
proof -
  obtain w h where l: "chip_leaks (gm_config g) w h (dgssv, fs, gl, modes, pw, g, fp)" using assms(1) by (auto simp: grid_leaks_def)
  then have r: "grid_ready fs (gm_config g) fp w h g" "plain_grid (gm_config g)" by (simp_all add: chip_leaks_def chip_net_def)
  let ?z = "dvector (4 * n_units (fs fp) + EXTRA)"
  have z: "hotspot_vector_grid g = Inr ?z"
    using readyD(7) [OF r(1)] readyD(11) [OF r(1,2)] assms(4) by (simp add: hotspot_vector_grid_def total_nodes_def)
  let ?v = "\<lparr>lv_d_temp = ?z, lv_temp_old = ?z, lv_power_new = ?z, lv_temp = temp\<rparr>"
  have "\<exists>x. g = g\<lparr>gm_last_steady := x\<rparr> \<and> gv_ok x 4 (gm_rows g) (gm_cols g) EXTRA"
    using readyD(8) [OF r(1)] by (intro exI [of _ "gm_last_steady g"]) simp
  then have "grid_good (dgssv, fs, gl, modes, pw, g, fp) (g, ?v)"
    using assms(2,3) by (simp add: grid_good_def Let_def dvector_def)
  then show thesis by (rule that) (simp_all add: steady_state_leak_grid_def grid_body_def z)
qed

text \<open>
  C17: started from blocks that are no warmer than the ambient, a loop on the grid model that returns has
  found temperatures in balance with the leakage at temperatures that are cooler by less than the
  tolerance, and no block or node of the package is warmer than at any temperatures that agree exactly
  with their leakage, nor cooler than the ambient.
\<close>

theorem leakage_from_cool_blocks:
  assumes "rc_union model = Grid_Model g" "leakage_used (gm_config g) \<noteq> 0" "p = (dgssv, fs, gl, rc_bank_modes model, pw, g, fp)" "grid_leaks p"
    and "0 < n_units (fs fp)" "length temp = 4 * n_units (fs fp) + EXTRA" "\<forall>i < n_units (fs fp). 0 \<le> temp ! i \<and> temp ! i \<le> ambient (gm_config g)"
    and "steady_state_temp dgssv fs gl model pw temp = Inr (model', pw', t)"
  shows "\<exists>old. grid_settle p old t \<and> (\<forall>i < n_units (fs fp). old ! i \<le> t ! i \<and> t ! i < old ! i + LEAK_TOL) \<and>
    (\<forall>i < 4 * n_units (fs fp) + EXTRA. ambient (gm_config g) \<le> t ! i \<and>
      (\<forall>u. grid_settle p u u \<and> (\<forall>k < n_units (fs fp). 0 \<le> u ! k) \<longrightarrow> t ! i \<le> u ! i))"
proof -
  let ?n = "n_units (fs fp)"
  have n: "chip_units p = ?n" by (simp add: assms(3) chip_units_def)
  obtain w h where l: "chip_leaks (gm_config g) w h (dgssv, fs, gl, rc_bank_modes model, pw, g, fp)"
    using assms(4) by (auto simp: assms(3) grid_leaks_def)
  note above = grid_settle_above(1) [OF l, folded assms(3)]
  obtain v where v: "grid_good p (g, v)" "lv_temp v = temp" "steady_state_leak_grid dgssv fs gl g (rc_bank_modes model) pw temp =
    rbind (leak_loop (grid_body p) 0 0 False (g, v)) (\<lambda>(g, v). Inr (g, lv_temp v))"
    using leak_grid_run [OF assms(4) [unfolded assms(3)] assms(6) _ assms(5), folded assms(3)] assms(7) by blast
  obtain s where s: "leak_loop (grid_body p) 0 0 False (g, v) = Inr s" "lv_temp (snd s) = t"
    using assms(8) by (auto simp: steady_state_temp_def assms(1,2) v(3))
  have start: "\<forall>t. grid_settle p (lv_temp (snd (g, v))) t \<longrightarrow> (\<forall>i < chip_units p. lv_temp (snd (g, v)) ! i \<le> t ! i)"
  proof (intro allI impI)
    fix t i assume "grid_settle p (lv_temp (snd (g, v))) t" "i < chip_units p"
    then show "lv_temp (snd (g, v)) ! i \<le> t ! i" using above [of temp t i] assms(7) n v(2) by force
  qed
  obtain old where old: "grid_settle p old t" "\<forall>i < ?n. temp ! i \<le> old ! i \<and> old ! i \<le> t ! i \<and> t ! i < old ! i + LEAK_TOL"
    "\<forall>u. grid_settle p u u \<longrightarrow> (\<forall>i < ?n. temp ! i \<le> u ! i) \<longrightarrow> (\<forall>i < 4 * ?n + EXTRA. t ! i \<le> u ! i)"
    using grid_loop.cool_start [OF assms(4) v(1) s(1) start] by (auto simp: n v(2) s(2))
  have "\<forall>i < ?n. 0 \<le> old ! i" using old(2) assms(7) by force
  note t = above [OF old(1) this]
  have "temp ! k \<le> u ! k" if "grid_settle p u u" "\<forall>k < ?n. 0 \<le> u ! k" "k < ?n" for u k
    using above [OF that(1,2), of k] assms(7) that(3) by force
  then show ?thesis using old t by (intro exI [of _ old]) blast
qed

section \<open>A type without a rule\<close>

text \<open>Without power every block and every node of the package settles at the ambient.\<close>

lemma settled_ambient:
  assumes "chip_net c w h dgssv fs g fp" "chip_settled fs fp g a t" "n_units (fs fp) \<le> length a" "\<forall>i < n_units (fs fp). a ! i = 0"
    and "i < 4 * n_units (fs fp) + EXTRA"
  shows "t ! i = ambient c"
proof -
  let ?n = "n_units (fs fp)"
  have r: "grid_ready fs c fp w h g" "plain_grid c" "2 \<le> grid_rows c" "2 \<le> grid_cols c"
    "grid_fits (nat (grid_rows c)) (nat (grid_cols c)) w h (fs fp)" using assms(1) by (simp_all add: chip_net_def)
  let ?A = "replicate (grid_dim g) (ambient c)"
  obtain p where p: "Grid_Chip.powered fs g (replicate (4 * ?n) 0) p" "\<forall>n < grid_cells g. gv_data p ! n = 0" using powered_none [OF r(1,5)] by blast
  note wire = transient_wired [OF ready_plain_R [OF r(1-4)]] and dim = ready_dim(3) [OF r(1,2)]
  have bal: "grid_balance g p ?A" using grid_balance_ambient [OF wire p(2)] readyD(1) [OF r(1)] by simp
  have amb: "chip_temp fs fp g ?A l v = ambient c" if "l < 4" "v < ?n" for l v
    using chip_temp_between [OF r(1,5) that, of "ambient c" ?A "ambient c"] dim by simp
  have "t ! i \<le> ambient c"
  proof (cases rule: entry_cases [OF assms(5)])
    case (1 l v)
    obtain q T where q: "Grid_Chip.powered fs g (take ?n a @ replicate (3 * ?n + EXTRA) 0) q" "grid_balance g q T"
      "\<forall>l < 4. \<forall>u < ?n. t ! (l * ?n + u) = chip_temp fs fp g T l u" using assms(2) by (auto simp: chip_settled_def Let_def)
    have "\<forall>k < grid_cells g. gv_data q ! k \<le> gv_data p ! k"
      using powered_mono [OF r(1,5) q(1) p(1)] assms(3,4) by (simp add: nth_append)
    from grid_balance_mono [OF wire q(2) bal this] have "T ! k \<le> ?A ! k" if "k < grid_cells g" for k using that dim by simp
    then have "chip_temp fs fp g T l v \<le> chip_temp fs fp g ?A l v" by (intro chip_temp_mono [OF r(1,5) 1(1,2)])
    then show ?thesis using q(3) 1 amb by simp
  next
    case (2 k)
    obtain q T where q: "Grid_Chip.powered fs g (take ?n a @ replicate (3 * ?n + EXTRA) 0) q" "grid_balance g q T"
      "\<forall>k < EXTRA. t ! (4 * ?n + k) = T ! (grid_cells g + k)" using assms(2) by (auto simp: chip_settled_def Let_def)
    have "\<forall>k < grid_cells g. gv_data q ! k \<le> gv_data p ! k"
      using powered_mono [OF r(1,5) q(1) p(1)] assms(3,4) by (simp add: nth_append)
    from grid_balance_mono [OF wire q(2) bal this, of "grid_cells g + k"] show ?thesis using q(3) 2 dim by simp
  qed
  moreover have "ambient c \<le> t ! i" by (rule settled_above [OF assms(1-3) _ assms(5)]) (use assms(4) in simp)
  ultimately show ?thesis by simp
qed

text \<open>
  C19: for an architecture whose type is none of those the code lists, the loop on the grid model gives no
  block any power and never notes the temperatures it starts an iteration from: it compares the ambient
  with zero, and stops after 101 iterations for want of convergence, whatever the power and the start.
\<close>

theorem leakage_unknown_type_stops:
  assumes "rc_union model = Grid_Model g" "leakage_used (gm_config g) \<noteq> 0" "chip_net (gm_config g) w h dgssv fs g fp"
    and "steady_rule (mem_type (gm_config g)) = None" "0 < n_units (fs fp)" "length temp = 4 * n_units (fs fp) + EXTRA"
    and "LEAK_TOL \<le> ambient (gm_config g)" "ambient (gm_config g) \<le> TEMP_HIGH"
  shows "steady_state_temp dgssv fs gl model pw temp = Inl no_convergence"
proof -
  let ?n = "n_units (fs fp)" and ?N = "4 * n_units (fs fp) + EXTRA" and ?A = "ambient (gm_config g)"
  have r: "grid_ready fs (gm_config g) fp w h g" "plain_grid (gm_config g)" "?n \<le> length (units (fs fp))"
    using assms(3) by (simp_all add: chip_net_def grid_fits_def)
  define good where "good s \<longleftrightarrow> (\<exists>x v. s = (g\<lparr>gm_last_steady := x\<rparr>, v) \<and> gv_ok x 4 (gm_rows g) (gm_cols g) EXTRA \<and>
      length (lv_d_temp v) = ?N \<and> lv_temp_old v = dvector ?N \<and> lv_power_new v = dvector ?N \<and> length (lv_temp v) = ?N)" for s :: "grid_model_t \<times> leak_vectors"
  have body: "\<exists>s'. leak_body_grid dgssv fs gl (rc_bank_modes model) pw s = Inr (?A, s') \<and> good s'" if gd: "good s" for s
  proof -
    obtain x v where s: "s = (g\<lparr>gm_last_steady := x\<rparr>, v)" "gv_ok x 4 (gm_rows g) (gm_cols g) EXTRA" "length (lv_d_temp v) = ?N"
      "lv_temp_old v = dvector ?N" "lv_power_new v = dvector ?N" "length (lv_temp v) = ?N" using gd unfolding good_def by blast
    obtain y t where t: "steady_state_temp_grid dgssv fs (g\<lparr>gm_last_steady := x\<rparr>) (dvector ?N) (lv_temp v) = Inr (g\<lparr>gm_last_steady := y\<rparr>, dvector ?N, t)"
      "gv_ok y 4 (gm_rows g) (gm_cols g) EXTRA" "chip_settled fs fp g (dvector ?N) t"
      using chip_steady [OF assms(3) s(2) _ s(6), of "dvector ?N"] by (auto simp: dvector_def)
    have tA: "t ! i = ?A" if "i < ?N" for i
      by (rule settled_ambient [OF assms(3) t(3) _ _ that]) (simp_all add: dvector_def)
    have len: "length t = ?N" using t(3) by (simp add: chip_settled_def Let_def)
    let ?v = "v\<lparr>lv_temp := t\<rparr>"
    obtain d ds where d: "for_up 0 ?n temp_rise (0, ?v) = Inr (d, ?v\<lparr>lv_d_temp := ds\<rparr>)" "length ds = ?N" "largest_rise ?n (dvector ?N) t d"
      using temp_rises_ok [of ?n ?v] s len by (auto simp: dvector_def)
    have "t ! 0 - dvector ?N ! 0 \<le> d" using d(3) assms(5) by (simp add: largest_rise_def)
    then have "d = ?A" using d(3) tA assms(5,7) by (auto simp: largest_rise_def dvector_def LEAK_TOL_def)
    moreover have "over_power_units fs (g\<lparr>gm_last_steady := y\<rparr>) (\<lambda>k j n u. temp_rise n) (0, ?v) = Inr (4 * ?n, d, ?v\<lparr>lv_d_temp := ds\<rparr>)"
      using over_power_units_chip [OF ready_temps_update(1) [OF r(1) t(2)] r(3), of "\<lambda>k j n u. temp_rise n"] d(1) by simp
    moreover have eq: "v\<lparr>lv_power_new := dvector ?N, lv_temp := t\<rparr> = ?v" using s(5) by simp
    ultimately have "leak_body_grid dgssv fs gl (rc_bank_modes model) pw s = Inr (?A, g\<lparr>gm_last_steady := y\<rparr>, ?v\<lparr>lv_d_temp := ds\<rparr>)"
      using t(1) s(1,5) assms(4) by (simp add: leak_body_grid_def leak_power_grid_def eq)
    moreover have "good (g\<lparr>gm_last_steady := y\<rparr>, ?v\<lparr>lv_d_temp := ds\<rparr>)" using t(2) d(2) s(4,5) len by (auto simp: good_def)
    ultimately show ?thesis by blast
  qed
  have "leak_loop (leak_body_grid dgssv fs gl (rc_bank_modes model) pw) 0 k False s = Inl no_convergence" if "good s" "k \<le> Suc LEAKAGE_MAX_ITER" for k s
    using that
  proof (induction "Suc LEAKAGE_MAX_ITER - k" arbitrary: k s)
    case 0
    then show ?case by (subst leak_loop.simps) simp
  next
    case (Suc j)
    obtain s' where "leak_body_grid dgssv fs gl (rc_bank_modes model) pw s = Inr (?A, s')" "good s'" using body [OF Suc.prems(1)] by blast
    then show ?case using Suc.hyps assms(7,8) by (subst leak_loop.simps) simp
  qed
  moreover have "hotspot_vector_grid g = Inr (dvector ?N)"
    using readyD(7) [OF r(1)] readyD(11) [OF r(1,2)] assms(5) by (simp add: hotspot_vector_grid_def total_nodes_def)
  moreover have "\<exists>x. g = g\<lparr>gm_last_steady := x\<rparr> \<and> gv_ok x 4 (gm_rows g) (gm_cols g) EXTRA"
    using readyD(8) [OF r(1)] by (intro exI [of _ "gm_last_steady g"]) simp
  then have "good (g, \<lparr>lv_d_temp = dvector ?N, lv_temp_old = dvector ?N, lv_power_new = dvector ?N, lv_temp = temp\<rparr>)"
    using assms(6) by (auto simp: good_def dvector_def)
  ultimately show ?thesis by (simp add: steady_state_temp_def steady_state_leak_grid_def assms(1,2))
qed

text \<open>The chip of one die with its leakage.\<close>

lemma leaky_chip: "plain_grid leaky_config" "fits leaky_config die (1 / 100) (1 / 100)"
  "grid_fits (nat (grid_rows leaky_config)) (nat (grid_cols leaky_config)) (1 / 100) (1 / 100) die"
  "2 \<le> grid_rows leaky_config" "2 \<le> grid_cols leaky_config" "heat_ok leaky_config"
proof -
  have same: "grid_rows leaky_config = 64" "grid_cols leaky_config = 64" by (simp_all add: leaky_config_def default_thermal_config_def)
  show "plain_grid leaky_config" using default_plain by (simp add: leaky_config_def plain_grid_def)
  show "fits leaky_config die (1 / 100) (1 / 100)"
    using die_fits by (simp add: leaky_config_def fits_def layers_ok_def package_ok_def)
  show "grid_fits (nat (grid_rows leaky_config)) (nat (grid_cols leaky_config)) (1 / 100) (1 / 100) die"
    unfolding same using die_on_grid [of 64 64] by simp
  show "2 \<le> grid_rows leaky_config" "2 \<le> grid_cols leaky_config" by (simp_all add: same)
  show "heat_ok leaky_config" using die_heat by (simp add: leaky_config_def heat_ok_def)
qed

lemma odd_chip:
  obtains g where "chip_net (leaky_config\<lparr>mem_type := ty\<rparr>) (1 / 100) (1 / 100) reference_dgssv (\<lambda>_. die) g 0" "gm_config g = leaky_config\<lparr>mem_type := ty\<rparr>"
proof -
  let ?c = "leaky_config\<lparr>mem_type := ty\<rparr>"
  have c: "plain_grid ?c" "fits ?c die (1 / 100) (1 / 100)" "grid_fits (nat (grid_rows ?c)) (nat (grid_cols ?c)) (1 / 100) (1 / 100) die"
    "2 \<le> grid_rows ?c" "2 \<le> grid_cols ?c"
    using leaky_chip by (simp_all add: plain_grid_def fits_def layers_ok_def package_ok_def)
  obtain g where g: "grid_ready (\<lambda>_. die) ?c 0 (1 / 100) (1 / 100) g"
    using chip_model [of ?c "\<lambda>_. die" 0, OF c(1-3)] by blast
  then show thesis using c reference_solves readyD(1) [OF g] by (intro that [of g]) (simp_all add: chip_net_def)
qed

lemma leakage_unknown_type_stops_witness:
  "\<exists>g. steady_state_temp reference_dgssv (\<lambda>_. die) \<lparr>leakage_on = [], volt = []\<rparr> \<lparr>rc_union = Grid_Model g, rc_banks_nr = 0, rc_bank_modes = []\<rparr> (replicate 16 1) (replicate 16 320) =
      Inl no_convergence"
proof -
  obtain g where g: "chip_net (leaky_config\<lparr>mem_type := ''mainmem''\<rparr>) (1 / 100) (1 / 100) reference_dgssv (\<lambda>_. die) g 0"
    "gm_config g = leaky_config\<lparr>mem_type := ''mainmem''\<rparr>" by (rule odd_chip)
  have "steady_state_temp reference_dgssv (\<lambda>_. die) \<lparr>leakage_on = [], volt = []\<rparr> \<lparr>rc_union = Grid_Model g, rc_banks_nr = 0, rc_bank_modes = []\<rparr> (replicate 16 1) (replicate 16 320) =
      Inl no_convergence"
    by (rule leakage_unknown_type_stops [OF _ _ g(1) [folded g(2)]])
      (simp_all add: g(2) leaky_config_def default_thermal_config_def steady_rule_def die_units EXTRA_def LEAK_TOL_def TEMP_HIGH_def)
  then show ?thesis by blast
qed

text \<open>With the leakage switched off every iteration settles at the same temperatures, so the loop returns.\<close>

lemma off_returns:
  assumes "grid_leaks p" "grid_good p s" "\<And>t t'. grid_settle p t = grid_settle p t'"
  shows "\<exists>s'. leak_loop (grid_body p) 0 0 False s = Inr s'"
proof (cases "leak_loop (grid_body p) 0 0 False s")
  case (Inl e)
  obtain T n where T: "settling (grid_settle p) (chip_units p) (lv_temp (snd s)) T n" "loop_ends (chip_units p) 0 T n (Inl e)"
    using grid_loop.loop_ok [OF assms(1,2), of 0] Inl by auto
  have n: "1 < n" "\<not> calm (chip_units p) (T (n - 1)) (T n)" using T(2) by (auto simp: loop_ends_def LEAKAGE_MAX_ITER_def)
  then have k: "n = Suc (Suc (n - 2))" by simp
  define k where "k = n - 2"
  note k = k [folded k_def]
  have "grid_settle p (T k) (T (Suc k))" "grid_settle p (T (Suc k)) (T n)" using T(1) k by (simp_all add: settling_def)
  then have st: "grid_settle p t (T (Suc k))" "grid_settle p t (T n)" for t using assms(3) by metis+
  let ?u = "replicate (chip_units p) (0::real)"
  have "T n ! i \<le> T (Suc k) ! i" if "i < chip_units p" for i
    using grid_loop.settle_mono [OF assms(1) st(2) [of ?u] st(1) [of ?u], of i] that by simp
  then have "calm (chip_units p) (T (n - 1)) (T n)" by (force simp: calm_def k LEAK_TOL_def)
  with n(2) show ?thesis by simp
qed simp

lemma leakage_from_cool_blocks_witness:
  "\<exists>g gl model' pw' t. steady_state_temp reference_dgssv (\<lambda>_. die) gl \<lparr>rc_union = Grid_Model g, rc_banks_nr = 0, rc_bank_modes = []\<rparr>
      (replicate 16 1) (replicate 16 300) = Inr (model', pw', t) \<and> ambient leaky_config \<le> t ! 0"
proof -
  have ty: "leaky_config\<lparr>mem_type := ''3Dmem''\<rparr> = leaky_config" by (simp add: leaky_config_def default_thermal_config_def)
  obtain g where g: "chip_net leaky_config (1 / 100) (1 / 100) reference_dgssv (\<lambda>_. die) g 0" "gm_config g = leaky_config"
    by (rule odd_chip [of "''3Dmem''", unfolded ty])
  let ?gl = "\<lparr>leakage_on = [0], volt = [0]\<rparr>" and ?pw = "replicate 16 (1::real)"
  let ?p = "(reference_dgssv, \<lambda>_::nat. die, ?gl, [] :: real list, ?pw, g, 0::nat)"
  have amb: "ambient leaky_config = 31815 / 100" "mem_type leaky_config = ''3Dmem''" "leakage_mode leaky_config = 0" "leakage_used leaky_config = 1"
    by (simp_all add: leaky_config_def default_thermal_config_def)
  have leaks: "grid_leaks ?p"
    using g die_powers [of ?pw] amb
    by (auto simp: grid_leaks_def chip_leaks_def globals_ok_def die_units steady_rule_def intro!: exI [of _ "1 / 100"])
  obtain v where v: "grid_good ?p (g, v)" "lv_temp v = replicate 16 300" "steady_state_leak_grid reference_dgssv (\<lambda>_. die) ?gl g [] ?pw (replicate 16 300) =
    rbind (leak_loop (grid_body ?p) 0 0 False (g, v)) (\<lambda>(g, v). Inr (g, lv_temp v))"
    by (rule leak_grid_run [OF leaks, of "replicate 16 300"]) (simp_all add: die_units EXTRA_def)
  have "grid_settle ?p t = grid_settle ?p t'" for t t'
    by (simp add: grid_settle_def gl_leaky_def layer_power_def die_units)
  then obtain s where s: "leak_loop (grid_body ?p) 0 0 False (g, v) = Inr s" using off_returns [OF leaks v(1)] by blast
  let ?m = "\<lparr>rc_union = Grid_Model g, rc_banks_nr = 0, rc_bank_modes = []\<rparr>"
  obtain m' t where run: "steady_state_temp reference_dgssv (\<lambda>_. die) ?gl ?m ?pw (replicate 16 300) = Inr (m', ?pw, t)"
    using v(3) s g(2) amb by (cases s) (simp add: steady_state_temp_def)
  then have "\<exists>old. grid_settle ?p old t \<and> (\<forall>i < n_units die. old ! i \<le> t ! i \<and> t ! i < old ! i + LEAK_TOL) \<and>
    (\<forall>i < 4 * n_units die + EXTRA. ambient leaky_config \<le> t ! i \<and> (\<forall>u. grid_settle ?p u u \<and> (\<forall>k < n_units die. 0 \<le> u ! k) \<longrightarrow> t ! i \<le> u ! i))"
    using leakage_from_cool_blocks [of ?m g ?p reference_dgssv "\<lambda>_. die" ?gl ?pw 0 "replicate 16 300" m' ?pw t] leaks g(2) amb(2-4)
    by (simp add: die_units EXTRA_def amb(1))
  then have "ambient leaky_config \<le> t ! 0" by (auto simp: EXTRA_def)
  with run show ?thesis by blast
qed

section \<open>A transient step with leakage\<close>

text \<open>The last temperatures of the cells are read nowhere but as the start of a step.\<close>

lemma trans_irrelevant:
  "xlate_vector_b2g fs (g\<lparr>gm_last_trans := v\<rparr>) = xlate_vector_b2g fs g"
  "set_internal_power_grid (g\<lparr>gm_last_trans := v\<rparr>) = set_internal_power_grid g"
  "new_grid_model_vector (g\<lparr>gm_last_trans := v\<rparr>) = new_grid_model_vector g"
  "hotspot_vector_grid (g\<lparr>gm_last_trans := v\<rparr>) = hotspot_vector_grid g"
  "over_power_units fs (g\<lparr>gm_last_trans := v\<rparr>) = over_power_units fs g"
proof -
  have cell: "b2g_cell (g\<lparr>gm_last_trans := v\<rparr>) = b2g_cell g" by (simp add: fun_eq_iff b2g_cell_def)
  have "b2g_layer fs (g\<lparr>gm_last_trans := v\<rparr>) = b2g_layer fs g" by (intro ext) (simp add: b2g_layer_def cell)
  then show "xlate_vector_b2g fs (g\<lparr>gm_last_trans := v\<rparr>) = xlate_vector_b2g fs g" by (intro ext) (simp add: xlate_vector_b2g_def)
qed (simp_all add: fun_eq_iff set_internal_power_grid_def new_grid_model_vector_def hotspot_vector_grid_def total_nodes_def over_power_units_def)

text \<open>Temperatures of blocks give the same vector of cells whatever vector they are written to.\<close>

lemma b2g_forgets:
  assumes "grid_ready fs c fp w h g" "plain_grid c" "grid_fits (nat (grid_rows c)) (nat (grid_cols c)) w h (fs fp)"
    and "length t = 4 * n_units (fs fp) + EXTRA" "gv_ok x 4 (gm_rows g) (gm_cols g) EXTRA" "gv_ok y 4 (gm_rows g) (gm_cols g) EXTRA"
  shows "xlate_vector_b2g fs g t x V_TEMP = xlate_vector_b2g fs g t y V_TEMP"
proof -
  note r = readyD [OF assms(1)] and us = ready_usable [OF assms(1,3)]
  have le: "block_base fs g (gm_n_layers g) + extra_nodes (gm_config g) \<le> length t" using us(2) [of 4] assms(4) r(4) r(11) [OF assms(2)] by simp
  have n: "0 < gm_n_layers g" using r(4) by simp
  note ok = xlate_vector_ok [OF disjI2 [OF refl] us(1) le n, unfolded r(4) r(11) [OF assms(2)]]
  obtain a where a: "xlate_vector_b2g fs g t x V_TEMP = Inr a" "gv_ok a 4 (gm_rows g) (gm_cols g) EXTRA"
    "\<forall>n i j. n < 4 \<and> i < gm_rows g \<and> j < gm_cols g \<longrightarrow> gv_at a n i j = cell_value fs g t V_TEMP n i j"
    "\<forall>k < EXTRA. gx_at a k = t ! (block_base fs g 4 + k)" using ok [OF assms(5)] by auto
  obtain b where b: "xlate_vector_b2g fs g t y V_TEMP = Inr b" "gv_ok b 4 (gm_rows g) (gm_cols g) EXTRA"
    "\<forall>n i j. n < 4 \<and> i < gm_rows g \<and> j < gm_cols g \<longrightarrow> gv_at b n i j = cell_value fs g t V_TEMP n i j"
    "\<forall>k < EXTRA. gx_at b k = t ! (block_base fs g 4 + k)" using ok [OF assms(6)] by auto
  have "gv_data a ! k = gv_data b ! k" if k: "k < grid_cells g + EXTRA" for k
  proof (cases "k < grid_cells g")
    case True
    then obtain l i j where l: "in_grid g l i j" "k = cell_node g l i j" using cell_of_node by blast
    then have "gv_at a l i j = gv_at b l i j" using a(3) b(3) r(4) by (simp add: in_grid_def)
    then show ?thesis using gv_at_node [of a g EXTRA] gv_at_node [of b g EXTRA] a(2) b(2) r(4) l(2) by simp
  next
    case False
    then obtain e where e: "k = grid_cells g + e" "e < EXTRA" using k by (metis add_diff_inverse_nat nat_add_left_cancel_less)
    have "gx_at a e = gx_at b e" using a(4) b(4) e(2) by simp
    then show ?thesis
      using a(2) b(2) e(1) r(4) by (simp add: gx_at_def gv_extra_def gv_ok_def grid_cells_def mult.commute mult.left_commute)
  qed
  moreover have "length (gv_data a) = grid_cells g + EXTRA" "length (gv_data b) = grid_cells g + EXTRA"
    using a(2) b(2) r(4) by (simp_all add: gv_ok_def grid_cells_def)
  ultimately have "gv_data a = gv_data b" by (simp add: list_eq_iff_nth_eq)
  then have "a = b" using a(2) b(2) by (cases a, cases b) (simp add: gv_ok_def)
  then show ?thesis using a(1) b(1) by simp
qed

lemma compute_temp_grid_forgets:
  assumes "grid_ready fs c fp w h (ts_model s)" "plain_grid c" "grid_fits (nat (grid_rows c)) (nat (grid_cols c)) w h (fs fp)"
    and "length t = 4 * n_units (fs fp) + EXTRA" "gv_ok v 4 (gm_rows (ts_model s)) (gm_cols (ts_model s)) EXTRA"
  shows "compute_temp_grid dgssv fs (s\<lparr>ts_model := (ts_model s)\<lparr>gm_last_trans := v\<rparr>\<rparr>) pw (Some t) dt = compute_temp_grid dgssv fs s pw (Some t) dt"
  unfolding compute_temp_grid_def Let_def
  by (simp add: trans_irrelevant b2g_forgets [OF assms(1-4) assms(5) readyD(9) [OF assms(1)]])

text \<open>The powers of a step: of the memory types only, the rule looks up the activity of banks.\<close>

lemma transient_rule_ok:
  assumes "transient_rule bs ty = Some rule" "ty \<noteq> ''3Dmem''" "ty \<noteq> ''DDR''" "globals_ok gl n" "j < n" "0 \<le> t" "bank_known modes u"
  shows "\<exists>x. rule gl 0 modes 0 j u (Inr p) (Inr t) = Inr x"
proof -
  have "j < length (leakage_on gl)" "j < length (volt gl)" using assms(4,5) by (simp_all add: globals_ok_def)
  then show ?thesis
    using assms(1-3,6,7)
    by (auto simp: transient_rule_def power_Core_def power_3D_def power_25D_def unless_off_def plus_leakage_def
        plus_core_leakage_def calc_leakage_ok calc_core_leakage_ok Let_def split: if_splits)
qed

lemma transient_power_ok:
  assumes "transient_rule bs (mem_type (gm_config g)) = Some rule" "mem_type (gm_config g) \<noteq> ''3Dmem''" "mem_type (gm_config g) \<noteq> ''DDR''"
    and "leakage_mode (gm_config g) = 0" "grid_ready fs c fp w h g" "powers_ok (fs fp) modes pw" "globals_ok gl (n_units (fs fp))"
    and "n_units (fs fp) \<le> length t" "\<forall>i < n_units (fs fp). 0 \<le> t ! i" "n_units (fs fp) \<le> length pn"
  shows "\<exists>pn'. transient_power fs gl bs g modes pw t pn = Inr (4 * n_units (fs fp), pn') \<and> length pn' = length pn"
proof -
  have l: "n_units (fs fp) \<le> length (units (fs fp))" "n_units (fs fp) \<le> length pw" "\<forall>i < n_units (fs fp). bank_known modes (units (fs fp) ! i)"
    using assms(6) by (simp_all add: powers_ok_def)
  have "\<exists>pn'. for_up 0 (n_units (fs fp)) (\<lambda>j pn. rbind (rule gl (leakage_mode (gm_config g)) modes 0 j (units (fs fp) ! j) (rd pw j) (rd t j)) (wr pn j)) pn = Inr pn' \<and>
      length pn' = length pn"
  proof (rule for_up_rule [where I = "\<lambda>_ q. length q = length pn"])
    fix j and q :: "real list" assume j: "j < n_units (fs fp)" "length q = length pn"
    then obtain x where "rule gl 0 modes 0 j (units (fs fp) ! j) (Inr (pw ! j)) (Inr (t ! j)) = Inr x"
      using transient_rule_ok [OF assms(1-3,7)] assms(9) l(3) by blast
    then show "\<exists>q'. rbind (rule gl (leakage_mode (gm_config g)) modes 0 j (units (fs fp) ! j) (rd pw j) (rd t j)) (wr q j) = Inr q' \<and> length q' = length pn"
      using j assms(4,8,10) l(2) by simp
  qed simp_all
  then show ?thesis by (auto simp: transient_power_def assms(1) over_power_units_chip [OF assms(5) l(1)])
qed

text \<open>
  C18: with leakage every call of \<open>compute_temp\<close> on the grid model of a chip of cores returns, but it
  passes the temperatures of the blocks on, so that the step starts from cells that all have the
  temperature of their blocks: what the last call left in the cells has no effect on the result.
\<close>

theorem leakage_step_forgets_cells:
  assumes "rc_union model = Grid_Model g" "leakage_used (gm_config g) \<noteq> 0" "chip_net (gm_config g) w h dgssv fs g fp"
    and "transient_inv fs (gm_config g) fp w h ((tp_grid tp)\<lparr>ts_model := g\<rparr>)" "leakage_mode (gm_config g) = 0" "0 < n_units (fs fp)"
    and "mem_type (gm_config g) \<in> {''Core'', ''3D'', ''2.5D''}" "powers_ok (fs fp) (rc_bank_modes model) pw" "globals_ok gl (n_units (fs fp))"
    and "(if tp_count tp = 0 then temp else tp_first_time tp) = Some t" "length t = 4 * n_units (fs fp) + EXTRA" "\<forall>i < n_units (fs fp). 0 \<le> t ! i"
    and "4 * n_units (fs fp) \<le> length dump" "0 < dt"
  shows "\<exists>r. \<forall>v. gv_ok v 4 (gm_rows g) (gm_cols g) EXTRA \<longrightarrow>
    compute_temp dgssv fs gl (Some bs) tp (model\<lparr>rc_union := Grid_Model (g\<lparr>gm_last_trans := v\<rparr>)\<rparr>) pw temp scratch dump dt = Some (Inr r)"
proof -
  let ?c = "gm_config g" and ?n = "n_units (fs fp)" and ?N = "4 * n_units (fs fp) + EXTRA" and ?ts = "(tp_grid tp)\<lparr>ts_model := g\<rparr>"
  have net: "grid_ready fs ?c fp w h g" "plain_grid ?c" "2 \<le> grid_rows ?c" "2 \<le> grid_cols ?c"
    "grid_fits (nat (grid_rows ?c)) (nat (grid_cols ?c)) w h (fs fp)" "solves dgssv" using assms(3) by (simp_all add: chip_net_def)
  obtain rule where rule: "transient_rule bs (mem_type ?c) = Some rule" "mem_type ?c \<noteq> ''3Dmem''" "mem_type ?c \<noteq> ''DDR''"
    using assms(7) by (auto simp: transient_rule_def)
  have z: "hotspot_vector_grid g = Inr (dvector ?N)"
    using readyD(7) [OF net(1)] readyD(11) [OF net(1,2)] assms(6) by (simp add: hotspot_vector_grid_def total_nodes_def)
  obtain pn where pn: "transient_power fs gl bs g (rc_bank_modes model) pw t (dvector ?N) = Inr (4 * ?n, pn)" "length pn = ?N"
    using transient_power_ok [OF rule assms(5) net(1) assms(8,9), of t "dvector ?N"] assms(11,12) by (auto simp: dvector_def)
  have "\<exists>d. for_up 0 (4 * ?n) (\<lambda>k d. rbind (rd pn k) (wr d k)) dump = Inr d \<and> length d = length dump"
    by (rule for_up_rule [where I = "\<lambda>_ d. length d = length dump"]) (use pn(2) assms(13) in simp_all)
  then obtain d where d: "for_up 0 (4 * ?n) (\<lambda>k d. rbind (rd pn k) (wr d k)) dump = Inr d" by blast
  obtain s q where s: "compute_temp_grid dgssv fs ?ts pn (Some t) dt = Inr (s, q)"
    using compute_temp_grid_ok [OF assms(4) net(2-6) assms(14) pn(2), of "Some t"] assms(11) by auto
  have power: "transient_power fs gl bs (g\<lparr>gm_last_trans := v\<rparr>) modes = transient_power fs gl bs g modes" for v modes
    by (simp add: fun_eq_iff transient_power_def trans_irrelevant split: option.split)
  let ?tp = "tp\<lparr>tp_count := Suc (tp_count tp), tp_first_time := Some (ts_last_temp s), tp_grid := s\<rparr>"
  let ?r = "(?tp, model\<lparr>rc_union := Grid_Model (ts_model s)\<rparr>, pw, ts_last_temp s, d)"
  have "compute_temp dgssv fs gl (Some bs) tp (model\<lparr>rc_union := Grid_Model (g\<lparr>gm_last_trans := v\<rparr>)\<rparr>) pw temp scratch dump dt = Some (Inr ?r)"
    if v: "gv_ok v 4 (gm_rows g) (gm_cols g) EXTRA" for v
  proof -
    have step: "compute_temp_grid dgssv fs ((tp_grid tp)\<lparr>ts_model := g\<lparr>gm_last_trans := v\<rparr>\<rparr>) pn (Some t) dt = Inr (s, q)"
      using compute_temp_grid_forgets [of fs ?c fp w h ?ts t v dgssv pn dt] net(1,2,5) v assms(11) s by simp
    have first: "(if tp_count tp = 0 then temp else tp_first_time (tp\<lparr>tp_grid := x\<rparr>)) = Some t" for x
      using assms(10) by (cases "tp_count tp = 0") simp_all
    have "compute_temp_leak dgssv fs gl bs (tp\<lparr>tp_grid := (tp_grid tp)\<lparr>ts_model := g\<lparr>gm_last_trans := v\<rparr>\<rparr>\<rparr>) (rc_bank_modes model) pw temp dump dt = Inr (?tp, d)"
      by (simp add: compute_temp_leak_def Let_def first trans_irrelevant z not_null_def power pn(1) d step)
    then show ?thesis using assms(2) by (simp add: compute_temp_def read_bank_state_array_def Let_def)
  qed
  then show ?thesis by blast
qed

lemma leakage_step_forgets_cells_witness:
  "\<exists>g tp r. compute_temp reference_dgssv (\<lambda>_. die) \<lparr>leakage_on = [1], volt = [10]\<rparr> (Some []) tp
      \<lparr>rc_union = Grid_Model (g\<lparr>gm_last_trans := new_grid_model_vector g\<rparr>), rc_banks_nr = 0, rc_bank_modes = []\<rparr>
      (replicate 16 1) (Some (replicate 16 320)) False (replicate 16 0) 1 = Some (Inr r)"
proof -
  let ?c = "leaky_config\<lparr>mem_type := ''Core''\<rparr>"
  have c: "plain_grid ?c" "fits ?c die (1 / 100) (1 / 100)" "grid_fits (nat (grid_rows ?c)) (nat (grid_cols ?c)) (1 / 100) (1 / 100) die"
    "2 \<le> grid_rows ?c" "2 \<le> grid_cols ?c" "heat_ok ?c"
    using leaky_chip by (simp_all add: plain_grid_def fits_def layers_ok_def package_ok_def heat_ok_def)
  obtain g where g: "grid_ready (\<lambda>_. die) ?c 0 (1 / 100) (1 / 100) g" "storing g"
    using chip_model_C [of ?c "\<lambda>_. die" 0, OF c(1-3,6)] by blast
  have gc: "gm_config g = ?c" by (rule readyD(1) [OF g(1)])
  have v: "gv_ok (new_grid_model_vector g) 4 (gm_rows g) (gm_cols g) EXTRA"
    using new_grid_model_vector_ok [of g] readyD(4) [OF g(1)] readyD(11) [OF g(1) c(1)] by simp
  let ?tp = "\<lparr>tp_count = 0, tp_first_time = None, tp_grid = fresh_state True g\<rparr>"
  let ?m = "\<lparr>rc_union = Grid_Model g, rc_banks_nr = 0, rc_bank_modes = []\<rparr>"
  have inv: "transient_inv (\<lambda>_. die) (gm_config g) 0 (1 / 100) (1 / 100) ((tp_grid ?tp)\<lparr>ts_model := g\<rparr>)"
    using g gc by (simp add: transient_inv_def fresh_state_def)
  have net: "chip_net (gm_config g) (1 / 100) (1 / 100) reference_dgssv (\<lambda>_. die) g 0"
    using g(1) c(1,3-5) reference_solves by (simp add: chip_net_def gc)
  have "\<exists>r. \<forall>v. gv_ok v 4 (gm_rows g) (gm_cols g) EXTRA \<longrightarrow>
    compute_temp reference_dgssv (\<lambda>_. die) \<lparr>leakage_on = [1], volt = [10]\<rparr> (Some []) ?tp (?m\<lparr>rc_union := Grid_Model (g\<lparr>gm_last_trans := v\<rparr>)\<rparr>)
      (replicate 16 1) (Some (replicate 16 320)) False (replicate 16 0) 1 = Some (Inr r)"
  proof (rule leakage_step_forgets_cells [OF _ _ net inv, where t = "replicate 16 320"])
    show "powers_ok ((\<lambda>_. die) 0) (rc_bank_modes ?m) (replicate 16 1)" using die_powers [of "replicate 16 1"] by simp
    show "\<forall>i < n_units ((\<lambda>_. die) 0). 0 \<le> replicate 16 (320::real) ! i" by (simp add: die_units)
  qed (simp_all add: gc leaky_config_def default_thermal_config_def die_units EXTRA_def globals_ok_def)
  then obtain r where "compute_temp reference_dgssv (\<lambda>_. die) \<lparr>leakage_on = [1], volt = [10]\<rparr> (Some []) ?tp
      (?m\<lparr>rc_union := Grid_Model (g\<lparr>gm_last_trans := new_grid_model_vector g\<rparr>)\<rparr>) (replicate 16 1) (Some (replicate 16 320)) False (replicate 16 0) 1 = Some (Inr r)"
    using v by blast
  then show ?thesis by (intro exI [of _ g] exI [of _ ?tp] exI [of _ r]) simp
qed

text \<open>
  The memory types look up the activity of a bank by the number of the layer less five: on the default
  stack, whose layer with power has number 0, the index is negative.
\<close>

theorem memory_rule_reads_outside:
  assumes "j < 32" "k \<le> 1" "transient_rule bs ty = Some rule" "ty = ''3Dmem'' \<or> ty = ''DDR''"
  shows "rule gl mode modes k j u p t = Inl OutOfBounds"
proof -
  have "c_div (int k - 5) 2 = - 2" using assms(2) by (cases "k = 0"; cases "k = 1") (simp_all add: c_div_def)
  then show ?thesis using assms by (auto simp: transient_rule_def transient_3Dmem_def rdi_def)
qed

end
