(* ===== verification/Anneal.thy ===== *)
theory Anneal
  imports RC_Model Slicing Flp_Place Thermal_Config
begin

text \<open>
  The floorplanner of \<open>hotspot_tool/flp.c\<close>, which runs all other parts: the metric of a floorplan by area,
  temperature and wires, and \<open>floorplan\<close>, simulated annealing over normalized Polish expressions.

  The floorplan is changed in place and the thermal model keeps a pointer to it, so it is an entry
  \<open>fp\<close> of the store of floorplans. \<open>rnd\<close> is the stream of \<open>rand()\<close>, seeded by \<open>init_rand\<close>, so the index starts
  at 0. The aspect ratio that the metric computes is not used and left out, and so is the progress output.
\<close>

section \<open>Configuration\<close>

definition default_flp_config :: flp_config_t where
  "default_flp_config = \<lparr>wrap_l2 = True, l2_label = ''L2'', model_rim = False, rim_thickness = 50 / 1000000,
     compact_ratio = 5 / 1000, n_orients = 300, P0 = 99 / 100, Davg = 1, Kmoves = 7, Rcool = 99 / 100, Rreject = 99 / 100,
     Nmax = 1000, lambdaA = 5000000, lambdaT = 1, lambdaW = 350\<rparr>"

text \<open>Flags are only tested for being zero. The parameters are read in the order of the code, then checked.\<close>

definition check_flp_config :: "flp_config_t \<Rightarrow> flp_config_t res" where
  "check_flp_config c =
    (if rim_thickness c \<le> 0 then Inl (Fatal ''rim thickness should be greater than zero'')
     else if compact_ratio c < 0 \<or> compact_ratio c > 1 then Inl (Fatal ''compact_ratio should be between 0 and 1'')
     else if n_orients c \<le> 1 \<or> n_orients c mod 2 = 1 then Inl (Fatal ''n_orients should be an even number greater than 1'')
     else if Kmoves c < 0 then Inl (Fatal ''Kmoves should be non-negative'')
     else if P0 c < 0 \<or> P0 c > 1 then Inl (Fatal ''P0 should be between 0 and 1'')
     else if Rcool c < 0 \<or> Rcool c > 1 then Inl (Fatal ''Rcool should be between 0 and 1'')
     else if Rreject c < 0 \<or> Rreject c > 1 then Inl (Fatal ''Rreject should be between 0 and 1'')
     else if Nmax c < 0 then Inl (Fatal ''Nmax should be non-negative'')
     else Inr c)"

definition flp_config_add_from_strs :: "flp_config_t \<Rightarrow> str_pair list \<Rightarrow> nat \<Rightarrow> flp_config_t res" where
  "flp_config_add_from_strs config table sz =
     in_order [
       read_int table sz ''wrap_l2'' (\<lambda>v c. c\<lparr>wrap_l2 := v \<noteq> 0\<rparr>),
       read_str table sz ''l2_label'' (\<lambda>v c. c\<lparr>l2_label := v\<rparr>),
       read_int table sz ''model_rim'' (\<lambda>v c. c\<lparr>model_rim := v \<noteq> 0\<rparr>),
       read_double table sz ''rim_thickness'' (\<lambda>v c. c\<lparr>rim_thickness := v\<rparr>),
       read_double table sz ''compact_ratio'' (\<lambda>v c. c\<lparr>compact_ratio := v\<rparr>),
       read_int table sz ''n_orients'' (\<lambda>v c. c\<lparr>n_orients := v\<rparr>),
       read_double table sz ''P0'' (\<lambda>v c. c\<lparr>P0 := v\<rparr>),
       read_double table sz ''Davg'' (\<lambda>v c. c\<lparr>Davg := v\<rparr>),
       read_double table sz ''Kmoves'' (\<lambda>v c. c\<lparr>Kmoves := v\<rparr>),
       read_double table sz ''Rcool'' (\<lambda>v c. c\<lparr>Rcool := v\<rparr>),
       read_double table sz ''Rreject'' (\<lambda>v c. c\<lparr>Rreject := v\<rparr>),
       read_int table sz ''Nmax'' (\<lambda>v c. c\<lparr>Nmax := v\<rparr>),
       read_double table sz ''lambdaA'' (\<lambda>v c. c\<lparr>lambdaA := v\<rparr>),
       read_double table sz ''lambdaT'' (\<lambda>v c. c\<lparr>lambdaT := v\<rparr>),
       read_double table sz ''lambdaW'' (\<lambda>v c. c\<lparr>lambdaW := v\<rparr>),
       check_flp_config] config"

section \<open>The metric\<close>

text \<open>The cost, with the model and the vector of power the evaluation leaves behind.\<close>

definition flp_evaluate_metric :: "superlu \<Rightarrow> flp_store \<Rightarrow> leak_globals \<Rightarrow> nat \<Rightarrow> RC_model_t \<Rightarrow> real list \<Rightarrow> real \<Rightarrow> real \<Rightarrow> real \<Rightarrow>
    (real \<times> RC_model_t \<times> real list) res" where
  "flp_evaluate_metric dgssv fs gl fp model pw lA lT lW =
    (let flp = fs fp in
     rbind (hotspot_vector model) (\<lambda>temp.
     rbind (populate_R_model fs model fp) (\<lambda>model.
     rbind (steady_state_temp dgssv fs gl model pw temp) (\<lambda>(model, pw, temp).
     rbind (find_max_temp fs model temp) (\<lambda>tmax.
     rbind (get_total_area flp) (\<lambda>ar.
     rbind (get_wire_metric flp) (\<lambda>wire_length.
     rbind (get_total_width flp) (\<lambda>w. rbind (get_total_height flp) (\<lambda>h.
     Inr (lA * ar + lT * tmax + lW * wire_length, model, pw))))))))))"

section \<open>From an expression to its cost\<close>

text \<open>What changes from one expression to the next.\<close>

record planner_t =
  pl_flp :: flp_t
  pl_model :: RC_model_t
  pl_tpower :: "real list"
  pl_stack :: tree_node_stack_t
  pl_rim_blocks :: nat

definition size_expr :: "flp_desc_t \<Rightarrow> NPE_t \<Rightarrow> planner_t \<Rightarrow> (int \<times> planner_t) res" where
  "size_expr desc expr st =
     rbind (tree_from_NPE desc (pl_stack st) expr) (\<lambda>(rt, stack).
     rbind (tree_to_flp rt (pl_flp st) True (compact_ratio (desc_config desc))) (\<lambda>(compacted, rt, flp).
     Inr (compacted, st\<lparr>pl_flp := flp, pl_stack := stack\<rparr>)))"

text \<open>
  The vector of power without the compacted blocks is written to \<open>dst\<close>; then the L2 and the rim are put
  around the core, and the thermal model gets the new number of blocks.
\<close>

definition fit_model :: "flp_store \<Rightarrow> nat \<Rightarrow> flp_desc_t \<Rightarrow> bool \<Rightarrow> real list \<Rightarrow> real list \<Rightarrow> int \<Rightarrow> planner_t \<Rightarrow> (real list \<times> planner_t) res" where
  "fit_model fs fp desc wrap dst src compacted st =
    (let cfg = desc_config desc in
     rbind (nat_of compacted) (\<lambda>c.
     rbind (trim_hotspot_vector (pl_model st) dst src (n_units (pl_flp st)) c) (\<lambda>dst.
     rbind (if wrap then flp_wrap_l2 (pl_flp st) desc else Inr (pl_flp st)) (\<lambda>flp.
     rbind (if model_rim cfg then flp_wrap_rim flp (rim_thickness cfg) else Inr (pl_rim_blocks st, flp)) (\<lambda>(j, flp).
     rbind (resize_thermal_model (fs(fp := flp)) (pl_model st) (n_units flp)) (\<lambda>model.
     Inr (dst, st\<lparr>pl_flp := flp, pl_model := model, pl_rim_blocks := j\<rparr>)))))))"

definition cost_of :: "superlu \<Rightarrow> flp_store \<Rightarrow> leak_globals \<Rightarrow> nat \<Rightarrow> flp_desc_t \<Rightarrow> bool \<Rightarrow> real list \<Rightarrow> int \<Rightarrow> planner_t \<Rightarrow> (real \<times> planner_t) res" where
  "cost_of dgssv fs gl fp desc wrap pw compacted st =
    (let cfg = desc_config desc in
     rbind (fit_model fs fp desc wrap (pl_tpower st) pw compacted st) (\<lambda>(tpower, st).
     rbind (flp_evaluate_metric dgssv (fs(fp := pl_flp st)) gl fp (pl_model st) tpower (lambdaA cfg) (lambdaT cfg) (lambdaW cfg)) (\<lambda>(cost, model, tpower).
     Inr (cost, st\<lparr>pl_model := model, pl_tpower := tpower\<rparr>))))"

definition evaluate_expr :: "superlu \<Rightarrow> flp_store \<Rightarrow> leak_globals \<Rightarrow> nat \<Rightarrow> flp_desc_t \<Rightarrow> bool \<Rightarrow> real list \<Rightarrow> NPE_t \<Rightarrow> planner_t \<Rightarrow>
    (real \<times> planner_t) res" where
  "evaluate_expr dgssv fs gl fp desc wrap pw expr st =
     rbind (size_expr desc expr st) (\<lambda>(compacted, st).
     rbind (cost_of dgssv fs gl fp desc wrap pw compacted st) (\<lambda>(cost, st).
     rbind (restore_dead_blocks (pl_flp st) desc compacted wrap (model_rim (desc_config desc)) (pl_rim_blocks st)) (\<lambda>flp.
     Inr (cost, st\<lparr>pl_flp := flp\<rparr>))))"

section \<open>Annealing\<close>

record 's anneal_t =
  an_expr :: NPE_t
  an_best :: NPE_t
  an_cost :: real
  an_best_cost :: real
  an_sum_cost :: real
  an_downs :: nat
  an_rejects :: nat
  an_rand :: nat
  an_plan :: 's

text \<open>A move that is accepted, and one that is not.\<close>

definition accept_move :: "NPE_t \<Rightarrow> real \<Rightarrow> 's anneal_t \<Rightarrow> 's anneal_t res" where
  "accept_move nxt new_cost a =
     rbind (if new_cost < an_cost a \<and> new_cost < an_best_cost a
       then rbind (NPE_duplicate nxt) (\<lambda>b. Inr (a\<lparr>an_best := b, an_best_cost := new_cost\<rparr>)) else Inr a) (\<lambda>b.
     Inr (b\<lparr>an_expr := nxt, an_downs := (if new_cost < an_cost a then Suc (an_downs a) else an_downs a),
       an_cost := new_cost, an_sum_cost := an_sum_cost a + new_cost\<rparr>))"

definition reject_move :: "'s anneal_t \<Rightarrow> 's anneal_t" where
  "reject_move a = a\<lparr>an_rejects := Suc (an_rejects a)\<rparr>"

text \<open>A random number is drawn only for a move that is not downhill.\<close>

definition try_move :: "(NPE_t \<Rightarrow> 's \<Rightarrow> (real \<times> 's) res) \<Rightarrow> (nat \<Rightarrow> int) \<Rightarrow> real \<Rightarrow> 's anneal_t \<Rightarrow> 's anneal_t res" where
  "try_move ev rnd T a =
     rbind (make_random_move rnd (an_expr a) (an_rand a)) (\<lambda>(nxt, s).
     rbind (ev nxt (an_plan a)) (\<lambda>(new_cost, plan).
     let a = a\<lparr>an_rand := s, an_plan := plan\<rparr> in
     if new_cost < an_cost a then accept_move nxt new_cost a
     else case rand_fraction rnd s of (x, s) \<Rightarrow>
       let a = a\<lparr>an_rand := s\<rparr> in
       rbind (fdiv (- (new_cost - an_cost a)) T) (\<lambda>q.
       if x < exp q then accept_move nxt new_cost a else Inr (reject_move a))))"

text \<open>
  The moves at one temperature: at most \<open>2 * n\<close>, of which less than \<open>n\<close> go downhill before the last. The
  number of tries is the first component of the result.
\<close>

function anneal_moves :: "('s anneal_t \<Rightarrow> 's anneal_t res) \<Rightarrow> int \<Rightarrow> nat \<Rightarrow> 's anneal_t \<Rightarrow> (nat \<times> 's anneal_t) res" where
  "anneal_moves move n i a =
    (if int i < 2 * n \<and> int (an_downs a) < n then rbind (move a) (anneal_moves move n (Suc i)) else Inr (i, a))"
  by pat_completeness auto
termination by (relation "measure (\<lambda>(_, n, i, _). nat (2 * n) - i)") auto

declare anneal_moves.simps [simp del]

text \<open>The schedule; without tries the ratio of rejects is no number, and not larger than the limit.\<close>

function anneal_steps :: "flp_config_t \<Rightarrow> (real \<Rightarrow> 's anneal_t \<Rightarrow> 's anneal_t res) \<Rightarrow> ('s \<Rightarrow> nat) \<Rightarrow> real \<Rightarrow> nat \<Rightarrow> real \<Rightarrow> 's anneal_t \<Rightarrow> 's anneal_t res" where
  "anneal_steps cfg move n_of Tcold steps T a =
    (if T \<ge> Tcold \<and> int steps < Nmax cfg then
       rbind (anneal_moves (move T) (c_trunc (Kmoves cfg * real (n_of (an_plan a)))) 0 (a\<lparr>an_downs := 0, an_rejects := 0, an_sum_cost := 0\<rparr>)) (\<lambda>(i, a).
       if i \<noteq> 0 \<and> real (an_rejects a) / real i > Rreject cfg then Inr a
       else anneal_steps cfg move n_of Tcold (Suc steps) (T * Rcool cfg) a)
     else Inr a)"
  by pat_completeness auto
termination by (relation "measure (\<lambda>(cfg, _, _, _, steps, _). nat (Nmax cfg) - steps)") auto

declare anneal_steps.simps [simp del]

definition c_log :: "real \<Rightarrow> real res" where
  "c_log x = (if x \<le> 0 then Inl NonFinite else Inr (ln x))"

text \<open>The best expression that annealing finds from a given one, whose cost \<open>ev\<close> determines first.\<close>

definition anneal :: "flp_config_t \<Rightarrow> (NPE_t \<Rightarrow> 's \<Rightarrow> (real \<times> 's) res) \<Rightarrow> ('s \<Rightarrow> nat) \<Rightarrow> (nat \<Rightarrow> int) \<Rightarrow> NPE_t \<Rightarrow> 's \<Rightarrow> 's anneal_t res" where
  "anneal cfg ev n_of rnd expr plan =
     rbind (ev expr plan) (\<lambda>(cost, plan).
     rbind (NPE_duplicate expr) (\<lambda>best.
     rbind (c_log (P0 cfg)) (\<lambda>l. rbind (fdiv (- Davg cfg) l) (\<lambda>T.
     rbind (c_log ((1 - Rreject cfg) / 2)) (\<lambda>l. rbind (fdiv (- Davg cfg) l) (\<lambda>Tcold.
     anneal_steps cfg (try_move ev rnd) n_of Tcold 0 T
       \<lparr>an_expr = expr, an_best = best, an_cost = cost, an_best_cost = cost, an_sum_cost = 0, an_downs = 0, an_rejects = 0,
        an_rand = 0, an_plan = plan\<rparr>))))))"

section \<open>The floorplanner\<close>

text \<open>
  The units of the rim and the L2 disappear for the slicing tree. The last vector of power is written in
  place; every entry is read before it is overwritten. The result is the store of floorplans, the
  description, the model, the power and the number of units that are gone.
\<close>

definition floorplan :: "superlu \<Rightarrow> flp_store \<Rightarrow> leak_globals \<Rightarrow> (nat \<Rightarrow> int) \<Rightarrow> nat \<Rightarrow> flp_desc_t \<Rightarrow> RC_model_t \<Rightarrow> real list \<Rightarrow>
    (flp_store \<times> flp_desc_t \<times> RC_model_t \<times> real list \<times> int) res" where
  "floorplan dgssv fs gl rnd fp desc model pw =
    (let cfg = desc_config desc; original_n = n_units (fs fp) in
     rbind (hotspot_vector model) (\<lambda>tpower.
     rbind (nat_of (if model_rim cfg then c_div (int original_n - 2) 3 else int original_n)) (\<lambda>n1.
     rbind (wraps_l2 desc) (\<lambda>wrap.
     rbind (nat_of (int n1 - (if wrap then int (L2_ARMS + 1) else 0))) (\<lambda>n2.
     let desc = (if wrap then desc\<lparr>desc_n_units := desc_n_units desc - 1\<rparr> else desc) in
     rbind (NPE_get_initial (desc_n_units desc)) (\<lambda>expr.
     rbind (anneal cfg (evaluate_expr dgssv fs gl fp desc wrap pw) (\<lambda>st. n_units (pl_flp st)) rnd expr
       \<lparr>pl_flp = (fs fp)\<lparr>n_units := n2\<rparr>, pl_model = model, pl_tpower = tpower, pl_stack = new_tree_node_stack, pl_rim_blocks = 0\<rparr>) (\<lambda>a.
     rbind (size_expr desc (an_best a) (an_plan a)) (\<lambda>(compacted, st).
     rbind (fit_model fs fp desc wrap pw pw compacted st) (\<lambda>(pw, st).
     let desc = (if wrap then desc\<lparr>desc_n_units := desc_n_units desc + 1\<rparr> else desc) in
     Inr (fs(fp := pl_flp st), desc, pl_model st, pw, int original_n - int (n_units (pl_flp st))))))))))))"

end
