(* ===== verification/Anneal_Props.thy ===== *)
theory Anneal_Props
  imports Anneal Slicing_Props Block_Props
begin

text \<open>
  The annealing floorplanner: annealing as a state machine (\<open>search\<close>), the contract of an evaluation of
  expressions under which the loops of the code run it to its end and keep the cheapest expression that they
  evaluate, the proof that sizing a slicing tree and measuring the floorplan keeps the contract, and what
  \<open>floorplan\<close> returns or stops with.
\<close>

section \<open>What holds of an outcome\<close>

definition ends_in :: "(err \<Rightarrow> bool) \<Rightarrow> ('a \<Rightarrow> bool) \<Rightarrow> 'a res \<Rightarrow> bool" where
  "ends_in E P r = (case r of Inl e \<Rightarrow> E e | Inr x \<Rightarrow> P x)"

lemma ends_in_simps [simp]: "ends_in E P (Inl e) = E e" "ends_in E P (Inr x) = P x"
  by (simp_all add: ends_in_def)

lemma ends_in_bind: "ends_in E P r \<Longrightarrow> (\<And>x. P x \<Longrightarrow> ends_in E Q (f x)) \<Longrightarrow> ends_in E Q (rbind r f)"
  by (cases r) auto

lemma ends_in_mono: "ends_in E P r \<Longrightarrow> (\<And>e. E e \<Longrightarrow> E' e) \<Longrightarrow> (\<And>x. P x \<Longrightarrow> P' x) \<Longrightarrow> ends_in E' P' r"
  by (cases r) auto

lemma ends_in_true: "(\<And>e. r = Inl e \<Longrightarrow> E e) \<Longrightarrow> ends_in E (\<lambda>x. r = Inr x) r"
  by (cases r) auto

section \<open>Annealing as a state machine\<close>

abbreviation gives_up :: err where "gives_up \<equiv> Fatal ''tried 16 moves, now giving up''"

text \<open>The parameters for which the schedule is one of finite, positive temperatures.\<close>

definition schedule_ok :: "flp_config_t \<Rightarrow> bool" where
  "schedule_ok cfg \<longleftrightarrow> 0 < P0 cfg \<and> P0 cfg < 1 \<and> 0 < Davg cfg \<and> -1 < Rreject cfg \<and> Rreject cfg < 1"

text \<open>The temperature of step \<open>k\<close>, the last one, and the limits of the schedule.\<close>

definition temp_at :: "flp_config_t \<Rightarrow> nat \<Rightarrow> real" where
  "temp_at cfg k = - Davg cfg / ln (P0 cfg) * Rcool cfg ^ k"

definition temp_cold :: "flp_config_t \<Rightarrow> real" where
  "temp_cold cfg = - Davg cfg / ln ((1 - Rreject cfg) / 2)"

definition warm :: "flp_config_t \<Rightarrow> nat \<Rightarrow> bool" where
  "warm cfg k \<longleftrightarrow> temp_cold cfg \<le> temp_at cfg k \<and> int k < Nmax cfg"

definition trying :: "flp_config_t \<Rightarrow> int \<Rightarrow> nat \<Rightarrow> nat \<Rightarrow> nat \<Rightarrow> bool" where
  "trying cfg n k i d \<longleftrightarrow> warm cfg k \<and> int i < 2 * n \<and> int d < n"

definition frozen :: "flp_config_t \<Rightarrow> nat \<Rightarrow> nat \<Rightarrow> bool" where
  "frozen cfg i j \<longleftrightarrow> i \<noteq> 0 \<and> Rreject cfg < real j / real i"

definition ended :: "flp_config_t \<Rightarrow> int \<Rightarrow> nat \<Rightarrow> nat \<Rightarrow> nat \<Rightarrow> nat \<Rightarrow> bool" where
  "ended cfg n k i d j \<longleftrightarrow> \<not> warm cfg k \<or> \<not> (int i < 2 * n \<and> int d < n) \<and> frozen cfg i j"

text \<open>
  The states of a search from the expression \<open>e0\<close> and the state \<open>s0\<close> of the evaluation: after \<open>k\<close> temperatures,
  \<open>i\<close> moves at the present one, of which \<open>d\<close> went down and \<open>j\<close> were rejected, \<open>h\<close> holds all evaluated
  expressions with their costs, the last one first, \<open>e\<close> is the present one with the cost \<open>c\<close>, and \<open>r\<close> random
  numbers have been drawn. Every state has at most one successor.
\<close>

inductive search :: "flp_config_t \<Rightarrow> int \<Rightarrow> (nat \<Rightarrow> int) \<Rightarrow> (NPE_t \<Rightarrow> 's \<Rightarrow> (real \<times> 's) res) \<Rightarrow> NPE_t \<Rightarrow> 's \<Rightarrow>
    nat \<Rightarrow> nat \<Rightarrow> nat \<Rightarrow> nat \<Rightarrow> (NPE_t \<times> real) list \<Rightarrow> NPE_t \<Rightarrow> real \<Rightarrow> nat \<Rightarrow> 's \<Rightarrow> bool"
  for cfg n rnd ev e0 s0 where
  first: "ev e0 s0 = Inr (c, s) \<Longrightarrow> search cfg n rnd ev e0 s0 0 0 0 0 [(e0, c)] e0 c 0 s"
| down: "search cfg n rnd ev e0 s0 k i d j h e c r s \<Longrightarrow> trying cfg n k i d \<Longrightarrow> make_random_move rnd e r = Inr (e', r') \<Longrightarrow>
    ev e' s = Inr (c', s') \<Longrightarrow> c' < c \<Longrightarrow> search cfg n rnd ev e0 s0 k (Suc i) (Suc d) j ((e', c') # h) e' c' r' s'"
| up: "search cfg n rnd ev e0 s0 k i d j h e c r s \<Longrightarrow> trying cfg n k i d \<Longrightarrow> make_random_move rnd e r = Inr (e', r') \<Longrightarrow>
    ev e' s = Inr (c', s') \<Longrightarrow> c \<le> c' \<Longrightarrow> rand_fraction rnd r' = (x, r'') \<Longrightarrow> x < exp (- (c' - c) / temp_at cfg k) \<Longrightarrow>
    search cfg n rnd ev e0 s0 k (Suc i) d j ((e', c') # h) e' c' r'' s'"
| stay: "search cfg n rnd ev e0 s0 k i d j h e c r s \<Longrightarrow> trying cfg n k i d \<Longrightarrow> make_random_move rnd e r = Inr (e', r') \<Longrightarrow>
    ev e' s = Inr (c', s') \<Longrightarrow> c \<le> c' \<Longrightarrow> rand_fraction rnd r' = (x, r'') \<Longrightarrow> \<not> x < exp (- (c' - c) / temp_at cfg k) \<Longrightarrow>
    search cfg n rnd ev e0 s0 k (Suc i) d (Suc j) ((e', c') # h) e c r'' s'"
| cool: "search cfg n rnd ev e0 s0 k i d j h e c r s \<Longrightarrow> warm cfg k \<Longrightarrow> \<not> (int i < 2 * n \<and> int d < n) \<Longrightarrow> \<not> frozen cfg i j \<Longrightarrow>
    search cfg n rnd ev e0 s0 (Suc k) 0 0 0 h e c r s"

text \<open>An expression of the least cost in the history, up to the arrays derived from the elements.\<close>

definition cheapest :: "nat \<Rightarrow> (NPE_t \<times> real) list \<Rightarrow> NPE_t \<Rightarrow> real \<Rightarrow> bool" where
  "cheapest m h b c \<longleftrightarrow> npe_ok m b \<and> (\<exists>e. elements e = elements b \<and> (e, c) \<in> set h) \<and> (\<forall>(e, c') \<in> set h. c \<le> c')"

lemma cheapest_keeps: "cheapest m h b c \<Longrightarrow> c \<le> c' \<Longrightarrow> cheapest m ((e, c') # h) b c"
  by (auto simp: cheapest_def)

lemma cheapest_new: "cheapest m h b c \<Longrightarrow> c' \<le> c \<Longrightarrow> npe_ok m b' \<Longrightarrow> elements b' = elements e \<Longrightarrow> cheapest m ((e, c') # h) b' c'"
  by (force simp: cheapest_def)

lemma cheapest_least: "cheapest m h b c \<Longrightarrow> (e, c') \<in> set h \<Longrightarrow> c \<le> c'"
  by (auto simp: cheapest_def)

text \<open>A search ends after a bounded number of evaluations.\<close>

lemma search_bounded:
  assumes "search cfg n rnd ev e0 s0 k i d j h e c r s"
  shows "k \<le> nat (Nmax cfg) \<and> i \<le> nat (2 * n) \<and> (\<not> int k < Nmax cfg \<longrightarrow> i = 0) \<and> length h \<le> 1 + k * nat (2 * n) + i"
  using assms by (induction rule: search.induct) (auto simp: trying_def warm_def)

lemma search_length:
  assumes "search cfg n rnd ev e0 s0 k i d j h e c r s"
  shows "length h \<le> 1 + nat (Nmax cfg) * nat (2 * n)"
proof (cases "int k < Nmax cfg")
  case True
  then have "Suc k \<le> nat (Nmax cfg)" by simp
  then have "Suc k * nat (2 * n) \<le> nat (Nmax cfg) * nat (2 * n)" by (rule mult_le_mono1)
  then show ?thesis using search_bounded [OF assms] by simp
next
  case False
  have "k * nat (2 * n) \<le> nat (Nmax cfg) * nat (2 * n)" using search_bounded [OF assms] by (intro mult_le_mono1) simp
  then show ?thesis using search_bounded [OF assms] False by linarith
qed

section \<open>Annealing with any evaluation\<close>

text \<open>
  The contract of an evaluation: it keeps an invariant of its state, under which the number that the schedule
  reads is always the same.
\<close>

locale evaluator =
  fixes ev :: "NPE_t \<Rightarrow> 's \<Rightarrow> (real \<times> 's) res" and inv :: "'s \<Rightarrow> bool" and n_of :: "'s \<Rightarrow> nat" and m :: nat and N :: nat
  assumes ev_ok: "inv s \<Longrightarrow> npe_ok m e \<Longrightarrow> ev e s = Inr (c, s') \<Longrightarrow> inv s'"
    and n_of_inv: "inv s \<Longrightarrow> n_of s = N"
begin

lemma search_ok:
  assumes "search cfg n rnd ev e0 s0 k i d j h e c r s" "rand_ok rnd" "2 \<le> m" "npe_ok m e0" "inv s0"
  shows "inv s \<and> npe_ok m e \<and> (e, c) \<in> set h \<and> (npe_move m)\<^sup>*\<^sup>* (elements e0) (elements e) \<and>
    (\<forall>(e', c') \<in> set h. (npe_move m)\<^sup>*\<^sup>* (elements e0) (elements e'))"
  using assms
proof (induction rule: search.induct)
  case (first c s)
  then show ?case using ev_ok by auto
next
  case (down k i d j h e c r s e' r' c' s')
  then have "npe_ok m e' \<and> npe_move m (elements e) (elements e')"
    using random_move_ok [of rnd m e r] by auto
  with down ev_ok show ?case by (auto intro: rtranclp.rtrancl_into_rtrancl)
next
  case (up k i d j h e c r s e' r' c' s' x r'')
  then have "npe_ok m e' \<and> npe_move m (elements e) (elements e')"
    using random_move_ok [of rnd m e r] by auto
  with up ev_ok show ?case by (auto intro: rtranclp.rtrancl_into_rtrancl)
next
  case (stay k i d j h e c r s e' r' c' s' x r'')
  then have "npe_ok m e' \<and> npe_move m (elements e) (elements e')"
    using random_move_ok [of rnd m e r] by auto
  with stay ev_ok show ?case by (auto intro: rtranclp.rtrancl_into_rtrancl)
qed auto

text \<open>A state of the annealer is one of the search, with a best expression that is the cheapest evaluated.\<close>

definition reached :: "flp_config_t \<Rightarrow> int \<Rightarrow> (nat \<Rightarrow> int) \<Rightarrow> NPE_t \<Rightarrow> 's \<Rightarrow> nat \<Rightarrow> nat \<Rightarrow> 's anneal_t \<Rightarrow> bool" where
  "reached cfg n rnd e0 s0 k i a \<longleftrightarrow> (\<exists>h. search cfg n rnd ev e0 s0 k i (an_downs a) (an_rejects a) h (an_expr a) (an_cost a) (an_rand a) (an_plan a) \<and>
     cheapest m h (an_best a) (an_best_cost a))"

text \<open>The errors that end a search: in the first evaluation, in a move, or in the evaluation of what it moves to.\<close>

definition stops :: "flp_config_t \<Rightarrow> int \<Rightarrow> (nat \<Rightarrow> int) \<Rightarrow> NPE_t \<Rightarrow> 's \<Rightarrow> err \<Rightarrow> bool" where
  "stops cfg n rnd e0 s0 er \<longleftrightarrow> ev e0 s0 = Inl er \<or> (\<exists>k i d j h e c r s. search cfg n rnd ev e0 s0 k i d j h e c r s \<and>
     trying cfg n k i d \<and> (make_random_move rnd e r = Inl er \<or> (\<exists>e' r'. make_random_move rnd e r = Inr (e', r') \<and> ev e' s = Inl er)))"

lemma stopsI:
  assumes "search cfg n rnd ev e0 s0 k i d j h e c r s" "trying cfg n k i d"
    and "make_random_move rnd e r = Inl er \<or> (\<exists>e' r'. make_random_move rnd e r = Inr (e', r') \<and> ev e' s = Inl er)"
  shows "stops cfg n rnd e0 s0 er"
  unfolding stops_def using assms by blast

lemma accept_move_ok:
  assumes h: "cheapest m h (an_best a) (an_best_cost a)" and e: "npe_ok m e" and c: "an_best_cost a \<le> an_cost a"
  shows "\<exists>b. accept_move e c a = Inr b \<and> an_expr b = e \<and> an_cost b = c \<and> an_rand b = an_rand a \<and> an_plan b = an_plan a \<and>
    an_downs b = (if c < an_cost a then Suc (an_downs a) else an_downs a) \<and> an_rejects b = an_rejects a \<and>
    cheapest m ((e, c) # h) (an_best b) (an_best_cost b)"
proof -
  obtain b where b: "NPE_duplicate e = Inr b" "npe_ok m b" "elements b = elements e"
    using NPE_duplicate_ok [OF e] by blast
  consider "c < an_cost a" "c < an_best_cost a" | "an_best_cost a \<le> c" using c by linarith
  then show ?thesis
  proof cases
    case 1
    then show ?thesis using b cheapest_new [OF h _ b(2,3), of c] by (auto simp: accept_move_def)
  next
    case 2
    then show ?thesis using cheapest_keeps [OF h 2] by (auto simp: accept_move_def)
  qed
qed

lemma try_move_ok:
  assumes rnd: "rand_ok rnd" and m: "2 \<le> m" and e0: "npe_ok m e0" "inv s0" and T: "0 < temp_at cfg k"
    and a: "reached cfg n rnd e0 s0 k i a" and tr: "trying cfg n k i (an_downs a)"
  shows "ends_in (stops cfg n rnd e0 s0) (reached cfg n rnd e0 s0 k (Suc i)) (try_move ev rnd (temp_at cfg k) a)"
proof -
  obtain h where s: "search cfg n rnd ev e0 s0 k i (an_downs a) (an_rejects a) h (an_expr a) (an_cost a) (an_rand a) (an_plan a)"
    and best: "cheapest m h (an_best a) (an_best_cost a)" using a by (auto simp: reached_def)
  have ok: "inv (an_plan a)" "npe_ok m (an_expr a)" "an_best_cost a \<le> an_cost a"
    using search_ok [OF s rnd m e0] cheapest_least [OF best] by blast+
  show ?thesis
  proof (cases "make_random_move rnd (an_expr a) (an_rand a)")
    case (Inl er)
    then show ?thesis using stopsI [OF s tr] by (simp add: try_move_def)
  next
    case (Inr x)
    then obtain e r where mv: "make_random_move rnd (an_expr a) (an_rand a) = Inr (e, r)" by (cases x) auto
    have e: "npe_ok m e" using random_move_ok [OF rnd ok(2) m, of "an_rand a"] mv by auto
    show ?thesis
    proof (cases "ev e (an_plan a)")
      case (Inl er)
      then show ?thesis using stopsI [OF s tr] mv by (simp add: try_move_def)
    next
      case (Inr y)
      then obtain c p where c: "ev e (an_plan a) = Inr (c, p)" by (cases y) auto
      obtain x r' where x: "rand_fraction rnd r = (x, r')" by force
      let ?a = "\<lambda>r. a\<lparr>an_rand := r, an_plan := p\<rparr>"
      have eq: "a\<lparr>an_plan := p, an_rand := r'\<rparr> = ?a r'" by simp
      have ab: "cheapest m h (an_best (?a q)) (an_best_cost (?a q))" "an_best_cost (?a q) \<le> an_cost (?a q)" for q
        using best ok(3) by simp_all
      obtain b where b: "accept_move e c (?a r) = Inr b" "an_expr b = e" "an_cost b = c" "an_rand b = r" "an_plan b = p"
          "an_downs b = (if c < an_cost a then Suc (an_downs a) else an_downs a)" "an_rejects b = an_rejects a"
          "cheapest m ((e, c) # h) (an_best b) (an_best_cost b)"
        using accept_move_ok [OF ab(1) [of r] e ab(2) [of r], of c] by auto
      obtain b' where b': "accept_move e c (?a r') = Inr b'" "an_expr b' = e" "an_cost b' = c" "an_rand b' = r'" "an_plan b' = p"
          "an_downs b' = (if c < an_cost a then Suc (an_downs a) else an_downs a)" "an_rejects b' = an_rejects a"
          "cheapest m ((e, c) # h) (an_best b') (an_best_cost b')"
        using accept_move_ok [OF ab(1) [of r'] e ab(2) [of r'], of c] by auto
      show ?thesis
      proof (cases "c < an_cost a")
        case True
        have "reached cfg n rnd e0 s0 k (Suc i) b"
          unfolding reached_def using search.down [OF s tr mv c True] b True by auto
        then show ?thesis using mv c b(1) True by (simp add: try_move_def Let_def)
      next
        case False
        then have le: "an_cost a \<le> c" by simp
        have "reached cfg n rnd e0 s0 k (Suc i) b'" if "x < exp (- (c - an_cost a) / temp_at cfg k)"
          unfolding reached_def using search.up [OF s tr mv c le x that] b' False by auto
        moreover have "reached cfg n rnd e0 s0 k (Suc i) (reject_move (?a r'))" if "\<not> x < exp (- (c - an_cost a) / temp_at cfg k)"
          unfolding reached_def using search.stay [OF s tr mv c le x that] cheapest_keeps [OF best, of c e] ok(3) le
          by (auto simp: reject_move_def)
        ultimately show ?thesis using mv c b'(1) False T x by (auto simp: try_move_def Let_def fdiv_def eq)
      qed
    qed
  qed
qed

lemma anneal_moves_ok:
  assumes "\<And>i b. reached cfg n rnd e0 s0 k i b \<Longrightarrow> trying cfg n k i (an_downs b) \<Longrightarrow>
      ends_in (stops cfg n rnd e0 s0) (reached cfg n rnd e0 s0 k (Suc i)) (move b)"
    and "reached cfg n rnd e0 s0 k i a" "warm cfg k"
  shows "ends_in (stops cfg n rnd e0 s0) (\<lambda>(i, b). reached cfg n rnd e0 s0 k i b \<and> \<not> (int i < 2 * n \<and> int (an_downs b) < n))
    (anneal_moves move n i a)"
  using assms
proof (induction move n i a rule: anneal_moves.induct [case_names loop])
  case (loop move n i a)
  show ?case
  proof (cases "int i < 2 * n \<and> int (an_downs a) < n")
    case True
    then have step: "ends_in (stops cfg n rnd e0 s0) (reached cfg n rnd e0 s0 k (Suc i)) (move a)"
      using loop.prems by (simp add: trying_def)
    have "ends_in (stops cfg n rnd e0 s0) (\<lambda>(i, b). reached cfg n rnd e0 s0 k i b \<and> \<not> (int i < 2 * n \<and> int (an_downs b) < n))
        (rbind (move a) (anneal_moves move n (Suc i)))"
    proof (cases "move a")
      case (Inl er)
      then show ?thesis using step by simp
    next
      case (Inr b)
      then have b: "reached cfg n rnd e0 s0 k (Suc i) b" using step by simp
      show ?thesis unfolding Inr rbind_Inr by (rule loop.IH [OF True Inr loop.prems(1) b loop.prems(3)])
    qed
    with True show ?thesis by (simp add: anneal_moves.simps [of move n i])
  next
    case False
    show ?thesis
      unfolding anneal_moves.simps [of move n i a] if_not_P [OF False] using loop.prems(2) False by simp
  qed
qed

lemma anneal_steps_ok:
  assumes "move = try_move ev rnd" "nf = n_of" "Tc = temp_cold cfg" "rand_ok rnd" "2 \<le> m" "npe_ok m e0" "inv s0" "n = c_trunc (Kmoves cfg * real N)" "0 < temp_cold cfg"
    and "T = temp_at cfg k" "reached cfg n rnd e0 s0 k 0 (a\<lparr>an_downs := 0, an_rejects := 0, an_sum_cost := 0\<rparr>)"
  shows "ends_in (stops cfg n rnd e0 s0)
    (\<lambda>b. \<exists>k i d j h. search cfg n rnd ev e0 s0 k i d j h (an_expr b) (an_cost b) (an_rand b) (an_plan b) \<and>
      ended cfg n k i d j \<and> cheapest m h (an_best b) (an_best_cost b))
    (anneal_steps cfg move nf Tc k T a)"
  using assms
proof (induction cfg move nf Tc k T a rule: anneal_steps.induct [case_names loop])
  case (loop cfg move nf Tc k T a)
  note eqs = loop.prems(1-3)
  let ?a = "a\<lparr>an_downs := 0, an_rejects := 0, an_sum_cost := 0\<rparr>"
  let ?n = "c_trunc (Kmoves cfg * real (nf (an_plan a)))"
  show ?case
  proof (cases "T \<ge> Tc \<and> int k < Nmax cfg")
    case True
    then have w: "warm cfg k" using loop.prems(10) eqs(3) by (simp add: warm_def)
    have n: "?n = n"
      using loop.prems search_ok [OF _ loop.prems(4-7)] n_of_inv eqs(2) by (auto simp: reached_def)
    have T: "0 < temp_at cfg k" using True loop.prems(9,10) eqs(3) by simp
    have mv: "ends_in (stops cfg n rnd e0 s0) (\<lambda>(i, b). reached cfg n rnd e0 s0 k i b \<and> \<not> (int i < 2 * n \<and> int (an_downs b) < n))
        (anneal_moves (move T) n 0 ?a)"
      by (rule anneal_moves_ok) (use try_move_ok [OF loop.prems(4-7) T] loop.prems(10,11) w eqs(1) in auto)
    show ?thesis
    proof (cases "anneal_moves (move T) ?n 0 ?a")
      case (Inl er)
      then show ?thesis using True mv unfolding n by (simp add: anneal_steps.simps [of cfg _ _ _ k T a] n)
    next
      case (Inr x)
      then obtain i b where x: "anneal_moves (move T) ?n 0 ?a = Inr (i, b)" by (cases x) auto
      then have b: "reached cfg n rnd e0 s0 k i b" "\<not> (int i < 2 * n \<and> int (an_downs b) < n)" using mv n by simp_all
      obtain h where h: "search cfg n rnd ev e0 s0 k i (an_downs b) (an_rejects b) h (an_expr b) (an_cost b) (an_rand b) (an_plan b)"
        "cheapest m h (an_best b) (an_best_cost b)" using b(1) by (auto simp: reached_def)
      show ?thesis
      proof (cases "frozen cfg i (an_rejects b)")
        case fr: True
        then have "ended cfg n k i (an_downs b) (an_rejects b)" using b(2) by (simp add: ended_def)
        with h have "\<exists>k i d j h. search cfg n rnd ev e0 s0 k i d j h (an_expr b) (an_cost b) (an_rand b) (an_plan b) \<and>
            ended cfg n k i d j \<and> cheapest m h (an_best b) (an_best_cost b)" by blast
        then show ?thesis using True x fr by (simp add: anneal_steps.simps [of cfg _ _ _ k T a] frozen_def)
      next
        case fr: False
        have "reached cfg n rnd e0 s0 (Suc k) 0 (b\<lparr>an_downs := 0, an_rejects := 0, an_sum_cost := 0\<rparr>)"
          unfolding reached_def using search.cool [OF h(1) w b(2) fr] h(2) by auto
        moreover have "T * Rcool cfg = temp_at cfg (Suc k)" using loop.prems(10) by (simp add: temp_at_def)
        ultimately show ?thesis
          using loop.IH [OF True x refl] fr loop.prems(1-9) True x by (auto simp: anneal_steps.simps [of cfg _ _ _ k T a] frozen_def)
      qed
    qed
  next
    case False
    then have "\<not> warm cfg k" using loop.prems(10) eqs(3) by (simp add: warm_def)
    then have "ended cfg n k 0 0 0" by (simp add: ended_def)
    moreover obtain h where "search cfg n rnd ev e0 s0 k 0 0 0 h (an_expr a) (an_cost a) (an_rand a) (an_plan a)"
        "cheapest m h (an_best a) (an_best_cost a)"
      using loop.prems(11) by (auto simp: reached_def)
    ultimately show ?thesis
      unfolding anneal_steps.simps [of cfg _ _ _ k T a] if_not_P [OF False] ends_in_simps by blast
  qed
qed

lemma anneal_ok:
  assumes "rand_ok rnd" "2 \<le> m" "npe_ok m e" "inv s" "schedule_ok cfg" "n = c_trunc (Kmoves cfg * real N)"
  shows "ends_in (stops cfg n rnd e s)
    (\<lambda>b. \<exists>k i d j h. search cfg n rnd ev e s k i d j h (an_expr b) (an_cost b) (an_rand b) (an_plan b) \<and>
      ended cfg n k i d j \<and> cheapest m h (an_best b) (an_best_cost b))
    (anneal cfg ev n_of rnd e s)"
proof -
  let ?l = "ln (P0 cfg)" and ?r = "ln ((1 - Rreject cfg) / 2)"
  have neg: "?l < 0" "?r < 0" "0 < P0 cfg" "0 < (1 - Rreject cfg) / 2"
    using assms(5) by (auto simp: schedule_ok_def)
  have cold: "0 < temp_cold cfg" using neg assms(5) by (simp add: temp_cold_def schedule_ok_def divide_less_0_iff)
  obtain b where b: "NPE_duplicate e = Inr b" "npe_ok m b" "elements b = elements e"
    using NPE_duplicate_ok [OF assms(3)] by blast
  show ?thesis
  proof (cases "ev e s")
    case (Inl er)
    then show ?thesis by (simp add: anneal_def stops_def)
  next
    case (Inr x)
    then obtain c s' where c: "ev e s = Inr (c, s')" by (cases x) auto
    let ?a = "\<lparr>an_expr = e, an_best = b, an_cost = c, an_best_cost = c, an_sum_cost = 0, an_downs = 0,
      an_rejects = 0, an_rand = 0, an_plan = s'\<rparr>"
    have "cheapest m [(e, c)] b c" using b by (auto simp: cheapest_def)
    then have "reached cfg n rnd e s 0 0 (?a\<lparr>an_downs := 0, an_rejects := 0, an_sum_cost := 0\<rparr>)"
      unfolding reached_def using c by (auto intro!: search.first)
    from anneal_steps_ok [OF refl refl refl assms(1-4,6) cold refl this]
    show ?thesis using c b(1) neg by (simp add: anneal_def c_log_def fdiv_def temp_cold_def temp_at_def)
  qed
qed

end

section \<open>The stack is large enough\<close>

lemma cuts_before_gap: "i \<le> n \<Longrightarrow> i + cuts_before es n \<le> n + cuts_before es i"
proof (induction n)
  case (Suc n)
  then show ?case by (cases "i = Suc n") (auto simp: cuts_before_Suc)
qed simp

text \<open>Never more pending nodes than units.\<close>

lemma units_fit_stack:
  assumes "polish m es" "m \<le> MAX_STACK"
  shows "fits_stack es"
proof -
  have "pending es i \<le> m" if "i \<le> length es" for i
    using cuts_before_gap [OF that, of es] polish_cuts [OF assms(1)] assms(1)
    by (auto simp: pending_def polish_def)
  with assms(2) show ?thesis by (auto simp: fits_stack_def intro: order_trans)
qed

section \<open>Sizing an expression\<close>

text \<open>
  The floorplanner for \<open>m\<close> units without L2 and rim: room for the units and their dead blocks, an empty stack.
\<close>

definition planner_ok :: "nat \<Rightarrow> flp_desc_t \<Rightarrow> planner_t \<Rightarrow> bool" where
  "planner_ok m desc st \<longleftrightarrow> desc_ok m desc \<and> desc_n_units desc = m \<and> \<not> model_rim (desc_config desc) \<and> m \<le> MAX_STACK \<and>
     n_units (pl_flp st) = 2 * m - 1 \<and> 2 * m - 1 \<le> length (units (pl_flp st)) \<and>
     (\<exists>k \<ge> 2 * m - 1. rows_ok (wire_density (pl_flp st)) k k) \<and> stack_inv (pl_stack st) \<and> stack_items (pl_stack st) = []"

text \<open>The floorplan \<open>flp\<close> is the best one that the tree \<open>t\<close> of the expression \<open>es\<close> allows.\<close>

definition best_placed :: "(nat \<Rightarrow> real) \<Rightarrow> nat \<Rightarrow> flp_desc_t \<Rightarrow> int list \<Rightarrow> flp_t \<Rightarrow> bool" where
  "best_placed A m desc es flp \<longleftrightarrow> (\<exists>t W H. postorder t = es \<and> tree_ok t \<and> tree_of_desc desc t \<and>
     tiles (units flp) {..<n_units flp} 0 0 W H \<and> realizes t W H \<and> (\<forall>w h. realizes t w h \<longrightarrow> W * H \<le> w * h) \<and>
     (\<forall>u < m. A u \<le> width (units flp ! u) * height (units flp ! u)))"

lemma size_expr_ok:
  assumes "planner_ok m desc st" "npe_ok m e"
    and "\<forall>u < m. \<forall>k < shape_size (unit_shape (desc_units desc ! u)).
       A u \<le> shape_x (unit_shape (desc_units desc ! u)) ! k * shape_y (unit_shape (desc_units desc ! u)) ! k"
  shows "\<exists>c flp stack. size_expr desc e st = Inr (int c, st\<lparr>pl_flp := flp, pl_stack := stack\<rparr>) \<and> c \<le> m - 1 \<and>
    n_units flp = 2 * m - 1 - c \<and> best_placed A m desc (elements e) flp \<and> length (units flp) = length (units (pl_flp st)) \<and>
    wire_density flp = wire_density (pl_flp st) \<and> stack_inv stack \<and> stack_items stack = []"
proof -
  have pol: "polish m (elements e)" using assms(2) by (simp add: npe_ok_def)
  have d: "desc_ok m desc" "stack_inv (pl_stack st)" "stack_items (pl_stack st) = []" "m \<le> MAX_STACK"
    "n_units (pl_flp st) = 2 * m - 1" "2 * m - 1 \<le> length (units (pl_flp st))"
    using assms(1) by (auto simp: planner_ok_def)
  obtain t stack where t: "tree_from_NPE desc (pl_stack st) e = Inr (t, stack)" "postorder t = elements e" "tree_ok t"
      "tree_of_desc desc t" "stack_inv stack" "stack_items stack = []"
    using tree_from_NPE_ok [OF assms(2) d(1-3)] units_fit_stack [OF pol d(4)] by auto
  obtain c t' flp W H where f: "tree_to_flp t (pl_flp st) True (compact_ratio (desc_config desc)) = Inr (int c, t', flp)"
    and c: "c \<le> m - 1" "n_units flp = 2 * m - 1 - c" "length (units flp) = length (units (pl_flp st))"
      "wire_density flp = wire_density (pl_flp st)"
    and b: "tiles (units flp) {..<n_units flp} 0 0 W H" "realizes t W H" "\<forall>w h. realizes t w h \<longrightarrow> W * H \<le> w * h"
      "\<forall>u < m. A u \<le> width (units flp ! u) * height (units flp ! u)"
    using tree_to_flp_ok [OF t(3,4,2) pol d(5,6) assms(3), of True "compact_ratio (desc_config desc)"] by blast
  have "best_placed A m desc (elements e) flp" unfolding best_placed_def using t(2-4) b by blast
  with t(1,5,6) f c show ?thesis
    by (intro exI [of _ c] exI [of _ flp] exI [of _ stack]) (simp add: size_expr_def)
qed

section \<open>Restoring the dead blocks\<close>

definition roomy :: "nat \<Rightarrow> nat \<Rightarrow> flp_t \<Rightarrow> bool" where
  "roomy n k flp \<longleftrightarrow> n_units flp = n \<and> n \<le> length (units flp) \<and> n \<le> k \<and> rows_ok (wire_density flp) k k"

lemma set_wire_roomy: "roomy n k flp \<Longrightarrow> i < k \<Longrightarrow> j < k \<Longrightarrow> \<exists>flp'. set_wire i j x flp = Inr flp' \<and> roomy n k flp'"
  by (auto simp: set_wire_def roomy_def)

lemma reset_dead_roomy:
  assumes "roomy n k flp" "idx < n"
  shows "\<exists>flp'. reset_dead idx i flp = Inr flp' \<and> roomy n k flp'"
proof -
  let ?f = "flp\<lparr>units := (units flp)[idx := (units flp ! idx)\<lparr>unit_name := DEAD_PREFIX @ print_nat i, leftx := 0,
    bottomy := 0, width := 0, height := 0\<rparr>]\<rparr>"
  have f: "roomy n k ?f" using assms by (simp add: roomy_def)
  have "\<exists>flp'. for_up 0 n (\<lambda>j flp. rbind (set_wire j idx 0 flp) (\<lambda>flp. set_wire idx j 0 flp)) ?f = Inr flp' \<and> roomy n k flp'"
  proof (rule for_up_rule [where I = "\<lambda>j. roomy n k"])
    fix j g assume j: "j < n" and g: "roomy n k g"
    have k: "j < k" "idx < k" using j g assms(2) by (auto simp: roomy_def)
    obtain g1 where g1: "set_wire j idx 0 g = Inr g1" "roomy n k g1" using set_wire_roomy [OF g k] by blast
    then show "\<exists>g'. rbind (set_wire j idx 0 g) (\<lambda>g. set_wire idx j 0 g) = Inr g' \<and> roomy n k g'"
      using set_wire_roomy [OF g1(2) k(2,1)] by simp
  qed (use f in auto)
  then show ?thesis using assms by (simp add: reset_dead_def roomy_def)
qed

lemma restore_dead_blocks_ok:
  assumes "roomy (2 * m - 1) k (flp\<lparr>n_units := 2 * m - 1\<rparr>)" "n_units flp = 2 * m - 1 - c" "c \<le> m - 1" "desc_n_units desc = m"
  shows "\<exists>flp'. restore_dead_blocks flp desc (int c) False False j = Inr flp' \<and> roomy (2 * m - 1) k flp'"
proof -
  have "nat_of (int (n_units flp) + int c) = Inr (2 * m - 1)" using assms(2,3) by (simp add: nat_of_def)
  moreover have "\<exists>flp'. for_up 0 (m - 1) (\<lambda>i. reset_dead (m + i) i) (flp\<lparr>n_units := 2 * m - 1\<rparr>) = Inr flp' \<and> roomy (2 * m - 1) k flp'"
    by (rule for_up_rule [where I = "\<lambda>_. roomy (2 * m - 1) k"]) (use assms(1) reset_dead_roomy in auto)
  ultimately show ?thesis using assms(4) by (simp add: restore_dead_blocks_def)
qed

section \<open>One evaluation\<close>

text \<open>
  The part of the thermal model in an evaluation: the vector of power is trimmed, the model resized and filled
  for the floorplan \<open>fp\<close> of the store, and the largest temperature found. \<open>n\<close> is the number of units, \<open>c\<close> that
  of the compacted ones.
\<close>

definition thermal_stage :: "superlu \<Rightarrow> flp_store \<Rightarrow> leak_globals \<Rightarrow> nat \<Rightarrow> RC_model_t \<Rightarrow> real list \<Rightarrow> real list \<Rightarrow> nat \<Rightarrow> nat \<Rightarrow>
    (real \<times> RC_model_t \<times> real list) res" where
  "thermal_stage dgssv fs gl fp model tpower pw n c =
     rbind (trim_hotspot_vector model tpower pw n c) (\<lambda>tpower.
     rbind (resize_thermal_model fs model n) (\<lambda>model.
     rbind (hotspot_vector model) (\<lambda>temp.
     rbind (populate_R_model fs model fp) (\<lambda>model.
     rbind (steady_state_temp dgssv fs gl model tpower temp) (\<lambda>(model, tpower, temp).
     rbind (find_max_temp fs model temp) (\<lambda>tmax. Inr (tmax, model, tpower)))))))"

text \<open>An error of the thermal model for the sized floorplan of the expression \<open>e\<close> in the state \<open>st\<close>.\<close>

definition thermal_error :: "superlu \<Rightarrow> flp_store \<Rightarrow> leak_globals \<Rightarrow> nat \<Rightarrow> flp_desc_t \<Rightarrow> real list \<Rightarrow> NPE_t \<Rightarrow> planner_t \<Rightarrow> err \<Rightarrow> bool" where
  "thermal_error dgssv fs gl fp desc pw e st er \<longleftrightarrow> (\<exists>c flp stack.
     size_expr desc e st = Inr (int c, st\<lparr>pl_flp := flp, pl_stack := stack\<rparr>) \<and>
     thermal_stage dgssv (fs(fp := flp)) gl fp (pl_model st) (pl_tpower st) pw (n_units flp) c = Inl er)"

text \<open>The same for the final floorplan, whose temperatures are not computed.\<close>

definition fit_error :: "flp_store \<Rightarrow> nat \<Rightarrow> flp_desc_t \<Rightarrow> real list \<Rightarrow> NPE_t \<Rightarrow> planner_t \<Rightarrow> err \<Rightarrow> bool" where
  "fit_error fs fp desc pw e st er \<longleftrightarrow> (\<exists>c flp stack.
     size_expr desc e st = Inr (int c, st\<lparr>pl_flp := flp, pl_stack := stack\<rparr>) \<and>
     (trim_hotspot_vector (pl_model st) pw pw (n_units flp) c = Inl er \<or>
      returns (trim_hotspot_vector (pl_model st) pw pw (n_units flp) c) \<and>
      resize_thermal_model (fs(fp := flp)) (pl_model st) (n_units flp) = Inl er))"

text \<open>The area and the wires of a sized floorplan are always found, so the thermal model alone decides.\<close>

lemma cost_of_stage:
  assumes rim: "\<not> model_rim (desc_config desc)" and flp: "flp_ok (pl_flp st)" "rows_ok (wire_density (pl_flp st)) k k"
    "n_units (pl_flp st) \<le> k"
  shows "cost_of dgssv fs gl fp desc False pw (int c) st =
    rbind (thermal_stage dgssv (fs(fp := pl_flp st)) gl fp (pl_model st) (pl_tpower st) pw (n_units (pl_flp st)) c)
      (\<lambda>(tmax, model, tpower). Inr (lambdaA (desc_config desc) * (\<Sum>i < n_units (pl_flp st). width (units (pl_flp st) ! i) * height (units (pl_flp st) ! i)) +
         lambdaT (desc_config desc) * tmax + lambdaW (desc_config desc) * wire_sum (pl_flp st),
         st\<lparr>pl_model := model, pl_tpower := tpower\<rparr>))"
proof -
  have s: "st\<lparr>pl_flp := pl_flp st, pl_model := x, pl_rim_blocks := pl_rim_blocks st\<rparr> = st\<lparr>pl_model := x\<rparr>" for x by simp
  show ?thesis
    using rim get_total_area_ok [OF flp(1)] get_total_width_ok [OF flp(1)] get_total_height_ok [OF flp(1)] get_wire_metric_ok [OF flp]
    by (simp add: cost_of_def fit_model_def flp_evaluate_metric_def thermal_stage_def Let_def nat_of_def rbind_assoc s split_def)
qed

lemma fit_model_core:
  assumes "\<not> model_rim (desc_config desc)"
  shows "fit_model fs fp desc False pw pw (int c) st =
    rbind (trim_hotspot_vector (pl_model st) pw pw (n_units (pl_flp st)) c) (\<lambda>v.
    rbind (resize_thermal_model (fs(fp := pl_flp st)) (pl_model st) (n_units (pl_flp st))) (\<lambda>model.
    Inr (v, st\<lparr>pl_model := model\<rparr>)))"
  using assms by (simp add: fit_model_def Let_def nat_of_def)

lemma planned_floorplan:
  assumes "planner_ok m desc st" "npe_ok m e"
  obtains c flp stack k where "size_expr desc e st = Inr (int c, st\<lparr>pl_flp := flp, pl_stack := stack\<rparr>)"
    "c \<le> m - 1" "n_units flp = 2 * m - 1 - c" "length (units flp) = length (units (pl_flp st))"
    "wire_density flp = wire_density (pl_flp st)" "stack_inv stack" "stack_items stack = []"
    "flp_ok flp" "rows_ok (wire_density flp) k k" "2 * m - 1 \<le> k"
proof -
  have "\<forall>u < m. \<forall>k < shape_size (unit_shape (desc_units desc ! u)).
       0 \<le> shape_x (unit_shape (desc_units desc ! u)) ! k * shape_y (unit_shape (desc_units desc ! u)) ! k"
    using assms(1) curve_okD(4,5) by (fastforce simp: planner_ok_def desc_ok_def)
  from size_expr_ok [OF assms, of "\<lambda>_. 0", OF this] obtain c flp stack where
    s: "size_expr desc e st = Inr (int c, st\<lparr>pl_flp := flp, pl_stack := stack\<rparr>)" "c \<le> m - 1" "n_units flp = 2 * m - 1 - c"
      "length (units flp) = length (units (pl_flp st))" "wire_density flp = wire_density (pl_flp st)" "stack_inv stack"
      "stack_items stack = []"
    by blast
  have m: "0 < m" using assms(2) by (simp add: npe_ok_def polish_def)
  obtain k where k: "2 * m - 1 \<le> k" "rows_ok (wire_density (pl_flp st)) k k" "2 * m - 1 \<le> length (units (pl_flp st))"
    using assms(1) by (auto simp: planner_ok_def)
  have "flp_ok flp" using s m k(3) by (auto simp: flp_ok_def)
  moreover have "rows_ok (wire_density flp) k k" using k(2) s(5) by simp
  ultimately show thesis by (rule that [OF s]) (rule k(1))
qed

lemma evaluate_expr_ok:
  assumes st: "planner_ok m desc st" and e: "npe_ok m e"
  shows "ends_in (thermal_error dgssv fs gl fp desc pw e st) (\<lambda>(c, st'). planner_ok m desc st')
    (evaluate_expr dgssv fs gl fp desc False pw e st)"
proof -
  obtain c flp stack k where s: "size_expr desc e st = Inr (int c, st\<lparr>pl_flp := flp, pl_stack := stack\<rparr>)" and
    c: "c \<le> m - 1" "n_units flp = 2 * m - 1 - c" and
    f: "length (units flp) = length (units (pl_flp st))" "wire_density flp = wire_density (pl_flp st)" "stack_inv stack"
      "stack_items stack = []" and
    g: "flp_ok flp" "rows_ok (wire_density flp) k k" "2 * m - 1 \<le> k"
    by (rule planned_floorplan [OF st e])
  let ?st = "st\<lparr>pl_flp := flp, pl_stack := stack\<rparr>"
  have rim: "\<not> model_rim (desc_config desc)" "desc_n_units desc = m" using st by (simp_all add: planner_ok_def)
  have "flp_ok (pl_flp ?st)" "rows_ok (wire_density (pl_flp ?st)) k k" "n_units (pl_flp ?st) \<le> k" using g c by simp_all
  note stage = cost_of_stage [OF rim(1) this, of dgssv fs gl fp pw c]
  show ?thesis
  proof (cases "thermal_stage dgssv (fs(fp := flp)) gl fp (pl_model st) (pl_tpower st) pw (n_units flp) c")
    case (Inl er)
    then have "thermal_error dgssv fs gl fp desc pw e st er" unfolding thermal_error_def using s by blast
    then show ?thesis using s stage Inl by (simp add: evaluate_expr_def)
  next
    case (Inr x)
    then obtain t model v where x: "thermal_stage dgssv (fs(fp := flp)) gl fp (pl_model st) (pl_tpower st) pw (n_units flp) c =
        Inr (t, model, v)" by (cases x) auto
    have "roomy (2 * m - 1) k (flp\<lparr>n_units := 2 * m - 1\<rparr>)" using g st f by (simp add: roomy_def planner_ok_def)
    from restore_dead_blocks_ok [OF this c(2,1) rim(2), of "pl_rim_blocks st"] obtain flp' where
      r: "restore_dead_blocks flp desc (int c) False False (pl_rim_blocks st) = Inr flp'" "roomy (2 * m - 1) k flp'" by blast
    have "planner_ok m desc (?st\<lparr>pl_model := model, pl_tpower := v, pl_flp := flp'\<rparr>)"
      using st r(2) f(3,4) by (auto simp: planner_ok_def roomy_def)
    then show ?thesis using s stage x r(1) rim(1) by (simp add: evaluate_expr_def)
  qed
qed

interpretation planner: evaluator "evaluate_expr dgssv fs gl fp desc False pw" "planner_ok m desc" "\<lambda>st. n_units (pl_flp st)" m "2 * m - 1"
  for dgssv fs gl fp desc pw m
proof unfold_locales
  fix s e c s' assume "planner_ok m desc s" "npe_ok m e" "evaluate_expr dgssv fs gl fp desc False pw e s = Inr (c, s')"
  then show "planner_ok m desc s'" using evaluate_expr_ok [of m desc s e dgssv fs gl fp pw] by simp
qed (simp add: planner_ok_def)

lemma moves_reachable: "(npe_move m)\<^sup>*\<^sup>* (initial_elements m) es \<Longrightarrow> npe_reachable m es"
  by (induction rule: rtranclp_induct) (auto intro: npe_reachable.intros)

section \<open>The floorplanner\<close>

text \<open>The state of the evaluation before the first expression, without L2 and rim.\<close>

definition start_plan :: "flp_t \<Rightarrow> nat \<Rightarrow> RC_model_t \<Rightarrow> real list \<Rightarrow> planner_t" where
  "start_plan flp n model tpower = \<lparr>pl_flp = flp\<lparr>n_units := n\<rparr>, pl_model = model, pl_tpower = tpower,
     pl_stack = new_tree_node_stack, pl_rim_blocks = 0\<rparr>"

text \<open>The number of downhill moves at which a temperature is left, for \<open>m\<close> blocks.\<close>

definition tries :: "flp_config_t \<Rightarrow> nat \<Rightarrow> int" where
  "tries cfg m = c_trunc (Kmoves cfg * real (2 * m - 1))"

text \<open>
  The states of the search of \<open>floorplan\<close>: it starts from the initial expression and the caller's floorplan and
  model, with a vector of power of its own.
\<close>

definition plan_search :: "superlu \<Rightarrow> flp_store \<Rightarrow> leak_globals \<Rightarrow> (nat \<Rightarrow> int) \<Rightarrow> nat \<Rightarrow> flp_desc_t \<Rightarrow> RC_model_t \<Rightarrow> real list \<Rightarrow> nat \<Rightarrow>
    nat \<Rightarrow> nat \<Rightarrow> nat \<Rightarrow> nat \<Rightarrow> (NPE_t \<times> real) list \<Rightarrow> NPE_t \<Rightarrow> real \<Rightarrow> nat \<Rightarrow> planner_t \<Rightarrow> bool" where
  "plan_search dgssv fs gl rnd fp desc model pw m k i d j h e c r st \<longleftrightarrow> (\<exists>e0 tpower.
     NPE_get_initial m = Inr e0 \<and> hotspot_vector model = Inr tpower \<and>
     search (desc_config desc) (tries (desc_config desc) m) rnd (evaluate_expr dgssv fs gl fp desc False pw) e0
       (start_plan (fs fp) (n_units (fs fp)) model tpower) k i d j h e c r st)"

text \<open>
  The errors \<open>floorplan\<close> may stop with, each in the state of the search where it occurs: no vector for the
  model, the thermal model on the first expression, a move that gives up, the thermal model on the expression
  that a move leads to, and fitting the model to the final floorplan.
\<close>

definition plan_error :: "superlu \<Rightarrow> flp_store \<Rightarrow> leak_globals \<Rightarrow> (nat \<Rightarrow> int) \<Rightarrow> nat \<Rightarrow> flp_desc_t \<Rightarrow> RC_model_t \<Rightarrow> real list \<Rightarrow> nat \<Rightarrow> err \<Rightarrow> bool" where
  "plan_error dgssv fs gl rnd fp desc model pw m er \<longleftrightarrow> hotspot_vector model = Inl er \<or>
     (\<exists>e0 tpower. NPE_get_initial m = Inr e0 \<and> hotspot_vector model = Inr tpower \<and>
        thermal_error dgssv fs gl fp desc pw e0 (start_plan (fs fp) (n_units (fs fp)) model tpower) er) \<or>
     (\<exists>k i d j h e c r st. plan_search dgssv fs gl rnd fp desc model pw m k i d j h e c r st \<and>
        trying (desc_config desc) (tries (desc_config desc) m) k i d \<and>
        (make_random_move rnd e r = Inl er \<and> er = gives_up \<or>
         (\<exists>e' r'. make_random_move rnd e r = Inr (e', r') \<and> thermal_error dgssv fs gl fp desc pw e' st er))) \<or>
     (\<exists>k i d j h e c r st b cb. plan_search dgssv fs gl rnd fp desc model pw m k i d j h e c r st \<and>
        ended (desc_config desc) (tries (desc_config desc) m) k i d j \<and> cheapest m h b cb \<and> fit_error fs fp desc pw b st er)"

lemma floorplan_core:
  assumes "hotspot_vector model = Inr tpower" "wraps_l2 desc = Inr False" "\<not> model_rim (desc_config desc)"
    and "NPE_get_initial (desc_n_units desc) = Inr expr"
  shows "floorplan dgssv fs gl rnd fp desc model pw =
    rbind (anneal (desc_config desc) (evaluate_expr dgssv fs gl fp desc False pw) (\<lambda>st. n_units (pl_flp st)) rnd expr
      (start_plan (fs fp) (n_units (fs fp)) model tpower)) (\<lambda>a.
    rbind (size_expr desc (an_best a) (an_plan a)) (\<lambda>(compacted, st).
    rbind (fit_model fs fp desc False pw pw compacted st) (\<lambda>(pw, st).
    Inr (fs(fp := pl_flp st), desc, pl_model st, pw, int (n_units (fs fp)) - int (n_units (pl_flp st))))))"
  using assms by (simp add: floorplan_def Let_def nat_of_def start_plan_def)

lemma stops_error:
  assumes "planner.stops dgssv fs gl fp desc pw (desc_config desc) (tries (desc_config desc) m) rnd e0 s0 er"
    and "rand_ok rnd" "2 \<le> m" "npe_ok m e0" "planner_ok m desc s0"
    and "NPE_get_initial m = Inr e0" "hotspot_vector model = Inr tpower" "s0 = start_plan (fs fp) (n_units (fs fp)) model tpower"
  shows "plan_error dgssv fs gl rnd fp desc model pw m er"
proof -
  let ?ev = "evaluate_expr dgssv fs gl fp desc False pw" and ?cfg = "desc_config desc"
  have err: "thermal_error dgssv fs gl fp desc pw e st er" if "planner_ok m desc st" "npe_ok m e" "?ev e st = Inl er" for e st
    using evaluate_expr_ok [OF that(1,2), of dgssv fs gl fp pw] that(3) by simp
  consider "?ev e0 s0 = Inl er"
    | (move) k i d j h e c r s where "search ?cfg (tries ?cfg m) rnd ?ev e0 s0 k i d j h e c r s" "trying ?cfg (tries ?cfg m) k i d"
        "make_random_move rnd e r = Inl er"
    | (eval) k i d j h e c r s e' r' where "search ?cfg (tries ?cfg m) rnd ?ev e0 s0 k i d j h e c r s" "trying ?cfg (tries ?cfg m) k i d"
        "make_random_move rnd e r = Inr (e', r')" "?ev e' s = Inl er"
    using assms(1) unfolding planner.stops_def by blast
  then show ?thesis
  proof cases
    case 1
    from err [OF assms(5,4) this] have "\<exists>e0 tpower. NPE_get_initial m = Inr e0 \<and> hotspot_vector model = Inr tpower \<and>
        thermal_error dgssv fs gl fp desc pw e0 (start_plan (fs fp) (n_units (fs fp)) model tpower) er"
      using assms(6,7) unfolding assms(8) by (intro exI conjI)
    then show ?thesis unfolding plan_error_def by (intro disjI2 disjI1)
  next
    case move
    have p: "plan_search dgssv fs gl rnd fp desc model pw m k i d j h e c r s"
      unfolding plan_search_def using move(1) assms(6-8) by blast
    have "npe_ok m e" using planner.search_ok [OF move(1) assms(2-5)] by blast
    then have "er = gives_up" using random_move_ok [OF assms(2) _ assms(3), of e r] move(3) by simp
    then show ?thesis unfolding plan_error_def using p move(2,3) by blast
  next
    case eval
    have p: "plan_search dgssv fs gl rnd fp desc model pw m k i d j h e c r s"
      unfolding plan_search_def using eval(1) assms(6-8) by blast
    have ok: "planner_ok m desc s" "npe_ok m e" using planner.search_ok [OF eval(1) assms(2-5)] by blast+
    have "npe_ok m e'" using random_move_ok [OF assms(2) ok(2) assms(3), of r] eval(3) by auto
    from err [OF ok(1) this eval(4)] show ?thesis unfolding plan_error_def using p eval(2,3) by blast
  qed
qed

section \<open>An example run\<close>

text \<open>
  Two blocks of 10 mm by 10 mm and 10 mm by 5 mm on a chip with the block model of the default package, and a
  schedule of no steps: the floorplan is sized, measured, restored and sized again.
\<close>

definition slim :: "real \<Rightarrow> shape_t" where
  "slim h = \<lparr>shape_x = [1 / 100], shape_y = [h], left_pos = None, right_pos = None, median = None, shape_size = 1\<rparr>"

definition planned :: flp_desc_t where
  "planned = desc2\<lparr>desc_units := map (\<lambda>h. \<lparr>up_name = ''u'', rotable = False, unit_area = h / 100, min_aspect = 1,
      max_aspect = 1, unit_shape = slim h\<rparr>) [1 / 100, 1 / 200],
     desc_config := default_flp_config\<lparr>Nmax := 0\<rparr>\<rparr>"

definition spot :: "real \<Rightarrow> real \<Rightarrow> real \<Rightarrow> unit_t \<Rightarrow> unit_t" where
  "spot h l b u = u\<lparr>width := 1 / 100, height := h, leftx := l, bottomy := b\<rparr>"

definition put_spots :: "flp_t \<Rightarrow> flp_t" where
  "put_spots flp = flp\<lparr>units := (units flp)[0 := spot (1 / 100) 0 0 (units flp ! 0),
     1 := spot (1 / 200) (1 / 100) 0 (units flp ! 1), 2 := spot (1 / 200) (1 / 100) (1 / 200) (units flp ! 2)]\<rparr>"

lemma planned_ok: "desc_ok 2 planned" "desc_n_units planned = 2" "desc_config planned = default_flp_config\<lparr>Nmax := 0\<rparr>"
  by (auto simp: desc_ok_def planned_def desc2_def slim_def curve_ok_def less_2_cases_iff)

lemma planned_wraps: "wraps_l2 planned = Inr False" "\<not> model_rim (desc_config planned)"
  by (simp_all add: wraps_l2_def planned_ok default_flp_config_def nat_of_def)
    (simp add: planned_def desc2_def rd_def strcase_eq_def)

lemma planned_areas: "\<forall>u < 2. \<forall>k < shape_size (unit_shape (desc_units planned ! u)).
   1 / 20000 \<le> shape_x (unit_shape (desc_units planned ! u)) ! k * shape_y (unit_shape (desc_units planned ! u)) ! k"
  by (auto simp: planned_def desc2_def slim_def less_2_cases_iff)

lemma initial_two: "initial_elements 2 = elements npe2"
  by (simp add: initial_elements_def npe2_def initial_at_def upt_rec)

lemma one_leaf:
  assumes "postorder t = [x]" "tree_ok t" "0 \<le> x" "tree_of_desc d t"
  shows "t = TNode (unit_shape (desc_units d ! nat x)) x NULL_node NULL_node"
  using assms by (cases t) (auto split: if_splits)

lemma two_leaves:
  assumes "postorder t = elements npe2" "tree_ok t" "tree_of_desc planned t"
  shows "t = TNode (sum_curve (slim (1 / 100)) (slim (1 / 200)) CUT_VERTICAL) CUT_VERTICAL
    (TNode (slim (1 / 100)) 0 NULL_node NULL_node) (TNode (slim (1 / 200)) 1 NULL_node NULL_node)"
proof (cases t)
  case NULL_node
  then show ?thesis using assms by simp
next
  case (TNode c lb l r)
  have neg: "CUT_VERTICAL < 0" by (simp add: CUT_VERTICAL_def)
  have lb: "lb = CUT_VERTICAL" "postorder l @ postorder r = [0, 1]"
    using assms(1) TNode by (simp_all add: npe2_def)
  then have sub: "tree_ok l" "tree_ok r" "tree_of_desc planned l" "tree_of_desc planned r"
      "c = sum_curve (curve l) (curve r) CUT_VERTICAL"
    using assms(2,3) TNode neg by simp_all
  have ne: "postorder l \<noteq> []" "postorder r \<noteq> []" using sub(1,2) by (cases l; cases r; auto)+
  then have "postorder l = [0]" "postorder r = [1]" using lb(2) by (auto simp: append_eq_Cons_conv)
  then have "l = TNode (unit_shape (desc_units planned ! nat 0)) 0 NULL_node NULL_node"
    "r = TNode (unit_shape (desc_units planned ! nat 1)) 1 NULL_node NULL_node"
    using one_leaf [of l 0 planned] one_leaf [of r 1 planned] sub by simp_all
  then show ?thesis using TNode lb(1) sub(5) by (simp add: planned_def)
qed

definition joined :: shape_t where
  "joined = \<lparr>shape_x = [1 / 50], shape_y = [1 / 100], left_pos = Some [0], right_pos = Some [0], median = Some [1 / 100],
     shape_size = 1\<rparr>"

lemma joined_curve: "sum_curve (slim (1 / 100)) (slim (1 / 200)) CUT_VERTICAL = joined"
  by (simp add: sum_curve_def sum_positions_def slim_def Let_def walk.simps key_def joined_def entry_x_def entry_y_def
      entry_median_def operands_def)

abbreviation "wide_leaf \<equiv> TNode (slim (1 / 100)) 0 NULL_node NULL_node"
abbreviation "slim_leaf \<equiv> TNode (slim (1 / 200)) 1 NULL_node NULL_node"

lemma leaf_placed:
  assumes "0 \<le> x" "nat x < length (units flp)"
  shows "recursive_sizing (TNode (slim h) x l r) 0 lx by dc cd ra flp =
    Inr (dc, TNode (slim h) x l r, flp\<lparr>units := (units flp)[nat x := spot h lx by (units flp ! nat x)]\<rparr>)"
proof -
  have "rd (shape_x (slim h)) 0 = Inr (1 / 100)" "rd (shape_y (slim h)) 0 = Inr h" by (simp_all add: slim_def rd_def)
  then show ?thesis
    unfolding recursive_sizing.simps [of "TNode (slim h) x l r"] using assms by (simp add: spot_def)
qed

lemma cut_placed:
  assumes "n_units flp = 3" "3 \<le> length (units flp)"
  shows "size_vertical joined 0 wide_leaf slim_leaf 0 0 0 0 0 True (5 / 1000) flp =
    Inr (1, wide_leaf, slim_leaf, flp\<lparr>units := (units flp)[2 := spot (1 / 200) (1 / 100) (1 / 200) (units flp ! 2)]\<rparr>)"
  using assms
  by (simp add: size_vertical_def node_x_def node_y_def node_curve_def joined_def slim_def rd_def stretch_both_def widen_right_def
      compacts_def keep_or_absorb_def MAXd_def MINd_def fdiv_def Let_def spot_def upd_unit_def wr_def)

lemma sized_spots:
  assumes "n_units flp = 3" "3 \<le> length (units flp)"
  shows "tree_to_flp (TNode joined CUT_VERTICAL wide_leaf slim_leaf) flp True (5 / 1000) =
    Inr (0, TNode joined CUT_VERTICAL wide_leaf slim_leaf, put_spots flp)"
proof -
  have mp: "min_area_pos joined = Inr 0" by (simp add: min_area_pos_def joined_def res_simps)
  have lb: "\<not> 0 \<le> CUT_VERTICAL" by (simp add: CUT_VERTICAL_def)
  have j: "left_pos joined = Some [0]" "right_pos joined = Some [0]" "median joined = Some [1 / 100]" by (simp_all add: joined_def)
  obtain u0 u1 u2 us where u: "units flp = u0 # u1 # u2 # us"
    using assms(2) by (metis One_nat_def Suc_le_length_iff numeral_3_eq_3)
  have "recursive_sizing (TNode joined CUT_VERTICAL wide_leaf slim_leaf) 0 0 0 0 True (5 / 1000) flp =
      Inr (1, TNode joined CUT_VERTICAL wide_leaf slim_leaf, put_spots flp)"
    unfolding recursive_sizing.simps [of "TNode joined CUT_VERTICAL wide_leaf slim_leaf"]
    using lb cut_placed [OF assms]
    by (simp add: j rdo_def rd_def leaf_placed put_spots_def u)
  then show ?thesis using assms mp by (simp add: tree_to_flp_def node_curve_def c_div_def nat_of_def put_spots_def)
qed

lemma planned_sized:
  assumes "planner_ok 2 planned st" "npe_ok 2 e" "elements e = elements npe2"
  shows "\<exists>stack. size_expr planned e st = Inr (0, st\<lparr>pl_flp := put_spots (pl_flp st), pl_stack := stack\<rparr>)"
proof -
  have st: "stack_inv (pl_stack st)" "stack_items (pl_stack st) = []" "n_units (pl_flp st) = 3" "3 \<le> length (units (pl_flp st))"
    using assms(1) by (simp_all add: planner_ok_def)
  obtain t stack where t: "tree_from_NPE planned (pl_stack st) e = Inr (t, stack)" "postorder t = elements npe2" "tree_ok t"
      "tree_of_desc planned t"
    using tree_from_NPE_ok [OF assms(2) planned_ok(1) st(1,2)] npe2_fits assms(3) by auto
  have cr: "compact_ratio (desc_config planned) = 5 / 1000" by (simp add: planned_def default_flp_config_def)
  then show ?thesis
    using t(1) sized_spots [OF st(3,4)] two_leaves [OF t(2-4)] by (intro exI [of _ stack]) (simp add: size_expr_def cr joined_curve)
qed

text \<open>The block model of the example, and the floorplan that it is made for.\<close>

abbreviation "sized_model \<equiv> alloc_block_model (\<lambda>_. flp3) default_thermal_config 0"
abbreviation "spots \<equiv> put_spots flp3"

lemma spots_units: "units spots = [spot (1 / 100) 0 0 unit_zero, spot (1 / 200) (1 / 100) 0 unit_zero,
    spot (1 / 200) (1 / 100) (1 / 200) unit_zero]" "n_units spots = 3" "wire_density spots = replicate 3 (replicate 3 0)"
  by (simp_all add: put_spots_def flp3_def numeral_3_eq_3)

lemma sized_nodes: "bm_n_nodes sized_model = 24" "bm_n_units sized_model = 3" "bm_base_n_units sized_model = 3"
  "bm_config sized_model = default_thermal_config" "bm_flp sized_model = 0"
  by (simp_all add: alloc_block_model_def Let_def flp3_def layer_defs EXTRA_def)

lemma spots_chip: "chip_ok spots" "flp_ok spots"
  by (auto simp: chip_ok_def flp_ok_def spots_units spot_def numeral_3_eq_3 less_Suc_eq)

lemma spots_extent: "get_total_width spots = Inr (1 / 50)" "get_total_height spots = Inr (1 / 100)" "get_total_area spots = Inr (1 / 5000)"
  by (simp_all add: get_total_width_def get_total_height_def get_total_area_def spots_units spot_def res_simps rd_def numeral_3_eq_3)

lemma spots_fit: "fits default_thermal_config spots (1 / 50) (1 / 100)"
  unfolding fits_def using spots_chip spots_extent
  by (simp add: layers_ok_def default_thermal_config_def package_ok_def)

lemma spots_populated:
  fixes fs :: flp_store
  assumes "fs 0 = spots"
  shows "\<exists>b. populate_R_model_block fs sized_model 0 = Inr b \<and> R_ok fs b \<and> same_setting sized_model b"
proof -
  have same: "sized_model = alloc_block_model fs default_thermal_config 0"
    using assms by (simp add: alloc_block_model_def spots_units) (simp add: flp3_def)
  have ok: "package_ok default_thermal_config (1 / 50) (1 / 100)" using spots_fit by (simp add: fits_def)
  obtain pack where pack: "populate_package_R (bm_pack sized_model) default_thermal_config (1 / 50) (1 / 100) = Inr pack"
    using populate_package_R_ok [OF ok] by blast
  have "well_coupled default_thermal_config spots pack"
    unfolding well_coupled_def populate_package_R_values [OF ok pack]
    by (auto simp: spots_units slab_def area_of_def ambient_of_def default_thermal_config_def DELTA_def spot_def numeral_3_eq_3 less_Suc_eq)
  with populate_R_body [OF alloc_sized(1) [OF same], of "1 / 50" "1 / 100" pack] pack spots_fit assms
  show ?thesis by (auto simp: sized_nodes)
qed

lemma trim_returns:
  assumes "at_i + sz \<le> bm_n_nodes b" "bm_n_nodes b \<le> length src" "bm_n_nodes b \<le> length dst"
  shows "\<exists>v. trim_hotspot_vector_block b dst src at_i sz = Inr v \<and> length v = length dst \<and>
    (\<forall>x \<in> set v. x \<in> set src \<or> x \<in> set dst)"
proof -
  let ?I = "\<lambda>_::nat. \<lambda>v. length v = length dst \<and> set v \<subseteq> set src \<union> set dst"
  have up: "set (v[i := x]) \<subseteq> set src \<union> set dst" if "set v \<subseteq> set src \<union> set dst" "x \<in> set src" for v i x
    using set_update_subset_insert [of v i x] that by blast
  have "\<exists>v. for_up 0 (min at_i (bm_n_nodes b)) (\<lambda>i d. rbind (rd src i) (wr d i)) dst = Inr v \<and> ?I 0 v"
    by (rule for_up_rule [where I = ?I]) (use assms up in auto)
  then obtain v where v: "for_up 0 (min at_i (bm_n_nodes b)) (\<lambda>i d. rbind (rd src i) (wr d i)) dst = Inr v" "?I 0 v" by blast
  have "\<exists>w. for_up (at_i + sz) (bm_n_nodes b) (\<lambda>i d. rbind (rd src i) (wr d (i - sz))) v = Inr w \<and> ?I 0 w"
    by (rule for_up_rule [where I = ?I]) (use assms v(2) up in auto)
  with v(1) show ?thesis by (auto simp: trim_hotspot_vector_block_def)
qed

lemma max_temp_returns:
  assumes "bm_n_units b \<le> length t" "\<forall>i < bm_n_units b. 0 \<le> t ! i"
  shows "\<exists>x. find_max_temp_block b t = Inr x"
proof -
  have "\<exists>x. for_up 0 (bm_n_units b) (\<lambda>i mx. rbind (rd t i) (\<lambda>x.
     if x < 0 then Inl (Fatal ''negative temperature!'') else Inr (if mx < x then x else mx))) 0 = Inr x \<and> True"
    by (rule for_up_rule [where I = "\<lambda>_ _. True"]) (use assms in \<open>auto simp: not_less\<close>)
  then show ?thesis by (simp add: find_max_temp_block_def)
qed

definition planner_model :: RC_model_t where
  "planner_model = \<lparr>rc_union = Block_Model sized_model, rc_banks_nr = 0, rc_bank_modes = []\<rparr>"

lemma planner_resized: "resize_thermal_model fs planner_model 3 = Inr planner_model"
  by (simp add: resize_thermal_model_def planner_model_def resize_thermal_model_block_def sized_nodes Let_def)
    (simp add: alloc_block_model_def Let_def flp3_def resize_dmatrix_def dmatrix_def layer_defs EXTRA_def)

lemma metric_returns:
  fixes fs :: flp_store
  assumes "fs 0 = spots" "length pw = 24" "\<forall>x \<in> set pw. 0 \<le> x"
  shows "\<exists>c b pw'. flp_evaluate_metric dgssv fs gl 0 planner_model pw lA lT lW =
    Inr (c, planner_model\<lparr>rc_union := Block_Model b\<rparr>, pw') \<and> bm_base_n_units b = 3 \<and> bm_n_nodes b = 24 \<and> bm_n_units b = 3"
proof -
  obtain b where b: "populate_R_model_block fs sized_model 0 = Inr b" "R_ok fs b" "same_setting sized_model b"
    using spots_populated assms(1) by blast
  have nb: "bm_n_nodes b = 24" "bm_n_units b = 3" "bm_base_n_units b = 3" "bm_config b = default_thermal_config"
    using b(3) by (auto simp: same_setting_def sized_nodes)
  obtain p t where t: "steady_state_temp_block b pw (replicate 24 0) = Inr (p, t)" "in_balance b pw t"
    using steady_ok [OF b(2), of pw "replicate 24 0"] assms(2) nb(1) by auto
  have "0 \<le> t ! i" if "i < 24" for i
  proof -
    have "ambient default_thermal_config \<le> t ! i"
      using balance_above_ambient [OF b(2) t(2)] that assms(2,3) nb by auto
    then show ?thesis by (simp add: default_thermal_config_def)
  qed
  then have "\<forall>i < bm_n_units b. 0 \<le> t ! i" "bm_n_units b \<le> length t"
    using t(2) nb by (auto simp: in_balance_def)
  then obtain x where x: "find_max_temp_block b t = Inr x" using max_temp_returns by blast
  have w: "get_wire_metric spots = Inr (wire_sum spots)"
    by (rule get_wire_metric_ok [where N = 3]) (auto simp: spots_chip rows_ok_def spots_units)
  have "leakage_used default_thermal_config = 0" by (simp add: default_thermal_config_def)
  then show ?thesis
    using b(1) t(1) x nb w spots_extent assms(1)
    by (auto simp: flp_evaluate_metric_def hotspot_vector_def planner_model_def hotspot_vector_block_def sized_nodes dvector_def
        populate_R_model_def steady_state_temp_def find_max_temp_def Let_def)
qed

lemma cost_returns:
  fixes fs :: flp_store
  assumes "n_units (pl_flp st) = 3" "pl_flp st = spots" "pl_model st = planner_model" "length (pl_tpower st) = 24"
    "\<forall>x \<in> set (pl_tpower st). 0 \<le> x"
  shows "\<exists>c b st'. cost_of dgssv fs gl 0 planned False (replicate 24 1) 0 st = Inr (c, st') \<and> pl_flp st' = spots \<and> pl_stack st' = pl_stack st \<and>
    pl_model st' = planner_model\<lparr>rc_union := Block_Model b\<rparr> \<and> bm_base_n_units b = 3 \<and> bm_n_nodes b = 24 \<and> bm_n_units b = 3"
proof -
  obtain v where v: "trim_hotspot_vector_block sized_model (pl_tpower st) (replicate 24 1) 3 0 = Inr v" "length v = 24"
      "\<forall>x \<in> set v. x = 1 \<or> x \<in> set (pl_tpower st)"
    using trim_returns [of 3 0 sized_model "replicate 24 1" "pl_tpower st"] assms(4) by (auto simp: sized_nodes)
  have v0: "\<forall>x \<in> set v. 0 \<le> x" using v(3) assms(5) by auto
  have rim: "\<not> model_rim (desc_config planned)" by (simp add: planned_ok default_flp_config_def)
  let ?st = "st\<lparr>pl_flp := spots, pl_model := planner_model, pl_rim_blocks := pl_rim_blocks st\<rparr>"
  have fit: "fit_model fs 0 planned False (pl_tpower st) (replicate 24 1) 0 st = Inr (v, ?st)"
    using v(1) assms rim planner_resized [of "fs(0 := spots)"]
    by (simp add: fit_model_def Let_def nat_of_def trim_hotspot_vector_def) (simp add: planner_model_def)
  have M: "(fs(0 := spots)) 0 = spots" by simp
  obtain c b pw' where "flp_evaluate_metric dgssv (fs(0 := spots)) gl 0 planner_model v (lambdaA (desc_config planned))
        (lambdaT (desc_config planned)) (lambdaW (desc_config planned)) =
      Inr (c, planner_model\<lparr>rc_union := Block_Model b\<rparr>, pw')" "bm_base_n_units b = 3" "bm_n_nodes b = 24" "bm_n_units b = 3"
    using metric_returns [where fs = "fs(0 := spots)", OF M v(2) v0] by blast
  with fit show ?thesis by (simp add: cost_of_def Let_def) (rule exI [of _ b], simp)
qed

lemma put_spots_room: "roomy 3 3 flp \<Longrightarrow> roomy 3 3 (put_spots flp)"
  by (simp add: roomy_def put_spots_def)

abbreviation "planned_start \<equiv> start_plan flp3 3 planner_model (replicate 24 0)"

definition solved_model :: "RC_model_t \<Rightarrow> bool" where
  "solved_model model \<longleftrightarrow> (\<exists>b. model = planner_model\<lparr>rc_union := Block_Model b\<rparr> \<and> bm_base_n_units b = 3 \<and> bm_n_nodes b = 24 \<and> bm_n_units b = 3)"

lemma flp3_room: "flp3\<lparr>n_units := 3\<rparr> = flp3" "n_units flp3 = 3" "roomy 3 3 flp3"
  by (simp_all add: flp3_def roomy_def rows_ok_def)

lemma planned_start_ok: "planner_ok 2 planned planned_start"
  using planned_ok new_stack_ok flp3_room planned_wraps(2)
  by (auto simp: planner_ok_def start_plan_def roomy_def MAX_STACK_def)

lemma planned_eval:
  assumes "npe_ok 2 e" "elements e = elements npe2"
  shows "\<exists>c st. evaluate_expr dgssv (\<lambda>_. flp3) gl 0 planned False (replicate 24 1) e planned_start = Inr (c, st) \<and>
    planner_ok 2 planned st \<and> solved_model (pl_model st)"
proof -
  let ?fs = "\<lambda>_ :: nat. flp3"
  obtain stack where s1: "size_expr planned e planned_start = Inr (0, planned_start\<lparr>pl_flp := spots, pl_stack := stack\<rparr>)"
    using planned_sized [OF planned_start_ok assms] by (auto simp: start_plan_def flp3_room)
  obtain c st1 where c1: "cost_of dgssv ?fs gl 0 planned False (replicate 24 1) 0 (planned_start\<lparr>pl_flp := spots, pl_stack := stack\<rparr>) = Inr (c, st1)"
      "pl_flp st1 = spots" "solved_model (pl_model st1)"
    using cost_returns [of "planned_start\<lparr>pl_flp := spots, pl_stack := stack\<rparr>" dgssv ?fs gl]
    by (auto simp: start_plan_def spots_units solved_model_def)
  have "roomy (2 * 2 - 1) 3 (spots\<lparr>n_units := 2 * 2 - 1\<rparr>)" using put_spots_room [OF flp3_room(3)] by (simp add: roomy_def)
  from restore_dead_blocks_ok [OF this, of 0 planned "pl_rim_blocks st1"] obtain flp' where
    r1: "restore_dead_blocks spots planned 0 False False (pl_rim_blocks st1) = Inr flp'"
    by (auto simp: spots_units planned_ok)
  have ev: "evaluate_expr dgssv ?fs gl 0 planned False (replicate 24 1) e planned_start = Inr (c, st1\<lparr>pl_flp := flp'\<rparr>)"
    using s1 c1(1,2) r1 planned_wraps(2) by (simp add: evaluate_expr_def)
  then have "planner_ok 2 planned (st1\<lparr>pl_flp := flp'\<rparr>)"
    using evaluate_expr_ok [OF planned_start_ok assms(1), of dgssv ?fs gl 0 "replicate 24 1"] by simp
  with ev c1(3) show ?thesis by auto
qed

lemma planned_fit:
  assumes "planner_ok 2 planned st" "solved_model (pl_model st)" "npe_ok 2 e" "elements e = elements npe2"
  shows "\<exists>flp stack v model. size_expr planned e st = Inr (0, st\<lparr>pl_flp := flp, pl_stack := stack\<rparr>) \<and> n_units flp = 3 \<and>
    trim_hotspot_vector (pl_model st) (replicate 24 1) (replicate 24 1) 3 0 = Inr v \<and> (\<forall>fs. resize_thermal_model fs (pl_model st) 3 = Inr model)"
proof -
  obtain stack where s: "size_expr planned e st = Inr (0, st\<lparr>pl_flp := put_spots (pl_flp st), pl_stack := stack\<rparr>)"
    using planned_sized [OF assms(1,3,4)] by blast
  have n: "n_units (put_spots (pl_flp st)) = 3" using assms(1) by (simp add: put_spots_def planner_ok_def)
  obtain b where b: "pl_model st = planner_model\<lparr>rc_union := Block_Model b\<rparr>" "bm_base_n_units b = 3" "bm_n_nodes b = 24"
    using assms(2) by (auto simp: solved_model_def)
  obtain v where v: "trim_hotspot_vector_block b (replicate 24 1) (replicate 24 1) 3 0 = Inr v"
    using trim_returns [of 3 0 b "replicate 24 1" "replicate 24 1"] b(3) by auto
  have "\<exists>model. \<forall>fs. resize_thermal_model fs (pl_model st) 3 = Inr model"
    using b by (simp add: resize_thermal_model_def resize_thermal_model_block_def Let_def)
  moreover have "trim_hotspot_vector (pl_model st) (replicate 24 1) (replicate 24 1) 3 0 = Inr v"
    using v b(1) by (simp add: trim_hotspot_vector_def)
  ultimately show ?thesis using s n by blast
qed

lemma planned_vector: "hotspot_vector planner_model = Inr (replicate 24 0)"
  by (simp add: hotspot_vector_def planner_model_def hotspot_vector_block_def sized_nodes dvector_def)

lemma planned_initial:
  obtains e where "NPE_get_initial 2 = Inr e" "npe_ok 2 e" "elements e = elements npe2"
  using get_initial_ok [of 2] initial_two by auto

text \<open>The whole run: nothing is compacted away.\<close>

lemma planned_run:
  "\<exists>fs' model' pw'. floorplan dgssv (\<lambda>_. flp3) gl (\<lambda>_. 0) 0 planned planner_model (replicate 24 1) = Inr (fs', planned, model', pw', 0)"
proof -
  let ?fs = "\<lambda>_ :: nat. flp3"
  let ?ev = "evaluate_expr dgssv ?fs gl 0 planned False (replicate 24 1)"
  obtain e where e: "NPE_get_initial 2 = Inr e" "npe_ok 2 e" "elements e = elements npe2" by (rule planned_initial)
  obtain e' where e': "NPE_duplicate e = Inr e'" "npe_ok 2 e'" "elements e' = elements npe2"
    using NPE_duplicate_ok [OF e(2)] e(3) by auto
  obtain c st where ev: "?ev e planned_start = Inr (c, st)" "planner_ok 2 planned st" "solved_model (pl_model st)"
    using planned_eval [OF e(2,3)] by blast
  obtain flp stack v model where f: "size_expr planned e' st = Inr (0, st\<lparr>pl_flp := flp, pl_stack := stack\<rparr>)" "n_units flp = 3"
    "trim_hotspot_vector (pl_model st) (replicate 24 1) (replicate 24 1) 3 0 = Inr v" "\<And>fs. resize_thermal_model fs (pl_model st) 3 = Inr model"
    using planned_fit [OF ev(2,3) e'(2,3)] by blast
  have lg: "c_log (P0 (desc_config planned)) = Inr (ln (99 / 100))" "c_log ((1 - Rreject (desc_config planned)) / 2) = Inr (ln (1 / 200))"
    "Nmax (desc_config planned) = 0"
    by (simp_all add: planned_ok default_flp_config_def c_log_def)
  have "\<exists>a. anneal (desc_config planned) ?ev (\<lambda>st. n_units (pl_flp st)) (\<lambda>_. 0) e planned_start = Inr a \<and> an_best a = e' \<and> an_plan a = st"
    using ev(1) e'(1) lg by (simp add: anneal_def fdiv_def anneal_steps.simps)
  then show ?thesis
    using floorplan_core [OF planned_vector planned_wraps, of e dgssv ?fs gl "\<lambda>_. 0" 0 "replicate 24 1"] e(1) f flp3_room planned_ok(2)
      fit_model_core [OF planned_wraps(2), of ?fs 0 "replicate 24 1" 0 "st\<lparr>pl_flp := flp, pl_stack := stack\<rparr>"]
    by auto
qed

text \<open>An error of the thermal model is an error of the evaluation.\<close>

lemma thermal_error_evaluates:
  assumes "thermal_error dgssv fs gl fp desc pw e st er" "planner_ok m desc st" "npe_ok m e"
  shows "evaluate_expr dgssv fs gl fp desc False pw e st = Inl er"
proof -
  obtain c flp stack k where s: "size_expr desc e st = Inr (int c, st\<lparr>pl_flp := flp, pl_stack := stack\<rparr>)" and
    c: "n_units flp = 2 * m - 1 - c" and g: "flp_ok flp" "rows_ok (wire_density flp) k k" "2 * m - 1 \<le> k"
    by (rule planned_floorplan [OF assms(2,3)])
  obtain c' flp' stack' where "size_expr desc e st = Inr (int c', st\<lparr>pl_flp := flp', pl_stack := stack'\<rparr>)"
      and t: "thermal_stage dgssv (fs(fp := flp')) gl fp (pl_model st) (pl_tpower st) pw (n_units flp') c' = Inl er"
    using assms(1) by (auto simp: thermal_error_def)
  with s have eq: "int c' = int c" "st\<lparr>pl_flp := flp', pl_stack := stack'\<rparr> = st\<lparr>pl_flp := flp, pl_stack := stack\<rparr>" by simp_all
  have "c' = c" "flp' = flp" using eq(1) arg_cong [OF eq(2), of pl_flp] by simp_all
  with t have t: "thermal_stage dgssv (fs(fp := flp)) gl fp (pl_model st) (pl_tpower st) pw (n_units flp) c = Inl er" by simp
  have rim: "\<not> model_rim (desc_config desc)" using assms(2) by (simp add: planner_ok_def)
  have "flp_ok (pl_flp (st\<lparr>pl_flp := flp, pl_stack := stack\<rparr>))" "rows_ok (wire_density (pl_flp (st\<lparr>pl_flp := flp, pl_stack := stack\<rparr>))) k k"
    "n_units (pl_flp (st\<lparr>pl_flp := flp, pl_stack := stack\<rparr>)) \<le> k" using g c by simp_all
  from cost_of_stage [OF rim this, of dgssv fs gl fp pw c] t s show ?thesis by (simp add: evaluate_expr_def)
qed

text \<open>The search of the example has one state, and no error occurs in it.\<close>

lemma planned_search:
  assumes "search (desc_config planned) n rnd ev e0 s0 k i d j h e c r s"
  shows "k = 0 \<and> i = 0 \<and> d = 0 \<and> j = 0 \<and> h = [(e0, c)] \<and> e = e0 \<and> ev e0 s0 = Inr (c, s)"
  using assms by (induction rule: search.induct) (auto simp: trying_def warm_def planned_ok)

lemma planned_no_error: "\<not> plan_error dgssv (\<lambda>_. flp3) gl rnd 0 planned planner_model (replicate 24 1) 2 er"
proof
  let ?fs = "\<lambda>_ :: nat. flp3"
  let ?ev = "evaluate_expr dgssv ?fs gl 0 planned False (replicate 24 1)"
  assume "plan_error dgssv ?fs gl rnd 0 planned planner_model (replicate 24 1) 2 er"
  moreover obtain e where e: "NPE_get_initial 2 = Inr e" "npe_ok 2 e" "elements e = elements npe2" by (rule planned_initial)
  moreover obtain c st where ev: "?ev e planned_start = Inr (c, st)" "planner_ok 2 planned st" "solved_model (pl_model st)"
    using planned_eval [OF e(2,3)] by blast
  moreover have "\<not> thermal_error dgssv ?fs gl 0 planned (replicate 24 1) e planned_start er"
    using thermal_error_evaluates [OF _ planned_start_ok e(2), of dgssv ?fs gl 0 "replicate 24 1" er] ev(1) by auto
  moreover have "\<not> trying (desc_config planned) n k i d" for n k i d by (simp add: trying_def warm_def planned_ok)
  moreover have "\<not> fit_error ?fs 0 planned (replicate 24 1) b st er" if "cheapest 2 [(e, c)] b cb" for b cb
  proof -
    have b: "npe_ok 2 b" "elements b = elements npe2" using that e(3) by (auto simp: cheapest_def)
    obtain flp stack v model where f: "size_expr planned b st = Inr (0, st\<lparr>pl_flp := flp, pl_stack := stack\<rparr>)" "n_units flp = 3"
      "trim_hotspot_vector (pl_model st) (replicate 24 1) (replicate 24 1) 3 0 = Inr v" "\<And>fs. resize_thermal_model fs (pl_model st) 3 = Inr model"
      using planned_fit [OF ev(2,3) b] by blast
    have "c' = 0 \<and> flp' = flp" if "size_expr planned b st = Inr (int c', st\<lparr>pl_flp := flp', pl_stack := stack'\<rparr>)" for c' flp' stack'
    proof -
      have eq: "int c' = 0" "st\<lparr>pl_flp := flp', pl_stack := stack'\<rparr> = st\<lparr>pl_flp := flp, pl_stack := stack\<rparr>" using that f(1) by simp_all
      show ?thesis using eq(1) arg_cong [OF eq(2), of pl_flp] by simp
    qed
    then show ?thesis using f(2-4) by (fastforce simp: fit_error_def)
  qed
  ultimately show False
    using planned_search by (fastforce simp: plan_error_def plan_search_def planned_vector flp3_room)
qed

section \<open>An acceptance probability of one\<close>

text \<open>
  The check of the configuration accepts \<open>P0 = 1\<close>, but the first temperature is then a quotient by
  \<open>log(1)\<close>, which is 0.
\<close>

lemma certain_acceptance_stops:
  assumes "P0 cfg = 1" "ev e s = Inr (c, s')" "npe_ok m e"
  shows "check_flp_config (default_flp_config\<lparr>P0 := 1\<rparr>) = Inr (default_flp_config\<lparr>P0 := 1\<rparr>)"
    and "anneal cfg ev n_of rnd e s = Inl NonFinite"
proof -
  show "check_flp_config (default_flp_config\<lparr>P0 := 1\<rparr>) = Inr (default_flp_config\<lparr>P0 := 1\<rparr>)"
    by (simp add: check_flp_config_def default_flp_config_def)
  obtain b where "NPE_duplicate e = Inr b" using NPE_duplicate_ok [OF assms(3)] by blast
  then show "anneal cfg ev n_of rnd e s = Inl NonFinite" using assms by (simp add: anneal_def c_log_def fdiv_def)
qed

section \<open>Property\<close>

text \<open>
  C3: \<open>floorplan\<close>, for two or more units without L2 and rim, is simulated annealing over normalized Polish
  expressions. It runs the search \<open>search\<close> from the initial expression and the caller's model to its end,
  after at most \<open>1 + Nmax * 2 * tries\<close> evaluations, and returns the floorplan sized for an expression of the
  least cost among all that this search evaluated, with the model and the power fitted to it. Moves reach the
  expression from the initial one; the units tile a rectangle of the least area it allows, every block has its
  required area, and at most \<open>m - 1\<close> blocks are compacted away. Otherwise it stops with an error that occurs in
  a state of this search: a random move gives up, or a call of the thermal model stops. The tree stack never
  overflows, and sizing, area, wires and the restoration of blocks never fail.
\<close>

theorem floorplan_finds_best:
  assumes "rand_ok rnd" "desc_ok m desc" "desc_n_units desc = m" "2 \<le> m" "m \<le> MAX_STACK"
    and "schedule_ok (desc_config desc)" "wraps_l2 desc = Inr False" "\<not> model_rim (desc_config desc)"
    and "n_units (fs fp) = 2 * m - 1" "2 * m - 1 \<le> length (units (fs fp))" "2 * m - 1 \<le> k" "rows_ok (wire_density (fs fp)) k k"
    and A: "\<forall>u < m. \<forall>k < shape_size (unit_shape (desc_units desc ! u)).
       A u \<le> shape_x (unit_shape (desc_units desc ! u)) ! k * shape_y (unit_shape (desc_units desc ! u)) ! k"
  shows "case floorplan dgssv fs gl rnd fp desc model pw of
      Inl er \<Rightarrow> plan_error dgssv fs gl rnd fp desc model pw m er
    | Inr (fs', desc', model', pw', compacted) \<Rightarrow> desc' = desc \<and> fs' = fs(fp := fs' fp) \<and>
        0 \<le> compacted \<and> compacted \<le> int m - 1 \<and> int (n_units (fs' fp)) = 2 * int m - 1 - compacted \<and>
        (\<exists>k i d j h e c r st b cb stack. plan_search dgssv fs gl rnd fp desc model pw m k i d j h e c r st \<and>
           ended (desc_config desc) (tries (desc_config desc) m) k i d j \<and>
           length h \<le> 1 + nat (Nmax (desc_config desc)) * nat (2 * tries (desc_config desc) m) \<and>
           cheapest m h b cb \<and> npe_reachable m (elements b) \<and>
           size_expr desc b st = Inr (compacted, st\<lparr>pl_flp := fs' fp, pl_stack := stack\<rparr>) \<and>
           best_placed A m desc (elements b) (fs' fp) \<and>
           trim_hotspot_vector (pl_model st) pw pw (n_units (fs' fp)) (nat compacted) = Inr pw' \<and>
           resize_thermal_model (fs(fp := fs' fp)) (pl_model st) (n_units (fs' fp)) = Inr model')"
proof (cases "hotspot_vector model")
  case (Inl er)
  then show ?thesis by (simp add: floorplan_def Let_def plan_error_def)
next
  case (Inr tpower)
  let ?ev = "evaluate_expr dgssv fs gl fp desc False pw" and ?cfg = "desc_config desc"
  let ?st = "start_plan (fs fp) (n_units (fs fp)) model tpower" and ?n = "tries (desc_config desc) m"
  obtain e0 where e: "NPE_get_initial m = Inr e0" "npe_ok m e0" "elements e0 = initial_elements m"
    using get_initial_ok [of m] assms(4) by auto
  have st: "planner_ok m desc ?st"
    using assms new_stack_ok by (auto simp: planner_ok_def start_plan_def)
  note core = floorplan_core [OF Inr assms(7,8), of e0 dgssv fs gl rnd fp pw, unfolded assms(3), OF e(1)]
  note an = planner.anneal_ok [OF assms(1,4) e(2) st assms(6) tries_def, of dgssv fs gl fp pw]
  show ?thesis
  proof (cases "anneal ?cfg ?ev (\<lambda>st. n_units (pl_flp st)) rnd e0 ?st")
    case (Inl er)
    then have "plan_error dgssv fs gl rnd fp desc model pw m er"
      using stops_error [where fs = fs and fp = fp, OF _ assms(1,4) e(2) st e(1) \<open>hotspot_vector model = Inr tpower\<close> refl] an by simp
    then show ?thesis using Inl core by simp
  next
    case (Inr a)
    then obtain k i d j h where s: "search ?cfg ?n rnd ?ev e0 ?st k i d j h (an_expr a) (an_cost a) (an_rand a) (an_plan a)"
        "ended ?cfg ?n k i d j" "cheapest m h (an_best a) (an_best_cost a)"
      using an by auto
    have p: "plan_search dgssv fs gl rnd fp desc model pw m k i d j h (an_expr a) (an_cost a) (an_rand a) (an_plan a)"
      unfolding plan_search_def using s(1) e(1) \<open>hotspot_vector model = Inr tpower\<close> by blast
    note ok = planner.search_ok [OF s(1) assms(1,4) e(2) st]
    have b: "npe_ok m (an_best a)" "npe_reachable m (elements (an_best a))"
      using s(3) ok e(3) moves_reachable by (auto simp: cheapest_def)
    obtain c flp stack where f: "size_expr desc (an_best a) (an_plan a) = Inr (int c, (an_plan a)\<lparr>pl_flp := flp, pl_stack := stack\<rparr>)"
      "c \<le> m - 1" "n_units flp = 2 * m - 1 - c" "best_placed A m desc (elements (an_best a)) flp"
      using size_expr_ok [OF _ b(1) A, of "an_plan a"] ok by blast
    note fit = fit_model_core [OF assms(8), of fs fp pw c "(an_plan a)\<lparr>pl_flp := flp, pl_stack := stack\<rparr>", simplified]
    have run: "floorplan dgssv fs gl rnd fp desc model pw = rbind (trim_hotspot_vector (pl_model (an_plan a)) pw pw (n_units flp) c) (\<lambda>v.
        rbind (resize_thermal_model (fs(fp := flp)) (pl_model (an_plan a)) (n_units flp)) (\<lambda>model.
        Inr (fs(fp := flp), desc, model, v, int (n_units (fs fp)) - int (n_units flp))))"
      using core Inr f(1) fit by (simp add: rbind_assoc)
    have comp: "int (n_units (fs fp)) - int (n_units flp) = int c" using f(2,3) assms(4,9) by simp
    have fail: "plan_error dgssv fs gl rnd fp desc model pw m er" if "fit_error fs fp desc pw (an_best a) (an_plan a) er" for er
      unfolding plan_error_def using p s(2,3) that by (intro disjI2) blast
    show ?thesis
    proof (cases "trim_hotspot_vector (pl_model (an_plan a)) pw pw (n_units flp) c")
      case (Inl er)
      then have "fit_error fs fp desc pw (an_best a) (an_plan a) er" unfolding fit_error_def using f(1) by blast
      then show ?thesis using run Inl fail by simp
    next
      case v: (Inr v)
      show ?thesis
      proof (cases "resize_thermal_model (fs(fp := flp)) (pl_model (an_plan a)) (n_units flp)")
        case (Inl er)
        then have "fit_error fs fp desc pw (an_best a) (an_plan a) er"
          unfolding fit_error_def using f(1) v by (intro exI [of _ c] exI [of _ flp] exI [of _ stack]) simp
        then show ?thesis using run v Inl fail by simp
      next
        case md: (Inr md)
        have "floorplan dgssv fs gl rnd fp desc model pw = Inr (fs(fp := flp), desc, md, v, int c)"
          using run v md comp by simp
        moreover have "int (n_units flp) = 2 * int m - 1 - int c" "int c \<le> int m - 1" using f(2,3) assms(4) by auto
        moreover have "length h \<le> 1 + nat (Nmax ?cfg) * nat (2 * ?n)" by (rule search_length [OF s(1)])
        ultimately show ?thesis
          using p s(2,3) b(2) f(1,4) v md by (simp del: One_nat_def) blast
      qed
    qed
  qed
qed

lemma floorplan_finds_best_witness:
  "\<exists>fs' model' pw'. floorplan (\<lambda>_ b. b) (\<lambda>_. flp3) \<lparr>leakage_on = [], volt = []\<rparr> (\<lambda>_. 0) 0 planned planner_model (replicate 24 1) =
      Inr (fs', planned, model', pw', 0) \<and>
    (\<exists>es. npe_reachable 2 es \<and> best_placed (\<lambda>_. 1 / 20000) 2 planned es (fs' 0)) \<and> n_units (fs' 0) = 3 \<and>
    (\<forall>er. \<not> plan_error (\<lambda>_ b. b) (\<lambda>_. flp3) \<lparr>leakage_on = [], volt = []\<rparr> (\<lambda>_. 0) 0 planned planner_model (replicate 24 1) 2 er)"
proof -
  let ?gl = "\<lparr>leakage_on = [], volt = []\<rparr>"
  obtain fs' model' pw' where r: "floorplan (\<lambda>_ b. b) (\<lambda>_. flp3) ?gl (\<lambda>_. 0) 0 planned planner_model (replicate 24 1) =
      Inr (fs', planned, model', pw', 0)"
    using planned_run by blast
  have "rand_ok (\<lambda>_. 0)" by (simp add: rand_ok_def RAND_MAX_def)
  moreover have "schedule_ok (desc_config planned)" by (simp add: schedule_ok_def planned_ok default_flp_config_def)
  ultimately show ?thesis
    using floorplan_finds_best [where rnd = "\<lambda>_. 0" and desc = planned and m = 2 and fs = "\<lambda>_. flp3" and fp = 0 and k = 3 and
        A = "\<lambda>_. 1 / 20000" and dgssv = "\<lambda>_ b. b" and gl = ?gl and model = planner_model and pw = "replicate 24 1"]
      planned_ok(1,2) planned_areas planned_wraps r planned_no_error
    by (auto simp: flp3_def rows_ok_def MAX_STACK_def)
qed

end
