(* ===== verification/Spec2Isabelle.thy ===== *)
theory Spec2Isabelle
  imports NPE_Props Slicing_Props Shape_Aspect Flp_Props Util_Strings Util_Search LUP_Props Config_Props Block_Vectors RK4_Retry Grid_Column Relax_Props Leakage_Props Anneal_Props
begin

text \<open>
  A model of the thermal tool HotSpot as it is used by this repository (\<open>src/hotspot_tool\<close>) and
  the properties that make it correct.

  \<^bold>\<open>The program.\<close> HotSpot places the blocks of a chip and computes their temperatures. The
  floorplanner (\<open>hotfloorplan.c\<close>) reads a description of blocks with areas and aspect ratios
  (\<open>flp_desc.c\<close>), makes a shape curve for every block (\<open>shape.c\<close>), and anneals over normalized
  Polish expressions (\<open>npe.c\<close>): each candidate expression becomes a slicing tree, the tree a sized
  floorplan (\<open>shape.c\<close>), and the floorplan, with the L2 cache and the rim wrapped around it
  (\<open>flp.c\<close>), is given a cost by area, wire length and temperature. The temperatures come from
  RC models of the chip and its package (\<open>temperature*.c\<close>, \<open>RCutil.c\<close>, \<open>package.c\<close>), which
  \<open>hotspot.c\<close> also runs on fixed floorplans. \<open>util.c\<close> holds what all of them share.

  \<^bold>\<open>Outcomes.\<close> A call that may stop the program returns \<open>'a res\<close>: \<open>Inr\<close> a value or \<open>Inl\<close> an error,
  which is \<open>Fatal\<close> with the message for a call of \<open>fatal\<close> and \<open>OutOfBounds\<close> for an access outside
  an array or through a null pointer, which C leaves undefined: a theorem that gives a value
  shows that there is none. \<open>rbind\<close> runs one call after another, \<open>rd\<close> and \<open>wr\<close> read and write an
  array, and \<open>for_up\<close> is the counting loop (theory \<open>Prelude\<close>, with its invariant rule). Arrays
  are lists, structs are records with the fields of the source, doubles are real numbers with
  exact arithmetic, the comparisons with tolerance keeping their tolerance, and
  \<open>unsigned char\<close> flags are words of eight bits. The results of \<open>rand()\<close> are a parameter, a
  stream with the index of the next element passed through the calls.

  \<^bold>\<open>Theories and code.\<close>
  \<^item> \<open>Prelude\<close>: outcomes, arrays, loops, constants of \<open>util.h\<close>, shared lemmas.
  \<^item> \<open>Util_Base\<close>: scalars, vectors, matrices, random numbers, searching, from \<open>util.c\<close>;
    \<open>Util_Strings\<close>: string tables and the command line; \<open>Util_Search\<close>: binary search and insertion;
    \<open>Scan\<close>: the conversions \<open>%d\<close>, \<open>%lf\<close>, \<open>%s\<close> of \<open>sscanf\<close> and \<open>sprintf\<close> that the source uses.
  \<^item> \<open>NPE\<close>: \<open>npe.c\<close>, with \<open>NPE_Inv\<close> (the invariant of an expression and what the \<open>fill_\<close> functions
    compute), \<open>NPE_Moves\<close> (the moves M1, M2, M3), \<open>NPE_Search\<close>, \<open>NPE_Random\<close> (the random move and its
    abstract move relation) and \<open>NPE_Props\<close>.
  \<^item> \<open>Flp_Types\<close>: the types of \<open>flp.h\<close> and \<open>shape.h\<close>; \<open>Shape\<close>: shape curves, with \<open>Shape_Add\<close> (what
    \<open>shape_add\<close> computes) and \<open>Shape_Aspect\<close>; \<open>Slicing\<close>: the node stack, \<open>tree_from_NPE\<close>,
    \<open>recursive_sizing\<close> and \<open>tree_to_flp\<close>, with \<open>Slicing_Tree\<close> (the interface of a bounded stack as a
    locale and its interpretation), \<open>Node_Setter\<close> (the interface of the two in-place setters,
    interpreted in \<open>Slicing_Size\<close>) and \<open>Slicing_Props\<close>.
  \<^item> \<open>Flp\<close> and \<open>Flp_Place\<close>: \<open>flp.c\<close>, with \<open>Flp_Geom\<close> (when units tile a rectangle, extents and maps of blocks), \<open>Flp_Motion\<close> (adjacency, motions), \<open>Flp_Wrap\<close> and \<open>Flp_Props\<close>.
  \<^item> \<open>Linear\<close> and \<open>RK4\<close>: \<open>RCutil.c\<close> as compiled without a vendor library, the dense solver and the
    adaptive Runge Kutta solver. \<open>LUP\<close>, \<open>LUP_Props\<close> and \<open>LUP_Cond\<close> show what the decomposition
    computes, in general and on conductance matrices; \<open>RK4\<close> states the interface of a slope
    function as a locale and, on it, a Lipschitz field as an extension; both are interpreted in
    \<open>Block_Transient\<close> on the slope function of the block model.
  \<^item> \<open>Thermal_Config\<close>: the configuration of \<open>temperature.c\<close>, with \<open>Config_Props\<close>;
    \<open>Thermal_Types\<close> and \<open>Package_RC\<close>: the types of \<open>temperature.h\<close> and the resistances and
    capacitances of the package.
  \<^item> \<open>Block\<close> and \<open>Block_Ops\<close>: \<open>temperature_block.c\<close>. \<open>Block_Net\<close>, \<open>Block_Frame\<close>, \<open>Block_Matrix\<close> and \<open>Block_R\<close>
    follow \<open>populate_R_model_block\<close> to the invariant \<open>R_ok\<close>; \<open>Block_C\<close> follows
    \<open>populate_C_model_block\<close> to \<open>C_ok\<close>; \<open>Block_Transient\<close> holds the facts on the steady
    state and the transient solver, \<open>Block_Props\<close>, \<open>Block_Vectors\<close> and \<open>RK4_Retry\<close> the properties.
    The pointer to the floorplan is an index into a store of floorplans, because the code compares it.
  \<^item> \<open>Grid_Types\<close>, \<open>Grid_Map\<close>, \<open>Grid_Layers\<close> and \<open>Grid_Ops\<close>: \<open>temperature_grid.c\<close>. Layers may share their maps
    between blocks and cells, so the model of the grid holds a store of maps and a layer an address.
    \<open>Grid_Cover\<close> (what part of a cell a block covers), \<open>Grid_Map_Ok\<close> (what \<open>set_bgmap\<close> makes) and
    \<open>Grid_Setup\<close> (allocation and \<open>populate_R_model_grid\<close> with the default stack) lead to \<open>Grid_Power\<close>,
    \<open>Grid_Temp\<close>, \<open>Grid_Multi\<close> and \<open>Grid_Props\<close>, the properties of the translations between vectors of
    blocks and of cells and of the operators of the multigrid solver.
  \<^item> \<open>Grid_Matrix\<close>: the coordinate arrays and the rows that \<open>build_steady_grid_matrix\<close>
    and \<open>build_transient_grid_matrix\<close> write; \<open>Csc\<close>: \<open>coo2csc\<close> and the sparse matrices of \<open>util.c\<close>;
    \<open>Grid_Solve\<close>: right hand sides, capacitances, \<open>direct_SLU\<close>, \<open>steady_state_temp_grid\<close>,
    \<open>backward_euler\<close> (\<open>RCutil.c\<close>) and \<open>compute_temp_grid\<close>. The network the rows spell is the relation
    \<open>joined\<close> of \<open>Grid_Joined\<close>; \<open>Grid_Rows\<close>, \<open>Grid_Assembly\<close> and \<open>Grid_Network\<close> show that the rows of cells
    and of the package are its rows, that they fit the arrays and that the matrix is a conductance
    matrix. \<open>Grid_Solve_Ok\<close> and \<open>Grid_Chip\<close> carry this through the solver for a chip with the
    default stack, \<open>Grid_Heat_Props\<close> and \<open>Grid_Column\<close> hold the properties.
    The solver \<open>dgssv\<close> of the library SuperLU is a parameter; the predicate \<open>solves\<close> states what is
    assumed of it, that it returns the solution of a system that has exactly one. \<open>Elimination\<close> is
    a solver for which \<open>solves\<close> holds, used in the witnesses.
  \<^item> \<open>Grid_Relax\<close>: what a build without SuperLU calls, the relaxation sweeps, the multigrid solver and the
    slope functions. \<open>Gauss_Seidel\<close> is the theory of such sweeps on any network, \<open>Relax_Network\<close> shows
    that the sums of the code run over the resistors of \<open>joined\<close>, \<open>Relax_Ok\<close> that a sweep is a pass over
    all nodes and what the slopes are; \<open>Relax_Props\<close> holds the properties.
  \<^item> \<open>RC_Model\<close>: the rest of \<open>temperature.c\<close>, the choice between block and grid model, the leakage power by
    the kind of architecture, the loop of \<open>steady_state_temp\<close> that makes power and temperature agree,
    and \<open>compute_temp\<close>. The globals \<open>leakage\<close> and \<open>volt\<close> are a record, the static variables of
    \<open>compute_temp\<close> another. \<open>Leakage_Ok\<close> states the interface of such a loop as the locale
    \<open>leakage_feedback\<close> and interprets it on the block and on the grid model,
    \<open>Leakage_Props\<close> holds the properties.
  \<^item> \<open>Anneal\<close>: the configuration, the metric and \<open>floorplan\<close> of \<open>flp.c\<close>, which runs everything above:
    \<open>planner_t\<close> is what one evaluation hands to the next, \<open>anneal_t\<close> the local variables of the annealing.
    \<open>Anneal_Props\<close> specifies annealing as the state machine \<open>search\<close>, states the interface of an evaluation
    as the locale \<open>evaluator\<close>, proves in it that the loops run the machine to its end, interprets it on
    \<open>evaluate_expr\<close>, and holds the property, with a run on the block model as example.

  \<^bold>\<open>What the lemmas show.\<close> Every operation keeps the invariant of its data and computes the stated
  value on every branch. The slicing tree is the one the expression spells; sizing it gives a
  tiling of a rectangle of the least area that any choice of orientations of the blocks can
  reach; wrapping the L2 around a tiled core gives a tiled chip. The random moves refine an
  abstract relation on balloted normalized expressions. Binary search, insertion, removal of
  duplicates and the command line are exact. The block model is an electrical network: its
  matrix is symmetric, with the conductances to the ambient as row sums, so its decomposition
  never stops, its steady state is the unique equilibrium, conserves heat and is monotone in the
  power, and the transient solver keeps it. Reading a configuration is exact. The maps of the grid
  model record for every cell which part of it a block covers, so that translating power to
  cells loses none. Its matrix is symmetric with the conductances to the ambient as row sums, for
  every number of rows and columns from two on; its steady state conserves heat, is monotone in
  the power and not below the ambient; a transient step balances the stored heat in every
  state that calls can reach, and does not overshoot the steady state. The relaxation solves the same
  equations: its sweeps contract towards their solution, so the loop ends, and keep nothing else; the slopes
  of the explicit solver are those of the same matrix, capacitances and power. Leakage grows with the temperature
  and the temperature with the power, so the loop of the steady state with leakage rises from a cool start
  towards the least temperatures that agree with their leakage, and never passes them. The floorplanner runs
  the annealing machine to its end and returns the floorplan of least area for the cheapest expression evaluated; only
  a move that gives up or the thermal model stops it.

  \<^bold>\<open>Bounds.\<close> Recursion that is not structural has its termination proved. The loops of
  the Runge Kutta solver may run forever, so \<open>rk4_loop\<close> and \<open>transient_loop\<close> are partial functions
  whose value is \<open>None\<close> when they do; that they return is proved for small steps and on steady
  states. So is \<open>relax_loop\<close>, which is proved to return on every chip of two rows and columns or more. The loop of the leakage ends after \<open>LEAKAGE_MAX_ITER\<close> plus one iterations, as in the source. Every other loop ends, so no fuel is needed. \<open>MAX_MOVES\<close>, \<open>MAX_STACK\<close>, \<open>STR_SIZE\<close> are those of the source. \<open>int\<close>
  counters are natural numbers or integers; they stay below the sizes of the arrays they index.

  \<^bold>\<open>Not modelled.\<close> Failure of allocation (the source stops), freeing, printing and files; the rounding
  of floating point numbers (a division by zero, which C continues with an infinity, is the
  outcome \<open>NonFinite\<close>); the inside of SuperLU, and the report of a singular matrix that the code does not look at; \<open>temperature_mobile.c\<close>, an older copy of it that
  is not built; \<open>package.c\<close> and \<open>wire.c\<close>, formulas and tables of constants; \<open>flp_desc.c\<close>, the
  grid equivalent of \<open>flp.c\<close>, \<open>gaussj\<close> of \<open>util.c\<close> and the drivers, which read, print and call what is modelled;
  \<open>DEBUG\<close> output and the code under \<open>VERBOSE > 1\<close>, which is not compiled. The names of blocks are not cut at \<open>STR_SIZE\<close>.
\<close>

end
